(* ===== verification/Prelude.thy ===== *)
theory Prelude
  imports Complex_Main "HOL-Library.Word" "HOL-Library.Sublist" "HOL-Library.Char_ord"
    "HOL-Library.List_Lexorder"
begin

text \<open>
  Shared vocabulary of the development: Go's error values and results, the functions of
  Go's \<^verbatim>\<open>strings\<close> package that the modelled code calls (over byte strings), and the
  collections of simplification rules the component theories use.

  \<^item> A Go \<^verbatim>\<open>string\<close> is a list of bytes (\<^typ>\<open>char\<close> is a byte); a \<^verbatim>\<open>[]byte\<close> is a list of
    8-bit words.
  \<^item> A Go \<^verbatim>\<open>error\<close> is the text of its message; a run-time panic is a separate value.
  \<^item> A point in time is the number of nanoseconds since Go's zero time, so \<^verbatim>\<open>IsZero\<close> is
    equality with 0.
\<close>

section \<open>Rule collections\<close>

named_theorems go_string \<open>the functions of Go's strings package\<close>
named_theorems store_law \<open>what a store returns after an update\<close>
named_theorems op_def \<open>the definitions of the operations under proof\<close>

section \<open>Errors, results, bytes, times\<close>

datatype go_err = Err string | Panic string

type_synonym 'a result = "go_err + 'a"
type_synonym byte = "8 word"
type_synonym gotime = int

abbreviation is_ok :: "'a result \<Rightarrow> bool" where
  "is_ok r \<equiv> \<not> isl r"

text \<open>The message of an error, as \<^verbatim>\<open>err.Error()\<close> gives it, for wrapping with \<^verbatim>\<open>%w\<close>.\<close>

fun err_text :: "go_err \<Rightarrow> string" where
  "err_text (Err m) = m"
| "err_text (Panic m) = m"

text \<open>\<^verbatim>\<open>fmt.Errorf("...: %w", err)\<close>; a panic is not an error and passes through.\<close>

fun wrap_err :: "string \<Rightarrow> go_err \<Rightarrow> go_err" where
  "wrap_err m (Err e) = Err (m @ '': '' @ e)"
| "wrap_err m (Panic p) = Panic p"

text \<open>\<^verbatim>\<open>'%s'\<close> in a format string.\<close>

definition quoted :: "string \<Rightarrow> string" where
  "quoted s = CHR 0x27 # s @ [CHR 0x27]"

definition IsZero :: "gotime \<Rightarrow> bool" where
  "IsZero t \<longleftrightarrow> t = 0"

text \<open>\<^verbatim>\<open>t.Sub(u)\<close> saturates.\<close>

definition time_Sub :: "gotime \<Rightarrow> gotime \<Rightarrow> int" where
  "time_Sub t u = max (- (2 ^ 63)) (min (2 ^ 63 - 1) (t - u))"

text \<open>Reading a Go map: the zero value where the key is missing.\<close>

definition go_index :: "('k \<rightharpoonup> string) \<Rightarrow> 'k \<Rightarrow> string" where
  "go_index m k = (case m k of None \<Rightarrow> '''' | Some v \<Rightarrow> v)"

text \<open>Decimal digits (\<^verbatim>\<open>%d\<close>), lower-case hexadecimal digits (\<^verbatim>\<open>hex.EncodeToString\<close>).\<close>

fun itoa :: "nat \<Rightarrow> string" where
  "itoa n = (if n < 10 then [char_of (48 + n)] else itoa (n div 10) @ [char_of (48 + n mod 10)])"

declare itoa.simps [simp del]

definition hex_digit :: "nat \<Rightarrow> char" where
  "hex_digit n = (if n < 10 then char_of (48 + n) else char_of (87 + n))"

definition EncodeToString :: "byte list \<Rightarrow> string" where
  "EncodeToString bs = concat (map (\<lambda>b. [hex_digit (unat b div 16), hex_digit (unat b mod 16)]) bs)"

lemma length_EncodeToString [simp]: "length (EncodeToString bs) = 2 * length bs"
  by (induction bs) (simp_all add: EncodeToString_def)

section \<open>Go's strings package\<close>

definition HasPrefix :: "string \<Rightarrow> string \<Rightarrow> bool" where
  "HasPrefix s p \<longleftrightarrow> take (length p) s = p"

definition HasSuffix :: "string \<Rightarrow> string \<Rightarrow> bool" where
  "HasSuffix s p \<longleftrightarrow> length p \<le> length s \<and> drop (length s - length p) s = p"

definition TrimPrefix :: "string \<Rightarrow> string \<Rightarrow> string" where
  "TrimPrefix s p = (if HasPrefix s p then drop (length p) s else s)"

definition TrimSuffix :: "string \<Rightarrow> string \<Rightarrow> string" where
  "TrimSuffix s p = (if HasSuffix s p then take (length s - length p) s else s)"

text \<open>\<^verbatim>\<open>strings.Index\<close>: the first position of a substring; \<^verbatim>\<open>-1\<close> is \<^const>\<open>None\<close>.\<close>

fun Index :: "string \<Rightarrow> string \<Rightarrow> nat option" where
  "Index [] p = (if p = [] then Some 0 else None)"
| "Index (c # cs) p = (if HasPrefix (c # cs) p then Some 0 else map_option Suc (Index cs p))"

definition Contains :: "string \<Rightarrow> string \<Rightarrow> bool" where
  "Contains s p \<longleftrightarrow> Index s p \<noteq> None"

text \<open>\<^verbatim>\<open>strings.SplitN(s, sep, 2)\<close> for a one-byte separator: the part before its first
  occurrence and, if there is one, the part after it.\<close>

fun SplitN2 :: "string \<Rightarrow> char \<Rightarrow> string \<times> string option" where
  "SplitN2 [] c = ([], None)"
| "SplitN2 (x # xs) c =
     (if x = c then ([], Some xs)
      else (case SplitN2 xs c of (a, b) \<Rightarrow> (x # a, b)))"

text \<open>\<^verbatim>\<open>strings.Split(s, sep)\<close> for a one-byte separator.\<close>

fun Split1 :: "string \<Rightarrow> char \<Rightarrow> string list" where
  "Split1 [] c = [[]]"
| "Split1 (x # xs) c =
     (if x = c then [] # Split1 xs c
      else (case Split1 xs c of [] \<Rightarrow> [[x]] | y # ys \<Rightarrow> (x # y) # ys))"

definition is_ascii :: "string \<Rightarrow> bool" where
  "is_ascii s \<longleftrightarrow> (\<forall>c \<in> set s. of_char c < (128 :: nat))"

definition lower_char :: "char \<Rightarrow> char" where
  "lower_char c =
     (if 65 \<le> (of_char c :: nat) \<and> (of_char c :: nat) \<le> 90
      then char_of ((of_char c :: nat) + 32) else c)"

text \<open>
  \<^verbatim>\<open>strings.ToLower\<close>: a bytewise map on ASCII strings; for other strings the Unicode tables
  decide, which are an argument.
\<close>

definition ToLower :: "(string \<Rightarrow> string) \<Rightarrow> string \<Rightarrow> string" where
  "ToLower uni s = (if is_ascii s then map lower_char s else uni s)"

definition EqualFold :: "(string \<Rightarrow> string \<Rightarrow> bool) \<Rightarrow> string \<Rightarrow> string \<Rightarrow> bool" where
  "EqualFold uni s t =
     (if is_ascii s \<and> is_ascii t then map lower_char s = map lower_char t else uni s t)"

section \<open>Decimal digits\<close>

definition is_digit :: "char \<Rightarrow> bool" where
  "is_digit c \<longleftrightarrow> 48 \<le> (of_char c :: nat) \<and> (of_char c :: nat) \<le> 57"

definition digits_value :: "string \<Rightarrow> nat" where
  "digits_value s = foldl (\<lambda>v c. v * 10 + ((of_char c :: nat) - 48)) 0 s"

lemma of_char_digit [simp]: "n < 10 \<Longrightarrow> of_char (char_of (48 + n)) = (48 + n :: nat)"
  by simp

lemma itoa_digits: "list_all is_digit (itoa n)"
proof (induction n rule: itoa.induct)
  case (1 n)
  have "is_digit (char_of (48 + m))" if "m < 10" for m :: nat
    using that by (simp add: is_digit_def)
  with "1" show ?case by (subst itoa.simps) auto
qed

lemma itoa_nonempty [simp]: "itoa n \<noteq> []"
  by (subst itoa.simps) simp

lemma itoa_value [simp]: "digits_value (itoa n) = n"
proof (induction n rule: itoa.induct)
  case (1 n)
  then show ?case by (subst itoa.simps) (auto simp: digits_value_def)
qed

lemma itoa_length1: "n < 10 \<Longrightarrow> length (itoa n) = 1"
  by (subst itoa.simps) simp

lemma itoa_hd: "0 < n \<Longrightarrow> hd (itoa n) \<noteq> CHR ''0''"
proof (induction n rule: itoa.induct)
  case (1 n)
  show ?case
  proof (cases "n < 10")
    case True
    have "(of_char (char_of (48 + n)) :: nat) \<noteq> of_char CHR ''0''"
      using True "1.prems" by simp
    with True show ?thesis by (subst itoa.simps) (metis (full_types) list.sel(1))
  next
    case False
    with "1.IH" have "hd (itoa (n div 10)) \<noteq> CHR ''0''" by simp
    with False show ?thesis by (subst itoa.simps) simp
  qed
qed

lemma itoa_no_leading_zero: "length (itoa n) = 1 \<or> hd (itoa n) \<noteq> CHR ''0''"
  using itoa_hd itoa_length1 by (cases "n = 0") auto

lemma itoa_notin: "\<not> is_digit c \<Longrightarrow> c \<notin> set (itoa n)"
  using itoa_digits [of n] by (auto simp: list_all_iff)

section \<open>Lemmas on the string functions\<close>

lemma HasPrefix_prefix [go_string]: "HasPrefix s p \<longleftrightarrow> prefix p s"
  by (metis HasPrefix_def append_eq_conv_conj append_take_drop_id prefix_def)

lemma HasPrefix_append [simp]: "HasPrefix (p @ s) p"
  by (simp add: HasPrefix_def)

lemma HasSuffix_append [simp]: "HasSuffix (s @ p) p"
  by (simp add: HasSuffix_def)

lemma TrimPrefix_append [simp]: "TrimPrefix (p @ s) p = s"
  by (simp add: TrimPrefix_def)

lemma TrimSuffix_append [simp]: "TrimSuffix (s @ p) p = s"
  by (simp add: TrimSuffix_def)

lemma Index_Some_bound: "Index s p = Some i \<Longrightarrow> i + length p \<le> length s \<and> take (length p) (drop i s) = p"
proof (induction s arbitrary: i)
  case Nil
  then show ?case by (auto split: if_splits)
next
  case (Cons c cs)
  show ?case
  proof (cases "HasPrefix (c # cs) p")
    case True
    then have "take (length p) (c # cs) = p" by (simp add: HasPrefix_def)
    moreover from this have "length p \<le> length (c # cs)"
      by (metis length_take min.cobounded1)
    ultimately show ?thesis using Cons.prems True by auto
  next
    case False
    with Cons.prems obtain j where "Index cs p = Some j" "i = Suc j" by auto
    with Cons.IH show ?thesis by fastforce
  qed
qed

lemma Index_singleton_None [go_string]: "Index s [c] = None \<longleftrightarrow> c \<notin> set s"
  by (induction s) (auto simp: HasPrefix_def)

lemma Contains_singleton [go_string]: "Contains s [c] \<longleftrightarrow> c \<in> set s"
  by (simp add: Contains_def Index_singleton_None)

lemma SplitN2_None [go_string]: "snd (SplitN2 s c) = None \<longleftrightarrow> c \<notin> set s"
  by (induction s) (auto split: prod.splits)

lemma SplitN2_notin [simp]: "c \<notin> set s \<Longrightarrow> SplitN2 s c = (s, None)"
  by (induction s) auto

lemma SplitN2_append [simp]: "c \<notin> set s \<Longrightarrow> SplitN2 (s @ c # t) c = (s, Some t)"
  by (induction s) auto

lemma fst_SplitN2_notin: "c \<notin> set (fst (SplitN2 s c))"
  by (induction s) (auto split: prod.splits)

lemma Split1_nonempty [simp]: "Split1 s c \<noteq> []"
  by (induction s) (auto split: list.splits)

lemma Split1_notin [simp]: "c \<notin> set s \<Longrightarrow> Split1 s c = [s]"
  by (induction s) auto

lemma Split1_append: "Split1 (s @ c # t) c = Split1 s c @ Split1 t c"
  by (induction s) (auto split: list.splits)

section \<open>Integers at their width, times in JSON\<close>

text \<open>\<^verbatim>\<open>int64\<close> arithmetic wraps around.\<close>

definition int64 :: "int \<Rightarrow> int" where
  "int64 x = sint (of_int x :: 64 word)"

text \<open>An integer in the signed 64-bit range is kept.\<close>

lemma sint_of_int_small: "- (2 ^ 63) \<le> x \<Longrightarrow> x < 2 ^ 63 \<Longrightarrow> sint (of_int x :: 64 word) = x"
  by (simp add: sint_sbintrunc' signed_take_bit_int_eq_self)

lemma int64_small: "- (2 ^ 63) \<le> x \<Longrightarrow> x < 2 ^ 63 \<Longrightarrow> int64 x = x"
  by (simp only: int64_def sint_of_int_small)

lemma int64_int64_add [simp]: "int64 (int64 x + y) = int64 (x + y)" "int64 (x + int64 y) = int64 (x + y)"
  by (simp_all add: int64_def)

lemma int64_int64_diff [simp]: "int64 (int64 x - y) = int64 (x - y)" "int64 (x - int64 y) = int64 (x - y)"
  by (simp_all add: int64_def)

text \<open>
  \<^verbatim>\<open>encoding/json\<close> refuses a time whose year is not within 0 to 9999, here in nanoseconds since
  1 January of year 1.
\<close>

definition json_time :: "gotime \<Rightarrow> bool" where
  "json_time t \<longleftrightarrow> - (366 * 86400 * 10 ^ 9) \<le> t \<and> t < 3652059 * 86400 * 10 ^ 9"

definition json_time_error :: go_err where
  "json_time_error = Err (''json: error calling MarshalJSON for type time.Time: '' @
     ''Time.MarshalJSON: year outside of range [0,9999]'')"

end
