(* ===== verification/Glob.thy ===== *)
theory Glob
  imports Prelude
begin

text \<open>
  The wildcard matcher of the policy engine, \<^verbatim>\<open>globMatch\<close> of
  \<^verbatim>\<open>internal/iam/policy.go\<close>: an iterative matcher with one saved backtracking point,
  and its equivalence with the recursive meaning of a pattern.
\<close>

section \<open>The loop of globMatch\<close>

text \<open>
  \<open>glob_loop p s pix six star m\<close> is the first loop with its four variables
  (\<^verbatim>\<open>starIdx = -1\<close> is \<^const>\<open>None\<close>). The result is \<open>Some pix\<close> when the loop ends with that
  pattern index and \<^const>\<open>None\<close> where the code returns \<^verbatim>\<open>false\<close> from inside it.
\<close>

function glob_loop :: "string \<Rightarrow> string \<Rightarrow> nat \<Rightarrow> nat \<Rightarrow> nat option \<Rightarrow> nat \<Rightarrow> nat option" where
  "glob_loop p s pix six star m =
     (if six < length s then
        if pix < length p \<and> (p ! pix = s ! six \<or> p ! pix = CHR ''?'') then
          glob_loop p s (pix + 1) (six + 1) star m
        else if pix < length p \<and> p ! pix = CHR ''*'' then
          glob_loop p s (pix + 1) six (Some pix) six
        else (case star of
                Some k \<Rightarrow> glob_loop p s (k + 1) (m + 1) star (m + 1)
              | None \<Rightarrow> None)
      else Some pix)"
  by pat_completeness auto
termination
  by (relation "measures [\<lambda>(p, s, pix, six, star, m). if m \<le> six then 0 else 1,
                          \<lambda>(p, s, pix, six, star, m). length s - m,
                          \<lambda>(p, s, pix, six, star, m). length p - pix]")
     (auto split: if_splits)

declare glob_loop.simps [simp del]

text \<open>The second loop: skip the trailing stars of the pattern.\<close>

function skip_stars :: "string \<Rightarrow> nat \<Rightarrow> nat" where
  "skip_stars p pix =
     (if pix < length p \<and> p ! pix = CHR ''*'' then skip_stars p (pix + 1) else pix)"
  by pat_completeness auto
termination
  by (relation "measure (\<lambda>(p, pix). length p - pix)") auto

declare skip_stars.simps [simp del]

definition globMatch :: "string \<Rightarrow> string \<Rightarrow> bool" where
  "globMatch pattern str =
     (case glob_loop pattern str 0 0 None 0 of
        None \<Rightarrow> False
      | Some pix \<Rightarrow> skip_stars pattern pix = length pattern)"

section \<open>The meaning of a pattern\<close>

text \<open>\<^verbatim>\<open>*\<close> stands for any run of bytes, \<^verbatim>\<open>?\<close> for any one byte, any other byte for itself.\<close>

fun glob :: "string \<Rightarrow> string \<Rightarrow> bool" where
  "glob [] s = (s = [])"
| "glob (p # ps) [] = (p = CHR ''*'' \<and> glob ps [])"
| "glob (p # ps) (c # cs) =
     (if p = CHR ''*'' then glob ps (c # cs) \<or> glob (p # ps) cs
      else (p = CHR ''?'' \<or> p = c) \<and> glob ps cs)"

section \<open>Facts about the meaning\<close>

lemma glob_star: "glob (CHR ''*'' # ps) s \<longleftrightarrow> (\<exists>j \<le> length s. glob ps (drop j s))"
proof (induction s)
  case Nil
  then show ?case by simp
next
  case (Cons c cs)
  have "(\<exists>j \<le> length (c # cs). glob ps (drop j (c # cs))) \<longleftrightarrow>
        glob ps (c # cs) \<or> (\<exists>j \<le> length cs. glob ps (drop j cs))"
    by (metis (no_types, lifting) Suc_le_mono drop0 drop_Suc_Cons length_Cons not0_implies_Suc zero_le)
  with Cons show ?case by simp
qed

lemma glob_star_drop: "glob (CHR ''*'' # ps) (drop j s) \<Longrightarrow> glob (CHR ''*'' # ps) s"
proof -
  assume "glob (CHR ''*'' # ps) (drop j s)"
  then obtain i where i: "i \<le> length (drop j s)" "glob ps (drop i (drop j s))"
    by (auto simp: glob_star)
  then have "glob ps (drop (min (i + j) (length s)) s)"
    by (cases "i + j \<le> length s") auto
  then show ?thesis unfolding glob_star using min.cobounded2 by blast
qed

lemma glob_starfree_length:
  "CHR ''*'' \<notin> set seg \<Longrightarrow> glob (seg @ ps) s \<Longrightarrow> length seg \<le> length s"
proof (induction seg arbitrary: s)
  case (Cons x seg)
  then show ?case by (cases s) (auto split: if_splits)
qed simp

lemma glob_starfree_drop:
  "CHR ''*'' \<notin> set seg \<Longrightarrow> glob (seg @ ps) s \<Longrightarrow> glob ps (drop (length seg) s)"
proof (induction seg arbitrary: s)
  case (Cons x seg)
  then show ?case by (cases s) (auto split: if_splits)
qed simp

lemma skip_stars_end: "pix \<le> length p \<Longrightarrow> skip_stars p pix = length p \<longleftrightarrow> glob (drop pix p) []"
proof (induction p pix rule: skip_stars.induct)
  case (1 p pix)
  show ?case
  proof (cases "pix < length p")
    case True
    then have d: "drop pix p = p ! pix # drop (Suc pix) p" by (simp add: Cons_nth_drop_Suc)
    with "1" True show ?thesis by (simp add: skip_stars.simps [of p pix] d)
  next
    case False
    with "1.prems" show ?thesis by (simp add: skip_stars.simps [of p "length p"])
  qed
qed

section \<open>The loop computes the meaning\<close>

text \<open>
  What is left to try when the loop is at its head: the rest of the pattern at the current
  position, or the pattern after the saved star at a later position than the saved one.
\<close>

definition glob_todo :: "string \<Rightarrow> string \<Rightarrow> nat \<Rightarrow> nat \<Rightarrow> nat option \<Rightarrow> nat \<Rightarrow> bool" where
  "glob_todo p s pix six star m \<longleftrightarrow>
     glob (drop pix p) (drop six s) \<or>
     (case star of None \<Rightarrow> False
      | Some k \<Rightarrow> \<exists>j. m < j \<and> j \<le> length s \<and> glob (drop (k + 1) p) (drop j s))"

text \<open>
  The loop's invariant: since the saved star, as many bytes of the string were consumed as
  bytes of the pattern, none of which is a star.
\<close>

definition glob_inv :: "string \<Rightarrow> string \<Rightarrow> nat \<Rightarrow> nat \<Rightarrow> nat option \<Rightarrow> nat \<Rightarrow> bool" where
  "glob_inv p s pix six star m \<longleftrightarrow>
     pix \<le> length p \<and> six \<le> length s \<and>
     (case star of None \<Rightarrow> True
      | Some k \<Rightarrow> k + 1 \<le> pix \<and> m \<le> six \<and> six - m = pix - (k + 1) \<and>
          CHR ''*'' \<notin> set (take (pix - (k + 1)) (drop (k + 1) p)))"

lemma glob_retry:
  assumes inv: "glob_inv p s pix six (Some k) m" and j: "m < j" "j \<le> length s"
    and g: "glob (drop (k + 1) p) (drop j s)"
  shows "six < j + (six - m)" and "j + (six - m) \<le> length s"
    and "glob (drop pix p) (drop (j + (six - m)) s)"
proof -
  let ?n = "pix - (k + 1)"
  let ?seg = "take ?n (drop (k + 1) p)"
  from inv have k: "k + 1 \<le> pix" "pix \<le> length p" "m \<le> six" "six - m = ?n"
    and free: "CHR ''*'' \<notin> set ?seg"
    by (auto simp: glob_inv_def)
  then have len: "length ?seg = six - m" by auto
  have split: "drop (k + 1) p = ?seg @ drop pix p"
    using k by (metis append_take_drop_id drop_drop le_add_diff_inverse2)
  with g have g': "glob (?seg @ drop pix p) (drop j s)" by simp
  show "six < j + (six - m)" using k j by arith
  show "j + (six - m) \<le> length s"
    using glob_starfree_length [OF free g'] len j by simp
  show "glob (drop pix p) (drop (j + (six - m)) s)"
    using glob_starfree_drop [OF free g'] len by (simp add: add.commute)
qed

lemma glob_todo_end:
  assumes "glob_inv p s pix six star m" "\<not> six < length s"
  shows "glob_todo p s pix six star m \<longleftrightarrow> glob (drop pix p) []"
proof (cases star)
  case (Some k)
  have "\<not> (\<exists>j. m < j \<and> j \<le> length s \<and> glob (drop (k + 1) p) (drop j s))"
    using glob_retry(1,2) [of p s pix six k m] assms Some by fastforce
  with assms Some show ?thesis by (auto simp: glob_todo_def)
qed (use assms in \<open>simp add: glob_todo_def\<close>)

lemma glob_todo_advance:
  assumes "glob_inv p s pix six star m" "six < length s" "pix < length p"
    and "p ! pix = s ! six \<or> p ! pix = CHR ''?''" "CHR ''*'' \<notin> set s"
  shows "glob_todo p s pix six star m \<longleftrightarrow> glob_todo p s (pix + 1) (six + 1) star m"
    and "glob_inv p s (pix + 1) (six + 1) star m"
proof -
  have "s ! six \<noteq> CHR ''*''" using assms(2,5) nth_mem by fastforce
  with assms(4) have "p ! pix \<noteq> CHR ''*''" by auto
  moreover have "drop pix p = p ! pix # drop (pix + 1) p" "drop six s = s ! six # drop (six + 1) s"
    using assms by (simp_all add: Cons_nth_drop_Suc)
  ultimately have "glob (drop pix p) (drop six s) \<longleftrightarrow> glob (drop (pix + 1) p) (drop (six + 1) s)"
    using assms(4) by auto
  then show "glob_todo p s pix six star m \<longleftrightarrow> glob_todo p s (pix + 1) (six + 1) star m"
    by (simp add: glob_todo_def)
  have "CHR ''*'' \<notin> set (take (pix + 1 - (k + 1)) (drop (k + 1) p))"
    if "star = Some k" for k
  proof -
    from that assms(1) have k: "k + 1 \<le> pix"
      and free: "CHR ''*'' \<notin> set (take (pix - (k + 1)) (drop (k + 1) p))"
      by (auto simp: glob_inv_def)
    have "take (pix + 1 - (k + 1)) (drop (k + 1) p) =
          take (pix - (k + 1)) (drop (k + 1) p) @ [p ! pix]"
      using k assms(3) take_Suc_conv_app_nth [of "pix - (k + 1)" "drop (k + 1) p"]
      by (simp add: Suc_diff_Suc)
    with free \<open>p ! pix \<noteq> CHR ''*''\<close> show ?thesis by simp
  qed
  then show "glob_inv p s (pix + 1) (six + 1) star m"
    using assms(1-3) by (auto simp: glob_inv_def split: option.splits)
qed

lemma glob_todo_star:
  assumes "glob_inv p s pix six star m" "six < length s" "pix < length p" "p ! pix = CHR ''*''"
  shows "glob_todo p s pix six star m \<longleftrightarrow> glob_todo p s (pix + 1) six (Some pix) six"
    and "glob_inv p s (pix + 1) six (Some pix) six"
proof -
  have d: "drop pix p = CHR ''*'' # drop (pix + 1) p"
    using assms(3,4) by (simp add: Cons_nth_drop_Suc flip: assms(4))
  have old: "glob (drop pix p) (drop six s)"
    if s: "star = Some k" "m < j" "j \<le> length s" "glob (drop (k + 1) p) (drop j s)" for k j
  proof -
    have r: "six < j + (six - m)" "glob (drop pix p) (drop (j + (six - m)) s)"
      using glob_retry [of p s pix six k m j] assms(1) s by auto
    then have "glob (drop pix p) (drop (j + (six - m) - six) (drop six s))" by simp
    then show ?thesis unfolding d by (rule glob_star_drop)
  qed
  have "glob (drop pix p) (drop six s) \<longleftrightarrow>
        (\<exists>j \<le> length s - six. glob (drop (pix + 1) p) (drop (six + j) s))"
    unfolding d by (simp add: glob_star add.commute)
  also have "\<dots> \<longleftrightarrow> (\<exists>j. six \<le> j \<and> j \<le> length s \<and> glob (drop (pix + 1) p) (drop j s))"
    by (metis Nat.le_diff_conv2 add.commute assms(2) le_add1 less_imp_le_nat nat_le_iff_add)
  also have "\<dots> \<longleftrightarrow> glob_todo p s (pix + 1) six (Some pix) six"
    using assms(2) by (auto simp: glob_todo_def le_less)
  finally show "glob_todo p s pix six star m \<longleftrightarrow> glob_todo p s (pix + 1) six (Some pix) six"
    using old by (auto simp: glob_todo_def split: option.splits)
  show "glob_inv p s (pix + 1) six (Some pix) six"
    using assms by (auto simp: glob_inv_def)
qed

lemma ex_greater_unfold:
  fixes P :: "nat \<Rightarrow> bool"
  assumes "m + 1 \<le> n"
  shows "(\<exists>j. m < j \<and> j \<le> n \<and> P j) \<longleftrightarrow> P (m + 1) \<or> (\<exists>j. m + 1 < j \<and> j \<le> n \<and> P j)"
  using assms by (metis Suc_eq_plus1 Suc_lessD Suc_lessI lessI)

lemma glob_todo_mismatch:
  assumes "glob_inv p s pix six star m" "six < length s"
    and "\<not> (pix < length p \<and> (p ! pix = s ! six \<or> p ! pix = CHR ''?''))"
    and "\<not> (pix < length p \<and> p ! pix = CHR ''*'')"
  shows "glob_todo p s pix six star m \<longleftrightarrow>
     (case star of None \<Rightarrow> False | Some k \<Rightarrow> glob_todo p s (k + 1) (m + 1) star (m + 1))"
    and "star = Some k \<Longrightarrow> glob_inv p s (k + 1) (m + 1) star (m + 1)"
proof -
  have "\<not> glob (drop pix p) (drop six s)"
  proof (cases "pix < length p")
    case True
    then have "drop pix p = p ! pix # drop (pix + 1) p" "drop six s = s ! six # drop (six + 1) s"
      using assms(2) by (simp_all add: Cons_nth_drop_Suc)
    with assms(3,4) True show ?thesis by simp
  next
    case False
    with assms(2) show ?thesis by simp
  qed
  moreover have "m + 1 \<le> length s" if "star = Some k" for k
    using assms(1,2) that by (auto simp: glob_inv_def)
  ultimately show "glob_todo p s pix six star m \<longleftrightarrow>
     (case star of None \<Rightarrow> False | Some k \<Rightarrow> glob_todo p s (k + 1) (m + 1) star (m + 1))"
    by (cases star) (simp_all add: glob_todo_def ex_greater_unfold)
  show "star = Some k \<Longrightarrow> glob_inv p s (k + 1) (m + 1) star (m + 1)"
    using assms(1,2) by (auto simp: glob_inv_def)
qed

lemma glob_loop_correct:
  assumes "glob_inv p s pix six star m" "CHR ''*'' \<notin> set s"
  shows "(case glob_loop p s pix six star m of None \<Rightarrow> False
          | Some pix' \<Rightarrow> skip_stars p pix' = length p) \<longleftrightarrow> glob_todo p s pix six star m"
  using assms
proof (induction p s pix six star m rule: glob_loop.induct)
  case (1 p s pix six star m)
  consider (fin) "\<not> six < length s"
    | (adv) "six < length s" "pix < length p" "p ! pix = s ! six \<or> p ! pix = CHR ''?''"
    | (star) "six < length s" "\<not> (pix < length p \<and> (p ! pix = s ! six \<or> p ! pix = CHR ''?''))"
        "pix < length p" "p ! pix = CHR ''*''"
    | (mis) "six < length s" "\<not> (pix < length p \<and> (p ! pix = s ! six \<or> p ! pix = CHR ''?''))"
        "\<not> (pix < length p \<and> p ! pix = CHR ''*'')"
    by blast
  then show ?case
  proof cases
    case fin
    with "1.prems" have "pix \<le> length p" by (simp add: glob_inv_def)
    with fin "1.prems" show ?thesis
      by (simp add: glob_loop.simps [of p s pix six star m] skip_stars_end glob_todo_end)
  next
    case adv
    note t = glob_todo_advance [OF "1.prems"(1) adv "1.prems"(2)]
    from "1.IH"(1) [OF adv(1) conjI [OF adv(2,3)] t(2) "1.prems"(2)] t(1) adv show ?thesis
      by (simp add: glob_loop.simps [of p s pix six star m])
  next
    case star
    note t = glob_todo_star [OF "1.prems"(1) star(1,3,4)]
    from "1.IH"(2) [OF star(1,2) conjI [OF star(3,4)] t(2) "1.prems"(2)] t(1) star show ?thesis
      by (simp add: glob_loop.simps [of p s pix six star m])
  next
    case mis
    note t = glob_todo_mismatch [OF "1.prems"(1) mis]
    show ?thesis
    proof (cases star)
      case None
      with t(1) mis show ?thesis by (auto simp: glob_loop.simps [of p s pix six None m])
    next
      case (Some k)
      with "1.IH"(3) [OF mis Some t(2) [OF Some] "1.prems"(2)] t(1) mis show ?thesis
        by (auto simp: glob_loop.simps [of p s pix six "Some k" m])
    qed
  qed
qed

text \<open>On strings without a star byte the matcher decides the pattern's meaning.\<close>

lemma globMatch_glob:
  assumes "CHR ''*'' \<notin> set s"
  shows "globMatch p s \<longleftrightarrow> glob p s"
proof -
  have "glob_inv p s 0 0 None 0" by (simp add: glob_inv_def)
  from glob_loop_correct [OF this assms] show ?thesis
    by (simp add: globMatch_def glob_todo_def)
qed

text \<open>Patterns without wildcards match exactly themselves.\<close>

lemma glob_literal:
  "CHR ''*'' \<notin> set p \<Longrightarrow> CHR ''?'' \<notin> set p \<Longrightarrow> glob p s \<longleftrightarrow> p = s"
proof (induction p s rule: glob.induct)
  case (3 p ps c cs)
  then show ?case by auto
qed auto

lemma glob_prefix_star: "CHR ''*'' \<notin> set p \<Longrightarrow> CHR ''?'' \<notin> set p \<Longrightarrow>
  glob (p @ ''*'') s \<longleftrightarrow> prefix p s"
proof (induction p arbitrary: s)
  case Nil
  have "glob ''*'' s" by (induction s) auto
  then show ?case by simp
next
  case (Cons a p)
  then show ?case by (cases s) auto
qed

text \<open>Whatever bytes the string has, a match of the loop is a match of the pattern's meaning.\<close>

lemma glob_star_cover:
  "k < length p \<Longrightarrow> p ! k = CHR ''*'' \<Longrightarrow>
   glob (drop (Suc k) p) (drop j s) \<or> glob (drop k p) (drop j s) \<Longrightarrow> i \<le> j \<Longrightarrow>
   glob (drop k p) (drop i s)"
  using glob_star_drop [of "drop (Suc k) p" "j - i" "drop i s"] glob_star [of "drop (Suc k) p" "drop j s"]
  by (auto simp: Cons_nth_drop_Suc [symmetric] intro: exI [of _ 0])

lemma glob_loop_sound:
  assumes "glob_loop p s pix six star m = Some q" "skip_stars p q = length p"
    and "pix \<le> length p" "m \<le> six"
    and "\<And>k. star = Some k \<Longrightarrow> k < length p \<and> p ! k = CHR ''*''"
  shows "glob (drop pix p) (drop six s) \<or> (\<exists>k. star = Some k \<and> glob (drop k p) (drop m s))"
  using assms
proof (induction p s pix six star m rule: glob_loop.induct)
  case (1 p s pix six star m)
  consider (fin) "\<not> six < length s"
    | (lit) "six < length s" "pix < length p" "p ! pix = s ! six \<or> p ! pix = CHR ''?''"
    | (seek) "six < length s" "pix < length p" "p ! pix = CHR ''*''" "p ! pix \<noteq> s ! six"
    | (retry) "six < length s" "\<not> (pix < length p \<and> (p ! pix = s ! six \<or> p ! pix = CHR ''?'' \<or> p ! pix = CHR ''*''))"
    by fastforce
  then show ?case
  proof cases
    case fin
    with 1(4-6) skip_stars_end [of pix p] show ?thesis by (simp add: glob_loop.simps [of p s pix])
  next
    case lit
    with 1(1) 1(4-8) have "glob (drop (pix + 1) p) (drop (six + 1) s) \<or> (\<exists>k. star = Some k \<and> glob (drop k p) (drop m s))"
      by (simp add: glob_loop.simps [of p s pix])
    moreover have "glob (CHR ''*'' # ps) cs" if "glob ps cs" for ps cs
      using that unfolding glob_star by (auto intro: exI [of _ 0])
    ultimately show ?thesis using lit by (auto simp: Cons_nth_drop_Suc [symmetric])
  next
    case seek
    then have "p ! pix \<noteq> CHR ''?''" by simp
    with seek 1(2) 1(4-8) have "glob (drop (pix + 1) p) (drop six s) \<or> glob (drop pix p) (drop six s)"
      by (simp add: glob_loop.simps [of p s pix])
    with seek show ?thesis using glob_star_cover [of pix p six s six] by simp
  next
    case retry
    with 1(4) obtain k where k: "star = Some k"
      by (auto simp: glob_loop.simps [of p s pix] split: option.splits)
    with retry 1(4) have "glob_loop p s (k + 1) (m + 1) star (m + 1) = Some q"
      by (subst (asm) glob_loop.simps) (auto split: if_splits)
    with retry 1(3) [OF _ _ _ k] 1(5-8) k
    have "glob (drop (k + 1) p) (drop (m + 1) s) \<or> glob (drop k p) (drop (m + 1) s)"
      by auto
    with k 1(8) [OF k] show ?thesis using glob_star_cover [of k p "m + 1" s m] by simp
  qed
qed

lemma globMatch_sound: "globMatch p s \<Longrightarrow> glob p s"
  using glob_loop_sound [of p s 0 0 None 0] by (auto simp: globMatch_def split: option.splits)

section \<open>Properties\<close>

text \<open>
  C10. The wildcard matcher of the policy engine, with its single saved backtracking point,
  is equivalent to the recursive meaning of a pattern: whatever it matches the pattern
  matches, for every string, and on strings without a star byte it matches exactly those.
\<close>

theorem globMatch_correct:
  "(globMatch p s \<longrightarrow> glob p s) \<and> (CHR ''*'' \<notin> set s \<longrightarrow> (globMatch p s \<longleftrightarrow> glob p s))"
  using globMatch_sound globMatch_glob by blast

theorem globMatch_correct_witness:
  "CHR ''*'' \<notin> set ''s3:GetObject'' \<and>
   globMatch ''s3:*Obj?ct'' ''s3:GetObject'' \<and> \<not> globMatch ''s3:*Obj?ct'' ''s3:GetObjects''"
  using globMatch_correct [of "''s3:*Obj?ct''" "''s3:GetObject''"]
    globMatch_correct [of "''s3:*Obj?ct''" "''s3:GetObjects''"]
  by simp

text \<open>
  A star in the string is compared as a literal before the pattern's star is read as a
  wildcard, so a trailing wildcard fails on a name that has a star at that place: the
  pattern \<^verbatim>\<open>logs/*\<close> means every key under \<^verbatim>\<open>logs/\<close> and does not match the key \<^verbatim>\<open>logs/*x\<close>.
\<close>

theorem globMatch_star_byte:
  "glob ''logs/*'' ''logs/*x'' \<and> \<not> globMatch ''logs/*'' ''logs/*x''"
  by (simp add: globMatch_def glob_loop.simps skip_stars.simps)

end
