(* ===== verification/IAM_Types.thy ===== *)
theory IAM_Types
  imports Prelude
begin

text \<open>
  The data of the identity and access management package, \<^verbatim>\<open>internal/iam/types.go\<close>: users,
  groups, roles, managed and bucket policies, policy documents and their statements, the
  evaluation context and result, temporary credentials, and the resource names (ARNs) of
  CipherLake with the two conversions between an ARN and a bucket and key.
\<close>

section \<open>Constants\<close>

definition ARNPrefix :: string where "ARNPrefix = ''arn:cipherlake:''"
definition ServiceS3 :: string where "ServiceS3 = ''s3''"
definition ServiceIAM :: string where "ServiceIAM = ''iam''"
definition ServiceVector :: string where "ServiceVector = ''vector''"
definition AccessKeyIDPrefix :: string where "AccessKeyIDPrefix = ''AKIA''"
definition AccessKeyActive :: string where "AccessKeyActive = ''Active''"
definition AccessKeyInactive :: string where "AccessKeyInactive = ''Inactive''"
definition EffectAllow :: string where "EffectAllow = ''Allow''"
definition EffectDeny :: string where "EffectDeny = ''Deny''"
definition PolicyVersion :: string where "PolicyVersion = ''2012-10-17''"
definition DefaultMaxSessionDuration :: int where "DefaultMaxSessionDuration = 3600"

lemmas iam_const_defs = ARNPrefix_def ServiceS3_def ServiceIAM_def ServiceVector_def
  AccessKeyIDPrefix_def AccessKeyActive_def AccessKeyInactive_def EffectAllow_def
  EffectDeny_def PolicyVersion_def DefaultMaxSessionDuration_def

lemma effects_differ [simp]: "EffectAllow \<noteq> EffectDeny" "EffectDeny \<noteq> EffectAllow"
  by (simp_all add: EffectAllow_def EffectDeny_def)

lemma key_status_differ [simp]:
  "AccessKeyActive \<noteq> AccessKeyInactive" "AccessKeyInactive \<noteq> AccessKeyActive"
  by (simp_all add: AccessKeyActive_def AccessKeyInactive_def)

section \<open>Policy documents\<close>

text \<open>
  A 64-bit float, up to the sign of zero, and a decoded JSON value (Go's \<^verbatim>\<open>interface{}\<close>
  as \<^verbatim>\<open>encoding/json\<close> fills it).
\<close>

datatype f64 = NaN | PosInf | NegInf | Fin rat

datatype jvalue =
    JString string | JBool bool | JNumber f64 | JNull
  | JArray "jvalue list" | JObject "(string \<times> jvalue) list"

type_synonym StringOrSlice = "string list"

record Principal =
  principal_AWS :: StringOrSlice
  principal_Service :: StringOrSlice
  principal_Federated :: StringOrSlice

text \<open>
  The condition block is a Go map of maps; the association list gives the order in which
  one run of the evaluator visits it.
\<close>

type_synonym ConditionBlock = "(string \<times> (string \<times> jvalue) list) list"

record Statement =
  stmt_Sid :: string
  stmt_Effect :: string
  stmt_Action :: StringOrSlice
  stmt_NotAction :: StringOrSlice
  stmt_Resource :: StringOrSlice
  stmt_NotResource :: StringOrSlice
  stmt_Principal :: "Principal option"
  stmt_NotPrincipal :: "Principal option"
  stmt_Condition :: ConditionBlock

record PolicyDocument =
  doc_Version :: string
  doc_Id :: string
  doc_Statement :: "Statement list"

section \<open>Identities and stored records\<close>

record AccessKey =
  ak_AccessKeyID :: string
  ak_SecretKeyEnc :: "byte list"
  ak_Status :: string
  ak_CreatedAt :: gotime
  ak_LastUsedAt :: "gotime option"
  ak_Description :: string

record IAMUser =
  user_ID :: string
  user_Name :: string
  user_DisplayName :: string
  user_AccessKeys :: "AccessKey list"
  user_Groups :: "string list"
  user_AttachedPolicies :: "string list"
  user_InlinePolicies :: "PolicyDocument list"
  user_PermissionBoundary :: string
  user_PasswordHash :: string
  user_CreatedAt :: gotime
  user_LastActivityAt :: "gotime option"

record IAMGroup =
  group_Name :: string
  group_Description :: string
  group_Users :: "string list"
  group_AttachedPolicies :: "string list"
  group_CreatedAt :: gotime

record IAMRole =
  role_Name :: string
  role_Description :: string
  role_TrustPolicy :: PolicyDocument
  role_PermissionPolicies :: "string list"
  role_MaxSessionDuration :: int
  role_Path :: string
  role_CreatedAt :: gotime

record IAMPolicy =
  policy_ARN :: string
  policy_Name :: string
  policy_Description :: string
  policy_Type :: string
  policy_Document :: PolicyDocument
  policy_Path :: string
  policy_CreatedAt :: gotime
  policy_UpdatedAt :: gotime

record BucketPolicy =
  bp_Bucket :: string
  bp_Document :: PolicyDocument
  bp_UpdatedAt :: gotime

record TemporaryCredential =
  cred_AccessKeyID :: string
  cred_SecretAccessKey :: string
  cred_SessionToken :: string
  cred_Expiration :: gotime

record AssumeRoleRequest =
  req_RoleARN :: string
  req_RoleSessionName :: string
  req_DurationSeconds :: int
  req_ExternalID :: string
  req_Policy :: string

record CreateAccessKeyResult =
  akr_AccessKeyID :: string
  akr_SecretAccessKey :: string
  akr_Status :: string
  akr_CreatedAt :: gotime

section \<open>Evaluation context and result\<close>

text \<open>A map field of the context is \<^const>\<open>None\<close> where the Go map is \<^verbatim>\<open>nil\<close>.\<close>

type_synonym tags = "(string \<rightharpoonup> string) option"

record EvalContext =
  ctx_Principal :: string
  ctx_Action :: string
  ctx_Resource :: string
  ctx_Conditions :: tags
  ctx_SourceIP :: string
  ctx_Time :: gotime
  ctx_UserAgent :: string
  ctx_PrincipalType :: string
  ctx_ResourceTags :: tags
  ctx_PrincipalTags :: tags
  ctx_RequestTags :: tags
  ctx_S3Prefix :: string
  ctx_S3ACL :: string

datatype Decision = DecisionDeny | DecisionAllow | DecisionImplicitDeny

fun Decision_String :: "Decision \<Rightarrow> string" where
  "Decision_String DecisionAllow = ''Allow''"
| "Decision_String DecisionDeny = ''Deny''"
| "Decision_String DecisionImplicitDeny = ''ImplicitDeny''"

record EvalResult =
  res_Decision :: Decision
  res_MatchedBy :: string
  res_PolicyType :: string
  res_PolicyName :: string
  res_Details :: string

record SimulateResponse =
  sim_Decision :: string
  sim_MatchedBy :: string
  sim_PolicyType :: string
  sim_Details :: string

section \<open>Resource names\<close>

definition MakeARN :: "string \<Rightarrow> string \<Rightarrow> string" where
  "MakeARN service resource = ARNPrefix @ service @ '':::'' @ resource"

definition MakeUserARN :: "string \<Rightarrow> string" where
  "MakeUserARN userName = MakeARN ServiceIAM (''user/'' @ userName)"

definition MakeRoleARN :: "string \<Rightarrow> string" where
  "MakeRoleARN roleName = MakeARN ServiceIAM (''role/'' @ roleName)"

definition MakePolicyARN :: "string \<Rightarrow> string" where
  "MakePolicyARN policyName = MakeARN ServiceIAM (''policy/'' @ policyName)"

definition MakeBucketARN :: "string \<Rightarrow> string" where
  "MakeBucketARN bucketName = MakeARN ServiceS3 bucketName"

definition MakeObjectARN :: "string \<Rightarrow> string \<Rightarrow> string" where
  "MakeObjectARN bucketName objectKey = MakeARN ServiceS3 (bucketName @ ''/'' @ objectKey)"

definition MakeVectorIndexARN :: "string \<Rightarrow> string" where
  "MakeVectorIndexARN bucketName = MakeARN ServiceVector (''index/'' @ bucketName)"

definition MakeVectorDocARN :: "string \<Rightarrow> string \<Rightarrow> string" where
  "MakeVectorDocARN bucketName objectKey =
     MakeARN ServiceVector (''index/'' @ bucketName @ ''/'' @ objectKey)"

definition IsVectorAction :: "string \<Rightarrow> bool" where
  "IsVectorAction action = HasPrefix action (ServiceVector @ '':'')"

definition IsAdminAction :: "string \<Rightarrow> bool" where
  "IsAdminAction action \<longleftrightarrow>
     HasPrefix action ''iam:'' \<or> HasPrefix action ''sts:'' \<or> HasPrefix action ''admin:''"

definition extractBucketFromResource :: "string \<Rightarrow> string" where
  "extractBucketFromResource resource =
     (if \<not> HasPrefix resource (ARNPrefix @ ServiceS3 @ '':::'') then ''''
      else let rest = TrimPrefix resource (ARNPrefix @ ServiceS3 @ '':::'')
           in fst (SplitN2 rest CHR ''/''))"

definition ResourceToS3Path :: "string \<Rightarrow> string \<times> string" where
  "ResourceToS3Path resource =
     (if \<not> HasPrefix resource (ARNPrefix @ ServiceS3 @ '':::'') then ('''', '''')
      else let rest = TrimPrefix resource (ARNPrefix @ ServiceS3 @ '':::'')
           in case SplitN2 rest CHR ''/'' of
                (b, None) \<Rightarrow> (b, '''')
              | (b, Some k) \<Rightarrow> (b, k))"

text \<open>
  \<^verbatim>\<open>filepath.ToSlash\<close> replaces the platform's path separator by a slash; where the
  separator is the slash, as on Linux and macOS, it is the identity.
\<close>

definition ToSlash :: "char \<Rightarrow> string \<Rightarrow> string" where
  "ToSlash sep s = (if sep = CHR ''/'' then s else map (\<lambda>c. if c = sep then CHR ''/'' else c) s)"

definition S3PathToResource :: "char \<Rightarrow> string \<Rightarrow> string \<Rightarrow> string" where
  "S3PathToResource sep bucket key =
     (if key = '''' then MakeBucketARN bucket else MakeObjectARN bucket (ToSlash sep key))"

definition extractRoleNameFromARN :: "string \<Rightarrow> string" where
  "extractRoleNameFromARN arn =
     (if \<not> HasPrefix arn ARNPrefix then ''''
      else let parts = Split1 arn CHR ''/''
           in if length parts < 2 then '''' else last parts)"

section \<open>Lemmas on resource names\<close>

lemma s3_arn_prefix:
  "HasPrefix (MakeARN ServiceS3 r) (ARNPrefix @ ServiceS3 @ '':::'')"
  "TrimPrefix (MakeARN ServiceS3 r) (ARNPrefix @ ServiceS3 @ '':::'') = r"
  using HasPrefix_append [of "ARNPrefix @ ServiceS3 @ '':::''" r]
    TrimPrefix_append [of "ARNPrefix @ ServiceS3 @ '':::''" r]
  by (simp_all add: MakeARN_def)

text \<open>A bucket name has no slash, so splitting an ARN gives the bucket and the key back.\<close>

lemma ResourceToS3Path_S3PathToResource:
  assumes "CHR ''/'' \<notin> set bucket"
  shows "ResourceToS3Path (S3PathToResource CHR ''/'' bucket key) = (bucket, key)"
proof (cases "key = ''''")
  case True
  with assms show ?thesis
    by (simp add: ResourceToS3Path_def S3PathToResource_def MakeBucketARN_def s3_arn_prefix)
next
  case False
  with assms show ?thesis
    by (simp add: ResourceToS3Path_def S3PathToResource_def MakeObjectARN_def ToSlash_def
        s3_arn_prefix)
qed

lemma extractBucket_object:
  assumes "CHR ''/'' \<notin> set bucket"
  shows "extractBucketFromResource (S3PathToResource sep bucket key) = bucket"
  using assms
  by (simp add: extractBucketFromResource_def S3PathToResource_def MakeBucketARN_def
      MakeObjectARN_def s3_arn_prefix)

lemma extractRoleName_MakeRoleARN:
  assumes "CHR ''/'' \<notin> set n"
  shows "extractRoleNameFromARN (MakeRoleARN n) = n"
proof -
  have arn: "MakeRoleARN n = ''arn:cipherlake:iam:::role'' @ CHR ''/'' # n"
    by (simp add: MakeRoleARN_def MakeARN_def ARNPrefix_def ServiceIAM_def)
  have "Split1 (MakeRoleARN n) CHR ''/'' = [''arn:cipherlake:iam:::role'', n]"
    unfolding arn Split1_append using assms by simp
  moreover have "HasPrefix (MakeRoleARN n) ARNPrefix"
    by (simp add: MakeRoleARN_def MakeARN_def)
  ultimately show ?thesis by (simp add: extractRoleNameFromARN_def)
qed

section \<open>Properties\<close>

text \<open>
  Paths and resource names: on a platform whose separator is the slash, turning a
  bucket and a key into a resource name and back gives the bucket and the key, for every
  bucket name without a slash and every key, the empty one included, and the bucket the
  evaluator looks up for that resource is the same bucket.
\<close>

theorem s3_path_round_trip:
  assumes "CHR ''/'' \<notin> set bucket"
  shows "ResourceToS3Path (S3PathToResource CHR ''/'' bucket key) = (bucket, key) \<and>
         extractBucketFromResource (S3PathToResource CHR ''/'' bucket key) = bucket"
  using ResourceToS3Path_S3PathToResource [OF assms] extractBucket_object [OF assms] by blast

theorem s3_path_round_trip_witness:
  "ResourceToS3Path (S3PathToResource CHR ''/'' ''data'' ''a/b.txt'') = (''data'', ''a/b.txt'') \<and>
   S3PathToResource CHR ''/'' ''data'' ''a/b.txt'' = ''arn:cipherlake:s3:::data/a/b.txt''"
  using s3_path_round_trip [of "''data''" "''a/b.txt''"]
  by (simp add: S3PathToResource_def MakeObjectARN_def MakeARN_def ToSlash_def iam_const_defs)

end
