(* ===== verification/IAM_Conditions.thy ===== *)
theory IAM_Conditions
  imports Glob IAM_Types
begin

text \<open>
  The condition engine of \<^verbatim>\<open>internal/iam/policy.go\<close> (\<^verbatim>\<open>conditionsMatch\<close> and below) and the tag
  helpers of \<^verbatim>\<open>abac.go\<close>: key resolution, \<^verbatim>\<open>${...}\<close> substitution, the comparison operators and
  CIDR matching of IPv4 addresses at 32 bits.

  Substitution is a loop that need not end (a resolved value may itself hold \<^verbatim>\<open>${...}\<close>), so
  it is a \<^theory_text>\<open>partial_function (option)\<close> and every function above it returns an option:
  \<^const>\<open>None\<close> is a run that does not return.

  The parts of Go's library with large tables or grammars are fields of the argument
  \<open>S :: std\<close>: Unicode case mapping and folding (used on non-ASCII strings only), decimal
  floats, RFC 3339 times, IPv6 literals, \<^verbatim>\<open>%v\<close> on non-string JSON values, and the text of
  a time. No theorem assumes anything of them.
\<close>

record std =
  std_lower :: "string \<Rightarrow> string"
  std_fold :: "string \<Rightarrow> string \<Rightarrow> bool"
  std_ParseFloat :: "string \<Rightarrow> f64 option"
  std_TimeParse :: "string \<Rightarrow> gotime option"
  std_TimeFormat :: "gotime \<Rightarrow> string"
  std_Sprint :: "jvalue \<Rightarrow> string"
  std_ParseIPv6 :: "string \<Rightarrow> (128 word \<times> string) option"

abbreviation lower :: "std \<Rightarrow> string \<Rightarrow> string" where
  "lower S \<equiv> ToLower (std_lower S)"

section \<open>Addresses and prefixes (net/netip)\<close>

text \<open>An address is an IPv4 address or an IPv6 address with its zone.\<close>

datatype Addr = V4 "32 word" | V6 "128 word" string

definition parse_octet :: "string \<Rightarrow> nat option" where
  "parse_octet s =
     (if s \<noteq> [] \<and> list_all is_digit s \<and> (length s = 1 \<or> hd s \<noteq> CHR ''0'') \<and> digits_value s \<le> 255
      then Some (digits_value s) else None)"

definition parseIPv4 :: "string \<Rightarrow> Addr option" where
  "parseIPv4 s =
     (case map parse_octet (Split1 s CHR ''.'') of
        [Some a, Some b, Some c, Some d] \<Rightarrow>
          Some (V4 (of_nat (((a * 256 + b) * 256 + c) * 256 + d)))
      | _ \<Rightarrow> None)"

definition ParseAddr :: "std \<Rightarrow> string \<Rightarrow> Addr option" where
  "ParseAddr S s =
     (case find (\<lambda>c. c = CHR ''.'' \<or> c = CHR '':'' \<or> c = CHR ''%'') s of
        None \<Rightarrow> None
      | Some c \<Rightarrow>
          if c = CHR ''.'' then parseIPv4 s
          else if c = CHR '':'' then map_option (\<lambda>(a, z). V6 a z) (std_ParseIPv6 S s)
          else None)"

definition parse_bits :: "nat \<Rightarrow> string \<Rightarrow> nat option" where
  "parse_bits maxBits s =
     (if s \<noteq> [] \<and> list_all is_digit s \<and> (length s = 1 \<or> hd s \<noteq> CHR ''0'') \<and> digits_value s \<le> maxBits
      then Some (digits_value s) else None)"

text \<open>The text before the last slash and the text after it.\<close>

definition split_last_slash :: "string \<Rightarrow> (string \<times> string) option" where
  "split_last_slash s =
     (case SplitN2 (rev s) CHR ''/'' of
        (a, None) \<Rightarrow> None
      | (a, Some b) \<Rightarrow> Some (rev b, rev a))"

definition ParsePrefix :: "std \<Rightarrow> string \<Rightarrow> (Addr \<times> nat) option" where
  "ParsePrefix S s =
     (case split_last_slash s of
        None \<Rightarrow> None
      | Some (ip, bits) \<Rightarrow>
          (case ParseAddr S ip of
             None \<Rightarrow> None
           | Some (V4 a) \<Rightarrow> map_option (\<lambda>n. (V4 a, n)) (parse_bits 32 bits)
           | Some (V6 a z) \<Rightarrow>
               (if z \<noteq> '''' then None
                else map_option (\<lambda>n. (V6 a z, n)) (parse_bits 128 bits))))"

fun Prefix_Contains :: "Addr \<times> nat \<Rightarrow> Addr \<Rightarrow> bool" where
  "Prefix_Contains (V4 net, bits) (V4 ip) \<longleftrightarrow> drop_bit (32 - bits) (xor ip net) = 0"
| "Prefix_Contains (V6 net z, bits) (V6 ip zone) \<longleftrightarrow>
     zone = '''' \<and> drop_bit (128 - bits) (xor ip net) = 0"
| "Prefix_Contains _ _ \<longleftrightarrow> False"

definition ipInRange :: "std \<Rightarrow> string \<Rightarrow> string \<Rightarrow> bool" where
  "ipInRange S ip cidr =
     (if cidr = ''*'' then True
      else if \<not> Contains cidr ''/'' then ip = cidr
      else (case ParseAddr S ip of
              None \<Rightarrow> False
            | Some addr \<Rightarrow>
                (case ParsePrefix S cidr of
                   None \<Rightarrow> False
                 | Some p \<Rightarrow> Prefix_Contains p addr)))"

section \<open>Numbers and dates\<close>

fun f64_eq :: "f64 \<Rightarrow> f64 \<Rightarrow> bool" where
  "f64_eq NaN _ = False"
| "f64_eq _ NaN = False"
| "f64_eq a b = (a = b)"

fun f64_less :: "f64 \<Rightarrow> f64 \<Rightarrow> bool" where
  "f64_less NaN _ = False"
| "f64_less _ NaN = False"
| "f64_less NegInf b = (b \<noteq> NegInf)"
| "f64_less _ NegInf = False"
| "f64_less PosInf _ = False"
| "f64_less _ PosInf = True"
| "f64_less (Fin a) (Fin b) = (a < b)"

definition numericEquals :: "std \<Rightarrow> string \<Rightarrow> string \<Rightarrow> bool" where
  "numericEquals S actual expected =
     (case (std_ParseFloat S actual, std_ParseFloat S expected) of
        (Some a, Some b) \<Rightarrow> f64_eq a b
      | _ \<Rightarrow> actual = expected)"

definition numericLessThan :: "std \<Rightarrow> string \<Rightarrow> string \<Rightarrow> bool" where
  "numericLessThan S actual expected =
     (case (std_ParseFloat S actual, std_ParseFloat S expected) of
        (Some a, Some b) \<Rightarrow> f64_less a b
      | _ \<Rightarrow> actual < expected)"

definition numericGreaterThan :: "std \<Rightarrow> string \<Rightarrow> string \<Rightarrow> bool" where
  "numericGreaterThan S actual expected =
     (case (std_ParseFloat S actual, std_ParseFloat S expected) of
        (Some a, Some b) \<Rightarrow> f64_less b a
      | _ \<Rightarrow> actual > expected)"

definition dateLessThan :: "std \<Rightarrow> string \<Rightarrow> string \<Rightarrow> bool" where
  "dateLessThan S actual expected =
     (case (std_TimeParse S actual, std_TimeParse S expected) of
        (Some a, Some b) \<Rightarrow> a < b
      | _ \<Rightarrow> actual < expected)"

definition dateGreaterThan :: "std \<Rightarrow> string \<Rightarrow> string \<Rightarrow> bool" where
  "dateGreaterThan S actual expected =
     (case (std_TimeParse S actual, std_TimeParse S expected) of
        (Some a, Some b) \<Rightarrow> a > b
      | _ \<Rightarrow> actual > expected)"

section \<open>Comparison operators\<close>

definition arnMatch :: "std \<Rightarrow> string \<Rightarrow> string \<Rightarrow> bool" where
  "arnMatch S pattern arn =
     (if pattern = ''*'' then True
      else if pattern = arn then True
      else if Contains pattern ''*'' \<or> Contains pattern ''?'' then globMatch pattern arn
      else EqualFold (std_fold S) pattern arn)"

definition compareValues :: "std \<Rightarrow> string \<Rightarrow> string \<Rightarrow> string \<Rightarrow> bool" where
  "compareValues S operator actual expected =
     (if operator = ''stringequals'' then actual = expected
      else if operator = ''stringnotequals'' then actual \<noteq> expected
      else if operator = ''stringlike'' then globMatch expected actual
      else if operator = ''stringnotlike'' then \<not> globMatch expected actual
      else if operator = ''numericequals'' then numericEquals S actual expected
      else if operator = ''numericnotequals'' then \<not> numericEquals S actual expected
      else if operator = ''numericlessthan'' then numericLessThan S actual expected
      else if operator = ''numericgreaterthan'' then numericGreaterThan S actual expected
      else if operator = ''datelessthan'' then dateLessThan S actual expected
      else if operator = ''dategreaterthan'' then dateGreaterThan S actual expected
      else if operator = ''ipaddress'' then ipInRange S actual expected
      else if operator = ''notipaddress'' then \<not> ipInRange S actual expected
      else if operator = ''bool'' then lower S actual = lower S expected
      else if operator = ''arnequals'' \<or> operator = ''arnlike'' then arnMatch S expected actual
      else actual = expected)"

section \<open>Condition keys\<close>

definition tag_lookup :: "tags \<Rightarrow> string \<Rightarrow> string" where
  "tag_lookup m k = (case m of None \<Rightarrow> '''' | Some t \<Rightarrow> go_index t k)"

definition resolveConditionKey :: "std \<Rightarrow> string \<Rightarrow> EvalContext \<Rightarrow> string" where
  "resolveConditionKey S key ctx =
     (let keyLower = lower S key in
      if HasPrefix keyLower ''aws:resourcetag/'' then
        tag_lookup (ctx_ResourceTags ctx) (drop (length ''aws:resourcetag/'') key)
      else if HasPrefix keyLower ''aws:principaltag/'' then
        tag_lookup (ctx_PrincipalTags ctx) (drop (length ''aws:principaltag/'') key)
      else if HasPrefix keyLower ''aws:requesttag/'' then
        tag_lookup (ctx_RequestTags ctx) (drop (length ''aws:requesttag/'') key)
      else if keyLower = ''aws:sourceip'' then ctx_SourceIP ctx
      else if keyLower = ''aws:currenttime'' then
        (if IsZero (ctx_Time ctx) then '''' else std_TimeFormat S (ctx_Time ctx))
      else if keyLower = ''aws:useragent'' then ctx_UserAgent ctx
      else if keyLower = ''aws:principaltype'' then ctx_PrincipalType ctx
      else if keyLower = ''s3:prefix'' then ctx_S3Prefix ctx
      else if keyLower = ''s3:x-amz-acl'' then ctx_S3ACL ctx
      else tag_lookup (ctx_Conditions ctx) key)"

section \<open>Variable substitution\<close>

text \<open>
  One turn of the loop: \<^const>\<open>None\<close> when there is no \<^verbatim>\<open>${\<close> or no closing brace after it, and
  otherwise the string with the first reference replaced by the value of its key.
\<close>

definition subst_step :: "std \<Rightarrow> EvalContext \<Rightarrow> string \<Rightarrow> string option" where
  "subst_step S ctx result =
     (case Index result ''${'' of
        None \<Rightarrow> None
      | Some start \<Rightarrow>
          (case Index (drop start result) ''}'' of
             None \<Rightarrow> None
           | Some e \<Rightarrow>
               let end' = e + start;
                   varRef = take (end' - (start + 2)) (drop (start + 2) result);
                   resolved = resolveConditionKey S varRef ctx
               in Some (take start result @ resolved @ drop (end' + 1) result)))"

partial_function (option) subst_loop :: "std \<Rightarrow> EvalContext \<Rightarrow> string \<Rightarrow> string option" where
  "subst_loop S ctx result =
     (case subst_step S ctx result of
        None \<Rightarrow> Some result
      | Some result' \<Rightarrow> subst_loop S ctx result')"

definition resolveVariableSubstitution :: "std \<Rightarrow> string \<Rightarrow> EvalContext \<Rightarrow> string option" where
  "resolveVariableSubstitution S value ctx =
     (if \<not> Contains value ''${'' then Some value else subst_loop S ctx value)"

section \<open>Conditions\<close>

definition nullConditionMatches :: "std \<Rightarrow> string \<Rightarrow> jvalue \<Rightarrow> EvalContext \<Rightarrow> bool" where
  "nullConditionMatches S key expectedValue ctx =
     (let keyIsAbsent = (resolveConditionKey S key ctx = '''');
          expectedNull = (case expectedValue of
              JString v \<Rightarrow> lower S v = ''true''
            | JBool b \<Rightarrow> b
            | _ \<Rightarrow> False)
      in keyIsAbsent = expectedNull)"

text \<open>The loop over a list of expected values: the first string that compares ends it.\<close>

fun any_item_matches ::
    "std \<Rightarrow> string \<Rightarrow> string \<Rightarrow> jvalue list \<Rightarrow> EvalContext \<Rightarrow> bool option" where
  "any_item_matches S op' actual [] ctx = Some False"
| "any_item_matches S op' actual (JString s # items) ctx =
     (case resolveVariableSubstitution S s ctx of
        None \<Rightarrow> None
      | Some resolved \<Rightarrow>
          (if compareValues S op' actual resolved then Some True
           else any_item_matches S op' actual items ctx))"
| "any_item_matches S op' actual (_ # items) ctx = any_item_matches S op' actual items ctx"

definition conditionMatches ::
    "std \<Rightarrow> string \<Rightarrow> string \<Rightarrow> jvalue \<Rightarrow> EvalContext \<Rightarrow> bool option" where
  "conditionMatches S operator key expectedValue ctx =
     (let opLower = lower S operator in
      if opLower = ''null'' then Some (nullConditionMatches S key expectedValue ctx)
      else let actualValue = resolveConditionKey S key ctx in
        (case expectedValue of
           JString v \<Rightarrow>
             map_option (compareValues S opLower actualValue) (resolveVariableSubstitution S v ctx)
         | JArray v \<Rightarrow> any_item_matches S opLower actualValue v ctx
         | v \<Rightarrow> Some (compareValues S opLower actualValue (std_Sprint S v))))"

fun keys_match ::
    "std \<Rightarrow> string \<Rightarrow> (string \<times> jvalue) list \<Rightarrow> EvalContext \<Rightarrow> bool option" where
  "keys_match S operator [] ctx = Some True"
| "keys_match S operator ((key, v) # kvs) ctx =
     (case conditionMatches S operator key v ctx of
        None \<Rightarrow> None
      | Some b \<Rightarrow> (if \<not> b then Some False else keys_match S operator kvs ctx))"

fun conditionsMatch :: "std \<Rightarrow> ConditionBlock \<Rightarrow> EvalContext \<Rightarrow> bool option" where
  "conditionsMatch S [] ctx = Some True"
| "conditionsMatch S ((operator, kvs) # conds) ctx =
     (case keys_match S operator kvs ctx of
        None \<Rightarrow> None
      | Some b \<Rightarrow> (if \<not> b then Some False else conditionsMatch S conds ctx))"

section \<open>Tag helpers (abac.go)\<close>

text \<open>A nil context is \<^const>\<open>None\<close>.\<close>

definition ResolveResourceTag :: "EvalContext option \<Rightarrow> string \<Rightarrow> string" where
  "ResolveResourceTag ctx tagKey =
     (case ctx of None \<Rightarrow> '''' | Some c \<Rightarrow> tag_lookup (ctx_ResourceTags c) tagKey)"

definition ResolvePrincipalTag :: "EvalContext option \<Rightarrow> string \<Rightarrow> string" where
  "ResolvePrincipalTag ctx tagKey =
     (case ctx of None \<Rightarrow> '''' | Some c \<Rightarrow> tag_lookup (ctx_PrincipalTags c) tagKey)"

definition ResolveRequestTag :: "EvalContext option \<Rightarrow> string \<Rightarrow> string" where
  "ResolveRequestTag ctx tagKey =
     (case ctx of None \<Rightarrow> '''' | Some c \<Rightarrow> tag_lookup (ctx_RequestTags c) tagKey)"

definition ABACMatch :: "EvalContext option \<Rightarrow> string \<Rightarrow> string \<Rightarrow> bool" where
  "ABACMatch ctx resourceTagKey principalTagKey =
     (let resourceTag = ResolveResourceTag ctx resourceTagKey;
          principalTag = ResolvePrincipalTag ctx principalTagKey
      in if resourceTag = '''' \<or> principalTag = '''' then False else resourceTag = principalTag)"

definition ABACMatchLiteral :: "EvalContext option \<Rightarrow> string \<Rightarrow> string \<Rightarrow> bool" where
  "ABACMatchLiteral ctx resourceTagKey expectedValue =
     (let resourceTag = ResolveResourceTag ctx resourceTagKey
      in if resourceTag = '''' then False else resourceTag = expectedValue)"

section \<open>CIDR matching\<close>

text \<open>A dotted quad and a CIDR block, as they are written.\<close>

definition dotted :: "nat \<Rightarrow> nat \<Rightarrow> nat \<Rightarrow> nat \<Rightarrow> string" where
  "dotted a b c d = itoa a @ ''.'' @ itoa b @ ''.'' @ itoa c @ ''.'' @ itoa d"

definition quad :: "nat \<Rightarrow> nat \<Rightarrow> nat \<Rightarrow> nat \<Rightarrow> 32 word" where
  "quad a b c d = of_nat (((a * 256 + b) * 256 + c) * 256 + d)"

lemma itoa_no_sep [simp]:
  "CHR ''.'' \<notin> set (itoa n)" "CHR ''/'' \<notin> set (itoa n)"
  "CHR '':'' \<notin> set (itoa n)" "CHR ''%'' \<notin> set (itoa n)"
  by (simp_all add: itoa_notin is_digit_def)

lemma parse_octet_itoa [simp]: "n \<le> 255 \<Longrightarrow> parse_octet (itoa n) = Some n"
  using itoa_digits itoa_no_leading_zero by (auto simp: parse_octet_def)

lemma parse_bits_itoa [simp]: "n \<le> m \<Longrightarrow> parse_bits m (itoa n) = Some n"
  using itoa_digits itoa_no_leading_zero by (auto simp: parse_bits_def)

lemma find_append_None: "\<forall>x \<in> set xs. \<not> P x \<Longrightarrow> find P (xs @ ys) = find P ys"
  by (induction xs) auto

lemma ParseAddr_dotted:
  assumes "a \<le> 255" "b \<le> 255" "c \<le> 255" "d \<le> 255"
  shows "ParseAddr S (dotted a b c d) = Some (V4 (quad a b c d))"
proof -
  have "find (\<lambda>c. c = CHR ''.'' \<or> c = CHR '':'' \<or> c = CHR ''%'') (dotted a b c d) = Some CHR ''.''"
    unfolding dotted_def by (subst find_append_None) (auto dest: itoa_no_sep [THEN notE])
  moreover have "Split1 (dotted a b c d) CHR ''.'' = [itoa a, itoa b, itoa c, itoa d]"
    unfolding dotted_def by (simp add: Split1_append)
  ultimately show ?thesis using assms by (simp add: ParseAddr_def parseIPv4_def quad_def)
qed

lemma ParsePrefix_dotted:
  assumes "a \<le> 255" "b \<le> 255" "c \<le> 255" "d \<le> 255" "n \<le> 32"
  shows "ParsePrefix S (dotted a b c d @ ''/'' @ itoa n) = Some (V4 (quad a b c d), n)"
proof -
  have "split_last_slash (dotted a b c d @ ''/'' @ itoa n) = Some (dotted a b c d, itoa n)"
    by (simp add: split_last_slash_def)
  with assms show ?thesis by (simp add: ParsePrefix_def ParseAddr_dotted)
qed

lemma v4_prefix_bits:
  "Prefix_Contains (V4 net, n) (V4 ip) \<longleftrightarrow> (\<forall>i. 32 - n \<le> i \<and> i < 32 \<longrightarrow> bit ip i = bit net i)"
proof -
  have "j < 32" if "bit (xor ip net) (32 - n + j)" for j
    using bit_imp_le_length [OF that] by simp
  then have "drop_bit (32 - n) (xor ip net) = 0 \<longleftrightarrow> (\<forall>j. \<not> bit (xor ip net) (32 - n + j))"
    unfolding bit_eq_iff by (auto simp: bit_drop_bit_eq simp del: drop_bit_xor)
  also have "\<dots> \<longleftrightarrow> (\<forall>i. 32 - n \<le> i \<longrightarrow> bit ip i = bit net i)"
    by (metis bit_xor_iff le_add1 nat_le_iff_add)
  also have "\<dots> \<longleftrightarrow> (\<forall>i. 32 - n \<le> i \<and> i < 32 \<longrightarrow> bit ip i = bit net i)"
    using bit_imp_le_length [of ip] bit_imp_le_length [of net] by auto
  finally show ?thesis by simp
qed

section \<open>Substitution\<close>

lemma subst_step_shape:
  assumes "subst_step S ctx r = Some r'"
  obtains pre ref post where "r' = pre @ resolveConditionKey S ref ctx @ post"
    and "count_list r CHR ''$'' > count_list pre CHR ''$'' + count_list post CHR ''$''"
proof -
  from assms obtain start e where start: "Index r ''${'' = Some start"
    and r': "r' = take start r @
      resolveConditionKey S (take (e + start - (start + 2)) (drop (start + 2) r)) ctx @
      drop (e + start + 1) r"
    by (auto simp: subst_step_def Let_def split: option.splits)
  have "take (Suc (Suc 0)) (drop start r) = ''${''" using Index_Some_bound [OF start] by simp
  then obtain rest where rest: "drop start r = CHR ''$'' # rest"
    by (cases "drop start r") auto
  have "count_list r CHR ''$'' = count_list (take start r) CHR ''$'' + count_list (drop start r) CHR ''$''"
    by (metis append_take_drop_id count_list_append)
  moreover have "drop (e + start + 1) r = drop e rest"
    using rest by (metis (no_types, lifting) add.commute add.left_commute drop_Suc_Cons drop_drop plus_1_eq_Suc)
  moreover have "count_list (drop e rest) CHR ''$'' \<le> count_list rest CHR ''$''"
    by (metis append_take_drop_id count_list_append le_add2)
  ultimately show thesis using that r' rest by simp
qed

text \<open>Where no value in the context holds a dollar sign, every turn removes one.\<close>

definition plain_context :: "std \<Rightarrow> EvalContext \<Rightarrow> bool" where
  "plain_context S ctx \<longleftrightarrow> (\<forall>k. CHR ''$'' \<notin> set (resolveConditionKey S k ctx))"

lemma subst_loop_returns:
  assumes "plain_context S ctx"
  shows "\<exists>r'. subst_loop S ctx r = Some r' \<and> subst_step S ctx r' = None"
proof (induction "count_list r CHR ''$''" arbitrary: r rule: less_induct)
  case less
  show ?case
  proof (cases "subst_step S ctx r")
    case None
    then show ?thesis by (subst subst_loop.simps) simp
  next
    case (Some r1)
    then obtain pre ref post where r1: "r1 = pre @ resolveConditionKey S ref ctx @ post"
      and c: "count_list r CHR ''$'' > count_list pre CHR ''$'' + count_list post CHR ''$''"
      by (rule subst_step_shape)
    have "count_list (resolveConditionKey S ref ctx) CHR ''$'' = 0"
      using assms by (simp add: plain_context_def count_list_0_iff)
    with r1 c have "count_list r1 CHR ''$'' < count_list r CHR ''$''" by simp
    from less [OF this] Some show ?thesis by (subst subst_loop.simps) simp
  qed
qed

text \<open>A string that one turn gives back unchanged is never left.\<close>

lemma subst_loop_stuck:
  assumes "subst_step S ctx r = Some r"
  shows "subst_loop S ctx r = None"
proof (rule ccontr)
  assume "subst_loop S ctx r \<noteq> None"
  then obtain r' where "subst_loop S ctx r = Some r'" by blast
  then have "subst_step S ctx r \<noteq> Some r"
  proof (rule subst_loop.raw_induct [where P = "\<lambda>S ctx x y. subst_step S ctx x \<noteq> Some x", rotated])
    fix f S ctx x y
    assume IH: "\<And>S ctx x y. f S ctx x = Some y \<Longrightarrow> subst_step S ctx x \<noteq> Some x"
      and eq: "(case subst_step S ctx x of None \<Rightarrow> Some x | Some x' \<Rightarrow> f S ctx x') = Some y"
    show "subst_step S ctx x \<noteq> Some x"
    proof
      assume "subst_step S ctx x = Some x"
      with eq have "f S ctx x = Some y" by simp
      then have "subst_step S ctx x \<noteq> Some x" by (rule IH)
      with \<open>subst_step S ctx x = Some x\<close> show False by simp
    qed
  qed
  with assms show False by simp
qed

lemma resolveVariableSubstitution_returns:
  "plain_context S ctx \<Longrightarrow> \<exists>r. resolveVariableSubstitution S v ctx = Some r"
  using subst_loop_returns by (fastforce simp: resolveVariableSubstitution_def)

section \<open>Conditions\<close>

lemma any_item_returns:
  "plain_context S ctx \<Longrightarrow> \<exists>b. any_item_matches S op' actual items ctx = Some b"
proof (induction items)
  case (Cons x items)
  then show ?case
    using resolveVariableSubstitution_returns [of S ctx] by (cases x) (auto split: option.splits)
qed auto

lemma conditionMatches_returns:
  "plain_context S ctx \<Longrightarrow> \<exists>b. conditionMatches S operator key v ctx = Some b"
  using any_item_returns resolveVariableSubstitution_returns [of S ctx]
  by (cases v) (auto simp: conditionMatches_def Let_def)

text \<open>
  A Go map is visited in an unspecified order. Where every condition returns, the order
  makes no difference: the block is the conjunction of its conditions.
\<close>

definition cond_holds :: "std \<Rightarrow> EvalContext \<Rightarrow> string \<Rightarrow> string \<times> jvalue \<Rightarrow> bool" where
  "cond_holds S ctx operator kv \<longleftrightarrow> conditionMatches S operator (fst kv) (snd kv) ctx = Some True"

lemma keys_match_all:
  assumes "plain_context S ctx"
  shows "keys_match S operator kvs ctx = Some (\<forall>kv \<in> set kvs. cond_holds S ctx operator kv)"
proof (induction kvs)
  case (Cons kv kvs)
  obtain k v where kv: "kv = (k, v)" by (cases kv)
  obtain b where "conditionMatches S operator k v ctx = Some b"
    using conditionMatches_returns [OF assms] by blast
  with Cons kv show ?case by (simp add: cond_holds_def)
qed simp

lemma conditionsMatch_all:
  assumes "plain_context S ctx"
  shows "conditionsMatch S conds ctx =
    Some (\<forall>c \<in> set conds. \<forall>kv \<in> set (snd c). cond_holds S ctx (fst c) kv)"
proof (induction conds)
  case (Cons c conds)
  obtain operator kvs where "c = (operator, kvs)" by (cases c)
  with Cons show ?case by (simp add: keys_match_all [OF assms])
qed simp

text \<open>Keys with a literal ASCII prefix: lower-casing them keeps the rest's position.\<close>

lemma is_ascii_append [simp]: "is_ascii (s @ t) \<longleftrightarrow> is_ascii s \<and> is_ascii t"
  by (auto simp: is_ascii_def)

lemma lower_append_ascii:
  "is_ascii s \<Longrightarrow> is_ascii t \<Longrightarrow> lower S (s @ t) = lower S s @ lower S t"
  by (simp add: ToLower_def)

lemma lower_tag_prefixes:
  "lower S ''aws:ResourceTag/'' = ''aws:resourcetag/''"
  "lower S ''aws:PrincipalTag/'' = ''aws:principaltag/''"
  "lower S ''StringEquals'' = ''stringequals''"
  by (simp_all add: ToLower_def is_ascii_def lower_char_def char_of_def bit_Suc_0_iff)

lemma ascii_tag_prefixes: "is_ascii ''aws:ResourceTag/''" "is_ascii ''aws:PrincipalTag/''"
  by (simp_all add: is_ascii_def)

lemma resolve_resource_tag:
  assumes "is_ascii k"
  shows "resolveConditionKey S (''aws:ResourceTag/'' @ k) ctx = tag_lookup (ctx_ResourceTags ctx) k"
proof -
  have "lower S (''aws:ResourceTag/'' @ k) = ''aws:resourcetag/'' @ lower S k"
    using lower_append_ascii [OF ascii_tag_prefixes(1) assms] lower_tag_prefixes(1) by metis
  then have "HasPrefix (lower S (''aws:ResourceTag/'' @ k)) ''aws:resourcetag/''"
    by (metis HasPrefix_append)
  then show ?thesis by (simp add: resolveConditionKey_def Let_def)
qed

lemma resolve_principal_tag:
  assumes "is_ascii k"
  shows "resolveConditionKey S (''aws:PrincipalTag/'' @ k) ctx = tag_lookup (ctx_PrincipalTags ctx) k"
proof -
  have l: "lower S (''aws:PrincipalTag/'' @ k) = ''aws:principaltag/'' @ lower S k"
    using lower_append_ascii [OF ascii_tag_prefixes(2) assms] lower_tag_prefixes(2) by metis
  then have "HasPrefix (lower S (''aws:PrincipalTag/'' @ k)) ''aws:principaltag/''"
    by (metis HasPrefix_append)
  moreover have "\<not> HasPrefix (lower S (''aws:PrincipalTag/'' @ k)) ''aws:resourcetag/''"
    unfolding l by (simp add: HasPrefix_def)
  ultimately show ?thesis by (simp add: resolveConditionKey_def Let_def)
qed

lemma subst_step_reference:
  assumes "CHR ''}'' \<notin> set k"
  shows "subst_step S ctx (''${'' @ k @ ''}'') = Some (resolveConditionKey S k ctx)"
proof -
  have "Index (''${'' @ k @ ''}'') ''${'' = Some 0" by (simp add: HasPrefix_def)
  moreover have "Index (k @ ''}'') ''}'' = Some (length k)"
    using assms by (induction k) (auto simp: HasPrefix_def)
  then have "Index (''${'' @ k @ ''}'') ''}'' = Some (length k + 2)"
    by (simp add: HasPrefix_def)
  ultimately show ?thesis by (simp add: subst_step_def)
qed

lemma subst_step_plain: "\<not> Contains v ''${'' \<Longrightarrow> subst_step S ctx v = None"
  by (simp add: subst_step_def Contains_def)

lemma resolve_reference:
  assumes "CHR ''}'' \<notin> set k" "\<not> Contains (resolveConditionKey S k ctx) ''${''"
  shows "resolveVariableSubstitution S (''${'' @ k @ ''}'') ctx = Some (resolveConditionKey S k ctx)"
proof -
  have "Contains (''${'' @ k @ ''}'') ''${''" by (simp add: Contains_def HasPrefix_def)
  moreover have "subst_loop S ctx (''${'' @ k @ ''}'') = Some (resolveConditionKey S k ctx)"
    using assms
    by (subst subst_loop.simps, simp only: subst_step_reference option.case,
        subst subst_loop.simps, simp add: subst_step_plain)
  ultimately show ?thesis by (simp add: resolveVariableSubstitution_def)
qed

lemma abac_condition:
  assumes "is_ascii k" "CHR ''}'' \<notin> set k"
    and "\<not> Contains (tag_lookup (ctx_PrincipalTags ctx) k) ''${''"
  shows "conditionMatches S ''StringEquals'' (''aws:ResourceTag/'' @ k)
           (JString (''${aws:PrincipalTag/'' @ k @ ''}'')) ctx =
         Some (tag_lookup (ctx_ResourceTags ctx) k = tag_lookup (ctx_PrincipalTags ctx) k)"
proof -
  let ?ref = "''aws:PrincipalTag/'' @ k"
  have "CHR ''}'' \<notin> set ?ref" using assms(2) by simp
  moreover note r = resolve_principal_tag [OF assms(1), of S ctx]
  ultimately have "resolveVariableSubstitution S (''${'' @ ?ref @ ''}'') ctx =
      Some (tag_lookup (ctx_PrincipalTags ctx) k)"
    using resolve_reference [of ?ref S ctx] assms(3) by (simp only: r not_False_eq_True)
  then have "resolveVariableSubstitution S (''${aws:PrincipalTag/'' @ k @ ''}'') ctx =
      Some (tag_lookup (ctx_PrincipalTags ctx) k)" by simp
  then show ?thesis
    by (simp only: conditionMatches_def Let_def lower_tag_prefixes
        resolve_resource_tag [OF assms(1)] jvalue.case option.map)
       (simp add: compareValues_def)
qed

section \<open>A concrete library\<close>

text \<open>
  One choice of the library functions and one shape of context, on which conditions can be
  evaluated: no number, time or IPv6 literal parses and every string is ASCII.
\<close>

definition ascii_std :: std where
  "ascii_std = \<lparr>std_lower = \<lambda>s. s, std_fold = \<lambda>s t. s = t, std_ParseFloat = \<lambda>_. None,
     std_TimeParse = \<lambda>_. None, std_TimeFormat = \<lambda>_. '''', std_Sprint = \<lambda>_. '''',
     std_ParseIPv6 = \<lambda>_. None\<rparr>"

definition bare_request :: "string \<Rightarrow> string \<Rightarrow> string \<Rightarrow> EvalContext" where
  "bare_request p action resource = \<lparr>ctx_Principal = p, ctx_Action = action, ctx_Resource = resource,
     ctx_Conditions = None, ctx_SourceIP = ''10.1.2.3'', ctx_Time = 0, ctx_UserAgent = '''',
     ctx_PrincipalType = ''user'', ctx_ResourceTags = None, ctx_PrincipalTags = None,
     ctx_RequestTags = None, ctx_S3Prefix = '''', ctx_S3ACL = ''''\<rparr>"

lemma plain_request: "plain_context ascii_std (bare_request p a r)"
  by (simp add: plain_context_def resolveConditionKey_def Let_def bare_request_def ascii_std_def tag_lookup_def)

section \<open>Properties\<close>

text \<open>
  CIDR matching: for an address and a block written as dotted quads, the source-address
  test holds exactly when the address and the block's address agree on the leading bits the
  prefix length counts.
\<close>

theorem ipInRange_leading_bits:
  assumes "a \<le> 255" "b \<le> 255" "c \<le> 255" "d \<le> 255"
    and "a' \<le> 255" "b' \<le> 255" "c' \<le> 255" "d' \<le> 255" "n \<le> 32"
  shows "ipInRange S (dotted a b c d) (dotted a' b' c' d' @ ''/'' @ itoa n) \<longleftrightarrow>
    (\<forall>i. 32 - n \<le> i \<and> i < 32 \<longrightarrow> bit (quad a b c d) i = bit (quad a' b' c' d') i)"
proof -
  have "dotted a' b' c' d' @ ''/'' @ itoa n \<noteq> ''*''" by (simp add: append_eq_Cons_conv)
  moreover have "Contains (dotted a' b' c' d' @ ''/'' @ itoa n) ''/''" by (simp add: Contains_singleton)
  ultimately show ?thesis
    using assms by (simp add: ipInRange_def ParseAddr_dotted ParsePrefix_dotted v4_prefix_bits
        del: Prefix_Contains.simps append.simps)
qed

theorem ipInRange_leading_bits_witness:
  "ipInRange ascii_std (dotted 10 1 2 3) (dotted 10 0 0 0 @ ''/'' @ itoa 8) \<and>
   \<not> ipInRange ascii_std (dotted 11 1 2 3) (dotted 10 0 0 0 @ ''/'' @ itoa 8)"
proof -
  have "\<forall>i. 32 - 8 \<le> i \<and> i < (32 :: nat) \<longrightarrow> bit (quad 10 1 2 3) i = bit (quad 10 0 0 0) i"
    unfolding v4_prefix_bits [symmetric] by (simp add: quad_def)
  moreover have "\<not> (\<forall>i. 32 - 8 \<le> i \<and> i < (32 :: nat) \<longrightarrow> bit (quad 11 1 2 3) i = bit (quad 10 0 0 0) i)"
    unfolding v4_prefix_bits [symmetric] by (simp add: quad_def)
  ultimately show ?thesis
    using ipInRange_leading_bits [of 10 1 2 3 10 0 0 0 8 ascii_std]
      ipInRange_leading_bits [of 11 1 2 3 10 0 0 0 8 ascii_std] by (simp del: append.simps)
qed

text \<open>
  A condition block is a conjunction: in a context whose values hold no dollar sign the
  loop over operators and keys returns, and its answer is that every condition of every
  operator holds. So two listings of the same conditions, which is what two visits of one Go
  map are, give one answer.
\<close>

theorem conditions_order_irrelevant:
  assumes "plain_context S ctx"
    and "{(c, kv) | c kvs kv. (c, kvs) \<in> set conds \<and> kv \<in> set kvs} =
         {(c, kv) | c kvs kv. (c, kvs) \<in> set conds' \<and> kv \<in> set kvs}"
  shows "conditionsMatch S conds ctx = conditionsMatch S conds' ctx \<and>
    conditionsMatch S conds ctx =
      Some (\<forall>(c, kvs) \<in> set conds. \<forall>(k, v) \<in> set kvs. conditionMatches S c k v ctx = Some True)"
proof -
  have all: "(\<forall>c \<in> set conds. \<forall>kv \<in> set (snd c). cond_holds S ctx (fst c) kv) \<longleftrightarrow>
      (\<forall>(c, kv) \<in> {(c, kv) | c kvs kv. (c, kvs) \<in> set conds \<and> kv \<in> set kvs}. cond_holds S ctx c kv)"
    for conds by fastforce
  show ?thesis
    unfolding conditionsMatch_all [OF assms(1)] all assms(2)
    unfolding assms(2) [symmetric] by (fastforce simp: cond_holds_def)
qed

theorem conditions_order_irrelevant_witness:
  "conditionsMatch ascii_std
     [(''IpAddress'', [(''aws:SourceIp'', JString ''10.1.2.3'')]),
      (''StringEquals'', [(''aws:PrincipalType'', JString ''user''), (''s3:prefix'', JString '''')])]
     (bare_request ''alice'' ''s3:GetObject'' '''') =
   conditionsMatch ascii_std
     [(''StringEquals'', [(''s3:prefix'', JString ''''), (''aws:PrincipalType'', JString ''user'')]),
      (''IpAddress'', [(''aws:SourceIp'', JString ''10.1.2.3'')])]
     (bare_request ''alice'' ''s3:GetObject'' '''')"
proof -
  let ?c = "[(''IpAddress'', [(''aws:SourceIp'', JString ''10.1.2.3'')]),
      (''StringEquals'', [(''aws:PrincipalType'', JString ''user''), (''s3:prefix'', JString '''')])]"
  let ?d = "[(''StringEquals'', [(''s3:prefix'', JString ''''), (''aws:PrincipalType'', JString ''user'')]),
      (''IpAddress'', [(''aws:SourceIp'', JString ''10.1.2.3'')])]"
  have "{(c, kv) | c kvs kv. (c, kvs) \<in> set ?c \<and> kv \<in> set kvs} =
        {(c, kv) | c kvs kv. (c, kvs) \<in> set ?d \<and> kv \<in> set kvs}" by auto
  from conditions_order_irrelevant [OF plain_request this] show ?thesis by (rule conjunct1)
qed

text \<open>
  Variable substitution returns, and leaves nothing to substitute: in a context whose
  values hold no dollar sign the loop ends for every string, and its result has no reference
  left, that is no \<^verbatim>\<open>${\<close> with a closing brace after it.
\<close>

theorem substitution_returns:
  assumes "plain_context S ctx"
  shows "\<exists>r. resolveVariableSubstitution S v ctx = Some r \<and>
    (\<forall>i. Index r ''${'' = Some i \<longrightarrow> \<not> Contains (drop i r) ''}'')"
proof -
  have done_iff: "subst_step S ctx r = None \<longleftrightarrow> (\<forall>i. Index r ''${'' = Some i \<longrightarrow> \<not> Contains (drop i r) ''}'')"
    for r by (auto simp: subst_step_def Contains_def Let_def split: option.splits)
  show ?thesis
    using subst_loop_returns [OF assms, of v] subst_step_plain [of v S ctx]
    unfolding done_iff by (auto simp: resolveVariableSubstitution_def)
qed

theorem substitution_returns_witness:
  "\<exists>r. resolveVariableSubstitution ascii_std ''home/${aws:PrincipalType}/*'' (bare_request ''alice'' '''' '''') = Some r"
  using substitution_returns [OF plain_request, of "''home/${aws:PrincipalType}/*''"] by blast

text \<open>
  Substitution of a value that refers to itself does not return: where the principal's
  tag \<^verbatim>\<open>k\<close> holds the text of its own reference, a condition on that reference makes the whole
  condition, and with it the evaluation of the request, run forever.
\<close>

theorem substitution_diverges:
  assumes "is_ascii k" "CHR ''}'' \<notin> set k"
    and "tag_lookup (ctx_PrincipalTags ctx) k = ''${aws:PrincipalTag/'' @ k @ ''}''"
  shows "conditionMatches S ''StringEquals'' key (JString (''${aws:PrincipalTag/'' @ k @ ''}'')) ctx = None"
proof -
  let ?r = "''${'' @ (''aws:PrincipalTag/'' @ k) @ ''}''"
  have "subst_step S ctx ?r = Some ?r"
    using assms subst_step_reference [of "''aws:PrincipalTag/'' @ k" S ctx]
      resolve_principal_tag [OF assms(1), of S ctx] by simp
  then have "subst_loop S ctx ?r = None" by (rule subst_loop_stuck)
  moreover have "Contains ?r ''${''" by (simp add: Contains_def HasPrefix_def)
  ultimately have "resolveVariableSubstitution S ?r ctx = None" by (simp add: resolveVariableSubstitution_def)
  then show ?thesis
    by (simp add: conditionMatches_def Let_def lower_tag_prefixes)
qed

theorem substitution_diverges_witness:
  "conditionMatches ascii_std ''StringEquals'' ''aws:ResourceTag/team''
     (JString ''${aws:PrincipalTag/team}'')
     ((bare_request ''alice'' ''s3:GetObject'' '''')
       \<lparr>ctx_PrincipalTags := Some [''team'' \<mapsto> ''${aws:PrincipalTag/team}'']\<rparr>) = None"
  using substitution_diverges [of "''team''" "(bare_request ''alice'' ''s3:GetObject'' '''')
       \<lparr>ctx_PrincipalTags := Some [''team'' \<mapsto> ''${aws:PrincipalTag/team}'']\<rparr>"
       ascii_std "''aws:ResourceTag/team''"]
  by (simp add: is_ascii_def tag_lookup_def go_index_def)

text \<open>
  Attribute-based access: the policy condition that compares a resource tag with the
  principal's tag holds whenever the two look-ups agree, also when both tags are missing,
  while \<^verbatim>\<open>ABACMatch\<close>, described as a wrapper of that comparison, refuses a missing tag. The
  two agree exactly where the look-ups are not both empty.
\<close>

theorem abac_condition_agrees:
  assumes "is_ascii k" "CHR ''}'' \<notin> set k"
    and "\<not> Contains (tag_lookup (ctx_PrincipalTags ctx) k) ''${''"
  shows "conditionMatches S ''StringEquals'' (''aws:ResourceTag/'' @ k)
           (JString (''${aws:PrincipalTag/'' @ k @ ''}'')) ctx = Some (ABACMatch (Some ctx) k k) \<longleftrightarrow>
         (tag_lookup (ctx_ResourceTags ctx) k = '''' \<longrightarrow> tag_lookup (ctx_PrincipalTags ctx) k \<noteq> '''')"
  unfolding abac_condition [OF assms]
  by (auto simp: ABACMatch_def ResolveResourceTag_def ResolvePrincipalTag_def Let_def)

theorem abac_condition_agrees_witness:
  "conditionMatches ascii_std ''StringEquals'' ''aws:ResourceTag/team''
     (JString ''${aws:PrincipalTag/team}'') (bare_request ''alice'' ''s3:GetObject'' '''') \<noteq>
   Some (ABACMatch (Some (bare_request ''alice'' ''s3:GetObject'' '''')) ''team'' ''team'')"
  using abac_condition_agrees [of "''team''" "bare_request ''alice'' ''s3:GetObject'' ''''" ascii_std]
  by (simp add: is_ascii_def tag_lookup_def bare_request_def Contains_def HasPrefix_def)

end
