(* ===== verification/IAM_Store.thy ===== *)
theory IAM_Store
  imports IAM_Types
begin

text \<open>
  The persistence layer of the package, \<^verbatim>\<open>internal/iam/store.go\<close> and \<^verbatim>\<open>scp.go\<close>: six
  BoltDB buckets of JSON documents and the service control policy held in memory.

  BoltDB (\<^verbatim>\<open>go.etcd.io/bbolt\<close>) is not part of the repository. It is the argument
  \<open>B :: 'db bolt\<close> of every operation: the outcome of a \<^verbatim>\<open>View\<close> that gets one key or visits
  every key, and of an \<^verbatim>\<open>Update\<close> that puts or deletes one key, on a database \<open>db :: 'db\<close>.
  The predicate \<open>bolt_ok\<close> collects the documented behaviour the package relies on.

  A JSON document is represented by the Go value it was marshalled from; a byte sequence
  that is not valid JSON carries the decoder's message. The store's read-write mutex makes
  each operation atomic, so an operation is one state transformer.
\<close>

section \<open>Documents and the database\<close>

datatype json_doc =
    DUser IAMUser | DGroup IAMGroup | DPolicy IAMPolicy | DRole IAMRole
  | DBucketPolicy BucketPolicy | DTempCred TemporaryCredential | DInvalid string

record 'db bolt =
  bolt_get :: "'db \<Rightarrow> string \<Rightarrow> string \<Rightarrow> string + json_doc option"
  bolt_foreach :: "'db \<Rightarrow> string \<Rightarrow> string + (string \<times> json_doc) list"
  bolt_put :: "'db \<Rightarrow> string \<Rightarrow> string \<Rightarrow> json_doc \<Rightarrow> string + 'db"
  bolt_delete :: "'db \<Rightarrow> string \<Rightarrow> string \<Rightarrow> string + 'db"

definition bolt_ok :: "'db bolt \<Rightarrow> bool" where
  "bolt_ok B \<longleftrightarrow>
     (\<forall>db bk k v db'. bolt_put B db bk k v = Inr db' \<longrightarrow>
        (\<forall>bk' k'. bolt_get B db' bk' k' =
           (if bk' = bk \<and> k' = k then Inr (Some v) else bolt_get B db bk' k'))) \<and>
     (\<forall>db bk k db'. bolt_delete B db bk k = Inr db' \<longrightarrow>
        (\<forall>bk' k'. bolt_get B db' bk' k' =
           (if bk' = bk \<and> k' = k then Inr None else bolt_get B db bk' k'))) \<and>
     (\<forall>db bk kvs. bolt_foreach B db bk = Inr kvs \<longrightarrow>
        distinct (map fst kvs) \<and>
        (\<forall>k v. (k, v) \<in> set kvs \<longleftrightarrow> bolt_get B db bk k = Inr (Some v))) \<and>
     (\<forall>db bk v. isl (bolt_put B db bk '''' v))"

text \<open>The further hypothesis that no write fails, other than one with an empty key.\<close>

definition no_write_errors :: "'db bolt \<Rightarrow> bool" where
  "no_write_errors B \<longleftrightarrow>
     (\<forall>db bk k v. k \<noteq> '''' \<longrightarrow> \<not> isl (bolt_put B db bk k v)) \<and>
     (\<forall>db bk k. \<not> isl (bolt_delete B db bk k))"

lemma bolt_get_put [store_law]:
  "bolt_ok B \<Longrightarrow> bolt_put B db bk k v = Inr db' \<Longrightarrow>
   bolt_get B db' bk' k' = (if bk' = bk \<and> k' = k then Inr (Some v) else bolt_get B db bk' k')"
  by (simp add: bolt_ok_def)

lemma bolt_get_delete [store_law]:
  "bolt_ok B \<Longrightarrow> bolt_delete B db bk k = Inr db' \<Longrightarrow>
   bolt_get B db' bk' k' = (if bk' = bk \<and> k' = k then Inr None else bolt_get B db bk' k')"
  by (simp add: bolt_ok_def)

lemma bolt_foreach_get:
  "bolt_ok B \<Longrightarrow> bolt_foreach B db bk = Inr kvs \<Longrightarrow>
   (k, v) \<in> set kvs \<longleftrightarrow> bolt_get B db bk k = Inr (Some v)"
  by (simp add: bolt_ok_def)

section \<open>The store\<close>

definition bucketUsers :: string where "bucketUsers = ''iam_users''"
definition bucketGroups :: string where "bucketGroups = ''iam_groups''"
definition bucketPolicies :: string where "bucketPolicies = ''iam_policies''"
definition bucketRoles :: string where "bucketRoles = ''iam_roles''"
definition bucketBucketPolicy :: string where "bucketBucketPolicy = ''iam_bucket_policies''"
definition bucketTempCreds :: string where "bucketTempCreds = ''iam_temp_credentials''"

lemmas bucket_name_defs = bucketUsers_def bucketGroups_def bucketPolicies_def
  bucketRoles_def bucketBucketPolicy_def bucketTempCreds_def

lemma bucket_names_distinct [simp]:
  "bucketUsers \<noteq> bucketGroups" "bucketUsers \<noteq> bucketPolicies" "bucketUsers \<noteq> bucketRoles"
  "bucketUsers \<noteq> bucketBucketPolicy" "bucketUsers \<noteq> bucketTempCreds"
  "bucketGroups \<noteq> bucketUsers" "bucketGroups \<noteq> bucketPolicies" "bucketGroups \<noteq> bucketRoles"
  "bucketGroups \<noteq> bucketBucketPolicy" "bucketGroups \<noteq> bucketTempCreds"
  "bucketPolicies \<noteq> bucketUsers" "bucketPolicies \<noteq> bucketGroups"
  "bucketPolicies \<noteq> bucketRoles" "bucketPolicies \<noteq> bucketBucketPolicy"
  "bucketPolicies \<noteq> bucketTempCreds" "bucketRoles \<noteq> bucketUsers"
  "bucketRoles \<noteq> bucketGroups" "bucketRoles \<noteq> bucketPolicies"
  "bucketRoles \<noteq> bucketBucketPolicy" "bucketRoles \<noteq> bucketTempCreds"
  "bucketBucketPolicy \<noteq> bucketUsers" "bucketBucketPolicy \<noteq> bucketGroups"
  "bucketBucketPolicy \<noteq> bucketPolicies" "bucketBucketPolicy \<noteq> bucketRoles"
  "bucketBucketPolicy \<noteq> bucketTempCreds" "bucketTempCreds \<noteq> bucketUsers"
  "bucketTempCreds \<noteq> bucketGroups" "bucketTempCreds \<noteq> bucketPolicies"
  "bucketTempCreds \<noteq> bucketRoles" "bucketTempCreds \<noteq> bucketBucketPolicy"
  by (simp_all add: bucket_name_defs)

record 'db IAMStore =
  store_db :: 'db
  store_scp :: "PolicyDocument option"

text \<open>The two transaction shapes every write uses, and the two every read uses.\<close>

definition store_put ::
    "'db bolt \<Rightarrow> 'db IAMStore \<Rightarrow> string \<Rightarrow> string \<Rightarrow> json_doc \<Rightarrow> 'db IAMStore \<times> unit result" where
  "store_put B s bk k d =
     (case bolt_put B (store_db s) bk k d of
        Inl e \<Rightarrow> (s, Inl (Err e))
      | Inr db' \<Rightarrow> (s\<lparr>store_db := db'\<rparr>, Inr ()))"

definition store_delete ::
    "'db bolt \<Rightarrow> 'db IAMStore \<Rightarrow> string \<Rightarrow> string \<Rightarrow> 'db IAMStore \<times> unit result" where
  "store_delete B s bk k =
     (case bolt_delete B (store_db s) bk k of
        Inl e \<Rightarrow> (s, Inl (Err e))
      | Inr db' \<Rightarrow> (s\<lparr>store_db := db'\<rparr>, Inr ()))"

text \<open>\<open>store_get\<close> takes the message for a missing key and the decoder of the document type.\<close>

definition store_get ::
    "'db bolt \<Rightarrow> 'db IAMStore \<Rightarrow> string \<Rightarrow> string \<Rightarrow> string \<Rightarrow> (json_doc \<Rightarrow> 'a result) \<Rightarrow> 'a result" where
  "store_get B s bk k missing dec =
     (case bolt_get B (store_db s) bk k of
        Inl e \<Rightarrow> Inl (Err e)
      | Inr None \<Rightarrow> Inl (Err missing)
      | Inr (Some d) \<Rightarrow> dec d)"

definition store_list ::
    "'db bolt \<Rightarrow> 'db IAMStore \<Rightarrow> string \<Rightarrow> (json_doc \<Rightarrow> 'a result) \<Rightarrow> 'a list result" where
  "store_list B s bk dec =
     (case bolt_foreach B (store_db s) bk of
        Inl e \<Rightarrow> Inl (Err e)
      | Inr kvs \<Rightarrow> Inr (List.map_filter
          (\<lambda>(k, d). case dec d of Inl _ \<Rightarrow> None | Inr v \<Rightarrow> Some v) kvs))"

section \<open>Decoders\<close>

definition json_mismatch :: go_err where
  "json_mismatch = Err ''json: cannot unmarshal value''"

fun as_user :: "json_doc \<Rightarrow> IAMUser result" where
  "as_user (DUser u) = Inr u"
| "as_user (DInvalid m) = Inl (Err m)"
| "as_user _ = Inl json_mismatch"

fun as_group :: "json_doc \<Rightarrow> IAMGroup result" where
  "as_group (DGroup g) = Inr g"
| "as_group (DInvalid m) = Inl (Err m)"
| "as_group _ = Inl json_mismatch"

fun as_policy :: "json_doc \<Rightarrow> IAMPolicy result" where
  "as_policy (DPolicy p) = Inr p"
| "as_policy (DInvalid m) = Inl (Err m)"
| "as_policy _ = Inl json_mismatch"

fun as_role :: "json_doc \<Rightarrow> IAMRole result" where
  "as_role (DRole r) = Inr r"
| "as_role (DInvalid m) = Inl (Err m)"
| "as_role _ = Inl json_mismatch"

fun as_bucket_policy :: "json_doc \<Rightarrow> BucketPolicy result" where
  "as_bucket_policy (DBucketPolicy p) = Inr p"
| "as_bucket_policy (DInvalid m) = Inl (Err m)"
| "as_bucket_policy _ = Inl json_mismatch"

fun as_temp_cred :: "json_doc \<Rightarrow> TemporaryCredential result" where
  "as_temp_cred (DTempCred c) = Inr c"
| "as_temp_cred (DInvalid m) = Inl (Err m)"
| "as_temp_cred _ = Inl json_mismatch"

section \<open>Users\<close>

definition PutUser :: "'db bolt \<Rightarrow> 'db IAMStore \<Rightarrow> IAMUser \<Rightarrow> 'db IAMStore \<times> unit result" where
  "PutUser B s user = store_put B s bucketUsers (user_Name user) (DUser user)"

definition GetUser :: "'db bolt \<Rightarrow> 'db IAMStore \<Rightarrow> string \<Rightarrow> IAMUser result" where
  "GetUser B s name =
     store_get B s bucketUsers name (''user '' @ name @ '' not found'') as_user"

definition DeleteUser :: "'db bolt \<Rightarrow> 'db IAMStore \<Rightarrow> string \<Rightarrow> 'db IAMStore \<times> unit result" where
  "DeleteUser B s name = store_delete B s bucketUsers name"

definition ListUsers :: "'db bolt \<Rightarrow> 'db IAMStore \<Rightarrow> IAMUser list result" where
  "ListUsers B s = store_list B s bucketUsers as_user"

text \<open>
  \<^verbatim>\<open>GetUserByAccessKey\<close> stops the iteration at the first user with an active key of that
  ID. Without one it returns the iteration's error, which is \<^verbatim>\<open>nil\<close> when nothing failed:
  the pair \<^verbatim>\<open>(nil, nil)\<close> is \<open>Inr None\<close>.
\<close>

definition has_active_key :: "string \<Rightarrow> IAMUser \<Rightarrow> bool" where
  "has_active_key keyID user \<longleftrightarrow>
     (\<exists>ak \<in> set (user_AccessKeys user). ak_AccessKeyID ak = keyID \<and> ak_Status ak = AccessKeyActive)"

definition GetUserByAccessKey ::
    "'db bolt \<Rightarrow> 'db IAMStore \<Rightarrow> string \<Rightarrow> IAMUser option result" where
  "GetUserByAccessKey B s keyID =
     (case ListUsers B s of
        Inl e \<Rightarrow> Inl e
      | Inr users \<Rightarrow> Inr (find (has_active_key keyID) users))"

section \<open>Groups\<close>

definition PutGroup :: "'db bolt \<Rightarrow> 'db IAMStore \<Rightarrow> IAMGroup \<Rightarrow> 'db IAMStore \<times> unit result" where
  "PutGroup B s grp = store_put B s bucketGroups (group_Name grp) (DGroup grp)"

definition GetGroup :: "'db bolt \<Rightarrow> 'db IAMStore \<Rightarrow> string \<Rightarrow> IAMGroup result" where
  "GetGroup B s name =
     store_get B s bucketGroups name (''group '' @ name @ '' not found'') as_group"

definition DeleteGroup :: "'db bolt \<Rightarrow> 'db IAMStore \<Rightarrow> string \<Rightarrow> 'db IAMStore \<times> unit result" where
  "DeleteGroup B s name = store_delete B s bucketGroups name"

definition ListGroups :: "'db bolt \<Rightarrow> 'db IAMStore \<Rightarrow> IAMGroup list result" where
  "ListGroups B s = store_list B s bucketGroups as_group"

section \<open>Managed policies\<close>

definition PutPolicy :: "'db bolt \<Rightarrow> 'db IAMStore \<Rightarrow> IAMPolicy \<Rightarrow> 'db IAMStore \<times> unit result" where
  "PutPolicy B s policy = store_put B s bucketPolicies (policy_Name policy) (DPolicy policy)"

definition GetPolicy :: "'db bolt \<Rightarrow> 'db IAMStore \<Rightarrow> string \<Rightarrow> IAMPolicy result" where
  "GetPolicy B s name =
     store_get B s bucketPolicies name (''policy '' @ name @ '' not found'') as_policy"

definition DeletePolicy :: "'db bolt \<Rightarrow> 'db IAMStore \<Rightarrow> string \<Rightarrow> 'db IAMStore \<times> unit result" where
  "DeletePolicy B s name = store_delete B s bucketPolicies name"

definition ListPolicies :: "'db bolt \<Rightarrow> 'db IAMStore \<Rightarrow> IAMPolicy list result" where
  "ListPolicies B s = store_list B s bucketPolicies as_policy"

section \<open>Roles\<close>

definition PutRole :: "'db bolt \<Rightarrow> 'db IAMStore \<Rightarrow> IAMRole \<Rightarrow> 'db IAMStore \<times> unit result" where
  "PutRole B s role = store_put B s bucketRoles (role_Name role) (DRole role)"

definition GetRole :: "'db bolt \<Rightarrow> 'db IAMStore \<Rightarrow> string \<Rightarrow> IAMRole result" where
  "GetRole B s name =
     store_get B s bucketRoles name (''role '' @ name @ '' not found'') as_role"

definition DeleteRole :: "'db bolt \<Rightarrow> 'db IAMStore \<Rightarrow> string \<Rightarrow> 'db IAMStore \<times> unit result" where
  "DeleteRole B s name = store_delete B s bucketRoles name"

definition ListRoles :: "'db bolt \<Rightarrow> 'db IAMStore \<Rightarrow> IAMRole list result" where
  "ListRoles B s = store_list B s bucketRoles as_role"

section \<open>Bucket policies\<close>

definition PutBucketPolicy ::
    "'db bolt \<Rightarrow> 'db IAMStore \<Rightarrow> BucketPolicy \<Rightarrow> 'db IAMStore \<times> unit result" where
  "PutBucketPolicy B s bp = store_put B s bucketBucketPolicy (bp_Bucket bp) (DBucketPolicy bp)"

definition GetBucketPolicy :: "'db bolt \<Rightarrow> 'db IAMStore \<Rightarrow> string \<Rightarrow> BucketPolicy result" where
  "GetBucketPolicy B s bucket =
     store_get B s bucketBucketPolicy bucket
       (''bucket policy for '' @ bucket @ '' not found'') as_bucket_policy"

definition DeleteBucketPolicy ::
    "'db bolt \<Rightarrow> 'db IAMStore \<Rightarrow> string \<Rightarrow> 'db IAMStore \<times> unit result" where
  "DeleteBucketPolicy B s bucket = store_delete B s bucketBucketPolicy bucket"

section \<open>Temporary credentials\<close>

definition PutTempCredential ::
    "'db bolt \<Rightarrow> 'db IAMStore \<Rightarrow> TemporaryCredential \<Rightarrow> 'db IAMStore \<times> unit result" where
  "PutTempCredential B s cred = store_put B s bucketTempCreds (cred_AccessKeyID cred) (DTempCred cred)"

definition GetTempCredential ::
    "'db bolt \<Rightarrow> gotime \<Rightarrow> 'db IAMStore \<Rightarrow> string \<Rightarrow> TemporaryCredential result" where
  "GetTempCredential B now s keyID =
     (case store_get B s bucketTempCreds keyID
             (''temp credential '' @ keyID @ '' not found'') as_temp_cred of
        Inl e \<Rightarrow> Inl e
      | Inr cred \<Rightarrow>
          (if now > cred_Expiration cred then Inl (Err ''temp credential expired'')
           else Inr cred))"

definition DeleteTempCredential ::
    "'db bolt \<Rightarrow> 'db IAMStore \<Rightarrow> string \<Rightarrow> 'db IAMStore \<times> unit result" where
  "DeleteTempCredential B s keyID = store_delete B s bucketTempCreds keyID"

section \<open>The service control policy\<close>

text \<open>A nil document pointer is \<^const>\<open>None\<close>.\<close>

definition SetSCP :: "'db IAMStore \<Rightarrow> PolicyDocument option \<Rightarrow> 'db IAMStore \<times> unit result" where
  "SetSCP s doc =
     (case doc of
        None \<Rightarrow> (s, Inl (Err ''SCP document cannot be nil''))
      | Some d \<Rightarrow>
          (if doc_Statement d = [] then
             (s, Inl (Err ''SCP document must contain at least one statement''))
           else (s\<lparr>store_scp := Some d\<rparr>, Inr ())))"

definition GetSCP :: "'db IAMStore \<Rightarrow> PolicyDocument option" where
  "GetSCP s = store_scp s"

definition RemoveSCP :: "'db IAMStore \<Rightarrow> 'db IAMStore" where
  "RemoveSCP s = s\<lparr>store_scp := None\<rparr>"

section \<open>The contract of a bucket\<close>

text \<open>
  What the rest of the package relies on, for every kind of record: a successful put is
  read back under its key and under no other, a successful delete removes its key and no
  other, and a failed write changes nothing.
\<close>

locale keyed_bucket =
  fixes ok :: "'b \<Rightarrow> bool"
    and key :: "'v \<Rightarrow> string"
    and put :: "'b \<Rightarrow> 's \<Rightarrow> 'v \<Rightarrow> 's \<times> unit result"
    and get :: "'b \<Rightarrow> 's \<Rightarrow> string \<Rightarrow> 'v result"
    and del :: "'b \<Rightarrow> 's \<Rightarrow> string \<Rightarrow> 's \<times> unit result"
  assumes get_put: "ok B \<Longrightarrow> put B s v = (s', Inr ()) \<Longrightarrow>
      get B s' k = (if k = key v then Inr v else get B s k)"
    and put_error: "put B s v = (s', Inl e) \<Longrightarrow> s' = s"
    and get_del_same: "ok B \<Longrightarrow> del B s k = (s', Inr ()) \<Longrightarrow> isl (get B s' k)"
    and get_del_other: "ok B \<Longrightarrow> del B s k' = (s', Inr ()) \<Longrightarrow> k \<noteq> k' \<Longrightarrow> get B s' k = get B s k"
    and del_error: "del B s k = (s', Inl e) \<Longrightarrow> s' = s"
begin

lemma read_your_write:
  "ok B \<Longrightarrow> put B s v = (s', Inr ()) \<Longrightarrow> get B s' (key v) = Inr v"
  by (simp add: get_put)

lemma put_frame:
  assumes "ok B" "put B s v = (s', r)" "k \<noteq> key v"
  shows "get B s' k = get B s k"
proof (cases r)
  case (Inl e)
  with assms put_error show ?thesis by blast
next
  case (Inr u)
  with assms show ?thesis by (simp add: get_put)
qed

lemma last_write_wins:
  assumes "ok B" "put B s v = (s1, Inr ())" "put B s1 w = (s2, Inr ())" "key v = key w"
  shows "get B s2 k = (if k = key w then Inr w else get B s k)"
  using assms by (simp add: get_put)

lemma writes_commute:
  assumes "ok B" "key v \<noteq> key w"
    and "put B s v = (s1, Inr ())" "put B s1 w = (s2, Inr ())"
    and "put B s w = (t1, Inr ())" "put B t1 v = (t2, Inr ())"
  shows "get B s2 k = get B t2 k"
  using assms by (auto simp: get_put)

lemma delete_undoes_create:
  assumes "ok B" "isl (get B s (key v))"
    and "put B s v = (s1, Inr ())" "del B s1 (key v) = (s2, Inr ())"
  shows "isl (get B s2 k) = isl (get B s k) \<and> (k \<noteq> key v \<longrightarrow> get B s2 k = get B s k)"
  using assms get_del_same get_del_other get_put by metis

end

text \<open>A bucket that can be listed: the listing holds exactly the readable records.\<close>

locale listed_bucket = keyed_bucket +
  fixes lst :: "'b \<Rightarrow> 's \<Rightarrow> 'v list result"
  assumes lst_get: "ok B \<Longrightarrow> lst B s = Inr vs \<Longrightarrow> v \<in> set vs \<longleftrightarrow> (\<exists>k. get B s k = Inr v)"
begin

lemma listed_after_put:
  assumes "ok B" "put B s v = (s', Inr ())" "lst B s' = Inr vs"
  shows "v \<in> set vs"
  using assms lst_get read_your_write by blast

lemma unlisted_unread: "ok B \<Longrightarrow> lst B s = Inr [] \<Longrightarrow> isl (get B s k)"
  using lst_get [of B s "[]"] by (cases "get B s k") auto

end

section \<open>The buckets meet the contract\<close>

lemma store_put_cases:
  "store_put B s bk k d = (s', r) \<Longrightarrow>
   (\<exists>e. r = Inl (Err e) \<and> s' = s) \<or>
   (\<exists>db'. bolt_put B (store_db s) bk k d = Inr db' \<and> r = Inr () \<and> s' = s\<lparr>store_db := db'\<rparr>)"
  by (auto simp: store_put_def split: sum.splits)

lemma store_delete_cases:
  "store_delete B s bk k = (s', r) \<Longrightarrow>
   (\<exists>e. r = Inl (Err e) \<and> s' = s) \<or>
   (\<exists>db'. bolt_delete B (store_db s) bk k = Inr db' \<and> r = Inr () \<and> s' = s\<lparr>store_db := db'\<rparr>)"
  by (auto simp: store_delete_def split: sum.splits)

lemma store_get_put:
  assumes "bolt_ok B" "store_put B s bk k d = (s', Inr ())"
  shows "store_get B s' bk' k' msg dec =
    (if bk' = bk \<and> k' = k then dec d else store_get B s bk' k' msg dec)"
  using store_put_cases [OF assms(2)] assms(1)
  by (auto simp: store_get_def bolt_get_put)

lemma store_get_delete:
  assumes "bolt_ok B" "store_delete B s bk k = (s', Inr ())"
  shows "store_get B s' bk' k' msg dec =
    (if bk' = bk \<and> k' = k then Inl (Err msg) else store_get B s bk' k' msg dec)"
  using store_delete_cases [OF assms(2)] assms(1)
  by (auto simp: store_get_def bolt_get_delete)

lemma store_get_Inr:
  "store_get B s bk k msg dec = Inr v \<longleftrightarrow>
   (\<exists>d. bolt_get B (store_db s) bk k = Inr (Some d) \<and> dec d = Inr v)"
  unfolding store_get_def
  by (cases "bolt_get B (store_db s) bk k") (auto split: option.splits)

lemma store_list_get:
  assumes "bolt_ok B" "store_list B s bk dec = Inr vs"
  shows "v \<in> set vs \<longleftrightarrow> (\<exists>k. store_get B s bk k (msg k) dec = Inr v)"
proof -
  from assms(2) obtain kvs where kvs: "bolt_foreach B (store_db s) bk = Inr kvs"
    and vs: "vs = List.map_filter (\<lambda>(k, d). case dec d of Inl _ \<Rightarrow> None | Inr v \<Rightarrow> Some v) kvs"
    by (auto simp: store_list_def split: sum.splits)
  have "v \<in> set vs \<longleftrightarrow> (\<exists>k d. (k, d) \<in> set kvs \<and> dec d = Inr v)"
    unfolding vs by (force simp: List.map_filter_def split: sum.splits)
  also have "\<dots> \<longleftrightarrow> (\<exists>k d. bolt_get B (store_db s) bk k = Inr (Some d) \<and> dec d = Inr v)"
    using bolt_foreach_get [OF assms(1) kvs] by simp
  also have "\<dots> \<longleftrightarrow> (\<exists>k. store_get B s bk k (msg k) dec = Inr v)"
    by (simp add: store_get_Inr)
  finally show ?thesis .
qed

lemmas bucket_op_defs =
  PutUser_def GetUser_def DeleteUser_def ListUsers_def
  PutGroup_def GetGroup_def DeleteGroup_def ListGroups_def
  PutPolicy_def GetPolicy_def DeletePolicy_def ListPolicies_def
  PutRole_def GetRole_def DeleteRole_def ListRoles_def
  PutBucketPolicy_def GetBucketPolicy_def DeleteBucketPolicy_def

interpretation users: listed_bucket bolt_ok user_Name PutUser GetUser DeleteUser ListUsers
  by unfold_locales
    (auto simp: bucket_op_defs store_get_put store_get_delete
      dest: store_put_cases store_delete_cases intro!: store_list_get)

interpretation groups: listed_bucket bolt_ok group_Name PutGroup GetGroup DeleteGroup ListGroups
  by unfold_locales
    (auto simp: bucket_op_defs store_get_put store_get_delete
      dest: store_put_cases store_delete_cases intro!: store_list_get)

interpretation policies: listed_bucket bolt_ok policy_Name PutPolicy GetPolicy DeletePolicy ListPolicies
  by unfold_locales
    (auto simp: bucket_op_defs store_get_put store_get_delete
      dest: store_put_cases store_delete_cases intro!: store_list_get)

interpretation roles: listed_bucket bolt_ok role_Name PutRole GetRole DeleteRole ListRoles
  by unfold_locales
    (auto simp: bucket_op_defs store_get_put store_get_delete
      dest: store_put_cases store_delete_cases intro!: store_list_get)

interpretation bucket_policies: keyed_bucket bolt_ok bp_Bucket PutBucketPolicy GetBucketPolicy
  DeleteBucketPolicy
  by unfold_locales
    (auto simp: bucket_op_defs store_get_put store_get_delete
      dest: store_put_cases store_delete_cases)

text \<open>
  Writes to one bucket leave the others alone, and no operation on records touches the
  service control policy.
\<close>

lemma store_put_frame:
  assumes "bolt_ok B" "store_put B s bk k d = (s', r)"
  shows "bk' \<noteq> bk \<Longrightarrow> store_get B s' bk' = store_get B s bk'" "store_scp s' = store_scp s"
  using store_put_cases [OF assms(2)] assms(1)
  by (auto simp: fun_eq_iff store_get_def bolt_get_put)

lemma store_delete_frame:
  assumes "bolt_ok B" "store_delete B s bk k = (s', r)"
  shows "bk' \<noteq> bk \<Longrightarrow> store_get B s' bk' = store_get B s bk'" "store_scp s' = store_scp s"
  using store_delete_cases [OF assms(2)] assms(1)
  by (auto simp: fun_eq_iff store_get_def bolt_get_delete)

lemma frame_PutUser [store_law]:
  assumes "bolt_ok B" "PutUser B s u = (s', r)"
  shows "GetGroup B s' = GetGroup B s" "GetPolicy B s' = GetPolicy B s"
    "GetRole B s' = GetRole B s" "GetBucketPolicy B s' = GetBucketPolicy B s"
    "store_scp s' = store_scp s"
  by (auto intro!: ext simp: bucket_op_defs store_put_frame [OF assms [unfolded PutUser_def]])

lemma frame_PutGroup [store_law]:
  assumes "bolt_ok B" "PutGroup B s g = (s', r)"
  shows "GetUser B s' = GetUser B s" "GetPolicy B s' = GetPolicy B s"
    "GetRole B s' = GetRole B s" "GetBucketPolicy B s' = GetBucketPolicy B s"
    "store_scp s' = store_scp s"
  by (auto intro!: ext simp: bucket_op_defs store_put_frame [OF assms [unfolded PutGroup_def]])

lemma frame_PutPolicy [store_law]:
  assumes "bolt_ok B" "PutPolicy B s p = (s', r)"
  shows "GetUser B s' = GetUser B s" "GetGroup B s' = GetGroup B s"
    "GetRole B s' = GetRole B s" "GetBucketPolicy B s' = GetBucketPolicy B s"
    "store_scp s' = store_scp s"
  by (auto intro!: ext simp: bucket_op_defs store_put_frame [OF assms [unfolded PutPolicy_def]])

lemma frame_PutRole [store_law]:
  assumes "bolt_ok B" "PutRole B s x = (s', r)"
  shows "GetUser B s' = GetUser B s" "GetGroup B s' = GetGroup B s"
    "GetPolicy B s' = GetPolicy B s" "GetBucketPolicy B s' = GetBucketPolicy B s"
    "store_scp s' = store_scp s"
  by (auto intro!: ext simp: bucket_op_defs store_put_frame [OF assms [unfolded PutRole_def]])

lemma frame_DeleteUser [store_law]:
  assumes "bolt_ok B" "DeleteUser B s n = (s', r)"
  shows "GetGroup B s' = GetGroup B s" "GetPolicy B s' = GetPolicy B s"
    "GetRole B s' = GetRole B s" "GetBucketPolicy B s' = GetBucketPolicy B s"
    "store_scp s' = store_scp s"
  by (auto intro!: ext simp: bucket_op_defs store_delete_frame [OF assms [unfolded DeleteUser_def]])

lemma frame_DeleteGroup [store_law]:
  assumes "bolt_ok B" "DeleteGroup B s n = (s', r)"
  shows "GetUser B s' = GetUser B s" "GetPolicy B s' = GetPolicy B s"
    "GetRole B s' = GetRole B s" "GetBucketPolicy B s' = GetBucketPolicy B s"
    "store_scp s' = store_scp s"
  by (auto intro!: ext simp: bucket_op_defs store_delete_frame [OF assms [unfolded DeleteGroup_def]])

lemma frame_DeletePolicy [store_law]:
  assumes "bolt_ok B" "DeletePolicy B s n = (s', r)"
  shows "GetUser B s' = GetUser B s" "GetGroup B s' = GetGroup B s"
    "GetRole B s' = GetRole B s" "GetBucketPolicy B s' = GetBucketPolicy B s"
    "store_scp s' = store_scp s"
  by (auto intro!: ext simp: bucket_op_defs store_delete_frame [OF assms [unfolded DeletePolicy_def]])

lemma frame_DeleteRole [store_law]:
  assumes "bolt_ok B" "DeleteRole B s n = (s', r)"
  shows "GetUser B s' = GetUser B s" "GetGroup B s' = GetGroup B s"
    "GetPolicy B s' = GetPolicy B s" "GetBucketPolicy B s' = GetBucketPolicy B s"
    "store_scp s' = store_scp s"
  by (auto intro!: ext simp: bucket_op_defs store_delete_frame [OF assms [unfolded DeleteRole_def]])

text \<open>A stored temporary credential is readable until it expires, and only until then.\<close>

lemma temp_credential_lifetime:
  assumes "bolt_ok B" "PutTempCredential B s c = (s', Inr ())"
  shows "GetTempCredential B now s' (cred_AccessKeyID c) =
    (if now > cred_Expiration c then Inl (Err ''temp credential expired'') else Inr c)"
  using assms by (simp add: GetTempCredential_def PutTempCredential_def store_get_put)

section \<open>A database that satisfies the hypothesis\<close>

text \<open>
  An association list of bucket and key behaves as documented; as in BoltDB, a put with an
  empty key fails. The witnesses of the development run on it.
\<close>

type_synonym mem_db = "((string \<times> string) \<times> json_doc) list"

definition mem_delete :: "string \<Rightarrow> string \<Rightarrow> mem_db \<Rightarrow> mem_db" where
  "mem_delete bk k db = filter (\<lambda>e. fst e \<noteq> (bk, k)) db"

definition mem_foreach :: "mem_db \<Rightarrow> string \<Rightarrow> (string \<times> json_doc) list" where
  "mem_foreach db bk =
     map (\<lambda>k. (k, the (map_of db (bk, k)))) (remdups (map (snd \<circ> fst) (filter (\<lambda>e. fst (fst e) = bk) db)))"

definition mem_bolt :: "mem_db bolt" where
  "mem_bolt = \<lparr>
     bolt_get = (\<lambda>db bk k. Inr (map_of db (bk, k))),
     bolt_foreach = (\<lambda>db bk. Inr (mem_foreach db bk)),
     bolt_put = (\<lambda>db bk k v. if k = [] then Inl ''key required''
                  else Inr (((bk, k), v) # mem_delete bk k db)),
     bolt_delete = (\<lambda>db bk k. Inr (mem_delete bk k db)) \<rparr>"

lemma map_of_mem_delete:
  "map_of (mem_delete bk k db) x = (if x = (bk, k) then None else map_of db x)"
  by (induction db) (auto simp: mem_delete_def)

lemma mem_foreach_get:
  "(k, v) \<in> set (mem_foreach db bk) \<longleftrightarrow> map_of db (bk, k) = Some v"
proof -
  have "k \<in> set (map (snd \<circ> fst) (filter (\<lambda>e. fst (fst e) = bk) db)) \<longleftrightarrow> map_of db (bk, k) \<noteq> None"
    by (induction db) auto
  then show ?thesis by (auto simp: mem_foreach_def)
qed

lemma mem_bolt_ok: "bolt_ok mem_bolt"
  unfolding bolt_ok_def
  by (auto simp: mem_bolt_def map_of_mem_delete mem_foreach_get split: if_splits)
    (simp add: mem_foreach_def comp_def)

lemma mem_bolt_no_write_errors: "no_write_errors mem_bolt"
  by (simp add: no_write_errors_def mem_bolt_def)

end
