(* ===== verification/IAM_Policy.thy ===== *)
theory IAM_Policy
  imports IAM_Conditions IAM_Store
begin

text \<open>
  The policy evaluator of \<^verbatim>\<open>internal/iam/policy.go\<close>: matching of actions, resources,
  principals and whole statements, and the evaluation of a request against the service
  control policy, the identity policies of the caller, the bucket policy and the caller's
  permission boundary. A result of \<^const>\<open>None\<close> is an evaluation that does not return (see
  theory \<open>IAM_Conditions\<close>).
\<close>

section \<open>Statements\<close>

definition matchAction :: "std \<Rightarrow> string \<Rightarrow> string \<Rightarrow> bool" where
  "matchAction S pattern action =
     (if pattern = ''*'' then True
      else let pattern = lower S pattern; action = lower S action in
        if pattern = action then True
        else if HasSuffix pattern '':*'' then
          HasPrefix action (TrimSuffix pattern '':*'' @ '':'')
        else if Contains pattern ''*'' \<or> Contains pattern ''?'' then globMatch pattern action
        else False)"

definition actionMatches :: "std \<Rightarrow> string list \<Rightarrow> string \<Rightarrow> bool" where
  "actionMatches S policyActions requestAction =
     list_ex (\<lambda>action. matchAction S action requestAction) policyActions"

definition matchResource :: "string \<Rightarrow> string \<Rightarrow> bool" where
  "matchResource pattern resource =
     (if pattern = ''*'' then True
      else if pattern = resource then True
      else if Contains pattern ''*'' \<or> Contains pattern ''?'' then globMatch pattern resource
      else False)"

definition resourceMatches :: "string list \<Rightarrow> string \<Rightarrow> bool" where
  "resourceMatches policyResources requestResource =
     list_ex (\<lambda>resource. matchResource resource requestResource) policyResources"

definition principalMatches :: "Principal \<Rightarrow> string \<Rightarrow> bool" where
  "principalMatches pr requestPrincipal \<longleftrightarrow>
     list_ex (\<lambda>p. p = ''*'' \<or> p = requestPrincipal \<or>
                   (HasPrefix requestPrincipal ARNPrefix \<and> globMatch p requestPrincipal))
       (principal_AWS pr) \<or>
     (principal_AWS pr = [] \<and> principal_Service pr = [] \<and> principal_Federated pr = [])"

definition statementMatches :: "std \<Rightarrow> Statement \<Rightarrow> EvalContext \<Rightarrow> bool option" where
  "statementMatches S stmt ctx =
     (if \<not> actionMatches S (stmt_Action stmt) (ctx_Action ctx) \<and>
         \<not> (stmt_NotAction stmt \<noteq> [] \<and> \<not> actionMatches S (stmt_NotAction stmt) (ctx_Action ctx))
      then Some False
      else if \<not> resourceMatches (stmt_Resource stmt) (ctx_Resource ctx) \<and>
              \<not> (stmt_NotResource stmt \<noteq> [] \<and>
                  \<not> resourceMatches (stmt_NotResource stmt) (ctx_Resource ctx))
      then Some False
      else if (case stmt_Principal stmt of None \<Rightarrow> False
               | Some p \<Rightarrow> \<not> principalMatches p (ctx_Principal ctx))
      then Some False
      else if stmt_Condition stmt \<noteq> [] then conditionsMatch S (stmt_Condition stmt) ctx
      else Some True)"

section \<open>Scanning statements\<close>

text \<open>
  The loops of the evaluator: the first statement of an effect that matches. The outer
  option is whether the scan returns, the inner one whether it found a statement.
\<close>

fun find_stmt :: "std \<Rightarrow> EvalContext \<Rightarrow> string \<Rightarrow> Statement list \<Rightarrow> Statement option option" where
  "find_stmt S ctx eff [] = Some None"
| "find_stmt S ctx eff (stmt # stmts) =
     (if stmt_Effect stmt = eff then
        (case statementMatches S stmt ctx of
           None \<Rightarrow> None
         | Some m \<Rightarrow> (if m then Some (Some stmt) else find_stmt S ctx eff stmts))
      else find_stmt S ctx eff stmts)"

fun find_in_docs ::
    "std \<Rightarrow> EvalContext \<Rightarrow> string \<Rightarrow> PolicyDocument list \<Rightarrow> Statement option option" where
  "find_in_docs S ctx eff [] = Some None"
| "find_in_docs S ctx eff (doc # docs) =
     (case find_stmt S ctx eff (doc_Statement doc) of
        None \<Rightarrow> None
      | Some None \<Rightarrow> find_in_docs S ctx eff docs
      | Some (Some stmt) \<Rightarrow> Some (Some stmt))"

text \<open>
  The identity policies are kept in two slices of equal length, documents and names; here
  they are one list of pairs, and the scan for an Allow returns the name with the statement.
\<close>

fun find_named ::
    "std \<Rightarrow> EvalContext \<Rightarrow> string \<Rightarrow> (PolicyDocument \<times> string) list \<Rightarrow> (string \<times> Statement) option option" where
  "find_named S ctx eff [] = Some None"
| "find_named S ctx eff ((doc, name) # docs) =
     (case find_stmt S ctx eff (doc_Statement doc) of
        None \<Rightarrow> None
      | Some None \<Rightarrow> find_named S ctx eff docs
      | Some (Some stmt) \<Rightarrow> Some (Some (name, stmt)))"

section \<open>Collecting policies\<close>

fun lookup_policies :: "'db bolt \<Rightarrow> 'db IAMStore \<Rightarrow> string list \<Rightarrow> (PolicyDocument \<times> string) list" where
  "lookup_policies B st [] = []"
| "lookup_policies B st (policyName # names) =
     (case GetPolicy B st policyName of
        Inl _ \<Rightarrow> lookup_policies B st names
      | Inr policy \<Rightarrow> (policy_Document policy, policyName) # lookup_policies B st names)"

fun group_policies :: "'db bolt \<Rightarrow> 'db IAMStore \<Rightarrow> string list \<Rightarrow> (PolicyDocument \<times> string) list" where
  "group_policies B st [] = []"
| "group_policies B st (groupName # names) =
     (case GetGroup B st groupName of
        Inl _ \<Rightarrow> group_policies B st names
      | Inr grp \<Rightarrow> lookup_policies B st (group_AttachedPolicies grp) @ group_policies B st names)"

definition identity_policies ::
    "'db bolt \<Rightarrow> 'db IAMStore \<Rightarrow> IAMUser option \<Rightarrow> (PolicyDocument \<times> string) list" where
  "identity_policies B st user =
     (case user of
        None \<Rightarrow> []
      | Some u \<Rightarrow> map (\<lambda>ip. (ip, doc_Id ip)) (user_InlinePolicies u) @
                  lookup_policies B st (user_AttachedPolicies u) @
                  group_policies B st (user_Groups u))"

definition resource_policies :: "'db bolt \<Rightarrow> 'db IAMStore \<Rightarrow> string \<Rightarrow> PolicyDocument list" where
  "resource_policies B st resource =
     (let bucketName = extractBucketFromResource resource in
      if bucketName \<noteq> '''' then
        (case GetBucketPolicy B st bucketName of Inl _ \<Rightarrow> [] | Inr bp \<Rightarrow> [bp_Document bp])
      else [])"

section \<open>Evaluation\<close>

definition plain_result :: "Decision \<Rightarrow> string \<Rightarrow> EvalResult" where
  "plain_result d matchedBy =
     \<lparr>res_Decision = d, res_MatchedBy = matchedBy, res_PolicyType = '''', res_PolicyName = '''',
      res_Details = ''''\<rparr>"

definition evaluateBoundary :: "std \<Rightarrow> EvalContext \<Rightarrow> PolicyDocument \<Rightarrow> EvalResult option" where
  "evaluateBoundary S ctx boundaryDoc =
     (case find_stmt S ctx EffectDeny (doc_Statement boundaryDoc) of
        None \<Rightarrow> None
      | Some (Some stmt) \<Rightarrow> Some (plain_result DecisionDeny (stmt_Sid stmt))
      | Some None \<Rightarrow>
          (case find_stmt S ctx EffectAllow (doc_Statement boundaryDoc) of
             None \<Rightarrow> None
           | Some (Some stmt) \<Rightarrow> Some (plain_result DecisionAllow (stmt_Sid stmt))
           | Some None \<Rightarrow> Some (plain_result DecisionImplicitDeny '''')))"

definition evaluateSCP :: "std \<Rightarrow> 'db IAMStore option \<Rightarrow> EvalContext \<Rightarrow> EvalResult option" where
  "evaluateSCP S store ctx =
     (case Option.bind store store_scp of
        None \<Rightarrow> Some (plain_result DecisionAllow '''')
      | Some scp \<Rightarrow>
          (case find_stmt S ctx EffectDeny (doc_Statement scp) of
             None \<Rightarrow> None
           | Some (Some stmt) \<Rightarrow>
               Some ((plain_result DecisionDeny (stmt_Sid stmt))
                 \<lparr>res_Details := ''Denied by SCP statement '' @ quoted (stmt_Sid stmt)\<rparr>)
           | Some None \<Rightarrow>
               (case find_stmt S ctx EffectAllow (doc_Statement scp) of
                  None \<Rightarrow> None
                | Some (Some stmt) \<Rightarrow> Some (plain_result DecisionAllow (stmt_Sid stmt))
                | Some None \<Rightarrow>
                    Some ((plain_result DecisionImplicitDeny '''')
                      \<lparr>res_Details := ''No Allow statement in SCP matches this request''\<rparr>))))"

text \<open>
  The phases after the service control policy, which \<^verbatim>\<open>Evaluate\<close> runs on the stored user of
  the request's principal and \<^verbatim>\<open>EvaluateWithBoundary\<close> on the user it is given: explicit
  denies, identity allows under the permission boundary, resource allows, implicit deny.
\<close>

definition boundary_verdict ::
    "std \<Rightarrow> 'db bolt \<Rightarrow> 'db IAMStore \<Rightarrow> EvalContext \<Rightarrow> IAMUser option \<Rightarrow> EvalResult \<Rightarrow> EvalResult option" where
  "boundary_verdict S B st ctx user identityAllow =
     (case user of
        None \<Rightarrow> Some identityAllow
      | Some u \<Rightarrow>
          (if user_PermissionBoundary u = '''' then Some identityAllow
           else case GetPolicy B st (user_PermissionBoundary u) of
               Inl _ \<Rightarrow> Some identityAllow
             | Inr boundaryPolicy \<Rightarrow>
                 (case evaluateBoundary S ctx (policy_Document boundaryPolicy) of
                    None \<Rightarrow> None
                  | Some boundaryResult \<Rightarrow>
                      (if res_Decision boundaryResult \<noteq> DecisionAllow then
                         Some \<lparr>res_Decision = DecisionDeny,
                               res_MatchedBy = res_MatchedBy boundaryResult,
                               res_PolicyType = ''boundary'',
                               res_PolicyName = user_PermissionBoundary u,
                               res_Details = ''Denied by permission boundary '' @
                                 quoted (user_PermissionBoundary u) @
                                 '' (identity policy allows but boundary does not)''\<rparr>
                       else Some identityAllow))))"

definition evaluate_policies ::
    "std \<Rightarrow> 'db bolt \<Rightarrow> 'db IAMStore \<Rightarrow> EvalContext \<Rightarrow> IAMUser option \<Rightarrow> EvalResult option" where
  "evaluate_policies S B st ctx user =
     (let identityPolicies = identity_policies B st user;
          resourcePolicies = resource_policies B st (ctx_Resource ctx)
      in case find_in_docs S ctx EffectDeny (map fst identityPolicies @ resourcePolicies) of
           None \<Rightarrow> None
         | Some (Some stmt) \<Rightarrow>
             Some \<lparr>res_Decision = DecisionDeny, res_MatchedBy = stmt_Sid stmt,
                   res_PolicyType = ''identity'', res_PolicyName = '''',
                   res_Details = ''Explicitly denied by statement '' @ quoted (stmt_Sid stmt)\<rparr>
         | Some None \<Rightarrow>
             (case find_named S ctx EffectAllow identityPolicies of
                None \<Rightarrow> None
              | Some (Some (policyName, stmt)) \<Rightarrow>
                  boundary_verdict S B st ctx user
                    \<lparr>res_Decision = DecisionAllow, res_MatchedBy = stmt_Sid stmt,
                     res_PolicyType = ''identity'', res_PolicyName = policyName,
                     res_Details = ''Allowed by identity policy '' @ quoted policyName @
                       '' statement '' @ quoted (stmt_Sid stmt)\<rparr>
              | Some None \<Rightarrow>
                  (case find_in_docs S ctx EffectAllow resourcePolicies of
                     None \<Rightarrow> None
                   | Some (Some stmt) \<Rightarrow>
                       Some \<lparr>res_Decision = DecisionAllow, res_MatchedBy = stmt_Sid stmt,
                             res_PolicyType = ''resource'', res_PolicyName = '''',
                             res_Details = ''Allowed by resource policy statement '' @
                               quoted (stmt_Sid stmt)\<rparr>
                   | Some None \<Rightarrow>
                       Some \<lparr>res_Decision = DecisionImplicitDeny, res_MatchedBy = '''',
                             res_PolicyType = '''', res_PolicyName = '''',
                             res_Details =
                               ''No matching Allow statement found (implicit deny)''\<rparr>)))"

definition Evaluate ::
    "std \<Rightarrow> 'db bolt \<Rightarrow> 'db IAMStore option \<Rightarrow> EvalContext \<Rightarrow> EvalResult option" where
  "Evaluate S B store ctx =
     (case store of
        None \<Rightarrow>
          Some \<lparr>res_Decision = DecisionImplicitDeny, res_MatchedBy = '''', res_PolicyType = '''',
                res_PolicyName = '''',
                res_Details = ''No policy store available (implicit deny)''\<rparr>
      | Some st \<Rightarrow>
          let user = (case GetUser B st (ctx_Principal ctx) of Inl _ \<Rightarrow> None | Inr u \<Rightarrow> Some u);
              rest = evaluate_policies S B st ctx user
          in if store_scp st = None then rest
             else case evaluateSCP S store ctx of
                 None \<Rightarrow> None
               | Some scpResult \<Rightarrow>
                   (if res_Decision scpResult = DecisionDeny then
                      Some (scpResult\<lparr>res_PolicyType := ''scp''\<rparr>)
                    else if res_Decision scpResult \<noteq> DecisionAllow then
                      Some \<lparr>res_Decision = DecisionDeny, res_MatchedBy = '''',
                            res_PolicyType = ''scp'', res_PolicyName = '''',
                            res_Details =
                              ''Denied by Service Control Policy (no Allow statement matches)''\<rparr>
                    else rest))"

text \<open>The evaluator's store is not nil here: the code would fault on a nil one.\<close>

definition EvaluateWithBoundary ::
    "std \<Rightarrow> 'db bolt \<Rightarrow> 'db IAMStore \<Rightarrow> EvalContext \<Rightarrow> IAMUser option \<Rightarrow> EvalResult option" where
  "EvaluateWithBoundary S B st ctx user = evaluate_policies S B st ctx user"

definition typed_result :: "Decision \<Rightarrow> string \<Rightarrow> string \<Rightarrow> EvalResult" where
  "typed_result d matchedBy ty = (plain_result d matchedBy)\<lparr>res_PolicyType := ty\<rparr>"

definition EvaluateWithTempCreds ::
    "std \<Rightarrow> 'db bolt \<Rightarrow> 'db IAMStore \<Rightarrow> EvalContext \<Rightarrow> string list \<Rightarrow> PolicyDocument option \<Rightarrow>
     EvalResult option" where
  "EvaluateWithTempCreds S B st ctx rolePolicies inlinePolicy =
     (let identityPolicies = map fst (lookup_policies B st rolePolicies) @
            (case inlinePolicy of None \<Rightarrow> [] | Some p \<Rightarrow> [p]);
          resourcePolicies = resource_policies B st (ctx_Resource ctx)
      in case find_in_docs S ctx EffectDeny (identityPolicies @ resourcePolicies) of
           None \<Rightarrow> None
         | Some (Some stmt) \<Rightarrow> Some (typed_result DecisionDeny (stmt_Sid stmt) ''identity'')
         | Some None \<Rightarrow>
             (case find_in_docs S ctx EffectAllow identityPolicies of
                None \<Rightarrow> None
              | Some (Some stmt) \<Rightarrow> Some (typed_result DecisionAllow (stmt_Sid stmt) ''identity'')
              | Some None \<Rightarrow>
                  (case find_in_docs S ctx EffectAllow resourcePolicies of
                     None \<Rightarrow> None
                   | Some (Some stmt) \<Rightarrow>
                       Some (typed_result DecisionAllow (stmt_Sid stmt) ''resource'')
                   | Some None \<Rightarrow> Some (plain_result DecisionImplicitDeny ''''))))"

definition Simulate ::
    "std \<Rightarrow> 'db bolt \<Rightarrow> 'db IAMStore option \<Rightarrow> EvalContext \<Rightarrow> SimulateResponse option" where
  "Simulate S B store ctx =
     map_option (\<lambda>result.
       \<lparr>sim_Decision = Decision_String (res_Decision result),
        sim_MatchedBy = res_MatchedBy result,
        sim_PolicyType = res_PolicyType result,
        sim_Details = res_Details result\<rparr>) (Evaluate S B store ctx)"

section \<open>Scans, characterised\<close>

definition holds :: "std \<Rightarrow> EvalContext \<Rightarrow> Statement \<Rightarrow> bool" where
  "holds S ctx stmt \<longleftrightarrow> statementMatches S stmt ctx = Some True"

lemma statementMatches_returns:
  assumes "plain_context S ctx"
  shows "statementMatches S stmt ctx = Some (holds S ctx stmt)"
  using conditionsMatch_all [OF assms] by (auto simp: statementMatches_def holds_def)

definition doc_has :: "std \<Rightarrow> EvalContext \<Rightarrow> string \<Rightarrow> PolicyDocument \<Rightarrow> bool" where
  "doc_has S ctx eff doc \<longleftrightarrow>
     (\<exists>stmt \<in> set (doc_Statement doc). stmt_Effect stmt = eff \<and> holds S ctx stmt)"

lemma find_stmt_Some:
  "find_stmt S ctx eff stmts = Some (Some stmt) \<Longrightarrow>
   stmt \<in> set stmts \<and> stmt_Effect stmt = eff \<and> holds S ctx stmt"
  by (induction stmts) (auto simp: holds_def split: if_splits option.splits)

lemma find_stmt_None:
  "find_stmt S ctx eff stmts = Some None \<Longrightarrow> stmt \<in> set stmts \<Longrightarrow> stmt_Effect stmt = eff \<Longrightarrow>
   \<not> holds S ctx stmt"
  by (induction stmts) (auto simp: holds_def split: if_splits option.splits)

lemma find_stmt_returns:
  "plain_context S ctx \<Longrightarrow> find_stmt S ctx eff stmts \<noteq> None"
  by (induction stmts) (auto simp: statementMatches_returns)

lemma find_in_docs_Some:
  "find_in_docs S ctx eff docs = Some (Some stmt) \<Longrightarrow>
   \<exists>doc \<in> set docs. stmt \<in> set (doc_Statement doc) \<and> stmt_Effect stmt = eff \<and> holds S ctx stmt"
  by (induction docs) (auto split: option.splits dest: find_stmt_Some)

lemma find_in_docs_None:
  "find_in_docs S ctx eff docs = Some None \<Longrightarrow> doc \<in> set docs \<Longrightarrow> \<not> doc_has S ctx eff doc"
  by (induction docs) (auto simp: doc_has_def split: option.splits dest: find_stmt_None)

lemma find_in_docs_returns:
  "plain_context S ctx \<Longrightarrow> find_in_docs S ctx eff docs \<noteq> None"
  by (induction docs) (auto simp: find_stmt_returns split: option.splits)

lemma find_named_fst:
  "find_in_docs S ctx eff (map fst docs) = map_option (map_option snd) (find_named S ctx eff docs)"
  by (induction docs) (auto split: option.splits)

lemma find_stmt_has:
  assumes "plain_context S ctx"
  shows "\<exists>r. find_stmt S ctx eff (doc_Statement doc) = Some r \<and> (r \<noteq> None \<longleftrightarrow> doc_has S ctx eff doc)"
proof -
  obtain r where r: "find_stmt S ctx eff (doc_Statement doc) = Some r"
    using find_stmt_returns [OF assms] by blast
  have "r \<noteq> None \<longleftrightarrow> doc_has S ctx eff doc"
  proof (cases r)
    case None
    with r show ?thesis by (auto simp: doc_has_def dest: find_stmt_None)
  next
    case (Some stmt)
    with r show ?thesis by (auto simp: doc_has_def dest: find_stmt_Some)
  qed
  with r show ?thesis by blast
qed

lemma find_in_docs_has:
  assumes "plain_context S ctx"
  shows "\<exists>r. find_in_docs S ctx eff docs = Some r \<and> (r \<noteq> None \<longleftrightarrow> (\<exists>doc \<in> set docs. doc_has S ctx eff doc))"
proof -
  obtain r where r: "find_in_docs S ctx eff docs = Some r"
    using find_in_docs_returns [OF assms] by blast
  have "r \<noteq> None \<longleftrightarrow> (\<exists>doc \<in> set docs. doc_has S ctx eff doc)"
  proof (cases r)
    case None
    with r show ?thesis by (auto dest: find_in_docs_None)
  next
    case (Some stmt)
    with r show ?thesis using find_in_docs_Some [of S ctx eff docs stmt] by (auto simp: doc_has_def)
  qed
  with r show ?thesis by blast
qed

lemma find_named_has:
  assumes "plain_context S ctx"
  shows "\<exists>r. find_named S ctx eff docs = Some r \<and>
    (r \<noteq> None \<longleftrightarrow> (\<exists>doc \<in> fst ` set docs. doc_has S ctx eff doc))"
  using find_in_docs_has [OF assms, of eff "map fst docs"] by (auto simp: find_named_fst)

section \<open>The evaluators override allows with denies\<close>

text \<open>
  The contract all evaluators share, over the statements each of them consults: a request
  is allowed only by a matching Allow statement, and never against a matching Deny.
\<close>

locale deny_override =
  fixes decide :: "'e \<Rightarrow> EvalContext \<Rightarrow> EvalResult option"
    and consulted :: "'e \<Rightarrow> EvalContext \<Rightarrow> Statement set"
    and applies :: "'e \<Rightarrow> EvalContext \<Rightarrow> Statement \<Rightarrow> bool"
  assumes allow_sound: "decide e ctx = Some r \<Longrightarrow> res_Decision r = DecisionAllow \<Longrightarrow>
      \<exists>stmt \<in> consulted e ctx. stmt_Effect stmt = EffectAllow \<and> applies e ctx stmt"
    and deny_wins: "decide e ctx = Some r \<Longrightarrow> stmt \<in> consulted e ctx \<Longrightarrow>
      stmt_Effect stmt = EffectDeny \<Longrightarrow> applies e ctx stmt \<Longrightarrow> res_Decision r \<noteq> DecisionAllow"
begin

lemma default_deny:
  "decide e ctx = Some r \<Longrightarrow> \<forall>stmt \<in> consulted e ctx. \<not> applies e ctx stmt \<Longrightarrow>
   res_Decision r \<noteq> DecisionAllow"
  using allow_sound by blast

lemma only_denies:
  "decide e ctx = Some r \<Longrightarrow> \<forall>stmt \<in> consulted e ctx. stmt_Effect stmt \<noteq> EffectAllow \<Longrightarrow>
   res_Decision r \<noteq> DecisionAllow"
  using allow_sound by blast

lemma allowed_means_undenied:
  "decide e ctx = Some r \<Longrightarrow> res_Decision r = DecisionAllow \<Longrightarrow>
   (\<exists>stmt \<in> consulted e ctx. stmt_Effect stmt = EffectAllow \<and> applies e ctx stmt) \<and>
   (\<forall>stmt \<in> consulted e ctx. stmt_Effect stmt = EffectDeny \<longrightarrow> \<not> applies e ctx stmt)"
  using allow_sound deny_wins by blast

end

definition doc_stmts :: "PolicyDocument list \<Rightarrow> Statement set" where
  "doc_stmts docs = (\<Union>doc \<in> set docs. set (doc_Statement doc))"

lemma find_in_docs_denied:
  "find_in_docs S ctx eff docs = Some None \<Longrightarrow> stmt \<in> doc_stmts docs \<Longrightarrow> stmt_Effect stmt = eff \<Longrightarrow>
   \<not> holds S ctx stmt"
  by (auto simp: doc_stmts_def doc_has_def dest: find_in_docs_None)

lemma find_in_docs_found:
  "find_in_docs S ctx eff docs = Some (Some stmt) \<Longrightarrow>
   stmt \<in> doc_stmts docs \<and> stmt_Effect stmt = eff \<and> holds S ctx stmt"
  by (auto simp: doc_stmts_def dest: find_in_docs_Some)

lemma find_named_found:
  assumes "find_named S ctx eff docs = Some (Some (name, stmt))"
  shows "stmt \<in> doc_stmts (map fst docs) \<and> stmt_Effect stmt = eff \<and> holds S ctx stmt"
proof (rule find_in_docs_found)
  show "find_in_docs S ctx eff (map fst docs) = Some (Some stmt)"
    using assms by (simp add: find_named_fst)
qed

lemma doc_stmts_append [simp]: "doc_stmts (xs @ ys) = doc_stmts xs \<union> doc_stmts ys"
  by (simp add: doc_stmts_def)

lemma plain_result_Decision [simp]: "res_Decision (plain_result d m) = d"
  by (simp add: plain_result_def)

lemma typed_result_Decision [simp]: "res_Decision (typed_result d m t) = d"
  by (simp add: typed_result_def)

text \<open>A permission boundary.\<close>

lemma evaluateBoundary_allow:
  assumes "evaluateBoundary S ctx doc = Some r" "res_Decision r = DecisionAllow"
  shows "find_stmt S ctx EffectDeny (doc_Statement doc) = Some None"
    and "\<exists>stmt. find_stmt S ctx EffectAllow (doc_Statement doc) = Some (Some stmt)"
  using assms by (auto simp: evaluateBoundary_def split: option.splits)

interpretation boundary_ev: deny_override
  "\<lambda>(S, doc) ctx. evaluateBoundary S ctx doc"
  "\<lambda>(S, doc) ctx. set (doc_Statement doc)"
  "\<lambda>(S, doc) ctx stmt. holds S ctx stmt"
  by unfold_locales (auto dest: evaluateBoundary_allow find_stmt_Some
      find_stmt_None [OF evaluateBoundary_allow(1)])

text \<open>Temporary credentials.\<close>

definition temp_docs ::
    "'db bolt \<Rightarrow> 'db IAMStore \<Rightarrow> EvalContext \<Rightarrow> string list \<Rightarrow> PolicyDocument option \<Rightarrow> PolicyDocument list" where
  "temp_docs B st ctx rolePolicies inlinePolicy =
     map fst (lookup_policies B st rolePolicies) @ (case inlinePolicy of None \<Rightarrow> [] | Some p \<Rightarrow> [p]) @
     resource_policies B st (ctx_Resource ctx)"

lemma EvaluateWithTempCreds_allow:
  assumes "EvaluateWithTempCreds S B st ctx rp ip = Some r" "res_Decision r = DecisionAllow"
  shows "find_in_docs S ctx EffectDeny (temp_docs B st ctx rp ip) = Some None"
    and "\<exists>stmt \<in> doc_stmts (temp_docs B st ctx rp ip). stmt_Effect stmt = EffectAllow \<and> holds S ctx stmt"
  using assms
  by (auto simp: EvaluateWithTempCreds_def temp_docs_def Let_def split: option.splits
      dest!: find_in_docs_found)

interpretation temp_ev: deny_override
  "\<lambda>(S, B, st, rp, ip) ctx. EvaluateWithTempCreds S B st ctx rp ip"
  "\<lambda>(S, B, st, rp, ip) ctx. doc_stmts (temp_docs B st ctx rp ip)"
  "\<lambda>(S, B, st, rp, ip) ctx stmt. holds S ctx stmt"
  by unfold_locales
    (auto dest: EvaluateWithTempCreds_allow find_in_docs_denied [OF EvaluateWithTempCreds_allow(1)])

text \<open>Identity and resource policies.\<close>

definition user_docs ::
    "'db bolt \<Rightarrow> 'db IAMStore \<Rightarrow> EvalContext \<Rightarrow> IAMUser option \<Rightarrow> PolicyDocument list" where
  "user_docs B st ctx user =
     map fst (identity_policies B st user) @ resource_policies B st (ctx_Resource ctx)"

lemma boundary_verdict_allow:
  "boundary_verdict S B st ctx user a = Some r \<Longrightarrow> res_Decision r = DecisionAllow \<Longrightarrow> r = a"
  by (auto simp: boundary_verdict_def split: option.splits if_splits sum.splits)

lemma evaluate_policies_allow:
  assumes "evaluate_policies S B st ctx user = Some r" "res_Decision r = DecisionAllow"
  shows "find_in_docs S ctx EffectDeny (user_docs B st ctx user) = Some None"
    and "\<exists>stmt \<in> doc_stmts (user_docs B st ctx user). stmt_Effect stmt = EffectAllow \<and> holds S ctx stmt"
  using assms
  by (auto simp: evaluate_policies_def user_docs_def Let_def split: option.splits prod.splits
      dest!: find_in_docs_found find_named_found)

interpretation user_ev: deny_override
  "\<lambda>(S, B, st, user) ctx. EvaluateWithBoundary S B st ctx user"
  "\<lambda>(S, B, st, user) ctx. doc_stmts (user_docs B st ctx user)"
  "\<lambda>(S, B, st, user) ctx stmt. holds S ctx stmt"
  by unfold_locales
    (auto simp: EvaluateWithBoundary_def dest: evaluate_policies_allow
      find_in_docs_denied [OF evaluate_policies_allow(1)])

text \<open>The whole evaluation, service control policy included.\<close>

definition stored_user :: "'db bolt \<Rightarrow> 'db IAMStore \<Rightarrow> EvalContext \<Rightarrow> IAMUser option" where
  "stored_user B st ctx = (case GetUser B st (ctx_Principal ctx) of Inl _ \<Rightarrow> None | Inr u \<Rightarrow> Some u)"

definition request_docs :: "'db bolt \<Rightarrow> 'db IAMStore option \<Rightarrow> EvalContext \<Rightarrow> PolicyDocument list" where
  "request_docs B store ctx =
     (case store of None \<Rightarrow> []
      | Some st \<Rightarrow> (case store_scp st of None \<Rightarrow> [] | Some d \<Rightarrow> [d]) @
                   user_docs B st ctx (stored_user B st ctx))"

lemma evaluateSCP_allow:
  assumes "evaluateSCP S (Some st) ctx = Some r" "res_Decision r = DecisionAllow" "store_scp st = Some d"
  shows "find_stmt S ctx EffectDeny (doc_Statement d) = Some None"
    and "\<exists>stmt. find_stmt S ctx EffectAllow (doc_Statement d) = Some (Some stmt)"
  using assms by (auto simp: evaluateSCP_def split: option.splits)

lemma Evaluate_allow_parts:
  assumes "Evaluate S B store ctx = Some r" "res_Decision r = DecisionAllow"
  obtains st where "store = Some st"
    and "evaluate_policies S B st ctx (stored_user B st ctx) = Some r"
    and "\<And>d. store_scp st = Some d \<Longrightarrow> \<exists>r'. evaluateSCP S (Some st) ctx = Some r' \<and> res_Decision r' = DecisionAllow"
  using assms
  by (auto simp: Evaluate_def Let_def stored_user_def split: option.splits if_splits)

lemma Evaluate_allow_sound:
  assumes "Evaluate S B store ctx = Some r" "res_Decision r = DecisionAllow"
  shows "\<exists>stmt \<in> doc_stmts (request_docs B store ctx). stmt_Effect stmt = EffectAllow \<and> holds S ctx stmt"
proof -
  obtain st where st: "store = Some st"
    "evaluate_policies S B st ctx (stored_user B st ctx) = Some r"
    using Evaluate_allow_parts [OF assms] by blast
  from evaluate_policies_allow(2) [OF st(2) assms(2)] st(1) show ?thesis
    by (auto simp: request_docs_def)
qed

lemma Evaluate_deny_wins:
  assumes "Evaluate S B store ctx = Some r" "stmt \<in> doc_stmts (request_docs B store ctx)"
    and "stmt_Effect stmt = EffectDeny" "holds S ctx stmt"
  shows "res_Decision r \<noteq> DecisionAllow"
proof
  assume a: "res_Decision r = DecisionAllow"
  then obtain st where st: "store = Some st"
    "evaluate_policies S B st ctx (stored_user B st ctx) = Some r"
    and scp: "\<And>d. store_scp st = Some d \<Longrightarrow>
      \<exists>r'. evaluateSCP S (Some st) ctx = Some r' \<and> res_Decision r' = DecisionAllow"
    using Evaluate_allow_parts [OF assms(1)] by blast
  have "stmt \<notin> doc_stmts (user_docs B st ctx (stored_user B st ctx))"
    using find_in_docs_denied [OF evaluate_policies_allow(1) [OF st(2) a]] assms(3,4) by blast
  with assms(2) st(1) obtain d where d: "store_scp st = Some d" "stmt \<in> set (doc_Statement d)"
    by (cases "store_scp st") (auto simp: request_docs_def doc_stmts_def)
  then show False
    using scp evaluateSCP_allow(1) find_stmt_None assms(3,4) by metis
qed

interpretation request_ev: deny_override
  "\<lambda>(S, B, store) ctx. Evaluate S B store ctx"
  "\<lambda>(S, B, store) ctx. doc_stmts (request_docs B store ctx)"
  "\<lambda>(S, B, store) ctx stmt. holds S ctx stmt"
  by unfold_locales (auto dest: Evaluate_allow_sound Evaluate_deny_wins)

section \<open>The decision, specified\<close>

text \<open>
  The abstract contract of an authorization decision, over the set of documents that apply
  and without any order: the service control policy gates everything, an explicit deny
  overrides every allow, an identity allow must be inside the permission boundary, and a
  resource allow counts where no identity policy allows.
\<close>

definition doc_allows :: "std \<Rightarrow> EvalContext \<Rightarrow> PolicyDocument \<Rightarrow> bool" where
  "doc_allows S ctx d \<longleftrightarrow> \<not> doc_has S ctx EffectDeny d \<and> doc_has S ctx EffectAllow d"

definition authorize ::
    "(PolicyDocument \<Rightarrow> bool) \<Rightarrow> (PolicyDocument \<Rightarrow> bool) \<Rightarrow> PolicyDocument option \<Rightarrow>
     PolicyDocument option \<Rightarrow> PolicyDocument set \<Rightarrow> PolicyDocument set \<Rightarrow> Decision" where
  "authorize denies allows scp boundary identity resource =
     (if \<exists>d \<in> set_option scp. denies d \<or> \<not> allows d then DecisionDeny
      else if \<exists>d \<in> identity \<union> resource. denies d then DecisionDeny
      else if \<exists>d \<in> identity. allows d then
        (if \<exists>d \<in> set_option boundary. denies d \<or> \<not> allows d then DecisionDeny
         else DecisionAllow)
      else if \<exists>d \<in> resource. allows d then DecisionAllow
      else DecisionImplicitDeny)"

text \<open>The boundary document of a user: none when it is unset or its policy cannot be read.\<close>

definition boundary_doc :: "'db bolt \<Rightarrow> 'db IAMStore \<Rightarrow> IAMUser option \<Rightarrow> PolicyDocument option" where
  "boundary_doc B st user =
     (case user of None \<Rightarrow> None
      | Some u \<Rightarrow>
          (if user_PermissionBoundary u = '''' then None
           else case GetPolicy B st (user_PermissionBoundary u) of
               Inl _ \<Rightarrow> None | Inr p \<Rightarrow> Some (policy_Document p)))"

lemma evaluateBoundary_decides:
  assumes "plain_context S ctx"
  shows "\<exists>r. evaluateBoundary S ctx d = Some r \<and> (res_Decision r = DecisionAllow \<longleftrightarrow> doc_allows S ctx d)"
  using find_stmt_has [OF assms, of EffectDeny d] find_stmt_has [OF assms, of EffectAllow d]
  by (auto simp: evaluateBoundary_def doc_allows_def split: option.splits)

lemma evaluateSCP_decides:
  assumes "plain_context S ctx" "store_scp st = Some d"
  shows "\<exists>r. evaluateSCP S (Some st) ctx = Some r \<and> (res_Decision r = DecisionAllow \<longleftrightarrow> doc_allows S ctx d)"
  using find_stmt_has [OF assms(1), of EffectDeny d] find_stmt_has [OF assms(1), of EffectAllow d] assms(2)
  by (auto simp: evaluateSCP_def doc_allows_def split: option.splits)

lemma boundary_verdict_decides:
  assumes "plain_context S ctx" "res_Decision a = DecisionAllow"
  shows "\<exists>r. boundary_verdict S B st ctx user a = Some r \<and>
    res_Decision r = (if \<exists>d. boundary_doc B st user = Some d \<and> \<not> doc_allows S ctx d
                      then DecisionDeny else DecisionAllow)"
proof (cases "boundary_doc B st user")
  case None
  with assms(2) show ?thesis
    by (auto simp: boundary_verdict_def boundary_doc_def split: option.splits if_splits sum.splits)
next
  case (Some d)
  then obtain u p where u: "user = Some u" "user_PermissionBoundary u \<noteq> ''''"
    "GetPolicy B st (user_PermissionBoundary u) = Inr p" "d = policy_Document p"
    by (auto simp: boundary_doc_def split: option.splits if_splits sum.splits)
  obtain r where "evaluateBoundary S ctx d = Some r"
    "res_Decision r = DecisionAllow \<longleftrightarrow> doc_allows S ctx d"
    using evaluateBoundary_decides [OF assms(1)] by blast
  with u Some assms(2) show ?thesis by (simp add: boundary_verdict_def)
qed

lemma evaluate_policies_decides:
  assumes "plain_context S ctx"
  shows "\<exists>r. evaluate_policies S B st ctx user = Some r \<and>
    res_Decision r = authorize (doc_has S ctx EffectDeny) (doc_has S ctx EffectAllow) None
      (boundary_doc B st user) (fst ` set (identity_policies B st user))
      (set (resource_policies B st (ctx_Resource ctx)))"
proof -
  let ?ids = "identity_policies B st user" and ?res = "resource_policies B st (ctx_Resource ctx)"
  obtain x where x: "find_in_docs S ctx EffectDeny (map fst ?ids @ ?res) = Some x"
    "x \<noteq> None \<longleftrightarrow> (\<exists>d \<in> fst ` set ?ids \<union> set ?res. doc_has S ctx EffectDeny d)"
    using find_in_docs_has [OF assms, of EffectDeny "map fst ?ids @ ?res"] by auto
  obtain y where y: "find_named S ctx EffectAllow ?ids = Some y"
    "y \<noteq> None \<longleftrightarrow> (\<exists>d \<in> fst ` set ?ids. doc_has S ctx EffectAllow d)"
    using find_named_has [OF assms, of EffectAllow ?ids] by blast
  obtain z where z: "find_in_docs S ctx EffectAllow ?res = Some z"
    "z \<noteq> None \<longleftrightarrow> (\<exists>d \<in> set ?res. doc_has S ctx EffectAllow d)"
    using find_in_docs_has [OF assms, of EffectAllow ?res] by blast
  consider (deny) stmt where "x = Some stmt" | (allow) n stmt where "x = None" "y = Some (n, stmt)"
    | (res) stmt where "x = None" "y = None" "z = Some stmt" | (none) "x = None" "y = None" "z = None"
    by (cases x; cases y; cases z) auto
  then show ?thesis
  proof cases
    case allow
    then obtain a where a: "evaluate_policies S B st ctx user = boundary_verdict S B st ctx user a"
      "res_Decision a = DecisionAllow"
      using x(1) y(1) by (simp add: evaluate_policies_def)
    with boundary_verdict_decides [OF assms a(2), of B st user] allow x(2) y(2) show ?thesis
      by (auto simp: authorize_def doc_allows_def)
  qed (use x y z in \<open>auto simp: evaluate_policies_def authorize_def\<close>)
qed

lemma Evaluate_decides:
  assumes "plain_context S ctx"
  shows "\<exists>r. Evaluate S B (Some st) ctx = Some r \<and>
    res_Decision r = authorize (doc_has S ctx EffectDeny) (doc_has S ctx EffectAllow) (store_scp st)
      (boundary_doc B st (stored_user B st ctx)) (fst ` set (identity_policies B st (stored_user B st ctx)))
      (set (resource_policies B st (ctx_Resource ctx)))"
proof -
  obtain r where r: "evaluate_policies S B st ctx (stored_user B st ctx) = Some r"
    "res_Decision r = authorize (doc_has S ctx EffectDeny) (doc_has S ctx EffectAllow) None
      (boundary_doc B st (stored_user B st ctx)) (fst ` set (identity_policies B st (stored_user B st ctx)))
      (set (resource_policies B st (ctx_Resource ctx)))"
    using evaluate_policies_decides [OF assms] by blast
  show ?thesis
  proof (cases "store_scp st")
    case None
    with r show ?thesis by (simp add: Evaluate_def Let_def stored_user_def)
  next
    case (Some d)
    obtain r' where r': "evaluateSCP S (Some st) ctx = Some r'"
      "res_Decision r' = DecisionAllow \<longleftrightarrow> doc_allows S ctx d"
      using evaluateSCP_decides [OF assms Some] by blast
    show ?thesis
    proof (cases "doc_allows S ctx d")
      case True
      with r r' Some show ?thesis
        by (simp add: Evaluate_def Let_def stored_user_def authorize_def doc_allows_def)
    next
      case False
      with r' Some show ?thesis
        by (auto simp: Evaluate_def Let_def authorize_def doc_allows_def)
    qed
  qed
qed

section \<open>A concrete store\<close>

text \<open>
  User \<^verbatim>\<open>alice\<close> has an inline policy that allows every S3 action and one that denies
  deletion, and her permission boundary allows reads only.
\<close>

definition stmt_on_all :: "string \<Rightarrow> string \<Rightarrow> string \<Rightarrow> Statement" where
  "stmt_on_all sid eff action = \<lparr>stmt_Sid = sid, stmt_Effect = eff, stmt_Action = [action],
     stmt_NotAction = [], stmt_Resource = [''*''], stmt_NotResource = [], stmt_Principal = None,
     stmt_NotPrincipal = None, stmt_Condition = []\<rparr>"

definition doc_of :: "string \<Rightarrow> Statement list \<Rightarrow> PolicyDocument" where
  "doc_of n stmts = \<lparr>doc_Version = PolicyVersion, doc_Id = n, doc_Statement = stmts\<rparr>"

definition alice :: IAMUser where
  "alice = \<lparr>user_ID = ''u1'', user_Name = ''alice'', user_DisplayName = '''', user_AccessKeys = [],
     user_Groups = [], user_AttachedPolicies = [],
     user_InlinePolicies = [doc_of ''work'' [stmt_on_all ''all'' EffectAllow ''s3:*'',
                                              stmt_on_all ''keep'' EffectDeny ''s3:DeleteObject'']],
     user_PermissionBoundary = ''readers'', user_PasswordHash = '''', user_CreatedAt = 0,
     user_LastActivityAt = None\<rparr>"

definition readers :: IAMPolicy where
  "readers = \<lparr>policy_ARN = MakePolicyARN ''readers'', policy_Name = ''readers'',
     policy_Description = '''', policy_Type = ''managed'',
     policy_Document = doc_of ''readers'' [stmt_on_all ''read'' EffectAllow ''s3:Get*''],
     policy_Path = '''', policy_CreatedAt = 0, policy_UpdatedAt = 0\<rparr>"

definition alice_store :: "mem_db IAMStore" where
  "alice_store = \<lparr>store_db = [((bucketUsers, ''alice''), DUser alice),
     ((bucketPolicies, ''readers''), DPolicy readers)], store_scp = None\<rparr>"

section \<open>Properties\<close>

text \<open>
  C1. \<^verbatim>\<open>Evaluate\<close> implements the authorization contract. In a context whose values hold no
  dollar sign the evaluation returns, and its decision is the one \<^const>\<open>authorize\<close> gives on the
  sets of documents that apply to the request: a service control policy that denies or does
  not allow ends in a deny, then any explicit deny does, then an allow of an identity policy
  counts inside the permission boundary only, then an allow of the bucket policy, and the
  rest is an implicit deny. No order of documents or statements matters.
\<close>

theorem Evaluate_implements_authorize:
  assumes "plain_context S ctx"
  shows "map_option res_Decision (Evaluate S B (Some st) ctx) =
    Some (authorize (doc_has S ctx EffectDeny) (doc_has S ctx EffectAllow) (store_scp st)
      (boundary_doc B st (stored_user B st ctx))
      (fst ` set (identity_policies B st (stored_user B st ctx)))
      (set (resource_policies B st (ctx_Resource ctx))))"
  using Evaluate_decides [OF assms, of B st] by auto

lemma alice_identity:
  "stored_user mem_bolt alice_store (bare_request ''alice'' a r) = Some alice"
  "map fst (identity_policies mem_bolt alice_store (Some alice)) = user_InlinePolicies alice"
  "boundary_doc mem_bolt alice_store (Some alice) = Some (policy_Document readers)"
  by (simp_all add: stored_user_def GetUser_def GetPolicy_def store_get_def mem_bolt_def alice_store_def
      bare_request_def identity_policies_def alice_def boundary_doc_def)

theorem Evaluate_implements_authorize_witness:
  "map (\<lambda>a. map_option res_Decision
         (Evaluate ascii_std mem_bolt (Some alice_store) (bare_request ''alice'' a ''arn:cipherlake:iam:::x'')))
     [''s3:GetObject'', ''s3:PutObject'', ''s3:DeleteObject'', ''iam:ListUsers''] =
   [Some DecisionAllow, Some DecisionDeny, Some DecisionDeny, Some DecisionImplicitDeny]"
proof -
  have docs: "fst ` set (identity_policies mem_bolt alice_store (Some alice)) = set (user_InlinePolicies alice)"
    using alice_identity(2) by (metis image_set)
  have rest: "store_scp alice_store = None"
    "set (resource_policies mem_bolt alice_store (ctx_Resource (bare_request ''alice'' a ''arn:cipherlake:iam:::x''))) = {}" for a
    by (simp_all add: alice_store_def resource_policies_def bare_request_def extractBucketFromResource_def
        HasPrefix_def iam_const_defs)
  show ?thesis
    unfolding Evaluate_implements_authorize [OF plain_request] alice_identity docs rest list.map
    by code_simp
qed

text \<open>
  An allowed request has a reason and no objection, in every context and whatever
  statements repeat, overlap or contradict each other: when \<^verbatim>\<open>Evaluate\<close> answers Allow, some
  Allow statement of the consulted documents (service control policy, identity policies,
  bucket policy) matches the request and no Deny statement of any of them does.
\<close>

theorem Evaluate_allow_means_undenied:
  assumes "Evaluate S B store ctx = Some r" "res_Decision r = DecisionAllow"
  shows "(\<exists>stmt \<in> doc_stmts (request_docs B store ctx).
            stmt_Effect stmt = EffectAllow \<and> statementMatches S stmt ctx = Some True) \<and>
         (\<forall>stmt \<in> doc_stmts (request_docs B store ctx).
            stmt_Effect stmt = EffectDeny \<longrightarrow> statementMatches S stmt ctx \<noteq> Some True)"
  using request_ev.allowed_means_undenied [of "(S, B, store)" ctx r] assms by (simp add: holds_def)

theorem Evaluate_allow_means_undenied_witness:
  "statementMatches ascii_std (stmt_on_all ''keep'' EffectDeny ''s3:DeleteObject'')
     (bare_request ''alice'' ''s3:GetObject'' ''x'') \<noteq> Some True"
proof -
  let ?ctx = "bare_request ''alice'' ''s3:GetObject'' ''x''" and ?stmt = "stmt_on_all ''keep'' EffectDeny ''s3:DeleteObject''"
  have "map_option res_Decision (Evaluate ascii_std mem_bolt (Some alice_store) ?ctx) = Some DecisionAllow"
    by code_simp
  then obtain r where "Evaluate ascii_std mem_bolt (Some alice_store) ?ctx = Some r" "res_Decision r = DecisionAllow"
    by auto
  note allowed = Evaluate_allow_means_undenied [OF this]
  have "map fst (identity_policies mem_bolt alice_store (Some alice)) = user_InlinePolicies alice"
    by (rule alice_identity(2))
  then have "?stmt \<in> doc_stmts (request_docs mem_bolt (Some alice_store) ?ctx)"
    by (simp add: request_docs_def alice_identity user_docs_def doc_stmts_def alice_def doc_of_def)
  then show ?thesis using allowed by (simp add: stmt_on_all_def)
qed

text \<open>
  Temporary credentials: an allowed request has a matching Allow and no matching Deny
  among the role's policies, the session's inline policy and the bucket policy. The inline
  policy is one more source of allows, not a limit on the role's, and the service control
  policy is not consulted: the answer is the same whatever it is.
\<close>

theorem EvaluateWithTempCreds_allow_means_undenied:
  assumes "EvaluateWithTempCreds S B st ctx rolePolicies inline = Some r"
  shows "(res_Decision r = DecisionAllow \<longrightarrow>
            (\<exists>stmt \<in> doc_stmts (temp_docs B st ctx rolePolicies inline).
               stmt_Effect stmt = EffectAllow \<and> statementMatches S stmt ctx = Some True) \<and>
            (\<forall>stmt \<in> doc_stmts (temp_docs B st ctx rolePolicies inline).
               stmt_Effect stmt = EffectDeny \<longrightarrow> statementMatches S stmt ctx \<noteq> Some True)) \<and>
         EvaluateWithTempCreds S B (st\<lparr>store_scp := scp\<rparr>) ctx rolePolicies inline = Some r"
proof -
  have "EvaluateWithTempCreds S B (st\<lparr>store_scp := scp\<rparr>) ctx rolePolicies inline =
      EvaluateWithTempCreds S B st ctx rolePolicies inline"
  proof -
    have reads: "GetPolicy B (st\<lparr>store_scp := scp\<rparr>) = GetPolicy B st"
      "GetBucketPolicy B (st\<lparr>store_scp := scp\<rparr>) = GetBucketPolicy B st"
      by (auto simp: fun_eq_iff GetPolicy_def GetBucketPolicy_def store_get_def)
    have "lookup_policies B (st\<lparr>store_scp := scp\<rparr>) rolePolicies = lookup_policies B st rolePolicies"
      by (induction rolePolicies) (auto simp: reads split: sum.splits)
    moreover have "resource_policies B (st\<lparr>store_scp := scp\<rparr>) = resource_policies B st"
      by (simp add: fun_eq_iff resource_policies_def reads Let_def)
    ultimately show ?thesis by (simp only: EvaluateWithTempCreds_def)
  qed
  with assms temp_ev.allowed_means_undenied [of "(S, B, st, rolePolicies, inline)" ctx r]
  show ?thesis by (simp add: holds_def)
qed

theorem EvaluateWithTempCreds_allow_means_undenied_witness:
  "\<exists>r. EvaluateWithTempCreds ascii_std mem_bolt
         (alice_store\<lparr>store_scp := Some (doc_of ''scp'' [stmt_on_all ''no'' EffectDeny ''*''])\<rparr>)
         (bare_request ''alice'' ''s3:GetObject'' ''x'') [''readers''] None = Some r \<and>
       res_Decision r = DecisionAllow"
proof -
  let ?ev = "EvaluateWithTempCreds ascii_std mem_bolt alice_store (bare_request ''alice'' ''s3:GetObject'' ''x'') [''readers''] None"
  have "map_option res_Decision ?ev = Some DecisionAllow" by code_simp
  then obtain r where r: "?ev = Some r" "res_Decision r = DecisionAllow" by auto
  with EvaluateWithTempCreds_allow_means_undenied [OF r(1)] show ?thesis by blast
qed

end
