(* ===== verification/IAM_Crypto.thy ===== *)
theory IAM_Crypto
  imports Prelude
begin

text \<open>
  The master key that protects secret keys at rest, \<^verbatim>\<open>internal/iam/crypto.go\<close>. AES-GCM and
  SHA-256 are arguments (\<open>seal\<close>, \<open>open'\<close>, \<open>sha256\<close>), as are the outcomes of the file
  system and of the random source; the key sizes, the nonce layout and every error path
  are the code's.
\<close>

record MasterKey =
  mk_key :: "byte list"
  mk_keyPath :: string
  mk_loaded :: bool

record aead =
  gcm_seal :: "byte list \<Rightarrow> byte list \<Rightarrow> byte list \<Rightarrow> byte list"
  gcm_open :: "byte list \<Rightarrow> byte list \<Rightarrow> byte list \<Rightarrow> byte list option"

text \<open>What the package relies on: opening what was sealed under the same key and nonce.\<close>

definition aead_ok :: "aead \<Rightarrow> bool" where
  "aead_ok A \<longleftrightarrow> (\<forall>k n p. gcm_open A k n (gcm_seal A k n p) = Some p)"

definition nonceSize :: nat where "nonceSize = 12"

text \<open>\<^verbatim>\<open>generate\<close>: the random bytes and the write are inputs; a failure leaves the key unloaded.\<close>

definition MasterKey_generate ::
    "string + byte list \<Rightarrow> string option \<Rightarrow> MasterKey \<Rightarrow> MasterKey \<times> unit result" where
  "MasterKey_generate rand write mk =
     (case rand of
        Inl e \<Rightarrow> (mk, Inl (Err (''failed to generate random key: '' @ e)))
      | Inr key \<Rightarrow>
          (case write of
             Some e \<Rightarrow> (mk, Inl (Err (''failed to write master key file: '' @ e)))
           | None \<Rightarrow> (mk\<lparr>mk_key := key, mk_loaded := True\<rparr>, Inr ())))"

definition MasterKey_load :: "string + byte list \<Rightarrow> MasterKey \<Rightarrow> MasterKey \<times> unit result" where
  "MasterKey_load file mk =
     (case file of
        Inl e \<Rightarrow> (mk, Inl (Err (''failed to read master key file: '' @ e)))
      | Inr key \<Rightarrow>
          (if length key \<noteq> 32 then
             (mk, Inl (Err (''invalid master key size: expected 32 bytes, got '' @ itoa (length key))))
           else (mk\<lparr>mk_key := key, mk_loaded := True\<rparr>, Inr ())))"

text \<open>\<^verbatim>\<open>NewMasterKey\<close>: \<open>exists\<close> is whether the key file is there.\<close>

definition NewMasterKey ::
    "string \<Rightarrow> bool \<Rightarrow> string + byte list \<Rightarrow> string + byte list \<Rightarrow> string option \<Rightarrow> MasterKey result" where
  "NewMasterKey keyPath exists file rand write =
     (let mk = \<lparr>mk_key = [], mk_keyPath = keyPath, mk_loaded = False\<rparr> in
      if \<not> exists then
        (case MasterKey_generate rand write mk of
           (_, Inl e) \<Rightarrow> Inl (Err (''failed to generate master key: '' @ err_text e))
         | (mk', Inr _) \<Rightarrow> Inr mk')
      else
        (case MasterKey_load file mk of
           (_, Inl e) \<Rightarrow> Inl (Err (''failed to load master key: '' @ err_text e))
         | (mk', Inr _) \<Rightarrow> Inr mk'))"

text \<open>\<^verbatim>\<open>aes.NewCipher\<close> accepts keys of 16, 24 and 32 bytes.\<close>

definition aes_key_error :: "byte list \<Rightarrow> string option" where
  "aes_key_error key =
     (if length key \<in> {16, 24, 32} then None
      else Some (''failed to create cipher: crypto/aes: invalid key size '' @ itoa (length key)))"

definition MasterKey_Encrypt ::
    "aead \<Rightarrow> MasterKey \<Rightarrow> string + byte list \<Rightarrow> byte list \<Rightarrow> byte list result" where
  "MasterKey_Encrypt A mk nonceRead plaintext =
     (if \<not> mk_loaded mk then Inl (Err ''master key not loaded'')
      else case aes_key_error (mk_key mk) of
          Some e \<Rightarrow> Inl (Err e)
        | None \<Rightarrow>
            (case nonceRead of
               Inl e \<Rightarrow> Inl (Err (''failed to generate nonce: '' @ e))
             | Inr nonce \<Rightarrow> Inr (nonce @ gcm_seal A (mk_key mk) nonce plaintext)))"

definition MasterKey_Decrypt :: "aead \<Rightarrow> MasterKey \<Rightarrow> byte list \<Rightarrow> byte list result" where
  "MasterKey_Decrypt A mk ciphertext =
     (if \<not> mk_loaded mk then Inl (Err ''master key not loaded'')
      else case aes_key_error (mk_key mk) of
          Some e \<Rightarrow> Inl (Err e)
        | None \<Rightarrow>
            (if length ciphertext < nonceSize then Inl (Err ''ciphertext too short'')
             else case gcm_open A (mk_key mk) (take nonceSize ciphertext) (drop nonceSize ciphertext) of
                 None \<Rightarrow> Inl (Err ''decryption failed: cipher: message authentication failed'')
               | Some plaintext \<Rightarrow> Inr plaintext))"

definition DeriveKey :: "(byte list \<Rightarrow> byte list) \<Rightarrow> MasterKey \<Rightarrow> byte list \<Rightarrow> byte list result" where
  "DeriveKey sha256 mk salt =
     (if \<not> mk_loaded mk then Inl (Err ''master key not loaded'')
      else Inr (sha256 (mk_key mk @ salt)))"

definition MasterKey_Zero :: "MasterKey \<Rightarrow> MasterKey" where
  "MasterKey_Zero mk = mk\<lparr>mk_key := map (\<lambda>_. 0) (mk_key mk), mk_loaded := False\<rparr>"

section \<open>Facts\<close>

lemma decrypt_encrypt:
  assumes "aead_ok A" "length nonce = nonceSize"
    and "MasterKey_Encrypt A mk (Inr nonce) plaintext = Inr ciphertext"
  shows "MasterKey_Decrypt A mk ciphertext = Inr plaintext"
  using assms
  by (auto simp: MasterKey_Encrypt_def MasterKey_Decrypt_def aead_ok_def
      split: if_splits option.splits)

text \<open>A key made from 32 random bytes, or loaded, always encrypts.\<close>

lemma NewMasterKey_usable:
  assumes "NewMasterKey keyPath exists file (Inr key) write = Inr mk" "length key = 32"
  shows "\<exists>c. MasterKey_Encrypt A mk (Inr nonce) plaintext = Inr c"
  using assms
  by (auto simp: NewMasterKey_def MasterKey_generate_def MasterKey_load_def MasterKey_Encrypt_def
      aes_key_error_def Let_def split: if_splits sum.splits option.splits)

lemma zeroed_key_unusable:
  "MasterKey_Encrypt A (MasterKey_Zero mk) n p = Inl (Err ''master key not loaded'')"
  "MasterKey_Decrypt A (MasterKey_Zero mk) c = Inl (Err ''master key not loaded'')"
  by (simp_all add: MasterKey_Encrypt_def MasterKey_Decrypt_def MasterKey_Zero_def)

end
