(* ===== verification/IAM_Service.thy ===== *)
theory IAM_Service
  imports IAM_Policy IAM_Crypto
begin

text \<open>
  The IAM service, \<^verbatim>\<open>internal/iam/service.go\<close> and \<^verbatim>\<open>boundary.go\<close>: users and their access
  keys, groups and membership, managed, inline and bucket policies, roles, temporary
  credentials and the first administrator. An operation maps the store to the new store and
  a result; the store is returned on errors too, since some operations write twice and stop
  at the first failed write.

  Inputs the code takes from the world are arguments: \<open>clk i\<close> is the \<open>i\<close>-th reading of the
  clock in an operation and \<open>rnd i\<close> the bytes of its \<open>i\<close>-th read of the random source.
  Logging is left out.
\<close>

section \<open>Helpers\<close>

definition generateRandomString :: "nat \<Rightarrow> byte list \<Rightarrow> string" where
  "generateRandomString len b = take len (EncodeToString (take len b))"

definition generateID :: "string \<Rightarrow> byte list \<Rightarrow> string" where
  "generateID pre b = pre @ ''_'' @ generateRandomString 12 b"

fun containsString :: "string list \<Rightarrow> string \<Rightarrow> bool" where
  "containsString [] s = False"
| "containsString (item # items) s = (if item = s then True else containsString items s)"

fun removeString :: "string list \<Rightarrow> string \<Rightarrow> string list" where
  "removeString [] s = []"
| "removeString (item # items) s = (if item = s then items else item # removeString items s)"

definition hasPolicyRef :: "string set \<Rightarrow> string list \<Rightarrow> bool" where
  "hasPolicyRef policyRefs refs = list_ex (\<lambda>ref. ref \<in> policyRefs) refs"

text \<open>\<^verbatim>\<open>time.Duration(n) * time.Second\<close>: a product of 64-bit integers.\<close>

definition seconds :: "int \<Rightarrow> int" where
  "seconds n = sint (of_int n * of_int 1000000000 :: 64 word)"

section \<open>Users\<close>

definition CreateUser ::
    "'db bolt \<Rightarrow> (nat \<Rightarrow> gotime) \<Rightarrow> (nat \<Rightarrow> byte list) \<Rightarrow> 'db IAMStore \<Rightarrow> string \<Rightarrow> string \<Rightarrow>
     'db IAMStore \<times> IAMUser result" where
  "CreateUser B clk rnd s name displayName =
     (case GetUser B s name of
        Inr _ \<Rightarrow> (s, Inl (Err (''user '' @ name @ '' already exists'')))
      | Inl _ \<Rightarrow>
          let user = \<lparr>user_ID = generateID ''u'' (rnd 0), user_Name = name,
                      user_DisplayName = displayName, user_AccessKeys = [], user_Groups = [],
                      user_AttachedPolicies = [], user_InlinePolicies = [],
                      user_PermissionBoundary = '''', user_PasswordHash = '''',
                      user_CreatedAt = clk 0, user_LastActivityAt = None\<rparr>
          in case PutUser B s user of
               (s', Inl e) \<Rightarrow> (s', Inl (Err (''failed to save user: '' @ err_text e)))
             | (s', Inr _) \<Rightarrow> (s', Inr user))"

definition svc_GetUser :: "'db bolt \<Rightarrow> 'db IAMStore \<Rightarrow> string \<Rightarrow> IAMUser result" where
  "svc_GetUser B s name = GetUser B s name"

section \<open>Access keys\<close>

definition CreateAccessKey ::
    "'db bolt \<Rightarrow> aead \<Rightarrow> MasterKey \<Rightarrow> (nat \<Rightarrow> gotime) \<Rightarrow> (nat \<Rightarrow> byte list) \<Rightarrow> string + byte list \<Rightarrow>
     'db IAMStore \<Rightarrow> string \<Rightarrow> string \<Rightarrow> 'db IAMStore \<times> CreateAccessKeyResult result" where
  "CreateAccessKey B A mk clk rnd nonce s userName description =
     (case GetUser B s userName of
        Inl _ \<Rightarrow> (s, Inl (Err (''user '' @ userName @ '' not found'')))
      | Inr user \<Rightarrow>
          let accessKeyID = AccessKeyIDPrefix @ generateRandomString 16 (rnd 0);
              secretKey = generateRandomString 40 (rnd 1)
          in case MasterKey_Encrypt A mk nonce (map of_char secretKey) of
               Inl e \<Rightarrow> (s, Inl (Err (''failed to encrypt secret key: '' @ err_text e)))
             | Inr secretKeyEnc \<Rightarrow>
                 let ak = \<lparr>ak_AccessKeyID = accessKeyID, ak_SecretKeyEnc = secretKeyEnc,
                           ak_Status = AccessKeyActive, ak_CreatedAt = clk 0,
                           ak_LastUsedAt = None, ak_Description = description\<rparr>
                 in case PutUser B s (user\<lparr>user_AccessKeys := user_AccessKeys user @ [ak]\<rparr>) of
                      (s', Inl e) \<Rightarrow> (s', Inl (Err (''failed to save user: '' @ err_text e)))
                    | (s', Inr _) \<Rightarrow>
                        (s', Inr \<lparr>akr_AccessKeyID = accessKeyID, akr_SecretAccessKey = secretKey,
                                  akr_Status = AccessKeyActive, akr_CreatedAt = ak_CreatedAt ak\<rparr>))"

text \<open>The loops over a user's keys stop at the first key with the ID.\<close>

fun remove_key :: "string \<Rightarrow> AccessKey list \<Rightarrow> AccessKey list option" where
  "remove_key keyID [] = None"
| "remove_key keyID (ak # aks) =
     (if ak_AccessKeyID ak = keyID then Some aks else map_option ((#) ak) (remove_key keyID aks))"

fun set_key_status :: "string \<Rightarrow> string \<Rightarrow> AccessKey list \<Rightarrow> AccessKey list option" where
  "set_key_status keyID status [] = None"
| "set_key_status keyID status (ak # aks) =
     (if ak_AccessKeyID ak = keyID then Some (ak\<lparr>ak_Status := status\<rparr> # aks)
      else map_option ((#) ak) (set_key_status keyID status aks))"

definition DeleteAccessKey ::
    "'db bolt \<Rightarrow> 'db IAMStore \<Rightarrow> string \<Rightarrow> string \<Rightarrow> 'db IAMStore \<times> unit result" where
  "DeleteAccessKey B s userName accessKeyID =
     (case GetUser B s userName of
        Inl _ \<Rightarrow> (s, Inl (Err (''user '' @ userName @ '' not found'')))
      | Inr user \<Rightarrow>
          (case remove_key accessKeyID (user_AccessKeys user) of
             Some aks \<Rightarrow> PutUser B s (user\<lparr>user_AccessKeys := aks\<rparr>)
           | None \<Rightarrow> (s, Inl (Err (''access key '' @ accessKeyID @ '' not found for user '' @ userName)))))"

definition ListAccessKeys :: "'db bolt \<Rightarrow> 'db IAMStore \<Rightarrow> string \<Rightarrow> AccessKey list result" where
  "ListAccessKeys B s userName =
     (case GetUser B s userName of Inl e \<Rightarrow> Inl e | Inr user \<Rightarrow> Inr (user_AccessKeys user))"

definition setAccessKeyStatus ::
    "'db bolt \<Rightarrow> 'db IAMStore \<Rightarrow> string \<Rightarrow> string \<Rightarrow> string \<Rightarrow> 'db IAMStore \<times> unit result" where
  "setAccessKeyStatus B s userName accessKeyID status =
     (case GetUser B s userName of
        Inl e \<Rightarrow> (s, Inl e)
      | Inr user \<Rightarrow>
          (case set_key_status accessKeyID status (user_AccessKeys user) of
             Some aks \<Rightarrow> PutUser B s (user\<lparr>user_AccessKeys := aks\<rparr>)
           | None \<Rightarrow> (s, Inl (Err (''access key '' @ accessKeyID @ '' not found'')))))"

definition ActivateAccessKey ::
    "'db bolt \<Rightarrow> 'db IAMStore \<Rightarrow> string \<Rightarrow> string \<Rightarrow> 'db IAMStore \<times> unit result" where
  "ActivateAccessKey B s userName accessKeyID = setAccessKeyStatus B s userName accessKeyID AccessKeyActive"

definition DeactivateAccessKey ::
    "'db bolt \<Rightarrow> 'db IAMStore \<Rightarrow> string \<Rightarrow> string \<Rightarrow> 'db IAMStore \<times> unit result" where
  "DeactivateAccessKey B s userName accessKeyID = setAccessKeyStatus B s userName accessKeyID AccessKeyInactive"

definition DecryptSecretKey :: "aead \<Rightarrow> MasterKey \<Rightarrow> byte list \<Rightarrow> string result" where
  "DecryptSecretKey A mk encryptedSecret =
     (case MasterKey_Decrypt A mk encryptedSecret of
        Inl e \<Rightarrow> Inl (Err (''failed to decrypt secret key: '' @ err_text e))
      | Inr plaintext \<Rightarrow> Inr (map (\<lambda>b. char_of (unat b)) plaintext))"

text \<open>
  When the store finds no user it returns neither a user nor an error, and the loop reads
  the keys of a nil user: a run-time panic.
\<close>

definition GetUserByAccessKeyID ::
    "'db bolt \<Rightarrow> 'db IAMStore \<Rightarrow> string \<Rightarrow> (IAMUser \<times> AccessKey) result" where
  "GetUserByAccessKeyID B s accessKeyID =
     (case GetUserByAccessKey B s accessKeyID of
        Inl _ \<Rightarrow> Inl (Err (''no user found for access key '' @ accessKeyID))
      | Inr None \<Rightarrow> Inl (Panic ''invalid memory address or nil pointer dereference'')
      | Inr (Some user) \<Rightarrow>
          (case find (\<lambda>ak. ak_AccessKeyID ak = accessKeyID) (user_AccessKeys user) of
             Some ak \<Rightarrow> Inr (user, ak)
           | None \<Rightarrow> Inl (Err (''access key '' @ accessKeyID @ '' not found''))))"

section \<open>Groups\<close>

definition CreateGroup ::
    "'db bolt \<Rightarrow> (nat \<Rightarrow> gotime) \<Rightarrow> 'db IAMStore \<Rightarrow> string \<Rightarrow> string \<Rightarrow> 'db IAMStore \<times> IAMGroup result" where
  "CreateGroup B clk s name description =
     (case GetGroup B s name of
        Inr _ \<Rightarrow> (s, Inl (Err (''group '' @ name @ '' already exists'')))
      | Inl _ \<Rightarrow>
          let grp = \<lparr>group_Name = name, group_Description = description, group_Users = [],
                     group_AttachedPolicies = [], group_CreatedAt = clk 0\<rparr>
          in case PutGroup B s grp of
               (s', Inl e) \<Rightarrow> (s', Inl e)
             | (s', Inr _) \<Rightarrow> (s', Inr grp))"

text \<open>The loop of \<^verbatim>\<open>DeleteGroup\<close>: unreadable members are skipped, failed writes ignored.\<close>

fun drop_group_from_users :: "'db bolt \<Rightarrow> 'db IAMStore \<Rightarrow> string \<Rightarrow> string list \<Rightarrow> 'db IAMStore" where
  "drop_group_from_users B s name [] = s"
| "drop_group_from_users B s name (userName # userNames) =
     (case GetUser B s userName of
        Inl _ \<Rightarrow> drop_group_from_users B s name userNames
      | Inr user \<Rightarrow>
          drop_group_from_users B
            (fst (PutUser B s (user\<lparr>user_Groups := removeString (user_Groups user) name\<rparr>)))
            name userNames)"

definition svc_DeleteGroup :: "'db bolt \<Rightarrow> 'db IAMStore \<Rightarrow> string \<Rightarrow> 'db IAMStore \<times> unit result" where
  "svc_DeleteGroup B s name =
     (case GetGroup B s name of
        Inl e \<Rightarrow> (s, Inl e)
      | Inr grp \<Rightarrow> DeleteGroup B (drop_group_from_users B s name (group_Users grp)) name)"

definition AddUserToGroup ::
    "'db bolt \<Rightarrow> 'db IAMStore \<Rightarrow> string \<Rightarrow> string \<Rightarrow> 'db IAMStore \<times> unit result" where
  "AddUserToGroup B s userName groupName =
     (case GetUser B s userName of
        Inl _ \<Rightarrow> (s, Inl (Err (''user '' @ userName @ '' not found'')))
      | Inr user \<Rightarrow>
          (case GetGroup B s groupName of
             Inl _ \<Rightarrow> (s, Inl (Err (''group '' @ groupName @ '' not found'')))
           | Inr grp \<Rightarrow>
               let step1 = (if containsString (user_Groups user) groupName then (s, Inr ())
                            else PutUser B s (user\<lparr>user_Groups := user_Groups user @ [groupName]\<rparr>))
               in case step1 of
                    (s1, Inl e) \<Rightarrow> (s1, Inl e)
                  | (s1, Inr _) \<Rightarrow>
                      (if containsString (group_Users grp) userName then (s1, Inr ())
                       else PutGroup B s1 (grp\<lparr>group_Users := group_Users grp @ [userName]\<rparr>))))"

definition RemoveUserFromGroup ::
    "'db bolt \<Rightarrow> 'db IAMStore \<Rightarrow> string \<Rightarrow> string \<Rightarrow> 'db IAMStore \<times> unit result" where
  "RemoveUserFromGroup B s userName groupName =
     (case GetUser B s userName of
        Inl e \<Rightarrow> (s, Inl e)
      | Inr user \<Rightarrow>
          (case GetGroup B s groupName of
             Inl e \<Rightarrow> (s, Inl e)
           | Inr grp \<Rightarrow>
               (case PutUser B s (user\<lparr>user_Groups := removeString (user_Groups user) groupName\<rparr>) of
                  (s1, Inl e) \<Rightarrow> (s1, Inl e)
                | (s1, Inr _) \<Rightarrow>
                    PutGroup B s1 (grp\<lparr>group_Users := removeString (group_Users grp) userName\<rparr>))))"

text \<open>\<^verbatim>\<open>DeleteUser\<close> of the service: leave every group, ignoring failures, then delete.\<close>

definition leave_groups :: "'db bolt \<Rightarrow> string \<Rightarrow> string list \<Rightarrow> 'db IAMStore \<Rightarrow> 'db IAMStore" where
  "leave_groups B name groupNames s =
     fold (\<lambda>groupName s. fst (RemoveUserFromGroup B s name groupName)) groupNames s"

definition svc_DeleteUser :: "'db bolt \<Rightarrow> 'db IAMStore \<Rightarrow> string \<Rightarrow> 'db IAMStore \<times> unit result" where
  "svc_DeleteUser B s name =
     (case GetUser B s name of
        Inl _ \<Rightarrow> (s, Inl (Err (''user '' @ name @ '' not found'')))
      | Inr user \<Rightarrow> DeleteUser B (leave_groups B name (user_Groups user) s) name)"

section \<open>Managed policies\<close>

definition CreatePolicy ::
    "'db bolt \<Rightarrow> (nat \<Rightarrow> gotime) \<Rightarrow> 'db IAMStore \<Rightarrow> string \<Rightarrow> string \<Rightarrow> PolicyDocument \<Rightarrow>
     'db IAMStore \<times> IAMPolicy result" where
  "CreatePolicy B clk s name description document =
     (case GetPolicy B s name of
        Inr _ \<Rightarrow> (s, Inl (Err (''policy '' @ name @ '' already exists'')))
      | Inl _ \<Rightarrow>
          let policy = \<lparr>policy_ARN = MakePolicyARN name, policy_Name = name,
                        policy_Description = description, policy_Type = ''Custom'',
                        policy_Document = document, policy_Path = '''',
                        policy_CreatedAt = clk 0, policy_UpdatedAt = clk 1\<rparr>
          in case PutPolicy B s policy of
               (s', Inl e) \<Rightarrow> (s', Inl e)
             | (s', Inr _) \<Rightarrow> (s', Inr policy))"

fun check_users :: "string set \<Rightarrow> string \<Rightarrow> IAMUser list \<Rightarrow> unit result" where
  "check_users policyRefs name [] = Inr ()"
| "check_users policyRefs name (user # users) =
     (if hasPolicyRef policyRefs (user_AttachedPolicies user) then
        Inl (Err (''policy '' @ name @ '' is attached to user '' @ user_Name user))
      else if user_PermissionBoundary user \<in> policyRefs then
        Inl (Err (''policy '' @ name @ '' is used as permission boundary by user '' @ user_Name user))
      else check_users policyRefs name users)"

fun check_groups :: "string set \<Rightarrow> string \<Rightarrow> IAMGroup list \<Rightarrow> unit result" where
  "check_groups policyRefs name [] = Inr ()"
| "check_groups policyRefs name (grp # groups) =
     (if hasPolicyRef policyRefs (group_AttachedPolicies grp) then
        Inl (Err (''policy '' @ name @ '' is attached to group '' @ group_Name grp))
      else check_groups policyRefs name groups)"

fun check_roles :: "string set \<Rightarrow> string \<Rightarrow> IAMRole list \<Rightarrow> unit result" where
  "check_roles policyRefs name [] = Inr ()"
| "check_roles policyRefs name (role # roles) =
     (if hasPolicyRef policyRefs (role_PermissionPolicies role) then
        Inl (Err (''policy '' @ name @ '' is attached to role '' @ role_Name role))
      else check_roles policyRefs name roles)"

definition ensurePolicyNotAttached :: "'db bolt \<Rightarrow> 'db IAMStore \<Rightarrow> string \<Rightarrow> unit result" where
  "ensurePolicyNotAttached B s name =
     (let policyRefs = {name, MakePolicyARN name} in
      case ListUsers B s of
        Inl e \<Rightarrow> Inl (Err (''failed to list users for policy attachment check: '' @ err_text e))
      | Inr users \<Rightarrow>
          (case check_users policyRefs name users of
             Inl e \<Rightarrow> Inl e
           | Inr _ \<Rightarrow>
               (case ListGroups B s of
                  Inl e \<Rightarrow> Inl (Err (''failed to list groups for policy attachment check: '' @ err_text e))
                | Inr groups \<Rightarrow>
                    (case check_groups policyRefs name groups of
                       Inl e \<Rightarrow> Inl e
                     | Inr _ \<Rightarrow>
                         (case ListRoles B s of
                            Inl e \<Rightarrow> Inl (Err (''failed to list roles for policy attachment check: '' @ err_text e))
                          | Inr roles \<Rightarrow> check_roles policyRefs name roles)))))"

definition svc_DeletePolicy :: "'db bolt \<Rightarrow> 'db IAMStore \<Rightarrow> string \<Rightarrow> 'db IAMStore \<times> unit result" where
  "svc_DeletePolicy B s name =
     (case ensurePolicyNotAttached B s name of
        Inl e \<Rightarrow> (s, Inl e)
      | Inr _ \<Rightarrow> DeletePolicy B s name)"

definition AttachUserPolicy ::
    "'db bolt \<Rightarrow> 'db IAMStore \<Rightarrow> string \<Rightarrow> string \<Rightarrow> 'db IAMStore \<times> unit result" where
  "AttachUserPolicy B s userName policyName =
     (case GetUser B s userName of
        Inl e \<Rightarrow> (s, Inl e)
      | Inr user \<Rightarrow>
          (case GetPolicy B s policyName of
             Inl _ \<Rightarrow> (s, Inl (Err (''policy '' @ policyName @ '' not found'')))
           | Inr _ \<Rightarrow>
               (if containsString (user_AttachedPolicies user) policyName then (s, Inr ())
                else PutUser B s
                  (user\<lparr>user_AttachedPolicies := user_AttachedPolicies user @ [policyName]\<rparr>))))"

definition DetachUserPolicy ::
    "'db bolt \<Rightarrow> 'db IAMStore \<Rightarrow> string \<Rightarrow> string \<Rightarrow> 'db IAMStore \<times> unit result" where
  "DetachUserPolicy B s userName policyName =
     (case GetUser B s userName of
        Inl e \<Rightarrow> (s, Inl e)
      | Inr user \<Rightarrow>
          PutUser B s (user\<lparr>user_AttachedPolicies := removeString (user_AttachedPolicies user) policyName\<rparr>))"

definition AttachGroupPolicy ::
    "'db bolt \<Rightarrow> 'db IAMStore \<Rightarrow> string \<Rightarrow> string \<Rightarrow> 'db IAMStore \<times> unit result" where
  "AttachGroupPolicy B s groupName policyName =
     (case GetGroup B s groupName of
        Inl e \<Rightarrow> (s, Inl e)
      | Inr grp \<Rightarrow>
          (case GetPolicy B s policyName of
             Inl _ \<Rightarrow> (s, Inl (Err (''policy '' @ policyName @ '' not found'')))
           | Inr _ \<Rightarrow>
               (if containsString (group_AttachedPolicies grp) policyName then (s, Inr ())
                else PutGroup B s
                  (grp\<lparr>group_AttachedPolicies := group_AttachedPolicies grp @ [policyName]\<rparr>))))"

definition DetachGroupPolicy ::
    "'db bolt \<Rightarrow> 'db IAMStore \<Rightarrow> string \<Rightarrow> string \<Rightarrow> 'db IAMStore \<times> unit result" where
  "DetachGroupPolicy B s groupName policyName =
     (case GetGroup B s groupName of
        Inl e \<Rightarrow> (s, Inl e)
      | Inr grp \<Rightarrow>
          PutGroup B s (grp\<lparr>group_AttachedPolicies := removeString (group_AttachedPolicies grp) policyName\<rparr>))"

section \<open>Inline policies\<close>

fun replace_inline :: "string \<Rightarrow> PolicyDocument \<Rightarrow> PolicyDocument list \<Rightarrow> PolicyDocument list" where
  "replace_inline policyName document [] = [document]"
| "replace_inline policyName document (p # ps) =
     (if doc_Id p = policyName then document # ps else p # replace_inline policyName document ps)"

fun remove_inline :: "string \<Rightarrow> PolicyDocument list \<Rightarrow> PolicyDocument list option" where
  "remove_inline policyName [] = None"
| "remove_inline policyName (p # ps) =
     (if doc_Id p = policyName then Some ps else map_option ((#) p) (remove_inline policyName ps))"

definition PutUserInlinePolicy ::
    "'db bolt \<Rightarrow> 'db IAMStore \<Rightarrow> string \<Rightarrow> string \<Rightarrow> PolicyDocument \<Rightarrow> 'db IAMStore \<times> unit result" where
  "PutUserInlinePolicy B s userName policyName document =
     (case GetUser B s userName of
        Inl e \<Rightarrow> (s, Inl e)
      | Inr user \<Rightarrow>
          PutUser B s (user\<lparr>user_InlinePolicies :=
            replace_inline policyName (document\<lparr>doc_Id := policyName\<rparr>) (user_InlinePolicies user)\<rparr>))"

definition DeleteUserInlinePolicy ::
    "'db bolt \<Rightarrow> 'db IAMStore \<Rightarrow> string \<Rightarrow> string \<Rightarrow> 'db IAMStore \<times> unit result" where
  "DeleteUserInlinePolicy B s userName policyName =
     (case GetUser B s userName of
        Inl e \<Rightarrow> (s, Inl e)
      | Inr user \<Rightarrow>
          (case remove_inline policyName (user_InlinePolicies user) of
             Some ps \<Rightarrow> PutUser B s (user\<lparr>user_InlinePolicies := ps\<rparr>)
           | None \<Rightarrow> (s, Inl (Err (''inline policy '' @ policyName @ '' not found'')))))"

section \<open>Permission boundaries (boundary.go)\<close>

definition SetPermissionBoundary ::
    "'db bolt \<Rightarrow> 'db IAMStore \<Rightarrow> string \<Rightarrow> string \<Rightarrow> 'db IAMStore \<times> unit result" where
  "SetPermissionBoundary B s userName policyName =
     (case GetUser B s userName of
        Inl _ \<Rightarrow> (s, Inl (Err (''user '' @ userName @ '' not found'')))
      | Inr user \<Rightarrow>
          (case GetPolicy B s policyName of
             Inl _ \<Rightarrow> (s, Inl (Err (''boundary policy '' @ policyName @ '' not found'')))
           | Inr _ \<Rightarrow> PutUser B s (user\<lparr>user_PermissionBoundary := policyName\<rparr>)))"

definition RemovePermissionBoundary ::
    "'db bolt \<Rightarrow> 'db IAMStore \<Rightarrow> string \<Rightarrow> 'db IAMStore \<times> unit result" where
  "RemovePermissionBoundary B s userName =
     (case GetUser B s userName of
        Inl _ \<Rightarrow> (s, Inl (Err (''user '' @ userName @ '' not found'')))
      | Inr user \<Rightarrow> PutUser B s (user\<lparr>user_PermissionBoundary := ''''\<rparr>))"

section \<open>Roles\<close>

definition CreateRole ::
    "'db bolt \<Rightarrow> (nat \<Rightarrow> gotime) \<Rightarrow> 'db IAMStore \<Rightarrow> string \<Rightarrow> string \<Rightarrow> PolicyDocument \<Rightarrow> int \<Rightarrow>
     'db IAMStore \<times> IAMRole result" where
  "CreateRole B clk s name description trustPolicy maxSessionDuration =
     (case GetRole B s name of
        Inr _ \<Rightarrow> (s, Inl (Err (''role '' @ name @ '' already exists'')))
      | Inl _ \<Rightarrow>
          let maxSessionDuration =
                (if maxSessionDuration \<le> 0 then DefaultMaxSessionDuration else maxSessionDuration);
              role = \<lparr>role_Name = name, role_Description = description,
                      role_TrustPolicy = trustPolicy, role_PermissionPolicies = [],
                      role_MaxSessionDuration = maxSessionDuration, role_Path = '''',
                      role_CreatedAt = clk 0\<rparr>
          in case PutRole B s role of
               (s', Inl e) \<Rightarrow> (s', Inl e)
             | (s', Inr _) \<Rightarrow> (s', Inr role))"

definition svc_DeleteRole :: "'db bolt \<Rightarrow> 'db IAMStore \<Rightarrow> string \<Rightarrow> 'db IAMStore \<times> unit result" where
  "svc_DeleteRole B s name = DeleteRole B s name"

definition AttachRolePolicy ::
    "'db bolt \<Rightarrow> 'db IAMStore \<Rightarrow> string \<Rightarrow> string \<Rightarrow> 'db IAMStore \<times> unit result" where
  "AttachRolePolicy B s roleName policyName =
     (case GetRole B s roleName of
        Inl e \<Rightarrow> (s, Inl e)
      | Inr role \<Rightarrow>
          (case GetPolicy B s policyName of
             Inl _ \<Rightarrow> (s, Inl (Err (''policy '' @ policyName @ '' not found'')))
           | Inr _ \<Rightarrow>
               (if containsString (role_PermissionPolicies role) policyName then (s, Inr ())
                else PutRole B s
                  (role\<lparr>role_PermissionPolicies := role_PermissionPolicies role @ [policyName]\<rparr>))))"

definition DetachRolePolicy ::
    "'db bolt \<Rightarrow> 'db IAMStore \<Rightarrow> string \<Rightarrow> string \<Rightarrow> 'db IAMStore \<times> unit result" where
  "DetachRolePolicy B s roleName policyName =
     (case GetRole B s roleName of
        Inl e \<Rightarrow> (s, Inl e)
      | Inr role \<Rightarrow>
          PutRole B s (role\<lparr>role_PermissionPolicies := removeString (role_PermissionPolicies role) policyName\<rparr>))"

section \<open>Bucket policies\<close>

definition svc_PutBucketPolicy ::
    "'db bolt \<Rightarrow> (nat \<Rightarrow> gotime) \<Rightarrow> 'db IAMStore \<Rightarrow> string \<Rightarrow> PolicyDocument \<Rightarrow> 'db IAMStore \<times> unit result" where
  "svc_PutBucketPolicy B clk s bucket document =
     PutBucketPolicy B s \<lparr>bp_Bucket = bucket, bp_Document = document, bp_UpdatedAt = clk 0\<rparr>"

definition svc_DeleteBucketPolicy ::
    "'db bolt \<Rightarrow> 'db IAMStore \<Rightarrow> string \<Rightarrow> 'db IAMStore \<times> unit result" where
  "svc_DeleteBucketPolicy B s bucket = DeleteBucketPolicy B s bucket"

section \<open>Temporary credentials\<close>

definition issue_credential ::
    "'db bolt \<Rightarrow> gotime \<Rightarrow> (nat \<Rightarrow> byte list) \<Rightarrow> 'db IAMStore \<Rightarrow> int \<Rightarrow> 'db IAMStore \<times> TemporaryCredential result" where
  "issue_credential B now rnd s duration =
     (let cred = \<lparr>cred_AccessKeyID = ''ASIA'' @ generateRandomString 16 (rnd 0),
                  cred_SecretAccessKey = generateRandomString 40 (rnd 1),
                  cred_SessionToken = generateRandomString 64 (rnd 2),
                  cred_Expiration = now + seconds duration\<rparr>
      in case PutTempCredential B s cred of
           (s', Inl e) \<Rightarrow> (s', Inl (Err (''failed to store temp credential: '' @ err_text e)))
         | (s', Inr _) \<Rightarrow> (s', Inr cred))"

definition trust_context :: "gotime \<Rightarrow> string \<Rightarrow> string \<Rightarrow> EvalContext" where
  "trust_context now callerARN roleARN =
     \<lparr>ctx_Principal = callerARN, ctx_Action = ''sts:AssumeRole'', ctx_Resource = roleARN,
      ctx_Conditions = None, ctx_SourceIP = '''', ctx_Time = now, ctx_UserAgent = '''',
      ctx_PrincipalType = '''', ctx_ResourceTags = None, ctx_PrincipalTags = None,
      ctx_RequestTags = None, ctx_S3Prefix = '''', ctx_S3ACL = ''''\<rparr>"

text \<open>\<^verbatim>\<open>AssumeRole\<close>: the outer option is \<^const>\<open>None\<close> where an evaluation does not return.\<close>

definition AssumeRole ::
    "std \<Rightarrow> 'db bolt \<Rightarrow> (nat \<Rightarrow> gotime) \<Rightarrow> (nat \<Rightarrow> byte list) \<Rightarrow> 'db IAMStore \<Rightarrow> AssumeRoleRequest \<Rightarrow>
     string \<Rightarrow> ('db IAMStore \<times> TemporaryCredential result) option" where
  "AssumeRole S B clk rnd s req callerARN =
     (let roleName = extractRoleNameFromARN (req_RoleARN req) in
      if roleName = '''' then Some (s, Inl (Err (''invalid role ARN: '' @ req_RoleARN req)))
      else case GetRole B s roleName of
          Inl _ \<Rightarrow> Some (s, Inl (Err (''role '' @ roleName @ '' not found'')))
        | Inr role \<Rightarrow>
            let trustCtx = trust_context (clk 0) callerARN (req_RoleARN req) in
            (case Evaluate S B (Some s) trustCtx of
               None \<Rightarrow> None
             | Some evalResult \<Rightarrow>
                 (case find_stmt S trustCtx EffectAllow (doc_Statement (role_TrustPolicy role)) of
                    None \<Rightarrow> None
                  | Some trusted \<Rightarrow>
                      let decision = (if trusted \<noteq> None then DecisionAllow else res_Decision evalResult) in
                      if decision \<noteq> DecisionAllow then
                        Some (s, Inl (Err (''access denied: caller '' @ callerARN @
                          '' is not authorized to assume role '' @ roleName)))
                      else
                        let duration = (if req_DurationSeconds req > 0 \<and>
                                           req_DurationSeconds req \<le> role_MaxSessionDuration role
                                        then req_DurationSeconds req
                                        else role_MaxSessionDuration role)
                        in Some (issue_credential B (clk 1) rnd s duration))))"

definition GetSessionToken ::
    "'db bolt \<Rightarrow> (nat \<Rightarrow> gotime) \<Rightarrow> (nat \<Rightarrow> byte list) \<Rightarrow> 'db IAMStore \<Rightarrow> string \<Rightarrow> int \<Rightarrow>
     'db IAMStore \<times> TemporaryCredential result" where
  "GetSessionToken B clk rnd s callerARN durationSeconds =
     (let d1 = (if durationSeconds \<le> 0 then 3600 else durationSeconds);
          d2 = (if d1 > 129600 then 129600 else d1)
      in issue_credential B (clk 0) rnd s d2)"

definition GetFederationToken ::
    "'db bolt \<Rightarrow> (nat \<Rightarrow> gotime) \<Rightarrow> (nat \<Rightarrow> byte list) \<Rightarrow> 'db IAMStore \<Rightarrow> string \<Rightarrow> string \<Rightarrow> int \<Rightarrow>
     PolicyDocument option \<Rightarrow> 'db IAMStore \<times> TemporaryCredential result" where
  "GetFederationToken B clk rnd s name callerARN durationSeconds policy =
     (let d1 = (if durationSeconds \<le> 0 then 3600 else durationSeconds);
          d2 = (if d1 > 43200 then 43200 else d1)
      in issue_credential B (clk 0) rnd s d2)"

section \<open>The first administrator\<close>

definition admin_document :: PolicyDocument where
  "admin_document =
     \<lparr>doc_Version = PolicyVersion, doc_Id = '''',
      doc_Statement =
        [\<lparr>stmt_Sid = '''', stmt_Effect = EffectAllow, stmt_Action = [''*''], stmt_NotAction = [],
          stmt_Resource = [''*''], stmt_NotResource = [], stmt_Principal = None,
          stmt_NotPrincipal = None, stmt_Condition = []\<rparr>]\<rparr>"

definition setup_admin ::
    "'db bolt \<Rightarrow> aead \<Rightarrow> MasterKey \<Rightarrow> (nat \<Rightarrow> gotime) \<Rightarrow> (nat \<Rightarrow> byte list) \<Rightarrow> string + byte list \<Rightarrow>
     'db IAMStore \<Rightarrow> 'db IAMStore \<times> CreateAccessKeyResult option result" where
  "setup_admin B A mk clk rnd nonce s =
     (case CreateAccessKey B A mk (\<lambda>i. clk (i + 1)) (\<lambda>i. rnd (i + 1)) nonce s ''admin'' ''Initial admin key'' of
        (s1, Inl e) \<Rightarrow> (s1, Inl (Err (''failed to create admin access key: '' @ err_text e)))
      | (s1, Inr key) \<Rightarrow>
          let s2 = fst (CreatePolicy B (\<lambda>i. clk (i + 2)) s1 ''AdministratorAccess''
                     ''Full access to all resources'' admin_document);
              s3 = fst (AttachUserPolicy B s2 ''admin'' ''AdministratorAccess'')
          in (s3, Inr (Some key)))"

text \<open>
  A result of \<open>Inr None\<close> is the pair \<^verbatim>\<open>(nil, nil)\<close>: there was an administrator already. The
  failures of the last two steps are only logged.
\<close>

definition InitializeAdmin ::
    "'db bolt \<Rightarrow> aead \<Rightarrow> MasterKey \<Rightarrow> (nat \<Rightarrow> gotime) \<Rightarrow> (nat \<Rightarrow> byte list) \<Rightarrow> string + byte list \<Rightarrow>
     'db IAMStore \<Rightarrow> 'db IAMStore \<times> CreateAccessKeyResult option result" where
  "InitializeAdmin B A mk clk rnd nonce s =
     (case GetUser B s ''admin'' of
        Inr adminUser \<Rightarrow>
          (if user_AccessKeys adminUser \<noteq> [] then (s, Inr None)
           else setup_admin B A mk clk rnd nonce s)
      | Inl _ \<Rightarrow>
          (case CreateUser B clk rnd s ''admin'' ''Administrator'' of
             (s1, Inl e) \<Rightarrow> (s1, Inl (Err (''failed to create admin user: '' @ err_text e)))
           | (s1, Inr _) \<Rightarrow> setup_admin B A mk clk rnd nonce s1))"

section \<open>Properties\<close>

lemma secret_bytes [simp]: "map (\<lambda>b. char_of (unat b)) (map of_char cs :: byte list) = (cs :: string)"
proof -
  have "char_of (unat (of_char c :: byte)) = c" for c :: char
  proof -
    have "(of_char c :: byte) = of_nat (of_char c)"
      by (cases c) (simp only: of_char_Char horner_sum_simps of_nat_add of_nat_mult of_nat_of_bool
          of_nat_numeral semiring_1_class.of_nat_0)
    then have "unat (of_char c :: byte) = of_char c mod 256"
      by (simp only: unsigned_of_nat take_bit_eq_mod) simp
    then show ?thesis by simp
  qed
  then show ?thesis by (simp add: comp_def map_idI)
qed


lemma seconds_exact:
  assumes "0 \<le> n" "n \<le> 9000000000"
  shows "seconds n = n * 1000000000"
proof -
  have "of_int n * of_int 1000000000 = (of_int (n * 1000000000) :: 64 word)" by simp
  moreover have "sint (of_int (n * 1000000000) :: 64 word) = n * 1000000000"
    using assms by (intro sint_of_int_small) auto
  ultimately show ?thesis by (simp only: seconds_def)
qed

text \<open>
  C26. A created access key works: with an authenticated cipher that opens what it sealed and
  a nonce of the cipher's size, when \<^verbatim>\<open>CreateAccessKey\<close> succeeds the user's record ends with
  a new active key of the returned ID, and decrypting what is stored there gives the secret
  that was returned to the caller.
\<close>

theorem access_key_round_trip:
  assumes "bolt_ok B" "aead_ok A" "length nonce = nonceSize"
    and "CreateAccessKey B A mk clk rnd (Inr nonce) s userName description = (s', Inr r)"
  shows "\<exists>u ak. GetUser B s userName = Inr u \<and>
    GetUser B s' (user_Name u) = Inr (u\<lparr>user_AccessKeys := user_AccessKeys u @ [ak]\<rparr>) \<and>
    ak_AccessKeyID ak = akr_AccessKeyID r \<and> ak_Status ak = AccessKeyActive \<and>
    DecryptSecretKey A mk (ak_SecretKeyEnc ak) = Inr (akr_SecretAccessKey r)"
proof -
  let ?secret = "generateRandomString 40 (rnd 1)"
  from assms(4) obtain u c where u: "GetUser B s userName = Inr u"
    and c: "MasterKey_Encrypt A mk (Inr nonce) (map of_char ?secret) = Inr c"
    by (auto simp: CreateAccessKey_def Let_def split: sum.splits)
  define ak where "ak = \<lparr>ak_AccessKeyID = AccessKeyIDPrefix @ generateRandomString 16 (rnd 0),
    ak_SecretKeyEnc = c, ak_Status = AccessKeyActive, ak_CreatedAt = clk 0, ak_LastUsedAt = None,
    ak_Description = description\<rparr>"
  have p: "PutUser B s (u\<lparr>user_AccessKeys := user_AccessKeys u @ [ak]\<rparr>) = (s', Inr ())"
    and r: "r = \<lparr>akr_AccessKeyID = ak_AccessKeyID ak, akr_SecretAccessKey = ?secret,
      akr_Status = AccessKeyActive, akr_CreatedAt = clk 0\<rparr>"
    using assms(4) by (auto simp: CreateAccessKey_def Let_def u c [unfolded One_nat_def] ak_def split: prod.splits sum.splits)
  have "DecryptSecretKey A mk c = Inr ?secret"
    using decrypt_encrypt [OF assms(2,3) c] by (simp add: DecryptSecretKey_def del: map_map)
  with u r users.read_your_write [OF assms(1) p] show ?thesis
    by (intro exI [of _ u] exI [of _ ak]) (simp add: ak_def)
qed

text \<open>A cipher without secrecy that opens what it sealed, for the evaluated examples.\<close>

definition clear_aead :: aead where
  "clear_aead = \<lparr>gcm_seal = (\<lambda>_ _ p. p), gcm_open = (\<lambda>_ _ c. Some c)\<rparr>"

definition zero_key :: MasterKey where
  "zero_key = \<lparr>mk_key = replicate 32 0, mk_keyPath = '''', mk_loaded = True\<rparr>"

theorem access_key_round_trip_witness:
  "\<exists>s' r (ak :: AccessKey). CreateAccessKey mem_bolt clear_aead zero_key (\<lambda>_. 7) (\<lambda>i. replicate 32 (of_nat i))
       (Inr (replicate 12 0)) alice_store ''alice'' ''laptop'' = (s', Inr r) \<and>
     DecryptSecretKey clear_aead zero_key (ak_SecretKeyEnc ak) = Inr (akr_SecretAccessKey r)"
proof -
  let ?c = "CreateAccessKey mem_bolt clear_aead zero_key (\<lambda>_. 7) (\<lambda>i. replicate 32 (of_nat i))
       (Inr (replicate 12 0)) alice_store ''alice'' ''laptop''"
  have "\<not> isl (snd ?c)" by code_simp
  then obtain s' r where c: "?c = (s', Inr r)" by (metis isl_def prod.collapse sum.collapse(2))
  have "aead_ok clear_aead" "length (replicate 12 (0 :: byte)) = nonceSize"
    by (simp_all add: aead_ok_def clear_aead_def nonceSize_def)
  from access_key_round_trip [OF mem_bolt_ok this c] c show ?thesis by blast
qed

text \<open>
  Session credentials live as long as they should: a token from \<^verbatim>\<open>GetSessionToken\<close> is
  readable from the moment it is issued, for at least one second and at most 36 hours, and
  refused after that, whatever duration the caller asks for; asking for a duration between
  one second and 36 hours gives exactly that duration.
\<close>

theorem session_token_lifetime:
  assumes "bolt_ok B" "GetSessionToken B clk rnd s callerARN d = (s', Inr cred)"
  shows "(\<forall>now. GetTempCredential B now s' (cred_AccessKeyID cred) =
            (if now > cred_Expiration cred then Inl (Err ''temp credential expired'') else Inr cred)) \<and>
         clk 0 + 1000000000 \<le> cred_Expiration cred \<and>
         cred_Expiration cred \<le> clk 0 + 129600 * 1000000000 \<and>
         (0 < d \<and> d \<le> 129600 \<longrightarrow> cred_Expiration cred = clk 0 + d * 1000000000)"
proof -
  let ?d = "if d \<le> 0 then 3600 else if d > 129600 then 129600 else d"
  have i: "issue_credential B (clk 0) rnd s ?d = (s', Inr cred)"
    using assms(2) by (auto simp: GetSessionToken_def Let_def split: if_splits)
  then have e: "cred_Expiration cred = clk 0 + seconds ?d"
    and p: "PutTempCredential B s cred = (s', Inr ())"
    by (auto simp: issue_credential_def Let_def split: prod.splits sum.splits)
  have "0 < ?d" "?d \<le> 129600" by auto
  then have "seconds ?d = ?d * 1000000000" by (intro seconds_exact) auto
  with e temp_credential_lifetime [OF assms(1) p] show ?thesis by auto
qed

lemma put_temp_ok: "\<not> isl (snd (issue_credential mem_bolt now rnd s d))"
  by (simp add: issue_credential_def PutTempCredential_def store_put_def mem_bolt_def Let_def)

theorem session_token_lifetime_witness:
  "\<exists>s' cred. GetSessionToken mem_bolt (\<lambda>_. 5) (\<lambda>_. replicate 64 1) alice_store ''alice'' 900 = (s', Inr cred) \<and>
     GetTempCredential mem_bolt (5 + 900 * 1000000000) s' (cred_AccessKeyID cred) = Inr cred \<and>
     isl (GetTempCredential mem_bolt (6 + 900 * 1000000000) s' (cred_AccessKeyID cred))"
proof -
  let ?t = "GetSessionToken mem_bolt (\<lambda>_. 5) (\<lambda>_. replicate 64 1) alice_store ''alice'' 900"
  have "\<not> isl (snd ?t)" by (simp add: GetSessionToken_def Let_def put_temp_ok)
  then obtain s' cred where t: "?t = (s', Inr cred)" by (metis prod.collapse sum.collapse(2))
  from session_token_lifetime [OF mem_bolt_ok t] t show ?thesis by auto
qed

text \<open>
  \<^verbatim>\<open>AssumeRole\<close> on a role's ARN, on every branch. It fails, and stores nothing, on an
  unknown role and on a caller that neither the evaluator nor an Allow statement of the
  trust policy admits. Otherwise it issues a credential whose duration is
  the requested one where that is positive and within the role's maximum, and else the
  maximum. An Allow of the trust policy is enough, also against an explicit deny.
\<close>

theorem AssumeRole_cases:
  assumes "CHR ''/'' \<notin> set n" "n \<noteq> ''''" "req_RoleARN req = MakeRoleARN n"
    and "Evaluate S B (Some s) (trust_context (clk 0) caller (MakeRoleARN n)) = Some ev"
    and "plain_context S (trust_context (clk 0) caller (MakeRoleARN n))"
  shows "AssumeRole S B clk rnd s req caller = Some
    (case GetRole B s n of
       Inl _ \<Rightarrow> (s, Inl (Err (''role '' @ n @ '' not found'')))
     | Inr role \<Rightarrow>
         if res_Decision ev = DecisionAllow \<or>
            doc_has S (trust_context (clk 0) caller (MakeRoleARN n)) EffectAllow (role_TrustPolicy role)
         then issue_credential B (clk 1) rnd s
                (if 0 < req_DurationSeconds req \<and> req_DurationSeconds req \<le> role_MaxSessionDuration role
                 then req_DurationSeconds req else role_MaxSessionDuration role)
         else (s, Inl (Err (''access denied: caller '' @ caller @
                            '' is not authorized to assume role '' @ n))))"
proof (cases "GetRole B s n")
  case (Inl e)
  with assms(2,3) extractRoleName_MakeRoleARN [OF assms(1)] show ?thesis
    by (simp add: AssumeRole_def Let_def)
next
  case (Inr role)
  obtain r where "find_stmt S (trust_context (clk 0) caller (MakeRoleARN n)) EffectAllow
      (doc_Statement (role_TrustPolicy role)) = Some r"
    "r \<noteq> None \<longleftrightarrow> doc_has S (trust_context (clk 0) caller (MakeRoleARN n)) EffectAllow (role_TrustPolicy role)"
    using find_stmt_has [OF assms(5)] by blast
  with Inr assms(2-4) extractRoleName_MakeRoleARN [OF assms(1)] show ?thesis
    by (auto simp: AssumeRole_def Let_def)
qed

definition ops_role :: IAMRole where
  "ops_role = \<lparr>role_Name = ''ops'', role_Description = '''',
     role_TrustPolicy = doc_of ''trust'' [stmt_on_all ''any'' EffectAllow ''sts:AssumeRole''],
     role_PermissionPolicies = [], role_MaxSessionDuration = 3600, role_Path = '''', role_CreatedAt = 0\<rparr>"

definition ops_store :: "mem_db IAMStore" where
  "ops_store = \<lparr>store_db = [((bucketRoles, ''ops''), DRole ops_role)],
     store_scp = Some (doc_of ''scp'' [stmt_on_all ''no'' EffectDeny ''*''])\<rparr>"

theorem AssumeRole_cases_witness:
  "AssumeRole ascii_std mem_bolt (\<lambda>_. 1) (\<lambda>_. replicate 64 1) ops_store
     \<lparr>req_RoleARN = MakeRoleARN ''ops'', req_RoleSessionName = ''x'', req_DurationSeconds = 7200,
      req_ExternalID = '''', req_Policy = ''''\<rparr> ''bob'' =
   Some (issue_credential mem_bolt 1 (\<lambda>_. replicate 64 1) ops_store 3600)"
proof -
  let ?ctx = "trust_context 1 ''bob'' (MakeRoleARN ''ops'')"
  have plain: "plain_context ascii_std ?ctx"
    by (simp add: plain_context_def resolveConditionKey_def Let_def trust_context_def ascii_std_def tag_lookup_def)
  have "map_option res_Decision (Evaluate ascii_std mem_bolt (Some ops_store) ?ctx) = Some DecisionDeny"
    by code_simp
  then obtain ev where ev: "Evaluate ascii_std mem_bolt (Some ops_store) ?ctx = Some ev"
    "res_Decision ev = DecisionDeny" by auto
  have role: "GetRole mem_bolt ops_store ''ops'' = Inr ops_role"
    by (simp add: GetRole_def store_get_def mem_bolt_def ops_store_def)
  have "doc_has ascii_std ?ctx EffectAllow (role_TrustPolicy ops_role)" by code_simp
  with AssumeRole_cases [of "''ops''" "\<lparr>req_RoleARN = MakeRoleARN ''ops'', req_RoleSessionName = ''x'',
      req_DurationSeconds = 7200, req_ExternalID = '''', req_Policy = ''''\<rparr>" ascii_std mem_bolt ops_store "\<lambda>_. 1" "''bob''" ev]
    plain ev role show ?thesis by (simp add: ops_role_def)
qed

text \<open>
  Looking a user up by access key: where some stored user has an active key of the ID
  the result is such a user with a key of that ID, and where none has, which is what an
  unknown or deactivated key is, the function does not report an error but panics.
\<close>

theorem GetUserByAccessKeyID_cases:
  assumes "bolt_ok B" "ListUsers B s = Inr us"
  shows "if \<exists>n u. GetUser B s n = Inr u \<and> has_active_key k u
    then \<exists>u ak. GetUserByAccessKeyID B s k = Inr (u, ak) \<and> has_active_key k u \<and>
           ak \<in> set (user_AccessKeys u) \<and> ak_AccessKeyID ak = k
    else \<exists>m. GetUserByAccessKeyID B s k = Inl (Panic m)"
proof -
  have mem: "u \<in> set us \<longleftrightarrow> (\<exists>n. GetUser B s n = Inr u)" for u
    using users.lst_get [OF assms] .
  show ?thesis
  proof (cases "find (has_active_key k) us")
    case None
    then have "\<forall>u \<in> set us. \<not> has_active_key k u" by (simp add: find_None_iff)
    with None assms(2) mem show ?thesis by (auto simp: GetUserByAccessKeyID_def GetUserByAccessKey_def)
  next
    case (Some u)
    then have u: "u \<in> set us" "has_active_key k u" by (auto simp: find_Some_iff)
    then obtain ak where ak: "find (\<lambda>ak. ak_AccessKeyID ak = k) (user_AccessKeys u) = Some ak"
      by (cases "find (\<lambda>ak. ak_AccessKeyID ak = k) (user_AccessKeys u)")
         (auto simp: find_None_iff has_active_key_def)
    then have "ak \<in> set (user_AccessKeys u) \<and> ak_AccessKeyID ak = k" by (auto simp: find_Some_iff)
    with u mem Some ak assms(2) show ?thesis
      by (auto simp: GetUserByAccessKeyID_def GetUserByAccessKey_def)
  qed
qed

theorem GetUserByAccessKeyID_cases_witness:
  "\<exists>m. GetUserByAccessKeyID mem_bolt alice_store ''AKIA0'' = Inl (Panic m)"
proof -
  obtain us where us: "ListUsers mem_bolt alice_store = Inr us"
    by (simp add: ListUsers_def store_list_def mem_bolt_def)
  have "\<not> has_active_key ''AKIA0'' u" if "GetUser mem_bolt alice_store n = Inr u" for n u
    using that by (auto simp: GetUser_def store_get_def mem_bolt_def alice_store_def alice_def
        has_active_key_def split: if_splits option.splits)
  with GetUserByAccessKeyID_cases [OF mem_bolt_ok us, of "''AKIA0''"] show ?thesis by auto
qed

end
