(* ===== verification/IAM_Invariant.thy ===== *)
theory IAM_Invariant
  imports IAM_Service
begin

text \<open>
  The consistency of the stored identities. The buckets are viewed as four maps; the
  invariant says that records sit under their own names, that user and group membership
  lists agree, and that every attached policy and permission boundary exists. Operations
  with one write keep it whatever fails; the operations with several writes keep it where
  no write fails. Every state reached by the service's operations satisfies it.
\<close>

section \<open>The view\<close>

record iam_view =
  v_users :: "string \<rightharpoonup> IAMUser"
  v_groups :: "string \<rightharpoonup> IAMGroup"
  v_policies :: "string \<rightharpoonup> IAMPolicy"
  v_roles :: "string \<rightharpoonup> IAMRole"

definition ok_part :: "'a result \<Rightarrow> 'a option" where
  "ok_part r = (case r of Inl _ \<Rightarrow> None | Inr v \<Rightarrow> Some v)"

lemma ok_part_simps [simp]: "ok_part (Inl e) = None" "ok_part (Inr v) = Some v"
  by (simp_all add: ok_part_def)

lemma ok_part_Some [simp]: "ok_part r = Some v \<longleftrightarrow> r = Inr v"
  by (cases r) auto

definition view :: "'db bolt \<Rightarrow> 'db IAMStore \<Rightarrow> iam_view" where
  "view B s =
     \<lparr>v_users = (\<lambda>k. ok_part (GetUser B s k)), v_groups = (\<lambda>k. ok_part (GetGroup B s k)),
      v_policies = (\<lambda>k. ok_part (GetPolicy B s k)), v_roles = (\<lambda>k. ok_part (GetRole B s k))\<rparr>"

lemma view_read [simp]:
  "v_users (view B s) k = Some u \<longleftrightarrow> GetUser B s k = Inr u"
  "v_groups (view B s) k = Some g \<longleftrightarrow> GetGroup B s k = Inr g"
  "v_policies (view B s) k = Some p \<longleftrightarrow> GetPolicy B s k = Inr p"
  "v_roles (view B s) k = Some r \<longleftrightarrow> GetRole B s k = Inr r"
  by (simp_all add: view_def)

lemma store_put_key:
  "bolt_ok B \<Longrightarrow> store_put B s bk k d = (s', Inr ()) \<Longrightarrow> k \<noteq> ''''"
  using store_put_cases [of B s bk k d s' "Inr ()"]
  unfolding bolt_ok_def by (metis isl_def sum.distinct(2))

text \<open>One write is one map update or, if it fails, nothing.\<close>

lemma view_PutUser:
  assumes "bolt_ok B" "PutUser B s u = (s', r)"
  shows "s' = s \<or> r = Inr () \<and> user_Name u \<noteq> '''' \<and>
    view B s' = (view B s)\<lparr>v_users := (v_users (view B s))(user_Name u \<mapsto> u)\<rparr>"
proof (cases r)
  case (Inl e)
  with assms users.put_error show ?thesis by blast
next
  case (Inr x)
  then have p: "PutUser B s u = (s', Inr ())" using assms(2) by simp
  then have "user_Name u \<noteq> ''''"
    using store_put_key [OF assms(1)] by (auto simp: PutUser_def)
  with p Inr show ?thesis
    using users.get_put [OF assms(1) p] frame_PutUser [OF assms(1) p]
    by (auto simp: view_def fun_eq_iff)
qed

lemma view_PutGroup:
  assumes "bolt_ok B" "PutGroup B s g = (s', r)"
  shows "s' = s \<or> r = Inr () \<and> group_Name g \<noteq> '''' \<and>
    view B s' = (view B s)\<lparr>v_groups := (v_groups (view B s))(group_Name g \<mapsto> g)\<rparr>"
proof (cases r)
  case (Inl e)
  with assms groups.put_error show ?thesis by blast
next
  case (Inr x)
  then have p: "PutGroup B s g = (s', Inr ())" using assms(2) by simp
  then have "group_Name g \<noteq> ''''"
    using store_put_key [OF assms(1)] by (auto simp: PutGroup_def)
  with p Inr show ?thesis
    using groups.get_put [OF assms(1) p] frame_PutGroup [OF assms(1) p]
    by (auto simp: view_def fun_eq_iff)
qed

lemma view_PutPolicy:
  assumes "bolt_ok B" "PutPolicy B s p = (s', r)"
  shows "s' = s \<or> r = Inr () \<and> policy_Name p \<noteq> '''' \<and>
    view B s' = (view B s)\<lparr>v_policies := (v_policies (view B s))(policy_Name p \<mapsto> p)\<rparr>"
proof (cases r)
  case (Inl e)
  with assms policies.put_error show ?thesis by blast
next
  case (Inr x)
  then have p: "PutPolicy B s p = (s', Inr ())" using assms(2) by simp
  then have "policy_Name p \<noteq> ''''"
    using store_put_key [OF assms(1)] by (auto simp: PutPolicy_def)
  with p Inr show ?thesis
    using policies.get_put [OF assms(1) p] frame_PutPolicy [OF assms(1) p]
    by (auto simp: view_def fun_eq_iff)
qed

lemma view_PutRole:
  assumes "bolt_ok B" "PutRole B s x = (s', r)"
  shows "s' = s \<or> r = Inr () \<and> role_Name x \<noteq> '''' \<and>
    view B s' = (view B s)\<lparr>v_roles := (v_roles (view B s))(role_Name x \<mapsto> x)\<rparr>"
proof (cases r)
  case (Inl e)
  with assms roles.put_error show ?thesis by blast
next
  case (Inr y)
  then have p: "PutRole B s x = (s', Inr ())" using assms(2) by simp
  then have "role_Name x \<noteq> ''''"
    using store_put_key [OF assms(1)] by (auto simp: PutRole_def)
  with p Inr show ?thesis
    using roles.get_put [OF assms(1) p] frame_PutRole [OF assms(1) p]
    by (auto simp: view_def fun_eq_iff)
qed

lemma ok_part_None: "ok_part r = None \<longleftrightarrow> isl r"
  by (cases r) auto

lemma view_DeleteUser:
  assumes "bolt_ok B" "DeleteUser B s n = (s', r)"
  shows "s' = s \<or> view B s' = (view B s)\<lparr>v_users := (v_users (view B s))(n := None)\<rparr>"
proof (cases r)
  case (Inl e)
  with assms users.del_error show ?thesis by blast
next
  case (Inr x)
  then have p: "DeleteUser B s n = (s', Inr ())" using assms(2) by simp
  then show ?thesis
    using users.get_del_same [OF assms(1) p] users.get_del_other [OF assms(1) p]
      frame_DeleteUser [OF assms(1) p]
    by (auto simp: view_def fun_eq_iff ok_part_None)
qed

lemma view_DeleteGroup:
  assumes "bolt_ok B" "DeleteGroup B s n = (s', r)"
  shows "s' = s \<or> view B s' = (view B s)\<lparr>v_groups := (v_groups (view B s))(n := None)\<rparr>"
proof (cases r)
  case (Inl e)
  with assms groups.del_error show ?thesis by blast
next
  case (Inr x)
  then have p: "DeleteGroup B s n = (s', Inr ())" using assms(2) by simp
  then show ?thesis
    using groups.get_del_same [OF assms(1) p] groups.get_del_other [OF assms(1) p]
      frame_DeleteGroup [OF assms(1) p]
    by (auto simp: view_def fun_eq_iff ok_part_None)
qed

lemma view_DeletePolicy:
  assumes "bolt_ok B" "DeletePolicy B s n = (s', r)"
  shows "s' = s \<or> view B s' = (view B s)\<lparr>v_policies := (v_policies (view B s))(n := None)\<rparr>"
proof (cases r)
  case (Inl e)
  with assms policies.del_error show ?thesis by blast
next
  case (Inr x)
  then have p: "DeletePolicy B s n = (s', Inr ())" using assms(2) by simp
  then show ?thesis
    using policies.get_del_same [OF assms(1) p] policies.get_del_other [OF assms(1) p]
      frame_DeletePolicy [OF assms(1) p]
    by (auto simp: view_def fun_eq_iff ok_part_None)
qed

lemma view_DeleteRole:
  assumes "bolt_ok B" "DeleteRole B s n = (s', r)"
  shows "s' = s \<or> view B s' = (view B s)\<lparr>v_roles := (v_roles (view B s))(n := None)\<rparr>"
proof (cases r)
  case (Inl e)
  with assms roles.del_error show ?thesis by blast
next
  case (Inr x)
  then have p: "DeleteRole B s n = (s', Inr ())" using assms(2) by simp
  then show ?thesis
    using roles.get_del_same [OF assms(1) p] roles.get_del_other [OF assms(1) p]
      frame_DeleteRole [OF assms(1) p]
    by (auto simp: view_def fun_eq_iff ok_part_None)
qed

text \<open>Bucket policies, credentials and the service control policy are outside the view.\<close>

lemma view_other_bucket:
  assumes "bolt_ok B" "store_put B s bk k d = (s', r) \<or> store_delete B s bk k = (s', r)"
    and "bk = bucketBucketPolicy \<or> bk = bucketTempCreds"
  shows "view B s' = view B s"
  using assms(2)
proof
  assume "store_put B s bk k d = (s', r)"
  then show ?thesis
    using assms(3)
    by (auto simp: view_def bucket_op_defs store_put_frame [OF assms(1) \<open>store_put B s bk k d = (s', r)\<close>])
next
  assume "store_delete B s bk k = (s', r)"
  then show ?thesis
    using assms(3)
    by (auto simp: view_def bucket_op_defs store_delete_frame [OF assms(1) \<open>store_delete B s bk k = (s', r)\<close>])
qed

section \<open>The invariant\<close>

definition named :: "iam_view \<Rightarrow> bool" where
  "named v \<longleftrightarrow>
     (\<forall>k u. v_users v k = Some u \<longrightarrow> user_Name u = k \<and> k \<noteq> '''') \<and>
     (\<forall>k g. v_groups v k = Some g \<longrightarrow> group_Name g = k \<and> k \<noteq> '''') \<and>
     (\<forall>k p. v_policies v k = Some p \<longrightarrow> policy_Name p = k \<and> k \<noteq> '''') \<and>
     (\<forall>k r. v_roles v k = Some r \<longrightarrow> role_Name r = k \<and> k \<noteq> '''')"

text \<open>The two directions in which membership is stored.\<close>

definition in_group :: "(string \<rightharpoonup> IAMUser) \<Rightarrow> string \<Rightarrow> string \<Rightarrow> bool" where
  "in_group U k n \<longleftrightarrow> (case U k of None \<Rightarrow> False | Some u \<Rightarrow> n \<in> set (user_Groups u))"

definition has_member :: "(string \<rightharpoonup> IAMGroup) \<Rightarrow> string \<Rightarrow> string \<Rightarrow> bool" where
  "has_member G n k \<longleftrightarrow> (case G n of None \<Rightarrow> False | Some g \<Rightarrow> k \<in> set (group_Users g))"

definition members :: "iam_view \<Rightarrow> bool" where
  "members v \<longleftrightarrow>
     (\<forall>k u. v_users v k = Some u \<longrightarrow> distinct (user_Groups u)) \<and>
     (\<forall>k g. v_groups v k = Some g \<longrightarrow> distinct (group_Users g)) \<and>
     (\<forall>k n. in_group (v_users v) k n \<longleftrightarrow> has_member (v_groups v) n k)"

definition user_refs :: "(string \<rightharpoonup> IAMPolicy) \<Rightarrow> IAMUser \<Rightarrow> bool" where
  "user_refs P u \<longleftrightarrow> set (user_AttachedPolicies u) \<subseteq> dom P \<and>
     (user_PermissionBoundary u = '''' \<or> user_PermissionBoundary u \<in> dom P)"

definition refs :: "iam_view \<Rightarrow> bool" where
  "refs v \<longleftrightarrow>
     (\<forall>k u. v_users v k = Some u \<longrightarrow> user_refs (v_policies v) u) \<and>
     (\<forall>k g. v_groups v k = Some g \<longrightarrow> set (group_AttachedPolicies g) \<subseteq> dom (v_policies v)) \<and>
     (\<forall>k r. v_roles v k = Some r \<longrightarrow> set (role_PermissionPolicies r) \<subseteq> dom (v_policies v))"

definition iam_inv :: "iam_view \<Rightarrow> bool" where
  "iam_inv v \<longleftrightarrow> named v \<and> members v \<and> refs v"

lemma removeString_remove1: "removeString xs s = remove1 s xs"
  by (induction xs) auto

lemma containsString_iff [simp]: "containsString xs s \<longleftrightarrow> s \<in> set xs"
  by (induction xs) auto

lemma in_group_upd [simp]:
  "in_group (U(k \<mapsto> u)) k' n = (if k' = k then n \<in> set (user_Groups u) else in_group U k' n)"
  "in_group (U(k := None)) k' n = (k' \<noteq> k \<and> in_group U k' n)"
  by (auto simp: in_group_def)

lemma has_member_upd [simp]:
  "has_member (G(n \<mapsto> g)) n' k = (if n' = n then k \<in> set (group_Users g) else has_member G n' k)"
  "has_member (G(n := None)) n' k = (n' \<noteq> n \<and> has_member G n' k)"
  by (auto simp: has_member_def)

lemma in_group_Some: "U k = Some u \<Longrightarrow> in_group U k n \<longleftrightarrow> n \<in> set (user_Groups u)"
  by (simp add: in_group_def)

lemma has_member_Some: "G n = Some g \<Longrightarrow> has_member G n k \<longleftrightarrow> k \<in> set (group_Users g)"
  by (simp add: has_member_def)

section \<open>Map updates that keep the invariant\<close>

text \<open>First each part of the invariant, then the updates the operations make.\<close>

lemma named_upd:
  "named v \<Longrightarrow> user_Name u \<noteq> '''' \<Longrightarrow> named (v\<lparr>v_users := (v_users v)(user_Name u \<mapsto> u)\<rparr>)"
  "named v \<Longrightarrow> group_Name g \<noteq> '''' \<Longrightarrow> named (v\<lparr>v_groups := (v_groups v)(group_Name g \<mapsto> g)\<rparr>)"
  "named v \<Longrightarrow> policy_Name p \<noteq> '''' \<Longrightarrow> named (v\<lparr>v_policies := (v_policies v)(policy_Name p \<mapsto> p)\<rparr>)"
  "named v \<Longrightarrow> role_Name r \<noteq> '''' \<Longrightarrow> named (v\<lparr>v_roles := (v_roles v)(role_Name r \<mapsto> r)\<rparr>)"
  "named v \<Longrightarrow> named (v\<lparr>v_users := (v_users v)(n := None)\<rparr>)"
  "named v \<Longrightarrow> named (v\<lparr>v_groups := (v_groups v)(n := None)\<rparr>)"
  "named v \<Longrightarrow> named (v\<lparr>v_policies := (v_policies v)(n := None)\<rparr>)"
  "named v \<Longrightarrow> named (v\<lparr>v_roles := (v_roles v)(n := None)\<rparr>)"
  by (simp_all add: named_def)

lemma named_user: "named v \<Longrightarrow> v_users v k = Some u \<Longrightarrow> user_Name u = k \<and> k \<noteq> ''''"
  and named_group: "named v \<Longrightarrow> v_groups v k = Some g \<Longrightarrow> group_Name g = k \<and> k \<noteq> ''''"
  and named_role: "named v \<Longrightarrow> v_roles v k = Some r \<Longrightarrow> role_Name r = k \<and> k \<noteq> ''''"
  by (simp_all add: named_def)

lemma members_other:
  "members (v\<lparr>v_policies := P\<rparr>) = members v" "members (v\<lparr>v_roles := R\<rparr>) = members v"
  by (simp_all add: members_def)

lemma inv_update_user:
  assumes "iam_inv v" "v_users v k = Some u" "user_Name u' = user_Name u"
    and "user_Groups u' = user_Groups u" "user_refs (v_policies v) u'"
  shows "iam_inv (v\<lparr>v_users := (v_users v)(user_Name u' \<mapsto> u')\<rparr>)"
proof -
  have n: "named v" "members v" "refs v" using assms(1) by (simp_all add: iam_inv_def)
  with assms(2,3) named_user have k: "user_Name u' = k" "k \<noteq> ''''" by auto
  have "members (v\<lparr>v_users := (v_users v)(k \<mapsto> u')\<rparr>)"
    using n(2) assms(2,4) in_group_Some [of "v_users v", OF assms(2)] by (simp add: members_def)
  moreover have "refs (v\<lparr>v_users := (v_users v)(k \<mapsto> u')\<rparr>)"
    using n(3) assms(5) by (simp add: refs_def)
  ultimately show ?thesis using named_upd(1) [OF n(1), of u'] k by (simp add: iam_inv_def)
qed

lemma inv_update_group:
  assumes "iam_inv v" "v_groups v k = Some g" "group_Name g' = group_Name g"
    and "group_Users g' = group_Users g" "set (group_AttachedPolicies g') \<subseteq> dom (v_policies v)"
  shows "iam_inv (v\<lparr>v_groups := (v_groups v)(group_Name g' \<mapsto> g')\<rparr>)"
proof -
  have n: "named v" "members v" "refs v" using assms(1) by (simp_all add: iam_inv_def)
  with assms(2,3) named_group have k: "group_Name g' = k" "k \<noteq> ''''" by auto
  have "members (v\<lparr>v_groups := (v_groups v)(k \<mapsto> g')\<rparr>)"
    using n(2) assms(2,4) has_member_Some [of "v_groups v", OF assms(2)] by (simp add: members_def)
  moreover have "refs (v\<lparr>v_groups := (v_groups v)(k \<mapsto> g')\<rparr>)"
    using n(3) assms(5) by (simp add: refs_def)
  ultimately show ?thesis using named_upd(2) [OF n(1), of g'] k by (simp add: iam_inv_def)
qed

lemma inv_put_role:
  assumes "iam_inv v" "role_Name r \<noteq> ''''" "set (role_PermissionPolicies r) \<subseteq> dom (v_policies v)"
  shows "iam_inv (v\<lparr>v_roles := (v_roles v)(role_Name r \<mapsto> r)\<rparr>)"
  using assms by (simp add: iam_inv_def named_upd members_other) (simp add: refs_def)

lemma inv_new_user:
  assumes "iam_inv v" "v_users v (user_Name u) = None" "user_Name u \<noteq> ''''"
    and "user_Groups u = []" "user_refs (v_policies v) u"
  shows "iam_inv (v\<lparr>v_users := (v_users v)(user_Name u \<mapsto> u)\<rparr>)"
proof -
  have n: "named v" "members v" "refs v" using assms(1) by (simp_all add: iam_inv_def)
  have "\<not> in_group (v_users v) (user_Name u) n" for n using assms(2) by (simp add: in_group_def)
  with n(2) assms(4) have "members (v\<lparr>v_users := (v_users v)(user_Name u \<mapsto> u)\<rparr>)"
    by (simp add: members_def)
  moreover have "refs (v\<lparr>v_users := (v_users v)(user_Name u \<mapsto> u)\<rparr>)"
    using n(3) assms(5) by (simp add: refs_def)
  ultimately show ?thesis using named_upd(1) [OF n(1) assms(3)] by (simp add: iam_inv_def)
qed

lemma inv_new_group:
  assumes "iam_inv v" "v_groups v (group_Name g) = None" "group_Name g \<noteq> ''''"
    and "group_Users g = []" "group_AttachedPolicies g = []"
  shows "iam_inv (v\<lparr>v_groups := (v_groups v)(group_Name g \<mapsto> g)\<rparr>)"
proof -
  have n: "named v" "members v" "refs v" using assms(1) by (simp_all add: iam_inv_def)
  have "\<not> has_member (v_groups v) (group_Name g) k" for k using assms(2) by (simp add: has_member_def)
  with n(2) assms(4) have "members (v\<lparr>v_groups := (v_groups v)(group_Name g \<mapsto> g)\<rparr>)"
    by (simp add: members_def)
  moreover have "refs (v\<lparr>v_groups := (v_groups v)(group_Name g \<mapsto> g)\<rparr>)"
    using n(3) assms(5) by (simp add: refs_def)
  ultimately show ?thesis using named_upd(2) [OF n(1) assms(3)] by (simp add: iam_inv_def)
qed

lemma user_refs_mono: "user_refs P u \<Longrightarrow> dom P \<subseteq> dom P' \<Longrightarrow> user_refs P' u"
  unfolding user_refs_def by blast

lemma inv_put_policy:
  assumes "iam_inv v" "policy_Name p \<noteq> ''''"
  shows "iam_inv (v\<lparr>v_policies := (v_policies v)(policy_Name p \<mapsto> p)\<rparr>)"
proof -
  let ?P = "(v_policies v)(policy_Name p \<mapsto> p)"
  have n: "named v" "members v" "refs v" using assms(1) by (simp_all add: iam_inv_def)
  have d: "dom (v_policies v) \<subseteq> dom ?P" by auto
  have "user_refs ?P x" if "v_users v k = Some x" for k x
    using that n(3) user_refs_mono [OF _ d] by (simp add: refs_def)
  moreover have "set (group_AttachedPolicies x) \<subseteq> dom ?P" if "v_groups v k = Some x" for k x
    using that n(3) subset_trans [OF _ d] unfolding refs_def by blast
  moreover have "set (role_PermissionPolicies x) \<subseteq> dom ?P" if "v_roles v k = Some x" for k x
    using that n(3) subset_trans [OF _ d] unfolding refs_def by blast
  ultimately have "refs (v\<lparr>v_policies := ?P\<rparr>)" unfolding refs_def by simp
  then show ?thesis using n named_upd(3) [OF n(1) assms(2)]
    by (simp add: iam_inv_def members_other)
qed

lemma inv_delete_policy:
  assumes "iam_inv v"
    and u: "\<And>k u. v_users v k = Some u \<Longrightarrow> n \<notin> set (user_AttachedPolicies u) \<and> user_PermissionBoundary u \<noteq> n"
    and g: "\<And>k g. v_groups v k = Some g \<Longrightarrow> n \<notin> set (group_AttachedPolicies g)"
    and r: "\<And>k r. v_roles v k = Some r \<Longrightarrow> n \<notin> set (role_PermissionPolicies r)"
  shows "iam_inv (v\<lparr>v_policies := (v_policies v)(n := None)\<rparr>)"
proof -
  let ?P = "(v_policies v)(n := None)"
  have n: "named v" "members v" "refs v" using assms(1) by (simp_all add: iam_inv_def)
  have d: "dom ?P = dom (v_policies v) - {n}" by auto
  have "user_refs ?P x" if "v_users v k = Some x" for k x
    using that n(3) u [OF that] unfolding refs_def user_refs_def d by blast
  moreover have "set (group_AttachedPolicies x) \<subseteq> dom ?P" if "v_groups v k = Some x" for k x
    using that n(3) g [OF that] unfolding refs_def d by blast
  moreover have "set (role_PermissionPolicies x) \<subseteq> dom ?P" if "v_roles v k = Some x" for k x
    using that n(3) r [OF that] unfolding refs_def d by blast
  ultimately have "refs (v\<lparr>v_policies := ?P\<rparr>)" unfolding refs_def by simp
  then show ?thesis using n named_upd(7) [OF n(1)] by (simp add: iam_inv_def members_other)
qed

lemma inv_delete_role:
  "iam_inv v \<Longrightarrow> iam_inv (v\<lparr>v_roles := (v_roles v)(n := None)\<rparr>)"
  by (simp add: iam_inv_def named_upd members_other) (simp add: refs_def)

lemma inv_delete_lonely_user:
  assumes "iam_inv v" "v_users v n = Some u" "user_Groups u = []"
  shows "iam_inv (v\<lparr>v_users := (v_users v)(n := None)\<rparr>)"
proof -
  have n: "named v" "members v" "refs v" using assms(1) by (simp_all add: iam_inv_def)
  have "\<not> in_group (v_users v) n k" for k using assms(2,3) by (simp add: in_group_def)
  with n(2) have "members (v\<lparr>v_users := (v_users v)(n := None)\<rparr>)"
    by (simp add: members_def) metis
  moreover have "refs (v\<lparr>v_users := (v_users v)(n := None)\<rparr>)"
    using n(3) by (simp add: refs_def)
  ultimately show ?thesis using named_upd(5) [OF n(1)] by (simp add: iam_inv_def)
qed

lemma inv_join:
  assumes "iam_inv v" "v_users v k = Some u" "v_groups v n = Some g"
    and "n \<notin> set (user_Groups u)" "k \<notin> set (group_Users g)"
    and "u' = u\<lparr>user_Groups := user_Groups u @ [n]\<rparr>" "g' = g\<lparr>group_Users := group_Users g @ [k]\<rparr>"
  shows "iam_inv (v\<lparr>v_users := (v_users v)(k \<mapsto> u'), v_groups := (v_groups v)(n \<mapsto> g')\<rparr>)"
proof -
  have p: "named v" "members v" "refs v" using assms(1) by (simp_all add: iam_inv_def)
  note mem = in_group_Some [of "v_users v", OF assms(2)] has_member_Some [of "v_groups v", OF assms(3)]
  let ?v = "v\<lparr>v_users := (v_users v)(k \<mapsto> u'), v_groups := (v_groups v)(n \<mapsto> g')\<rparr>"
  have "named ?v" using p(1) assms(2,3,6,7) by (auto simp: named_def)
  moreover have "members ?v"
    using p(2) assms(2-7) mem unfolding members_def by auto
  moreover have "refs ?v" using p(3) assms(2,3,6,7) unfolding refs_def user_refs_def by simp
  ultimately show ?thesis by (simp add: iam_inv_def)
qed

lemma inv_leave:
  assumes "iam_inv v" "v_users v k = Some u" "v_groups v n = Some g"
    and "u' = u\<lparr>user_Groups := removeString (user_Groups u) n\<rparr>"
    and "g' = g\<lparr>group_Users := removeString (group_Users g) k\<rparr>"
  shows "iam_inv (v\<lparr>v_users := (v_users v)(k \<mapsto> u'), v_groups := (v_groups v)(n \<mapsto> g')\<rparr>)"
proof -
  have p: "named v" "members v" "refs v" using assms(1) by (simp_all add: iam_inv_def)
  have d: "distinct (user_Groups u)" "distinct (group_Users g)"
    using p(2) assms(2,3) by (auto simp: members_def)
  note mem = in_group_Some [of "v_users v", OF assms(2)] has_member_Some [of "v_groups v", OF assms(3)]
  let ?v = "v\<lparr>v_users := (v_users v)(k \<mapsto> u'), v_groups := (v_groups v)(n \<mapsto> g')\<rparr>"
  have "named ?v" using p(1) assms(2-5) by (auto simp: named_def)
  moreover have "members ?v"
    using p(2) assms(2-5) d mem unfolding members_def by (auto simp: removeString_remove1)
  moreover have "refs ?v" using p(3) assms(2-5) unfolding refs_def user_refs_def by simp
  ultimately show ?thesis by (simp add: iam_inv_def)
qed

text \<open>The view after \<^verbatim>\<open>DeleteGroup\<close>: the group is gone, and no user lists it.\<close>

definition forget_group :: "string \<Rightarrow> IAMUser \<Rightarrow> IAMUser" where
  "forget_group n u = u\<lparr>user_Groups := removeString (user_Groups u) n\<rparr>"

lemma user_refs_forget [simp]: "user_refs P (forget_group n u) = user_refs P u"
  by (simp add: user_refs_def forget_group_def)

lemma inv_drop_group:
  assumes "iam_inv v" "v_groups v n = Some g"
    and "U = (\<lambda>k. if k \<in> set (group_Users g) then map_option (forget_group n) (v_users v k) else v_users v k)"
  shows "iam_inv (v\<lparr>v_users := U, v_groups := (v_groups v)(n := None)\<rparr>)"
proof -
  have p: "named v" "members v" "refs v" using assms(1) by (simp_all add: iam_inv_def)
  have mem: "in_group (v_users v) k n \<longleftrightarrow> k \<in> set (group_Users g)" for k
    using p(2) assms(2) by (simp add: members_def has_member_Some)
  have U: "in_group U k m \<longleftrightarrow> in_group (v_users v) k m \<and> m \<noteq> n" for k m
  proof (cases "v_users v k")
    case None
    then show ?thesis by (simp add: assms(3) in_group_def)
  next
    case (Some u)
    with p(2) have "distinct (user_Groups u)" by (simp add: members_def)
    with Some mem [of k] show ?thesis
      by (auto simp: assms(3) in_group_def forget_group_def removeString_remove1)
  qed
  have "\<exists>u0. v_users v k = Some u0 \<and> (u = u0 \<or> u = forget_group n u0)" if "U k = Some u" for k u
    using that by (auto simp: assms(3) split: if_splits)
  note cases = this
  let ?v = "v\<lparr>v_users := U, v_groups := (v_groups v)(n := None)\<rparr>"
  have "user_Name u = k \<and> k \<noteq> '''' \<and> distinct (user_Groups u) \<and> user_refs (v_policies v) u"
    if "U k = Some u" for k u
    using cases [OF that] p
    by (auto simp: named_def members_def refs_def)
      (auto simp: forget_group_def removeString_remove1)
  with p U show ?thesis
    by (simp add: iam_inv_def named_def members_def refs_def) blast
qed

section \<open>Operations that keep the invariant\<close>

abbreviation consistent :: "'db bolt \<Rightarrow> 'db IAMStore \<Rightarrow> bool" where
  "consistent B s \<equiv> iam_inv (view B s)"

text \<open>A write that changes a stored user, a new user, and so on, whether it succeeds or not.\<close>

lemma keep_user:
  assumes "bolt_ok B" "consistent B s" "GetUser B s k = Inr u" "user_Name u' = user_Name u"
    and "user_Groups u' = user_Groups u" "user_refs (v_policies (view B s)) u'"
  shows "consistent B (fst (PutUser B s u'))"
proof -
  obtain s' r where p: "PutUser B s u' = (s', r)" by fastforce
  show ?thesis
    using view_PutUser [OF assms(1) p] inv_update_user [OF assms(2) _ assms(4-6)] assms(2,3) p
    by auto
qed

lemma keep_group:
  assumes "bolt_ok B" "consistent B s" "GetGroup B s k = Inr g" "group_Name g' = group_Name g"
    and "group_Users g' = group_Users g"
    and "set (group_AttachedPolicies g') \<subseteq> dom (v_policies (view B s))"
  shows "consistent B (fst (PutGroup B s g'))"
proof -
  obtain s' r where p: "PutGroup B s g' = (s', r)" by fastforce
  show ?thesis
    using view_PutGroup [OF assms(1) p] inv_update_group [OF assms(2) _ assms(4-6)] assms(2,3) p
    by auto
qed

lemma keep_role:
  assumes "bolt_ok B" "consistent B s"
    and "set (role_PermissionPolicies x) \<subseteq> dom (v_policies (view B s))"
  shows "consistent B (fst (PutRole B s x))"
proof -
  obtain s' r where p: "PutRole B s x = (s', r)" by fastforce
  show ?thesis
    using view_PutRole [OF assms(1) p] inv_put_role [OF assms(2) _ assms(3)] assms(2) p by auto
qed

lemma keep_new_user:
  assumes "bolt_ok B" "consistent B s" "GetUser B s (user_Name u) = Inl e"
    and "user_Groups u = []" "user_refs (v_policies (view B s)) u"
  shows "consistent B (fst (PutUser B s u))"
proof -
  obtain s' r where p: "PutUser B s u = (s', r)" by fastforce
  have "v_users (view B s) (user_Name u) = None" using assms(3) by (simp add: view_def)
  then show ?thesis
    using view_PutUser [OF assms(1) p] inv_new_user [OF assms(2) _ _ assms(4,5)] assms(2) p by auto
qed

lemma keep_new_group:
  assumes "bolt_ok B" "consistent B s" "GetGroup B s (group_Name g) = Inl e"
    and "group_Users g = []" "group_AttachedPolicies g = []"
  shows "consistent B (fst (PutGroup B s g))"
proof -
  obtain s' r where p: "PutGroup B s g = (s', r)" by fastforce
  have "v_groups (view B s) (group_Name g) = None" using assms(3) by (simp add: view_def)
  then show ?thesis
    using view_PutGroup [OF assms(1) p] inv_new_group [OF assms(2) _ _ assms(4,5)] assms(2) p by auto
qed

lemma keep_policy:
  assumes "bolt_ok B" "consistent B s"
  shows "consistent B (fst (PutPolicy B s x))"
proof -
  obtain s' r where p: "PutPolicy B s x = (s', r)" by fastforce
  show ?thesis
    using view_PutPolicy [OF assms(1) p] inv_put_policy [OF assms(2)] assms(2) p by auto
qed

lemma stored_user_refs:
  "consistent B s \<Longrightarrow> GetUser B s k = Inr u \<Longrightarrow> user_refs (v_policies (view B s)) u"
  by (simp add: iam_inv_def refs_def)

lemma group_ref:
  "consistent B s \<Longrightarrow> GetGroup B s k = Inr g \<Longrightarrow> p \<in> set (group_AttachedPolicies g) \<Longrightarrow>
   \<exists>d. GetPolicy B s p = Inr d"
  unfolding iam_inv_def refs_def by (simp add: subset_eq dom_def)

lemma role_ref:
  "consistent B s \<Longrightarrow> GetRole B s k = Inr r \<Longrightarrow> p \<in> set (role_PermissionPolicies r) \<Longrightarrow>
   \<exists>d. GetPolicy B s p = Inr d"
  unfolding iam_inv_def refs_def by (simp add: subset_eq dom_def)

lemma in_set_remove1D: "x \<in> set (remove1 p xs) \<Longrightarrow> x \<in> set xs"
  by (meson notin_set_remove1)

lemma user_refs_upd:
  "user_refs P (u\<lparr>user_AccessKeys := a\<rparr>) = user_refs P u"
  "user_refs P (u\<lparr>user_InlinePolicies := i\<rparr>) = user_refs P u"
  "user_refs P u \<Longrightarrow> P p = Some d \<Longrightarrow>
   user_refs P (u\<lparr>user_AttachedPolicies := user_AttachedPolicies u @ [p]\<rparr>)"
  "user_refs P u \<Longrightarrow> user_refs P (u\<lparr>user_AttachedPolicies := removeString (user_AttachedPolicies u) p\<rparr>)"
  "user_refs P u \<Longrightarrow> P p = Some d \<Longrightarrow> user_refs P (u\<lparr>user_PermissionBoundary := p\<rparr>)"
  "user_refs P u \<Longrightarrow> user_refs P (u\<lparr>user_PermissionBoundary := ''''\<rparr>)"
  using set_remove1_subset [of p "user_AttachedPolicies u"]
  by (auto simp: user_refs_def removeString_remove1 dom_def)

text \<open>The operations that write one record.\<close>

lemma fst_case_sum [simp]:
  "fst (case p of (s', Inl e) \<Rightarrow> (s', f e) | (s', Inr x) \<Rightarrow> (s', g x)) = fst p"
  by (simp split: prod.splits sum.splits)

lemma CreateUser_keeps:
  "bolt_ok B \<Longrightarrow> consistent B s \<Longrightarrow> consistent B (fst (CreateUser B clk rnd s n d))"
  by (auto simp: CreateUser_def Let_def user_refs_def split: sum.splits intro!: keep_new_user)

lemma CreateAccessKey_keeps:
  "bolt_ok B \<Longrightarrow> consistent B s \<Longrightarrow> consistent B (fst (CreateAccessKey B A mk clk rnd nonce s n d))"
  by (auto simp: CreateAccessKey_def Let_def user_refs_upd stored_user_refs split: sum.splits
      intro!: keep_user)

lemma DeleteAccessKey_keeps:
  "bolt_ok B \<Longrightarrow> consistent B s \<Longrightarrow> consistent B (fst (DeleteAccessKey B s n k))"
  by (auto simp: DeleteAccessKey_def user_refs_upd stored_user_refs split: sum.splits option.splits
      intro!: keep_user)

lemma setAccessKeyStatus_keeps:
  "bolt_ok B \<Longrightarrow> consistent B s \<Longrightarrow> consistent B (fst (setAccessKeyStatus B s n k st))"
  by (auto simp: setAccessKeyStatus_def user_refs_upd stored_user_refs split: sum.splits option.splits
      intro!: keep_user)

lemma CreateGroup_keeps:
  "bolt_ok B \<Longrightarrow> consistent B s \<Longrightarrow> consistent B (fst (CreateGroup B clk s n d))"
  by (auto simp: CreateGroup_def Let_def split: sum.splits intro!: keep_new_group)

lemma CreatePolicy_keeps:
  "bolt_ok B \<Longrightarrow> consistent B s \<Longrightarrow> consistent B (fst (CreatePolicy B clk s n d doc))"
  by (auto simp: CreatePolicy_def Let_def split: sum.splits intro!: keep_policy)

lemma AttachUserPolicy_keeps:
  "bolt_ok B \<Longrightarrow> consistent B s \<Longrightarrow> consistent B (fst (AttachUserPolicy B s n p))"
  by (auto simp: AttachUserPolicy_def split: sum.splits
      intro!: keep_user user_refs_upd(3) intro: stored_user_refs)

lemma DetachUserPolicy_keeps:
  "bolt_ok B \<Longrightarrow> consistent B s \<Longrightarrow> consistent B (fst (DetachUserPolicy B s n p))"
  by (auto simp: DetachUserPolicy_def split: sum.splits
      intro!: keep_user user_refs_upd stored_user_refs)

lemma PutUserInlinePolicy_keeps:
  "bolt_ok B \<Longrightarrow> consistent B s \<Longrightarrow> consistent B (fst (PutUserInlinePolicy B s n p doc))"
  by (auto simp: PutUserInlinePolicy_def user_refs_upd stored_user_refs split: sum.splits
      intro!: keep_user)

lemma DeleteUserInlinePolicy_keeps:
  "bolt_ok B \<Longrightarrow> consistent B s \<Longrightarrow> consistent B (fst (DeleteUserInlinePolicy B s n p))"
  by (auto simp: DeleteUserInlinePolicy_def user_refs_upd stored_user_refs
      split: sum.splits option.splits intro!: keep_user)

lemma SetPermissionBoundary_keeps:
  "bolt_ok B \<Longrightarrow> consistent B s \<Longrightarrow> consistent B (fst (SetPermissionBoundary B s n p))"
  by (auto simp: SetPermissionBoundary_def split: sum.splits
      intro!: keep_user user_refs_upd(5) intro: stored_user_refs)

lemma RemovePermissionBoundary_keeps:
  "bolt_ok B \<Longrightarrow> consistent B s \<Longrightarrow> consistent B (fst (RemovePermissionBoundary B s n))"
  by (auto simp: RemovePermissionBoundary_def split: sum.splits
      intro!: keep_user user_refs_upd stored_user_refs)

lemma AttachGroupPolicy_keeps:
  "bolt_ok B \<Longrightarrow> consistent B s \<Longrightarrow> consistent B (fst (AttachGroupPolicy B s n p))"
  by (auto simp: AttachGroupPolicy_def dom_def split: sum.splits
      intro!: keep_group intro: group_ref)

lemma DetachGroupPolicy_keeps:
  "bolt_ok B \<Longrightarrow> consistent B s \<Longrightarrow> consistent B (fst (DetachGroupPolicy B s n p))"
  by (auto simp: DetachGroupPolicy_def removeString_remove1 split: sum.splits
      intro!: keep_group intro: group_ref [OF _ _ in_set_remove1D])

lemma CreateRole_keeps:
  "bolt_ok B \<Longrightarrow> consistent B s \<Longrightarrow> consistent B (fst (CreateRole B clk s n d doc m))"
  by (auto simp: CreateRole_def Let_def split: sum.splits intro!: keep_role)

lemma AttachRolePolicy_keeps:
  "bolt_ok B \<Longrightarrow> consistent B s \<Longrightarrow> consistent B (fst (AttachRolePolicy B s n p))"
  by (auto simp: AttachRolePolicy_def dom_def split: sum.splits
      intro!: keep_role intro: role_ref)

lemma DetachRolePolicy_keeps:
  "bolt_ok B \<Longrightarrow> consistent B s \<Longrightarrow> consistent B (fst (DetachRolePolicy B s n p))"
  by (auto simp: DetachRolePolicy_def removeString_remove1 split: sum.splits
      intro!: keep_role intro: role_ref [OF _ _ in_set_remove1D])

lemma svc_DeleteRole_keeps:
  assumes "bolt_ok B" "consistent B s"
  shows "consistent B (fst (svc_DeleteRole B s n))"
proof -
  obtain s' r where p: "DeleteRole B s n = (s', r)" by fastforce
  show ?thesis
    using view_DeleteRole [OF assms(1) p] inv_delete_role [OF assms(2)] assms(2) p
    by (auto simp: svc_DeleteRole_def)
qed

lemma svc_PutBucketPolicy_keeps:
  "bolt_ok B \<Longrightarrow> consistent B s \<Longrightarrow> consistent B (fst (svc_PutBucketPolicy B clk s b doc))"
  using view_other_bucket [of B s bucketBucketPolicy b]
  by (metis PutBucketPolicy_def BucketPolicy.select_convs(1) prod.collapse svc_PutBucketPolicy_def)

lemma svc_DeleteBucketPolicy_keeps:
  "bolt_ok B \<Longrightarrow> consistent B s \<Longrightarrow> consistent B (fst (svc_DeleteBucketPolicy B s b))"
  using view_other_bucket [of B s bucketBucketPolicy b]
  by (metis DeleteBucketPolicy_def prod.collapse svc_DeleteBucketPolicy_def)

lemma issue_credential_view:
  assumes "bolt_ok B"
  shows "view B (fst (issue_credential B now rnd s d)) = view B s"
  using view_other_bucket [OF assms, of s bucketTempCreds]
  unfolding issue_credential_def Let_def fst_case_sum PutTempCredential_def by (metis prod.collapse)

lemma GetSessionToken_keeps:
  "bolt_ok B \<Longrightarrow> consistent B s \<Longrightarrow> consistent B (fst (GetSessionToken B clk rnd s c d))"
  by (simp add: GetSessionToken_def Let_def issue_credential_view)

lemma GetFederationToken_keeps:
  "bolt_ok B \<Longrightarrow> consistent B s \<Longrightarrow> consistent B (fst (GetFederationToken B clk rnd s n c d p))"
  by (simp add: GetFederationToken_def Let_def issue_credential_view)

lemma AssumeRole_view:
  assumes "bolt_ok B" "AssumeRole S B clk rnd s req c = Some (s', r)"
  shows "view B s' = view B s"
proof -
  have "s' = s \<or> (\<exists>d. issue_credential B (clk 1) rnd s d = (s', r))"
    using assms(2) by (auto simp: AssumeRole_def Let_def split: if_splits sum.splits option.splits)
  then show ?thesis using issue_credential_view [OF assms(1)] by (metis fst_conv)
qed

text \<open>\<^verbatim>\<open>DeletePolicy\<close> finds every reference before it deletes.\<close>

lemma check_users_ok:
  "check_users R n us = Inr () \<longleftrightarrow>
   (\<forall>u \<in> set us. set (user_AttachedPolicies u) \<inter> R = {} \<and> user_PermissionBoundary u \<notin> R)"
  by (induction us) (auto simp: hasPolicyRef_def list_ex_iff)

lemma check_groups_ok:
  "check_groups R n gs = Inr () \<longleftrightarrow> (\<forall>g \<in> set gs. set (group_AttachedPolicies g) \<inter> R = {})"
  by (induction gs) (auto simp: hasPolicyRef_def list_ex_iff)

lemma check_roles_ok:
  "check_roles R n rs = Inr () \<longleftrightarrow> (\<forall>r \<in> set rs. set (role_PermissionPolicies r) \<inter> R = {})"
  by (induction rs) (auto simp: hasPolicyRef_def list_ex_iff)

lemma unattached:
  assumes "bolt_ok B" "ensurePolicyNotAttached B s n = Inr ()"
  shows "GetUser B s k = Inr u \<Longrightarrow> n \<notin> set (user_AttachedPolicies u) \<and> user_PermissionBoundary u \<noteq> n"
    and "GetGroup B s k = Inr g \<Longrightarrow> n \<notin> set (group_AttachedPolicies g)"
    and "GetRole B s k = Inr r \<Longrightarrow> n \<notin> set (role_PermissionPolicies r)"
proof -
  let ?R = "{n, MakePolicyARN n}"
  from assms(2) obtain us gs rs
    where l: "ListUsers B s = Inr us" "ListGroups B s = Inr gs" "ListRoles B s = Inr rs"
    and c: "check_users ?R n us = Inr ()" "check_groups ?R n gs = Inr ()" "check_roles ?R n rs = Inr ()"
    by (auto simp: ensurePolicyNotAttached_def Let_def split: sum.splits)
  show "n \<notin> set (user_AttachedPolicies u) \<and> user_PermissionBoundary u \<noteq> n" if "GetUser B s k = Inr u"
    using that c(1) users.lst_get [OF assms(1) l(1)] unfolding check_users_ok by blast
  show "n \<notin> set (group_AttachedPolicies g)" if "GetGroup B s k = Inr g"
    using that c(2) groups.lst_get [OF assms(1) l(2)] unfolding check_groups_ok by blast
  show "n \<notin> set (role_PermissionPolicies r)" if "GetRole B s k = Inr r"
    using that c(3) roles.lst_get [OF assms(1) l(3)] unfolding check_roles_ok by blast
qed

lemma svc_DeletePolicy_keeps:
  assumes "bolt_ok B" "consistent B s"
  shows "consistent B (fst (svc_DeletePolicy B s n))"
proof (cases "ensurePolicyNotAttached B s n")
  case (Inl e)
  then show ?thesis using assms(2) by (simp add: svc_DeletePolicy_def)
next
  case (Inr x)
  then have ok: "ensurePolicyNotAttached B s n = Inr ()" by simp
  obtain s' r where p: "DeletePolicy B s n = (s', r)" by fastforce
  have "iam_inv ((view B s)\<lparr>v_policies := (v_policies (view B s))(n := None)\<rparr>)"
    using unattached [OF assms(1) ok] by (intro inv_delete_policy [OF assms(2)]) auto
  then show ?thesis
    using view_DeletePolicy [OF assms(1) p] assms(2) p ok by (auto simp: svc_DeletePolicy_def)
qed

section \<open>Operations with several writes\<close>

lemma not_isl_Inr: "\<not> isl r \<Longrightarrow> \<exists>v. r = Inr v"
  by (cases r) auto

lemma PutUser_succeeds:
  assumes "bolt_ok B" "no_write_errors B" "user_Name u \<noteq> ''''"
  obtains s' where "PutUser B s u = (s', Inr ())"
    "view B s' = (view B s)\<lparr>v_users := (v_users (view B s))(user_Name u \<mapsto> u)\<rparr>"
proof -
  from assms(2,3) obtain db' where "bolt_put B (store_db s) bucketUsers (user_Name u) (DUser u) = Inr db'"
    unfolding no_write_errors_def by (meson not_isl_Inr)
  then have p: "PutUser B s u = (s\<lparr>store_db := db'\<rparr>, Inr ())"
    by (simp add: PutUser_def store_put_def)
  then show thesis
    using that users.get_put [OF assms(1) p] frame_PutUser [OF assms(1) p]
    by (force simp: view_def fun_eq_iff)
qed

lemma PutGroup_succeeds:
  assumes "bolt_ok B" "no_write_errors B" "group_Name g \<noteq> ''''"
  obtains s' where "PutGroup B s g = (s', Inr ())"
    "view B s' = (view B s)\<lparr>v_groups := (v_groups (view B s))(group_Name g \<mapsto> g)\<rparr>"
proof -
  from assms(2,3) obtain db' where "bolt_put B (store_db s) bucketGroups (group_Name g) (DGroup g) = Inr db'"
    unfolding no_write_errors_def by (meson not_isl_Inr)
  then have p: "PutGroup B s g = (s\<lparr>store_db := db'\<rparr>, Inr ())"
    by (simp add: PutGroup_def store_put_def)
  then show thesis
    using that groups.get_put [OF assms(1) p] frame_PutGroup [OF assms(1) p]
    by (force simp: view_def fun_eq_iff)
qed

lemma stored_names:
  "consistent B s \<Longrightarrow> GetUser B s k = Inr u \<Longrightarrow> user_Name u = k \<and> k \<noteq> ''''"
  "consistent B s \<Longrightarrow> GetGroup B s n = Inr g \<Longrightarrow> group_Name g = n \<and> n \<noteq> ''''"
  by (simp_all add: iam_inv_def named_def)

lemma stored_membership:
  "consistent B s \<Longrightarrow> GetUser B s k = Inr u \<Longrightarrow> GetGroup B s n = Inr g \<Longrightarrow>
   n \<in> set (user_Groups u) \<longleftrightarrow> k \<in> set (group_Users g)"
  by (metis in_group_Some has_member_Some iam_inv_def members_def view_read(1,2))

lemma AddUserToGroup_view:
  assumes "bolt_ok B" "no_write_errors B" "consistent B s"
    and u: "GetUser B s k = Inr u" and g: "GetGroup B s n = Inr g" and "n \<notin> set (user_Groups u)"
  shows "view B (fst (AddUserToGroup B s k n)) = (view B s)
      \<lparr>v_users := (v_users (view B s))(k \<mapsto> u\<lparr>user_Groups := user_Groups u @ [n]\<rparr>),
       v_groups := (v_groups (view B s))(n \<mapsto> g\<lparr>group_Users := group_Users g @ [k]\<rparr>)\<rparr>"
proof -
  note names = stored_names(1) [OF assms(3) u] stored_names(2) [OF assms(3) g]
  have k: "k \<notin> set (group_Users g)" using stored_membership [OF assms(3) u g] assms(6) by simp
  obtain s1 where s1: "PutUser B s (u\<lparr>user_Groups := user_Groups u @ [n]\<rparr>) = (s1, Inr ())"
    "view B s1 = (view B s)\<lparr>v_users := (v_users (view B s))(k \<mapsto> u\<lparr>user_Groups := user_Groups u @ [n]\<rparr>)\<rparr>"
    using PutUser_succeeds [OF assms(1,2), of "u\<lparr>user_Groups := user_Groups u @ [n]\<rparr>" s] names by auto
  obtain s2 where s2: "PutGroup B s1 (g\<lparr>group_Users := group_Users g @ [k]\<rparr>) = (s2, Inr ())"
    "view B s2 = (view B s1)\<lparr>v_groups := (v_groups (view B s1))(n \<mapsto> g\<lparr>group_Users := group_Users g @ [k]\<rparr>)\<rparr>"
    using PutGroup_succeeds [OF assms(1,2), of "g\<lparr>group_Users := group_Users g @ [k]\<rparr>" s1] names by auto
  show ?thesis using u g assms(6) k s1 s2 by (simp add: AddUserToGroup_def)
qed

lemma AddUserToGroup_keeps:
  assumes "bolt_ok B" "no_write_errors B" "consistent B s"
  shows "consistent B (fst (AddUserToGroup B s k n))"
proof (cases "GetUser B s k")
  case (Inl e)
  then show ?thesis using assms(3) by (simp add: AddUserToGroup_def)
next
  case u: (Inr u)
  show ?thesis
  proof (cases "GetGroup B s n")
    case (Inl e)
    then show ?thesis using u assms(3) by (simp add: AddUserToGroup_def)
  next
    case g: (Inr g)
    note m = stored_membership [OF assms(3) u g]
    show ?thesis
    proof (cases "n \<in> set (user_Groups u)")
      case True
      then show ?thesis using u g m assms(3) by (simp add: AddUserToGroup_def)
    next
      case False
      then show ?thesis
        using AddUserToGroup_view [OF assms u g] m u g inv_join [OF assms(3)] by simp
    qed
  qed
qed

lemma RemoveUserFromGroup_view:
  assumes "bolt_ok B" "no_write_errors B" "consistent B s"
    and u: "GetUser B s k = Inr u" and g: "GetGroup B s n = Inr g"
  shows "view B (fst (RemoveUserFromGroup B s k n)) = (view B s)
      \<lparr>v_users := (v_users (view B s))(k \<mapsto> u\<lparr>user_Groups := removeString (user_Groups u) n\<rparr>),
       v_groups := (v_groups (view B s))(n \<mapsto> g\<lparr>group_Users := removeString (group_Users g) k\<rparr>)\<rparr>"
proof -
  let ?u = "u\<lparr>user_Groups := removeString (user_Groups u) n\<rparr>"
  let ?g = "g\<lparr>group_Users := removeString (group_Users g) k\<rparr>"
  note names = stored_names(1) [OF assms(3) u] stored_names(2) [OF assms(3) g]
  obtain s1 where s1: "PutUser B s ?u = (s1, Inr ())"
    "view B s1 = (view B s)\<lparr>v_users := (v_users (view B s))(k \<mapsto> ?u)\<rparr>"
    using PutUser_succeeds [OF assms(1,2), of ?u s] names by auto
  obtain s2 where s2: "PutGroup B s1 ?g = (s2, Inr ())"
    "view B s2 = (view B s1)\<lparr>v_groups := (v_groups (view B s1))(n \<mapsto> ?g)\<rparr>"
    using PutGroup_succeeds [OF assms(1,2), of ?g s1] names by auto
  show ?thesis using u g s1 s2 by (simp add: RemoveUserFromGroup_def)
qed

lemma RemoveUserFromGroup_keeps:
  assumes "bolt_ok B" "no_write_errors B" "consistent B s"
  shows "consistent B (fst (RemoveUserFromGroup B s k n))"
proof (cases "isl (GetUser B s k) \<or> isl (GetGroup B s n)")
  case True
  then show ?thesis using assms(3) by (auto simp: RemoveUserFromGroup_def split: sum.splits)
next
  case False
  then obtain u g where u: "GetUser B s k = Inr u" and g: "GetGroup B s n = Inr g"
    by (meson not_isl_Inr)
  then show ?thesis
    using RemoveUserFromGroup_view [OF assms u g] inv_leave [OF assms(3)] by simp
qed

text \<open>\<^verbatim>\<open>DeleteUser\<close> leaves the groups one by one; every group it names exists.\<close>

lemma leave_groups_view:
  assumes "bolt_ok B" "no_write_errors B" "consistent B s" "GetUser B s k = Inr u" "user_Groups u = gs"
  shows "consistent B (leave_groups B k gs s) \<and>
    (\<exists>u'. GetUser B (leave_groups B k gs s) k = Inr u' \<and> user_Groups u' = [])"
  using assms(3-5)
proof (induction gs arbitrary: s u)
  case Nil
  then show ?case by (auto simp: leave_groups_def)
next
  case (Cons n gs)
  let ?s = "fst (RemoveUserFromGroup B s k n)"
  have "in_group (v_users (view B s)) k n" using Cons.prems by (simp add: in_group_Some)
  then have "has_member (v_groups (view B s)) n k" using Cons.prems(1) by (simp add: iam_inv_def members_def)
  then obtain g where g: "GetGroup B s n = Inr g" by (auto simp: has_member_def split: option.splits)
  note v = RemoveUserFromGroup_view [OF assms(1,2) Cons.prems(1,2) g]
  have "v_users (view B ?s) k = Some (u\<lparr>user_Groups := removeString (user_Groups u) n\<rparr>)"
    unfolding v by simp
  then have u: "GetUser B ?s k = Inr (u\<lparr>user_Groups := gs\<rparr>)" using Cons.prems(3) by simp
  show ?case
    using Cons.IH [OF RemoveUserFromGroup_keeps [OF assms(1,2) Cons.prems(1)] u]
    by (simp add: leave_groups_def)
qed

lemma svc_DeleteUser_keeps:
  assumes "bolt_ok B" "no_write_errors B" "consistent B s"
  shows "consistent B (fst (svc_DeleteUser B s k))"
proof (cases "GetUser B s k")
  case (Inl e)
  then show ?thesis using assms(3) by (simp add: svc_DeleteUser_def)
next
  case (Inr u)
  let ?s = "leave_groups B k (user_Groups u) s"
  obtain u' where c: "consistent B ?s" and u': "GetUser B ?s k = Inr u'" "user_Groups u' = []"
    using leave_groups_view [OF assms Inr refl] by blast
  obtain s' r where p: "DeleteUser B ?s k = (s', r)" by fastforce
  have "iam_inv ((view B ?s)\<lparr>v_users := (v_users (view B ?s))(k := None)\<rparr>)"
    using inv_delete_lonely_user [OF c _ u'(2)] u'(1) by simp
  then show ?thesis
    using view_DeleteUser [OF assms(1) p] c p Inr by (auto simp: svc_DeleteUser_def)
qed

lemma drop_group_view:
  assumes "bolt_ok B" "no_write_errors B" "named (view B s)" "distinct ks"
  shows "view B (drop_group_from_users B s n ks) = (view B s)\<lparr>v_users :=
     (\<lambda>k. if k \<in> set ks then map_option (forget_group n) (v_users (view B s) k) else v_users (view B s) k)\<rparr>"
  using assms(3,4)
proof (induction ks arbitrary: s)
  case Nil
  then show ?case by simp
next
  case (Cons k ks)
  show ?case
  proof (cases "GetUser B s k")
    case (Inl e)
    then have "v_users (view B s) k = None" by (simp add: view_def)
    with Inl Cons show ?thesis by (auto simp: fun_eq_iff intro!: iam_view.fold_congs)
  next
    case (Inr u)
    let ?u = "forget_group n u"
    have k: "user_Name ?u = k" "k \<noteq> ''''"
      using named_user [OF Cons.prems(1)] Inr by (auto simp: forget_group_def)
    obtain s1 where s1: "PutUser B s ?u = (s1, Inr ())"
      "view B s1 = (view B s)\<lparr>v_users := (v_users (view B s))(k \<mapsto> ?u)\<rparr>"
      using PutUser_succeeds [OF assms(1,2), of ?u s] k by auto
    have "named (view B s1)" using named_upd(1) [OF Cons.prems(1), of ?u] k s1(2) by simp
    moreover have vu: "v_users (view B s) k = Some u" using Inr by simp
    ultimately show ?thesis
      using Cons.IH [of s1] Cons.prems(2) s1 Inr
      by (auto simp del: view_read simp: vu forget_group_def fun_eq_iff intro!: iam_view.fold_congs)
  qed
qed

lemma svc_DeleteGroup_keeps:
  assumes "bolt_ok B" "no_write_errors B" "consistent B s"
  shows "consistent B (fst (svc_DeleteGroup B s n))"
proof (cases "GetGroup B s n")
  case (Inl e)
  then show ?thesis using assms(3) by (simp add: svc_DeleteGroup_def)
next
  case (Inr g)
  let ?s = "drop_group_from_users B s n (group_Users g)"
  obtain db' where "bolt_delete B (store_db ?s) bucketGroups n = Inr db'"
    using assms(2) unfolding no_write_errors_def by (meson not_isl_Inr)
  then obtain s' where p: "DeleteGroup B ?s n = (s', Inr ())" by (simp add: DeleteGroup_def store_delete_def)
  have "view B s' = (view B ?s)\<lparr>v_groups := (v_groups (view B ?s))(n := None)\<rparr>"
    using groups.get_del_same [OF assms(1) p] groups.get_del_other [OF assms(1) p]
      frame_DeleteGroup [OF assms(1) p]
    by (auto simp: view_def fun_eq_iff ok_part_None)
  moreover have "named (view B s)" "distinct (group_Users g)"
    using assms(3) Inr by (auto simp: iam_inv_def members_def)
  ultimately show ?thesis
    using drop_group_view [OF assms(1,2)] inv_drop_group [OF assms(3) _ refl] Inr p
    by (simp add: svc_DeleteGroup_def)
qed

lemma setup_admin_keeps:
  "bolt_ok B \<Longrightarrow> consistent B s \<Longrightarrow> consistent B (fst (setup_admin B A mk clk rnd nonce s))"
  using CreateAccessKey_keeps [of B s A mk "\<lambda>i. clk (i + 1)" "\<lambda>i. rnd (i + 1)" nonce "''admin''"
      "''Initial admin key''"]
  unfolding setup_admin_def Let_def
  by (auto split: prod.splits sum.splits intro!: AttachUserPolicy_keeps CreatePolicy_keeps)

lemma InitializeAdmin_keeps:
  "bolt_ok B \<Longrightarrow> consistent B s \<Longrightarrow> consistent B (fst (InitializeAdmin B A mk clk rnd nonce s))"
  using CreateUser_keeps [of B s clk rnd "''admin''" "''Administrator''"]
  unfolding InitializeAdmin_def
  by (auto split: prod.splits sum.splits intro!: setup_admin_keeps)

section \<open>The service as a transition system\<close>

text \<open>
  One rule per operation of the service that can write. The service starts on a database
  without identities; operations are atomic, as the store's lock makes them for the callers
  that do not overlap.
\<close>

inductive iam_step :: "'db bolt \<Rightarrow> 'db IAMStore \<Rightarrow> 'db IAMStore \<Rightarrow> bool" for B where
  step_create_user: "iam_step B s (fst (CreateUser B clk rnd s n d))"
| step_delete_user: "iam_step B s (fst (svc_DeleteUser B s n))"
| step_create_key: "iam_step B s (fst (CreateAccessKey B A mk clk rnd nonce s n d))"
| step_delete_key: "iam_step B s (fst (DeleteAccessKey B s n k))"
| step_activate_key: "iam_step B s (fst (ActivateAccessKey B s n k))"
| step_deactivate_key: "iam_step B s (fst (DeactivateAccessKey B s n k))"
| step_create_group: "iam_step B s (fst (CreateGroup B clk s n d))"
| step_delete_group: "iam_step B s (fst (svc_DeleteGroup B s n))"
| step_join: "iam_step B s (fst (AddUserToGroup B s n g))"
| step_leave: "iam_step B s (fst (RemoveUserFromGroup B s n g))"
| step_create_policy: "iam_step B s (fst (CreatePolicy B clk s n d doc))"
| step_delete_policy: "iam_step B s (fst (svc_DeletePolicy B s n))"
| step_attach_user: "iam_step B s (fst (AttachUserPolicy B s n p))"
| step_detach_user: "iam_step B s (fst (DetachUserPolicy B s n p))"
| step_attach_group: "iam_step B s (fst (AttachGroupPolicy B s n p))"
| step_detach_group: "iam_step B s (fst (DetachGroupPolicy B s n p))"
| step_put_inline: "iam_step B s (fst (PutUserInlinePolicy B s n p doc))"
| step_delete_inline: "iam_step B s (fst (DeleteUserInlinePolicy B s n p))"
| step_set_boundary: "iam_step B s (fst (SetPermissionBoundary B s n p))"
| step_remove_boundary: "iam_step B s (fst (RemovePermissionBoundary B s n))"
| step_create_role: "iam_step B s (fst (CreateRole B clk s n d doc m))"
| step_delete_role: "iam_step B s (fst (svc_DeleteRole B s n))"
| step_attach_role: "iam_step B s (fst (AttachRolePolicy B s n p))"
| step_detach_role: "iam_step B s (fst (DetachRolePolicy B s n p))"
| step_put_bucket_policy: "iam_step B s (fst (svc_PutBucketPolicy B clk s b doc))"
| step_delete_bucket_policy: "iam_step B s (fst (svc_DeleteBucketPolicy B s b))"
| step_assume_role: "AssumeRole S B clk rnd s req c = Some (s', r) \<Longrightarrow> iam_step B s s'"
| step_session_token: "iam_step B s (fst (GetSessionToken B clk rnd s c m))"
| step_federation_token: "iam_step B s (fst (GetFederationToken B clk rnd s n c m p'))"
| step_set_scp: "iam_step B s (fst (SetSCP s scp))"
| step_remove_scp: "iam_step B s (RemoveSCP s)"
| step_initialize_admin: "iam_step B s (fst (InitializeAdmin B A mk clk rnd nonce s))"

definition empty_store :: "'db bolt \<Rightarrow> 'db IAMStore \<Rightarrow> bool" where
  "empty_store B s \<longleftrightarrow> (\<forall>bk k. bolt_get B (store_db s) bk k = Inr None)"

inductive iam_reachable :: "'db bolt \<Rightarrow> 'db IAMStore \<Rightarrow> bool" for B where
  reach_init: "empty_store B s \<Longrightarrow> iam_reachable B s"
| reach_step: "iam_reachable B s \<Longrightarrow> iam_step B s s' \<Longrightarrow> iam_reachable B s'"

lemma view_scp [simp]: "view B (s\<lparr>store_scp := d\<rparr>) = view B s"
  by (simp add: view_def bucket_op_defs store_get_def)

lemma empty_store_consistent: "empty_store B s \<Longrightarrow> consistent B s"
proof -
  assume "empty_store B s"
  then have "view B s = \<lparr>v_users = Map.empty, v_groups = Map.empty, v_policies = Map.empty, v_roles = Map.empty\<rparr>"
    by (simp add: view_def empty_store_def bucket_op_defs store_get_def)
  then show ?thesis
    by (simp add: iam_inv_def named_def members_def refs_def in_group_def has_member_def)
qed

lemmas one_write_keeps = CreateUser_keeps CreateAccessKey_keeps DeleteAccessKey_keeps
  setAccessKeyStatus_keeps CreateGroup_keeps CreatePolicy_keeps svc_DeletePolicy_keeps
  AttachUserPolicy_keeps DetachUserPolicy_keeps AttachGroupPolicy_keeps DetachGroupPolicy_keeps
  PutUserInlinePolicy_keeps DeleteUserInlinePolicy_keeps SetPermissionBoundary_keeps
  RemovePermissionBoundary_keeps CreateRole_keeps svc_DeleteRole_keeps AttachRolePolicy_keeps
  DetachRolePolicy_keeps svc_PutBucketPolicy_keeps svc_DeleteBucketPolicy_keeps
  GetSessionToken_keeps GetFederationToken_keeps InitializeAdmin_keeps

lemmas several_writes_keep = svc_DeleteUser_keeps svc_DeleteGroup_keeps AddUserToGroup_keeps
  RemoveUserFromGroup_keeps

lemma iam_step_keeps:
  assumes "iam_step B s s'" "bolt_ok B" "no_write_errors B" "consistent B s"
  shows "consistent B s'"
  using assms
  by (cases rule: iam_step.cases)
    (auto simp: one_write_keeps several_writes_keep ActivateAccessKey_def DeactivateAccessKey_def
      SetSCP_def RemoveSCP_def AssumeRole_view split: option.splits)

lemma iam_reachable_consistent:
  "iam_reachable B s \<Longrightarrow> bolt_ok B \<Longrightarrow> no_write_errors B \<Longrightarrow> consistent B s"
  by (induction rule: iam_reachable.induct) (auto intro: empty_store_consistent iam_step_keeps)

lemma membership_view:
  "in_group (v_users (view B s)) k n \<longleftrightarrow> (\<exists>u. GetUser B s k = Inr u \<and> n \<in> set (user_Groups u))"
  "has_member (v_groups (view B s)) n k \<longleftrightarrow> (\<exists>g. GetGroup B s n = Inr g \<and> k \<in> set (group_Users g))"
  by (auto simp: in_group_def has_member_def view_def ok_part_def split: sum.splits)

text \<open>The records the first administrator ends up with, and what the set-up leaves alone.\<close>

lemma PutPolicy_succeeds:
  assumes "bolt_ok B" "no_write_errors B" "policy_Name p \<noteq> ''''"
  obtains s' where "PutPolicy B s p = (s', Inr ())" "GetPolicy B s' (policy_Name p) = Inr p"
proof -
  from assms(2,3) obtain db' where "bolt_put B (store_db s) bucketPolicies (policy_Name p) (DPolicy p) = Inr db'"
    unfolding no_write_errors_def by (meson not_isl_Inr)
  then have p: "PutPolicy B s p = (s\<lparr>store_db := db'\<rparr>, Inr ())"
    by (simp add: PutPolicy_def store_put_def)
  with policies.read_your_write [OF assms(1) p] that show thesis by blast
qed

lemma CreateUser_result:
  assumes "bolt_ok B" "CreateUser B clk rnd s n d = (s', Inr u)"
  shows "GetUser B s' n = Inr u \<and> user_Name u = n \<and> user_Groups u = [] \<and> user_AttachedPolicies u = [] \<and>
    user_InlinePolicies u = [] \<and> user_PermissionBoundary u = '''' \<and> user_AccessKeys u = []"
    and "GetPolicy B s' = GetPolicy B s" "GetBucketPolicy B s' = GetBucketPolicy B s" "store_scp s' = store_scp s"
proof -
  from assms(2) have p: "PutUser B s u = (s', Inr ())"
    and u: "user_Name u = n \<and> user_Groups u = [] \<and> user_AttachedPolicies u = [] \<and>
      user_InlinePolicies u = [] \<and> user_PermissionBoundary u = '''' \<and> user_AccessKeys u = []"
    by (auto simp: CreateUser_def Let_def split: sum.splits prod.splits)
  show "GetUser B s' n = Inr u \<and> user_Name u = n \<and> user_Groups u = [] \<and> user_AttachedPolicies u = [] \<and>
    user_InlinePolicies u = [] \<and> user_PermissionBoundary u = '''' \<and> user_AccessKeys u = []"
    using u users.read_your_write [OF assms(1) p] by auto
  show "GetPolicy B s' = GetPolicy B s" "GetBucketPolicy B s' = GetBucketPolicy B s" "store_scp s' = store_scp s"
    using frame_PutUser [OF assms(1) p] by auto
qed

lemma CreateAccessKey_result:
  assumes "bolt_ok B" "CreateAccessKey B A mk clk rnd nonce s n d = (s', Inr r)"
    and "GetUser B s n = Inr u" "user_Name u = n"
  shows "\<exists>ak. GetUser B s' n = Inr (u\<lparr>user_AccessKeys := user_AccessKeys u @ [ak]\<rparr>)"
    and "GetPolicy B s' = GetPolicy B s" "GetBucketPolicy B s' = GetBucketPolicy B s" "store_scp s' = store_scp s"
proof -
  from assms(2,3) obtain ak where p: "PutUser B s (u\<lparr>user_AccessKeys := user_AccessKeys u @ [ak]\<rparr>) = (s', Inr ())"
    by (auto simp: CreateAccessKey_def Let_def split: sum.splits prod.splits)
  show "\<exists>ak. GetUser B s' n = Inr (u\<lparr>user_AccessKeys := user_AccessKeys u @ [ak]\<rparr>)"
    using users.read_your_write [OF assms(1) p] assms(4) by auto
  show "GetPolicy B s' = GetPolicy B s" "GetBucketPolicy B s' = GetBucketPolicy B s" "store_scp s' = store_scp s"
    using frame_PutUser [OF assms(1) p] by auto
qed

lemma CreatePolicy_result:
  assumes "bolt_ok B" "no_write_errors B" "isl (GetPolicy B s n)" "n \<noteq> ''''"
    and "s' = fst (CreatePolicy B clk s n d doc)"
  shows "\<exists>p. GetPolicy B s' n = Inr p \<and> policy_Document p = doc"
    and "GetUser B s' = GetUser B s" "GetBucketPolicy B s' = GetBucketPolicy B s" "store_scp s' = store_scp s"
proof -
  let ?p = "\<lparr>policy_ARN = MakePolicyARN n, policy_Name = n, policy_Description = d, policy_Type = ''Custom'',
     policy_Document = doc, policy_Path = '''', policy_CreatedAt = clk 0, policy_UpdatedAt = clk 1\<rparr>"
  obtain s1 where p: "PutPolicy B s ?p = (s1, Inr ())" "GetPolicy B s1 n = Inr ?p"
    using PutPolicy_succeeds [OF assms(1,2), of ?p s] assms(4) by auto
  have s1: "s' = s1" using assms(3,5) p(1) by (auto simp: CreatePolicy_def Let_def isl_def)
  show "\<exists>p. GetPolicy B s' n = Inr p \<and> policy_Document p = doc" using p(2) s1 by auto
  show "GetUser B s' = GetUser B s" "GetBucketPolicy B s' = GetBucketPolicy B s" "store_scp s' = store_scp s"
    using frame_PutPolicy [OF assms(1) p(1)] s1 by auto
qed

lemma AttachUserPolicy_result:
  assumes "bolt_ok B" "no_write_errors B" "GetUser B s n = Inr u" "user_Name u = n" "n \<noteq> ''''"
    and "GetPolicy B s p = Inr x" "p \<notin> set (user_AttachedPolicies u)"
    and "s' = fst (AttachUserPolicy B s n p)"
  shows "GetUser B s' n = Inr (u\<lparr>user_AttachedPolicies := user_AttachedPolicies u @ [p]\<rparr>)"
    and "GetPolicy B s' = GetPolicy B s" "GetBucketPolicy B s' = GetBucketPolicy B s" "store_scp s' = store_scp s"
proof -
  let ?u = "u\<lparr>user_AttachedPolicies := user_AttachedPolicies u @ [p]\<rparr>"
  obtain s1 where p: "PutUser B s ?u = (s1, Inr ())"
    using PutUser_succeeds [OF assms(1,2), of ?u s] assms(4,5) by auto
  have s1: "s' = s1" using assms(3,6-8) p by (simp add: AttachUserPolicy_def)
  show "GetUser B s' n = Inr ?u" using users.read_your_write [OF assms(1) p] s1 assms(4) by simp
  show "GetPolicy B s' = GetPolicy B s" "GetBucketPolicy B s' = GetBucketPolicy B s" "store_scp s' = store_scp s"
    using frame_PutUser [OF assms(1) p] s1 by auto
qed

section \<open>Properties\<close>

text \<open>
  C4. No dangling identity data. In every state the service can reach from an empty database
  by any sequence of its operations, on a database that behaves as documented and whose
  writes do not fail: group membership is recorded on both sides or on neither, every group a
  user lists exists, every attached policy of a user, group or role exists, and a user's
  permission boundary names a stored policy, so that the evaluator never skips a boundary
  because its policy is missing.
\<close>

theorem reachable_store_consistent:
  assumes "iam_reachable B s" "bolt_ok B" "no_write_errors B"
  shows "(\<forall>k u n. GetUser B s k = Inr u \<and> n \<in> set (user_Groups u) \<longrightarrow>
            (\<exists>g. GetGroup B s n = Inr g \<and> k \<in> set (group_Users g))) \<and>
         (\<forall>k n g. GetGroup B s n = Inr g \<and> k \<in> set (group_Users g) \<longrightarrow>
            (\<exists>u. GetUser B s k = Inr u \<and> n \<in> set (user_Groups u))) \<and>
         (\<forall>k u p. GetUser B s k = Inr u \<and> p \<in> set (user_AttachedPolicies u) \<longrightarrow> is_ok (GetPolicy B s p)) \<and>
         (\<forall>k g p. GetGroup B s k = Inr g \<and> p \<in> set (group_AttachedPolicies g) \<longrightarrow> is_ok (GetPolicy B s p)) \<and>
         (\<forall>k r p. GetRole B s k = Inr r \<and> p \<in> set (role_PermissionPolicies r) \<longrightarrow> is_ok (GetPolicy B s p)) \<and>
         (\<forall>k u. GetUser B s k = Inr u \<and> user_PermissionBoundary u \<noteq> '''' \<longrightarrow>
            boundary_doc B s (Some u) \<noteq> None)"
proof -
  have inv: "iam_inv (view B s)" using assms by (rule iam_reachable_consistent)
  then have mem: "in_group (v_users (view B s)) k n \<longleftrightarrow> has_member (v_groups (view B s)) n k" for k n
    by (simp add: iam_inv_def members_def)
  have u: "user_refs (v_policies (view B s)) u" if "GetUser B s k = Inr u" for k u
    using stored_user_refs [OF inv that] .
  have "\<exists>g. GetGroup B s n = Inr g \<and> k \<in> set (group_Users g)"
    if "GetUser B s k = Inr u" "n \<in> set (user_Groups u)" for k u n
    using mem [of k n] that by (auto simp: membership_view)
  moreover have "\<exists>u. GetUser B s k = Inr u \<and> n \<in> set (user_Groups u)"
    if "GetGroup B s n = Inr g" "k \<in> set (group_Users g)" for k n g
    using mem [of k n] that by (auto simp: membership_view)
  moreover have "is_ok (GetPolicy B s p)" if "GetUser B s k = Inr u" "p \<in> set (user_AttachedPolicies u)" for k u p
    using u [OF that(1)] that(2) by (auto simp: user_refs_def)
  moreover have "boundary_doc B s (Some u) \<noteq> None" if "GetUser B s k = Inr u" "user_PermissionBoundary u \<noteq> ''''" for k u
    using u [OF that(1)] that(2) by (auto simp: user_refs_def boundary_doc_def)
  moreover have "is_ok (GetPolicy B s p)" if "GetGroup B s k = Inr g" "p \<in> set (group_AttachedPolicies g)" for k g p
    using group_ref [OF inv that] by auto
  moreover have "is_ok (GetPolicy B s p)" if "GetRole B s k = Inr r" "p \<in> set (role_PermissionPolicies r)" for k r p
    using role_ref [OF inv that] by auto
  ultimately show ?thesis by blast
qed

definition two_steps :: "mem_db IAMStore" where
  "two_steps =
     (let s0 = \<lparr>store_db = [], store_scp = None\<rparr>;
          s1 = fst (CreateUser mem_bolt (\<lambda>_. 0) (\<lambda>_. []) s0 ''bob'' ''Bob'');
          s2 = fst (CreateGroup mem_bolt (\<lambda>_. 0) s1 ''ops'' '''')
      in fst (AddUserToGroup mem_bolt s2 ''bob'' ''ops''))"

lemma two_steps_reachable: "iam_reachable mem_bolt two_steps"
  unfolding two_steps_def Let_def
  by (rule reach_step [OF reach_step [OF reach_step [OF reach_init step_create_user]
        step_create_group] step_join])
     (simp add: empty_store_def mem_bolt_def)

theorem reachable_store_consistent_witness:
  "\<exists>g. GetGroup mem_bolt two_steps ''ops'' = Inr g \<and> ''bob'' \<in> set (group_Users g)"
proof -
  have "map_sum id user_Groups (GetUser mem_bolt two_steps ''bob'') = Inr [''ops'']" by code_simp
  then obtain u where "GetUser mem_bolt two_steps ''bob'' = Inr u" "user_Groups u = [''ops'']"
    by (cases "GetUser mem_bolt two_steps ''bob''") auto
  with reachable_store_consistent [OF two_steps_reachable mem_bolt_ok mem_bolt_no_write_errors]
  show ?thesis by (metis list.set_intros(1))
qed

text \<open>
  \<^verbatim>\<open>DeletePolicy\<close> refuses a policy in use: when it succeeds, no stored user has the policy
  attached or as boundary and no group or role has it attached, before and after, the policy
  is gone, and every other policy reads as before. When it fails, nothing has changed.
\<close>

theorem DeletePolicy_safe:
  assumes "bolt_ok B" "svc_DeletePolicy B s n = (s', r)"
  shows "case r of
      Inl _ \<Rightarrow> s' = s
    | Inr _ \<Rightarrow> isl (GetPolicy B s' n) \<and> (\<forall>m. m \<noteq> n \<longrightarrow> GetPolicy B s' m = GetPolicy B s m) \<and>
        GetUser B s' = GetUser B s \<and> GetGroup B s' = GetGroup B s \<and> GetRole B s' = GetRole B s \<and>
        (\<forall>k u. GetUser B s k = Inr u \<longrightarrow> n \<notin> set (user_AttachedPolicies u) \<and> user_PermissionBoundary u \<noteq> n) \<and>
        (\<forall>k g. GetGroup B s k = Inr g \<longrightarrow> n \<notin> set (group_AttachedPolicies g)) \<and>
        (\<forall>k x. GetRole B s k = Inr x \<longrightarrow> n \<notin> set (role_PermissionPolicies x))"
proof (cases "ensurePolicyNotAttached B s n")
  case (Inl e)
  with assms(2) have "s' = s" "r = Inl e" by (simp_all add: svc_DeletePolicy_def)
  then show ?thesis by simp
next
  case (Inr x)
  with assms(2) have ok: "ensurePolicyNotAttached B s n = Inr ()" and d: "DeletePolicy B s n = (s', r)"
    by (auto simp: svc_DeletePolicy_def)
  show ?thesis
  proof (cases r)
    case (Inl e)
    with d policies.del_error show ?thesis by auto
  next
    case (Inr y)
    then have d': "DeletePolicy B s n = (s', Inr ())" using d by simp
    show ?thesis
      using Inr unattached [OF assms(1) ok] frame_DeletePolicy [OF assms(1) d']
        policies.get_del_same [OF assms(1) d'] policies.get_del_other [OF assms(1) d']
      by simp
  qed
qed

theorem DeletePolicy_safe_witness:
  "fst (svc_DeletePolicy mem_bolt alice_store ''readers'') = alice_store \<and>
   isl (GetPolicy mem_bolt (fst (svc_DeletePolicy mem_bolt
     (fst (RemovePermissionBoundary mem_bolt alice_store ''alice'')) ''readers'')) ''readers'')"
proof -
  let ?d = "svc_DeletePolicy mem_bolt alice_store ''readers''"
  let ?e = "svc_DeletePolicy mem_bolt (fst (RemovePermissionBoundary mem_bolt alice_store ''alice'')) ''readers''"
  have "isl (snd ?d)" "\<not> isl (snd ?e)" by code_simp+
  then obtain e x where "?d = (fst ?d, Inl e)" "?e = (fst ?e, Inr x)"
    by (metis isl_def not_isl_Inr prod.collapse)
  from DeletePolicy_safe [OF mem_bolt_ok this(1)] DeletePolicy_safe [OF mem_bolt_ok this(2)]
  show ?thesis by simp
qed


text \<open>
  The first administrator: on a store without the user \<^verbatim>\<open>admin\<close> and without the policy
  \<^verbatim>\<open>AdministratorAccess\<close>, when \<^verbatim>\<open>InitializeAdmin\<close> returns a key, the evaluator allows
  \<^verbatim>\<open>admin\<close> every action on every resource as long as there is no service control policy and
  the bucket policy does not deny it, and running the initialization again changes nothing
  and returns no key.
\<close>

theorem InitializeAdmin_grants:
  assumes "bolt_ok B" "no_write_errors B"
    and "isl (GetUser B s ''admin'')" "isl (GetPolicy B s ''AdministratorAccess'')" "store_scp s = None"
    and init: "InitializeAdmin B A mk clk rnd nonce s = (s', Inr (Some key))"
  shows "InitializeAdmin B A' mk' clk' rnd' nonce' s' = (s', Inr None) \<and>
    (\<forall>S ctx. plain_context S ctx \<and> ctx_Principal ctx = ''admin'' \<and>
       (\<forall>d \<in> set (resource_policies B s (ctx_Resource ctx)). \<not> doc_has S ctx EffectDeny d) \<longrightarrow>
       map_option res_Decision (Evaluate S B (Some s') ctx) = Some DecisionAllow)"
proof -
  from init assms(3) obtain s1 u where cu: "CreateUser B clk rnd s ''admin'' ''Administrator'' = (s1, Inr u)"
    and su: "setup_admin B A mk clk rnd nonce s1 = (s', Inr (Some key))"
    by (auto simp: InitializeAdmin_def isl_def split: sum.splits prod.splits)
  note u = CreateUser_result [OF assms(1) cu]
  from su obtain s2 where ck: "CreateAccessKey B A mk (\<lambda>i. clk (i + 1)) (\<lambda>i. rnd (i + 1)) nonce s1
      ''admin'' ''Initial admin key'' = (s2, Inr key)"
    by (auto simp: setup_admin_def Let_def split: sum.splits prod.splits)
  note k = CreateAccessKey_result [OF assms(1) ck]
  define s3 where "s3 = fst (CreatePolicy B (\<lambda>i. clk (i + 2)) s2 ''AdministratorAccess''
    ''Full access to all resources'' admin_document)"
  have s': "s' = fst (AttachUserPolicy B s3 ''admin'' ''AdministratorAccess'')"
    using su ck by (simp add: setup_admin_def s3_def Let_def)
  obtain ak where ak: "GetUser B s2 ''admin'' = Inr (u\<lparr>user_AccessKeys := [ak]\<rparr>)"
    using k(1) u(1) by auto
  have noPol: "isl (GetPolicy B s2 ''AdministratorAccess'')" using assms(4) k u by simp
  note p = CreatePolicy_result [OF assms(1,2) noPol _ s3_def]
  then obtain x where x: "GetPolicy B s3 ''AdministratorAccess'' = Inr x" "policy_Document x = admin_document"
    by auto
  let ?u = "u\<lparr>user_AccessKeys := [ak], user_AttachedPolicies := [''AdministratorAccess'']\<rparr>"
  have "GetUser B s3 ''admin'' = Inr (u\<lparr>user_AccessKeys := [ak]\<rparr>)" using ak p(2) by simp
  note a = AttachUserPolicy_result [OF assms(1,2) this _ _ x(1) _ s']
  have admin: "GetUser B s' ''admin'' = Inr ?u" using a(1) u(1) by simp
  have scp: "store_scp s' = None" and bp: "GetBucketPolicy B s' = GetBucketPolicy B s"
    using a(3,4) p(3,4) k(3,4) u(1,3,4) assms(5) by simp_all
  have ids: "identity_policies B s' (Some ?u) = [(admin_document, ''AdministratorAccess'')]"
    using a(2) x u(1) by (simp add: identity_policies_def)
  have "map_option res_Decision (Evaluate S B (Some s') ctx) = Some DecisionAllow"
    if "plain_context S ctx" "ctx_Principal ctx = ''admin''"
      "\<forall>d \<in> set (resource_policies B s (ctx_Resource ctx)). \<not> doc_has S ctx EffectDeny d" for S ctx
  proof -
    have "doc_has S ctx EffectAllow admin_document \<and> \<not> doc_has S ctx EffectDeny admin_document"
      by (simp add: doc_has_def admin_document_def holds_def statementMatches_def actionMatches_def
          matchAction_def resourceMatches_def matchResource_def)
    moreover have "resource_policies B s' = resource_policies B s"
      by (simp add: fun_eq_iff resource_policies_def bp Let_def)
    moreover have "boundary_doc B s' (Some ?u) = None" using u(1) by (simp add: boundary_doc_def)
    moreover have "stored_user B s' ctx = Some ?u" using that(2) admin by (simp add: stored_user_def)
    ultimately show ?thesis
      using Evaluate_decides [OF that(1), of B s'] that(3) by (auto simp: authorize_def ids scp)
  qed
  then show ?thesis using admin by (simp add: InitializeAdmin_def)
qed

theorem InitializeAdmin_grants_witness:
  "\<exists>s' key. InitializeAdmin mem_bolt clear_aead zero_key (\<lambda>_. 0) (\<lambda>_. replicate 64 1) (Inr (replicate 12 0))
       \<lparr>store_db = [], store_scp = None\<rparr> = (s', Inr (Some key)) \<and>
     map_option res_Decision (Evaluate ascii_std mem_bolt (Some s') (bare_request ''admin'' ''s3:PutObject'' ''x'')) =
       Some DecisionAllow"
proof -
  let ?s = "\<lparr>store_db = [], store_scp = None\<rparr> :: mem_db IAMStore"
  let ?i = "InitializeAdmin mem_bolt clear_aead zero_key (\<lambda>_. 0) (\<lambda>_. replicate 64 1) (Inr (replicate 12 0)) ?s"
  have "case snd ?i of Inr (Some _) \<Rightarrow> True | _ \<Rightarrow> False" by code_simp
  then obtain s' key where i: "?i = (s', Inr (Some key))"
    by (cases ?i) (auto split: sum.splits option.splits)
  have "isl (GetUser mem_bolt ?s ''admin'')" "isl (GetPolicy mem_bolt ?s ''AdministratorAccess'')"
    by (simp_all add: GetUser_def GetPolicy_def store_get_def mem_bolt_def)
  from InitializeAdmin_grants [OF mem_bolt_ok mem_bolt_no_write_errors this _ i]
  have "\<forall>S ctx. plain_context S ctx \<and> ctx_Principal ctx = ''admin'' \<and>
       (\<forall>d \<in> set (resource_policies mem_bolt ?s (ctx_Resource ctx)). \<not> doc_has S ctx EffectDeny d) \<longrightarrow>
       map_option res_Decision (Evaluate S mem_bolt (Some s') ctx) = Some DecisionAllow" by simp
  moreover have "resource_policies mem_bolt ?s ''x'' = []"
    by (simp add: resource_policies_def extractBucketFromResource_def HasPrefix_def iam_const_defs)
  ultimately have "map_option res_Decision (Evaluate ascii_std mem_bolt (Some s')
      (bare_request ''admin'' ''s3:PutObject'' ''x'')) = Some DecisionAllow"
    using plain_request by (auto simp: bare_request_def)
  with i show ?thesis by blast
qed

end
