(* ===== verification/Object_Cache.thy ===== *)
theory Object_Cache
  imports Prelude "HOL-Library.AList" "HOL-Library.Multiset"
begin

text \<open>
  The caches of \<^verbatim>\<open>internal/cache/cache.go\<close>: the byte-bounded LRU \<^verbatim>\<open>ObjectCache\<close>, the
  \<^verbatim>\<open>MetadataCache\<close> and the entry-bounded \<^verbatim>\<open>QueryResultCache\<close>. Each operation runs under the
  cache's lock and is one state transformer; the readings of the clock are arguments.

  \<^verbatim>\<open>ObjectCache\<close> holds pointers to list elements in a map and in a doubly linked list. An
  element is an address, the heap gives the item it points to, and a fresh address stands for
  the allocation of \<^verbatim>\<open>PushFront\<close>. Sizes are unbounded integers; \<open>Set_sizes_bounded\<close> shows that
  the code's 64-bit sums do not wrap while the capacity and the value fit 63 bits together.
\<close>

section \<open>ObjectCache\<close>

record CacheItem =
  ci_Key :: string
  ci_Value :: "byte list"
  ci_Size :: int
  ci_CreatedAt :: gotime
  ci_AccessedAt :: gotime
  ci_AccessCount :: int

record ObjectCache =
  oc_items :: "(string \<times> nat) list"
  oc_lruList :: "nat list"
  oc_maxBytes :: int
  oc_ttl :: int
  oc_size :: int
  oc_hits :: int
  oc_misses :: int
  oc_heap :: "nat \<Rightarrow> CacheItem"
  oc_next :: nat

definition zero_item :: CacheItem where
  "zero_item = \<lparr>ci_Key = '''', ci_Value = [], ci_Size = 0, ci_CreatedAt = 0, ci_AccessedAt = 0,
                ci_AccessCount = 0\<rparr>"

definition minutes :: "int \<Rightarrow> int" where
  "minutes n = n * 60000000000"

definition NewObjectCache :: "int \<Rightarrow> int \<Rightarrow> ObjectCache" where
  "NewObjectCache maxBytes ttl =
     \<lparr>oc_items = [], oc_lruList = [],
      oc_maxBytes = (if maxBytes \<le> 0 then 30 * 2 ^ 30 else maxBytes),
      oc_ttl = (if ttl \<le> 0 then minutes 5 else ttl),
      oc_size = 0, oc_hits = 0, oc_misses = 0, oc_heap = (\<lambda>_. zero_item), oc_next = 0\<rparr>"

definition deleteElement :: "ObjectCache \<Rightarrow> nat \<Rightarrow> ObjectCache" where
  "deleteElement c elem =
     (let item = oc_heap c elem
      in c\<lparr>oc_items := AList.delete (ci_Key item) (oc_items c),
           oc_lruList := remove1 elem (oc_lruList c),
           oc_size := oc_size c - ci_Size item\<rparr>)"

definition evictOldest :: "ObjectCache \<Rightarrow> ObjectCache" where
  "evictOldest c =
     (if oc_lruList c = [] then c else deleteElement c (last (oc_lruList c)))"

text \<open>\<open>t0\<close> is the reading of \<^verbatim>\<open>time.Since\<close>, \<open>t1\<close> the reading stored as the access time.\<close>

definition ObjectCache_Get ::
    "ObjectCache \<Rightarrow> gotime \<Rightarrow> gotime \<Rightarrow> string \<Rightarrow> ObjectCache \<times> byte list option" where
  "ObjectCache_Get c t0 t1 key =
     (case map_of (oc_items c) key of
        None \<Rightarrow> (c\<lparr>oc_misses := oc_misses c + 1\<rparr>, None)
      | Some elem \<Rightarrow>
          let item = oc_heap c elem in
          if t0 - ci_CreatedAt item > oc_ttl c then
            (let c' = deleteElement c elem in (c'\<lparr>oc_misses := oc_misses c' + 1\<rparr>, None))
          else
            (let item' = item\<lparr>ci_AccessedAt := t1, ci_AccessCount := ci_AccessCount item + 1\<rparr>
             in (c\<lparr>oc_heap := (oc_heap c)(elem := item'),
                   oc_lruList := elem # remove1 elem (oc_lruList c),
                   oc_hits := oc_hits c + 1\<rparr>,
                 Some (ci_Value item'))))"

text \<open>The eviction loop of \<^verbatim>\<open>Set\<close>.\<close>

function evict_loop :: "ObjectCache \<Rightarrow> int \<Rightarrow> ObjectCache" where
  "evict_loop c itemSize =
     (if oc_size c + itemSize > oc_maxBytes c \<and> oc_lruList c \<noteq> []
      then evict_loop (evictOldest c) itemSize else c)"
  by auto

termination
  by (relation "measure (\<lambda>(c, n). length (oc_lruList c))")
    (auto simp: evictOldest_def deleteElement_def Let_def length_remove1 intro: diff_less)

declare evict_loop.simps [simp del]

definition ObjectCache_Set ::
    "ObjectCache \<Rightarrow> gotime \<Rightarrow> gotime \<Rightarrow> string \<Rightarrow> byte list \<Rightarrow> ObjectCache" where
  "ObjectCache_Set c t0 t1 key value =
     (let itemSize = int (length value);
          c1 = (case map_of (oc_items c) key of
                  None \<Rightarrow> c
                | Some elem \<Rightarrow> c\<lparr>oc_size := oc_size c - ci_Size (oc_heap c elem),
                                 oc_lruList := remove1 elem (oc_lruList c)\<rparr>);
          c2 = evict_loop c1 itemSize;
          item = \<lparr>ci_Key = key, ci_Value = value, ci_Size = itemSize, ci_CreatedAt = t0,
                  ci_AccessedAt = t1, ci_AccessCount = 1\<rparr>;
          elem = oc_next c2
      in c2\<lparr>oc_heap := (oc_heap c2)(elem := item), oc_next := elem + 1,
            oc_lruList := elem # oc_lruList c2,
            oc_items := AList.update key elem (oc_items c2),
            oc_size := oc_size c2 + itemSize\<rparr>)"

definition ObjectCache_Delete :: "ObjectCache \<Rightarrow> string \<Rightarrow> ObjectCache" where
  "ObjectCache_Delete c key =
     (case map_of (oc_items c) key of None \<Rightarrow> c | Some elem \<Rightarrow> deleteElement c elem)"

definition ObjectCache_Clear :: "ObjectCache \<Rightarrow> ObjectCache" where
  "ObjectCache_Clear c = c\<lparr>oc_items := [], oc_lruList := [], oc_size := 0\<rparr>"

text \<open>\<open>div\<close> is the code's division of \<^verbatim>\<open>float64\<close> values.\<close>

record 'f CacheStats =
  cs_ItemCount :: int
  cs_SizeBytes :: int
  cs_MaxBytes :: int
  cs_Hits :: int
  cs_Misses :: int
  cs_HitRate :: 'f

definition calculateHitRate :: "(int \<Rightarrow> int \<Rightarrow> 'f) \<Rightarrow> ObjectCache \<Rightarrow> 'f::zero" where
  "calculateHitRate fdiv c =
     (let total = oc_hits c + oc_misses c in if total = 0 then 0 else fdiv (oc_hits c) total)"

definition ObjectCache_Stats :: "(int \<Rightarrow> int \<Rightarrow> 'f) \<Rightarrow> ObjectCache \<Rightarrow> 'f::zero CacheStats" where
  "ObjectCache_Stats fdiv c =
     \<lparr>cs_ItemCount = int (length (oc_items c)), cs_SizeBytes = oc_size c, cs_MaxBytes = oc_maxBytes c,
      cs_Hits = oc_hits c, cs_Misses = oc_misses c, cs_HitRate = calculateHitRate fdiv c\<rparr>"

section \<open>MetadataCache\<close>

record 'v MetadataCacheItem =
  mi_Value :: 'v
  mi_CreatedAt :: gotime

record 'v MetadataCache =
  mc_items :: "string \<rightharpoonup> 'v MetadataCacheItem"
  mc_ttl :: int

definition NewMetadataCache :: "int \<Rightarrow> 'v MetadataCache" where
  "NewMetadataCache ttl = \<lparr>mc_items = Map.empty, mc_ttl = (if ttl \<le> 0 then minutes 5 else ttl)\<rparr>"

definition MetadataCache_Get :: "'v MetadataCache \<Rightarrow> gotime \<Rightarrow> string \<Rightarrow> 'v option" where
  "MetadataCache_Get m now key =
     (case mc_items m key of
        None \<Rightarrow> None
      | Some item \<Rightarrow> if now - mi_CreatedAt item > mc_ttl m then None else Some (mi_Value item))"

definition MetadataCache_Set :: "'v MetadataCache \<Rightarrow> gotime \<Rightarrow> string \<Rightarrow> 'v \<Rightarrow> 'v MetadataCache" where
  "MetadataCache_Set m now key value =
     m\<lparr>mc_items := (mc_items m)(key \<mapsto> \<lparr>mi_Value = value, mi_CreatedAt = now\<rparr>)\<rparr>"

definition MetadataCache_Delete :: "'v MetadataCache \<Rightarrow> string \<Rightarrow> 'v MetadataCache" where
  "MetadataCache_Delete m key = m\<lparr>mc_items := (mc_items m)(key := None)\<rparr>"

definition MetadataCache_Clear :: "'v MetadataCache \<Rightarrow> 'v MetadataCache" where
  "MetadataCache_Clear m = m\<lparr>mc_items := Map.empty\<rparr>"

section \<open>QueryResultCache\<close>

text \<open>
  A Go map is iterated in an arbitrary order. The items are an association list and the order
  of the iteration in \<^verbatim>\<open>evictOldest\<close> is the argument \<open>ord\<close>, a permutation of the items.
\<close>

record 'v QueryCacheItem =
  qi_Results :: 'v
  qi_CreatedAt :: gotime

record 'v QueryResultCache =
  qc_items :: "(string \<times> 'v QueryCacheItem) list"
  qc_ttl :: int
  qc_maxSize :: int

definition NewQueryResultCache :: "int \<Rightarrow> int \<Rightarrow> 'v QueryResultCache" where
  "NewQueryResultCache ttl maxSize =
     \<lparr>qc_items = [], qc_ttl = (if ttl \<le> 0 then minutes 5 else ttl),
      qc_maxSize = (if maxSize \<le> 0 then 10000 else maxSize)\<rparr>"

definition QueryResultCache_Get :: "'v QueryResultCache \<Rightarrow> gotime \<Rightarrow> string \<Rightarrow> 'v option" where
  "QueryResultCache_Get q now key =
     (case map_of (qc_items q) key of
        None \<Rightarrow> None
      | Some item \<Rightarrow> if now - qi_CreatedAt item > qc_ttl q then None else Some (qi_Results item))"

fun oldest_loop :: "string \<times> gotime \<Rightarrow> (string \<times> 'v QueryCacheItem) list \<Rightarrow> string \<times> gotime" where
  "oldest_loop (oldestKey, oldestTime) [] = (oldestKey, oldestTime)"
| "oldest_loop (oldestKey, oldestTime) ((k, v) # rest) =
     (if IsZero oldestTime \<or> qi_CreatedAt v < oldestTime then oldest_loop (k, qi_CreatedAt v) rest
      else oldest_loop (oldestKey, oldestTime) rest)"

definition QueryResultCache_evictOldest ::
    "'v QueryResultCache \<Rightarrow> (string \<times> 'v QueryCacheItem) list \<Rightarrow> 'v QueryResultCache" where
  "QueryResultCache_evictOldest q ord =
     (let oldestKey = fst (oldest_loop ('''', 0) ord)
      in if oldestKey \<noteq> '''' then q\<lparr>qc_items := AList.delete oldestKey (qc_items q)\<rparr> else q)"

definition QueryResultCache_Set ::
    "'v QueryResultCache \<Rightarrow> (string \<times> 'v QueryCacheItem) list \<Rightarrow> gotime \<Rightarrow> string \<Rightarrow> 'v \<Rightarrow>
     'v QueryResultCache" where
  "QueryResultCache_Set q ord now key results =
     (let q1 = (if int (length (qc_items q)) \<ge> qc_maxSize q then QueryResultCache_evictOldest q ord else q)
      in q1\<lparr>qc_items := AList.update key \<lparr>qi_Results = results, qi_CreatedAt = now\<rparr> (qc_items q1)\<rparr>)"

definition QueryResultCache_Clear :: "'v QueryResultCache \<Rightarrow> 'v QueryResultCache" where
  "QueryResultCache_Clear q = q\<lparr>qc_items := []\<rparr>"

section \<open>The contract of a cache\<close>

text \<open>
  Against the reference, a map that never forgets: whatever a cache holds, the map holds.
  An operation carries the environment \<open>'e\<close> a cache needs besides its arguments.
\<close>

datatype ('e, 'v) cache_op =
    OpGet 'e gotime string
  | OpSet 'e gotime string 'v
  | OpDelete string
  | OpClear

fun spec_step :: "('e, 'v) cache_op \<Rightarrow> (string \<rightharpoonup> 'v \<times> gotime) \<Rightarrow> string \<rightharpoonup> 'v \<times> gotime" where
  "spec_step (OpGet e t k) m = m"
| "spec_step (OpSet e t k v) m = m(k \<mapsto> (v, t))"
| "spec_step (OpDelete k) m = m(k := None)"
| "spec_step OpClear m = Map.empty"

lemma spec_step_mono: "m \<subseteq>\<^sub>m m' \<Longrightarrow> spec_step op m \<subseteq>\<^sub>m spec_step op m'"
  by (cases op) (auto simp: map_le_def)

locale ttl_cache =
  fixes inv :: "'c \<Rightarrow> bool"
    and ok :: "('e, 'v) cache_op \<Rightarrow> bool"
    and entry :: "'c \<Rightarrow> string \<rightharpoonup> 'v \<times> gotime"
    and ttl :: "'c \<Rightarrow> int"
    and get :: "'c \<Rightarrow> gotime \<Rightarrow> string \<Rightarrow> 'v option"
    and step :: "('e, 'v) cache_op \<Rightarrow> 'c \<Rightarrow> 'c"
  assumes get_entry: "inv c \<Longrightarrow> get c now k =
      (case entry c k of None \<Rightarrow> None | Some (v, t) \<Rightarrow> if now - t > ttl c then None else Some v)"
    and step_inv: "inv c \<Longrightarrow> ok op \<Longrightarrow> inv (step op c)"
    and step_sim: "inv c \<Longrightarrow> ok op \<Longrightarrow> entry (step op c) \<subseteq>\<^sub>m spec_step op (entry c)"
    and step_ttl: "ttl (step op c) = ttl c"
    and set_entry: "inv c \<Longrightarrow> ok (OpSet e t k v) \<Longrightarrow> entry (step (OpSet e t k v) c) k = Some (v, t)"
begin

lemma run_sim:
  assumes "inv c" "\<forall>op \<in> set ops. ok op" "entry c \<subseteq>\<^sub>m m"
  shows "inv (fold step ops c) \<and> ttl (fold step ops c) = ttl c \<and>
    entry (fold step ops c) \<subseteq>\<^sub>m fold spec_step ops m"
  using assms
proof (induction ops arbitrary: c m)
  case (Cons op ops)
  have "entry (step op c) \<subseteq>\<^sub>m spec_step op m"
    using step_sim Cons.prems spec_step_mono by (metis list.set_intros(1) map_le_trans)
  with Cons step_inv step_ttl show ?case by simp
qed simp

text \<open>What a cache serves is what was last set under the key, and not older than the TTL.\<close>

lemma served_value:
  assumes "inv c" "\<forall>op \<in> set ops. ok op" "get (fold step ops c) now k = Some v"
  shows "\<exists>t. fold spec_step ops (entry c) k = Some (v, t) \<and> now - t \<le> ttl c"
proof -
  have r: "inv (fold step ops c)" "ttl (fold step ops c) = ttl c"
    "entry (fold step ops c) \<subseteq>\<^sub>m fold spec_step ops (entry c)"
    using run_sim [OF assms(1,2), of "entry c"] by auto
  from assms(3) get_entry [OF r(1)] obtain t
    where "entry (fold step ops c) k = Some (v, t)" "now - t \<le> ttl c"
    by (auto simp: r(2) split: option.splits if_splits)
  with r(3) show ?thesis by (auto simp: map_le_def dom_def)
qed

lemma read_your_write:
  assumes "inv c" "ok (OpSet e t k v)"
  shows "get (step (OpSet e t k v) c) now k = (if now - t > ttl c then None else Some v)"
  using assms get_entry [OF step_inv [OF assms]] set_entry [OF assms] by (simp add: step_ttl)

end

section \<open>MetadataCache meets the contract\<close>

definition mc_entry :: "'v MetadataCache \<Rightarrow> string \<rightharpoonup> 'v \<times> gotime" where
  "mc_entry m k = map_option (\<lambda>i. (mi_Value i, mi_CreatedAt i)) (mc_items m k)"

fun metadata_step :: "(unit, 'v) cache_op \<Rightarrow> 'v MetadataCache \<Rightarrow> 'v MetadataCache" where
  "metadata_step (OpGet _ t k) m = m"
| "metadata_step (OpSet _ t k v) m = MetadataCache_Set m t k v"
| "metadata_step (OpDelete k) m = MetadataCache_Delete m k"
| "metadata_step OpClear m = MetadataCache_Clear m"

lemma metadata_exact: "mc_entry (metadata_step op m) = spec_step op (mc_entry m)"
  by (cases op)
    (auto simp: mc_entry_def fun_eq_iff MetadataCache_Set_def MetadataCache_Delete_def
      MetadataCache_Clear_def)

interpretation metadata_cache: ttl_cache "\<lambda>_. True" "\<lambda>_. True" mc_entry mc_ttl MetadataCache_Get metadata_step
proof unfold_locales
  fix c :: "'v MetadataCache" and now k
  show "MetadataCache_Get c now k = (case mc_entry c k of None \<Rightarrow> None
      | Some (v, t) \<Rightarrow> if now - t > mc_ttl c then None else Some v)"
    by (simp add: MetadataCache_Get_def mc_entry_def split: option.splits)
next
  fix c :: "'v MetadataCache" and op
  show "mc_ttl (metadata_step op c) = mc_ttl c"
    by (cases op) (simp_all add: MetadataCache_Set_def MetadataCache_Delete_def MetadataCache_Clear_def)
qed (simp_all add: metadata_exact del: metadata_step.simps)

section \<open>QueryResultCache meets the contract\<close>

definition qc_inv :: "'v QueryResultCache \<Rightarrow> bool" where
  "qc_inv q \<longleftrightarrow> distinct (map fst (qc_items q))"

definition qc_entry :: "'v QueryResultCache \<Rightarrow> string \<rightharpoonup> 'v \<times> gotime" where
  "qc_entry q k = map_option (\<lambda>i. (qi_Results i, qi_CreatedAt i)) (map_of (qc_items q) k)"

text \<open>The environment of an operation picks the order of its iteration.\<close>

type_synonym 'v pick_order = "(string \<times> 'v QueryCacheItem) list \<Rightarrow> (string \<times> 'v QueryCacheItem) list"

fun query_step :: "('v pick_order, 'v) cache_op \<Rightarrow> 'v QueryResultCache \<Rightarrow> 'v QueryResultCache" where
  "query_step (OpGet _ t k) q = q"
| "query_step (OpSet pick t k v) q = QueryResultCache_Set q (pick (qc_items q)) t k v"
| "query_step (OpDelete k) q = q"
| "query_step OpClear q = QueryResultCache_Clear q"

fun query_op :: "('e, 'v) cache_op \<Rightarrow> bool" where
  "query_op (OpDelete k) = False"
| "query_op _ = True"

lemma qc_evict_items:
  "\<exists>k. qc_items (QueryResultCache_evictOldest q ord) = AList.delete k (qc_items q) \<or>
       qc_items (QueryResultCache_evictOldest q ord) = qc_items q"
  by (auto simp: QueryResultCache_evictOldest_def Let_def)

lemma qc_Set_items:
  obtains (all) "qc_items (QueryResultCache_Set q ord t k v) =
      AList.update k \<lparr>qi_Results = v, qi_CreatedAt = t\<rparr> (qc_items q)"
  | (evicted) k0 where "qc_items (QueryResultCache_Set q ord t k v) =
      AList.update k \<lparr>qi_Results = v, qi_CreatedAt = t\<rparr> (AList.delete k0 (qc_items q))"
proof -
  let ?q = "if int (length (qc_items q)) \<ge> qc_maxSize q then QueryResultCache_evictOldest q ord else q"
  have "qc_items (QueryResultCache_Set q ord t k v) =
      AList.update k \<lparr>qi_Results = v, qi_CreatedAt = t\<rparr> (qc_items ?q)"
    by (simp add: QueryResultCache_Set_def Let_def)
  moreover have "qc_items ?q = qc_items q \<or> (\<exists>k0. qc_items ?q = AList.delete k0 (qc_items q))"
    using qc_evict_items [of q ord] by auto
  ultimately show thesis using that by auto
qed

lemma qc_Set_entry:
  "qc_entry (QueryResultCache_Set q ord t k v) k = Some (v, t)"
  by (cases rule: qc_Set_items [of q ord t k v]) (simp_all add: qc_entry_def update_conv')

lemma qc_Set_sim:
  "qc_entry (QueryResultCache_Set q ord t k v) \<subseteq>\<^sub>m (qc_entry q)(k \<mapsto> (v, t))"
  by (cases rule: qc_Set_items [of q ord t k v])
    (auto simp: qc_entry_def update_conv' delete_conv' map_le_def)

lemma qc_Set_inv: "qc_inv q \<Longrightarrow> qc_inv (QueryResultCache_Set q ord t k v)"
  by (cases rule: qc_Set_items [of q ord t k v]) (auto simp: qc_inv_def distinct_update distinct_delete)

interpretation query_cache: ttl_cache qc_inv query_op qc_entry qc_ttl QueryResultCache_Get query_step
proof unfold_locales
  fix c :: "'v QueryResultCache" and now k
  show "QueryResultCache_Get c now k = (case qc_entry c k of None \<Rightarrow> None
      | Some (v, t) \<Rightarrow> if now - t > qc_ttl c then None else Some v)"
    by (simp add: QueryResultCache_Get_def qc_entry_def split: option.splits)
next
  fix c :: "'v QueryResultCache" and op
  show "qc_ttl (query_step op c) = qc_ttl c"
    by (cases op) (simp_all add: QueryResultCache_Set_def QueryResultCache_evictOldest_def
        QueryResultCache_Clear_def Let_def)
next
  fix c :: "'v QueryResultCache" and op :: "('v pick_order, 'v) cache_op"
  assume "qc_inv c" "query_op op"
  then show "qc_inv (query_step op c)"
    by (cases op) (simp_all add: qc_Set_inv, simp add: QueryResultCache_Clear_def qc_inv_def)
  show "qc_entry (query_step op c) \<subseteq>\<^sub>m spec_step op (qc_entry c)"
    using \<open>query_op op\<close>
    by (cases op) (simp_all add: qc_Set_sim, simp add: QueryResultCache_Clear_def map_le_def dom_def qc_entry_def)
qed (simp add: qc_Set_entry)

text \<open>
  The eviction picks an entry with the least creation time, and keeps the number of entries
  within the limit as long as no entry has the empty key.
\<close>

lemma oldest_loop_in:
  "fst (oldest_loop (k0, t0) xs) = k0 \<or> fst (oldest_loop (k0, t0) xs) \<in> fst ` set xs"
  by (induction "(k0, t0)" xs arbitrary: k0 t0 rule: oldest_loop.induct) auto

lemma oldest_loop_first:
  assumes "xs \<noteq> []"
  shows "fst (oldest_loop (k0, 0) xs) \<in> fst ` set xs"
proof -
  obtain k v rest where "xs = (k, v) # rest" using assms by (cases xs) auto
  then show ?thesis using oldest_loop_in [of k "qi_CreatedAt v" rest] by (auto simp: IsZero_def)
qed

lemma oldest_loop_least:
  assumes "\<forall>x \<in> set xs. qi_CreatedAt (snd x) > 0" "t0 > 0" "oldest_loop (k0, t0) xs = (k', t')"
  shows "t' \<le> t0 \<and> (\<forall>x \<in> set xs. t' \<le> qi_CreatedAt (snd x)) \<and>
    ((k', t') = (k0, t0) \<or> (\<exists>v. (k', v) \<in> set xs \<and> t' = qi_CreatedAt v))"
  using assms
proof (induction xs arbitrary: k0 t0)
  case (Cons x xs)
  obtain k v where x: "x = (k, v)" by fastforce
  show ?case
  proof (cases "qi_CreatedAt v < t0")
    case True
    then have "oldest_loop (k, qi_CreatedAt v) xs = (k', t')" using Cons.prems(3) x by simp
    with Cons.IH [of "qi_CreatedAt v" k] Cons.prems(1) True x show ?thesis by auto
  next
    case False
    then have "oldest_loop (k0, t0) xs = (k', t')" using Cons.prems(2,3) x by (simp add: IsZero_def)
    with Cons.IH [of t0 k0] Cons.prems(1,2) False x show ?thesis by auto
  qed
qed simp

lemma oldest_loop_oldest:
  assumes "\<forall>x \<in> set xs. qi_CreatedAt (snd x) > 0" "xs \<noteq> []"
  shows "\<exists>v. (fst (oldest_loop (k0, 0) xs), v) \<in> set xs \<and>
    (\<forall>x \<in> set xs. qi_CreatedAt v \<le> qi_CreatedAt (snd x))"
proof -
  obtain k v rest where x: "xs = (k, v) # rest" using assms by (cases xs) auto
  obtain k' t' where r: "oldest_loop (k, qi_CreatedAt v) rest = (k', t')" by fastforce
  then have "oldest_loop (k0, 0) xs = (k', t')" by (simp add: x IsZero_def)
  moreover have "t' \<le> qi_CreatedAt v" "\<forall>x \<in> set rest. t' \<le> qi_CreatedAt (snd x)"
    "(k', t') = (k, qi_CreatedAt v) \<or> (\<exists>w. (k', w) \<in> set rest \<and> t' = qi_CreatedAt w)"
    using oldest_loop_least [OF _ _ r] assms(1) x by auto
  ultimately show ?thesis unfolding x by auto
qed

lemma length_AList_delete:
  "k \<in> fst ` set xs \<Longrightarrow> length (AList.delete k xs) < length xs"
  unfolding AList.delete_eq by (force intro!: length_filter_less)

lemma length_AList_update: "length (AList.update k v xs) \<le> length xs + 1"
  by (induction xs) auto

lemma AList_update_new: "k \<notin> fst ` set xs \<Longrightarrow> AList.update k v xs = xs @ [(k, v)]"
  by (induction xs) auto

lemma qc_Set_bound:
  assumes "mset ord = mset (qc_items q)" "'''' \<notin> fst ` set (qc_items q)"
    and "qc_maxSize q \<ge> 1" "int (length (qc_items q)) \<le> qc_maxSize q"
  shows "int (length (qc_items (QueryResultCache_Set q ord t k v))) \<le> qc_maxSize q"
proof (cases "int (length (qc_items q)) \<ge> qc_maxSize q")
  case True
  have s: "set ord = set (qc_items q)" using assms(1) by (metis set_mset_mset)
  have "ord \<noteq> []" using True assms(1,3) by auto
  then have k0: "fst (oldest_loop ('''', 0) ord) \<in> fst ` set (qc_items q)"
    using oldest_loop_first s by metis
  then have "fst (oldest_loop ('''', 0) ord) \<noteq> ''''" using assms(2) by metis
  then have "length (qc_items (QueryResultCache_evictOldest q ord)) < length (qc_items q)"
    using length_AList_delete [OF k0] by (simp add: QueryResultCache_evictOldest_def Let_def)
  then show ?thesis
    using True assms(4) length_AList_update [of k "\<lparr>qi_Results = v, qi_CreatedAt = t\<rparr>"
        "qc_items (QueryResultCache_evictOldest q ord)"]
    by (simp add: QueryResultCache_Set_def Let_def)
next
  case False
  then show ?thesis
    using length_AList_update [of k "\<lparr>qi_Results = v, qi_CreatedAt = t\<rparr>" "qc_items q"]
    by (simp add: QueryResultCache_Set_def Let_def)
qed

section \<open>The LRU specification\<close>

text \<open>
  What \<^verbatim>\<open>ObjectCache\<close> promises, on the list of its items with the most recently used first:
  a set drops the old item of the key, keeps the longest prefix that leaves room for the new
  item, and puts the new item in front. The code instead evicts from the back, one by one.
\<close>

definition total_size :: "CacheItem list \<Rightarrow> int" where
  "total_size xs = sum_list (map ci_Size xs)"

fun fitting :: "int \<Rightarrow> CacheItem list \<Rightarrow> CacheItem list" where
  "fitting cap [] = []"
| "fitting cap (x # xs) = (if ci_Size x \<le> cap then x # fitting (cap - ci_Size x) xs else [])"

definition lru_set :: "int \<Rightarrow> CacheItem \<Rightarrow> CacheItem list \<Rightarrow> CacheItem list" where
  "lru_set maxBytes item xs =
     item # fitting (maxBytes - ci_Size item) (filter (\<lambda>i. ci_Key i \<noteq> ci_Key item) xs)"

lemma total_size_simps [simp]: "total_size [] = 0" "total_size (x # xs) = ci_Size x + total_size xs"
  "total_size (xs @ ys) = total_size xs + total_size ys"
  by (simp_all add: total_size_def)

lemma total_size_nonneg: "\<forall>x \<in> set xs. ci_Size x \<ge> 0 \<Longrightarrow> total_size xs \<ge> 0"
  by (induction xs) auto

lemma fitting_all: "\<forall>x \<in> set xs. ci_Size x \<ge> 0 \<Longrightarrow> total_size xs \<le> cap \<Longrightarrow> fitting cap xs = xs"
proof (induction xs arbitrary: cap)
  case (Cons x xs)
  then show ?case using total_size_nonneg [of xs] by simp
qed simp

lemma fitting_drop: "total_size (xs @ [y]) > cap \<Longrightarrow> fitting cap (xs @ [y]) = fitting cap xs"
  by (induction xs arbitrary: cap) auto

lemma fitting_total:
  "\<forall>x \<in> set xs. ci_Size x \<ge> 0 \<Longrightarrow> total_size (fitting cap xs) \<le> max 0 cap"
proof (induction xs arbitrary: cap)
  case (Cons x xs)
  then show ?case using Cons.IH [of "cap - ci_Size x"] by (auto simp: max_def split: if_splits)
qed simp

lemma fitting_subset: "set (fitting cap xs) \<subseteq> set xs"
  by (induction xs arbitrary: cap) auto

section \<open>ObjectCache implements the specification\<close>

text \<open>
  The invariant with a set \<open>X\<close> of keys whose map entry may be stale: between the removal of
  the old element and the insertion of the new one, \<^verbatim>\<open>Set\<close> leaves a stale entry behind.
\<close>

definition lru_items :: "ObjectCache \<Rightarrow> CacheItem list" where
  "lru_items c = map (oc_heap c) (oc_lruList c)"

definition oc_wf :: "string set \<Rightarrow> ObjectCache \<Rightarrow> bool" where
  "oc_wf X c \<longleftrightarrow>
     distinct (oc_lruList c) \<and> distinct (map fst (oc_items c)) \<and>
     (\<forall>k. k \<notin> X \<longrightarrow> (\<forall>e. map_of (oc_items c) k = Some e \<longleftrightarrow>
        e \<in> set (oc_lruList c) \<and> ci_Key (oc_heap c e) = k)) \<and>
     (\<forall>e \<in> set (oc_lruList c). ci_Key (oc_heap c e) \<notin> X \<and> e < oc_next c \<and>
        ci_Size (oc_heap c e) = int (length (ci_Value (oc_heap c e)))) \<and>
     oc_size c = total_size (lru_items c)"

definition oc_inv :: "ObjectCache \<Rightarrow> bool" where
  "oc_inv c \<longleftrightarrow> oc_wf {} c"

lemma total_size_remove1:
  "e \<in> set es \<Longrightarrow> total_size (map h (remove1 e es)) = total_size (map h es) - ci_Size (h e)"
  by (induction es) auto

lemma oc_wf_sizes: "oc_wf X c \<Longrightarrow> \<forall>x \<in> set (lru_items c). ci_Size x \<ge> 0"
  by (auto simp: oc_wf_def lru_items_def)

lemma oc_wf_keys_inj:
  assumes "oc_wf X c" "e \<in> set (oc_lruList c)" "e' \<in> set (oc_lruList c)"
    and "ci_Key (oc_heap c e) = ci_Key (oc_heap c e')"
  shows "e = e'"
proof -
  have "ci_Key (oc_heap c e) \<notin> X" using assms(1,2) by (simp add: oc_wf_def)
  then have "map_of (oc_items c) (ci_Key (oc_heap c e)) = Some e"
    "map_of (oc_items c) (ci_Key (oc_heap c e)) = Some e'"
    using assms unfolding oc_wf_def by metis+
  then show ?thesis by simp
qed

text \<open>Removing an element, from the list alone or from list and map.\<close>

lemma remove_element_items:
  assumes "oc_wf X c" "e \<in> set (oc_lruList c)"
  shows "map (oc_heap c) (remove1 e (oc_lruList c)) =
    filter (\<lambda>i. ci_Key i \<noteq> ci_Key (oc_heap c e)) (lru_items c)"
proof -
  have d: "distinct (oc_lruList c)" using assms(1) by (simp add: oc_wf_def)
  have "remove1 e (oc_lruList c) = filter (\<lambda>x. x \<noteq> e) (oc_lruList c)"
    unfolding distinct_remove1_removeAll [OF d] removeAll_filter_not_eq by (rule filter_cong) auto
  also have "\<dots> = filter (\<lambda>x. ci_Key (oc_heap c x) \<noteq> ci_Key (oc_heap c e)) (oc_lruList c)"
    using oc_wf_keys_inj [OF assms(1)] assms(2) by (intro filter_cong) auto
  finally show ?thesis by (simp add: lru_items_def filter_map comp_def)
qed

lemma deleteElement_wf:
  assumes "oc_wf X c" "e \<in> set (oc_lruList c)"
  shows "oc_wf X (deleteElement c e)"
proof -
  have inj: "e' = e" if "e' \<in> set (oc_lruList c)" "ci_Key (oc_heap c e') = ci_Key (oc_heap c e)" for e'
    using oc_wf_keys_inj [OF assms(1)] that assms(2) by blast
  have d: "distinct (oc_lruList c)" "distinct (map fst (oc_items c))" using assms(1) by (simp_all add: oc_wf_def)
  have "map_of (AList.delete (ci_Key (oc_heap c e)) (oc_items c)) k = Some x \<longleftrightarrow>
      x \<in> set (oc_lruList c) - {e} \<and> ci_Key (oc_heap c x) = k" if "k \<notin> X" for k x
    using assms that inj by (auto simp: oc_wf_def delete_conv')
  with assms d show ?thesis
    by (auto simp: oc_wf_def deleteElement_def Let_def distinct_delete lru_items_def total_size_remove1)
qed

lemma deleteElement_lru:
  assumes "oc_wf X c" "e \<in> set (oc_lruList c)"
  shows "lru_items (deleteElement c e) = filter (\<lambda>i. ci_Key i \<noteq> ci_Key (oc_heap c e)) (lru_items c)"
  using remove_element_items [OF assms] by (simp add: lru_items_def deleteElement_def Let_def)

lemma evictOldest_lru:
  assumes "oc_wf X c"
  shows "oc_wf X (evictOldest c)" "lru_items (evictOldest c) = butlast (lru_items c)"
proof -
  show "oc_wf X (evictOldest c)"
    using deleteElement_wf [OF assms] assms by (simp add: evictOldest_def)
  have "remove1 (last es) es = butlast es" if "distinct es" "es \<noteq> []" for es :: "nat list"
    using that by (induction es) auto
  then show "lru_items (evictOldest c) = butlast (lru_items c)"
    using assms by (auto simp: evictOldest_def deleteElement_def Let_def lru_items_def map_butlast oc_wf_def)
qed

lemma evict_loop_spec:
  assumes "oc_wf X c"
  shows "oc_wf X (evict_loop c n) \<and>
    lru_items (evict_loop c n) = fitting (oc_maxBytes c - n) (lru_items c)"
  using assms
proof (induction c n rule: evict_loop.induct)
  case (1 c n)
  note size = 1(2) [unfolded oc_wf_def]
  show ?case
  proof (cases "oc_size c + n > oc_maxBytes c \<and> oc_lruList c \<noteq> []")
    case True
    have "lru_items c = butlast (lru_items c) @ [last (lru_items c)]"
      using True by (simp add: lru_items_def)
    then have "fitting (oc_maxBytes c - n) (lru_items c) = fitting (oc_maxBytes c - n) (butlast (lru_items c))"
      using fitting_drop [of "oc_maxBytes c - n" "butlast (lru_items c)" "last (lru_items c)"] True size
      by simp
    moreover have "oc_maxBytes (evictOldest c) = oc_maxBytes c"
      by (simp add: evictOldest_def deleteElement_def Let_def)
    ultimately show ?thesis
      using 1(1) [OF True evictOldest_lru(1) [OF 1(2)]] evictOldest_lru(2) [OF 1(2)] True
      by (subst (1 2) evict_loop.simps) simp
  next
    case False
    then have "fitting (oc_maxBytes c - n) (lru_items c) = lru_items c"
      using fitting_all [OF oc_wf_sizes [OF 1(2)]] size by (auto simp: lru_items_def)
    with False 1(2) show ?thesis by (subst (1 2) evict_loop.simps) auto
  qed
qed

lemma evict_loop_frame:
  "oc_maxBytes (evict_loop c n) = oc_maxBytes c \<and> oc_ttl (evict_loop c n) = oc_ttl c \<and>
   oc_heap (evict_loop c n) = oc_heap c \<and> oc_next (evict_loop c n) = oc_next c"
proof (induction c n rule: evict_loop.induct)
  case (1 c n)
  have "oc_maxBytes (evictOldest c) = oc_maxBytes c \<and> oc_ttl (evictOldest c) = oc_ttl c \<and>
    oc_heap (evictOldest c) = oc_heap c \<and> oc_next (evictOldest c) = oc_next c"
    by (simp add: evictOldest_def deleteElement_def Let_def)
  with 1 show ?case by (auto simp: evict_loop.simps [of c n])
qed

text \<open>The state of \<^verbatim>\<open>Set\<close> after the old element of the key is gone.\<close>

definition unlink :: "ObjectCache \<Rightarrow> string \<Rightarrow> ObjectCache" where
  "unlink c key =
     (case map_of (oc_items c) key of
        None \<Rightarrow> c
      | Some elem \<Rightarrow> c\<lparr>oc_size := oc_size c - ci_Size (oc_heap c elem),
                       oc_lruList := remove1 elem (oc_lruList c)\<rparr>)"

lemma unlink_spec:
  assumes "oc_inv c"
  shows "oc_wf {key} (unlink c key)"
    and "lru_items (unlink c key) = filter (\<lambda>i. ci_Key i \<noteq> key) (lru_items c)"
    and "oc_maxBytes (unlink c key) = oc_maxBytes c" "oc_ttl (unlink c key) = oc_ttl c"
    and "oc_heap (unlink c key) = oc_heap c"
proof -
  have w: "oc_wf {} c" using assms by (simp add: oc_inv_def)
  have "oc_wf {key} (unlink c key) \<and> lru_items (unlink c key) = filter (\<lambda>i. ci_Key i \<noteq> key) (lru_items c)"
  proof (cases "map_of (oc_items c) key")
    case None
    with w have "\<forall>e \<in> set (oc_lruList c). ci_Key (oc_heap c e) \<noteq> key" by (fastforce simp: oc_wf_def)
    with None w show ?thesis by (auto simp: unlink_def oc_wf_def lru_items_def filter_id_conv)
  next
    case (Some e)
    with w have e: "e \<in> set (oc_lruList c)" "ci_Key (oc_heap c e) = key" by (auto simp: oc_wf_def)
    have d: "distinct (oc_lruList c)" using w by (simp add: oc_wf_def)
    have "ci_Key (oc_heap c x) \<noteq> key" if "x \<in> set (oc_lruList c)" "x \<noteq> e" for x
      using oc_wf_keys_inj [OF w] e that by metis
    with Some w e d have "oc_wf {key} (unlink c key)"
      by (auto simp: unlink_def oc_wf_def lru_items_def total_size_remove1)
    moreover have "lru_items (unlink c key) = filter (\<lambda>i. ci_Key i \<noteq> key) (lru_items c)"
      using Some e remove_element_items [OF w e(1)] by (simp add: unlink_def lru_items_def)
    ultimately show ?thesis by simp
  qed
  then show "oc_wf {key} (unlink c key)"
    "lru_items (unlink c key) = filter (\<lambda>i. ci_Key i \<noteq> key) (lru_items c)" by auto
qed (auto simp: unlink_def split: option.splits)

definition new_item :: "gotime \<Rightarrow> gotime \<Rightarrow> string \<Rightarrow> byte list \<Rightarrow> CacheItem" where
  "new_item t0 t1 key value =
     \<lparr>ci_Key = key, ci_Value = value, ci_Size = int (length value), ci_CreatedAt = t0,
      ci_AccessedAt = t1, ci_AccessCount = 1\<rparr>"

lemma push_front:
  assumes "oc_wf {key} c" "ci_Key item = key" "ci_Size item = int (length (ci_Value item))"
    and "c' = c\<lparr>oc_heap := (oc_heap c)(oc_next c := item), oc_next := oc_next c + 1,
            oc_lruList := oc_next c # oc_lruList c,
            oc_items := AList.update key (oc_next c) (oc_items c),
            oc_size := oc_size c + ci_Size item\<rparr>"
  shows "oc_inv c'" "lru_items c' = item # lru_items c"
proof -
  have fresh: "oc_next c \<notin> set (oc_lruList c)" using assms(1) by (fastforce simp: oc_wf_def)
  then have h: "map (oc_heap c') (oc_lruList c) = map (oc_heap c) (oc_lruList c)"
    using assms(4) by auto
  then show l: "lru_items c' = item # lru_items c" by (simp add: lru_items_def assms(4))
  have "map_of (oc_items c') k = Some e \<longleftrightarrow> e \<in> set (oc_lruList c') \<and> ci_Key (oc_heap c' e) = k" for k e
    using assms fresh by (cases "k = key") (auto simp: oc_wf_def update_conv')
  moreover have "\<forall>e \<in> set (oc_lruList c'). e < oc_next c' \<and>
        ci_Size (oc_heap c' e) = int (length (ci_Value (oc_heap c' e)))"
    using assms fresh by (auto simp: oc_wf_def)
  moreover have "oc_size c' = total_size (lru_items c')"
    using assms(1,4) l by (simp add: oc_wf_def)
  moreover have "distinct (oc_lruList c')" "distinct (map fst (oc_items c'))"
    using assms fresh by (auto simp: oc_wf_def distinct_update)
  ultimately show "oc_inv c'" by (simp add: oc_inv_def oc_wf_def)
qed

lemma ObjectCache_Set_refines:
  assumes "oc_inv c"
  shows "oc_inv (ObjectCache_Set c t0 t1 key v) \<and>
    lru_items (ObjectCache_Set c t0 t1 key v) =
      lru_set (oc_maxBytes c) (new_item t0 t1 key v) (lru_items c)"
proof -
  let ?n = "int (length v)" and ?i = "new_item t0 t1 key v"
  let ?c = "evict_loop (unlink c key) ?n"
  have e: "oc_wf {key} ?c" "lru_items ?c = fitting (oc_maxBytes c - ?n) (filter (\<lambda>i. ci_Key i \<noteq> key) (lru_items c))"
    using evict_loop_spec [OF unlink_spec(1) [OF assms]] unlink_spec [OF assms] by simp_all
  have "ObjectCache_Set c t0 t1 key v =
      ?c\<lparr>oc_heap := (oc_heap ?c)(oc_next ?c := ?i), oc_next := oc_next ?c + 1,
          oc_lruList := oc_next ?c # oc_lruList ?c, oc_items := AList.update key (oc_next ?c) (oc_items ?c),
          oc_size := oc_size ?c + ci_Size ?i\<rparr>"
    by (simp add: ObjectCache_Set_def unlink_def new_item_def Let_def)
  with push_front [OF e(1), of ?i] e(2) show ?thesis
    by (simp add: new_item_def lru_set_def)
qed

lemma ObjectCache_Set_frame:
  "oc_maxBytes (ObjectCache_Set c t0 t1 key v) = oc_maxBytes c" "oc_ttl (ObjectCache_Set c t0 t1 key v) = oc_ttl c"
  using evict_loop_frame by (auto simp: ObjectCache_Set_def Let_def split: option.splits)

lemma ObjectCache_Delete_refines:
  assumes "oc_inv c"
  shows "oc_inv (ObjectCache_Delete c key) \<and>
    lru_items (ObjectCache_Delete c key) = filter (\<lambda>i. ci_Key i \<noteq> key) (lru_items c)"
proof (cases "map_of (oc_items c) key")
  case None
  then have "\<forall>e \<in> set (oc_lruList c). ci_Key (oc_heap c e) \<noteq> key"
    using assms by (fastforce simp: oc_inv_def oc_wf_def)
  with None assms show ?thesis by (simp add: ObjectCache_Delete_def lru_items_def filter_id_conv)
next
  case (Some e)
  then have "e \<in> set (oc_lruList c)" "ci_Key (oc_heap c e) = key"
    using assms by (auto simp: oc_inv_def oc_wf_def)
  with Some assms deleteElement_wf [of "{}" c e] deleteElement_lru [of "{}" c e]
  show ?thesis by (simp add: ObjectCache_Delete_def oc_inv_def)
qed

text \<open>\<^verbatim>\<open>Get\<close> moves a live item to the front and drops an expired one.\<close>

definition touch :: "gotime \<Rightarrow> CacheItem \<Rightarrow> CacheItem" where
  "touch t1 i = i\<lparr>ci_AccessedAt := t1, ci_AccessCount := ci_AccessCount i + 1\<rparr>"

definition lru_get ::
    "int \<Rightarrow> gotime \<Rightarrow> gotime \<Rightarrow> string \<Rightarrow> CacheItem list \<Rightarrow> CacheItem list \<times> byte list option" where
  "lru_get ttl t0 t1 key xs =
     (case find (\<lambda>i. ci_Key i = key) xs of
        None \<Rightarrow> (xs, None)
      | Some i \<Rightarrow>
          let rest = filter (\<lambda>i. ci_Key i \<noteq> key) xs in
          if t0 - ci_CreatedAt i > ttl then (rest, None) else (touch t1 i # rest, Some (ci_Value i)))"

lemma find_SomeD: "find P xs = Some x \<Longrightarrow> P x \<and> x \<in> set xs"
  by (induction xs) (auto split: if_splits)

lemma find_lru:
  assumes "oc_inv c"
  shows "find (\<lambda>i. ci_Key i = key) (lru_items c) = map_option (oc_heap c) (map_of (oc_items c) key)"
proof (cases "map_of (oc_items c) key")
  case None
  then have "\<forall>e \<in> set (oc_lruList c). ci_Key (oc_heap c e) \<noteq> key"
    using assms by (fastforce simp: oc_inv_def oc_wf_def)
  with None show ?thesis by (auto simp: find_None_iff lru_items_def)
next
  case (Some e)
  have w: "oc_wf {} c" using assms by (simp add: oc_inv_def)
  then have e: "e \<in> set (oc_lruList c)" "ci_Key (oc_heap c e) = key" using Some by (auto simp: oc_wf_def)
  then obtain i where i: "find (\<lambda>i. ci_Key i = key) (lru_items c) = Some i"
    by (metis (mono_tags, lifting) find_None_iff imageI list.set_map lru_items_def not_None_eq)
  then obtain e' where "e' \<in> set (oc_lruList c)" "i = oc_heap c e'" "ci_Key i = key"
    using find_SomeD [OF i] by (auto simp: lru_items_def)
  with oc_wf_keys_inj [OF w] e have "i = oc_heap c e" by metis
  with i Some show ?thesis by simp
qed

lemma ObjectCache_hit:
  assumes "oc_inv c" "map_of (oc_items c) key = Some e"
    and "c' = c\<lparr>oc_heap := (oc_heap c)(e := touch t1 (oc_heap c e)),
            oc_lruList := e # remove1 e (oc_lruList c), oc_hits := oc_hits c + 1\<rparr>"
  shows "oc_inv c'" "lru_items c' = touch t1 (oc_heap c e) # filter (\<lambda>i. ci_Key i \<noteq> key) (lru_items c)"
proof -
  have w: "oc_wf {} c" using assms(1) by (simp add: oc_inv_def)
  then have e: "e \<in> set (oc_lruList c)" "ci_Key (oc_heap c e) = key" using assms(2) by (auto simp: oc_wf_def)
  have d: "distinct (oc_lruList c)" using w by (simp add: oc_wf_def)
  have h: "map (oc_heap c') (remove1 e (oc_lruList c)) = map (oc_heap c) (remove1 e (oc_lruList c))"
    using d by (auto simp: assms(3))
  then have l: "lru_items c' = touch t1 (oc_heap c e) # map (oc_heap c) (remove1 e (oc_lruList c))"
    by (simp add: lru_items_def assms(3))
  then show "lru_items c' = touch t1 (oc_heap c e) # filter (\<lambda>i. ci_Key i \<noteq> key) (lru_items c)"
    using remove_element_items [OF w e(1)] e(2) by simp
  have s: "set (oc_lruList c') = set (oc_lruList c)" "distinct (oc_lruList c')"
    using d e by (auto simp: assms(3))
  have k: "ci_Key (oc_heap c' x) = ci_Key (oc_heap c x)" "ci_Size (oc_heap c' x) = ci_Size (oc_heap c x)"
    "ci_Value (oc_heap c' x) = ci_Value (oc_heap c x)" for x
    by (simp_all add: assms(3) touch_def)
  have "total_size (lru_items c') = total_size (lru_items c)"
    using total_size_remove1 [OF e(1), of "oc_heap c"]
    by (simp add: l lru_items_def [of c] touch_def)
  with w s k show "oc_inv c'" by (simp add: oc_inv_def oc_wf_def) (simp add: assms(3))
qed

lemma ObjectCache_Get_refines:
  assumes "oc_inv c"
  shows "oc_inv (fst (ObjectCache_Get c t0 t1 key)) \<and>
    (lru_items (fst (ObjectCache_Get c t0 t1 key)), snd (ObjectCache_Get c t0 t1 key)) =
      lru_get (oc_ttl c) t0 t1 key (lru_items c)"
proof (cases "map_of (oc_items c) key")
  case None
  then show ?thesis
    using assms find_lru [OF assms, of key]
    by (simp add: ObjectCache_Get_def lru_get_def oc_inv_def oc_wf_def lru_items_def)
next
  case (Some e)
  then have e: "e \<in> set (oc_lruList c)" "ci_Key (oc_heap c e) = key"
    using assms by (auto simp: oc_inv_def oc_wf_def)
  have f: "find (\<lambda>i. ci_Key i = key) (lru_items c) = Some (oc_heap c e)" using find_lru [OF assms] Some by simp
  show ?thesis
  proof (cases "t0 - ci_CreatedAt (oc_heap c e) > oc_ttl c")
    case True
    have "oc_inv (deleteElement c e)" using deleteElement_wf e(1) assms by (simp add: oc_inv_def)
    then show ?thesis
      using True Some f e deleteElement_lru [of "{}" c e] assms
      by (simp add: ObjectCache_Get_def lru_get_def Let_def oc_inv_def)
        (simp add: oc_wf_def lru_items_def)
  next
    case False
    then show ?thesis
      using Some f ObjectCache_hit [OF assms Some refl, of t1]
      by (simp add: ObjectCache_Get_def lru_get_def Let_def touch_def)
  qed
qed

section \<open>ObjectCache meets the contract\<close>

definition list_entry :: "CacheItem list \<Rightarrow> string \<rightharpoonup> byte list \<times> gotime" where
  "list_entry xs k = map_option (\<lambda>i. (ci_Value i, ci_CreatedAt i)) (find (\<lambda>i. ci_Key i = k) xs)"

definition oc_entry :: "ObjectCache \<Rightarrow> string \<rightharpoonup> byte list \<times> gotime" where
  "oc_entry c = list_entry (lru_items c)"

fun object_step :: "(gotime, byte list) cache_op \<Rightarrow> ObjectCache \<Rightarrow> ObjectCache" where
  "object_step (OpGet t1 t0 k) c = fst (ObjectCache_Get c t0 t1 k)"
| "object_step (OpSet t1 t0 k v) c = ObjectCache_Set c t0 t1 k v"
| "object_step (OpDelete k) c = ObjectCache_Delete c k"
| "object_step OpClear c = ObjectCache_Clear c"

lemma NewObjectCache_inv: "oc_inv (NewObjectCache maxBytes ttl)"
  by (simp add: oc_inv_def oc_wf_def NewObjectCache_def lru_items_def)

lemma ObjectCache_Clear_refines:
  "oc_inv c \<Longrightarrow> oc_inv (ObjectCache_Clear c) \<and> lru_items (ObjectCache_Clear c) = []"
  by (simp add: ObjectCache_Clear_def oc_inv_def oc_wf_def lru_items_def)

lemma object_step_inv: "oc_inv c \<Longrightarrow> oc_inv (object_step op c)"
  by (cases op)
    (simp_all add: ObjectCache_Set_refines ObjectCache_Get_refines ObjectCache_Delete_refines
      ObjectCache_Clear_refines)

lemma object_step_frame:
  "oc_ttl (object_step op c) = oc_ttl c \<and> oc_maxBytes (object_step op c) = oc_maxBytes c"
  by (cases op)
    (auto simp: ObjectCache_Set_frame ObjectCache_Get_def ObjectCache_Delete_def ObjectCache_Clear_def
      deleteElement_def Let_def split: option.splits)

lemma list_entry_simps [simp]:
  "list_entry [] k = None"
  "list_entry (x # xs) k = (if ci_Key x = k then Some (ci_Value x, ci_CreatedAt x) else list_entry xs k)"
  by (simp_all add: list_entry_def)

lemma list_entry_filter [simp]:
  "list_entry (filter (\<lambda>i. ci_Key i \<noteq> k) xs) k' = (if k' = k then None else list_entry xs k')"
  by (induction xs) auto

lemma list_entry_fitting: "list_entry (fitting cap xs) k = Some e \<Longrightarrow> list_entry xs k = Some e"
  by (induction xs arbitrary: cap) (auto split: if_splits)

lemma map_leI: "(\<And>k e. m k = Some e \<Longrightarrow> m' k = Some e) \<Longrightarrow> m \<subseteq>\<^sub>m m'"
  by (auto simp: map_le_def)

lemma object_set_entry:
  "oc_inv c \<Longrightarrow> oc_entry (ObjectCache_Set c t0 t1 k v) k = Some (v, t0)"
  by (simp add: oc_entry_def ObjectCache_Set_refines lru_set_def new_item_def)

lemma object_set_sim:
  assumes "oc_inv c"
  shows "oc_entry (ObjectCache_Set c t0 t1 k v) \<subseteq>\<^sub>m (oc_entry c)(k \<mapsto> (v, t0))"
proof (rule map_leI)
  fix k' e
  assume "oc_entry (ObjectCache_Set c t0 t1 k v) k' = Some e"
  then show "((oc_entry c)(k \<mapsto> (v, t0))) k' = Some e"
    using assms
    by (cases "k' = k")
      (simp_all add: oc_entry_def ObjectCache_Set_refines lru_set_def new_item_def,
       metis (no_types, lifting) list_entry_filter list_entry_fitting)
qed

lemma object_get_sim:
  assumes "oc_inv c"
  shows "oc_entry (fst (ObjectCache_Get c t0 t1 k)) \<subseteq>\<^sub>m oc_entry c"
proof -
  have l: "lru_items (fst (ObjectCache_Get c t0 t1 k)) = fst (lru_get (oc_ttl c) t0 t1 k (lru_items c))"
    using ObjectCache_Get_refines [OF assms] by (metis fst_conv)
  show ?thesis
  proof (cases "find (\<lambda>i. ci_Key i = k) (lru_items c)")
    case None
    then show ?thesis using l by (simp add: oc_entry_def lru_get_def)
  next
    case (Some i)
    have k: "ci_Key i = k" "list_entry (lru_items c) k = Some (ci_Value i, ci_CreatedAt i)"
      using find_SomeD [OF Some] Some by (simp_all add: list_entry_def)
    show ?thesis
      using Some k l by (intro map_leI) (auto simp: oc_entry_def lru_get_def Let_def touch_def split: if_splits)
  qed
qed

lemma object_get_entry:
  assumes "oc_inv c"
  shows "snd (ObjectCache_Get c t0 t1 k) =
    (case oc_entry c k of None \<Rightarrow> None | Some (v, t) \<Rightarrow> if t0 - t > oc_ttl c then None else Some v)"
proof -
  have "snd (ObjectCache_Get c t0 t1 k) = snd (lru_get (oc_ttl c) t0 t1 k (lru_items c))"
    using ObjectCache_Get_refines [OF assms] by (metis snd_conv)
  then show ?thesis by (simp add: oc_entry_def list_entry_def lru_get_def Let_def split: option.splits)
qed

interpretation object_cache: ttl_cache oc_inv "\<lambda>_. True" oc_entry oc_ttl
  "\<lambda>c now k. snd (ObjectCache_Get c now now k)" object_step
proof unfold_locales
  fix c and op :: "(gotime, byte list) cache_op"
  assume "oc_inv c"
  then show "oc_entry (object_step op c) \<subseteq>\<^sub>m spec_step op (oc_entry c)"
  proof (cases op)
    case (OpDelete k)
    then show ?thesis using \<open>oc_inv c\<close>
      by (intro map_leI) (simp add: oc_entry_def ObjectCache_Delete_refines split: if_splits)
  qed (simp_all add: object_get_sim object_set_sim, simp add: oc_entry_def map_le_def dom_def
      ObjectCache_Clear_refines)
qed (simp_all add: object_get_entry object_step_inv object_step_frame object_set_entry)

text \<open>The size of the cache: what it reports is what it holds, and it exceeds the capacity only
  to hold a single item that is larger than the capacity.\<close>

definition within_capacity :: "ObjectCache \<Rightarrow> bool" where
  "within_capacity c \<longleftrightarrow> oc_size c \<le> oc_maxBytes c \<or> length (oc_lruList c) \<le> 1"

lemma oc_inv_size: "oc_inv c \<Longrightarrow> oc_size c = total_size (lru_items c) \<and> oc_size c \<ge> 0"
  using oc_wf_sizes [of "{}" c] total_size_nonneg by (auto simp: oc_inv_def oc_wf_def)

lemma total_size_filter:
  "\<forall>x \<in> set xs. ci_Size x \<ge> 0 \<Longrightarrow> total_size (filter P xs) \<le> total_size xs"
  by (induction xs) auto

lemma within_capacity_items:
  "oc_inv c \<Longrightarrow> within_capacity c \<longleftrightarrow> total_size (lru_items c) \<le> oc_maxBytes c \<or> length (lru_items c) \<le> 1"
  by (simp add: within_capacity_def oc_inv_size lru_items_def)

lemma lru_set_capacity:
  assumes "\<forall>x \<in> set xs. ci_Size x \<ge> 0" "ci_Size i \<ge> 0"
  shows "total_size (lru_set m i xs) \<le> max m (ci_Size i) \<and>
    (total_size (lru_set m i xs) \<le> m \<or> length (lru_set m i xs) \<le> 1)"
proof (cases "ci_Size i \<le> m")
  case True
  then show ?thesis
    using fitting_total [of "filter (\<lambda>j. ci_Key j \<noteq> ci_Key i) xs" "m - ci_Size i"] assms(1)
    by (simp add: lru_set_def)
next
  case False
  then have "fitting (m - ci_Size i) ys = []" if "\<forall>x \<in> set ys. ci_Size x \<ge> 0" for ys
    using that by (cases ys) auto
  with False assms(1) show ?thesis by (simp add: lru_set_def)
qed

lemma Set_sizes_bounded:
  assumes "oc_inv c"
  shows "oc_size (ObjectCache_Set c t0 t1 k v) \<le> max (oc_maxBytes c) (int (length v))"
    and "within_capacity (ObjectCache_Set c t0 t1 k v)"
proof -
  have s: "\<forall>x \<in> set (lru_items c). ci_Size x \<ge> 0" using assms oc_wf_sizes by (simp add: oc_inv_def)
  note r = ObjectCache_Set_refines [OF assms, of t0 t1 k v]
  show "oc_size (ObjectCache_Set c t0 t1 k v) \<le> max (oc_maxBytes c) (int (length v))"
    using r oc_inv_size lru_set_capacity [OF s, of "new_item t0 t1 k v" "oc_maxBytes c"]
    by (simp add: new_item_def)
  show "within_capacity (ObjectCache_Set c t0 t1 k v)"
    using r within_capacity_items lru_set_capacity [OF s, of "new_item t0 t1 k v" "oc_maxBytes c"]
    by (simp add: new_item_def ObjectCache_Set_frame)
qed

lemma deleteElement_capacity:
  assumes "oc_inv c" "within_capacity c" "e \<in> set (oc_lruList c)"
  shows "within_capacity (deleteElement c e)"
  using assms by (auto simp: within_capacity_def deleteElement_def Let_def oc_inv_def oc_wf_def length_remove1)

lemma object_step_capacity:
  assumes "oc_inv c" "within_capacity c"
  shows "within_capacity (object_step op c)"
proof (cases op)
  case (OpGet t1 t0 k)
  show ?thesis
  proof (cases "map_of (oc_items c) k")
    case None
    then show ?thesis using OpGet assms(2) by (simp add: ObjectCache_Get_def within_capacity_def)
  next
    case (Some e)
    then have e: "e \<in> set (oc_lruList c)" using assms(1) by (auto simp: oc_inv_def oc_wf_def)
    then have "length (oc_lruList c) > 0" by auto
    then show ?thesis
      using OpGet Some e assms(2) deleteElement_capacity [OF assms e]
      by (simp add: ObjectCache_Get_def within_capacity_def Let_def length_remove1)
  qed
next
  case (OpDelete k)
  then show ?thesis
    using assms deleteElement_capacity [OF assms]
    by (auto simp: ObjectCache_Delete_def oc_inv_def oc_wf_def split: option.splits)
next
  case OpClear
  then show ?thesis by (simp add: ObjectCache_Clear_def within_capacity_def)
qed (simp add: Set_sizes_bounded(2) [OF assms(1)])

lemma object_run_capacity:
  "oc_inv c \<Longrightarrow> within_capacity c \<Longrightarrow>
   oc_inv (fold object_step ops c) \<and> within_capacity (fold object_step ops c)"
  by (induction ops arbitrary: c) (simp_all add: object_step_inv object_step_capacity)

lemma NewObjectCache_capacity: "within_capacity (NewObjectCache maxBytes ttl)"
  by (simp add: within_capacity_def NewObjectCache_def)

section \<open>Whole runs\<close>

fun lru_step :: "int \<Rightarrow> int \<Rightarrow> (gotime, byte list) cache_op \<Rightarrow> CacheItem list \<Rightarrow> CacheItem list" where
  "lru_step maxBytes ttl (OpGet t1 t0 k) xs = fst (lru_get ttl t0 t1 k xs)"
| "lru_step maxBytes ttl (OpSet t1 t0 k v) xs = lru_set maxBytes (new_item t0 t1 k v) xs"
| "lru_step maxBytes ttl (OpDelete k) xs = filter (\<lambda>i. ci_Key i \<noteq> k) xs"
| "lru_step maxBytes ttl OpClear xs = []"

lemma object_step_lru:
  assumes "oc_inv c"
  shows "lru_items (object_step op c) = lru_step (oc_maxBytes c) (oc_ttl c) op (lru_items c)"
proof (cases op)
  case (OpGet t1 t0 k)
  then show ?thesis using ObjectCache_Get_refines [OF assms] by (metis fst_conv lru_step.simps(1) object_step.simps(1))
qed (simp_all add: ObjectCache_Set_refines ObjectCache_Delete_refines ObjectCache_Clear_refines assms)

lemma object_run_lru:
  "oc_inv c \<Longrightarrow> oc_inv (fold object_step ops c) \<and> oc_ttl (fold object_step ops c) = oc_ttl c \<and>
   lru_items (fold object_step ops c) = fold (lru_step (oc_maxBytes c) (oc_ttl c)) ops (lru_items c)"
  by (induction ops arbitrary: c) (simp_all add: object_step_inv object_step_lru object_step_frame)

lemma new_cache_lru: "lru_items (NewObjectCache maxBytes ttl) = []"
  by (simp add: lru_items_def NewObjectCache_def)

lemma evict_spares_empty_key:
  assumes "qc_inv q" "mset ord = mset (qc_items q)" "('''', i) \<in> set (qc_items q)" "0 < qi_CreatedAt i"
    and "\<forall>(k, v) \<in> set (qc_items q). k \<noteq> '''' \<longrightarrow> qi_CreatedAt i < qi_CreatedAt v"
  shows "QueryResultCache_evictOldest q ord = q"
proof -
  have s: "set ord = set (qc_items q)" using assms(2) by (metis set_mset_mset)
  have uniq: "v = i" if "('''', v) \<in> set ord" for v
    using that assms(1,3) s by (auto simp: qc_inv_def dest: eq_key_imp_eq_value)
  have "qi_CreatedAt (snd x) > 0" if "x \<in> set ord" for x
  proof (cases x)
    case (Pair k v)
    with that assms(4,5) s uniq show ?thesis by (cases "k = ''''") force+
  qed
  moreover have "ord \<noteq> []" using assms(3) s by auto
  ultimately obtain v where v: "(fst (oldest_loop ('''', 0) ord), v) \<in> set ord"
    "\<forall>x \<in> set ord. qi_CreatedAt v \<le> qi_CreatedAt (snd x)"
    using oldest_loop_oldest [of ord "''''"] by blast
  have "qi_CreatedAt v \<le> qi_CreatedAt i" using v(2) assms(3) s by force
  then have "fst (oldest_loop ('''', 0) ord) = ''''" using v(1) assms(5) s by force
  then show ?thesis by (simp add: QueryResultCache_evictOldest_def)
qed

text \<open>An entry with the empty key first, then \<open>n\<close> later ones.\<close>

definition growing :: "'v \<Rightarrow> nat \<Rightarrow> ('v pick_order, 'v) cache_op list" where
  "growing v n = OpSet (\<lambda>xs. xs) 1 '''' v #
     map (\<lambda>i. OpSet (\<lambda>xs. xs) (int i + 2) (replicate (Suc i) CHR ''x'') v) [0..<n]"

lemma growing_items:
  "qc_items (fold query_step (growing v n) (NewQueryResultCache ttl maxSize)) =
     ('''', \<lparr>qi_Results = v, qi_CreatedAt = 1\<rparr>) #
     map (\<lambda>i. (replicate (Suc i) CHR ''x'', \<lparr>qi_Results = v, qi_CreatedAt = int i + 2\<rparr>)) [0..<n]"
proof (induction n)
  case 0
  then show ?case
    by (simp add: growing_def QueryResultCache_Set_def NewQueryResultCache_def Let_def
        QueryResultCache_evictOldest_def)
next
  case (Suc n)
  let ?q = "fold query_step (growing v n) (NewQueryResultCache ttl maxSize)"
  let ?k = "replicate (Suc n) CHR ''x''"
  have keys: "map fst (qc_items ?q) = map (\<lambda>i. replicate i CHR ''x'') [0..<Suc n]"
    unfolding Suc by (simp add: map_upt_Suc del: upt_Suc)
  have "inj (\<lambda>i. replicate i CHR ''x'')" by (rule injI) simp
  then have "qc_inv ?q" using keys by (simp add: qc_inv_def distinct_map inj_on_def del: upt_Suc)
  moreover have "\<forall>(k, w) \<in> set (qc_items ?q). k \<noteq> '''' \<longrightarrow> 1 < qi_CreatedAt w" unfolding Suc by auto
  ultimately have "QueryResultCache_evictOldest ?q (qc_items ?q) = ?q"
    using Suc by (intro evict_spares_empty_key [where i = "\<lparr>qi_Results = v, qi_CreatedAt = 1\<rparr>"]) auto
  moreover have "?k \<notin> set (map fst (qc_items ?q))" unfolding keys by (auto simp del: replicate_Suc)
  then have "AList.update ?k x (qc_items ?q) = qc_items ?q @ [(?k, x)]" for x
    by (simp add: AList_update_new)
  ultimately show ?case
    using Suc by (simp add: growing_def QueryResultCache_Set_def Let_def)
qed


lemma query_run_bound:
  assumes "\<forall>op \<in> set ops. case op of OpSet pick t k v \<Rightarrow> k \<noteq> '''' \<and> (\<forall>xs. mset (pick xs) = mset xs) | _ \<Rightarrow> True"
    and "'''' \<notin> fst ` set (qc_items q)" "qc_maxSize q \<ge> 1" "int (length (qc_items q)) \<le> qc_maxSize q"
  shows "int (length (qc_items (fold query_step ops q))) \<le> qc_maxSize q"
  using assms
proof (induction ops arbitrary: q)
  case (Cons op ops)
  have "'''' \<notin> fst ` set (qc_items (query_step op q)) \<and> qc_maxSize (query_step op q) = qc_maxSize q \<and>
      int (length (qc_items (query_step op q))) \<le> qc_maxSize q"
  proof (cases op)
    case (OpSet pick t k v)
    with Cons.prems(1) have k: "k \<noteq> ''''" "mset (pick (qc_items q)) = mset (qc_items q)" by auto
    have "fst ` set (qc_items (QueryResultCache_evictOldest q ord)) \<subseteq> fst ` set (qc_items q)" for ord
      by (auto simp: QueryResultCache_evictOldest_def Let_def AList.delete_eq)
    then have "'''' \<notin> fst ` set (qc_items (query_step op q)) \<and> qc_maxSize (query_step op q) = qc_maxSize q"
      using OpSet k(1) Cons.prems(2)
      by (auto simp: QueryResultCache_Set_def Let_def dom_update QueryResultCache_evictOldest_def
          AList.delete_eq split: if_splits)
    with OpSet qc_Set_bound [OF k(2) Cons.prems(2-4)] show ?thesis by simp
  qed (use Cons.prems in \<open>auto simp: QueryResultCache_Clear_def\<close>)
  with Cons.IH [of "query_step op q"] Cons.prems show ?case by simp
qed simp

section \<open>Properties\<close>

text \<open>
  C8. \<^verbatim>\<open>ObjectCache\<close> is a byte-bounded LRU cache. After any sequence of operations on a new
  cache, its pointer structure (map, linked list, items) holds the list the specification
  holds after the same sequence: a set keeps the longest prefix of the most recently used
  items of other keys that leaves room and puts the new item in front, a hit moves its item
  to the front, an expired item is dropped, and the next read answers as the specification.
\<close>

theorem object_cache_refines_lru:
  "let c = fold object_step ops (NewObjectCache maxBytes ttl);
       xs = fold (lru_step (oc_maxBytes (NewObjectCache maxBytes ttl)) (oc_ttl (NewObjectCache maxBytes ttl))) ops []
   in lru_items c = xs \<and>
      snd (ObjectCache_Get c t0 t1 key) = snd (lru_get (oc_ttl (NewObjectCache maxBytes ttl)) t0 t1 key xs)"
  using object_run_lru [OF NewObjectCache_inv, of ops maxBytes ttl] ObjectCache_Get_refines
  by (metis (no_types, lifting) new_cache_lru snd_conv)

text \<open>
  What the object cache serves is current: after any sequence of operations on a new
  cache, a value returned for a key is the one last set under that key, with no deletion or
  clearing of it since, and it was set no longer ago than the time to live.
\<close>

theorem object_cache_serves_current:
  assumes "snd (ObjectCache_Get (fold object_step ops (NewObjectCache maxBytes ttl)) now now k) = Some v"
  shows "\<exists>t. fold spec_step ops Map.empty k = Some (v, t) \<and>
    now - t \<le> oc_ttl (NewObjectCache maxBytes ttl)"
proof -
  have "oc_entry (NewObjectCache maxBytes ttl) = Map.empty"
    by (simp add: oc_entry_def new_cache_lru fun_eq_iff)
  with object_cache.served_value [OF NewObjectCache_inv _ assms] show ?thesis by simp
qed

text \<open>A run with an overwrite: the cache holds three bytes, and the second write wins.\<close>

definition overwrite_run :: "(gotime, byte list) cache_op list" where
  "overwrite_run = [OpSet 1 1 ''a'' [1, 2], OpSet 2 2 ''b'' [3], OpSet 3 3 ''a'' [4], OpGet 4 4 ''b'']"

lemma overwrite_run_value:
  "snd (ObjectCache_Get (fold object_step overwrite_run (NewObjectCache 3 1000)) 9 9 ''a'') = Some [4]"
  by (simp add: overwrite_run_def NewObjectCache_def ObjectCache_Set_def ObjectCache_Get_def
      evict_loop.simps evictOldest_def deleteElement_def Let_def zero_item_def)

theorem object_cache_serves_current_witness:
  "\<exists>t. fold spec_step overwrite_run Map.empty ''a'' = Some ([4], t) \<and> 9 - t \<le> oc_ttl (NewObjectCache 3 1000)"
  by (rule object_cache_serves_current [OF overwrite_run_value])

text \<open>
  The object cache keeps to its byte budget: after any sequence of operations on a new
  cache the size it accounts is the sum of the sizes of the values it holds, and it exceeds
  the budget only while it holds a single item. Writing a value of at most the budget never
  exceeds it.
\<close>

theorem object_cache_capacity:
  "let c = fold object_step ops (NewObjectCache maxBytes ttl)
   in oc_size c = (\<Sum>i\<leftarrow>lru_items c. int (length (ci_Value i))) \<and>
      (oc_size c \<le> oc_maxBytes c \<or> length (oc_lruList c) \<le> 1) \<and>
      oc_size (ObjectCache_Set c t0 t1 k v) \<le> max (oc_maxBytes c) (int (length v))"
proof -
  let ?c = "fold object_step ops (NewObjectCache maxBytes ttl)"
  have r: "oc_inv ?c" "within_capacity ?c"
    using object_run_capacity [OF NewObjectCache_inv NewObjectCache_capacity] by auto
  have "total_size (lru_items ?c) = (\<Sum>i\<leftarrow>lru_items ?c. int (length (ci_Value i)))"
    using r(1) unfolding total_size_def
    by (intro arg_cong [where f = sum_list] map_cong) (auto simp: oc_inv_def oc_wf_def lru_items_def)
  then show ?thesis
    using r oc_inv_size [OF r(1)] Set_sizes_bounded(1) [OF r(1)] by (simp add: within_capacity_def)
qed

text \<open>
  The metadata cache answers exactly: after any sequence of operations on a new cache a
  read returns the value last set under the key and not deleted since, if it was set within
  the time to live, and nothing otherwise.
\<close>

theorem metadata_cache_exact:
  "MetadataCache_Get (fold metadata_step ops (NewMetadataCache ttl)) now k =
     (case fold spec_step ops Map.empty k of
        None \<Rightarrow> None
      | Some (v, t) \<Rightarrow> if now - t > mc_ttl (NewMetadataCache ttl :: 'v MetadataCache) then None else Some (v :: 'v))"
proof -
  have new: "mc_entry (NewMetadataCache ttl :: 'v MetadataCache) = Map.empty"
    by (simp add: mc_entry_def NewMetadataCache_def fun_eq_iff)
  have "mc_entry (fold metadata_step ops c) = fold spec_step ops (mc_entry c) \<and>
      mc_ttl (fold metadata_step ops c) = mc_ttl c" for c :: "'v MetadataCache"
    by (induction ops arbitrary: c) (simp_all add: metadata_exact metadata_cache.step_ttl)
  then show ?thesis using new by (simp add: metadata_cache.get_entry split: option.splits)
qed

text \<open>
  The query cache keeps to its entry limit as long as no query has the empty key,
  whatever order the runtime visits the map in while it looks for the oldest entry.
\<close>

theorem query_cache_bounded:
  assumes "\<forall>op \<in> set ops. case op of
      OpSet pick t k v \<Rightarrow> k \<noteq> '''' \<and> (\<forall>xs. mset (pick xs) = mset xs) | _ \<Rightarrow> True"
  shows "int (length (qc_items (fold query_step ops (NewQueryResultCache ttl maxSize)))) \<le>
    (if maxSize \<le> 0 then 10000 else maxSize)"
  using query_run_bound [OF assms, of "NewQueryResultCache ttl maxSize"]
  by (simp add: NewQueryResultCache_def split: if_splits)

theorem query_cache_bounded_witness:
  "int (length (qc_items (fold query_step
     [OpSet rev 1 ''a'' (1 :: int), OpSet rev 2 ''b'' 2, OpSet rev 3 ''c'' 3] (NewQueryResultCache 0 2)))) \<le> 2"
  using query_cache_bounded [of "[OpSet rev 1 ''a'' (1 :: int), OpSet rev 2 ''b'' 2, OpSet rev 3 ''c'' 3]" 0 2]
  by simp

text \<open>
  An entry under the empty key that is the oldest is never evicted, and blocks every
  other eviction, so the query cache grows past any limit: the search for the oldest entry
  uses the empty key for "none found".
\<close>

theorem query_cache_unbounded:
  "\<exists>ops. list_all query_op ops \<and>
     n < length (qc_items (fold query_step ops (NewQueryResultCache ttl maxSize :: 'v QueryResultCache)))"
proof -
  fix v :: 'v
  have "list_all query_op (growing v n)" by (simp add: growing_def list_all_iff)
  moreover have "n < length (qc_items (fold query_step (growing v n) (NewQueryResultCache ttl maxSize)))"
    by (simp add: growing_items)
  ultimately show ?thesis by blast
qed

end
