(* ===== verification/Exchange_Sort.thy ===== *)
theory Exchange_Sort
  imports Prelude "HOL-Library.Multiset"
begin

text \<open>
  The sort that the code writes out in several places (\<^verbatim>\<open>sortTasks\<close> of \<^verbatim>\<open>internal/taskqueue/store.go\<close>,
  \<^verbatim>\<open>sortStrings\<close> of \<^verbatim>\<open>internal/pluginloader/topology.go\<close>): for each position, exchange with every
  later element that goes before it. The slices are the lists, the loops count up. The locale
  \<open>exchange_order\<close> is what the comparison has to satisfy, its lemma that the result is sorted.
\<close>

function exchange_inner :: "('a \<Rightarrow> 'a \<Rightarrow> bool) \<Rightarrow> 'a list \<Rightarrow> nat \<Rightarrow> nat \<Rightarrow> 'a list" where
  "exchange_inner swap result i j =
     (if j < length result then
        exchange_inner swap (if swap (result ! i) (result ! j)
                    then result[i := result ! j, j := result ! i] else result) i (j + 1)
      else result)"
  by auto

termination
  by (relation "measure (\<lambda>(swap, r, i, j). length r - j)") auto

declare exchange_inner.simps [simp del]

lemma length_exchange_inner: "length (exchange_inner swap r i j) = length r"
proof (induction swap r i j rule: exchange_inner.induct)
  case (1 swap r i j)
  then show ?case by (subst exchange_inner.simps) auto
qed

function exchange_outer :: "('a \<Rightarrow> 'a \<Rightarrow> bool) \<Rightarrow> 'a list \<Rightarrow> nat \<Rightarrow> 'a list" where
  "exchange_outer swap result i =
     (if i < length result then exchange_outer swap (exchange_inner swap result i (i + 1)) (i + 1) else result)"
  by auto

termination
  by (relation "measure (\<lambda>(swap, r, i). length r - i)") (auto simp: length_exchange_inner)

declare exchange_outer.simps [simp del]

definition exchange_sort :: "('a \<Rightarrow> 'a \<Rightarrow> bool) \<Rightarrow> 'a list \<Rightarrow> 'a list" where
  "exchange_sort swap xs = exchange_outer swap xs 0"

lemma exchange_inner_mset: "i < j \<Longrightarrow> j \<le> length r \<Longrightarrow> mset (exchange_inner swap r i j) = mset r"
proof (induction swap r i j rule: exchange_inner.induct)
  case (1 swap r i j)
  then show ?case
    by (subst exchange_inner.simps) (auto simp: mset_swap)
qed

lemma exchange_inner_prefix: "i < j \<Longrightarrow> take i (exchange_inner swap r i j) = take i r"
proof (induction swap r i j rule: exchange_inner.induct)
  case (1 swap r i j)
  then show ?case by (subst exchange_inner.simps) auto
qed

locale exchange_order =
  fixes swap :: "'a \<Rightarrow> 'a \<Rightarrow> bool" and before :: "'a \<Rightarrow> 'a \<Rightarrow> bool"
  assumes before_trans: "before a b \<Longrightarrow> before b c \<Longrightarrow> before a c"
    and not_swap: "\<not> swap a b \<longleftrightarrow> before a b"
    and swap_before: "swap a b \<Longrightarrow> before b a"

text \<open>After the inner loop, position \<open>i\<close> holds an element that goes before all later ones.\<close>

lemma exchange_inner_least:
  "exchange_order swap before \<Longrightarrow> i < j \<Longrightarrow> j \<le> length r \<Longrightarrow> \<forall>k. i < k \<and> k < j \<longrightarrow> before (r ! i) (r ! k) \<Longrightarrow>
   \<forall>k. i < k \<and> k < length r \<longrightarrow> before (exchange_inner swap r i j ! i) (exchange_inner swap r i j ! k)"
proof (induction swap r i j rule: exchange_inner.induct)
  case (1 swap r i j)
  show ?case
  proof (cases "j < length r")
    case False
    then show ?thesis using "1.prems"(3,4) by (subst (1 2) exchange_inner.simps) auto
  next
    case True
    let ?r = "if swap (r ! i) (r ! j) then r[i := r ! j, j := r ! i] else r"
    have "before (?r ! i) (?r ! k)" if "i < k" "k < j + 1" for k
    proof (cases "swap (r ! i) (r ! j)")
      case swap: True
      then have "before (r ! j) (r ! i)" by (rule exchange_order.swap_before [OF "1.prems"(1)])
      with swap "1.prems"(2,4) that True show ?thesis
        by (cases "k = j") (auto intro: exchange_order.before_trans [OF "1.prems"(1)])
    next
      case False
      then have "before (r ! i) (r ! j)" by (simp add: exchange_order.not_swap [OF "1.prems"(1)])
      with False "1.prems"(4) that show ?thesis by (cases "k = j") auto
    qed
    moreover have "length ?r = length r" by simp
    ultimately have "\<forall>k. i < k \<and> k < length r \<longrightarrow>
        before (exchange_inner swap ?r i (j + 1) ! i) (exchange_inner swap ?r i (j + 1) ! k)"
      using "1.IH" [OF True "1.prems"(1)] True "1.prems"(2) by simp
    then show ?thesis using True by (subst (1 2) exchange_inner.simps) simp
  qed
qed

lemma exchange_outer_mset: "mset (exchange_outer swap r i) = mset r"
proof (induction swap r i rule: exchange_outer.induct)
  case (1 swap r i)
  then show ?case by (subst exchange_outer.simps) (auto simp: exchange_inner_mset)
qed

lemma in_set_drop_nth: "x \<in> set (drop i xs) \<longleftrightarrow> (\<exists>j. i \<le> j \<and> j < length xs \<and> xs ! j = x)"
proof
  assume "x \<in> set (drop i xs)"
  then obtain k where "k < length xs - i" "drop i xs ! k = x" by (auto simp: in_set_conv_nth)
  then show "\<exists>j. i \<le> j \<and> j < length xs \<and> xs ! j = x" by (intro exI [of _ "i + k"]) auto
next
  assume "\<exists>j. i \<le> j \<and> j < length xs \<and> xs ! j = x"
  then obtain j where "i \<le> j" "j < length xs" "xs ! j = x" by blast
  then have "drop i xs ! (j - i) = x" "j - i < length (drop i xs)" by auto
  then show "x \<in> set (drop i xs)" by (metis nth_mem)
qed

lemma exchange_outer_sorted:
  "exchange_order swap before \<Longrightarrow> i \<le> length r \<Longrightarrow> \<forall>a b. a < i \<and> a < b \<and> b < length r \<longrightarrow> before (r ! a) (r ! b) \<Longrightarrow>
   sorted_wrt before (exchange_outer swap r i)"
proof (induction swap r i rule: exchange_outer.induct)
  case (1 swap r i)
  show ?case
  proof (cases "i < length r")
    case False
    then show ?thesis using "1.prems" by (subst exchange_outer.simps) (auto simp: sorted_wrt_iff_nth_less)
  next
    case True
    let ?r = "exchange_inner swap r i (i + 1)"
    have len: "length ?r = length r" by (rule length_exchange_inner)
    have pre: "take i ?r = take i r" by (rule exchange_inner_prefix) simp
    have suf: "set (drop i ?r) = set (drop i r)"
    proof -
      have "mset (take i ?r @ drop i ?r) = mset (take i r @ drop i r)"
        using exchange_inner_mset [of i "i + 1" r] True by simp
      then have "mset (drop i ?r) = mset (drop i r)" unfolding mset_append pre by simp
      then show ?thesis by (metis set_mset_mset)
    qed
    have "before (?r ! a) (?r ! b)" if "a < i + 1" "a < b" "b < length ?r" for a b
    proof (cases "a < i")
      case a: True
      have ra: "?r ! a = r ! a" using a pre by (metis nth_take)
      show ?thesis
      proof (cases "b < i")
        case True
        then have "?r ! b = r ! b" using pre by (metis nth_take)
        then show ?thesis using ra "1.prems"(3) a that len by simp
      next
        case False
        then have "?r ! b \<in> set (drop i ?r)" using that unfolding in_set_drop_nth by (intro exI [of _ b]) auto
        then obtain b' where "i \<le> b'" "b' < length r" "?r ! b = r ! b'"
          unfolding suf in_set_drop_nth by metis
        then show ?thesis using ra "1.prems"(3) a by simp
      qed
    next
      case False
      then have "a = i" using that by simp
      have "\<forall>k. i < k \<and> k < i + 1 \<longrightarrow> before (r ! i) (r ! k)" by (auto simp: less_Suc_eq)
      with \<open>a = i\<close> show ?thesis
        using exchange_inner_least [OF "1.prems"(1), of i "i + 1" r] True that len by simp
    qed
    then have "sorted_wrt before (exchange_outer swap ?r (i + 1))"
      using "1.IH" [OF True "1.prems"(1)] True len by simp
    then show ?thesis using True by (subst exchange_outer.simps) simp
  qed
qed

context exchange_order
begin

lemma exchange_sort_correct: "sorted_wrt before (exchange_sort swap xs) \<and> mset (exchange_sort swap xs) = mset xs"
  using exchange_outer_sorted [OF exchange_order_axioms, of 0 xs] by (simp add: exchange_sort_def exchange_outer_mset)

end

end
