(* ===== verification/Task_Queue.thy ===== *)
theory Task_Queue
  imports Exchange_Sort "HOL-Library.AList"
begin

text \<open>
  The background task queue, \<^verbatim>\<open>internal/taskqueue\<close>: tasks (\<^verbatim>\<open>task.go\<close>), the in-memory store
  (\<^verbatim>\<open>store.go\<close>) and the queue with retries and dead letters (\<^verbatim>\<open>queue.go\<close>).

  The \<^verbatim>\<open>Store\<close> interface is a record of operations on a state; the queue's functions take it
  as an argument, as the code dispatches on the interface. Handlers are arbitrary functions: a
  handler receives a pointer to the task, so it may also change it. The readings of the clock
  are arguments (\<open>clk i\<close> is the \<open>i\<close>-th reading of an operation). Go's unspecified map iteration
  order is an argument too.

  \<^verbatim>\<open>cloneTask\<close> copies by encoding to JSON and decoding. \<^verbatim>\<open>encoding/json\<close> refuses times whose
  year is not within 0 to 9999; the error is ignored and the copy is then the zero task. Years
  are read in UTC, and strings are valid UTF-8, which JSON preserves.
\<close>

section \<open>Tasks\<close>

type_synonym Status = string

definition StatusPending :: Status where "StatusPending = ''pending''"
definition StatusProcessing :: Status where "StatusProcessing = ''processing''"
definition StatusCompleted :: Status where "StatusCompleted = ''completed''"
definition StatusFailed :: Status where "StatusFailed = ''failed''"
definition StatusDeadLetter :: Status where "StatusDeadLetter = ''dead_letter''"

lemmas status_defs = StatusPending_def StatusProcessing_def StatusCompleted_def StatusFailed_def
  StatusDeadLetter_def

lemma status_distinct [simp]:
  "StatusPending \<noteq> StatusProcessing" "StatusProcessing \<noteq> StatusPending"
  "StatusPending \<noteq> StatusDeadLetter" "StatusDeadLetter \<noteq> StatusPending"
  "StatusProcessing \<noteq> StatusDeadLetter" "StatusDeadLetter \<noteq> StatusProcessing"
  "StatusCompleted \<noteq> StatusPending" "StatusPending \<noteq> StatusCompleted"
  "StatusPending \<noteq> ''''" "'''' \<noteq> StatusPending"
  by (simp_all add: status_defs)

record Task =
  task_ID :: string
  task_Kind :: string
  task_Payload :: "byte list"
  task_Priority :: int
  task_Status :: Status
  task_Attempts :: int
  task_MaxAttempts :: int
  task_CreatedAt :: gotime
  task_UpdatedAt :: gotime
  task_Deadline :: gotime
  task_Error :: string

definition zero_task :: Task where
  "zero_task = \<lparr>task_ID = '''', task_Kind = '''', task_Payload = [], task_Priority = 0, task_Status = '''',
     task_Attempts = 0, task_MaxAttempts = 0, task_CreatedAt = 0, task_UpdatedAt = 0, task_Deadline = 0,
     task_Error = ''''\<rparr>"

text \<open>\<^verbatim>\<open>Validate\<close> also repairs the attempt limit.\<close>

definition Validate :: "Task \<Rightarrow> Task \<times> unit result" where
  "Validate t =
     (if task_ID t = '''' then (t, Inl (Err ''task id is required''))
      else if task_Kind t = '''' then (t, Inl (Err ''task kind is required''))
      else (if task_MaxAttempts t \<le> 0 then t\<lparr>task_MaxAttempts := 1\<rparr> else t, Inr ()))"

definition IsExpired :: "gotime \<Rightarrow> Task \<Rightarrow> bool" where
  "IsExpired now t \<longleftrightarrow> \<not> IsZero (task_Deadline t) \<and> now > task_Deadline t"

type_synonym TaskOption = "Task \<Rightarrow> Task"

definition WithRetry :: "int \<Rightarrow> TaskOption" where
  "WithRetry n t = (if n > 0 then t\<lparr>task_MaxAttempts := n\<rparr> else t)"

definition WithDeadline :: "gotime \<Rightarrow> TaskOption" where
  "WithDeadline deadline t = t\<lparr>task_Deadline := deadline\<rparr>"

definition WithDeadlineAfter :: "gotime \<Rightarrow> int \<Rightarrow> TaskOption" where
  "WithDeadlineAfter now d t = t\<lparr>task_Deadline := now + d\<rparr>"

definition WithPriority :: "int \<Rightarrow> TaskOption" where
  "WithPriority p t = t\<lparr>task_Priority := p\<rparr>"

text \<open>\<^verbatim>\<open>NewTask\<close>: the outcome of marshalling the payload and the new UUID are arguments.\<close>

definition NewTask ::
    "string \<Rightarrow> gotime \<Rightarrow> string \<Rightarrow> string + byte list \<Rightarrow> TaskOption list \<Rightarrow> Task result" where
  "NewTask uuid now kind marshalled opts =
     (case marshalled of
        Inl e \<Rightarrow> Inl (Err (''failed to marshal task payload: '' @ e))
      | Inr data \<Rightarrow>
          let t = \<lparr>task_ID = uuid, task_Kind = kind, task_Payload = data, task_Priority = 0,
                   task_Status = StatusPending, task_Attempts = 0, task_MaxAttempts = 3,
                   task_CreatedAt = now, task_UpdatedAt = now, task_Deadline = 0, task_Error = ''''\<rparr>
          in case Validate (fold (\<lambda>opt t. opt t) opts t) of
               (_, Inl e) \<Rightarrow> Inl e
             | (t', Inr _) \<Rightarrow> Inr t')"

section \<open>The in-memory store\<close>

definition ErrTaskNotFound :: go_err where "ErrTaskNotFound = Err ''task not found''"
definition ErrStoreClosed :: go_err where "ErrStoreClosed = Err ''task store is closed''"

record MemoryStore =
  ms_tasks :: "(string \<times> Task) list"
  ms_closed :: bool

definition NewMemoryStore :: MemoryStore where
  "NewMemoryStore = \<lparr>ms_tasks = [], ms_closed = False\<rparr>"

definition cloneTask :: "Task \<Rightarrow> Task" where
  "cloneTask t =
     (if json_time (task_CreatedAt t) \<and> json_time (task_UpdatedAt t) \<and> json_time (task_Deadline t)
      then t else zero_task)"

text \<open>\<^verbatim>\<open>sortTasks\<close> exchanges a task with every later one that goes before it.\<close>

definition out_of_order :: "Task \<Rightarrow> Task \<Rightarrow> bool" where
  "out_of_order a b \<longleftrightarrow> task_Priority a < task_Priority b \<or>
     (task_Priority a = task_Priority b \<and> task_CreatedAt a > task_CreatedAt b)"

definition sortTasks :: "Task list \<Rightarrow> Task list" where
  "sortTasks tasks = exchange_sort out_of_order tasks"

definition limited :: "int \<Rightarrow> 'a list \<Rightarrow> 'a list" where
  "limited limit xs = (if limit > 0 \<and> int (length xs) > limit then take (nat limit) xs else xs)"

text \<open>\<open>ord\<close> is the order in which the loop visits the map.\<close>

definition tasks_with :: "Status \<Rightarrow> (string \<times> Task) list \<Rightarrow> Task list" where
  "tasks_with st ord = map (cloneTask \<circ> snd) (filter (\<lambda>kt. task_Status (snd kt) = st) ord)"

definition checkOpen :: "MemoryStore \<Rightarrow> unit result" where
  "checkOpen s = (if ms_closed s then Inl ErrStoreClosed else Inr ())"

definition MemoryStore_Put :: "MemoryStore \<Rightarrow> gotime \<Rightarrow> Task \<Rightarrow> MemoryStore \<times> unit result" where
  "MemoryStore_Put s now task =
     (case checkOpen s of
        Inl e \<Rightarrow> (s, Inl e)
      | Inr _ \<Rightarrow>
          (s\<lparr>ms_tasks := AList.update (task_ID task) ((cloneTask task)\<lparr>task_UpdatedAt := now\<rparr>) (ms_tasks s)\<rparr>,
           Inr ()))"

definition MemoryStore_GetPending ::
    "MemoryStore \<Rightarrow> (string \<times> Task) list \<Rightarrow> int \<Rightarrow> Task list result" where
  "MemoryStore_GetPending s ord limit =
     (case checkOpen s of
        Inl e \<Rightarrow> Inl e
      | Inr _ \<Rightarrow> Inr (limited limit (sortTasks (tasks_with StatusPending ord))))"

text \<open>The marking loop of \<^verbatim>\<open>ClaimPending\<close>; a missing map entry is a nil dereference.\<close>

fun claim_loop :: "gotime \<Rightarrow> (string \<times> Task) list \<Rightarrow> Task list \<Rightarrow> (string \<times> Task) list \<times> Task list result" where
  "claim_loop now tasks [] = (tasks, Inr [])"
| "claim_loop now tasks (task # pending) =
     (case map_of tasks (task_ID task) of
        None \<Rightarrow> (tasks, Inl (Panic ''invalid memory address or nil pointer dereference''))
      | Some stored \<Rightarrow>
          let stored' = stored\<lparr>task_Status := StatusProcessing, task_Attempts := task_Attempts stored + 1,
                               task_UpdatedAt := now\<rparr>
          in (case claim_loop now (AList.update (task_ID task) stored' tasks) pending of
                (tasks', Inl e) \<Rightarrow> (tasks', Inl e)
              | (tasks', Inr claimed) \<Rightarrow> (tasks', Inr (cloneTask stored' # claimed))))"

definition MemoryStore_ClaimPending ::
    "MemoryStore \<Rightarrow> (string \<times> Task) list \<Rightarrow> gotime \<Rightarrow> int \<Rightarrow> MemoryStore \<times> Task list result" where
  "MemoryStore_ClaimPending s ord now limit =
     (case checkOpen s of
        Inl e \<Rightarrow> (s, Inl e)
      | Inr _ \<Rightarrow>
          (case claim_loop now (ms_tasks s) (limited limit (sortTasks (tasks_with StatusPending ord))) of
             (tasks, r) \<Rightarrow> (s\<lparr>ms_tasks := tasks\<rparr>, r)))"

definition recover_task :: "gotime \<Rightarrow> Task \<Rightarrow> Task" where
  "recover_task now task =
     (if task_Status task = StatusProcessing
      then task\<lparr>task_Status := StatusPending, task_UpdatedAt := now\<rparr> else task)"

definition MemoryStore_RecoverProcessing :: "MemoryStore \<Rightarrow> gotime \<Rightarrow> MemoryStore \<times> unit result" where
  "MemoryStore_RecoverProcessing s now =
     (case checkOpen s of
        Inl e \<Rightarrow> (s, Inl e)
      | Inr _ \<Rightarrow> (s\<lparr>ms_tasks := map (\<lambda>(k, t). (k, recover_task now t)) (ms_tasks s)\<rparr>, Inr ()))"

definition MemoryStore_GetByID :: "MemoryStore \<Rightarrow> string \<Rightarrow> Task result" where
  "MemoryStore_GetByID s i =
     (case checkOpen s of
        Inl e \<Rightarrow> Inl e
      | Inr _ \<Rightarrow> (case map_of (ms_tasks s) i of None \<Rightarrow> Inl ErrTaskNotFound | Some t \<Rightarrow> Inr (cloneTask t)))"

definition MemoryStore_Update :: "MemoryStore \<Rightarrow> gotime \<Rightarrow> Task \<Rightarrow> MemoryStore \<times> unit result" where
  "MemoryStore_Update s now task =
     (case checkOpen s of
        Inl e \<Rightarrow> (s, Inl e)
      | Inr _ \<Rightarrow>
          (case map_of (ms_tasks s) (task_ID task) of
             None \<Rightarrow> (s, Inl ErrTaskNotFound)
           | Some _ \<Rightarrow>
               (s\<lparr>ms_tasks := AList.update (task_ID task) ((cloneTask task)\<lparr>task_UpdatedAt := now\<rparr>) (ms_tasks s)\<rparr>,
                Inr ())))"

definition MemoryStore_Delete :: "MemoryStore \<Rightarrow> string \<Rightarrow> MemoryStore \<times> unit result" where
  "MemoryStore_Delete s i =
     (case checkOpen s of
        Inl e \<Rightarrow> (s, Inl e)
      | Inr _ \<Rightarrow> (s\<lparr>ms_tasks := AList.delete i (ms_tasks s)\<rparr>, Inr ()))"

definition MemoryStore_ListDeadLetter ::
    "MemoryStore \<Rightarrow> (string \<times> Task) list \<Rightarrow> int \<Rightarrow> Task list result" where
  "MemoryStore_ListDeadLetter s ord limit =
     (case checkOpen s of
        Inl e \<Rightarrow> Inl e
      | Inr _ \<Rightarrow> Inr (limited limit (sortTasks (tasks_with StatusDeadLetter ord))))"

definition MemoryStore_Close :: "MemoryStore \<Rightarrow> MemoryStore \<times> unit result" where
  "MemoryStore_Close s = (s\<lparr>ms_closed := True\<rparr>, Inr ())"

section \<open>The queue\<close>

text \<open>
  The methods of the \<^verbatim>\<open>Store\<close> interface that the queue calls, on a state \<open>'s\<close>. The clock
  reading of an implementation is the \<open>gotime\<close> argument.
\<close>

record 's store_ops =
  st_Put :: "'s \<Rightarrow> gotime \<Rightarrow> Task \<Rightarrow> 's \<times> unit result"
  st_ClaimPending :: "'s \<Rightarrow> gotime \<Rightarrow> int \<Rightarrow> 's \<times> Task list result"
  st_RecoverProcessing :: "'s \<Rightarrow> gotime \<Rightarrow> 's \<times> unit result"
  st_Update :: "'s \<Rightarrow> gotime \<Rightarrow> Task \<Rightarrow> 's \<times> unit result"
  st_Delete :: "'s \<Rightarrow> string \<Rightarrow> 's \<times> unit result"
  st_Close :: "'s \<Rightarrow> 's \<times> unit result"

datatype outcome = HandlerOk | HandlerError string | HandlerPanic string

type_synonym Handler = "Task \<Rightarrow> Task \<times> outcome"

record 's Queue =
  q_store :: 's
  q_handlers :: "string \<rightharpoonup> Handler"
  q_workers :: int
  q_pollInterval :: int
  q_retryBase :: int
  q_maxRetryDelay :: int
  q_started :: bool
  q_submitted :: int
  q_completed :: int
  q_failed :: int
  q_retried :: int
  q_deadLettered :: int

type_synonym 's QueueOption = "'s Queue \<Rightarrow> 's Queue"

definition NewQueue :: "'s \<Rightarrow> int \<Rightarrow> 's QueueOption list \<Rightarrow> 's Queue" where
  "NewQueue store workers opts =
     fold (\<lambda>opt q. opt q) opts
       \<lparr>q_store = store, q_handlers = Map.empty, q_workers = (if workers \<le> 0 then 1 else workers),
        q_pollInterval = 500 * 10 ^ 6, q_retryBase = 10 ^ 9, q_maxRetryDelay = 5 * 60 * 10 ^ 9,
        q_started = False, q_submitted = 0, q_completed = 0, q_failed = 0, q_retried = 0,
        q_deadLettered = 0\<rparr>"

definition WithPollInterval :: "int \<Rightarrow> 's QueueOption" where
  "WithPollInterval d q = (if d > 0 then q\<lparr>q_pollInterval := d\<rparr> else q)"

definition WithRetryBase :: "int \<Rightarrow> 's QueueOption" where
  "WithRetryBase d q = (if d > 0 then q\<lparr>q_retryBase := d\<rparr> else q)"

definition WithMaxRetryDelay :: "int \<Rightarrow> 's QueueOption" where
  "WithMaxRetryDelay d q = (if d > 0 then q\<lparr>q_maxRetryDelay := d\<rparr> else q)"

definition Queue_Register :: "'s Queue \<Rightarrow> string \<Rightarrow> Handler \<Rightarrow> 's Queue" where
  "Queue_Register q kind handler = q\<lparr>q_handlers := (q_handlers q)(kind \<mapsto> handler)\<rparr>"

text \<open>\<^verbatim>\<open>Submit\<close> also returns the caller's task, which \<^verbatim>\<open>Validate\<close> may have repaired.\<close>

definition Submit :: "'s store_ops \<Rightarrow> 's Queue \<Rightarrow> gotime \<Rightarrow> Task \<Rightarrow> 's Queue \<times> Task \<times> unit result" where
  "Submit S q now task =
     (case Validate task of
        (task', Inl e) \<Rightarrow> (q, task', Inl e)
      | (task', Inr _) \<Rightarrow>
          (case st_Put S (q_store q) now task' of
             (s', Inl e) \<Rightarrow> (q\<lparr>q_store := s'\<rparr>, task', Inl (Err (''failed to persist task: '' @ err_text e)))
           | (s', Inr _) \<Rightarrow> (q\<lparr>q_store := s', q_submitted := q_submitted q + 1\<rparr>, task', Inr ())))"

text \<open>\<^verbatim>\<open>Start\<close> up to the launch of the workers; a failed recovery is only logged.\<close>

definition Start :: "'s store_ops \<Rightarrow> 's Queue \<Rightarrow> gotime \<Rightarrow> 's Queue" where
  "Start S q now =
     (if q_started q then q
      else q\<lparr>q_started := True, q_store := fst (st_RecoverProcessing S (q_store q) now)\<rparr>)"

text \<open>\<^verbatim>\<open>Stop\<close>: \<open>finished\<close> tells whether the workers end before the context does, and
  \<open>ctxErr\<close> is the context's error.\<close>

definition Stop :: "'s store_ops \<Rightarrow> 's Queue \<Rightarrow> bool \<Rightarrow> string \<Rightarrow> 's Queue \<times> unit result" where
  "Stop S q finished ctxErr =
     (if \<not> q_started q then (q, Inr ())
      else if finished then
        (case st_Close S (q_store q) of
           (s', Inl e) \<Rightarrow> (q\<lparr>q_started := False, q_store := s'\<rparr>, Inl (Err (''failed to close task store: '' @ err_text e)))
         | (s', Inr _) \<Rightarrow> (q\<lparr>q_started := False, q_store := s'\<rparr>, Inr ()))
      else (q\<lparr>q_started := False\<rparr>, Inl (Err ctxErr)))"

definition handlerFor :: "'s Queue \<Rightarrow> string \<Rightarrow> Handler option" where
  "handlerFor q kind = q_handlers q kind"

text \<open>\<^verbatim>\<open>runHandler\<close> turns a panic into an error.\<close>

definition runHandler :: "Handler \<Rightarrow> Task \<Rightarrow> Task \<times> string option" where
  "runHandler handler task =
     (case handler task of
        (task', HandlerOk) \<Rightarrow> (task', None)
      | (task', HandlerError e) \<Rightarrow> (task', Some e)
      | (task', HandlerPanic m) \<Rightarrow> (task', Some (''task handler panicked: '' @ m)))"

text \<open>
  \<^verbatim>\<open>retryDelay\<close> on 64-bit durations: the shift drops the bits beyond 63 and the product wraps.
\<close>

definition retryDelay :: "'s Queue \<Rightarrow> int \<Rightarrow> int" where
  "retryDelay q attempt =
     (let attempt = (if attempt \<le> 0 then 1 else attempt);
          delay = sint (of_int (q_retryBase q) * push_bit (nat (attempt - 1)) 1 :: 64 word)
      in if delay > q_maxRetryDelay q then q_maxRetryDelay q else delay)"

text \<open>
  \<^verbatim>\<open>processOne\<close> returns the new state, whether a task was processed, and the delay it waits
  before it returns. \<open>quote\<close> is \<^verbatim>\<open>%q\<close>. A panic of the store leaves the function.
\<close>

definition processOne ::
    "(string \<Rightarrow> string) \<Rightarrow> 's store_ops \<Rightarrow> 's Queue \<Rightarrow> (nat \<Rightarrow> gotime) \<Rightarrow> 's Queue \<times> (bool \<times> int option) result" where
  "processOne quote S q clk =
     (case st_ClaimPending S (q_store q) (clk 0) 1 of
        (s1, Inl (Panic m)) \<Rightarrow> (q\<lparr>q_store := s1\<rparr>, Inl (Panic m))
      | (s1, Inl (Err m)) \<Rightarrow> (q\<lparr>q_store := s1\<rparr>, Inr (False, None))
      | (s1, Inr []) \<Rightarrow> (q\<lparr>q_store := s1\<rparr>, Inr (False, None))
      | (s1, Inr (task # _)) \<Rightarrow>
          if IsExpired (clk 1) task then
            (let task' = task\<lparr>task_Status := StatusDeadLetter, task_Error := ''deadline exceeded'',
                              task_Attempts := task_Attempts task + 1\<rparr>
             in (q\<lparr>q_store := fst (st_Update S s1 (clk 2) task'), q_deadLettered := q_deadLettered q + 1\<rparr>,
                 Inr (True, None)))
          else (case handlerFor q (task_Kind task) of
            None \<Rightarrow>
              (let task' = task\<lparr>task_Status := StatusDeadLetter,
                                task_Error := ''no handler registered for kind '' @ quote (task_Kind task)\<rparr>
               in (q\<lparr>q_store := fst (st_Update S s1 (clk 2) task'), q_deadLettered := q_deadLettered q + 1\<rparr>,
                   Inr (True, None)))
          | Some handler \<Rightarrow>
              (case runHandler handler task of
                 (task, None) \<Rightarrow>
                   (let task' = task\<lparr>task_Status := StatusCompleted, task_Error := ''''\<rparr>
                    in case st_Delete S s1 (task_ID task') of
                         (s2, Inl e) \<Rightarrow>
                           (let task'' = task'\<lparr>task_Error := ''completed but cleanup failed: '' @ err_text e\<rparr>
                            in (q\<lparr>q_store := fst (st_Update S s2 (clk 2) task''), q_completed := q_completed q + 1\<rparr>,
                                Inr (True, None)))
                       | (s2, Inr _) \<Rightarrow> (q\<lparr>q_store := s2, q_completed := q_completed q + 1\<rparr>, Inr (True, None)))
               | (task, Some err) \<Rightarrow>
                   if task_Attempts task \<ge> task_MaxAttempts task then
                     (let task' = task\<lparr>task_Status := StatusDeadLetter, task_Error := err\<rparr>
                      in (q\<lparr>q_store := fst (st_Update S s1 (clk 2) task'), q_failed := q_failed q + 1,
                            q_deadLettered := q_deadLettered q + 1\<rparr>,
                          Inr (True, None)))
                   else
                     (let task' = task\<lparr>task_Status := StatusPending, task_Error := err\<rparr>
                      in (q\<lparr>q_store := fst (st_Update S s1 (clk 2) task'), q_failed := q_failed q + 1,
                            q_retried := q_retried q + 1\<rparr>,
                          Inr (True, Some (retryDelay q (task_Attempts task'))))))))"

definition Queue_Stats :: "'s Queue \<Rightarrow> string \<rightharpoonup> int" where
  "Queue_Stats q =
     [''submitted'' \<mapsto> q_submitted q, ''completed'' \<mapsto> q_completed q, ''failed'' \<mapsto> q_failed q,
      ''retried'' \<mapsto> q_retried q, ''dead_lettered'' \<mapsto> q_deadLettered q]"

definition IsStarted :: "'s Queue \<Rightarrow> bool" where
  "IsStarted q = q_started q"

text \<open>The in-memory store as a \<^verbatim>\<open>Store\<close>; \<open>pick\<close> orders the iterations over the map.\<close>

definition memory_ops :: "((string \<times> Task) list \<Rightarrow> (string \<times> Task) list) \<Rightarrow> MemoryStore store_ops" where
  "memory_ops pick =
     \<lparr>st_Put = MemoryStore_Put,
      st_ClaimPending = (\<lambda>s now limit. MemoryStore_ClaimPending s (pick (ms_tasks s)) now limit),
      st_RecoverProcessing = MemoryStore_RecoverProcessing, st_Update = MemoryStore_Update,
      st_Delete = MemoryStore_Delete, st_Close = MemoryStore_Close\<rparr>"

section \<open>sortTasks sorts\<close>

text \<open>The order by priority, highest first, then by creation time, earliest first.\<close>

definition task_before :: "Task \<Rightarrow> Task \<Rightarrow> bool" where
  "task_before a b \<longleftrightarrow> task_Priority a > task_Priority b \<or>
     (task_Priority a = task_Priority b \<and> task_CreatedAt a \<le> task_CreatedAt b)"

lemma task_before_order:
  "task_before a a" "task_before a b \<Longrightarrow> task_before b c \<Longrightarrow> task_before a c"
  "\<not> out_of_order a b \<longleftrightarrow> task_before a b" "out_of_order a b \<Longrightarrow> task_before b a"
  by (auto simp: task_before_def out_of_order_def)

interpretation task_order: exchange_order out_of_order task_before
  by unfold_locales (auto intro: task_before_order simp: task_before_order)

lemma sortTasks_correct: "sorted_wrt task_before (sortTasks ts) \<and> mset (sortTasks ts) = mset ts"
  by (simp add: sortTasks_def task_order.exchange_sort_correct)

section \<open>The contract of a store\<close>

definition claimed :: "gotime \<Rightarrow> Task \<Rightarrow> Task" where
  "claimed now t = t\<lparr>task_Status := StatusProcessing, task_Attempts := task_Attempts t + 1, task_UpdatedAt := now\<rparr>"

definition pending_in :: "(string \<rightharpoonup> Task) \<Rightarrow> Task \<Rightarrow> bool" where
  "pending_in m t \<longleftrightarrow> m (task_ID t) = Some t \<and> task_Status t = StatusPending"

text \<open>
  The outcome for a claimed task, when its handler does not change the task: the task as it is
  stored afterwards, or \<^const>\<open>None\<close> if it is done and deleted. \<open>stamp\<close> is what the store does to the
  time of the last update: the in-memory store sets it, the BoltDB store leaves it.
\<close>

definition touched :: "gotime \<Rightarrow> Task \<Rightarrow> Task" where
  "touched now t = t\<lparr>task_UpdatedAt := now\<rparr>"

definition settled :: "(gotime \<Rightarrow> Task \<Rightarrow> Task) \<Rightarrow> (string \<Rightarrow> string) \<Rightarrow> 's Queue \<Rightarrow> (nat \<Rightarrow> gotime) \<Rightarrow> Task \<Rightarrow> Task option" where
  "settled stamp quote q clk t =
     (if IsExpired (clk 1) t
      then Some (stamp (clk 2) (t\<lparr>task_Status := StatusDeadLetter, task_Error := ''deadline exceeded'',
                   task_Attempts := task_Attempts t + 1\<rparr>))
      else case q_handlers q (task_Kind t) of
          None \<Rightarrow> Some (stamp (clk 2) (t\<lparr>task_Status := StatusDeadLetter,
            task_Error := ''no handler registered for kind '' @ quote (task_Kind t)\<rparr>))
        | Some h \<Rightarrow> (case snd (runHandler h t) of
              None \<Rightarrow> None
            | Some err \<Rightarrow> Some (stamp (clk 2) (t\<lparr>task_Status := (if task_Attempts t \<ge> task_MaxAttempts t
                                             then StatusDeadLetter else StatusPending),
                                 task_Error := err\<rparr>))))"

text \<open>Rounds of a worker; \<open>clks j\<close> are the clock readings when \<open>j\<close> rounds remain.\<close>

fun process_rounds ::
    "(string \<Rightarrow> string) \<Rightarrow> 's store_ops \<Rightarrow> (nat \<Rightarrow> nat \<Rightarrow> gotime) \<Rightarrow> nat \<Rightarrow> 's Queue \<Rightarrow> 's Queue" where
  "process_rounds quote S clks 0 q = q"
| "process_rounds quote S clks (Suc n) q =
     process_rounds quote S clks n (fst (processOne quote S q (clks n)))"

definition tame :: "'s Queue \<Rightarrow> bool" where
  "tame q \<longleftrightarrow> (\<forall>k h t. q_handlers q k = Some h \<longrightarrow> fst (h t) = t)"

lemma tame_runHandler: "tame q \<Longrightarrow> q_handlers q k = Some h \<Longrightarrow> fst (runHandler h t) = t"
  by (auto simp: tame_def runHandler_def split: prod.splits outcome.splits) (metis fst_conv)+

text \<open>
  What the queue relies on: on an open store, a claim of one task takes a pending task that no
  other pending task goes before, and reports none only if there is none; an update of a stored
  task replaces it; a delete removes it. \<open>good t\<close> limits the promise to tasks the store can
  represent and \<open>tick now\<close> to clock readings it can.
\<close>

locale task_store =
  fixes S :: "'s store_ops"
    and inv :: "'s \<Rightarrow> bool"
    and view :: "'s \<Rightarrow> string \<rightharpoonup> Task"
    and good :: "Task \<Rightarrow> bool"
    and tick :: "gotime \<Rightarrow> bool"
    and stamp :: "gotime \<Rightarrow> Task \<Rightarrow> Task"
  assumes claim_none: "inv s \<Longrightarrow> tick now \<Longrightarrow> \<forall>t. \<not> pending_in (view s) t \<Longrightarrow>
      \<exists>s'. st_ClaimPending S s now 1 = (s', Inr []) \<and> inv s' \<and> view s' = view s"
    and claim_one: "inv s \<Longrightarrow> tick now \<Longrightarrow> pending_in (view s) t0 \<Longrightarrow>
      \<exists>s' t. st_ClaimPending S s now 1 = (s', Inr [claimed now t]) \<and> inv s' \<and> pending_in (view s) t \<and>
        (\<forall>u. pending_in (view s) u \<longrightarrow> task_before t u) \<and>
        view s' = (view s)(task_ID t \<mapsto> claimed now t)"
    and update_one: "inv s \<Longrightarrow> tick now \<Longrightarrow> good t \<Longrightarrow> task_ID t \<in> dom (view s) \<Longrightarrow>
      \<exists>s'. st_Update S s now t = (s', Inr ()) \<and> inv s' \<and>
        view s' = (view s)(task_ID t \<mapsto> stamp now t)"
    and stamp_time: "\<exists>u. stamp now t = t\<lparr>task_UpdatedAt := u\<rparr>"
    and delete_one: "inv s \<Longrightarrow> \<exists>s'. st_Delete S s i = (s', Inr ()) \<and> inv s' \<and> view s' = (view s)(i := None)"
    and good_change: "good (t\<lparr>task_Status := st, task_Error := e, task_Attempts := a\<rparr>) = good t"
    and good_tick: "good t \<Longrightarrow> tick now \<Longrightarrow> good (t\<lparr>task_UpdatedAt := now\<rparr>)"
    and stored_good: "inv s \<Longrightarrow> view s (task_ID t) = Some t \<Longrightarrow> good t"
begin

lemma stamp_fields:
  "task_ID (stamp now t) = task_ID t" "task_Kind (stamp now t) = task_Kind t" "task_Status (stamp now t) = task_Status t"
  "task_Attempts (stamp now t) = task_Attempts t" "task_MaxAttempts (stamp now t) = task_MaxAttempts t"
  "task_Deadline (stamp now t) = task_Deadline t"
  using stamp_time [of now t] by auto

lemma good_claimed: "good t \<Longrightarrow> tick now \<Longrightarrow> good (claimed now t)"
  using good_tick [of "t\<lparr>task_Status := StatusProcessing, task_Attempts := task_Attempts t + 1\<rparr>" now]
    good_change [where t = t and st = StatusProcessing and a = "task_Attempts t + 1" and e = "task_Error t"]
  by (simp add: claimed_def)

lemma update_claimed:
  assumes "inv s" "tick now" "good t" "view s = m(task_ID t \<mapsto> c)"
    and "t' = t\<lparr>task_Status := st, task_Error := e, task_Attempts := a\<rparr>"
  shows "inv (fst (st_Update S s now t')) \<and>
    view (fst (st_Update S s now t')) = m(task_ID t \<mapsto> stamp now t')"
proof -
  have "good t'" "task_ID t' = task_ID t" using assms(3,5) by (simp_all add: good_change)
  moreover have "task_ID t' \<in> dom (view s)" using assms(4) calculation(2) by simp
  ultimately show ?thesis using update_one [OF assms(1,2)] assms(4) by fastforce
qed

text \<open>One round of a worker with a task to do.\<close>

lemma processOne_task:
  assumes "inv (q_store q)" "\<forall>i. tick (clk i)" "tame q" "pending_in (view (q_store q)) t0"
    and "processOne quote S q clk = (q', r)"
  shows "\<exists>t. pending_in (view (q_store q)) t \<and>
    (\<forall>u. pending_in (view (q_store q)) u \<longrightarrow> task_before t u) \<and>
    inv (q_store q') \<and> q_handlers q' = q_handlers q \<and> (\<exists>w. r = Inr (True, w)) \<and>
    view (q_store q') = (view (q_store q))(task_ID t := settled stamp quote q clk (claimed (clk 0) t))"
proof -
  obtain s1 t where c: "st_ClaimPending S (q_store q) (clk 0) 1 = (s1, Inr [claimed (clk 0) t])" "inv s1"
    "pending_in (view (q_store q)) t" "\<forall>u. pending_in (view (q_store q)) u \<longrightarrow> task_before t u"
    and v1: "view s1 = (view (q_store q))(task_ID t \<mapsto> claimed (clk 0) t)"
    using claim_one [OF assms(1) _ assms(4)] assms(2) by blast
  let ?t = "claimed (clk 0) t"
  have id: "task_ID ?t = task_ID t" by (simp add: claimed_def)
  have g: "good ?t" using stored_good [OF assms(1)] good_claimed c(3) assms(2) by (simp add: pending_in_def)
  have up: "inv (fst (st_Update S s1 (clk 2) (?t\<lparr>task_Status := st, task_Error := e, task_Attempts := a\<rparr>))) \<and>
      view (fst (st_Update S s1 (clk 2) (?t\<lparr>task_Status := st, task_Error := e, task_Attempts := a\<rparr>))) =
      (view (q_store q))(task_ID t \<mapsto> stamp (clk 2) (?t\<lparr>task_Status := st, task_Error := e, task_Attempts := a\<rparr>))"
    for st a e
    using update_claimed [OF c(2) _ g _ refl, of "clk 2"] v1 id assms(2) by simp
  have up2: "inv (fst (st_Update S s1 (clk 2) (?t\<lparr>task_Status := st, task_Error := e\<rparr>))) \<and>
      view (fst (st_Update S s1 (clk 2) (?t\<lparr>task_Status := st, task_Error := e\<rparr>))) =
      (view (q_store q))(task_ID t \<mapsto> stamp (clk 2) (?t\<lparr>task_Status := st, task_Error := e\<rparr>))"
    for st e
    using up [where st = st and e = e and a = "task_Attempts ?t"] by simp
  have "inv (q_store q') \<and> q_handlers q' = q_handlers q \<and> (\<exists>w. r = Inr (True, w)) \<and>
      view (q_store q') = (view (q_store q))(task_ID t := settled stamp quote q clk ?t)"
  proof (cases "IsExpired (clk 1) ?t")
    case True
    then show ?thesis
      using assms(5) c(1) up by (auto simp: processOne_def Let_def settled_def)
  next
    case live: False
    show ?thesis
    proof (cases "q_handlers q (task_Kind ?t)")
      case None
      then show ?thesis
        using assms(5) c(1) live up2 by (auto simp: processOne_def Let_def settled_def handlerFor_def)
    next
      case (Some h)
      obtain out where out: "runHandler h ?t = (?t, out)"
        using tame_runHandler [OF assms(3) Some] by (metis prod.collapse)
      obtain s2 where s2: "st_Delete S s1 (task_ID t) = (s2, Inr ())" "inv s2" "view s2 = (view s1)(task_ID t := None)"
        using delete_one [OF c(2)] by blast
      show ?thesis
      proof (cases out)
        case None
        then show ?thesis
          using assms(5) c(1) live Some out s2 v1 id
          by (auto simp: processOne_def Let_def settled_def handlerFor_def)
      next
        case err: (Some e)
        then show ?thesis
          using assms(5) c(1) live Some out up2
          by (auto simp: processOne_def Let_def settled_def handlerFor_def split: if_splits)
      qed
    qed
  qed
  then show ?thesis using c(3,4) by blast
qed

lemma processOne_idle:
  assumes "inv (q_store q)" "tick (clk 0)" "\<forall>t. \<not> pending_in (view (q_store q)) t"
    and "processOne quote S q clk = (q', r)"
  shows "r = Inr (False, None) \<and> inv (q_store q') \<and> view (q_store q') = view (q_store q)"
  using claim_none [OF assms(1-3)] assms(4) by (auto simp: processOne_def)

text \<open>
  A task whose handler always fails is tried as often as it may be, and then dead-lettered:
  with \<open>Suc n\<close> attempts left, after \<open>Suc n\<close> rounds.
\<close>

lemma fails_to_dead_letter:
  assumes "inv (q_store q)" "\<forall>j i. tick (clks j i)" "tame q"
    and "pending_in (view (q_store q)) t" "\<forall>u. pending_in (view (q_store q)) u \<longrightarrow> u = t"
    and "q_handlers q (task_Kind t) = Some h" "\<forall>u. snd (runHandler h u) \<noteq> None" "task_Deadline t = 0"
    and "task_MaxAttempts t = task_Attempts t + int (Suc n)"
  shows "\<exists>t'. view (q_store (process_rounds quote S clks (Suc n) q)) (task_ID t) = Some t' \<and>
    task_Status t' = StatusDeadLetter \<and> task_Attempts t' = task_MaxAttempts t \<and>
    task_ID t' = task_ID t"
  using assms
proof (induction n arbitrary: q t)
  case 0
  obtain q' r where p: "processOne quote S q (clks 0) = (q', r)" by fastforce
  let ?c = "claimed (clks 0 0) t"
  have v: "view (q_store q') = (view (q_store q))(task_ID t := settled stamp quote q (clks 0) ?c)"
    using processOne_task [OF 0(1) _ 0(3,4) p] 0(2,5) by blast
  obtain e where "snd (runHandler h ?c) = Some e" using 0(7) by auto
  then have "settled stamp quote q (clks 0) ?c = Some (stamp (clks 0 2) (?c\<lparr>task_Status := StatusDeadLetter, task_Error := e\<rparr>))"
    using 0(6,8,9) by (simp add: settled_def IsExpired_def IsZero_def claimed_def)
  with v p 0(9) show ?case by (simp add: claimed_def stamp_fields)
next
  case (Suc n)
  obtain q' r where p: "processOne quote S q (clks (Suc n)) = (q', r)" by fastforce
  let ?c = "claimed (clks (Suc n) 0) t"
  have q': "inv (q_store q')" "q_handlers q' = q_handlers q"
    and v: "view (q_store q') = (view (q_store q))(task_ID t := settled stamp quote q (clks (Suc n)) ?c)"
    using processOne_task [OF Suc.prems(1) _ Suc.prems(3,4) p] Suc.prems(2,5) by blast+
  obtain e where "snd (runHandler h ?c) = Some e" using Suc.prems(7) by auto
  then obtain t' where t': "settled stamp quote q (clks (Suc n)) ?c = Some t'" "task_Status t' = StatusPending"
    "task_ID t' = task_ID t" "task_Kind t' = task_Kind t" "task_Deadline t' = 0"
    "task_MaxAttempts t' = task_MaxAttempts t" "task_Attempts t' = task_Attempts t + 1"
    using Suc.prems(6,8,9) by (simp add: settled_def IsExpired_def IsZero_def claimed_def stamp_fields)
  have "pending_in (view (q_store q')) t'" using v t' by (simp add: pending_in_def)
  moreover have "u = t'" if "pending_in (view (q_store q')) u" for u
  proof (cases "task_ID u = task_ID t")
    case True
    then show ?thesis using that v t'(1) by (simp add: pending_in_def)
  next
    case False
    then have "pending_in (view (q_store q)) u" using that v by (simp add: pending_in_def)
    then show ?thesis using Suc.prems(5) False by blast
  qed
  moreover have "tame q'" using q'(2) Suc.prems(3) by (simp add: tame_def)
  moreover have "q_handlers q' (task_Kind t') = Some h" "task_MaxAttempts t' = task_Attempts t' + int (Suc n)"
    using q'(2) t' Suc.prems(6,9) by simp_all
  ultimately have "\<exists>t''. view (q_store (process_rounds quote S clks (Suc n) q')) (task_ID t') = Some t'' \<and>
    task_Status t'' = StatusDeadLetter \<and> task_Attempts t'' = task_MaxAttempts t' \<and> task_ID t'' = task_ID t'"
    using Suc.IH [OF q'(1) Suc.prems(2)] Suc.prems(7) t'(5) by blast
  then show ?case using p t' by simp
qed

end

section \<open>The in-memory store meets the contract\<close>

text \<open>Any order in which Go may visit a map.\<close>

typedef map_order = "{f :: (string \<times> Task) list \<Rightarrow> (string \<times> Task) list. \<forall>xs. mset (f xs) = mset xs}"
  morphisms visit Map_order
  by (rule exI [of _ id]) simp

lemma mset_visit: "mset (visit p xs) = mset xs"
  using visit [of p] by simp

lemma set_visit: "set (visit p xs) = set xs"
  by (metis mset_visit set_mset_mset)

definition json_task :: "Task \<Rightarrow> bool" where
  "json_task t \<longleftrightarrow> json_time (task_CreatedAt t) \<and> json_time (task_UpdatedAt t) \<and> json_time (task_Deadline t)"

definition ms_inv :: "MemoryStore \<Rightarrow> bool" where
  "ms_inv s \<longleftrightarrow> \<not> ms_closed s \<and> distinct (map fst (ms_tasks s)) \<and>
     (\<forall>(k, t) \<in> set (ms_tasks s). json_task t \<and> (task_Status t = StatusPending \<longrightarrow> task_ID t = k))"

definition ms_view :: "MemoryStore \<Rightarrow> string \<rightharpoonup> Task" where
  "ms_view s = map_of (ms_tasks s)"

lemma cloneTask_id [simp]: "json_task t \<Longrightarrow> cloneTask t = t"
  by (simp add: cloneTask_def json_task_def)

lemma json_task_upd [simp]:
  "json_task (t\<lparr>task_Status := st\<rparr>) = json_task t" "json_task (t\<lparr>task_Error := e\<rparr>) = json_task t"
  "json_task (t\<lparr>task_Attempts := a\<rparr>) = json_task t"
  "json_task (t\<lparr>task_UpdatedAt := now\<rparr>) \<longleftrightarrow>
     json_time (task_CreatedAt t) \<and> json_time now \<and> json_time (task_Deadline t)"
  by (simp_all add: json_task_def)

lemma ms_view_mem: "ms_inv s \<Longrightarrow> ms_view s k = Some t \<longleftrightarrow> (k, t) \<in> set (ms_tasks s)"
  by (simp add: ms_inv_def ms_view_def)

lemma pending_tasks:
  assumes "ms_inv s"
  shows "t \<in> set (tasks_with StatusPending (visit p (ms_tasks s))) \<longleftrightarrow> pending_in (ms_view s) t"
proof
  assume "t \<in> set (tasks_with StatusPending (visit p (ms_tasks s)))"
  then obtain k u where u: "(k, u) \<in> set (ms_tasks s)" "task_Status u = StatusPending" "t = cloneTask u"
    by (auto simp: tasks_with_def set_visit)
  with assms have "json_task u" "task_ID u = k" by (auto simp: ms_inv_def)
  with u assms show "pending_in (ms_view s) t" by (simp add: pending_in_def ms_view_mem)
next
  assume "pending_in (ms_view s) t"
  then have t: "(task_ID t, t) \<in> set (ms_tasks s)" "task_Status t = StatusPending"
    using assms by (simp_all add: pending_in_def ms_view_mem)
  then have "json_task t" using assms by (auto simp: ms_inv_def)
  with t show "t \<in> set (tasks_with StatusPending (visit p (ms_tasks s)))"
    by (force simp: tasks_with_def set_visit)
qed

lemma ms_inv_update:
  assumes "ms_inv s" "json_task t" "task_Status t = StatusPending \<longrightarrow> task_ID t = k"
  shows "ms_inv (s\<lparr>ms_tasks := AList.update k t (ms_tasks s)\<rparr>)"
proof -
  have d: "distinct (map fst (AList.update k t (ms_tasks s)))"
    using assms(1) by (simp add: ms_inv_def distinct_update)
  have "json_task u \<and> (task_Status u = StatusPending \<longrightarrow> task_ID u = j)"
    if "(j, u) \<in> set (AList.update k t (ms_tasks s))" for j u
  proof -
    have "map_of (AList.update k t (ms_tasks s)) j = Some u" using that d by simp
    then have "(j = k \<and> u = t) \<or> (j, u) \<in> set (ms_tasks s)"
      by (auto simp: update_conv' split: if_splits dest: map_of_SomeD)
    with assms show ?thesis by (auto simp: ms_inv_def)
  qed
  with d assms(1) show ?thesis by (auto simp: ms_inv_def)
qed

lemma ms_claim_one:
  assumes "ms_inv s" "json_time now" "pending_in (ms_view s) t0"
  shows "\<exists>s' t. MemoryStore_ClaimPending s (visit p (ms_tasks s)) now 1 = (s', Inr [claimed now t]) \<and>
    ms_inv s' \<and> pending_in (ms_view s) t \<and> (\<forall>u. pending_in (ms_view s) u \<longrightarrow> task_before t u) \<and>
    ms_view s' = (ms_view s)(task_ID t \<mapsto> claimed now t)"
proof -
  let ?P = "tasks_with StatusPending (visit p (ms_tasks s))"
  have "set (sortTasks ?P) = set ?P" using sortTasks_correct by (metis set_mset_mset)
  then have P: "u \<in> set (sortTasks ?P) \<longleftrightarrow> pending_in (ms_view s) u" for u
    using pending_tasks [OF assms(1)] by simp
  then obtain t xs where x: "sortTasks ?P = t # xs" using assms(3) by (cases "sortTasks ?P") auto
  have t: "pending_in (ms_view s) t" using P [of t] x by simp
  have before: "task_before t u" if "pending_in (ms_view s) u" for u
    using that P [of u] x sortTasks_correct [of ?P] by (auto intro: task_before_order)
  have l: "limited 1 (sortTasks ?P) = [t]" using x by (simp add: limited_def)
  have m: "map_of (ms_tasks s) (task_ID t) = Some t" "json_task t"
    using t assms(1) by (auto simp: pending_in_def ms_view_def ms_inv_def dest: map_of_SomeD)
  then have j: "json_task (claimed now t)" using assms(2) by (simp add: claimed_def json_task_def)
  have id: "task_ID (claimed now t) = task_ID t" by (simp add: claimed_def)
  let ?s = "s\<lparr>ms_tasks := AList.update (task_ID t) (claimed now t) (ms_tasks s)\<rparr>"
  have "MemoryStore_ClaimPending s (visit p (ms_tasks s)) now 1 = (?s, Inr [claimed now t])"
    using assms(1) l m j
    by (simp add: MemoryStore_ClaimPending_def checkOpen_def ms_inv_def Let_def claimed_def [symmetric])
  moreover have "ms_inv ?s" by (rule ms_inv_update [OF assms(1) j]) (simp add: id)
  moreover have "ms_view ?s = (ms_view s)(task_ID t \<mapsto> claimed now t)"
    by (simp add: ms_view_def update_conv')
  ultimately show ?thesis using t before by blast
qed

lemma ms_claim_none:
  assumes "ms_inv s" "\<forall>t. \<not> pending_in (ms_view s) t"
  shows "MemoryStore_ClaimPending s (visit p (ms_tasks s)) now 1 = (s, Inr [])"
proof -
  have "tasks_with StatusPending (visit p (ms_tasks s)) = []"
    using pending_tasks [OF assms(1)] assms(2) by (metis last_in_set)
  moreover have "sortTasks [] = []" using sortTasks_correct [of "[]"] by simp
  ultimately show ?thesis
    using assms(1) by (simp add: MemoryStore_ClaimPending_def checkOpen_def ms_inv_def limited_def)
qed

interpretation memory: task_store "memory_ops (visit p)" ms_inv ms_view json_task json_time touched
  for p
proof unfold_locales
  fix s now t0
  assume "ms_inv s" "json_time now" "pending_in (ms_view s) t0"
  then show "\<exists>s' t. st_ClaimPending (memory_ops (visit p)) s now 1 = (s', Inr [claimed now t]) \<and>
      ms_inv s' \<and> pending_in (ms_view s) t \<and> (\<forall>u. pending_in (ms_view s) u \<longrightarrow> task_before t u) \<and>
      ms_view s' = (ms_view s)(task_ID t \<mapsto> claimed now t)"
    using ms_claim_one by (simp add: memory_ops_def)
next
  fix s now t
  assume s: "ms_inv s" and "json_time now" "json_task t" "task_ID t \<in> dom (ms_view s)"
  then have j: "json_task (t\<lparr>task_UpdatedAt := now\<rparr>)" by (simp add: json_task_def)
  from s \<open>json_task t\<close> \<open>task_ID t \<in> dom (ms_view s)\<close>
  show "\<exists>s'. st_Update (memory_ops (visit p)) s now t = (s', Inr ()) \<and> ms_inv s' \<and>
      ms_view s' = (ms_view s)(task_ID t \<mapsto> touched now t)"
    using ms_inv_update [OF s j]
    by (auto simp: touched_def memory_ops_def MemoryStore_Update_def checkOpen_def ms_view_def update_conv' dom_def)
      (simp_all add: ms_inv_def)
next
  fix s i
  assume s: "ms_inv s"
  then have "ms_inv (s\<lparr>ms_tasks := AList.delete i (ms_tasks s)\<rparr>)"
    by (auto simp: ms_inv_def AList.delete_eq distinct_map_filter)
  with s show "\<exists>s'. st_Delete (memory_ops (visit p)) s i = (s', Inr ()) \<and> ms_inv s' \<and>
      ms_view s' = (ms_view s)(i := None)"
    by (auto simp: memory_ops_def MemoryStore_Delete_def checkOpen_def ms_view_def delete_conv' ms_inv_def)
next
  fix s t
  assume "ms_inv s" "ms_view s (task_ID t) = Some t"
  then show "json_task t" by (auto simp: ms_inv_def ms_view_def dest: map_of_SomeD)
qed (simp_all add: memory_ops_def ms_claim_none, auto simp: json_task_def touched_def)

section \<open>The retry delay\<close>

lemma retryDelay_capped: "retryDelay q a \<le> q_maxRetryDelay q"
  by (simp add: retryDelay_def Let_def)

text \<open>Exponential backoff, as long as the product fits 64 bits.\<close>

lemma retryDelay_backoff:
  assumes "q_retryBase q > 0" "a > 0" "q_retryBase q * 2 ^ nat (a - 1) < 2 ^ 63"
  shows "retryDelay q a = min (q_retryBase q * 2 ^ nat (a - 1)) (q_maxRetryDelay q)"
proof -
  let ?x = "q_retryBase q * 2 ^ nat (a - 1)"
  have w: "(of_int (q_retryBase q) * push_bit (nat (a - 1)) 1 :: 64 word) = of_int ?x"
    by (simp add: push_bit_eq_mult)
  have "sint (of_int ?x :: 64 word) = ?x"
    by (rule sint_of_int_small) (use assms(1,3) in \<open>simp_all add: order_trans [of _ 0]\<close>)
  then have "sint (of_int (q_retryBase q) * push_bit (nat (a - 1)) 1 :: 64 word) = ?x"
    by (subst w)
  then show ?thesis using assms(2) by (simp add: retryDelay_def Let_def min_def)
qed

section \<open>A concrete queue\<close>

definition mail_task :: Task where
  "mail_task = \<lparr>task_ID = ''t1'', task_Kind = ''mail'', task_Payload = [], task_Priority = 0,
     task_Status = StatusPending, task_Attempts = 0, task_MaxAttempts = 3, task_CreatedAt = 1,
     task_UpdatedAt = 1, task_Deadline = 0, task_Error = ''''\<rparr>"

definition urgent_task :: Task where
  "urgent_task = mail_task\<lparr>task_ID := ''t2'', task_Priority := 5, task_CreatedAt := 2\<rparr>"

definition failing_queue :: "Task list \<Rightarrow> MemoryStore Queue" where
  "failing_queue ts = (NewQueue \<lparr>ms_tasks = map (\<lambda>t. (task_ID t, t)) ts, ms_closed = False\<rparr> 1 [])
     \<lparr>q_handlers := [''mail'' \<mapsto> (\<lambda>t. (t, HandlerError ''smtp down''))]\<rparr>"

lemma failing_queue_simps [simp]:
  "q_store (failing_queue ts) = \<lparr>ms_tasks = map (\<lambda>t. (task_ID t, t)) ts, ms_closed = False\<rparr>"
  "q_handlers (failing_queue ts) = [''mail'' \<mapsto> (\<lambda>t. (t, HandlerError ''smtp down''))]"
  "tame (failing_queue ts)"
  by (simp_all add: failing_queue_def NewQueue_def tame_def)

lemma failing_queue_pending:
  "distinct (map task_ID ts) \<Longrightarrow> pending_in (ms_view (q_store (failing_queue ts))) t \<longleftrightarrow>
     t \<in> set ts \<and> task_Status t = StatusPending"
  by (auto simp: pending_in_def ms_view_def map_of_eq_Some_iff comp_def)

section \<open>Properties\<close>

text \<open>
  \<^verbatim>\<open>sortTasks\<close> sorts: its result has the same tasks, as many times, in the order of higher
  priority first and, at one priority, earlier creation first.
\<close>

theorem sortTasks_sorts:
  "mset (sortTasks ts) = mset ts \<and>
   sorted_wrt (\<lambda>a b. task_Priority a > task_Priority b \<or>
     task_Priority a = task_Priority b \<and> task_CreatedAt a \<le> task_CreatedAt b) (sortTasks ts)"
  using sortTasks_correct [of ts] by (simp add: task_before_def [abs_def])

text \<open>
  One round of a worker on the in-memory store, whatever order the runtime visits the
  map in: where some task is pending, the round takes a pending task that no other pending
  task goes before, and afterwards the store differs in that task only, which is settled as
  the code's cases say. It is deleted after success, dead-lettered when it is expired, has no
  handler or has failed for the last time it may, and pending again otherwise, with its
  attempt counted.
\<close>

theorem processOne_settles_first:
  assumes "ms_inv (q_store q)" "\<forall>i. json_time (clk i)" "tame q"
    and "pending_in (ms_view (q_store q)) t0"
    and "processOne quote (memory_ops (visit p)) q clk = (q', r)"
  shows "\<exists>t. pending_in (ms_view (q_store q)) t \<and>
    (\<forall>u. pending_in (ms_view (q_store q)) u \<longrightarrow> task_before t u) \<and>
    ms_inv (q_store q') \<and> (\<exists>w. r = Inr (True, w)) \<and>
    ms_view (q_store q') = (ms_view (q_store q))(task_ID t := settled touched quote q clk (claimed (clk 0) t))"
  using memory.processOne_task [OF assms] by blast

theorem processOne_settles_first_witness:
  "let q' = fst (processOne id (memory_ops (visit (Map_order id))) (failing_queue [mail_task, urgent_task]) (\<lambda>_. 7))
   in ms_view (q_store q') ''t1'' = Some mail_task \<and>
      map_option task_Attempts (ms_view (q_store q') ''t2'') = Some 1"
proof -
  let ?q = "failing_queue [mail_task, urgent_task]"
  obtain q' r where p: "processOne id (memory_ops (visit (Map_order id))) ?q (\<lambda>_. 7) = (q', r)" by fastforce
  have inv: "ms_inv (q_store ?q)" "\<forall>i :: nat. json_time 7"
    by (simp_all add: ms_inv_def json_task_def json_time_def mail_task_def urgent_task_def)
  have d: "distinct (map task_ID [mail_task, urgent_task])" by (simp add: mail_task_def urgent_task_def)
  have pend: "pending_in (ms_view (q_store ?q)) t \<longleftrightarrow> t = mail_task \<or> t = urgent_task" for t
    unfolding failing_queue_pending [OF d] by (auto simp: mail_task_def urgent_task_def)
  then have "pending_in (ms_view (q_store ?q)) mail_task" by simp
  from processOne_settles_first [OF inv failing_queue_simps(3) this p]
  obtain t where t: "pending_in (ms_view (q_store ?q)) t"
    "\<forall>u. pending_in (ms_view (q_store ?q)) u \<longrightarrow> task_before t u"
    "ms_view (q_store q') = (ms_view (q_store ?q))(task_ID t := settled touched id ?q (\<lambda>_. 7) (claimed 7 t))"
    by blast
  have "\<not> task_before mail_task urgent_task" by (simp add: task_before_def mail_task_def urgent_task_def)
  moreover have "task_before t urgent_task" using t(2) unfolding pend by (rule allE [of _ urgent_task]) simp
  ultimately have "t = urgent_task" using t(1) unfolding pend by (elim disjE) simp_all
  then have v: "ms_view (q_store q') = (ms_view (q_store ?q))(''t2'' := settled touched id ?q (\<lambda>_. 7) (claimed 7 urgent_task))"
    using t(3) by (simp add: urgent_task_def)
  have "ms_view (q_store ?q) ''t1'' = Some mail_task" by (simp add: ms_view_def mail_task_def)
  moreover have "map_option task_Attempts (settled touched id ?q (\<lambda>_. 7) (claimed 7 urgent_task)) = Some 1"
    by (simp add: settled_def touched_def mail_task_def urgent_task_def IsExpired_def IsZero_def claimed_def runHandler_def)
  ultimately show ?thesis unfolding p fst_conv Let_def v by simp
qed

text \<open>
  C16. Retries end. A pending task without deadline whose handler fails every time, alone in
  an in-memory queue whose handlers leave the task as it is, with \<open>Suc n\<close> attempts left, is dead-lettered by the \<open>Suc n\<close>-th round, with
  exactly its maximum of attempts counted: it is neither retried forever nor given up early.
\<close>

theorem failing_task_dead_lettered:
  assumes "ms_inv (q_store q)" "\<forall>j i. json_time (clks j i)" "tame q"
    and "pending_in (ms_view (q_store q)) t" "\<forall>u. pending_in (ms_view (q_store q)) u \<longrightarrow> u = t"
    and "q_handlers q (task_Kind t) = Some h" "\<forall>u. snd (runHandler h u) \<noteq> None" "task_Deadline t = 0"
    and "task_MaxAttempts t = task_Attempts t + int (Suc n)"
  shows "\<exists>t'. ms_view (q_store (process_rounds quote (memory_ops (visit p)) clks (Suc n) q)) (task_ID t) = Some t' \<and>
    task_Status t' = StatusDeadLetter \<and> task_Attempts t' = task_MaxAttempts t"
  using memory.fails_to_dead_letter [OF assms] by blast

theorem failing_task_dead_lettered_witness:
  "\<exists>t'. ms_view (q_store (process_rounds id (memory_ops (visit (Map_order id))) (\<lambda>_ _. 7) 3 (failing_queue [mail_task]))) ''t1'' = Some t' \<and>
     task_Status t' = StatusDeadLetter \<and> task_Attempts t' = 3"
proof -
  let ?q = "failing_queue [mail_task]"
  have inv: "ms_inv (q_store ?q)" "\<forall>(j :: nat) (i :: nat). json_time 7"
    by (simp_all add: ms_inv_def json_task_def json_time_def mail_task_def)
  have pend: "pending_in (ms_view (q_store ?q)) t \<longleftrightarrow> t = mail_task" for t
    using failing_queue_pending [of "[mail_task]" t] by (auto simp: mail_task_def)
  then have "pending_in (ms_view (q_store ?q)) mail_task" "\<forall>u. pending_in (ms_view (q_store ?q)) u \<longrightarrow> u = mail_task"
    by auto
  from failing_task_dead_lettered [OF inv failing_queue_simps(3) this, of _ 2 id "Map_order id"]
  show ?thesis by (simp add: mail_task_def runHandler_def numeral_3_eq_3)
qed

text \<open>
  The retry delay doubles with every attempt from the base delay on and is cut at the
  maximum, as long as the product fits 64 bits.
\<close>

theorem retryDelay_doubles:
  assumes "q_retryBase q > 0" "a > 0" "q_retryBase q * 2 ^ nat (a - 1) < 2 ^ 63"
  shows "retryDelay q a = min (q_retryBase q * 2 ^ nat (a - 1)) (q_maxRetryDelay q)"
  using assms by (rule retryDelay_backoff)

theorem retryDelay_doubles_witness:
  "map (retryDelay (failing_queue [])) [1, 2, 4, 30] = [10 ^ 9, 2 * 10 ^ 9, 8 * 10 ^ 9, 300 * 10 ^ 9]"
  using retryDelay_doubles [of "failing_queue []" 1] retryDelay_doubles [of "failing_queue []" 2]
    retryDelay_doubles [of "failing_queue []" 4] retryDelay_doubles [of "failing_queue []" 30]
  by (simp add: failing_queue_def NewQueue_def)

text \<open>
  Beyond 64 bits the delay is not the maximum: with the default base of one second the
  35th attempt waits a negative time and every attempt from the 56th on waits none at all,
  so a task with many attempts is retried without pause.
\<close>

theorem retryDelay_wraps:
  "retryDelay (NewQueue s w []) 35 < 0 \<and> retryDelay (NewQueue s w []) (56 + int n) = 0"
proof -
  have "1000000000 * 2 ^ (55 + n) = (0 :: 64 word)"
  proof -
    have "1000000000 * 2 ^ 55 = (0 :: 64 word)" by simp
    then show ?thesis by (simp only: power_add mult.assoc [symmetric] mult_zero_left)
  qed
  moreover have "nat (55 + int n) = 55 + n" by simp
  ultimately have "retryDelay (NewQueue s w []) (56 + int n) = 0"
    by (simp add: retryDelay_def NewQueue_def Let_def push_bit_eq_mult)
  moreover have "retryDelay (NewQueue s w []) 35 < 0"
    by (simp add: retryDelay_def NewQueue_def Let_def)
  ultimately show ?thesis by simp
qed

end
