(* ===== verification/Bolt.thy ===== *)
theory Bolt
  imports Prelude
begin

text \<open>
  The embedded database BoltDB (\<^verbatim>\<open>go.etcd.io/bbolt\<close>), which is not part of the repository, as
  the argument \<open>B\<close> of the stores that run transactions of several steps on it (the metadata
  store, the task store and the replicated state machine).

  A database is a value \<open>'db\<close>. \<^verbatim>\<open>db.Begin\<close> gives a transaction \<open>'tx\<close> on it, whose steps read and
  change the transaction, and \<^verbatim>\<open>Commit\<close> gives the new database. \<open>bolt_Update\<close> and \<open>bolt_View\<close> are
  the two ways the code runs a closure on a transaction: an error leaves the database as it was.
  What the closure does to variables outside the transaction happens even if the commit fails,
  which is why the closure also transforms a value \<open>'o\<close>.

  \<open>bolt_db_ok\<close> collects the documented behaviour the stores rely on, of a database that is open
  (\<^verbatim>\<open>Begin\<close> only refuses a closed one), \<open>bolt_no_errors\<close> the hypothesis that no write to the disk fails. A value is the Go value whose JSON encoding is stored.
\<close>

record ('db, 'tx, 'd) bolt_db =
  bdb_Begin :: "'db \<Rightarrow> string + 'tx"
  bdb_Commit :: "'tx \<Rightarrow> string + 'db"
  btx_Get :: "'tx \<Rightarrow> string \<Rightarrow> string \<Rightarrow> 'd option"
  btx_Entries :: "'tx \<Rightarrow> string \<Rightarrow> (string \<times> 'd) list"
  btx_Put :: "'tx \<Rightarrow> string \<Rightarrow> string \<Rightarrow> 'd \<Rightarrow> string + 'tx"
  btx_Delete :: "'tx \<Rightarrow> string \<Rightarrow> string \<Rightarrow> string + 'tx"
  btx_CreateBucketIfNotExists :: "'tx \<Rightarrow> string \<Rightarrow> string + 'tx"

text \<open>The largest key BoltDB accepts.\<close>

definition MaxKeySize :: nat where "MaxKeySize = 32768"

definition valid_key :: "string \<Rightarrow> bool" where
  "valid_key k \<longleftrightarrow> k \<noteq> '''' \<and> length k \<le> MaxKeySize"

definition bolt_db_ok :: "('db, 'tx, 'd) bolt_db \<Rightarrow> bool" where
  "bolt_db_ok B \<longleftrightarrow>
     (\<forall>db. \<not> isl (bdb_Begin B db)) \<and>
     (\<forall>tx bk k v tx'. btx_Put B tx bk k v = Inr tx' \<longrightarrow>
        (\<forall>bk' k'. btx_Get B tx' bk' k' = (if bk' = bk \<and> k' = k then Some v else btx_Get B tx bk' k'))) \<and>
     (\<forall>tx bk k tx'. btx_Delete B tx bk k = Inr tx' \<longrightarrow>
        (\<forall>bk' k'. btx_Get B tx' bk' k' = (if bk' = bk \<and> k' = k then None else btx_Get B tx bk' k'))) \<and>
     (\<forall>tx bk tx'. btx_CreateBucketIfNotExists B tx bk = Inr tx' \<longrightarrow> btx_Get B tx' = btx_Get B tx) \<and>
     (\<forall>tx bk. sorted_wrt (<) (map fst (btx_Entries B tx bk)) \<and>
        map_of (btx_Entries B tx bk) = btx_Get B tx bk) \<and>
     (\<forall>tx db' tx'. bdb_Commit B tx = Inr db' \<longrightarrow> bdb_Begin B db' = Inr tx' \<longrightarrow>
        btx_Get B tx' = btx_Get B tx) \<and>
     (\<forall>tx bk k v. \<not> valid_key k \<longrightarrow> isl (btx_Put B tx bk k v))"

definition bolt_no_errors :: "('db, 'tx, 'd) bolt_db \<Rightarrow> bool" where
  "bolt_no_errors B \<longleftrightarrow>
     (\<forall>tx. \<not> isl (bdb_Commit B tx)) \<and>
     (\<forall>tx bk k v. valid_key k \<longrightarrow> \<not> isl (btx_Put B tx bk k v)) \<and>
     (\<forall>tx bk k. \<not> isl (btx_Delete B tx bk k)) \<and>
     (\<forall>tx bk. \<not> isl (btx_CreateBucketIfNotExists B tx bk))"

section \<open>Running a closure on a transaction\<close>

definition bolt_Update ::
    "('db, 'tx, 'd) bolt_db \<Rightarrow> 'db \<Rightarrow> 'o \<Rightarrow> ('o \<Rightarrow> 'tx \<Rightarrow> 'o \<times> 'tx result) \<Rightarrow> 'db \<times> 'o \<times> unit result" where
  "bolt_Update B db out f =
     (case bdb_Begin B db of
        Inl e \<Rightarrow> (db, out, Inl (Err e))
      | Inr tx \<Rightarrow>
          (case f out tx of
             (out', Inl e) \<Rightarrow> (db, out', Inl e)
           | (out', Inr tx') \<Rightarrow>
               (case bdb_Commit B tx' of
                  Inl e \<Rightarrow> (db, out', Inl (Err e))
                | Inr db' \<Rightarrow> (db', out', Inr ()))))"

definition bolt_View :: "('db, 'tx, 'd) bolt_db \<Rightarrow> 'db \<Rightarrow> ('tx \<Rightarrow> 'a result) \<Rightarrow> 'a result" where
  "bolt_View B db f = (case bdb_Begin B db of Inl e \<Rightarrow> Inl (Err e) | Inr tx \<Rightarrow> f tx)"

text \<open>A step of a closure whose error the closure returns.\<close>

definition tx_step :: "string + 'tx \<Rightarrow> 'tx result" where
  "tx_step r = (case r of Inl e \<Rightarrow> Inl (Err e) | Inr tx \<Rightarrow> Inr tx)"

definition tx_put :: "('db, 'tx, 'd) bolt_db \<Rightarrow> string \<Rightarrow> string \<Rightarrow> 'd \<Rightarrow> 'tx \<Rightarrow> 'tx result" where
  "tx_put B bk k v tx = tx_step (btx_Put B tx bk k v)"

definition tx_delete :: "('db, 'tx, 'd) bolt_db \<Rightarrow> string \<Rightarrow> string \<Rightarrow> 'tx \<Rightarrow> 'tx result" where
  "tx_delete B bk k tx = tx_step (btx_Delete B tx bk k)"

text \<open>The loop that deletes the collected keys.\<close>

fun tx_delete_all :: "('db, 'tx, 'd) bolt_db \<Rightarrow> string \<Rightarrow> string list \<Rightarrow> 'tx \<Rightarrow> 'tx result" where
  "tx_delete_all B bk [] tx = Inr tx"
| "tx_delete_all B bk (k # ks) tx =
     (case tx_delete B bk k tx of Inl e \<Rightarrow> Inl e | Inr tx' \<Rightarrow> tx_delete_all B bk ks tx')"

text \<open>\<^verbatim>\<open>cursor.Seek(p)\<close> and then \<^verbatim>\<open>cursor.Next()\<close>: the pairs from the first key not below \<open>p\<close>.\<close>

definition cursor_seek :: "('db, 'tx, 'd) bolt_db \<Rightarrow> 'tx \<Rightarrow> string \<Rightarrow> string \<Rightarrow> (string \<times> 'd) list" where
  "cursor_seek B tx bk p = dropWhile (\<lambda>kv. fst kv < p) (btx_Entries B tx bk)"

text \<open>The loop that follows a \<^verbatim>\<open>Seek\<close> as long as the key has the prefix.\<close>

definition prefix_scan :: "('db, 'tx, 'd) bolt_db \<Rightarrow> 'tx \<Rightarrow> string \<Rightarrow> string \<Rightarrow> (string \<times> 'd) list" where
  "prefix_scan B tx bk p = takeWhile (\<lambda>kv. HasPrefix (fst kv) p) (cursor_seek B tx bk p)"

section \<open>Laws\<close>

lemma Get_Put [store_law]:
  "bolt_db_ok B \<Longrightarrow> tx_put B bk k v tx = Inr tx' \<Longrightarrow>
   btx_Get B tx' bk' k' = (if bk' = bk \<and> k' = k then Some v else btx_Get B tx bk' k')"
  by (auto simp: bolt_db_ok_def tx_put_def tx_step_def split: sum.splits)

lemma Get_Delete [store_law]:
  "bolt_db_ok B \<Longrightarrow> tx_delete B bk k tx = Inr tx' \<Longrightarrow>
   btx_Get B tx' bk' k' = (if bk' = bk \<and> k' = k then None else btx_Get B tx bk' k')"
  by (auto simp: bolt_db_ok_def tx_delete_def tx_step_def split: sum.splits)

lemma Get_delete_all [store_law]:
  "bolt_db_ok B \<Longrightarrow> tx_delete_all B bk ks tx = Inr tx' \<Longrightarrow>
   btx_Get B tx' bk' k' = (if bk' = bk \<and> k' \<in> set ks then None else btx_Get B tx bk' k')"
proof (induction ks arbitrary: tx)
  case (Cons k ks)
  then obtain tx1 where "tx_delete B bk k tx = Inr tx1" "tx_delete_all B bk ks tx1 = Inr tx'"
    by (auto split: sum.splits)
  then show ?case using Cons.IH [OF Cons.prems(1)] Get_Delete [OF Cons.prems(1)] by auto
qed simp

lemma Entries_Get: "bolt_db_ok B \<Longrightarrow> map_of (btx_Entries B tx bk) = btx_Get B tx bk"
  by (simp add: bolt_db_ok_def)

lemma Entries_sorted: "bolt_db_ok B \<Longrightarrow> sorted_wrt (<) (map fst (btx_Entries B tx bk))"
  by (simp add: bolt_db_ok_def)

lemma Entries_distinct: "bolt_db_ok B \<Longrightarrow> distinct (map fst (btx_Entries B tx bk))"
  using Entries_sorted [of B tx bk] by (simp add: strict_sorted_iff)

lemma Entries_mem: "bolt_db_ok B \<Longrightarrow> (k, v) \<in> set (btx_Entries B tx bk) \<longleftrightarrow> btx_Get B tx bk k = Some v"
  using Entries_Get Entries_distinct by (metis map_of_eq_Some_iff)

text \<open>Two transactions that read alike have the same entries.\<close>

lemma sorted_alist:
  assumes "sorted_wrt (<) (map fst xs)"
  shows "xs = map (\<lambda>k. (k, the (map_of xs k))) (sorted_list_of_set (dom (map_of xs)))"
proof -
  have d: "distinct (map fst xs)" and s: "sorted (map fst xs)"
    using assms by (simp_all add: strict_sorted_iff)
  have "map fst xs = sorted_list_of_set (dom (map_of xs))"
    using d s by (metis dom_map_of_conv_image_fst list.set_map sorted_list_of_set_unique finite_dom_map_of
        sorted_list_of_set.idem_if_sorted_distinct)
  moreover have "map (\<lambda>k. (k, the (map_of xs k))) (map fst xs) = xs"
    using d by (auto simp: comp_def intro!: map_idI)
  ultimately show ?thesis by simp
qed

lemma Entries_cong:
  assumes "bolt_db_ok B" "btx_Get B tx bk = btx_Get B tx' bk'"
  shows "btx_Entries B tx bk = btx_Entries B tx' bk'"
  using sorted_alist [OF Entries_sorted [OF assms(1), of tx bk]]
    sorted_alist [OF Entries_sorted [OF assms(1), of tx' bk']] assms
  by (simp add: Entries_Get)

lemma Put_invalid: "bolt_db_ok B \<Longrightarrow> \<not> valid_key k \<Longrightarrow> isl (tx_put B bk k v tx)"
  by (cases "btx_Put B tx bk k v") (simp_all add: bolt_db_ok_def tx_put_def tx_step_def, metis sum.disc(2))

lemma Put_succeeds: "bolt_no_errors B \<Longrightarrow> valid_key k \<Longrightarrow> \<exists>tx'. tx_put B bk k v tx = Inr tx'"
  by (cases "btx_Put B tx bk k v") (simp_all add: bolt_no_errors_def tx_put_def tx_step_def, metis sum.disc(1))

lemma Delete_succeeds: "bolt_no_errors B \<Longrightarrow> \<exists>tx'. tx_delete B bk k tx = Inr tx'"
  by (cases "btx_Delete B tx bk k") (simp_all add: bolt_no_errors_def tx_delete_def tx_step_def, metis sum.disc(1))

lemma delete_all_succeeds: "bolt_no_errors B \<Longrightarrow> \<exists>tx'. tx_delete_all B bk ks tx = Inr tx'"
proof (induction ks arbitrary: tx)
  case (Cons k ks)
  then show ?case using Delete_succeeds [of B bk k tx] by auto
qed simp

text \<open>What a database holds.\<close>

definition db_get :: "('db, 'tx, 'd) bolt_db \<Rightarrow> 'db \<Rightarrow> string \<Rightarrow> string \<rightharpoonup> 'd" where
  "db_get B db = btx_Get B (projr (bdb_Begin B db))"

lemma Begin_ok: "bolt_db_ok B \<Longrightarrow> bdb_Begin B db = Inr (projr (bdb_Begin B db))"
  by (simp add: bolt_db_ok_def)

lemma Commit_ok: "bolt_no_errors B \<Longrightarrow> \<exists>db. bdb_Commit B tx = Inr db"
  by (cases "bdb_Commit B tx") (simp_all add: bolt_no_errors_def, metis sum.disc(1))

lemma Commit_get: "bolt_db_ok B \<Longrightarrow> bdb_Commit B tx = Inr db \<Longrightarrow> db_get B db = btx_Get B tx"
  using Begin_ok [of B db] by (simp add: bolt_db_ok_def db_get_def)

lemma View_get: "bolt_db_ok B \<Longrightarrow> bolt_View B db f = f (projr (bdb_Begin B db))"
  by (subst (1) bolt_View_def, subst Begin_ok) auto

text \<open>A transaction that returns without error has run its closure to the end and committed.\<close>

lemma Update_Inr:
  assumes "bolt_db_ok B" "bolt_Update B db out f = (db', out', Inr ())"
  obtains tx' where "f out (projr (bdb_Begin B db)) = (out', Inr tx')" "db_get B db' = btx_Get B tx'"
proof -
  have "bdb_Begin B db = Inr (projr (bdb_Begin B db))" by (rule Begin_ok [OF assms(1)])
  then obtain tx' where "f out (projr (bdb_Begin B db)) = (out', Inr tx')" "bdb_Commit B tx' = Inr db'"
    using assms(2) by (auto simp: bolt_Update_def split: sum.splits prod.splits)
  then show thesis using that Commit_get [OF assms(1)] by blast
qed

text \<open>One that returns an error leaves the database as it was.\<close>

lemma Update_Inl: "bolt_Update B db out f = (db', out', Inl e) \<Longrightarrow> db' = db"
  by (auto simp: bolt_Update_def split: sum.splits prod.splits)

lemma Update_run:
  assumes "bolt_db_ok B" "bolt_no_errors B" "f out (projr (bdb_Begin B db)) = (out', Inr tx')"
  obtains db' where "bolt_Update B db out f = (db', out', Inr ())" "db_get B db' = btx_Get B tx'"
proof -
  obtain db' where c: "bdb_Commit B tx' = Inr db'" using Commit_ok [OF assms(2)] by blast
  have "bolt_Update B db out f = (db', out', Inr ())"
    using Begin_ok [OF assms(1), of db] assms(3) c by (auto simp: bolt_Update_def split: sum.splits)
  then show thesis using that Commit_get [OF assms(1) c] by blast
qed

lemma Update_fails:
  assumes "bolt_db_ok B" "f out (projr (bdb_Begin B db)) = (out', Inl e)"
  shows "bolt_Update B db out f = (db, out', Inl e)"
  using Begin_ok [OF assms(1), of db] assms(2) by (auto simp: bolt_Update_def split: sum.splits)

section \<open>Scanning a prefix\<close>

text \<open>The keys with a prefix are those between the prefix and the last of them.\<close>

lemma prefix_le: "prefix p k \<Longrightarrow> p \<le> (k :: string)"
  by (induction p arbitrary: k) (auto simp: prefix_def)

lemma prefix_between: "p \<le> (k :: string) \<Longrightarrow> k \<le> l \<Longrightarrow> prefix p l \<Longrightarrow> prefix p k"
proof (induction p arbitrary: k l)
  case (Cons a p)
  then obtain l' where l: "l = a # l'" "prefix p l'" by (auto simp: prefix_def)
  with Cons.prems obtain k' where "k = a # k'" "p \<le> k'" "k' \<le> l'"
    by (cases k) (auto simp: less_le_not_le)
  with Cons.IH l show ?case by auto
qed simp

lemma scan_filter:
  assumes "sorted_wrt (<) (map fst xs)"
  shows "takeWhile (\<lambda>kv. HasPrefix (fst kv) p) (dropWhile (\<lambda>kv. fst kv < p) xs) =
    filter (\<lambda>kv. HasPrefix (fst kv) p) xs"
  using assms
proof (induction xs)
  case (Cons x xs)
  then have s: "\<forall>y \<in> set xs. fst x < fst y" "sorted_wrt (<) (map fst xs)" by auto
  show ?case
  proof (cases "fst x < p")
    case True
    then have "\<not> HasPrefix (fst x) p" using prefix_le [of p "fst x"] by (auto simp: HasPrefix_prefix)
    with True s Cons.IH show ?thesis by simp
  next
    case ge: False
    then have "dropWhile (\<lambda>kv. fst kv < p) xs = xs"
      using s(1) by (cases xs) (auto simp: not_less dest: order.strict_trans1)
    note * = Cons.IH [OF s(2), unfolded this]
    show ?thesis
    proof (cases "HasPrefix (fst x) p")
      case True
      then show ?thesis using ge * by simp
    next
      case False
      then have "\<not> HasPrefix (fst y) p" if "y \<in> set xs" for y
        using prefix_between [of p "fst x" "fst y"] ge that s(1)
        by (auto simp: HasPrefix_prefix not_less dest: order.strict_implies_order)
      then show ?thesis using ge False by (auto simp: filter_empty_conv)
    qed
  qed
qed simp

lemma prefix_scan_filter:
  "bolt_db_ok B \<Longrightarrow> prefix_scan B tx bk p = filter (\<lambda>kv. HasPrefix (fst kv) p) (btx_Entries B tx bk)"
  by (simp add: prefix_scan_def cursor_seek_def scan_filter Entries_sorted)

lemma prefix_scan_mem:
  "bolt_db_ok B \<Longrightarrow> (k, v) \<in> set (prefix_scan B tx bk p) \<longleftrightarrow> btx_Get B tx bk k = Some v \<and> HasPrefix k p"
  by (auto simp: prefix_scan_filter Entries_mem)

section \<open>A database in memory\<close>

text \<open>
  An instance that meets every law: a bucket is an association list, read back in key order. It
  shows that the hypotheses can hold and runs the concrete examples.
\<close>

type_synonym 'd mem_db = "string \<Rightarrow> (string \<times> 'd) list"

definition mem_entries :: "(string \<times> 'd) list \<Rightarrow> (string \<times> 'd) list" where
  "mem_entries xs = map (\<lambda>k. (k, the (map_of xs k))) (sort (remdups (map fst xs)))"

definition mem_db :: "('d mem_db, 'd mem_db, 'd) bolt_db" where
  "mem_db = \<lparr>bdb_Begin = Inr, bdb_Commit = Inr, btx_Get = (\<lambda>tx bk. map_of (tx bk)),
     btx_Entries = (\<lambda>tx bk. mem_entries (tx bk)),
     btx_Put = (\<lambda>tx bk k v. if valid_key k then Inr (tx(bk := (k, v) # tx bk)) else Inl ''key required''),
     btx_Delete = (\<lambda>tx bk k. Inr (tx(bk := filter (\<lambda>kv. fst kv \<noteq> k) (tx bk)))),
     btx_CreateBucketIfNotExists = (\<lambda>tx bk. Inr tx)\<rparr>"

lemma mem_entries_sorted: "sorted_wrt (<) (map fst (mem_entries xs))"
  by (simp add: mem_entries_def comp_def strict_sorted_iff)

lemma map_of_pairs: "map_of (map (\<lambda>k. (k, f k)) ks) k = (if k \<in> set ks then Some (f k) else None)"
  by (induction ks) auto

lemma mem_entries_get: "map_of (mem_entries xs) = map_of xs"
proof
  fix k
  have "k \<in> fst ` set xs \<longleftrightarrow> map_of xs k \<noteq> None" by (simp add: map_of_eq_None_iff)
  then show "map_of (mem_entries xs) k = map_of xs k"
    by (cases "map_of xs k") (simp_all add: mem_entries_def map_of_pairs)
qed

lemma map_of_filter_key: "map_of (filter (\<lambda>kv. fst kv \<noteq> k) xs) k' = (if k' = k then None else map_of xs k')"
  by (induction xs) auto

lemma mem_db_ok [simp]: "bolt_db_ok mem_db"
  by (auto simp: bolt_db_ok_def mem_db_def mem_entries_sorted mem_entries_get map_of_filter_key
      split: if_splits)

lemma mem_db_no_errors [simp]: "bolt_no_errors mem_db"
  by (simp add: bolt_no_errors_def mem_db_def)

text \<open>Its operations, for evaluating the examples.\<close>

lemma Commit_mem [simp]: "bdb_Commit mem_db tx = Inr tx" and Begin_mem [simp]: "bdb_Begin mem_db db = Inr db"
  and Get_mem [simp]: "btx_Get mem_db tx bk = map_of (tx bk)"
  and Entries_mem_db [simp]: "btx_Entries mem_db tx bk = mem_entries (tx bk)"
  and Create_mem [simp]: "btx_CreateBucketIfNotExists mem_db tx bk = Inr tx"
  and Put_mem: "tx_put mem_db bk k v tx = (if valid_key k then Inr (tx(bk := (k, v) # tx bk)) else Inl (Err ''key required''))"
  by (simp_all add: mem_db_def tx_put_def tx_step_def)

lemma holds_mem [simp]: "db_get mem_db db bk = map_of (db bk)"
  by (simp add: db_get_def)

end
