(* ===== verification/Task_Bolt.thy ===== *)
theory Task_Bolt
  imports Task_Queue Bolt
begin

text \<open>
  The persistent task store, \<^verbatim>\<open>internal/taskqueue/bolt_store.go\<close>, on the database of the theory
  \<open>Bolt\<close>, and the payloads of \<^verbatim>\<open>payloads.go\<close>. The store meets the contract \<open>task_store\<close> of the
  queue, so what is proved of a worker's rounds holds on it as well. Unlike the in-memory store it
  does not touch the time of the last update in \<^verbatim>\<open>Put\<close> and \<^verbatim>\<open>Update\<close>.
\<close>

section \<open>The store\<close>

datatype task_doc = TTask Task | TInvalid string

definition taskBucket :: string where "taskBucket = ''tasks''"

record 'db BoltStore =
  bs_db :: 'db

definition marshal_task :: "Task \<Rightarrow> task_doc result" where
  "marshal_task t = (if json_task t then Inr (TTask t) else Inl json_time_error)"

fun as_task :: "task_doc \<Rightarrow> Task result" where
  "as_task (TTask t) = Inr t"
| "as_task (TInvalid e) = Inl (Err e)"

text \<open>The outcomes of creating the directory and of opening the file are arguments.\<close>

definition NewBoltStore ::
    "('db, 'tx, task_doc) bolt_db \<Rightarrow> string option \<Rightarrow> string + 'db \<Rightarrow> 'db BoltStore result" where
  "NewBoltStore B mkdir opened =
     (case mkdir of
        Some e \<Rightarrow> Inl (Err (''failed to create task store directory: '' @ e))
      | None \<Rightarrow>
          (case opened of
             Inl e \<Rightarrow> Inl (Err (''failed to open task store: '' @ e))
           | Inr db \<Rightarrow>
               (case bolt_Update B db () (\<lambda>u tx. (u, tx_step (btx_CreateBucketIfNotExists B tx taskBucket))) of
                  (_, _, Inl e) \<Rightarrow> Inl (wrap_err ''failed to initialize task bucket'' e)
                | (db', _, Inr _) \<Rightarrow> Inr \<lparr>bs_db = db'\<rparr>)))"

definition BoltStore_Put ::
    "('db, 'tx, task_doc) bolt_db \<Rightarrow> 'db BoltStore \<Rightarrow> Task \<Rightarrow> 'db BoltStore \<times> unit result" where
  "BoltStore_Put B s task =
     (case marshal_task task of
        Inl e \<Rightarrow> (s, Inl (wrap_err ''failed to marshal task'' e))
      | Inr data \<Rightarrow>
          (case bolt_Update B (bs_db s) () (\<lambda>u tx. (u, tx_put B taskBucket (task_ID task) data tx)) of
             (db', _, r) \<Rightarrow> (s\<lparr>bs_db := db'\<rparr>, r)))"

text \<open>The tasks of a status that \<^verbatim>\<open>ForEach\<close> finds; a record that does not decode is skipped.\<close>

definition tasks_in :: "Status \<Rightarrow> (string \<times> task_doc) list \<Rightarrow> Task list" where
  "tasks_in st kvs = List.map_filter (\<lambda>kv. case as_task (snd kv) of
     Inl _ \<Rightarrow> None | Inr t \<Rightarrow> if task_Status t = st then Some t else None) kvs"

definition BoltStore_GetPending ::
    "('db, 'tx, task_doc) bolt_db \<Rightarrow> 'db BoltStore \<Rightarrow> int \<Rightarrow> Task list result" where
  "BoltStore_GetPending B s limit =
     bolt_View B (bs_db s) (\<lambda>tx. Inr (limited limit (sortTasks (tasks_in StatusPending (btx_Entries B tx taskBucket)))))"

fun rewrite_tasks ::
    "('db, 'tx, task_doc) bolt_db \<Rightarrow> string \<Rightarrow> (Task \<Rightarrow> Task) \<Rightarrow> Task list \<Rightarrow> 'tx \<Rightarrow> 'tx result" where
  "rewrite_tasks B what f [] tx = Inr tx"
| "rewrite_tasks B what f (task # tasks) tx =
     (case marshal_task (f task) of
        Inl e \<Rightarrow> Inl (wrap_err what e)
      | Inr data \<Rightarrow>
          (case tx_put B taskBucket (task_ID task) data tx of
             Inl e \<Rightarrow> Inl e
           | Inr tx' \<Rightarrow> rewrite_tasks B what f tasks tx'))"

text \<open>The closure of \<^verbatim>\<open>ClaimPending\<close> sets the variable \<^verbatim>\<open>pending\<close> outside it.\<close>

definition claim_tx ::
    "('db, 'tx, task_doc) bolt_db \<Rightarrow> gotime \<Rightarrow> int \<Rightarrow> Task list \<Rightarrow> 'tx \<Rightarrow> Task list \<times> 'tx result" where
  "claim_tx B now limit u tx =
     (let pending = limited limit (sortTasks (tasks_in StatusPending (btx_Entries B tx taskBucket)))
      in (map (claimed now) pending, rewrite_tasks B ''failed to marshal claimed task'' (claimed now) pending tx))"

definition BoltStore_ClaimPending ::
    "('db, 'tx, task_doc) bolt_db \<Rightarrow> 'db BoltStore \<Rightarrow> gotime \<Rightarrow> int \<Rightarrow> 'db BoltStore \<times> Task list result" where
  "BoltStore_ClaimPending B s now limit =
     (case bolt_Update B (bs_db s) [] (claim_tx B now limit) of
        (db', _, Inl e) \<Rightarrow> (s\<lparr>bs_db := db'\<rparr>, Inl e)
      | (db', pending, Inr _) \<Rightarrow> (s\<lparr>bs_db := db'\<rparr>, Inr pending))"

definition BoltStore_RecoverProcessing ::
    "('db, 'tx, task_doc) bolt_db \<Rightarrow> 'db BoltStore \<Rightarrow> gotime \<Rightarrow> 'db BoltStore \<times> unit result" where
  "BoltStore_RecoverProcessing B s now =
     (case bolt_Update B (bs_db s) () (\<lambda>u tx.
             (u, rewrite_tasks B ''failed to marshal recovered task''
                   (\<lambda>t. t\<lparr>task_Status := StatusPending, task_UpdatedAt := now\<rparr>)
                   (tasks_in StatusProcessing (btx_Entries B tx taskBucket)) tx)) of
        (db', _, r) \<Rightarrow> (s\<lparr>bs_db := db'\<rparr>, r))"

definition BoltStore_GetByID ::
    "('db, 'tx, task_doc) bolt_db \<Rightarrow> 'db BoltStore \<Rightarrow> string \<Rightarrow> Task result" where
  "BoltStore_GetByID B s i =
     bolt_View B (bs_db s) (\<lambda>tx. case btx_Get B tx taskBucket i of None \<Rightarrow> Inl ErrTaskNotFound | Some data \<Rightarrow> as_task data)"

definition BoltStore_Update ::
    "('db, 'tx, task_doc) bolt_db \<Rightarrow> 'db BoltStore \<Rightarrow> Task \<Rightarrow> 'db BoltStore \<times> unit result" where
  "BoltStore_Update B s task =
     (case marshal_task task of
        Inl e \<Rightarrow> (s, Inl (wrap_err ''failed to marshal task'' e))
      | Inr data \<Rightarrow>
          (case bolt_Update B (bs_db s) () (\<lambda>u tx.
                  (u, if btx_Get B tx taskBucket (task_ID task) = None then Inl ErrTaskNotFound
                      else tx_put B taskBucket (task_ID task) data tx)) of
             (db', _, r) \<Rightarrow> (s\<lparr>bs_db := db'\<rparr>, r)))"

definition BoltStore_Delete ::
    "('db, 'tx, task_doc) bolt_db \<Rightarrow> 'db BoltStore \<Rightarrow> string \<Rightarrow> 'db BoltStore \<times> unit result" where
  "BoltStore_Delete B s i =
     (case bolt_Update B (bs_db s) () (\<lambda>u tx. (u, tx_delete B taskBucket i tx)) of
        (db', _, r) \<Rightarrow> (s\<lparr>bs_db := db'\<rparr>, r))"

definition BoltStore_ListDeadLetter ::
    "('db, 'tx, task_doc) bolt_db \<Rightarrow> 'db BoltStore \<Rightarrow> int \<Rightarrow> Task list result" where
  "BoltStore_ListDeadLetter B s limit =
     bolt_View B (bs_db s) (\<lambda>tx. Inr (limited limit (sortTasks (tasks_in StatusDeadLetter (btx_Entries B tx taskBucket)))))"

text \<open>\<open>close\<close> is the outcome of \<^verbatim>\<open>db.Close()\<close> and the database it leaves.\<close>

definition BoltStore_Close :: "('db \<Rightarrow> 'db \<times> unit result) \<Rightarrow> 'db BoltStore \<Rightarrow> 'db BoltStore \<times> unit result" where
  "BoltStore_Close close s = (case close (bs_db s) of (db', r) \<Rightarrow> (s\<lparr>bs_db := db'\<rparr>, r))"

definition bolt_ops ::
    "('db, 'tx, task_doc) bolt_db \<Rightarrow> ('db \<Rightarrow> 'db \<times> unit result) \<Rightarrow> 'db BoltStore store_ops" where
  "bolt_ops B close =
     \<lparr>st_Put = (\<lambda>s now. BoltStore_Put B s), st_ClaimPending = BoltStore_ClaimPending B,
      st_RecoverProcessing = BoltStore_RecoverProcessing B, st_Update = (\<lambda>s now. BoltStore_Update B s),
      st_Delete = BoltStore_Delete B, st_Close = BoltStore_Close close\<rparr>"

section \<open>Payloads\<close>

definition KindVectorize :: string where "KindVectorize = ''vectorize''"
definition KindFTS :: string where "KindFTS = ''fts''"
definition KindPipeline :: string where "KindPipeline = ''pipeline''"

record VectorizePayload =
  vp_Bucket :: string
  vp_Key :: string
  vp_ContentType :: string
  vp_Metadata :: "string \<rightharpoonup> string"
  vp_UserID :: string

record FTSPayload =
  fp_Bucket :: string
  fp_Key :: string
  fp_ContentType :: string
  fp_VersionID :: string

record PipelinePayload =
  pp_Bucket :: string
  pp_Key :: string
  pp_ContentType :: string
  pp_Metadata :: "string \<rightharpoonup> string"

section \<open>The store meets the contract of the queue\<close>

text \<open>
  The hypotheses on the database are part of the invariant: it behaves as documented and no write
  fails. Every decoded record can be encoded again and is stored under its identifier, a key that
  BoltDB accepts.
\<close>

definition bs_view :: "('db, 'tx, task_doc) bolt_db \<Rightarrow> 'db BoltStore \<Rightarrow> string \<rightharpoonup> Task" where
  "bs_view B s = (\<lambda>k. case db_get B (bs_db s) taskBucket k of Some (TTask t) \<Rightarrow> Some t | _ \<Rightarrow> None)"

definition bs_inv :: "('db, 'tx, task_doc) bolt_db \<Rightarrow> 'db BoltStore \<Rightarrow> bool" where
  "bs_inv B s \<longleftrightarrow> bolt_db_ok B \<and> bolt_no_errors B \<and>
     (\<forall>k t. bs_view B s k = Some t \<longrightarrow>
        json_task t \<and> valid_key k \<and> task_ID t = k)"

lemma bs_view_Some: "bs_view B s k = Some t \<longleftrightarrow> db_get B (bs_db s) taskBucket k = Some (TTask t)"
  by (auto simp: bs_view_def split: option.splits task_doc.splits)

lemma tasks_in_mem: "t \<in> set (tasks_in st kvs) \<longleftrightarrow> (\<exists>k. (k, TTask t) \<in> set kvs) \<and> task_Status t = st"
proof -
  have "(case as_task d of Inl _ \<Rightarrow> None | Inr t \<Rightarrow> if task_Status t = st then Some t else None) = Some t \<longleftrightarrow>
      d = TTask t \<and> task_Status t = st" for d by (cases d) auto
  then show ?thesis by (force simp: tasks_in_def List.map_filter_def)
qed

lemma pending_in_bolt:
  assumes "bs_inv B s"
  shows "t \<in> set (tasks_in StatusPending (btx_Entries B (projr (bdb_Begin B (bs_db s))) taskBucket)) \<longleftrightarrow>
    pending_in (bs_view B s) t"
proof -
  have B: "bolt_db_ok B" using assms by (simp add: bs_inv_def)
  show ?thesis
    using assms by (auto simp: tasks_in_mem Entries_mem [OF B] pending_in_def bs_view_Some bs_inv_def db_get_def)
qed

text \<open>A view after a single put or delete.\<close>

lemma bs_view_put:
  "db_get B db' = btx_Get B tx' \<Longrightarrow> bolt_db_ok B \<Longrightarrow>
   tx_put B taskBucket k (TTask t) (projr (bdb_Begin B (bs_db s))) = Inr tx' \<Longrightarrow>
   bs_view B (s\<lparr>bs_db := db'\<rparr>) = (bs_view B s)(k \<mapsto> t)"
  by (intro ext) (simp add: bs_view_def Get_Put db_get_def)

lemma bs_inv_put:
  assumes "bs_inv B s" "bs_view B s' = (bs_view B s)(k \<mapsto> t)" "json_task t" "valid_key k" "task_ID t = k"
  shows "bs_inv B s'"
  using assms by (auto simp: bs_inv_def split: if_splits)

lemma bolt_claim_one:
  assumes inv: "bs_inv B s" and now: "json_time now" and t0: "pending_in (bs_view B s) t0"
  shows "\<exists>s' t. BoltStore_ClaimPending B s now 1 = (s', Inr [claimed now t]) \<and> bs_inv B s' \<and>
    pending_in (bs_view B s) t \<and> (\<forall>u. pending_in (bs_view B s) u \<longrightarrow> task_before t u) \<and>
    bs_view B s' = (bs_view B s)(task_ID t \<mapsto> claimed now t)"
proof -
  have B: "bolt_db_ok B" "bolt_no_errors B" using inv by (simp_all add: bs_inv_def)
  let ?tx = "projr (bdb_Begin B (bs_db s))"
  let ?P = "tasks_in StatusPending (btx_Entries B ?tx taskBucket)"
  have "set (sortTasks ?P) = set ?P" using sortTasks_correct by (metis set_mset_mset)
  then have P: "u \<in> set (sortTasks ?P) \<longleftrightarrow> pending_in (bs_view B s) u" for u using pending_in_bolt [OF inv] by simp
  then obtain t xs where x: "sortTasks ?P = t # xs" using t0 by (cases "sortTasks ?P") auto
  have t: "pending_in (bs_view B s) t" using P [of t] x by simp
  have before: "task_before t u" if "pending_in (bs_view B s) u" for u
    using that P [of u] x sortTasks_correct [of ?P] by (auto intro: task_before_order)
  have v: "json_task t" "valid_key (task_ID t)" using t inv by (auto simp: pending_in_def bs_inv_def)
  then have j: "json_task (claimed now t)" using now by (simp add: claimed_def json_task_def)
  obtain tx' where p: "tx_put B taskBucket (task_ID t) (TTask (claimed now t)) ?tx = Inr tx'"
    using Put_succeeds [OF B(2) v(2)] by blast
  have "claim_tx B now 1 [] ?tx = ([claimed now t], Inr tx')"
    using x p j by (simp add: claim_tx_def limited_def marshal_task_def Let_def)
  then obtain db' where u: "bolt_Update B (bs_db s) [] (claim_tx B now 1) = (db', [claimed now t], Inr ())"
    "db_get B db' = btx_Get B tx'" using Update_run [where f = "claim_tx B now 1", OF B] by metis
  have w: "bs_view B (s\<lparr>bs_db := db'\<rparr>) = (bs_view B s)(task_ID t \<mapsto> claimed now t)"
    by (rule bs_view_put [OF u(2) B(1) p])
  have "bs_inv B (s\<lparr>bs_db := db'\<rparr>)" by (rule bs_inv_put [OF inv w j v(2)]) (simp add: claimed_def)
  then show ?thesis using u(1) t before w by (auto simp: BoltStore_ClaimPending_def)
qed

lemma bolt_claim_none:
  assumes inv: "bs_inv B s" and none: "\<forall>t. \<not> pending_in (bs_view B s) t"
  shows "\<exists>s'. BoltStore_ClaimPending B s now 1 = (s', Inr []) \<and> bs_inv B s' \<and> bs_view B s' = bs_view B s"
proof -
  have B: "bolt_db_ok B" "bolt_no_errors B" using inv by (simp_all add: bs_inv_def)
  let ?tx = "projr (bdb_Begin B (bs_db s))"
  have "tasks_in StatusPending (btx_Entries B ?tx taskBucket) = []"
    using pending_in_bolt [OF inv] none by (metis last_in_set)
  moreover have "sortTasks [] = []" using sortTasks_correct [of "[]"] by simp
  ultimately have "claim_tx B now 1 [] ?tx = ([], Inr ?tx)" by (simp add: claim_tx_def limited_def)
  then obtain db' where u: "bolt_Update B (bs_db s) [] (claim_tx B now 1) = (db', [], Inr ())"
    "db_get B db' = btx_Get B ?tx" using Update_run [where f = "claim_tx B now 1", OF B] by metis
  then have "bs_view B (s\<lparr>bs_db := db'\<rparr>) = bs_view B s" by (simp add: bs_view_def db_get_def)
  moreover from this have "bs_inv B (s\<lparr>bs_db := db'\<rparr>)" using inv by (simp add: bs_inv_def)
  ultimately show ?thesis using u(1) by (auto simp: BoltStore_ClaimPending_def)
qed

lemma bolt_update_one:
  assumes inv: "bs_inv B s" and t: "json_task t" "task_ID t \<in> dom (bs_view B s)"
  shows "\<exists>s'. BoltStore_Update B s t = (s', Inr ()) \<and> bs_inv B s' \<and> bs_view B s' = (bs_view B s)(task_ID t \<mapsto> t)"
proof -
  have B: "bolt_db_ok B" "bolt_no_errors B" using inv by (simp_all add: bs_inv_def)
  let ?tx = "projr (bdb_Begin B (bs_db s))"
  let ?f = "\<lambda>(u :: unit) tx. (u, if btx_Get B tx taskBucket (task_ID t) = None then Inl ErrTaskNotFound
                      else tx_put B taskBucket (task_ID t) (TTask t) tx)"
  obtain old where o: "bs_view B s (task_ID t) = Some old" using t(2) by blast
  then have k: "valid_key (task_ID t)" "btx_Get B ?tx taskBucket (task_ID t) \<noteq> None"
    using inv by (auto simp: bs_inv_def bs_view_Some db_get_def)
  obtain tx' where p: "tx_put B taskBucket (task_ID t) (TTask t) ?tx = Inr tx'" using Put_succeeds [OF B(2) k(1)] by blast
  then have run: "?f () ?tx = ((), Inr tx')" using k(2) by simp
  obtain db' where u: "bolt_Update B (bs_db s) () ?f = (db', (), Inr ())" "db_get B db' = btx_Get B tx'"
    by (rule Update_run [where f = ?f, OF B run])
  have w: "bs_view B (s\<lparr>bs_db := db'\<rparr>) = (bs_view B s)(task_ID t \<mapsto> t)" by (rule bs_view_put [OF u(2) B(1) p])
  have "bs_inv B (s\<lparr>bs_db := db'\<rparr>)" by (rule bs_inv_put [OF inv w t(1) k(1)]) simp
  then show ?thesis using u(1) w t(1) by (auto simp: BoltStore_Update_def marshal_task_def)
qed

lemma bolt_delete_one:
  assumes inv: "bs_inv B s"
  shows "\<exists>s'. BoltStore_Delete B s i = (s', Inr ()) \<and> bs_inv B s' \<and> bs_view B s' = (bs_view B s)(i := None)"
proof -
  have B: "bolt_db_ok B" "bolt_no_errors B" using inv by (simp_all add: bs_inv_def)
  let ?f = "\<lambda>(u :: unit) tx. (u, tx_delete B taskBucket i tx)"
  obtain tx' where p: "tx_delete B taskBucket i (projr (bdb_Begin B (bs_db s))) = Inr tx'"
    using Delete_succeeds [OF B(2)] by blast
  then have run: "?f () (projr (bdb_Begin B (bs_db s))) = ((), Inr tx')" by simp
  obtain db' where u: "bolt_Update B (bs_db s) () ?f = (db', (), Inr ())" "db_get B db' = btx_Get B tx'"
    by (rule Update_run [where f = ?f, OF B run])
  have w: "bs_view B (s\<lparr>bs_db := db'\<rparr>) = (bs_view B s)(i := None)"
    using u(2) by (intro ext) (simp add: bs_view_def Get_Delete [OF B(1) p] db_get_def)
  then have "bs_inv B (s\<lparr>bs_db := db'\<rparr>)" using inv by (auto simp: bs_inv_def split: if_splits)
  then show ?thesis using u(1) w by (auto simp: BoltStore_Delete_def)
qed

interpretation bolt: task_store "bolt_ops B close" "bs_inv B" "bs_view B" json_task json_time "\<lambda>_ t. t"
  for B :: "('db, 'tx, task_doc) bolt_db" and close
proof unfold_locales
  fix s :: "'db BoltStore" and now
  assume "bs_inv B s" "\<forall>t. \<not> pending_in (bs_view B s) t"
  then show "\<exists>s'. st_ClaimPending (bolt_ops B close) s now 1 = (s', Inr []) \<and> bs_inv B s' \<and> bs_view B s' = bs_view B s"
    using bolt_claim_none by (simp add: bolt_ops_def)
next
  fix s :: "'db BoltStore" and now t0
  assume "bs_inv B s" "json_time now" "pending_in (bs_view B s) t0"
  then show "\<exists>s' t. st_ClaimPending (bolt_ops B close) s now 1 = (s', Inr [claimed now t]) \<and> bs_inv B s' \<and>
      pending_in (bs_view B s) t \<and> (\<forall>u. pending_in (bs_view B s) u \<longrightarrow> task_before t u) \<and>
      bs_view B s' = (bs_view B s)(task_ID t \<mapsto> claimed now t)"
    using bolt_claim_one by (simp add: bolt_ops_def)
next
  fix s :: "'db BoltStore" and now :: gotime and t
  assume "bs_inv B s" "json_task t" "task_ID t \<in> dom (bs_view B s)"
  then show "\<exists>s'. st_Update (bolt_ops B close) s now t = (s', Inr ()) \<and> bs_inv B s' \<and>
      bs_view B s' = (bs_view B s)(task_ID t \<mapsto> t)"
    using bolt_update_one by (simp add: bolt_ops_def)
next
  fix now :: gotime and t :: Task
  show "\<exists>u. t = t\<lparr>task_UpdatedAt := u\<rparr>" by (rule exI [of _ "task_UpdatedAt t"]) simp
next
  fix s :: "'db BoltStore" and i
  assume "bs_inv B s"
  then show "\<exists>s'. st_Delete (bolt_ops B close) s i = (s', Inr ()) \<and> bs_inv B s' \<and> bs_view B s' = (bs_view B s)(i := None)"
    using bolt_delete_one by (simp add: bolt_ops_def)
next
  fix s :: "'db BoltStore" and t
  assume "bs_inv B s" "bs_view B s (task_ID t) = Some t"
  then show "json_task t" by (auto simp: bs_inv_def)
qed (simp_all add: json_task_def)

section \<open>Recovery after a restart\<close>

lemma rewrite_tasks_get:
  assumes "bolt_db_ok B" "bolt_no_errors B" "\<forall>t \<in> set ts. json_task (f t) \<and> valid_key (task_ID t)" "distinct (map task_ID ts)"
  shows "\<exists>tx'. rewrite_tasks B what f ts tx = Inr tx' \<and>
    (\<forall>k. btx_Get B tx' taskBucket k = (case map_of (map (\<lambda>t. (task_ID t, f t)) ts) k of
       None \<Rightarrow> btx_Get B tx taskBucket k | Some t \<Rightarrow> Some (TTask t)))"
  using assms(3,4)
proof (induction ts arbitrary: tx)
  case (Cons t ts)
  then obtain tx1 where p: "tx_put B taskBucket (task_ID t) (TTask (f t)) tx = Inr tx1"
    using Put_succeeds [OF assms(2)] by fastforce
  obtain tx' where r: "rewrite_tasks B what f ts tx1 = Inr tx'"
    "\<forall>k. btx_Get B tx' taskBucket k = (case map_of (map (\<lambda>t. (task_ID t, f t)) ts) k of
       None \<Rightarrow> btx_Get B tx1 taskBucket k | Some t \<Rightarrow> Some (TTask t))"
    using Cons.IH [of tx1] Cons.prems by auto
  have "map_of (map (\<lambda>t. (task_ID t, f t)) ts) (task_ID t) = None"
    using Cons.prems(2) by (auto simp: map_of_eq_None_iff image_iff)
  then show ?case
    using p r Cons.prems(1) by (auto simp: marshal_task_def Get_Put [OF assms(1) p] split: option.splits)
qed simp

lemma bs_inv_task: "bs_inv B s \<Longrightarrow> bs_view B s k = Some t \<Longrightarrow> json_task t \<and> valid_key k \<and> task_ID t = k"
  by (simp add: bs_inv_def)

lemma bs_entry:
  assumes "bs_inv B s"
  shows "(k, TTask t) \<in> set (btx_Entries B (projr (bdb_Begin B (bs_db s))) taskBucket) \<longleftrightarrow> bs_view B s k = Some t"
proof -
  have B: "bolt_db_ok B" using assms by (simp add: bs_inv_def)
  show ?thesis by (simp add: Entries_mem [OF B] bs_view_Some db_get_def)
qed

lemma tasks_in_Cons:
  "tasks_in st ((k, d) # es) = (case d of TTask t \<Rightarrow> if task_Status t = st then t # tasks_in st es else tasks_in st es
     | TInvalid e \<Rightarrow> tasks_in st es)"
  by (cases d) (simp_all add: tasks_in_def List.map_filter_def)

lemma tasks_in_distinct:
  assumes "bs_inv B s"
  defines "es \<equiv> btx_Entries B (projr (bdb_Begin B (bs_db s))) taskBucket"
  shows "distinct (map task_ID (tasks_in st es))"
proof -
  have B: "bolt_db_ok B" using assms(1) by (simp add: bs_inv_def)
  have "\<forall>k t. (k, TTask t) \<in> set es \<longrightarrow> task_ID t = k"
    unfolding es_def bs_entry [OF assms(1)] using bs_inv_task [OF assms(1)] by blast
  moreover have "distinct (map fst es)" unfolding es_def by (rule Entries_distinct [OF B])
  ultimately show ?thesis
  proof (induction es)
    case (Cons e es)
    obtain k d where e: "e = (k, d)" by fastforce
    have "k \<noteq> task_ID t" if "t \<in> set (tasks_in st es)" for t
    proof -
      obtain k' where k': "(k', TTask t) \<in> set es" using \<open>t \<in> set (tasks_in st es)\<close> tasks_in_mem by blast
      then have "task_ID t = k'" using Cons.prems(1) by simp
      moreover have "k' \<noteq> k" using Cons.prems(2) k' e by force
      ultimately show ?thesis by simp
    qed
    then have "k \<notin> task_ID ` set (tasks_in st es)" by blast
    moreover have "task_ID t = k" if "d = TTask t" for t using Cons.prems(1) e that by simp
    moreover have "distinct (map task_ID (tasks_in st es))" by (rule Cons.IH) (use Cons.prems in auto)
    ultimately show ?case using e by (cases d) (auto simp: tasks_in_Cons)
  qed (simp add: tasks_in_def List.map_filter_def)
qed

lemma bolt_recover:
  assumes inv: "bs_inv B s" and now: "json_time now"
  shows "\<exists>s'. BoltStore_RecoverProcessing B s now = (s', Inr ()) \<and>
    bs_view B s' = (\<lambda>k. map_option (recover_task now) (bs_view B s k)) \<and> bs_inv B s'"
proof -
  have B: "bolt_db_ok B" "bolt_no_errors B" using inv by (simp_all add: bs_inv_def)
  let ?tx = "projr (bdb_Begin B (bs_db s))" and ?f = "\<lambda>t. t\<lparr>task_Status := StatusPending, task_UpdatedAt := now\<rparr>"
  let ?P = "tasks_in StatusProcessing (btx_Entries B ?tx taskBucket)"
  let ?g = "\<lambda>(u :: unit) tx. (u, rewrite_tasks B ''failed to marshal recovered task'' ?f
                   (tasks_in StatusProcessing (btx_Entries B tx taskBucket)) tx)"
  have P: "t \<in> set ?P \<longleftrightarrow> bs_view B s (task_ID t) = Some t \<and> task_Status t = StatusProcessing" for t
    unfolding tasks_in_mem bs_entry [OF inv] using bs_inv_task [OF inv] by blast
  have ok: "\<forall>t \<in> set ?P. json_task (?f t) \<and> valid_key (task_ID t)"
  proof
    fix t assume "t \<in> set ?P"
    then have "bs_view B s (task_ID t) = Some t" unfolding P by blast
    from bs_inv_task [OF inv this] show "json_task (?f t) \<and> valid_key (task_ID t)" using now by (simp add: json_task_def)
  qed
  obtain tx' where r: "rewrite_tasks B ''failed to marshal recovered task'' ?f ?P ?tx = Inr tx'"
    and g: "\<forall>k. btx_Get B tx' taskBucket k = (case map_of (map (\<lambda>t. (task_ID t, ?f t)) ?P) k of
       None \<Rightarrow> btx_Get B ?tx taskBucket k | Some t \<Rightarrow> Some (TTask t))"
    using rewrite_tasks_get [OF B ok tasks_in_distinct [OF inv]] by blast
  have run: "?g () ?tx = ((), Inr tx')" using r by simp
  obtain db' where u: "bolt_Update B (bs_db s) () ?g = (db', (), Inr ())" "db_get B db' = btx_Get B tx'"
    by (rule Update_run [where f = ?g, OF B run])
  have m: "map_of (map (\<lambda>t. (task_ID t, ?f t)) ?P) k =
      (case bs_view B s k of Some t \<Rightarrow> if task_Status t = StatusProcessing then Some (?f t) else None | None \<Rightarrow> None)" for k
  proof -
    have d: "distinct (map fst (map (\<lambda>t. (task_ID t, ?f t)) ?P))"
      using tasks_in_distinct [OF inv, of StatusProcessing] by (simp add: comp_def)
    have "map_of (map (\<lambda>t. (task_ID t, ?f t)) ?P) k = Some y \<longleftrightarrow>
        (\<exists>t. bs_view B s k = Some t \<and> task_Status t = StatusProcessing \<and> y = ?f t)" for y
    proof -
      have "(k, y) \<in> set (map (\<lambda>t. (task_ID t, ?f t)) ?P) \<longleftrightarrow> (\<exists>t \<in> set ?P. k = task_ID t \<and> y = ?f t)" by auto
      also have "\<dots> \<longleftrightarrow> (\<exists>t. bs_view B s k = Some t \<and> task_Status t = StatusProcessing \<and> y = ?f t)"
        unfolding Bex_def P using bs_inv_task [OF inv] by metis
      finally show ?thesis by (simp only: map_of_eq_Some_iff [OF d])
    qed
    then show ?thesis by (cases "map_of (map (\<lambda>t. (task_ID t, ?f t)) ?P) k") (fastforce split: option.splits if_splits)+
  qed
  have "bs_view B (s\<lparr>bs_db := db'\<rparr>) k = map_option (recover_task now) (bs_view B s k)" for k
  proof -
    have "db_get B (bs_db s) taskBucket k = btx_Get B ?tx taskBucket k" by (simp add: db_get_def)
    then show ?thesis
      by (simp add: bs_view_def u(2) g m recover_task_def split: option.splits task_doc.splits)
  qed
  then have v: "bs_view B (s\<lparr>bs_db := db'\<rparr>) = (\<lambda>k. map_option (recover_task now) (bs_view B s k))" by blast
  have "json_task t \<and> valid_key k \<and> task_ID t = k" if kt: "bs_view B (s\<lparr>bs_db := db'\<rparr>) k = Some t" for k t
  proof -
    obtain t' where t': "bs_view B s k = Some t'" "t = recover_task now t'" using kt v by auto
    with bs_inv_task [OF inv t'(1)] now show ?thesis by (simp add: recover_task_def json_task_def)
  qed
  then have "bs_inv B (s\<lparr>bs_db := db'\<rparr>)" using B by (simp add: bs_inv_def)
  with u(1) v show ?thesis by (auto simp: BoltStore_RecoverProcessing_def)
qed

section \<open>A concrete store\<close>

definition stored_tasks :: "Task list \<Rightarrow> task_doc mem_db BoltStore" where
  "stored_tasks ts = \<lparr>bs_db = (\<lambda>_. [])(taskBucket := map (\<lambda>t. (task_ID t, TTask t)) ts)\<rparr>"

lemma stored_view: "bs_view mem_db (stored_tasks ts) = map_of (map (\<lambda>t. (task_ID t, t)) ts)"
proof
  fix k
  show "bs_view mem_db (stored_tasks ts) k = map_of (map (\<lambda>t. (task_ID t, t)) ts) k"
    by (induction ts) (auto simp: stored_tasks_def bs_view_def)
qed

lemma stored_inv:
  assumes "\<forall>t \<in> set ts. json_task t \<and> valid_key (task_ID t)"
  shows "bs_inv mem_db (stored_tasks ts)"
proof -
  have "(k, t) \<in> set (map (\<lambda>t. (task_ID t, t)) ts)" if "bs_view mem_db (stored_tasks ts) k = Some t" for k t
    using that by (auto simp: stored_view dest: map_of_SomeD)
  then show ?thesis using assms by (fastforce simp: bs_inv_def)
qed

definition bolt_queue :: "Task list \<Rightarrow> task_doc mem_db BoltStore Queue" where
  "bolt_queue ts = (NewQueue (stored_tasks ts) 1 [])\<lparr>q_handlers := [''mail'' \<mapsto> (\<lambda>t. (t, HandlerError ''smtp down''))]\<rparr>"

lemma bolt_queue_simps [simp]:
  "q_store (bolt_queue ts) = stored_tasks ts" "q_handlers (bolt_queue ts) = [''mail'' \<mapsto> (\<lambda>t. (t, HandlerError ''smtp down''))]"
  "tame (bolt_queue ts)"
  by (simp_all add: bolt_queue_def NewQueue_def tame_def)

section \<open>Properties\<close>

text \<open>
  Retries end on the persistent store as well, whatever database it is on: a pending task
  without deadline whose handler fails every time, alone in the queue with \<open>Suc n\<close> attempts left,
  is dead-lettered by the \<open>Suc n\<close>-th round with exactly its maximum of attempts counted.
\<close>

theorem bolt_failing_task_dead_lettered:
  assumes "bs_inv B (q_store q)" "\<forall>j i. json_time (clks j i)" "tame q"
    and "pending_in (bs_view B (q_store q)) t" "\<forall>u. pending_in (bs_view B (q_store q)) u \<longrightarrow> u = t"
    and "q_handlers q (task_Kind t) = Some h" "\<forall>u. snd (runHandler h u) \<noteq> None" "task_Deadline t = 0"
    and "task_MaxAttempts t = task_Attempts t + int (Suc n)"
  shows "\<exists>t'. bs_view B (q_store (process_rounds quote (bolt_ops B close) clks (Suc n) q)) (task_ID t) = Some t' \<and>
    task_Status t' = StatusDeadLetter \<and> task_Attempts t' = task_MaxAttempts t"
  using bolt.fails_to_dead_letter [OF assms] by blast

theorem bolt_failing_task_dead_lettered_witness:
  "\<exists>t'. bs_view mem_db (q_store (process_rounds id (bolt_ops mem_db (\<lambda>db. (db, Inr ()))) (\<lambda>_ _. 7) 3 (bolt_queue [mail_task]))) ''t1'' = Some t' \<and>
     task_Status t' = StatusDeadLetter \<and> task_Attempts t' = 3"
proof -
  let ?q = "bolt_queue [mail_task]"
  have inv: "bs_inv mem_db (q_store ?q)" "\<forall>(j :: nat) (i :: nat). json_time 7"
    by (simp_all add: stored_inv json_task_def json_time_def mail_task_def valid_key_def MaxKeySize_def)
  have v: "bs_view mem_db (q_store ?q) = [task_ID mail_task \<mapsto> mail_task]" by (simp add: stored_view)
  have pend: "pending_in (bs_view mem_db (q_store ?q)) t \<longleftrightarrow> t = mail_task" for t
    unfolding pending_in_def v by (auto simp: mail_task_def split: if_splits)
  then have "pending_in (bs_view mem_db (q_store ?q)) mail_task" "\<forall>u. pending_in (bs_view mem_db (q_store ?q)) u \<longrightarrow> u = mail_task"
    by auto
  from bolt_failing_task_dead_lettered [OF inv bolt_queue_simps(3) this, of _ 2 id "\<lambda>db. (db, Inr ())"]
  show ?thesis by (simp add: mail_task_def runHandler_def numeral_3_eq_3)
qed

text \<open>
  Recovery after a restart. \<^verbatim>\<open>RecoverProcessing\<close> makes every task that was being processed
  pending again, with its attempts kept, and changes no other task: no task that a crashed worker
  had claimed is lost.
\<close>

theorem RecoverProcessing_requeues:
  assumes "bs_inv B s" "json_time now"
  shows "\<exists>s'. BoltStore_RecoverProcessing B s now = (s', Inr ()) \<and>
    bs_view B s' = (\<lambda>k. map_option (\<lambda>t. if task_Status t = StatusProcessing
        then t\<lparr>task_Status := StatusPending, task_UpdatedAt := now\<rparr> else t) (bs_view B s k)) \<and> bs_inv B s'"
  using bolt_recover [OF assms] by (simp add: recover_task_def [abs_def])

theorem RecoverProcessing_requeues_witness:
  "\<exists>s'. BoltStore_RecoverProcessing mem_db (stored_tasks [claimed 5 mail_task]) 7 = (s', Inr ()) \<and>
     map_option task_Status (bs_view mem_db s' ''t1'') = Some StatusPending"
proof -
  have "bs_inv mem_db (stored_tasks [claimed 5 mail_task])"
    by (simp add: stored_inv json_task_def json_time_def mail_task_def claimed_def valid_key_def MaxKeySize_def)
  from RecoverProcessing_requeues [OF this, of 7] show ?thesis
    by (auto simp: json_time_def stored_view claimed_def mail_task_def)
qed

end
