(* ===== verification/Float64.thy ===== *)
theory Float64
  imports Complex_Main "HOL-Library.Log_Nat"
begin

text \<open>
  Go's \<^verbatim>\<open>float64\<close> arithmetic as the rate limiters use it. A finite value is the rational number
  it denotes, and the result of an operation is the exact result rounded to 53 significant bits,
  to nearest with ties to even. The range of exponents is not bounded: the limiters compute with
  token counts and seconds, far from the ends of the range of \<^verbatim>\<open>float64\<close>.
\<close>

section \<open>Rounding to an integer\<close>

definition round_even :: "rat \<Rightarrow> int" where
  "round_even x =
     (let f = \<lfloor>x\<rfloor>; r = x - of_int f
      in if r < 1 / 2 then f else if r > 1 / 2 then f + 1 else if even f then f else f + 1)"

lemma round_even_cases: "round_even x = \<lfloor>x\<rfloor> \<or> round_even x = \<lfloor>x\<rfloor> + 1"
  by (auto simp: round_even_def Let_def)

lemma round_even_of_int [simp]: "round_even (of_int n) = n"
  by (simp add: round_even_def)

lemma round_even_mono: "x \<le> y \<Longrightarrow> round_even x \<le> round_even y"
proof (cases "\<lfloor>x\<rfloor> = \<lfloor>y\<rfloor>")
  case True
  assume "x \<le> y"
  with True show ?thesis by (auto simp: round_even_def Let_def)
next
  case False
  assume "x \<le> y"
  then have "\<lfloor>x\<rfloor> + 1 \<le> \<lfloor>y\<rfloor>" using False floor_mono [of x y] by linarith
  then show ?thesis using round_even_cases [of x] round_even_cases [of y] by linarith
qed

lemma round_even_error: "\<bar>of_int (round_even x) - x\<bar> \<le> 1 / 2"
proof -
  have "of_int \<lfloor>x\<rfloor> \<le> x" "x < of_int \<lfloor>x\<rfloor> + 1" by linarith+
  then show ?thesis by (auto simp: round_even_def Let_def abs_if) linarith
qed

section \<open>The binary exponent\<close>

definition expo :: "rat \<Rightarrow> int" where
  "expo x =
     (let (p, q) = quotient_of x; d = int (floorlog 2 (nat p)) - int (floorlog 2 (nat q))
      in if 2 powi d \<le> x then d else d - 1)"

lemma floorlog_int_bounds:
  assumes "p > 0"
  shows "2 powi (int (floorlog 2 (nat p)) - 1) \<le> (of_int p :: rat)" "(of_int p :: rat) < 2 powi int (floorlog 2 (nat p))"
proof -
  let ?k = "floorlog 2 (nat p)"
  have k: "2 ^ (?k - 1) \<le> nat p" "nat p < 2 ^ ?k" "?k > 0"
    using assms floorlog_bounds [of "nat p" 2] floorlog_eq_zero_iff [of 2 "nat p"] by auto
  have "int (2 ^ (?k - 1)) \<le> p" "p < int (2 ^ ?k)"
    using k(1,2) assms by (simp_all add: nat_le_iff [symmetric] le_nat_iff nat_less_iff)
  then have "(of_int (int (2 ^ (?k - 1))) :: rat) \<le> of_int p" "(of_int p :: rat) < of_int (int (2 ^ ?k))"
    by (simp_all only: of_int_le_iff of_int_less_iff)
  then have "(2 :: rat) ^ (?k - 1) \<le> of_int p" "(of_int p :: rat) < 2 ^ ?k" by simp_all
  moreover have "int ?k - 1 = int (?k - 1)" using k(3) by simp
  ultimately show "2 powi (int ?k - 1) \<le> (of_int p :: rat)" "(of_int p :: rat) < 2 powi int ?k"
    by (simp_all only: power_int_of_nat)
qed

lemma expo_bounds:
  assumes "x > 0"
  shows "2 powi expo x \<le> x \<and> x < 2 powi (expo x + 1)"
proof -
  obtain p q where pq: "quotient_of x = (p, q)" by fastforce
  have q: "q > 0" using pq by (rule quotient_of_denom_pos)
  have x: "x = of_int p / of_int q" using pq by (rule quotient_of_div)
  then have p: "p > 0" using assms q by (simp add: zero_less_divide_iff)
  define a b where "a = int (floorlog 2 (nat p))" and "b = int (floorlog 2 (nat q))"
  note P = floorlog_int_bounds [OF p, folded a_def] and Q = floorlog_int_bounds [OF q, folded b_def]
  have "x < 2 powi a / 2 powi (b - 1)"
    unfolding x using P Q p q by (intro frac_less) auto
  also have "\<dots> = 2 powi (a - b + 1)" by (simp add: power_int_diff power_int_add)
  finally have up: "x < 2 powi (a - b + 1)" .
  have "2 powi (a - 1) / 2 powi b < x"
    unfolding x using P Q p q by (intro frac_less2) auto
  moreover have "2 powi (a - b - 1) = (2 :: rat) powi (a - 1) / 2 powi b" by (simp add: power_int_diff)
  ultimately have lo: "2 powi (a - b - 1) < x" by simp
  have e: "expo x = (if 2 powi (a - b) \<le> x then a - b else a - b - 1)"
    by (simp add: expo_def pq a_def b_def Let_def)
  show ?thesis using up lo by (simp add: e)
qed

lemma powi_mono: "m \<le> n \<Longrightarrow> (2 :: rat) powi m \<le> 2 powi n"
  by (simp add: power_int_increasing)

lemma expo_mono:
  assumes "0 < x" "x \<le> y"
  shows "expo x \<le> expo y"
proof (rule ccontr)
  assume "\<not> expo x \<le> expo y"
  then have "2 powi (expo y + 1) \<le> (2 :: rat) powi expo x" by (intro powi_mono) simp
  then show False using expo_bounds [of x] expo_bounds [of y] assms by simp
qed

section \<open>Rounding to 53 bits\<close>

definition ulp :: "rat \<Rightarrow> rat" where
  "ulp x = 2 powi (expo x - 52)"

definition fl_pos :: "rat \<Rightarrow> rat" where
  "fl_pos x = of_int (round_even (x / ulp x)) * ulp x"

definition fl :: "rat \<Rightarrow> rat" where
  "fl x = (if x = 0 then 0 else if x > 0 then fl_pos x else - fl_pos (- x))"

lemma ulp_pos [simp]: "ulp x > 0"
  by (simp add: ulp_def)

lemma ulp_nonzero [simp]: "ulp x \<noteq> 0"
  by (simp add: ulp_def)

lemma fl_pos_bounds:
  assumes "x > 0"
  shows "2 powi expo x \<le> fl_pos x \<and> fl_pos x \<le> 2 powi (expo x + 1)"
proof -
  have e: "(2 :: rat) powi expo x = of_int (2 ^ 52) * ulp x" "(2 :: rat) powi (expo x + 1) = of_int (2 ^ 53) * ulp x"
    by (simp_all add: ulp_def power_int_diff power_int_add)
  have "of_int (2 ^ 52) \<le> x / ulp x" "x / ulp x \<le> of_int (2 ^ 53)"
    using expo_bounds [OF assms] unfolding e by (simp_all add: field_simps)
  then have "round_even (of_int (2 ^ 52)) \<le> round_even (x / ulp x)" "round_even (x / ulp x) \<le> round_even (of_int (2 ^ 53))"
    by (blast intro: round_even_mono)+
  then have "2 ^ 52 \<le> round_even (x / ulp x)" "round_even (x / ulp x) \<le> 2 ^ 53" by (simp_all only: round_even_of_int)
  then show ?thesis unfolding e fl_pos_def by (simp add: mult_right_mono)
qed

lemma fl_pos_mono:
  assumes "0 < x" "x \<le> y"
  shows "fl_pos x \<le> fl_pos y"
proof (cases "expo x = expo y")
  case True
  then have "ulp x = ulp y" by (simp add: ulp_def)
  with assms show ?thesis
    by (simp add: fl_pos_def mult_right_mono round_even_mono divide_right_mono less_imp_le)
next
  case False
  then have "expo x + 1 \<le> expo y" using expo_mono [OF assms] by simp
  then have "(2 :: rat) powi (expo x + 1) \<le> 2 powi expo y" by (rule powi_mono)
  then show ?thesis using fl_pos_bounds [of x] fl_pos_bounds [of y] assms by simp
qed

lemma fl_pos_pos: "x > 0 \<Longrightarrow> fl_pos x > 0"
  using fl_pos_bounds [of x] zero_less_power_int [of "2 :: rat" "expo x"] by linarith

lemma fl_zero [simp]: "fl 0 = 0"
  by (simp add: fl_def)

lemma fl_mono: "x \<le> y \<Longrightarrow> fl x \<le> fl y"
  using fl_pos_mono [of x y] fl_pos_mono [of "- y" "- x"] fl_pos_pos [of y] fl_pos_pos [of "- x"]
  by (auto simp: fl_def)

lemma fl_nonneg: "x \<ge> 0 \<Longrightarrow> fl x \<ge> 0"
  using fl_mono [of 0 x] by simp

text \<open>Integers up to \<open>2\<^sup>5\<^sup>3\<close> are represented exactly, and the relative error is at most \<open>2\<^sup>-\<^sup>5\<^sup>3\<close>.\<close>

lemma fl_pos_int:
  assumes "0 < n" "n \<le> 2 ^ 53"
  shows "fl_pos (of_int n) = of_int n"
proof -
  let ?x = "of_int n :: rat"
  have x: "?x > 0" using assms by simp
  show ?thesis
  proof (cases "expo ?x \<le> 52")
    case True
    then have "expo ?x - 52 = - int (nat (52 - expo ?x))" by simp
    then have u: "ulp ?x = 1 / 2 ^ nat (52 - expo ?x)"
      unfolding ulp_def by (simp only: power_int_minus power_int_of_nat) (simp add: inverse_eq_divide)
    then have "?x / ulp ?x = of_int (n * 2 ^ nat (52 - expo ?x))" by simp
    then have "round_even (?x / ulp ?x) = n * 2 ^ nat (52 - expo ?x)" by (simp only: round_even_of_int)
    then show ?thesis using u by (simp add: fl_pos_def)
  next
    case False
    then have "(2 :: rat) powi 53 \<le> 2 powi expo ?x" by (intro powi_mono) simp
    then have "2 ^ 53 \<le> ?x" using expo_bounds [OF x] by simp
    then have n: "?x = 2 powi 53" using assms(2) by (simp add: of_int_le_iff [symmetric] del: of_int_le_iff)
    have "expo ?x = 53"
    proof -
      have "\<not> expo ?x \<ge> 54"
      proof
        assume "expo ?x \<ge> 54"
        then have "(2 :: rat) powi 54 \<le> 2 powi expo ?x" by (intro powi_mono)
        then show False using expo_bounds [OF x] n by simp
      qed
      with False show ?thesis by simp
    qed
    then have "ulp ?x = 2" by (simp add: ulp_def)
    moreover have "?x / 2 = of_int (2 ^ 52)" using n by simp
    moreover have "round_even (of_int (2 ^ 52)) = 2 ^ 52" by (rule round_even_of_int)
    ultimately show ?thesis using n by (simp add: fl_pos_def)
  qed
qed

lemma fl_of_int: "\<bar>n\<bar> \<le> 2 ^ 53 \<Longrightarrow> fl (of_int n) = of_int n"
  using fl_pos_int [of n] fl_pos_int [of "- n"] by (auto simp: fl_def)

lemma fl_error: "\<bar>fl x - x\<bar> \<le> \<bar>x\<bar> / 2 ^ 53"
proof -
  have pos: "\<bar>fl_pos y - y\<bar> \<le> y / 2 ^ 53" if "y > 0" for y
  proof -
    have u: "y \<ge> 2 ^ 52 * ulp y" using expo_bounds [OF that] by (simp add: ulp_def power_int_diff)
    have "fl_pos y - y = (of_int (round_even (y / ulp y)) - y / ulp y) * ulp y"
      using ulp_pos [of y] by (simp add: fl_pos_def left_diff_distrib)
    then have "\<bar>fl_pos y - y\<bar> = \<bar>of_int (round_even (y / ulp y)) - y / ulp y\<bar> * ulp y"
      using abs_of_pos [OF ulp_pos [of y]] by (simp add: abs_mult)
    also have "\<dots> \<le> 1 / 2 * ulp y"
      using round_even_error by (intro mult_right_mono) (auto simp: less_imp_le)
    finally show ?thesis using u by simp
  qed
  consider "x = 0" | "x > 0" | "x < 0" by linarith
  then show ?thesis
  proof cases
    case 3
    then have "\<bar>fl x - x\<bar> = \<bar>fl_pos (- x) - - x\<bar>" by (simp add: fl_def abs_minus_commute)
    then show ?thesis using pos [of "- x"] 3 by simp
  qed (use pos [of x] in \<open>simp_all add: fl_def\<close>)
qed

text \<open>Upper bounds for results that are not negative.\<close>

definition eps :: rat where
  "eps = 1 / 2 ^ 53"

lemma fl_le: "x \<ge> 0 \<Longrightarrow> fl x \<le> x * (1 + eps)"
  using fl_error [of x] by (simp add: eps_def abs_if algebra_simps split: if_splits)

lemma fl_ge: "x \<ge> 0 \<Longrightarrow> fl x \<ge> x * (1 - eps)"
  using fl_error [of x] by (simp add: eps_def abs_if algebra_simps split: if_splits)

lemma eps_bounds: "eps > 0" "eps < 1"
  by (simp_all add: eps_def)

text \<open>Rounding a rounded value changes nothing.\<close>

lemma expo_unique:
  assumes "2 powi e \<le> x" "x < 2 powi (e + 1)"
  shows "expo x = e"
proof -
  have x: "x > 0" using assms(1) zero_less_power_int [of "2 :: rat" e] by linarith
  have "\<not> expo x < e"
  proof
    assume "expo x < e"
    then have "(2 :: rat) powi (expo x + 1) \<le> 2 powi e" by (intro powi_mono) simp
    then show False using expo_bounds [OF x] assms(1) by simp
  qed
  moreover have "\<not> expo x > e"
  proof
    assume "expo x > e"
    then have "(2 :: rat) powi (e + 1) \<le> 2 powi expo x" by (intro powi_mono) simp
    then show False using expo_bounds [OF x] assms(2) by simp
  qed
  ultimately show ?thesis by simp
qed

lemma fl_pos_idem:
  assumes "x > 0"
  shows "fl_pos (fl_pos x) = fl_pos x"
proof -
  let ?y = "fl_pos x"
  have b: "2 powi expo x \<le> ?y" "?y \<le> 2 powi (expo x + 1)" using fl_pos_bounds [OF assms] by auto
  show ?thesis
  proof (cases "?y = 2 powi (expo x + 1)")
    case True
    have e: "expo ?y = expo x + 1" unfolding True by (rule expo_unique) (simp_all add: power_int_add)
    have y: "?y = of_int (2 ^ 52) * ulp ?y" unfolding ulp_def e by (simp add: True power_int_diff power_int_add)
    have "?y / ulp ?y = of_int (2 ^ 52)" by (subst y) simp
    then have "round_even (?y / ulp ?y) = 2 ^ 52" by (simp only: round_even_of_int)
    then have "fl_pos ?y = of_int (2 ^ 52) * ulp ?y" unfolding fl_pos_def [of ?y] by simp
    then show ?thesis using y by simp
  next
    case False
    then have e: "expo ?y = expo x" using b by (intro expo_unique) auto
    have "ulp ?y = ulp x" by (simp add: ulp_def e)
    then show ?thesis unfolding fl_pos_def [of ?y] by (simp add: fl_pos_def [of x])
  qed
qed

lemma fl_idem [simp]: "fl (fl x) = fl x"
  using fl_pos_idem [of x] fl_pos_idem [of "- x"] fl_pos_pos [of x] fl_pos_pos [of "- x"]
  by (auto simp: fl_def)

end
