(* ===== verification/Rate_Limit.thy ===== *)
theory Rate_Limit
  imports Prelude Float64 "HOL-Library.Signed_Division"
begin

text \<open>
  The request limiters of \<^verbatim>\<open>internal/ratelimit/ratelimit.go\<close>: the sliding window counter, the
  token bucket, the bandwidth limiter, the limiter that combines them, and the per-user limiter.
  The circuit breaker and the concurrency limiter are in the next theory.

  Each limiter locks around an operation, so an operation is one state transformer. The clock is
  an argument, in nanoseconds; \<open>cancelled\<close> is the error of a context that is done. Counters are
  unbounded integers. Go's integer division truncates (\<^term>\<open>a sdiv b\<close>), and division by zero is a
  panic. Where an operation panics, which no configuration with positive durations and no clock
  after 1970 makes happen, the state is given back as it was.
\<close>

section \<open>SlidingWindowCounter\<close>

record windowState =
  ws_buckets :: "int list"
  ws_bucketTime :: int
  ws_count :: int

record SlidingWindowCounter =
  sw_windows :: "string \<rightharpoonup> windowState"
  sw_duration :: int
  sw_precision :: int
  sw_limit :: int

definition NewSlidingWindowCounter :: "int \<Rightarrow> int \<Rightarrow> int \<Rightarrow> SlidingWindowCounter" where
  "NewSlidingWindowCounter duration precision limit =
     \<lparr>sw_windows = Map.empty, sw_duration = duration, sw_precision = precision, sw_limit = limit\<rparr>"

text \<open>The loop that advances \<^verbatim>\<open>bucketTime\<close> and forgets what leaves the window. An index out of
  range is a panic.\<close>

function advance :: "windowState \<Rightarrow> int \<Rightarrow> windowState result" where
  "advance ws currentBucket =
     (if ws_bucketTime ws < currentBucket then
        (let bt = ws_bucketTime ws + 1;
             idx = bt smod int (length (ws_buckets ws))
         in if idx < 0 \<or> idx \<ge> int (length (ws_buckets ws)) then Inl (Panic ''index out of range'')
            else
              (let c = ws_count ws - ws_buckets ws ! nat idx
               in advance (ws\<lparr>ws_bucketTime := bt, ws_count := (if c < 0 then 0 else c),
                             ws_buckets := (ws_buckets ws)[nat idx := 0]\<rparr>) currentBucket))
      else Inr ws)"
  by auto

termination
  by (relation "measure (\<lambda>(ws, cur). nat (cur - ws_bucketTime ws))") auto

declare advance.simps [simp del]

definition fresh_window :: "SlidingWindowCounter \<Rightarrow> int \<Rightarrow> windowState" where
  "fresh_window s currentBucket =
     (let n = sw_duration s sdiv sw_precision s;
          numBuckets = (if n = 0 then 1 else n)
      in \<lparr>ws_buckets = replicate (nat numBuckets) 0, ws_bucketTime = currentBucket - numBuckets,
          ws_count = 0\<rparr>)"

definition SlidingWindow_Allow ::
    "SlidingWindowCounter \<Rightarrow> int \<Rightarrow> string \<Rightarrow> SlidingWindowCounter \<times> bool result" where
  "SlidingWindow_Allow s nowNano key =
     (if sw_duration s = 0 \<or> sw_precision s = 0 then (s, Inl (Panic ''integer divide by zero''))
      else
        let bucketIdx = (nowNano smod sw_duration s) sdiv sw_precision s;
            currentBucket = nowNano sdiv sw_precision s;
            n = sw_duration s sdiv sw_precision s
        in if n < 0 then (s, Inl (Panic ''makeslice: len out of range''))
           else
             let ws = (case sw_windows s key of
                         None \<Rightarrow> fresh_window s currentBucket
                       | Some ws \<Rightarrow> (if currentBucket - ws_bucketTime ws > n then fresh_window s currentBucket
                                     else ws))
             in case advance ws currentBucket of
                  Inl e \<Rightarrow> (s, Inl e)
                | Inr ws1 \<Rightarrow>
                    if ws_count ws1 \<ge> sw_limit s then
                      (s\<lparr>sw_windows := (sw_windows s)(key \<mapsto> ws1)\<rparr>, Inr False)
                    else
                      (let i = bucketIdx smod int (length (ws_buckets ws1))
                       in if i < 0 then (s, Inl (Panic ''index out of range''))
                          else (s\<lparr>sw_windows := (sw_windows s)(key \<mapsto>
                                  ws1\<lparr>ws_buckets := (ws_buckets ws1)[nat i := ws_buckets ws1 ! nat i + 1],
                                      ws_count := ws_count ws1 + 1\<rparr>)\<rparr>, Inr True)))"

definition SlidingWindow_Count :: "SlidingWindowCounter \<Rightarrow> string \<Rightarrow> int" where
  "SlidingWindow_Count s key = (case sw_windows s key of None \<Rightarrow> 0 | Some ws \<Rightarrow> ws_count ws)"

definition SlidingWindow_Reset :: "SlidingWindowCounter \<Rightarrow> string \<Rightarrow> SlidingWindowCounter" where
  "SlidingWindow_Reset s key = s\<lparr>sw_windows := (sw_windows s)(key := None)\<rparr>"

section \<open>TokenBucketLimiter\<close>

definition ErrRateLimited :: go_err where "ErrRateLimited = Err ''rate limited''"
definition ErrBandwidthLimit :: go_err where "ErrBandwidthLimit = Err ''bandwidth limit exceeded''"

text \<open>\<^verbatim>\<open>Duration.Seconds\<close>: whole seconds and nanoseconds are converted apart and added.\<close>

definition Seconds :: "int \<Rightarrow> rat" where
  "Seconds d = fl (fl (of_int (d sdiv 1000000000)) + fl (fl (of_int (d smod 1000000000)) / 1000000000))"

record tokenBucket =
  tb_tokens :: rat
  tb_lastCheck :: gotime
  tb_limit :: int
  tb_burst :: int

record TokenBucketLimiter =
  tl_buckets :: "string \<rightharpoonup> tokenBucket"
  tl_defaultLimit :: int
  tl_defaultBurst :: int

definition NewTokenBucketLimiter :: "int \<Rightarrow> int \<Rightarrow> TokenBucketLimiter" where
  "NewTokenBucketLimiter defaultLimit defaultBurst =
     \<lparr>tl_buckets = Map.empty, tl_defaultLimit = defaultLimit, tl_defaultBurst = defaultBurst\<rparr>"

text \<open>The body of \<^verbatim>\<open>AllowN\<close> under the bucket's lock.\<close>

definition bucket_take :: "tokenBucket \<Rightarrow> gotime \<Rightarrow> int \<Rightarrow> tokenBucket \<times> bool" where
  "bucket_take bucket now n =
     (let elapsed = Seconds (now - tb_lastCheck bucket);
          refilled = fl (tb_tokens bucket + fl (elapsed * fl (of_int (tb_limit bucket))));
          tokens = (if refilled > fl (of_int (tb_burst bucket)) then fl (of_int (tb_burst bucket)) else refilled)
      in if tokens \<ge> fl (of_int n)
         then (bucket\<lparr>tb_lastCheck := now, tb_tokens := fl (tokens - fl (of_int n))\<rparr>, True)
         else (bucket\<lparr>tb_lastCheck := now, tb_tokens := tokens\<rparr>, False))"

text \<open>\<open>t0\<close> is the clock when a new bucket is made, \<open>t1\<close> when the tokens are counted.\<close>

definition TokenBucket_AllowN ::
    "TokenBucketLimiter \<Rightarrow> string option \<Rightarrow> gotime \<Rightarrow> gotime \<Rightarrow> string \<Rightarrow> int \<Rightarrow>
     TokenBucketLimiter \<times> unit result" where
  "TokenBucket_AllowN l cancelled t0 t1 key n =
     (case cancelled of
        Some e \<Rightarrow> (l, Inl (Err e))
      | None \<Rightarrow>
          let bucket = (case tl_buckets l key of
                 Some b \<Rightarrow> b
               | None \<Rightarrow> \<lparr>tb_tokens = fl (of_int (tl_defaultBurst l)), tb_lastCheck = t0,
                          tb_limit = tl_defaultLimit l, tb_burst = tl_defaultBurst l\<rparr>);
              (bucket', ok) = bucket_take bucket t1 n
          in (l\<lparr>tl_buckets := (tl_buckets l)(key \<mapsto> bucket')\<rparr>,
              if ok then Inr () else Inl ErrRateLimited))"

definition TokenBucket_Allow ::
    "TokenBucketLimiter \<Rightarrow> string option \<Rightarrow> gotime \<Rightarrow> gotime \<Rightarrow> string \<Rightarrow>
     TokenBucketLimiter \<times> unit result" where
  "TokenBucket_Allow l cancelled t0 t1 key = TokenBucket_AllowN l cancelled t0 t1 key 1"

definition TokenBucket_GetLimit :: "TokenBucketLimiter \<Rightarrow> string \<Rightarrow> int" where
  "TokenBucket_GetLimit l key =
     (case tl_buckets l key of Some bucket \<Rightarrow> tb_limit bucket | None \<Rightarrow> tl_defaultLimit l)"

definition TokenBucket_SetLimit :: "TokenBucketLimiter \<Rightarrow> gotime \<Rightarrow> string \<Rightarrow> int \<Rightarrow> TokenBucketLimiter" where
  "TokenBucket_SetLimit l now key limit =
     l\<lparr>tl_buckets := (tl_buckets l)(key \<mapsto>
        (case tl_buckets l key of
           None \<Rightarrow> \<lparr>tb_tokens = fl (of_int (tl_defaultBurst l)), tb_lastCheck = now, tb_limit = limit,
                    tb_burst = tl_defaultBurst l\<rparr>
         | Some bucket \<Rightarrow> bucket\<lparr>tb_limit := limit\<rparr>))\<rparr>"

definition TokenBucket_RemoveBucket :: "TokenBucketLimiter \<Rightarrow> string \<Rightarrow> TokenBucketLimiter" where
  "TokenBucket_RemoveBucket l key = l\<lparr>tl_buckets := (tl_buckets l)(key := None)\<rparr>"

section \<open>BandwidthLimiter\<close>

record bwState =
  bw_tokens :: rat
  bw_lastCheck :: gotime
  bw_bps :: int
  bw_burst :: int

record BandwidthLimiter =
  bl_limits :: "string \<rightharpoonup> bwState"
  bl_defaultBPS :: int
  bl_burstBytes :: int

definition NewBandwidthLimiter :: "int \<Rightarrow> int \<Rightarrow> BandwidthLimiter" where
  "NewBandwidthLimiter defaultBPS burstBytes =
     \<lparr>bl_limits = Map.empty, bl_defaultBPS = defaultBPS, bl_burstBytes = burstBytes\<rparr>"

definition bw_take :: "bwState \<Rightarrow> gotime \<Rightarrow> int \<Rightarrow> bwState \<times> bool" where
  "bw_take state now bytes =
     (let elapsed = Seconds (now - bw_lastCheck state);
          refilled = fl (bw_tokens state + fl (elapsed * fl (of_int (bw_bps state))));
          tokens = (if refilled > fl (of_int (bw_burst state)) then fl (of_int (bw_burst state)) else refilled)
      in if tokens \<ge> fl (of_int bytes)
         then (state\<lparr>bw_lastCheck := now, bw_tokens := fl (tokens - fl (of_int bytes))\<rparr>, True)
         else (state\<lparr>bw_lastCheck := now, bw_tokens := tokens\<rparr>, False))"

definition Bandwidth_Allow ::
    "BandwidthLimiter \<Rightarrow> gotime \<Rightarrow> gotime \<Rightarrow> string \<Rightarrow> int \<Rightarrow> BandwidthLimiter \<times> bool" where
  "Bandwidth_Allow b t0 t1 key bytes =
     (let state = (case bl_limits b key of
            Some st \<Rightarrow> st
          | None \<Rightarrow> \<lparr>bw_tokens = fl (of_int (bl_burstBytes b)), bw_lastCheck = t0,
                     bw_bps = bl_defaultBPS b, bw_burst = bl_burstBytes b\<rparr>);
          (state', ok) = bw_take state t1 bytes
      in (b\<lparr>bl_limits := (bl_limits b)(key \<mapsto> state')\<rparr>, ok))"

text \<open>\<^verbatim>\<open>Wait\<close> polls every 10 ms; \<open>clk i\<close> are the readings of the \<open>i\<close>-th poll, and the result is
  \<^const>\<open>None\<close> if it is still waiting after \<open>fuel\<close> polls.\<close>

fun Bandwidth_Wait ::
    "nat \<Rightarrow> BandwidthLimiter \<Rightarrow> (nat \<Rightarrow> gotime) \<Rightarrow> string \<Rightarrow> int \<Rightarrow> BandwidthLimiter option" where
  "Bandwidth_Wait 0 b clk key bytes = None"
| "Bandwidth_Wait (Suc fuel) b clk key bytes =
     (case Bandwidth_Allow b (clk 0) (clk 0) key bytes of
        (b', True) \<Rightarrow> Some b'
      | (b', False) \<Rightarrow> Bandwidth_Wait fuel b' (\<lambda>i. clk (Suc i)) key bytes)"

definition Bandwidth_SetLimit :: "BandwidthLimiter \<Rightarrow> gotime \<Rightarrow> string \<Rightarrow> int \<Rightarrow> BandwidthLimiter" where
  "Bandwidth_SetLimit b now key bps =
     b\<lparr>bl_limits := (bl_limits b)(key \<mapsto>
        (case bl_limits b key of
           None \<Rightarrow> \<lparr>bw_tokens = fl (of_int (bl_burstBytes b)), bw_lastCheck = now, bw_bps = bps,
                    bw_burst = bl_burstBytes b\<rparr>
         | Some st \<Rightarrow> st\<lparr>bw_bps := bps\<rparr>))\<rparr>"

section \<open>MultiLevelLimiter\<close>

record APILimit =
  al_RPS :: int
  al_Burst :: int

record MultiLevelConfig =
  cfg_GlobalRPS :: int
  cfg_GlobalBurst :: int
  cfg_IPRPS :: int
  cfg_IPBurst :: int
  cfg_UserRPS :: int
  cfg_UserBurst :: int
  cfg_BucketRPS :: int
  cfg_BucketBurst :: int
  cfg_UploadBytesPerSec :: int
  cfg_UploadBurstBytes :: int
  cfg_APILimits :: "(string \<times> APILimit) list"
  cfg_Whitelist :: "string list"
  cfg_WindowDuration :: int
  cfg_WindowPrecision :: int

record LimiterStats =
  ls_GlobalAllowed :: int
  ls_GlobalRejected :: int
  ls_IPRejected :: int
  ls_UserRejected :: int
  ls_BucketRejected :: int
  ls_APIRejected :: int
  ls_BWRejected :: int
  ls_TotalRequests :: int

record MultiLevelLimiter =
  ml_global :: SlidingWindowCounter
  ml_ip :: SlidingWindowCounter
  ml_user :: TokenBucketLimiter
  ml_bucket :: TokenBucketLimiter
  ml_api :: "string \<rightharpoonup> TokenBucketLimiter"
  ml_bw :: BandwidthLimiter
  ml_whitelist :: "string set"
  ml_stats :: LimiterStats
  ml_config :: MultiLevelConfig

definition with_defaults :: "MultiLevelConfig \<Rightarrow> MultiLevelConfig" where
  "with_defaults cfg =
     (let c1 = (if cfg_WindowDuration cfg = 0 then cfg\<lparr>cfg_WindowDuration := 1000000000\<rparr> else cfg);
          c2 = (if cfg_WindowPrecision c1 = 0 then c1\<lparr>cfg_WindowPrecision := 100000000\<rparr> else c1)
      in if cfg_UploadBurstBytes c2 = 0 then c2\<lparr>cfg_UploadBurstBytes := cfg_UploadBytesPerSec c2\<rparr> else c2)"

definition NewMultiLevelLimiter :: "MultiLevelConfig \<Rightarrow> MultiLevelLimiter" where
  "NewMultiLevelLimiter cfg0 =
     (let cfg = with_defaults cfg0
      in \<lparr>ml_global = NewSlidingWindowCounter (cfg_WindowDuration cfg) (cfg_WindowPrecision cfg) (cfg_GlobalRPS cfg),
          ml_ip = NewSlidingWindowCounter (cfg_WindowDuration cfg) (cfg_WindowPrecision cfg) (cfg_IPRPS cfg),
          ml_user = NewTokenBucketLimiter (cfg_UserRPS cfg) (cfg_UserBurst cfg),
          ml_bucket = NewTokenBucketLimiter (cfg_BucketRPS cfg) (cfg_BucketBurst cfg),
          ml_api = map_of (map (\<lambda>(api, l). (api, NewTokenBucketLimiter (al_RPS l) (al_Burst l))) (cfg_APILimits cfg)),
          ml_bw = NewBandwidthLimiter (cfg_UploadBytesPerSec cfg) (cfg_UploadBurstBytes cfg),
          ml_whitelist = set (cfg_Whitelist cfg),
          ml_stats = \<lparr>ls_GlobalAllowed = 0, ls_GlobalRejected = 0, ls_IPRejected = 0, ls_UserRejected = 0,
                      ls_BucketRejected = 0, ls_APIRejected = 0, ls_BWRejected = 0, ls_TotalRequests = 0\<rparr>,
          ml_config = cfg\<rparr>)"

record RateLimitResult =
  rl_Allowed :: bool
  rl_Key :: string
  rl_LimitType :: string
  rl_RetryAfter :: int

definition allowed_result :: RateLimitResult where
  "allowed_result = \<lparr>rl_Allowed = True, rl_Key = '''', rl_LimitType = '''', rl_RetryAfter = 0\<rparr>"

definition rejected :: "string \<Rightarrow> string \<Rightarrow> int \<Rightarrow> RateLimitResult" where
  "rejected key limitType retryAfter =
     \<lparr>rl_Allowed = False, rl_Key = key, rl_LimitType = limitType, rl_RetryAfter = retryAfter\<rparr>"

text \<open>\<^verbatim>\<open>UnixNano\<close> of a point in time counted from year 1.\<close>

definition UnixNano :: "gotime \<Rightarrow> int" where
  "UnixNano t = t - 62135596800 * 10 ^ 9"

text \<open>The levels of \<^verbatim>\<open>Allow\<close>, one definition each, in the order of the checks; \<open>clk i\<close> is the
  \<open>i\<close>-th reading of the clock.\<close>

definition bump_allowed :: "MultiLevelLimiter \<Rightarrow> MultiLevelLimiter" where
  "bump_allowed m = m\<lparr>ml_stats := (ml_stats m)\<lparr>ls_GlobalAllowed := ls_GlobalAllowed (ml_stats m) + 1\<rparr>\<rparr>"

definition allow_bandwidth ::
    "MultiLevelLimiter \<Rightarrow> (nat \<Rightarrow> gotime) \<Rightarrow> string \<Rightarrow> string \<Rightarrow> int \<Rightarrow> MultiLevelLimiter \<times> RateLimitResult" where
  "allow_bandwidth m clk userID apiMethod contentLength =
     (if contentLength > 0 \<and> cfg_UploadBytesPerSec (ml_config m) > 0 \<and> (apiMethod = ''PUT'' \<or> apiMethod = ''POST'')
      then (case Bandwidth_Allow (ml_bw m) (clk 8) (clk 9) (''upload:'' @ userID) contentLength of
              (bw, True) \<Rightarrow> (bump_allowed (m\<lparr>ml_bw := bw\<rparr>), allowed_result)
            | (bw, False) \<Rightarrow>
                (m\<lparr>ml_bw := bw, ml_stats := (ml_stats m)\<lparr>ls_BWRejected := ls_BWRejected (ml_stats m) + 1\<rparr>\<rparr>,
                 rejected userID ''bandwidth'' (contentLength sdiv cfg_UploadBytesPerSec (ml_config m) + 1)))
      else (bump_allowed m, allowed_result))"

definition allow_api ::
    "MultiLevelLimiter \<Rightarrow> (nat \<Rightarrow> gotime) \<Rightarrow> string option \<Rightarrow> string \<Rightarrow> string \<Rightarrow> int \<Rightarrow>
     MultiLevelLimiter \<times> RateLimitResult" where
  "allow_api m clk cancelled userID apiMethod contentLength =
     (case (if apiMethod \<noteq> '''' then ml_api m apiMethod else None) of
        None \<Rightarrow> allow_bandwidth m clk userID apiMethod contentLength
      | Some limiter \<Rightarrow>
          (case TokenBucket_Allow limiter cancelled (clk 6) (clk 7) (''api:'' @ apiMethod @ '':'' @ userID) of
             (l, Inl _) \<Rightarrow>
               (m\<lparr>ml_api := (ml_api m)(apiMethod \<mapsto> l),
                  ml_stats := (ml_stats m)\<lparr>ls_APIRejected := ls_APIRejected (ml_stats m) + 1\<rparr>\<rparr>,
                rejected apiMethod ''api'' 1)
           | (l, Inr _) \<Rightarrow>
               allow_bandwidth (m\<lparr>ml_api := (ml_api m)(apiMethod \<mapsto> l)\<rparr>) clk userID apiMethod contentLength))"

definition allow_bucket ::
    "MultiLevelLimiter \<Rightarrow> (nat \<Rightarrow> gotime) \<Rightarrow> string option \<Rightarrow> string \<Rightarrow> string \<Rightarrow> string \<Rightarrow> int \<Rightarrow>
     MultiLevelLimiter \<times> RateLimitResult" where
  "allow_bucket m clk cancelled userID bucket apiMethod contentLength =
     (if bucket \<noteq> '''' then
        (case TokenBucket_Allow (ml_bucket m) cancelled (clk 4) (clk 5) (''bucket:'' @ bucket) of
           (l, Inl _) \<Rightarrow>
             (m\<lparr>ml_bucket := l, ml_stats := (ml_stats m)\<lparr>ls_BucketRejected := ls_BucketRejected (ml_stats m) + 1\<rparr>\<rparr>,
              rejected bucket ''bucket'' 1)
         | (l, Inr _) \<Rightarrow> allow_api (m\<lparr>ml_bucket := l\<rparr>) clk cancelled userID apiMethod contentLength)
      else allow_api m clk cancelled userID apiMethod contentLength)"

definition allow_user ::
    "MultiLevelLimiter \<Rightarrow> (nat \<Rightarrow> gotime) \<Rightarrow> string option \<Rightarrow> string \<Rightarrow> string \<Rightarrow> string \<Rightarrow> int \<Rightarrow>
     MultiLevelLimiter \<times> RateLimitResult" where
  "allow_user m clk cancelled userID bucket apiMethod contentLength =
     (if userID \<noteq> '''' \<and> userID \<noteq> ''anonymous'' then
        (case TokenBucket_Allow (ml_user m) cancelled (clk 2) (clk 3) (''user:'' @ userID) of
           (l, Inl _) \<Rightarrow>
             (m\<lparr>ml_user := l, ml_stats := (ml_stats m)\<lparr>ls_UserRejected := ls_UserRejected (ml_stats m) + 1\<rparr>\<rparr>,
              rejected userID ''user'' 1)
         | (l, Inr _) \<Rightarrow> allow_bucket (m\<lparr>ml_user := l\<rparr>) clk cancelled userID bucket apiMethod contentLength)
      else allow_bucket m clk cancelled userID bucket apiMethod contentLength)"

definition MultiLevel_Allow ::
    "MultiLevelLimiter \<Rightarrow> (nat \<Rightarrow> gotime) \<Rightarrow> string option \<Rightarrow> string \<Rightarrow> string \<Rightarrow> string \<Rightarrow> string \<Rightarrow> int \<Rightarrow>
     MultiLevelLimiter \<times> RateLimitResult result" where
  "MultiLevel_Allow m0 clk cancelled ip userID bucket apiMethod contentLength =
     (let m = m0\<lparr>ml_stats := (ml_stats m0)\<lparr>ls_TotalRequests := ls_TotalRequests (ml_stats m0) + 1\<rparr>\<rparr> in
      if ip \<in> ml_whitelist m then
        (bump_allowed m, Inr \<lparr>rl_Allowed = True, rl_Key = ip, rl_LimitType = ''whitelist'', rl_RetryAfter = 0\<rparr>)
      else case SlidingWindow_Allow (ml_global m) (UnixNano (clk 0)) ''global'' of
          (g, Inl e) \<Rightarrow> (m\<lparr>ml_global := g\<rparr>, Inl e)
        | (g, Inr False) \<Rightarrow>
            (m\<lparr>ml_global := g, ml_stats := (ml_stats m)\<lparr>ls_GlobalRejected := ls_GlobalRejected (ml_stats m) + 1\<rparr>\<rparr>,
             Inr (rejected ''global'' ''global'' 1))
        | (g, Inr True) \<Rightarrow>
            (case SlidingWindow_Allow (ml_ip m) (UnixNano (clk 1)) (''ip:'' @ ip) of
               (i, Inl e) \<Rightarrow> (m\<lparr>ml_global := g, ml_ip := i\<rparr>, Inl e)
             | (i, Inr False) \<Rightarrow>
                 (m\<lparr>ml_global := g, ml_ip := i, ml_stats := (ml_stats m)\<lparr>ls_IPRejected := ls_IPRejected (ml_stats m) + 1\<rparr>\<rparr>,
                  Inr (rejected ip ''ip'' 1))
             | (i, Inr True) \<Rightarrow>
                 (case allow_user (m\<lparr>ml_global := g, ml_ip := i\<rparr>) clk cancelled userID bucket apiMethod contentLength of
                    (m', r) \<Rightarrow> (m', Inr r))))"

definition MultiLevel_GetStats :: "MultiLevelLimiter \<Rightarrow> LimiterStats" where
  "MultiLevel_GetStats m = ml_stats m"

definition MultiLevel_SetUserLimit :: "MultiLevelLimiter \<Rightarrow> gotime \<Rightarrow> string \<Rightarrow> int \<Rightarrow> int \<Rightarrow> MultiLevelLimiter" where
  "MultiLevel_SetUserLimit m now userID rps burst =
     (let key = ''user:'' @ userID;
          bucket = (case tl_buckets (ml_user m) key of
              Some b \<Rightarrow> b\<lparr>tb_limit := rps, tb_burst := burst,
                          tb_tokens := (if tb_tokens b > fl (of_int burst) then fl (of_int burst) else tb_tokens b)\<rparr>
            | None \<Rightarrow> \<lparr>tb_tokens = fl (of_int burst), tb_lastCheck = now, tb_limit = rps, tb_burst = burst\<rparr>)
      in m\<lparr>ml_user := (ml_user m)\<lparr>tl_buckets := (tl_buckets (ml_user m))(key \<mapsto> bucket)\<rparr>\<rparr>)"

definition MultiLevel_SetBucketLimit :: "MultiLevelLimiter \<Rightarrow> gotime \<Rightarrow> string \<Rightarrow> int \<Rightarrow> int \<Rightarrow> MultiLevelLimiter" where
  "MultiLevel_SetBucketLimit m now bucket rps burst =
     m\<lparr>ml_bucket := TokenBucket_SetLimit (ml_bucket m) now (''bucket:'' @ bucket) rps\<rparr>"

definition MultiLevel_SetAPILimit :: "MultiLevelLimiter \<Rightarrow> gotime \<Rightarrow> string \<Rightarrow> int \<Rightarrow> int \<Rightarrow> MultiLevelLimiter" where
  "MultiLevel_SetAPILimit m now api rps burst =
     m\<lparr>ml_api := (ml_api m)(api \<mapsto>
        (case ml_api m api of
           Some limiter \<Rightarrow> TokenBucket_SetLimit limiter now (''api:'' @ api) rps
         | None \<Rightarrow> NewTokenBucketLimiter rps burst))\<rparr>"

definition MultiLevel_AddWhitelist :: "MultiLevelLimiter \<Rightarrow> string \<Rightarrow> MultiLevelLimiter" where
  "MultiLevel_AddWhitelist m ip = m\<lparr>ml_whitelist := insert ip (ml_whitelist m)\<rparr>"

definition MultiLevel_RemoveWhitelist :: "MultiLevelLimiter \<Rightarrow> string \<Rightarrow> MultiLevelLimiter" where
  "MultiLevel_RemoveWhitelist m ip = m\<lparr>ml_whitelist := ml_whitelist m - {ip}\<rparr>"

definition MultiLevel_CleanupStaleEntries :: "MultiLevelLimiter \<Rightarrow> int \<Rightarrow> MultiLevelLimiter" where
  "MultiLevel_CleanupStaleEntries m maxAge =
     m\<lparr>ml_user := TokenBucket_RemoveBucket (ml_user m) '''',
       ml_bucket := TokenBucket_RemoveBucket (ml_bucket m) ''''\<rparr>"

section \<open>PerUserRateLimiter\<close>

record RequestKey =
  rk_UserID :: string
  rk_APIMethod :: string
  rk_Bucket :: string

definition RequestKey_String :: "RequestKey \<Rightarrow> string" where
  "RequestKey_String rk = rk_UserID rk @ '':'' @ rk_APIMethod rk @ '':'' @ rk_Bucket rk"

record UserLimit =
  ul_Limit :: int
  ul_Burst :: int
  ul_ExpiresAt :: gotime

record PerUserRateLimiter =
  pu_limiter :: TokenBucketLimiter
  pu_defaultLimit :: int
  pu_defaultBurst :: int
  pu_userLimits :: "string \<rightharpoonup> UserLimit"

definition NewPerUserRateLimiter :: "int \<Rightarrow> int \<Rightarrow> PerUserRateLimiter" where
  "NewPerUserRateLimiter defaultLimit defaultBurst =
     \<lparr>pu_limiter = NewTokenBucketLimiter defaultLimit defaultBurst, pu_defaultLimit = defaultLimit,
      pu_defaultBurst = defaultBurst, pu_userLimits = Map.empty\<rparr>"

definition PerUser_Allow ::
    "PerUserRateLimiter \<Rightarrow> (nat \<Rightarrow> gotime) \<Rightarrow> string option \<Rightarrow> RequestKey \<Rightarrow> PerUserRateLimiter \<times> unit result" where
  "PerUser_Allow p clk cancelled key =
     (let limit = (case pu_userLimits p (rk_UserID key) of
            Some ul \<Rightarrow> (if ul_ExpiresAt ul > clk 0 then ul_Limit ul else pu_defaultLimit p)
          | None \<Rightarrow> pu_defaultLimit p);
          l1 = TokenBucket_SetLimit (pu_limiter p) (clk 1) (RequestKey_String key) limit
      in case TokenBucket_Allow l1 cancelled (clk 2) (clk 3) (RequestKey_String key) of
           (l2, r) \<Rightarrow> (p\<lparr>pu_limiter := l2\<rparr>, r))"

definition PerUser_SetUserLimit ::
    "PerUserRateLimiter \<Rightarrow> gotime \<Rightarrow> string \<Rightarrow> int \<Rightarrow> int \<Rightarrow> int \<Rightarrow> PerUserRateLimiter" where
  "PerUser_SetUserLimit p now userID limit burst duration =
     p\<lparr>pu_userLimits := (pu_userLimits p)(userID \<mapsto>
        \<lparr>ul_Limit = limit, ul_Burst = burst, ul_ExpiresAt = now + duration\<rparr>)\<rparr>"

definition PerUser_RemoveUserLimit :: "PerUserRateLimiter \<Rightarrow> string \<Rightarrow> PerUserRateLimiter" where
  "PerUser_RemoveUserLimit p userID = p\<lparr>pu_userLimits := (pu_userLimits p)(userID := None)\<rparr>"

text \<open>The API kinds are strings; each kind has its default limit and burst.\<close>

definition GetDefaultLimits :: "(string \<times> int \<times> int) list" where
  "GetDefaultLimits =
     [(''PUT'', 100, 20), (''GET'', 1000, 100), (''DELETE'', 500, 50), (''LIST'', 100, 20),
      (''HEAD'', 2000, 200), (''CREATE_BUCKET'', 10, 5)]"

section \<open>The contract of a token bucket\<close>

text \<open>
  The token bucket and the bandwidth limiter keep the same kind of account. The locale states
  the arithmetic of one request and derives what a limiter promises.
\<close>

definition refill :: "rat \<Rightarrow> int \<Rightarrow> int \<Rightarrow> int \<Rightarrow> rat" where
  "refill tok dt rate cap = min (fl (tok + fl (Seconds dt * fl (of_int rate)))) (fl (of_int cap))"

lemma sdiv_nonneg: "(a :: int) \<ge> 0 \<Longrightarrow> b \<ge> 0 \<Longrightarrow> a sdiv b = a div b"
  by (cases "a = 0"; cases "b = 0") (simp_all add: signed_divide_int_def)

lemma smod_nonneg: "(a :: int) \<ge> 0 \<Longrightarrow> b \<ge> 0 \<Longrightarrow> a smod b = a mod b"
  by (cases "a = 0") (simp_all add: smod_int_alt_def)

lemma Seconds_zero [simp]: "Seconds 0 = 0"
  by (simp add: Seconds_def)

lemma Seconds_parts:
  assumes "d \<ge> 0"
  shows "Seconds d = fl (fl (of_int (d div 1000000000)) + fl (fl (of_int (d mod 1000000000)) / 1000000000))"
  using assms by (simp add: Seconds_def sdiv_nonneg smod_nonneg)

lemma Seconds_nonneg: "d \<ge> 0 \<Longrightarrow> Seconds d \<ge> 0"
  by (simp add: Seconds_parts fl_nonneg)

lemma le_mult_eps:
  assumes "x \<le> y * (1 + eps) ^ k" "y \<ge> 0" "x \<ge> 0"
  shows "fl x \<le> y * (1 + eps) ^ Suc k"
proof -
  have "fl x \<le> x * (1 + eps)" using assms(3) by (rule fl_le)
  also have "\<dots> \<le> y * (1 + eps) ^ k * (1 + eps)"
    using assms(1) eps_bounds by (intro mult_right_mono) auto
  finally show ?thesis by (simp add: mult_ac)
qed

lemma Seconds_le:
  assumes "d \<ge> 0"
  shows "Seconds d \<le> of_int d / 1000000000 * (1 + eps) ^ 3"
proof -
  let ?E = "1 + eps" and ?G = "1000000000 :: rat"
  have E: "?E \<ge> 1" using eps_bounds by simp
  have q: "fl (of_int (d div 1000000000)) \<le> of_int (d div 1000000000) * ?E ^ 2"
  proof -
    have "fl (of_int (d div 1000000000)) \<le> of_int (d div 1000000000) * ?E" using assms by (intro fl_le) simp
    also have "\<dots> \<le> of_int (d div 1000000000) * ?E ^ 2"
      using E assms by (intro mult_left_mono self_le_power) auto
    finally show ?thesis .
  qed
  have "fl (of_int (d mod 1000000000)) / ?G \<le> of_int (d mod 1000000000) / ?G * ?E ^ 1"
    using fl_le [of "of_int (d mod 1000000000)"] by (simp add: divide_right_mono)
  then have r: "fl (fl (of_int (d mod 1000000000)) / ?G) \<le> of_int (d mod 1000000000) / ?G * ?E ^ 2"
    using le_mult_eps [of "fl (of_int (d mod 1000000000)) / ?G" "of_int (d mod 1000000000) / ?G" 1]
    by (simp add: fl_nonneg numeral_2_eq_2)
  have "rat_of_int d = of_int (d div 1000000000 * 1000000000 + d mod 1000000000)" by simp
  then have "of_int d / ?G = of_int (d div 1000000000) + of_int (d mod 1000000000) / ?G"
    by (simp only: of_int_add of_int_mult) (simp add: add_divide_distrib)
  then have "fl (of_int (d div 1000000000)) + fl (fl (of_int (d mod 1000000000)) / ?G) \<le> of_int d / ?G * ?E ^ 2"
    using q r by (simp add: distrib_right)
  then have "Seconds d \<le> of_int d / ?G * ?E ^ Suc 2"
    unfolding Seconds_parts [OF assms] using assms by (intro le_mult_eps) (simp_all add: fl_nonneg)
  then show ?thesis by (simp add: numeral_3_eq_3)
qed

text \<open>The tokens a period of \<open>d\<close> nanoseconds may add, rounding included.\<close>

definition gain :: "int \<Rightarrow> int \<Rightarrow> rat" where
  "gain rate d = of_int rate * of_int d / 1000000000 * (1 + eps) ^ 6"

lemma gain_add: "gain rate (d + d') = gain rate d + gain rate d'"
  by (simp add: gain_def distrib_left distrib_right add_divide_distrib)

lemma refill_le:
  assumes "d \<ge> 0" "rate \<ge> 0" "tok \<ge> 0" "cap \<ge> 0" "tok \<le> fl (of_int cap)"
  shows "refill tok d rate cap \<le> tok + gain rate d + fl (of_int cap) * eps"
proof -
  let ?x = "of_int rate * of_int d / 1000000000 :: rat" and ?s = "Seconds d * fl (of_int rate)"
  have E: "1 + eps > 0" using eps_bounds by simp
  have "fl (of_int rate) \<le> of_int rate * (1 + eps)" using assms(2) by (intro fl_le) simp
  then have "?s \<le> (of_int d / 1000000000 * (1 + eps) ^ 3) * (of_int rate * (1 + eps))"
    using Seconds_le [OF assms(1)] Seconds_nonneg [OF assms(1)] assms(1,2) E
    by (intro mult_mono) (auto simp: fl_nonneg)
  then have s: "?s \<le> ?x * (1 + eps) ^ 4" by (simp add: power_numeral_reduce mult_ac)
  have s0: "?s \<ge> 0" using Seconds_nonneg [OF assms(1)] assms(2) by (simp add: fl_nonneg)
  have "fl ?s \<le> ?x * (1 + eps) ^ Suc 4" using assms(1,2) by (intro le_mult_eps [OF s _ s0]) simp
  then have i: "fl ?s * (1 + eps) \<le> ?x * (1 + eps) ^ 6"
    using E mult_right_mono [of "fl ?s" "?x * (1 + eps) ^ 5" "1 + eps"]
    by (simp add: power_numeral_reduce mult_ac)
  have "fl (tok + fl ?s) \<le> (tok + fl ?s) * (1 + eps)" using assms(3) s0 by (intro fl_le) (simp add: fl_nonneg)
  also have "\<dots> = tok + tok * eps + fl ?s * (1 + eps)" by (simp add: algebra_simps)
  also have "\<dots> \<le> tok + fl (of_int cap) * eps + ?x * (1 + eps) ^ 6"
    using i mult_right_mono [OF assms(5), of eps] eps_bounds by linarith
  finally show ?thesis by (simp add: refill_def min_def gain_def)
qed

lemma refill_range:
  assumes "d \<ge> 0" "rate \<ge> 0" "tok \<ge> 0" "cap \<ge> 0"
  shows "0 \<le> refill tok d rate cap" "refill tok d rate cap \<le> fl (of_int cap)"
  using assms Seconds_nonneg [of d] by (simp_all add: refill_def fl_nonneg)

text \<open>Requests one after the other; the result is the last state and what was granted.\<close>

fun run_takes :: "('b \<Rightarrow> gotime \<Rightarrow> int \<Rightarrow> 'b \<times> bool) \<Rightarrow> 'b \<Rightarrow> (gotime \<times> int) list \<Rightarrow> 'b \<times> int" where
  "run_takes tk b [] = (b, 0)"
| "run_takes tk b ((now, n) # reqs) =
     (case tk b now n of
        (b', ok) \<Rightarrow> (case run_takes tk b' reqs of (b'', g) \<Rightarrow> (b'', if ok then n + g else g)))"

text \<open>Clock readings do not decrease, and amounts are exact in \<^verbatim>\<open>float64\<close>.\<close>

fun requests_from :: "gotime \<Rightarrow> (gotime \<times> int) list \<Rightarrow> bool" where
  "requests_from t [] = True"
| "requests_from t ((now, n) # reqs) \<longleftrightarrow> t \<le> now \<and> 0 \<le> n \<and> n \<le> 2 ^ 53 \<and> requests_from now reqs"

definition end_time :: "gotime \<Rightarrow> (gotime \<times> int) list \<Rightarrow> gotime" where
  "end_time t reqs = (if reqs = [] then t else fst (List.last reqs))"

text \<open>The tokens are within the burst.\<close>

definition within_burst :: "rat \<Rightarrow> int \<Rightarrow> int \<Rightarrow> bool" where
  "within_burst tok rate cap \<longleftrightarrow> 0 \<le> tok \<and> tok \<le> fl (of_int cap) \<and> 0 \<le> rate \<and> 0 \<le> cap"

locale token_account =
  fixes tk :: "'b \<Rightarrow> gotime \<Rightarrow> int \<Rightarrow> 'b \<times> bool"
    and tok :: "'b \<Rightarrow> rat"
    and checked :: "'b \<Rightarrow> gotime"
    and rate :: "'b \<Rightarrow> int"
    and cap :: "'b \<Rightarrow> int"
  assumes tk_ok: "snd (tk b now n) \<longleftrightarrow> refill (tok b) (now - checked b) (rate b) (cap b) \<ge> fl (of_int n)"
    and tk_tok: "tok (fst (tk b now n)) =
      (let r = refill (tok b) (now - checked b) (rate b) (cap b)
       in if snd (tk b now n) then fl (r - fl (of_int n)) else r)"
    and tk_frame: "checked (fst (tk b now n)) = now" "rate (fst (tk b now n)) = rate b"
      "cap (fst (tk b now n)) = cap b"
begin

lemma take_valid:
  assumes "within_burst (tok b) (rate b) (cap b)" "checked b \<le> now" "0 \<le> n"
  shows "within_burst (tok (fst (tk b now n))) (rate b) (cap b)"
proof -
  let ?r = "refill (tok b) (now - checked b) (rate b) (cap b)"
  have r: "0 \<le> ?r" "?r \<le> fl (of_int (cap b))" using refill_range assms by (simp_all add: within_burst_def)
  have n: "0 \<le> fl (of_int n)" using assms(3) by (simp add: fl_nonneg)
  have "fl (?r - fl (of_int n)) \<le> fl (fl (of_int (cap b)))" using r n by (intro fl_mono) simp
  moreover have "0 \<le> fl (?r - fl (of_int n))" if "fl (of_int n) \<le> ?r" using that by (simp add: fl_nonneg)
  ultimately show ?thesis
    using assms(1) r tk_ok tk_tok [of b now n] by (auto simp: within_burst_def Let_def)
qed

lemma take_account:
  assumes "within_burst (tok b) (rate b) (cap b)" "checked b \<le> now" "0 \<le> n" "n \<le> 2 ^ 53"
  shows "(if snd (tk b now n) then of_int n else 0) + tok (fst (tk b now n)) \<le>
    tok b + gain (rate b) (now - checked b) + 2 * (fl (of_int (cap b)) * eps)"
proof -
  let ?r = "refill (tok b) (now - checked b) (rate b) (cap b)" and ?C = "fl (of_int (cap b))"
  have d: "now - checked b \<ge> 0" "rate b \<ge> 0" "tok b \<ge> 0" "cap b \<ge> 0" "tok b \<le> ?C"
    using assms by (simp_all add: within_burst_def)
  have r: "?r \<le> tok b + gain (rate b) (now - checked b) + ?C * eps" "?r \<le> ?C"
    using refill_le [OF d] refill_range(2) [OF d(1-4)] by auto
  have n: "fl (of_int n) = of_int n" using assms(3,4) by (intro fl_of_int) simp
  have "fl (?r - of_int n) \<le> ?r - of_int n + ?C * eps" if "of_int n \<le> ?r"
  proof -
    have "fl (?r - of_int n) \<le> (?r - of_int n) * (1 + eps)" using that by (intro fl_le) simp
    also have "\<dots> = ?r - of_int n + (?r - of_int n) * eps" by (simp add: algebra_simps)
    also have "\<dots> \<le> ?r - of_int n + ?C * eps"
      using r(2) assms(3) eps_bounds by (intro add_left_mono mult_right_mono) auto
    finally show ?thesis .
  qed
  moreover have "0 \<le> ?C * eps" using d eps_bounds by simp
  ultimately show ?thesis
    using r(1) tk_ok [of b now n] tk_tok [of b now n] by (auto simp: n Let_def)
qed

text \<open>
  What is granted within a period is at most the tokens at its start and the refill of the
  period, up to the rounding errors.
\<close>

lemma rate_bound:
  assumes "within_burst (tok b) (rate b) (cap b)" "requests_from (checked b) reqs"
    and "run_takes tk b reqs = (b', g)"
  shows "of_int g + tok b' \<le> tok b + gain (rate b) (end_time (checked b) reqs - checked b)
      + of_nat (length reqs) * (2 * (fl (of_int (cap b)) * eps)) \<and>
    within_burst (tok b') (rate b) (cap b)"
  using assms
proof (induction reqs arbitrary: b b' g)
  case (Cons x reqs)
  obtain now n where x: "x = (now, n)" by fastforce
  let ?b = "fst (tk b now n)" and ?S = "2 * (fl (of_int (cap b)) * eps)"
  obtain b'' g' where run: "run_takes tk ?b reqs = (b'', g')" by fastforce
  have step: "checked b \<le> now" "0 \<le> n" "n \<le> 2 ^ 53" "requests_from now reqs" using Cons.prems(2) x by auto
  have v: "within_burst (tok ?b) (rate b) (cap b)" using take_valid Cons.prems(1) step by blast
  have g: "b' = b''" "g = (if snd (tk b now n) then n + g' else g')"
    using Cons.prems(3) run x by (auto split: prod.splits)
  have ih: "of_int g' + tok b'' \<le> tok ?b + gain (rate b) (end_time now reqs - now)
      + of_nat (length reqs) * ?S \<and> within_burst (tok b'') (rate b) (cap b)"
    using Cons.IH [OF _ _ run] v step(4) by (simp add: tk_frame)
  have e: "end_time (checked b) (x # reqs) = end_time now reqs" by (simp add: end_time_def x)
  have "gain (rate b) (end_time now reqs - checked b) =
      gain (rate b) (now - checked b) + gain (rate b) (end_time now reqs - now)"
    using gain_add [of "rate b" "now - checked b" "end_time now reqs - now"] by simp
  moreover have "of_nat (length (x # reqs)) * ?S = ?S + of_nat (length reqs) * ?S"
    by (simp add: distrib_right)
  ultimately show ?case
    using take_account [OF Cons.prems(1) step(1-3)] ih g e by (auto split: if_splits)
qed (simp add: end_time_def gain_def)

end

text \<open>Both limiters keep such an account.\<close>

interpretation bucket: token_account bucket_take tb_tokens tb_lastCheck tb_limit tb_burst
  by unfold_locales (auto simp: bucket_take_def refill_def min_def Let_def)

interpretation bandwidth: token_account bw_take bw_tokens bw_lastCheck bw_bps bw_burst
  by unfold_locales (auto simp: bw_take_def refill_def min_def Let_def)

text \<open>A full bucket grants its burst at once, and not one more.\<close>

lemma bucket_instant:
  assumes "tb_burst b \<le> 2 ^ 53" "tb_lastCheck b = now" "tb_tokens b = of_int k" "0 \<le> k" "k \<le> tb_burst b"
  shows "bucket_take b now 1 =
    (if k \<ge> 1 then (b\<lparr>tb_tokens := of_int (k - 1)\<rparr>, True) else (b, False))"
proof -
  have f: "fl (of_int k) = of_int k" "fl (of_int (tb_burst b)) = of_int (tb_burst b)"
    using assms by (simp_all add: fl_of_int)
  have o: "fl 1 = 1" using fl_of_int [of 1] by simp
  have s: "fl (of_int k - 1) = of_int (k - 1)" if "k \<ge> 1" using fl_of_int [of "k - 1"] that assms by simp
  have "b\<lparr>tb_lastCheck := now, tb_tokens := of_int k\<rparr> = b"
    using assms(2,3) by (metis tokenBucket.surjective tokenBucket.update_convs(1,2))
  moreover have "b\<lparr>tb_lastCheck := now, tb_tokens := x\<rparr> = b\<lparr>tb_tokens := x\<rparr>" for x
    using assms(2) by (metis tokenBucket.surjective tokenBucket.update_convs(1,2))
  ultimately show ?thesis using assms f o s by (auto simp: bucket_take_def Let_def)
qed

section \<open>The sliding window refines a log of requests\<close>

text \<open>
  The specification keeps the bucket number of every granted request and counts those of the
  last \<open>n\<close> buckets.
\<close>

definition in_window :: "nat \<Rightarrow> int \<Rightarrow> int \<Rightarrow> bool" where
  "in_window n cur b \<longleftrightarrow> cur - int n < b \<and> b \<le> cur"

definition windowed :: "nat \<Rightarrow> int \<Rightarrow> int list \<Rightarrow> int" where
  "windowed n cur h = int (length (filter (in_window n cur) h))"

definition log_allow :: "nat \<Rightarrow> int \<Rightarrow> int \<Rightarrow> int list \<Rightarrow> int list \<times> bool" where
  "log_allow n limit cur h = (if windowed n cur h \<ge> limit then (h, False) else (cur # h, True))"

text \<open>The ring of buckets represents the log.\<close>

definition represents :: "nat \<Rightarrow> windowState \<Rightarrow> int list \<Rightarrow> bool" where
  "represents n ws h \<longleftrightarrow>
     length (ws_buckets ws) = n \<and> ws_bucketTime ws \<ge> 0 \<and>
     (\<forall>i < n. ws_buckets ws ! i = int (length (filter (\<lambda>b. in_window n (ws_bucketTime ws) b \<and> b mod int n = int i) h))) \<and>
     ws_count ws = windowed n (ws_bucketTime ws) h \<and> (\<forall>b \<in> set h. b \<le> ws_bucketTime ws)"

lemma window_mod_unique:
  assumes "in_window n cur b" "in_window n cur b'" "b mod int n = b' mod int n"
  shows "b = b'"
proof -
  have "int n dvd b - b'" using assms(3) by (simp add: mod_eq_dvd_iff)
  moreover have "\<bar>b - b'\<bar> < int n" using assms(1,2) by (auto simp: in_window_def)
  ultimately show ?thesis using zdvd_imp_le [of "int n" "\<bar>b - b'\<bar>"] by (cases "b = b'") auto
qed

lemma length_filter_split:
  "length (filter P xs) = length (filter (\<lambda>x. P x \<and> Q x) xs) + length (filter (\<lambda>x. P x \<and> \<not> Q x) xs)"
  by (induction xs) auto

lemma advance_step:
  assumes "represents n ws h" "n > 0"
    and "idx = (ws_bucketTime ws + 1) mod int n"
    and "ws' = ws\<lparr>ws_bucketTime := ws_bucketTime ws + 1, ws_count := ws_count ws - ws_buckets ws ! nat idx,
                  ws_buckets := (ws_buckets ws)[nat idx := 0]\<rparr>"
  shows "represents n ws' h \<and> ws_count ws - ws_buckets ws ! nat idx \<ge> 0"
proof -
  let ?bt = "ws_bucketTime ws"
  let ?W = "in_window n ?bt" and ?W' = "in_window n (?bt + 1)"
  have idx: "0 \<le> idx" "nat idx < n" using assms(2,3) by (simp_all add: nat_less_iff)
  have h: "b \<le> ?bt" if "b \<in> set h" for b using assms(1) that by (simp add: represents_def)
  have stay: "?W' b \<longleftrightarrow> ?W b \<and> b mod int n \<noteq> idx" if "b \<in> set h" for b
  proof
    assume "?W' b"
    then have w: "?W b" using h [OF that] by (simp add: in_window_def)
    moreover have "b mod int n \<noteq> idx"
    proof
      assume "b mod int n = idx"
      moreover have "?W' (?bt + 1)" using assms(2) by (simp add: in_window_def)
      ultimately have "b = ?bt + 1" using window_mod_unique [OF \<open>?W' b\<close>] assms(3) by simp
      then show False using h [OF that] by simp
    qed
    ultimately show "?W b \<and> b mod int n \<noteq> idx" by simp
  next
    assume w: "?W b \<and> b mod int n \<noteq> idx"
    moreover have "(?bt + 1 - int n) mod int n = idx" using assms(3) by simp
    ultimately have "b \<noteq> ?bt + 1 - int n" by blast
    then show "?W' b" using w h [OF that] by (simp add: in_window_def)
  qed
  have b: "ws_buckets ws ! nat idx = int (length (filter (\<lambda>b. ?W b \<and> b mod int n = idx) h))"
    using assms(1) idx by (simp add: represents_def)
  have c: "windowed n (?bt + 1) h = int (length (filter (\<lambda>b. ?W b \<and> b mod int n \<noteq> idx) h))"
    unfolding windowed_def using stay by (simp cong: filter_cong)
  have count: "ws_count ws - ws_buckets ws ! nat idx = windowed n (?bt + 1) h"
    using assms(1) b c length_filter_split [of ?W h "\<lambda>b. b mod int n = idx"]
    by (simp add: represents_def windowed_def)
  have "(ws_buckets ws)[nat idx := 0] ! i = int (length (filter (\<lambda>b. ?W' b \<and> b mod int n = int i) h))" if "i < n" for i
  proof (cases "i = nat idx")
    case True
    then have "filter (\<lambda>b. ?W' b \<and> b mod int n = int i) h = []" using stay idx by (auto simp: filter_empty_conv)
    with True that assms(1) show ?thesis by (simp add: represents_def)
  next
    case False
    then have "filter (\<lambda>b. ?W' b \<and> b mod int n = int i) h = filter (\<lambda>b. ?W b \<and> b mod int n = int i) h"
      using stay idx by (intro filter_cong) auto
    with False that assms(1) show ?thesis by (simp add: represents_def)
  qed
  then have "represents n ws' h"
    using assms(1) count h by (simp add: represents_def assms(4)) fastforce
  with count show ?thesis by (simp add: windowed_def)
qed

lemma advance_represents:
  assumes "represents n ws h" "n > 0" "ws_bucketTime ws \<le> cur"
  shows "\<exists>ws'. advance ws cur = Inr ws' \<and> represents n ws' h \<and> ws_bucketTime ws' = cur"
  using assms
proof (induction ws cur rule: advance.induct)
  case (1 ws cur)
  show ?case
  proof (cases "ws_bucketTime ws < cur")
    case False
    then show ?thesis using "1.prems" by (subst advance.simps) auto
  next
    case True
    let ?bt = "ws_bucketTime ws + 1"
    let ?idx = "?bt mod int n"
    let ?c = "ws_count ws - ws_buckets ws ! nat ?idx"
    let ?ws = "ws\<lparr>ws_bucketTime := ?bt, ws_count := ?c, ws_buckets := (ws_buckets ws)[nat ?idx := 0]\<rparr>"
    have l: "length (ws_buckets ws) = n" "?bt \<ge> 0" using "1.prems"(1) by (simp_all add: represents_def)
    have s: "?bt smod int n = ?idx" using l(2) by (simp add: smod_nonneg)
    have r: "represents n ?ws h" "?c \<ge> 0" using advance_step [OF "1.prems"(1,2) refl refl] by auto
    have i: "0 \<le> ?idx" "?idx < int n" using "1.prems"(2) by simp_all
    have "\<exists>ws'. advance ?ws cur = Inr ws' \<and> represents n ws' h \<and> ws_bucketTime ws' = cur"
      using "1.IH" [OF True refl, of ?idx ?c] l s i r "1.prems"(2) True by simp
    moreover have "advance ws cur = advance ?ws cur"
      using True l s i r(2) by (subst advance.simps) (simp add: Let_def)
    ultimately show ?thesis by simp
  qed
qed

text \<open>The configurations for which the window is exact: the duration is \<open>n\<close> precisions.\<close>

definition sw_exact :: "SlidingWindowCounter \<Rightarrow> nat \<Rightarrow> bool" where
  "sw_exact s n \<longleftrightarrow> n > 0 \<and> sw_precision s > 0 \<and> sw_duration s = int n * sw_precision s"

definition sw_log :: "SlidingWindowCounter \<Rightarrow> nat \<Rightarrow> string \<Rightarrow> int list \<Rightarrow> bool" where
  "sw_log s n key h \<longleftrightarrow> (case sw_windows s key of None \<Rightarrow> h = [] | Some ws \<Rightarrow> represents n ws h)"

definition sw_before :: "SlidingWindowCounter \<Rightarrow> string \<Rightarrow> int \<Rightarrow> bool" where
  "sw_before s key cur \<longleftrightarrow> (case sw_windows s key of None \<Rightarrow> True | Some ws \<Rightarrow> ws_bucketTime ws \<le> cur)"

lemma sw_exact_div:
  assumes "sw_exact s n" "now \<ge> 0"
  shows "sw_duration s sdiv sw_precision s = int n" "now sdiv sw_precision s = now div sw_precision s"
    "(now smod sw_duration s) sdiv sw_precision s = (now div sw_precision s) mod int n"
proof -
  have p: "sw_precision s > 0" "sw_duration s = int n * sw_precision s" "n > 0"
    using assms(1) by (simp_all add: sw_exact_def)
  show "sw_duration s sdiv sw_precision s = int n" "now sdiv sw_precision s = now div sw_precision s"
    using p assms(2) by (simp_all add: sdiv_nonneg)
  have "now mod (int n * sw_precision s) div sw_precision s = now div sw_precision s mod int n"
    using p(1) zmod_zmult2_eq [of "int n" now "sw_precision s"] by (simp add: mult.commute)
  then show "(now smod sw_duration s) sdiv sw_precision s = (now div sw_precision s) mod int n"
    using p assms(2) by (simp add: sdiv_nonneg smod_nonneg)
qed

lemma represents_grant:
  assumes "represents n ws h" "n > 0" "i = nat (ws_bucketTime ws mod int n)"
  shows "represents n (ws\<lparr>ws_buckets := (ws_buckets ws)[i := ws_buckets ws ! i + 1],
                          ws_count := ws_count ws + 1\<rparr>) (ws_bucketTime ws # h)"
proof -
  let ?cur = "ws_bucketTime ws"
  have i: "i < n" "int i = ?cur mod int n" using assms(2,3) by (simp_all add: nat_less_iff)
  have "in_window n ?cur ?cur" using assms(2) by (simp add: in_window_def)
  with assms(1) i show ?thesis
    by (auto simp: represents_def windowed_def nth_list_update)
qed

lemma represents_forgets:
  assumes "represents n ws []" "\<forall>b \<in> set h. b \<le> ws_bucketTime ws - int n"
  shows "represents n ws h"
proof -
  have "filter (\<lambda>b. in_window n (ws_bucketTime ws) b \<and> P b) h = []" for P
    using assms(2) by (fastforce simp: filter_empty_conv in_window_def)
  moreover have "filter (in_window n (ws_bucketTime ws)) h = []"
    using assms(2) by (fastforce simp: filter_empty_conv in_window_def)
  moreover have "\<forall>b \<in> set h. b \<le> ws_bucketTime ws" using assms(2) by fastforce
  ultimately show ?thesis using assms(1) by (simp add: represents_def windowed_def)
qed

lemma fresh_represents:
  assumes "sw_exact s n" "cur \<ge> int n"
  shows "represents n (fresh_window s cur) []" "ws_bucketTime (fresh_window s cur) = cur - int n"
  using sw_exact_div(1) [OF assms(1) order_refl] assms
  by (simp_all add: fresh_window_def represents_def windowed_def sw_exact_def Let_def)

text \<open>The window that \<^verbatim>\<open>Allow\<close> counts in represents the log, whether it was renewed or not.\<close>

lemma window_advanced:
  assumes "sw_exact s n" "sw_log s n key h" "sw_before s key cur" "cur \<ge> int n"
    and "ws = (case sw_windows s key of None \<Rightarrow> fresh_window s cur
           | Some ws \<Rightarrow> (if cur - ws_bucketTime ws > int n then fresh_window s cur else ws))"
  shows "\<exists>ws'. advance ws cur = Inr ws' \<and> represents n ws' h \<and> ws_bucketTime ws' = cur"
proof -
  have n: "n > 0" using assms(1) by (simp add: sw_exact_def)
  obtain ws0 where f: "advance (fresh_window s cur) cur = Inr ws0" "represents n ws0 []" "ws_bucketTime ws0 = cur"
    using advance_represents [OF fresh_represents(1) [OF assms(1,4)] n, of cur] fresh_represents(2) [OF assms(1,4)]
    by auto
  show ?thesis
  proof (cases "sw_windows s key")
    case None
    then show ?thesis using f assms(2,5) by (simp add: sw_log_def)
  next
    case (Some w)
    then have w: "represents n w h" "ws_bucketTime w \<le> cur" using assms(2,3) by (simp_all add: sw_log_def sw_before_def)
    show ?thesis
    proof (cases "cur - ws_bucketTime w > int n")
      case True
      then have "\<forall>b \<in> set h. b \<le> ws_bucketTime ws0 - int n" using w(1) f(3) by (fastforce simp: represents_def)
      then show ?thesis using True Some f represents_forgets assms(5) by auto
    next
      case False
      then show ?thesis using advance_represents [OF w(1) n w(2)] Some assms(5) by simp
    qed
  qed
qed

lemma SlidingWindow_refines:
  assumes "sw_exact s n" "sw_log s n key h" "now \<ge> sw_duration s"
    and "sw_before s key (now div sw_precision s)"
  shows "\<exists>s'. SlidingWindow_Allow s now key = (s', Inr (snd (log_allow n (sw_limit s) (now div sw_precision s) h))) \<and>
    sw_log s' n key (fst (log_allow n (sw_limit s) (now div sw_precision s) h)) \<and>
    sw_exact s' n \<and> sw_limit s' = sw_limit s \<and> sw_precision s' = sw_precision s \<and>
    sw_before s' key (now div sw_precision s) \<and>
    (\<forall>k. k \<noteq> key \<longrightarrow> sw_windows s' k = sw_windows s k)"
proof -
  let ?cur = "now div sw_precision s"
  have p: "sw_precision s > 0" "n > 0" "sw_duration s = int n * sw_precision s" using assms(1) by (simp_all add: sw_exact_def)
  then have d: "sw_duration s > 0" "now \<ge> 0" using assms(3) by (simp_all add: order_trans [of 0 "sw_duration s"])
  have "int n * sw_precision s div sw_precision s \<le> now div sw_precision s"
    using assms(3) p by (intro zdiv_mono1) auto
  then have cur: "?cur \<ge> int n" using p by simp
  note e = sw_exact_div [OF assms(1) d(2)]
  define ws where "ws = (case sw_windows s key of None \<Rightarrow> fresh_window s ?cur
           | Some ws \<Rightarrow> (if ?cur - ws_bucketTime ws > int n then fresh_window s ?cur else ws))"
  obtain ws1 where w: "advance ws ?cur = Inr ws1" "represents n ws1 h" "ws_bucketTime ws1 = ?cur"
    using window_advanced [OF assms(1,2,4) cur ws_def] by blast
  have len: "length (ws_buckets ws1) = n" and count: "ws_count ws1 = windowed n ?cur h"
    using w by (auto simp: represents_def)
  have i: "(?cur mod int n) smod int n = ?cur mod int n" using p(2) by (simp add: smod_nonneg)
  have idx: "0 \<le> ?cur mod int n" using p(2) by simp
  have "SlidingWindow_Allow s now key =
      (if ws_count ws1 \<ge> sw_limit s then (s\<lparr>sw_windows := (sw_windows s)(key \<mapsto> ws1)\<rparr>, Inr False)
       else (s\<lparr>sw_windows := (sw_windows s)(key \<mapsto>
           ws1\<lparr>ws_buckets := (ws_buckets ws1)[nat (?cur mod int n) := ws_buckets ws1 ! nat (?cur mod int n) + 1],
               ws_count := ws_count ws1 + 1\<rparr>)\<rparr>, Inr True))"
    unfolding SlidingWindow_Allow_def e Let_def ws_def [symmetric] w(1) len i
    using d p(1) idx by (simp add: len i)
  moreover have "represents n (ws1\<lparr>ws_buckets := (ws_buckets ws1)[nat (?cur mod int n) := ws_buckets ws1 ! nat (?cur mod int n) + 1],
               ws_count := ws_count ws1 + 1\<rparr>) (?cur # h)"
    using represents_grant [OF w(2) p(2) refl] w(3) by simp
  ultimately show ?thesis
    using w count assms(1) by (auto simp: log_allow_def sw_log_def sw_before_def sw_exact_def)
qed

text \<open>The log, and so the limiter, grants no more than the limit within any \<open>n\<close> buckets.\<close>

lemma log_allow_bounded:
  assumes "\<forall>c. windowed n c h \<le> max 0 limit" "\<forall>b \<in> set h. b \<le> cur"
  shows "windowed n c (fst (log_allow n limit cur h)) \<le> max 0 limit"
proof (cases "windowed n cur h \<ge> limit \<or> \<not> in_window n c cur")
  case True
  then show ?thesis using assms(1) by (auto simp: log_allow_def windowed_def)
next
  case False
  then have "\<forall>b \<in> set h. in_window n c b \<longrightarrow> in_window n cur b"
    using assms(2) by (auto simp: in_window_def)
  then have "length (filter (in_window n c) h) \<le> length (filter (in_window n cur) h)"
    by (induction h) auto
  with False show ?thesis by (simp add: log_allow_def windowed_def)
qed

fun log_run :: "nat \<Rightarrow> int \<Rightarrow> int \<Rightarrow> int list \<Rightarrow> int list \<Rightarrow> int list" where
  "log_run n limit p h [] = h"
| "log_run n limit p h (now # ts) = log_run n limit p (fst (log_allow n limit (now div p) h)) ts"

fun window_run :: "SlidingWindowCounter \<Rightarrow> string \<Rightarrow> int list \<Rightarrow> SlidingWindowCounter \<times> bool result list" where
  "window_run s key [] = (s, [])"
| "window_run s key (now # ts) =
     (case SlidingWindow_Allow s now key of
        (s', r) \<Rightarrow> (case window_run s' key ts of (s'', rs) \<Rightarrow> (s'', r # rs)))"

lemma log_allow_members: "set (fst (log_allow n limit cur h)) \<subseteq> insert cur (set h)"
  by (auto simp: log_allow_def)

lemma log_run_bounded:
  assumes "sorted ts" "p > 0" "\<forall>c. windowed n c h \<le> max 0 limit"
    and "\<forall>b \<in> set h. \<forall>t \<in> set ts. b \<le> t div p"
  shows "windowed n c (log_run n limit p h ts) \<le> max 0 limit"
  using assms
proof (induction ts arbitrary: h)
  case (Cons now ts)
  let ?h = "fst (log_allow n limit (now div p) h)"
  have "\<forall>c. windowed n c ?h \<le> max 0 limit" using log_allow_bounded Cons.prems(3,4) by simp
  moreover have "now div p \<le> t div p" if "t \<in> set ts" for t
    using that Cons.prems(1,2) by (simp add: zdiv_mono1)
  moreover have "b \<le> t div p" if "b \<in> set ?h" "t \<in> set ts" for b t
    using that Cons.prems(4) calculation(2) log_allow_members [of n limit "now div p" h]
    by (metis insert_iff list.set_intros(2) subsetD)
  ultimately show ?case using Cons.IH [of ?h] Cons.prems(1,2) by simp
qed simp

text \<open>A run of the limiter from an empty window follows the log.\<close>

lemma window_run_log:
  assumes "sw_exact s n" "sw_log s n key h" "sorted ts" "\<forall>t \<in> set ts. t \<ge> sw_duration s"
    and "\<forall>t \<in> set ts. sw_before s key (t div sw_precision s)"
  shows "sw_log (fst (window_run s key ts)) n key (log_run n (sw_limit s) (sw_precision s) h ts) \<and>
    (\<forall>r \<in> set (snd (window_run s key ts)). \<exists>b. r = Inr b)"
  using assms
proof (induction ts arbitrary: s h)
  case (Cons now ts)
  obtain s' where s': "SlidingWindow_Allow s now key =
      (s', Inr (snd (log_allow n (sw_limit s) (now div sw_precision s) h)))"
    "sw_log s' n key (fst (log_allow n (sw_limit s) (now div sw_precision s) h))" "sw_exact s' n"
    "sw_limit s' = sw_limit s" "sw_precision s' = sw_precision s" "sw_before s' key (now div sw_precision s)"
    using SlidingWindow_refines [OF Cons.prems(1,2), of now] Cons.prems(4,5)
    by (metis list.set_intros(1))
  have d: "sw_duration s' = sw_duration s" using s'(3,5) Cons.prems(1) by (simp add: sw_exact_def)
  have "sw_precision s > 0" using Cons.prems(1) by (simp add: sw_exact_def)
  then have "now div sw_precision s \<le> t div sw_precision s" if "t \<in> set ts" for t
    using that Cons.prems(3) by (simp add: zdiv_mono1)
  then have "\<forall>t \<in> set ts. sw_before s' key (t div sw_precision s')"
    using s'(5,6) by (auto simp: sw_before_def split: option.splits) fastforce
  with Cons.IH [OF s'(3,2)] Cons.prems(3,4) d s'
  show ?case by (auto split: prod.splits)
qed simp

section \<open>MultiLevelLimiter\<close>

text \<open>The counters account for every request.\<close>

definition stats_balanced :: "LimiterStats \<Rightarrow> bool" where
  "stats_balanced st \<longleftrightarrow> ls_TotalRequests st =
     ls_GlobalAllowed st + ls_GlobalRejected st + ls_IPRejected st + ls_UserRejected st +
     ls_BucketRejected st + ls_APIRejected st + ls_BWRejected st"

definition counted :: "LimiterStats \<Rightarrow> LimiterStats" where
  "counted st = st\<lparr>ls_TotalRequests := ls_TotalRequests st - 1\<rparr>"

lemma allow_bandwidth_stats:
  "stats_balanced (counted (ml_stats m)) \<Longrightarrow>
   stats_balanced (ml_stats (fst (allow_bandwidth m clk u a c)))"
  by (auto simp: allow_bandwidth_def bump_allowed_def stats_balanced_def counted_def
      split: prod.splits bool.splits)

lemma allow_api_stats:
  "stats_balanced (counted (ml_stats m)) \<Longrightarrow>
   stats_balanced (ml_stats (fst (allow_api m clk cn u a c)))"
  by (auto simp: allow_api_def stats_balanced_def counted_def
      split: option.splits prod.splits sum.splits
      intro!: allow_bandwidth_stats [unfolded stats_balanced_def counted_def])

lemma allow_bucket_stats:
  "stats_balanced (counted (ml_stats m)) \<Longrightarrow>
   stats_balanced (ml_stats (fst (allow_bucket m clk cn u b a c)))"
  using allow_api_stats [of m clk cn u a c]
  by (auto simp: allow_bucket_def split: prod.splits sum.splits intro!: allow_api_stats)
    (simp add: stats_balanced_def counted_def)

lemma allow_user_stats:
  "stats_balanced (counted (ml_stats m)) \<Longrightarrow>
   stats_balanced (ml_stats (fst (allow_user m clk cn u b a c)))"
  using allow_bucket_stats [of m clk cn u b a c]
  by (auto simp: allow_user_def split: prod.splits sum.splits intro!: allow_bucket_stats)
    (simp add: stats_balanced_def counted_def)

lemma MultiLevel_Allow_stats:
  assumes "stats_balanced (ml_stats m)" "MultiLevel_Allow m clk cn ip u b a c = (m', Inr r)"
  shows "stats_balanced (ml_stats m')"
proof -
  let ?m = "m\<lparr>ml_stats := (ml_stats m)\<lparr>ls_TotalRequests := ls_TotalRequests (ml_stats m) + 1\<rparr>\<rparr>"
  have c: "stats_balanced (counted (ml_stats (?m\<lparr>ml_global := g, ml_ip := i\<rparr>)))" for g i
    using assms(1) by (simp add: counted_def)
  have "stats_balanced (ml_stats (fst (allow_user (?m\<lparr>ml_global := g, ml_ip := i\<rparr>) clk cn u b a c)))" for g i
    by (rule allow_user_stats [OF c])
  note u = this
  show ?thesis
  proof (cases "ip \<in> ml_whitelist m")
    case True
    then show ?thesis using assms by (auto simp: MultiLevel_Allow_def bump_allowed_def stats_balanced_def)
  next
    case False
    obtain g r1 where g: "SlidingWindow_Allow (ml_global m) (UnixNano (clk 0)) ''global'' = (g, r1)" by fastforce
    obtain i r2 where i: "SlidingWindow_Allow (ml_ip m) (UnixNano (clk 1)) (''ip:'' @ ip) = (i, r2)" by fastforce
    obtain m2 r3 where ul: "allow_user (?m\<lparr>ml_global := g, ml_ip := i\<rparr>) clk cn u b a c = (m2, r3)" by fastforce
    then have m2: "stats_balanced (ml_stats m2)" using u [of i g] by simp
    have "ml_stats m' = ml_stats m2 \<or>
        ml_stats m' = (ml_stats ?m)\<lparr>ls_GlobalRejected := ls_GlobalRejected (ml_stats m) + 1\<rparr> \<or>
        ml_stats m' = (ml_stats ?m)\<lparr>ls_IPRejected := ls_IPRejected (ml_stats m) + 1\<rparr>"
      using False assms(2) g i ul by (auto simp: MultiLevel_Allow_def Let_def split: sum.splits bool.splits)
    then show ?thesis using m2 assms(1) by (auto simp: stats_balanced_def)
  qed
qed

text \<open>
  \<^verbatim>\<open>SetAPILimit\<close> on an existing limiter sets a bucket that no request uses: requests are
  counted under \<^verbatim>\<open>api:METHOD:USER\<close>, the limit is set under \<^verbatim>\<open>api:METHOD\<close>.
\<close>

lemma AllowN_other_key:
  assumes "tl_defaultLimit l' = tl_defaultLimit l" "tl_defaultBurst l' = tl_defaultBurst l"
    and "tl_buckets l' key = tl_buckets l key"
  shows "snd (TokenBucket_AllowN l' cn t0 t1 key n) = snd (TokenBucket_AllowN l cn t0 t1 key n)"
  using assms by (auto simp: TokenBucket_AllowN_def Let_def split: option.splits prod.splits)

lemma SetLimit_other_key:
  assumes "k \<noteq> key"
  shows "snd (TokenBucket_Allow (TokenBucket_SetLimit l now k limit) cn t0 t1 key) =
    snd (TokenBucket_Allow l cn t0 t1 key)"
  unfolding TokenBucket_Allow_def
  by (rule AllowN_other_key) (use assms in \<open>simp_all add: TokenBucket_SetLimit_def\<close>)

lemma api_keys_differ: "''api:'' @ api \<noteq> ''api:'' @ api @ '':'' @ user"
  by simp

text \<open>The empty key is no bucket's key, so \<^verbatim>\<open>CleanupStaleEntries\<close> leaves every bucket in place.\<close>

lemma Cleanup_keeps:
  "tl_buckets (ml_user (MultiLevel_CleanupStaleEntries m age)) (''user:'' @ u) = tl_buckets (ml_user m) (''user:'' @ u)"
  "tl_buckets (ml_bucket (MultiLevel_CleanupStaleEntries m age)) (''bucket:'' @ b) = tl_buckets (ml_bucket m) (''bucket:'' @ b)"
  by (simp_all add: MultiLevel_CleanupStaleEntries_def TokenBucket_RemoveBucket_def)

text \<open>The two limiters give every request the same answer.\<close>

definition api_retuned :: "gotime \<Rightarrow> string \<Rightarrow> int \<Rightarrow> MultiLevelLimiter \<Rightarrow> MultiLevelLimiter" where
  "api_retuned now api rps m =
     m\<lparr>ml_api := (ml_api m)(api := map_option (\<lambda>l. TokenBucket_SetLimit l now (''api:'' @ api) rps) (ml_api m api))\<rparr>"

lemma allow_bandwidth_answer:
  "snd (allow_bandwidth (m\<lparr>ml_api := a\<rparr>) clk u meth c) = snd (allow_bandwidth m clk u meth c)"
  by (auto simp: allow_bandwidth_def split: prod.splits bool.splits)

lemma allow_api_retuned:
  "snd (allow_api (api_retuned now api rps m) clk cn u meth c) = snd (allow_api m clk cn u meth c)"
proof (cases "meth = '''' \<or> ml_api m meth = None")
  case True
  then have "(if meth \<noteq> '''' then ml_api (api_retuned now api rps m) meth else None) = None"
    "(if meth \<noteq> '''' then ml_api m meth else None) = None" by (auto simp: api_retuned_def)
  then show ?thesis by (simp add: allow_api_def) (simp add: api_retuned_def allow_bandwidth_answer)
next
  case False
  then obtain l where l: "meth \<noteq> ''''" "ml_api m meth = Some l" by auto
  define l' where "l' = (if meth = api then TokenBucket_SetLimit l now (''api:'' @ api) rps else l)"
  have l': "ml_api (api_retuned now api rps m) meth = Some l'" using l by (auto simp: api_retuned_def l'_def)
  have "snd (TokenBucket_Allow l' cn (clk 6) (clk 7) (''api:'' @ meth @ '':'' @ u)) =
      snd (TokenBucket_Allow l cn (clk 6) (clk 7) (''api:'' @ meth @ '':'' @ u))"
    using SetLimit_other_key [OF api_keys_differ [of api u]] by (simp add: l'_def)
  then obtain l1 l2 r where "TokenBucket_Allow l' cn (clk 6) (clk 7) (''api:'' @ meth @ '':'' @ u) = (l1, r)"
    "TokenBucket_Allow l cn (clk 6) (clk 7) (''api:'' @ meth @ '':'' @ u) = (l2, r)"
    by (metis prod.collapse)
  with l l' show ?thesis
    by (simp add: allow_api_def split: sum.split) (simp add: api_retuned_def allow_bandwidth_answer)
qed

lemma api_retuned_fields [simp]:
  "ml_global (api_retuned now api rps m) = ml_global m" "ml_ip (api_retuned now api rps m) = ml_ip m"
  "ml_user (api_retuned now api rps m) = ml_user m" "ml_bucket (api_retuned now api rps m) = ml_bucket m"
  "ml_whitelist (api_retuned now api rps m) = ml_whitelist m" "ml_stats (api_retuned now api rps m) = ml_stats m"
  "(api_retuned now api rps m)\<lparr>ml_bucket := b\<rparr> = api_retuned now api rps (m\<lparr>ml_bucket := b\<rparr>)"
  "(api_retuned now api rps m)\<lparr>ml_user := b\<rparr> = api_retuned now api rps (m\<lparr>ml_user := b\<rparr>)"
  "(api_retuned now api rps m)\<lparr>ml_global := g\<rparr> = api_retuned now api rps (m\<lparr>ml_global := g\<rparr>)"
  "(api_retuned now api rps m)\<lparr>ml_ip := g\<rparr> = api_retuned now api rps (m\<lparr>ml_ip := g\<rparr>)"
  "(api_retuned now api rps m)\<lparr>ml_stats := s\<rparr> = api_retuned now api rps (m\<lparr>ml_stats := s\<rparr>)"
  by (simp_all add: api_retuned_def)

lemma allow_bucket_retuned:
  "snd (allow_bucket (api_retuned now api rps m) clk cn u b meth c) = snd (allow_bucket m clk cn u b meth c)"
  by (simp add: allow_bucket_def allow_api_retuned split: prod.split sum.split)

lemma allow_user_retuned:
  "snd (allow_user (api_retuned now api rps m) clk cn u b meth c) = snd (allow_user m clk cn u b meth c)"
  by (simp add: allow_user_def allow_bucket_retuned split: prod.split sum.split)

lemma MultiLevel_Allow_retuned:
  "snd (MultiLevel_Allow (api_retuned now api rps m) clk cn ip u b meth c) =
   snd (MultiLevel_Allow m clk cn ip u b meth c)"
  by (auto simp: MultiLevel_Allow_def Let_def bump_allowed_def split: prod.split sum.split bool.split)
    (metis allow_user_retuned snd_conv)

section \<open>Requests on one key of a limiter\<close>

fun allowed_run :: "TokenBucketLimiter \<Rightarrow> string \<Rightarrow> (gotime \<times> int) list \<Rightarrow> TokenBucketLimiter \<times> int" where
  "allowed_run l key [] = (l, 0)"
| "allowed_run l key ((now, n) # reqs) =
     (case TokenBucket_AllowN l None now now key n of
        (l', r) \<Rightarrow> (case allowed_run l' key reqs of (l'', g) \<Rightarrow> (l'', if is_ok r then n + g else g)))"

lemma allowed_run_bucket:
  "tl_buckets l key = Some b \<Longrightarrow> snd (allowed_run l key reqs) = snd (run_takes bucket_take b reqs)"
proof (induction reqs arbitrary: l b)
  case (Cons x reqs)
  obtain now n where x: "x = (now, n)" by fastforce
  obtain b' ok where t: "bucket_take b now n = (b', ok)" by fastforce
  define l' where "l' = l\<lparr>tl_buckets := (tl_buckets l)(key \<mapsto> b')\<rparr>"
  have "TokenBucket_AllowN l None now now key n = (l', if ok then Inr () else Inl ErrRateLimited)"
    using Cons.prems t by (simp add: TokenBucket_AllowN_def l'_def)
  moreover have "snd (allowed_run l' key reqs) = snd (run_takes bucket_take b' reqs)"
    by (rule Cons.IH) (simp add: l'_def)
  ultimately show ?case using x t by (auto split: prod.splits)
qed simp

lemma allowed_run_new:
  assumes "reqs \<noteq> []" "t = fst (hd reqs)"
  shows "snd (allowed_run (NewTokenBucketLimiter limit burst) key reqs) =
    snd (run_takes bucket_take \<lparr>tb_tokens = fl (of_int burst), tb_lastCheck = t, tb_limit = limit, tb_burst = burst\<rparr> reqs)"
proof -
  let ?b = "\<lparr>tb_tokens = fl (of_int burst), tb_lastCheck = t, tb_limit = limit, tb_burst = burst\<rparr>"
  obtain n rest where r: "reqs = (t, n) # rest" using assms by (cases reqs) auto
  have "TokenBucket_AllowN (NewTokenBucketLimiter limit burst) None t t key n =
      TokenBucket_AllowN ((NewTokenBucketLimiter limit burst)\<lparr>tl_buckets := [key \<mapsto> ?b]\<rparr>) None t t key n"
    by (simp add: TokenBucket_AllowN_def NewTokenBucketLimiter_def)
  then have "snd (allowed_run (NewTokenBucketLimiter limit burst) key reqs) =
      snd (allowed_run ((NewTokenBucketLimiter limit burst)\<lparr>tl_buckets := [key \<mapsto> ?b]\<rparr>) key reqs)"
    by (simp add: r)
  then show ?thesis by (simp add: allowed_run_bucket)
qed

fun log_answers :: "nat \<Rightarrow> int \<Rightarrow> int \<Rightarrow> int list \<Rightarrow> int list \<Rightarrow> bool list" where
  "log_answers n limit p h [] = []"
| "log_answers n limit p h (now # ts) =
     snd (log_allow n limit (now div p) h) # log_answers n limit p (fst (log_allow n limit (now div p) h)) ts"

lemma window_run_answers:
  assumes "sw_exact s n" "sw_log s n key h" "sorted ts" "\<forall>t \<in> set ts. t \<ge> sw_duration s"
    and "\<forall>t \<in> set ts. sw_before s key (t div sw_precision s)"
  shows "snd (window_run s key ts) = map Inr (log_answers n (sw_limit s) (sw_precision s) h ts)"
  using assms
proof (induction ts arbitrary: s h)
  case (Cons now ts)
  obtain s' where s': "SlidingWindow_Allow s now key =
      (s', Inr (snd (log_allow n (sw_limit s) (now div sw_precision s) h)))"
    "sw_log s' n key (fst (log_allow n (sw_limit s) (now div sw_precision s) h))" "sw_exact s' n"
    "sw_limit s' = sw_limit s" "sw_precision s' = sw_precision s" "sw_before s' key (now div sw_precision s)"
    using SlidingWindow_refines [OF Cons.prems(1,2), of now] Cons.prems(4,5)
    by (metis list.set_intros(1))
  have d: "sw_duration s' = sw_duration s" using s'(3,5) Cons.prems(1) by (simp add: sw_exact_def)
  have "sw_precision s > 0" using Cons.prems(1) by (simp add: sw_exact_def)
  then have "now div sw_precision s \<le> t div sw_precision s" if "t \<in> set ts" for t
    using that Cons.prems(3) by (simp add: zdiv_mono1)
  then have "\<forall>t \<in> set ts. sw_before s' key (t div sw_precision s')"
    using s'(5,6) by (auto simp: sw_before_def split: option.splits) fastforce
  with Cons.IH [OF s'(3,2)] Cons.prems(3,4) d s' show ?case by (auto split: prod.splits)
qed simp

lemma total_bandwidth [simp]:
  "ls_TotalRequests (ml_stats (fst (allow_bandwidth m clk u a c))) = ls_TotalRequests (ml_stats m)"
  by (auto simp: allow_bandwidth_def bump_allowed_def split: prod.splits bool.splits)

lemma total_api [simp]:
  "ls_TotalRequests (ml_stats (fst (allow_api m clk cn u a c))) = ls_TotalRequests (ml_stats m)"
  by (simp add: allow_api_def split: option.splits prod.splits sum.splits)

lemma total_bucket [simp]:
  "ls_TotalRequests (ml_stats (fst (allow_bucket m clk cn u b a c))) = ls_TotalRequests (ml_stats m)"
  by (simp add: allow_bucket_def split: prod.splits sum.splits)

lemma total_user [simp]:
  "ls_TotalRequests (ml_stats (fst (allow_user m clk cn u b a c))) = ls_TotalRequests (ml_stats m)"
  by (simp add: allow_user_def split: prod.splits sum.splits)

lemma MultiLevel_Allow_counts:
  assumes "MultiLevel_Allow m clk cn ip u b a c = (m', r)"
  shows "ls_TotalRequests (ml_stats m') = ls_TotalRequests (ml_stats m) + 1"
proof -
  let ?m = "m\<lparr>ml_stats := (ml_stats m)\<lparr>ls_TotalRequests := ls_TotalRequests (ml_stats m) + 1\<rparr>\<rparr>"
  obtain g r1 where g: "SlidingWindow_Allow (ml_global m) (UnixNano (clk 0)) ''global'' = (g, r1)" by fastforce
  obtain i r2 where i: "SlidingWindow_Allow (ml_ip m) (UnixNano (clk 1)) (''ip:'' @ ip) = (i, r2)" by fastforce
  obtain m2 r3 where ul: "allow_user (?m\<lparr>ml_global := g, ml_ip := i\<rparr>) clk cn u b a c = (m2, r3)" by fastforce
  have "ls_TotalRequests (ml_stats m2) = ls_TotalRequests (ml_stats m) + 1"
    using total_user [of "?m\<lparr>ml_global := g, ml_ip := i\<rparr>" clk cn u b a c] ul by simp
  then show ?thesis
    using assms g i ul by (auto simp: MultiLevel_Allow_def Let_def bump_allowed_def split: if_splits sum.splits bool.splits)
qed

text \<open>A configuration with a limit on one API.\<close>

definition one_api :: MultiLevelConfig where
  "one_api = \<lparr>cfg_GlobalRPS = 100, cfg_GlobalBurst = 0, cfg_IPRPS = 100, cfg_IPBurst = 0, cfg_UserRPS = 50,
     cfg_UserBurst = 50, cfg_BucketRPS = 50, cfg_BucketBurst = 50, cfg_UploadBytesPerSec = 0,
     cfg_UploadBurstBytes = 0, cfg_APILimits = [(''GET'', \<lparr>al_RPS = 10, al_Burst = 10\<rparr>)], cfg_Whitelist = [],
     cfg_WindowDuration = 0, cfg_WindowPrecision = 0\<rparr>"

section \<open>Properties\<close>

text \<open>
  C13. The token bucket keeps to its rate. For a new limiter, any key and any sequence of
  requests at non-decreasing times, the tokens granted are at most the burst plus the rate
  times the elapsed time, up to the rounding of \<^verbatim>\<open>float64\<close>: a factor of six roundings on the
  refill and two roundings of the burst per request, each of one part in \<open>2 ^ 53\<close>.
\<close>

theorem token_bucket_rate_bound:
  assumes "0 \<le> limit" "0 \<le> burst" "burst \<le> 2 ^ 53" "reqs \<noteq> []" "requests_from (fst (hd reqs)) reqs"
  shows "of_int (snd (allowed_run (NewTokenBucketLimiter limit burst) key reqs)) \<le>
    of_int burst +
    of_int limit * of_int (fst (last reqs) - fst (hd reqs)) / 1000000000 * (1 + eps) ^ 6 +
    of_nat (length reqs) * (2 * (of_int burst * eps))"
proof -
  let ?t = "fst (hd reqs)"
  let ?b = "\<lparr>tb_tokens = fl (of_int burst), tb_lastCheck = ?t, tb_limit = limit, tb_burst = burst\<rparr>"
  have f: "fl (of_int burst) = of_int burst" using assms(2,3) by (simp add: fl_of_int)
  obtain b' g where run: "run_takes bucket_take ?b reqs = (b', g)" by fastforce
  have "within_burst (tb_tokens ?b) (tb_limit ?b) (tb_burst ?b)"
    using assms(1,2) by (simp add: within_burst_def fl_nonneg)
  from bucket.rate_bound [OF this _ run] assms(5)
  have "of_int g + tb_tokens b' \<le> of_int burst + gain limit (end_time ?t reqs - ?t)
      + of_nat (length reqs) * (2 * (of_int burst * eps))" "0 \<le> tb_tokens b'"
    by (simp_all add: f within_burst_def)
  with run allowed_run_new [OF assms(4) refl] assms(4) show ?thesis
    by (simp add: end_time_def gain_def)
qed

theorem token_bucket_rate_bound_witness:
  "of_int (snd (allowed_run (NewTokenBucketLimiter 10 5) ''k'' [(0, 3), (0, 3), (1000000000, 2)])) \<le>
    (of_int 5 :: rat) + of_int 10 * of_int 1000000000 / 1000000000 * (1 + eps) ^ 6 + 3 * (2 * (5 * eps))"
  using token_bucket_rate_bound [of 10 5 "[(0, 3), (0, 3), (1000000000, 2)]" "''k''"] by simp

text \<open>
  C12. The sliding window is exact at the resolution of its buckets. For a window of \<open>n\<close>
  precisions, a new counter and requests on one key at non-decreasing times after the first
  window, no call fails, each answer is the one a full log of granted requests gives, and
  within any \<open>n\<close> consecutive buckets no more than the limit is granted.
\<close>

theorem sliding_window_exact:
  assumes "0 < n" "0 < p" "sorted ts" "\<forall>t \<in> set ts. int n * p \<le> t"
  shows "snd (window_run (NewSlidingWindowCounter (int n * p) p limit) key ts) =
      map Inr (log_answers n limit p [] ts) \<and>
    windowed n c (log_run n limit p [] ts) \<le> max 0 limit"
proof -
  let ?s = "NewSlidingWindowCounter (int n * p) p limit"
  have s: "sw_exact ?s n" "sw_log ?s n key []" "sw_precision ?s = p" "sw_limit ?s = limit" "sw_duration ?s = int n * p"
    "sw_before ?s key b" for b
    using assms(1,2) by (simp_all add: sw_exact_def sw_log_def sw_before_def NewSlidingWindowCounter_def)
  have "windowed n c [] \<le> max 0 limit" for c by (simp add: windowed_def)
  then show ?thesis
    using window_run_answers [OF s(1,2) assms(3)] s log_run_bounded [OF assms(3,2), of n "[]" limit c] assms(4)
    by simp
qed

theorem sliding_window_exact_witness:
  "snd (window_run (NewSlidingWindowCounter 20 10 2) ''k'' [20, 21, 29, 41]) =
   [Inr True, Inr True, Inr False, Inr True]"
  using sliding_window_exact [of 2 10 "[20, 21, 29, 41]" 2 "''k''" 0]
  by (simp add: log_allow_def windowed_def in_window_def)

text \<open>
  The bandwidth limiter keeps the same account in bytes: from any state within the
  burst, what a sequence of transfers is granted is at most the bytes at the start plus the
  refill of the period, up to rounding, and the account stays within the burst.
\<close>

theorem bandwidth_rate_bound:
  assumes "within_burst (bw_tokens b) (bw_bps b) (bw_burst b)" "requests_from (bw_lastCheck b) reqs"
    and "run_takes bw_take b reqs = (b', g)"
  shows "of_int g + bw_tokens b' \<le> bw_tokens b + gain (bw_bps b) (end_time (bw_lastCheck b) reqs - bw_lastCheck b)
      + of_nat (length reqs) * (2 * (fl (of_int (bw_burst b)) * eps)) \<and>
    within_burst (bw_tokens b') (bw_bps b) (bw_burst b)"
  using assms by (rule bandwidth.rate_bound)

theorem bandwidth_rate_bound_witness:
  "\<exists>b' g. run_takes bw_take \<lparr>bw_tokens = 100, bw_lastCheck = 0, bw_bps = 50, bw_burst = 100\<rparr>
      [(0, 80), (1000000000, 60)] = (b', g) \<and> of_int g \<le> 100 + gain 50 1000000000 + 2 * (2 * (fl 100 * eps))"
proof -
  let ?b = "\<lparr>bw_tokens = 100, bw_lastCheck = 0, bw_bps = 50, bw_burst = 100\<rparr>"
  obtain b' g where r: "run_takes bw_take ?b [(0, 80), (1000000000, 60)] = (b', g)" by fastforce
  have "fl 100 = 100" using fl_of_int [of 100] by simp
  then have "within_burst (bw_tokens ?b) (bw_bps ?b) (bw_burst ?b)" by (simp add: within_burst_def)
  from bandwidth_rate_bound [OF this _ r]
  have "of_int g \<le> 100 + gain 50 1000000000 + 2 * (2 * (fl 100 * eps))"
    by (simp add: within_burst_def end_time_def)
  with r show ?thesis by blast
qed

text \<open>
  The statistics of the multi-level limiter account for every request: they start
  balanced, and every call that returns keeps the total equal to the sum of the allowed and
  of the rejections of all six levels.
\<close>

theorem limiter_stats_balanced:
  "stats_balanced (MultiLevel_GetStats (NewMultiLevelLimiter cfg)) \<and>
   (stats_balanced (MultiLevel_GetStats m) \<and>
      MultiLevel_Allow m clk cancelled ip user bucket api contentLength = (m', Inr r) \<longrightarrow>
    stats_balanced (MultiLevel_GetStats m') \<and>
    ls_TotalRequests (MultiLevel_GetStats m') = ls_TotalRequests (MultiLevel_GetStats m) + 1)"
proof -
  have "stats_balanced (MultiLevel_GetStats (NewMultiLevelLimiter cfg))"
    by (simp add: MultiLevel_GetStats_def NewMultiLevelLimiter_def stats_balanced_def Let_def)
  then show ?thesis
    using MultiLevel_Allow_stats MultiLevel_Allow_counts unfolding MultiLevel_GetStats_def by blast
qed

theorem limiter_stats_balanced_witness:
  "ls_TotalRequests (MultiLevel_GetStats (fst (MultiLevel_Allow
     (MultiLevel_AddWhitelist (NewMultiLevelLimiter one_api) ''10.0.0.1'') (\<lambda>_. 0) None ''10.0.0.1'' ''bob'' ''b'' ''GET'' 0))) = 1"
proof -
  let ?m = "MultiLevel_AddWhitelist (NewMultiLevelLimiter one_api) ''10.0.0.1''"
  obtain m' r where a: "MultiLevel_Allow ?m (\<lambda>_. 0) None ''10.0.0.1'' ''bob'' ''b'' ''GET'' 0 = (m', Inr r)"
    by (simp add: MultiLevel_Allow_def MultiLevel_AddWhitelist_def Let_def)
  have "MultiLevel_GetStats ?m = MultiLevel_GetStats (NewMultiLevelLimiter one_api)"
    "ls_TotalRequests (MultiLevel_GetStats (NewMultiLevelLimiter one_api)) = 0"
    by (simp_all add: MultiLevel_AddWhitelist_def MultiLevel_GetStats_def NewMultiLevelLimiter_def Let_def)
  with limiter_stats_balanced [of one_api ?m "\<lambda>_. 0" None "''10.0.0.1''" "''bob''" "''b''" "''GET''" 0 m' r] a
  show ?thesis by simp
qed

text \<open>
  Changing the limit of an API that already has one has no effect: \<^verbatim>\<open>SetAPILimit\<close> sets the
  bucket \<^verbatim>\<open>api:METHOD\<close>, requests are counted in \<^verbatim>\<open>api:METHOD:USER\<close>, so every request gets the
  answer it would have got without the change.
\<close>

theorem SetAPILimit_ineffective:
  assumes "ml_api m api = Some l"
  shows "snd (MultiLevel_Allow (MultiLevel_SetAPILimit m now api rps burst) clk cancelled ip user bucket meth c) =
    snd (MultiLevel_Allow m clk cancelled ip user bucket meth c)"
proof -
  have "MultiLevel_SetAPILimit m now api rps burst = api_retuned now api rps m"
    using assms by (simp add: MultiLevel_SetAPILimit_def api_retuned_def)
  then show ?thesis by (simp add: MultiLevel_Allow_retuned)
qed

theorem SetAPILimit_ineffective_witness:
  "snd (MultiLevel_Allow (MultiLevel_SetAPILimit (NewMultiLevelLimiter one_api) 0 ''GET'' 0 0) (\<lambda>_. 10 ^ 20) None
      ''10.0.0.1'' ''bob'' ''b'' ''GET'' 0) =
   snd (MultiLevel_Allow (NewMultiLevelLimiter one_api) (\<lambda>_. 10 ^ 20) None ''10.0.0.1'' ''bob'' ''b'' ''GET'' 0)"
  by (rule SetAPILimit_ineffective [where l = "NewTokenBucketLimiter 10 10"])
    (simp add: NewMultiLevelLimiter_def with_defaults_def one_api_def)

end
