(* ===== verification/Circuit_Breaker.thy ===== *)
theory Circuit_Breaker
  imports Rate_Limit
begin

text \<open>
  The circuit breaker, the adaptive limiter built on it and the concurrency limiter of
  \<^verbatim>\<open>internal/ratelimit/ratelimit.go\<close>. A breaker's operations run under its lock and are state
  transformers; the breaker is then also a transition system. The concurrency limiter works
  without a lock, by loading a counter and comparing and swapping it, so it is a transition
  system of the atomic steps of its callers.
\<close>

section \<open>CircuitBreaker\<close>

definition ErrCircuitOpen :: go_err where "ErrCircuitOpen = Err ''circuit breaker is open''"

datatype CircuitState = StateClosed | StateOpen | StateHalfOpen

record circuitBreakerInternal =
  cb_name :: string
  cb_maxRequests :: "32 word"
  cb_interval :: int
  cb_timeout :: int
  cb_errorThreshold :: rat
  cb_successThreshold :: "32 word"
  cb_state :: CircuitState
  cb_failures :: int
  cb_successes :: int
  cb_requests :: int
  cb_lastStateChange :: gotime
  cb_halfOpenAllowed :: "32 word"

record CircuitBreakerConfig =
  cbc_Name :: string
  cbc_MaxRequests :: "32 word"
  cbc_Interval :: int
  cbc_Timeout :: int
  cbc_ErrorThreshold :: rat
  cbc_SuccessThreshold :: "32 word"

record CircuitBreaker =
  cbs_breakers :: "string \<rightharpoonup> circuitBreakerInternal"
  cbs_configs :: "string \<rightharpoonup> CircuitBreakerConfig"

definition NewCircuitBreaker :: CircuitBreaker where
  "NewCircuitBreaker = \<lparr>cbs_breakers = Map.empty, cbs_configs = Map.empty\<rparr>"

definition new_breaker :: "CircuitBreakerConfig \<Rightarrow> gotime \<Rightarrow> circuitBreakerInternal" where
  "new_breaker cfg now =
     \<lparr>cb_name = cbc_Name cfg, cb_maxRequests = cbc_MaxRequests cfg, cb_interval = cbc_Interval cfg,
      cb_timeout = cbc_Timeout cfg, cb_errorThreshold = cbc_ErrorThreshold cfg,
      cb_successThreshold = cbc_SuccessThreshold cfg, cb_state = StateClosed, cb_failures = 0,
      cb_successes = 0, cb_requests = 0, cb_lastStateChange = now,
      cb_halfOpenAllowed = cbc_MaxRequests cfg\<rparr>"

definition CircuitBreaker_Register ::
    "CircuitBreaker \<Rightarrow> gotime \<Rightarrow> string \<Rightarrow> CircuitBreakerConfig \<Rightarrow> CircuitBreaker" where
  "CircuitBreaker_Register cb now name cfg =
     cb\<lparr>cbs_configs := (cbs_configs cb)(name \<mapsto> cfg),
        cbs_breakers := (cbs_breakers cb)(name \<mapsto> new_breaker cfg now)\<rparr>"

text \<open>\<open>t0\<close> is the reading of \<^verbatim>\<open>time.Since\<close>, \<open>t1\<close> the reading stored as the last state change.\<close>

definition half_open_take :: "circuitBreakerInternal \<Rightarrow> circuitBreakerInternal \<times> bool" where
  "half_open_take b =
     (if cb_halfOpenAllowed b = 0 then (b, False)
      else (b\<lparr>cb_halfOpenAllowed := cb_halfOpenAllowed b - 1, cb_requests := cb_requests b + 1\<rparr>, True))"

definition breaker_allow :: "circuitBreakerInternal \<Rightarrow> gotime \<Rightarrow> gotime \<Rightarrow> circuitBreakerInternal \<times> bool" where
  "breaker_allow b t0 t1 =
     (case cb_state b of
        StateOpen \<Rightarrow>
          (if t0 - cb_lastStateChange b > cb_timeout b then
             half_open_take (b\<lparr>cb_state := StateHalfOpen, cb_halfOpenAllowed := cb_maxRequests b,
                               cb_lastStateChange := t1, cb_requests := 0, cb_failures := 0,
                               cb_successes := 0\<rparr>)
           else (b, False))
      | StateHalfOpen \<Rightarrow> half_open_take b
      | StateClosed \<Rightarrow> (b\<lparr>cb_requests := cb_requests b + 1\<rparr>, True))"

definition CircuitBreaker_Allow ::
    "CircuitBreaker \<Rightarrow> gotime \<Rightarrow> gotime \<Rightarrow> string \<Rightarrow> CircuitBreaker \<times> unit result" where
  "CircuitBreaker_Allow cb t0 t1 name =
     (case cbs_breakers cb name of
        None \<Rightarrow> (cb, Inr ())
      | Some b \<Rightarrow>
          (case breaker_allow b t0 t1 of
             (b', ok) \<Rightarrow> (cb\<lparr>cbs_breakers := (cbs_breakers cb)(name \<mapsto> b')\<rparr>,
                          if ok then Inr () else Inl ErrCircuitOpen)))"

definition breaker_success :: "circuitBreakerInternal \<Rightarrow> gotime \<Rightarrow> circuitBreakerInternal" where
  "breaker_success b now =
     (let b1 = b\<lparr>cb_successes := cb_successes b + 1\<rparr>
      in if cb_state b1 = StateHalfOpen \<and> cb_successes b1 \<ge> uint (cb_successThreshold b1)
         then b1\<lparr>cb_state := StateClosed, cb_lastStateChange := now, cb_failures := 0, cb_requests := 0\<rparr>
         else b1)"

definition breaker_failure :: "circuitBreakerInternal \<Rightarrow> gotime \<Rightarrow> circuitBreakerInternal" where
  "breaker_failure b now =
     (let b1 = b\<lparr>cb_failures := cb_failures b + 1\<rparr>
      in if cb_state b1 = StateHalfOpen then b1\<lparr>cb_state := StateOpen, cb_lastStateChange := now\<rparr>
         else if cb_requests b1 > 0 then
           (let failureRatio = fl (fl (of_int (cb_failures b1)) / fl (of_int (cb_requests b1)))
            in if cb_requests b1 \<ge> uint (cb_successThreshold b1) \<and> failureRatio \<ge> cb_errorThreshold b1
               then b1\<lparr>cb_state := StateOpen, cb_lastStateChange := now\<rparr> else b1)
         else b1)"

definition CircuitBreaker_RecordSuccess :: "CircuitBreaker \<Rightarrow> gotime \<Rightarrow> string \<Rightarrow> CircuitBreaker" where
  "CircuitBreaker_RecordSuccess cb now name =
     (case cbs_breakers cb name of
        None \<Rightarrow> cb
      | Some b \<Rightarrow> cb\<lparr>cbs_breakers := (cbs_breakers cb)(name \<mapsto> breaker_success b now)\<rparr>)"

definition CircuitBreaker_RecordFailure :: "CircuitBreaker \<Rightarrow> gotime \<Rightarrow> string \<Rightarrow> CircuitBreaker" where
  "CircuitBreaker_RecordFailure cb now name =
     (case cbs_breakers cb name of
        None \<Rightarrow> cb
      | Some b \<Rightarrow> cb\<lparr>cbs_breakers := (cbs_breakers cb)(name \<mapsto> breaker_failure b now)\<rparr>)"

definition CircuitBreaker_GetState :: "CircuitBreaker \<Rightarrow> gotime \<Rightarrow> string \<Rightarrow> CircuitState" where
  "CircuitBreaker_GetState cb now name =
     (case cbs_breakers cb name of
        None \<Rightarrow> StateClosed
      | Some b \<Rightarrow> if cb_state b = StateOpen \<and> now - cb_lastStateChange b > cb_timeout b
                  then StateHalfOpen else cb_state b)"

section \<open>AdaptiveLimiter\<close>

record AdaptiveStats =
  as_TotalRequests :: int
  as_Allowed :: int
  as_Rejected :: int
  as_CircuitOpen :: int

record AdaptiveLimiter =
  ad_limiter :: TokenBucketLimiter
  ad_breaker :: CircuitBreaker
  ad_stats :: AdaptiveStats

definition NewAdaptiveLimiter :: "int \<Rightarrow> int \<Rightarrow> AdaptiveLimiter" where
  "NewAdaptiveLimiter defaultLimit defaultBurst =
     \<lparr>ad_limiter = NewTokenBucketLimiter defaultLimit defaultBurst, ad_breaker = NewCircuitBreaker,
      ad_stats = \<lparr>as_TotalRequests = 0, as_Allowed = 0, as_Rejected = 0, as_CircuitOpen = 0\<rparr>\<rparr>"

definition Adaptive_Allow ::
    "AdaptiveLimiter \<Rightarrow> (nat \<Rightarrow> gotime) \<Rightarrow> string option \<Rightarrow> string \<Rightarrow> AdaptiveLimiter \<times> unit result" where
  "Adaptive_Allow a0 clk cancelled key =
     (let a = a0\<lparr>ad_stats := (ad_stats a0)\<lparr>as_TotalRequests := as_TotalRequests (ad_stats a0) + 1\<rparr>\<rparr>
      in case CircuitBreaker_Allow (ad_breaker a) (clk 0) (clk 1) ''default'' of
           (cb, Inl e) \<Rightarrow>
             (a\<lparr>ad_breaker := cb, ad_stats := (ad_stats a)\<lparr>as_CircuitOpen := as_CircuitOpen (ad_stats a) + 1\<rparr>\<rparr>, Inl e)
         | (cb, Inr _) \<Rightarrow>
             (case TokenBucket_Allow (ad_limiter a) cancelled (clk 2) (clk 3) key of
                (l, Inl e) \<Rightarrow>
                  (a\<lparr>ad_breaker := cb, ad_limiter := l,
                     ad_stats := (ad_stats a)\<lparr>as_Rejected := as_Rejected (ad_stats a) + 1\<rparr>\<rparr>, Inl e)
              | (l, Inr _) \<Rightarrow>
                  (a\<lparr>ad_breaker := cb, ad_limiter := l,
                     ad_stats := (ad_stats a)\<lparr>as_Allowed := as_Allowed (ad_stats a) + 1\<rparr>\<rparr>, Inr ())))"

definition Adaptive_GetStats :: "AdaptiveLimiter \<Rightarrow> AdaptiveStats" where
  "Adaptive_GetStats a = ad_stats a"

definition Adaptive_SetLimit :: "AdaptiveLimiter \<Rightarrow> gotime \<Rightarrow> string \<Rightarrow> int \<Rightarrow> AdaptiveLimiter" where
  "Adaptive_SetLimit a now key limit = a\<lparr>ad_limiter := TokenBucket_SetLimit (ad_limiter a) now key limit\<rparr>"

section \<open>ConcurrencyLimiter\<close>

record ConcurrencyLimiter =
  cl_limits :: "string \<rightharpoonup> int"
  cl_counters :: "string \<rightharpoonup> int"
  cl_maxTotal :: int

definition NewConcurrencyLimiter :: "int \<Rightarrow> ConcurrencyLimiter" where
  "NewConcurrencyLimiter maxTotal = \<lparr>cl_limits = Map.empty, cl_counters = Map.empty, cl_maxTotal = maxTotal\<rparr>"

definition Concurrency_SetLimit :: "ConcurrencyLimiter \<Rightarrow> string \<Rightarrow> int \<Rightarrow> ConcurrencyLimiter" where
  "Concurrency_SetLimit c key limit = c\<lparr>cl_limits := (cl_limits c)(key \<mapsto> limit)\<rparr>"

definition Concurrency_GetCount :: "ConcurrencyLimiter \<Rightarrow> string \<Rightarrow> int" where
  "Concurrency_GetCount c key = (case cl_counters c key of Some n \<Rightarrow> n | None \<Rightarrow> 0)"

text \<open>
  The callers of \<^verbatim>\<open>Acquire\<close> and where each is. \<open>Begin\<close> is the part under the lock, which fixes the
  caller's limit and makes sure that the counter exists; then the caller loads the counter,
  waits or tries to swap it, and finally releases what it acquired. A caller whose context is
  done may leave where the code looks at the context.
\<close>

datatype caller = Idle | Waiting string int | Loaded string int int | Holding string

type_synonym callers = "nat \<Rightarrow> caller"

definition key_limit :: "ConcurrencyLimiter \<Rightarrow> string \<Rightarrow> int" where
  "key_limit c key = (case cl_limits c key of Some l \<Rightarrow> l | None \<Rightarrow> cl_maxTotal c)"

definition with_counter :: "ConcurrencyLimiter \<Rightarrow> string \<Rightarrow> ConcurrencyLimiter" where
  "with_counter c key =
     (case cl_counters c key of Some _ \<Rightarrow> c | None \<Rightarrow> c\<lparr>cl_counters := (cl_counters c)(key \<mapsto> 0)\<rparr>)"

inductive acquire_step ::
    "ConcurrencyLimiter \<times> callers \<Rightarrow> ConcurrencyLimiter \<times> callers \<Rightarrow> bool" where
  begin_acquire: "ts i = Idle \<Longrightarrow>
    acquire_step (c, ts) (with_counter c key, ts(i := Waiting key (key_limit c key)))"
| load_counter: "ts i = Waiting key limit \<Longrightarrow> cl_counters c key = Some n \<Longrightarrow> n < limit \<Longrightarrow>
    acquire_step (c, ts) (c, ts(i := Loaded key limit n))"
| wait_full: "ts i = Waiting key limit \<Longrightarrow> cl_counters c key = Some n \<Longrightarrow> n \<ge> limit \<Longrightarrow>
    acquire_step (c, ts) (c, ts)"
| give_up: "ts i = Waiting key limit \<Longrightarrow> cl_counters c key = Some n \<Longrightarrow> n \<ge> limit \<Longrightarrow>
    acquire_step (c, ts) (c, ts(i := Idle))"
| swap_succeeds: "ts i = Loaded key limit n \<Longrightarrow> cl_counters c key = Some n \<Longrightarrow>
    acquire_step (c, ts) (c\<lparr>cl_counters := (cl_counters c)(key \<mapsto> n + 1)\<rparr>, ts(i := Holding key))"
| swap_fails: "ts i = Loaded key limit n \<Longrightarrow> cl_counters c key = Some n' \<Longrightarrow> n' \<noteq> n \<Longrightarrow>
    acquire_step (c, ts) (c, ts(i := Waiting key limit))"
| release: "ts i = Holding key \<Longrightarrow> cl_counters c key = Some n \<Longrightarrow>
    acquire_step (c, ts) (c\<lparr>cl_counters := (cl_counters c)(key \<mapsto> n - 1)\<rparr>, ts(i := Idle))"

inductive acquire_reachable :: "ConcurrencyLimiter \<Rightarrow> ConcurrencyLimiter \<times> callers \<Rightarrow> bool" for c0 where
  acquire_init: "acquire_reachable c0 (c0, \<lambda>_. Idle)"
| acquire_next: "acquire_reachable c0 s \<Longrightarrow> acquire_step s s' \<Longrightarrow> acquire_reachable c0 s'"

inductive_cases acquire_stepE: "acquire_step (c, ts) s'"

section \<open>The breaker as a state machine\<close>

text \<open>The operations on one breaker, with any clock readings.\<close>

inductive breaker_step :: "circuitBreakerInternal \<Rightarrow> bool option \<Rightarrow> circuitBreakerInternal \<Rightarrow> bool" where
  step_allow: "breaker_allow b t0 t1 = (b', ok) \<Longrightarrow> breaker_step b (Some ok) b'"
| step_success: "breaker_step b None (breaker_success b now)"
| step_failure: "breaker_step b None (breaker_failure b now)"

inductive breaker_reachable :: "circuitBreakerInternal \<Rightarrow> bool" where
  registered: "breaker_reachable (new_breaker cfg now)"
| stepped: "breaker_reachable b \<Longrightarrow> breaker_step b ev b' \<Longrightarrow> breaker_reachable b'"

inductive_cases breaker_stepE: "breaker_step b ev b'"

text \<open>In the half-open state, what was admitted and what may still be admitted add up.\<close>

definition half_open_budget :: "circuitBreakerInternal \<Rightarrow> bool" where
  "half_open_budget b \<longleftrightarrow>
     (cb_state b = StateHalfOpen \<longrightarrow>
        cb_requests b + uint (cb_halfOpenAllowed b) = uint (cb_maxRequests b))"

lemma uint_pred: "(w :: 32 word) \<noteq> 0 \<Longrightarrow> uint (w - 1) = uint w - 1"
proof -
  assume "w \<noteq> 0"
  then have "unat (w - 1) = unat w - 1" "unat w > 0" by (simp_all add: unat_minus_one unat_gt_0)
  moreover have "uint (w - 1) = int (unat (w - 1))" "uint w = int (unat w)" by simp_all
  ultimately show ?thesis by linarith
qed

lemma half_open_take_budget:
  "half_open_budget b \<Longrightarrow> half_open_budget (fst (half_open_take b))"
  by (cases "cb_halfOpenAllowed b = 0") (simp_all add: half_open_budget_def half_open_take_def uint_pred)

lemma breaker_step_budget: "breaker_step b ev b' \<Longrightarrow> half_open_budget b \<Longrightarrow> half_open_budget b'"
proof (induction rule: breaker_step.induct)
  case (step_allow b t0 t1 b' ok)
  show ?case
  proof (cases "cb_state b")
    case StateOpen
    let ?h = "b\<lparr>cb_state := StateHalfOpen, cb_halfOpenAllowed := cb_maxRequests b, cb_lastStateChange := t1,
                cb_requests := 0, cb_failures := 0, cb_successes := 0\<rparr>"
    have "half_open_budget ?h" by (simp add: half_open_budget_def)
    from half_open_take_budget [OF this] StateOpen step_allow show ?thesis
      by (cases "t0 - cb_lastStateChange b > cb_timeout b")
        (auto simp: breaker_allow_def half_open_budget_def [of b])
  next
    case StateHalfOpen
    then show ?thesis using step_allow half_open_take_budget [of b] by (simp add: breaker_allow_def)
  next
    case StateClosed
    then show ?thesis using step_allow by (auto simp: breaker_allow_def half_open_budget_def)
  qed
qed (auto simp: breaker_success_def breaker_failure_def half_open_budget_def Let_def)

lemma breaker_reachable_budget: "breaker_reachable b \<Longrightarrow> half_open_budget b"
proof (induction rule: breaker_reachable.induct)
  case (registered cfg now)
  then show ?case by (simp add: half_open_budget_def new_breaker_def)
qed (blast intro: breaker_step_budget)

text \<open>An open breaker rejects until its timeout is over.\<close>

lemma open_rejects:
  "cb_state b = StateOpen \<Longrightarrow> t0 - cb_lastStateChange b \<le> cb_timeout b \<Longrightarrow> breaker_allow b t0 t1 = (b, False)"
  by (simp add: breaker_allow_def)

text \<open>
  A half-open breaker without allowance rejects whatever the time: only a recorded outcome
  moves it on.
\<close>

lemma exhausted_rejects:
  "cb_state b = StateHalfOpen \<Longrightarrow> cb_halfOpenAllowed b = 0 \<Longrightarrow> breaker_allow b t0 t1 = (b, False)"
  by (simp add: breaker_allow_def half_open_take_def)

section \<open>The concurrency limiter never exceeds its limit\<close>

definition holders :: "callers \<Rightarrow> string \<Rightarrow> nat set" where
  "holders ts key = {i. ts i = Holding key}"

fun caller_ok :: "ConcurrencyLimiter \<Rightarrow> caller \<Rightarrow> bool" where
  "caller_ok c Idle = True"
| "caller_ok c (Waiting key limit) \<longleftrightarrow> limit = key_limit c key \<and> cl_counters c key \<noteq> None"
| "caller_ok c (Loaded key limit n) \<longleftrightarrow> limit = key_limit c key \<and> n < limit \<and> cl_counters c key \<noteq> None"
| "caller_ok c (Holding key) \<longleftrightarrow> cl_counters c key \<noteq> None"

definition acquire_inv :: "ConcurrencyLimiter \<times> callers \<Rightarrow> bool" where
  "acquire_inv s \<longleftrightarrow> (case s of (c, ts) \<Rightarrow>
     (\<forall>i. caller_ok c (ts i)) \<and>
     (\<forall>key. finite (holders ts key)) \<and>
     (\<forall>key n. cl_counters c key = Some n \<longrightarrow> n = int (card (holders ts key)) \<and> n \<le> max 0 (key_limit c key)))"

lemma holders_upd:
  "holders (ts(i := x)) key = (if x = Holding key then insert i (holders ts key) else holders ts key - {i})"
  by (auto simp: holders_def)

lemma holders_keep: "\<forall>k. ts i \<noteq> Holding k \<Longrightarrow> holders ts key - {i} = holders ts key"
  by (auto simp: holders_def)

lemma key_limit_counters [simp]: "key_limit (c\<lparr>cl_counters := m\<rparr>) = key_limit c"
  by (simp add: key_limit_def fun_eq_iff split: option.splits)

lemma key_limit_with_counter [simp]: "key_limit (with_counter c key) = key_limit c"
  by (simp add: with_counter_def split: option.splits)

lemma caller_ok_more:
  "caller_ok c x \<Longrightarrow> caller_ok (c\<lparr>cl_counters := (cl_counters c)(key \<mapsto> n)\<rparr>) x"
  by (cases x) auto

lemma caller_ok_with_counter: "caller_ok c x \<Longrightarrow> caller_ok (with_counter c key) x"
  by (cases x) (auto simp: with_counter_def split: option.splits)

text \<open>Steps that only move a caller that holds nothing.\<close>

lemma acquire_inv_move:
  assumes "acquire_inv (c, ts)" "\<forall>k. ts i \<noteq> Holding k" "\<forall>k. x \<noteq> Holding k" "caller_ok c x"
  shows "acquire_inv (c, ts(i := x))"
proof -
  have h: "holders (ts(i := x)) key = holders ts key" for key
    using holders_keep [of ts i, OF assms(2)] assms(3) by (simp add: holders_upd)
  show ?thesis using assms(1,4) unfolding acquire_inv_def by (simp add: h)
qed

lemma acquire_inv_with_counter:
  assumes "acquire_inv (c, ts)"
  shows "acquire_inv (with_counter c key, ts)"
proof (cases "cl_counters c key")
  case None
  have "holders ts key = {}"
  proof -
    have "ts j \<noteq> Holding key" for j
    proof
      assume "ts j = Holding key"
      moreover have "caller_ok c (ts j)" using assms by (simp add: acquire_inv_def)
      ultimately show False using None by simp
    qed
    then show ?thesis by (simp add: holders_def)
  qed
  with assms None show ?thesis
    by (auto simp: acquire_inv_def caller_ok_with_counter) (auto simp: with_counter_def split: if_splits)
next
  case (Some n)
  then show ?thesis using assms by (simp add: with_counter_def)
qed

lemma acquire_inv_swap:
  assumes "acquire_inv (c, ts)" "ts i = Loaded key limit n" "cl_counters c key = Some n"
  shows "acquire_inv (c\<lparr>cl_counters := (cl_counters c)(key \<mapsto> n + 1)\<rparr>, ts(i := Holding key))"
proof -
  have "caller_ok c (ts i)" using assms(1) by (simp add: acquire_inv_def)
  then have l: "n < key_limit c key" using assms(2) by simp
  have i: "i \<notin> holders ts k" for k using assms(2) by (simp add: holders_def)
  have f: "finite (holders ts k)" for k using assms(1) by (simp add: acquire_inv_def)
  have h: "holders (ts(i := Holding key)) k = (if k = key then insert i (holders ts key) else holders ts k)" for k
    using i by (auto simp: holders_upd)
  have n: "n = int (card (holders ts key))" using assms(1,3) by (simp add: acquire_inv_def)
  show ?thesis
    using assms(1) l n f i unfolding acquire_inv_def by (simp add: h caller_ok_more)
qed

lemma acquire_inv_release:
  assumes "acquire_inv (c, ts)" "ts i = Holding key" "cl_counters c key = Some n"
  shows "acquire_inv (c\<lparr>cl_counters := (cl_counters c)(key \<mapsto> n - 1)\<rparr>, ts(i := Idle))"
proof -
  have i: "i \<in> holders ts key" "k \<noteq> key \<Longrightarrow> i \<notin> holders ts k" for k using assms(2) by (auto simp: holders_def)
  have f: "finite (holders ts k)" for k using assms(1) by (simp add: acquire_inv_def)
  have h: "holders (ts(i := Idle)) k = (if k = key then holders ts key - {i} else holders ts k)" for k
    using i by (auto simp: holders_upd)
  have n: "n = int (card (holders ts key))" "n \<le> max 0 (key_limit c key)"
    using assms(1,3) by (simp_all add: acquire_inv_def)
  have "card (holders ts key) > 0" using i(1) f card_gt_0_iff by blast
  then have "n - 1 = int (card (holders ts key - {i}))" using n(1) i(1) f by (simp add: of_nat_diff)
  with assms(1) n f show ?thesis
    unfolding acquire_inv_def by (simp add: h caller_ok_more)
qed

lemma acquire_step_inv:
  assumes "acquire_step s s'" "acquire_inv s"
  shows "acquire_inv s'"
  using assms
proof (induction rule: acquire_step.induct)
  case (begin_acquire ts i c key)
  then show ?case
    using acquire_inv_move [OF acquire_inv_with_counter] by (simp add: with_counter_def split: option.splits)
next
  case (load_counter ts i key limit c n)
  have "caller_ok c (ts i)" using load_counter.prems by (simp add: acquire_inv_def)
  with load_counter show ?case by (intro acquire_inv_move) auto
next
  case (swap_fails ts i key limit n c n')
  have "caller_ok c (ts i)" using swap_fails.prems by (simp add: acquire_inv_def)
  with swap_fails show ?case by (intro acquire_inv_move) auto
next
  case (give_up ts i key limit c n)
  then show ?case by (intro acquire_inv_move) auto
qed (simp_all add: acquire_inv_swap acquire_inv_release)

lemma acquire_reachable_inv:
  "acquire_reachable c0 s \<Longrightarrow> cl_counters c0 = Map.empty \<Longrightarrow> acquire_inv s"
proof (induction rule: acquire_reachable.induct)
  case acquire_init
  then show ?case by (simp add: acquire_inv_def holders_def)
qed (blast intro: acquire_step_inv)

lemma acquire_reachable_config:
  "acquire_reachable c0 s \<Longrightarrow> key_limit (fst s) = key_limit c0"
proof (induction rule: acquire_reachable.induct)
  case (acquire_next s s')
  from acquire_next(2) have "key_limit (fst s') = key_limit (fst s)" by (cases rule: acquire_step.cases) auto
  with acquire_next show ?case by simp
qed simp

section \<open>Properties\<close>

text \<open>
  A circuit breaker admits what its state allows, in every state it can reach: an open
  one admits nothing before its timeout is over, and a half-open one admits a request exactly
  while it has admitted fewer than its maximum of probes, which it never exceeds.
\<close>

theorem breaker_admits:
  assumes "breaker_reachable b"
  shows "(cb_state b = StateOpen \<and> t0 - cb_lastStateChange b \<le> cb_timeout b \<longrightarrow>
            breaker_allow b t0 t1 = (b, False)) \<and>
         (cb_state b = StateHalfOpen \<longrightarrow>
            cb_requests b \<le> uint (cb_maxRequests b) \<and>
            (snd (breaker_allow b t0 t1) \<longleftrightarrow> cb_requests b < uint (cb_maxRequests b)))"
proof -
  have r: "cb_requests b = uint (cb_maxRequests b) - uint (cb_halfOpenAllowed b)" if "cb_state b = StateHalfOpen"
    using breaker_reachable_budget [OF assms] that by (simp add: half_open_budget_def)
  have "0 < uint (cb_halfOpenAllowed b) \<longleftrightarrow> cb_halfOpenAllowed b \<noteq> 0"
    by (metis order_less_le uint_0_iff uint_ge_0)
  with r open_rejects [of b t0 t1] show ?thesis
    by (cases "cb_state b") (simp_all add: breaker_allow_def half_open_take_def)
qed

text \<open>A breaker with one probe and two successes required, opened by failures, after its probe.\<close>

definition probe_config :: CircuitBreakerConfig where
  "probe_config = \<lparr>cbc_Name = ''db'', cbc_MaxRequests = 1, cbc_Interval = 0, cbc_Timeout = 5,
     cbc_ErrorThreshold = 0, cbc_SuccessThreshold = 2\<rparr>"

definition tripped :: circuitBreakerInternal where
  "tripped = breaker_failure (fst (breaker_allow (fst (breaker_allow (new_breaker probe_config 0) 0 0)) 0 0)) 0"

definition probed :: circuitBreakerInternal where
  "probed = fst (breaker_allow tripped 10 10)"

lemma allow_reachable: "breaker_reachable b \<Longrightarrow> breaker_reachable (fst (breaker_allow b t0 t1))"
  by (rule stepped [OF _ step_allow [OF prod.collapse [symmetric]]])

lemma probed_reachable: "breaker_reachable tripped" "breaker_reachable probed"
  unfolding probed_def tripped_def
  by (intro allow_reachable stepped [OF allow_reachable [OF allow_reachable [OF registered]] step_failure])+

lemma tripped_open: "cb_state tripped = StateOpen \<and> cb_lastStateChange tripped = 0 \<and> cb_timeout tripped = 5 \<and>
    cb_maxRequests tripped = 1 \<and> cb_successThreshold tripped = 2"
proof -
  have "0 \<le> fl (fl 1 / fl 2)" by (intro fl_nonneg divide_nonneg_nonneg) simp_all
  then show ?thesis
    by (simp add: tripped_def probe_config_def new_breaker_def breaker_allow_def breaker_failure_def Let_def)
qed

lemma probed_half_open: "cb_state probed = StateHalfOpen \<and> cb_halfOpenAllowed probed = 0 \<and>
    cb_requests probed = 1 \<and> cb_successes probed = 0 \<and> cb_failures probed = 0 \<and>
    cb_maxRequests probed = 1 \<and> cb_successThreshold probed = 2"
  using tripped_open by (simp add: probed_def breaker_allow_def half_open_take_def)

theorem breaker_admits_witness:
  "breaker_allow tripped 4 4 = (tripped, False) \<and> \<not> snd (breaker_allow probed 1000 1000)"
  using breaker_admits [OF probed_reachable(1), of 4 4] breaker_admits [OF probed_reachable(2), of 1000 1000]
    tripped_open probed_half_open by simp

text \<open>
  A half-open breaker can be stuck: with fewer probes than successes required to close,
  the breaker reaches a half-open state in which every admitted probe has reported success,
  and from there it rejects every request, however much time passes.
\<close>

theorem breaker_stuck_half_open:
  "\<exists>b. breaker_reachable b \<and> cb_state b = StateHalfOpen \<and> 0 < cb_requests b \<and>
     cb_successes b = cb_requests b \<and> cb_failures b = 0 \<and>
     (\<forall>t0 t1. breaker_allow b t0 t1 = (b, False))"
proof (intro exI conjI allI)
  let ?b = "breaker_success probed 11"
  show "breaker_reachable ?b" using stepped [OF probed_reachable(2) step_success] .
  have s: "cb_state ?b = StateHalfOpen" "cb_halfOpenAllowed ?b = 0"
    using probed_half_open by (simp_all add: breaker_success_def Let_def)
  then show "cb_state ?b = StateHalfOpen" by simp
  show "breaker_allow ?b t0 t1 = (?b, False)" for t0 t1 using s by (rule exhausted_rejects)
  show "0 < cb_requests ?b" "cb_successes ?b = cb_requests ?b" "cb_failures ?b = 0"
    using probed_half_open by (simp_all add: breaker_success_def Let_def)
qed

text \<open>
  The concurrency limiter, started without counters, is safe under every interleaving of its callers, each of which
  loads the counter and swaps it in separate atomic steps, retries and gives up as it likes:
  the number of callers that hold a slot of a key never exceeds the key's limit, and the
  counter is that number.
\<close>

theorem concurrency_limit_holds:
  assumes "cl_counters c0 = Map.empty" "acquire_reachable c0 (c, ts)"
  shows "finite {i. ts i = Holding key} \<and>
    int (card {i. ts i = Holding key}) \<le> max 0 (key_limit c0 key) \<and>
    Concurrency_GetCount c key = int (card {i. ts i = Holding key})"
proof -
  have inv: "acquire_inv (c, ts)" using acquire_reachable_inv assms by blast
  have lim: "key_limit c = key_limit c0" using acquire_reachable_config [OF assms(2)] by simp
  show ?thesis
  proof (cases "cl_counters c key")
    case None
    have "ts i \<noteq> Holding key" for i
    proof
      assume "ts i = Holding key"
      moreover have "caller_ok c (ts i)" using inv by (simp add: acquire_inv_def)
      ultimately show False using None by simp
    qed
    with None show ?thesis by (simp add: Concurrency_GetCount_def)
  next
    case (Some n)
    with inv lim show ?thesis by (simp add: acquire_inv_def holders_def Concurrency_GetCount_def)
  qed
qed

theorem concurrency_limit_holds_witness:
  "\<exists>c ts. acquire_reachable (NewConcurrencyLimiter 1) (c, ts) \<and> ts 0 = Holding ''k'' \<and>
     int (card {i. ts i = Holding ''k''}) \<le> 1"
proof -
  let ?c0 = "NewConcurrencyLimiter 1" and ?k = "''k''"
  let ?c1 = "with_counter ?c0 ?k"
  have l: "key_limit ?c0 ?k = 1" and n: "cl_counters ?c1 ?k = Some 0"
    by (simp_all add: key_limit_def NewConcurrencyLimiter_def with_counter_def)
  let ?t1 = "(\<lambda>_. Idle)(0 := Waiting ?k (key_limit ?c0 ?k))" and ?t2 = "(\<lambda>_. Idle)(0 := Loaded ?k 1 0)"
  have "acquire_step (?c0, \<lambda>_. Idle) (?c1, ?t1)" by (rule begin_acquire) simp
  then have r1: "acquire_reachable ?c0 (?c1, ?t1)" using acquire_next [OF acquire_init] by blast
  have "acquire_step (?c1, ?t1) (?c1, ?t1(0 := Loaded ?k 1 0))" by (rule load_counter [OF _ n]) (simp_all add: l)
  then have r2: "acquire_reachable ?c0 (?c1, ?t1(0 := Loaded ?k 1 0))" using acquire_next [OF r1] by blast
  have "acquire_step (?c1, ?t1(0 := Loaded ?k 1 0))
      (?c1\<lparr>cl_counters := (cl_counters ?c1)(?k \<mapsto> 0 + 1)\<rparr>, (?t1(0 := Loaded ?k 1 0))(0 := Holding ?k))"
    by (rule swap_succeeds [OF _ n]) simp
  then have r3: "acquire_reachable ?c0
      (?c1\<lparr>cl_counters := (cl_counters ?c1)(?k \<mapsto> 0 + 1)\<rparr>, (?t1(0 := Loaded ?k 1 0))(0 := Holding ?k))"
    using acquire_next [OF r2] by blast
  have "cl_counters ?c0 = Map.empty" by (simp add: NewConcurrencyLimiter_def)
  from concurrency_limit_holds [OF this r3, of ?k] l
  have "int (card {i. ((?t1(0 := Loaded ?k 1 0))(0 := Holding ?k)) i = Holding ?k}) \<le> 1" by simp
  with r3 show ?thesis by (intro exI conjI) (assumption, simp, assumption)
qed

end
