(* ===== verification/Checksum.thy ===== *)
theory Checksum
  imports Prelude
begin

text \<open>
  The checksums of \<^verbatim>\<open>internal/metadata\<close>. Go's \<^verbatim>\<open>hash/crc32\<close> and \<^verbatim>\<open>hash/crc64\<close> are modelled by
  the reflected polynomial division that their tables tabulate; SHA-256 is an argument \<open>sha\<close> (no
  property of it is used). A streaming hash is what has been fed to it so far. The lemmas show
  that feeding chunks is feeding their concatenation, and that a cyclic redundancy check whose
  polynomial has its top bit set changes whenever a single byte of the data does.
\<close>

section \<open>Cyclic redundancy checks\<close>

definition crc_bit :: "'a::len word \<Rightarrow> 'a word \<Rightarrow> 'a word" where
  "crc_bit poly c = (if bit c 0 then xor (drop_bit 1 c) poly else drop_bit 1 c)"

definition crc_byte :: "'a::len word \<Rightarrow> 'a word \<Rightarrow> byte \<Rightarrow> 'a word" where
  "crc_byte poly c b = (crc_bit poly ^^ 8) (xor c (ucast b))"

text \<open>\<^verbatim>\<open>crc32.Update(crc, tab, p)\<close>: complemented before and after.\<close>

definition crc_Update :: "'a::len word \<Rightarrow> 'a word \<Rightarrow> byte list \<Rightarrow> 'a word" where
  "crc_Update poly c p = not (foldl (crc_byte poly) (not c) p)"

definition IEEE :: "32 word" where "IEEE = 0xedb88320"
definition Castagnoli :: "32 word" where "Castagnoli = 0x82f63b78"
definition ECMA :: "64 word" where "ECMA = 0xC96C5795D7870F42"

definition ChecksumIEEE :: "byte list \<Rightarrow> 32 word" where
  "ChecksumIEEE data = crc_Update IEEE 0 data"

text \<open>\<^verbatim>\<open>%08x\<close> and \<^verbatim>\<open>%016x\<close> of a value that fits, and the bytes of \<^verbatim>\<open>Sum\<close>, most significant first.\<close>

fun hex_width :: "nat \<Rightarrow> nat \<Rightarrow> string" where
  "hex_width 0 v = []"
| "hex_width (Suc n) v = hex_width n (v div 16) @ [hex_digit (v mod 16)]"

fun be_bytes :: "nat \<Rightarrow> nat \<Rightarrow> byte list" where
  "be_bytes 0 v = []"
| "be_bytes (Suc n) v = be_bytes n (v div 256) @ [of_nat (v mod 256)]"

text \<open>\<^verbatim>\<open>ComputeChecksum\<close> of \<^verbatim>\<open>store.go\<close>.\<close>

definition store_ComputeChecksum :: "(byte list \<Rightarrow> byte list) \<Rightarrow> byte list \<Rightarrow> string \<Rightarrow> string" where
  "store_ComputeChecksum sha data checksumType =
     (if checksumType = ''CRC32C'' then hex_width 8 (unat (crc_Update Castagnoli 0 data))
      else if checksumType = ''SHA256'' then EncodeToString (sha data)
      else hex_width 8 (unat (ChecksumIEEE data)))"

section \<open>Streaming hashes\<close>

datatype hasher = HCrc32 "32 word" "32 word" | HCrc64 "64 word" "64 word" | HSha "byte list"

fun hasher_Write :: "hasher \<Rightarrow> byte list \<Rightarrow> hasher" where
  "hasher_Write (HCrc32 poly c) p = HCrc32 poly (crc_Update poly c p)"
| "hasher_Write (HCrc64 poly c) p = HCrc64 poly (crc_Update poly c p)"
| "hasher_Write (HSha d) p = HSha (d @ p)"

fun hasher_Sum :: "(byte list \<Rightarrow> byte list) \<Rightarrow> hasher \<Rightarrow> byte list" where
  "hasher_Sum sha (HCrc32 poly c) = be_bytes 4 (unat c)"
| "hasher_Sum sha (HCrc64 poly c) = be_bytes 8 (unat c)"
| "hasher_Sum sha (HSha d) = sha d"

section \<open>Lemmas\<close>

lemma crc_Update_append: "crc_Update poly c (p @ q) = crc_Update poly (crc_Update poly c p) q"
  by (simp add: crc_Update_def)

lemma crc_Update_Nil [simp]: "crc_Update poly c [] = c"
  by (simp add: crc_Update_def)

lemma hasher_Write_Nil [simp]: "hasher_Write h [] = h"
  by (cases h) simp_all

lemma hasher_Write_append: "hasher_Write h (p @ q) = hasher_Write (hasher_Write h p) q"
  by (cases h) (simp_all add: crc_Update_append)

lemma hasher_Write_concat: "foldl hasher_Write h ps = hasher_Write h (concat ps)"
  by (induction ps arbitrary: h) (simp_all add: hasher_Write_append)

lemma hex_be_bytes: "EncodeToString (be_bytes n v) = hex_width (2 * n) v"
proof (induction n arbitrary: v)
  case (Suc n)
  have "EncodeToString (xs @ [b]) = EncodeToString xs @ [hex_digit (unat b div 16), hex_digit (unat b mod 16)]"
    for xs b by (simp add: EncodeToString_def)
  moreover have "unat (of_nat (v mod 256) :: byte) = v mod 256"
    by (simp add: unat_of_nat)
  moreover have "v mod 256 div 16 = v div 16 mod 16" "v mod 256 mod 16 = v mod 16" "v div 16 div 16 = v div 256"
    using mod_mult2_eq [of v 16 16] div_mult2_eq [of v 16 16] by simp_all
  ultimately show ?case using Suc.IH [of "v div 256"] by simp
qed (simp add: EncodeToString_def)

lemma hex_digit_inj: "i < 16 \<Longrightarrow> j < 16 \<Longrightarrow> hex_digit i = hex_digit j \<Longrightarrow> i = j"
  by (auto simp: hex_digit_def char_of_eq_iff take_bit_nat_eq_self split: if_splits)

lemma hex_width_inj: "v < 16 ^ n \<Longrightarrow> w < 16 ^ n \<Longrightarrow> hex_width n v = hex_width n w \<Longrightarrow> v = w"
proof (induction n arbitrary: v w)
  case (Suc n)
  then have "v div 16 = w div 16" "v mod 16 = w mod 16"
    by (auto intro: Suc.IH hex_digit_inj simp: less_mult_imp_div_less mult.commute)
  then show ?case by (metis div_mult_mod_eq)
qed simp

text \<open>Polynomial division by a polynomial with its top bit set can be undone.\<close>

lemma bit_crc_bit_top:
  fixes poly :: "'a::len word"
  assumes "bit poly (LENGTH('a) - 1)"
  shows "bit (crc_bit poly c) (LENGTH('a) - 1) = bit c 0"
  using assms by (simp add: crc_bit_def bit_simps)

lemma xor_cancel: "xor (c :: 'a::len word) b = xor d b \<longleftrightarrow> c = d" "xor b c = xor b d \<longleftrightarrow> c = d"
  by (auto simp: bit_eq_iff bit_simps)

lemma crc_bit_inj:
  fixes poly :: "'a::len word"
  assumes "bit poly (LENGTH('a) - 1)"
  shows "inj (crc_bit poly)"
proof (rule injI)
  fix c d assume e: "crc_bit poly c = crc_bit poly d"
  then have z: "bit c 0 = bit d 0" using bit_crc_bit_top [OF assms] by metis
  then have "drop_bit 1 c = drop_bit 1 d" using e
    by (auto simp: crc_bit_def xor_cancel split: if_splits)
  then have "bit c (Suc n) = bit d (Suc n)" for n
    by (metis bit_drop_bit_eq comp_apply plus_1_eq_Suc)
  with z show "c = d" by (intro bit_eqI) (metis not0_implies_Suc)
qed

lemma crc_byte_inj:
  fixes poly :: "'a::len word"
  assumes "bit poly (LENGTH('a) - 1)" "crc_byte poly c b = crc_byte poly d b'"
  shows "xor c (ucast b) = xor d (ucast b')"
proof -
  have "inj (crc_bit poly ^^ 8)" by (rule inj_fn) (rule crc_bit_inj [OF assms(1)])
  then show ?thesis using assms(2) by (simp add: crc_byte_def inj_eq)
qed

lemma crc_fold_inj:
  fixes poly :: "'a::len word"
  assumes "bit poly (LENGTH('a) - 1)"
  shows "foldl (crc_byte poly) c p = foldl (crc_byte poly) d p \<Longrightarrow> c = d"
proof (induction p rule: rev_induct)
  case (snoc b p)
  then have "crc_byte poly (foldl (crc_byte poly) c p) b = crc_byte poly (foldl (crc_byte poly) d p) b" by simp
  from crc_byte_inj [OF assms this] show ?case using snoc.IH by (simp add: xor_cancel)
qed simp

lemma crc_detects_byte:
  fixes poly :: "'a::len word"
  assumes "bit poly (LENGTH('a) - 1)" "8 \<le> LENGTH('a)" "b \<noteq> b'"
  shows "crc_Update poly c (p @ b # q) \<noteq> crc_Update poly c (p @ b' # q)"
proof
  let ?s = "foldl (crc_byte poly) (not c) p"
  assume "crc_Update poly c (p @ b # q) = crc_Update poly c (p @ b' # q)"
  then have "foldl (crc_byte poly) (crc_byte poly ?s b) q = foldl (crc_byte poly) (crc_byte poly ?s b') q"
    by (simp add: crc_Update_def)
  then have "crc_byte poly ?s b = crc_byte poly ?s b'" by (rule crc_fold_inj [OF assms(1)])
  then have "(ucast b :: 'a word) = ucast b'" by (metis crc_byte_inj [OF assms(1)] xor_cancel(2))
  then have "bit (ucast b :: 'a word) n = bit (ucast b' :: 'a word) n" for n by simp
  then have "bit b n = bit b' n" if "n < 8" for n
    using that assms(2) by (simp add: bit_simps) (meson order_less_le_trans)
  then have "b = b'" by (intro bit_word_eqI) simp
  with assms(3) show False ..
qed

lemma crc_top_bits: "bit IEEE 31" "bit Castagnoli 31" "bit ECMA 63"
  by (simp_all add: IEEE_def Castagnoli_def ECMA_def bit_numeral_rec)

end
