(* ===== verification/Meta_Store.thy ===== *)
theory Meta_Store
  imports Bolt Checksum
begin

text \<open>
  The metadata store, \<^verbatim>\<open>internal/metadata/store.go\<close>: buckets, objects, object versions,
  multipart and resumable uploads in BoltDB, the per-bucket counters and quotas, the in-memory
  statistics and the buffered write-ahead log. The database is the argument \<open>B\<close> of the theory
  \<open>Bolt\<close>; each operation holds the store's mutex, so it is one state transformer.

  A stored document is represented by the Go value it encodes; each database bucket only ever
  holds documents of its own kind, and \<open>MInvalid\<close> is a byte sequence that is not JSON. The readings
  of the clock (\<open>clk i\<close> is the \<open>i\<close>-th) and the new UUID are arguments, and so is \<open>J\<close>, the bytes
  that encode a document, of which the log keeps a checksum. An operation that changes the
  struct it is given a pointer to also returns it.
\<close>

section \<open>Documents\<close>

record ObjectMetadata =
  om_Key :: string
  om_Bucket :: string
  om_Size :: int
  om_ContentType :: string
  om_ContentEncoding :: string
  om_ETag :: string
  om_Checksum :: string
  om_ChecksumType :: string
  om_UserMetadata :: "string \<rightharpoonup> string"
  om_StorageTier :: int
  om_CreatedAt :: gotime
  om_ModifiedAt :: gotime
  om_AccessCount :: int
  om_LastAccessedAt :: gotime
  om_Encrypted :: bool
  om_EncryptedDEK :: "byte list"
  om_Vectorized :: bool
  om_VectorID :: string
  om_VersionID :: string
  om_IsLatest :: bool
  om_PreviousVersion :: string
  om_ObjectStatus :: string
  om_TieringLocked :: bool
  om_LockedTier :: int
  om_PipelineResults :: "string \<rightharpoonup> string"
  om_DeleteMarker :: bool
  om_RetainUntil :: "gotime option"
  om_SSECUsed :: bool
  om_SSECKeySHA256 :: string
  om_SSECAlgorithm :: string

text \<open>\<^verbatim>\<open>WarnThreshold\<close>: a finite float, or \<^const>\<open>None\<close> for one that JSON cannot express.\<close>

record QuotaConfig =
  qc_MaxObjects :: int
  qc_MaxSizeBytes :: int
  qc_WarnThreshold :: "rat option"

record CORSConfiguration =
  cors_AllowedOrigins :: "string list"
  cors_AllowedMethods :: "string list"
  cors_AllowedHeaders :: "string list"
  cors_MaxAgeSeconds :: int

record ExpirationRule =
  exp_Days :: int
  exp_Date :: "gotime option"
  exp_ExpiredObjectDeleteMarker :: bool

record TransitionRule =
  tr_Days :: int
  tr_StorageClass :: int

record LifecycleRule =
  lc_Enabled :: bool
  lc_Prefix :: string
  lc_Expiration :: "ExpirationRule option"
  lc_Transitions :: "TransitionRule list"

record BucketEncryption =
  be_Algorithm :: string
  be_KMSKeyID :: string

record ObjectLockConfig =
  ol_Enabled :: bool
  ol_Mode :: string
  ol_Days :: int

text \<open>The values of \<^verbatim>\<open>map[string]any\<close> that a policy document decodes to.\<close>

datatype json_any =
    JNull | JBool bool | JNumber rat | JString string | JArray "json_any list"
  | JObject "(string \<times> json_any) list"

record BucketInfo =
  bi_Name :: string
  bi_CreatedAt :: gotime
  bi_OwnerID :: string
  bi_OwnerName :: string
  bi_Region :: string
  bi_ACL :: string
  bi_Quota :: "QuotaConfig option"
  bi_Policy :: "(string \<times> json_any) list"
  bi_Tags :: "string \<rightharpoonup> string"
  bi_CORS :: "CORSConfiguration option"
  bi_Lifecycle :: "LifecycleRule option"
  bi_Encryption :: "BucketEncryption option"
  bi_ObjectCount :: int
  bi_TotalSize :: int
  bi_Versioning :: bool
  bi_LoggingEnabled :: bool
  bi_ObjectLock :: "ObjectLockConfig option"
  bi_StorageClass :: string

record UploadPart =
  up_PartNumber :: int
  up_ETag :: string
  up_Size :: int
  up_Checksum :: string
  up_UploadedAt :: gotime
  up_ChecksumType :: string

record MultipartUpload =
  mu_UploadID :: string
  mu_Bucket :: string
  mu_Key :: string
  mu_Initiated :: gotime
  mu_ExpiresAt :: gotime
  mu_UserID :: string
  mu_ContentType :: string
  mu_Metadata :: "string \<rightharpoonup> string"
  mu_Parts :: "UploadPart list"
  mu_TotalSize :: int
  mu_Encrypted :: bool
  mu_Checksum :: string

record ResumableSession =
  rs_UploadID :: string
  rs_Bucket :: string
  rs_Key :: string
  rs_Offset :: int
  rs_TotalSize :: int
  rs_ContentType :: string
  rs_Metadata :: "string \<rightharpoonup> string"
  rs_CreatedAt :: gotime
  rs_ExpiresAt :: gotime
  rs_Checksum :: string
  rs_Finalized :: bool

datatype meta_doc =
    MObject ObjectMetadata | MBucket BucketInfo | MUpload MultipartUpload | MPart UploadPart
  | MSession ResumableSession | MInvalid string

section \<open>Encoding\<close>

definition json_opt_time :: "gotime option \<Rightarrow> bool" where
  "json_opt_time t \<longleftrightarrow> (case t of None \<Rightarrow> True | Some u \<Rightarrow> json_time u)"

definition marshal_object :: "ObjectMetadata \<Rightarrow> meta_doc result" where
  "marshal_object m =
     (if json_time (om_CreatedAt m) \<and> json_time (om_ModifiedAt m) \<and> json_time (om_LastAccessedAt m) \<and>
         json_opt_time (om_RetainUntil m)
      then Inr (MObject m) else Inl json_time_error)"

definition json_float_error :: go_err where
  "json_float_error = Err ''json: unsupported value''"

definition marshal_bucket :: "BucketInfo \<Rightarrow> meta_doc result" where
  "marshal_bucket i =
     (if \<not> json_time (bi_CreatedAt i) then Inl json_time_error
      else if (case bi_Quota i of None \<Rightarrow> False | Some q \<Rightarrow> qc_WarnThreshold q = None) then Inl json_float_error
      else if (case bi_Lifecycle i of None \<Rightarrow> True | Some l \<Rightarrow>
                (case lc_Expiration l of None \<Rightarrow> True | Some x \<Rightarrow> json_opt_time (exp_Date x)))
           then Inr (MBucket i) else Inl json_time_error)"

definition marshal_part :: "UploadPart \<Rightarrow> meta_doc result" where
  "marshal_part p = (if json_time (up_UploadedAt p) then Inr (MPart p) else Inl json_time_error)"

definition marshal_upload :: "MultipartUpload \<Rightarrow> meta_doc result" where
  "marshal_upload u =
     (if json_time (mu_Initiated u) \<and> json_time (mu_ExpiresAt u) \<and>
         list_all (\<lambda>p. json_time (up_UploadedAt p)) (mu_Parts u)
      then Inr (MUpload u) else Inl json_time_error)"

definition marshal_session :: "ResumableSession \<Rightarrow> meta_doc result" where
  "marshal_session s =
     (if json_time (rs_CreatedAt s) \<and> json_time (rs_ExpiresAt s) then Inr (MSession s)
      else Inl json_time_error)"

definition json_kind_error :: go_err where
  "json_kind_error = Err ''json: cannot unmarshal value''"

fun as_object :: "meta_doc \<Rightarrow> ObjectMetadata result" where
  "as_object (MObject m) = Inr m"
| "as_object (MInvalid e) = Inl (Err e)"
| "as_object _ = Inl json_kind_error"

fun as_bucket :: "meta_doc \<Rightarrow> BucketInfo result" where
  "as_bucket (MBucket i) = Inr i"
| "as_bucket (MInvalid e) = Inl (Err e)"
| "as_bucket _ = Inl json_kind_error"

fun as_upload :: "meta_doc \<Rightarrow> MultipartUpload result" where
  "as_upload (MUpload u) = Inr u"
| "as_upload (MInvalid e) = Inl (Err e)"
| "as_upload _ = Inl json_kind_error"

fun as_part :: "meta_doc \<Rightarrow> UploadPart result" where
  "as_part (MPart p) = Inr p"
| "as_part (MInvalid e) = Inl (Err e)"
| "as_part _ = Inl json_kind_error"

fun as_session :: "meta_doc \<Rightarrow> ResumableSession result" where
  "as_session (MSession s) = Inr s"
| "as_session (MInvalid e) = Inl (Err e)"
| "as_session _ = Inl json_kind_error"

text \<open>The decoded documents of a scan; those that do not decode are skipped.\<close>

definition decoded :: "(meta_doc \<Rightarrow> 'a result) \<Rightarrow> (string \<times> meta_doc) list \<Rightarrow> 'a list" where
  "decoded dec kvs = List.map_filter (\<lambda>kv. case dec (snd kv) of Inl _ \<Rightarrow> None | Inr x \<Rightarrow> Some x) kvs"

section \<open>The store\<close>

definition ErrKeyNotFound :: go_err where "ErrKeyNotFound = Err ''key not found''"
definition ErrBucketNotFound :: go_err where "ErrBucketNotFound = Err ''bucket not found''"
definition ErrBucketAlreadyExists :: string where "ErrBucketAlreadyExists = ''bucket already exists''"
definition ErrInvalidKey :: go_err where "ErrInvalidKey = Err ''invalid key''"
definition ErrQuotaExceeded :: go_err where "ErrQuotaExceeded = Err ''quota exceeded''"
definition ErrVersionNotFound :: go_err where "ErrVersionNotFound = Err ''version not found''"

record WALEntry =
  wal_Type :: string
  wal_Bucket :: string
  wal_Key :: string
  wal_Data :: meta_doc
  wal_Timestamp :: gotime
  wal_Checksum :: "32 word"

record MetadataStats =
  mst_ObjectCount :: int
  mst_BucketCount :: int
  mst_TotalSize :: int
  mst_UploadCount :: int
  mst_WALEntries :: int
  mst_LastCompaction :: gotime

text \<open>
  \<open>md_walFile\<close> is what has been appended to the log file: each batch of entries, with the number
  of its bytes that reached the file where a write stopped short.
\<close>

record 'db MetaStore =
  md_db :: 'db
  md_path :: string
  md_walPath :: string
  md_walBuf :: "WALEntry list"
  md_walFile :: "(WALEntry list \<times> nat option) list"
  md_syncedUp :: int
  md_stats :: MetadataStats

definition bktBuckets :: string where "bktBuckets = ''buckets''"
definition bktObjects :: string where "bktObjects = ''objects''"
definition bktVersions :: string where "bktVersions = ''object_versions''"
definition bktUploads :: string where "bktUploads = ''uploads''"
definition bktParts :: string where "bktParts = ''upload_parts''"
definition bktResumable :: string where "bktResumable = ''resumable_uploads''"
definition bktObjectIndex :: string where "bktObjectIndex = ''object_index''"

lemmas meta_bucket_defs = bktBuckets_def bktObjects_def bktVersions_def bktUploads_def bktParts_def
  bktResumable_def bktObjectIndex_def

definition meta_buckets :: "string list" where
  "meta_buckets = [bktBuckets, bktObjects, bktVersions, bktUploads, bktParts, ''access_history'', ''vectors'',
     ''pipelines'', bktResumable]"

fun create_buckets :: "('db, 'tx, 'd) bolt_db \<Rightarrow> string list \<Rightarrow> 'tx \<Rightarrow> 'tx result" where
  "create_buckets B [] tx = Inr tx"
| "create_buckets B (name # names) tx =
     (case btx_CreateBucketIfNotExists B tx name of
        Inl e \<Rightarrow> Inl (Err (''failed to create bucket '' @ name @ '': '' @ e))
      | Inr tx' \<Rightarrow> create_buckets B names tx')"

definition create_index_bucket :: "('db, 'tx, 'd) bolt_db \<Rightarrow> string \<Rightarrow> 'tx \<Rightarrow> 'tx result" where
  "create_index_bucket B name tx =
     (case btx_CreateBucketIfNotExists B tx name of
        Inl e \<Rightarrow> Inl (Err (''failed to create '' @ name @ '': '' @ e))
      | Inr tx' \<Rightarrow> Inr tx')"

text \<open>The outcomes of creating the directory and of opening the file are arguments.\<close>

definition NewBoltDBMetadataStore ::
    "('db, 'tx, meta_doc) bolt_db \<Rightarrow> string option \<Rightarrow> string + 'db \<Rightarrow> string \<Rightarrow> 'db MetaStore result" where
  "NewBoltDBMetadataStore B mkdir opened path =
     (case mkdir of
        Some e \<Rightarrow> Inl (Err (''failed to create metadata directory: '' @ e))
      | None \<Rightarrow>
          (case opened of
             Inl e \<Rightarrow> Inl (Err (''failed to open bolt db: '' @ e))
           | Inr db \<Rightarrow>
               (case bolt_Update B db () (\<lambda>u tx.
                       (u, case create_buckets B meta_buckets tx of
                             Inl e \<Rightarrow> Inl e
                           | Inr tx1 \<Rightarrow>
                               (case create_index_bucket B ''bucket_index'' tx1 of
                                  Inl e \<Rightarrow> Inl e
                                | Inr tx2 \<Rightarrow> create_index_bucket B bktObjectIndex tx2))) of
                  (_, _, Inl e) \<Rightarrow> Inl (wrap_err ''failed to initialize buckets'' e)
                | (db', _, Inr _) \<Rightarrow>
                    Inr \<lparr>md_db = db', md_path = path, md_walPath = path @ ''.wal'', md_walBuf = [], md_walFile = [],
                         md_syncedUp = 0,
                         md_stats = \<lparr>mst_ObjectCount = 0, mst_BucketCount = 0, mst_TotalSize = 0,
                           mst_UploadCount = 0, mst_WALEntries = 0, mst_LastCompaction = 0\<rparr>\<rparr>)))"

section \<open>The write-ahead log\<close>

text \<open>What the file system does when a batch is flushed.\<close>

datatype wal_io = WalOk | OpenFails string | WriteFails nat string | SyncFails string

definition flushWAL :: "wal_io \<Rightarrow> 'db MetaStore \<Rightarrow> 'db MetaStore \<times> unit result" where
  "flushWAL io s =
     (if md_walBuf s = [] then (s, Inr ())
      else (case io of
              OpenFails e \<Rightarrow> (s, Inl (Err e))
            | WriteFails n e \<Rightarrow> (s\<lparr>md_walFile := md_walFile s @ [(md_walBuf s, Some n)]\<rparr>, Inl (Err e))
            | SyncFails e \<Rightarrow> (s\<lparr>md_walFile := md_walFile s @ [(md_walBuf s, None)]\<rparr>, Inl (Err e))
            | WalOk \<Rightarrow> (s\<lparr>md_walFile := md_walFile s @ [(md_walBuf s, None)], md_walBuf := [],
                         md_syncedUp := int64 (md_syncedUp s + 1)\<rparr>, Inr ())))"

definition writeWAL ::
    "(meta_doc \<Rightarrow> byte list) \<Rightarrow> wal_io \<Rightarrow> 'db MetaStore \<Rightarrow> WALEntry \<Rightarrow> 'db MetaStore \<times> unit result" where
  "writeWAL J io s entry =
     (let s' = s\<lparr>md_walBuf := md_walBuf s @ [entry\<lparr>wal_Checksum := ChecksumIEEE (J (wal_Data entry))\<rparr>]\<rparr>
      in if length (md_walBuf s') \<ge> 100 then flushWAL io s' else (s', Inr ()))"

definition FlushWAL :: "wal_io \<Rightarrow> 'db MetaStore \<Rightarrow> 'db MetaStore \<times> unit result" where
  "FlushWAL io s = flushWAL io s"

text \<open>\<^verbatim>\<open>Close\<close> joins the two errors.\<close>

definition Close :: "wal_io \<Rightarrow> unit result \<Rightarrow> 'db MetaStore \<Rightarrow> 'db MetaStore \<times> unit result" where
  "Close io db_close s =
     (case flushWAL io s of
        (s', r) \<Rightarrow>
          (s', (case (r, db_close) of
                  (Inr _, c) \<Rightarrow> c
                | (Inl e, Inr _) \<Rightarrow> Inl e
                | (Inl e, Inl e') \<Rightarrow> Inl (Err (err_text e @ [CHR 0x0A] @ err_text e')))))"

section \<open>Keys\<close>

definition slash :: char where "slash = CHR ''/''"

definition objectKey :: "string \<Rightarrow> string \<Rightarrow> string" where
  "objectKey bucket key = bucket @ slash # key"

definition indexKey :: "string \<Rightarrow> string \<Rightarrow> string" where
  "indexKey bucket pfx = bucket @ slash # pfx"

text \<open>\<^verbatim>\<open>"%s/%s/%s"\<close>, the key of a version and of an upload.\<close>

definition versionKey :: "string \<Rightarrow> string \<Rightarrow> string \<Rightarrow> string" where
  "versionKey bucket key versionID = bucket @ slash # key @ slash # versionID"

text \<open>\<^verbatim>\<open>extractPrefix\<close>: the loop looks for the last slash from the end.\<close>

fun last_slash :: "string \<Rightarrow> nat \<Rightarrow> nat option" where
  "last_slash key 0 = None"
| "last_slash key (Suc i) = (if key ! i = slash then Some i else last_slash key i)"

definition extractPrefix :: "string \<Rightarrow> string" where
  "extractPrefix key = (case last_slash key (length key) of None \<Rightarrow> '''' | Some i \<Rightarrow> take (i + 1) key)"

definition bytesHasPrefix :: "string \<Rightarrow> string \<Rightarrow> bool" where
  "bytesHasPrefix b p \<longleftrightarrow> length p \<le> length b \<and> list_all (\<lambda>i. b ! i = p ! i) [0..<length p]"

function index_loop :: "string \<Rightarrow> string \<Rightarrow> nat \<Rightarrow> int" where
  "index_loop s substr i =
     (if int i \<le> int (length s) - int (length substr)
      then (if take (length substr) (drop i s) = substr then int i else index_loop s substr (i + 1))
      else -1)"
  by auto

termination
  by (relation "measure (\<lambda>(s, substr, i). Suc (length s) - i)") auto

declare index_loop.simps [simp del]

definition indexOf :: "string \<Rightarrow> string \<Rightarrow> int" where
  "indexOf s substr = index_loop s substr 0"

section \<open>Objects\<close>

definition add_stats :: "int \<Rightarrow> int \<Rightarrow> int \<Rightarrow> int \<Rightarrow> MetadataStats \<Rightarrow> MetadataStats" where
  "add_stats objects buckets bytes uploads st =
     st\<lparr>mst_ObjectCount := int64 (mst_ObjectCount st + objects), mst_BucketCount := int64 (mst_BucketCount st + buckets),
        mst_TotalSize := int64 (mst_TotalSize st + bytes), mst_UploadCount := int64 (mst_UploadCount st + uploads)\<rparr>"

definition over_quota :: "BucketInfo \<Rightarrow> bool" where
  "over_quota info \<longleftrightarrow>
     (case bi_Quota info of
        None \<Rightarrow> False
      | Some q \<Rightarrow> (qc_MaxObjects q > 0 \<and> bi_ObjectCount info > qc_MaxObjects q) \<or>
                 (qc_MaxSizeBytes q > 0 \<and> bi_TotalSize info > qc_MaxSizeBytes q))"

text \<open>The three parts of the transaction of \<^verbatim>\<open>PutObject\<close>: the object, the index, the counters.\<close>

definition put_index ::
    "('db, 'tx, meta_doc) bolt_db \<Rightarrow> string \<Rightarrow> string \<Rightarrow> meta_doc \<Rightarrow> 'tx \<Rightarrow> 'tx result" where
  "put_index B bucket key data tx =
     (let ikey = indexKey bucket (extractPrefix key)
      in case btx_Get B tx bktObjectIndex ikey of
           None \<Rightarrow> tx_put B bktObjectIndex ikey data tx
         | Some _ \<Rightarrow> Inr tx)"

definition put_info :: "bool \<Rightarrow> int \<Rightarrow> BucketInfo \<Rightarrow> BucketInfo" where
  "put_info objectExists sizeDelta info =
     (let info1 = (if objectExists then info else info\<lparr>bi_ObjectCount := int64 (bi_ObjectCount info + 1)\<rparr>)
      in info1\<lparr>bi_TotalSize := int64 (bi_TotalSize info1 + sizeDelta)\<rparr>)"

definition put_counters ::
    "('db, 'tx, meta_doc) bolt_db \<Rightarrow> string \<Rightarrow> bool \<Rightarrow> int \<Rightarrow> 'tx \<Rightarrow> 'tx result" where
  "put_counters B bucket objectExists sizeDelta tx =
     (case btx_Get B tx bktBuckets bucket of
        None \<Rightarrow> Inr tx
      | Some bucketData \<Rightarrow>
          (case as_bucket bucketData of
             Inl _ \<Rightarrow> Inr tx
           | Inr info0 \<Rightarrow>
               let info = put_info objectExists sizeDelta info0
               in if over_quota info then Inl ErrQuotaExceeded
                  else (case marshal_bucket info of
                          Inl e \<Rightarrow> Inl (wrap_err ''failed to marshal bucket metadata'' e)
                        | Inr newData \<Rightarrow> tx_put B bktBuckets bucket newData tx)))"

definition stored_size :: "meta_doc option \<Rightarrow> int" where
  "stored_size d =
     (case d of None \<Rightarrow> 0 | Some v \<Rightarrow> (case as_object v of Inl _ \<Rightarrow> 0 | Inr m \<Rightarrow> om_Size m))"

definition put_object_tx ::
    "('db, 'tx, meta_doc) bolt_db \<Rightarrow> string \<Rightarrow> string \<Rightarrow> ObjectMetadata \<Rightarrow> meta_doc \<Rightarrow>
     MetadataStats \<Rightarrow> 'tx \<Rightarrow> MetadataStats \<times> 'tx result" where
  "put_object_tx B bucket key metadata data stats tx =
     (let existingData = btx_Get B tx bktObjects (objectKey bucket key);
          objectExists = (existingData \<noteq> None);
          sizeDelta = int64 (om_Size metadata - stored_size existingData)
      in case tx_put B bktObjects (objectKey bucket key) data tx of
           Inl e \<Rightarrow> (stats, Inl e)
         | Inr tx1 \<Rightarrow>
             (case put_index B bucket key data tx1 of
                Inl e \<Rightarrow> (stats, Inl e)
              | Inr tx2 \<Rightarrow>
                  (case put_counters B bucket objectExists sizeDelta tx2 of
                     Inl e \<Rightarrow> (stats, Inl e)
                   | Inr tx3 \<Rightarrow> (add_stats (if objectExists then 0 else 1) 0 sizeDelta 0 stats, Inr tx3))))"

definition stamp_version :: "string \<Rightarrow> (nat \<Rightarrow> gotime) \<Rightarrow> ObjectMetadata \<Rightarrow> ObjectMetadata" where
  "stamp_version uuid clk m =
     (let m1 = (if om_VersionID m = '''' then m\<lparr>om_VersionID := uuid\<rparr> else m);
          m2 = (if IsZero (om_CreatedAt m1) then m1\<lparr>om_CreatedAt := clk 0\<rparr> else m1)
      in m2\<lparr>om_ModifiedAt := clk 1\<rparr>)"

definition PutObject ::
    "('db, 'tx, meta_doc) bolt_db \<Rightarrow> (meta_doc \<Rightarrow> byte list) \<Rightarrow> wal_io \<Rightarrow> string \<Rightarrow> (nat \<Rightarrow> gotime) \<Rightarrow>
     'db MetaStore \<Rightarrow> string \<Rightarrow> string \<Rightarrow> ObjectMetadata \<Rightarrow> 'db MetaStore \<times> ObjectMetadata \<times> unit result" where
  "PutObject B J io uuid clk s bucket key metadata0 =
     (if bucket = '''' \<or> key = '''' then (s, metadata0, Inl ErrInvalidKey)
      else
        let metadata = (stamp_version uuid clk metadata0)\<lparr>om_IsLatest := True\<rparr>
        in case marshal_object metadata of
             Inl e \<Rightarrow> (s, metadata, Inl (wrap_err ''failed to marshal metadata'' e))
           | Inr data \<Rightarrow>
               (case writeWAL J io s \<lparr>wal_Type = ''put_object'', wal_Bucket = bucket, wal_Key = key, wal_Data = data,
                                      wal_Timestamp = 0, wal_Checksum = 0\<rparr> of
                  (s1, Inl e) \<Rightarrow> (s1, metadata, Inl (wrap_err ''failed to write metadata WAL'' e))
                | (s1, Inr _) \<Rightarrow>
                    (case bolt_Update B (md_db s1) (md_stats s1) (put_object_tx B bucket key metadata data) of
                       (db', stats', r) \<Rightarrow> (s1\<lparr>md_db := db', md_stats := stats'\<rparr>, metadata, r))))"

definition GetObject ::
    "('db, 'tx, meta_doc) bolt_db \<Rightarrow> 'db MetaStore \<Rightarrow> string \<Rightarrow> string \<Rightarrow> ObjectMetadata result" where
  "GetObject B s bucket key =
     bolt_View B (md_db s) (\<lambda>tx.
       case btx_Get B tx bktObjects (objectKey bucket key) of
         None \<Rightarrow> Inl ErrKeyNotFound
       | Some data \<Rightarrow> as_object data)"

text \<open>The counters after an object has gone; a failure to decode them leaves them.\<close>

definition delete_info :: "int \<Rightarrow> BucketInfo \<Rightarrow> BucketInfo" where
  "delete_info sz info =
     (let c = int64 (bi_ObjectCount info - 1);
          t = int64 (bi_TotalSize info - sz)
      in info\<lparr>bi_ObjectCount := (if c < 0 then 0 else c), bi_TotalSize := (if t < 0 then 0 else t)\<rparr>)"

definition delete_counters ::
    "('db, 'tx, meta_doc) bolt_db \<Rightarrow> string \<Rightarrow> int \<Rightarrow> 'tx \<Rightarrow> 'tx result" where
  "delete_counters B bucket sz tx =
     (case btx_Get B tx bktBuckets bucket of
        None \<Rightarrow> Inr tx
      | Some bucketData \<Rightarrow>
          (case as_bucket bucketData of
             Inl _ \<Rightarrow> Inr tx
           | Inr info0 \<Rightarrow>
               (case marshal_bucket (delete_info sz info0) of
                  Inl e \<Rightarrow> Inl (wrap_err ''failed to marshal bucket metadata'' e)
                | Inr newData \<Rightarrow> tx_put B bktBuckets bucket newData tx)))"

definition delete_object_tx ::
    "('db, 'tx, meta_doc) bolt_db \<Rightarrow> string \<Rightarrow> string \<Rightarrow> MetadataStats \<Rightarrow> 'tx \<Rightarrow> MetadataStats \<times> 'tx result" where
  "delete_object_tx B bucket key stats tx =
     (case btx_Get B tx bktObjects (objectKey bucket key) of
        None \<Rightarrow> (stats, Inr tx)
      | Some data \<Rightarrow>
          (case (case as_object data of
                   Inl _ \<Rightarrow> Inr tx
                 | Inr metadata \<Rightarrow> delete_counters B bucket (om_Size metadata) tx) of
             Inl e \<Rightarrow> (stats, Inl e)
           | Inr tx1 \<Rightarrow>
               (case tx_delete B bktObjects (objectKey bucket key) tx1 of
                  Inl e \<Rightarrow> (stats, Inl e)
                | Inr tx2 \<Rightarrow>
                    (case tx_delete_all B bktVersions
                            (map fst (prefix_scan B tx2 bktVersions (objectKey bucket key @ [slash]))) tx2 of
                       Inl e \<Rightarrow> (stats, Inl e)
                     | Inr tx3 \<Rightarrow> (add_stats (-1) 0 (- stored_size (Some data)) 0 stats, Inr tx3)))))"

definition DeleteObject ::
    "('db, 'tx, meta_doc) bolt_db \<Rightarrow> 'db MetaStore \<Rightarrow> string \<Rightarrow> string \<Rightarrow> 'db MetaStore \<times> unit result" where
  "DeleteObject B s bucket key =
     (case bolt_Update B (md_db s) (md_stats s) (delete_object_tx B bucket key) of
        (db', stats', r) \<Rightarrow> (s\<lparr>md_db := db', md_stats := stats'\<rparr>, r))"

section \<open>Listing objects\<close>

definition listed :: "ObjectMetadata \<Rightarrow> bool" where
  "listed m \<longleftrightarrow> om_IsLatest m \<and> \<not> om_DeleteMarker m"

fun list_loop :: "int \<Rightarrow> string \<Rightarrow> (string \<times> meta_doc) list \<Rightarrow> int \<Rightarrow> ObjectMetadata list" where
  "list_loop maxKeys searchPrefix [] count = []"
| "list_loop maxKeys searchPrefix ((k, v) # rest) count =
     (if \<not> count < maxKeys then []
      else if \<not> HasPrefix k searchPrefix then []
      else (case as_object v of
              Inr metadata \<Rightarrow>
                (if listed metadata then metadata # list_loop maxKeys searchPrefix rest (count + 1)
                 else list_loop maxKeys searchPrefix rest count)
            | Inl _ \<Rightarrow> list_loop maxKeys searchPrefix rest count))"

definition ListObjects ::
    "('db, 'tx, meta_doc) bolt_db \<Rightarrow> 'db MetaStore \<Rightarrow> string \<Rightarrow> string \<Rightarrow> int \<Rightarrow> ObjectMetadata list result" where
  "ListObjects B s bucket pfx maxKeys =
     bolt_View B (md_db s) (\<lambda>tx.
       Inr (list_loop maxKeys (objectKey bucket pfx) (cursor_seek B tx bktObjects (objectKey bucket pfx)) 0))"

record ListResult =
  lr_Objects :: "ObjectMetadata list"
  lr_CommonPrefixes :: "string list"
  lr_IsTruncated :: bool
  lr_NextMarker :: string

text \<open>
  The loop of \<^verbatim>\<open>ListObjectsWithDelimiter\<close>; \<open>objectKey[len(prefix):]\<close> panics when the slice is too
  short. The set of seen prefixes is the set of the collected ones.
\<close>

definition slice_panic :: go_err where
  "slice_panic = Panic ''slice bounds out of range''"

type_synonym listing = "ObjectMetadata list \<times> string list \<times> int"

definition delim_entry :: "string \<Rightarrow> string \<Rightarrow> string \<Rightarrow> string \<Rightarrow> meta_doc \<Rightarrow> listing \<Rightarrow> listing result" where
  "delim_entry searchPrefix pfx delimiter k v acc =
     (case acc of (objs, cps, count) \<Rightarrow>
        let okey = drop (length searchPrefix) k
        in if length okey < length pfx then Inl slice_panic
           else
             let remainder = drop (length pfx) okey;
                 delimiterIdx = (if delimiter \<noteq> '''' then indexOf remainder delimiter else -1)
             in if delimiterIdx \<ge> 0 then
                  let commonPrefix = pfx @ take (nat delimiterIdx + length delimiter) remainder
                  in Inr (objs, (if commonPrefix \<in> set cps then cps else cps @ [commonPrefix]), count)
                else (case as_object v of
                        Inr metadata \<Rightarrow>
                          Inr (if listed metadata then (objs @ [metadata], cps, count + 1) else (objs, cps, count))
                      | Inl _ \<Rightarrow> Inr (objs, cps, count)))"

fun delim_loop ::
    "int \<Rightarrow> string \<Rightarrow> string \<Rightarrow> string \<Rightarrow> (string \<times> meta_doc) list \<Rightarrow> listing \<Rightarrow> listing result" where
  "delim_loop maxKeys searchPrefix pfx delimiter [] acc = Inr acc"
| "delim_loop maxKeys searchPrefix pfx delimiter ((k, v) # rest) acc =
     (if \<not> snd (snd acc) < maxKeys then Inr acc
      else if \<not> HasPrefix k searchPrefix then Inr acc
      else (case delim_entry searchPrefix pfx delimiter k v acc of
              Inl e \<Rightarrow> Inl e
            | Inr acc' \<Rightarrow> delim_loop maxKeys searchPrefix pfx delimiter rest acc'))"

definition ListObjectsWithDelimiter ::
    "('db, 'tx, meta_doc) bolt_db \<Rightarrow> 'db MetaStore \<Rightarrow> string \<Rightarrow> string \<Rightarrow> string \<Rightarrow> int \<Rightarrow> ListResult result" where
  "ListObjectsWithDelimiter B s bucket pfx delimiter maxKeys =
     bolt_View B (md_db s) (\<lambda>tx.
       case delim_loop maxKeys (objectKey bucket pfx) pfx delimiter
              (cursor_seek B tx bktObjects (objectKey bucket pfx)) ([], [], 0) of
         Inl e \<Rightarrow> Inl e
       | Inr (objs, cps, count) \<Rightarrow>
           Inr \<lparr>lr_Objects = objs, lr_CommonPrefixes = cps, lr_IsTruncated = (count = maxKeys),
                lr_NextMarker = (if count = maxKeys \<and> objs \<noteq> [] then om_Key (last objs) else '''')\<rparr>)"

section \<open>Buckets\<close>

definition zero_bucket :: BucketInfo where
  "zero_bucket = \<lparr>bi_Name = '''', bi_CreatedAt = 0, bi_OwnerID = '''', bi_OwnerName = '''', bi_Region = '''',
     bi_ACL = '''', bi_Quota = None, bi_Policy = [], bi_Tags = Map.empty, bi_CORS = None, bi_Lifecycle = None,
     bi_Encryption = None, bi_ObjectCount = 0, bi_TotalSize = 0, bi_Versioning = False, bi_LoggingEnabled = False,
     bi_ObjectLock = None, bi_StorageClass = ''''\<rparr>"

definition create_bucket_tx ::
    "('db, 'tx, meta_doc) bolt_db \<Rightarrow> string \<Rightarrow> meta_doc \<Rightarrow> MetadataStats \<Rightarrow> 'tx \<Rightarrow> MetadataStats \<times> 'tx result" where
  "create_bucket_tx B bucket data stats tx =
     (if btx_Get B tx bktBuckets bucket \<noteq> None
      then (stats, Inl (Err (ErrBucketAlreadyExists @ '': '' @ bucket)))
      else (case tx_put B bktBuckets bucket data tx of
              Inl e \<Rightarrow> (stats, Inl e)
            | Inr tx1 \<Rightarrow> (add_stats 0 1 0 0 stats, Inr tx1)))"

definition CreateBucket ::
    "('db, 'tx, meta_doc) bolt_db \<Rightarrow> gotime \<Rightarrow> 'db MetaStore \<Rightarrow> string \<Rightarrow> BucketInfo option \<Rightarrow>
     'db MetaStore \<times> BucketInfo option \<times> unit result" where
  "CreateBucket B now s bucket info0 =
     (if bucket = '''' then (s, info0, Inl ErrInvalidKey)
      else
        let info = (case info0 of None \<Rightarrow> zero_bucket\<lparr>bi_CreatedAt := now\<rparr> | Some i \<Rightarrow> i)\<lparr>bi_Name := bucket\<rparr>;
            info' = (case info0 of None \<Rightarrow> None | Some _ \<Rightarrow> Some info)
        in case marshal_bucket info of
             Inl e \<Rightarrow> (s, info', Inl (wrap_err ''failed to marshal bucket info'' e))
           | Inr data \<Rightarrow>
               (case bolt_Update B (md_db s) (md_stats s) (create_bucket_tx B bucket data) of
                  (db', stats', r) \<Rightarrow> (s\<lparr>md_db := db', md_stats := stats'\<rparr>, info', r)))"

definition GetBucket ::
    "('db, 'tx, meta_doc) bolt_db \<Rightarrow> 'db MetaStore \<Rightarrow> string \<Rightarrow> BucketInfo result" where
  "GetBucket B s bucket =
     bolt_View B (md_db s) (\<lambda>tx.
       case btx_Get B tx bktBuckets bucket of None \<Rightarrow> Inl ErrBucketNotFound | Some data \<Rightarrow> as_bucket data)"

text \<open>The keys of a database bucket that lie in a storage bucket.\<close>

definition keys_under :: "('db, 'tx, meta_doc) bolt_db \<Rightarrow> string \<Rightarrow> string \<Rightarrow> 'tx \<Rightarrow> (string \<times> meta_doc) list" where
  "keys_under B bk pfx tx = filter (\<lambda>kv. bytesHasPrefix (fst kv) pfx) (btx_Entries B tx bk)"

fun delete_parts_of ::
    "('db, 'tx, meta_doc) bolt_db \<Rightarrow> string list \<Rightarrow> 'tx \<Rightarrow> 'tx result" where
  "delete_parts_of B [] tx = Inr tx"
| "delete_parts_of B (uploadID # ids) tx =
     (case tx_delete_all B bktParts (map fst (prefix_scan B tx bktParts (uploadID @ [slash]))) tx of
        Inl e \<Rightarrow> Inl e
      | Inr tx' \<Rightarrow> delete_parts_of B ids tx')"

definition upload_ids :: "(string \<times> meta_doc) list \<Rightarrow> string list" where
  "upload_ids kvs = filter (\<lambda>i. i \<noteq> '''') (map mu_UploadID (decoded as_upload kvs))"

definition session_keys :: "string \<Rightarrow> (string \<times> meta_doc) list \<Rightarrow> string list" where
  "session_keys bucket kvs =
     map fst (filter (\<lambda>kv. case as_session (snd kv) of Inl _ \<Rightarrow> False | Inr session \<Rightarrow> rs_Bucket session = bucket) kvs)"

text \<open>
  The transaction deletes in turn objects, versions, uploads, their parts and sessions; the
  number of uploads is kept for the statistics.
\<close>

definition delete_uploads_tx ::
    "('db, 'tx, meta_doc) bolt_db \<Rightarrow> string \<Rightarrow> 'tx \<Rightarrow> ('tx \<times> nat) result" where
  "delete_uploads_tx B bucket tx =
     (let uploads = keys_under B bktUploads (bucket @ [slash]) tx
      in case tx_delete_all B bktUploads (map fst uploads) tx of
           Inl e \<Rightarrow> Inl e
         | Inr tx1 \<Rightarrow>
             (case delete_parts_of B (upload_ids uploads) tx1 of
                Inl e \<Rightarrow> Inl e
              | Inr tx2 \<Rightarrow> Inr (tx2, length uploads)))"

definition delete_contents ::
    "('db, 'tx, meta_doc) bolt_db \<Rightarrow> string \<Rightarrow> (string \<times> meta_doc) list \<Rightarrow> 'tx \<Rightarrow> ('tx \<times> nat) result" where
  "delete_contents B bucket objects tx =
     (case tx_delete_all B bktObjects (map fst objects) tx of
        Inl e \<Rightarrow> Inl e
      | Inr tx1 \<Rightarrow>
          (case tx_delete_all B bktVersions (map fst (keys_under B bktVersions (bucket @ [slash]) tx1)) tx1 of
             Inl e \<Rightarrow> Inl e
           | Inr tx2 \<Rightarrow>
               (case delete_uploads_tx B bucket tx2 of
                  Inl e \<Rightarrow> Inl e
                | Inr (tx3, n) \<Rightarrow>
                    (case tx_delete_all B bktResumable (session_keys bucket (btx_Entries B tx3 bktResumable)) tx3 of
                       Inl e \<Rightarrow> Inl e
                     | Inr tx4 \<Rightarrow> Inr (tx4, n)))))"

definition delete_bucket_tx ::
    "('db, 'tx, meta_doc) bolt_db \<Rightarrow> string \<Rightarrow> MetadataStats \<Rightarrow> 'tx \<Rightarrow> MetadataStats \<times> 'tx result" where
  "delete_bucket_tx B bucket stats tx =
     (let objects = keys_under B bktObjects (bucket @ [slash]) tx
      in case delete_contents B bucket objects tx of
           Inl e \<Rightarrow> (stats, Inl e)
         | Inr (tx5, uploadCount) \<Rightarrow>
             (case btx_Get B tx5 bktBuckets bucket of
                None \<Rightarrow> (stats, Inr tx5)
              | Some _ \<Rightarrow>
                  (case tx_delete B bktBuckets bucket tx5 of
                     Inl e \<Rightarrow> (stats, Inl e)
                   | Inr tx6 \<Rightarrow>
                       (add_stats (- int (length (decoded as_object objects))) (-1)
                          (- int64 (sum_list (map om_Size (decoded as_object objects))))
                          (- int uploadCount) stats, Inr tx6))))"

definition DeleteBucket ::
    "('db, 'tx, meta_doc) bolt_db \<Rightarrow> 'db MetaStore \<Rightarrow> string \<Rightarrow> 'db MetaStore \<times> unit result" where
  "DeleteBucket B s bucket =
     (case bolt_Update B (md_db s) (md_stats s) (delete_bucket_tx B bucket) of
        (db', stats', r) \<Rightarrow> (s\<lparr>md_db := db', md_stats := stats'\<rparr>, r))"

definition ListBuckets ::
    "('db, 'tx, meta_doc) bolt_db \<Rightarrow> 'db MetaStore \<Rightarrow> BucketInfo list result" where
  "ListBuckets B s = bolt_View B (md_db s) (\<lambda>tx. Inr (decoded as_bucket (btx_Entries B tx bktBuckets)))"

text \<open>The closures that put or delete one key and return.\<close>

definition put_one ::
    "('db, 'tx, meta_doc) bolt_db \<Rightarrow> 'db MetaStore \<Rightarrow> string \<Rightarrow> string \<Rightarrow> meta_doc \<Rightarrow> 'db MetaStore \<times> unit result" where
  "put_one B s bk k data =
     (case bolt_Update B (md_db s) () (\<lambda>u tx. (u, tx_put B bk k data tx)) of (db', _, r) \<Rightarrow> (s\<lparr>md_db := db'\<rparr>, r))"

definition UpdateBucket ::
    "('db, 'tx, meta_doc) bolt_db \<Rightarrow> 'db MetaStore \<Rightarrow> string \<Rightarrow> BucketInfo \<Rightarrow> 'db MetaStore \<times> unit result" where
  "UpdateBucket B s bucket info =
     (case marshal_bucket info of
        Inl e \<Rightarrow> (s, Inl (wrap_err ''failed to marshal bucket info'' e))
      | Inr data \<Rightarrow> put_one B s bktBuckets bucket data)"

section \<open>Versions\<close>

definition PutObjectVersion ::
    "('db, 'tx, meta_doc) bolt_db \<Rightarrow> string \<Rightarrow> (nat \<Rightarrow> gotime) \<Rightarrow> 'db MetaStore \<Rightarrow> string \<Rightarrow> string \<Rightarrow> ObjectMetadata \<Rightarrow>
     'db MetaStore \<times> ObjectMetadata \<times> unit result" where
  "PutObjectVersion B uuid clk s bucket key metadata0 =
     (let metadata = stamp_version uuid clk metadata0
      in case marshal_object metadata of
           Inl e \<Rightarrow> (s, metadata, Inl e)
         | Inr data \<Rightarrow>
             (case put_one B s bktVersions (versionKey bucket key (om_VersionID metadata)) data of
                (s', r) \<Rightarrow> (s', metadata, r)))"

definition GetObjectVersion ::
    "('db, 'tx, meta_doc) bolt_db \<Rightarrow> 'db MetaStore \<Rightarrow> string \<Rightarrow> string \<Rightarrow> string \<Rightarrow> ObjectMetadata result" where
  "GetObjectVersion B s bucket key versionID =
     bolt_View B (md_db s) (\<lambda>tx.
       case btx_Get B tx bktVersions (versionKey bucket key versionID) of
         None \<Rightarrow> Inl ErrVersionNotFound
       | Some data \<Rightarrow> as_object data)"

fun versions_loop :: "int \<Rightarrow> string \<Rightarrow> (string \<times> meta_doc) list \<Rightarrow> int \<Rightarrow> ObjectMetadata list" where
  "versions_loop maxVersions pfx [] count = []"
| "versions_loop maxVersions pfx ((k, v) # rest) count =
     (if \<not> count < maxVersions then []
      else if \<not> HasPrefix k pfx then []
      else (case as_object v of
              Inr metadata \<Rightarrow> metadata # versions_loop maxVersions pfx rest (count + 1)
            | Inl _ \<Rightarrow> versions_loop maxVersions pfx rest count))"

definition ListObjectVersions ::
    "('db, 'tx, meta_doc) bolt_db \<Rightarrow> 'db MetaStore \<Rightarrow> string \<Rightarrow> string \<Rightarrow> int \<Rightarrow> ObjectMetadata list result" where
  "ListObjectVersions B s bucket key maxVersions =
     (let pfx = objectKey bucket key @ [slash]
      in bolt_View B (md_db s) (\<lambda>tx. Inr (versions_loop maxVersions pfx (cursor_seek B tx bktVersions pfx) 0)))"

section \<open>Multipart uploads\<close>

definition stamp_upload :: "string \<Rightarrow> (nat \<Rightarrow> gotime) \<Rightarrow> MultipartUpload \<Rightarrow> MultipartUpload" where
  "stamp_upload uuid clk u =
     (let u1 = (if mu_UploadID u = '''' then u\<lparr>mu_UploadID := uuid\<rparr> else u);
          u2 = (if IsZero (mu_Initiated u1) then u1\<lparr>mu_Initiated := clk 0\<rparr> else u1)
      in if IsZero (mu_ExpiresAt u2) then u2\<lparr>mu_ExpiresAt := clk 1 + 24 * 3600 * 10 ^ 9\<rparr> else u2)"

definition put_upload_tx ::
    "('db, 'tx, meta_doc) bolt_db \<Rightarrow> string \<Rightarrow> meta_doc \<Rightarrow> MetadataStats \<Rightarrow> 'tx \<Rightarrow> MetadataStats \<times> 'tx result" where
  "put_upload_tx B uploadKey data stats tx =
     (let uploadExists = (btx_Get B tx bktUploads uploadKey \<noteq> None)
      in case tx_put B bktUploads uploadKey data tx of
           Inl e \<Rightarrow> (stats, Inl e)
         | Inr tx1 \<Rightarrow> (if uploadExists then stats else add_stats 0 0 0 1 stats, Inr tx1))"

definition PutUpload ::
    "('db, 'tx, meta_doc) bolt_db \<Rightarrow> string \<Rightarrow> (nat \<Rightarrow> gotime) \<Rightarrow> 'db MetaStore \<Rightarrow> MultipartUpload \<Rightarrow>
     'db MetaStore \<times> MultipartUpload \<times> unit result" where
  "PutUpload B uuid clk s upload0 =
     (let upload = stamp_upload uuid clk upload0
      in case marshal_upload upload of
           Inl e \<Rightarrow> (s, upload, Inl e)
         | Inr data \<Rightarrow>
             (case bolt_Update B (md_db s) (md_stats s)
                     (put_upload_tx B (versionKey (mu_Bucket upload) (mu_Key upload) (mu_UploadID upload)) data) of
                (db', stats', r) \<Rightarrow> (s\<lparr>md_db := db', md_stats := stats'\<rparr>, upload, r)))"

definition GetUpload ::
    "('db, 'tx, meta_doc) bolt_db \<Rightarrow> 'db MetaStore \<Rightarrow> string \<Rightarrow> string \<Rightarrow> string \<Rightarrow> MultipartUpload result" where
  "GetUpload B s bucket key uploadID =
     bolt_View B (md_db s) (\<lambda>tx.
       case btx_Get B tx bktUploads (versionKey bucket key uploadID) of
         None \<Rightarrow> Inl ErrKeyNotFound
       | Some data \<Rightarrow> as_upload data)"

definition delete_upload_tx ::
    "('db, 'tx, meta_doc) bolt_db \<Rightarrow> string \<Rightarrow> string \<Rightarrow> MetadataStats \<Rightarrow> 'tx \<Rightarrow> MetadataStats \<times> 'tx result" where
  "delete_upload_tx B uploadKey uploadID stats tx =
     (if btx_Get B tx bktUploads uploadKey = None then (stats, Inr tx)
      else (case tx_delete B bktUploads uploadKey tx of
              Inl e \<Rightarrow> (stats, Inl e)
            | Inr tx1 \<Rightarrow>
                (case tx_delete_all B bktParts (map fst (prefix_scan B tx1 bktParts (uploadID @ [slash]))) tx1 of
                   Inl e \<Rightarrow> (stats, Inl e)
                 | Inr tx2 \<Rightarrow> (add_stats 0 0 0 (-1) stats, Inr tx2))))"

definition DeleteUpload ::
    "('db, 'tx, meta_doc) bolt_db \<Rightarrow> 'db MetaStore \<Rightarrow> string \<Rightarrow> string \<Rightarrow> string \<Rightarrow> 'db MetaStore \<times> unit result" where
  "DeleteUpload B s bucket key uploadID =
     (case bolt_Update B (md_db s) (md_stats s) (delete_upload_tx B (versionKey bucket key uploadID) uploadID) of
        (db', stats', r) \<Rightarrow> (s\<lparr>md_db := db', md_stats := stats'\<rparr>, r))"

definition ListUploads ::
    "('db, 'tx, meta_doc) bolt_db \<Rightarrow> gotime \<Rightarrow> 'db MetaStore \<Rightarrow> string \<Rightarrow> MultipartUpload list result" where
  "ListUploads B now s bucket =
     bolt_View B (md_db s) (\<lambda>tx.
       Inr (filter (\<lambda>u. mu_ExpiresAt u > now) (decoded as_upload (prefix_scan B tx bktUploads (bucket @ [slash])))))"

definition ListExpiredUploads ::
    "('db, 'tx, meta_doc) bolt_db \<Rightarrow> gotime \<Rightarrow> 'db MetaStore \<Rightarrow> MultipartUpload list result" where
  "ListExpiredUploads B now s =
     bolt_View B (md_db s) (\<lambda>tx.
       Inr (filter (\<lambda>u. \<not> mu_ExpiresAt u > now) (decoded as_upload (btx_Entries B tx bktUploads))))"

text \<open>\<^verbatim>\<open>%d\<close> of a part number.\<close>

definition fmt_int :: "int \<Rightarrow> string" where
  "fmt_int n = (if n < 0 then CHR ''-'' # itoa (nat (- n)) else itoa (nat n))"

definition partKey :: "string \<Rightarrow> int \<Rightarrow> string" where
  "partKey uploadID n = uploadID @ slash # fmt_int n"

definition AddPart ::
    "('db, 'tx, meta_doc) bolt_db \<Rightarrow> 'db MetaStore \<Rightarrow> string \<Rightarrow> UploadPart \<Rightarrow> 'db MetaStore \<times> unit result" where
  "AddPart B s uploadID part =
     (case marshal_part part of
        Inl e \<Rightarrow> (s, Inl e)
      | Inr data \<Rightarrow> put_one B s bktParts (partKey uploadID (up_PartNumber part)) data)"

definition GetParts ::
    "('db, 'tx, meta_doc) bolt_db \<Rightarrow> 'db MetaStore \<Rightarrow> string \<Rightarrow> UploadPart list result" where
  "GetParts B s uploadID =
     bolt_View B (md_db s) (\<lambda>tx. Inr (decoded as_part (prefix_scan B tx bktParts (uploadID @ [slash]))))"

section \<open>Resumable sessions, statistics\<close>

definition PutResumableSession ::
    "('db, 'tx, meta_doc) bolt_db \<Rightarrow> 'db MetaStore \<Rightarrow> ResumableSession \<Rightarrow> 'db MetaStore \<times> unit result" where
  "PutResumableSession B s session =
     (case marshal_session session of
        Inl e \<Rightarrow> (s, Inl (wrap_err ''failed to marshal resumable session'' e))
      | Inr data \<Rightarrow> put_one B s bktResumable (rs_UploadID session) data)"

definition GetResumableSession ::
    "('db, 'tx, meta_doc) bolt_db \<Rightarrow> 'db MetaStore \<Rightarrow> string \<Rightarrow> ResumableSession result" where
  "GetResumableSession B s uploadID =
     bolt_View B (md_db s) (\<lambda>tx.
       case btx_Get B tx bktResumable uploadID of None \<Rightarrow> Inl ErrKeyNotFound | Some data \<Rightarrow> as_session data)"

definition DeleteResumableSession ::
    "('db, 'tx, meta_doc) bolt_db \<Rightarrow> 'db MetaStore \<Rightarrow> string \<Rightarrow> 'db MetaStore \<times> unit result" where
  "DeleteResumableSession B s uploadID =
     (case bolt_Update B (md_db s) () (\<lambda>u tx. (u, tx_delete B bktResumable uploadID tx)) of
        (db', _, r) \<Rightarrow> (s\<lparr>md_db := db'\<rparr>, r))"

definition ListExpiredSessions ::
    "('db, 'tx, meta_doc) bolt_db \<Rightarrow> gotime \<Rightarrow> 'db MetaStore \<Rightarrow> ResumableSession list result" where
  "ListExpiredSessions B now s =
     bolt_View B (md_db s) (\<lambda>tx.
       Inr (filter (\<lambda>x. rs_ExpiresAt x < now \<and> \<not> rs_Finalized x) (decoded as_session (btx_Entries B tx bktResumable))))"

definition Meta_GetStats :: "'db MetaStore \<Rightarrow> MetadataStats" where
  "Meta_GetStats s = (md_stats s)\<lparr>mst_WALEntries := md_syncedUp s\<rparr>"

end
