(* ===== verification/Meta_Accounting.thy ===== *)
theory Meta_Accounting
  imports Meta_Store
begin

text \<open>
  What the metadata store keeps: the effect of each transaction on what the database holds, the
  counters of a bucket as an invariant of the reachable stores (they are the number and the total
  size of its objects), quotas, deletion, and listing against a reference definition.
\<close>

section \<open>Keys\<close>

lemma meta_buckets_distinct [simp]:
  "distinct [bktBuckets, bktObjects, bktVersions, bktUploads, bktParts, bktResumable, bktObjectIndex]"
  by (simp add: meta_bucket_defs)

lemma meta_bucket_neqs [simp]:
  "bktBuckets \<noteq> bktObjects" "bktBuckets \<noteq> bktVersions" "bktBuckets \<noteq> bktUploads" "bktBuckets \<noteq> bktParts"
  "bktBuckets \<noteq> bktResumable" "bktBuckets \<noteq> bktObjectIndex" "bktObjects \<noteq> bktBuckets" "bktObjects \<noteq> bktVersions"
  "bktObjects \<noteq> bktUploads" "bktObjects \<noteq> bktParts" "bktObjects \<noteq> bktResumable" "bktObjects \<noteq> bktObjectIndex"
  "bktVersions \<noteq> bktBuckets" "bktVersions \<noteq> bktObjects" "bktVersions \<noteq> bktUploads" "bktVersions \<noteq> bktParts"
  "bktVersions \<noteq> bktResumable" "bktVersions \<noteq> bktObjectIndex" "bktUploads \<noteq> bktBuckets" "bktUploads \<noteq> bktObjects"
  "bktUploads \<noteq> bktVersions" "bktUploads \<noteq> bktParts" "bktUploads \<noteq> bktResumable" "bktUploads \<noteq> bktObjectIndex"
  "bktParts \<noteq> bktBuckets" "bktParts \<noteq> bktObjects" "bktParts \<noteq> bktVersions" "bktParts \<noteq> bktUploads"
  "bktParts \<noteq> bktResumable" "bktParts \<noteq> bktObjectIndex" "bktResumable \<noteq> bktBuckets" "bktResumable \<noteq> bktObjects"
  "bktResumable \<noteq> bktVersions" "bktResumable \<noteq> bktUploads" "bktResumable \<noteq> bktParts" "bktResumable \<noteq> bktObjectIndex"
  "bktObjectIndex \<noteq> bktBuckets" "bktObjectIndex \<noteq> bktObjects" "bktObjectIndex \<noteq> bktVersions"
  by (simp_all add: meta_bucket_defs)

lemma bytesHasPrefix_eq [simp]: "bytesHasPrefix b p = HasPrefix b p"
proof
  assume *: "bytesHasPrefix b p"
  then have "take (length p) b = p"
    by (intro nth_equalityI) (auto simp: bytesHasPrefix_def list_all_iff)
  then show "HasPrefix b p" by (simp add: HasPrefix_def)
next
  assume "HasPrefix b p"
  then obtain q where "b = p @ q" by (auto simp: HasPrefix_prefix prefix_def)
  then show "bytesHasPrefix b p" by (auto simp: bytesHasPrefix_def list_all_iff nth_append)
qed

lemma HasPrefix_bucket: "HasPrefix k (b @ [slash]) \<longleftrightarrow> (\<exists>r. k = b @ slash # r)"
  by (auto simp: HasPrefix_prefix prefix_def)

lemma objectKey_prefix [simp]: "HasPrefix (objectKey b k) (b @ [slash])"
  by (auto simp: HasPrefix_bucket objectKey_def)

text \<open>Names without a slash have disjoint keys.\<close>

lemma bucket_of_key: "slash \<notin> set b \<Longrightarrow> slash \<notin> set b' \<Longrightarrow> b @ slash # r = b' @ slash # r' \<Longrightarrow> b = b' \<and> r = r'"
  by (metis SplitN2_append option.inject prod.inject)

lemma objectKey_inj:
  "slash \<notin> set b \<Longrightarrow> slash \<notin> set b' \<Longrightarrow> objectKey b k = objectKey b' k' \<longleftrightarrow> b = b' \<and> k = k'"
  by (auto simp: objectKey_def dest: bucket_of_key)

lemma objectKey_other_bucket:
  "slash \<notin> set b \<Longrightarrow> slash \<notin> set b' \<Longrightarrow> HasPrefix (objectKey b' k) (b @ [slash]) \<longleftrightarrow> b' = b"
  by (auto simp: HasPrefix_bucket objectKey_def dest: bucket_of_key)

section \<open>The effect of the transactions\<close>

text \<open>\<open>V\<close> is what a transaction or a database holds.\<close>

type_synonym contents = "string \<Rightarrow> string \<rightharpoonup> meta_doc"

abbreviation holds :: "('db, 'tx, meta_doc) bolt_db \<Rightarrow> 'db MetaStore \<Rightarrow> contents" where
  "holds B s \<equiv> db_get B (md_db s)"

lemma marshal_object_Inr: "marshal_object m = Inr d \<Longrightarrow> d = MObject m"
  by (auto simp: marshal_object_def split: if_splits)

lemma marshal_bucket_Inr: "marshal_bucket i = Inr d \<Longrightarrow> d = MBucket i"
  by (auto simp: marshal_bucket_def split: if_splits)

lemma as_bucket_Inr [simp]: "as_bucket d = Inr i \<longleftrightarrow> d = MBucket i"
  by (cases d) auto

lemma as_object_Inr [simp]: "as_object d = Inr m \<longleftrightarrow> d = MObject m"
  by (cases d) auto

text \<open>The record of a bucket after a change of its counters.\<close>

definition recount :: "(BucketInfo \<Rightarrow> BucketInfo) \<Rightarrow> string \<Rightarrow> (string \<rightharpoonup> meta_doc) \<Rightarrow> (string \<rightharpoonup> meta_doc)" where
  "recount f b m = (case m b of Some (MBucket i) \<Rightarrow> m(b \<mapsto> MBucket (f i)) | _ \<Rightarrow> m)"

lemma put_counters_Inr:
  assumes "bolt_db_ok B" "put_counters B b ex d tx = Inr tx'"
  shows "btx_Get B tx' = (btx_Get B tx)(bktBuckets := recount (put_info ex d) b (btx_Get B tx bktBuckets))"
    and "btx_Get B tx bktBuckets b = Some (MBucket i) \<Longrightarrow> \<not> over_quota (put_info ex d i)"
proof -
  have "btx_Get B tx' bk k = ((btx_Get B tx)(bktBuckets := recount (put_info ex d) b (btx_Get B tx bktBuckets))) bk k"
    for bk k
    using assms
    by (auto simp: put_counters_def Let_def recount_def Get_Put [OF assms(1)]
        split: option.splits sum.splits if_splits meta_doc.splits dest!: marshal_bucket_Inr)
  then show "btx_Get B tx' = (btx_Get B tx)(bktBuckets := recount (put_info ex d) b (btx_Get B tx bktBuckets))"
    by blast
  show "\<not> over_quota (put_info ex d i)" if "btx_Get B tx bktBuckets b = Some (MBucket i)"
    using assms(2) that by (auto simp: put_counters_def Let_def split: if_splits)
qed

lemma delete_counters_Inr:
  assumes "bolt_db_ok B" "delete_counters B b sz tx = Inr tx'"
  shows "btx_Get B tx' = (btx_Get B tx)(bktBuckets := recount (delete_info sz) b (btx_Get B tx bktBuckets))"
proof -
  have "btx_Get B tx' bk k = ((btx_Get B tx)(bktBuckets := recount (delete_info sz) b (btx_Get B tx bktBuckets))) bk k"
    for bk k
    using assms
    by (auto simp: delete_counters_def recount_def Get_Put [OF assms(1)]
        split: option.splits sum.splits if_splits meta_doc.splits dest!: marshal_bucket_Inr)
  then show ?thesis by blast
qed

lemma put_index_Inr:
  assumes "bolt_db_ok B" "put_index B b k d tx = Inr tx'" "bk \<noteq> bktObjectIndex"
  shows "btx_Get B tx' bk = btx_Get B tx bk"
  using assms by (auto simp: put_index_def Let_def Get_Put [OF assms(1)] split: option.splits)

lemma put_object_tx_Inr:
  assumes "bolt_db_ok B" "put_object_tx B b k m d st tx = (st', Inr tx')"
  defines "ex \<equiv> btx_Get B tx bktObjects (objectKey b k) \<noteq> None"
    and "delta \<equiv> int64 (om_Size m - stored_size (btx_Get B tx bktObjects (objectKey b k)))"
  shows "btx_Get B tx' bktObjects = (btx_Get B tx bktObjects)(objectKey b k \<mapsto> d)"
    and "btx_Get B tx' bktBuckets = recount (put_info ex delta) b (btx_Get B tx bktBuckets)"
    and "bk \<notin> {bktObjects, bktBuckets, bktObjectIndex} \<Longrightarrow> btx_Get B tx' bk = btx_Get B tx bk"
    and "btx_Get B tx bktBuckets b = Some (MBucket i) \<Longrightarrow> \<not> over_quota (put_info ex delta i)"
    and "st' = add_stats (if ex then 0 else 1) 0 delta 0 st"
proof -
  obtain tx1 tx2 where t: "tx_put B bktObjects (objectKey b k) d tx = Inr tx1" "put_index B b k d tx1 = Inr tx2"
    "put_counters B b ex delta tx2 = Inr tx'" and st: "st' = add_stats (if ex then 0 else 1) 0 delta 0 st"
    using assms(2) by (auto simp: put_object_tx_def Let_def ex_def delta_def split: sum.splits)
  have g1: "btx_Get B tx1 bk' = (btx_Get B tx bk')(objectKey b k := if bk' = bktObjects then Some d else btx_Get B tx bk' (objectKey b k))"
    for bk' using Get_Put [OF assms(1) t(1)] by (intro ext) auto
  have g2: "btx_Get B tx2 bk' = btx_Get B tx1 bk'" if "bk' \<noteq> bktObjectIndex" for bk'
    using put_index_Inr [OF assms(1) t(2) that] .
  note g3 = put_counters_Inr [OF assms(1) t(3)]
  show "btx_Get B tx' bktObjects = (btx_Get B tx bktObjects)(objectKey b k \<mapsto> d)"
    "btx_Get B tx' bktBuckets = recount (put_info ex delta) b (btx_Get B tx bktBuckets)"
    "bk \<notin> {bktObjects, bktBuckets, bktObjectIndex} \<Longrightarrow> btx_Get B tx' bk = btx_Get B tx bk"
    by (auto simp: g3(1) g2 g1)
  show "btx_Get B tx bktBuckets b = Some (MBucket i) \<Longrightarrow> \<not> over_quota (put_info ex delta i)"
    using g3(2) by (simp add: g2 g1)
  show "st' = add_stats (if ex then 0 else 1) 0 delta 0 st" by (rule st)
qed

text \<open>What deleting every key of a scan leaves.\<close>

definition without :: "string \<Rightarrow> (string \<rightharpoonup> meta_doc) \<Rightarrow> (string \<rightharpoonup> meta_doc)" where
  "without p m = (\<lambda>k. if HasPrefix k p then None else m k)"

lemma delete_scan:
  assumes "bolt_db_ok B" "tx_delete_all B bk (map fst (prefix_scan B tx bk p)) tx = Inr tx'"
  shows "btx_Get B tx' = (btx_Get B tx)(bk := without p (btx_Get B tx bk))"
proof -
  have "k \<in> set (map fst (prefix_scan B tx bk p)) \<longleftrightarrow> btx_Get B tx bk k \<noteq> None \<and> HasPrefix k p" for k
    using prefix_scan_mem [OF assms(1), of k _ tx bk p] by force
  then show ?thesis
    by (intro ext) (auto simp: Get_delete_all [OF assms] without_def)
qed

lemma keys_under_scan: "bolt_db_ok B \<Longrightarrow> keys_under B bk p tx = prefix_scan B tx bk p"
  by (simp add: keys_under_def prefix_scan_filter)

lemma delete_object_tx_missing:
  "btx_Get B tx bktObjects (objectKey b k) = None \<Longrightarrow> delete_object_tx B b k st tx = (st, Inr tx)"
  by (simp add: delete_object_tx_def)

lemma delete_object_tx_Inr:
  assumes "bolt_db_ok B" "delete_object_tx B b k st tx = (st', Inr tx')"
    and "btx_Get B tx bktObjects (objectKey b k) = Some (MObject m)"
  shows "btx_Get B tx' = (btx_Get B tx)
    (bktObjects := (btx_Get B tx bktObjects)(objectKey b k := None),
     bktVersions := without (objectKey b k @ [slash]) (btx_Get B tx bktVersions),
     bktBuckets := recount (delete_info (om_Size m)) b (btx_Get B tx bktBuckets))"
    and "st' = add_stats (-1) 0 (- om_Size m) 0 st"
proof -
  obtain tx1 tx2 where t: "delete_counters B b (om_Size m) tx = Inr tx1"
    "tx_delete B bktObjects (objectKey b k) tx1 = Inr tx2"
    "tx_delete_all B bktVersions (map fst (prefix_scan B tx2 bktVersions (objectKey b k @ [slash]))) tx2 = Inr tx'"
    and st: "st' = add_stats (-1) 0 (- om_Size m) 0 st"
    using assms(2,3) by (auto simp: delete_object_tx_def stored_size_def split: sum.splits)
  have g2: "btx_Get B tx2 = (btx_Get B tx1)(bktObjects := (btx_Get B tx1 bktObjects)(objectKey b k := None))"
    by (intro ext) (auto simp: Get_Delete [OF assms(1) t(2)])
  show "btx_Get B tx' = (btx_Get B tx)
    (bktObjects := (btx_Get B tx bktObjects)(objectKey b k := None),
     bktVersions := without (objectKey b k @ [slash]) (btx_Get B tx bktVersions),
     bktBuckets := recount (delete_info (om_Size m)) b (btx_Get B tx bktBuckets))"
    by (simp add: delete_scan [OF assms(1) t(3)] g2 delete_counters_Inr [OF assms(1) t(1)] fun_upd_twist)
  show "st' = add_stats (-1) 0 (- om_Size m) 0 st" by (rule st)
qed

lemma delete_parts_of_get:
  "bolt_db_ok B \<Longrightarrow> delete_parts_of B ids tx = Inr tx' \<Longrightarrow>
   btx_Get B tx' = (btx_Get B tx)(bktParts := (\<lambda>k. if \<exists>i \<in> set ids. HasPrefix k (i @ [slash]) then None else btx_Get B tx bktParts k))"
proof (induction ids arbitrary: tx)
  case (Cons i ids)
  then obtain tx1 where t: "tx_delete_all B bktParts (map fst (prefix_scan B tx bktParts (i @ [slash]))) tx = Inr tx1"
    "delete_parts_of B ids tx1 = Inr tx'" by (auto split: sum.splits)
  show ?case
    by (intro ext) (auto simp: Cons.IH [OF Cons.prems(1) t(2)] delete_scan [OF Cons.prems(1) t(1)] without_def)
qed simp

text \<open>What remains of the resumable sessions.\<close>

definition other_sessions :: "string \<Rightarrow> (string \<rightharpoonup> meta_doc) \<Rightarrow> (string \<rightharpoonup> meta_doc)" where
  "other_sessions b m = (\<lambda>k. case m k of Some (MSession x) \<Rightarrow> if rs_Bucket x = b then None else m k | _ \<Rightarrow> m k)"

lemma as_session_Inr [simp]: "as_session d = Inr x \<longleftrightarrow> d = MSession x"
  by (cases d) auto

lemma session_keys_mem: "k \<in> set (session_keys b kvs) \<longleftrightarrow> (\<exists>x. (k, MSession x) \<in> set kvs \<and> rs_Bucket x = b)"
proof -
  have "(case as_session d of Inl _ \<Rightarrow> False | Inr x \<Rightarrow> rs_Bucket x = b) \<longleftrightarrow> (\<exists>x. d = MSession x \<and> rs_Bucket x = b)" for d
    by (cases d) auto
  then show ?thesis by (force simp: session_keys_def)
qed

lemma delete_sessions:
  assumes "bolt_db_ok B" "tx_delete_all B bktResumable (session_keys b (btx_Entries B tx bktResumable)) tx = Inr tx'"
  shows "btx_Get B tx' = (btx_Get B tx)(bktResumable := other_sessions b (btx_Get B tx bktResumable))"
  by (intro ext) (auto simp: Get_delete_all [OF assms] session_keys_mem Entries_mem [OF assms(1)] other_sessions_def
      split: option.splits meta_doc.splits)

lemma delete_bucket_tx_Inr:
  assumes "bolt_db_ok B" "delete_bucket_tx B b st tx = (st', Inr tx')"
  shows "\<exists>ids. btx_Get B tx' = (btx_Get B tx)
    (bktObjects := without (b @ [slash]) (btx_Get B tx bktObjects),
     bktVersions := without (b @ [slash]) (btx_Get B tx bktVersions),
     bktUploads := without (b @ [slash]) (btx_Get B tx bktUploads),
     bktParts := (\<lambda>k. if \<exists>i \<in> set ids. HasPrefix k (i @ [slash]) then None else btx_Get B tx bktParts k),
     bktResumable := other_sessions b (btx_Get B tx bktResumable),
     bktBuckets := (btx_Get B tx bktBuckets)(b := None)) \<and>
    ids = upload_ids (prefix_scan B tx bktUploads (b @ [slash]))"
proof -
  let ?p = "b @ [slash]"
  obtain tx1 tx2 tx3 tx4 tx5 n where t:
    "tx_delete_all B bktObjects (map fst (keys_under B bktObjects ?p tx)) tx = Inr tx1"
    "tx_delete_all B bktVersions (map fst (keys_under B bktVersions ?p tx1)) tx1 = Inr tx2"
    "tx_delete_all B bktUploads (map fst (keys_under B bktUploads ?p tx2)) tx2 = Inr tx3"
    "delete_parts_of B (upload_ids (keys_under B bktUploads ?p tx2)) tx3 = Inr tx4"
    "tx_delete_all B bktResumable (session_keys b (btx_Entries B tx4 bktResumable)) tx4 = Inr tx5"
    and n: "delete_contents B b (keys_under B bktObjects ?p tx) tx = Inr (tx5, n)"
    using assms(2)
    by (auto simp: delete_bucket_tx_def delete_contents_def delete_uploads_tx_def Let_def split: sum.splits prod.splits)
  note d = delete_scan [OF assms(1)] and s = keys_under_scan [OF assms(1)]
  have g: "btx_Get B tx5 = (btx_Get B tx4)(bktResumable := other_sessions b (btx_Get B tx4 bktResumable))"
    "btx_Get B tx3 = (btx_Get B tx2)(bktUploads := without ?p (btx_Get B tx2 bktUploads))"
    "btx_Get B tx2 = (btx_Get B tx1)(bktVersions := without ?p (btx_Get B tx1 bktVersions))"
    "btx_Get B tx1 = (btx_Get B tx)(bktObjects := without ?p (btx_Get B tx bktObjects))"
    using delete_sessions [OF assms(1) t(5)] d t(1-3) unfolding s by blast+
  note g4 = delete_parts_of_get [OF assms(1) t(4)]
  have "prefix_scan B tx2 bktUploads ?p = prefix_scan B tx bktUploads ?p"
    unfolding prefix_scan_def cursor_seek_def
    by (rule arg_cong [where f = "\<lambda>e. takeWhile _ (dropWhile _ e)"])
      (rule Entries_cong [OF assms(1)], simp add: g)
  then have ids: "upload_ids (keys_under B bktUploads ?p tx2) = upload_ids (prefix_scan B tx bktUploads ?p)"
    by (simp add: s)
  have last: "btx_Get B tx' = (btx_Get B tx5)(bktBuckets := (btx_Get B tx5 bktBuckets)(b := None))"
  proof (cases "btx_Get B tx5 bktBuckets b")
    case None
    then have "tx' = tx5" using assms(2) n by (simp add: delete_bucket_tx_def Let_def)
    then show ?thesis using None by (auto simp: fun_upd_idem)
  next
    case (Some x)
    then have "tx_delete B bktBuckets b tx5 = Inr tx'"
      using assms(2) n by (auto simp: delete_bucket_tx_def Let_def split: sum.splits)
    then show ?thesis by (intro ext) (auto simp: Get_Delete [OF assms(1)])
  qed
  show ?thesis
    by (intro exI conjI ext, rule_tac [2] refl) (auto simp: last g g4 ids)
qed

section \<open>Counters\<close>

text \<open>The keys of a bucket's objects and their total size.\<close>

definition under :: "string \<Rightarrow> (string \<rightharpoonup> meta_doc) \<Rightarrow> string set" where
  "under b m = {k \<in> dom m. HasPrefix k (b @ [slash])}"

definition used :: "string \<Rightarrow> (string \<rightharpoonup> meta_doc) \<Rightarrow> int" where
  "used b m = (\<Sum>k \<in> under b m. stored_size (m k))"

text \<open>
  The objects \<open>O\<close> and the bucket records \<open>K\<close> agree: the counters of a record are the number and
  the total size of the objects under its name, and every object is under a recorded name.
\<close>

definition counted :: "(string \<rightharpoonup> meta_doc) \<Rightarrow> (string \<rightharpoonup> meta_doc) \<Rightarrow> bool" where
  "counted Obj K \<longleftrightarrow>
     finite (dom Obj) \<and>
     (\<forall>b d. K b = Some d \<longrightarrow> slash \<notin> set b \<and> used b Obj < 2 ^ 63 \<and> int (card (under b Obj)) < 2 ^ 63 \<and>
        (\<exists>i. d = MBucket i \<and> bi_ObjectCount i = int (card (under b Obj)) \<and> bi_TotalSize i = used b Obj)) \<and>
     (\<forall>k d. Obj k = Some d \<longrightarrow> (\<exists>m. d = MObject m \<and> 0 \<le> om_Size m) \<and>
        (\<exists>b. K b \<noteq> None \<and> HasPrefix k (b @ [slash])))"

lemma counted_bucket:
  "counted Obj K \<Longrightarrow> K b = Some d \<Longrightarrow> slash \<notin> set b \<and> used b Obj < 2 ^ 63 \<and> int (card (under b Obj)) < 2 ^ 63 \<and>
   (\<exists>i. d = MBucket i \<and> bi_ObjectCount i = int (card (under b Obj)) \<and> bi_TotalSize i = used b Obj)"
  by (simp add: counted_def)

lemma counted_object:
  "counted Obj K \<Longrightarrow> Obj k = Some d \<Longrightarrow> (\<exists>m. d = MObject m \<and> 0 \<le> om_Size m) \<and> (\<exists>b. K b \<noteq> None \<and> HasPrefix k (b @ [slash]))"
  by (simp add: counted_def)

lemma counted_finite: "counted Obj K \<Longrightarrow> finite (dom Obj)"
  by (simp add: counted_def)

lemma finite_under: "finite (dom m) \<Longrightarrow> finite (under b m)"
  by (simp add: under_def)

lemma stored_size_None [simp]: "stored_size None = 0"
  by (simp add: stored_size_def)

lemma stored_size_object [simp]: "stored_size (Some (MObject m)) = om_Size m"
  by (simp add: stored_size_def)

text \<open>Taking one key out.\<close>

lemma under_split:
  "HasPrefix k (b @ [slash]) \<Longrightarrow> under b m = (if m k = None then {} else {k}) \<union> under b (m(k := None))"
  "k \<notin> under b (m(k := None))"
  by (auto simp: under_def)

lemma under_other: "\<not> HasPrefix k (b @ [slash]) \<Longrightarrow> under b (m(k := v)) = under b m"
  by (auto simp: under_def)

lemma used_split:
  assumes "finite (dom m)" "HasPrefix k (b @ [slash])"
  shows "used b m = stored_size (m k) + used b (m(k := None))"
    and "int (card (under b m)) = (if m k = None then 0 else 1) + int (card (under b (m(k := None))))"
proof -
  have f: "finite (under b (m(k := None)))" using assms(1) by (simp add: finite_under)
  have "(\<Sum>x \<in> under b (m(k := None)). stored_size (m x)) = used b (m(k := None))"
    unfolding used_def by (rule sum.cong) (auto simp: under_def)
  then show "used b m = stored_size (m k) + used b (m(k := None))"
    using f under_split(1) [OF assms(2), of m] under_split(2) [of k b m] by (cases "m k") (simp_all add: used_def)
  show "int (card (under b m)) = (if m k = None then 0 else 1) + int (card (under b (m(k := None))))"
    using f under_split(1) [OF assms(2), of m] under_split(2) [of k b m] by (cases "m k") simp_all
qed

lemma used_other: "\<not> HasPrefix k (b @ [slash]) \<Longrightarrow> used b (m(k := v)) = used b m"
  unfolding used_def by (rule sum.cong) (auto simp: under_def)

lemma used_nonneg: "counted Obj K \<Longrightarrow> 0 \<le> used b Obj"
  unfolding used_def by (rule sum_nonneg) (auto simp: under_def dest: counted_object)

lemma used_remove_nonneg: "counted Obj K \<Longrightarrow> 0 \<le> used b (Obj(k := None))"
  unfolding used_def by (rule sum_nonneg) (auto simp: under_def dest: counted_object split: if_splits)

lemma recount_Some: "K b = Some (MBucket i) \<Longrightarrow> recount f b K = K(b \<mapsto> MBucket (f i))"
  by (simp add: recount_def)

text \<open>A put in a recorded bucket, with room for the new size in 63 bits.\<close>

lemma counted_put:
  assumes c: "counted Obj K" and b: "K b \<noteq> None" and m: "0 \<le> om_Size m"
    and room: "used b Obj - stored_size (Obj (objectKey b k)) + om_Size m < 2 ^ 63" "int (card (under b Obj)) + 1 < 2 ^ 63"
  shows "counted (Obj(objectKey b k \<mapsto> MObject m))
    (recount (put_info (Obj (objectKey b k) \<noteq> None) (int64 (om_Size m - stored_size (Obj (objectKey b k))))) b K)"
proof -
  let ?k = "objectKey b k" and ?O = "Obj(objectKey b k \<mapsto> MObject m)"
  let ?f = "put_info (Obj ?k \<noteq> None) (int64 (om_Size m - stored_size (Obj ?k)))"
  obtain i where i: "K b = Some (MBucket i)" "slash \<notin> set b" "bi_ObjectCount i = int (card (under b Obj))"
    "bi_TotalSize i = used b Obj" using counted_bucket [OF c] b by blast
  have p: "HasPrefix ?k (b @ [slash])" by simp
  have f: "finite (dom ?O)" using counted_finite [OF c] by simp
  have e: "?O(?k := None) = Obj(?k := None)" by simp
  note so = used_split [OF counted_finite [OF c] p] and sn = used_split [OF f p, unfolded e]
  have u: "used b ?O = used b Obj - stored_size (Obj ?k) + om_Size m"
    and n: "int (card (under b ?O)) = int (card (under b Obj)) + (if Obj ?k = None then 1 else 0)"
    using so sn by simp_all
  have "0 \<le> used b ?O" using u so(1) used_remove_nonneg [OF c] m by simp
  then have "bi_TotalSize (?f i) = used b ?O" "bi_ObjectCount (?f i) = int (card (under b ?O))"
    using i(3,4) u n room by (auto simp: put_info_def Let_def int64_small algebra_simps)
  then have new: "\<exists>j. MBucket (?f i) = MBucket j \<and> bi_ObjectCount j = int (card (under b ?O)) \<and> bi_TotalSize j = used b ?O"
    by blast
  have other: "under b' ?O = under b' Obj \<and> used b' ?O = used b' Obj" if "K b' = Some d" "b' \<noteq> b" for b' d
    using objectKey_other_bucket [of b' b k] counted_bucket [OF c that(1)] i(2) that(2)
    by (auto simp: under_other used_other)
  show ?thesis
    unfolding counted_def recount_Some [where K = K, OF i(1)]
  proof (intro conjI allI impI)
    fix b' d assume d: "(K(b \<mapsto> MBucket (?f i))) b' = Some d"
    show "slash \<notin> set b'" "used b' ?O < 2 ^ 63" "int (card (under b' ?O)) < 2 ^ 63"
      "\<exists>i. d = MBucket i \<and> bi_ObjectCount i = int (card (under b' ?O)) \<and> bi_TotalSize i = used b' ?O"
      using d new other i(2) counted_bucket [OF c] u n room by (cases "b' = b"; fastforce)+
  next
    fix x d assume x: "?O x = Some d"
    show "\<exists>m. d = MObject m \<and> 0 \<le> om_Size m" using x m counted_object [OF c] by (auto split: if_splits)
    show "\<exists>b'. (K(b \<mapsto> MBucket (?f i))) b' \<noteq> None \<and> HasPrefix x (b' @ [slash])"
      using x counted_object [OF c] p by (cases "x = ?k") (fastforce split: if_splits)+
  qed (rule f)
qed

lemma counted_delete:
  assumes c: "counted Obj K" and b: "slash \<notin> set b" and k: "Obj (objectKey b k) = Some (MObject m)"
  shows "counted (Obj(objectKey b k := None)) (recount (delete_info (om_Size m)) b K)"
proof -
  let ?k = "objectKey b k" and ?O = "Obj(objectKey b k := None)" and ?f = "delete_info (om_Size m)"
  obtain b' where "K b' \<noteq> None" "HasPrefix ?k (b' @ [slash])" using counted_object [OF c k] by blast
  then have "K b \<noteq> None" using objectKey_other_bucket [of b' b k] counted_bucket [OF c] b by force
  then obtain i where i: "K b = Some (MBucket i)" "bi_ObjectCount i = int (card (under b Obj))"
    "bi_TotalSize i = used b Obj" "used b Obj < 2 ^ 63" "int (card (under b Obj)) < 2 ^ 63"
    using counted_bucket [OF c] by blast
  have p: "HasPrefix ?k (b @ [slash])" by simp
  note s = used_split [OF counted_finite [OF c] p]
  have u: "used b ?O = used b Obj - om_Size m" "int (card (under b ?O)) = int (card (under b Obj)) - 1"
    using s k by simp_all
  moreover have "0 \<le> used b ?O" by (rule used_remove_nonneg [OF c])
  moreover have "0 \<le> om_Size m" using counted_object [OF c k] by auto
  ultimately have "bi_TotalSize (?f i) = used b ?O" "bi_ObjectCount (?f i) = int (card (under b ?O))"
    and lt: "used b ?O < 2 ^ 63" "int (card (under b ?O)) < 2 ^ 63"
    using i by (auto simp: delete_info_def Let_def int64_small)
  then have new: "\<exists>j. MBucket (?f i) = MBucket j \<and> bi_ObjectCount j = int (card (under b ?O)) \<and> bi_TotalSize j = used b ?O"
    by blast
  have other: "under b' ?O = under b' Obj \<and> used b' ?O = used b' Obj" if "K b' = Some d" "b' \<noteq> b" for b' d
    using objectKey_other_bucket [of b' b k] counted_bucket [OF c that(1)] b that(2)
    by (auto simp: under_other used_other)
  show ?thesis
    unfolding counted_def recount_Some [where K = K, OF i(1)]
  proof (intro conjI allI impI)
    show "finite (dom ?O)" using counted_finite [OF c] by simp
  next
    fix b' d assume d: "(K(b \<mapsto> MBucket (?f i))) b' = Some d"
    show "slash \<notin> set b'" "used b' ?O < 2 ^ 63" "int (card (under b' ?O)) < 2 ^ 63"
      "\<exists>i. d = MBucket i \<and> bi_ObjectCount i = int (card (under b' ?O)) \<and> bi_TotalSize i = used b' ?O"
      using d new other b counted_bucket [OF c] lt by (cases "b' = b"; fastforce)+
  next
    fix x d assume x: "?O x = Some d"
    show "\<exists>m. d = MObject m \<and> 0 \<le> om_Size m" using x counted_object [OF c] by (auto split: if_splits)
    show "\<exists>b'. (K(b \<mapsto> MBucket (?f i))) b' \<noteq> None \<and> HasPrefix x (b' @ [slash])"
      using x counted_object [OF c] by (fastforce split: if_splits)
  qed
qed

lemma counted_record:
  assumes c: "counted Obj K" and b: "slash \<notin> set b" "used b Obj < 2 ^ 63" "int (card (under b Obj)) < 2 ^ 63"
    and i: "bi_ObjectCount i = int (card (under b Obj))" "bi_TotalSize i = used b Obj"
  shows "counted Obj (K(b \<mapsto> MBucket i))"
  unfolding counted_def
proof (intro conjI allI impI)
  show "finite (dom Obj)" by (rule counted_finite [OF c])
next
  fix b' d assume d: "(K(b \<mapsto> MBucket i)) b' = Some d"
  have "slash \<notin> set b' \<and> used b' Obj < 2 ^ 63 \<and> int (card (under b' Obj)) < 2 ^ 63 \<and>
    (\<exists>i. d = MBucket i \<and> bi_ObjectCount i = int (card (under b' Obj)) \<and> bi_TotalSize i = used b' Obj)"
  proof (cases "b' = b")
    case True
    with d have "d = MBucket i" by simp
    with True b i show ?thesis by blast
  next
    case False
    with d have "K b' = Some d" by simp
    then show ?thesis by (rule counted_bucket [OF c])
  qed
  then show "slash \<notin> set b'" "used b' Obj < 2 ^ 63" "int (card (under b' Obj)) < 2 ^ 63"
    "\<exists>i. d = MBucket i \<and> bi_ObjectCount i = int (card (under b' Obj)) \<and> bi_TotalSize i = used b' Obj"
    by blast+
next
  fix k d assume k: "Obj k = Some d"
  show "\<exists>m. d = MObject m \<and> 0 \<le> om_Size m" using counted_object [OF c k] by blast
  show "\<exists>b'. (K(b \<mapsto> MBucket i)) b' \<noteq> None \<and> HasPrefix k (b' @ [slash])"
    using counted_object [OF c k] by auto
qed

lemma counted_create:
  assumes c: "counted Obj K" and b: "slash \<notin> set b" "K b = None" and i: "bi_ObjectCount i = 0" "bi_TotalSize i = 0"
  shows "counted Obj (K(b \<mapsto> MBucket i))"
proof -
  have "\<not> HasPrefix k (b @ [slash])" if k: "Obj k = Some d" for k d
  proof
    assume p: "HasPrefix k (b @ [slash])"
    obtain b' d' where b': "K b' = Some d'" "HasPrefix k (b' @ [slash])" using counted_object [OF c k] by blast
    then have "b' = b" using p counted_bucket [OF c b'(1)] b(1) by (auto simp: HasPrefix_bucket dest: bucket_of_key)
    with b' b(2) show False by simp
  qed
  then have "under b Obj = {}" by (auto simp: under_def)
  then show ?thesis using counted_record [OF c b(1)] i by (simp add: used_def)
qed

lemma counted_update:
  assumes "counted Obj K" "K b = Some (MBucket i)" "bi_ObjectCount j = bi_ObjectCount i" "bi_TotalSize j = bi_TotalSize i"
  shows "counted Obj (K(b \<mapsto> MBucket j))"
  using counted_bucket [OF assms(1,2)] assms(3,4) by (auto intro: counted_record [OF assms(1)])

lemma counted_delete_bucket:
  assumes c: "counted Obj K" and b: "slash \<notin> set b"
  shows "counted (without (b @ [slash]) Obj) (K(b := None))"
proof -
  have o: "under b' (without (b @ [slash]) Obj) = under b' Obj \<and> used b' (without (b @ [slash]) Obj) = used b' Obj"
    if "K b' \<noteq> None" "b' \<noteq> b" for b'
  proof -
    have "slash \<notin> set b'" using counted_bucket [OF c] that by blast
    then have w: "without (b @ [slash]) Obj k = Obj k" if "HasPrefix k (b' @ [slash])" for k
      using that b \<open>b' \<noteq> b\<close> by (auto simp: without_def HasPrefix_bucket dest: bucket_of_key)
    then have "under b' (without (b @ [slash]) Obj) = under b' Obj" by (auto simp: under_def dom_def)
    then show ?thesis using w by (auto simp: used_def under_def intro: sum.cong)
  qed
  show ?thesis
    unfolding counted_def
  proof (intro conjI allI impI)
    show "finite (dom (without (b @ [slash]) Obj))"
      by (rule finite_subset [OF _ counted_finite [OF c]]) (auto simp: without_def dom_def split: if_splits)
  next
    fix b' d assume "(K(b := None)) b' = Some d"
    then have d: "K b' = Some d" "b' \<noteq> b" by (auto split: if_splits)
    note * = counted_bucket [OF c d(1)] o [of b']
    show "slash \<notin> set b'" "used b' (without (b @ [slash]) Obj) < 2 ^ 63"
      "int (card (under b' (without (b @ [slash]) Obj))) < 2 ^ 63"
      "\<exists>i. d = MBucket i \<and> bi_ObjectCount i = int (card (under b' (without (b @ [slash]) Obj))) \<and>
         bi_TotalSize i = used b' (without (b @ [slash]) Obj)"
      using * d by auto
  next
    fix k d assume "without (b @ [slash]) Obj k = Some d"
    then have k: "Obj k = Some d" "\<not> HasPrefix k (b @ [slash])" by (auto simp: without_def split: if_splits)
    show "\<exists>m. d = MObject m \<and> 0 \<le> om_Size m" using counted_object [OF c k(1)] by blast
    show "\<exists>b'. (K(b := None)) b' \<noteq> None \<and> HasPrefix k (b' @ [slash])"
      using counted_object [OF c k(1)] k(2) by auto
  qed
qed

section \<open>The operations\<close>

text \<open>The log touches neither the database nor the statistics.\<close>

lemma flushWAL_db: "flushWAL io s = (s', r) \<Longrightarrow> md_db s' = md_db s \<and> md_stats s' = md_stats s"
  by (auto simp: flushWAL_def split: if_splits wal_io.splits)

lemma writeWAL_db: "writeWAL J io s e = (s', r) \<Longrightarrow> md_db s' = md_db s \<and> md_stats s' = md_stats s"
  by (auto simp: writeWAL_def Let_def split: if_splits dest!: flushWAL_db)

lemma holds_begin: "btx_Get B (projr (bdb_Begin B (md_db s))) = holds B s"
  by (simp add: db_get_def)

lemma run_closure:
  assumes "bolt_db_ok B"
    and "(case bolt_Update B (md_db s) (md_stats s) f of (db', st', r) \<Rightarrow> (s\<lparr>md_db := db', md_stats := st'\<rparr>, r)) = (s', Inr ())"
  obtains tx' where "f (md_stats s) (projr (bdb_Begin B (md_db s))) = (md_stats s', Inr tx')" "holds B s' = btx_Get B tx'"
proof -
  obtain db' st' where u: "bolt_Update B (md_db s) (md_stats s) f = (db', st', Inr ())"
    and s': "s' = s\<lparr>md_db := db', md_stats := st'\<rparr>"
    using assms(2) by (auto split: prod.splits)
  from Update_Inr [OF assms(1) u] show thesis using that s' by auto
qed

lemma run_put:
  assumes "bolt_db_ok B" "put_one B s bk k d = (s', Inr ())"
  obtains tx' where "tx_put B bk k d (projr (bdb_Begin B (md_db s))) = Inr tx'" "holds B s' = btx_Get B tx'"
proof -
  obtain db' where u: "bolt_Update B (md_db s) () (\<lambda>u tx. (u, tx_put B bk k d tx)) = (db', (), Inr ())"
    and s': "s' = s\<lparr>md_db := db'\<rparr>"
    using assms(2) by (auto simp: put_one_def split: prod.splits)
  from Update_Inr [OF assms(1) u] show thesis using that s' by auto
qed

text \<open>
  A put that returns an error changes nothing in the database; one that succeeds has put the
  stamped metadata and counted it.
\<close>

lemma PutObject_error: "PutObject B J io uuid clk s b k m = (s', m', Inl e) \<Longrightarrow> md_db s' = md_db s"
  by (auto simp: PutObject_def Let_def split: if_splits sum.splits prod.splits dest!: writeWAL_db Update_Inl)

lemma PutObject_ok:
  assumes B: "bolt_db_ok B" and p: "PutObject B J io uuid clk s b k m = (s', m', Inr ())"
  defines "old \<equiv> holds B s bktObjects (objectKey b k)"
  shows "m' = (stamp_version uuid clk m)\<lparr>om_IsLatest := True\<rparr>"
    and "holds B s' bktObjects = (holds B s bktObjects)(objectKey b k \<mapsto> MObject m')"
    and "holds B s' bktBuckets = recount (put_info (old \<noteq> None) (int64 (om_Size m' - stored_size old))) b (holds B s bktBuckets)"
    and "bk \<notin> {bktObjects, bktBuckets, bktObjectIndex} \<Longrightarrow> holds B s' bk = holds B s bk"
    and "holds B s bktBuckets b = Some (MBucket i) \<Longrightarrow>
      \<not> over_quota (put_info (old \<noteq> None) (int64 (om_Size m' - stored_size old)) i)"
proof -
  obtain s1 d e where m': "m' = (stamp_version uuid clk m)\<lparr>om_IsLatest := True\<rparr>" and d: "marshal_object m' = Inr d"
    and w: "writeWAL J io s e = (s1, Inr ())"
    and u: "(case bolt_Update B (md_db s1) (md_stats s1) (put_object_tx B b k m' d) of
        (db', st', r) \<Rightarrow> (s1\<lparr>md_db := db', md_stats := st'\<rparr>, r)) = (s', Inr ())"
    using p by (auto simp: PutObject_def Let_def split: if_splits sum.splits prod.splits)
  obtain tx' where t: "put_object_tx B b k m' d (md_stats s) (projr (bdb_Begin B (md_db s))) = (md_stats s', Inr tx')"
    "holds B s' = btx_Get B tx'" using run_closure [OF B u] writeWAL_db [OF w] by auto
  note e = put_object_tx_Inr [OF B t(1), unfolded holds_begin, folded old_def t(2)]
  show "m' = (stamp_version uuid clk m)\<lparr>om_IsLatest := True\<rparr>" by (rule m')
  show "holds B s' bktObjects = (holds B s bktObjects)(objectKey b k \<mapsto> MObject m')"
    using e(1) marshal_object_Inr [OF d] by simp
  show "holds B s' bktBuckets = recount (put_info (old \<noteq> None) (int64 (om_Size m' - stored_size old))) b (holds B s bktBuckets)"
    "bk \<notin> {bktObjects, bktBuckets, bktObjectIndex} \<Longrightarrow> holds B s' bk = holds B s bk"
    "holds B s bktBuckets b = Some (MBucket i) \<Longrightarrow> \<not> over_quota (put_info (old \<noteq> None) (int64 (om_Size m' - stored_size old)) i)"
    using e(2-4) by blast+
qed

lemma stamp_version_size [simp]: "om_Size (stamp_version uuid clk m) = om_Size m"
  by (simp add: stamp_version_def Let_def)

lemma DeleteObject_error: "DeleteObject B s b k = (s', Inl e) \<Longrightarrow> md_db s' = md_db s"
  by (auto simp: DeleteObject_def split: prod.splits dest!: Update_Inl)

lemma DeleteObject_missing:
  assumes "bolt_db_ok B" "DeleteObject B s b k = (s', Inr ())" "holds B s bktObjects (objectKey b k) = None"
  shows "holds B s' = holds B s"
proof -
  obtain tx' where "delete_object_tx B b k (md_stats s) (projr (bdb_Begin B (md_db s))) = (md_stats s', Inr tx')"
    "holds B s' = btx_Get B tx'"
    using run_closure [OF assms(1) assms(2) [unfolded DeleteObject_def]] by blast
  then show ?thesis using assms(3) by (auto simp: delete_object_tx_def db_get_def)
qed

lemma DeleteObject_ok:
  assumes "bolt_db_ok B" "DeleteObject B s b k = (s', Inr ())" "holds B s bktObjects (objectKey b k) = Some (MObject m)"
  shows "holds B s' = (holds B s)
    (bktObjects := (holds B s bktObjects)(objectKey b k := None),
     bktVersions := without (objectKey b k @ [slash]) (holds B s bktVersions),
     bktBuckets := recount (delete_info (om_Size m)) b (holds B s bktBuckets))"
proof -
  obtain tx' where "delete_object_tx B b k (md_stats s) (projr (bdb_Begin B (md_db s))) = (md_stats s', Inr tx')"
    "holds B s' = btx_Get B tx'"
    using run_closure [OF assms(1) assms(2) [unfolded DeleteObject_def]] by blast
  then show ?thesis using delete_object_tx_Inr(1) [OF assms(1)] assms(3) by (simp add: holds_begin)
qed

lemma DeleteBucket_error: "DeleteBucket B s b = (s', Inl e) \<Longrightarrow> md_db s' = md_db s"
  by (auto simp: DeleteBucket_def split: prod.splits dest!: Update_Inl)

lemma DeleteBucket_ok:
  assumes "bolt_db_ok B" "DeleteBucket B s b = (s', Inr ())"
  shows "\<exists>ids. holds B s' = (holds B s)
    (bktObjects := without (b @ [slash]) (holds B s bktObjects),
     bktVersions := without (b @ [slash]) (holds B s bktVersions),
     bktUploads := without (b @ [slash]) (holds B s bktUploads),
     bktParts := (\<lambda>k. if \<exists>i \<in> set ids. HasPrefix k (i @ [slash]) then None else holds B s bktParts k),
     bktResumable := other_sessions b (holds B s bktResumable),
     bktBuckets := (holds B s bktBuckets)(b := None)) \<and>
    ids = upload_ids (prefix_scan B (projr (bdb_Begin B (md_db s))) bktUploads (b @ [slash]))"
proof -
  obtain tx' where t: "delete_bucket_tx B b (md_stats s) (projr (bdb_Begin B (md_db s))) = (md_stats s', Inr tx')"
    "holds B s' = btx_Get B tx'"
    using run_closure [OF assms(1) assms(2) [unfolded DeleteBucket_def]] by blast
  show ?thesis using delete_bucket_tx_Inr [OF assms(1) t(1), unfolded holds_begin, folded t(2)] .
qed

lemma CreateBucket_error: "CreateBucket B now s b i = (s', i', Inl e) \<Longrightarrow> md_db s' = md_db s"
  by (auto simp: CreateBucket_def Let_def split: if_splits sum.splits prod.splits dest!: Update_Inl)

lemma CreateBucket_ok:
  assumes "bolt_db_ok B" "CreateBucket B now s b i = (s', i', Inr ())"
  defines "j \<equiv> (case i of None \<Rightarrow> zero_bucket\<lparr>bi_CreatedAt := now\<rparr> | Some x \<Rightarrow> x)\<lparr>bi_Name := b\<rparr>"
  shows "holds B s bktBuckets b = None" "holds B s' = (holds B s)(bktBuckets := (holds B s bktBuckets)(b \<mapsto> MBucket j))"
proof -
  obtain d where d: "marshal_bucket j = Inr d"
    and u: "(case bolt_Update B (md_db s) (md_stats s) (create_bucket_tx B b d) of
        (db', st', r) \<Rightarrow> (s\<lparr>md_db := db', md_stats := st'\<rparr>, r)) = (s', Inr ())"
    using assms(2) by (auto simp: CreateBucket_def Let_def j_def split: if_splits sum.splits prod.splits)
  obtain tx' where t: "create_bucket_tx B b d (md_stats s) (projr (bdb_Begin B (md_db s))) = (md_stats s', Inr tx')"
    "holds B s' = btx_Get B tx'" using run_closure [OF assms(1) u] by blast
  then have n: "holds B s bktBuckets b = None" and "tx_put B bktBuckets b d (projr (bdb_Begin B (md_db s))) = Inr tx'"
    by (auto simp: create_bucket_tx_def db_get_def split: if_splits sum.splits)
  then show "holds B s bktBuckets b = None" "holds B s' = (holds B s)(bktBuckets := (holds B s bktBuckets)(b \<mapsto> MBucket j))"
    using marshal_bucket_Inr [OF d] by (auto simp: t(2) Get_Put [OF assms(1)] holds_begin intro!: ext)
qed

lemma put_one_error: "put_one B s bk k d = (s', Inl e) \<Longrightarrow> md_db s' = md_db s"
  by (auto simp: put_one_def split: prod.splits dest!: Update_Inl)

lemma put_one_ok:
  assumes "bolt_db_ok B" "put_one B s bk k d = (s', Inr ())"
  shows "holds B s' = (holds B s)(bk := (holds B s bk)(k \<mapsto> d))"
proof -
  obtain tx' where "tx_put B bk k d (projr (bdb_Begin B (md_db s))) = Inr tx'" "holds B s' = btx_Get B tx'"
    using run_put [OF assms] by blast
  then show ?thesis by (auto simp: Get_Put [OF assms(1)] holds_begin intro!: ext)
qed

lemma UpdateBucket_ok:
  assumes "bolt_db_ok B" "UpdateBucket B s b i = (s', Inr ())"
  shows "holds B s' = (holds B s)(bktBuckets := (holds B s bktBuckets)(b \<mapsto> MBucket i))"
  using assms put_one_ok [OF assms(1)] by (auto simp: UpdateBucket_def split: sum.splits dest!: marshal_bucket_Inr)

lemma UpdateBucket_error: "UpdateBucket B s b i = (s', Inl e) \<Longrightarrow> md_db s' = md_db s"
  by (auto simp: UpdateBucket_def split: sum.splits dest!: put_one_error)

end
