(* ===== verification/Meta_Properties.thy ===== *)
theory Meta_Properties
  imports Meta_Accounting
begin

text \<open>
  The metadata store as its callers see it: the stores that sequences of calls reach, and what
  \<^verbatim>\<open>GetObject\<close>, \<^verbatim>\<open>GetBucket\<close> and the listings return in them.
\<close>

section \<open>Reachable stores\<close>

text \<open>The new size fits the 63 bits of a counter.\<close>

definition room :: "('db, 'tx, meta_doc) bolt_db \<Rightarrow> 'db MetaStore \<Rightarrow> string \<Rightarrow> string \<Rightarrow> ObjectMetadata \<Rightarrow> bool" where
  "room B s b k m \<longleftrightarrow>
     used b (holds B s bktObjects) - stored_size (holds B s bktObjects (objectKey b k)) + om_Size m < 2 ^ 63 \<and>
     int (card (under b (holds B s bktObjects))) + 1 < 2 ^ 63"

text \<open>
  Calls in any order, with any outcome of the disk. A bucket name has no slash, an object is put
  in a bucket that exists and has a size that is not negative, a new bucket record starts at zero,
  and an update keeps the counters it has read (the gateway's read-modify-write).
\<close>

inductive meta_reachable :: "('db, 'tx, meta_doc) bolt_db \<Rightarrow> 'db MetaStore \<Rightarrow> bool" for B where
  opened: "db_get B db = (\<lambda>_ _. None) \<Longrightarrow> NewBoltDBMetadataStore B None (Inr db) path = Inr s \<Longrightarrow> meta_reachable B s"
| put: "meta_reachable B s \<Longrightarrow> holds B s bktBuckets b \<noteq> None \<Longrightarrow> 0 \<le> om_Size m \<Longrightarrow> room B s b k m \<Longrightarrow>
    PutObject B J io uuid clk s b k m = (s', m', r) \<Longrightarrow> meta_reachable B s'"
| delete: "meta_reachable B s \<Longrightarrow> slash \<notin> set b \<Longrightarrow> DeleteObject B s b k = (s', r) \<Longrightarrow> meta_reachable B s'"
| create: "meta_reachable B s \<Longrightarrow> slash \<notin> set b \<Longrightarrow>
    (case info of None \<Rightarrow> True | Some i \<Rightarrow> bi_ObjectCount i = 0 \<and> bi_TotalSize i = 0) \<Longrightarrow>
    CreateBucket B now s b info = (s', info', r) \<Longrightarrow> meta_reachable B s'"
| drop_bucket: "meta_reachable B s \<Longrightarrow> slash \<notin> set b \<Longrightarrow> DeleteBucket B s b = (s', r) \<Longrightarrow> meta_reachable B s'"
| change: "meta_reachable B s \<Longrightarrow> GetBucket B s b = Inr i \<Longrightarrow> bi_ObjectCount j = bi_ObjectCount i \<Longrightarrow>
    bi_TotalSize j = bi_TotalSize i \<Longrightarrow> UpdateBucket B s b j = (s', r) \<Longrightarrow> meta_reachable B s'"
| put_version: "meta_reachable B s \<Longrightarrow> PutObjectVersion B uuid clk s b k m = (s', m', r) \<Longrightarrow> meta_reachable B s'"
| put_upload: "meta_reachable B s \<Longrightarrow> PutUpload B uuid clk s u = (s', u', r) \<Longrightarrow> meta_reachable B s'"
| delete_upload: "meta_reachable B s \<Longrightarrow> DeleteUpload B s b k i = (s', r) \<Longrightarrow> meta_reachable B s'"
| add_part: "meta_reachable B s \<Longrightarrow> AddPart B s i p = (s', r) \<Longrightarrow> meta_reachable B s'"
| put_session: "meta_reachable B s \<Longrightarrow> PutResumableSession B s x = (s', r) \<Longrightarrow> meta_reachable B s'"
| delete_session: "meta_reachable B s \<Longrightarrow> DeleteResumableSession B s i = (s', r) \<Longrightarrow> meta_reachable B s'"
| flush: "meta_reachable B s \<Longrightarrow> FlushWAL io s = (s', r) \<Longrightarrow> meta_reachable B s'"

definition meta_counted :: "('db, 'tx, meta_doc) bolt_db \<Rightarrow> 'db MetaStore \<Rightarrow> bool" where
  "meta_counted B s \<longleftrightarrow> counted (holds B s bktObjects) (holds B s bktBuckets)"

text \<open>An operation on the other database buckets keeps the counters.\<close>

lemma meta_counted_other:
  "meta_counted B s \<Longrightarrow> holds B s' bktObjects = holds B s bktObjects \<Longrightarrow> holds B s' bktBuckets = holds B s bktBuckets \<Longrightarrow>
   meta_counted B s'"
  by (simp add: meta_counted_def)

lemma meta_counted_db: "meta_counted B s \<Longrightarrow> md_db s' = md_db s \<Longrightarrow> meta_counted B s'"
  by (simp add: meta_counted_def)

lemma put_one_counted:
  assumes "bolt_db_ok B" "meta_counted B s" "put_one B s bk k d = (s', r)" "bk \<notin> {bktObjects, bktBuckets}"
  shows "meta_counted B s'"
proof (cases r)
  case (Inl e)
  then show ?thesis using meta_counted_db [OF assms(2)] put_one_error assms(3) by blast
next
  case (Inr u)
  then have "holds B s' = (holds B s)(bk := (holds B s bk)(k \<mapsto> d))"
    using put_one_ok [OF assms(1)] assms(3) by simp
  then show ?thesis using assms(4) by (intro meta_counted_other [OF assms(2)]) auto
qed

lemma create_buckets_get:
  "bolt_db_ok B \<Longrightarrow> create_buckets B names tx = Inr tx' \<Longrightarrow> btx_Get B tx' = btx_Get B tx"
proof (induction names arbitrary: tx)
  case (Cons n names)
  then obtain tx1 where t: "btx_CreateBucketIfNotExists B tx n = Inr tx1" "create_buckets B names tx1 = Inr tx'"
    by (auto split: sum.splits)
  then have "btx_Get B tx1 = btx_Get B tx" using Cons.prems(1) by (simp add: bolt_db_ok_def)
  with Cons.IH [OF Cons.prems(1) t(2)] show ?case by simp
qed simp

lemma create_index_bucket_get:
  "bolt_db_ok B \<Longrightarrow> create_index_bucket B n tx = Inr tx' \<Longrightarrow> btx_Get B tx' = btx_Get B tx"
  by (auto simp: create_index_bucket_def bolt_db_ok_def split: sum.splits)

lemma new_store_holds:
  assumes "bolt_db_ok B" "NewBoltDBMetadataStore B None (Inr db) path = Inr s"
  shows "holds B s = db_get B db"
proof -
  define f where "f = (\<lambda>(u :: unit) tx. (u, case create_buckets B meta_buckets tx of
                             Inl e \<Rightarrow> Inl e
                           | Inr tx1 \<Rightarrow>
                               (case create_index_bucket B ''bucket_index'' tx1 of
                                  Inl e \<Rightarrow> Inl e
                                | Inr tx2 \<Rightarrow> create_index_bucket B bktObjectIndex tx2)))"
  have u: "bolt_Update B db () f = (md_db s, (), Inr ())"
    using assms(2) unfolding f_def by (auto simp: NewBoltDBMetadataStore_def split: prod.splits sum.splits)
  obtain tx' where "f () (projr (bdb_Begin B db)) = ((), Inr tx')" "holds B s = btx_Get B tx'"
    using Update_Inr [OF assms(1) u] by metis
  then show ?thesis
    using create_buckets_get [OF assms(1)] create_index_bucket_get [OF assms(1)]
    by (auto simp: f_def db_get_def split: sum.splits)
qed

lemma counted_empty: "counted (\<lambda>_. None) (\<lambda>_. None)"
  by (simp add: counted_def)

lemma GetBucket_get: "bolt_db_ok B \<Longrightarrow> GetBucket B s b = Inr i \<longleftrightarrow> holds B s bktBuckets b = Some (MBucket i)"
  by (auto simp: GetBucket_def View_get db_get_def split: option.splits)

lemma GetObject_get: "bolt_db_ok B \<Longrightarrow> GetObject B s b k = Inr m \<longleftrightarrow> holds B s bktObjects (objectKey b k) = Some (MObject m)"
  by (auto simp: GetObject_def View_get db_get_def split: option.splits)
section \<open>The counters of every reachable store\<close>

lemma PutObject_counted:
  assumes "bolt_db_ok B" "meta_counted B s" "holds B s bktBuckets b \<noteq> None" "0 \<le> om_Size m" "room B s b k m"
    and "PutObject B J io uuid clk s b k m = (s', m', r)"
  shows "meta_counted B s'"
proof (cases r)
  case (Inl e)
  then show ?thesis using meta_counted_db [OF assms(2)] PutObject_error assms(6) by blast
next
  case (Inr u)
  have ok: "PutObject B J io uuid clk s b k m = (s', m', Inr ())" using assms(6) Inr by simp
  note p = PutObject_ok [OF assms(1) ok]
  have sz: "om_Size m' = om_Size m" using p(1) by simp
  show ?thesis
    using counted_put [of "holds B s bktObjects" "holds B s bktBuckets" b m' k] assms(2-5)
    by (simp add: meta_counted_def p(2,3) sz room_def)
qed

lemma DeleteObject_counted:
  assumes "bolt_db_ok B" "meta_counted B s" "slash \<notin> set b" "DeleteObject B s b k = (s', r)"
  shows "meta_counted B s'"
proof (cases r)
  case (Inl e)
  then show ?thesis using meta_counted_db [OF assms(2)] DeleteObject_error assms(4) by blast
next
  case (Inr u)
  then have ok: "DeleteObject B s b k = (s', Inr ())" using assms(4) by simp
  show ?thesis
  proof (cases "holds B s bktObjects (objectKey b k)")
    case None
    then show ?thesis using DeleteObject_missing [OF assms(1) ok] assms(2) by (simp add: meta_counted_def)
  next
    case (Some d)
    then obtain m where "holds B s bktObjects (objectKey b k) = Some (MObject m)"
      using assms(2) counted_object unfolding meta_counted_def by blast
    then show ?thesis
      using DeleteObject_ok [OF assms(1) ok] counted_delete assms(2,3) by (simp add: meta_counted_def)
  qed
qed

lemma CreateBucket_counted:
  assumes "bolt_db_ok B" "meta_counted B s" "slash \<notin> set b"
    and "case info of None \<Rightarrow> True | Some i \<Rightarrow> bi_ObjectCount i = 0 \<and> bi_TotalSize i = 0"
    and "CreateBucket B now s b info = (s', info', r)"
  shows "meta_counted B s'"
proof (cases r)
  case (Inl e)
  then show ?thesis using meta_counted_db [OF assms(2)] CreateBucket_error assms(5) by blast
next
  case (Inr u)
  then have ok: "CreateBucket B now s b info = (s', info', Inr ())" using assms(5) by simp
  show ?thesis
    using CreateBucket_ok [OF assms(1) ok] assms(2-4)
    by (cases info) (simp_all add: meta_counted_def counted_create zero_bucket_def)
qed

lemma DeleteBucket_counted:
  assumes "bolt_db_ok B" "meta_counted B s" "slash \<notin> set b" "DeleteBucket B s b = (s', r)"
  shows "meta_counted B s'"
proof (cases r)
  case (Inl e)
  then show ?thesis using meta_counted_db [OF assms(2)] DeleteBucket_error assms(4) by blast
next
  case (Inr u)
  then have ok: "DeleteBucket B s b = (s', Inr ())" using assms(4) by simp
  show ?thesis
    using DeleteBucket_ok [OF assms(1) ok] counted_delete_bucket assms(2,3) by (auto simp: meta_counted_def)
qed

lemma UpdateBucket_counted:
  assumes "bolt_db_ok B" "meta_counted B s" "GetBucket B s b = Inr i" "bi_ObjectCount j = bi_ObjectCount i"
    "bi_TotalSize j = bi_TotalSize i" "UpdateBucket B s b j = (s', r)"
  shows "meta_counted B s'"
proof (cases r)
  case (Inl e)
  then show ?thesis using meta_counted_db [OF assms(2)] UpdateBucket_error assms(6) by blast
next
  case (Inr u)
  then have ok: "UpdateBucket B s b j = (s', Inr ())" using assms(6) by simp
  show ?thesis
    using UpdateBucket_ok [OF assms(1) ok] counted_update assms(2-5)
    by (simp add: meta_counted_def GetBucket_get [OF assms(1)])
qed

text \<open>The operations on versions, uploads, parts and sessions.\<close>

lemma closure_counted:
  assumes "bolt_db_ok B" "meta_counted B s"
    and "(case bolt_Update B (md_db s) (md_stats s) f of (db', st', r) \<Rightarrow> (s\<lparr>md_db := db', md_stats := st'\<rparr>, r)) = (s', r)"
    and "\<And>st tx st' tx' bk. f st tx = (st', Inr tx') \<Longrightarrow> bk \<in> {bktObjects, bktBuckets} \<Longrightarrow> btx_Get B tx' bk = btx_Get B tx bk"
  shows "meta_counted B s'"
proof (cases r)
  case (Inl e)
  then have "md_db s' = md_db s" using assms(3) by (auto split: prod.splits dest!: Update_Inl)
  then show ?thesis by (rule meta_counted_db [OF assms(2)])
next
  case (Inr u)
  with assms(3) have ok: "(case bolt_Update B (md_db s) (md_stats s) f of
      (db', st', r) \<Rightarrow> (s\<lparr>md_db := db', md_stats := st'\<rparr>, r)) = (s', Inr ())" by simp
  obtain tx' where t: "f (md_stats s) (projr (bdb_Begin B (md_db s))) = (md_stats s', Inr tx')" "holds B s' = btx_Get B tx'"
    using run_closure [OF assms(1) ok] by blast
  show ?thesis
    by (rule meta_counted_other [OF assms(2)]) (simp_all add: t(2) assms(4) [OF t(1)] holds_begin)
qed

lemma PutUpload_counted:
  assumes "bolt_db_ok B" "meta_counted B s" "PutUpload B uuid clk s u = (s', u', r)"
  shows "meta_counted B s'"
proof (cases "marshal_upload (stamp_upload uuid clk u)")
  case (Inl e)
  then show ?thesis using assms(2,3) by (simp add: PutUpload_def Let_def)
next
  case (Inr d)
  let ?v = "stamp_upload uuid clk u"
  have "(case bolt_Update B (md_db s) (md_stats s)
      (put_upload_tx B (versionKey (mu_Bucket ?v) (mu_Key ?v) (mu_UploadID ?v)) d) of
      (db', st', r) \<Rightarrow> (s\<lparr>md_db := db', md_stats := st'\<rparr>, r)) = (s', r)"
    using assms(3) Inr by (auto simp: PutUpload_def Let_def split: prod.splits)
  then show ?thesis
    by (rule closure_counted [OF assms(1,2)])
      (auto simp: put_upload_tx_def Let_def Get_Put [OF assms(1)] split: sum.splits)
qed

lemma DeleteUpload_counted:
  assumes "bolt_db_ok B" "meta_counted B s" "DeleteUpload B s b k i = (s', r)"
  shows "meta_counted B s'"
  using assms(3) unfolding DeleteUpload_def
  by (rule closure_counted [OF assms(1,2)])
    (auto simp: delete_upload_tx_def Get_Delete [OF assms(1)] Get_delete_all [OF assms(1)]
      split: if_splits sum.splits)

lemma DeleteResumableSession_counted:
  assumes "bolt_db_ok B" "meta_counted B s" "DeleteResumableSession B s i = (s', r)"
  shows "meta_counted B s'"
proof (cases "bolt_Update B (md_db s) () (\<lambda>u tx. (u, tx_delete B bktResumable i tx))")
  case (fields db' u r')
  then have s': "s' = s\<lparr>md_db := db'\<rparr>" using assms(3) by (simp add: DeleteResumableSession_def)
  show ?thesis
  proof (cases r')
    case (Inl e)
    then show ?thesis using fields Update_Inl s' assms(2) by (fastforce simp: meta_counted_def)
  next
    case (Inr v)
    then have "bolt_Update B (md_db s) () (\<lambda>u tx. (u, tx_delete B bktResumable i tx)) = (db', u, Inr ())"
      using fields by simp
    from Update_Inr [OF assms(1) this] obtain tx' where
      t: "tx_delete B bktResumable i (projr (bdb_Begin B (md_db s))) = Inr tx'" "db_get B db' = btx_Get B tx'" by auto
    have "btx_Get B tx' bk = holds B s bk" if "bk \<noteq> bktResumable" for bk
      using that by (intro ext) (simp add: Get_Delete [OF assms(1) t(1)] holds_begin)
    then show ?thesis using meta_counted_other [OF assms(2), of s'] s' t(2) by simp
  qed
qed

lemma meta_reachable_counted:
  assumes "bolt_db_ok B" "meta_reachable B s"
  shows "meta_counted B s"
  using assms(2)
proof induction
  case (opened db path s)
  then show ?case using new_store_holds [OF assms(1)] counted_empty by (simp add: meta_counted_def)
next
  case (put_version s uuid clk b k m s' m' r)
  then show ?case
    by (auto simp: PutObjectVersion_def Let_def split: sum.splits prod.splits
        intro: put_one_counted [OF assms(1) put_version.IH])
next
  case (add_part s i p s' r)
  then show ?case
    by (auto simp: AddPart_def split: sum.splits intro: put_one_counted [OF assms(1) add_part.IH])
next
  case (put_session s x s' r)
  then show ?case
    by (auto simp: PutResumableSession_def split: sum.splits intro: put_one_counted [OF assms(1) put_session.IH])
next
  case (flush s io s' r)
  then show ?case using flushWAL_db by (fastforce simp: FlushWAL_def meta_counted_def)
next
  case (put s b m k J io uuid clk s' m' r)
  from PutObject_counted [OF assms(1) put.IH put.hyps(2-5)] show ?case .
next
  case (delete s b k s' r)
  from DeleteObject_counted [OF assms(1) delete.IH delete.hyps(2,3)] show ?case .
next
  case (create s b info now s' info' r)
  from CreateBucket_counted [OF assms(1) create.IH create.hyps(2-4)] show ?case .
next
  case (drop_bucket s b s' r)
  from DeleteBucket_counted [OF assms(1) drop_bucket.IH drop_bucket.hyps(2,3)] show ?case .
next
  case (change s b i j s' r)
  from UpdateBucket_counted [OF assms(1) change.IH change.hyps(2-5)] show ?case .
next
  case (put_upload s uuid clk u s' u' r)
  from PutUpload_counted [OF assms(1) put_upload.IH put_upload.hyps(2)] show ?case .
next
  case (delete_upload s b k i s' r)
  from DeleteUpload_counted [OF assms(1) delete_upload.IH delete_upload.hyps(2)] show ?case .
next
  case (delete_session s i s' r)
  from DeleteResumableSession_counted [OF assms(1) delete_session.IH delete_session.hyps(2)] show ?case .
qed

section \<open>Listing\<close>


lemma decoded_Nil [simp]: "decoded dec [] = []"
  by (simp add: decoded_def List.map_filter_def)



lemma objectKey_HasPrefix: "HasPrefix (objectKey b k) (objectKey b p) \<longleftrightarrow> HasPrefix k p"
  by (simp add: objectKey_def HasPrefix_prefix)



text \<open>The keys of a bucket that \<^verbatim>\<open>GetObject\<close> finds.\<close>

definition object_keys :: "('db, 'tx, meta_doc) bolt_db \<Rightarrow> 'db MetaStore \<Rightarrow> string \<Rightarrow> string set" where
  "object_keys B s b = {k. \<exists>m. GetObject B s b k = Inr m}"

lemma object_keys_image:
  assumes "bolt_db_ok B"
  shows "objectKey b ` {k \<in> object_keys B s b. HasPrefix k p} =
    {k. (\<exists>m. holds B s bktObjects k = Some (MObject m)) \<and> HasPrefix k (objectKey b p)}"
proof -
  have "\<exists>r. k = objectKey b r \<and> HasPrefix r p" if k: "HasPrefix k (objectKey b p)" for k
  proof -
    obtain q where "k = objectKey b p @ q" using k by (auto simp: HasPrefix_prefix elim: prefixE)
    then have "k = objectKey b (p @ q)" by (simp add: objectKey_def)
    then show ?thesis by auto
  qed
  then show ?thesis by (auto simp: object_keys_def GetObject_get [OF assms] objectKey_HasPrefix) blast
qed



section \<open>A failing delimiter\<close>

lemma delim_entry_count:
  "delim_entry sp p d k v (objs, cps, c) = Inr (objs', cps', c') \<Longrightarrow> c' \<le> c + 1"
  by (auto simp: delim_entry_def Let_def split: if_splits sum.splits)

lemma delim_loop_panics:
  assumes "(k, v) \<in> set (takeWhile (\<lambda>kv. HasPrefix (fst kv) sp) xs)" "length k < length sp + length p"
    and "snd (snd acc) + int (length (takeWhile (\<lambda>kv. HasPrefix (fst kv) sp) xs)) \<le> n"
  shows "delim_loop n sp p d xs acc = Inl slice_panic"
  using assms
proof (induction xs arbitrary: acc)
  case (Cons x xs)
  obtain k' v' objs cps c where x: "x = (k', v')" and acc: "acc = (objs, cps, c)" by (metis prod.exhaust)
  have px: "HasPrefix k' sp" using Cons.prems(1) x by (auto split: if_splits)
  show ?case
  proof (cases "delim_entry sp p d k' v' acc")
    case (Inl e)
    then have "e = slice_panic" by (auto simp: acc delim_entry_def Let_def split: if_splits sum.splits)
    then show ?thesis using Inl px Cons.prems(3) by (simp add: x acc)
  next
    case (Inr acc')
    then have "\<not> length (drop (length sp) k') < length p"
      by (auto simp: acc delim_entry_def Let_def split: if_splits)
    moreover have "length sp \<le> length k'" using px prefix_length_le by (auto simp: HasPrefix_prefix)
    ultimately have "(k, v) \<noteq> x" using Cons.prems(2) x by auto
    moreover obtain objs' cps' c' where a': "acc' = (objs', cps', c')" by (metis prod.exhaust)
    moreover have "c' \<le> c + 1" using delim_entry_count Inr a' acc by metis
    ultimately have "delim_loop n sp p d xs acc' = Inl slice_panic"
      using Cons.IH [of acc'] Cons.prems px x acc by auto
    then show ?thesis using Inr px Cons.prems(3) by (simp add: x acc)
  qed
qed simp

section \<open>Counters as seen through the interface\<close>

lemma counters_exact:
  assumes B: "bolt_db_ok B" and s: "meta_reachable B s" and i: "GetBucket B s b = Inr info"
  shows "bi_ObjectCount info = int (card (object_keys B s b)) \<and>
    bi_TotalSize info = (\<Sum>k \<in> object_keys B s b. om_Size (projr (GetObject B s b k)))"
proof -
  have c: "counted (holds B s bktObjects) (holds B s bktBuckets)"
    using meta_reachable_counted [OF B s] by (simp add: meta_counted_def)
  have r: "bi_ObjectCount info = int (card (under b (holds B s bktObjects)))" "bi_TotalSize info = used b (holds B s bktObjects)"
    using counted_bucket [OF c] i GetBucket_get [OF B] by auto
  have "\<exists>m. d = MObject m" if "holds B s bktObjects k = Some d" for k d
    using counted_object [OF c that] by blast
  then have "under b (holds B s bktObjects) = {k. (\<exists>m. holds B s bktObjects k = Some (MObject m)) \<and> HasPrefix k (b @ [slash])}"
    by (auto simp: under_def)
  then have u: "under b (holds B s bktObjects) = objectKey b ` object_keys B s b"
    using object_keys_image [OF B, of b s "[]"] by (simp add: objectKey_def HasPrefix_prefix)
  have inj: "inj_on (objectKey b) (object_keys B s b)" by (simp add: inj_on_def objectKey_def)
  have "stored_size (holds B s bktObjects (objectKey b k)) = om_Size (projr (GetObject B s b k))"
    if "k \<in> object_keys B s b" for k
  proof -
    from that have "GetObject B s b k = Inr (projr (GetObject B s b k))" by (auto simp: object_keys_def)
    then have "holds B s bktObjects (objectKey b k) = Some (MObject (projr (GetObject B s b k)))"
      by (simp add: GetObject_get [OF B])
    then show ?thesis by simp
  qed
  then have "used b (holds B s bktObjects) = (\<Sum>k \<in> object_keys B s b. om_Size (projr (GetObject B s b k)))"
    by (simp add: used_def u sum.reindex [OF inj])
  with r u inj show ?thesis by (simp add: card_image)
qed

lemma over_quota_false:
  "\<not> over_quota info \<Longrightarrow> bi_Quota info = Some q \<Longrightarrow>
   (qc_MaxObjects q > 0 \<longrightarrow> bi_ObjectCount info \<le> qc_MaxObjects q) \<and>
   (qc_MaxSizeBytes q > 0 \<longrightarrow> bi_TotalSize info \<le> qc_MaxSizeBytes q)"
  by (auto simp: over_quota_def)

lemma put_info_quota [simp]: "bi_Quota (put_info ex d i) = bi_Quota i"
  by (simp add: put_info_def Let_def)

section \<open>When a put succeeds\<close>

text \<open>The record a put leaves in the bucket.\<close>

definition put_record :: "('db, 'tx, meta_doc) bolt_db \<Rightarrow> 'db MetaStore \<Rightarrow> string \<Rightarrow> string \<Rightarrow> ObjectMetadata \<Rightarrow> BucketInfo \<Rightarrow> BucketInfo" where
  "put_record B s b k m info =
     (let old = holds B s bktObjects (objectKey b k)
      in put_info (old \<noteq> None) (int64 (om_Size m - stored_size old)) info)"

section \<open>Counters and what a bucket holds\<close>

text \<open>The entries under the objects are objects, and finitely many.\<close>

definition objects_typed :: "('db, 'tx, meta_doc) bolt_db \<Rightarrow> 'db MetaStore \<Rightarrow> bool" where
  "objects_typed B s \<longleftrightarrow> finite (dom (holds B s bktObjects)) \<and> (\<forall>k d. holds B s bktObjects k = Some d \<longrightarrow> (\<exists>m. d = MObject m))"

text \<open>The counters of a record are 64-bit integers.\<close>

definition int64_record :: "BucketInfo \<Rightarrow> bool" where
  "int64_record info \<longleftrightarrow> int64 (bi_ObjectCount info) = bi_ObjectCount info \<and> int64 (bi_TotalSize info) = bi_TotalSize info"

definition stored_bytes :: "('db, 'tx, meta_doc) bolt_db \<Rightarrow> 'db MetaStore \<Rightarrow> string \<Rightarrow> int" where
  "stored_bytes B s b = (\<Sum>k \<in> object_keys B s b. om_Size (projr (GetObject B s b k)))"

lemma object_keys_holds:
  "bolt_db_ok B \<Longrightarrow> objects_typed B s \<Longrightarrow> k \<in> object_keys B s b \<longleftrightarrow> holds B s bktObjects (objectKey b k) \<noteq> None"
  by (auto simp: object_keys_def GetObject_get objects_typed_def)

lemma GetObject_size:
  assumes "bolt_db_ok B" "k \<in> object_keys B s b"
  shows "om_Size (projr (GetObject B s b k)) = stored_size (holds B s bktObjects (objectKey b k))"
proof -
  from assms(2) obtain m where m: "GetObject B s b k = Inr m" by (auto simp: object_keys_def)
  then have "holds B s bktObjects (objectKey b k) = Some (MObject m)" by (rule GetObject_get [OF assms(1), THEN iffD1])
  with m show ?thesis by simp
qed

lemma stored_bytes_holds:
  assumes "bolt_db_ok B"
  shows "stored_bytes B s b = (\<Sum>k \<in> object_keys B s b. stored_size (holds B s bktObjects (objectKey b k)))"
  unfolding stored_bytes_def using GetObject_size [OF assms] by (intro sum.cong) auto

lemma objectKey_eq [simp]: "objectKey b k = objectKey b k' \<longleftrightarrow> k = k'"
  by (simp add: objectKey_def)

lemma object_keys_finite:
  assumes "bolt_db_ok B" "objects_typed B s"
  shows "finite (object_keys B s b)"
proof (rule finite_imageD)
  have "objectKey b ` object_keys B s b \<subseteq> dom (holds B s bktObjects)"
    using object_keys_holds [OF assms] by (auto simp: dom_def)
  then show "finite (objectKey b ` object_keys B s b)" using assms(2) finite_subset by (auto simp: objects_typed_def)
qed (simp add: inj_on_def)

text \<open>The record a put leaves in the bucket, against what the bucket then holds.\<close>

lemma PutObject_recorded:
  assumes B: "bolt_db_ok B" and s: "objects_typed B s" and i: "GetBucket B s b = Inr info"
    and p: "PutObject B J io uuid clk s b k m = (s', m', Inr ())"
  defines "info' \<equiv> put_record B s b k m' info"
  shows "GetBucket B s' b = Inr info'" "\<not> over_quota info'"
    "bi_ObjectCount info' = (if k \<in> object_keys B s b then bi_ObjectCount info else int64 (bi_ObjectCount info + 1))"
    "int (card (object_keys B s' b)) = int (card (object_keys B s b)) + (if k \<in> object_keys B s b then 0 else 1)"
    "bi_TotalSize info' = int64 (bi_TotalSize info + (stored_bytes B s' b - stored_bytes B s b))"
    "objects_typed B s'"
proof -
  have h: "holds B s bktBuckets b = Some (MBucket info)" using i by (simp add: GetBucket_get [OF B])
  note e = PutObject_ok [OF B p]
  let ?old = "holds B s bktObjects (objectKey b k)"
  show "GetBucket B s' b = Inr info'"
    using e(3) h by (simp add: GetBucket_get [OF B] recount_def info'_def put_record_def Let_def)
  show "\<not> over_quota info'" using e(5) [OF h] by (simp add: info'_def put_record_def Let_def)
  show t: "objects_typed B s'" using s by (simp add: objects_typed_def e(2))
  have ks: "object_keys B s' b = insert k (object_keys B s b)"
    by (auto simp: object_keys_holds [OF B s] object_keys_holds [OF B t] e(2) split: if_splits)
  have f: "finite (object_keys B s b)" by (rule object_keys_finite [OF B s])
  have ex: "k \<in> object_keys B s b \<longleftrightarrow> ?old \<noteq> None" by (rule object_keys_holds [OF B s])
  show "bi_ObjectCount info' = (if k \<in> object_keys B s b then bi_ObjectCount info else int64 (bi_ObjectCount info + 1))"
    by (simp add: info'_def put_record_def Let_def put_info_def ex)
  show "int (card (object_keys B s' b)) = int (card (object_keys B s b)) + (if k \<in> object_keys B s b then 0 else 1)"
    using f by (simp add: ks card_insert_if)
  let ?sz = "\<lambda>s k. stored_size (holds B s bktObjects (objectKey b k))"
  have "stored_bytes B s' b = om_Size m' + (\<Sum>k' \<in> object_keys B s b - {k}. ?sz s' k')"
    using f by (simp add: stored_bytes_holds [OF B] ks sum.insert_remove e(2))
  also have "(\<Sum>k' \<in> object_keys B s b - {k}. ?sz s' k') = (\<Sum>k' \<in> object_keys B s b - {k}. ?sz s k')"
    by (intro sum.cong) (auto simp: e(2))
  also have "\<dots> = stored_bytes B s b - stored_size ?old"
    using f ex by (cases "k \<in> object_keys B s b") (simp_all add: stored_bytes_holds [OF B] sum_diff1)
  finally have d: "stored_bytes B s' b - stored_bytes B s b = om_Size m' - stored_size ?old" by simp
  show "bi_TotalSize info' = int64 (bi_TotalSize info + (stored_bytes B s' b - stored_bytes B s b))"
    unfolding d by (simp add: info'_def put_record_def Let_def put_info_def)
qed

lemma PutObject_follows:
  assumes "bolt_db_ok B" "objects_typed B s" "GetBucket B s b = Inr info" "int64_record info"
    and "PutObject B J io uuid clk s b k m = (s', m', Inr ())"
  shows "objects_typed B s' \<and> (\<exists>info'. GetBucket B s' b = Inr info' \<and>
      bi_ObjectCount info' = int64 (bi_ObjectCount info + (int (card (object_keys B s' b)) - int (card (object_keys B s b)))) \<and>
      bi_TotalSize info' = int64 (bi_TotalSize info + (stored_bytes B s' b - stored_bytes B s b)))"
proof -
  note e = PutObject_recorded [OF assms(1-3,5)]
  have "bi_ObjectCount (put_record B s b k m' info) =
      int64 (bi_ObjectCount info + (int (card (object_keys B s' b)) - int (card (object_keys B s b))))"
    using assms(4) by (simp add: e(3,4) int64_record_def)
  with e(1,5,6) show ?thesis by blast
qed

lemma DeleteObject_follows:
  assumes B: "bolt_db_ok B" and s: "objects_typed B s" and i: "GetBucket B s b = Inr info" and p: "DeleteObject B s b k = (s', Inr ())"
  shows "objects_typed B s' \<and> (\<exists>info'. GetBucket B s' b = Inr info' \<and>
      (if k \<in> object_keys B s b then
         bi_ObjectCount info' = max 0 (int64 (bi_ObjectCount info + (int (card (object_keys B s' b)) - int (card (object_keys B s b))))) \<and>
         bi_TotalSize info' = max 0 (int64 (bi_TotalSize info + (stored_bytes B s' b - stored_bytes B s b)))
       else info' = info \<and> GetObject B s' b = GetObject B s b))"
proof (cases "k \<in> object_keys B s b")
  case False
  then have h: "holds B s' = holds B s" using DeleteObject_missing [OF B p] object_keys_holds [OF B s] by simp
  then have "GetObject B s' b k' = GetObject B s b k'" for k' by (simp add: GetObject_def View_get [OF B] db_get_def [symmetric])
  with h show ?thesis using s i False by (auto simp: objects_typed_def GetBucket_get [OF B])
next
  case True
  then obtain m where m: "holds B s bktObjects (objectKey b k) = Some (MObject m)"
    using GetObject_get [OF B, of s b k] by (auto simp: object_keys_def)
  have h: "holds B s bktBuckets b = Some (MBucket info)" using i by (simp add: GetBucket_get [OF B])
  note e = DeleteObject_ok [OF B p m]
  have "dom (holds B s' bktObjects) \<subseteq> dom (holds B s bktObjects)" by (auto simp: e split: if_splits)
  then have t: "objects_typed B s'" using s finite_subset by (auto simp: objects_typed_def e split: if_splits)
  have ks: "object_keys B s' b = object_keys B s b - {k}"
    by (auto simp: object_keys_holds [OF B s] object_keys_holds [OF B t] e split: if_splits)
  have f: "finite (object_keys B s b)" by (rule object_keys_finite [OF B s])
  have "0 < card (object_keys B s b)" using True f card_gt_0_iff by blast
  then have c: "int (card (object_keys B s' b)) - int (card (object_keys B s b)) = - 1"
    using True f by (simp add: ks of_nat_diff)
  have "stored_bytes B s' b = (\<Sum>k' \<in> object_keys B s b - {k}. stored_size (holds B s bktObjects (objectKey b k')))"
    unfolding stored_bytes_holds [OF B] ks by (intro sum.cong) (auto simp: e)
  also have "\<dots> = stored_bytes B s b - om_Size m" using True f m by (simp add: stored_bytes_holds [OF B] sum_diff1)
  finally have d: "stored_bytes B s' b - stored_bytes B s b = - om_Size m" by simp
  have "GetBucket B s' b = Inr (delete_info (om_Size m) info)" using e h by (simp add: GetBucket_get [OF B] recount_def)
  then show ?thesis using True t by (simp add: c d delete_info_def Let_def max_def)
qed

section \<open>Transactions of a put\<close>

lemma length_extractPrefix: "length (extractPrefix k) \<le> length k"
  by (auto simp: extractPrefix_def split: option.splits)

lemma put_index_runs:
  assumes "bolt_no_errors B" "valid_key (objectKey b k)"
  shows "\<exists>tx'. put_index B b k d tx = Inr tx'"
proof -
  have "valid_key (indexKey b (extractPrefix k))"
    using assms(2) length_extractPrefix [of k] by (auto simp: valid_key_def objectKey_def indexKey_def)
  then show ?thesis using Put_succeeds [OF assms(1)] by (auto simp: put_index_def Let_def split: option.splits)
qed

lemma put_object_tx_runs:
  assumes B: "bolt_db_ok B" "bolt_no_errors B" and b: "b \<noteq> ''''" "valid_key (objectKey b k)"
    and i: "btx_Get B tx bktBuckets b = Some (MBucket info)" and d: "marshal_bucket info' = Inr d'"
    and info': "info' = put_info (btx_Get B tx bktObjects (objectKey b k) \<noteq> None)
      (int64 (om_Size m - stored_size (btx_Get B tx bktObjects (objectKey b k)))) info"
  shows "if over_quota info' then put_object_tx B b k m d st tx = (st, Inl ErrQuotaExceeded)
    else \<exists>st' tx'. put_object_tx B b k m d st tx = (st', Inr tx')"
proof -
  obtain tx1 where t1: "tx_put B bktObjects (objectKey b k) d tx = Inr tx1" using Put_succeeds [OF B(2) b(2)] by blast
  obtain tx2 where t2: "put_index B b k d tx1 = Inr tx2" using put_index_runs [OF B(2) b(2)] by blast
  have g: "btx_Get B tx2 bktBuckets b = Some (MBucket info)"
    using put_index_Inr [OF B(1) t2, of bktBuckets] Get_Put [OF B(1) t1] i by simp
  have "valid_key b" using b by (auto simp: valid_key_def objectKey_def)
  then obtain tx3 where "tx_put B bktBuckets b d' tx2 = Inr tx3" using Put_succeeds [OF B(2)] by blast
  then show ?thesis
    using t1 t2 g d by (auto simp: put_object_tx_def Let_def put_counters_def info')
qed

lemma writeWAL_runs: "\<exists>s1. writeWAL J WalOk s e = (s1, Inr ())"
  by (simp add: writeWAL_def flushWAL_def Let_def)

lemma PutObject_runs:
  assumes B: "bolt_db_ok B" "bolt_no_errors B" and b: "b \<noteq> ''''" "k \<noteq> ''''" "valid_key (objectKey b k)"
    and m: "m' = (stamp_version uuid clk m)\<lparr>om_IsLatest := True\<rparr>" "marshal_object m' = Inr d"
    and i: "GetBucket B s b = Inr info" "marshal_bucket (put_record B s b k m' info) = Inr d'"
  shows "\<exists>s'. PutObject B J WalOk uuid clk s b k m =
    (s', m', if over_quota (put_record B s b k m' info) then Inl ErrQuotaExceeded else Inr ())"
proof -
  let ?tx = "projr (bdb_Begin B (md_db s))"
  obtain s1 where w: "writeWAL J WalOk s \<lparr>wal_Type = ''put_object'', wal_Bucket = b, wal_Key = k, wal_Data = d,
      wal_Timestamp = 0, wal_Checksum = 0\<rparr> = (s1, Inr ())"
    using writeWAL_runs by blast
  note s1 = writeWAL_db [OF w]
  have i': "btx_Get B ?tx bktBuckets b = Some (MBucket info)" using i(1) by (simp add: GetBucket_get [OF B(1)] holds_begin)
  have r: "put_record B s b k m' info = put_info (btx_Get B ?tx bktObjects (objectKey b k) \<noteq> None)
      (int64 (om_Size m' - stored_size (btx_Get B ?tx bktObjects (objectKey b k)))) info"
    by (simp add: put_record_def Let_def holds_begin)
  note p = put_object_tx_runs [OF B b(1,3) i' i(2) r, of d "md_stats s"]
  show ?thesis
  proof (cases "over_quota (put_record B s b k m' info)")
    case True
    then have "bolt_Update B (md_db s) (md_stats s) (put_object_tx B b k m' d) = (md_db s, md_stats s, Inl ErrQuotaExceeded)"
      using p Update_fails [OF B(1)] by (metis (no_types, lifting))
    then show ?thesis using True b w s1 m by (auto simp: PutObject_def Let_def)
  next
    case False
    then obtain st' tx' where "put_object_tx B b k m' d (md_stats s) ?tx = (st', Inr tx')" using p by auto
    then obtain db' where "bolt_Update B (md_db s) (md_stats s) (put_object_tx B b k m' d) = (db', st', Inr ())"
      using Update_run [OF B] by metis
    then show ?thesis using False b w s1 m by (auto simp: PutObject_def Let_def)
  qed
qed

section \<open>A concrete store\<close>

definition zero_object :: ObjectMetadata where
  "zero_object = \<lparr>om_Key = '''', om_Bucket = '''', om_Size = 0, om_ContentType = '''', om_ContentEncoding = '''',
     om_ETag = '''', om_Checksum = '''', om_ChecksumType = '''', om_UserMetadata = Map.empty, om_StorageTier = 0,
     om_CreatedAt = 0, om_ModifiedAt = 0, om_AccessCount = 0, om_LastAccessedAt = 0, om_Encrypted = False,
     om_EncryptedDEK = [], om_Vectorized = False, om_VectorID = '''', om_VersionID = '''', om_IsLatest = False,
     om_PreviousVersion = '''', om_ObjectStatus = '''', om_TieringLocked = False, om_LockedTier = 0,
     om_PipelineResults = Map.empty, om_DeleteMarker = False, om_RetainUntil = None, om_SSECUsed = False,
     om_SSECKeySHA256 = '''', om_SSECAlgorithm = ''''\<rparr>"

definition photo :: ObjectMetadata where
  "photo = zero_object\<lparr>om_Key := ''ab'', om_Size := 5\<rparr>"

definition quota_bucket :: BucketInfo where
  "quota_bucket = zero_bucket\<lparr>bi_Quota := Some \<lparr>qc_MaxObjects = 1, qc_MaxSizeBytes = 9, qc_WarnThreshold = Some 0\<rparr>\<rparr>"

definition empty_meta :: "meta_doc mem_db MetaStore" where
  "empty_meta = projr (NewBoltDBMetadataStore mem_db None (Inr (\<lambda>_. [])) ''m.db'')"

definition docs_meta :: "meta_doc mem_db MetaStore" where
  "docs_meta = fst (CreateBucket mem_db 1 empty_meta ''docs'' (Some quota_bucket))"

definition photo_put :: "meta_doc mem_db MetaStore \<times> ObjectMetadata \<times> unit result" where
  "photo_put = PutObject mem_db (\<lambda>_. []) WalOk ''v1'' (\<lambda>_. 1) docs_meta ''docs'' ''ab'' photo"

definition photo_meta :: "meta_doc mem_db MetaStore" where "photo_meta = fst photo_put"

definition version_meta :: "meta_doc mem_db MetaStore" where
  "version_meta = fst (PutObjectVersion mem_db ''v7'' (\<lambda>_. 1) photo_meta ''docs'' ''ab/c'' photo)"

lemma create_buckets_mem [simp]: "create_buckets mem_db names tx = Inr tx"
  by (induction names arbitrary: tx) simp_all

lemma empty_meta_new: "NewBoltDBMetadataStore mem_db None (Inr (\<lambda>_. [])) ''m.db'' = Inr empty_meta"
  by (simp add: empty_meta_def NewBoltDBMetadataStore_def bolt_Update_def create_index_bucket_def)

lemma empty_meta_db [simp]: "md_db empty_meta = (\<lambda>_. [])" "md_walBuf empty_meta = []"
  by (simp_all add: empty_meta_def NewBoltDBMetadataStore_def bolt_Update_def create_index_bucket_def)

lemma docs_create:
  "CreateBucket mem_db 1 empty_meta ''docs'' (Some quota_bucket) = (docs_meta, Some (quota_bucket\<lparr>bi_Name := ''docs''\<rparr>), Inr ())"
  "md_db docs_meta = (\<lambda>_. [])(bktBuckets := [(''docs'', MBucket (quota_bucket\<lparr>bi_Name := ''docs''\<rparr>))])"
  "md_walBuf docs_meta = []"
  by (simp_all add: docs_meta_def CreateBucket_def bolt_Update_def create_bucket_tx_def Put_mem valid_key_def MaxKeySize_def
      marshal_bucket_def quota_bucket_def zero_bucket_def json_time_def Let_def)

definition stored_photo :: ObjectMetadata where
  "stored_photo = photo\<lparr>om_VersionID := ''v1'', om_CreatedAt := 1, om_ModifiedAt := 1, om_IsLatest := True\<rparr>"

definition photo_bucket :: BucketInfo where
  "photo_bucket = quota_bucket\<lparr>bi_Name := ''docs'', bi_ObjectCount := 1, bi_TotalSize := 5\<rparr>"

lemma photo_stamp: "(stamp_version ''v1'' (\<lambda>_. 1) photo)\<lparr>om_IsLatest := True\<rparr> = stored_photo"
  by (simp add: stamp_version_def stored_photo_def photo_def zero_object_def Let_def IsZero_def)

lemma photo_put_info:
  "put_info False (int64 5) (quota_bucket\<lparr>bi_Name := ''docs''\<rparr>) = photo_bucket"
  by (simp add: put_info_def photo_bucket_def quota_bucket_def zero_bucket_def Let_def int64_small)

lemma photo_marshals [simp]: "marshal_object stored_photo = Inr (MObject stored_photo)"
  "marshal_bucket photo_bucket = Inr (MBucket photo_bucket)" "\<not> over_quota photo_bucket" "om_Size stored_photo = 5"
  by (simp_all add: marshal_object_def stored_photo_def photo_def zero_object_def json_time_def json_opt_time_def
      marshal_bucket_def photo_bucket_def quota_bucket_def zero_bucket_def over_quota_def)

lemma photo_put_ok:
  "photo_put = (photo_meta, stored_photo, Inr ())"
  "md_db photo_meta = (\<lambda>_. [])(bktBuckets := [(''docs'', MBucket photo_bucket), (''docs'', MBucket (quota_bucket\<lparr>bi_Name := ''docs''\<rparr>))],
     bktObjects := [(''docs/ab'', MObject stored_photo)], bktObjectIndex := [(''docs/'', MObject stored_photo)])"
  by (simp_all add: photo_meta_def photo_put_def PutObject_def photo_stamp writeWAL_def docs_create bolt_Update_def
      put_object_tx_def Let_def put_index_def put_counters_def Put_mem valid_key_def MaxKeySize_def objectKey_def
      indexKey_def slash_def extractPrefix_def photo_put_info numeral_2_eq_2 fun_upd_twist)

lemma empty_mem: "db_get mem_db (\<lambda>_. []) = (\<lambda>_ _. None)"
  by (intro ext) simp

lemma docs_reachable: "meta_reachable mem_db docs_meta"
  by (rule meta_reachable.create [OF meta_reachable.opened [OF empty_mem empty_meta_new] _ _ docs_create(1)])
    (simp_all add: quota_bucket_def zero_bucket_def slash_def)

lemma docs_room: "room mem_db docs_meta ''docs'' ''ab'' photo" "holds mem_db docs_meta bktBuckets ''docs'' \<noteq> None"
  by (simp_all add: room_def docs_create used_def under_def photo_def)

lemma photo_reachable: "meta_reachable mem_db photo_meta"
  by (rule meta_reachable.put [OF docs_reachable docs_room(2) _ docs_room(1) photo_put_ok(1) [unfolded photo_put_def]])
    (simp add: photo_def)

lemma docs_bucket: "GetBucket mem_db docs_meta ''docs'' = Inr (quota_bucket\<lparr>bi_Name := ''docs''\<rparr>)"
  and photo_bucket_get: "GetBucket mem_db photo_meta ''docs'' = Inr photo_bucket"
  and photo_get: "GetObject mem_db photo_meta ''docs'' ''ab'' = Inr stored_photo"
  by (simp_all add: GetBucket_get GetObject_get docs_create photo_put_ok objectKey_def slash_def)

lemma docs_typed: "objects_typed mem_db docs_meta" and docs_int64: "int64_record (quota_bucket\<lparr>bi_Name := ''docs''\<rparr>)"
  by (simp_all add: objects_typed_def docs_create int64_record_def quota_bucket_def zero_bucket_def int64_small)

lemma docs_photo_keys: "object_keys mem_db docs_meta ''docs'' = {}" "object_keys mem_db photo_meta ''docs'' = {''ab''}"
  by (auto simp: object_keys_def GetObject_get docs_create photo_put_ok objectKey_def slash_def)

section \<open>Properties\<close>

text \<open>
  C2. The counters of a bucket follow its objects, in every store and for all arguments. When \<^verbatim>\<open>PutObject\<close> succeeds on a bucket
  that has a record, the object count and the total size in the record change by exactly as much as the number and the total size of
  the objects that \<^verbatim>\<open>GetObject\<close> finds in the bucket, in 64-bit arithmetic, whether it creates or overwrites. So do they when
  \<^verbatim>\<open>DeleteObject\<close> succeeds on an object that is there, except that they stop at zero; on one that is not there nothing
  changes. A call that fails changes nothing in the database. The stored entries under the objects must be objects and finitely many, which
  the calls keep, and the counters in the record 64-bit integers.
\<close>

theorem counters_follow_objects:
  assumes B: "bolt_db_ok B" and s: "objects_typed B s" and i: "GetBucket B s b = Inr info" "int64_record info"
  shows "(PutObject B J io uuid clk s b k m = (s', m', Inr ()) \<longrightarrow>
      objects_typed B s' \<and> (\<exists>info'. GetBucket B s' b = Inr info' \<and>
        bi_ObjectCount info' = int64 (bi_ObjectCount info + (int (card (object_keys B s' b)) - int (card (object_keys B s b)))) \<and>
        bi_TotalSize info' = int64 (bi_TotalSize info + (stored_bytes B s' b - stored_bytes B s b)))) \<and>
    (DeleteObject B s b k = (s'', Inr ()) \<longrightarrow>
      objects_typed B s'' \<and> (\<exists>info'. GetBucket B s'' b = Inr info' \<and>
        (if k \<in> object_keys B s b then
           bi_ObjectCount info' = max 0 (int64 (bi_ObjectCount info + (int (card (object_keys B s'' b)) - int (card (object_keys B s b))))) \<and>
           bi_TotalSize info' = max 0 (int64 (bi_TotalSize info + (stored_bytes B s'' b - stored_bytes B s b)))
         else info' = info \<and> GetObject B s'' b = GetObject B s b))) \<and>
    (PutObject B J io uuid clk s b k m = (s', m', Inl e) \<longrightarrow> md_db s' = md_db s) \<and>
    (DeleteObject B s b k = (s'', Inl e) \<longrightarrow> md_db s'' = md_db s)"
proof (intro conjI impI)
  assume "PutObject B J io uuid clk s b k m = (s', m', Inr ())"
  from PutObject_follows [OF B s i this] show "objects_typed B s'"
    "\<exists>info'. GetBucket B s' b = Inr info' \<and>
        bi_ObjectCount info' = int64 (bi_ObjectCount info + (int (card (object_keys B s' b)) - int (card (object_keys B s b)))) \<and>
        bi_TotalSize info' = int64 (bi_TotalSize info + (stored_bytes B s' b - stored_bytes B s b))" by blast+
next
  assume "DeleteObject B s b k = (s'', Inr ())"
  from DeleteObject_follows [OF B s i(1) this] show "objects_typed B s''" "\<exists>info'. GetBucket B s'' b = Inr info' \<and>
        (if k \<in> object_keys B s b then
           bi_ObjectCount info' = max 0 (int64 (bi_ObjectCount info + (int (card (object_keys B s'' b)) - int (card (object_keys B s b))))) \<and>
           bi_TotalSize info' = max 0 (int64 (bi_TotalSize info + (stored_bytes B s'' b - stored_bytes B s b)))
         else info' = info \<and> GetObject B s'' b = GetObject B s b)" by blast+
qed (fact PutObject_error, fact DeleteObject_error)

theorem counters_follow_objects_witness:
  "bi_ObjectCount photo_bucket = int64 (int (card (object_keys mem_db photo_meta ''docs'')) - int (card (object_keys mem_db docs_meta ''docs''))) \<and>
   bi_TotalSize photo_bucket = int64 (stored_bytes mem_db photo_meta ''docs'' - stored_bytes mem_db docs_meta ''docs'')"
  using counters_follow_objects [OF mem_db_ok docs_typed docs_bucket docs_int64, THEN conjunct1, rule_format, OF photo_put_ok(1) [unfolded photo_put_def]]
    photo_bucket_get by (auto simp: quota_bucket_def zero_bucket_def)

text \<open>
  C11. A quota holds. When the counters of a bucket with a quota are exact and \<^verbatim>\<open>PutObject\<close> returns without error, the bucket
  then holds at most the allowed number of objects and of bytes, and the counters are still exact. The number of objects and of bytes it would
  then hold must be within the range of 64-bit counters. The sizes may have any sign.
\<close>

theorem quota_holds:
  assumes B: "bolt_db_ok B" and s: "objects_typed B s" and i: "GetBucket B s b = Inr info" "bi_Quota info = Some q"
    and exact: "bi_ObjectCount info = int (card (object_keys B s b))" "bi_TotalSize info = stored_bytes B s b"
    and range: "int (card (object_keys B s' b)) < 2 ^ 63" "- (2 ^ 63) \<le> stored_bytes B s' b" "stored_bytes B s' b < 2 ^ 63"
    and p: "PutObject B J io uuid clk s b k m = (s', m', Inr ())"
  shows "(qc_MaxObjects q > 0 \<longrightarrow> int (card (object_keys B s' b)) \<le> qc_MaxObjects q) \<and>
    (qc_MaxSizeBytes q > 0 \<longrightarrow> stored_bytes B s' b \<le> qc_MaxSizeBytes q) \<and>
    (\<exists>info'. GetBucket B s' b = Inr info' \<and> bi_Quota info' = Some q \<and>
       bi_ObjectCount info' = int (card (object_keys B s' b)) \<and> bi_TotalSize info' = stored_bytes B s' b)"
proof -
  let ?info = "put_record B s b k m' info"
  note e = PutObject_recorded [OF B s i(1) p]
  have "bi_ObjectCount ?info = int (card (object_keys B s' b))"
    using e(3,4) exact(1) range(1) by (auto simp: int64_small)
  moreover have "bi_TotalSize ?info = stored_bytes B s' b"
    using e(5) exact(2) range(2,3) by (simp add: int64_small)
  moreover have "bi_Quota ?info = Some q" using i(2) by (simp add: put_record_def Let_def)
  ultimately show ?thesis using e(1,2) over_quota_false by metis
qed

theorem quota_holds_witness:
  "int (card (object_keys mem_db photo_meta ''docs'')) \<le> 1 \<and>
   bi_TotalSize photo_bucket = stored_bytes mem_db photo_meta ''docs''"
  using quota_holds [OF mem_db_ok docs_typed docs_bucket _ _ _ _ _ _ photo_put_ok(1) [unfolded photo_put_def]] photo_bucket_get
  by (simp add: docs_photo_keys stored_bytes_def photo_get stored_photo_def photo_def zero_object_def quota_bucket_def zero_bucket_def)

text \<open>
  The outcome of \<^verbatim>\<open>PutObject\<close> into an existing bucket, when no write to the disk fails and the
  metadata can be encoded: it is refused exactly when the new counters are over the quota, and
  then no object has changed; otherwise \<^verbatim>\<open>GetObject\<close> returns the stamped metadata under the key
  and every other object as before.
\<close>

theorem PutObject_outcome:
  assumes B: "bolt_db_ok B" "bolt_no_errors B" and b: "b \<noteq> ''''" "k \<noteq> ''''" "valid_key (objectKey b k)"
    and m: "m' = (stamp_version uuid clk m)\<lparr>om_IsLatest := True\<rparr>" "marshal_object m' = Inr d"
    and i: "GetBucket B s b = Inr info" "marshal_bucket (put_record B s b k m' info) = Inr d'"
  shows "\<exists>s'. PutObject B J WalOk uuid clk s b k m =
      (s', m', if over_quota (put_record B s b k m' info) then Inl ErrQuotaExceeded else Inr ()) \<and>
    (over_quota (put_record B s b k m' info) \<longrightarrow> md_db s' = md_db s) \<and>
    (\<not> over_quota (put_record B s b k m' info) \<longrightarrow> GetObject B s' b k = Inr m' \<and>
       (\<forall>b' k'. objectKey b' k' \<noteq> objectKey b k \<longrightarrow> GetObject B s' b' k' = GetObject B s b' k'))"
proof -
  obtain s' where p: "PutObject B J WalOk uuid clk s b k m =
      (s', m', if over_quota (put_record B s b k m' info) then Inl ErrQuotaExceeded else Inr ())"
    using PutObject_runs [OF B b m i] by blast
  show ?thesis
  proof (cases "over_quota (put_record B s b k m' info)")
    case True
    with p show ?thesis using PutObject_error by fastforce
  next
    case False
    with p have ok: "PutObject B J WalOk uuid clk s b k m = (s', m', Inr ())" by simp
    note e = PutObject_ok(2) [OF B(1) ok]
    have "GetObject B s' b k = Inr m'" by (simp add: GetObject_get [OF B(1)] e)
    moreover have "GetObject B s' b' k' = GetObject B s b' k'" if "objectKey b' k' \<noteq> objectKey b k" for b' k'
      using that e by (simp add: GetObject_def View_get [OF B(1)] holds_begin)
    ultimately show ?thesis using ok False by auto
  qed
qed

lemma photo_record: "put_record mem_db docs_meta ''docs'' ''ab'' stored_photo (quota_bucket\<lparr>bi_Name := ''docs''\<rparr>) = photo_bucket"
  by (simp add: put_record_def Let_def docs_create photo_put_info)

theorem PutObject_outcome_witness:
  "GetObject mem_db photo_meta ''docs'' ''ab'' = Inr stored_photo"
  using PutObject_outcome [OF mem_db_ok mem_db_no_errors _ _ _ photo_stamp [symmetric] photo_marshals(1) docs_bucket,
      where J = "\<lambda>_. []" and k = "''ab''" and d' = "MBucket photo_bucket"] photo_put_ok(1) [unfolded photo_put_def]
  by (simp add: photo_record valid_key_def objectKey_def MaxKeySize_def)

lemma versionKey_prefix: "HasPrefix (versionKey b k v) (b @ [slash])"
  by (auto simp: versionKey_def HasPrefix_bucket)

lemma versionKey_other:
  "slash \<notin> set b \<Longrightarrow> slash \<notin> set b' \<Longrightarrow> b' \<noteq> b \<Longrightarrow> \<not> HasPrefix (versionKey b' k v) (b @ [slash])"
  by (auto simp: versionKey_def HasPrefix_bucket dest: bucket_of_key)

lemma GetParts_none:
  assumes "bolt_db_ok B" "\<And>k. HasPrefix k (i @ [slash]) \<Longrightarrow> holds B s bktParts k = None"
  shows "GetParts B s i = Inr []"
proof -
  have "(k, v) \<notin> set (prefix_scan B (projr (bdb_Begin B (md_db s))) bktParts (i @ [slash]))" for k v
    using assms(2) [of k] by (auto simp: prefix_scan_mem [OF assms(1)] holds_begin)
  then have "prefix_scan B (projr (bdb_Begin B (md_db s))) bktParts (i @ [slash]) = []"
    by (metis last_in_set prod.exhaust)
  then show ?thesis by (simp add: GetParts_def View_get [OF assms(1)])
qed

lemma as_upload_Inr [simp]: "as_upload d = Inr u \<longleftrightarrow> d = MUpload u"
  by (cases d) auto

lemma upload_ids_mem:
  "(k, MUpload u) \<in> set kvs \<Longrightarrow> mu_UploadID u \<noteq> '''' \<Longrightarrow> mu_UploadID u \<in> set (upload_ids kvs)"
  by (force simp: upload_ids_def decoded_def List.map_filter_def)

text \<open>
  \<^verbatim>\<open>DeleteBucket\<close> removes what belongs to the bucket and nothing else: no object, version,
  upload, session or record of the bucket is left, nor a part of one of its uploads, while the
  records, objects, versions and uploads of every other bucket are as before.
\<close>

theorem DeleteBucket_exact:
  assumes B: "bolt_db_ok B" and b: "slash \<notin> set b" and d: "DeleteBucket B s b = (s', Inr ())"
  shows "GetBucket B s' b = Inl ErrBucketNotFound \<and> GetObject B s' b k = Inl ErrKeyNotFound \<and>
    GetObjectVersion B s' b k v = Inl ErrVersionNotFound \<and> GetUpload B s' b k u = Inl ErrKeyNotFound \<and>
    (GetUpload B s b k u = Inr up \<and> mu_UploadID up \<noteq> '''' \<longrightarrow> GetParts B s' (mu_UploadID up) = Inr []) \<and>
    (\<forall>i x. GetResumableSession B s' i = Inr x \<longrightarrow> rs_Bucket x \<noteq> b) \<and>
    (slash \<notin> set b' \<and> b' \<noteq> b \<longrightarrow> GetBucket B s' b' = GetBucket B s b' \<and> GetObject B s' b' k = GetObject B s b' k \<and>
       GetObjectVersion B s' b' k v = GetObjectVersion B s b' k v \<and> GetUpload B s' b' k u = GetUpload B s b' k u)"
proof -
  obtain ids where h: "holds B s' = (holds B s)
    (bktObjects := without (b @ [slash]) (holds B s bktObjects),
     bktVersions := without (b @ [slash]) (holds B s bktVersions),
     bktUploads := without (b @ [slash]) (holds B s bktUploads),
     bktParts := (\<lambda>k. if \<exists>i \<in> set ids. HasPrefix k (i @ [slash]) then None else holds B s bktParts k),
     bktResumable := other_sessions b (holds B s bktResumable),
     bktBuckets := (holds B s bktBuckets)(b := None))"
    and ids: "ids = upload_ids (prefix_scan B (projr (bdb_Begin B (md_db s))) bktUploads (b @ [slash]))"
    using DeleteBucket_ok [OF B d] by blast
  note get = GetBucket_def GetObject_def GetObjectVersion_def GetUpload_def View_get [OF B] holds_begin
  have gone: "GetBucket B s' b = Inl ErrBucketNotFound \<and> GetObject B s' b k = Inl ErrKeyNotFound \<and>
    GetObjectVersion B s' b k v = Inl ErrVersionNotFound \<and> GetUpload B s' b k u = Inl ErrKeyNotFound"
    by (simp add: get h without_def versionKey_prefix)
  have kept: "GetBucket B s' b' = GetBucket B s b' \<and> GetObject B s' b' k = GetObject B s b' k \<and>
       GetObjectVersion B s' b' k v = GetObjectVersion B s b' k v \<and> GetUpload B s' b' k u = GetUpload B s b' k u"
    if "slash \<notin> set b'" "b' \<noteq> b"
    using that b by (simp add: get h without_def versionKey_other objectKey_other_bucket)
  have parts: "GetParts B s' (mu_UploadID up) = Inr []" if "GetUpload B s b k u = Inr up" "mu_UploadID up \<noteq> ''''"
  proof (rule GetParts_none [OF B])
    have "holds B s bktUploads (versionKey b k u) = Some (MUpload up)"
      using that(1) by (auto simp: get split: option.splits)
    then have "(versionKey b k u, MUpload up) \<in> set (prefix_scan B (projr (bdb_Begin B (md_db s))) bktUploads (b @ [slash]))"
      by (simp add: prefix_scan_mem [OF B] holds_begin versionKey_prefix)
    from upload_ids_mem [OF this that(2)] have "mu_UploadID up \<in> set ids" by (simp add: ids)
    then show "holds B s' bktParts x = None" if "HasPrefix x (mu_UploadID up @ [slash])" for x
      using that by (auto simp: h)
  qed
  have sessions: "rs_Bucket x \<noteq> b" if "GetResumableSession B s' i = Inr x" for i x
    using that by (auto simp: GetResumableSession_def View_get [OF B] holds_begin h other_sessions_def
        split: option.splits meta_doc.splits if_splits)
  show ?thesis using gone kept parts sessions by blast
qed

lemma photo_delete_bucket: "\<exists>s'. DeleteBucket mem_db photo_meta ''docs'' = (s', Inr ())"
proof -
  have "\<exists>st tx. delete_bucket_tx mem_db ''docs'' (md_stats photo_meta) (projr (bdb_Begin mem_db (md_db photo_meta))) = (st, Inr tx)"
    by (simp add: delete_bucket_tx_def delete_contents_def delete_uploads_tx_def Let_def photo_put_ok keys_under_def
        mem_db_def mem_entries_def tx_delete_def tx_step_def upload_ids_def session_keys_def HasPrefix_def slash_def)
  then obtain st tx where t: "delete_bucket_tx mem_db ''docs'' (md_stats photo_meta) (projr (bdb_Begin mem_db (md_db photo_meta))) = (st, Inr tx)"
    by blast
  obtain db' where "bolt_Update mem_db (md_db photo_meta) (md_stats photo_meta) (delete_bucket_tx mem_db ''docs'') = (db', st, Inr ())"
    by (rule Update_run [where f = "delete_bucket_tx mem_db ''docs''", OF mem_db_ok mem_db_no_errors t])
  then show ?thesis by (simp add: DeleteBucket_def)
qed

theorem DeleteBucket_exact_witness:
  "\<exists>s'. DeleteBucket mem_db photo_meta ''docs'' = (s', Inr ()) \<and> GetObject mem_db s' ''docs'' ''ab'' = Inl ErrKeyNotFound"
  using photo_delete_bucket DeleteBucket_exact [OF mem_db_ok, of "''docs''" photo_meta] by (force simp: slash_def)



text \<open>
  \<^verbatim>\<open>DeleteObject\<close> also deletes the version records of other objects: once the object \<open>k\<close> is
  deleted, no version of an object \<open>k/rest\<close> is found any more, although that object itself is still
  there. The comment in the code speaks of the version records "for this object".
\<close>

theorem DeleteObject_drops_nested_versions:
  assumes B: "bolt_db_ok B" and k: "GetObject B s b k = Inr m" and d: "DeleteObject B s b k = (s', Inr ())"
  shows "GetObjectVersion B s' b (k @ slash # rest) v = Inl ErrVersionNotFound \<and>
    GetObject B s' b (k @ slash # rest) = GetObject B s b (k @ slash # rest)"
proof -
  note h = DeleteObject_ok [OF B d k [unfolded GetObject_get [OF B]]]
  have "HasPrefix (versionKey b (k @ slash # rest) v) (objectKey b k @ [slash])"
    by (simp add: versionKey_def objectKey_def HasPrefix_prefix)
  moreover have "objectKey b (k @ slash # rest) \<noteq> objectKey b k" by (simp add: objectKey_def)
  ultimately show ?thesis
    by (simp add: GetObjectVersion_def GetObject_def View_get [OF B] holds_begin h without_def)
qed

lemma DeleteObject_runs:
  assumes B: "bolt_db_ok B" "bolt_no_errors B" and m: "GetObject B s b k = Inr m"
    and i: "GetBucket B s b = Inr info" "marshal_bucket (delete_info (om_Size m) info) = Inr d" "valid_key b"
  shows "\<exists>s'. DeleteObject B s b k = (s', Inr ())"
proof -
  let ?tx = "projr (bdb_Begin B (md_db s))"
  have g: "btx_Get B ?tx bktObjects (objectKey b k) = Some (MObject m)" "btx_Get B ?tx bktBuckets b = Some (MBucket info)"
    using m i(1) by (simp_all add: GetObject_get [OF B(1)] GetBucket_get [OF B(1)] holds_begin)
  obtain tx1 where t1: "tx_put B bktBuckets b d ?tx = Inr tx1" using Put_succeeds [OF B(2) i(3)] by blast
  obtain tx2 where t2: "tx_delete B bktObjects (objectKey b k) tx1 = Inr tx2" using Delete_succeeds [OF B(2)] by blast
  obtain tx3 where t3: "tx_delete_all B bktVersions
      (map fst (prefix_scan B tx2 bktVersions (objectKey b k @ [slash]))) tx2 = Inr tx3"
    using delete_all_succeeds [OF B(2)] by blast
  have "delete_object_tx B b k (md_stats s) ?tx = (add_stats (-1) 0 (- om_Size m) 0 (md_stats s), Inr tx3)"
    using g i(2) t1 t2 t3 by (simp add: delete_object_tx_def delete_counters_def)
  then obtain db' where "bolt_Update B (md_db s) (md_stats s) (delete_object_tx B b k) =
      (db', add_stats (-1) 0 (- om_Size m) 0 (md_stats s), Inr ())"
    using Update_run [where f = "delete_object_tx B b k", OF B] by metis
  then show ?thesis by (simp add: DeleteObject_def)
qed

lemma photo_delete: "\<exists>s'. DeleteObject mem_db photo_meta ''docs'' ''ab'' = (s', Inr ())"
  by (rule DeleteObject_runs [OF mem_db_ok mem_db_no_errors photo_get photo_bucket_get,
      where d = "MBucket (delete_info 5 photo_bucket)"])
    (simp_all add: marshal_bucket_def delete_info_def photo_bucket_def quota_bucket_def zero_bucket_def json_time_def
      Let_def int64_small valid_key_def MaxKeySize_def)

theorem DeleteObject_drops_nested_versions_witness:
  "\<exists>s'. DeleteObject mem_db photo_meta ''docs'' ''ab'' = (s', Inr ()) \<and>
     GetObjectVersion mem_db s' ''docs'' (''ab'' @ slash # ''c'') ''v7'' = Inl ErrVersionNotFound"
  using photo_delete DeleteObject_drops_nested_versions [OF mem_db_ok photo_get] by blast

text \<open>
  \<^verbatim>\<open>ListObjectsWithDelimiter\<close> cuts the prefix off twice and so panics: as soon as an object's
  key exceeds the prefix by fewer bytes than the prefix has, and the page is large enough to reach
  it, the slice expression is out of range.
\<close>

theorem ListObjectsWithDelimiter_panics:
  assumes B: "bolt_db_ok B" and k: "GetObject B s b (p @ r) = Inr m" "length r < length p"
    and n: "int (length (prefix_scan B (projr (bdb_Begin B (md_db s))) bktObjects (objectKey b p))) \<le> n"
  shows "ListObjectsWithDelimiter B s b p d n = Inl slice_panic"
proof -
  let ?tx = "projr (bdb_Begin B (md_db s))"
  have "(objectKey b (p @ r), MObject m) \<in> set (prefix_scan B ?tx bktObjects (objectKey b p))"
    using k(1) by (simp add: prefix_scan_mem [OF B] GetObject_get [OF B] holds_begin objectKey_HasPrefix)
  moreover have "length (objectKey b (p @ r)) < length (objectKey b p) + length p"
    using k(2) by (simp add: objectKey_def)
  ultimately have "delim_loop n (objectKey b p) p d (cursor_seek B ?tx bktObjects (objectKey b p)) ([], [], 0) = Inl slice_panic"
    using n unfolding prefix_scan_def by (intro delim_loop_panics) auto
  then show ?thesis by (simp add: ListObjectsWithDelimiter_def View_get [OF B])
qed

theorem ListObjectsWithDelimiter_panics_witness:
  "ListObjectsWithDelimiter mem_db photo_meta ''docs'' ''ab'' ''/'' 10 = Inl slice_panic"
  by (rule ListObjectsWithDelimiter_panics [OF mem_db_ok, where r = "''''" and m = stored_photo])
    (simp_all add: photo_get prefix_scan_filter photo_put_ok mem_entries_def)

end
