(* ===== verification/Integrity.thy ===== *)
theory Integrity
  imports Checksum "HOL-Library.Monad_Syntax"
begin

text \<open>
  Object integrity, \<^verbatim>\<open>internal/metadata/integrity.go\<close>: the checker, the readers and writers that
  hash what passes through them, the scrubber and the repair log.

  What the code calls through interfaces is an argument: the results of an underlying reader's
  successive \<^verbatim>\<open>Read\<close> calls, the storage that opens an object, the lister, and the handler called
  on corruption. The objects of a batch are scrubbed by parallel goroutines that only add to
  counters (and overwrite \<^verbatim>\<open>CurrentKey\<close>); they are run in the order of the batch. A loop that
  never ends, or a goroutine that blocks for ever, is \<^const>\<open>None\<close>.
\<close>

section \<open>The checker\<close>

type_synonym ChecksumType = string

definition ChecksumNone :: ChecksumType where "ChecksumNone = ''''"
definition ChecksumCRC32C :: ChecksumType where "ChecksumCRC32C = ''CRC32C''"
definition ChecksumCRC64 :: ChecksumType where "ChecksumCRC64 = ''CRC64''"
definition ChecksumSHA256 :: ChecksumType where "ChecksumSHA256 = ''SHA256''"

lemmas checksum_type_defs = ChecksumNone_def ChecksumCRC32C_def ChecksumCRC64_def ChecksumSHA256_def

type_synonym CorruptHandler = "string \<Rightarrow> string \<Rightarrow> go_err \<Rightarrow> unit result"

record ScrubConfig =
  sc_Enabled :: bool
  sc_Interval :: int
  sc_BatchSize :: int
  sc_StorageTiers :: "int list"
  sc_Parallelism :: int
  sc_OnCorruption :: "CorruptHandler option"

record ScrubState =
  ss_InProgress :: bool
  ss_StartedAt :: gotime
  ss_LastRunAt :: gotime
  ss_LastCompletedAt :: gotime
  ss_ObjectsChecked :: int
  ss_ObjectsCorrupt :: int
  ss_Errors :: int
  ss_CurrentBucket :: string
  ss_CurrentKey :: string

record IntegrityStats =
  is_ChecksPerformed :: int
  is_ChecksFailed :: int
  is_CorruptionsDetected :: int
  is_CorruptionsRepaired :: int
  is_LastScrubAt :: gotime

record IntegrityChecker =
  ic_enabled :: bool
  ic_defaultType :: ChecksumType
  ic_scrubConfig :: ScrubConfig
  ic_scrubState :: ScrubState
  ic_stats :: IntegrityStats

definition default_scrub_config :: ScrubConfig where
  "default_scrub_config = \<lparr>sc_Enabled = True, sc_Interval = 30 * 24 * 3600 * 10 ^ 9, sc_BatchSize = 1000,
     sc_StorageTiers = [], sc_Parallelism = 4, sc_OnCorruption = None\<rparr>"

definition NewIntegrityChecker :: "ScrubConfig option \<Rightarrow> IntegrityChecker" where
  "NewIntegrityChecker config0 =
     (let config = (case config0 of None \<Rightarrow> default_scrub_config | Some c \<Rightarrow> c)
      in \<lparr>ic_enabled = sc_Enabled config, ic_defaultType = ChecksumCRC32C, ic_scrubConfig = config,
          ic_scrubState = \<lparr>ss_InProgress = False, ss_StartedAt = 0, ss_LastRunAt = 0, ss_LastCompletedAt = 0,
            ss_ObjectsChecked = 0, ss_ObjectsCorrupt = 0, ss_Errors = 0, ss_CurrentBucket = '''', ss_CurrentKey = ''''\<rparr>,
          ic_stats = \<lparr>is_ChecksPerformed = 0, is_ChecksFailed = 0, is_CorruptionsDetected = 0,
            is_CorruptionsRepaired = 0, is_LastScrubAt = 0\<rparr>\<rparr>)"

definition or_default :: "IntegrityChecker \<Rightarrow> ChecksumType \<Rightarrow> ChecksumType" where
  "or_default ic typ = (if typ = '''' then ic_defaultType ic else typ)"

definition ComputeChecksum :: "(byte list \<Rightarrow> byte list) \<Rightarrow> IntegrityChecker \<Rightarrow> byte list \<Rightarrow> ChecksumType \<Rightarrow> string" where
  "ComputeChecksum sha ic data typ0 =
     (let typ = or_default ic typ0
      in if typ = ChecksumCRC32C then hex_width 8 (unat (crc_Update Castagnoli 0 data))
         else if typ = ChecksumCRC64 then hex_width 16 (unat (crc_Update ECMA 0 data))
         else if typ = ChecksumSHA256 then EncodeToString (hasher_Sum sha (hasher_Write (HSha []) data))
         else hex_width 8 (unat (ChecksumIEEE data)))"

text \<open>The hash that \<^verbatim>\<open>NewIntegrityReader\<close> and \<^verbatim>\<open>NewIntegrityWriter\<close> choose.\<close>

definition new_hash :: "ChecksumType \<Rightarrow> hasher" where
  "new_hash typ =
     (if typ = ChecksumCRC32C then HCrc32 Castagnoli 0
      else if typ = ChecksumCRC64 then HCrc64 ECMA 0
      else if typ = ChecksumSHA256 then HSha []
      else HCrc32 IEEE 0)"

definition mismatch_error :: "string \<Rightarrow> string \<Rightarrow> ChecksumType \<Rightarrow> go_err" where
  "mismatch_error expected computed typ =
     Err (''checksum mismatch: expected '' @ expected @ '', computed '' @ computed @ '' (type: '' @ typ @ '')'')"

definition Verify ::
    "(byte list \<Rightarrow> byte list) \<Rightarrow> IntegrityChecker \<Rightarrow> byte list \<Rightarrow> string \<Rightarrow> ChecksumType \<Rightarrow> bool \<times> go_err option" where
  "Verify sha ic data expected typ0 =
     (let typ = or_default ic typ0;
          computed = ComputeChecksum sha ic data typ
      in if computed \<noteq> expected then (False, Some (mismatch_error expected computed typ)) else (True, None))"

section \<open>Readers and writers\<close>

text \<open>The error of a \<^verbatim>\<open>Read\<close>: none, \<^verbatim>\<open>io.EOF\<close> or another.\<close>

datatype read_err = RNil | REOF | RErr string

type_synonym read_result = "byte list \<times> read_err"

record IntegrityReader =
  ir_checksum :: hasher
  ir_typ :: ChecksumType

definition NewIntegrityReader :: "IntegrityChecker \<Rightarrow> ChecksumType \<Rightarrow> IntegrityReader" where
  "NewIntegrityReader ic typ = \<lparr>ir_checksum = new_hash (or_default ic typ), ir_typ = or_default ic typ\<rparr>"

text \<open>\<open>res\<close> is what the underlying reader returns; it is passed on.\<close>

definition IntegrityReader_Read :: "IntegrityReader \<Rightarrow> read_result \<Rightarrow> IntegrityReader \<times> read_result" where
  "IntegrityReader_Read ir res =
     (if length (fst res) > 0 then (ir\<lparr>ir_checksum := hasher_Write (ir_checksum ir) (fst res)\<rparr>, res) else (ir, res))"

record ChecksumResult =
  cr_Type :: ChecksumType
  cr_Value :: string
  cr_Computed :: gotime

definition IntegrityReader_Result :: "(byte list \<Rightarrow> byte list) \<Rightarrow> gotime \<Rightarrow> IntegrityReader \<Rightarrow> ChecksumResult" where
  "IntegrityReader_Result sha now ir =
     \<lparr>cr_Type = ir_typ ir, cr_Value = EncodeToString (hasher_Sum sha (ir_checksum ir)), cr_Computed = now\<rparr>"

record IntegrityWriter =
  iw_checksum :: hasher
  iw_typ :: ChecksumType

definition NewIntegrityWriter :: "ChecksumType \<Rightarrow> IntegrityWriter" where
  "NewIntegrityWriter typ0 =
     (let typ = (if typ0 = '''' then ChecksumCRC32C else typ0) in \<lparr>iw_checksum = new_hash typ, iw_typ = typ\<rparr>)"

text \<open>
  \<^verbatim>\<open>io.MultiWriter(w, h)\<close>: the hash sees the bytes only if \<open>w\<close> took them all; \<open>res\<close> is what \<open>w\<close>
  returned, the number of bytes and an error.
\<close>

definition IntegrityWriter_Write ::
    "IntegrityWriter \<Rightarrow> byte list \<Rightarrow> nat \<times> string option \<Rightarrow> IntegrityWriter \<times> nat \<times> go_err option" where
  "IntegrityWriter_Write iw p res =
     (case res of
        (n, Some e) \<Rightarrow> (iw, n, Some (Err e))
      | (n, None) \<Rightarrow>
          (if n \<noteq> length p then (iw, n, Some (Err ''short write''))
           else (iw\<lparr>iw_checksum := hasher_Write (iw_checksum iw) p\<rparr>, length p, None)))"

definition IntegrityWriter_Result :: "(byte list \<Rightarrow> byte list) \<Rightarrow> gotime \<Rightarrow> IntegrityWriter \<Rightarrow> ChecksumResult" where
  "IntegrityWriter_Result sha now iw =
     \<lparr>cr_Type = iw_typ iw, cr_Value = EncodeToString (hasher_Sum sha (iw_checksum iw)), cr_Computed = now\<rparr>"

record ValidatingReader =
  vr_expected :: string
  vr_checksumType :: ChecksumType

definition ValidatingReader_Read ::
    "(byte list \<Rightarrow> byte list) \<Rightarrow> IntegrityChecker \<Rightarrow> ValidatingReader \<Rightarrow> read_result \<Rightarrow>
     ValidatingReader \<times> byte list \<times> (go_err + read_err)" where
  "ValidatingReader_Read sha ic vr res =
     (if length (fst res) > 0 \<and> vr_expected vr \<noteq> '''' then
        let vr' = (if vr_checksumType vr = '''' then vr\<lparr>vr_checksumType := ChecksumCRC32C\<rparr> else vr);
            checksum = ComputeChecksum sha ic (fst res) (vr_checksumType vr')
        in if checksum \<noteq> vr_expected vr'
           then (vr', fst res, Inl (mismatch_error (vr_expected vr') checksum (vr_checksumType vr')))
           else (vr', fst res, Inr (snd res))
      else (vr, fst res, Inr (snd res)))"

section \<open>The scrubber\<close>

record ObjectInfo =
  oi_Key :: string
  oi_StorageTier :: int
  oi_Size :: int
  oi_Checksum :: string
  oi_ChecksumType :: ChecksumType

definition shouldScrubTier :: "ScrubConfig \<Rightarrow> int \<Rightarrow> bool" where
  "shouldScrubTier config tier = (if sc_StorageTiers config = [] then True else tier \<in> set (sc_StorageTiers config))"

text \<open>
  \<^verbatim>\<open>io.ReadFull\<close> into a buffer of \<open>size\<close> bytes through an integrity reader: \<open>n\<close> bytes are in the
  buffer, the list holds the results of the underlying reader's next calls, and a reader that is
  exhausted returns \<^verbatim>\<open>io.EOF\<close>.
\<close>

datatype full_err = FNil | FEOF | FUnexpectedEOF | FErr string

definition full_result :: "nat \<Rightarrow> nat \<Rightarrow> read_err \<Rightarrow> full_err" where
  "full_result sz n err =
     (if n \<ge> sz then FNil
      else (case err of RNil \<Rightarrow> FNil | REOF \<Rightarrow> (if n > 0 then FUnexpectedEOF else FEOF) | RErr e \<Rightarrow> FErr e))"

fun read_full :: "nat \<Rightarrow> read_result list \<Rightarrow> IntegrityReader \<Rightarrow> nat \<Rightarrow> read_result list \<times> IntegrityReader \<times> full_err" where
  "read_full sz [] ir n = ([], ir, full_result sz n REOF)"
| "read_full sz (res # rest) ir n =
     (if n \<ge> sz then (res # rest, ir, FNil)
      else
        let (ir', r) = IntegrityReader_Read ir res;
            n' = n + length (fst r)
        in if snd r = RNil then read_full sz rest ir' n' else (rest, ir', full_result sz n' (snd r)))"

lemma read_full_length: "length (fst (read_full sz xs ir n)) \<le> length xs"
proof (induction xs arbitrary: ir n)
  case (Cons r rest)
  have "length (fst (read_full sz rest ir' n')) \<le> Suc (length rest)" for ir' n'
    by (rule le_SucI [OF Cons.IH])
  then show ?case by (simp add: Let_def split: prod.splits)
qed simp

lemma read_full_consumes:
  assumes "read_full sz xs ir 0 = (xs', ir', err)" "0 < sz" "err \<noteq> FEOF"
  shows "length xs' < length xs"
proof (cases xs)
  case Nil
  then show ?thesis using assms by (auto simp: full_result_def)
next
  case (Cons r rest)
  then have "xs' = rest \<or> (\<exists>ir2 n. xs' = fst (read_full sz rest ir2 n))"
    using assms(1,2) by (auto simp: Let_def split: prod.splits if_splits) (metis fst_conv)+
  then show ?thesis using Cons read_full_length [of sz rest] by (auto simp: less_Suc_eq_le)
qed

definition buf_size :: nat where "buf_size = 32 * 1024"

text \<open>The loop of \<^verbatim>\<open>scrubObject\<close> until \<^verbatim>\<open>io.EOF\<close> or another error.\<close>

function scrub_read :: "read_result list \<Rightarrow> IntegrityReader \<Rightarrow> string + IntegrityReader" where
  "scrub_read xs ir =
     (case read_full buf_size xs ir 0 of
        (xs', ir', err) \<Rightarrow>
          (if err = FEOF then Inr ir'
           else (case err of FErr e \<Rightarrow> Inl e | _ \<Rightarrow> scrub_read xs' ir')))"
  by pat_completeness auto

termination
  by (relation "measure (\<lambda>(xs, ir). length xs)") (auto simp: buf_size_def dest: read_full_consumes [OF sym])

declare scrub_read.simps [simp del]

text \<open>
  \<^verbatim>\<open>scrubObject\<close>; \<open>ReadObject\<close> gives the results that the opened reader will return. It is called
  with an empty bucket name, as the code does.
\<close>

definition add_scrub :: "int \<Rightarrow> int \<Rightarrow> int \<Rightarrow> IntegrityChecker \<Rightarrow> IntegrityChecker" where
  "add_scrub checked corrupt errors ic =
     ic\<lparr>ic_scrubState := (ic_scrubState ic)\<lparr>ss_ObjectsChecked := int64 (ss_ObjectsChecked (ic_scrubState ic) + checked),
          ss_ObjectsCorrupt := int64 (ss_ObjectsCorrupt (ic_scrubState ic) + corrupt),
          ss_Errors := int64 (ss_Errors (ic_scrubState ic) + errors)\<rparr>,
        ic_stats := (ic_stats ic)\<lparr>is_ChecksPerformed := int64 (is_ChecksPerformed (ic_stats ic) + checked),
          is_CorruptionsDetected := int64 (is_CorruptionsDetected (ic_stats ic) + corrupt)\<rparr>\<rparr>"

definition scrubObject ::
    "(byte list \<Rightarrow> byte list) \<Rightarrow> (string \<Rightarrow> string \<Rightarrow> string + read_result list) \<Rightarrow> ScrubConfig \<Rightarrow> gotime \<Rightarrow>
     ObjectInfo \<Rightarrow> IntegrityChecker \<Rightarrow> IntegrityChecker" where
  "scrubObject sha ReadObject config now obj ic0 =
     (let ic = ic0\<lparr>ic_scrubState := (ic_scrubState ic0)\<lparr>ss_CurrentKey := oi_Key obj\<rparr>\<rparr>
      in case ReadObject '''' (oi_Key obj) of
           Inl _ \<Rightarrow> add_scrub 0 0 1 ic
         | Inr reader \<Rightarrow>
             (case scrub_read reader (NewIntegrityReader ic (oi_ChecksumType obj)) of
                Inl _ \<Rightarrow> add_scrub 0 0 1 ic
              | Inr ir \<Rightarrow>
                  (if cr_Value (IntegrityReader_Result sha now ir) \<noteq> oi_Checksum obj then
                     (case sc_OnCorruption config of
                        None \<Rightarrow> add_scrub 1 1 0 ic
                      | Some handler \<Rightarrow>
                          (case handler '''' (oi_Key obj) (Err ''checksum mismatch'') of
                             Inl _ \<Rightarrow> add_scrub 1 1 1 ic
                           | Inr _ \<Rightarrow> add_scrub 1 1 0 ic))
                   else add_scrub 1 0 0 ic)))"

text \<open>
  The loop of \<^verbatim>\<open>ScrubBucket\<close>: \<open>lister i\<close> is the outcome of the \<open>i\<close>-th call of
  \<^verbatim>\<open>ListObjects(ctx, bucket, batchSize)\<close>. The semaphore is a channel of capacity
  \<^verbatim>\<open>Parallelism\<close>: none can be made with a negative one, and with capacity 0 the first send blocks.
\<close>

partial_function (option) scrub_loop ::
    "(byte list \<Rightarrow> byte list) \<Rightarrow> (string \<Rightarrow> string \<Rightarrow> string + read_result list) \<Rightarrow> ScrubConfig \<Rightarrow> gotime \<Rightarrow>
     (nat \<Rightarrow> string + ObjectInfo list) \<Rightarrow> nat \<Rightarrow> IntegrityChecker \<Rightarrow> (IntegrityChecker \<times> unit result) option" where
  "scrub_loop sha ReadObject config now lister i ic =
     (case lister i of
        Inl e \<Rightarrow> Some (add_scrub 0 0 1 ic, Inl (Err (''failed to list objects: '' @ e)))
      | Inr objects \<Rightarrow>
          (if objects = [] then Some (ic, Inr ())
           else if sc_Parallelism config < 0 then Some (ic, Inl (Panic ''makechan: size out of range''))
           else
             let todo = filter (\<lambda>obj. shouldScrubTier config (oi_StorageTier obj)) objects
             in if todo \<noteq> [] \<and> sc_Parallelism config = 0 then None
                else scrub_loop sha ReadObject config now lister (i + 1)
                       (fold (scrubObject sha ReadObject config now) todo ic)))"

definition ScrubBucket ::
    "(byte list \<Rightarrow> byte list) \<Rightarrow> (string \<Rightarrow> string \<Rightarrow> string + read_result list) \<Rightarrow> ScrubConfig \<Rightarrow> (nat \<Rightarrow> gotime) \<Rightarrow>
     (nat \<Rightarrow> string + ObjectInfo list) \<Rightarrow> string \<Rightarrow> IntegrityChecker \<Rightarrow> (IntegrityChecker \<times> unit result) option" where
  "ScrubBucket sha ReadObject config clk lister bucket ic =
     (let ic1 = ic\<lparr>ic_scrubState := (ic_scrubState ic)\<lparr>ss_InProgress := True, ss_StartedAt := clk 0, ss_CurrentBucket := bucket\<rparr>\<rparr>
      in map_option (\<lambda>(ic2, r).
           (ic2\<lparr>ic_scrubState := (ic_scrubState ic2)\<lparr>ss_InProgress := False, ss_LastCompletedAt := clk 1\<rparr>\<rparr>, r))
           (scrub_loop sha ReadObject config (clk 1) lister 0 ic1))"

definition GetScrubState :: "IntegrityChecker \<Rightarrow> ScrubState" where
  "GetScrubState ic = ic_scrubState ic"

definition Integrity_GetStats :: "IntegrityChecker \<Rightarrow> IntegrityStats" where
  "Integrity_GetStats ic = ic_stats ic"

section \<open>The repair log\<close>

record RepairRecord =
  rr_ID :: string
  rr_Bucket :: string
  rr_Key :: string
  rr_OldChecksum :: string
  rr_NewChecksum :: string
  rr_RepairedAt :: gotime
  rr_Success :: bool
  rr_Error :: string

record RepairHandler =
  rh_repairLog :: "RepairRecord list"
  rh_maxRecords :: int

definition NewRepairHandler :: "int \<Rightarrow> RepairHandler" where
  "NewRepairHandler maxRecords =
     \<lparr>rh_repairLog = [], rh_maxRecords = (if maxRecords \<le> 0 then 10000 else maxRecords)\<rparr>"

definition RecordRepair :: "string \<Rightarrow> gotime \<Rightarrow> RepairHandler \<Rightarrow> RepairRecord \<Rightarrow> RepairHandler" where
  "RecordRepair uuid now rh record0 =
     (let rec1 = (if rr_ID record0 = '''' then record0\<lparr>rr_ID := uuid\<rparr> else record0);
          log = rh_repairLog rh @ [rec1\<lparr>rr_RepairedAt := now\<rparr>]
      in rh\<lparr>rh_repairLog := (if int (length log) > rh_maxRecords rh
                            then drop (nat (int (length log) - rh_maxRecords rh)) log else log)\<rparr>)"

definition GetRepairHistory :: "RepairHandler \<Rightarrow> int \<Rightarrow> RepairRecord list" where
  "GetRepairHistory rh limit0 =
     (let n = int (length (rh_repairLog rh));
          limit = (if limit0 \<le> 0 \<or> limit0 > n then n else limit0)
      in drop (nat (n - limit)) (rh_repairLog rh))"

section \<open>What the readers compute\<close>

text \<open>
  The results of a reader that delivers \<open>data\<close>: any chunks, no error before the last one, and the
  end of file with the last chunk or after it.
\<close>

definition delivers :: "read_result list \<Rightarrow> byte list \<Rightarrow> bool" where
  "delivers xs data \<longleftrightarrow> concat (map fst xs) = data \<and> (\<forall>r \<in> set (butlast xs). snd r = RNil) \<and>
     (xs \<noteq> [] \<longrightarrow> snd (last xs) \<in> {RNil, REOF})"

lemma delivers_Nil [simp]: "delivers [] data \<longleftrightarrow> data = []"
  by (auto simp: delivers_def)

lemma delivers_Cons:
  assumes "delivers (r # xs) data"
  obtains d where "data = fst r @ d" "delivers xs d" "snd r = RNil \<or> snd r = REOF \<and> xs = []"
  using assms by (cases xs) (auto simp: delivers_def)

lemma Read_hash: "IntegrityReader_Read ir res = (ir\<lparr>ir_checksum := hasher_Write (ir_checksum ir) (fst res)\<rparr>, res)"
  by (simp add: IntegrityReader_Read_def)

lemma full_result_EOF: "full_result sz n REOF = (if n \<ge> sz then FNil else if n > 0 then FUnexpectedEOF else FEOF)"
  by (simp add: full_result_def)

lemma read_full_delivers:
  assumes "delivers xs data" "read_full sz xs ir n = (xs', ir', err)"
  shows "\<exists>d1 d2. data = d1 @ d2 \<and> delivers xs' d2 \<and> ir' = ir\<lparr>ir_checksum := hasher_Write (ir_checksum ir) d1\<rparr> \<and>
    (err = FEOF \<longrightarrow> d2 = []) \<and> (\<forall>e. err \<noteq> FErr e)"
  using assms
proof (induction xs arbitrary: ir n data)
  case Nil
  then show ?case by (auto simp: full_result_EOF split: if_splits)
next
  case (Cons r rest)
  obtain d where d: "data = fst r @ d" "delivers rest d" "snd r = RNil \<or> snd r = REOF \<and> rest = []"
    using delivers_Cons [OF Cons.prems(1)] .
  let ?ir = "ir\<lparr>ir_checksum := hasher_Write (ir_checksum ir) (fst r)\<rparr>"
  show ?case
  proof (cases "sz \<le> n")
    case True
    then show ?thesis using Cons.prems by (intro exI [of _ "[]"] exI [of _ data]) auto
  next
    case lt: False
    show ?thesis
    proof (cases "snd r = RNil")
      case True
      then have "read_full sz rest ?ir (n + length (fst r)) = (xs', ir', err)"
        using Cons.prems(2) lt by (simp add: Read_hash Let_def)
      from Cons.IH [OF d(2) this] obtain d1 d2 where e: "d = d1 @ d2" "delivers xs' d2"
        "ir' = ?ir\<lparr>ir_checksum := hasher_Write (ir_checksum ?ir) d1\<rparr>" "err = FEOF \<longrightarrow> d2 = []" "\<forall>e. err \<noteq> FErr e"
        by blast
      then show ?thesis
        using d(1) by (intro exI [of _ "fst r @ d1"] exI [of _ d2]) (simp add: hasher_Write_append)
    next
      case False
      then have "rest = []" "snd r = REOF" using d(3) by auto
      then show ?thesis
        using Cons.prems(2) lt d
        by (intro exI [of _ "fst r"] exI [of _ "[]"]) (auto simp: Read_hash Let_def full_result_EOF split: if_splits)
    qed
  qed
qed

lemma scrub_read_delivers:
  "delivers xs data \<Longrightarrow> scrub_read xs ir = Inr (ir\<lparr>ir_checksum := hasher_Write (ir_checksum ir) data\<rparr>)"
proof (induction xs ir arbitrary: data rule: scrub_read.induct)
  case (1 xs ir)
  obtain xs' ir' err where r: "read_full buf_size xs ir 0 = (xs', ir', err)" by (metis prod.exhaust)
  obtain d1 d2 where d: "data = d1 @ d2" "delivers xs' d2" "ir' = ir\<lparr>ir_checksum := hasher_Write (ir_checksum ir) d1\<rparr>"
    "err = FEOF \<longrightarrow> d2 = []" "\<forall>e. err \<noteq> FErr e"
    using read_full_delivers [OF "1.prems" r] by blast
  show ?case
  proof (cases "err = FEOF")
    case True
    then show ?thesis using r d by (subst scrub_read.simps) simp
  next
    case False
    have "scrub_read xs' ir' = Inr (ir'\<lparr>ir_checksum := hasher_Write (ir_checksum ir') d2\<rparr>)"
      using False d(2,5) "1.IH" [OF r [symmetric] refl] by (cases err) auto
    then show ?thesis
      using r d False by (subst scrub_read.simps) (cases err, auto simp: hasher_Write_append)
  qed
qed

text \<open>The streamed checksum is the one computed over the whole data.\<close>

lemma ComputeChecksum_stream:
  "ComputeChecksum sha ic data typ = EncodeToString (hasher_Sum sha (hasher_Write (new_hash (or_default ic typ)) data))"
  by (simp add: ComputeChecksum_def new_hash_def Let_def hex_be_bytes ChecksumIEEE_def)

lemma unat_word_bound: "unat (w :: 32 word) < 16 ^ 8" "unat (v :: 64 word) < 16 ^ 16"
  using unsigned_less [of w] unsigned_less [of v] by simp_all

lemma ComputeChecksum_byte:
  assumes "or_default ic typ \<noteq> ChecksumSHA256"
  shows "ComputeChecksum sha ic (p @ b # q) typ = ComputeChecksum sha ic (p @ b' # q) typ \<longleftrightarrow> b = b'"
proof -
  have "crc_Update Castagnoli 0 (p @ b # q) = crc_Update Castagnoli 0 (p @ b' # q) \<longleftrightarrow> b = b'"
    "crc_Update IEEE 0 (p @ b # q) = crc_Update IEEE 0 (p @ b' # q) \<longleftrightarrow> b = b'"
    "crc_Update ECMA 0 (p @ b # q) = crc_Update ECMA 0 (p @ b' # q) \<longleftrightarrow> b = b'"
    using crc_detects_byte [of Castagnoli b b' 0 p q] crc_detects_byte [of IEEE b b' 0 p q]
      crc_detects_byte [of ECMA b b' 0 p q] crc_top_bits by auto
  moreover have "hex_width 8 (unat (v :: 32 word)) = hex_width 8 (unat w) \<longleftrightarrow> v = w" for v w
    using hex_width_inj unat_word_bound(1) by (metis unsigned_word_eqI)
  moreover have "hex_width 16 (unat (v :: 64 word)) = hex_width 16 (unat w) \<longleftrightarrow> v = w" for v w
    using hex_width_inj unat_word_bound(2) by (metis unsigned_word_eqI)
  ultimately show ?thesis using assms by (simp add: ComputeChecksum_def Let_def ChecksumIEEE_def)
qed

lemma scrubObject_verdict:
  assumes "ReadObject '''' (oi_Key obj) = Inr xs" "delivers xs data"
  shows "ss_ObjectsCorrupt (ic_scrubState (scrubObject sha ReadObject config now obj ic)) =
      int64 (ss_ObjectsCorrupt (ic_scrubState ic) +
        (if ComputeChecksum sha ic data (oi_ChecksumType obj) = oi_Checksum obj then 0 else 1))"
    and "ss_ObjectsChecked (ic_scrubState (scrubObject sha ReadObject config now obj ic)) =
      int64 (ss_ObjectsChecked (ic_scrubState ic) + 1)"
  using assms
  by (auto simp: scrubObject_def Let_def scrub_read_delivers [OF assms(2)] IntegrityReader_Result_def NewIntegrityReader_def
      ComputeChecksum_stream or_default_def add_scrub_def split: option.splits sum.splits)

text \<open>
  The validating reader compares the checksum of each chunk with that of the whole object, so data
  that arrives in more than one chunk is refused unless the checksums happen to agree.
\<close>

lemma ValidatingReader_refuses_chunks:
  assumes "c1 \<noteq> []" "typ \<noteq> ''''" "ComputeChecksum sha ic c1 typ \<noteq> ComputeChecksum sha ic (c1 @ c2) typ"
    and "ComputeChecksum sha ic (c1 @ c2) typ \<noteq> ''''"
  shows "isl (snd (snd (ValidatingReader_Read sha ic
    \<lparr>vr_expected = ComputeChecksum sha ic (c1 @ c2) typ, vr_checksumType = typ\<rparr> (c1, RNil))))"
  using assms by (simp add: ValidatingReader_Read_def Let_def)

text \<open>The repair log keeps the latest records, and no more than its maximum.\<close>

lemma RecordRepair_log:
  assumes "0 < rh_maxRecords rh" "int (length (rh_repairLog rh)) \<le> rh_maxRecords rh"
  shows "int (length (rh_repairLog (RecordRepair uuid now rh r))) \<le> rh_maxRecords rh"
    and "rr_RepairedAt (last (rh_repairLog (RecordRepair uuid now rh r))) = now"
  using assms by (auto simp: RecordRepair_def Let_def last_drop)

text \<open>A lister that always has objects, and a semaphore that can be made.\<close>

definition busy :: "ScrubConfig \<Rightarrow> (nat \<Rightarrow> string + ObjectInfo list) \<Rightarrow> bool" where
  "busy config lister \<longleftrightarrow> (\<forall>i. \<exists>x xs. lister i = Inr (x # xs)) \<and> 0 \<le> sc_Parallelism config"

lemma scrub_loop_busy:
  assumes "busy config lister"
  shows "scrub_loop sha rd config now lister i ic = None"
proof (rule ccontr)
  assume "scrub_loop sha rd config now lister i ic \<noteq> None"
  then obtain y where "scrub_loop sha rd config now lister i ic = Some y" by blast
  then have "\<not> busy config lister"
  proof (rule scrub_loop.raw_induct [where P = "\<lambda>sha rd config now lister i ic y. \<not> busy config lister", rotated])
    fix f sha rd config now lister i ic y
    assume IH: "\<And>sha rd config now lister i ic y. f sha rd config now lister i ic = Some y \<Longrightarrow> \<not> busy config lister"
      and eq: "(case lister i of
        Inl e \<Rightarrow> Some (add_scrub 0 0 1 ic, Inl (Err (''failed to list objects: '' @ e)))
      | Inr objects \<Rightarrow>
          (if objects = [] then Some (ic, Inr ())
           else if sc_Parallelism config < 0 then Some (ic, Inl (Panic ''makechan: size out of range''))
           else
             let todo = filter (\<lambda>obj. shouldScrubTier config (oi_StorageTier obj)) objects
             in if todo \<noteq> [] \<and> sc_Parallelism config = 0 then None
                else f sha rd config now lister (i + 1)
                       (fold (scrubObject sha rd config now) todo ic))) = Some y"
    show "\<not> busy config lister"
    proof
      assume b: "busy config lister"
      then obtain x xs where "lister i = Inr (x # xs)" "\<not> sc_Parallelism config < 0"
        unfolding busy_def by force
      with eq obtain ic' where "f sha rd config now lister (i + 1) ic' = Some y"
        by (auto simp: Let_def split: if_splits)
      from IH [OF this] b show False by simp
    qed
  qed
  with assms show False by simp
qed

section \<open>Properties\<close>

text \<open>
  C24. The scrubber detects every corruption of one byte. The recorded checksum of an object is that
  of its data and is a CRC; the storage delivers the data with the byte after \<open>p\<close> replaced, in any
  chunks. Then the object is counted as checked, and as corrupt exactly if the byte differs.
\<close>

theorem scrub_detects_flipped_byte:
  assumes "ReadObject '''' (oi_Key obj) = Inr xs" "delivers xs (p @ b' # q)"
    and "oi_Checksum obj = ComputeChecksum sha ic (p @ b # q) (oi_ChecksumType obj)"
    and "or_default ic (oi_ChecksumType obj) \<noteq> ChecksumSHA256"
  shows "ss_ObjectsCorrupt (ic_scrubState (scrubObject sha ReadObject config now obj ic)) =
      int64 (ss_ObjectsCorrupt (ic_scrubState ic) + (if b' = b then 0 else 1)) \<and>
    ss_ObjectsChecked (ic_scrubState (scrubObject sha ReadObject config now obj ic)) =
      int64 (ss_ObjectsChecked (ic_scrubState ic) + 1)"
  using scrubObject_verdict [of ReadObject, OF assms(1,2)] ComputeChecksum_byte [OF assms(4), of sha p b' q b] assms(3) by simp

definition flaky_object :: ObjectInfo where
  "flaky_object = \<lparr>oi_Key = ''k'', oi_StorageTier = 0, oi_Size = 2,
     oi_Checksum = ComputeChecksum id (NewIntegrityChecker None) [1, 2] '''', oi_ChecksumType = ''''\<rparr>"

theorem scrub_detects_flipped_byte_witness:
  "ss_ObjectsCorrupt (ic_scrubState (scrubObject id (\<lambda>_ _. Inr [([1], RNil), ([3], REOF)]) default_scrub_config 0
     flaky_object (NewIntegrityChecker None))) = 1"
  using scrub_detects_flipped_byte [where ReadObject = "\<lambda>_ _. Inr [([1], RNil), ([3], REOF)]" and obj = flaky_object
      and p = "[1]" and b = 2 and b' = 3 and q = "[]" and sha = id and ic = "NewIntegrityChecker None", OF refl]
  by (simp add: delivers_def flaky_object_def NewIntegrityChecker_def Let_def or_default_def checksum_type_defs int64_small)

text \<open>
  Scrubbing a bucket that is not empty never ends. \<^verbatim>\<open>ScrubBucket\<close> asks for the first batch
  again and again (the offset it advances is not passed on): as long as the lister returns objects,
  it does not return.
\<close>

theorem ScrubBucket_never_returns:
  assumes "\<forall>i. \<exists>x xs. lister i = Inr (x # xs)" "0 \<le> sc_Parallelism config"
  shows "ScrubBucket sha ReadObject config clk lister bucket ic = None"
  using assms scrub_loop_busy by (simp add: ScrubBucket_def Let_def busy_def)

theorem ScrubBucket_never_returns_witness:
  "ScrubBucket id (\<lambda>_ _. Inl ''gone'') default_scrub_config (\<lambda>_. 0) (\<lambda>_. Inr [flaky_object]) ''docs'' (NewIntegrityChecker None) = None"
  by (rule ScrubBucket_never_returns) (simp_all add: default_scrub_config_def)

end
