(* ===== verification/Raft_FSM.thy ===== *)
theory Raft_FSM
  imports Meta_Store
begin

text \<open>
  The replicated state machine of \<^verbatim>\<open>internal/raft\<close>: \<^verbatim>\<open>BoltFSM\<close> (\<^verbatim>\<open>fsm.go\<close>), which applies committed log
  entries to its own BoltDB file, and \<^verbatim>\<open>RaftMetadataProxy\<close> (\<^verbatim>\<open>proxy.go\<close>), which sends the writes of the
  metadata store through the log and answers reads from the local store.

  The consensus library (\<^verbatim>\<open>github.com/hashicorp/raft\<close>) is not part of the repository. Of it the
  model takes the outcome of \<^verbatim>\<open>raft.Apply\<close> as an argument: the entry is committed and applied by
  the state machine, or it is not and an error is returned, or an error is returned although
  the entry is applied. Log entries carry the operation; \<^const>\<open>Inl\<close> is an entry that is not JSON.
\<close>

section \<open>The state machine\<close>

record 'd FSMOperation =
  op_Type :: string
  op_Bucket :: string
  op_Key :: string
  op_Data :: 'd

datatype FSMApplyResult = ApplySuccess | ApplyFailure string

text \<open>\<open>fsm_open\<close> is false once the database has been closed.\<close>

record 'db BoltFSM =
  fsm_db :: 'db
  fsm_path :: string
  fsm_open :: bool

definition fsm_buckets :: "string list" where
  "fsm_buckets = [''buckets'', ''objects'', ''object_versions'', ''uploads'', ''upload_parts'', ''access_history'',
     ''vectors'', ''pipelines'', ''bucket_index'', ''object_index'']"

definition NewBoltFSM ::
    "('db, 'tx, 'd) bolt_db \<Rightarrow> string option \<Rightarrow> string + 'db \<Rightarrow> string \<Rightarrow> 'db BoltFSM result" where
  "NewBoltFSM B mkdir opened path =
     (case mkdir of
        Some e \<Rightarrow> Inl (Err (''failed to create FSM directory: '' @ e))
      | None \<Rightarrow>
          (case opened of
             Inl e \<Rightarrow> Inl (Err (''failed to open FSM bolt db: '' @ e))
           | Inr db \<Rightarrow>
               (case bolt_Update B db () (\<lambda>u tx. (u, create_buckets B fsm_buckets tx)) of
                  (_, _, Inl e) \<Rightarrow> Inl (wrap_err ''failed to initialize FSM buckets'' e)
                | (db', _, Inr _) \<Rightarrow> Inr \<lparr>fsm_db = db', fsm_path = path, fsm_open = True\<rparr>)))"

definition op_key :: "'d FSMOperation \<Rightarrow> string" where
  "op_key op = op_Bucket op @ slash # op_Key op"

text \<open>A closure on the database of the state machine; a closed database refuses it.\<close>

definition fsm_update :: "('db, 'tx, 'd) bolt_db \<Rightarrow> ('tx \<Rightarrow> 'tx result) \<Rightarrow> 'db BoltFSM \<Rightarrow> 'db BoltFSM \<times> unit result" where
  "fsm_update B f s =
     (if fsm_open s then
        (case bolt_Update B (fsm_db s) () (\<lambda>u tx. (u, f tx)) of (db', _, r) \<Rightarrow> (s\<lparr>fsm_db := db'\<rparr>, r))
      else (s, Inl (Err ''database not open'')))"

text \<open>The index entry of \<^verbatim>\<open>applyPutObject\<close>; an error of that put is not looked at.\<close>

definition put_object_index :: "('db, 'tx, 'd) bolt_db \<Rightarrow> 'd FSMOperation \<Rightarrow> 'tx \<Rightarrow> 'tx" where
  "put_object_index B op tx =
     (let ikey = op_Bucket op @ slash # extractPrefix (op_Key op)
      in if btx_Get B tx bktObjectIndex ikey = None
         then (case tx_put B bktObjectIndex ikey (op_Data op) tx of Inl _ \<Rightarrow> tx | Inr tx' \<Rightarrow> tx')
         else tx)"

definition applyPutObject :: "('db, 'tx, 'd) bolt_db \<Rightarrow> 'd FSMOperation \<Rightarrow> 'db BoltFSM \<Rightarrow> 'db BoltFSM \<times> unit result" where
  "applyPutObject B op = fsm_update B (\<lambda>tx.
     case tx_put B bktObjects (op_key op) (op_Data op) tx of Inl e \<Rightarrow> Inl e | Inr tx1 \<Rightarrow> Inr (put_object_index B op tx1))"

definition applyDeleteObject :: "('db, 'tx, 'd) bolt_db \<Rightarrow> 'd FSMOperation \<Rightarrow> 'db BoltFSM \<Rightarrow> 'db BoltFSM \<times> unit result" where
  "applyDeleteObject B op = fsm_update B (tx_delete B bktObjects (op_key op))"

definition applyCreateBucket :: "('db, 'tx, 'd) bolt_db \<Rightarrow> 'd FSMOperation \<Rightarrow> 'db BoltFSM \<Rightarrow> 'db BoltFSM \<times> unit result" where
  "applyCreateBucket B op = fsm_update B (tx_put B bktBuckets (op_Bucket op) (op_Data op))"

text \<open>The deletes of \<^verbatim>\<open>applyDeleteBucket\<close> whose errors are not looked at.\<close>

fun delete_each :: "('db, 'tx, 'd) bolt_db \<Rightarrow> string \<Rightarrow> string list \<Rightarrow> 'tx \<Rightarrow> 'tx" where
  "delete_each B bk [] tx = tx"
| "delete_each B bk (k # ks) tx =
     delete_each B bk ks (case tx_delete B bk k tx of Inl _ \<Rightarrow> tx | Inr tx' \<Rightarrow> tx')"

definition applyDeleteBucket :: "('db, 'tx, 'd) bolt_db \<Rightarrow> 'd FSMOperation \<Rightarrow> 'db BoltFSM \<Rightarrow> 'db BoltFSM \<times> unit result" where
  "applyDeleteBucket B op = fsm_update B (\<lambda>tx.
     tx_delete B bktBuckets (op_Bucket op)
       (delete_each B bktObjects (map fst (prefix_scan B tx bktObjects (op_Bucket op @ [slash]))) tx))"

definition applyUpdateBucket :: "('db, 'tx, 'd) bolt_db \<Rightarrow> 'd FSMOperation \<Rightarrow> 'db BoltFSM \<Rightarrow> 'db BoltFSM \<times> unit result" where
  "applyUpdateBucket B op = fsm_update B (tx_put B bktBuckets (op_Bucket op) (op_Data op))"

definition applyPutObjectVersion :: "('db, 'tx, 'd) bolt_db \<Rightarrow> 'd FSMOperation \<Rightarrow> 'db BoltFSM \<Rightarrow> 'db BoltFSM \<times> unit result" where
  "applyPutObjectVersion B op = fsm_update B (tx_put B bktVersions (op_key op) (op_Data op))"

definition applyPutUpload :: "('db, 'tx, 'd) bolt_db \<Rightarrow> 'd FSMOperation \<Rightarrow> 'db BoltFSM \<Rightarrow> 'db BoltFSM \<times> unit result" where
  "applyPutUpload B op = fsm_update B (tx_put B bktUploads (op_key op) (op_Data op))"

definition applyDeleteUpload :: "('db, 'tx, 'd) bolt_db \<Rightarrow> 'd FSMOperation \<Rightarrow> 'db BoltFSM \<Rightarrow> 'db BoltFSM \<times> unit result" where
  "applyDeleteUpload B op = fsm_update B (tx_delete B bktUploads (op_key op))"

definition applyAddPart :: "('db, 'tx, 'd) bolt_db \<Rightarrow> 'd FSMOperation \<Rightarrow> 'db BoltFSM \<Rightarrow> 'db BoltFSM \<times> unit result" where
  "applyAddPart B op = fsm_update B (tx_put B bktParts (op_key op) (op_Data op))"

definition apply_op :: "('db, 'tx, 'd) bolt_db \<Rightarrow> 'd FSMOperation \<Rightarrow> 'db BoltFSM \<Rightarrow> ('db BoltFSM \<times> unit result) option" where
  "apply_op B op s =
     (if op_Type op = ''put_object'' then Some (applyPutObject B op s)
      else if op_Type op = ''delete_object'' then Some (applyDeleteObject B op s)
      else if op_Type op = ''create_bucket'' then Some (applyCreateBucket B op s)
      else if op_Type op = ''delete_bucket'' then Some (applyDeleteBucket B op s)
      else if op_Type op = ''update_bucket'' then Some (applyUpdateBucket B op s)
      else if op_Type op = ''put_object_version'' then Some (applyPutObjectVersion B op s)
      else if op_Type op = ''put_upload'' then Some (applyPutUpload B op s)
      else if op_Type op = ''delete_upload'' then Some (applyDeleteUpload B op s)
      else if op_Type op = ''add_part'' then Some (applyAddPart B op s)
      else None)"

definition Apply ::
    "('db, 'tx, 'd) bolt_db \<Rightarrow> string + 'd FSMOperation \<Rightarrow> 'db BoltFSM \<Rightarrow> 'db BoltFSM \<times> FSMApplyResult" where
  "Apply B entry s =
     (case entry of
        Inl e \<Rightarrow> (s, ApplyFailure (''failed to unmarshal operation: '' @ e))
      | Inr op \<Rightarrow>
          (case apply_op B op s of
             None \<Rightarrow> (s, ApplyFailure (''unknown operation type: '' @ op_Type op))
           | Some (s', Inl e) \<Rightarrow> (s', ApplyFailure (err_text e))
           | Some (s', Inr _) \<Rightarrow> (s', ApplySuccess)))"

text \<open>
  \<^verbatim>\<open>Snapshot\<close> only remembers the state machine; \<^verbatim>\<open>Persist\<close> writes its database out when it is called.
\<close>

datatype persist_io = PersistOk | WriteToFails string | SinkFails string

definition Persist :: "persist_io \<Rightarrow> 'db BoltFSM \<Rightarrow> 'db option \<times> unit result" where
  "Persist io s =
     (if \<not> fsm_open s then (None, Inl (Err ''database not open''))
      else case io of
             WriteToFails e \<Rightarrow> (None, Inl (Err e))
           | SinkFails e \<Rightarrow> (None, Inl (Err e))
           | PersistOk \<Rightarrow> (Some (fsm_db s), Inr ()))"

text \<open>
  \<^verbatim>\<open>Restore\<close> closes the database first; what the file system does decides where it stops. The
  snapshot is the database that \<^verbatim>\<open>Persist\<close> wrote.
\<close>

datatype 'db restore_io = RestoreOk 'db | CreateFails string | ReadFails string | RenameFails string | ReopenFails string

definition Restore :: "'db restore_io \<Rightarrow> 'db BoltFSM \<Rightarrow> 'db BoltFSM \<times> unit result" where
  "Restore io s =
     (let s1 = s\<lparr>fsm_open := False\<rparr>
      in case io of
           CreateFails e \<Rightarrow> (s1, Inl (Err (''failed to create temp file for restore: '' @ e)))
         | ReadFails e \<Rightarrow> (s1, Inl (Err (''failed to read snapshot data: '' @ e)))
         | RenameFails e \<Rightarrow> (s1, Inl (Err (''failed to replace database file: '' @ e)))
         | ReopenFails e \<Rightarrow> (s1, Inl (Err (''failed to reopen database after restore: '' @ e)))
         | RestoreOk db \<Rightarrow> (s1\<lparr>fsm_db := db, fsm_open := True\<rparr>, Inr ()))"

definition FSM_Close :: "unit result \<Rightarrow> 'db BoltFSM \<Rightarrow> 'db BoltFSM \<times> unit result" where
  "FSM_Close r s = (s\<lparr>fsm_open := False\<rparr>, r)"

section \<open>The proxy\<close>

datatype commit = Committed | NotCommitted string | CommittedLate string

definition RaftApply ::
    "('db, 'tx, 'd) bolt_db \<Rightarrow> commit \<Rightarrow> 'd FSMOperation \<Rightarrow> 'db BoltFSM \<Rightarrow> 'db BoltFSM \<times> unit result" where
  "RaftApply B c op s =
     (case c of
        Committed \<Rightarrow> (fst (Apply B (Inr op) s), Inr ())
      | NotCommitted e \<Rightarrow> (s, Inl (Err (''raft apply failed: '' @ e)))
      | CommittedLate e \<Rightarrow> (fst (Apply B (Inr op) s), Inl (Err (''raft apply failed: '' @ e))))"

text \<open>The local store, the state machine of the node (none when the node is nil), the switch.\<close>

record ('db, 'fdb) RaftMetadataProxy =
  rp_store :: "'db MetaStore"
  rp_node :: "'fdb BoltFSM option"
  rp_enabled :: bool

text \<open>Where a write goes: to the node if there is one and Raft is on, otherwise to the store.\<close>

definition proxy_node :: "('db, 'fdb) RaftMetadataProxy \<Rightarrow> 'fdb BoltFSM option" where
  "proxy_node p = (if rp_enabled p then rp_node p else None)"

definition send ::
    "('fdb, 'ftx, meta_doc) bolt_db \<Rightarrow> commit \<Rightarrow> ('db, 'fdb) RaftMetadataProxy \<Rightarrow> 'fdb BoltFSM \<Rightarrow> meta_doc FSMOperation \<Rightarrow>
     ('db, 'fdb) RaftMetadataProxy \<times> unit result" where
  "send F c p node op = (case RaftApply F c op node of (node', r) \<Rightarrow> (p\<lparr>rp_node := Some node'\<rparr>, r))"

definition operation :: "string \<Rightarrow> string \<Rightarrow> string \<Rightarrow> meta_doc \<Rightarrow> meta_doc FSMOperation" where
  "operation typ bucket key data = \<lparr>op_Type = typ, op_Bucket = bucket, op_Key = key, op_Data = data\<rparr>"

text \<open>An operation without data carries the JSON value \<^verbatim>\<open>null\<close>, the argument \<open>nul\<close>.\<close>

definition proxy_PutObject ::
    "('db, 'tx, meta_doc) bolt_db \<Rightarrow> ('fdb, 'ftx, meta_doc) bolt_db \<Rightarrow> (meta_doc \<Rightarrow> byte list) \<Rightarrow> wal_io \<Rightarrow> string \<Rightarrow>
     (nat \<Rightarrow> gotime) \<Rightarrow> commit \<Rightarrow> ('db, 'fdb) RaftMetadataProxy \<Rightarrow> string \<Rightarrow> string \<Rightarrow> ObjectMetadata \<Rightarrow>
     ('db, 'fdb) RaftMetadataProxy \<times> ObjectMetadata \<times> unit result" where
  "proxy_PutObject B F J io uuid clk c p bucket key md =
     (case proxy_node p of
        None \<Rightarrow> (case PutObject B J io uuid clk (rp_store p) bucket key md of (s', md', r) \<Rightarrow> (p\<lparr>rp_store := s'\<rparr>, md', r))
      | Some node \<Rightarrow>
          (case marshal_object md of
             Inl e \<Rightarrow> (p, md, Inl (wrap_err ''failed to marshal object metadata'' e))
           | Inr data \<Rightarrow> (case send F c p node (operation ''put_object'' bucket key data) of (p', r) \<Rightarrow> (p', md, r))))"

definition proxy_GetObject ::
    "('db, 'tx, meta_doc) bolt_db \<Rightarrow> ('db, 'fdb) RaftMetadataProxy \<Rightarrow> string \<Rightarrow> string \<Rightarrow> ObjectMetadata result" where
  "proxy_GetObject B p bucket key = GetObject B (rp_store p) bucket key"

definition proxy_DeleteObject ::
    "('db, 'tx, meta_doc) bolt_db \<Rightarrow> ('fdb, 'ftx, meta_doc) bolt_db \<Rightarrow> meta_doc \<Rightarrow> commit \<Rightarrow> ('db, 'fdb) RaftMetadataProxy \<Rightarrow>
     string \<Rightarrow> string \<Rightarrow> ('db, 'fdb) RaftMetadataProxy \<times> unit result" where
  "proxy_DeleteObject B F nul c p bucket key =
     (case proxy_node p of
        None \<Rightarrow> (case DeleteObject B (rp_store p) bucket key of (s', r) \<Rightarrow> (p\<lparr>rp_store := s'\<rparr>, r))
      | Some node \<Rightarrow> send F c p node (operation ''delete_object'' bucket key nul))"

definition proxy_CreateBucket ::
    "('db, 'tx, meta_doc) bolt_db \<Rightarrow> ('fdb, 'ftx, meta_doc) bolt_db \<Rightarrow> meta_doc \<Rightarrow> gotime \<Rightarrow> commit \<Rightarrow>
     ('db, 'fdb) RaftMetadataProxy \<Rightarrow> string \<Rightarrow> BucketInfo option \<Rightarrow> ('db, 'fdb) RaftMetadataProxy \<times> unit result" where
  "proxy_CreateBucket B F nul now c p bucket info =
     (case proxy_node p of
        None \<Rightarrow> (case CreateBucket B now (rp_store p) bucket info of (s', _, r) \<Rightarrow> (p\<lparr>rp_store := s'\<rparr>, r))
      | Some node \<Rightarrow>
          (case (case info of None \<Rightarrow> Inr nul | Some i \<Rightarrow> marshal_bucket i) of
             Inl e \<Rightarrow> (p, Inl (wrap_err ''failed to marshal bucket info'' e))
           | Inr data \<Rightarrow> send F c p node (operation ''create_bucket'' bucket '''' data)))"

definition proxy_DeleteBucket ::
    "('db, 'tx, meta_doc) bolt_db \<Rightarrow> ('fdb, 'ftx, meta_doc) bolt_db \<Rightarrow> meta_doc \<Rightarrow> commit \<Rightarrow> ('db, 'fdb) RaftMetadataProxy \<Rightarrow>
     string \<Rightarrow> ('db, 'fdb) RaftMetadataProxy \<times> unit result" where
  "proxy_DeleteBucket B F nul c p bucket =
     (case proxy_node p of
        None \<Rightarrow> (case DeleteBucket B (rp_store p) bucket of (s', r) \<Rightarrow> (p\<lparr>rp_store := s'\<rparr>, r))
      | Some node \<Rightarrow> send F c p node (operation ''delete_bucket'' bucket '''' nul))"

definition proxy_UpdateBucket ::
    "('db, 'tx, meta_doc) bolt_db \<Rightarrow> ('fdb, 'ftx, meta_doc) bolt_db \<Rightarrow> commit \<Rightarrow> ('db, 'fdb) RaftMetadataProxy \<Rightarrow>
     string \<Rightarrow> BucketInfo \<Rightarrow> ('db, 'fdb) RaftMetadataProxy \<times> unit result" where
  "proxy_UpdateBucket B F c p bucket info =
     (case proxy_node p of
        None \<Rightarrow> (case UpdateBucket B (rp_store p) bucket info of (s', r) \<Rightarrow> (p\<lparr>rp_store := s'\<rparr>, r))
      | Some node \<Rightarrow>
          (case marshal_bucket info of
             Inl e \<Rightarrow> (p, Inl (wrap_err ''failed to marshal bucket info'' e))
           | Inr data \<Rightarrow> send F c p node (operation ''update_bucket'' bucket '''' data)))"

definition proxy_PutObjectVersion ::
    "('db, 'tx, meta_doc) bolt_db \<Rightarrow> ('fdb, 'ftx, meta_doc) bolt_db \<Rightarrow> string \<Rightarrow> (nat \<Rightarrow> gotime) \<Rightarrow> commit \<Rightarrow>
     ('db, 'fdb) RaftMetadataProxy \<Rightarrow> string \<Rightarrow> string \<Rightarrow> ObjectMetadata \<Rightarrow>
     ('db, 'fdb) RaftMetadataProxy \<times> ObjectMetadata \<times> unit result" where
  "proxy_PutObjectVersion B F uuid clk c p bucket key md =
     (case proxy_node p of
        None \<Rightarrow> (case PutObjectVersion B uuid clk (rp_store p) bucket key md of (s', md', r) \<Rightarrow> (p\<lparr>rp_store := s'\<rparr>, md', r))
      | Some node \<Rightarrow>
          (case marshal_object md of
             Inl e \<Rightarrow> (p, md, Inl (wrap_err ''failed to marshal object metadata'' e))
           | Inr data \<Rightarrow> (case send F c p node (operation ''put_object_version'' bucket key data) of (p', r) \<Rightarrow> (p', md, r))))"

definition proxy_PutUpload ::
    "('db, 'tx, meta_doc) bolt_db \<Rightarrow> ('fdb, 'ftx, meta_doc) bolt_db \<Rightarrow> string \<Rightarrow> (nat \<Rightarrow> gotime) \<Rightarrow> commit \<Rightarrow>
     ('db, 'fdb) RaftMetadataProxy \<Rightarrow> MultipartUpload \<Rightarrow> ('db, 'fdb) RaftMetadataProxy \<times> MultipartUpload \<times> unit result" where
  "proxy_PutUpload B F uuid clk c p upload =
     (case proxy_node p of
        None \<Rightarrow> (case PutUpload B uuid clk (rp_store p) upload of (s', u', r) \<Rightarrow> (p\<lparr>rp_store := s'\<rparr>, u', r))
      | Some node \<Rightarrow>
          (case marshal_upload upload of
             Inl e \<Rightarrow> (p, upload, Inl (wrap_err ''failed to marshal upload'' e))
           | Inr data \<Rightarrow>
               (case send F c p node (operation ''put_upload'' (mu_Bucket upload) (mu_Key upload) data) of
                  (p', r) \<Rightarrow> (p', upload, r))))"

definition proxy_DeleteUpload ::
    "('db, 'tx, meta_doc) bolt_db \<Rightarrow> ('fdb, 'ftx, meta_doc) bolt_db \<Rightarrow> meta_doc \<Rightarrow> commit \<Rightarrow> ('db, 'fdb) RaftMetadataProxy \<Rightarrow>
     string \<Rightarrow> string \<Rightarrow> string \<Rightarrow> ('db, 'fdb) RaftMetadataProxy \<times> unit result" where
  "proxy_DeleteUpload B F nul c p bucket key uploadID =
     (case proxy_node p of
        None \<Rightarrow> (case DeleteUpload B (rp_store p) bucket key uploadID of (s', r) \<Rightarrow> (p\<lparr>rp_store := s'\<rparr>, r))
      | Some node \<Rightarrow> send F c p node (operation ''delete_upload'' bucket key nul))"

definition proxy_AddPart ::
    "('db, 'tx, meta_doc) bolt_db \<Rightarrow> ('fdb, 'ftx, meta_doc) bolt_db \<Rightarrow> commit \<Rightarrow> ('db, 'fdb) RaftMetadataProxy \<Rightarrow>
     string \<Rightarrow> UploadPart \<Rightarrow> ('db, 'fdb) RaftMetadataProxy \<times> unit result" where
  "proxy_AddPart B F c p uploadID part =
     (case proxy_node p of
        None \<Rightarrow> (case AddPart B (rp_store p) uploadID part of (s', r) \<Rightarrow> (p\<lparr>rp_store := s'\<rparr>, r))
      | Some node \<Rightarrow>
          (case marshal_part part of
             Inl e \<Rightarrow> (p, Inl (wrap_err ''failed to marshal upload part'' e))
           | Inr data \<Rightarrow> send F c p node (operation ''add_part'' uploadID (fmt_int (up_PartNumber part)) data)))"

text \<open>Reads and the rest are answered by the local store.\<close>

definition NewRaftMetadataProxy :: "'db MetaStore \<Rightarrow> 'fdb BoltFSM option \<Rightarrow> bool \<Rightarrow> ('db, 'fdb) RaftMetadataProxy" where
  "NewRaftMetadataProxy store node enabled = \<lparr>rp_store = store, rp_node = node, rp_enabled = enabled\<rparr>"

definition proxy_ListObjects ::
    "('db, 'tx, meta_doc) bolt_db \<Rightarrow> ('db, 'fdb) RaftMetadataProxy \<Rightarrow> string \<Rightarrow> string \<Rightarrow> int \<Rightarrow> ObjectMetadata list result" where
  "proxy_ListObjects B p = ListObjects B (rp_store p)"

definition proxy_ListObjectsWithDelimiter ::
    "('db, 'tx, meta_doc) bolt_db \<Rightarrow> ('db, 'fdb) RaftMetadataProxy \<Rightarrow> string \<Rightarrow> string \<Rightarrow> string \<Rightarrow> int \<Rightarrow> ListResult result" where
  "proxy_ListObjectsWithDelimiter B p = ListObjectsWithDelimiter B (rp_store p)"

definition proxy_GetBucket :: "('db, 'tx, meta_doc) bolt_db \<Rightarrow> ('db, 'fdb) RaftMetadataProxy \<Rightarrow> string \<Rightarrow> BucketInfo result" where
  "proxy_GetBucket B p = GetBucket B (rp_store p)"

definition proxy_ListBuckets :: "('db, 'tx, meta_doc) bolt_db \<Rightarrow> ('db, 'fdb) RaftMetadataProxy \<Rightarrow> BucketInfo list result" where
  "proxy_ListBuckets B p = ListBuckets B (rp_store p)"

definition proxy_GetObjectVersion ::
    "('db, 'tx, meta_doc) bolt_db \<Rightarrow> ('db, 'fdb) RaftMetadataProxy \<Rightarrow> string \<Rightarrow> string \<Rightarrow> string \<Rightarrow> ObjectMetadata result" where
  "proxy_GetObjectVersion B p = GetObjectVersion B (rp_store p)"

definition proxy_ListObjectVersions ::
    "('db, 'tx, meta_doc) bolt_db \<Rightarrow> ('db, 'fdb) RaftMetadataProxy \<Rightarrow> string \<Rightarrow> string \<Rightarrow> int \<Rightarrow> ObjectMetadata list result" where
  "proxy_ListObjectVersions B p = ListObjectVersions B (rp_store p)"

definition proxy_GetUpload ::
    "('db, 'tx, meta_doc) bolt_db \<Rightarrow> ('db, 'fdb) RaftMetadataProxy \<Rightarrow> string \<Rightarrow> string \<Rightarrow> string \<Rightarrow> MultipartUpload result" where
  "proxy_GetUpload B p = GetUpload B (rp_store p)"

definition proxy_ListUploads ::
    "('db, 'tx, meta_doc) bolt_db \<Rightarrow> gotime \<Rightarrow> ('db, 'fdb) RaftMetadataProxy \<Rightarrow> string \<Rightarrow> MultipartUpload list result" where
  "proxy_ListUploads B now p = ListUploads B now (rp_store p)"

definition proxy_ListExpiredUploads ::
    "('db, 'tx, meta_doc) bolt_db \<Rightarrow> gotime \<Rightarrow> ('db, 'fdb) RaftMetadataProxy \<Rightarrow> MultipartUpload list result" where
  "proxy_ListExpiredUploads B now p = ListExpiredUploads B now (rp_store p)"

definition proxy_GetParts ::
    "('db, 'tx, meta_doc) bolt_db \<Rightarrow> ('db, 'fdb) RaftMetadataProxy \<Rightarrow> string \<Rightarrow> UploadPart list result" where
  "proxy_GetParts B p = GetParts B (rp_store p)"

definition proxy_FlushWAL :: "wal_io \<Rightarrow> ('db, 'fdb) RaftMetadataProxy \<Rightarrow> ('db, 'fdb) RaftMetadataProxy \<times> unit result" where
  "proxy_FlushWAL io p = (case FlushWAL io (rp_store p) of (s', r) \<Rightarrow> (p\<lparr>rp_store := s'\<rparr>, r))"

definition proxy_Close :: "wal_io \<Rightarrow> unit result \<Rightarrow> ('db, 'fdb) RaftMetadataProxy \<Rightarrow> ('db, 'fdb) RaftMetadataProxy \<times> unit result" where
  "proxy_Close io c p = (case Close io c (rp_store p) of (s', r) \<Rightarrow> (p\<lparr>rp_store := s'\<rparr>, r))"

definition proxy_GetStats :: "('db, 'fdb) RaftMetadataProxy \<Rightarrow> MetadataStats" where
  "proxy_GetStats p = Meta_GetStats (rp_store p)"

section \<open>The map machine\<close>

text \<open>
  The specification: what the database holds, as a map, and what a committed entry does to it. The
  result is whether the entry is applied; one whose key BoltDB refuses changes nothing.
\<close>

type_synonym 'd fsm_map = "string \<Rightarrow> string \<rightharpoonup> 'd"

definition map_put :: "string \<Rightarrow> string \<Rightarrow> 'd \<Rightarrow> 'd fsm_map \<Rightarrow> 'd fsm_map \<times> bool" where
  "map_put bk k d m = (if valid_key k then (m(bk := (m bk)(k \<mapsto> d)), True) else (m, False))"

definition map_delete :: "string \<Rightarrow> string \<Rightarrow> 'd fsm_map \<Rightarrow> 'd fsm_map" where
  "map_delete bk k m = m(bk := (m bk)(k := None))"

definition map_index :: "'d FSMOperation \<Rightarrow> 'd fsm_map \<Rightarrow> 'd fsm_map" where
  "map_index op m =
     (let ikey = op_Bucket op @ slash # extractPrefix (op_Key op)
      in if m bktObjectIndex ikey = None then fst (map_put bktObjectIndex ikey (op_Data op) m) else m)"

definition spec_step :: "string + 'd FSMOperation \<Rightarrow> 'd fsm_map \<Rightarrow> 'd fsm_map \<times> bool" where
  "spec_step e m =
     (case e of
        Inl _ \<Rightarrow> (m, False)
      | Inr op \<Rightarrow>
          (if op_Type op = ''put_object'' then
             (case map_put bktObjects (op_key op) (op_Data op) m of (m1, ok) \<Rightarrow> (if ok then map_index op m1 else m1, ok))
           else if op_Type op = ''delete_object'' then (map_delete bktObjects (op_key op) m, True)
           else if op_Type op = ''create_bucket'' then map_put bktBuckets (op_Bucket op) (op_Data op) m
           else if op_Type op = ''delete_bucket'' then
             (map_delete bktBuckets (op_Bucket op)
                (m(bktObjects := (\<lambda>k. if HasPrefix k (op_Bucket op @ [slash]) then None else m bktObjects k))), True)
           else if op_Type op = ''update_bucket'' then map_put bktBuckets (op_Bucket op) (op_Data op) m
           else if op_Type op = ''put_object_version'' then map_put bktVersions (op_key op) (op_Data op) m
           else if op_Type op = ''put_upload'' then map_put bktUploads (op_key op) (op_Data op) m
           else if op_Type op = ''delete_upload'' then (map_delete bktUploads (op_key op) m, True)
           else if op_Type op = ''add_part'' then map_put bktParts (op_key op) (op_Data op) m
           else (m, False)))"

section \<open>The state machine refines it\<close>

definition fsm_holds :: "('db, 'tx, 'd) bolt_db \<Rightarrow> 'db BoltFSM \<Rightarrow> 'd fsm_map" where
  "fsm_holds B s = db_get B (fsm_db s)"

lemma tx_put_map:
  assumes "bolt_db_ok B" "bolt_no_errors B"
  shows "case tx_put B bk k d tx of
      Inl e \<Rightarrow> map_put bk k d (btx_Get B tx) = (btx_Get B tx, False)
    | Inr tx' \<Rightarrow> map_put bk k d (btx_Get B tx) = (btx_Get B tx', True)"
proof (cases "valid_key k")
  case True
  then obtain tx' where p: "tx_put B bk k d tx = Inr tx'" using Put_succeeds [OF assms(2)] by blast
  have "btx_Get B tx' = (btx_Get B tx)(bk := (btx_Get B tx bk)(k \<mapsto> d))"
    by (intro ext) (auto simp: Get_Put [OF assms(1) p])
  with p True show ?thesis by (simp add: map_put_def)
next
  case False
  then show ?thesis using Put_invalid [OF assms(1) False, of bk d tx] by (auto simp: map_put_def isl_def)
qed

lemma tx_delete_map:
  assumes "bolt_db_ok B" "bolt_no_errors B"
  shows "\<exists>tx'. tx_delete B bk k tx = Inr tx' \<and> btx_Get B tx' = map_delete bk k (btx_Get B tx)"
proof -
  obtain tx' where p: "tx_delete B bk k tx = Inr tx'" using Delete_succeeds [OF assms(2)] by blast
  have "btx_Get B tx' = map_delete bk k (btx_Get B tx)"
    by (intro ext) (auto simp: Get_Delete [OF assms(1) p] map_delete_def)
  with p show ?thesis by blast
qed

lemma delete_each_get:
  assumes "bolt_db_ok B" "bolt_no_errors B"
  shows "btx_Get B (delete_each B bk ks tx) = (btx_Get B tx)(bk := (\<lambda>k. if k \<in> set ks then None else btx_Get B tx bk k))"
proof (induction ks arbitrary: tx)
  case (Cons k ks)
  obtain tx1 where t: "tx_delete B bk k tx = Inr tx1" "btx_Get B tx1 = map_delete bk k (btx_Get B tx)"
    using tx_delete_map [OF assms] by blast
  show ?case by (intro ext) (auto simp: t Cons.IH [of tx1] map_delete_def)
qed simp

lemma delete_scan_get:
  assumes "bolt_db_ok B" "bolt_no_errors B"
  shows "btx_Get B (delete_each B bk (map fst (prefix_scan B tx bk p)) tx) =
    (btx_Get B tx)(bk := (\<lambda>k. if HasPrefix k p then None else btx_Get B tx bk k))"
proof -
  have "k \<in> set (map fst (prefix_scan B tx bk p)) \<longleftrightarrow> btx_Get B tx bk k \<noteq> None \<and> HasPrefix k p" for k
    using prefix_scan_mem [OF assms(1), of k _ tx bk p] by force
  then show ?thesis by (intro ext) (auto simp: delete_each_get [OF assms])
qed

text \<open>A closure whose transaction step refines a map step, run on an open state machine.\<close>

lemma fsm_update_refines:
  assumes B: "bolt_db_ok B" "bolt_no_errors B" and o: "fsm_open s"
    and f: "\<And>tx. case f tx of Inl e \<Rightarrow> g (btx_Get B tx) = (btx_Get B tx, False)
      | Inr tx' \<Rightarrow> g (btx_Get B tx) = (btx_Get B tx', True)"
    and u: "fsm_update B f s = (s', r)"
  shows "g (fsm_holds B s) = (fsm_holds B s', \<not> isl r) \<and> fsm_open s'"
proof -
  let ?tx = "projr (bdb_Begin B (fsm_db s))" and ?F = "\<lambda>(u :: unit) tx. (u, f tx)"
  have h: "fsm_holds B s = btx_Get B ?tx" by (simp add: fsm_holds_def db_get_def)
  show ?thesis
  proof (cases "f ?tx")
    case (Inl e)
    then have "bolt_Update B (fsm_db s) () ?F = (fsm_db s, (), Inl e)"
      using Update_fails [OF B(1), where f = ?F] by simp
    then have "s' = s" "r = Inl e" using u o by (auto simp: fsm_update_def)
    then show ?thesis using o f [of ?tx] Inl h by simp
  next
    case (Inr tx')
    then have run: "?F () ?tx = ((), Inr tx')" by simp
    obtain db' where d: "bolt_Update B (fsm_db s) () ?F = (db', (), Inr ())" "db_get B db' = btx_Get B tx'"
      by (rule Update_run [where f = ?F, OF B run])
    then have s': "s' = s\<lparr>fsm_db := db'\<rparr>" "r = Inr ()" using u o by (auto simp: fsm_update_def)
    then have "fsm_holds B s' = btx_Get B tx'" using d(2) by (simp add: fsm_holds_def)
    then show ?thesis using o s' f [of ?tx] Inr h by simp
  qed
qed

lemma put_refines:
  assumes "bolt_db_ok B" "bolt_no_errors B" "fsm_open s" "fsm_update B (tx_put B bk k d) s = (s', r)"
  shows "map_put bk k d (fsm_holds B s) = (fsm_holds B s', \<not> isl r) \<and> fsm_open s'"
  by (rule fsm_update_refines [OF assms(1-3) tx_put_map [OF assms(1,2)] assms(4)])

lemma delete_refines:
  assumes "bolt_db_ok B" "bolt_no_errors B" "fsm_open s" "fsm_update B (tx_delete B bk k) s = (s', r)"
  shows "(map_delete bk k (fsm_holds B s), True) = (fsm_holds B s', \<not> isl r) \<and> fsm_open s'"
proof (rule fsm_update_refines [where g = "\<lambda>m. (map_delete bk k m, True)", OF assms(1-3) _ assms(4)])
  fix tx
  obtain tx' where "tx_delete B bk k tx = Inr tx'" "btx_Get B tx' = map_delete bk k (btx_Get B tx)"
    using tx_delete_map [OF assms(1,2)] by blast
  then show "case tx_delete B bk k tx of Inl e \<Rightarrow> (map_delete bk k (btx_Get B tx), True) = (btx_Get B tx, False)
      | Inr tx' \<Rightarrow> (map_delete bk k (btx_Get B tx), True) = (btx_Get B tx', True)" by simp
qed

lemma put_object_index_map:
  assumes "bolt_db_ok B" "bolt_no_errors B"
  shows "btx_Get B (put_object_index B op tx) = map_index op (btx_Get B tx)"
  using tx_put_map [OF assms, of bktObjectIndex "op_Bucket op @ slash # extractPrefix (op_Key op)" "op_Data op" tx]
  by (auto simp: put_object_index_def map_index_def Let_def split: sum.splits)

lemma put_object_refines:
  assumes B: "bolt_db_ok B" "bolt_no_errors B" and o: "fsm_open s" and u: "applyPutObject B op s = (s', r)"
  shows "(case map_put bktObjects (op_key op) (op_Data op) (fsm_holds B s) of
      (m1, ok) \<Rightarrow> (if ok then map_index op m1 else m1, ok)) = (fsm_holds B s', \<not> isl r) \<and> fsm_open s'"
proof (rule fsm_update_refines [OF B o _ u [unfolded applyPutObject_def]])
  fix tx
  show "case case tx_put B bktObjects (op_key op) (op_Data op) tx of Inl e \<Rightarrow> Inl e
         | Inr tx1 \<Rightarrow> Inr (put_object_index B op tx1) of
      Inl e \<Rightarrow> (case map_put bktObjects (op_key op) (op_Data op) (btx_Get B tx) of
        (m1, ok) \<Rightarrow> (if ok then map_index op m1 else m1, ok)) = (btx_Get B tx, False)
    | Inr tx' \<Rightarrow> (case map_put bktObjects (op_key op) (op_Data op) (btx_Get B tx) of
        (m1, ok) \<Rightarrow> (if ok then map_index op m1 else m1, ok)) = (btx_Get B tx', True)"
    using tx_put_map [OF B, of bktObjects "op_key op" "op_Data op" tx]
    by (auto simp: put_object_index_map [OF B] split: sum.splits)
qed

lemma delete_bucket_refines:
  assumes B: "bolt_db_ok B" "bolt_no_errors B" and o: "fsm_open s" and u: "applyDeleteBucket B op s = (s', r)"
  shows "(map_delete bktBuckets (op_Bucket op) ((fsm_holds B s)(bktObjects :=
      (\<lambda>k. if HasPrefix k (op_Bucket op @ [slash]) then None else fsm_holds B s bktObjects k))), True) =
    (fsm_holds B s', \<not> isl r) \<and> fsm_open s'"
proof (rule fsm_update_refines [where g = "\<lambda>m. (map_delete bktBuckets (op_Bucket op) (m(bktObjects :=
      (\<lambda>k. if HasPrefix k (op_Bucket op @ [slash]) then None else m bktObjects k))), True)",
      OF B o _ u [unfolded applyDeleteBucket_def]])
  fix tx
  let ?tx1 = "delete_each B bktObjects (map fst (prefix_scan B tx bktObjects (op_Bucket op @ [slash]))) tx"
  obtain tx' where "tx_delete B bktBuckets (op_Bucket op) ?tx1 = Inr tx'"
    "btx_Get B tx' = map_delete bktBuckets (op_Bucket op) (btx_Get B ?tx1)" using tx_delete_map [OF B] by blast
  then show "case tx_delete B bktBuckets (op_Bucket op) ?tx1 of
      Inl e \<Rightarrow> (map_delete bktBuckets (op_Bucket op) ((btx_Get B tx)(bktObjects :=
        (\<lambda>k. if HasPrefix k (op_Bucket op @ [slash]) then None else btx_Get B tx bktObjects k))), True) = (btx_Get B tx, False)
    | Inr tx' \<Rightarrow> (map_delete bktBuckets (op_Bucket op) ((btx_Get B tx)(bktObjects :=
        (\<lambda>k. if HasPrefix k (op_Bucket op @ [slash]) then None else btx_Get B tx bktObjects k))), True) = (btx_Get B tx', True)"
    by (simp add: delete_scan_get [OF B])
qed

lemmas apply_defs = applyDeleteObject_def applyCreateBucket_def applyUpdateBucket_def applyPutObjectVersion_def
  applyPutUpload_def applyDeleteUpload_def applyAddPart_def

lemma Apply_refines:
  assumes B: "bolt_db_ok B" "bolt_no_errors B" and o: "fsm_open s" and a: "Apply B e s = (s', r)"
  shows "spec_step e (fsm_holds B s) = (fsm_holds B s', r = ApplySuccess) \<and> fsm_open s'"
proof (cases e)
  case (Inl m)
  then show ?thesis using a o by (auto simp: Apply_def spec_step_def)
next
  case (Inr op)
  show ?thesis
  proof (cases "apply_op B op s")
    case None
    then show ?thesis using a o Inr by (auto simp: Apply_def spec_step_def apply_op_def split: if_splits)
  next
    case (Some x)
    obtain s2 q where x: "x = (s2, q)" by fastforce
    have r: "s' = s2" "r = ApplySuccess \<longleftrightarrow> \<not> isl q" using a Inr Some x by (auto simp: Apply_def isl_def split: sum.splits)
    have "spec_step (Inr op) (fsm_holds B s) = (fsm_holds B s2, \<not> isl q) \<and> fsm_open s2"
      using Some x put_object_refines [OF B o, of op s2 q] delete_bucket_refines [OF B o, of op s2 q]
        put_refines [OF B o, of _ _ _ s2 q] delete_refines [OF B o, of _ _ s2 q]
      by (auto simp: apply_op_def spec_step_def apply_defs split: if_splits)
    then show ?thesis using Inr r by simp
  qed
qed

section \<open>Replaying the log\<close>

fun replay ::
    "('db, 'tx, 'd) bolt_db \<Rightarrow> (string + 'd FSMOperation) list \<Rightarrow> 'db BoltFSM \<Rightarrow> 'db BoltFSM" where
  "replay B [] s = s"
| "replay B (e # es) s = replay B es (fst (Apply B e s))"

fun spec_replay :: "(string + 'd FSMOperation) list \<Rightarrow> 'd fsm_map \<Rightarrow> 'd fsm_map" where
  "spec_replay [] m = m"
| "spec_replay (e # es) m = spec_replay es (fst (spec_step e m))"

lemma spec_replay_append: "spec_replay (xs @ ys) m = spec_replay ys (spec_replay xs m)"
  by (induction xs arbitrary: m) simp_all

lemma replay_refines:
  assumes "bolt_db_ok B" "bolt_no_errors B"
  shows "fsm_open s \<Longrightarrow> fsm_holds B (replay B es s) = spec_replay es (fsm_holds B s) \<and> fsm_open (replay B es s)"
proof (induction es arbitrary: s)
  case (Cons e es)
  obtain s' r where a: "Apply B e s = (s', r)" by fastforce
  then show ?case using Cons.IH [of s'] Apply_refines [OF assms Cons.prems a] by simp
qed simp

section \<open>Replaying twice\<close>

text \<open>
  What a log does to one cell of the database: nothing, a fixed value, or a value if there is none
  (the index). These are closed under composition and idempotent, so entries that are in a
  snapshot already may be applied again.
\<close>

definition cell_fun :: "('d option \<Rightarrow> 'd option) \<Rightarrow> bool" where
  "cell_fun f \<longleftrightarrow> f = id \<or> (\<exists>v. f = (\<lambda>_. v)) \<or> (\<exists>d. f = (\<lambda>x. if x = None then Some d else x))"

definition cellwise :: "('d fsm_map \<Rightarrow> 'd fsm_map) \<Rightarrow> bool" where
  "cellwise F \<longleftrightarrow> (\<forall>bk k. \<exists>f. cell_fun f \<and> (\<forall>m. F m bk k = f (m bk k)))"

lemma cell_fun_intros [intro]:
  "cell_fun id" "cell_fun (\<lambda>x. x)" "cell_fun (\<lambda>_. v)" "cell_fun (\<lambda>x. if x = None then Some d else x)"
  by (auto simp: cell_fun_def id_def)

lemma cell_fun_comp: "cell_fun f \<Longrightarrow> cell_fun g \<Longrightarrow> cell_fun (\<lambda>x. f (g x))"
  unfolding cell_fun_def by (elim disjE exE) (auto simp: fun_eq_iff)

lemma cell_fun_idem: "cell_fun f \<Longrightarrow> f (f x) = f x"
  by (auto simp: cell_fun_def)

lemma cellwise_idem: "cellwise F \<Longrightarrow> F (F m) = F m"
  unfolding cellwise_def by (rule ext)+ (metis cell_fun_idem)

lemma cellwise_comp:
  assumes "cellwise F" "cellwise G"
  shows "cellwise (\<lambda>m. F (G m))"
  unfolding cellwise_def
proof (intro allI)
  fix bk k
  obtain f g where "cell_fun f" "\<And>m. F m bk k = f (m bk k)" "cell_fun g" "\<And>m. G m bk k = g (m bk k)"
    using assms unfolding cellwise_def by meson
  then have "cell_fun (\<lambda>x. f (g x)) \<and> (\<forall>m. F (G m) bk k = f (g (m bk k)))" using cell_fun_comp by simp
  then show "\<exists>h. cell_fun h \<and> (\<forall>m. F (G m) bk k = h (m bk k))" by (intro exI [of _ "\<lambda>x. f (g x)"])
qed

lemma cellwise_id: "cellwise (\<lambda>m. m)"
  unfolding cellwise_def by (intro allI exI [of _ id]) auto

lemma cellwise_if: "cellwise F \<Longrightarrow> cellwise G \<Longrightarrow> cellwise (\<lambda>m. if b then F m else G m)"
  by (cases b) simp_all

lemma cellwise_drop: "cellwise (\<lambda>m. m(bk := (\<lambda>k. if P k then v k else m bk k)))"
  unfolding cellwise_def
proof (intro allI)
  fix bk' k
  show "\<exists>f. cell_fun f \<and> (\<forall>m. (m(bk := (\<lambda>k. if P k then v k else m bk k))) bk' k = f (m bk' k))"
    by (cases "bk' = bk \<and> P k") (auto intro: exI [of _ "\<lambda>_. v k"] exI [of _ id])
qed

lemma cellwise_put: "cellwise (\<lambda>m. fst (map_put bk k d m))"
proof (cases "valid_key k")
  case True
  then have "(\<lambda>m. fst (map_put bk k d m)) = (\<lambda>m. m(bk := (\<lambda>k'. if k' = k then Some d else m bk k')))"
    by (auto simp: map_put_def fun_eq_iff)
  then show ?thesis using cellwise_drop [of bk "\<lambda>k'. k' = k" "\<lambda>_. Some d"] by simp
qed (simp add: map_put_def cellwise_id)

lemma cellwise_delete: "cellwise (map_delete bk k :: 'd fsm_map \<Rightarrow> 'd fsm_map)"
proof -
  have "(map_delete bk k :: 'd fsm_map \<Rightarrow> 'd fsm_map) = (\<lambda>m. m(bk := (\<lambda>k'. if k' = k then None else m bk k')))"
    by (auto simp: map_delete_def fun_eq_iff)
  then show ?thesis by (simp add: cellwise_drop)
qed

lemma cellwise_index: "cellwise (map_index op)"
  unfolding cellwise_def
proof (intro allI)
  fix bk k
  let ?ik = "op_Bucket op @ slash # extractPrefix (op_Key op)"
  show "\<exists>f. cell_fun f \<and> (\<forall>m. map_index op m bk k = f (m bk k))"
  proof (cases "bk = bktObjectIndex \<and> k = ?ik \<and> valid_key ?ik")
    case True
    then show ?thesis
      by (intro exI [of _ "\<lambda>x. if x = None then Some (op_Data op) else x"]) (auto simp: map_index_def map_put_def)
  next
    case False
    then show ?thesis by (intro exI [of _ id]) (auto simp: map_index_def map_put_def Let_def)
  qed
qed

lemma cellwise_step: "cellwise (\<lambda>m. fst (spec_step e m))"
proof (cases e)
  case (Inr op)
  have put: "cellwise (\<lambda>m. fst (case map_put bktObjects (op_key op) (op_Data op) m of
      (m1, ok) \<Rightarrow> (if ok then map_index op m1 else m1, ok)))"
    using cellwise_comp [OF cellwise_index cellwise_put, of op bktObjects "op_key op" "op_Data op"]
    by (cases "valid_key (op_key op)") (simp_all add: map_put_def cellwise_id)
  have del: "cellwise (\<lambda>m. map_delete bktBuckets (op_Bucket op)
      (m(bktObjects := (\<lambda>k. if HasPrefix k (op_Bucket op @ [slash]) then None else m bktObjects k))))"
    by (rule cellwise_comp [OF cellwise_delete cellwise_drop])
  show ?thesis
    unfolding spec_step_def Inr sum.case if_distrib [of fst] fst_conv
    by (intro cellwise_if put del cellwise_put cellwise_delete cellwise_id)
qed (simp add: spec_step_def cellwise_id)

lemma cellwise_replay: "cellwise (spec_replay es)"
proof (induction es)
  case (Cons e es)
  then show ?case using cellwise_comp [OF Cons.IH cellwise_step] by simp
qed (simp add: cellwise_id)

lemma spec_replay_twice: "spec_replay es (spec_replay es m) = spec_replay es m"
  by (rule cellwise_idem [OF cellwise_replay])

text \<open>Once a restore has failed, the database is closed and no entry can be applied.\<close>

lemma failed_restore_stuck:
  assumes "Restore io s = (s', Inl e)"
  shows "Apply B (Inr op) s' = (s', ApplyFailure (if apply_op B op s' = None then ''unknown operation type: '' @ op_Type op
    else ''database not open''))"
proof -
  have "\<not> fsm_open s'" using assms by (auto simp: Restore_def Let_def split: restore_io.splits)
  then show ?thesis
    by (simp add: Apply_def apply_op_def applyPutObject_def applyDeleteBucket_def apply_defs fsm_update_def)
qed

section \<open>A concrete cluster\<close>

definition mem_node :: "meta_doc mem_db BoltFSM" where
  "mem_node = \<lparr>fsm_db = (\<lambda>_. []), fsm_path = ''fsm.db'', fsm_open = True\<rparr>"

definition blank_object :: ObjectMetadata where
  "blank_object = \<lparr>om_Key = '''', om_Bucket = '''', om_Size = 0, om_ContentType = '''', om_ContentEncoding = '''',
     om_ETag = '''', om_Checksum = '''', om_ChecksumType = '''', om_UserMetadata = Map.empty, om_StorageTier = 0,
     om_CreatedAt = 0, om_ModifiedAt = 0, om_AccessCount = 0, om_LastAccessedAt = 0, om_Encrypted = False,
     om_EncryptedDEK = [], om_Vectorized = False, om_VectorID = '''', om_VersionID = ''v1'', om_IsLatest = False,
     om_PreviousVersion = '''', om_ObjectStatus = '''', om_TieringLocked = False, om_LockedTier = 0,
     om_PipelineResults = Map.empty, om_DeleteMarker = False, om_RetainUntil = None, om_SSECUsed = False,
     om_SSECKeySHA256 = '''', om_SSECAlgorithm = ''''\<rparr>"

lemma blank_object_marshals: "marshal_object blank_object = Inr (MObject blank_object)"
  "marshal_object (blank_object\<lparr>om_VersionID := ''v2''\<rparr>) = Inr (MObject (blank_object\<lparr>om_VersionID := ''v2''\<rparr>))"
  by (simp_all add: marshal_object_def blank_object_def json_time_def json_opt_time_def)

definition mem_proxy :: "(meta_doc mem_db, meta_doc mem_db) RaftMetadataProxy" where
  "mem_proxy = \<lparr>rp_store = \<lparr>md_db = (\<lambda>_. []), md_path = '''', md_walPath = '''', md_walBuf = [], md_walFile = [], md_syncedUp = 0,
     md_stats = \<lparr>mst_ObjectCount = 0, mst_BucketCount = 0, mst_TotalSize = 0, mst_UploadCount = 0, mst_WALEntries = 0,
       mst_LastCompaction = 0\<rparr>\<rparr>, rp_node = Some mem_node, rp_enabled = True\<rparr>"

section \<open>Properties\<close>

text \<open>
  C3. Replicas agree, on databases whose writes do not fail. A snapshot is requested after the log entries \<open>xs\<close>, but the state machine
  goes on and is written out after \<open>ys\<close> more. A replica in any state that restores it and is
  then sent the log from after \<open>xs\<close>, so \<open>ys\<close> a second time and then \<open>zs\<close>, holds what the first
  one holds after the whole log: what the map machine computes from it.
\<close>

theorem replica_catches_up:
  assumes B: "bolt_db_ok B" "bolt_no_errors B" and s: "fsm_open s"
    and snap: "Persist io (replay B (xs @ ys) s) = (Some db, r)"
  shows "fsm_holds B (replay B (ys @ zs) (fst (Restore (RestoreOk db) t))) = fsm_holds B (replay B (xs @ ys @ zs) s) \<and>
    fsm_holds B (replay B (xs @ ys @ zs) s) = spec_replay (xs @ ys @ zs) (fsm_holds B s)"
proof -
  let ?t = "fst (Restore (RestoreOk db) t)"
  have "db = fsm_db (replay B (xs @ ys) s)" using snap by (auto simp: Persist_def split: persist_io.splits if_splits)
  then have "fsm_open ?t" "fsm_holds B ?t = spec_replay (xs @ ys) (fsm_holds B s)"
    using replay_refines [OF B s] by (simp_all add: Restore_def Let_def fsm_holds_def)
  then show ?thesis
    using replay_refines [OF B] replay_refines [OF B s] by (simp add: spec_replay_append spec_replay_twice)
qed

theorem replica_catches_up_witness:
  "fsm_holds mem_db (replay mem_db [Inl ''torn''] (fst (Restore (RestoreOk (fsm_db (replay mem_db [Inl ''torn''] mem_node))) mem_node))) =
   fsm_holds mem_db (replay mem_db [Inl ''torn''] mem_node)"
  using replica_catches_up [of mem_db mem_node PersistOk "[]" "[Inl ''torn'']" "fsm_db (replay mem_db [Inl ''torn''] mem_node)" "Inr ()" "[]" mem_node]
  by (simp add: mem_node_def fsm_holds_def Persist_def Apply_def)

text \<open>
  Versions sent through the log overwrite each other. A comment in the state machine gives
  the key format as bucket, key and version, but the proxy sends bucket and key only: after two
  versions of one object have been committed, the state machine holds the second under the one
  key, and under the keys with a version what it held before.
\<close>

theorem proxy_versions_overwrite:
  assumes F: "bolt_db_ok F" "bolt_no_errors F" and p: "rp_enabled p" "rp_node p = Some node" "fsm_open node"
    and m: "marshal_object m1 = Inr (MObject m1)" "marshal_object m2 = Inr (MObject m2)" and k: "valid_key (objectKey b k)"
    and q1: "proxy_PutObjectVersion B F uuid clk Committed p b k m1 = (p1, m1', r1)"
    and q2: "proxy_PutObjectVersion B F uuid clk Committed p1 b k m2 = (p2, m2', r2)"
  shows "r1 = Inr () \<and> r2 = Inr () \<and> (\<exists>node2. rp_node p2 = Some node2 \<and>
    fsm_holds F node2 bktVersions = (fsm_holds F node bktVersions)(objectKey b k \<mapsto> MObject m2))"
proof -
  have step: "\<exists>node'. r = Inr () \<and> rp_node p' = Some node' \<and> fsm_open node' \<and> rp_enabled p' = rp_enabled p \<and>
      fsm_holds F node' = (fsm_holds F node)(bktVersions := (fsm_holds F node bktVersions)(objectKey b k \<mapsto> MObject m))"
    if "rp_enabled p" "rp_node p = Some node" "fsm_open node" "marshal_object m = Inr (MObject m)"
      "proxy_PutObjectVersion B F uuid clk Committed p b k m = (p', m', r)"
    for p node m p' m' r
  proof -
    let ?op = "operation ''put_object_version'' b k (MObject m)"
    obtain node' x where a: "Apply F (Inr ?op) node = (node', x)" by fastforce
    from Apply_refines [OF F that(3) a] have n: "fsm_open node'" "fsm_holds F node' =
        (fsm_holds F node)(bktVersions := (fsm_holds F node bktVersions)(objectKey b k \<mapsto> MObject m))"
      using k by (simp_all add: spec_step_def operation_def op_key_def objectKey_def map_put_def)
    have "p' = p\<lparr>rp_node := Some node'\<rparr>" "r = Inr ()"
      using that a by (auto simp: proxy_PutObjectVersion_def proxy_node_def send_def RaftApply_def split: prod.splits)
    with n show ?thesis by simp
  qed
  obtain node1 where n1: "r1 = Inr ()" "rp_node p1 = Some node1" "fsm_open node1" "rp_enabled p1"
    "fsm_holds F node1 = (fsm_holds F node)(bktVersions := (fsm_holds F node bktVersions)(objectKey b k \<mapsto> MObject m1))"
    using step [OF p m(1) q1] p(1) by blast
  obtain node2 where "r2 = Inr ()" "rp_node p2 = Some node2"
    "fsm_holds F node2 = (fsm_holds F node1)(bktVersions := (fsm_holds F node1 bktVersions)(objectKey b k \<mapsto> MObject m2))"
    using step [OF n1(4,2,3) m(2) q2] by blast
  with n1 show ?thesis by simp
qed

theorem proxy_versions_overwrite_witness:
  "\<exists>(p2 :: (meta_doc mem_db, meta_doc mem_db) RaftMetadataProxy) node2.
     p2 = fst (proxy_PutObjectVersion mem_db mem_db ''u'' (\<lambda>_. 1) Committed
            (fst (proxy_PutObjectVersion mem_db mem_db ''u'' (\<lambda>_. 1) Committed mem_proxy ''docs'' ''a'' blank_object))
            ''docs'' ''a'' (blank_object\<lparr>om_VersionID := ''v2''\<rparr>)) \<and>
     rp_node p2 = Some node2 \<and>
     fsm_holds mem_db node2 bktVersions = [objectKey ''docs'' ''a'' \<mapsto> MObject (blank_object\<lparr>om_VersionID := ''v2''\<rparr>)]"
proof -
  obtain p1 m1' r1 where q1: "proxy_PutObjectVersion mem_db mem_db ''u'' (\<lambda>_. 1) Committed mem_proxy ''docs'' ''a'' blank_object = (p1, m1', r1)"
    by (metis prod.exhaust)
  obtain p2 m2' r2 where q2: "proxy_PutObjectVersion mem_db mem_db ''u'' (\<lambda>_. 1) Committed p1 ''docs'' ''a'' (blank_object\<lparr>om_VersionID := ''v2''\<rparr>) = (p2, m2', r2)"
    by (metis prod.exhaust)
  have e: "fsm_holds mem_db mem_node bktVersions = Map.empty" by (simp add: fsm_holds_def mem_node_def)
  obtain node2 where "rp_node p2 = Some node2" "fsm_holds mem_db node2 bktVersions =
      [objectKey ''docs'' ''a'' \<mapsto> MObject (blank_object\<lparr>om_VersionID := ''v2''\<rparr>)]"
    using proxy_versions_overwrite [OF mem_db_ok mem_db_no_errors _ _ _ blank_object_marshals _ q1 q2, of mem_node] e
    by (auto simp: mem_proxy_def mem_node_def valid_key_def objectKey_def MaxKeySize_def)
  then show ?thesis using q1 q2 by simp
qed

text \<open>
  With Raft on, an acknowledged write is not read back. Reads go to the local store and writes
  to the database of the state machine, so a committed \<^verbatim>\<open>PutObject\<close> returns without error and
  \<^verbatim>\<open>GetObject\<close> still answers as before it; and since the result of the state machine is dropped, it
  is acknowledged even if the state machine has refused it.
\<close>

theorem proxy_put_not_read_back:
  assumes F: "bolt_db_ok F" "bolt_no_errors F" and p: "rp_enabled p" "rp_node p = Some node" "fsm_open node"
    and m: "marshal_object md = Inr d" and q: "proxy_PutObject B F J io uuid clk Committed p b k md = (p', md', r)"
  shows "r = Inr () \<and> (\<forall>b' k'. proxy_GetObject B p' b' k' = proxy_GetObject B p b' k') \<and>
    (\<exists>node'. rp_node p' = Some node' \<and>
       (if valid_key (objectKey b k) then fsm_holds F node' bktObjects = (fsm_holds F node bktObjects)(objectKey b k \<mapsto> d)
        else fsm_holds F node' = fsm_holds F node))"
proof -
  let ?op = "operation ''put_object'' b k d"
  obtain node' x where a: "Apply F (Inr ?op) node = (node', x)" by fastforce
  have p': "p' = p\<lparr>rp_node := Some node'\<rparr>" "r = Inr ()"
    using q a p m by (auto simp: proxy_PutObject_def proxy_node_def send_def RaftApply_def split: prod.splits)
  have holds: "fst (spec_step (Inr ?op) (fsm_holds F node)) = fsm_holds F node'"
    using Apply_refines [OF F p(3) a] by (metis fst_conv)
  have "bktObjectIndex \<noteq> bktObjects" by (simp add: meta_bucket_defs)
  then have "if valid_key (objectKey b k) then fsm_holds F node' bktObjects = (fsm_holds F node bktObjects)(objectKey b k \<mapsto> d)
      else fsm_holds F node' = fsm_holds F node"
    using holds [symmetric]
    by (auto simp: spec_step_def operation_def op_key_def objectKey_def map_put_def map_index_def Let_def split: if_splits)
  with p' show ?thesis by (simp add: proxy_GetObject_def)
qed

theorem proxy_put_not_read_back_witness:
  "proxy_GetObject mem_db (fst (proxy_PutObject mem_db mem_db (\<lambda>_. []) WalOk ''u'' (\<lambda>_. 1) Committed mem_proxy ''docs'' ''a'' blank_object)) ''docs'' ''a''
   = Inl ErrKeyNotFound"
proof -
  obtain p' m' r where q: "proxy_PutObject mem_db mem_db (\<lambda>_. []) WalOk ''u'' (\<lambda>_. 1) Committed mem_proxy ''docs'' ''a'' blank_object = (p', m', r)"
    by (metis prod.exhaust)
  from proxy_put_not_read_back [OF mem_db_ok mem_db_no_errors _ _ _ blank_object_marshals(1) q, of mem_node]
  have "proxy_GetObject mem_db p' ''docs'' ''a'' = proxy_GetObject mem_db mem_proxy ''docs'' ''a''"
    by (simp add: mem_proxy_def mem_node_def)
  also have "\<dots> = Inl ErrKeyNotFound" by (simp add: proxy_GetObject_def GetObject_def mem_proxy_def bolt_View_def)
  finally show ?thesis by (simp add: q)
qed

end
