(* ===== verification/Plugin_Capability.thy ===== *)
theory Plugin_Capability
  imports Prelude "HOL-Library.AList"
begin

unbundle bit_operations_syntax

text \<open>
  What a plug-in may do: the capability tokens of \<^verbatim>\<open>internal/pluginloader/capability.go\<close> and the
  trust store of \<^verbatim>\<open>trust.go\<close>. A token is a 64-bit value; the table that gives it meaning is an
  association list without repeated keys (Go's map; nothing depends on its order). The random
  bytes and the clock are arguments, and so are \<^verbatim>\<open>ed25519.Verify\<close> and SHA-256, whose results the
  code only passes on.
\<close>

section \<open>Tokens\<close>

type_synonym CapabilityToken = "64 word"

record Capability =
  cap_PluginName :: string
  cap_TrustTier :: int
  cap_Capabilities :: "string list"
  cap_IssuedAt :: gotime
  cap_ExpiresAt :: gotime
  cap_revoked :: bool

record CapabilityTable =
  ct_nextID :: "64 word"
  ct_tokens :: "(CapabilityToken \<times> Capability) list"

definition NewCapabilityTable :: CapabilityTable where
  "NewCapabilityTable = \<lparr>ct_nextID = 0, ct_tokens = []\<rparr>"

text \<open>\<^verbatim>\<open>binary.LittleEndian.Uint64\<close>.\<close>

definition le_uint64 :: "byte list \<Rightarrow> 64 word" where
  "le_uint64 bs = foldr (\<lambda>b acc. push_bit 8 acc OR ucast b) bs 0"

text \<open>The attempts of \<^verbatim>\<open>Issue\<close>, one for each reading of random bytes.\<close>

fun issue_loop ::
    "(string + byte list) list \<Rightarrow> Capability \<Rightarrow> CapabilityTable \<Rightarrow> CapabilityTable \<times> CapabilityToken result" where
  "issue_loop [] c t = (t, Inl (Err ''failed to issue unique token after 8 attempts''))"
| "issue_loop (r # rs) c t =
     (case r of
        Inl e \<Rightarrow> (t, Inl (Err (''failed to generate token: '' @ e)))
      | Inr buf \<Rightarrow>
          let id = le_uint64 buf AND NOT (push_bit 63 1)
          in if id = 0 then issue_loop rs c t
             else if map_of (ct_tokens t) id \<noteq> None then issue_loop rs c t
             else (t\<lparr>ct_tokens := AList.update id c (ct_tokens t)\<rparr>, Inr id))"

definition Issue ::
    "(nat \<Rightarrow> string + byte list) \<Rightarrow> gotime \<Rightarrow> CapabilityTable \<Rightarrow> string \<Rightarrow> int \<Rightarrow> string list \<Rightarrow> gotime \<Rightarrow>
     CapabilityTable \<times> CapabilityToken result" where
  "Issue rnd now t pluginName tier caps expiresAt =
     (if pluginName = '''' then (t, Inl (Err ''plugin name is required''))
      else issue_loop (map rnd [0..<8])
             \<lparr>cap_PluginName = pluginName, cap_TrustTier = tier, cap_Capabilities = caps, cap_IssuedAt = now,
              cap_ExpiresAt = expiresAt, cap_revoked = False\<rparr> t)"

definition Lookup :: "gotime \<Rightarrow> CapabilityTable \<Rightarrow> CapabilityToken \<Rightarrow> Capability option" where
  "Lookup now t tok =
     (case map_of (ct_tokens t) tok of
        None \<Rightarrow> None
      | Some c \<Rightarrow>
          if cap_revoked c then None
          else if \<not> IsZero (cap_ExpiresAt c) \<and> now > cap_ExpiresAt c then None
          else Some c)"

definition Revoke :: "CapabilityTable \<Rightarrow> CapabilityToken \<Rightarrow> CapabilityTable" where
  "Revoke t tok =
     (case map_of (ct_tokens t) tok of
        None \<Rightarrow> t
      | Some c \<Rightarrow> t\<lparr>ct_tokens := AList.update tok (c\<lparr>cap_revoked := True\<rparr>) (ct_tokens t)\<rparr>)"

definition Delete :: "CapabilityTable \<Rightarrow> CapabilityToken \<Rightarrow> CapabilityTable" where
  "Delete t tok = t\<lparr>ct_tokens := AList.delete tok (ct_tokens t)\<rparr>"

definition RevokeAllForPlugin :: "CapabilityTable \<Rightarrow> string \<Rightarrow> CapabilityTable \<times> nat" where
  "RevokeAllForPlugin t pluginName =
     (t\<lparr>ct_tokens := map (\<lambda>(tok, c). (tok, if cap_PluginName c = pluginName then c\<lparr>cap_revoked := True\<rparr> else c)) (ct_tokens t)\<rparr>,
      length (filter (\<lambda>(tok, c). cap_PluginName c = pluginName) (ct_tokens t)))"

definition Cap_Count :: "CapabilityTable \<Rightarrow> nat" where
  "Cap_Count t = length (filter (\<lambda>(tok, c). \<not> cap_revoked c) (ct_tokens t))"

section \<open>Matching\<close>

definition capabilityMatches :: "string \<Rightarrow> string \<Rightarrow> bool" where
  "capabilityMatches granted requested \<longleftrightarrow>
     (if granted = requested then True
      else if HasPrefix granted (requested @ '':'') then True
      else if \<not> HasSuffix granted ''*'' then False
      else HasPrefix requested (TrimSuffix granted ''*''))"

definition HasCapability :: "Capability \<Rightarrow> string \<Rightarrow> bool" where
  "HasCapability c requested \<longleftrightarrow> list_ex (\<lambda>granted. capabilityMatches granted requested) (cap_Capabilities c)"

definition tier2Prefixes :: "string list" where
  "tier2Prefixes = [''iam:policy:evaluate'', ''kms:datakey:generate'', ''crypto:audit:sign'', ''gateway:hook:register_for_other'']"

definition IsTier2Only :: "string \<Rightarrow> bool" where
  "IsTier2Only capability \<longleftrightarrow> list_ex (\<lambda>p. capability = p \<or> HasPrefix capability (p @ '':'')) tier2Prefixes"

datatype ErrUnauthorized = ErrUnauthorized (unauth_Capability: string) (unauth_Reason: string)

definition Authorize :: "gotime \<Rightarrow> CapabilityTable \<Rightarrow> CapabilityToken \<Rightarrow> string \<Rightarrow> ErrUnauthorized option" where
  "Authorize now t tok requested =
     (case Lookup now t tok of
        None \<Rightarrow> Some (ErrUnauthorized requested ''token unknown, revoked, or expired'')
      | Some c \<Rightarrow>
          if IsTier2Only requested \<and> cap_TrustTier c < 2
          then Some (ErrUnauthorized requested ''capability requires Tier 2 trust'')
          else if \<not> HasCapability c requested
          then Some (ErrUnauthorized requested ''capability not granted to this token'')
          else None)"

section \<open>The trust store\<close>

definition TierUntrusted :: int where "TierUntrusted = 0"
definition TierTrusted :: int where "TierTrusted = 1"
definition TierCore :: int where "TierCore = 2"

lemmas tier_defs = TierUntrusted_def TierTrusted_def TierCore_def

record TrustedKey =
  tk_KeyID :: string
  tk_PublicKey :: string
  tk_IsCore :: bool
  tk_AddedAt :: string
  tk_AddedBy :: string

record TrustStore =
  ts_keys :: "string \<rightharpoonup> TrustedKey"
  ts_pubKeys :: "string \<rightharpoonup> byte list"

text \<open>
  \<^verbatim>\<open>base64.StdEncoding.DecodeString\<close>: line breaks are skipped, the rest comes in groups of four
  characters of which the last may be padded, and spare bits are ignored. Where it fails
  within the text is not modelled.
\<close>

definition b64_value :: "char \<Rightarrow> nat option" where
  "b64_value c =
     (let n = (of_char c :: nat)
      in if 65 \<le> n \<and> n \<le> 90 then Some (n - 65)
         else if 97 \<le> n \<and> n \<le> 122 then Some (n - 71)
         else if 48 \<le> n \<and> n \<le> 57 then Some (n + 4)
         else if c = CHR ''+'' then Some 62
         else if c = CHR ''/'' then Some 63
         else None)"

definition b64_bytes :: "nat \<Rightarrow> nat \<Rightarrow> nat \<Rightarrow> nat \<Rightarrow> nat \<Rightarrow> byte list" where
  "b64_bytes n a b c d =
     (let v = ((a * 64 + b) * 64 + c) * 64 + d
      in take n [word_of_nat (v div 65536), word_of_nat (v div 256 mod 256), word_of_nat (v mod 256)])"

fun b64_decode :: "string \<Rightarrow> byte list option" where
  "b64_decode [] = Some []"
| "b64_decode (p # q # r # s # rest) =
     (case (b64_value p, b64_value q) of
        (Some a, Some b) \<Rightarrow>
          (if r = CHR ''='' then (if s = CHR ''='' \<and> rest = [] then Some (b64_bytes 1 a b 0 0) else None)
           else (case b64_value r of
                   None \<Rightarrow> None
                 | Some c \<Rightarrow>
                     (if s = CHR ''='' then (if rest = [] then Some (b64_bytes 2 a b c 0) else None)
                      else (case (b64_value s, b64_decode rest) of
                              (Some d, Some bs) \<Rightarrow> Some (b64_bytes 3 a b c d @ bs)
                            | _ \<Rightarrow> None))))
      | _ \<Rightarrow> None)"
| "b64_decode _ = None"

definition StdEncoding_DecodeString :: "string \<Rightarrow> byte list option" where
  "StdEncoding_DecodeString s = b64_decode (filter (\<lambda>c. c \<noteq> CHR 0x0A \<and> c \<noteq> CHR 0x0D) s)"

definition PublicKeySize :: nat where "PublicKeySize = 32"
definition SignatureSize :: nat where "SignatureSize = 64"

datatype trust_err =
    TrustedKeysUnreadable string | MissingKeyID | InvalidBase64 string | WrongKeyLength string nat
  | EmptyKeyID | WrongSignatureLength nat | UnknownKey string | SignatureInvalid | InvalidTier int
  | CoreNeedsSignature | CoreSignedByUnknown string | CoreSignedByNonCore string

text \<open>\<^verbatim>\<open>AddKey\<close>; \<^verbatim>\<open>LoadKeys\<close> does the same for every key of the file, after clearing the maps.\<close>

definition AddKey :: "TrustStore \<Rightarrow> TrustedKey \<Rightarrow> TrustStore \<times> (trust_err + unit)" where
  "AddKey ts k =
     (if tk_KeyID k = '''' then (ts, Inl MissingKeyID)
      else (case StdEncoding_DecodeString (tk_PublicKey k) of
              None \<Rightarrow> (ts, Inl (InvalidBase64 (tk_KeyID k)))
            | Some pub \<Rightarrow>
                if length pub \<noteq> PublicKeySize then (ts, Inl (WrongKeyLength (tk_KeyID k) (length pub)))
                else (ts\<lparr>ts_keys := (ts_keys ts)(tk_KeyID k \<mapsto> k), ts_pubKeys := (ts_pubKeys ts)(tk_KeyID k \<mapsto> pub)\<rparr>, Inr ())))"

fun load_loop :: "TrustedKey list \<Rightarrow> TrustStore \<Rightarrow> TrustStore \<times> (trust_err + unit)" where
  "load_loop [] ts = (ts, Inr ())"
| "load_loop (k # ks) ts =
     (case AddKey ts k of
        (ts', Inl e) \<Rightarrow> (ts', Inl e)
      | (ts', Inr _) \<Rightarrow> load_loop ks ts')"

text \<open>The file is the list of keys it encodes, or the reason it does not parse.\<close>

definition LoadKeys :: "string + TrustedKey list \<Rightarrow> TrustStore \<Rightarrow> TrustStore \<times> (trust_err + unit)" where
  "LoadKeys raw ts =
     (case raw of
        Inl e \<Rightarrow> (ts, Inl (TrustedKeysUnreadable e))
      | Inr keys \<Rightarrow> load_loop keys \<lparr>ts_keys = Map.empty, ts_pubKeys = Map.empty\<rparr>)"

definition RemoveKey :: "TrustStore \<Rightarrow> string \<Rightarrow> TrustStore \<times> bool" where
  "RemoveKey ts keyID =
     (ts\<lparr>ts_keys := (ts_keys ts)(keyID := None), ts_pubKeys := (ts_pubKeys ts)(keyID := None)\<rparr>, ts_keys ts keyID \<noteq> None)"

definition TrustDigest :: "(byte list \<Rightarrow> byte list) \<Rightarrow> byte list \<Rightarrow> byte list \<Rightarrow> byte list" where
  "TrustDigest sha256 manifestJSON wasmBytes = sha256 (manifestJSON @ wasmBytes)"

record VerifyResult =
  vr_Tier :: int
  vr_KeyID :: string

definition VerifySignature ::
    "(byte list \<Rightarrow> byte list) \<Rightarrow> (byte list \<Rightarrow> byte list \<Rightarrow> byte list \<Rightarrow> bool) \<Rightarrow> TrustStore \<Rightarrow> byte list \<Rightarrow> byte list \<Rightarrow>
     byte list \<Rightarrow> string \<Rightarrow> trust_err + VerifyResult" where
  "VerifySignature sha256 verify ts manifestJSON wasmBytes sig keyID =
     (if keyID = '''' then Inl EmptyKeyID
      else if length sig \<noteq> SignatureSize then Inl (WrongSignatureLength (length sig))
      else (case ts_pubKeys ts keyID of
              None \<Rightarrow> Inl (UnknownKey keyID)
            | Some pub \<Rightarrow>
                if \<not> verify pub (TrustDigest sha256 manifestJSON wasmBytes) sig then Inl SignatureInvalid
                else Inr \<lparr>vr_Tier = (case ts_keys ts keyID of
                                       None \<Rightarrow> TierTrusted
                                     | Some k \<Rightarrow> if tk_IsCore k then TierCore else TierTrusted),
                          vr_KeyID = keyID\<rparr>))"

definition DetermineEffectiveTier ::
    "(byte list \<Rightarrow> byte list) \<Rightarrow> (byte list \<Rightarrow> byte list \<Rightarrow> byte list \<Rightarrow> bool) \<Rightarrow> TrustStore \<Rightarrow> int \<Rightarrow> byte list \<Rightarrow>
     byte list \<Rightarrow> byte list \<Rightarrow> string \<Rightarrow> trust_err + (int \<times> string)" where
  "DetermineEffectiveTier sha256 verify ts requestedTier manifestJSON wasmBytes sig keyID =
     (if requestedTier < TierUntrusted \<or> requestedTier > TierCore then Inl (InvalidTier requestedTier)
      else if sig = [] \<or> keyID = '''' then
        (if requestedTier = TierCore then Inl CoreNeedsSignature else Inr (TierUntrusted, ''''))
      else if ts_pubKeys ts keyID = None then
        (if requestedTier = TierCore then Inl (CoreSignedByUnknown keyID) else Inr (TierUntrusted, ''''))
      else (case VerifySignature sha256 verify ts manifestJSON wasmBytes sig keyID of
              Inl e \<Rightarrow> Inl e
            | Inr res \<Rightarrow>
                if requestedTier = TierCore \<and> vr_Tier res < TierCore then Inl (CoreSignedByNonCore (vr_KeyID res))
                else if requestedTier > vr_Tier res then Inr (vr_Tier res, vr_KeyID res)
                else Inr (requestedTier, vr_KeyID res)))"

section \<open>Histories\<close>

text \<open>The operations on a table, and a run of them.\<close>

datatype cap_op =
    CIssue "nat \<Rightarrow> string + byte list" gotime string int "string list" gotime
  | CRevoke CapabilityToken | CDelete CapabilityToken | CRevokeAll string

fun cap_step :: "cap_op \<Rightarrow> CapabilityTable \<Rightarrow> CapabilityTable" where
  "cap_step (CIssue rnd now p tier caps expires) t = fst (Issue rnd now t p tier caps expires)"
| "cap_step (CRevoke tok) t = Revoke t tok"
| "cap_step (CDelete tok) t = Delete t tok"
| "cap_step (CRevokeAll p) t = fst (RevokeAllForPlugin t p)"

definition cap_run :: "cap_op list \<Rightarrow> CapabilityTable" where
  "cap_run ops = fold cap_step ops NewCapabilityTable"

text \<open>What ends a token of a plug-in.\<close>

fun ends_token :: "string \<Rightarrow> CapabilityToken \<Rightarrow> cap_op \<Rightarrow> bool" where
  "ends_token p tok (CIssue _ _ _ _ _ _) = False"
| "ends_token p tok (CRevoke tok') = (tok' = tok)"
| "ends_token p tok (CDelete tok') = (tok' = tok)"
| "ends_token p tok (CRevokeAll p') = (p' = p)"

definition issued_cap :: "gotime \<Rightarrow> string \<Rightarrow> int \<Rightarrow> string list \<Rightarrow> gotime \<Rightarrow> Capability" where
  "issued_cap now p tier caps expires = \<lparr>cap_PluginName = p, cap_TrustTier = tier, cap_Capabilities = caps,
     cap_IssuedAt = now, cap_ExpiresAt = expires, cap_revoked = False\<rparr>"

lemma issued_cap_simps [simp]:
  "cap_PluginName (issued_cap now p tier caps expires) = p" "cap_TrustTier (issued_cap now p tier caps expires) = tier"
  "cap_Capabilities (issued_cap now p tier caps expires) = caps" "cap_ExpiresAt (issued_cap now p tier caps expires) = expires"
  "cap_revoked (issued_cap now p tier caps expires) = False"
  by (simp_all add: issued_cap_def)

text \<open>A token is live with a capability when it was issued with it and nothing has ended it since.\<close>

definition issued_live :: "cap_op list \<Rightarrow> CapabilityToken \<Rightarrow> Capability \<Rightarrow> bool" where
  "issued_live ops tok c \<longleftrightarrow> (\<exists>pre rnd now p tier caps expires post.
     ops = pre @ CIssue rnd now p tier caps expires # post \<and>
     snd (Issue rnd now (cap_run pre) p tier caps expires) = Inr tok \<and>
     c = issued_cap now p tier caps expires \<and> (\<forall>op \<in> set post. \<not> ends_token p tok op))"

definition live_cap :: "CapabilityTable \<Rightarrow> CapabilityToken \<Rightarrow> Capability option" where
  "live_cap t tok =
     (case map_of (ct_tokens t) tok of None \<Rightarrow> None | Some c \<Rightarrow> if cap_revoked c then None else Some c)"

lemma cap_run_snoc [simp]: "cap_run (ops @ [op]) = cap_step op (cap_run ops)"
  by (simp add: cap_run_def)

lemma issue_loop_live:
  assumes "issue_loop rs c t = (t', r)" "\<not> cap_revoked c"
  shows "(case r of
      Inl _ \<Rightarrow> t' = t
    | Inr tk \<Rightarrow> live_cap t tk = None \<and> live_cap t' = (live_cap t)(tk \<mapsto> c))"
  using assms
proof (induction rs)
  case (Cons r' rs)
  show ?case
  proof (cases r')
    case (Inr buf)
    let ?id = "le_uint64 buf AND NOT (push_bit 63 1)"
    show ?thesis
    proof (cases "?id = 0 \<or> map_of (ct_tokens t) ?id \<noteq> None")
      case True
      then have "issue_loop rs c t = (t', r)" using Cons.prems(1) Inr by (auto simp: Let_def split: if_splits)
      then show ?thesis using Cons.IH Cons.prems(2) by simp
    next
      case False
      then have "t' = t\<lparr>ct_tokens := AList.update ?id c (ct_tokens t)\<rparr>" "r = Inr ?id"
        using Cons.prems(1) Inr by (auto simp: Let_def)
      then show ?thesis using False Cons.prems(2) by (auto simp: live_cap_def update_conv' fun_eq_iff)
    qed
  qed (use Cons.prems in auto)
qed auto

lemma Issue_live:
  assumes "Issue rnd now t p tier caps expires = (t', r)"
  shows "(case r of
      Inl _ \<Rightarrow> t' = t
    | Inr tk \<Rightarrow> live_cap t tk = None \<and> live_cap t' = (live_cap t)(tk \<mapsto> issued_cap now p tier caps expires))"
proof (cases "p = ''''")
  case False
  then have "issue_loop (map rnd [0..<8]) (issued_cap now p tier caps expires) t = (t', r)"
    using assms by (simp add: Issue_def issued_cap_def)
  then show ?thesis by (rule issue_loop_live) simp
qed (use assms in \<open>auto simp: Issue_def\<close>)

lemma Revoke_live [simp]: "live_cap (Revoke t tok) = (live_cap t)(tok := None)"
  by (auto simp: live_cap_def Revoke_def fun_eq_iff update_conv' split: option.splits)

lemma Delete_live [simp]: "live_cap (Delete t tok) = (live_cap t)(tok := None)"
  by (auto simp: live_cap_def Delete_def fun_eq_iff delete_conv' split: option.splits)

lemma RevokeAll_live [simp]:
  "live_cap (fst (RevokeAllForPlugin t p)) tok =
     (case live_cap t tok of None \<Rightarrow> None | Some c \<Rightarrow> if cap_PluginName c = p then None else Some c)"
proof -
  let ?f = "\<lambda>c. if cap_PluginName c = p then c\<lparr>cap_revoked := True\<rparr> else c"
  have "map_of (ct_tokens (fst (RevokeAllForPlugin t p))) tok = map_option ?f (map_of (ct_tokens t) tok)"
    by (simp add: RevokeAllForPlugin_def map_of_map)
  then show ?thesis by (cases "map_of (ct_tokens t) tok") (simp_all add: live_cap_def)
qed

text \<open>The history of one more operation.\<close>

lemma issued_liveI:
  assumes "ops = pre @ CIssue rnd now p tier caps expires # post"
    and "snd (Issue rnd now (cap_run pre) p tier caps expires) = Inr tok"
    and "\<And>op. op \<in> set post \<Longrightarrow> \<not> ends_token p tok op"
  shows "issued_live ops tok (issued_cap now p tier caps expires)"
  unfolding issued_live_def
  by (rule exI [of _ pre], rule exI [of _ rnd], rule exI [of _ now], rule exI [of _ p], rule exI [of _ tier],
      rule exI [of _ caps], rule exI [of _ expires], rule exI [of _ post], intro conjI ballI)
     (rule assms(1), rule assms(2), rule refl, erule assms(3))

lemma issued_live_snoc:
  "issued_live (ops @ [op]) tok c \<longleftrightarrow>
     (\<exists>rnd now p tier caps expires. op = CIssue rnd now p tier caps expires \<and>
        snd (Issue rnd now (cap_run ops) p tier caps expires) = Inr tok \<and> c = issued_cap now p tier caps expires) \<or>
     (issued_live ops tok c \<and> \<not> ends_token (cap_PluginName c) tok op)"
  (is "?l \<longleftrightarrow> ?new \<or> ?old")
proof
  assume ?l
  then obtain pre rnd now p tier caps expires post where h: "ops @ [op] = pre @ CIssue rnd now p tier caps expires # post"
    "snd (Issue rnd now (cap_run pre) p tier caps expires) = Inr tok" "c = issued_cap now p tier caps expires"
    "\<forall>op \<in> set post. \<not> ends_token p tok op"
    by (auto simp: issued_live_def)
  show "?new \<or> ?old"
  proof (cases post rule: rev_cases)
    case Nil
    with h(1) have "op = CIssue rnd now p tier caps expires" "ops = pre" by auto
    with h(2,3) show ?thesis by blast
  next
    case (snoc post' op')
    with h(1) have "ops = pre @ CIssue rnd now p tier caps expires # post'" "op = op'" by auto
    with h snoc have "issued_live ops tok c" using issued_liveI [of ops pre rnd now p tier caps expires post' tok] by auto
    moreover have "\<not> ends_token (cap_PluginName c) tok op" using h(3,4) snoc \<open>op = op'\<close> by simp
    ultimately show ?thesis by blast
  qed
next
  assume "?new \<or> ?old"
  then show ?l
  proof
    assume ?new
    then obtain rnd now p tier caps expires where n: "op = CIssue rnd now p tier caps expires"
      "snd (Issue rnd now (cap_run ops) p tier caps expires) = Inr tok" "c = issued_cap now p tier caps expires" by blast
    show ?l unfolding n(3) by (rule issued_liveI [of _ ops rnd _ _ _ _ _ "[]"]) (use n in simp_all)
  next
    assume ?old
    then obtain pre rnd now p tier caps expires post where h: "ops = pre @ CIssue rnd now p tier caps expires # post"
      "snd (Issue rnd now (cap_run pre) p tier caps expires) = Inr tok" "c = issued_cap now p tier caps expires"
      "\<forall>op \<in> set post. \<not> ends_token p tok op" "\<not> ends_token p tok op"
      by (auto simp: issued_live_def)
    show ?l unfolding h(3) by (rule issued_liveI [of _ pre rnd _ _ _ _ _ "post @ [op]"]) (use h in auto)
  qed
qed

lemma live_iff_issued: "live_cap (cap_run ops) tok = Some c \<longleftrightarrow> issued_live ops tok c"
proof (induction ops arbitrary: tok c rule: rev_induct)
  case Nil
  then show ?case by (simp add: live_cap_def cap_run_def NewCapabilityTable_def issued_live_def)
next
  case (snoc op ops)
  have IH: "issued_live ops tok c \<longleftrightarrow> live_cap (cap_run ops) tok = Some c" for tok c using snoc by simp
  show ?case
  proof (cases op)
    case (CIssue rnd now p tier caps expires)
    obtain t' r where i: "Issue rnd now (cap_run ops) p tier caps expires = (t', r)" by fastforce
    show ?thesis
    proof (cases r)
      case (Inl e)
      with Issue_live [OF i] i CIssue show ?thesis by (simp add: issued_live_snoc IH)
    next
      case (Inr tk)
      with Issue_live [OF i] i CIssue show ?thesis by (auto simp: issued_live_snoc IH)
    qed
  qed (auto simp: issued_live_snoc IH split: option.splits)
qed

lemma Lookup_live:
  "Lookup now t tok = Some c \<longleftrightarrow> live_cap t tok = Some c \<and> (cap_ExpiresAt c = 0 \<or> now \<le> cap_ExpiresAt c)"
  by (auto simp: Lookup_def live_cap_def IsZero_def split: option.splits if_splits)

lemma Authorize_live:
  "Authorize now t tok requested = None \<longleftrightarrow>
     (\<exists>c. live_cap t tok = Some c \<and> (cap_ExpiresAt c = 0 \<or> now \<le> cap_ExpiresAt c) \<and>
          (IsTier2Only requested \<longrightarrow> 2 \<le> cap_TrustTier c) \<and> HasCapability c requested)"
  (is "_ \<longleftrightarrow> (\<exists>c. ?P c)")
proof -
  have "(\<exists>c. ?P c) \<longleftrightarrow> (\<exists>c. Lookup now t tok = Some c \<and> (IsTier2Only requested \<longrightarrow> 2 \<le> cap_TrustTier c) \<and> HasCapability c requested)"
    by (simp add: Lookup_live)
  then show ?thesis by (cases "Lookup now t tok") (auto simp: Authorize_def)
qed

text \<open>The tier a plug-in gets, on every branch that does not fail.\<close>

lemma VerifySignature_ok:
  "VerifySignature sha256 verify ts mj wasm sig keyID = Inr res \<longleftrightarrow>
     keyID \<noteq> '''' \<and> length sig = SignatureSize \<and>
     (\<exists>pub. ts_pubKeys ts keyID = Some pub \<and> verify pub (sha256 (mj @ wasm)) sig) \<and>
     res = \<lparr>vr_Tier = (if (\<exists>k. ts_keys ts keyID = Some k \<and> tk_IsCore k) then TierCore else TierTrusted), vr_KeyID = keyID\<rparr>"
  by (auto simp: VerifySignature_def TrustDigest_def split: option.splits)

lemma DetermineEffectiveTier_ok:
  assumes "DetermineEffectiveTier sha256 verify ts requested mj wasm sig keyID = Inr (tier, by)"
  shows "0 \<le> tier \<and> tier \<le> requested \<and>
    (0 < tier \<longrightarrow> by = keyID \<and> (\<exists>pub. ts_pubKeys ts keyID = Some pub \<and> verify pub (sha256 (mj @ wasm)) sig)) \<and>
    (tier = 2 \<longrightarrow> (\<exists>k. ts_keys ts keyID = Some k \<and> tk_IsCore k))"
proof (cases "sig = [] \<or> keyID = '''' \<or> ts_pubKeys ts keyID = None")
  case True
  then show ?thesis using assms by (auto simp: DetermineEffectiveTier_def tier_defs split: if_splits)
next
  case False
  obtain res where v: "VerifySignature sha256 verify ts mj wasm sig keyID = Inr res"
    using assms False by (auto simp: DetermineEffectiveTier_def split: if_splits sum.splits)
  then show ?thesis
    using assms False v [unfolded VerifySignature_ok] unfolding DetermineEffectiveTier_def v
    by (auto simp: tier_defs split: if_splits)
qed

section \<open>Properties\<close>

text \<open>
  C28. Capability tokens grant exactly what was issued. After any run of operations on a new
  table, \<^verbatim>\<open>Authorize\<close> accepts a token for a request if and only if the token came from an \<^verbatim>\<open>Issue\<close> in
  the run after which it was not revoked or deleted and its plug-in's tokens were not revoked,
  it has not expired, one of the capabilities it was issued with matches the request, and it
  was issued at tier 2 if the request is for a tier-2 capability.
\<close>

theorem authorize_exact:
  "Authorize now (cap_run ops) tok requested = None \<longleftrightarrow>
     (\<exists>pre rnd issued p tier caps expires post.
        ops = pre @ CIssue rnd issued p tier caps expires # post \<and>
        snd (Issue rnd issued (cap_run pre) p tier caps expires) = Inr tok \<and>
        (\<forall>op \<in> set post. \<not> ends_token p tok op) \<and> (expires = 0 \<or> now \<le> expires) \<and>
        (IsTier2Only requested \<longrightarrow> 2 \<le> tier) \<and> (\<exists>granted \<in> set caps. capabilityMatches granted requested))"
  (is "_ \<longleftrightarrow> ?r")
proof -
  have "Authorize now (cap_run ops) tok requested = None \<longleftrightarrow>
      (\<exists>c. issued_live ops tok c \<and> (cap_ExpiresAt c = 0 \<or> now \<le> cap_ExpiresAt c) \<and>
          (IsTier2Only requested \<longrightarrow> 2 \<le> cap_TrustTier c) \<and> HasCapability c requested)" (is "_ \<longleftrightarrow> (\<exists>c. ?P c)")
    by (simp add: Authorize_live live_iff_issued)
  also have "\<dots> \<longleftrightarrow> ?r"
  proof
    assume "\<exists>c. ?P c"
    then obtain c where c: "?P c" by blast
    then obtain pre rnd issued p tier caps expires post where "ops = pre @ CIssue rnd issued p tier caps expires # post"
      "snd (Issue rnd issued (cap_run pre) p tier caps expires) = Inr tok" "\<forall>op \<in> set post. \<not> ends_token p tok op"
      "c = issued_cap issued p tier caps expires"
      unfolding issued_live_def by blast
    with c show ?r by (intro exI [of _ pre] exI [of _ rnd] exI [of _ issued] exI [of _ p] exI [of _ tier] exI [of _ caps]
        exI [of _ expires] exI [of _ post]) (auto simp: HasCapability_def list_ex_iff)
  next
    assume ?r
    then obtain pre rnd issued p tier caps expires post where h: "ops = pre @ CIssue rnd issued p tier caps expires # post"
      "snd (Issue rnd issued (cap_run pre) p tier caps expires) = Inr tok" "\<forall>op \<in> set post. \<not> ends_token p tok op"
      "expires = 0 \<or> now \<le> expires" "IsTier2Only requested \<longrightarrow> 2 \<le> tier" "\<exists>granted \<in> set caps. capabilityMatches granted requested"
      by blast
    have "issued_live ops tok (issued_cap issued p tier caps expires)" by (rule issued_liveI [OF h(1,2)]) (use h(3) in blast)
    then show "\<exists>c. ?P c"
      by (intro exI [of _ "issued_cap issued p tier caps expires"]) (use h(4-6) in \<open>auto simp: HasCapability_def list_ex_iff\<close>)
  qed
  finally show ?thesis .
qed

text \<open>A plug-in that is issued a token, then all of them are revoked.\<close>

definition demo_ops :: "cap_op list" where
  "demo_ops = [CIssue (\<lambda>_. Inr [7, 0, 0, 0, 0, 0, 0, 0]) 5 ''wiki'' 1 [''storage:get:notes/*''] 0]"

lemma demo_issue:
  "snd (Issue (\<lambda>_. Inr [7, 0, 0, 0, 0, 0, 0, 0]) 5 (cap_run []) ''wiki'' 1 [''storage:get:notes/*''] 0) = Inr 7"
  by code_simp

theorem authorize_exact_witness:
  "Authorize 9 (cap_run demo_ops) 7 ''storage:get:notes/a'' = None \<and>
   Authorize 9 (cap_run (demo_ops @ [CRevokeAll ''wiki''])) 7 ''storage:get:notes/a'' \<noteq> None"
proof
  have "capabilityMatches ''storage:get:notes/*'' ''storage:get:notes/a''" "\<not> IsTier2Only ''storage:get:notes/a''" by code_simp+
  then show "Authorize 9 (cap_run demo_ops) 7 ''storage:get:notes/a'' = None"
    unfolding authorize_exact demo_ops_def using demo_issue
    by (intro exI [of _ "[]"] exI [of _ "\<lambda>_. Inr [7, 0, 0, 0, 0, 0, 0, 0]"] exI [of _ 5] exI [of _ "''wiki''"] exI [of _ 1]
        exI [of _ "[''storage:get:notes/*'']"] exI [of _ 0] exI [of _ "[]"]) simp
  show "Authorize 9 (cap_run (demo_ops @ [CRevokeAll ''wiki''])) 7 ''storage:get:notes/a'' \<noteq> None"
    unfolding authorize_exact demo_ops_def by (auto simp: Cons_eq_append_conv append_eq_Cons_conv)
qed

text \<open>
  C29. Tier-2 capabilities need a core signature. When a plug-in is given the tier that
  \<^verbatim>\<open>DetermineEffectiveTier\<close> answers and a token at that tier, and the token is accepted for a tier-2
  capability, then the plug-in asked for tier 2 and a core key of the trust store verifies its
  signature over exactly the installed manifest and module.
\<close>

theorem tier2_needs_core_signature:
  assumes "DetermineEffectiveTier sha256 verify ts requested mj wasm sig keyID = Inr (tier, by)"
    and "Issue rnd issued t p tier caps expires = (t', Inr tok)"
    and "Authorize now t' tok capability = None" "IsTier2Only capability"
  shows "requested = 2 \<and> (\<exists>k pub. ts_keys ts keyID = Some k \<and> tk_IsCore k \<and> ts_pubKeys ts keyID = Some pub \<and>
    verify pub (sha256 (mj @ wasm)) sig)"
proof -
  have "live_cap t' tok = Some (issued_cap issued p tier caps expires)" using Issue_live [OF assms(2)] by simp
  then have "2 \<le> tier" using assms(3,4) by (auto simp: Authorize_live)
  moreover have "requested \<le> 2"
    using assms(1) by (auto simp: DetermineEffectiveTier_def tier_defs split: if_splits)
  ultimately show ?thesis using DetermineEffectiveTier_ok [OF assms(1)] by (auto dest: order_antisym)
qed

definition core_key :: TrustedKey where
  "core_key = \<lparr>tk_KeyID = ''root'', tk_PublicKey = replicate 43 CHR ''A'' @ ''='', tk_IsCore = True, tk_AddedAt = '''', tk_AddedBy = ''''\<rparr>"

definition core_store :: TrustStore where
  "core_store = \<lparr>ts_keys = [''root'' \<mapsto> core_key], ts_pubKeys = [''root'' \<mapsto> replicate 32 0]\<rparr>"

theorem tier2_needs_core_signature_witness:
  "\<exists>t'. Issue (\<lambda>_. Inr [7, 0, 0, 0, 0, 0, 0, 0]) 5 NewCapabilityTable ''kms'' 2 [''kms:datakey:generate''] 0 = (t', Inr 7) \<and>
     Authorize 9 t' 7 ''kms:datakey:generate'' = None \<and> (\<exists>k. ts_keys core_store ''root'' = Some k \<and> tk_IsCore k)"
proof -
  let ?i = "Issue (\<lambda>_. Inr [7, 0, 0, 0, 0, 0, 0, 0]) 5 NewCapabilityTable ''kms'' 2 [''kms:datakey:generate''] 0"
  have i: "?i = (fst ?i, Inr 7)" by code_simp
  have a: "Authorize 9 (fst ?i) 7 ''kms:datakey:generate'' = None" "IsTier2Only ''kms:datakey:generate''" by code_simp+
  have d: "DetermineEffectiveTier (\<lambda>x. x) (\<lambda>pub dig sig. True) core_store 2 [1] [2] (replicate 64 0) ''root'' = Inr (2, ''root'')"
    by (simp add: DetermineEffectiveTier_def VerifySignature_def SignatureSize_def core_store_def core_key_def tier_defs)
  from tier2_needs_core_signature [OF d i a] i a show ?thesis by (intro exI [of _ "fst ?i"]) auto
qed

end
