(* ===== verification/Plugin_FSM.thy ===== *)
theory Plugin_FSM
  imports Raft_FSM Plugin_Capability
begin

text \<open>
  The replicated state of the plug-in loader, \<^verbatim>\<open>internal/pluginloader/fsm.go\<close>: the registry of
  plug-ins, the trusted keys, the hooks and, in a nested bucket for each plug-in, its key-value
  state with versions. \<^verbatim>\<open>LoaderFSM\<close> embeds \<^verbatim>\<open>BoltFSM\<close> (\<open>Raft_FSM\<close>) for its database, snapshots and
  restore, and has its own \<^verbatim>\<open>Apply\<close>.

  What the code uses of nested buckets is the argument \<open>N\<close> beside the database \<open>B\<close>, with the documented
  behaviour as the hypothesis \<open>nested_ok\<close> and \<open>nested_no_errors\<close> that no write fails; \<open>mem_loader\<close> and \<open>mem_nested\<close>
  satisfy them. A document is the bytes of an operation, or the state entry they encode.
\<close>

section \<open>Nested buckets\<close>

record ('tx, 'd) nested =
  ntx_Top :: "'tx \<Rightarrow> string \<Rightarrow> bool"
  ntx_Bucket :: "'tx \<Rightarrow> string \<Rightarrow> string \<Rightarrow> bool"
  ntx_Get :: "'tx \<Rightarrow> string \<Rightarrow> string \<Rightarrow> string \<Rightarrow> 'd option"
  ntx_Create :: "'tx \<Rightarrow> string \<Rightarrow> string \<Rightarrow> string + 'tx"
  ntx_Drop :: "'tx \<Rightarrow> string \<Rightarrow> string \<Rightarrow> string + 'tx"
  ntx_Put :: "'tx \<Rightarrow> string \<Rightarrow> string \<Rightarrow> string \<Rightarrow> 'd \<Rightarrow> string + 'tx"
  ntx_Delete :: "'tx \<Rightarrow> string \<Rightarrow> string \<Rightarrow> string \<Rightarrow> string + 'tx"

text \<open>What a transaction shows of both levels.\<close>

definition tx_view ::
    "('db, 'tx, 'd) bolt_db \<Rightarrow> ('tx, 'd) nested \<Rightarrow> 'tx \<Rightarrow> (string \<Rightarrow> string \<rightharpoonup> 'd) \<times> (string \<Rightarrow> string \<Rightarrow> bool) \<times> (string \<Rightarrow> string \<Rightarrow> string \<rightharpoonup> 'd)" where
  "tx_view B N tx = (btx_Get B tx, ntx_Bucket N tx, ntx_Get N tx)"

definition nested_ok :: "('db, 'tx, 'd) bolt_db \<Rightarrow> ('tx, 'd) nested \<Rightarrow> bool" where
  "nested_ok B N \<longleftrightarrow>
     (\<forall>tx bk k v tx'. btx_Put B tx bk k v = Inr tx' \<longrightarrow>
        ntx_Top N tx' = ntx_Top N tx \<and> ntx_Bucket N tx' = ntx_Bucket N tx \<and> ntx_Get N tx' = ntx_Get N tx) \<and>
     (\<forall>tx bk k tx'. btx_Delete B tx bk k = Inr tx' \<longrightarrow>
        ntx_Top N tx' = ntx_Top N tx \<and> ntx_Bucket N tx' = ntx_Bucket N tx \<and> ntx_Get N tx' = ntx_Get N tx) \<and>
     (\<forall>tx p n tx'. ntx_Create N tx p n = Inr tx' \<longrightarrow> ntx_Top N tx' = ntx_Top N tx \<and>
        tx_view B N tx' = (btx_Get B tx, (ntx_Bucket N tx)(p := (ntx_Bucket N tx p)(n := True)), ntx_Get N tx)) \<and>
     (\<forall>tx p n tx'. ntx_Drop N tx p n = Inr tx' \<longrightarrow> ntx_Top N tx' = ntx_Top N tx \<and>
        tx_view B N tx' = (btx_Get B tx, (ntx_Bucket N tx)(p := (ntx_Bucket N tx p)(n := False)),
          (ntx_Get N tx)(p := (ntx_Get N tx p)(n := Map.empty)))) \<and>
     (\<forall>tx p n k v tx'. ntx_Put N tx p n k v = Inr tx' \<longrightarrow> ntx_Top N tx' = ntx_Top N tx \<and>
        tx_view B N tx' = (btx_Get B tx, ntx_Bucket N tx,
          (ntx_Get N tx)(p := (ntx_Get N tx p)(n := (ntx_Get N tx p n)(k \<mapsto> v))))) \<and>
     (\<forall>tx p n k tx'. ntx_Delete N tx p n k = Inr tx' \<longrightarrow> ntx_Top N tx' = ntx_Top N tx \<and>
        tx_view B N tx' = (btx_Get B tx, ntx_Bucket N tx,
          (ntx_Get N tx)(p := (ntx_Get N tx p)(n := (ntx_Get N tx p n)(k := None))))) \<and>
     (\<forall>tx p n k. \<not> ntx_Bucket N tx p n \<longrightarrow> ntx_Get N tx p n k = None) \<and>
     (\<forall>tx p n k v. \<not> valid_key k \<longrightarrow> isl (ntx_Put N tx p n k v)) \<and>
     (\<forall>tx p. isl (ntx_Create N tx p '''')) \<and>
     (\<forall>tx db' tx'. bdb_Commit B tx = Inr db' \<longrightarrow> bdb_Begin B db' = Inr tx' \<longrightarrow>
        ntx_Top N tx' = ntx_Top N tx \<and> ntx_Bucket N tx' = ntx_Bucket N tx \<and> ntx_Get N tx' = ntx_Get N tx)"

definition nested_no_errors :: "('tx, 'd) nested \<Rightarrow> bool" where
  "nested_no_errors N \<longleftrightarrow>
     (\<forall>tx p n. n \<noteq> '''' \<longrightarrow> \<not> isl (ntx_Create N tx p n)) \<and> (\<forall>tx p n. ntx_Bucket N tx p n \<longrightarrow> \<not> isl (ntx_Drop N tx p n)) \<and>
     (\<forall>tx p n k v. ntx_Bucket N tx p n \<longrightarrow> valid_key k \<longrightarrow> \<not> isl (ntx_Put N tx p n k v)) \<and> (\<forall>tx p n k. \<not> isl (ntx_Delete N tx p n k))"

section \<open>Operations\<close>

definition BucketPluginRegistry :: string where "BucketPluginRegistry = ''plugin_registry''"
definition BucketTrustedKeys :: string where "BucketTrustedKeys = ''trusted_keys_mirror''"
definition BucketPluginState :: string where "BucketPluginState = ''plugin_state''"
definition BucketHookRegistry :: string where "BucketHookRegistry = ''hook_registry''"

lemmas loader_bucket_defs = BucketPluginRegistry_def BucketTrustedKeys_def BucketPluginState_def BucketHookRegistry_def

definition OpPluginInstall :: string where "OpPluginInstall = ''plugin_install''"
definition OpPluginUninstall :: string where "OpPluginUninstall = ''plugin_uninstall''"
definition OpTrustedKeyAdd :: string where "OpTrustedKeyAdd = ''trusted_key_add''"
definition OpTrustedKeyRemove :: string where "OpTrustedKeyRemove = ''trusted_key_remove''"
definition OpStatePut :: string where "OpStatePut = ''state_put''"
definition OpStateDelete :: string where "OpStateDelete = ''state_delete''"
definition OpHookRegister :: string where "OpHookRegister = ''hook_register''"
definition OpHookUnregister :: string where "OpHookUnregister = ''hook_unregister''"

lemmas loader_op_defs = OpPluginInstall_def OpPluginUninstall_def OpTrustedKeyAdd_def OpTrustedKeyRemove_def
  OpStatePut_def OpStateDelete_def OpHookRegister_def OpHookUnregister_def

record LoaderFSMOp =
  lop_Type :: string
  lop_Plugin :: string
  lop_Key :: string
  lop_Data :: "byte list"
  lop_ExpectedVersion :: "64 word"

record HookRecord =
  hr_PluginName :: string
  hr_HookID :: string
  hr_HookType :: string
  hr_Operation :: string
  hr_Condition :: string
  hr_Handler :: string
  hr_Priority :: int
  hr_OnFailure :: string
  hr_Critical :: bool

record StateEntry =
  se_Value :: "byte list"
  se_Version :: "64 word"

datatype loader_doc = LBytes "byte list" | LEntry StateEntry

fun as_entry :: "loader_doc \<Rightarrow> string + StateEntry" where
  "as_entry (LEntry e) = Inr e"
| "as_entry (LBytes _) = Inl ''invalid state entry''"

record ErrVersionMismatch =
  evm_Plugin :: string
  evm_Key :: string
  evm_Expected :: "64 word"
  evm_Actual :: "64 word"

definition ErrVersionMismatch_Error :: "ErrVersionMismatch \<Rightarrow> string" where
  "ErrVersionMismatch_Error e =
     ''state CAS mismatch for plugin='' @ evm_Plugin e @ '' key='' @ evm_Key e @ '': expected version '' @
     itoa (unat (evm_Expected e)) @ '', got '' @ itoa (unat (evm_Actual e))"

definition missing :: "string \<Rightarrow> go_err" where
  "missing bk = Err (''bucket '' @ bk @ '' missing'')"

text \<open>A closure that first looks for its bucket.\<close>

definition with_bucket :: "('tx, 'd) nested \<Rightarrow> string \<Rightarrow> ('tx \<Rightarrow> 'tx result) \<Rightarrow> 'tx \<Rightarrow> 'tx result" where
  "with_bucket N bk f tx = (if \<not> ntx_Top N tx bk then Inl (missing bk) else f tx)"

definition hook_key :: "LoaderFSMOp \<Rightarrow> string" where
  "hook_key op = lop_Plugin op @ '':'' @ lop_Key op"

definition applyPluginInstall ::
    "('db, 'tx, loader_doc) bolt_db \<Rightarrow> ('tx, loader_doc) nested \<Rightarrow> LoaderFSMOp \<Rightarrow> 'tx \<Rightarrow> 'tx result" where
  "applyPluginInstall B N op =
     with_bucket N BucketPluginRegistry (tx_put B BucketPluginRegistry (lop_Plugin op) (LBytes (lop_Data op)))"

definition drop_state :: "('tx, loader_doc) nested \<Rightarrow> LoaderFSMOp \<Rightarrow> 'tx \<Rightarrow> 'tx result" where
  "drop_state N op tx =
     (if ntx_Bucket N tx BucketPluginState (lop_Plugin op)
      then tx_step (ntx_Drop N tx BucketPluginState (lop_Plugin op)) else Inr tx)"

definition drop_hooks :: "('db, 'tx, loader_doc) bolt_db \<Rightarrow> LoaderFSMOp \<Rightarrow> 'tx \<Rightarrow> 'tx result" where
  "drop_hooks B op tx =
     tx_delete_all B BucketHookRegistry (map fst (prefix_scan B tx BucketHookRegistry (lop_Plugin op @ '':''))) tx"

definition applyPluginUninstall ::
    "('db, 'tx, loader_doc) bolt_db \<Rightarrow> ('tx, loader_doc) nested \<Rightarrow> LoaderFSMOp \<Rightarrow> 'tx \<Rightarrow> 'tx result" where
  "applyPluginUninstall B N op = with_bucket N BucketPluginRegistry (\<lambda>tx.
     case tx_delete B BucketPluginRegistry (lop_Plugin op) tx of
       Inl e \<Rightarrow> Inl e
     | Inr tx1 \<Rightarrow> with_bucket N BucketPluginState (\<lambda>tx1.
         case drop_state N op tx1 of
           Inl e \<Rightarrow> Inl e
         | Inr tx2 \<Rightarrow> with_bucket N BucketHookRegistry (drop_hooks B op) tx2) tx1)"

definition applyTrustedKeyAdd ::
    "('db, 'tx, loader_doc) bolt_db \<Rightarrow> ('tx, loader_doc) nested \<Rightarrow> LoaderFSMOp \<Rightarrow> 'tx \<Rightarrow> 'tx result" where
  "applyTrustedKeyAdd B N op =
     with_bucket N BucketTrustedKeys (tx_put B BucketTrustedKeys (lop_Key op) (LBytes (lop_Data op)))"

definition applyTrustedKeyRemove ::
    "('db, 'tx, loader_doc) bolt_db \<Rightarrow> ('tx, loader_doc) nested \<Rightarrow> LoaderFSMOp \<Rightarrow> 'tx \<Rightarrow> 'tx result" where
  "applyTrustedKeyRemove B N op = with_bucket N BucketTrustedKeys (tx_delete B BucketTrustedKeys (lop_Key op))"

text \<open>The compare of compare-and-set, and the new version.\<close>

definition cas_check :: "LoaderFSMOp \<Rightarrow> loader_doc option \<Rightarrow> go_err option" where
  "cas_check op existing =
     (if lop_ExpectedVersion op > 0 then
        (case existing of
           Some d \<Rightarrow>
             (case as_entry d of
                Inl e \<Rightarrow> Some (Err (''corrupt state entry for '' @ lop_Plugin op @ ''/'' @ lop_Key op @ '': '' @ e))
              | Inr entry \<Rightarrow>
                  if se_Version entry \<noteq> lop_ExpectedVersion op
                  then Some (Err (ErrVersionMismatch_Error \<lparr>evm_Plugin = lop_Plugin op, evm_Key = lop_Key op,
                         evm_Expected = lop_ExpectedVersion op, evm_Actual = se_Version entry\<rparr>))
                  else None)
         | None \<Rightarrow> Some (Err (ErrVersionMismatch_Error \<lparr>evm_Plugin = lop_Plugin op, evm_Key = lop_Key op,
                     evm_Expected = lop_ExpectedVersion op, evm_Actual = 0\<rparr>)))
      else None)"

definition next_version :: "loader_doc option \<Rightarrow> 64 word" where
  "next_version existing =
     (case existing of
        None \<Rightarrow> 1
      | Some d \<Rightarrow> (case as_entry d of Inl _ \<Rightarrow> 1 | Inr entry \<Rightarrow> se_Version entry + 1))"

definition applyStatePut ::
    "('tx, loader_doc) nested \<Rightarrow> LoaderFSMOp \<Rightarrow> 'tx \<Rightarrow> 'tx result" where
  "applyStatePut N op = with_bucket N BucketPluginState (\<lambda>tx.
     case tx_step (ntx_Create N tx BucketPluginState (lop_Plugin op)) of
       Inl e \<Rightarrow> Inl e
     | Inr tx1 \<Rightarrow>
         let existing = ntx_Get N tx1 BucketPluginState (lop_Plugin op) (lop_Key op)
         in (case cas_check op existing of
               Some e \<Rightarrow> Inl e
             | None \<Rightarrow> tx_step (ntx_Put N tx1 BucketPluginState (lop_Plugin op) (lop_Key op)
                         (LEntry \<lparr>se_Value = lop_Data op, se_Version = next_version existing\<rparr>))))"

definition applyStateDelete :: "('tx, loader_doc) nested \<Rightarrow> LoaderFSMOp \<Rightarrow> 'tx \<Rightarrow> 'tx result" where
  "applyStateDelete N op = with_bucket N BucketPluginState (\<lambda>tx.
     if \<not> ntx_Bucket N tx BucketPluginState (lop_Plugin op) then Inr tx
     else tx_step (ntx_Delete N tx BucketPluginState (lop_Plugin op) (lop_Key op)))"

definition applyHookRegister ::
    "('db, 'tx, loader_doc) bolt_db \<Rightarrow> ('tx, loader_doc) nested \<Rightarrow> LoaderFSMOp \<Rightarrow> 'tx \<Rightarrow> 'tx result" where
  "applyHookRegister B N op =
     with_bucket N BucketHookRegistry (tx_put B BucketHookRegistry (hook_key op) (LBytes (lop_Data op)))"

definition applyHookUnregister ::
    "('db, 'tx, loader_doc) bolt_db \<Rightarrow> ('tx, loader_doc) nested \<Rightarrow> LoaderFSMOp \<Rightarrow> 'tx \<Rightarrow> 'tx result" where
  "applyHookUnregister B N op = with_bucket N BucketHookRegistry (tx_delete B BucketHookRegistry (hook_key op))"

definition loader_closure ::
    "('db, 'tx, loader_doc) bolt_db \<Rightarrow> ('tx, loader_doc) nested \<Rightarrow> LoaderFSMOp \<Rightarrow> ('tx \<Rightarrow> 'tx result) option" where
  "loader_closure B N op =
     (if lop_Type op = OpPluginInstall then Some (applyPluginInstall B N op)
      else if lop_Type op = OpPluginUninstall then Some (applyPluginUninstall B N op)
      else if lop_Type op = OpTrustedKeyAdd then Some (applyTrustedKeyAdd B N op)
      else if lop_Type op = OpTrustedKeyRemove then Some (applyTrustedKeyRemove B N op)
      else if lop_Type op = OpStatePut then Some (applyStatePut N op)
      else if lop_Type op = OpStateDelete then Some (applyStateDelete N op)
      else if lop_Type op = OpHookRegister then Some (applyHookRegister B N op)
      else if lop_Type op = OpHookUnregister then Some (applyHookUnregister B N op)
      else None)"

definition Loader_Apply ::
    "('db, 'tx, loader_doc) bolt_db \<Rightarrow> ('tx, loader_doc) nested \<Rightarrow> string + LoaderFSMOp \<Rightarrow> 'db BoltFSM \<Rightarrow> 'db BoltFSM \<times> FSMApplyResult" where
  "Loader_Apply B N entry s =
     (case entry of
        Inl e \<Rightarrow> (s, ApplyFailure (''loader FSM: failed to unmarshal op: '' @ e))
      | Inr op \<Rightarrow>
          (case loader_closure B N op of
             None \<Rightarrow> (s, ApplyFailure (''loader FSM: unknown op type '' @ [CHR 0x22] @ lop_Type op @ [CHR 0x22]))
           | Some f \<Rightarrow>
               (case fsm_update B f s of
                  (s', Inl e) \<Rightarrow> (s', ApplyFailure (err_text e))
                | (s', Inr _) \<Rightarrow> (s', ApplySuccess))))"

definition initBuckets :: "('db, 'tx, loader_doc) bolt_db \<Rightarrow> 'db BoltFSM \<Rightarrow> 'db BoltFSM \<times> unit result" where
  "initBuckets B s =
     fsm_update B (create_buckets B [BucketPluginRegistry, BucketTrustedKeys, BucketPluginState, BucketHookRegistry]) s"

definition NewLoaderFSM ::
    "('db, 'tx, loader_doc) bolt_db \<Rightarrow> string option \<Rightarrow> string + 'db \<Rightarrow> string \<Rightarrow> 'db BoltFSM result" where
  "NewLoaderFSM B mkdir opened path =
     (case NewBoltFSM B mkdir opened path of
        Inl e \<Rightarrow> Inl (wrap_err ''failed to create bolt FSM for loader'' e)
      | Inr s \<Rightarrow>
          (case initBuckets B s of
             (_, Inl e) \<Rightarrow> Inl (wrap_err ''failed to initialize loader buckets'' e)
           | (s', Inr _) \<Rightarrow> Inr s'))"

section \<open>Laws\<close>

lemma tx_step_Inr: "tx_step r = Inr tx \<longleftrightarrow> r = Inr tx"
  by (auto simp: tx_step_def split: sum.splits)

lemma nested_base:
  assumes "nested_ok B N"
  shows "tx_put B bk k v tx = Inr tx' \<Longrightarrow> ntx_Top N tx' = ntx_Top N tx \<and> ntx_Bucket N tx' = ntx_Bucket N tx \<and> ntx_Get N tx' = ntx_Get N tx"
    and "tx_delete B bk k tx = Inr tx' \<Longrightarrow> ntx_Top N tx' = ntx_Top N tx \<and> ntx_Bucket N tx' = ntx_Bucket N tx \<and> ntx_Get N tx' = ntx_Get N tx"
  using assms by (simp_all add: nested_ok_def tx_put_def tx_delete_def tx_step_Inr)

lemma nested_delete_all:
  assumes "nested_ok B N"
  shows "tx_delete_all B bk ks tx = Inr tx' \<Longrightarrow> ntx_Top N tx' = ntx_Top N tx \<and> ntx_Bucket N tx' = ntx_Bucket N tx \<and> ntx_Get N tx' = ntx_Get N tx"
proof (induction ks arbitrary: tx)
  case (Cons k ks)
  then obtain tx1 where "tx_delete B bk k tx = Inr tx1" "tx_delete_all B bk ks tx1 = Inr tx'"
    by (auto split: sum.splits)
  then show ?case using Cons.IH nested_base(2) [OF assms] by metis
qed simp

lemma nested_step:
  assumes "nested_ok B N"
  shows "ntx_Create N tx p n = Inr tx' \<Longrightarrow> ntx_Top N tx' = ntx_Top N tx \<and>
        tx_view B N tx' = (btx_Get B tx, (ntx_Bucket N tx)(p := (ntx_Bucket N tx p)(n := True)), ntx_Get N tx)"
    and "ntx_Drop N tx p n = Inr tx' \<Longrightarrow> ntx_Top N tx' = ntx_Top N tx \<and>
        tx_view B N tx' = (btx_Get B tx, (ntx_Bucket N tx)(p := (ntx_Bucket N tx p)(n := False)),
          (ntx_Get N tx)(p := (ntx_Get N tx p)(n := Map.empty)))"
    and "ntx_Put N tx p n k v = Inr tx' \<Longrightarrow> ntx_Top N tx' = ntx_Top N tx \<and>
        tx_view B N tx' = (btx_Get B tx, ntx_Bucket N tx, (ntx_Get N tx)(p := (ntx_Get N tx p)(n := (ntx_Get N tx p n)(k \<mapsto> v))))"
    and "ntx_Delete N tx p n k = Inr tx' \<Longrightarrow> ntx_Top N tx' = ntx_Top N tx \<and>
        tx_view B N tx' = (btx_Get B tx, ntx_Bucket N tx, (ntx_Get N tx)(p := (ntx_Get N tx p)(n := (ntx_Get N tx p n)(k := None))))"
    and "\<not> ntx_Bucket N tx p n \<Longrightarrow> ntx_Get N tx p n = Map.empty"
    and "\<not> valid_key k \<Longrightarrow> isl (ntx_Put N tx p n k v)" and "isl (ntx_Create N tx p '''')"
  using assms by (simp_all add: nested_ok_def fun_eq_iff)

section \<open>The specification\<close>

text \<open>
  What an operation does to what the database shows: the top level, which nested buckets there
  are, and what they hold. \<^const>\<open>None\<close>: it is refused and nothing changes.
\<close>

type_synonym loader_view =
  "(string \<Rightarrow> string \<rightharpoonup> loader_doc) \<times> (string \<Rightarrow> string \<Rightarrow> bool) \<times> (string \<Rightarrow> string \<Rightarrow> string \<rightharpoonup> loader_doc)"

definition view_put :: "string \<Rightarrow> string \<Rightarrow> loader_doc \<Rightarrow> loader_view \<Rightarrow> loader_view option" where
  "view_put bk k d v = (if valid_key k then Some ((fst v)(bk := (fst v bk)(k \<mapsto> d)), snd v) else None)"

definition view_delete :: "string \<Rightarrow> string \<Rightarrow> loader_view \<Rightarrow> loader_view" where
  "view_delete bk k v = ((fst v)(bk := (fst v bk)(k := None)), snd v)"

definition state_of :: "loader_view \<Rightarrow> string \<Rightarrow> string \<rightharpoonup> loader_doc" where
  "state_of v p = snd (snd v) BucketPluginState p"

text \<open>
  A put with an expected version takes effect when the key holds an entry of just that version; one without, that is with version 0, always. The
  new entry has the next version, counted in 64 bits, and 1 when there was none.
\<close>

definition version_after :: "loader_doc option \<Rightarrow> 64 word" where
  "version_after existing = (case existing of Some (LEntry e) \<Rightarrow> se_Version e + 1 | _ \<Rightarrow> 1)"

definition view_state_put :: "LoaderFSMOp \<Rightarrow> loader_view \<Rightarrow> loader_view option" where
  "view_state_put op v =
     (let p = lop_Plugin op; k = lop_Key op; existing = state_of v p k
      in if p \<noteq> '''' \<and> valid_key k \<and> (lop_ExpectedVersion op = 0 \<or> (\<exists>e. existing = Some (LEntry e) \<and> se_Version e = lop_ExpectedVersion op))
         then Some (fst v, (fst (snd v))(BucketPluginState := (fst (snd v) BucketPluginState)(p := True)),
           (snd (snd v))(BucketPluginState := (snd (snd v) BucketPluginState)(p :=
              (state_of v p)(k \<mapsto> LEntry \<lparr>se_Value = lop_Data op, se_Version = version_after existing\<rparr>))))
         else None)"

definition view_uninstall :: "string \<Rightarrow> loader_view \<Rightarrow> loader_view" where
  "view_uninstall p v =
     ((fst v)(BucketPluginRegistry := (fst v BucketPluginRegistry)(p := None),
              BucketHookRegistry := (\<lambda>k. if HasPrefix k (p @ '':'') then None else fst v BucketHookRegistry k)),
      (fst (snd v))(BucketPluginState := (fst (snd v) BucketPluginState)(p := False)),
      (snd (snd v))(BucketPluginState := (snd (snd v) BucketPluginState)(p := Map.empty)))"

definition loader_spec :: "LoaderFSMOp \<Rightarrow> loader_view \<Rightarrow> loader_view option" where
  "loader_spec op v =
     (if lop_Type op = OpPluginInstall then view_put BucketPluginRegistry (lop_Plugin op) (LBytes (lop_Data op)) v
      else if lop_Type op = OpPluginUninstall then Some (view_uninstall (lop_Plugin op) v)
      else if lop_Type op = OpTrustedKeyAdd then view_put BucketTrustedKeys (lop_Key op) (LBytes (lop_Data op)) v
      else if lop_Type op = OpTrustedKeyRemove then Some (view_delete BucketTrustedKeys (lop_Key op) v)
      else if lop_Type op = OpStatePut then view_state_put op v
      else if lop_Type op = OpStateDelete then
        Some (fst v, fst (snd v), (snd (snd v))(BucketPluginState := (snd (snd v) BucketPluginState)(lop_Plugin op :=
           (state_of v (lop_Plugin op))(lop_Key op := None))))
      else if lop_Type op = OpHookRegister then view_put BucketHookRegistry (lop_Plugin op @ '':'' @ lop_Key op) (LBytes (lop_Data op)) v
      else if lop_Type op = OpHookUnregister then Some (view_delete BucketHookRegistry (lop_Plugin op @ '':'' @ lop_Key op) v)
      else None)"

section \<open>Refinement\<close>

lemma next_version_spec [simp]: "version_after existing = next_version existing"
  by (auto simp: version_after_def next_version_def split: option.split loader_doc.split)

lemma cas_check_spec:
  "cas_check op existing = None \<longleftrightarrow>
   lop_ExpectedVersion op = 0 \<or> (\<exists>e. existing = Some (LEntry e) \<and> se_Version e = lop_ExpectedVersion op)"
proof -
  have "lop_ExpectedVersion op > 0 \<longleftrightarrow> lop_ExpectedVersion op \<noteq> 0" by (simp add: word_neq_0_conv)
  then show ?thesis
    by (cases existing; cases "the existing") (auto simp: cas_check_def)
qed

lemma view_state_put_code:
  "view_state_put op v =
     (let p = lop_Plugin op; k = lop_Key op; existing = state_of v p k
      in if p = '''' \<or> \<not> valid_key k \<or> cas_check op existing \<noteq> None then None
         else Some (fst v, (fst (snd v))(BucketPluginState := (fst (snd v) BucketPluginState)(p := True)),
           (snd (snd v))(BucketPluginState := (snd (snd v) BucketPluginState)(p :=
              (state_of v p)(k \<mapsto> LEntry \<lparr>se_Value = lop_Data op, se_Version = next_version existing\<rparr>)))))"
  by (auto simp: view_state_put_def Let_def cas_check_spec)

definition tops :: "('tx, 'd) nested \<Rightarrow> 'tx \<Rightarrow> bool" where
  "tops N tx \<longleftrightarrow> ntx_Top N tx BucketPluginRegistry \<and> ntx_Top N tx BucketTrustedKeys \<and> ntx_Top N tx BucketPluginState \<and>
     ntx_Top N tx BucketHookRegistry"

text \<open>A closure does what the specification says, or fails when it says so.\<close>

definition implements ::
    "('db, 'tx, loader_doc) bolt_db \<Rightarrow> ('tx, loader_doc) nested \<Rightarrow> ('tx \<Rightarrow> 'tx result) \<Rightarrow> (loader_view \<Rightarrow> loader_view option) \<Rightarrow> bool" where
  "implements B N f g \<longleftrightarrow> (\<forall>tx. tops N tx \<longrightarrow>
     (case f tx of Inl _ \<Rightarrow> g (tx_view B N tx) = None | Inr tx' \<Rightarrow> g (tx_view B N tx) = Some (tx_view B N tx') \<and> tops N tx'))"

lemma implementsI:
  assumes "\<And>tx e. tops N tx \<Longrightarrow> f tx = Inl e \<Longrightarrow> g (tx_view B N tx) = None"
    and "\<And>tx tx'. tops N tx \<Longrightarrow> f tx = Inr tx' \<Longrightarrow> g (tx_view B N tx) = Some (tx_view B N tx') \<and> ntx_Top N tx' = ntx_Top N tx"
  shows "implements B N f g"
  unfolding implements_def
proof (intro allI impI)
  fix tx assume t: "tops N tx"
  show "case f tx of Inl _ \<Rightarrow> g (tx_view B N tx) = None | Inr tx' \<Rightarrow> g (tx_view B N tx) = Some (tx_view B N tx') \<and> tops N tx'"
    using assms(1) [OF t] assms(2) [OF t] t by (cases "f tx") (auto simp: tops_def)
qed

definition loader_db_ok :: "('db, 'tx, loader_doc) bolt_db \<Rightarrow> ('tx, loader_doc) nested \<Rightarrow> bool" where
  "loader_db_ok B N \<longleftrightarrow> bolt_db_ok B \<and> bolt_no_errors B \<and> nested_ok B N \<and> nested_no_errors N"

lemma loader_db_okD:
  assumes "loader_db_ok B N"
  shows "bolt_db_ok B" "bolt_no_errors B" "nested_ok B N" "nested_no_errors N"
  using assms by (simp_all add: loader_db_ok_def)

lemma put_implements:
  assumes ok: "loader_db_ok B N" and bk: "\<And>tx. tops N tx \<Longrightarrow> ntx_Top N tx bk"
  shows "implements B N (with_bucket N bk (tx_put B bk k d)) (view_put bk k d)"
proof (rule implementsI)
  fix tx e assume "tops N tx" "with_bucket N bk (tx_put B bk k d) tx = Inl e"
  then have "\<not> valid_key k" using bk Put_succeeds [OF loader_db_okD(2) [OF ok], of k bk d tx] by (auto simp: with_bucket_def)
  then show "view_put bk k d (tx_view B N tx) = None" by (simp add: view_put_def)
next
  fix tx tx' assume "tops N tx" "with_bucket N bk (tx_put B bk k d) tx = Inr tx'"
  then have p: "tx_put B bk k d tx = Inr tx'" using bk by (simp add: with_bucket_def)
  have "valid_key k" using Put_invalid [OF loader_db_okD(1) [OF ok], of k bk d tx] p by auto
  moreover have "btx_Get B tx' = (btx_Get B tx)(bk := (btx_Get B tx bk)(k \<mapsto> d))"
    using Get_Put [OF loader_db_okD(1) [OF ok] p] by (auto simp: fun_eq_iff)
  ultimately show "view_put bk k d (tx_view B N tx) = Some (tx_view B N tx') \<and> ntx_Top N tx' = ntx_Top N tx"
    using nested_base(1) [OF loader_db_okD(3) [OF ok] p] by (simp add: view_put_def tx_view_def)
qed

lemma delete_implements:
  assumes ok: "loader_db_ok B N" and bk: "\<And>tx. tops N tx \<Longrightarrow> ntx_Top N tx bk"
  shows "implements B N (with_bucket N bk (tx_delete B bk k)) (\<lambda>v. Some (view_delete bk k v))"
proof (rule implementsI)
  fix tx e assume "tops N tx" "with_bucket N bk (tx_delete B bk k) tx = Inl e"
  then show "Some (view_delete bk k (tx_view B N tx)) = None"
    using bk Delete_succeeds [OF loader_db_okD(2) [OF ok], of bk k tx] by (auto simp: with_bucket_def)
next
  fix tx tx' assume "tops N tx" "with_bucket N bk (tx_delete B bk k) tx = Inr tx'"
  then have p: "tx_delete B bk k tx = Inr tx'" using bk by (simp add: with_bucket_def)
  have "btx_Get B tx' = (btx_Get B tx)(bk := (btx_Get B tx bk)(k := None))"
    using Get_Delete [OF loader_db_okD(1) [OF ok] p] by (auto simp: fun_eq_iff)
  then show "Some (view_delete bk k (tx_view B N tx)) = Some (tx_view B N tx') \<and> ntx_Top N tx' = ntx_Top N tx"
    using nested_base(2) [OF loader_db_okD(3) [OF ok] p] by (simp add: view_delete_def tx_view_def)
qed

lemma tx_view_eq: "tx_view B N tx = (a, b, c) \<longleftrightarrow> btx_Get B tx = a \<and> ntx_Bucket N tx = b \<and> ntx_Get N tx = c"
  by (simp add: tx_view_def)

lemma state_put_implements:
  assumes ok: "loader_db_ok B N"
  shows "implements B N (applyStatePut N op) (view_state_put op)"
proof (rule implementsI)
  fix tx e assume t: "tops N tx" and f: "applyStatePut N op tx = Inl e"
  show "view_state_put op (tx_view B N tx) = None"
  proof (cases "ntx_Create N tx BucketPluginState (lop_Plugin op)")
    case (Inl a)
    then have "lop_Plugin op = []" using loader_db_okD(4) [OF ok] by (auto simp: nested_no_errors_def) (metis sum.disc(1))
    then show ?thesis by (simp add: view_state_put_code Let_def)
  next
    case (Inr tx1)
    then have "ntx_Get N tx1 = ntx_Get N tx" "ntx_Bucket N tx1 BucketPluginState (lop_Plugin op)"
      using nested_step(1) [OF loader_db_okD(3) [OF ok]] by (simp_all add: tx_view_eq)
    then have "cas_check op (ntx_Get N tx BucketPluginState (lop_Plugin op) (lop_Key op)) \<noteq> None \<or> \<not> valid_key (lop_Key op)"
      using f t Inr loader_db_okD(4) [OF ok]
      by (auto simp: applyStatePut_def with_bucket_def tops_def tx_step_def Let_def nested_no_errors_def split: sum.splits option.splits)
         (metis sum.disc(1))
    then show ?thesis by (auto simp: view_state_put_code Let_def state_of_def tx_view_def)
  qed
next
  fix tx tx' assume t: "tops N tx" and f: "applyStatePut N op tx = Inr tx'"
  then obtain tx1 where c: "ntx_Create N tx BucketPluginState (lop_Plugin op) = Inr tx1"
    by (auto simp: applyStatePut_def with_bucket_def tops_def tx_step_def split: sum.splits)
  let ?old = "ntx_Get N tx BucketPluginState (lop_Plugin op) (lop_Key op)"
  have n1: "ntx_Top N tx1 = ntx_Top N tx" "ntx_Get N tx1 = ntx_Get N tx" "btx_Get B tx1 = btx_Get B tx"
    "ntx_Bucket N tx1 = (ntx_Bucket N tx)(BucketPluginState := (ntx_Bucket N tx BucketPluginState)(lop_Plugin op := True))"
    using nested_step(1) [OF loader_db_okD(3) [OF ok] c] by (simp_all add: tx_view_eq)
  have cas: "cas_check op ?old = None" and p: "ntx_Put N tx1 BucketPluginState (lop_Plugin op) (lop_Key op)
      (LEntry \<lparr>se_Value = lop_Data op, se_Version = next_version ?old\<rparr>) = Inr tx'"
    using f t c n1(2) by (auto simp: applyStatePut_def with_bucket_def tops_def tx_step_def Let_def split: sum.splits option.splits)
  have "valid_key (lop_Key op)" using nested_step(6) [OF loader_db_okD(3) [OF ok]] p by (metis sum.disc(2))
  moreover have "lop_Plugin op \<noteq> []" using nested_step(7) [OF loader_db_okD(3) [OF ok]] c by (metis sum.disc(2))
  ultimately show "view_state_put op (tx_view B N tx) = Some (tx_view B N tx') \<and> ntx_Top N tx' = ntx_Top N tx"
    using nested_step(3) [OF loader_db_okD(3) [OF ok] p] n1 cas
    by (simp add: view_state_put_code Let_def state_of_def tx_view_def)
qed

lemma state_delete_implements:
  assumes ok: "loader_db_ok B N"
  shows "implements B N (applyStateDelete N op) (\<lambda>v. Some (fst v, fst (snd v), (snd (snd v))(BucketPluginState :=
    (snd (snd v) BucketPluginState)(lop_Plugin op := (state_of v (lop_Plugin op))(lop_Key op := None)))))"
proof (rule implementsI)
  fix tx e assume "tops N tx" "applyStateDelete N op tx = Inl e"
  then show "Some (fst (tx_view B N tx), fst (snd (tx_view B N tx)), (snd (snd (tx_view B N tx)))(BucketPluginState :=
      (snd (snd (tx_view B N tx)) BucketPluginState)(lop_Plugin op := (state_of (tx_view B N tx) (lop_Plugin op))(lop_Key op := None)))) = None"
    using loader_db_okD(4) [OF ok]
    by (auto simp: applyStateDelete_def with_bucket_def tops_def tx_step_def nested_no_errors_def split: if_splits sum.splits)
       (metis sum.disc(1))
next
  fix tx tx' assume t: "tops N tx" and f: "applyStateDelete N op tx = Inr tx'"
  show "Some (fst (tx_view B N tx), fst (snd (tx_view B N tx)), (snd (snd (tx_view B N tx)))(BucketPluginState :=
      (snd (snd (tx_view B N tx)) BucketPluginState)(lop_Plugin op := (state_of (tx_view B N tx) (lop_Plugin op))(lop_Key op := None)))) =
      Some (tx_view B N tx') \<and> ntx_Top N tx' = ntx_Top N tx"
  proof (cases "ntx_Bucket N tx BucketPluginState (lop_Plugin op)")
    case True
    then have d: "ntx_Delete N tx BucketPluginState (lop_Plugin op) (lop_Key op) = Inr tx'"
      using t f by (simp add: applyStateDelete_def with_bucket_def tops_def tx_step_Inr)
    show ?thesis using nested_step(4) [OF loader_db_okD(3) [OF ok] d] by (simp add: tx_view_def state_of_def)
  next
    case False
    then have "tx' = tx" using t f by (simp add: applyStateDelete_def with_bucket_def tops_def)
    moreover have "ntx_Get N tx BucketPluginState (lop_Plugin op) = Map.empty" by (rule nested_step(5) [OF loader_db_okD(3) [OF ok] False])
    ultimately show ?thesis by (simp add: tx_view_def state_of_def fun_eq_iff)
  qed
qed

lemma drop_state_view:
  assumes ok: "loader_db_ok B N"
  obtains tx' where "drop_state N op tx = Inr tx'" "ntx_Top N tx' = ntx_Top N tx" "btx_Get B tx' = btx_Get B tx"
    "ntx_Bucket N tx' = (ntx_Bucket N tx)(BucketPluginState := (ntx_Bucket N tx BucketPluginState)(lop_Plugin op := False))"
    "ntx_Get N tx' = (ntx_Get N tx)(BucketPluginState := (ntx_Get N tx BucketPluginState)(lop_Plugin op := Map.empty))"
proof (cases "ntx_Bucket N tx BucketPluginState (lop_Plugin op)")
  case True
  then have "\<not> isl (ntx_Drop N tx BucketPluginState (lop_Plugin op))"
    using loader_db_okD(4) [OF ok] by (simp add: nested_no_errors_def)
  then obtain tx' where "ntx_Drop N tx BucketPluginState (lop_Plugin op) = Inr tx'"
    by (cases "ntx_Drop N tx BucketPluginState (lop_Plugin op)") auto
  then show thesis using nested_step(2) [OF loader_db_okD(3) [OF ok]] True that [of tx'] by (simp add: drop_state_def tx_step_def tx_view_eq)
next
  case False
  then show thesis using that [of tx] nested_step(5) [OF loader_db_okD(3) [OF ok] False] by (auto simp: drop_state_def fun_eq_iff)
qed

lemma drop_hooks_view:
  assumes ok: "loader_db_ok B N"
  obtains tx' where "drop_hooks B op tx = Inr tx'" "ntx_Top N tx' = ntx_Top N tx" "ntx_Bucket N tx' = ntx_Bucket N tx"
    "ntx_Get N tx' = ntx_Get N tx"
    "btx_Get B tx' = (btx_Get B tx)(BucketHookRegistry := (\<lambda>k. if HasPrefix k (lop_Plugin op @ '':'') then None else btx_Get B tx BucketHookRegistry k))"
proof -
  let ?ks = "map fst (prefix_scan B tx BucketHookRegistry (lop_Plugin op @ '':''))"
  obtain tx' where d: "tx_delete_all B BucketHookRegistry ?ks tx = Inr tx'" using delete_all_succeeds [OF loader_db_okD(2) [OF ok]] by blast
  have "k \<in> set ?ks \<longleftrightarrow> HasPrefix k (lop_Plugin op @ '':'') \<and> btx_Get B tx BucketHookRegistry k \<noteq> None" for k
    using prefix_scan_mem [OF loader_db_okD(1) [OF ok], of k _ tx BucketHookRegistry] by force
  then have "btx_Get B tx' = (btx_Get B tx)(BucketHookRegistry := (\<lambda>k. if HasPrefix k (lop_Plugin op @ '':'') then None else btx_Get B tx BucketHookRegistry k))"
    using Get_delete_all [OF loader_db_okD(1) [OF ok] d] by (auto simp: fun_eq_iff)
  with nested_delete_all [OF loader_db_okD(3) [OF ok] d] d that show thesis by (simp add: drop_hooks_def)
qed

lemma uninstall_implements:
  assumes ok: "loader_db_ok B N"
  shows "implements B N (applyPluginUninstall B N op) (\<lambda>v. Some (view_uninstall (lop_Plugin op) v))"
proof -
  have "\<exists>tx'. applyPluginUninstall B N op tx = Inr tx' \<and> view_uninstall (lop_Plugin op) (tx_view B N tx) = tx_view B N tx' \<and>
      ntx_Top N tx' = ntx_Top N tx" if t: "tops N tx" for tx
  proof -
    obtain tx1 where d1: "tx_delete B BucketPluginRegistry (lop_Plugin op) tx = Inr tx1" using Delete_succeeds [OF loader_db_okD(2) [OF ok]] by blast
    have v1: "btx_Get B tx1 = (btx_Get B tx)(BucketPluginRegistry := (btx_Get B tx BucketPluginRegistry)(lop_Plugin op := None))"
      using Get_Delete [OF loader_db_okD(1) [OF ok] d1] by (auto simp: fun_eq_iff)
    note n1 = nested_base(2) [OF loader_db_okD(3) [OF ok] d1]
    obtain tx2 where d2: "drop_state N op tx1 = Inr tx2" "ntx_Top N tx2 = ntx_Top N tx1" "btx_Get B tx2 = btx_Get B tx1"
      "ntx_Bucket N tx2 = (ntx_Bucket N tx1)(BucketPluginState := (ntx_Bucket N tx1 BucketPluginState)(lop_Plugin op := False))"
      "ntx_Get N tx2 = (ntx_Get N tx1)(BucketPluginState := (ntx_Get N tx1 BucketPluginState)(lop_Plugin op := Map.empty))"
      by (rule drop_state_view [OF ok])
    obtain tx3 where d3: "drop_hooks B op tx2 = Inr tx3" "ntx_Top N tx3 = ntx_Top N tx2" "ntx_Bucket N tx3 = ntx_Bucket N tx2"
      "ntx_Get N tx3 = ntx_Get N tx2"
      "btx_Get B tx3 = (btx_Get B tx2)(BucketHookRegistry := (\<lambda>k. if HasPrefix k (lop_Plugin op @ '':'') then None else btx_Get B tx2 BucketHookRegistry k))"
      by (rule drop_hooks_view [OF ok])
    have "BucketHookRegistry \<noteq> BucketPluginRegistry" by (simp add: loader_bucket_defs)
    then show ?thesis
      using t d1 d2 d3 v1 n1 by (intro exI [of _ tx3]) (simp add: applyPluginUninstall_def with_bucket_def tops_def view_uninstall_def tx_view_def cong: if_cong)
  qed
  then show ?thesis unfolding implements_def tops_def by fastforce
qed

lemma closure_implements:
  assumes "loader_db_ok B N" "loader_closure B N op = Some f"
  shows "implements B N f (loader_spec op)"
proof -
  have t: "tops N tx \<Longrightarrow> ntx_Top N tx BucketPluginRegistry" "tops N tx \<Longrightarrow> ntx_Top N tx BucketTrustedKeys"
    "tops N tx \<Longrightarrow> ntx_Top N tx BucketHookRegistry" for tx by (simp_all add: tops_def)
  note imp = put_implements [OF assms(1) t(1)] put_implements [OF assms(1) t(2)] put_implements [OF assms(1) t(3)]
    delete_implements [OF assms(1) t(2)] delete_implements [OF assms(1) t(3)] state_put_implements [OF assms(1)]
    state_delete_implements [OF assms(1)] uninstall_implements [OF assms(1)]
  note unf = applyPluginInstall_def applyTrustedKeyAdd_def applyTrustedKeyRemove_def applyHookRegister_def applyHookUnregister_def
  show ?thesis
    using assms(2) imp unfolding loader_closure_def loader_spec_def [abs_def]
    by (auto simp: unf hook_key_def loader_op_defs split: if_splits)
qed

definition begin_tx :: "('db, 'tx, 'd) bolt_db \<Rightarrow> 'db BoltFSM \<Rightarrow> 'tx" where
  "begin_tx B s = projr (bdb_Begin B (fsm_db s))"

definition shown :: "('db, 'tx, loader_doc) bolt_db \<Rightarrow> ('tx, loader_doc) nested \<Rightarrow> 'db BoltFSM \<Rightarrow> loader_view" where
  "shown B N s = tx_view B N (begin_tx B s)"

definition loader_ready :: "('db, 'tx, loader_doc) bolt_db \<Rightarrow> ('tx, loader_doc) nested \<Rightarrow> 'db BoltFSM \<Rightarrow> bool" where
  "loader_ready B N s \<longleftrightarrow> fsm_open s \<and> tops N (begin_tx B s)"

lemma commit_view:
  assumes ok: "loader_db_ok B N" and c: "bdb_Commit B tx = Inr db"
  shows "tx_view B N (projr (bdb_Begin B db)) = tx_view B N tx \<and> ntx_Top N (projr (bdb_Begin B db)) = ntx_Top N tx"
proof -
  have b: "bdb_Begin B db = Inr (projr (bdb_Begin B db))" by (rule Begin_ok [OF loader_db_okD(1) [OF ok]])
  have "ntx_Top N (projr (bdb_Begin B db)) = ntx_Top N tx \<and> ntx_Bucket N (projr (bdb_Begin B db)) = ntx_Bucket N tx \<and>
      ntx_Get N (projr (bdb_Begin B db)) = ntx_Get N tx"
    using loader_db_okD(3) [OF ok] c b unfolding nested_ok_def by meson
  moreover have "btx_Get B (projr (bdb_Begin B db)) = btx_Get B tx"
    using Commit_get [OF loader_db_okD(1) [OF ok] c] by (simp add: db_get_def)
  ultimately show ?thesis by (simp add: tx_view_def)
qed

lemma fsm_update_implements:
  assumes ok: "loader_db_ok B N" and s: "loader_ready B N s" and f: "implements B N f g" and u: "fsm_update B f s = (s', r)"
  shows "(case g (shown B N s) of Some v \<Rightarrow> r = Inr () \<and> shown B N s' = v | None \<Rightarrow> isl r \<and> s' = s) \<and> loader_ready B N s'"
proof -
  have i: "case f (begin_tx B s) of Inl _ \<Rightarrow> g (shown B N s) = None
      | Inr tx' \<Rightarrow> g (shown B N s) = Some (tx_view B N tx') \<and> tops N tx'"
    using f s unfolding implements_def loader_ready_def shown_def by blast
  show ?thesis
  proof (cases "f (begin_tx B s)")
    case (Inl e)
    then have "bolt_Update B (fsm_db s) () (\<lambda>u tx. (u, f tx)) = (fsm_db s, (), Inl e)"
      by (intro Update_fails [OF loader_db_okD(1) [OF ok]]) (simp add: begin_tx_def)
    then show ?thesis using u s i Inl by (auto simp: fsm_update_def loader_ready_def)
  next
    case (Inr tx')
    obtain db where c: "bdb_Commit B tx' = Inr db" using Commit_ok [OF loader_db_okD(2) [OF ok]] by blast
    have "bdb_Begin B (fsm_db s) = Inr (begin_tx B s)" unfolding begin_tx_def by (rule Begin_ok [OF loader_db_okD(1) [OF ok]])
    then have "bolt_Update B (fsm_db s) () (\<lambda>u tx. (u, f tx)) = (db, (), Inr ())"
      using Inr c by (simp add: bolt_Update_def)
    then have "s' = s\<lparr>fsm_db := db\<rparr>" "r = Inr ()" using u s by (auto simp: fsm_update_def loader_ready_def)
    then show ?thesis using i Inr commit_view [OF ok c] s by (simp add: shown_def begin_tx_def loader_ready_def tops_def)
  qed
qed

lemma Loader_Apply_refines:
  assumes ok: "loader_db_ok B N" and s: "loader_ready B N s" and a: "Loader_Apply B N (Inr op) s = (s', r)"
  shows "(case loader_spec op (shown B N s) of Some v \<Rightarrow> r = ApplySuccess \<and> shown B N s' = v | None \<Rightarrow> r \<noteq> ApplySuccess \<and> s' = s) \<and>
    loader_ready B N s'"
proof (cases "loader_closure B N op")
  case None
  then have "loader_spec op (shown B N s) = None" by (auto simp: loader_closure_def loader_spec_def split: if_splits)
  then show ?thesis using a s None by (auto simp: Loader_Apply_def)
next
  case (Some f)
  obtain s2 q where u: "fsm_update B f s = (s2, q)" by fastforce
  have "s' = s2 \<and> (r = ApplySuccess \<longleftrightarrow> \<not> isl q)" using a Some u by (cases q) (auto simp: Loader_Apply_def)
  then show ?thesis
    using fsm_update_implements [OF ok s closure_implements [OF ok Some] u] by (auto split: option.splits)
qed

section \<open>Versions\<close>

text \<open>The operations that remove a key of a plug-in's state.\<close>

definition removes :: "string \<Rightarrow> string \<Rightarrow> LoaderFSMOp \<Rightarrow> bool" where
  "removes p k op \<longleftrightarrow> lop_Plugin op = p \<and> (lop_Type op = OpPluginUninstall \<or> (lop_Type op = OpStateDelete \<and> lop_Key op = k))"

definition entry_at :: "string \<Rightarrow> string \<Rightarrow> loader_view \<Rightarrow> StateEntry option" where
  "entry_at p k v = (case state_of v p k of Some (LEntry e) \<Rightarrow> Some e | _ \<Rightarrow> None)"

lemma view_put_state [simp]: "view_put bk key d v = Some v' \<Longrightarrow> entry_at p k v' = entry_at p k v"
  by (auto simp: view_put_def entry_at_def state_of_def split: if_splits)

lemma view_delete_state [simp]: "entry_at p k (view_delete bk key v) = entry_at p k v"
  by (simp add: view_delete_def entry_at_def state_of_def)

lemma entry_at_Some: "entry_at p k v = Some e \<longleftrightarrow> state_of v p k = Some (LEntry e)"
  by (auto simp: entry_at_def split: option.splits loader_doc.splits)

lemma spec_state_put:
  assumes "view_state_put op v = Some v'"
  shows "entry_at p k v' = (if p = lop_Plugin op \<and> k = lop_Key op
    then Some \<lparr>se_Value = lop_Data op, se_Version = next_version (state_of v p k)\<rparr> else entry_at p k v)"
  using assms by (auto simp: view_state_put_code Let_def entry_at_def state_of_def split: if_splits)

lemma spec_version:
  assumes "entry_at p k v = Some e" "\<not> removes p k op" "loader_spec op v = Some v'"
  shows "\<exists>e'. entry_at p k v' = Some e' \<and> (se_Version e' = se_Version e \<or> se_Version e' = se_Version e + 1)"
proof -
  consider "lop_Type op = OpStatePut" | "lop_Type op = OpStateDelete" | "lop_Type op = OpPluginUninstall"
    | "lop_Type op \<notin> {OpStatePut, OpStateDelete, OpPluginUninstall}" by blast
  then show ?thesis
  proof cases
    case 1
    then have "view_state_put op v = Some v'" using assms(3) by (simp add: loader_spec_def loader_op_defs)
    from spec_state_put [OF this, of p k] assms(1) show ?thesis
      by (auto simp: entry_at_Some next_version_def)
  next
    case 2
    then have "lop_Plugin op \<noteq> p \<or> lop_Key op \<noteq> k" using assms(2) by (auto simp: removes_def)
    then show ?thesis using assms 2 by (auto simp: loader_spec_def loader_op_defs entry_at_Some state_of_def)
  next
    case 3
    then have "lop_Plugin op \<noteq> p" using assms(2) by (auto simp: removes_def)
    then show ?thesis using assms 3 by (auto simp: loader_spec_def loader_op_defs entry_at_Some state_of_def view_uninstall_def)
  next
    case 4
    then have "entry_at p k v' = entry_at p k v" using assms(3) by (auto simp: loader_spec_def split: if_splits)
    then show ?thesis using assms(1) by simp
  qed
qed

fun loader_replay ::
    "('db, 'tx, loader_doc) bolt_db \<Rightarrow> ('tx, loader_doc) nested \<Rightarrow> LoaderFSMOp list \<Rightarrow> 'db BoltFSM \<Rightarrow> 'db BoltFSM" where
  "loader_replay B N [] s = s"
| "loader_replay B N (op # ops) s = loader_replay B N ops (fst (Loader_Apply B N (Inr op) s))"

lemma replay_version:
  assumes ok: "loader_db_ok B N"
  shows "loader_ready B N s \<Longrightarrow> entry_at p k (shown B N s) = Some e \<Longrightarrow> (\<And>op. op \<in> set ops \<Longrightarrow> \<not> removes p k op) \<Longrightarrow>
    loader_ready B N (loader_replay B N ops s) \<and>
    (\<exists>e' j. entry_at p k (shown B N (loader_replay B N ops s)) = Some e' \<and> j \<le> length ops \<and> se_Version e' = se_Version e + of_nat j)"
proof (induction ops arbitrary: s e)
  case Nil
  then show ?case by (auto intro: exI [of _ 0])
next
  case (Cons op ops)
  obtain s1 r where a: "Loader_Apply B N (Inr op) s = (s1, r)" by fastforce
  note ref = Loader_Apply_refines [OF ok Cons.prems(1) a]
  obtain e1 i where e1: "entry_at p k (shown B N s1) = Some e1" "i \<le> 1" "se_Version e1 = se_Version e + of_nat i"
  proof (cases "loader_spec op (shown B N s)")
    case None
    then show thesis using ref that [of e 0] Cons.prems(2) by simp
  next
    case (Some v)
    then have "shown B N s1 = v" using ref by simp
    moreover obtain e' where "entry_at p k v = Some e'" "se_Version e' = se_Version e \<or> se_Version e' = se_Version e + 1"
      using spec_version [OF Cons.prems(2) _ Some] Cons.prems(3) by auto
    ultimately show thesis using that [of e' 0] that [of e' 1] by auto
  qed
  have IH: "loader_ready B N (loader_replay B N ops s1) \<and> (\<exists>e' j. entry_at p k (shown B N (loader_replay B N ops s1)) = Some e' \<and>
      j \<le> length ops \<and> se_Version e' = se_Version e1 + of_nat j)"
    using Cons.IH [OF _ e1(1)] ref Cons.prems(3) by auto
  then obtain e' j where "entry_at p k (shown B N (loader_replay B N ops s1)) = Some e'" "j \<le> length ops"
      "se_Version e' = se_Version e1 + of_nat j" by blast
  with e1 IH a show ?case by (intro conjI exI [of _ e'] exI [of _ "i + j"]) (auto simp: add.assoc)
qed


text \<open>A successful compare-and-set: the version it expected is the one it found, and one more is stored.\<close>

lemma view_state_put_cas:
  assumes "view_state_put op v = Some v'" "lop_ExpectedVersion op > 0"
  shows "entry_at (lop_Plugin op) (lop_Key op) v' = Some \<lparr>se_Value = lop_Data op, se_Version = lop_ExpectedVersion op + 1\<rparr>"
    and "\<exists>e. entry_at (lop_Plugin op) (lop_Key op) v = Some e \<and> se_Version e = lop_ExpectedVersion op"
proof -
  have c: "cas_check op (state_of v (lop_Plugin op) (lop_Key op)) = None"
    using assms(1) by (auto simp: view_state_put_code Let_def split: if_splits)
  then obtain e where e: "state_of v (lop_Plugin op) (lop_Key op) = Some (LEntry e)" "se_Version e = lop_ExpectedVersion op"
    using assms(2) by (auto simp: cas_check_def split: option.splits sum.splits if_splits elim!: as_entry.elims)
  then show "\<exists>e. entry_at (lop_Plugin op) (lop_Key op) v = Some e \<and> se_Version e = lop_ExpectedVersion op" by (simp add: entry_at_Some)
  show "entry_at (lop_Plugin op) (lop_Key op) v' = Some \<lparr>se_Value = lop_Data op, se_Version = lop_ExpectedVersion op + 1\<rparr>"
    using spec_state_put [OF assms(1), of "lop_Plugin op" "lop_Key op"] e by (simp add: next_version_def)
qed

lemma word_add_ne:
  assumes "n < 2 ^ 64 - 1"
  shows "(w :: 64 word) + 1 + of_nat n \<noteq> w"
proof
  assume "w + 1 + of_nat n = w"
  then have "of_nat (n + 1) = (0 :: 64 word)" by (simp add: algebra_simps)
  moreover have "unat (of_nat (n + 1) :: 64 word) = n + 1" unfolding unat_of_nat using assms by (intro mod_less) simp
  ultimately show False by simp
qed

section \<open>An instance in memory\<close>

datatype loader_mem =
  LoaderMem (lm_top: "loader_doc mem_db") (lm_nested: "string \<Rightarrow> string \<Rightarrow> (string \<rightharpoonup> loader_doc) option")

definition on_top :: "(loader_doc mem_db \<Rightarrow> string + loader_doc mem_db) \<Rightarrow> loader_mem \<Rightarrow> string + loader_mem" where
  "on_top f tx = (case f (lm_top tx) of Inl e \<Rightarrow> Inl e | Inr t \<Rightarrow> Inr (LoaderMem t (lm_nested tx)))"

definition mem_loader :: "(loader_mem, loader_mem, loader_doc) bolt_db" where
  "mem_loader = \<lparr>bdb_Begin = Inr, bdb_Commit = Inr, btx_Get = (\<lambda>tx. btx_Get mem_db (lm_top tx)),
     btx_Entries = (\<lambda>tx. btx_Entries mem_db (lm_top tx)),
     btx_Put = (\<lambda>tx bk k v. on_top (\<lambda>t. btx_Put mem_db t bk k v) tx),
     btx_Delete = (\<lambda>tx bk k. on_top (\<lambda>t. btx_Delete mem_db t bk k) tx),
     btx_CreateBucketIfNotExists = (\<lambda>tx bk. Inr tx)\<rparr>"

definition nested_get :: "loader_mem \<Rightarrow> string \<Rightarrow> string \<Rightarrow> string \<rightharpoonup> loader_doc" where
  "nested_get tx p n = (case lm_nested tx p n of None \<Rightarrow> Map.empty | Some m \<Rightarrow> m)"

definition nested_set :: "loader_mem \<Rightarrow> string \<Rightarrow> string \<Rightarrow> (string \<rightharpoonup> loader_doc) option \<Rightarrow> loader_mem" where
  "nested_set tx p n m = LoaderMem (lm_top tx) ((lm_nested tx)(p := (lm_nested tx p)(n := m)))"

definition mem_nested :: "(loader_mem, loader_doc) nested" where
  "mem_nested = \<lparr>ntx_Top = (\<lambda>tx bk. True), ntx_Bucket = (\<lambda>tx p n. lm_nested tx p n \<noteq> None), ntx_Get = nested_get,
     ntx_Create = (\<lambda>tx p n. if n = '''' then Inl ''bucket name required'' else Inr (nested_set tx p n (Some (nested_get tx p n)))),
     ntx_Drop = (\<lambda>tx p n. Inr (nested_set tx p n None)),
     ntx_Put = (\<lambda>tx p n k v. if valid_key k \<and> lm_nested tx p n \<noteq> None then Inr (nested_set tx p n (Some ((nested_get tx p n)(k \<mapsto> v))))
        else Inl ''key required''),
     ntx_Delete = (\<lambda>tx p n k. Inr (if lm_nested tx p n = None then tx else nested_set tx p n (Some ((nested_get tx p n)(k := None)))))\<rparr>"

lemma mem_loader_sel [simp]:
  "bdb_Begin mem_loader = Inr" "bdb_Commit mem_loader = Inr" "btx_Get mem_loader tx = btx_Get mem_db (lm_top tx)"
  "btx_Entries mem_loader tx = btx_Entries mem_db (lm_top tx)"
  "btx_Put mem_loader tx bk k v = on_top (\<lambda>t. btx_Put mem_db t bk k v) tx"
  "btx_Delete mem_loader tx bk k = on_top (\<lambda>t. btx_Delete mem_db t bk k) tx"
  "btx_CreateBucketIfNotExists mem_loader tx bk = Inr tx"
  by (simp_all add: mem_loader_def)

lemma on_top_Inr: "on_top f tx = Inr tx' \<longleftrightarrow> (\<exists>t. f (lm_top tx) = Inr t \<and> tx' = LoaderMem t (lm_nested tx))"
  by (auto simp: on_top_def split: sum.splits)

lemma on_top_isl: "isl (on_top f tx) \<longleftrightarrow> isl (f (lm_top tx))"
  by (auto simp: on_top_def split: sum.splits)


lemma mem_loader_ok: "bolt_db_ok mem_loader" "bolt_no_errors mem_loader"
proof -
  note m = mem_db_ok [unfolded bolt_db_ok_def, where ?'a = loader_doc]
  show "bolt_db_ok mem_loader"
    using m unfolding bolt_db_ok_def by (auto simp: on_top_Inr on_top_isl)
  show "bolt_no_errors mem_loader"
    using mem_db_no_errors [unfolded bolt_no_errors_def, where ?'a = loader_doc]
    by (auto simp: bolt_no_errors_def on_top_isl)
qed

lemma mem_nested_sel:
  "ntx_Top mem_nested = (\<lambda>tx bk. True)" "ntx_Bucket mem_nested = (\<lambda>tx p n. lm_nested tx p n \<noteq> None)" "ntx_Get mem_nested = nested_get"
  "ntx_Create mem_nested tx p n = (if n = '''' then Inl ''bucket name required'' else Inr (nested_set tx p n (Some (nested_get tx p n))))"
  "ntx_Drop mem_nested tx p n = Inr (nested_set tx p n None)"
  "ntx_Put mem_nested tx p n k v = (if valid_key k \<and> lm_nested tx p n \<noteq> None
     then Inr (nested_set tx p n (Some ((nested_get tx p n)(k \<mapsto> v)))) else Inl ''key required'')"
  "ntx_Delete mem_nested tx p n k = Inr (if lm_nested tx p n = None then tx else nested_set tx p n (Some ((nested_get tx p n)(k := None))))"
  by (simp_all add: mem_nested_def)

lemma nested_get_set [simp]:
  "nested_get (nested_set tx p n m) = (nested_get tx)(p := (nested_get tx p)(n := case m of None \<Rightarrow> Map.empty | Some f \<Rightarrow> f))"
  "lm_top (nested_set tx p n m) = lm_top tx"
  "lm_nested (nested_set tx p n m) = (lm_nested tx)(p := (lm_nested tx p)(n := m))"
  by (auto simp: nested_get_def nested_set_def fun_eq_iff)

lemma nested_get_None [simp]: "lm_nested tx p n = None \<Longrightarrow> nested_get tx p n = Map.empty"
  by (simp add: nested_get_def)

lemma nested_get_pair [simp]: "nested_get (LoaderMem t (lm_nested tx)) = nested_get tx"
  by (simp add: nested_get_def fun_eq_iff)

lemma mem_nested_ok: "nested_ok mem_loader mem_nested" "nested_no_errors mem_nested"
proof -
  have d: "(nested_get tx)(p := (nested_get tx p)(n := (nested_get tx p n)(k := None))) = nested_get tx" if "lm_nested tx p n = None" for tx p n k
    using that by (auto simp: fun_eq_iff)
  show "nested_ok mem_loader mem_nested"
    unfolding nested_ok_def
    by (intro conjI allI impI) (auto simp: mem_nested_sel tx_view_def on_top_Inr on_top_isl d fun_eq_iff simp del: not_None_eq split: if_splits)
  show "nested_no_errors mem_nested"
    by (auto simp: nested_no_errors_def mem_nested_def)
qed

lemma mem_loader_db_ok [simp]: "loader_db_ok mem_loader mem_nested"
  by (simp add: loader_db_ok_def mem_loader_ok mem_nested_ok)

definition mem_loader_node :: "loader_mem BoltFSM" where
  "mem_loader_node = \<lparr>fsm_db = LoaderMem (\<lambda>_. []) (\<lambda>_ _. None), fsm_path = ''loader-fsm.db'', fsm_open = True\<rparr>"

lemma mem_loader_ready [simp]: "loader_ready mem_loader mem_nested mem_loader_node"
  by (simp add: loader_ready_def tops_def mem_nested_def mem_loader_node_def)


section \<open>Properties\<close>

fun loader_results ::
    "('db, 'tx, loader_doc) bolt_db \<Rightarrow> ('tx, loader_doc) nested \<Rightarrow> LoaderFSMOp list \<Rightarrow> 'db BoltFSM \<Rightarrow> bool list" where
  "loader_results B N [] s = []"
| "loader_results B N (op # ops) s =
     (snd (Loader_Apply B N (Inr op) s) = ApplySuccess) # loader_results B N ops (fst (Loader_Apply B N (Inr op) s))"

text \<open>The specification on a log: the view it ends in and which entries took effect.\<close>

fun spec_log :: "LoaderFSMOp list \<Rightarrow> loader_view \<Rightarrow> loader_view \<times> bool list" where
  "spec_log [] v = (v, [])"
| "spec_log (op # ops) v =
     (case loader_spec op v of
        None \<Rightarrow> (fst (spec_log ops v), False # snd (spec_log ops v))
      | Some v' \<Rightarrow> (fst (spec_log ops v'), True # snd (spec_log ops v')))"

lemma loader_log_spec:
  assumes "loader_db_ok B N" "loader_ready B N s"
  shows "(shown B N (loader_replay B N ops s), loader_results B N ops s) = spec_log ops (shown B N s) \<and> loader_ready B N (loader_replay B N ops s)"
  using assms(2)
proof (induction ops arbitrary: s)
  case (Cons op ops)
  obtain s1 r where a: "Loader_Apply B N (Inr op) s = (s1, r)" by fastforce
  note ref = Loader_Apply_refines [OF assms(1) Cons.prems a]
  then have "(shown B N (loader_replay B N ops s1), loader_results B N ops s1) = spec_log ops (shown B N s1) \<and> loader_ready B N (loader_replay B N ops s1)" by (intro Cons.IH) simp
  then have "fst (spec_log ops (shown B N s1)) = shown B N (loader_replay B N ops s1)" "snd (spec_log ops (shown B N s1)) = loader_results B N ops s1"
      "loader_ready B N (loader_replay B N ops s1)"
    by (metis fst_conv, metis snd_conv, blast)
  then show ?case using ref a by (cases "loader_spec op (shown B N s)") simp_all
qed simp

definition is_put :: "LoaderFSMOp \<Rightarrow> string \<Rightarrow> string \<Rightarrow> bool" where
  "is_put op p k \<longleftrightarrow> lop_Type op = OpStatePut \<and> lop_Plugin op = p \<and> lop_Key op = k"

lemma spec_put: "is_put op p k \<Longrightarrow> loader_spec op = view_state_put op"
  by (auto simp: loader_spec_def is_put_def loader_op_defs)

lemma put_taken:
  assumes "is_put op p k" "lop_ExpectedVersion op = 0" "p \<noteq> []" "valid_key k"
  shows "\<exists>v'. view_state_put op v = Some v' \<and> entry_at p k v' = Some \<lparr>se_Value = lop_Data op, se_Version = next_version (state_of v p k)\<rparr>"
  using assms spec_state_put [of op v _ p k] by (auto simp: view_state_put_code Let_def cas_check_def is_put_def)

lemma put_then_cas:
  assumes "is_put op p k" "lop_ExpectedVersion op = 0" "p \<noteq> []" "valid_key k" "is_put cas p k" "lop_ExpectedVersion cas = 1"
  shows "snd (spec_log [op, cas] v) = [True, next_version (state_of v p k) = 1]"
proof -
  obtain v' where v': "view_state_put op v = Some v'" "state_of v' p k = Some (LEntry \<lparr>se_Value = lop_Data op, se_Version = next_version (state_of v p k)\<rparr>)"
    using put_taken [OF assms(1-4), of v] by (auto simp: entry_at_Some)
  then have "view_state_put cas v' = None \<longleftrightarrow> next_version (state_of v p k) \<noteq> 1"
    using assms by (auto simp: view_state_put_code Let_def cas_check_def is_put_def)
  then show ?thesis using v'(1) by (auto simp: spec_put [OF assms(1)] spec_put [OF assms(5)] split: option.splits)
qed

text \<open>
  C7. Refinement of the plug-in loader's state machine, on an open database that has the four buckets and whose writes do not fail: applying
  a log ends in what the specification says of the same log, and the entries that report success are the ones the
  specification lets take effect. There a conditional write takes effect when the key holds just the expected version, and a written entry has
  the version after the one it replaces. So two replicas that agree and apply the same log agree.
\<close>

theorem loader_log_refines:
  assumes "loader_db_ok B N" "loader_ready B N s"
  shows "(shown B N (loader_replay B N ops s), loader_results B N ops s) = spec_log ops (shown B N s)"
  using loader_log_spec [OF assms] by blast

theorem loader_log_refines_witness:
  "snd (spec_log [\<lparr>lop_Type = OpStatePut, lop_Plugin = ''p'', lop_Key = ''k'', lop_Data = [7], lop_ExpectedVersion = 1\<rparr>]
     (shown mem_loader mem_nested mem_loader_node)) = [False]"
proof -
  let ?op = "\<lparr>lop_Type = OpStatePut, lop_Plugin = ''p'', lop_Key = ''k'', lop_Data = [7], lop_ExpectedVersion = 1\<rparr>"
  have "loader_results mem_loader mem_nested [?op] mem_loader_node = [False]"
    by (simp add: Loader_Apply_def loader_closure_def loader_op_defs applyStatePut_def with_bucket_def mem_nested_sel mem_loader_node_def
        cas_check_def fsm_update_def bolt_Update_def tx_step_def)
  then show ?thesis using loader_log_refines [OF mem_loader_db_ok mem_loader_ready, of "[?op]"] by (metis snd_conv)
qed

text \<open>
  Compare-and-set of a plug-in's state: when a write that expects the version \<open>v\<close> succeeds, the entry holds
  its value at version \<open>v + 1\<close>, and after fewer than $2^{64} - 1$ further operations, none of which
  removes the key, every other write that expects \<open>v\<close> is refused and changes nothing. So of the
  writers that read the same version one wins.
\<close>

theorem cas_excludes:
  assumes ok: "loader_db_ok B N" and s: "loader_ready B N s"
    and op: "is_put op p k" "lop_ExpectedVersion op = w" "0 < w" and a: "Loader_Apply B N (Inr op) s = (s1, ApplySuccess)"
    and ops: "\<And>x. x \<in> set ops \<Longrightarrow> \<not> removes p k x" "length ops < 2 ^ 64 - 1"
    and op2: "is_put op2 p k" "lop_ExpectedVersion op2 = w"
  shows "entry_at p k (shown B N s1) = Some \<lparr>se_Value = lop_Data op, se_Version = w + 1\<rparr> \<and>
    fst (Loader_Apply B N (Inr op2) (loader_replay B N ops s1)) = loader_replay B N ops s1 \<and>
    snd (Loader_Apply B N (Inr op2) (loader_replay B N ops s1)) \<noteq> ApplySuccess"
proof -
  let ?t = "loader_replay B N ops s1"
  have v1: "view_state_put op (shown B N s) = Some (shown B N s1)" and r1: "loader_ready B N s1"
    using Loader_Apply_refines [OF ok s a] by (auto simp: spec_put [OF op(1)] split: option.splits)
  have e1: "entry_at p k (shown B N s1) = Some \<lparr>se_Value = lop_Data op, se_Version = w + 1\<rparr>"
    using view_state_put_cas(1) [OF v1] op by (simp add: is_put_def)
  obtain e j where t: "loader_ready B N ?t" "entry_at p k (shown B N ?t) = Some e" "j \<le> length ops" "se_Version e = w + 1 + of_nat j"
    using replay_version [OF ok r1 e1, of ops] ops(1) by auto
  have "se_Version e \<noteq> w" unfolding t(4) using t(3) ops(2) by (intro word_add_ne) simp
  then have "view_state_put op2 (shown B N ?t) = None"
    using view_state_put_cas(2) [of op2 "shown B N ?t"] t(2) op2 op(3) by (cases "view_state_put op2 (shown B N ?t)") (auto simp: is_put_def)
  then show ?thesis
    using e1 Loader_Apply_refines [OF ok t(1), of op2] spec_put [OF op2(1)] by (cases "Loader_Apply B N (Inr op2) ?t") auto
qed


definition put_op :: "string \<Rightarrow> string \<Rightarrow> byte list \<Rightarrow> 64 word \<Rightarrow> LoaderFSMOp" where
  "put_op p k d w = \<lparr>lop_Type = OpStatePut, lop_Plugin = p, lop_Key = k, lop_Data = d, lop_ExpectedVersion = w\<rparr>"

definition mem_first :: "loader_mem BoltFSM" where
  "mem_first = fst (Loader_Apply mem_loader mem_nested (Inr (put_op ''p'' ''k'' [7] 0)) mem_loader_node)"

lemmas mem_run = Loader_Apply_def loader_closure_def loader_op_defs applyStatePut_def with_bucket_def mem_nested_sel mem_loader_node_def
  cas_check_def next_version_def fsm_update_def bolt_Update_def tx_step_def put_op_def Let_def valid_key_def MaxKeySize_def

lemma mem_first_ready: "loader_ready mem_loader mem_nested mem_first"
  using Loader_Apply_refines [OF mem_loader_db_ok mem_loader_ready, of "put_op ''p'' ''k'' [7] 0"]
  by (cases "Loader_Apply mem_loader mem_nested (Inr (put_op ''p'' ''k'' [7] 0)) mem_loader_node") (simp add: mem_first_def)

theorem cas_excludes_witness:
  "snd (Loader_Apply mem_loader mem_nested (Inr (put_op ''p'' ''k'' [9] 1))
     (fst (Loader_Apply mem_loader mem_nested (Inr (put_op ''p'' ''k'' [8] 1)) mem_first))) \<noteq> ApplySuccess"
proof -
  have a: "Loader_Apply mem_loader mem_nested (Inr (put_op ''p'' ''k'' [8] 1)) mem_first =
      (fst (Loader_Apply mem_loader mem_nested (Inr (put_op ''p'' ''k'' [8] 1)) mem_first), ApplySuccess)"
    by (simp add: mem_first_def mem_run)
  show ?thesis
    using cas_excludes [OF mem_loader_db_ok mem_first_ready, of "put_op ''p'' ''k'' [8] 1" "''p''" "''k''" 1 _ "[]" "put_op ''p'' ''k'' [9] 1"] a
    by (simp add: is_put_def put_op_def)
qed

text \<open>
  Divergence of the loader's replicas: a snapshot is written out after it was taken, so it may hold
  the effect of an entry that the replica restored from it applies again. For a write of a plug-in's
  state without an expected version that is not idempotent: the key has version 1 where the log ran
  once and version 2 on the restored replica, so the next compare-and-set succeeds on one of them only.
\<close>

theorem loader_snapshot_diverges:
  assumes ok: "loader_db_ok B N" and s: "loader_ready B N s"
    and op: "is_put op p k" "lop_ExpectedVersion op = 0" "p \<noteq> ''''" "valid_key k" and new: "state_of (shown B N s) p k = None"
    and snap: "Persist io (loader_replay B N [op] s) = (Some db, r)"
    and cas: "is_put cas p k" "lop_ExpectedVersion cas = 1"
  shows "loader_results B N [op, cas] s = [True, True] \<and>
    loader_results B N [op, cas] (fst (Restore (RestoreOk db) t)) = [True, False]"
proof -
  let ?s1 = "loader_replay B N [op] s" and ?t = "fst (Restore (RestoreOk db) t)"
  let ?e = "\<lambda>n. \<lparr>se_Value = lop_Data op, se_Version = n\<rparr>"
  have db: "db = fsm_db ?s1" using snap by (auto simp: Persist_def split: persist_io.splits if_splits)
  have s1: "loader_ready B N ?s1" "entry_at p k (shown B N ?s1) = Some (?e 1)"
    using loader_log_spec [OF ok s, of "[op]"] new put_taken [OF op, of "shown B N s"]
    by (auto simp: spec_put [OF op(1)] next_version_def prod_eq_iff)
  then have t: "loader_ready B N ?t" "shown B N ?t = shown B N ?s1"
    by (simp_all add: db Restore_def Let_def loader_ready_def shown_def begin_tx_def)
  have "snd (spec_log [op, cas] (shown B N s)) = [True, True]" "snd (spec_log [op, cas] (shown B N ?t)) = [True, False]"
    unfolding put_then_cas [OF op cas] using s1(2) t(2) new by (simp_all add: next_version_def entry_at_Some)
  then show ?thesis
    using loader_log_spec [OF ok s, of "[op, cas]"] loader_log_spec [OF ok t(1), of "[op, cas]"] by (metis snd_conv)
qed

theorem loader_snapshot_diverges_witness:
  "loader_results mem_loader mem_nested [put_op ''p'' ''k'' [7] 0, put_op ''p'' ''k'' [8] 1]
     (fst (Restore (RestoreOk (fsm_db mem_first)) mem_loader_node)) = [True, False]"
proof -
  have "Persist PersistOk (loader_replay mem_loader mem_nested [put_op ''p'' ''k'' [7] 0] mem_loader_node) = (Some (fsm_db mem_first), Inr ())"
    using mem_first_ready by (simp add: Persist_def mem_first_def loader_ready_def)
  moreover have "state_of (shown mem_loader mem_nested mem_loader_node) ''p'' ''k'' = None"
    by (simp add: state_of_def shown_def tx_view_def begin_tx_def mem_loader_node_def mem_nested_sel nested_get_def)
  ultimately show ?thesis
    using loader_snapshot_diverges [OF mem_loader_db_ok mem_loader_ready, of "put_op ''p'' ''k'' [7] 0" "''p''" "''k''" PersistOk
        "fsm_db mem_first" "Inr ()" "put_op ''p'' ''k'' [8] 1" mem_loader_node]
    by (simp add: is_put_def put_op_def valid_key_def MaxKeySize_def)
qed


lemma colon_split: "q @ x # h = p @ x # zs \<Longrightarrow> x \<notin> set p \<Longrightarrow> x \<notin> set q \<Longrightarrow> q = p"
  by (induction q arbitrary: p; case_tac p) auto

lemma hook_prefix:
  assumes "CHR '':'' \<notin> set p" "CHR '':'' \<notin> set q"
  shows "HasPrefix (q @ '':'' @ h) (p @ '':'') \<longleftrightarrow> q = p"
proof
  assume "HasPrefix (q @ '':'' @ h) (p @ '':'')"
  then obtain zs where "q @ CHR '':'' # h = p @ CHR '':'' # zs" by (auto simp: HasPrefix_prefix prefix_def)
  then show "q = p" using colon_split assms by metis
qed (simp add: HasPrefix_def)

text \<open>
  Uninstalling a plug-in removes its registration, its whole state and every one of its hooks, and nothing
  of any other plug-in, provided that neither name contains a colon.
\<close>

theorem uninstall_exact:
  assumes ok: "loader_db_ok B N" and s: "loader_ready B N s" and op: "lop_Type op = OpPluginUninstall" "lop_Plugin op = p"
    and a: "Loader_Apply B N (Inr op) s = (s', r)" and c: "CHR '':'' \<notin> set p" "CHR '':'' \<notin> set q"
  shows "r = ApplySuccess \<and>
    fst (shown B N s') BucketPluginRegistry q = (if q = p then None else fst (shown B N s) BucketPluginRegistry q) \<and>
    state_of (shown B N s') q = (if q = p then Map.empty else state_of (shown B N s) q) \<and>
    fst (shown B N s') BucketHookRegistry (q @ '':'' @ h) = (if q = p then None else fst (shown B N s) BucketHookRegistry (q @ '':'' @ h)) \<and>
    fst (shown B N s') BucketTrustedKeys = fst (shown B N s) BucketTrustedKeys"
proof -
  have "r = ApplySuccess" "shown B N s' = view_uninstall p (shown B N s)"
    using Loader_Apply_refines [OF ok s a] op by (simp_all add: loader_spec_def loader_op_defs)
  then show ?thesis using hook_prefix [OF c, of h] by (simp add: view_uninstall_def state_of_def loader_bucket_defs)
qed

theorem uninstall_exact_witness:
  "state_of (shown mem_loader mem_nested (fst (Loader_Apply mem_loader mem_nested
      (Inr \<lparr>lop_Type = OpPluginUninstall, lop_Plugin = ''p'', lop_Key = '''', lop_Data = [], lop_ExpectedVersion = 0\<rparr>) mem_first))) ''p'' = Map.empty"
proof -
  let ?op = "\<lparr>lop_Type = OpPluginUninstall, lop_Plugin = ''p'', lop_Key = '''', lop_Data = [], lop_ExpectedVersion = 0\<rparr>"
  obtain s' r where a: "Loader_Apply mem_loader mem_nested (Inr ?op) mem_first = (s', r)" by fastforce
  show ?thesis using uninstall_exact [OF mem_loader_db_ok mem_first_ready _ _ a, of "''p''" "''p''"] a by simp
qed

end
