(* ===== verification/Plugin_Manifest.thy ===== *)
theory Plugin_Manifest
  imports Plugin_Capability
begin

text \<open>
  The declaration a plug-in ships with, \<^verbatim>\<open>internal/pluginloader/manifest.go\<close>: its records and its
  validation. The libraries for semantic versions (\<^verbatim>\<open>Masterminds/semver\<close>) and cron expressions
  (\<^verbatim>\<open>robfig/cron\<close>) are arguments. The reason of an error is a value with the arguments of its
  message in place of the formatted text.
\<close>

section \<open>Records\<close>

record ManifestHook =
  mh_Type :: string
  mh_Operation :: string
  mh_Condition :: string
  mh_Handler :: string
  mh_Priority :: int
  mh_OnFailure :: string
  mh_Critical :: bool

record ManifestRoute =
  mr_Prefix :: string
  mr_Handler :: string
  mr_SSESessions :: bool

record ManifestStateKey =
  msk_Key :: string
  msk_Type :: string

record ManifestResources =
  mres_MemoryMB :: int
  mres_FuelPerSec :: int
  mres_CallTimeout :: string
  mres_IOBytesPerSec :: int
  mres_Concurrent :: int

record ManifestGrant =
  mg_Plugin :: string
  mg_Keys :: "string list"

record ManifestEventSubscription =
  mes_Events :: "string list"
  mes_Handler :: string

record ManifestTaskSchedule =
  mts_Schedule :: string
  mts_Payload :: string
  mts_Handler :: string

record ManifestPipelineStep =
  mps_Name :: string
  mps_Handler :: string

record Manifest =
  mf_ManifestVersion :: string
  mf_APIVersion :: string
  mf_Name :: string
  mf_Version :: string
  mf_Author :: string
  mf_Description :: string
  mf_TrustTierRequested :: int
  mf_Capabilities :: "string list"
  mf_Hooks :: "ManifestHook list"
  mf_Routes :: "ManifestRoute list"
  mf_StateSchema :: "ManifestStateKey list"
  mf_Resources :: "ManifestResources option"
  mf_NetworkEgress :: "string list"
  mf_DependsOn :: "string list"
  mf_EventSubscriptions :: "ManifestEventSubscription list"
  mf_TaskSchedules :: "ManifestTaskSchedule list"
  mf_PipelineSteps :: "ManifestPipelineStep list"
  mf_Grants :: "ManifestGrant list"
  mf_DeprecatedImports :: "string list"

definition SupportedManifestVersion :: string where "SupportedManifestVersion = ''1.0''"
definition HostAPIVersion :: string where "HostAPIVersion = ''1.0.0''"

section \<open>Errors\<close>

datatype manifest_reason =
    Plain string | UnsupportedVersion string | InvalidRange string string | BrokenHostVersion string
  | RangeNotCovering string | InvalidName string | InvalidSemver string string | InvalidCapability string
  | UnknownNamespace string string | NeedsTier2 string | InvalidHookType string | HookOpPrefix string
  | PriorityOutOfRange int | InvalidOnFailure string | RouteNotAbsolute string | RouteReserved string
  | InvalidCron string | InvalidStepName string | StepNeedsCapability string string | DuplicateStep string

datatype ErrManifestInvalid = ErrManifestInvalid (invalid_Field: string) (invalid_Reason: manifest_reason)

text \<open>\<^verbatim>\<open>hooks[3]\<close>.\<close>

definition at_index :: "string \<Rightarrow> nat \<Rightarrow> string" where
  "at_index name i = name @ ''['' @ itoa i @ '']''"

section \<open>Checks\<close>

text \<open>The regular expression \<^verbatim>\<open>^[a-z][a-z0-9-]{1,62}[a-z0-9]$\<close>.\<close>

definition is_lower :: "char \<Rightarrow> bool" where
  "is_lower c \<longleftrightarrow> 97 \<le> (of_char c :: nat) \<and> (of_char c :: nat) \<le> 122"

definition pluginNameRe :: "string \<Rightarrow> bool" where
  "pluginNameRe s \<longleftrightarrow> 3 \<le> length s \<and> length s \<le> 64 \<and> is_lower (hd s) \<and>
     list_all (\<lambda>c. is_lower c \<or> is_digit c \<or> c = CHR ''-'') s \<and> (is_lower (last s) \<or> is_digit (last s))"

record ('c, 'v) semver =
  sv_NewConstraint :: "string \<Rightarrow> string + 'c"
  sv_NewVersion :: "string \<Rightarrow> string + 'v"
  sv_Check :: "'c \<Rightarrow> 'v \<Rightarrow> bool"

definition validateAPIVersionRange :: "('c, 'v) semver \<Rightarrow> string \<Rightarrow> manifest_reason option" where
  "validateAPIVersionRange S apiRange =
     (case sv_NewConstraint S apiRange of
        Inl e \<Rightarrow> Some (InvalidRange apiRange e)
      | Inr c \<Rightarrow>
          (case sv_NewVersion S HostAPIVersion of
             Inl e \<Rightarrow> Some (BrokenHostVersion e)
           | Inr v \<Rightarrow> if \<not> sv_Check S c v then Some (RangeNotCovering apiRange) else None))"

definition knownNamespaces :: "string list" where
  "knownNamespaces = [''http'', ''storage'', ''vector'', ''fts'', ''state'', ''event'', ''pipeline'', ''task'', ''net'', ''log'',
     ''metric'', ''trace'', ''iam'', ''kms'', ''crypto'', ''gateway'']"

definition validateCapability :: "string \<Rightarrow> manifest_reason option" where
  "validateCapability cap =
     (if cap = '''' then Some (Plain ''empty capability'')
      else (case Index cap '':'' of
              None \<Rightarrow> Some (InvalidCapability cap)
            | Some idx \<Rightarrow>
                if idx = 0 then Some (InvalidCapability cap)
                else if take idx cap \<notin> set knownNamespaces then Some (UnknownNamespace (take idx cap) cap)
                else None))"

definition validateHook :: "ManifestHook \<Rightarrow> manifest_reason option" where
  "validateHook h =
     (if mh_Type h \<notin> set [''before'', ''after'', ''around''] then Some (InvalidHookType (mh_Type h))
      else if mh_Operation h = '''' then Some (Plain ''hook op is required'')
      else if \<not> HasPrefix (mh_Operation h) ''s3:'' then Some (HookOpPrefix (mh_Operation h))
      else if mh_Handler h = '''' then Some (Plain ''hook handler is required'')
      else if mh_Priority h < 0 \<or> mh_Priority h > 99 then Some (PriorityOutOfRange (mh_Priority h))
      else if mh_OnFailure h \<notin> set ['''', ''deny'', ''allow'', ''log_and_allow''] then Some (InvalidOnFailure (mh_OnFailure h))
      else None)"

definition reserved_routes :: "string list" where
  "reserved_routes = [''/'', ''/admin/'', ''/_plugins/'', ''/metrics'', ''/healthz'', ''/readyz'', ''/livez'']"

definition validateRoute :: "ManifestRoute \<Rightarrow> manifest_reason option" where
  "validateRoute r =
     (if \<not> HasPrefix (mr_Prefix r) ''/'' then Some (RouteNotAbsolute (mr_Prefix r))
      else if list_ex (\<lambda>rsv. (mr_Prefix r = rsv \<or> HasPrefix (mr_Prefix r @ ''/'') rsv) \<and> mr_Prefix r = rsv) reserved_routes
      then Some (RouteReserved (mr_Prefix r))
      else if mr_Handler r = '''' then Some (Plain ''route handler is required'')
      else None)"

definition hasCapability :: "string list \<Rightarrow> string \<Rightarrow> bool" where
  "hasCapability caps cap \<longleftrightarrow> list_ex (\<lambda>c. c = cap) caps"

definition validateTaskSchedule :: "(string \<Rightarrow> string option) \<Rightarrow> nat \<Rightarrow> ManifestTaskSchedule \<Rightarrow> ErrManifestInvalid option" where
  "validateTaskSchedule cron i ts =
     (if mts_Schedule ts = '''' then
        Some (ErrManifestInvalid (at_index ''task_schedules'' i @ ''.schedule'') (Plain ''schedule is required''))
      else (case cron (mts_Schedule ts) of
              Some e \<Rightarrow> Some (ErrManifestInvalid (at_index ''task_schedules'' i @ ''.schedule'') (InvalidCron e))
            | None \<Rightarrow> None))"

definition step_capability :: "string \<Rightarrow> string" where
  "step_capability name = ''pipeline:step:'' @ name"

definition validatePipelineStep :: "nat \<Rightarrow> ManifestPipelineStep \<Rightarrow> string list \<Rightarrow> ErrManifestInvalid option" where
  "validatePipelineStep i ps caps =
     (if mps_Name ps = '''' then
        Some (ErrManifestInvalid (at_index ''pipeline_steps'' i @ ''.name'') (Plain ''pipeline step name is required''))
      else if \<not> pluginNameRe (mps_Name ps) then
        Some (ErrManifestInvalid (at_index ''pipeline_steps'' i @ ''.name'') (InvalidStepName (mps_Name ps)))
      else if \<not> hasCapability caps (step_capability (mps_Name ps)) then
        Some (ErrManifestInvalid (at_index ''pipeline_steps'' i)
                (StepNeedsCapability (mps_Name ps) (step_capability (mps_Name ps))))
      else None)"

section \<open>Validation\<close>

text \<open>The loops of \<^verbatim>\<open>Validate\<close>: the first element that is refused decides.\<close>

fun first_error :: "(nat \<Rightarrow> 'a \<Rightarrow> ErrManifestInvalid option) \<Rightarrow> nat \<Rightarrow> 'a list \<Rightarrow> ErrManifestInvalid option" where
  "first_error f i [] = None"
| "first_error f i (x # xs) = (case f i x of Some e \<Rightarrow> Some e | None \<Rightarrow> first_error f (i + 1) xs)"

definition in_field :: "string \<Rightarrow> nat \<Rightarrow> manifest_reason option \<Rightarrow> ErrManifestInvalid option" where
  "in_field name i r = map_option (ErrManifestInvalid (at_index name i)) r"

definition check_capability :: "int \<Rightarrow> nat \<Rightarrow> string \<Rightarrow> ErrManifestInvalid option" where
  "check_capability tier i cap =
     (case validateCapability cap of
        Some r \<Rightarrow> Some (ErrManifestInvalid (at_index ''capabilities'' i) r)
      | None \<Rightarrow>
          if IsTier2Only cap \<and> tier < TierCore
          then Some (ErrManifestInvalid (at_index ''capabilities'' i) (NeedsTier2 cap)) else None)"

definition check_subscription :: "nat \<Rightarrow> ManifestEventSubscription \<Rightarrow> ErrManifestInvalid option" where
  "check_subscription i sub =
     (if mes_Events sub = [] then
        Some (ErrManifestInvalid (at_index ''event_subscriptions'' i @ ''.events'') (Plain ''at least one event pattern is required''))
      else first_error (\<lambda>j pat. if pat = ''''
             then Some (ErrManifestInvalid (at_index (at_index ''event_subscriptions'' i @ ''.events'') j) (Plain ''empty event pattern''))
             else None) 0 (mes_Events sub))"

fun check_steps :: "string list \<Rightarrow> nat \<Rightarrow> string list \<Rightarrow> ManifestPipelineStep list \<Rightarrow> ErrManifestInvalid option" where
  "check_steps caps i seen [] = None"
| "check_steps caps i seen (ps # pss) =
     (case validatePipelineStep i ps caps of
        Some e \<Rightarrow> Some e
      | None \<Rightarrow>
          if mps_Name ps \<in> set seen
          then Some (ErrManifestInvalid (at_index ''pipeline_steps'' i @ ''.name'') (DuplicateStep (mps_Name ps)))
          else check_steps caps (i + 1) (mps_Name ps # seen) pss)"

fun first_some :: "'e option list \<Rightarrow> 'e option" where
  "first_some [] = None"
| "first_some (x # xs) = (case x of Some e \<Rightarrow> Some e | None \<Rightarrow> first_some xs)"

definition check_identity :: "('c, 'v) semver \<Rightarrow> Manifest \<Rightarrow> ErrManifestInvalid option" where
  "check_identity S m =
     (if mf_ManifestVersion m \<noteq> SupportedManifestVersion then
        Some (ErrManifestInvalid ''manifest_version'' (UnsupportedVersion (mf_ManifestVersion m)))
      else if mf_APIVersion m = '''' then Some (ErrManifestInvalid ''api_version'' (Plain ''api_version is required''))
      else (case validateAPIVersionRange S (mf_APIVersion m) of
              Some r \<Rightarrow> Some (ErrManifestInvalid ''api_version'' r)
            | None \<Rightarrow>
                if \<not> pluginNameRe (mf_Name m) then Some (ErrManifestInvalid ''name'' (InvalidName (mf_Name m)))
                else if mf_Version m = '''' then Some (ErrManifestInvalid ''version'' (Plain ''version is required''))
                else (case sv_NewVersion S (mf_Version m) of
                        Inl e \<Rightarrow> Some (ErrManifestInvalid ''version'' (InvalidSemver (mf_Version m) e))
                      | Inr _ \<Rightarrow>
                          if mf_TrustTierRequested m < 0 \<or> mf_TrustTierRequested m > 2
                          then Some (ErrManifestInvalid ''trust_tier_requested'' (Plain ''must be 0, 1, or 2'')) else None)))"

definition Manifest_Validate :: "('c, 'v) semver \<Rightarrow> (string \<Rightarrow> string option) \<Rightarrow> Manifest \<Rightarrow> ErrManifestInvalid option" where
  "Manifest_Validate S cron m =
     first_some
       [check_identity S m,
        first_error (check_capability (mf_TrustTierRequested m)) 0 (mf_Capabilities m),
        first_error (\<lambda>i h. in_field ''hooks'' i (validateHook h)) 0 (mf_Hooks m),
        first_error (\<lambda>i r. in_field ''routes'' i (validateRoute r)) 0 (mf_Routes m),
        first_error (\<lambda>i dep. if \<not> pluginNameRe dep
           then Some (ErrManifestInvalid (at_index ''depends_on'' i) (Plain ''invalid plugin name'')) else None) 0 (mf_DependsOn m),
        first_error check_subscription 0 (mf_EventSubscriptions m),
        (if mf_TaskSchedules m \<noteq> [] \<and> \<not> hasCapability (mf_Capabilities m) ''task:schedule''
         then Some (ErrManifestInvalid ''task_schedules'' (Plain (''manifest declares task schedules but capability '' @ [CHR 0x22] @ ''task:schedule'' @ [CHR 0x22] @ '' is not granted'')))
         else None),
        first_error (validateTaskSchedule cron) 0 (mf_TaskSchedules m),
        check_steps (mf_Capabilities m) 0 [] (mf_PipelineSteps m)]"

text \<open>\<^verbatim>\<open>ParseManifest\<close> on the bytes, of which decoding is an argument.\<close>

datatype parse_err = ManifestEmpty | ManifestNotJSON string | ManifestInvalid ErrManifestInvalid

definition ParseManifest ::
    "(byte list \<Rightarrow> string + Manifest) \<Rightarrow> ('c, 'v) semver \<Rightarrow> (string \<Rightarrow> string option) \<Rightarrow> byte list \<Rightarrow> parse_err + Manifest" where
  "ParseManifest unmarshal S cron raw =
     (if raw = [] then Inl ManifestEmpty
      else (case unmarshal raw of
              Inl e \<Rightarrow> Inl (ManifestNotJSON e)
            | Inr m \<Rightarrow> (case Manifest_Validate S cron m of Some e \<Rightarrow> Inl (ManifestInvalid e) | None \<Rightarrow> Inr m)))"

section \<open>What is accepted\<close>

lemma first_some_None: "first_some xs = None \<longleftrightarrow> list_all (\<lambda>x. x = None) xs"
  by (induction xs) (auto split: option.splits)

lemma first_error_uniform:
  assumes "\<And>i x. f i x = None \<longleftrightarrow> P x"
  shows "first_error f i xs = None \<longleftrightarrow> list_all P xs"
proof (induction xs arbitrary: i)
  case (Cons x xs)
  then show ?case using assms [of i x] by (cases "f i x") auto
qed simp

text \<open>A capability: a known name space before the first colon, and tier 2 if it needs it.\<close>

definition capability_ok :: "int \<Rightarrow> string \<Rightarrow> bool" where
  "capability_ok tier cap \<longleftrightarrow> (\<exists>ns rest. cap = ns @ '':'' @ rest \<and> ns \<in> set knownNamespaces) \<and> (IsTier2Only cap \<longrightarrow> 2 \<le> tier)"

definition hook_ok :: "ManifestHook \<Rightarrow> bool" where
  "hook_ok h \<longleftrightarrow> mh_Type h \<in> {''before'', ''after'', ''around''} \<and> HasPrefix (mh_Operation h) ''s3:'' \<and> mh_Handler h \<noteq> '''' \<and>
     0 \<le> mh_Priority h \<and> mh_Priority h \<le> 99 \<and> mh_OnFailure h \<in> {'''', ''deny'', ''allow'', ''log_and_allow''}"

definition route_ok :: "ManifestRoute \<Rightarrow> bool" where
  "route_ok r \<longleftrightarrow> HasPrefix (mr_Prefix r) ''/'' \<and> mr_Prefix r \<notin> set reserved_routes \<and> mr_Handler r \<noteq> ''''"

definition step_ok :: "string list \<Rightarrow> ManifestPipelineStep \<Rightarrow> bool" where
  "step_ok caps ps \<longleftrightarrow> pluginNameRe (mps_Name ps) \<and> step_capability (mps_Name ps) \<in> set caps"

definition covers_host :: "('c, 'v) semver \<Rightarrow> string \<Rightarrow> bool" where
  "covers_host S rng \<longleftrightarrow> (\<exists>c v. sv_NewConstraint S rng = Inr c \<and> sv_NewVersion S HostAPIVersion = Inr v \<and> sv_Check S c v)"

lemma knownNamespaces_no_colon: "list_all (\<lambda>ns. CHR '':'' \<notin> set ns \<and> ns \<noteq> '''') knownNamespaces"
  by code_simp

lemma Index_colon: "CHR '':'' \<notin> set ns \<Longrightarrow> Index (ns @ CHR '':'' # rest) '':'' = Some (length ns)"
  by (induction ns) (auto simp: HasPrefix_def)

lemma validateCapability_iff:
  "validateCapability cap = None \<longleftrightarrow> (\<exists>ns rest. cap = ns @ '':'' @ rest \<and> ns \<in> set knownNamespaces)"
proof
  assume v: "validateCapability cap = None"
  then obtain idx where i: "Index cap '':'' = Some idx" "take idx cap \<in> set knownNamespaces"
    by (auto simp: validateCapability_def split: option.splits if_splits)
  have "take 1 (drop idx cap) = '':''" using Index_Some_bound [OF i(1)] by simp
  then have "cap = take idx cap @ '':'' @ drop 1 (drop idx cap)"
    by (metis append_take_drop_id append.assoc)
  with i(2) show "\<exists>ns rest. cap = ns @ '':'' @ rest \<and> ns \<in> set knownNamespaces" by blast
next
  assume "\<exists>ns rest. cap = ns @ '':'' @ rest \<and> ns \<in> set knownNamespaces"
  then obtain ns rest where c: "cap = ns @ '':'' @ rest" "ns \<in> set knownNamespaces" by blast
  then have "CHR '':'' \<notin> set ns" "ns \<noteq> ''''" using knownNamespaces_no_colon by (auto simp: list_all_iff)
  then show "validateCapability cap = None" using c by (simp add: validateCapability_def Index_colon)
qed

lemma check_capability_iff: "check_capability tier i cap = None \<longleftrightarrow> capability_ok tier cap"
  using validateCapability_iff [of cap]
  by (cases "validateCapability cap") (auto simp: check_capability_def capability_ok_def TierCore_def)

lemma validateHook_iff: "validateHook h = None \<longleftrightarrow> hook_ok h"
  by (auto simp: validateHook_def hook_ok_def HasPrefix_def)

lemma validateRoute_iff: "validateRoute r = None \<longleftrightarrow> route_ok r"
proof -
  have "list_ex (\<lambda>rsv. (mr_Prefix r = rsv \<or> HasPrefix (mr_Prefix r @ ''/'') rsv) \<and> mr_Prefix r = rsv) xs \<longleftrightarrow> mr_Prefix r \<in> set xs" for xs
    by (auto simp: list_ex_iff)
  then show ?thesis by (simp add: validateRoute_def route_ok_def)
qed

lemma check_subscription_iff: "check_subscription i sub = None \<longleftrightarrow> mes_Events sub \<noteq> [] \<and> '''' \<notin> set (mes_Events sub)"
  by (auto simp: check_subscription_def first_error_uniform [where P = "\<lambda>p. p \<noteq> ''''"] list_all_iff)

lemma validateTaskSchedule_iff: "validateTaskSchedule cron i ts = None \<longleftrightarrow> mts_Schedule ts \<noteq> '''' \<and> cron (mts_Schedule ts) = None"
  by (auto simp: validateTaskSchedule_def split: option.splits)

lemma validatePipelineStep_iff: "validatePipelineStep i ps caps = None \<longleftrightarrow> step_ok caps ps"
  by (auto simp: validatePipelineStep_def step_ok_def hasCapability_def list_ex_iff pluginNameRe_def)

lemma check_steps_iff:
  "check_steps caps i seen pss = None \<longleftrightarrow>
     list_all (step_ok caps) pss \<and> distinct (map mps_Name pss) \<and> set (map mps_Name pss) \<inter> set seen = {}"
proof (induction pss arbitrary: i seen)
  case (Cons ps pss)
  then show ?case using validatePipelineStep_iff [of i ps caps] by (cases "validatePipelineStep i ps caps") auto
qed simp

lemma check_identity_iff:
  "check_identity S m = None \<longleftrightarrow>
     mf_ManifestVersion m = SupportedManifestVersion \<and> mf_APIVersion m \<noteq> '''' \<and> covers_host S (mf_APIVersion m) \<and>
     pluginNameRe (mf_Name m) \<and> mf_Version m \<noteq> '''' \<and> \<not> isl (sv_NewVersion S (mf_Version m)) \<and>
     0 \<le> mf_TrustTierRequested m \<and> mf_TrustTierRequested m \<le> 2"
  by (auto simp: check_identity_def covers_host_def validateAPIVersionRange_def isl_def split: sum.splits)

section \<open>Properties\<close>

text \<open>
  What \<^verbatim>\<open>Validate\<close> accepts: exactly the manifests of the supported version whose API range covers
  the host, with a well-formed name and version, a tier from 0 to 2, capabilities of known name
  spaces that fit the tier, well-formed hooks, routes, dependencies, subscriptions and schedules,
  schedules only with the capability for them, and pipeline steps of different names each with
  its capability.
\<close>

theorem manifest_accepted_iff:
  "Manifest_Validate S cron m = None \<longleftrightarrow>
     mf_ManifestVersion m = ''1.0'' \<and> mf_APIVersion m \<noteq> '''' \<and> covers_host S (mf_APIVersion m) \<and>
     pluginNameRe (mf_Name m) \<and> mf_Version m \<noteq> '''' \<and> \<not> isl (sv_NewVersion S (mf_Version m)) \<and>
     0 \<le> mf_TrustTierRequested m \<and> mf_TrustTierRequested m \<le> 2 \<and>
     list_all (capability_ok (mf_TrustTierRequested m)) (mf_Capabilities m) \<and>
     list_all hook_ok (mf_Hooks m) \<and> list_all route_ok (mf_Routes m) \<and> list_all pluginNameRe (mf_DependsOn m) \<and>
     list_all (\<lambda>s. mes_Events s \<noteq> [] \<and> '''' \<notin> set (mes_Events s)) (mf_EventSubscriptions m) \<and>
     (mf_TaskSchedules m = [] \<or> ''task:schedule'' \<in> set (mf_Capabilities m)) \<and>
     list_all (\<lambda>ts. mts_Schedule ts \<noteq> '''' \<and> cron (mts_Schedule ts) = None) (mf_TaskSchedules m) \<and>
     list_all (step_ok (mf_Capabilities m)) (mf_PipelineSteps m) \<and> distinct (map mps_Name (mf_PipelineSteps m))"
proof -
  have "first_error (check_capability (mf_TrustTierRequested m)) 0 xs = None \<longleftrightarrow> list_all (capability_ok (mf_TrustTierRequested m)) xs" for xs
    by (rule first_error_uniform) (rule check_capability_iff)
  moreover have "first_error (\<lambda>i h. in_field n i (validateHook h)) 0 xs = None \<longleftrightarrow> list_all hook_ok xs" for n xs
    by (rule first_error_uniform) (simp add: in_field_def validateHook_iff)
  moreover have "first_error (\<lambda>i r. in_field n i (validateRoute r)) 0 xs = None \<longleftrightarrow> list_all route_ok xs" for n xs
    by (rule first_error_uniform) (simp add: in_field_def validateRoute_iff)
  moreover have "first_error (\<lambda>i dep. if \<not> pluginNameRe dep
           then Some (ErrManifestInvalid (at_index n i) r) else None) 0 xs = None \<longleftrightarrow> list_all pluginNameRe xs" for n r xs
    by (rule first_error_uniform) simp
  moreover have "first_error check_subscription 0 xs = None \<longleftrightarrow> list_all (\<lambda>s. mes_Events s \<noteq> [] \<and> '''' \<notin> set (mes_Events s)) xs" for xs
    by (rule first_error_uniform) (rule check_subscription_iff)
  moreover have "first_error (validateTaskSchedule cron) 0 xs = None \<longleftrightarrow>
      list_all (\<lambda>ts. mts_Schedule ts \<noteq> '''' \<and> cron (mts_Schedule ts) = None) xs" for xs
    by (rule first_error_uniform) (rule validateTaskSchedule_iff)
  ultimately show ?thesis
    by (simp add: Manifest_Validate_def first_some_None check_identity_iff check_steps_iff hasCapability_def list_ex_iff
        SupportedManifestVersion_def del: first_some.simps)
qed

end
