(* ===== verification/Plugin_Topology.thy ===== *)
theory Plugin_Topology
  imports Exchange_Sort Plugin_Manifest
begin

text \<open>
  The order in which plug-ins are loaded, \<^verbatim>\<open>internal/pluginloader/topology.go\<close>: Kahn's algorithm on
  the dependencies that the manifests declare. Go's map of in-degrees is an association list, the
  adjacency lists are a function, and the order in which Go visits the map to seed the queue is
  an argument. The manifest of a record is what its JSON decodes to.
\<close>

section \<open>The algorithm\<close>

record PluginRecord =
  pr_Name :: string
  pr_Version :: string
  pr_OCIURL :: string
  pr_SignatureB64 :: string
  pr_KeyID :: string
  pr_TrustTier :: int
  pr_Manifest :: "string + Manifest"
  pr_InstalledAt :: string
  pr_WASMBytes :: "byte list"

definition sortStrings :: "string list \<Rightarrow> string list" where
  "sortStrings s = exchange_sort (\<lambda>a b. b < a) s"

type_synonym degrees = "(string \<times> int) list"
type_synonym adjacency = "string \<Rightarrow> string list"

definition deg_of :: "degrees \<Rightarrow> string \<Rightarrow> int" where
  "deg_of deg n = (case map_of deg n of None \<Rightarrow> 0 | Some d \<Rightarrow> d)"

fun init_degrees :: "PluginRecord list \<Rightarrow> degrees \<Rightarrow> degrees" where
  "init_degrees [] deg = deg"
| "init_degrees (r # rs) deg =
     init_degrees rs (if map_of deg (pr_Name r) = None then AList.update (pr_Name r) 0 deg else deg)"

fun add_edges :: "string set \<Rightarrow> string \<Rightarrow> string list \<Rightarrow> adjacency \<times> degrees \<Rightarrow> adjacency \<times> degrees" where
  "add_edges known name [] gd = gd"
| "add_edges known name (dep # deps) (graph, deg) =
     add_edges known name deps
       (if dep \<notin> known then (graph, deg)
        else (graph(dep := graph dep @ [name]), AList.update name (deg_of deg name + 1) deg))"

fun build_graph :: "string set \<Rightarrow> PluginRecord list \<Rightarrow> adjacency \<times> degrees \<Rightarrow> adjacency \<times> degrees" where
  "build_graph known [] gd = gd"
| "build_graph known (r # rs) gd =
     build_graph known rs
       (case pr_Manifest r of Inl _ \<Rightarrow> gd | Inr m \<Rightarrow> add_edges known (pr_Name r) (mf_DependsOn m) gd)"

text \<open>The loop over the children of a node, and the loop over the queue.\<close>

fun relax :: "string list \<Rightarrow> string list \<Rightarrow> degrees \<Rightarrow> string list \<times> degrees" where
  "relax [] queue deg = (queue, deg)"
| "relax (child # cs) queue deg =
     (let d = deg_of deg child - 1
      in relax cs (if d = 0 then queue @ [child] else queue) (AList.update child d deg))"

definition open_nodes :: "degrees \<Rightarrow> nat" where
  "open_nodes deg = length (filter (\<lambda>(n, d). d > 0) deg)"

lemma open_nodes_update:
  "open_nodes (AList.update n (deg_of deg n - 1) deg) = open_nodes deg - (if deg_of deg n = 1 then 1 else 0) \<and>
   (deg_of deg n = 1 \<longrightarrow> 0 < open_nodes deg)"
  by (induction deg) (auto simp: open_nodes_def deg_of_def)

lemma relax_measure: "relax cs queue deg = (queue', deg') \<Longrightarrow> length queue' + open_nodes deg' = length queue + open_nodes deg"
proof (induction cs arbitrary: queue deg)
  case (Cons c cs)
  then show ?case using open_nodes_update [of c deg] by (auto simp: Let_def split: if_splits dest!: Cons.IH)
qed simp

function kahn :: "adjacency \<Rightarrow> string list \<Rightarrow> degrees \<Rightarrow> string list \<Rightarrow> string list \<times> degrees" where
  "kahn graph [] deg result = (result, deg)"
| "kahn graph (name # queue) deg result =
     (case relax (sortStrings (graph name)) queue deg of
        (queue', deg') \<Rightarrow> kahn graph queue' deg' (result @ [name]))"
  by pat_completeness auto

termination
  by (relation "measure (\<lambda>(graph, queue, deg, result). length queue + open_nodes deg)") (auto simp: relax_measure)

definition topologicalOrder :: "string list \<Rightarrow> PluginRecord list \<Rightarrow> string list result" where
  "topologicalOrder ord records =
     (let known = set (map pr_Name records);
          (graph, deg) = build_graph known records (\<lambda>_. [], init_degrees records []);
          queue = sortStrings (filter (\<lambda>n. deg_of deg n = 0) ord);
          (result, deg') = kahn graph queue deg []
      in if length result \<noteq> length deg' then Inl (Err ''plugin dependency cycle detected'') else Inr result)"

definition checkDependenciesInstalled :: "(string \<rightharpoonup> 'h) \<Rightarrow> string \<Rightarrow> string list \<Rightarrow> (string \<times> string) option" where
  "checkDependenciesInstalled plugins pluginName deps =
     map_option (\<lambda>dep. (pluginName, dep)) (List.find (\<lambda>dep. plugins dep = None) deps)"

section \<open>Sorting\<close>

interpretation string_order: exchange_order "\<lambda>a b :: string. b < a" "(\<le>)"
  by unfold_locales auto

lemma mset_sortStrings [simp]: "mset (sortStrings xs) = mset xs"
  by (simp add: sortStrings_def string_order.exchange_sort_correct)

lemma set_sortStrings [simp]: "set (sortStrings xs) = set xs"
  by (metis mset_sortStrings set_mset_mset)

lemma distinct_sortStrings [simp]: "distinct (sortStrings xs) = distinct xs"
  by (metis mset_sortStrings mset_eq_imp_distinct_iff)

lemma count_sortStrings [simp]: "count_list (sortStrings xs) x = count_list xs x"
  by (metis count_mset mset_sortStrings)

section \<open>The graph\<close>

text \<open>How often a record of a name names a known dependency, and the relation of the two.\<close>

definition manifest_deps :: "PluginRecord \<Rightarrow> string list" where
  "manifest_deps r = (case pr_Manifest r of Inl _ \<Rightarrow> [] | Inr m \<Rightarrow> mf_DependsOn m)"

definition dep_edges :: "string set \<Rightarrow> PluginRecord list \<Rightarrow> (string \<times> string) list" where
  "dep_edges known records =
     concat (map (\<lambda>r. map (\<lambda>dep. (dep, pr_Name r)) (filter (\<lambda>dep. dep \<in> known) (manifest_deps r))) records)"

definition depends :: "PluginRecord list \<Rightarrow> (string \<times> string) set" where
  "depends records = {(dep, pr_Name r) | dep r. r \<in> set records \<and> dep \<in> set (manifest_deps r) \<and> dep \<in> pr_Name ` set records}"

lemma dep_edges_set: "set (dep_edges (set (map pr_Name records)) records) = depends records"
  by (auto simp: dep_edges_def depends_def)

text \<open>The state after some edges: children in order, degrees as numbers of edges.\<close>

definition graph_of :: "(string \<times> string) list \<Rightarrow> adjacency" where
  "graph_of es a = map snd (filter (\<lambda>e. fst e = a) es)"

definition deg_ok :: "string set \<Rightarrow> (string \<Rightarrow> int) \<Rightarrow> degrees \<Rightarrow> bool" where
  "deg_ok names f deg \<longleftrightarrow> distinct (map fst deg) \<and> set (map fst deg) = names \<and> (\<forall>n \<in> names. deg_of deg n = f n)"

lemma deg_of_update: "deg_of (AList.update n d deg) m = (if m = n then d else deg_of deg m)"
  by (simp add: deg_of_def update_conv')

lemma deg_ok_update:
  "deg_ok names f deg \<Longrightarrow> n \<in> names \<Longrightarrow> deg_ok names (f(n := d)) (AList.update n d deg)"
  by (auto simp: deg_ok_def distinct_update deg_of_update dom_update)

lemma init_degrees_ok:
  "deg_ok names (\<lambda>_. 0) deg \<Longrightarrow> deg_ok (names \<union> pr_Name ` set rs) (\<lambda>_. 0) (init_degrees rs deg)"
proof (induction rs arbitrary: names deg)
  case (Cons r rs)
  have "deg_ok (insert (pr_Name r) names) (\<lambda>_. 0)
      (if map_of deg (pr_Name r) = None then AList.update (pr_Name r) 0 deg else deg)"
    using Cons.prems by (auto simp: deg_ok_def distinct_update deg_of_update dom_update map_of_eq_None_iff)
  from Cons.IH [OF this] show ?case by simp
qed simp

definition in_edges :: "(string \<times> string) list \<Rightarrow> string \<Rightarrow> int" where
  "in_edges es n = int (count_list (map snd es) n)"

lemma graph_of_snoc: "graph_of (es @ [(a, b)]) = (graph_of es)(a := graph_of es a @ [b])"
  by (auto simp: graph_of_def fun_eq_iff)

lemma in_edges_snoc: "in_edges (es @ [(a, b)]) = (in_edges es)(b := in_edges es b + 1)"
  by (auto simp: in_edges_def fun_eq_iff)

definition graph_state :: "string set \<Rightarrow> (string \<times> string) list \<Rightarrow> adjacency \<times> degrees \<Rightarrow> bool" where
  "graph_state names es gd \<longleftrightarrow> fst gd = graph_of es \<and> deg_ok names (in_edges es) (snd gd)"

lemma add_edges_state:
  "graph_state names es gd \<Longrightarrow> name \<in> names \<Longrightarrow>
   graph_state names (es @ map (\<lambda>dep. (dep, name)) (filter (\<lambda>dep. dep \<in> known) deps)) (add_edges known name deps gd)"
proof (induction deps arbitrary: es gd)
  case (Cons dep deps)
  obtain graph deg where gd: "gd = (graph, deg)" by fastforce
  show ?case
  proof (cases "dep \<in> known")
    case True
    have "deg_of deg name = in_edges es name" using Cons.prems gd by (auto simp: graph_state_def deg_ok_def)
    then have "graph_state names (es @ [(dep, name)]) (graph(dep := graph dep @ [name]), AList.update name (deg_of deg name + 1) deg)"
      using Cons.prems gd by (simp add: graph_state_def graph_of_snoc in_edges_snoc deg_ok_update)
    from Cons.IH [OF this Cons.prems(2)] True gd show ?thesis by simp
  next
    case False
    then show ?thesis using Cons gd by simp
  qed
qed simp

lemma build_graph_state:
  "graph_state names es gd \<Longrightarrow> pr_Name ` set rs \<subseteq> names \<Longrightarrow>
   graph_state names (es @ dep_edges known rs) (build_graph known rs gd)"
proof (induction rs arbitrary: es gd)
  case (Cons r rs)
  let ?gd = "case pr_Manifest r of Inl _ \<Rightarrow> gd | Inr m \<Rightarrow> add_edges known (pr_Name r) (mf_DependsOn m) gd"
  let ?es = "es @ map (\<lambda>dep. (dep, pr_Name r)) (filter (\<lambda>dep. dep \<in> known) (manifest_deps r))"
  have "graph_state names ?es ?gd"
    using Cons.prems add_edges_state [of names es gd "pr_Name r"] by (auto simp: manifest_deps_def split: sum.split)
  from Cons.IH [OF this] Cons.prems show ?case by (simp add: dep_edges_def)
qed (simp add: dep_edges_def)

lemma initial_state:
  "graph_state (pr_Name ` set records) (dep_edges (set (map pr_Name records)) records)
     (build_graph (set (map pr_Name records)) records (\<lambda>_. [], init_degrees records []))"
proof -
  have "deg_ok ({} \<union> pr_Name ` set records) (\<lambda>_. 0) (init_degrees records [])"
    by (rule init_degrees_ok) (simp add: deg_ok_def)
  then have "graph_state (pr_Name ` set records) [] (\<lambda>_. [], init_degrees records [])"
    by (simp add: graph_state_def graph_of_def [abs_def] in_edges_def [abs_def])
  from build_graph_state [OF this] show ?thesis by simp
qed

section \<open>The queue\<close>

lemma relax_deg: "relax cs queue deg = (queue', deg') \<Longrightarrow> deg_of deg' n = deg_of deg n - int (count_list cs n)"
proof (induction cs arbitrary: queue deg)
  case (Cons c cs)
  then show ?case by (auto simp: Let_def deg_of_update dest!: Cons.IH)
qed simp

lemma relax_keys:
  "relax cs queue deg = (queue', deg') \<Longrightarrow> set cs \<subseteq> fst ` set deg \<Longrightarrow> distinct (map fst deg) \<Longrightarrow>
   distinct (map fst deg') \<and> fst ` set deg' = fst ` set deg"
proof (induction cs arbitrary: queue deg)
  case (Cons c cs)
  have "fst ` set (AList.update c d deg) = fst ` set deg" for d
    using Cons.prems(2) dom_update [of c d deg] by auto
  with Cons.prems Cons.IH [of _ "AList.update c (deg_of deg c - 1) deg"] show ?case
    by (auto simp: Let_def distinct_update)
qed simp

lemma relax_queue:
  "relax cs queue deg = (queue', deg') \<Longrightarrow>
   \<exists>new. queue' = queue @ new \<and> distinct new \<and> set new = {n. 0 < deg_of deg n \<and> deg_of deg n \<le> int (count_list cs n)}"
proof (induction cs arbitrary: queue deg)
  case (Cons c cs)
  let ?d = "AList.update c (deg_of deg c - 1) deg"
  let ?q = "if deg_of deg c - 1 = 0 then queue @ [c] else queue"
  obtain new where new: "queue' = ?q @ new" "distinct new"
      "set new = {n. 0 < deg_of ?d n \<and> deg_of ?d n \<le> int (count_list cs n)}"
    using Cons.IH [of ?q ?d] Cons.prems by (auto simp: Let_def)
  have mem: "n \<in> set new \<longleftrightarrow> (if n = c then 1 < deg_of deg c \<and> deg_of deg c \<le> 1 + int (count_list cs c)
      else 0 < deg_of deg n \<and> deg_of deg n \<le> int (count_list cs n))" for n
    unfolding new(3) mem_Collect_eq deg_of_update by auto
  have "set (if deg_of deg c = 1 then c # new else new) = {n. 0 < deg_of deg n \<and> deg_of deg n \<le> int (count_list (c # cs) n)}"
  proof (rule set_eqI)
    fix n
    show "n \<in> set (if deg_of deg c = 1 then c # new else new) \<longleftrightarrow>
        n \<in> {n. 0 < deg_of deg n \<and> deg_of deg n \<le> int (count_list (c # cs) n)}"
      using mem [of n] by (cases "n = c"; cases "deg_of deg c = 1") auto
  qed
  moreover have "distinct (if deg_of deg c = 1 then c # new else new)" using new(2) mem [of c] by simp
  moreover have "queue' = queue @ (if deg_of deg c = 1 then c # new else new)" using new(1) by simp
  ultimately show ?case by blast
qed auto

text \<open>
  The invariant of the loop, for the edges \<open>es\<close>: the degree of a node is the number of edges from
  nodes that are not in the result, and the nodes of degree 0 are the result and the queue.
\<close>

definition waiting :: "(string \<times> string) list \<Rightarrow> string set \<Rightarrow> string \<Rightarrow> int" where
  "waiting es finished n = int (length (filter (\<lambda>e. snd e = n \<and> fst e \<notin> finished) es))"

definition kahn_inv :: "string set \<Rightarrow> (string \<times> string) list \<Rightarrow> string list \<Rightarrow> degrees \<Rightarrow> string list \<Rightarrow> bool" where
  "kahn_inv names es queue deg result \<longleftrightarrow>
     deg_ok names (waiting es (set result)) deg \<and> distinct (result @ queue) \<and>
     set (result @ queue) = {n \<in> names. deg_of deg n = 0} \<and>
     (\<forall>i < length result. \<forall>a. (a, result ! i) \<in> set es \<longrightarrow> a \<in> set (take i result))"

lemma waiting_insert:
  assumes "a \<notin> finished"
  shows "waiting es (insert a finished) n = waiting es finished n - int (count_list (graph_of es a) n)"
proof (induction es)
  case (Cons e es)
  then show ?case using assms by (cases e) (auto simp: waiting_def graph_of_def)
qed (simp add: waiting_def graph_of_def)

lemma waiting_zero: "waiting es finished n = 0 \<longleftrightarrow> (\<forall>a. (a, n) \<in> set es \<longrightarrow> a \<in> finished)"
  by (auto simp: waiting_def filter_empty_conv)

lemma waiting_nonneg: "0 \<le> waiting es finished n"
  by (simp add: waiting_def)

lemma kahn_inv_step:
  assumes inv: "kahn_inv names es (name # queue) deg result" and es: "set es \<subseteq> names \<times> names"
    and r: "relax (sortStrings (graph_of es name)) queue deg = (queue', deg')"
  shows "kahn_inv names es queue' deg' (result @ [name])"
proof -
  have d: "deg_ok names (waiting es (set result)) deg" "distinct (result @ name # queue)"
      "set (result @ name # queue) = {n \<in> names. deg_of deg n = 0}"
      "\<forall>i < length result. \<forall>a. (a, result ! i) \<in> set es \<longrightarrow> a \<in> set (take i result)"
    using inv by (auto simp: kahn_inv_def)
  have name: "name \<notin> set result" "name \<in> names" "deg_of deg name = 0" using d(2,3) by auto
  have children: "set (graph_of es name) \<subseteq> names" using es by (auto simp: graph_of_def)
  have deg': "deg_of deg' n = waiting es (insert name (set result)) n" if "n \<in> names" for n
    using relax_deg [OF r, of n] d(1) that by (simp add: deg_ok_def waiting_insert [OF name(1)])
  have keys: "distinct (map fst deg')" "fst ` set deg' = names"
    using relax_keys [OF r] d(1) children by (auto simp: deg_ok_def)
  obtain new where new: "queue' = queue @ new" "distinct new"
      "set new = {n. 0 < deg_of deg n \<and> deg_of deg n \<le> int (count_list (graph_of es name) n)}"
    using relax_queue [OF r] by auto
  have zero: "deg_of deg' n = 0 \<longleftrightarrow> deg_of deg n = 0 \<or> n \<in> set new" if n: "n \<in> names" for n
    using deg' [OF n] d(1) n waiting_insert [OF name(1), of es n] waiting_nonneg [of es "insert name (set result)" n] new(3)
    by (auto simp: deg_ok_def)
  have sub: "set new \<subseteq> names"
  proof
    fix n assume "n \<in> set new"
    then have "n \<in> set (graph_of es name)" using new(3) by (auto simp: count_list_0_iff intro: ccontr)
    then show "n \<in> names" using children by blast
  qed
  have pre: "a \<in> set (take i (result @ [name]))" if "i < length (result @ [name])" "(a, (result @ [name]) ! i) \<in> set es" for i a
  proof (cases "i = length result")
    case True
    have "waiting es (set result) name = 0" using d(1) name by (auto simp: deg_ok_def)
    then show ?thesis using that True by (auto simp: waiting_zero)
  next
    case False
    then show ?thesis using d(4) that by (auto simp: nth_append)
  qed
  have "set ((result @ [name]) @ queue') = {n \<in> names. deg_of deg' n = 0}"
    using d(3) zero sub name new(1) by auto
  moreover have "distinct ((result @ [name]) @ queue')" using d(2,3) new by auto
  ultimately show ?thesis unfolding kahn_inv_def deg_ok_def using keys deg' pre by (auto simp: insert_commute)
qed

lemma kahn_inv_final:
  assumes "set es \<subseteq> names \<times> names"
  shows "kahn_inv names es queue deg result \<Longrightarrow> kahn (graph_of es) queue deg result = (result', deg') \<Longrightarrow> kahn_inv names es [] deg' result'"
proof (induction "graph_of es" queue deg result rule: kahn.induct)
  case (2 name queue deg result)
  obtain q d where r: "relax (sortStrings (graph_of es name)) queue deg = (q, d)" by fastforce
  from kahn_inv_step [OF "2.prems"(1) assms r] "2.hyps" [OF r [symmetric]] "2.prems"(2) r show ?case by simp
qed simp

lemma position_of:
  "a \<in> set xs \<Longrightarrow> length (takeWhile (\<lambda>x. x \<noteq> a) xs) < length xs \<and> xs ! length (takeWhile (\<lambda>x. x \<noteq> a) xs) = a"
  by (induction xs) auto

text \<open>At the end: every node is in the result, or those that are not wait for each other.\<close>

lemma kahn_complete:
  assumes inv: "kahn_inv names es [] deg result" and es: "set es \<subseteq> names \<times> names"
  shows "if acyclic (set es) then set result = names else set result \<noteq> names"
proof (cases "set result = names")
  case True
  let ?pos = "\<lambda>a. length (takeWhile (\<lambda>x. x \<noteq> a) result)"
  have less: "?pos a < ?pos b" if ab: "(a, b) \<in> set es" for a b
  proof -
    have "b \<in> set result" using ab es True by blast
    then have b: "?pos b < length result" "result ! ?pos b = b"
      using position_of [of b result] by blast+
    then have "a \<in> set (take (?pos b) result)" using inv ab unfolding kahn_inv_def by metis
    then obtain i where i: "i < ?pos b" "result ! i = a" by (auto simp: in_set_conv_nth)
    have "?pos a \<le> i"
    proof (rule ccontr)
      assume "\<not> ?pos a \<le> i"
      then have "takeWhile (\<lambda>x. x \<noteq> a) result ! i = result ! i" "i < ?pos a" by (simp_all add: takeWhile_nth)
      then have "a \<in> set (takeWhile (\<lambda>x. x \<noteq> a) result)" using i(2) nth_mem [of i "takeWhile (\<lambda>x. x \<noteq> a) result"] by simp
      then show False by (auto dest: set_takeWhileD)
    qed
    then show ?thesis using i(1) by simp
  qed
  have "wf (set es)" by (rule wf_subset [OF wf_measure [of ?pos]]) (auto simp: less)
  then show ?thesis using True by (simp add: wf_acyclic)
next
  case False
  have "\<not> acyclic (set es)"
  proof
    assume "acyclic (set es)"
    then have wf: "wf (set es)" by (simp add: finite_acyclic_wf)
    let ?R = "names - set result"
    have "set result \<subseteq> names" using inv by (auto simp: kahn_inv_def)
    then obtain n0 where "n0 \<in> ?R" using False by blast
    then obtain n where n: "n \<in> ?R" "\<And>a. (a, n) \<in> set es \<Longrightarrow> a \<notin> ?R" using wf by (metis wfE_min)
    have "deg_of deg n = waiting es (set result) n" "deg_of deg n \<noteq> 0" using inv n(1) by (auto simp: kahn_inv_def deg_ok_def)
    then obtain a where "(a, n) \<in> set es" "a \<notin> set result" by (auto simp: waiting_zero)
    then show False using n(2) es by blast
  qed
  then show ?thesis using False by simp
qed

section \<open>Properties\<close>

text \<open>
  C25. The load order is right. Whatever the order in which Go visits its map, \<^verbatim>\<open>topologicalOrder\<close>
  reports a cycle exactly when the dependencies between the installed plug-ins have one, and
  otherwise returns every plug-in once, each after all the installed plug-ins it depends on.
\<close>

theorem topologicalOrder_correct:
  assumes "distinct ord" "set ord = pr_Name ` set records"
  shows "if acyclic (depends records)
    then \<exists>order. topologicalOrder ord records = Inr order \<and> distinct order \<and> set order = pr_Name ` set records \<and>
           (\<forall>i < length order. \<forall>dep. (dep, order ! i) \<in> depends records \<longrightarrow> dep \<in> set (take i order))
    else topologicalOrder ord records = Inl (Err ''plugin dependency cycle detected'')"
proof -
  let ?names = "pr_Name ` set records" and ?es = "dep_edges (set (map pr_Name records)) records"
  obtain graph deg where b: "build_graph (set (map pr_Name records)) records (\<lambda>_. [], init_degrees records []) = (graph, deg)"
    by fastforce
  let ?queue = "sortStrings (filter (\<lambda>n. deg_of deg n = 0) ord)"
  obtain result deg' where k: "kahn graph ?queue deg [] = (result, deg')" by fastforce
  have g: "graph = graph_of ?es" "deg_ok ?names (in_edges ?es) deg" using initial_state [of records] b by (auto simp: graph_state_def)
  have es: "set ?es \<subseteq> ?names \<times> ?names" unfolding dep_edges_set by (auto simp: depends_def)
  have "in_edges ?es = waiting ?es (set [])" by (simp add: in_edges_def waiting_def fun_eq_iff count_list_eq_length_filter filter_map o_def eq_commute)
  then have "kahn_inv ?names ?es ?queue deg []" using g(2) assms by (auto simp: kahn_inv_def)
  then have inv: "kahn_inv ?names ?es [] deg' result" using kahn_inv_final [OF es] k g(1) by blast
  have "length deg' = card ?names" "length result = card (set result)"
    using inv unfolding kahn_inv_def deg_ok_def by (metis distinct_card length_map) (metis append_Nil2 distinct_card inv kahn_inv_def)
  moreover have "set result \<subseteq> ?names" using inv by (auto simp: kahn_inv_def)
  ultimately have len: "length result = length deg' \<longleftrightarrow> set result = ?names" by (metis List.finite_set card_subset_eq finite_imageI)
  have t: "topologicalOrder ord records =
      (if length result \<noteq> length deg' then Inl (Err ''plugin dependency cycle detected'') else Inr result)"
    unfolding topologicalOrder_def Let_def b using k by simp
  show ?thesis
    using kahn_complete [OF inv es] inv len t unfolding dep_edges_set by (auto simp: kahn_inv_def dep_edges_set [symmetric] split: if_splits)
qed

text \<open>Two plug-ins, the first of which needs the second.\<close>

definition needing :: "string \<Rightarrow> string list \<Rightarrow> PluginRecord" where
  "needing name deps = \<lparr>pr_Name = name, pr_Version = ''1.0.0'', pr_OCIURL = '''', pr_SignatureB64 = '''', pr_KeyID = '''', pr_TrustTier = 0,
     pr_Manifest = Inr \<lparr>mf_ManifestVersion = ''1.0'', mf_APIVersion = ''^1.0.0'', mf_Name = name, mf_Version = ''1.0.0'', mf_Author = '''',
       mf_Description = '''', mf_TrustTierRequested = 0, mf_Capabilities = [], mf_Hooks = [], mf_Routes = [], mf_StateSchema = [],
       mf_Resources = None, mf_NetworkEgress = [], mf_DependsOn = deps, mf_EventSubscriptions = [], mf_TaskSchedules = [],
       mf_PipelineSteps = [], mf_Grants = [], mf_DeprecatedImports = []\<rparr>, pr_InstalledAt = '''', pr_WASMBytes = []\<rparr>"

theorem topologicalOrder_correct_witness:
  "\<exists>order. topologicalOrder [''app'', ''lib''] [needing ''app'' [''lib''], needing ''lib'' []] = Inr order \<and> set order = {''app'', ''lib''}"
proof -
  let ?rs = "[needing ''app'' [''lib''], needing ''lib'' []]"
  have d: "depends ?rs = {(''lib'', ''app'')}" unfolding dep_edges_set [symmetric] by (simp add: dep_edges_def manifest_deps_def needing_def)
  have "acyclic (depends ?rs)" unfolding d by (rule wf_acyclic) (rule wf_subset [OF wf_measure [of "\<lambda>x. if x = ''lib'' then 0 else 1"]], auto)
  then show ?thesis using topologicalOrder_correct [of "[''app'', ''lib'']" ?rs] by (auto simp: needing_def)
qed

end
