(* ===== verification/FTS_Tokenizer.thy ===== *)
theory FTS_Tokenizer
  imports Prelude
begin

text \<open>
  The tokenizer of the full-text index, \<^verbatim>\<open>internal/fts/tokenizer.go\<close>: words of letters and digits in
  lower case, without stop words, stemmed. A text is a byte string; ranging over it decodes UTF-8
  as Go does. The Unicode tables above ASCII are an argument.
\<close>

section \<open>Runes\<close>

record unicode =
  uc_IsLetter :: "nat \<Rightarrow> bool"
  uc_IsDigit :: "nat \<Rightarrow> bool"
  uc_ToLower :: "nat \<Rightarrow> nat"

definition RuneError :: nat where "RuneError = 0xFFFD"

definition in_span :: "nat \<Rightarrow> nat \<Rightarrow> nat \<Rightarrow> bool" where
  "in_span lo hi n \<longleftrightarrow> lo \<le> n \<and> n \<le> hi"

text \<open>The bytes the second byte of a sequence must lie between, given the first.\<close>

definition second_range :: "nat \<Rightarrow> nat \<times> nat" where
  "second_range a = (if a = 0xE0 then (0xA0, 0xBF) else if a = 0xED then (0x80, 0x9F)
     else if a = 0xF0 then (0x90, 0xBF) else if a = 0xF4 then (0x80, 0x8F) else (0x80, 0xBF))"

fun decode_rune :: "nat list \<Rightarrow> nat \<times> nat" where
  "decode_rune (a # b # c # d # _) =
     (if a < 0x80 then (a, 1)
      else if in_span 0xC2 0xDF a \<and> in_span 0x80 0xBF b then ((a - 0xC0) * 64 + (b - 0x80), 2)
      else if in_span 0xE0 0xEF a \<and> in_span (fst (second_range a)) (snd (second_range a)) b \<and> in_span 0x80 0xBF c
      then ((a - 0xE0) * 4096 + (b - 0x80) * 64 + (c - 0x80), 3)
      else if in_span 0xF0 0xF4 a \<and> in_span (fst (second_range a)) (snd (second_range a)) b \<and> in_span 0x80 0xBF c \<and> in_span 0x80 0xBF d
      then ((a - 0xF0) * 262144 + (b - 0x80) * 4096 + (c - 0x80) * 64 + (d - 0x80), 4)
      else (RuneError, 1))"
| "decode_rune [a, b, c] =
     (if a < 0x80 then (a, 1)
      else if in_span 0xC2 0xDF a \<and> in_span 0x80 0xBF b then ((a - 0xC0) * 64 + (b - 0x80), 2)
      else if in_span 0xE0 0xEF a \<and> in_span (fst (second_range a)) (snd (second_range a)) b \<and> in_span 0x80 0xBF c
      then ((a - 0xE0) * 4096 + (b - 0x80) * 64 + (c - 0x80), 3)
      else (RuneError, 1))"
| "decode_rune [a, b] =
     (if a < 0x80 then (a, 1)
      else if in_span 0xC2 0xDF a \<and> in_span 0x80 0xBF b then ((a - 0xC0) * 64 + (b - 0x80), 2)
      else (RuneError, 1))"
| "decode_rune [a] = (if a < 0x80 then (a, 1) else (RuneError, 1))"
| "decode_rune [] = (RuneError, 0)"

lemma decode_rune_width: "bs \<noteq> [] \<Longrightarrow> 1 \<le> snd (decode_rune bs)"
  by (cases bs rule: decode_rune.cases) auto

text \<open>\<^verbatim>\<open>for _, r := range text\<close>.\<close>

function runes_of :: "nat list \<Rightarrow> nat list" where
  "runes_of bs = (if bs = [] then [] else fst (decode_rune bs) # runes_of (drop (snd (decode_rune bs)) bs))"
  by auto
termination
proof (relation "Wellfounded.measure length", goal_cases)
  case (2 bs)
  then show ?case using decode_rune_width [of bs] by (cases bs) auto
qed simp

declare runes_of.simps [simp del]

definition runes :: "string \<Rightarrow> nat list" where
  "runes s = runes_of (map of_char s)"

text \<open>\<^verbatim>\<open>WriteRune\<close>.\<close>

definition encode_rune :: "nat \<Rightarrow> string" where
  "encode_rune r = map char_of
     (if r < 0x80 then [r]
      else if r < 0x800 then [0xC0 + r div 64, 0x80 + r mod 64]
      else let r = (if in_span 0xD800 0xDFFF r \<or> r > 0x10FFFF then RuneError else r)
           in if r < 0x10000 then [0xE0 + r div 4096, 0x80 + r div 64 mod 64, 0x80 + r mod 64]
              else [0xF0 + r div 262144, 0x80 + r div 4096 mod 64, 0x80 + r div 64 mod 64, 0x80 + r mod 64])"

definition IsLetter :: "unicode \<Rightarrow> nat \<Rightarrow> bool" where
  "IsLetter U r = (if r < 0x80 then in_span 65 90 r \<or> in_span 97 122 r else uc_IsLetter U r)"

definition IsDigit :: "unicode \<Rightarrow> nat \<Rightarrow> bool" where
  "IsDigit U r = (if r < 0x80 then in_span 48 57 r else uc_IsDigit U r)"

definition rune_lower :: "unicode \<Rightarrow> nat \<Rightarrow> nat" where
  "rune_lower U r = (if r < 0x80 then (if in_span 65 90 r then r + 32 else r) else uc_ToLower U r)"

lemma encode_rune_nonempty [simp]: "encode_rune r \<noteq> []"
  by (simp add: encode_rune_def Let_def)

section \<open>The stemmer\<close>

definition isVowel :: "char \<Rightarrow> bool" where
  "isVowel c \<longleftrightarrow> c = CHR ''a'' \<or> c = CHR ''e'' \<or> c = CHR ''i'' \<or> c = CHR ''o'' \<or> c = CHR ''u''"

definition containsVowel :: "string \<Rightarrow> bool" where
  "containsVowel w \<longleftrightarrow> list_ex isVowel w"

definition doubleConsonant :: "string \<Rightarrow> bool" where
  "doubleConsonant w =
     (if length w < 2 then False else w ! (length w - 1) = w ! (length w - 2) \<and> \<not> isVowel (w ! (length w - 1)))"

definition cvcPattern :: "string \<Rightarrow> bool" where
  "cvcPattern w =
     (if length w < 3 then False
      else let last = length w - 1
           in \<not> isVowel (w ! (last - 2)) \<and> isVowel (w ! (last - 1)) \<and> \<not> isVowel (w ! last) \<and>
              w ! last \<noteq> CHR ''w'' \<and> w ! last \<noteq> CHR ''x'' \<and> w ! last \<noteq> CHR ''y'')"

function count_vc :: "string \<Rightarrow> nat" where
  "count_vc w =
     (if w = [] then 0
      else let v = dropWhile isVowel w
           in if v = [] then 0 else count_vc (dropWhile (\<lambda>c. \<not> isVowel c) v) + 1)"
  by auto
termination
proof (relation "Wellfounded.measure length", goal_cases)
  case (2 w v)
  then have "\<not> isVowel (hd v)" using hd_dropWhile [of isVowel w] by simp
  then have "length (dropWhile (\<lambda>c. \<not> isVowel c) v) < length v"
    using 2(3) length_dropWhile_le [of "\<lambda>c. \<not> isVowel c" "tl v"] by (cases v) (auto simp: less_Suc_eq_le)
  then show ?case using 2(2) length_dropWhile_le [of isVowel w] by simp
qed simp

declare count_vc.simps [simp del]

definition measure_m :: "string \<Rightarrow> nat" where
  "measure_m w = (if w = [] then 0 else count_vc (dropWhile (\<lambda>c. \<not> isVowel c) w))"

text \<open>\<^verbatim>\<open>w[:len(w)-n]\<close>, always after a test for a suffix of at least \<open>n\<close> bytes.\<close>

definition chop :: "nat \<Rightarrow> string \<Rightarrow> string" where
  "chop n w = take (length w - n) w"

definition step1a :: "string \<Rightarrow> string" where
  "step1a w =
     (if HasSuffix w ''sses'' then chop 2 w
      else if HasSuffix w ''ies'' then chop 2 w
      else if HasSuffix w ''ss'' then w
      else if HasSuffix w ''s'' then chop 1 w
      else w)"

definition step1b :: "string \<Rightarrow> string \<times> bool" where
  "step1b w =
     (if HasSuffix w ''eed'' then (if measure_m (chop 3 w) > 0 then (chop 1 w, False) else (w, False))
      else if HasSuffix w ''ed'' then (if containsVowel (chop 2 w) then (chop 2 w, True) else (w, False))
      else if HasSuffix w ''ing'' then (if containsVowel (chop 3 w) then (chop 3 w, True) else (w, False))
      else (w, False))"

definition step1b_extra :: "string \<Rightarrow> string" where
  "step1b_extra w =
     (if HasSuffix w ''at'' \<or> HasSuffix w ''bl'' \<or> HasSuffix w ''iz'' then w @ ''e''
      else if doubleConsonant w \<and> \<not> HasSuffix w ''l'' \<and> \<not> HasSuffix w ''s'' \<and> \<not> HasSuffix w ''z'' then chop 1 w
      else if measure_m w = 1 \<and> cvcPattern w then w @ ''e''
      else w)"

definition step1c :: "string \<Rightarrow> string" where
  "step1c w = (if HasSuffix w ''y'' \<and> containsVowel (chop 1 w) then chop 1 w @ ''i'' else w)"

definition suffixes2 :: "(string \<times> string) list" where
  "suffixes2 = [(''ational'', ''ate''), (''tional'', ''tion''), (''enci'', ''ence''), (''anci'', ''ance''), (''izer'', ''ize''),
     (''abli'', ''able''), (''alli'', ''al''), (''entli'', ''ent''), (''eli'', ''e''), (''ousli'', ''ous''), (''ization'', ''ize''),
     (''ation'', ''ate''), (''ator'', ''ate''), (''alism'', ''al''), (''iveness'', ''ive''), (''fulness'', ''ful''),
     (''ousness'', ''ous''), (''aliti'', ''al''), (''iviti'', ''ive''), (''biliti'', ''ble'')]"

definition suffixes3 :: "(string \<times> string) list" where
  "suffixes3 = [(''icate'', ''ic''), (''ative'', ''''), (''alize'', ''al''), (''iciti'', ''ic''), (''ical'', ''ic''), (''ful'', ''''),
     (''ness'', '''')]"

text \<open>The loop over a table: the first suffix that fits decides, whether or not it is replaced.\<close>

fun replace_suffix :: "(string \<times> string) list \<Rightarrow> string \<Rightarrow> string" where
  "replace_suffix [] w = w"
| "replace_suffix ((s, r) # rest) w =
     (if HasSuffix w s
      then let stem = chop (length s) w in if measure_m stem > 0 then stem @ r else w
      else replace_suffix rest w)"

definition suffixes4 :: "string list" where
  "suffixes4 = [''al'', ''ance'', ''ence'', ''er'', ''ic'', ''able'', ''ible'', ''ant'', ''ement'', ''ment'', ''ent'', ''ion'', ''ou'',
     ''ism'', ''ate'', ''iti'', ''ous'', ''ive'', ''ize'']"

fun step4 :: "string list \<Rightarrow> string \<Rightarrow> string" where
  "step4 [] w = w"
| "step4 (s # rest) w =
     (if HasSuffix w s then
        let stem = chop (length s) w
        in if s = ''ion'' then
             (if length stem > 0 \<and> (stem ! (length stem - 1) = CHR ''s'' \<or> stem ! (length stem - 1) = CHR ''t'')
              then if measure_m stem > 1 then stem else w
              else w)
           else if measure_m stem > 1 then stem else w
      else step4 rest w)"

definition step5a :: "string \<Rightarrow> string" where
  "step5a w =
     (if HasSuffix w ''e'' then
        let stem = chop 1 w
        in if measure_m stem > 1 then stem else if measure_m stem = 1 \<and> \<not> cvcPattern stem then stem else w
      else w)"

definition step5b :: "string \<Rightarrow> string" where
  "step5b w = (if doubleConsonant w \<and> HasSuffix w ''ll'' \<and> measure_m w > 1 then chop 1 w else w)"

definition porterStem :: "string \<Rightarrow> string" where
  "porterStem word =
     (if length word \<le> 2 then word
      else let (w, extra) = step1b (step1a word);
               w = (if extra then step1b_extra w else w);
               w = step1c w;
               w = replace_suffix suffixes2 w;
               w = replace_suffix suffixes3 w;
               w = step4 suffixes4 w
           in step5b (step5a w))"

section \<open>Tokens\<close>

record Token =
  tk_Term :: string
  tk_Position :: int

definition stopWords :: "string list" where
  "stopWords = [''a'', ''an'', ''and'', ''are'', ''as'', ''at'', ''be'', ''by'', ''for'', ''from'', ''has'', ''he'', ''in'', ''is'', ''it'',
     ''its'', ''of'', ''on'', ''that'', ''the'', ''to'', ''was'', ''were'', ''will'', ''with'']"

definition indexed_word :: "string \<Rightarrow> bool" where
  "indexed_word word \<longleftrightarrow> word \<notin> set stopWords \<and> length word > 1"

fun tokenize_loop :: "unicode \<Rightarrow> nat list \<Rightarrow> string \<Rightarrow> int \<Rightarrow> Token list" where
  "tokenize_loop U [] buf pos =
     (if buf \<noteq> [] \<and> indexed_word buf then [\<lparr>tk_Term = porterStem buf, tk_Position = pos\<rparr>] else [])"
| "tokenize_loop U (r # rs) buf pos =
     (if IsLetter U r \<or> IsDigit U r then tokenize_loop U rs (buf @ encode_rune (rune_lower U r)) pos
      else if buf \<noteq> [] then
        (if indexed_word buf then \<lparr>tk_Term = porterStem buf, tk_Position = pos\<rparr> # tokenize_loop U rs '''' (pos + 1)
         else tokenize_loop U rs '''' pos)
      else tokenize_loop U rs buf pos)"

definition Tokenize :: "unicode \<Rightarrow> string \<Rightarrow> Token list" where
  "Tokenize U text = tokenize_loop U (runes text) '''' 0"


section \<open>The stem of a word\<close>

lemma length_chop [simp]: "length (chop n w) = length w - n"
  by (simp add: chop_def)

lemma HasSuffix_length: "HasSuffix w s \<Longrightarrow> length s \<le> length w"
  by (simp add: HasSuffix_def)

lemma measure_m_Nil [simp]: "measure_m [] = 0"
  by (simp add: measure_m_def)

lemma containsVowel_Nil [simp]: "\<not> containsVowel []"
  by (simp add: containsVowel_def)

text \<open>A step that neither lengthens a word nor loses it.\<close>

definition shortens :: "string \<Rightarrow> string \<Rightarrow> bool" where
  "shortens w w' \<longleftrightarrow> w' \<noteq> [] \<and> length w' \<le> length w"

lemma shortens_refl [simp]: "shortens w w \<longleftrightarrow> w \<noteq> []"
  by (simp add: shortens_def)

lemma shortens_trans: "shortens u v \<Longrightarrow> shortens v w \<Longrightarrow> shortens u w"
  by (simp add: shortens_def)

lemma shortens_source: "shortens v w \<Longrightarrow> v \<noteq> []"
  by (auto simp: shortens_def)

lemma shortens_chop: "n < length w \<Longrightarrow> shortens w (chop n w)"
  by (auto simp: shortens_def chop_def)

lemma shortens_stem: "chop n w \<noteq> [] \<Longrightarrow> shortens w (chop n w)"
  by (simp add: shortens_def)

lemma step1a_shortens: "2 < length w \<Longrightarrow> shortens w (step1a w)"
  using HasSuffix_length [of w "''sses''"] by (auto simp: step1a_def intro!: shortens_chop)

lemma step1b_shortens:
  assumes "w \<noteq> []" "step1b w = (w', extra)"
  shows "shortens w (if extra then step1b_extra w' else w')"
proof (cases extra)
  case False
  then have "w' = w \<or> (HasSuffix w ''eed'' \<and> w' = chop 1 w)" using assms by (auto simp: step1b_def split: if_splits)
  then show ?thesis using assms False HasSuffix_length [of w "''eed''"] by (auto intro!: shortens_chop)
next
  case True
  then have w': "w' \<noteq> []" "length w' + 2 \<le> length w"
    using assms HasSuffix_length [of w "''ed''"] HasSuffix_length [of w "''ing''"] by (auto simp: step1b_def split: if_splits)
  moreover have "doubleConsonant w' \<Longrightarrow> 2 \<le> length w'" by (simp add: doubleConsonant_def split: if_splits)
  ultimately show ?thesis using True by (auto simp: step1b_extra_def shortens_def chop_def)
qed

lemma step1c_shortens: "w \<noteq> [] \<Longrightarrow> shortens w (step1c w)"
  using HasSuffix_length [of w "''y''"] by (auto simp: step1c_def shortens_def)

lemma replace_suffix_shortens:
  "w \<noteq> [] \<Longrightarrow> (\<And>s r. (s, r) \<in> set table \<Longrightarrow> length r \<le> length s) \<Longrightarrow> shortens w (replace_suffix table w)"
proof (induction table w rule: replace_suffix.induct)
  case (2 s r rest w)
  show ?case
  proof (cases "HasSuffix w s")
    case True
    have "length r \<le> length s" using 2(3) by simp
    then show ?thesis using True 2(2) HasSuffix_length [OF True] by (cases "measure_m (chop (length s) w) = 0") (auto simp: Let_def shortens_def)
  next
    case False
    then show ?thesis using 2 by simp
  qed
qed simp

lemma step4_shortens: "w \<noteq> [] \<Longrightarrow> shortens w (step4 ss w)"
  by (induction ss w rule: step4.induct) (auto simp: Let_def intro!: shortens_stem)

lemma step5_shortens: "w \<noteq> [] \<Longrightarrow> shortens w (step5a w)" "w \<noteq> [] \<Longrightarrow> shortens w (step5b w)"
proof -
  show "w \<noteq> [] \<Longrightarrow> shortens w (step5a w)" by (auto simp: step5a_def Let_def intro!: shortens_stem)
  show "w \<noteq> [] \<Longrightarrow> shortens w (step5b w)"
    using HasSuffix_length [of w "''ll''"] by (auto simp: step5b_def intro!: shortens_chop)
qed

lemma porterStem_shortens:
  assumes "word \<noteq> []"
  shows "shortens word (porterStem word)"
proof (cases "length word \<le> 2")
  case True
  then show ?thesis using assms by (simp add: porterStem_def)
next
  case False
  obtain w1 extra where b: "step1b (step1a word) = (w1, extra)" by fastforce
  let ?w2 = "if extra then step1b_extra w1 else w1"
  have t: "length r \<le> length s" if "(s, r) \<in> set suffixes2 \<union> set suffixes3" for s r :: string
    using that by (auto simp: suffixes2_def suffixes3_def)
  have a: "shortens word (step1a word)" using False by (intro step1a_shortens) simp
  have c: "shortens word ?w2" using shortens_trans [OF a step1b_shortens [OF _ b]] a by (simp add: shortens_def)
  have step: "shortens word (f x)" if "shortens word x" "\<And>w. w \<noteq> [] \<Longrightarrow> shortens w (f w)" for f x
    using that(1) shortens_trans [OF that(1) that(2)] by (simp add: shortens_def)
  have "shortens word (step4 suffixes4 (replace_suffix suffixes3 (replace_suffix suffixes2 (step1c ?w2))))"
    by (intro step [where f = "step4 suffixes4"] step [where f = "replace_suffix suffixes3"] step [where f = "replace_suffix suffixes2"]
        step [where f = step1c] c step1c_shortens step4_shortens replace_suffix_shortens) (use t in auto)
  then have "shortens word (step5b (step5a (step4 suffixes4 (replace_suffix suffixes3 (replace_suffix suffixes2 (step1c ?w2))))))"
    by (intro step [where f = step5b] step [where f = step5a] step5_shortens)
  then show ?thesis using False b by (simp add: porterStem_def)
qed

section \<open>The measure\<close>

text \<open>How often a vowel is followed by a consonant.\<close>

fun vowel_consonant :: "string \<Rightarrow> nat" where
  "vowel_consonant (a # b # w) = (if isVowel a \<and> \<not> isVowel b then 1 else 0) + vowel_consonant (b # w)"
| "vowel_consonant _ = 0"

lemma vc_skip_consonants: "vowel_consonant (dropWhile (\<lambda>c. \<not> isVowel c) w) = vowel_consonant w"
  by (induction w rule: vowel_consonant.induct) auto

lemma vc_skip_vowels:
  "w \<noteq> [] \<Longrightarrow> isVowel (hd w) \<Longrightarrow> vowel_consonant w = (if dropWhile isVowel w = [] then 0 else vowel_consonant (dropWhile isVowel w) + 1)"
  by (induction w rule: vowel_consonant.induct) auto

lemma count_vc_counts: "w = [] \<or> isVowel (hd w) \<Longrightarrow> count_vc w = vowel_consonant w"
proof (induction w rule: count_vc.induct)
  case (1 w)
  let ?v = "dropWhile isVowel w" and ?u = "dropWhile (\<lambda>c. \<not> isVowel c) (dropWhile isVowel w)"
  have "?u = [] \<or> isVowel (hd ?u)" using hd_dropWhile [of "\<lambda>c. \<not> isVowel c" ?v] by auto
  then have "count_vc ?u = vowel_consonant ?v" if "w \<noteq> []" "?v \<noteq> []" using 1(1) [OF that(1) refl that(2)] vc_skip_consonants by simp
  then show ?case using 1(2) vc_skip_vowels [of w] by (subst count_vc.simps) (auto simp: Let_def)
qed

lemma measure_m_counts: "measure_m w = vowel_consonant w"
proof -
  let ?u = "dropWhile (\<lambda>c. \<not> isVowel c) w"
  have "?u = [] \<or> isVowel (hd ?u)" using hd_dropWhile [of "\<lambda>c. \<not> isVowel c" w] by auto
  then show ?thesis by (simp add: measure_m_def count_vc_counts vc_skip_consonants)
qed


section \<open>The words of a text\<close>

text \<open>The runs between the runes that do not satisfy \<open>P\<close>; some may be empty.\<close>

fun splits :: "('a \<Rightarrow> bool) \<Rightarrow> 'a list \<Rightarrow> 'a list list" where
  "splits P [] = [[]]"
| "splits P (r # rs) = (if P r then (r # hd (splits P rs)) # tl (splits P rs) else [] # splits P rs)"

definition word_rune :: "unicode \<Rightarrow> nat \<Rightarrow> bool" where
  "word_rune U r \<longleftrightarrow> IsLetter U r \<or> IsDigit U r"

definition lower_word :: "unicode \<Rightarrow> nat list \<Rightarrow> string" where
  "lower_word U rs = concat (map (\<lambda>r. encode_rune (rune_lower U r)) rs)"

text \<open>The words of a text that are indexed, and their numbering.\<close>

definition words :: "unicode \<Rightarrow> string \<Rightarrow> string list" where
  "words U text = filter indexed_word (map (lower_word U) (splits (word_rune U) (runes text)))"

fun number_from :: "int \<Rightarrow> string list \<Rightarrow> Token list" where
  "number_from n [] = []"
| "number_from n (w # ws) = \<lparr>tk_Term = porterStem w, tk_Position = n\<rparr> # number_from (n + 1) ws"

lemma splits_nonempty [simp]: "splits P rs \<noteq> []"
  by (cases rs) auto

lemma indexed_word_nonempty [simp]: "\<not> indexed_word []"
  by (simp add: indexed_word_def)

lemma lower_word_simps [simp]: "lower_word U [] = []" "lower_word U (r # rs) = encode_rune (rune_lower U r) @ lower_word U rs"
  by (simp_all add: lower_word_def)

lemma tokenize_loop_words:
  "tokenize_loop U rs buf pos = number_from pos (filter indexed_word
     ((buf @ lower_word U (hd (splits (word_rune U) rs))) # map (lower_word U) (tl (splits (word_rune U) rs))))"
proof (induction rs arbitrary: buf pos)
  case (Cons r rs)
  have tl: "map (lower_word U) (splits (word_rune U) rs) =
      lower_word U (hd (splits (word_rune U) rs)) # map (lower_word U) (tl (splits (word_rune U) rs))"
    by (metis list.collapse list.simps(9) splits_nonempty)
  show ?case
  proof (cases "IsLetter U r \<or> IsDigit U r")
    case True
    then show ?thesis using Cons [of "buf @ encode_rune (rune_lower U r)" pos] by (simp add: word_rune_def)
  next
    case False
    then have p: "\<not> word_rune U r" by (simp add: word_rune_def)
    have "tokenize_loop U rs [] q = number_from q (filter indexed_word (map (lower_word U) (splits (word_rune U) rs)))" for q
      unfolding tl using Cons [of "[]" q] by (simp only: append_Nil)
    then show ?thesis using False p by (cases "buf = []") simp_all
  qed
qed auto

lemma Tokenize_words: "Tokenize U text = number_from 0 (words U text)"
  unfolding Tokenize_def words_def tokenize_loop_words
  by (metis append_Nil list.collapse list.simps(9) splits_nonempty)

lemma number_from_nth: "number_from n ws = map (\<lambda>i. \<lparr>tk_Term = porterStem (ws ! i), tk_Position = n + int i\<rparr>) [0..<length ws]"
proof (induction ws arbitrary: n)
  case (Cons w ws)
  have "map f [0..<Suc (length ws)] = f 0 # map (\<lambda>i. f (Suc i)) [0..<length ws]" for f :: "nat \<Rightarrow> Token"
    by (simp add: upt_conv_Cons map_Suc_upt [symmetric] comp_def del: upt_Suc map_Suc_upt)
  then show ?case by (simp add: Cons ac_simps del: upt_Suc)
qed simp

lemma map_nth_map: "map (\<lambda>i. f (xs ! i)) [0..<length xs] = map f xs"
  by (rule nth_equalityI) simp_all

lemma length_number_from [simp]: "length (number_from n ws) = length ws"
  by (simp add: number_from_nth)

lemma token_nonempty: "t \<in> set (Tokenize U text) \<Longrightarrow> tk_Term t \<noteq> []"
proof -
  assume "t \<in> set (Tokenize U text)"
  then obtain i where i: "i < length (words U text)" "t = \<lparr>tk_Term = porterStem (words U text ! i), tk_Position = int i\<rparr>"
    by (auto simp: Tokenize_words number_from_nth)
  then have "words U text ! i \<in> set (words U text)" by simp
  then have "words U text ! i \<noteq> []" by (auto simp: words_def indexed_word_def)
  then show "tk_Term t \<noteq> []" using porterStem_shortens i(2) by (auto simp: shortens_def)
qed

section \<open>Letters of either case\<close>

lemma ascii_runes: "is_ascii s \<Longrightarrow> runes s = map of_char s"
proof -
  have d: "decode_rune (b # bs) = (b, 1)" if "b < 128" for b bs using that by (cases "b # bs" rule: decode_rune.cases) auto
  have "runes_of bs = bs" if "\<forall>b \<in> set bs. b < 128" for bs
    using that by (induction bs) (simp_all add: runes_of.simps d)
  then show "is_ascii s \<Longrightarrow> runes s = map of_char s" by (simp add: runes_def is_ascii_def)
qed

lemma of_lower_char: "of_char (lower_char c) = (if in_span 65 90 (of_char c) then of_char c + 32 else (of_char c :: nat))"
  by (auto simp: lower_char_def in_span_def)

lemma splits_map: "(\<And>r. r \<in> set rs \<Longrightarrow> P (f r) = P r) \<Longrightarrow> splits P (map f rs) = map (map f) (splits P rs)"
  by (induction rs) (auto simp: hd_map map_tl)

lemma splits_set: "r \<in> set run \<Longrightarrow> run \<in> set (splits P rs) \<Longrightarrow> r \<in> set rs"
proof (induction rs arbitrary: run)
  case (Cons a rs)
  show ?case
  proof (cases "P a")
    case True
    then consider "run = a # hd (splits P rs)" | "run \<in> set (tl (splits P rs))" using Cons.prems(2) by auto
    then show ?thesis
    proof cases
      case 1
      then show ?thesis using Cons.IH [of "hd (splits P rs)"] Cons.prems(1) by auto
    next
      case 2
      then show ?thesis using Cons.IH Cons.prems(1) by (metis list.set_intros(2) list.set_sel(2) splits_nonempty)
    qed
  next
    case False
    then show ?thesis using Cons by auto
  qed
qed simp

lemma Tokenize_ignores_case:
  assumes "is_ascii s"
  shows "Tokenize U (map lower_char s) = Tokenize U s"
proof -
  let ?f = "\<lambda>r. if in_span 65 90 r then r + 32 else r"
  have a: "is_ascii (map lower_char s)" using assms by (auto simp: is_ascii_def of_lower_char in_span_def)
  have m: "map of_char (map lower_char s) = map ?f (map of_char s)" by (simp add: of_lower_char)
  have w: "word_rune U (?f r) = word_rune U r \<and> rune_lower U (?f r) = rune_lower U r" if "r \<in> set (map of_char s)" for r
    using that assms by (auto simp: is_ascii_def word_rune_def IsLetter_def IsDigit_def rune_lower_def in_span_def)
  have "lower_word U (map ?f run) = lower_word U run" if "set run \<subseteq> set (map of_char s)" for run
    using that w by (induction run) auto
  then have "map (lower_word U) (map (map ?f) (splits (word_rune U) (map of_char s))) = map (lower_word U) (splits (word_rune U) (map of_char s))"
    unfolding map_map comp_def by (rule map_cong [OF refl]) (use splits_set [of _ _ "word_rune U" "map of_char s"] in blast)
  then have "map (lower_word U) (splits (word_rune U) (map ?f (map of_char s))) = map (lower_word U) (splits (word_rune U) (map of_char s))"
    using splits_map [of "map of_char s" "word_rune U" ?f] w by simp
  then show ?thesis
    unfolding Tokenize_words words_def ascii_runes [OF a] ascii_runes [OF assms] m by (simp only:)
qed

section \<open>Properties\<close>

definition no_unicode :: unicode where
  "no_unicode = \<lparr>uc_IsLetter = (\<lambda>_. False), uc_IsDigit = (\<lambda>_. False), uc_ToLower = id\<rparr>"

text \<open>
  The tokens of a text are the stems of its indexed words (maximal runs of letters and digits, in lower
  case, at least two bytes long, no stop words), in order, numbered from 0 without gaps, and no
  term is empty.
\<close>

theorem Tokenize_reference:
  "map tk_Term (Tokenize U text) = map porterStem (words U text) \<and>
   map tk_Position (Tokenize U text) = map int [0..<length (words U text)] \<and>
   [] \<notin> tk_Term ` set (Tokenize U text)"
proof -
  have "[] \<notin> tk_Term ` set (Tokenize U text)" using token_nonempty by force
  then show ?thesis by (simp add: Tokenize_words number_from_nth comp_def map_nth_map)
qed

text \<open>
  The stem of a word is not empty and not longer than the word, so the stemmer never loses a word.
\<close>

theorem porterStem_bounds:
  assumes "word \<noteq> []"
  shows "porterStem word \<noteq> [] \<and> length (porterStem word) \<le> length word"
  using porterStem_shortens [OF assms] by (simp add: shortens_def)

theorem porterStem_bounds_witness:
  "length (porterStem ''relational'') \<le> 10"
  using porterStem_bounds [of "''relational''"] by simp

end
