(* ===== verification/FTS_Segment.thy ===== *)
theory FTS_Segment
  imports FTS_Tokenizer Float64 "HOL-Library.AList"
begin

text \<open>
  The segments of the full-text index, \<^verbatim>\<open>internal/fts/segment.go\<close>: posting lists per term, their
  manager with one active segment, merging, and the compressed form of a posting list.

  A Go map is an association list with distinct keys. A pointer to a segment is its number, which
  is unique. Operations hold the manager's lock, so a run is a sequence of operations.
\<close>

section \<open>Segments\<close>

definition DefaultSegmentSize :: int where "DefaultSegmentSize = 1024"

record Posting =
  po_DocID :: "64 word"
  po_TermFreq :: int
  po_Positions :: "int list"

record Segment =
  sg_id :: int
  sg_postings :: "(string \<times> Posting list) list"
  sg_docLens :: "(64 word \<times> int) list"
  sg_docCount :: int
  sg_flushed :: bool
  sg_maxDocs :: int

definition NewSegment :: "int \<Rightarrow> int \<Rightarrow> Segment" where
  "NewSegment n maxDocs =
     \<lparr>sg_id = n, sg_postings = [], sg_docLens = [], sg_docCount = 0, sg_flushed = False, sg_maxDocs = maxDocs\<rparr>"

text \<open>Reading a map of slices or of numbers.\<close>

definition list_at :: "('k \<times> 'a list) list \<Rightarrow> 'k \<Rightarrow> 'a list" where
  "list_at m k = (case map_of m k of None \<Rightarrow> [] | Some xs \<Rightarrow> xs)"

definition int_at :: "('k \<times> int) list \<Rightarrow> 'k \<Rightarrow> int" where
  "int_at m k = (case map_of m k of None \<Rightarrow> 0 | Some n \<Rightarrow> n)"

fun term_positions :: "Token list \<Rightarrow> (string \<times> int list) list \<Rightarrow> (string \<times> int list) list" where
  "term_positions [] m = m"
| "term_positions (t # ts) m = term_positions ts (AList.update (tk_Term t) (list_at m (tk_Term t) @ [tk_Position t]) m)"

fun term_freq :: "Token list \<Rightarrow> (string \<times> int) list \<Rightarrow> (string \<times> int) list" where
  "term_freq [] m = m"
| "term_freq (t # ts) m = term_freq ts (AList.update (tk_Term t) (int_at m (tk_Term t) + 1) m)"

fun add_postings :: "64 word \<Rightarrow> (string \<times> int) list \<Rightarrow> (string \<times> int list) list \<Rightarrow> (string \<times> Posting list) list \<Rightarrow> (string \<times> Posting list) list" where
  "add_postings docID freq [] m = m"
| "add_postings docID freq ((t, positions) # rest) m =
     add_postings docID freq rest
       (AList.update t (list_at m t @ [\<lparr>po_DocID = docID, po_TermFreq = int_at freq t, po_Positions = positions\<rparr>]) m)"

definition Segment_AddDocument :: "Segment \<Rightarrow> 64 word \<Rightarrow> Token list \<Rightarrow> Segment \<times> bool" where
  "Segment_AddDocument s docID tokens =
     (let s' = s\<lparr>sg_postings := add_postings docID (term_freq tokens []) (term_positions tokens []) (sg_postings s),
                 sg_docLens := AList.update docID (int (length tokens)) (sg_docLens s),
                 sg_docCount := sg_docCount s + 1\<rparr>
      in (s', sg_docCount s' \<ge> sg_maxDocs s'))"

definition Segment_Search :: "Segment \<Rightarrow> string \<Rightarrow> Posting list" where
  "Segment_Search s t = list_at (sg_postings s) t"

definition Segment_DeleteDocument :: "Segment \<Rightarrow> 64 word \<Rightarrow> Segment" where
  "Segment_DeleteDocument s docID =
     s\<lparr>sg_docLens := AList.delete docID (sg_docLens s),
       sg_postings := filter (\<lambda>(t, ps). ps \<noteq> []) (map (\<lambda>(t, ps). (t, filter (\<lambda>p. po_DocID p \<noteq> docID) ps)) (sg_postings s)),
       sg_docCount := sg_docCount s - 1\<rparr>"

definition Segment_GetStats :: "Segment \<Rightarrow> int \<times> int \<times> rat" where
  "Segment_GetStats s =
     (let totalLen = sum_list (map snd (sg_docLens s))
      in (sg_docCount s, int (length (sg_postings s)),
          if sg_docCount s > 0 then fl (fl (of_int totalLen) / fl (of_int (sg_docCount s))) else 0))"

section \<open>The segment manager\<close>

record SegmentManager =
  sm_segments :: "Segment list"
  sm_mergeQueue :: "int list"
  sm_maxSegments :: int
  sm_nextSegID :: int
  sm_activeSeg :: int
  sm_segmentSize :: int

definition NewSegmentManager :: "int \<Rightarrow> int \<Rightarrow> SegmentManager" where
  "NewSegmentManager segmentSize maxSegments =
     (let size = (if segmentSize \<le> 0 then DefaultSegmentSize else segmentSize);
          max = (if maxSegments \<le> 0 then 10 else maxSegments)
      in \<lparr>sm_segments = [NewSegment 1 size], sm_mergeQueue = [], sm_maxSegments = max, sm_nextSegID = 1, sm_activeSeg = 1,
          sm_segmentSize = size\<rparr>)"

text \<open>An update through the pointer to the active segment.\<close>

definition on_active :: "(Segment \<Rightarrow> Segment) \<Rightarrow> SegmentManager \<Rightarrow> SegmentManager" where
  "on_active f sm = sm\<lparr>sm_segments := map (\<lambda>s. if sg_id s = sm_activeSeg sm then f s else s) (sm_segments sm)\<rparr>"

definition active_full :: "SegmentManager \<Rightarrow> 64 word \<Rightarrow> Token list \<Rightarrow> bool" where
  "active_full sm docID tokens = list_ex (\<lambda>s. sg_id s = sm_activeSeg sm \<and> snd (Segment_AddDocument s docID tokens)) (sm_segments sm)"

text \<open>The send on the channel of capacity 100, which gives up when the channel is full.\<close>

definition signal_merge :: "SegmentManager \<Rightarrow> SegmentManager" where
  "signal_merge sm =
     (if int (length (sm_segments sm)) \<ge> sm_maxSegments sm \<and> length (sm_mergeQueue sm) < 100
      then sm\<lparr>sm_mergeQueue := sm_mergeQueue sm @ [int (length (sm_segments sm))]\<rparr> else sm)"

definition SegmentManager_AddDocument :: "SegmentManager \<Rightarrow> 64 word \<Rightarrow> Token list \<Rightarrow> SegmentManager" where
  "SegmentManager_AddDocument sm docID tokens =
     (let full = active_full sm docID tokens;
          sm1 = on_active (\<lambda>s. fst (Segment_AddDocument s docID tokens)) sm
      in if full then
           let sm2 = on_active (\<lambda>s. s\<lparr>sg_flushed := True\<rparr>) sm1;
               newSeg = NewSegment (sm_nextSegID sm2 + 1) (sm_segmentSize sm2)
           in signal_merge (sm2\<lparr>sm_nextSegID := sm_nextSegID sm2 + 1, sm_activeSeg := sg_id newSeg,
                sm_segments := sm_segments sm2 @ [newSeg]\<rparr>)
         else sm1)"

definition SegmentManager_Search :: "SegmentManager \<Rightarrow> string \<Rightarrow> Posting list" where
  "SegmentManager_Search sm t = concat (map (\<lambda>s. Segment_Search s t) (sm_segments sm))"

definition SegmentManager_DeleteDocument :: "SegmentManager \<Rightarrow> 64 word \<Rightarrow> SegmentManager" where
  "SegmentManager_DeleteDocument sm docID =
     sm\<lparr>sm_segments := map (\<lambda>s. Segment_DeleteDocument s docID) (sm_segments sm)\<rparr>"

fun stats_loop :: "Segment list \<Rightarrow> int \<Rightarrow> rat \<Rightarrow> int \<times> rat" where
  "stats_loop [] totalDocs totalLen = (totalDocs, totalLen)"
| "stats_loop (s # ss) totalDocs totalLen =
     (case Segment_GetStats s of (dc, _, adl) \<Rightarrow> stats_loop ss (totalDocs + dc) (fl (totalLen + fl (adl * fl (of_int dc)))))"

definition SegmentManager_GetStats :: "SegmentManager \<Rightarrow> int \<times> rat" where
  "SegmentManager_GetStats sm =
     (case stats_loop (sm_segments sm) 0 0 of
        (totalDocs, totalLen) \<Rightarrow> (totalDocs, if totalDocs > 0 then fl (totalLen / fl (of_int totalDocs)) else 0))"

definition SegmentCount :: "SegmentManager \<Rightarrow> int" where
  "SegmentCount sm = int (length (sm_segments sm))"

fun merge_postings :: "(string \<times> Posting list) list \<Rightarrow> (string \<times> Posting list) list \<Rightarrow> (string \<times> Posting list) list" where
  "merge_postings [] m = m"
| "merge_postings ((t, plist) # rest) m = merge_postings rest (AList.update t (list_at m t @ plist) m)"

fun merge_docLens :: "(64 word \<times> int) list \<Rightarrow> (64 word \<times> int) list \<Rightarrow> (64 word \<times> int) list" where
  "merge_docLens [] m = m"
| "merge_docLens ((d, dl) # rest) m = merge_docLens rest (AList.update d dl m)"

fun merge_loop :: "Segment list \<Rightarrow> (string \<times> Posting list) list \<Rightarrow> (64 word \<times> int) list \<Rightarrow>
    (string \<times> Posting list) list \<times> (64 word \<times> int) list" where
  "merge_loop [] mp md = (mp, md)"
| "merge_loop (s # ss) mp md = merge_loop ss (merge_postings (sg_postings s) mp) (merge_docLens (sg_docLens s) md)"

definition MergeSegments :: "SegmentManager \<Rightarrow> SegmentManager" where
  "MergeSegments sm =
     (if length (sm_segments sm) \<le> 1 then sm
      else let toMerge = filter (\<lambda>s. sg_id s \<noteq> sm_activeSeg sm) (sm_segments sm);
               active = filter (\<lambda>s. sg_id s = sm_activeSeg sm) (sm_segments sm)
           in if length toMerge \<le> 1 then sm
              else let seg = NewSegment (sm_nextSegID sm + 1) (sm_segmentSize sm * int (length toMerge));
                       (mp, md) = merge_loop toMerge [] [];
                       merged = seg\<lparr>sg_postings := mp, sg_docLens := md, sg_docCount := int (length md), sg_flushed := True\<rparr>
                   in sm\<lparr>sm_nextSegID := sm_nextSegID sm + 1, sm_segments := merged # active\<rparr>)"

section \<open>Compressed posting lists\<close>

text \<open>\<^verbatim>\<open>binary.AppendUvarint\<close> and \<^verbatim>\<open>binary.Uvarint\<close>; \<^const>\<open>None\<close> where the latter returns \<open>n \<le> 0\<close>.\<close>

fun put_uvarint :: "nat \<Rightarrow> byte list" where
  "put_uvarint x = (if x < 128 then [of_nat x] else of_nat (x mod 128 + 128) # put_uvarint (x div 128))"

declare put_uvarint.simps [simp del]

fun uvarint_loop :: "nat \<Rightarrow> nat \<Rightarrow> byte list \<Rightarrow> (nat \<times> nat) option" where
  "uvarint_loop i x [] = None"
| "uvarint_loop i x (b # bs) =
     (if i = 10 then None
      else if unat b < 128 then (if i = 9 \<and> unat b > 1 then None else Some (x + unat b * 2 ^ (7 * i), i + 1))
      else uvarint_loop (i + 1) (x + (unat b mod 128) * 2 ^ (7 * i)) bs)"

definition Uvarint :: "byte list \<Rightarrow> (nat \<times> nat) option" where
  "Uvarint bs = uvarint_loop 0 0 bs"

definition uint64 :: "int \<Rightarrow> nat" where
  "uint64 n = nat (n mod 2 ^ 64)"

fun encode_positions :: "int \<Rightarrow> int list \<Rightarrow> byte list" where
  "encode_positions prev [] = []"
| "encode_positions prev (p # ps) = put_uvarint (uint64 (p - prev)) @ encode_positions p ps"

fun encode_loop :: "64 word \<Rightarrow> Posting list \<Rightarrow> byte list" where
  "encode_loop prev [] = []"
| "encode_loop prev (p # ps) =
     put_uvarint (unat (po_DocID p - prev)) @ put_uvarint (uint64 (po_TermFreq p)) @ put_uvarint (length (po_Positions p)) @
     encode_positions 0 (po_Positions p) @ encode_loop (po_DocID p) ps"

definition EncodePostings :: "Posting list \<Rightarrow> byte list" where
  "EncodePostings postings = (if postings = [] then [] else encode_loop 0 postings)"

text \<open>Positions after a broken one keep the zero of the fresh slice.\<close>

fun decode_positions :: "nat \<Rightarrow> int \<Rightarrow> byte list \<Rightarrow> int list \<times> byte list" where
  "decode_positions 0 prev data = ([], data)"
| "decode_positions (Suc n) prev data =
     (case Uvarint data of
        None \<Rightarrow> (replicate (Suc n) 0, data)
      | Some (delta, k) \<Rightarrow>
          let p = int64 (prev + int64 (int delta)) in
          (case decode_positions n p (drop k data) of (ps, rest) \<Rightarrow> (p # ps, rest)))"

lemma uvarint_loop_width: "uvarint_loop i x bs = Some (v, n) \<Longrightarrow> i < n \<and> n \<le> i + length bs"
  by (induction i x bs rule: uvarint_loop.induct) (auto split: if_splits)

lemma Uvarint_width: "Uvarint bs = Some (v, n) \<Longrightarrow> 0 < n \<and> n \<le> length bs"
  unfolding Uvarint_def using uvarint_loop_width by fastforce

lemma decode_positions_length: "decode_positions n prev data = (ps, rest) \<Longrightarrow> length rest \<le> length data"
  by (induction n prev data arbitrary: ps rest rule: decode_positions.induct)
     (auto simp: Let_def split: option.splits prod.splits, fastforce)

text \<open>\<^verbatim>\<open>make([]int, n)\<close> panics beyond a length \<open>L\<close> that the platform sets.\<close>

function decode_loop :: "nat \<Rightarrow> byte list \<Rightarrow> 64 word \<Rightarrow> Posting list result" where
  "decode_loop L data prev =
     (case Uvarint data of
        None \<Rightarrow> Inr []
      | Some (delta, n1) \<Rightarrow>
          (case Uvarint (drop n1 data) of
             None \<Rightarrow> Inr []
           | Some (tf, n2) \<Rightarrow>
               (case Uvarint (drop n2 (drop n1 data)) of
                  None \<Rightarrow> Inr []
                | Some (posCount, n3) \<Rightarrow>
                    if posCount > L then Inl (Panic ''makeslice: len out of range'')
                    else (case decode_positions posCount 0 (drop n3 (drop n2 (drop n1 data))) of
                            (positions, rest) \<Rightarrow>
                              (case decode_loop L rest (prev + of_nat delta) of
                                 Inl e \<Rightarrow> Inl e
                               | Inr ps \<Rightarrow> Inr (\<lparr>po_DocID = prev + of_nat delta, po_TermFreq = int64 (int tf), po_Positions = positions\<rparr> # ps))))))"
  by auto
termination
  by (relation "Wellfounded.measure (\<lambda>(L, data, prev). length data)")
     (auto dest!: Uvarint_width dest: decode_positions_length [OF sym])

declare decode_loop.simps [simp del]

definition DecodePostings :: "nat \<Rightarrow> byte list \<Rightarrow> Posting list result" where
  "DecodePostings L data = (if data = [] then Inr [] else decode_loop L data 0)"


section \<open>The compressed form\<close>

lemma uvarint_put:
  "i \<le> 9 \<Longrightarrow> x < 2 ^ (64 - 7 * i) \<Longrightarrow>
   uvarint_loop i acc (put_uvarint x @ rest) = Some (acc + x * 2 ^ (7 * i), i + length (put_uvarint x))"
proof (induction x arbitrary: i acc rule: put_uvarint.induct)
  case (1 x)
  show ?case
  proof (cases "x < 128")
    case True
    then have u: "unat (of_nat x :: byte) = x" by (simp add: unat_of_nat)
    have "i = 9 \<Longrightarrow> \<not> Suc 0 < x" using 1(3) by simp
    then show ?thesis using True 1(2) u by (simp add: put_uvarint.simps [of x])
  next
    case False
    have u: "unat (of_nat (x mod 128 + 128) :: byte) = x mod 128 + 128" unfolding unat_of_nat by (intro mod_less) simp
    have i: "i \<le> 8"
    proof (rule ccontr)
      assume "\<not> i \<le> 8"
      then have "i = 9" using 1(2) by simp
      then show False using 1(3) False by simp
    qed
    then have "64 - 7 * i = 7 + (64 - 7 * (i + 1))" by simp
    then have "x < 2 ^ 7 * 2 ^ (64 - 7 * (i + 1))" using 1(3) by (simp only: power_add)
    then have "x div 128 < 2 ^ (64 - 7 * (i + 1))" by (simp add: less_mult_imp_div_less mult.commute)
    then have "uvarint_loop (i + 1) (acc + x mod 128 * 2 ^ (7 * i)) (put_uvarint (x div 128) @ rest) =
        Some (acc + x mod 128 * 2 ^ (7 * i) + x div 128 * 2 ^ (7 * (i + 1)), i + 1 + length (put_uvarint (x div 128)))"
      using 1(1) [OF False] i by simp
    moreover have "acc + x mod 128 * 2 ^ (7 * i) + x div 128 * 2 ^ (7 * (i + 1)) = acc + x * 2 ^ (7 * i)"
    proof -
      have "x * 2 ^ (7 * i) = (x div 128 * 128 + x mod 128) * 2 ^ (7 * i)" by (simp only: div_mult_mod_eq)
      also have "\<dots> = x div 128 * (2 ^ (7 * i) * 128) + x mod 128 * 2 ^ (7 * i)" by (simp only: add_mult_distrib mult.assoc mult.commute [of 128])
      also have "(2 :: nat) ^ (7 * i) * 128 = 2 ^ (7 * (i + 1))" by (simp add: power_add)
      finally have "x * 2 ^ (7 * i) = x div 128 * 2 ^ (7 * (i + 1)) + x mod 128 * 2 ^ (7 * i)" .
      then show ?thesis by simp
    qed
    ultimately show ?thesis using False i u by (simp add: put_uvarint.simps [of x])
  qed
qed

lemma Uvarint_put [simp]: "x < 2 ^ 64 \<Longrightarrow> Uvarint (put_uvarint x @ rest) = Some (x, length (put_uvarint x))"
  using uvarint_put [of 0 x 0 rest] by (simp add: Uvarint_def)

lemma uint64_less [simp]: "uint64 n < 18446744073709551616"
  by (simp add: uint64_def nat_less_iff)

lemma int_uint64: "int (uint64 n) = n mod 2 ^ 64"
  by (simp add: uint64_def)

lemma int64_mod: "int64 (n mod 2 ^ 64) = int64 n"
proof -
  have "(word_of_int (n mod 2 ^ 64) :: 64 word) = word_of_int n" by (simp add: word_of_int_eq_iff take_bit_eq_mod)
  then show ?thesis by (simp only: int64_def)
qed

lemma int64_uint64 [simp]: "int64 (int (uint64 n)) = int64 n"
  by (simp only: int_uint64 int64_mod)

lemma int64_add_uint64 [simp]: "int64 (a + int (uint64 b)) = int64 (a + b)"
  by (metis int64_int64_add(2) int64_uint64)

definition is_int64 :: "int \<Rightarrow> bool" where
  "is_int64 n \<longleftrightarrow> - (2 ^ 63) \<le> n \<and> n < 2 ^ 63"

lemma int64_id: "is_int64 n \<Longrightarrow> int64 n = n"
  by (simp only: is_int64_def int64_small)

text \<open>A posting as Go's types have it, with a slice of positions that can be allocated.\<close>

definition posting_ok :: "nat \<Rightarrow> Posting \<Rightarrow> bool" where
  "posting_ok L p \<longleftrightarrow> is_int64 (po_TermFreq p) \<and> list_all is_int64 (po_Positions p) \<and> length (po_Positions p) \<le> L"

lemma decode_encode_positions:
  "list_all is_int64 ps \<Longrightarrow> decode_positions (length ps) prev (encode_positions prev ps @ rest) = (ps, rest)"
proof (induction ps arbitrary: prev)
  case (Cons p ps)
  have "int64 (prev + int64 (int (uint64 (p - prev)))) = p" using Cons.prems by (simp add: int64_id)
  then show ?case using Cons by (simp add: Let_def)
qed simp

lemma decode_encode_loop:
  "L < 2 ^ 63 \<Longrightarrow> list_all (posting_ok L) ps \<Longrightarrow> decode_loop L (encode_loop prev ps) prev = Inr ps"
proof (induction ps arbitrary: prev)
  case Nil
  then show ?case by (subst decode_loop.simps) (simp add: Uvarint_def)
next
  case (Cons p ps)
  have p: "is_int64 (po_TermFreq p)" "list_all is_int64 (po_Positions p)" "length (po_Positions p) \<le> L"
    using Cons.prems(2) by (simp_all add: posting_ok_def)
  have l: "length (po_Positions p) < 2 ^ 64" using p(3) Cons.prems(1) by simp
  have d: "unat (po_DocID p - prev) < 2 ^ 64" using unsigned_less [of "po_DocID p - prev"] by simp
  have IH: "decode_loop L (encode_loop (po_DocID p) ps) (po_DocID p) = Inr ps" using Cons by simp
  have w: "prev + of_nat (unat (po_DocID p - prev)) = po_DocID p" by simp
  show ?case
    using p(3) l d IH w by (subst decode_loop.simps) (simp add: decode_encode_positions [OF p(2)] int64_id [OF p(1)])
qed

lemma decode_encode_postings:
  assumes "L < 2 ^ 63" "list_all (posting_ok L) postings"
  shows "DecodePostings L (EncodePostings postings) = Inr postings"
  using decode_encode_loop [OF assms, of 0] by (cases "encode_loop 0 postings = []")
    (auto simp: DecodePostings_def EncodePostings_def decode_loop.simps [of L "[]"] Uvarint_def)

section \<open>Association lists\<close>

lemma list_at_update [simp]: "list_at (AList.update k v m) k' = (if k' = k then v else list_at m k')"
  by (simp add: list_at_def update_conv')

lemma int_at_update [simp]: "int_at (AList.update k v m) k' = (if k' = k then v else int_at m k')"
  by (simp add: int_at_def update_conv')

lemma list_at_Nil [simp]: "list_at [] k = []" and int_at_Nil [simp]: "int_at [] k = 0"
  by (simp_all add: list_at_def int_at_def)

lemma update_distinct [simp]: "distinct (map fst m) \<Longrightarrow> distinct (map fst (AList.update k v m))"
  by (rule distinct_update)


lemma list_at_Cons [simp]: "list_at ((k, v) # m) t = (if t = k then v else list_at m t)"
  by (simp add: list_at_def)

lemma list_at_none: "t \<notin> fst ` set m \<Longrightarrow> list_at m t = []"
  by (simp add: list_at_def map_of_eq_None_iff [THEN iffD2])

section \<open>What a segment holds\<close>

text \<open>The postings of one document, from its tokens.\<close>

definition posting_of :: "64 word \<Rightarrow> Token list \<Rightarrow> string \<Rightarrow> Posting" where
  "posting_of d toks t =
     \<lparr>po_DocID = d, po_TermFreq = int (length (filter (\<lambda>k. tk_Term k = t) toks)),
      po_Positions = map tk_Position (filter (\<lambda>k. tk_Term k = t) toks)\<rparr>"

definition doc_postings :: "64 word \<Rightarrow> Token list \<Rightarrow> string \<Rightarrow> Posting list" where
  "doc_postings d toks t = (if t \<in> tk_Term ` set toks then [posting_of d toks t] else [])"

lemma term_positions_at: "list_at (term_positions toks m) t = list_at m t @ map tk_Position (filter (\<lambda>k. tk_Term k = t) toks)"
  by (induction toks m rule: term_positions.induct) auto

lemma term_positions_keys:
  "fst ` set (term_positions toks m) = fst ` set m \<union> tk_Term ` set toks"
  "distinct (map fst m) \<Longrightarrow> distinct (map fst (term_positions toks m))"
  by (induction toks m rule: term_positions.induct) (auto simp: dom_update)

lemma term_freq_at: "int_at (term_freq toks m) t = int_at m t + int (length (filter (\<lambda>k. tk_Term k = t) toks))"
  by (induction toks m rule: term_freq.induct) auto

lemma add_postings_at:
  "distinct (map fst tp) \<Longrightarrow> list_at (add_postings d f tp m) t = list_at m t @
     (if t \<in> fst ` set tp then [\<lparr>po_DocID = d, po_TermFreq = int_at f t, po_Positions = list_at tp t\<rparr>] else [])"
proof (induction d f tp m rule: add_postings.induct)
  case (2 d f k ps rest m)
  then show ?case by (cases "t = k") auto
qed simp

lemma add_postings_distinct: "distinct (map fst m) \<Longrightarrow> distinct (map fst (add_postings d f tp m))"
  by (induction d f tp m rule: add_postings.induct) auto

definition seg_ok :: "Segment \<Rightarrow> bool" where
  "seg_ok s \<longleftrightarrow> distinct (map fst (sg_postings s)) \<and> distinct (map fst (sg_docLens s))"

lemma NewSegment_ok [simp]: "seg_ok (NewSegment n k)" "Segment_Search (NewSegment n k) t = []" "sg_id (NewSegment n k) = n"
  by (simp_all add: seg_ok_def NewSegment_def Segment_Search_def)

lemma seg_add:
  shows "Segment_Search (fst (Segment_AddDocument s d toks)) t = Segment_Search s t @ doc_postings d toks t"
    and "seg_ok s \<Longrightarrow> seg_ok (fst (Segment_AddDocument s d toks))" and "sg_id (fst (Segment_AddDocument s d toks)) = sg_id s"
proof -
  have "distinct (map fst (term_positions toks []))" by (rule term_positions_keys(2)) simp
  then show "Segment_Search (fst (Segment_AddDocument s d toks)) t = Segment_Search s t @ doc_postings d toks t"
    by (simp add: Segment_Search_def Segment_AddDocument_def Let_def add_postings_at term_positions_keys(1) term_positions_at term_freq_at
        doc_postings_def posting_of_def)
qed (simp_all add: seg_ok_def Segment_AddDocument_def Let_def add_postings_distinct)

lemma delete_at:
  "distinct (map fst m) \<Longrightarrow> list_at (filter (\<lambda>(t, ps). ps \<noteq> []) (map (\<lambda>(t, ps). (t, filter P ps)) m)) t = filter P (list_at m t)"
proof (induction m)
  case (Cons x m)
  obtain k ps where x: "x = (k, ps)" by fastforce
  let ?m' = "filter (\<lambda>(t, ps). ps \<noteq> []) (map (\<lambda>(t, ps). (t, filter P ps)) m)"
  have "fst ` set ?m' \<subseteq> fst ` set m" by force
  then have "k \<notin> fst ` set ?m'" using Cons.prems x by auto
  then have "list_at ?m' k = []" by (rule list_at_none)
  then show ?case using Cons x by (cases "t = k") auto
qed simp

lemma delete_distinct:
  "distinct (map fst m) \<Longrightarrow> distinct (map fst (filter (\<lambda>(t, ps). ps \<noteq> []) (map (\<lambda>(t, ps). (t, f ps)) m)))"
proof -
  have "map fst (map (\<lambda>(t, ps). (t, f ps)) m) = map fst m" by (induction m) auto
  then show "distinct (map fst m) \<Longrightarrow> ?thesis" using distinct_map_filter by metis
qed

lemma seg_delete:
  shows "seg_ok s \<Longrightarrow> Segment_Search (Segment_DeleteDocument s d) t = filter (\<lambda>p. po_DocID p \<noteq> d) (Segment_Search s t)"
    and "seg_ok s \<Longrightarrow> seg_ok (Segment_DeleteDocument s d)" and "sg_id (Segment_DeleteDocument s d) = sg_id s"
  by (simp_all add: Segment_DeleteDocument_def Segment_Search_def seg_ok_def delete_at delete_distinct distinct_delete)

lemma merge_postings_at:
  "distinct (map fst ps) \<Longrightarrow> list_at (merge_postings ps m) t = list_at m t @ list_at ps t"
proof (induction ps m rule: merge_postings.induct)
  case (2 k plist rest m)
  then show ?case by (cases "t = k") (auto simp: list_at_none)
qed simp

lemma merge_distinct:
  "distinct (map fst m) \<Longrightarrow> distinct (map fst (merge_postings ps m))"
  "distinct (map fst l) \<Longrightarrow> distinct (map fst (merge_docLens dl l))"
  by (induction ps m rule: merge_postings.induct, auto) (induction dl l rule: merge_docLens.induct, auto)

lemma merge_loop_at:
  "list_all seg_ok ss \<Longrightarrow> list_at (fst (merge_loop ss mp md)) t = list_at mp t @ concat (map (\<lambda>s. Segment_Search s t) ss)"
  by (induction ss mp md rule: merge_loop.induct) (auto simp: merge_postings_at seg_ok_def Segment_Search_def)

lemma merge_loop_distinct:
  "distinct (map fst mp) \<Longrightarrow> distinct (map fst md) \<Longrightarrow>
   distinct (map fst (fst (merge_loop ss mp md))) \<and> distinct (map fst (snd (merge_loop ss mp md)))"
  by (induction ss mp md rule: merge_loop.induct) (auto simp: merge_distinct)


section \<open>The manager\<close>

definition mgr_ok :: "SegmentManager \<Rightarrow> bool" where
  "mgr_ok sm \<longleftrightarrow> list_all seg_ok (sm_segments sm) \<and> distinct (map sg_id (sm_segments sm)) \<and> sm_segments sm \<noteq> [] \<and>
     sg_id (last (sm_segments sm)) = sm_activeSeg sm \<and> list_all (\<lambda>s. sg_id s \<le> sm_nextSegID sm) (sm_segments sm)"

lemma mgr_okE:
  assumes "mgr_ok sm"
  obtains ss s where "sm_segments sm = ss @ [s]" "list_all seg_ok ss" "seg_ok s" "sg_id s = sm_activeSeg sm"
    "sm_activeSeg sm \<notin> sg_id ` set ss" "distinct (map sg_id ss)" "list_all (\<lambda>s. sg_id s \<le> sm_nextSegID sm) (ss @ [s])"
proof (cases "sm_segments sm" rule: rev_cases)
  case (snoc ss s)
  then show thesis using assms that [of ss s] by (auto simp: mgr_ok_def)
qed (use assms in \<open>simp add: mgr_ok_def\<close>)

lemma on_active_segments:
  assumes "sm_segments sm = ss @ [s]" "sg_id s = sm_activeSeg sm" "sm_activeSeg sm \<notin> sg_id ` set ss"
  shows "sm_segments (on_active f sm) = ss @ [f s]"
  using assms by (force simp: on_active_def intro!: map_idI)

lemma on_active_sel [simp]:
  "sm_activeSeg (on_active f sm) = sm_activeSeg sm" "sm_nextSegID (on_active f sm) = sm_nextSegID sm"
  "sm_segmentSize (on_active f sm) = sm_segmentSize sm"
  by (simp_all add: on_active_def)

lemma signal_merge_sel [simp]:
  "sm_segments (signal_merge sm) = sm_segments sm" "sm_activeSeg (signal_merge sm) = sm_activeSeg sm"
  "sm_nextSegID (signal_merge sm) = sm_nextSegID sm"
  by (simp_all add: signal_merge_def)

lemma flushed_sel [simp]:
  "seg_ok (s\<lparr>sg_flushed := b\<rparr>) = seg_ok s" "Segment_Search (s\<lparr>sg_flushed := b\<rparr>) t = Segment_Search s t"
  by (simp_all add: seg_ok_def Segment_Search_def)

lemma mgr_New: "mgr_ok (NewSegmentManager n m)" "SegmentManager_Search (NewSegmentManager n m) t = []"
  by (simp_all add: mgr_ok_def NewSegmentManager_def SegmentManager_Search_def Let_def)

lemma mgr_add:
  assumes "mgr_ok sm"
  shows "mgr_ok (SegmentManager_AddDocument sm d toks) \<and>
    SegmentManager_Search (SegmentManager_AddDocument sm d toks) t = SegmentManager_Search sm t @ doc_postings d toks t"
proof -
  obtain ss s where sm: "sm_segments sm = ss @ [s]" "list_all seg_ok ss" "seg_ok s" "sg_id s = sm_activeSeg sm"
    "sm_activeSeg sm \<notin> sg_id ` set ss" "distinct (map sg_id ss)" "list_all (\<lambda>s. sg_id s \<le> sm_nextSegID sm) (ss @ [s])"
    using mgr_okE [OF assms] by blast
  let ?s1 = "fst (Segment_AddDocument s d toks)" and ?sm1 = "on_active (\<lambda>s. fst (Segment_AddDocument s d toks)) sm"
  have sm1: "sm_segments ?sm1 = ss @ [?s1]" by (rule on_active_segments [OF sm(1,4,5)])
  have sm2: "sm_segments (on_active (\<lambda>s. s\<lparr>sg_flushed := True\<rparr>) ?sm1) = ss @ [?s1\<lparr>sg_flushed := True\<rparr>]"
    by (rule on_active_segments [OF sm1]) (use sm(4,5) in \<open>simp_all add: seg_add(3)\<close>)
  note simps = mgr_ok_def SegmentManager_Search_def SegmentManager_AddDocument_def Let_def sm1 sm2 seg_add
  have "sm_nextSegID sm + 1 \<notin> sg_id ` set (ss @ [s])" using sm(7) by (force simp: list_all_iff)
  then show ?thesis using sm by (cases "active_full sm d toks") (auto simp: simps list_all_iff)
qed

lemma mgr_delete:
  assumes "mgr_ok sm"
  shows "mgr_ok (SegmentManager_DeleteDocument sm d) \<and>
    SegmentManager_Search (SegmentManager_DeleteDocument sm d) t = filter (\<lambda>p. po_DocID p \<noteq> d) (SegmentManager_Search sm t)"
proof -
  have "concat (map (\<lambda>s. Segment_Search (Segment_DeleteDocument s d) t) ss) =
      filter (\<lambda>p. po_DocID p \<noteq> d) (concat (map (\<lambda>s. Segment_Search s t) ss))" if "list_all seg_ok ss" for ss
    using that by (induction ss) (simp_all add: seg_delete)
  then show ?thesis
    using assms by (simp add: mgr_ok_def SegmentManager_DeleteDocument_def SegmentManager_Search_def list_all_iff seg_delete comp_def last_map)
qed

lemma mgr_merge:
  assumes "mgr_ok sm"
  shows "mgr_ok (MergeSegments sm) \<and> SegmentManager_Search (MergeSegments sm) t = SegmentManager_Search sm t"
proof -
  obtain ss s where sm: "sm_segments sm = ss @ [s]" "list_all seg_ok ss" "seg_ok s" "sg_id s = sm_activeSeg sm"
    "sm_activeSeg sm \<notin> sg_id ` set ss" "distinct (map sg_id ss)" "list_all (\<lambda>s. sg_id s \<le> sm_nextSegID sm) (ss @ [s])"
    using mgr_okE [OF assms] by blast
  have f: "filter (\<lambda>s. sg_id s \<noteq> sm_activeSeg sm) (sm_segments sm) = ss" "filter (\<lambda>s. sg_id s = sm_activeSeg sm) (sm_segments sm) = [s]"
    using sm(1,4,5) by (force intro!: filter_True filter_False)+
  show ?thesis
  proof (cases "length ss \<le> 1")
    case True
    then show ?thesis using assms by (simp add: MergeSegments_def Let_def f)
  next
    case False
    obtain mp md where m: "merge_loop ss [] [] = (mp, md)" by fastforce
    have mp: "list_at mp t = concat (map (\<lambda>s. Segment_Search s t) ss)" using merge_loop_at [OF sm(2), of "[]" "[]" t] m by simp
    have d: "distinct (map fst mp)" "distinct (map fst md)" using merge_loop_distinct [of "[]" "[]" ss] m by simp_all
    have "length (sm_segments sm) > 1" using False sm(1) by (cases ss) auto
    then have e: "MergeSegments sm = sm\<lparr>sm_nextSegID := sm_nextSegID sm + 1,
        sm_segments := [(NewSegment (sm_nextSegID sm + 1) (sm_segmentSize sm * int (length ss)))
          \<lparr>sg_postings := mp, sg_docLens := md, sg_docCount := int (length md), sg_flushed := True\<rparr>, s]\<rparr>"
      using False by (simp add: MergeSegments_def Let_def f m)
    show ?thesis
      unfolding e SegmentManager_Search_def mgr_ok_def using sm(1,3,4,7) mp d by (simp add: seg_ok_def Segment_Search_def NewSegment_def)
  qed
qed

section \<open>Runs\<close>

text \<open>
  A store of postings, with an operation that only reorganises it, and what it has to keep: a
  document adds its postings at the end, deleting it removes them. A single segment is one, and the manager is one.
\<close>

datatype index_op = AddOp "64 word" "Token list" | DeleteOp "64 word" | MergeOp

fun store_step :: "('s \<Rightarrow> 64 word \<Rightarrow> Token list \<Rightarrow> 's) \<Rightarrow> ('s \<Rightarrow> 64 word \<Rightarrow> 's) \<Rightarrow> ('s \<Rightarrow> 's) \<Rightarrow> index_op \<Rightarrow> 's \<Rightarrow> 's" where
  "store_step add del tidy (AddOp d toks) s = add s d toks"
| "store_step add del tidy (DeleteOp d) s = del s d"
| "store_step add del tidy MergeOp s = tidy s"

fun log_step :: "index_op \<Rightarrow> (64 word \<times> Token list) list \<Rightarrow> (64 word \<times> Token list) list" where
  "log_step (AddOp d toks) docs = docs @ [(d, toks)]"
| "log_step (DeleteOp d) docs = filter (\<lambda>(d', _). d' \<noteq> d) docs"
| "log_step MergeOp docs = docs"

definition spec_search :: "(64 word \<times> Token list) list \<Rightarrow> string \<Rightarrow> Posting list" where
  "spec_search docs t = concat (map (\<lambda>(d, toks). doc_postings d toks t) docs)"

lemma spec_search_delete: "spec_search (filter (\<lambda>(d', _). d' \<noteq> d) docs) t = filter (\<lambda>p. po_DocID p \<noteq> d) (spec_search docs t)"
  by (induction docs) (auto simp: spec_search_def doc_postings_def posting_of_def)

locale posting_store =
  fixes ok :: "'s \<Rightarrow> bool" and add :: "'s \<Rightarrow> 64 word \<Rightarrow> Token list \<Rightarrow> 's" and del :: "'s \<Rightarrow> 64 word \<Rightarrow> 's" and tidy :: "'s \<Rightarrow> 's"
    and search :: "'s \<Rightarrow> string \<Rightarrow> Posting list"
  assumes add: "ok s \<Longrightarrow> ok (add s d toks) \<and> search (add s d toks) t = search s t @ doc_postings d toks t"
    and del: "ok s \<Longrightarrow> ok (del s d) \<and> search (del s d) t = filter (\<lambda>p. po_DocID p \<noteq> d) (search s t)"
    and tidy: "ok s \<Longrightarrow> ok (tidy s) \<and> search (tidy s) t = search s t"
begin

lemma step_refines:
  assumes "ok s" "search s = spec_search docs"
  shows "ok (store_step add del tidy op s) \<and> search (store_step add del tidy op s) = spec_search (log_step op docs)"
proof (cases op)
  case (AddOp d toks)
  then show ?thesis using add [OF assms(1), of d toks] assms(2) by (auto simp: spec_search_def fun_eq_iff)
next
  case (DeleteOp d)
  then show ?thesis using del [OF assms(1), of d] assms(2) by (auto simp: spec_search_delete fun_eq_iff)
next
  case MergeOp
  then show ?thesis using tidy [OF assms(1)] assms(2) by (auto simp: fun_eq_iff)
qed

lemma run_refines:
  assumes "ok s" "search s = spec_search docs"
  shows "ok (fold (store_step add del tidy) ops s) \<and> search (fold (store_step add del tidy) ops s) = spec_search (fold log_step ops docs)"
  using assms by (induction ops arbitrary: s docs) (auto simp: step_refines)

end

interpretation one_segment: posting_store seg_ok "\<lambda>s d toks. fst (Segment_AddDocument s d toks)" Segment_DeleteDocument
  "\<lambda>s. s\<lparr>sg_flushed := True\<rparr>" Segment_Search
  by unfold_locales (simp_all add: seg_add seg_delete)

interpretation all_segments: posting_store mgr_ok SegmentManager_AddDocument SegmentManager_DeleteDocument MergeSegments
  SegmentManager_Search
  by unfold_locales (simp_all add: mgr_add mgr_delete mgr_merge)

abbreviation mgr_step :: "index_op \<Rightarrow> SegmentManager \<Rightarrow> SegmentManager" where
  "mgr_step \<equiv> store_step SegmentManager_AddDocument SegmentManager_DeleteDocument MergeSegments"

section \<open>Properties\<close>

text \<open>
  C32. Round trip: decoding an encoded posting list gives it back, for document numbers and positions in any
  order (the differences wrap around), provided that every slice of positions can be allocated.
\<close>

theorem postings_round_trip:
  assumes "L < 2 ^ 63" "list_all (posting_ok L) postings"
  shows "DecodePostings L (EncodePostings postings) = Inr postings"
  by (rule decode_encode_postings [OF assms])

theorem postings_round_trip_witness:
  "DecodePostings 1000 (EncodePostings [\<lparr>po_DocID = 300, po_TermFreq = 2, po_Positions = [5, 200]\<rparr>,
     \<lparr>po_DocID = 7, po_TermFreq = -1, po_Positions = [9, 3]\<rparr>]) =
   Inr [\<lparr>po_DocID = 300, po_TermFreq = 2, po_Positions = [5, 200]\<rparr>, \<lparr>po_DocID = 7, po_TermFreq = -1, po_Positions = [9, 3]\<rparr>]"
  by (rule postings_round_trip) (simp_all add: posting_ok_def is_int64_def)

text \<open>
  C9. Refinement of the index's segments: after any sequence of additions, deletions and merges, a search for
  a term returns exactly one posting for each addition of a document that contains the term, unless that document was
  deleted after it, with the frequency and positions in what was then added, in the order of the additions, however the
  documents are spread over segments. A document number that was added twice has two postings.
\<close>

theorem segments_refine_log:
  "SegmentManager_Search (fold mgr_step ops (NewSegmentManager segmentSize maxSegments)) t = spec_search (fold log_step ops []) t"
proof -
  have "SegmentManager_Search (NewSegmentManager segmentSize maxSegments) = spec_search []" by (simp add: mgr_New fun_eq_iff spec_search_def)
  then show ?thesis using all_segments.run_refines [OF mgr_New(1)] by simp
qed

lemma stats_loop_count: "fst (stats_loop ss n l) = n + sum_list (map sg_docCount ss)"
  by (induction ss n l rule: stats_loop.induct) (auto simp: Segment_GetStats_def Let_def)

lemma GetStats_count: "fst (SegmentManager_GetStats sm) = sum_list (map sg_docCount (sm_segments sm))"
  using stats_loop_count [of "sm_segments sm" 0 0] by (cases "stats_loop (sm_segments sm) 0 0") (simp add: SegmentManager_GetStats_def)

text \<open>
  Miscounted deletions: deleting a document, whether it is indexed or not, lowers the number of documents
  that the statistics report by the number of segments, because every segment counts it as one of
  its own. The scores are computed from this number.
\<close>

theorem DeleteDocument_miscounts:
  "fst (SegmentManager_GetStats (SegmentManager_DeleteDocument sm d)) = fst (SegmentManager_GetStats sm) - SegmentCount sm"
proof -
  have "sum_list (map sg_docCount (map (\<lambda>s. Segment_DeleteDocument s d) ss)) = sum_list (map sg_docCount ss) - int (length ss)" for ss
    by (induction ss) (auto simp: Segment_DeleteDocument_def)
  then show ?thesis by (simp add: GetStats_count SegmentManager_DeleteDocument_def SegmentCount_def)
qed


lemma log_from_ops: "set (fold log_step ops docs) \<subseteq> set docs \<union> {(d, toks). AddOp d toks \<in> set ops}"
proof (induction ops arbitrary: docs)
  case (Cons op ops)
  have "set (log_step op docs) \<subseteq> set docs \<union> {(d, toks). AddOp d toks = op}" by (cases op) auto
  then show ?case using Cons [of "log_step op docs"] by auto
qed simp

lemma number_from_sorted: "sorted_wrt (<) (map tk_Position (number_from n ws))"
  by (simp add: number_from_nth comp_def sorted_wrt_map)

lemma posting_of_tokens:
  assumes "length toks \<le> L" "L < 2 ^ 63" "toks = Tokenize U content" "t \<in> tk_Term ` set toks"
  shows "posting_ok L (posting_of d toks t) \<and> sorted_wrt (<) (po_Positions (posting_of d toks t)) \<and>
    po_TermFreq (posting_of d toks t) = int (length (po_Positions (posting_of d toks t))) \<and> 0 < po_TermFreq (posting_of d toks t)"
proof -
  let ?ps = "map tk_Position (filter (\<lambda>k. tk_Term k = t) toks)"
  have n: "toks = number_from 0 (words U content)" using assms(3) by (simp add: Tokenize_words)
  have "sorted_wrt (<) (map tk_Position toks)" unfolding n by (rule number_from_sorted)
  then have s: "sorted_wrt (<) ?ps" unfolding sorted_wrt_map by (rule sorted_wrt_filter)
  have l: "length ?ps \<le> L" using le_trans [OF length_filter_le assms(1)] by simp
  have "0 \<le> p \<and> p < int (length toks)" if "p \<in> tk_Position ` set toks" for p
    using that unfolding n by (auto simp: number_from_nth)
  then have "is_int64 p" if "p \<in> set ?ps" for p using that assms(1,2) by (fastforce simp: is_int64_def)
  then have "list_all is_int64 ?ps" by (simp add: list_all_iff)
  moreover have "filter (\<lambda>k. tk_Term k = t) toks \<noteq> []" using assms(4) by (auto simp: filter_empty_conv)
  ultimately show ?thesis using s l assms(2) by (auto simp: posting_of_def posting_ok_def is_int64_def)
qed

text \<open>
  C34. Well-formed postings: when every document was tokenized and has fewer than $2^{63}$ tokens, each
  posting a search returns has at least one position, its frequency is the number of its positions,
  the positions ascend and are \<^verbatim>\<open>int\<close> values; so the list survives its compressed form.
\<close>

theorem postings_well_formed:
  assumes docs: "\<And>d toks. AddOp d toks \<in> set ops \<Longrightarrow> \<exists>content. toks = Tokenize U content \<and> length toks \<le> L" and L: "L < 2 ^ 63"
    and sm: "sm = fold mgr_step ops (NewSegmentManager n m)"
  shows "list_all (\<lambda>p. posting_ok L p \<and> sorted_wrt (<) (po_Positions p) \<and> po_TermFreq p = int (length (po_Positions p)) \<and> 0 < po_TermFreq p)
      (SegmentManager_Search sm t) \<and>
    DecodePostings L (EncodePostings (SegmentManager_Search sm t)) = Inr (SegmentManager_Search sm t)"
proof -
  let ?P = "\<lambda>p. posting_ok L p \<and> sorted_wrt (<) (po_Positions p) \<and> po_TermFreq p = int (length (po_Positions p)) \<and> 0 < po_TermFreq p"
  have s: "SegmentManager_Search sm t = spec_search (fold log_step ops []) t"
    using all_segments.run_refines [OF mgr_New(1), of n m "[]" ops] mgr_New(2) by (simp add: sm fun_eq_iff spec_search_def)
  have "?P p" if p: "p \<in> set (spec_search (fold log_step ops []) t)" for p
  proof -
    obtain d toks where x: "(d, toks) \<in> set (fold log_step ops [])" "p = posting_of d toks t" "t \<in> tk_Term ` set toks"
      using p by (auto simp: spec_search_def doc_postings_def split: if_splits)
    then have "AddOp d toks \<in> set ops" using log_from_ops [of ops "[]"] by auto
    then obtain content where "toks = Tokenize U content" "length toks \<le> L" using docs by blast
    then show ?thesis unfolding x(2) using posting_of_tokens [of toks L U content t d] L x(3) by blast
  qed
  then have a: "list_all ?P (SegmentManager_Search sm t)" unfolding s list_all_iff by blast
  then have "list_all (posting_ok L) (SegmentManager_Search sm t)" by (simp add: list_all_iff)
  then show ?thesis using a decode_encode_postings [OF L] by simp
qed

theorem postings_well_formed_witness:
  "DecodePostings 100 (EncodePostings (SegmentManager_Search (fold mgr_step [AddOp 7 (Tokenize no_unicode ''x'')] (NewSegmentManager 2 2)) ''lake'')) =
   Inr (SegmentManager_Search (fold mgr_step [AddOp 7 (Tokenize no_unicode ''x'')] (NewSegmentManager 2 2)) ''lake'')"
proof -
  have "length (Tokenize no_unicode ''x'') \<le> 100"
    by (simp add: Tokenize_words words_def runes_def runes_of.simps word_rune_def IsLetter_def IsDigit_def in_span_def)
  then show ?thesis
    using postings_well_formed [of "[AddOp 7 (Tokenize no_unicode ''x'')]" no_unicode 100 _ 2 2 "''lake''"] by auto
qed

end
