(* ===== verification/FTS_Index.thy ===== *)
theory FTS_Index
  imports FTS_Segment Meta_Store "HOL-Library.Multiset"
begin

text \<open>
  The full-text index, \<^verbatim>\<open>internal/fts/index.go\<close>, with its scores (\<^verbatim>\<open>bm25.go\<close>) and compaction
  (\<^verbatim>\<open>compaction.go\<close>). The database is the argument \<open>B\<close> of \<open>Bolt\<close> with byte strings as values. The
  Unicode tables \<open>U\<close>, SHA-256 and the logarithm \<open>lg\<close> are arguments. A score is a \<^verbatim>\<open>float64\<close>, \<^const>\<open>None\<close> when it
  is not finite, which the operations on scores keep. The library's sort is the argument \<open>A\<close>; the comparison it
  is given is the code's.
\<close>

section \<open>Sorting a slice\<close>

text \<open>
  \<^verbatim>\<open>sort.Slice\<close> is an argument of the searches that call it; it takes the comparison as the code writes it. What the library
  promises of it: the elements stay the same, and when the comparison is a strict weak order on
  them none comes before one that is less. Nothing is said of the order of elements that compare equal, so the
  order in which a map was visited before plays no part.
\<close>

definition weak_order :: "('a \<Rightarrow> 'a \<Rightarrow> bool) \<Rightarrow> 'a set \<Rightarrow> bool" where
  "weak_order lt X \<longleftrightarrow> (\<forall>x \<in> X. \<not> lt x x) \<and> (\<forall>x \<in> X. \<forall>y \<in> X. \<forall>z \<in> X. lt x y \<longrightarrow> lt y z \<longrightarrow> lt x z) \<and>
     (\<forall>x \<in> X. \<forall>y \<in> X. \<forall>z \<in> X. lt x z \<longrightarrow> lt x y \<or> lt y z)"

definition slice_sort :: "(('a \<Rightarrow> 'a \<Rightarrow> bool) \<Rightarrow> 'a list \<Rightarrow> 'a list) \<Rightarrow> bool" where
  "slice_sort A \<longleftrightarrow> (\<forall>lt xs. mset (A lt xs) = mset xs \<and> (weak_order lt (set xs) \<longrightarrow> sorted_wrt (\<lambda>a b. \<not> lt b a) (A lt xs)))"

text \<open>A sort that does it, by insertion.\<close>

fun insert_less :: "('a \<Rightarrow> 'a \<Rightarrow> bool) \<Rightarrow> 'a \<Rightarrow> 'a list \<Rightarrow> 'a list" where
  "insert_less lt x [] = [x]"
| "insert_less lt x (y # ys) = (if lt y x then y # insert_less lt x ys else x # y # ys)"

fun sort_less :: "('a \<Rightarrow> 'a \<Rightarrow> bool) \<Rightarrow> 'a list \<Rightarrow> 'a list" where
  "sort_less lt [] = []"
| "sort_less lt (x # xs) = insert_less lt x (sort_less lt xs)"

lemma mset_insert_less [simp]: "mset (insert_less lt x xs) = add_mset x (mset xs)"
  by (induction xs) auto

lemma mset_sort_less [simp]: "mset (sort_less lt xs) = mset xs"
  by (induction xs) auto

lemma weak_order_subset: "weak_order lt X \<Longrightarrow> Y \<subseteq> X \<Longrightarrow> weak_order lt Y"
  unfolding weak_order_def by (meson subsetD)

lemma sorted_insert_less:
  assumes "weak_order lt (insert x (set xs))" "sorted_wrt (\<lambda>a b. \<not> lt b a) xs"
  shows "sorted_wrt (\<lambda>a b. \<not> lt b a) (insert_less lt x xs)"
  using assms
proof (induction xs)
  case (Cons y ys)
  have "weak_order lt (insert x (set ys))" by (rule weak_order_subset [OF Cons.prems(1)]) auto
  then have IH: "sorted_wrt (\<lambda>a b. \<not> lt b a) (insert_less lt x ys)" using Cons by simp
  have s: "set (insert_less lt x ys) = insert x (set ys)"
    using mset_insert_less [of lt x ys] by (metis set_mset_add_mset_insert set_mset_mset)
  show ?case
  proof (cases "lt y x")
    case True
    then have "\<not> lt x y" using Cons.prems(1) unfolding weak_order_def by (meson insertI1 list.set_intros(1) insertI2)
    with True IH Cons.prems(2) show ?thesis by (simp add: s)
  next
    case False
    have "\<not> lt z x" if "z \<in> set ys" for z
    proof
      assume "lt z x"
      moreover have "x \<in> insert x (set (y # ys))" "y \<in> insert x (set (y # ys))" "z \<in> insert x (set (y # ys))" using that by simp_all
      ultimately have "lt z y \<or> lt y x" using Cons.prems(1) unfolding weak_order_def by blast
      then show False using False Cons.prems(2) that by auto
    qed
    with False Cons.prems(2) show ?thesis by simp
  qed
qed simp

lemma slice_sort_less [simp]: "slice_sort sort_less"
proof -
  have "sorted_wrt (\<lambda>a b. \<not> lt b a) (sort_less lt xs)" if "weak_order lt (set xs)" for lt :: "'a \<Rightarrow> 'a \<Rightarrow> bool" and xs
    using that
  proof (induction xs)
    case (Cons x xs)
    have "set (sort_less lt xs) = set xs" by (metis mset_sort_less set_mset_mset)
    moreover have "weak_order lt (set xs)" by (rule weak_order_subset [OF Cons.prems]) auto
    ultimately show ?case using Cons by (simp add: sorted_insert_less)
  qed simp
  then show ?thesis by (simp add: slice_sort_def)
qed

section \<open>Scores\<close>

type_synonym score = "rat option"

record BM25Scorer =
  bm_K1 :: rat
  bm_B :: rat
  bm_AvgDL :: rat
  bm_DocCount :: int

definition NewBM25Scorer :: "rat \<Rightarrow> rat \<Rightarrow> BM25Scorer" where
  "NewBM25Scorer k1 b = \<lparr>bm_K1 = k1, bm_B = b, bm_AvgDL = 0, bm_DocCount = 0\<rparr>"

definition Score :: "(rat \<Rightarrow> score) \<Rightarrow> BM25Scorer \<Rightarrow> int \<Rightarrow> int \<Rightarrow> int \<Rightarrow> score" where
  "Score lg s tf df dl =
     (if bm_DocCount s = 0 \<or> df = 0 then Some 0
      else let half = 1 / 2;
               ratio = fl (fl (fl (fl (of_int (bm_DocCount s)) - fl (of_int df)) + half) / fl (fl (of_int df) + half));
               avgDL = (if bm_AvgDL s = 0 then 1 else bm_AvgDL s);
               tfFloat = fl (of_int tf);
               dlFloat = fl (of_int dl);
               numerator = fl (tfFloat * fl (bm_K1 s + 1));
               norm = fl (fl (1 - bm_B s) + fl (fl (bm_B s * dlFloat) / avgDL));
               denominator = fl (tfFloat + fl (bm_K1 s * norm))
           in (case lg (fl (ratio + 1)) of
                 None \<Rightarrow> None
               | Some idf \<Rightarrow> if denominator = 0 then None else Some (fl (fl (idf * numerator) / denominator))))"

definition UpdateStats :: "BM25Scorer \<Rightarrow> int \<Rightarrow> rat \<Rightarrow> BM25Scorer" where
  "UpdateStats s docCount avgDL = s\<lparr>bm_DocCount := docCount, bm_AvgDL := avgDL\<rparr>"

definition score_add :: "score \<Rightarrow> score \<Rightarrow> score" where
  "score_add a b = (case (a, b) of (Some x, Some y) \<Rightarrow> Some (fl (x + y)) | _ \<Rightarrow> None)"

text \<open>\<^verbatim>\<open>a > b\<close> of two scores; \<open>nf\<close> is what the comparison gives when one of them is not finite.\<close>

definition higher :: "(score \<Rightarrow> score \<Rightarrow> bool) \<Rightarrow> score \<Rightarrow> score \<Rightarrow> bool" where
  "higher nf a b = (case (a, b) of (Some x, Some y) \<Rightarrow> x > y | _ \<Rightarrow> nf a b)"

section \<open>The index\<close>

record SearchResult =
  sr_DocID :: "64 word"
  sr_Score :: score
  sr_Bucket :: string
  sr_Key :: string

record DocInfo =
  di_DocID :: "64 word"
  di_Bucket :: string
  di_Key :: string
  di_Version :: string
  di_Length :: int

record CompactionManager =
  cm_maxIndexSize :: int
  cm_running :: bool
  cm_indexSize :: int

record 'db InvertedIndex =
  ix_db :: 'db
  ix_dbPath :: string
  ix_segments :: SegmentManager
  ix_scorer :: BM25Scorer
  ix_docs :: "(64 word \<times> DocInfo) list"
  ix_termDF :: "(string \<times> int) list"
  ix_compaction :: "CompactionManager option"
  ix_closed :: bool
  ix_maxDocs :: int
  ix_evictList :: "64 word list"

text \<open>Numbers in big-endian order; \<open>read_be v i n\<close> reads \<open>n\<close> bytes at \<open>i\<close>.\<close>

fun put_be :: "nat \<Rightarrow> nat \<Rightarrow> string" where
  "put_be 0 x = []"
| "put_be (Suc n) x = put_be n (x div 256) @ [char_of (x mod 256)]"

definition get_be :: "string \<Rightarrow> nat" where
  "get_be s = foldl (\<lambda>x c. x * 256 + of_char c) 0 s"

definition read_be :: "string \<Rightarrow> nat \<Rightarrow> nat \<Rightarrow> nat" where
  "read_be v i n = get_be (take n (drop i v))"

definition slice :: "string \<Rightarrow> nat \<Rightarrow> nat \<Rightarrow> string" where
  "slice v i j = take (j - i) (drop i v)"

text \<open>A stored document: an entry that is too short somewhere is skipped.\<close>

definition decode_info :: "64 word \<Rightarrow> string \<Rightarrow> DocInfo option" where
  "decode_info docID v =
     (if length v < 14 then None
      else let bucketLen = read_be v 0 2
      in if length v < 2 + bucketLen then None
      else let bucket = slice v 2 (2 + bucketLen); keyStart = 2 + bucketLen
      in if length v < keyStart + 2 then None
      else let keyLen = read_be v keyStart 2
      in if length v < keyStart + 2 + keyLen then None
      else let key = slice v (keyStart + 2) (keyStart + 2 + keyLen); verStart = keyStart + 2 + keyLen
      in if length v < verStart + 2 then None
      else let verLen = read_be v verStart 2
      in if length v < verStart + 2 + verLen + 4 then None
      else Some \<lparr>di_DocID = docID, di_Bucket = bucket, di_Key = key, di_Version = slice v (verStart + 2) (verStart + 2 + verLen),
                 di_Length = int (read_be v (verStart + 2 + verLen) 4)\<rparr>)"

fun load_loop :: "(string \<times> string) list \<Rightarrow> (64 word \<times> DocInfo) list \<Rightarrow> (64 word \<times> DocInfo) list result" where
  "load_loop [] docs = Inr docs"
| "load_loop ((k, v) # rest) docs =
     (if length v < 14 then load_loop rest docs
      else if length k < 8 then Inl slice_panic
      else let docID = of_nat (get_be (take 8 k))
           in (case decode_info docID v of
                 None \<Rightarrow> load_loop rest docs
               | Some info \<Rightarrow> load_loop rest (AList.update docID info docs)))"

definition loadDocsFromDB :: "('db, 'tx, string) bolt_db \<Rightarrow> 'db InvertedIndex \<Rightarrow> 'db InvertedIndex result" where
  "loadDocsFromDB B idx =
     (case bolt_View B (ix_db idx) (\<lambda>tx. load_loop (btx_Entries B tx ''fts_docs'') (ix_docs idx)) of
        Inr docs \<Rightarrow> Inr (idx\<lparr>ix_docs := docs\<rparr>)
      | Inl (Err e) \<Rightarrow> Inr idx
      | Inl (Panic e) \<Rightarrow> Inl (Panic e))"

definition NewInvertedIndex ::
    "('db, 'tx, string) bolt_db \<Rightarrow> string option \<Rightarrow> string + 'db \<Rightarrow> string \<Rightarrow> 'db InvertedIndex result" where
  "NewInvertedIndex B mkdir opened dbPath =
     (case mkdir of
        Some e \<Rightarrow> Inl (Err (''failed to create FTS directory: '' @ e))
      | None \<Rightarrow>
          (case opened of
             Inl e \<Rightarrow> Inl (Err (''failed to open FTS bolt db: '' @ e))
           | Inr db \<Rightarrow>
               (case bolt_Update B db () (\<lambda>u tx. (u, create_buckets B [''fts_terms'', ''fts_docs'', ''fts_stats''] tx)) of
                  (_, _, Inl e) \<Rightarrow> Inl (wrap_err ''failed to initialize FTS buckets'' e)
                | (db', _, Inr _) \<Rightarrow>
                    (case loadDocsFromDB B \<lparr>ix_db = db', ix_dbPath = dbPath, ix_segments = NewSegmentManager DefaultSegmentSize 10,
                         ix_scorer = NewBM25Scorer (fl (12 / 10)) (fl (75 / 100)), ix_docs = [], ix_termDF = [], ix_compaction = None,
                         ix_closed = False, ix_maxDocs = 100000, ix_evictList = []\<rparr> of
                       Inl e \<Rightarrow> Inl e
                     | Inr idx \<Rightarrow> Inr (idx\<lparr>ix_compaction :=
                         Some \<lparr>cm_maxIndexSize = 10 * 1024 * 1024 * 1024, cm_running = True, cm_indexSize = 0\<rparr>\<rparr>)))))"

definition refresh_stats :: "'db InvertedIndex \<Rightarrow> 'db InvertedIndex" where
  "refresh_stats idx =
     (case SegmentManager_GetStats (ix_segments idx) of (docCount, avgDL) \<Rightarrow> idx\<lparr>ix_scorer := UpdateStats (ix_scorer idx) docCount avgDL\<rparr>)"

fun evict_loop :: "64 word list \<Rightarrow> 'db InvertedIndex \<Rightarrow> 'db InvertedIndex" where
  "evict_loop [] idx = idx\<lparr>ix_evictList := []\<rparr>"
| "evict_loop (evictID # rest) idx =
     (if int (length (ix_docs idx)) > ix_maxDocs idx then
        evict_loop rest
          (if map_of (ix_docs idx) evictID \<noteq> None
           then refresh_stats (idx\<lparr>ix_segments := SegmentManager_DeleteDocument (ix_segments idx) evictID,
                  ix_docs := AList.delete evictID (ix_docs idx)\<rparr>)
           else idx)
      else idx\<lparr>ix_evictList := evictID # rest\<rparr>)"

definition evictExcessDocs :: "'db InvertedIndex \<Rightarrow> 'db InvertedIndex" where
  "evictExcessDocs idx = evict_loop (ix_evictList idx) idx"

definition SetMaxDocs :: "'db InvertedIndex \<Rightarrow> int \<Rightarrow> 'db InvertedIndex" where
  "SetMaxDocs idx n = evictExcessDocs (idx\<lparr>ix_maxDocs := n\<rparr>)"

definition ComputeDocID :: "(string \<Rightarrow> string) \<Rightarrow> string \<Rightarrow> string \<Rightarrow> string \<Rightarrow> 64 word" where
  "ComputeDocID sha256 bucket key versionID = of_nat (get_be (take 8 (sha256 (bucket @ ''#'' @ key @ ''#'' @ versionID))))"

definition IsQuotaExceeded :: "CompactionManager \<Rightarrow> bool" where
  "IsQuotaExceeded cm = (if cm_maxIndexSize cm \<le> 0 then False else cm_indexSize cm > cm_maxIndexSize cm)"

definition quota_exceeded :: "'db InvertedIndex \<Rightarrow> bool" where
  "quota_exceeded idx = (case ix_compaction idx of None \<Rightarrow> False | Some cm \<Rightarrow> IsQuotaExceeded cm)"

text \<open>A term counts once for a document.\<close>

fun count_terms :: "Token list \<Rightarrow> string list \<Rightarrow> (string \<times> int) list \<Rightarrow> (string \<times> int) list" where
  "count_terms [] seen df = df"
| "count_terms (t # ts) seen df =
     (if tk_Term t \<in> set seen then count_terms ts seen df
      else count_terms ts (tk_Term t # seen) (AList.update (tk_Term t) (int_at df (tk_Term t) + 1) df))"

definition index_tokens :: "'db InvertedIndex \<Rightarrow> 64 word \<Rightarrow> Token list \<Rightarrow> 'db InvertedIndex" where
  "index_tokens idx docID tokens =
     refresh_stats (idx\<lparr>ix_segments := SegmentManager_AddDocument (ix_segments idx) docID tokens,
       ix_termDF := count_terms tokens [] (ix_termDF idx)\<rparr>)"

definition Index_AddDocument :: "'db InvertedIndex \<Rightarrow> 64 word \<Rightarrow> Token list \<Rightarrow> 'db InvertedIndex \<times> unit result" where
  "Index_AddDocument idx docID tokens =
     (if ix_closed idx then (idx, Inl (Err ''index is closed''))
      else if quota_exceeded idx then (idx, Inl (Err ''FTS index disk quota exceeded''))
      else (index_tokens idx docID tokens, Inr ()))"

definition info_key :: "64 word \<Rightarrow> string" where
  "info_key docID = put_be 8 (unat docID)"

definition info_value :: "string \<Rightarrow> string \<Rightarrow> string \<Rightarrow> nat \<Rightarrow> string" where
  "info_value bucket key versionID docLen =
     put_be 2 (length bucket) @ bucket @ put_be 2 (length key) @ key @ put_be 2 (length versionID) @ versionID @ put_be 4 docLen"

definition persistDocInfo ::
    "('db, 'tx, string) bolt_db \<Rightarrow> 'db InvertedIndex \<Rightarrow> 64 word \<Rightarrow> string \<Rightarrow> string \<Rightarrow> string \<Rightarrow> nat \<Rightarrow> 'db InvertedIndex \<times> unit result" where
  "persistDocInfo B idx docID bucket key versionID docLen =
     (case bolt_Update B (ix_db idx) () (\<lambda>u tx. (u, tx_put B ''fts_docs'' (info_key docID) (info_value bucket key versionID docLen) tx)) of
        (db', _, r) \<Rightarrow> (idx\<lparr>ix_db := db'\<rparr>, r))"

definition AddDocumentWithInfo ::
    "('db, 'tx, string) bolt_db \<Rightarrow> unicode \<Rightarrow> (string \<Rightarrow> string) \<Rightarrow> 'db InvertedIndex \<Rightarrow> string \<Rightarrow> string \<Rightarrow> string \<Rightarrow> string \<Rightarrow>
     'db InvertedIndex \<times> unit result" where
  "AddDocumentWithInfo B U sha256 idx bucket key versionID content =
     (let docID = ComputeDocID sha256 bucket key versionID; tokens = Tokenize U content
      in if ix_closed idx then (idx, Inl (Err ''index is closed''))
         else if quota_exceeded idx then (idx, Inl (Err ''FTS index disk quota exceeded''))
         else let idx1 = idx\<lparr>ix_docs := AList.update docID \<lparr>di_DocID = docID, di_Bucket = bucket, di_Key = key, di_Version = versionID,
                               di_Length = int (length tokens)\<rparr> (ix_docs idx),
                             ix_evictList := ix_evictList idx @ [docID]\<rparr>;
                  idx2 = evictExcessDocs (index_tokens idx1 docID tokens)
              in (case persistDocInfo B idx2 docID bucket key versionID (length tokens) of
                    (idx3, Inl e) \<Rightarrow> (idx3, Inl (wrap_err ''failed to persist doc info'' e))
                  | (idx3, Inr _) \<Rightarrow> (idx3, Inr ())))"

section \<open>Search\<close>

fun score_postings ::
    "(rat \<Rightarrow> score) \<Rightarrow> 'db InvertedIndex \<Rightarrow> int \<Rightarrow> Posting list \<Rightarrow> (64 word \<times> score) list \<Rightarrow> (64 word \<times> score) list" where
  "score_postings lg idx df [] scores = scores"
| "score_postings lg idx df (p # ps) scores =
     (let dl = (case map_of (ix_docs idx) (po_DocID p) of Some info \<Rightarrow> di_Length info | None \<Rightarrow> 0);
          old = (case map_of scores (po_DocID p) of Some x \<Rightarrow> x | None \<Rightarrow> Some 0)
      in score_postings lg idx df ps
           (AList.update (po_DocID p) (score_add old (Score lg (ix_scorer idx) (po_TermFreq p) df dl)) scores))"

fun score_terms ::
    "(rat \<Rightarrow> score) \<Rightarrow> 'db InvertedIndex \<Rightarrow> Token list \<Rightarrow> string list \<Rightarrow> (64 word \<times> score) list \<Rightarrow> (64 word \<times> score) list" where
  "score_terms lg idx [] seen scores = scores"
| "score_terms lg idx (qt # qts) seen scores =
     (if tk_Term qt \<in> set seen then score_terms lg idx qts seen scores
      else score_terms lg idx qts (tk_Term qt # seen)
             (score_postings lg idx (int_at (ix_termDF idx) (tk_Term qt)) (SegmentManager_Search (ix_segments idx) (tk_Term qt)) scores))"

definition search_result :: "'db InvertedIndex \<Rightarrow> 64 word \<times> score \<Rightarrow> SearchResult" where
  "search_result idx r =
     (case map_of (ix_docs idx) (fst r) of
        Some info \<Rightarrow> \<lparr>sr_DocID = fst r, sr_Score = snd r, sr_Bucket = di_Bucket info, sr_Key = di_Key info\<rparr>
      | None \<Rightarrow> \<lparr>sr_DocID = fst r, sr_Score = snd r, sr_Bucket = '''', sr_Key = ''''\<rparr>)"

text \<open>\<^verbatim>\<open>results[:topK]\<close> when there are more.\<close>

definition limit :: "int \<Rightarrow> 'a list \<Rightarrow> 'a list result" where
  "limit topK xs = (if int (length xs) > topK then (if topK < 0 then Inl slice_panic else Inr (take (nat topK) xs)) else Inr xs)"

definition Index_Search ::
    "((64 word \<times> score \<Rightarrow> 64 word \<times> score \<Rightarrow> bool) \<Rightarrow> (64 word \<times> score) list \<Rightarrow> (64 word \<times> score) list) \<Rightarrow> (score \<Rightarrow> score \<Rightarrow> bool) \<Rightarrow>
     (rat \<Rightarrow> score) \<Rightarrow> unicode \<Rightarrow> 'db InvertedIndex \<Rightarrow> string \<Rightarrow> int \<Rightarrow> SearchResult list result" where
  "Index_Search A nf lg U idx query topK =
     (if ix_closed idx then Inl (Err ''index is closed'')
      else let queryTokens = Tokenize U query
           in if queryTokens = [] then Inr []
              else (case limit topK (A (\<lambda>a b. higher nf (snd a) (snd b)) (score_terms lg idx queryTokens [] [])) of
                      Inl e \<Rightarrow> Inl e
                    | Inr results \<Rightarrow> Inr (map (search_result idx) results)))"

section \<open>Deleting, closing, statistics\<close>

definition Index_DeleteDocument :: "('db, 'tx, string) bolt_db \<Rightarrow> 'db InvertedIndex \<Rightarrow> 64 word \<Rightarrow> 'db InvertedIndex \<times> unit result" where
  "Index_DeleteDocument B idx docID =
     (if ix_closed idx then (idx, Inl (Err ''index is closed''))
      else let idx1 = idx\<lparr>ix_segments := SegmentManager_DeleteDocument (ix_segments idx) docID, ix_docs := AList.delete docID (ix_docs idx)\<rparr>
           in (case bolt_Update B (ix_db idx1) () (\<lambda>u tx. (u, tx_delete B ''fts_docs'' (info_key docID) tx)) of
                 (db', _, Inl e) \<Rightarrow> (idx1\<lparr>ix_db := db'\<rparr>, Inl (wrap_err ''failed to delete doc info'' e))
               | (db', _, Inr _) \<Rightarrow> (refresh_stats (idx1\<lparr>ix_db := db'\<rparr>), Inr ())))"

text \<open>The order in which the map is visited is the argument \<open>order\<close>.\<close>

definition DeleteDocumentByKey ::
    "('db, 'tx, string) bolt_db \<Rightarrow> ((64 word \<times> DocInfo) list \<Rightarrow> (64 word \<times> DocInfo) list) \<Rightarrow> 'db InvertedIndex \<Rightarrow> string \<Rightarrow> string \<Rightarrow>
     'db InvertedIndex \<times> unit result" where
  "DeleteDocumentByKey B order idx bucket key =
     (case find (\<lambda>(docID, info). di_Bucket info = bucket \<and> di_Key info = key) (order (ix_docs idx)) of
        None \<Rightarrow> (idx, Inr ())
      | Some (docID, _) \<Rightarrow> Index_DeleteDocument B idx docID)"

definition GetDocInfo :: "'db InvertedIndex \<Rightarrow> 64 word \<Rightarrow> DocInfo option" where
  "GetDocInfo idx docID = map_of (ix_docs idx) docID"

definition Compaction_Stop :: "CompactionManager \<Rightarrow> CompactionManager" where
  "Compaction_Stop cm = cm\<lparr>cm_running := False\<rparr>"

definition Index_Close :: "unit result \<Rightarrow> 'db InvertedIndex \<Rightarrow> 'db InvertedIndex \<times> unit result" where
  "Index_Close r idx =
     (if ix_closed idx then (idx, Inr ())
      else (idx\<lparr>ix_closed := True, ix_compaction := map_option Compaction_Stop (ix_compaction idx)\<rparr>, r))"

record IndexStats =
  is_doc_count :: int
  is_avg_doc_length :: rat
  is_segment_count :: int
  is_unique_terms :: int

definition Index_Stats :: "'db InvertedIndex \<Rightarrow> IndexStats" where
  "Index_Stats idx =
     (case SegmentManager_GetStats (ix_segments idx) of
        (docCount, avgDL) \<Rightarrow> \<lparr>is_doc_count = docCount, is_avg_doc_length = avgDL, is_segment_count = SegmentCount (ix_segments idx),
          is_unique_terms = int (length (ix_termDF idx))\<rparr>)"

section \<open>Compaction\<close>

fun recount_terms :: "SegmentManager \<Rightarrow> string list \<Rightarrow> (string \<times> int) list \<Rightarrow> (string \<times> int) list" where
  "recount_terms sm [] df = df"
| "recount_terms sm (t # ts) df =
     (let postings = SegmentManager_Search sm t
      in recount_terms sm ts (if length postings > 0 then AList.update t (int (length postings)) df else df))"

definition updateTermStats :: "'db InvertedIndex \<Rightarrow> 'db InvertedIndex" where
  "updateTermStats idx = refresh_stats (idx\<lparr>ix_termDF := recount_terms (ix_segments idx) (map fst (ix_termDF idx)) []\<rparr>)"

definition runCompaction :: "'db InvertedIndex \<Rightarrow> 'db InvertedIndex" where
  "runCompaction idx =
     (if SegmentCount (ix_segments idx) \<le> 1 then idx
      else updateTermStats (idx\<lparr>ix_segments := MergeSegments (ix_segments idx)\<rparr>))"

definition checkDiskQuota :: "string + int \<Rightarrow> CompactionManager \<Rightarrow> CompactionManager" where
  "checkDiskQuota walked cm = (case walked of Inl _ \<Rightarrow> cm | Inr n \<Rightarrow> cm\<lparr>cm_indexSize := n\<rparr>)"

definition SetMaxIndexSize :: "int \<Rightarrow> CompactionManager \<Rightarrow> CompactionManager" where
  "SetMaxIndexSize maxSize cm = cm\<lparr>cm_maxIndexSize := maxSize\<rparr>"

definition SetCompactionMaxIndexSize :: "'db InvertedIndex \<Rightarrow> int \<Rightarrow> 'db InvertedIndex" where
  "SetCompactionMaxIndexSize idx maxSize = idx\<lparr>ix_compaction := map_option (SetMaxIndexSize maxSize) (ix_compaction idx)\<rparr>"


section \<open>The stored form of a document\<close>

lemma length_put_be [simp]: "length (put_be n x) = n"
  by (induction n x rule: put_be.induct) auto

lemma get_be_snoc [simp]: "get_be (s @ [c]) = get_be s * 256 + of_char c"
  by (simp add: get_be_def)

lemma get_put_be: "x < 256 ^ n \<Longrightarrow> get_be (put_be n x) = x"
proof (induction n x rule: put_be.induct)
  case (1 x)
  then show ?case by (simp add: get_be_def)
next
  case (2 n x)
  have "x div 256 < 256 ^ n" using 2(2) by (simp add: less_mult_imp_div_less mult.commute)
  then show ?case using 2(1) by simp
qed

lemma info_key_id: "of_nat (get_be (take 8 (info_key d))) = d" "length (info_key d) = 8"
proof -
  have "unat d < 256 ^ 8" using unsigned_less [of d] by simp
  then show "of_nat (get_be (take 8 (info_key d))) = d" by (simp add: info_key_def get_put_be)
qed (simp add: info_key_def)

lemma decode_info_value:
  assumes "length b < 65536" "length k < 65536" "length v < 65536" "n < 4294967296"
  shows "decode_info d (info_value b k v n) =
    (if length b + length k + length v < 4 then None
     else Some \<lparr>di_DocID = d, di_Bucket = b, di_Key = k, di_Version = v, di_Length = int n\<rparr>)"
  using assms by (simp add: decode_info_def info_value_def read_be_def slice_def Let_def get_put_be)

text \<open>The keys of the documents are the eight bytes that \<open>persistDocInfo\<close> writes.\<close>

definition info_keys :: "('db, 'tx, string) bolt_db \<Rightarrow> 'db \<Rightarrow> bool" where
  "info_keys B db \<longleftrightarrow> (\<forall>k. db_get B db ''fts_docs'' k \<noteq> None \<longrightarrow> length k = 8)"

lemma get_be_inj: "length s = length t \<Longrightarrow> get_be s = get_be t \<Longrightarrow> s = t"
proof (induction s arbitrary: t rule: rev_induct)
  case (snoc c s)
  then obtain t' c' where t: "t = t' @ [c']" "length t' = length s" by (cases t rule: rev_cases) auto
  have b: "of_char c < (256 :: nat)" "of_char c' < (256 :: nat)" by simp_all
  have e: "get_be s * 256 + of_char c = get_be t' * 256 + of_char c'" using snoc(3) t(1) by simp
  then have "(get_be s * 256 + of_char c) div 256 = (get_be t' * 256 + of_char c') div 256"
    "(get_be s * 256 + of_char c) mod 256 = (get_be t' * 256 + of_char c') mod 256" by simp_all
  then have "get_be s = get_be t'" "of_char c = (of_char c' :: nat)" using b by simp_all
  then show ?case using snoc(1) [of t'] t by simp
qed simp

lemma get_be_bound: "get_be s < 256 ^ length s"
proof (induction s rule: rev_induct)
  case (snoc c s)
  have "of_char c < (256 :: nat)" by simp
  then have "get_be s * 256 + of_char c < (get_be s + 1) * 256" by simp
  also have "\<dots> \<le> 256 ^ length s * 256" using snoc by (intro mult_right_mono) simp_all
  finally show ?case by (simp add: mult.commute)
qed (simp add: get_be_def)

lemma doc_id_inj:
  assumes "length k = 8" "length k' = 8" "(of_nat (get_be k) :: 64 word) = of_nat (get_be k')"
  shows "k = k'"
proof -
  have "unat (of_nat (get_be x) :: 64 word) = get_be x" if "length x = 8" for x
    unfolding unat_of_nat using get_be_bound [of x] that by (intro mod_less) simp
  then have "get_be k = get_be k'" using assms by metis
  then show ?thesis using get_be_inj assms(1,2) by simp
qed

lemma load_loop_get:
  assumes "\<And>k v. (k, v) \<in> set es \<Longrightarrow> length k = 8" "distinct (map fst es)" "length k = 8"
  shows "\<exists>docs'. load_loop es docs = Inr docs' \<and>
    map_of docs' (of_nat (get_be k)) = (case map_of es k of
       None \<Rightarrow> map_of docs (of_nat (get_be k))
     | Some v \<Rightarrow> (case decode_info (of_nat (get_be k)) v of None \<Rightarrow> map_of docs (of_nat (get_be k)) | Some info \<Rightarrow> Some info))"
  using assms(1,2)
proof (induction es arbitrary: docs)
  case (Cons e es)
  obtain k' v' where e: "e = (k', v')" by fastforce
  have k': "length k' = 8" using Cons.prems(1) e by auto
  have short: "decode_info d v' = None" if "length v' < 14" for d using that by (simp add: decode_info_def)
  define docs1 where "docs1 = (case decode_info (of_nat (get_be k')) v' of None \<Rightarrow> docs | Some info \<Rightarrow> AList.update (of_nat (get_be k')) info docs)"
  have l: "load_loop (e # es) docs = load_loop es docs1"
    using k' short [of "of_nat (get_be k')"] by (auto simp: e docs1_def Let_def split: option.splits)
  have IH: "\<exists>docs'. load_loop es docs1 = Inr docs' \<and> map_of docs' (of_nat (get_be k)) = (case map_of es k of
       None \<Rightarrow> map_of docs1 (of_nat (get_be k))
     | Some v \<Rightarrow> (case decode_info (of_nat (get_be k)) v of None \<Rightarrow> map_of docs1 (of_nat (get_be k)) | Some info \<Rightarrow> Some info))"
    using Cons by auto
  show ?case
  proof (cases "k = k'")
    case True
    then have "map_of es k = None" using Cons.prems(2) e by (simp add: map_of_eq_None_iff)
    then show ?thesis unfolding l using IH True by (auto simp: e docs1_def update_conv' split: option.splits)
  next
    case False
    then have "(of_nat (get_be k) :: 64 word) \<noteq> of_nat (get_be k')" using doc_id_inj [OF assms(3) k'] by blast
    then have "map_of docs1 (of_nat (get_be k)) = map_of docs (of_nat (get_be k))" by (simp add: docs1_def update_conv' split: option.splits)
    then show ?thesis unfolding l using IH False by (simp add: e cong: option.case_cong)
  qed
qed simp


section \<open>A restart\<close>

lemma create_buckets_total:
  assumes "bolt_db_ok B" "bolt_no_errors B"
  shows "\<exists>tx'. create_buckets B names tx = Inr tx' \<and> btx_Get B tx' = btx_Get B tx"
proof (induction names arbitrary: tx)
  case (Cons n names)
  obtain tx1 where c: "btx_CreateBucketIfNotExists B tx n = Inr tx1"
    using assms(2) unfolding bolt_no_errors_def by (cases "btx_CreateBucketIfNotExists B tx n") (metis sum.disc(1), blast)
  then have "btx_Get B tx1 = btx_Get B tx" using assms(1) by (simp add: bolt_db_ok_def)
  then show ?case using Cons [of tx1] c by simp
qed simp

lemma restart:
  assumes "bolt_db_ok B" "bolt_no_errors B" "info_keys B db" "length k = 8"
  shows "\<exists>idx. NewInvertedIndex B None (Inr db) path = Inr idx \<and> ix_segments idx = NewSegmentManager DefaultSegmentSize 10 \<and>
    \<not> ix_closed idx \<and> ix_evictList idx = [] \<and>
    map_of (ix_docs idx) (of_nat (get_be k)) = Option.bind (db_get B db ''fts_docs'' k) (decode_info (of_nat (get_be k)))"
proof -
  obtain tx' where c: "create_buckets B [''fts_terms'', ''fts_docs'', ''fts_stats''] (projr (bdb_Begin B db)) = Inr tx'"
    "btx_Get B tx' = db_get B db" using create_buckets_total [OF assms(1,2)] unfolding db_get_def by metis
  then obtain db' where u: "bolt_Update B db () (\<lambda>u tx. (u, create_buckets B [''fts_terms'', ''fts_docs'', ''fts_stats''] tx)) = (db', (), Inr ())"
      and d: "db_get B db' = btx_Get B tx'"
    using Update_run [OF assms(1,2), of "\<lambda>u tx. (u, create_buckets B [''fts_terms'', ''fts_docs'', ''fts_stats''] tx)" "()" db "()" tx']
    by (metis (no_types, lifting))
  let ?tx = "projr (bdb_Begin B db')"
  have g: "btx_Get B ?tx = db_get B db" using d c(2) by (simp add: db_get_def)
  have "length k' = 8" if "(k', v) \<in> set (btx_Entries B ?tx ''fts_docs'')" for k' v
    using that assms(3) Entries_mem [OF assms(1)] g by (auto simp: info_keys_def)
  then obtain docs where l: "load_loop (btx_Entries B ?tx ''fts_docs'') [] = Inr docs"
      "map_of docs (of_nat (get_be k)) = Option.bind (db_get B db ''fts_docs'' k) (decode_info (of_nat (get_be k)))"
    using load_loop_get [OF _ Entries_distinct [OF assms(1), of ?tx "''fts_docs''"] assms(4), of "[]"] Entries_Get [OF assms(1), of ?tx] g
    by (fastforce split: option.splits)
  show ?thesis
    using u l by (simp add: NewInvertedIndex_def loadDocsFromDB_def View_get [OF assms(1)])
qed


section \<open>Eviction\<close>

lemma refresh_stats_sel [simp]:
  "ix_docs (refresh_stats idx) = ix_docs idx" "ix_maxDocs (refresh_stats idx) = ix_maxDocs idx"
  "ix_evictList (refresh_stats idx) = ix_evictList idx" "ix_segments (refresh_stats idx) = ix_segments idx"
  "ix_closed (refresh_stats idx) = ix_closed idx" "ix_termDF (refresh_stats idx) = ix_termDF idx"
  by (simp_all add: refresh_stats_def split: prod.splits)

text \<open>Every document is queued for eviction, and there are at most as many as allowed.\<close>

definition evict_ok :: "'db InvertedIndex \<Rightarrow> bool" where
  "evict_ok idx \<longleftrightarrow> fst ` set (ix_docs idx) \<subseteq> set (ix_evictList idx) \<and> int (length (ix_docs idx)) \<le> max 0 (ix_maxDocs idx)"

lemma evict_ok_upd [simp]: "evict_ok (idx\<lparr>ix_db := db\<rparr>) = evict_ok idx" "evict_ok (refresh_stats idx) = evict_ok idx"
  "evict_ok (idx\<lparr>ix_segments := sm\<rparr>) = evict_ok idx" "evict_ok (idx\<lparr>ix_termDF := df\<rparr>) = evict_ok idx"
  "evict_ok (idx\<lparr>ix_closed := c, ix_compaction := m\<rparr>) = evict_ok idx" "evict_ok (index_tokens idx d toks) = evict_ok idx"
  by (simp_all add: evict_ok_def index_tokens_def)

lemma evict_loop_sel: "ix_maxDocs (evict_loop es idx) = ix_maxDocs idx"
  by (induction es idx rule: evict_loop.induct) auto

lemma evict_loop_ok: "fst ` set (ix_docs idx) \<subseteq> set es \<Longrightarrow> evict_ok (evict_loop es idx)"
proof (induction es idx rule: evict_loop.induct)
  case (1 idx)
  then show ?case by (simp add: evict_ok_def)
next
  case (2 e rest idx)
  show ?case
  proof (cases "int (length (ix_docs idx)) > ix_maxDocs idx")
    case True
    have "fst ` set (AList.delete e (ix_docs idx)) \<subseteq> set rest" using 2(2) by (auto simp: AList.delete_eq)
    moreover have "map_of (ix_docs idx) e = None \<Longrightarrow> fst ` set (ix_docs idx) \<subseteq> set rest"
      using 2(2) by (auto simp: map_of_eq_None_iff)
    ultimately show ?thesis using True 2(1) by auto
  next
    case False
    then show ?thesis using 2(2) by (simp add: evict_ok_def)
  qed
qed

lemma delete_length: "length (AList.delete k m) \<le> length m"
  by (simp add: AList.delete_eq)

lemma delete_keys: "fst ` set (AList.delete k m) \<subseteq> fst ` set m"
  by (auto simp: AList.delete_eq)

datatype 'o ix_op = OpAdd string string string string | OpAddTokens "64 word" "Token list" | OpDelete "64 word"
  | OpDeleteByKey 'o string string | OpSetMaxDocs int | OpCompact | OpClose "unit result"

fun ix_step ::
    "('db, 'tx, string) bolt_db \<Rightarrow> unicode \<Rightarrow> (string \<Rightarrow> string) \<Rightarrow> ((64 word \<times> DocInfo) list \<Rightarrow> (64 word \<times> DocInfo) list) ix_op \<Rightarrow>
     'db InvertedIndex \<Rightarrow> 'db InvertedIndex" where
  "ix_step B U sha (OpAdd b k v content) idx = fst (AddDocumentWithInfo B U sha idx b k v content)"
| "ix_step B U sha (OpAddTokens d toks) idx = fst (Index_AddDocument idx d toks)"
| "ix_step B U sha (OpDelete d) idx = fst (Index_DeleteDocument B idx d)"
| "ix_step B U sha (OpDeleteByKey order b k) idx = fst (DeleteDocumentByKey B order idx b k)"
| "ix_step B U sha (OpSetMaxDocs n) idx = SetMaxDocs idx n"
| "ix_step B U sha OpCompact idx = runCompaction idx"
| "ix_step B U sha (OpClose r) idx = fst (Index_Close r idx)"

lemma index_tokens_sel [simp]:
  "ix_docs (index_tokens idx d toks) = ix_docs idx" "ix_maxDocs (index_tokens idx d toks) = ix_maxDocs idx"
  "ix_evictList (index_tokens idx d toks) = ix_evictList idx"
  by (simp_all add: index_tokens_def)

lemma persist_sel: "persistDocInfo B idx d b k v n = (idx', r) \<Longrightarrow> \<exists>db. idx' = idx\<lparr>ix_db := db\<rparr>"
  by (auto simp: persistDocInfo_def split: prod.splits)

lemma evict_ok_add: "evict_ok idx \<Longrightarrow> evict_ok (fst (AddDocumentWithInfo B U sha idx b k v content))"
proof -
  assume ok: "evict_ok idx"
  define d toks where "d = ComputeDocID sha b k v" and "toks = Tokenize U content"
  define idx1 where "idx1 = idx\<lparr>ix_docs := AList.update d \<lparr>di_DocID = d, di_Bucket = b, di_Key = k, di_Version = v,
      di_Length = int (length toks)\<rparr> (ix_docs idx), ix_evictList := ix_evictList idx @ [d]\<rparr>"
  have "fst ` set (ix_docs idx1) \<subseteq> set (ix_evictList idx1)" using ok by (auto simp: idx1_def evict_ok_def dom_update)
  then have e: "evict_ok (evictExcessDocs (index_tokens idx1 d toks))" unfolding evictExcessDocs_def by (intro evict_loop_ok) simp
  obtain idx3 r where p: "persistDocInfo B (evictExcessDocs (index_tokens idx1 d toks)) d b k v (length toks) = (idx3, r)" by fastforce
  have "evict_ok idx3" using e persist_sel [OF p] by auto
  then show ?thesis
    using ok p by (auto simp: AddDocumentWithInfo_def Let_def d_def [symmetric] toks_def [symmetric] idx1_def [symmetric] split: sum.splits)
qed

lemma evict_ok_delete: "evict_ok idx \<Longrightarrow> evict_ok (fst (Index_DeleteDocument B idx d))"
proof -
  assume "evict_ok idx"
  then have "evict_ok (idx\<lparr>ix_segments := sm, ix_docs := AList.delete d (ix_docs idx), ix_db := db\<rparr>)" for sm db
    using delete_length [of d "ix_docs idx"] delete_keys [of d "ix_docs idx"] unfolding evict_ok_def by fastforce
  then show ?thesis using \<open>evict_ok idx\<close> by (auto simp: Index_DeleteDocument_def Let_def split: prod.splits sum.splits)
qed

lemma evict_ok_step: "evict_ok idx \<Longrightarrow> evict_ok (ix_step B U sha op idx)"
proof (cases op)
  case (OpSetMaxDocs n)
  assume "evict_ok idx"
  then have "fst ` set (ix_docs (idx\<lparr>ix_maxDocs := n\<rparr>)) \<subseteq> set (ix_evictList (idx\<lparr>ix_maxDocs := n\<rparr>))" by (simp add: evict_ok_def)
  from evict_loop_ok [OF this] show ?thesis using OpSetMaxDocs by (simp add: SetMaxDocs_def evictExcessDocs_def)
next
  case (OpDeleteByKey order b k)
  assume "evict_ok idx"
  then show ?thesis using OpDeleteByKey by (simp add: DeleteDocumentByKey_def evict_ok_delete split: option.splits)
qed (auto simp: evict_ok_add evict_ok_delete Index_AddDocument_def runCompaction_def updateTermStats_def Index_Close_def)


section \<open>Search\<close>

text \<open>The query terms in the order of their first occurrence.\<close>

fun first_terms :: "Token list \<Rightarrow> string list \<Rightarrow> string list" where
  "first_terms [] seen = []"
| "first_terms (t # ts) seen = (if tk_Term t \<in> set seen then first_terms ts seen else tk_Term t # first_terms ts (tk_Term t # seen))"

lemma set_first_terms: "set (first_terms ts seen) = tk_Term ` set ts - set seen"
  by (induction ts seen rule: first_terms.induct) auto

definition posting_score :: "(rat \<Rightarrow> score) \<Rightarrow> 'db InvertedIndex \<Rightarrow> string \<Rightarrow> Posting \<Rightarrow> score" where
  "posting_score lg idx t p =
     Score lg (ix_scorer idx) (po_TermFreq p) (int_at (ix_termDF idx) t) (case map_of (ix_docs idx) (po_DocID p) of Some info \<Rightarrow> di_Length info | None \<Rightarrow> 0)"

text \<open>The score of a document: the sum, over the query terms in order, of the scores of its postings.\<close>

definition doc_score :: "(rat \<Rightarrow> score) \<Rightarrow> 'db InvertedIndex \<Rightarrow> Token list \<Rightarrow> 64 word \<Rightarrow> score" where
  "doc_score lg idx query d = foldl score_add (Some 0)
     (concat (map (\<lambda>t. map (posting_score lg idx t) (filter (\<lambda>p. po_DocID p = d) (SegmentManager_Search (ix_segments idx) t))) (first_terms query [])))"

definition score_at :: "(64 word \<times> score) list \<Rightarrow> 64 word \<Rightarrow> score" where
  "score_at m d = (case map_of m d of Some x \<Rightarrow> x | None \<Rightarrow> Some 0)"

lemma score_postings_keys:
  "fst ` set (score_postings lg idx df ps m) = fst ` set m \<union> po_DocID ` set ps"
  "distinct (map fst m) \<Longrightarrow> distinct (map fst (score_postings lg idx df ps m))"
  by (induction lg idx df ps m rule: score_postings.induct) (auto simp: Let_def dom_update)

lemma score_postings_at:
  "df = int_at (ix_termDF idx) t \<Longrightarrow>
   score_at (score_postings lg idx df ps m) d = foldl score_add (score_at m d) (map (posting_score lg idx t) (filter (\<lambda>p. po_DocID p = d) ps))"
  by (induction lg idx df ps m rule: score_postings.induct) (auto simp: Let_def score_at_def update_conv' posting_score_def)

lemma score_terms_keys:
  "fst ` set (score_terms lg idx qts seen m) = fst ` set m \<union> (\<Union>t \<in> set (first_terms qts seen). po_DocID ` set (SegmentManager_Search (ix_segments idx) t))"
  "distinct (map fst m) \<Longrightarrow> distinct (map fst (score_terms lg idx qts seen m))"
  by (induction lg idx qts seen m rule: score_terms.induct) (auto simp: score_postings_keys)

lemma score_terms_at:
  "score_at (score_terms lg idx qts seen m) d = foldl score_add (score_at m d)
     (concat (map (\<lambda>t. map (posting_score lg idx t) (filter (\<lambda>p. po_DocID p = d) (SegmentManager_Search (ix_segments idx) t))) (first_terms qts seen)))"
  by (induction lg idx qts seen m rule: score_terms.induct) (auto simp: score_postings_at)

lemma score_terms_scores:
  assumes "(d, x) \<in> set (score_terms lg idx qts [] [])"
  shows "x = doc_score lg idx qts d"
proof -
  have "map_of (score_terms lg idx qts [] []) d = Some x"
    using assms score_terms_keys(2) [of "[]" lg idx qts "[]"] by (intro map_of_is_SomeI) simp_all
  then show ?thesis using score_terms_at [of lg idx qts "[]" "[]" d] by (simp add: score_at_def doc_score_def)
qed

text \<open>The documents with one of the query's terms.\<close>

definition matching :: "(64 word \<times> Token list) list \<Rightarrow> Token list \<Rightarrow> 64 word set" where
  "matching docs query = {d. \<exists>toks. (d, toks) \<in> set docs \<and> tk_Term ` set toks \<inter> tk_Term ` set query \<noteq> {}}"

lemma spec_search_ids: "po_DocID ` set (spec_search docs t) = {d. \<exists>toks. (d, toks) \<in> set docs \<and> t \<in> tk_Term ` set toks}"
  by (force simp: spec_search_def doc_postings_def posting_of_def)

lemma score_terms_matching:
  assumes "SegmentManager_Search (ix_segments idx) = spec_search docs"
  shows "fst ` set (score_terms lg idx qts [] []) = matching docs qts"
proof -
  have "(\<Union>t \<in> T. {d. \<exists>toks. (d, toks) \<in> D \<and> t \<in> F toks}) = {d. \<exists>toks. (d, toks) \<in> D \<and> F toks \<inter> T \<noteq> {}}" for T D and F :: "Token list \<Rightarrow> string set"
    by blast
  then show ?thesis unfolding score_terms_keys(1) assms spec_search_ids set_first_terms matching_def
    by (simp only: list.set(1) image_empty Un_empty_left Diff_empty)
qed

text \<open>Sorting by the comparison of scores: descending, when all scores are finite.\<close>

lemma slice_sort_desc:
  assumes "slice_sort A" "\<And>a b. a \<in> set xs \<Longrightarrow> b \<in> set xs \<Longrightarrow> lt a b \<longleftrightarrow> (f a :: 'b :: linorder) > f b"
  shows "sorted_wrt (\<lambda>a b. f a \<ge> f b) (A lt xs)"
proof -
  have "weak_order lt (set xs)" using assms(2) by (auto simp: weak_order_def)
  then have s: "sorted_wrt (\<lambda>a b. \<not> lt b a) (A lt xs)" using assms(1) by (auto simp: slice_sort_def)
  have m: "set (A lt xs) = set xs" using assms(1) by (metis set_mset_mset slice_sort_def)
  show ?thesis
    by (rule sorted_wrt_mono_rel [OF _ s]) (use assms(2) m in auto)
qed

abbreviation sort_scores where
  "sort_scores A nf \<equiv> A (\<lambda>a b. higher nf (snd a) (snd b))"

lemma sort_scores_mset: "slice_sort A \<Longrightarrow> mset (sort_scores A nf xs) = mset xs"
  by (simp add: slice_sort_def)

lemma sort_scores_desc:
  assumes "slice_sort A" "None \<notin> snd ` set xs"
  shows "sorted_wrt (\<lambda>a b. the (snd a) \<ge> the (snd b)) (sort_scores A nf xs)"
proof (rule slice_sort_desc [OF assms(1)])
  fix a b assume "a \<in> set xs" "b \<in> set xs"
  with assms(2) show "higher nf (snd a) (snd b) \<longleftrightarrow> the (snd b) < the (snd a)"
    by (cases a; cases b; cases "snd a"; cases "snd b") (force simp: higher_def)+
qed

lemma take_sorted:
  assumes "sorted_wrt R xs" "x \<in> set (take n xs)" "y \<in> set (drop n xs)"
  shows "R x y"
proof -
  have "sorted_wrt R (take n xs @ drop n xs)" using assms(1) by simp
  then show ?thesis using assms(2,3) unfolding sorted_wrt_append by blast
qed

lemma search_result_sel [simp]: "sr_DocID (search_result idx r) = fst r" "sr_Score (search_result idx r) = snd r"
  by (simp_all add: search_result_def split: option.splits)


section \<open>Properties\<close>

lemma run_search:
  assumes "ix_segments idx = fold mgr_step ops (NewSegmentManager n m)"
  shows "SegmentManager_Search (ix_segments idx) = spec_search (fold log_step ops [])"
  using all_segments.run_refines [OF mgr_New(1), of n m "[]" ops] assms mgr_New(2) by (simp add: fun_eq_iff spec_search_def)

lemma limit_take: "0 \<le> topK \<Longrightarrow> limit topK xs = Inr (take (nat topK) xs)"
  by (auto simp: limit_def)

text \<open>
  C23. Search: in an open index, after any history of the segments, a search for at most \<open>topK\<close> (not negative) results returns the best \<open>topK\<close> of the documents that
  contain a term of the query: each of them once, each with the sum of the scores of its
  postings, as many as there are up to \<open>topK\<close>; when all scores are finite, in descending order and
  none of the documents left out scores higher than one returned. Of the sort it is assumed that it sorts by the comparison it is given.
\<close>

theorem search_top_k:
  assumes A: "slice_sort A" and op: "\<not> ix_closed idx" and k: "0 \<le> topK"
    and run: "ix_segments idx = fold mgr_step ops (NewSegmentManager n m)"
    and M: "M = matching (fold log_step ops []) (Tokenize U query)"
  shows "\<exists>rs. Index_Search A nf lg U idx query topK = Inr rs \<and> distinct (map sr_DocID rs) \<and> sr_DocID ` set rs \<subseteq> M \<and>
    length rs = min (nat topK) (card M) \<and> (\<forall>r \<in> set rs. sr_Score r = doc_score lg idx (Tokenize U query) (sr_DocID r)) \<and>
    (None \<notin> doc_score lg idx (Tokenize U query) ` M \<longrightarrow>
       sorted_wrt (\<lambda>a b. the (sr_Score a) \<ge> the (sr_Score b)) rs \<and>
       (\<forall>r \<in> set rs. \<forall>d \<in> M - sr_DocID ` set rs. the (doc_score lg idx (Tokenize U query) d) \<le> the (sr_Score r)))"
proof -
  let ?q = "Tokenize U query"
  define xs where "xs = score_terms lg idx ?q [] []"
  define sx where "sx = sort_scores A nf xs"
  define ys where "ys = take (nat topK) sx"
  have keys: "fst ` set xs = M" unfolding xs_def M by (rule score_terms_matching [OF run_search [OF run]])
  have d: "distinct (map fst xs)" unfolding xs_def by (rule score_terms_keys(2)) simp
  have val: "x = doc_score lg idx ?q e" if "(e, x) \<in> set xs" for e x using score_terms_scores that unfolding xs_def by blast
  have m: "mset sx = mset xs" unfolding sx_def by (rule sort_scores_mset [OF A])
  then have s: "set sx = set xs" "length sx = length xs" by (metis mset_eq_setD, metis mset_eq_length)
  have dA: "distinct (map fst sx)" using d m by (metis mset_eq_imp_distinct_iff mset_map)
  have c: "length xs = card M" using d keys by (metis distinct_card length_map list.set_map)
  have e0: "xs = []" if "?q = []" using that by (simp add: xs_def)
  then have res: "Index_Search A nf lg U idx query topK = Inr (map (search_result idx) ys)"
    using op s(2) by (cases "?q = []") (simp_all add: Index_Search_def Let_def limit_take [OF k] ys_def sx_def xs_def)
  have ys: "set ys \<subseteq> set xs" using s(1) set_take_subset unfolding ys_def by fastforce
  have sorted: "sorted_wrt (\<lambda>a b. the (snd a) \<ge> the (snd b)) sx" if "None \<notin> doc_score lg idx ?q ` M"
    unfolding sx_def
  proof (rule sort_scores_desc [OF A])
    have "snd r \<noteq> None" if "r \<in> set xs" for r
    proof -
      have "(fst r, snd r) \<in> set xs" using that by simp
      then have "snd r = doc_score lg idx ?q (fst r)" "fst r \<in> M" using val keys by force+
      with \<open>None \<notin> doc_score lg idx ?q ` M\<close> show ?thesis by (metis image_eqI)
    qed
    then show "None \<notin> snd ` set xs" by force
  qed
  have best: "the (doc_score lg idx ?q e) \<le> the (snd r)" if f: "None \<notin> doc_score lg idx ?q ` M" and r: "r \<in> set ys" and e: "e \<in> M - fst ` set ys" for r e
  proof -
    obtain x where "(e, x) \<in> set sx" using e keys s(1) by auto
    moreover have "(e, x) \<notin> set ys" using e by force
    ultimately have "(e, x) \<in> set (drop (nat topK) sx)" unfolding ys_def by (metis UnE append_take_drop_id set_append)
    then show ?thesis using take_sorted [OF sorted [OF f], of r "nat topK" "(e, x)"] r val [of e x] s(1) unfolding ys_def
      by (metis in_set_dropD snd_conv)
  qed
  have "distinct (map fst ys)" using dA unfolding ys_def by (simp add: distinct_take take_map [symmetric])
  moreover have "length ys = min (nat topK) (card M)" unfolding ys_def using s(2) c by simp
  moreover have "sorted_wrt (\<lambda>a b. the (snd a) \<ge> the (snd b)) ys" if "None \<notin> doc_score lg idx ?q ` M"
    using sorted [OF that] unfolding ys_def by (rule sorted_wrt_take)
  ultimately show ?thesis
    using ys keys val best by (intro exI [of _ "map (search_result idx) ys"] conjI) (auto simp: res comp_def sorted_wrt_map image_image)
qed


definition mem_index :: "string mem_db InvertedIndex" where
  "mem_index = \<lparr>ix_db = (\<lambda>_. []), ix_dbPath = ''fts.db'', ix_segments = NewSegmentManager DefaultSegmentSize 10,
     ix_scorer = NewBM25Scorer (fl (12 / 10)) (fl (75 / 100)), ix_docs = [], ix_termDF = [], ix_compaction = None, ix_closed = False,
     ix_maxDocs = 1, ix_evictList = []\<rparr>"

theorem search_top_k_witness:
  "\<exists>rs. Index_Search sort_less (\<lambda>_ _. False) (\<lambda>_. Some 1) no_unicode
     (mem_index\<lparr>ix_segments := fold mgr_step [AddOp 7 (Tokenize no_unicode ''Cipher lake'')] (NewSegmentManager 2 2)\<rparr>) ''lakes'' 5 = Inr rs \<and>
     distinct (map sr_DocID rs) \<and> sr_DocID ` set rs \<subseteq> {7}"
proof -
  let ?ops = "[AddOp 7 (Tokenize no_unicode ''Cipher lake'')]"
  let ?idx = "mem_index\<lparr>ix_segments := fold mgr_step ?ops (NewSegmentManager 2 2)\<rparr>"
  have "matching (fold log_step ?ops []) (Tokenize no_unicode ''lakes'') \<subseteq> {7}" by (auto simp: matching_def)
  then show ?thesis
    using search_top_k [of sort_less ?idx 5 ?ops 2 2 "matching (fold log_step ?ops []) (Tokenize no_unicode ''lakes'')" no_unicode "''lakes''" "\<lambda>_ _. False" "\<lambda>_. Some 1"]
    by (auto simp: mem_index_def)
qed

text \<open>
  The index stays bounded: in an index that was started on an empty database, after any sequence of
  operations there are at most \<open>maxDocs\<close> documents, and each of them is queued for eviction.
\<close>

theorem index_bounded:
  assumes "bolt_db_ok B" "bolt_no_errors B" "db_get B db ''fts_docs'' = Map.empty"
    and new: "NewInvertedIndex B None (Inr db) path = Inr idx"
  shows "int (length (ix_docs (fold (ix_step B U sha) ops idx))) \<le> max 0 (ix_maxDocs (fold (ix_step B U sha) ops idx)) \<and>
    fst ` set (ix_docs (fold (ix_step B U sha) ops idx)) \<subseteq> set (ix_evictList (fold (ix_step B U sha) ops idx))"
proof -
  have "map_of (ix_docs idx) d = None" for d
    using restart [OF assms(1,2), of db "info_key d" path] assms(3) new info_key_id [of d] by (simp add: info_keys_def)
  then have "ix_docs idx = []" by (metis map_of_eq_empty_iff ext)
  then have "evict_ok idx" by (simp add: evict_ok_def)
  then have "evict_ok (fold (ix_step B U sha) ops idx)" by (induction ops arbitrary: idx) (simp_all add: evict_ok_step)
  then show ?thesis by (simp add: evict_ok_def)
qed

lemma mem_new: "\<exists>idx. NewInvertedIndex mem_db None (Inr (\<lambda>_. [])) ''fts.db'' = Inr idx"
  using restart [of mem_db "\<lambda>_. []" "info_key 0" "''fts.db''"] by (auto simp: info_keys_def info_key_id)

theorem index_bounded_witness:
  "\<exists>idx. NewInvertedIndex mem_db None (Inr (\<lambda>_. [])) ''fts.db'' = Inr idx \<and>
     length (ix_docs (fold (ix_step mem_db no_unicode (\<lambda>s. s)) [OpSetMaxDocs 0, OpAdd ''docs'' ''a.txt'' '''' ''lake''] idx)) \<le>
     nat (ix_maxDocs (fold (ix_step mem_db no_unicode (\<lambda>s. s)) [OpSetMaxDocs 0, OpAdd ''docs'' ''a.txt'' '''' ''lake''] idx))"
proof -
  obtain idx where i: "NewInvertedIndex mem_db None (Inr (\<lambda>_. [])) ''fts.db'' = Inr idx" using mem_new by blast
  show ?thesis
    using index_bounded [OF mem_db_ok mem_db_no_errors _ i, of no_unicode "\<lambda>s. s" "[OpSetMaxDocs 0, OpAdd ''docs'' ''a.txt'' '''' ''lake'']"] i
    by (intro exI [of _ idx]) (simp add: le_nat_iff max_def split: if_splits)
qed

text \<open>
  What a restart keeps and forgets: the information on a document that was stored is loaded again exactly
  as it was, unless bucket, key and version together are shorter than four bytes, in which case it is
  skipped; but the segments start empty, so every search returns nothing until the documents are
  indexed again.
\<close>

theorem restart_forgets_postings:
  assumes B: "bolt_db_ok B" "bolt_no_errors B" and keys: "info_keys B (ix_db idx)"
    and len: "length b < 65536" "length k < 65536" "length v < 65536" "n < 4294967296"
    and p: "persistDocInfo B idx d b k v n = (idx1, r)" and A: "slice_sort A" and tk: "0 \<le> topK"
  shows "r = Inr () \<and> (\<exists>idx2. NewInvertedIndex B None (Inr (ix_db idx1)) path = Inr idx2 \<and>
    GetDocInfo idx2 d = (if length b + length k + length v < 4 then None
      else Some \<lparr>di_DocID = d, di_Bucket = b, di_Key = k, di_Version = v, di_Length = int n\<rparr>) \<and>
    Index_Search A nf lg U idx2 query topK = Inr [])"
proof -
  have vk: "valid_key (info_key d)" by (simp add: valid_key_def info_key_id MaxKeySize_def) (metis info_key_id(2) list.size(3) zero_neq_numeral)
  obtain tx' where t: "tx_put B ''fts_docs'' (info_key d) (info_value b k v n) (projr (bdb_Begin B (ix_db idx))) = Inr tx'"
    using Put_succeeds [OF B(2) vk] by blast
  obtain db' where u: "bolt_Update B (ix_db idx) () (\<lambda>u tx. (u, tx_put B ''fts_docs'' (info_key d) (info_value b k v n) tx)) = (db', (), Inr ())"
      "db_get B db' = btx_Get B tx'"
    using Update_run [OF B, of "\<lambda>u tx. (u, tx_put B ''fts_docs'' (info_key d) (info_value b k v n) tx)" "()" "ix_db idx" "()" tx'] t by auto
  have i1: "idx1 = idx\<lparr>ix_db := db'\<rparr>" "r = Inr ()" using p u(1) by (simp_all add: persistDocInfo_def)
  have g: "db_get B db' bk key = (if bk = ''fts_docs'' \<and> key = info_key d then Some (info_value b k v n) else db_get B (ix_db idx) bk key)" for bk key
    using Get_Put [OF B(1) t] u(2) by (simp add: db_get_def)
  have "info_keys B db'" using keys g info_key_id(2) by (auto simp: info_keys_def)
  then obtain idx2 where i2: "NewInvertedIndex B None (Inr db') path = Inr idx2" "ix_segments idx2 = NewSegmentManager DefaultSegmentSize 10"
      "\<not> ix_closed idx2" "map_of (ix_docs idx2) d = decode_info d (info_value b k v n)"
    using restart [OF B, of db' "info_key d" path] info_key_id [of d] g by auto
  have e: "score_terms lg idx2 qts seen m = m" for qts seen m
    by (induction qts arbitrary: seen m) (simp_all add: i2(2) mgr_New)
  have "sort_scores A nf [] = []" using sort_scores_mset [OF A] by (metis mset_zero_iff)
  then have "Index_Search A nf lg U idx2 query topK = Inr []" using i2(3) by (simp add: Index_Search_def Let_def e limit_take [OF tk])
  then show ?thesis using i1 i2 by (auto simp: GetDocInfo_def decode_info_value [OF len])
qed


theorem restart_forgets_postings_witness:
  "\<exists>idx2. NewInvertedIndex mem_db None
       (Inr (ix_db (fst (persistDocInfo mem_db mem_index 5 ''docs'' ''a'' '''' 3)))) ''fts.db'' = Inr idx2 \<and>
     GetDocInfo idx2 5 = Some \<lparr>di_DocID = 5, di_Bucket = ''docs'', di_Key = ''a'', di_Version = '''', di_Length = 3\<rparr>"
proof -
  obtain idx1 r where p: "persistDocInfo mem_db mem_index 5 ''docs'' ''a'' '''' 3 = (idx1, r)" by fastforce
  show ?thesis
    using restart_forgets_postings [OF mem_db_ok mem_db_no_errors _ _ _ _ _ p slice_sort_less, of 0 "''fts.db''" "\<lambda>_ _. False" "\<lambda>_. None" no_unicode "''a''"] p
    by (auto simp: info_keys_def mem_index_def)
qed

lemma recount_at:
  "distinct ts \<Longrightarrow> int_at (recount_terms sm ts df) t =
     (if t \<in> set ts \<and> SegmentManager_Search sm t \<noteq> [] then int (length (SegmentManager_Search sm t)) else int_at df t)"
  by (induction sm ts df rule: recount_terms.induct) (auto simp: Let_def)

lemma length_spec_search: "length (spec_search docs t) = length (filter (\<lambda>(d, toks). t \<in> tk_Term ` set toks) docs)"
  by (induction docs) (auto simp: spec_search_def doc_postings_def)

text \<open>
  Compaction: merging the segments changes no search result, and afterwards the document frequency of every
  term the index knows is the number of documents that contain it.
\<close>

theorem compaction_recounts:
  assumes run: "ix_segments idx = fold mgr_step ops (NewSegmentManager n m)" and "1 < SegmentCount (ix_segments idx)"
    and "distinct (map fst (ix_termDF idx))" "t \<in> fst ` set (ix_termDF idx)"
  shows "SegmentManager_Search (ix_segments (runCompaction idx)) = SegmentManager_Search (ix_segments idx) \<and>
    int_at (ix_termDF (runCompaction idx)) t = int (length (filter (\<lambda>(d, toks). t \<in> tk_Term ` set toks) (fold log_step ops [])))"
proof -
  have ok: "mgr_ok (ix_segments idx)" using all_segments.run_refines [OF mgr_New(1), of n m "[]" ops] run mgr_New(2)
    by (simp add: fun_eq_iff spec_search_def)
  have s: "SegmentManager_Search (MergeSegments (ix_segments idx)) = spec_search (fold log_step ops [])"
    using mgr_merge [OF ok] run_search [OF run] by (simp add: fun_eq_iff)
  have "int_at (recount_terms (MergeSegments (ix_segments idx)) (map fst (ix_termDF idx)) []) t = int (length (spec_search (fold log_step ops []) t))"
    using recount_at [OF assms(3)] assms(4) s by auto
  then show ?thesis using assms(2) s run_search [OF run] by (simp add: runCompaction_def updateTermStats_def length_spec_search)
qed

definition lake_ops :: "index_op list" where
  "lake_ops = [AddOp 7 [\<lparr>tk_Term = ''lake'', tk_Position = 0\<rparr>], AddOp 8 [\<lparr>tk_Term = ''lake'', tk_Position = 0\<rparr>]]"

lemma lake_segments: "1 < SegmentCount (fold mgr_step lake_ops (NewSegmentManager 1 10))"
  by (simp add: lake_ops_def SegmentCount_def SegmentManager_AddDocument_def NewSegmentManager_def active_full_def on_active_def
      Segment_AddDocument_def NewSegment_def signal_merge_def Let_def)

theorem compaction_recounts_witness:
  "int_at (ix_termDF (runCompaction (mem_index\<lparr>ix_segments := fold mgr_step lake_ops (NewSegmentManager 1 10), ix_termDF := [(''lake'', 9)]\<rparr>))) ''lake'' = 2"
  using compaction_recounts [of "mem_index\<lparr>ix_segments := fold mgr_step lake_ops (NewSegmentManager 1 10), ix_termDF := [(''lake'', 9)]\<rparr>"
      lake_ops 1 10 "''lake''"] lake_segments by (simp add: lake_ops_def)

text \<open>Indexing the same version of an object again adds a second set of postings, so its scores double.\<close>

lemma reindex_duplicates:
  assumes "mgr_ok sm" "t \<in> tk_Term ` set toks"
  shows "length (filter (\<lambda>p. po_DocID p = d) (SegmentManager_Search (SegmentManager_AddDocument (SegmentManager_AddDocument sm d toks) d toks) t)) =
    length (filter (\<lambda>p. po_DocID p = d) (SegmentManager_Search sm t)) + 2"
  using assms mgr_add [OF assms(1), of d toks t] mgr_add [of "SegmentManager_AddDocument sm d toks" d toks t]
  by (simp add: doc_postings_def posting_of_def)

end
