(* ===== verification/FTS_Hybrid.thy ===== *)
theory FTS_Hybrid
  imports FTS_Index
begin

text \<open>
  Hybrid search, snippets and highlighting, \<^verbatim>\<open>internal/fts/hybrid.go\<close>. The sort of the library is
  an argument that is given the code's comparisons, as in \<open>FTS_Index\<close>; so is the order in which the map of
  vector-only results is visited. Highlighting one term is a loop that need not end, so it is a
  \<^theory_text>\<open>partial_function (option)\<close>.
\<close>

section \<open>Fusion of ranks\<close>

record HybridWeights =
  hw_BM25Weight :: rat
  hw_VectorWeight :: rat
  hw_RRFConstant :: int

definition DefaultHybridWeights :: HybridWeights where
  "DefaultHybridWeights = \<lparr>hw_BM25Weight = 1 / 2, hw_VectorWeight = 1 / 2, hw_RRFConstant = 60\<rparr>"

record HybridResult =
  hr_DocID :: "64 word"
  hr_Bucket :: string
  hr_Key :: string
  hr_Score :: rat

record VectorSearchResult =
  vr_Bucket :: string
  vr_ObjectKey :: string
  vr_Score :: rat

definition effective_weights :: "HybridWeights \<Rightarrow> HybridWeights" where
  "effective_weights weights =
     (let w = (if hw_BM25Weight weights = 0 \<and> hw_VectorWeight weights = 0 then DefaultHybridWeights else weights)
      in if hw_RRFConstant w \<le> 0 then w\<lparr>hw_RRFConstant := 60\<rparr> else w)"

definition rank_score :: "rat \<Rightarrow> int \<Rightarrow> nat \<Rightarrow> rat" where
  "rank_score weight c rank = fl (weight / fl (of_int (c + int rank + 1)))"

definition rrf_at :: "(64 word \<times> rat) list \<Rightarrow> 64 word \<Rightarrow> rat" where
  "rrf_at m d = (case map_of m d of Some x \<Rightarrow> x | None \<Rightarrow> 0)"

fun rank_bm25 :: "HybridWeights \<Rightarrow> nat \<Rightarrow> SearchResult list \<Rightarrow> (64 word \<times> rat) list \<Rightarrow> (64 word \<times> rat) list" where
  "rank_bm25 w rank [] m = m"
| "rank_bm25 w rank (r # rs) m =
     rank_bm25 w (rank + 1) rs
       (AList.update (sr_DocID r) (fl (rrf_at m (sr_DocID r) + rank_score (hw_BM25Weight w) (hw_RRFConstant w) rank)) m)"

definition vr_key :: "VectorSearchResult \<Rightarrow> string" where
  "vr_key vr = vr_Bucket vr @ ''/'' @ vr_ObjectKey vr"

definition info_map_key :: "DocInfo \<Rightarrow> string" where
  "info_map_key info = di_Bucket info @ ''/'' @ di_Key info"

fun vector_ranks :: "nat \<Rightarrow> VectorSearchResult list \<Rightarrow> (string \<times> nat) list \<Rightarrow> (string \<times> nat) list" where
  "vector_ranks rank [] m = m"
| "vector_ranks rank (vr # vrs) m = vector_ranks (rank + 1) vrs (AList.update (vr_key vr) rank m)"

fun rank_vector :: "HybridWeights \<Rightarrow> (string \<times> nat) list \<Rightarrow> (64 word \<times> DocInfo) list \<Rightarrow> (64 word \<times> rat) list \<Rightarrow> (64 word \<times> rat) list" where
  "rank_vector w ranks [] m = m"
| "rank_vector w ranks ((docID, info) # docs) m =
     rank_vector w ranks docs
       (case map_of ranks (info_map_key info) of
          Some rank \<Rightarrow> AList.update docID (fl (rrf_at m docID + rank_score (hw_VectorWeight w) (hw_RRFConstant w) rank)) m
        | None \<Rightarrow> m)"

fun vector_results :: "VectorSearchResult list \<Rightarrow> (string \<times> VectorSearchResult) list \<Rightarrow> (string \<times> VectorSearchResult) list" where
  "vector_results [] m = m"
| "vector_results (vr # vrs) m = vector_results vrs (AList.update (vr_key vr) vr m)"

fun drop_found :: "'db InvertedIndex \<Rightarrow> SearchResult list \<Rightarrow> (string \<times> VectorSearchResult) list \<Rightarrow> (string \<times> VectorSearchResult) list" where
  "drop_found idx [] m = m"
| "drop_found idx (r # rs) m =
     drop_found idx rs (case GetDocInfo idx (sr_DocID r) of Some info \<Rightarrow> AList.delete (info_map_key info) m | None \<Rightarrow> m)"

fun rank_vector_only ::
    "(string \<Rightarrow> string) \<Rightarrow> HybridWeights \<Rightarrow> (string \<times> nat) list \<Rightarrow> (string \<times> VectorSearchResult) list \<Rightarrow> (64 word \<times> rat) list \<Rightarrow> (64 word \<times> rat) list" where
  "rank_vector_only sha w ranks [] m = m"
| "rank_vector_only sha w ranks ((mapKey, vr) # rest) m =
     rank_vector_only sha w ranks rest
       (case map_of ranks mapKey of
          Some rank \<Rightarrow> AList.update (ComputeDocID sha (vr_Bucket vr) (vr_ObjectKey vr) ''vector'')
             (rank_score (hw_VectorWeight w) (hw_RRFConstant w) rank) m
        | None \<Rightarrow> m)"

definition hybrid_result :: "(string \<Rightarrow> string) \<Rightarrow> 'db InvertedIndex \<Rightarrow> VectorSearchResult list \<Rightarrow> 64 word \<times> rat \<Rightarrow> HybridResult" where
  "hybrid_result sha idx vectorResults r =
     (case GetDocInfo idx (fst r) of
        Some info \<Rightarrow> \<lparr>hr_DocID = fst r, hr_Bucket = di_Bucket info, hr_Key = di_Key info, hr_Score = snd r\<rparr>
      | None \<Rightarrow>
          (case find (\<lambda>vr. ComputeDocID sha (vr_Bucket vr) (vr_ObjectKey vr) ''vector'' = fst r) vectorResults of
             Some vr \<Rightarrow> \<lparr>hr_DocID = fst r, hr_Bucket = vr_Bucket vr, hr_Key = vr_ObjectKey vr, hr_Score = snd r\<rparr>
           | None \<Rightarrow> \<lparr>hr_DocID = fst r, hr_Bucket = '''', hr_Key = '''', hr_Score = snd r\<rparr>))"

text \<open>The scores that the search sorts; the arguments of the environment are collected in a record.\<close>

record hybrid_env =
  he_scores :: "(64 word \<times> score \<Rightarrow> 64 word \<times> score \<Rightarrow> bool) \<Rightarrow> (64 word \<times> score) list \<Rightarrow> (64 word \<times> score) list"
  he_results :: "(SearchResult \<Rightarrow> SearchResult \<Rightarrow> bool) \<Rightarrow> SearchResult list \<Rightarrow> SearchResult list"
  he_only :: "(string \<times> VectorSearchResult) list \<Rightarrow> (string \<times> VectorSearchResult) list"
  he_fused :: "(64 word \<times> rat \<Rightarrow> 64 word \<times> rat \<Rightarrow> bool) \<Rightarrow> (64 word \<times> rat) list \<Rightarrow> (64 word \<times> rat) list"
  he_nonfinite :: "score \<Rightarrow> score \<Rightarrow> bool"
  he_log :: "rat \<Rightarrow> score"
  he_unicode :: unicode
  he_sha256 :: "string \<Rightarrow> string"

definition fuse :: "hybrid_env \<Rightarrow> 'db InvertedIndex \<Rightarrow> HybridWeights \<Rightarrow> SearchResult list \<Rightarrow> VectorSearchResult list \<Rightarrow> (64 word \<times> rat) list" where
  "fuse E idx w bm25Results vectorResults =
     (let ranks = vector_ranks 0 vectorResults [];
          vectorOnly = drop_found idx bm25Results (vector_results vectorResults [])
      in rank_vector_only (he_sha256 E) w ranks (he_only E vectorOnly)
           (rank_vector w ranks (ix_docs idx) (rank_bm25 w 0 bm25Results [])))"

definition Hybrid_Search ::
    "hybrid_env \<Rightarrow> 'db InvertedIndex \<Rightarrow> string \<Rightarrow> int \<Rightarrow> HybridWeights \<Rightarrow> VectorSearchResult list \<Rightarrow> HybridResult list result" where
  "Hybrid_Search E idx query topK weights vectorResults =
     (let w = effective_weights weights
      in (case Index_Search (he_scores E) (he_nonfinite E) (he_log E) (he_unicode E) idx query (topK * 2) of
            Inl e \<Rightarrow> Inl e
          | Inr found \<Rightarrow>
              (case limit topK (he_fused E (\<lambda>a b. snd a > snd b)
                      (fuse E idx w (he_results E (\<lambda>a b. higher (he_nonfinite E) (sr_Score a) (sr_Score b)) found) vectorResults)) of
                 Inl e \<Rightarrow> Inl e
               | Inr results \<Rightarrow> Inr (map (hybrid_result (he_sha256 E) idx vectorResults) results))))"

definition rrfScore :: "int \<Rightarrow> int \<Rightarrow> rat" where
  "rrfScore rank k = fl (1 / fl (of_int (k + rank)))"

section \<open>Snippets\<close>

fun best_pos :: "string \<Rightarrow> Token list \<Rightarrow> nat option \<Rightarrow> nat option" where
  "best_pos lowerText [] best = best"
| "best_pos lowerText (qt # qts) best =
     best_pos lowerText qts
       (case Index lowerText (tk_Term qt) of
          None \<Rightarrow> best
        | Some i \<Rightarrow> (case best of None \<Rightarrow> Some i | Some b \<Rightarrow> if i < b then Some i else best))"

definition GenerateSnippet :: "(string \<Rightarrow> string) \<Rightarrow> string \<Rightarrow> Token list \<Rightarrow> int \<Rightarrow> string result" where
  "GenerateSnippet uni content queryTokens snippetLen =
     (let n = nat (if snippetLen \<le> 0 then 100 else snippetLen)
      in (case best_pos (ToLower uni content) queryTokens None of
            None \<Rightarrow> Inr (if length content > n then take n content @ ''...'' else content)
          | Some best \<Rightarrow>
              let start = best - n div 2;
                  fin = (if start + n > length content then length content else start + n)
              in if start > fin then Inl slice_panic
                 else Inr ((if start > 0 then ''...'' else '''') @ take (fin - start) (drop start content) @
                           (if fin < length content then ''...'' else ''''))))"

section \<open>Highlighting\<close>

partial_function (option) highlight_loop :: "string \<Rightarrow> string \<Rightarrow> string \<Rightarrow> nat \<Rightarrow> string \<Rightarrow> string result option" where
  "highlight_loop lowerResult result t lastIdx builder =
     (case Index (drop lastIdx lowerResult) t of
        None \<Rightarrow> if lastIdx > length result then Some (Inl slice_panic) else Some (Inr (builder @ drop lastIdx result))
      | Some i \<Rightarrow>
          if lastIdx + i + length t > length result then Some (Inl slice_panic)
          else highlight_loop lowerResult result t (lastIdx + i + length t)
                 (builder @ take i (drop lastIdx result) @ ''<em>'' @ take (length t) (drop (lastIdx + i) result) @ ''</em>''))"

fun HighlightTerms :: "(string \<Rightarrow> string) \<Rightarrow> string \<Rightarrow> Token list \<Rightarrow> string result option" where
  "HighlightTerms uni content [] = Some (Inr content)"
| "HighlightTerms uni content (qt # qts) =
     (case highlight_loop (ToLower uni content) content (tk_Term qt) 0 '''' of
        None \<Rightarrow> None
      | Some (Inl e) \<Rightarrow> Some (Inl e)
      | Some (Inr result) \<Rightarrow> HighlightTerms uni result qts)"


section \<open>Highlighting ends\<close>

lemma subseq_insert: "subseq (z :: string) s \<Longrightarrow> subseq (u @ v @ z) (u @ a @ v @ b @ s)"
proof -
  have pre: "subseq x y \<Longrightarrow> subseq (w @ x) (w @ y)" for w x y :: string by (induction w) auto
  assume "subseq z s"
  then show ?thesis by (intro pre list_emb_append2)
qed

lemma highlight_loop_ok:
  assumes "t \<noteq> []" "length l = length r"
  shows "n \<le> length r \<Longrightarrow> \<exists>s. highlight_loop l r t n b = Some (Inr (b @ s)) \<and> subseq (drop n r) s \<and>
    (is_ascii (drop n r) \<longrightarrow> is_ascii s)"
proof (induction "length r - n" arbitrary: n b rule: less_induct)
  case less
  show ?case
  proof (cases "Index (drop n l) t")
    case None
    then show ?thesis using less(2) by (subst highlight_loop.simps) auto
  next
    case (Some i)
    then have i: "i + length t \<le> length r - n" using Index_Some_bound [OF Some] assms(2) less(2) by simp
    let ?m = "n + i + length t" and ?u = "take i (drop n r)" and ?v = "take (length t) (drop (n + i) r)"
    have "length r - ?m < length r - n" "?m \<le> length r" using i assms(1) less(2) by (cases t; simp)+
    from less(1) [OF this, of "b @ ?u @ ''<em>'' @ ?v @ ''</em>''"] obtain s where
      s: "highlight_loop l r t ?m (b @ ?u @ ''<em>'' @ ?v @ ''</em>'') = Some (Inr ((b @ ?u @ ''<em>'' @ ?v @ ''</em>'') @ s))"
        "subseq (drop ?m r) s" "is_ascii (drop ?m r) \<longrightarrow> is_ascii s" by blast
    have d: "drop n r = ?u @ ?v @ drop ?m r"
      by (metis add.assoc append_take_drop_id drop_drop add.commute)
    have "subseq (?u @ ?v @ drop ?m r) (?u @ ''<em>'' @ ?v @ ''</em>'' @ s)"
      by (rule subseq_insert [OF s(2)])
    moreover have "is_ascii (?u @ ?v @ drop ?m r) \<Longrightarrow> is_ascii (?u @ ''<em>'' @ ?v @ ''</em>'' @ s)" using s(3) by (auto simp: is_ascii_def)
    moreover have "highlight_loop l r t n b = Some (Inr (b @ ?u @ ''<em>'' @ ?v @ ''</em>'' @ s))"
      using Some i s(1) less(2) by (subst highlight_loop.simps) simp
    ultimately show ?thesis by (metis d)
  qed
qed

lemma HighlightTerms_ok:
  "is_ascii content \<Longrightarrow> (\<And>t. t \<in> set qts \<Longrightarrow> tk_Term t \<noteq> []) \<Longrightarrow>
   \<exists>out. HighlightTerms uni content qts = Some (Inr out) \<and> subseq content out \<and> is_ascii out"
proof (induction qts arbitrary: content)
  case (Cons qt qts)
  have "length (ToLower uni content) = length content" using Cons.prems(1) by (simp add: ToLower_def)
  then obtain s where s: "highlight_loop (ToLower uni content) content (tk_Term qt) 0 '''' = Some (Inr s)" "subseq content s" "is_ascii s"
    using highlight_loop_ok [of "tk_Term qt" "ToLower uni content" content 0 "[]"] Cons.prems by auto
  then show ?case using Cons.IH [of s] Cons.prems(2) subseq_order.trans [of content s] by auto
qed simp

section \<open>Candidates\<close>

lemma rank_bm25_keys:
  "fst ` set (rank_bm25 w n rs m) = fst ` set m \<union> sr_DocID ` set rs" "distinct (map fst m) \<Longrightarrow> distinct (map fst (rank_bm25 w n rs m))"
  by (induction w n rs m rule: rank_bm25.induct) (auto simp: dom_update)

lemma opt_update_keys:
  "fst ` set (case map_of ranks k of Some x \<Rightarrow> AList.update d (g x) m | None \<Rightarrow> m) = fst ` set m \<union> (if k \<in> fst ` set ranks then {d} else {})"
  "distinct (map fst m) \<Longrightarrow> distinct (map fst (case map_of ranks k of Some x \<Rightarrow> AList.update d (g x) m | None \<Rightarrow> m))"
proof -
  have "map_of ranks k = None \<longleftrightarrow> k \<notin> fst ` set ranks" by (rule map_of_eq_None_iff)
  then show "fst ` set (case map_of ranks k of Some x \<Rightarrow> AList.update d (g x) m | None \<Rightarrow> m) = fst ` set m \<union> (if k \<in> fst ` set ranks then {d} else {})"
    by (cases "map_of ranks k") (simp_all add: dom_update)
qed (simp split: option.splits)

lemma update_mem: "(k', v') \<in> set (AList.update k v m) \<Longrightarrow> (k', v') = (k, v) \<or> (k', v') \<in> set m"
  by (induction m) (auto split: if_splits)

lemma rank_vector_keys:
  "fst ` set (rank_vector w ranks docs m) = fst ` set m \<union> {d. \<exists>info. (d, info) \<in> set docs \<and> info_map_key info \<in> fst ` set ranks}"
  "distinct (map fst m) \<Longrightarrow> distinct (map fst (rank_vector w ranks docs m))"
  by (induction w ranks docs m rule: rank_vector.induct) (auto simp: opt_update_keys)

lemma vector_ranks_keys: "fst ` set (vector_ranks n vrs m) = fst ` set m \<union> vr_key ` set vrs"
  by (induction n vrs m rule: vector_ranks.induct) (auto simp: dom_update)

lemma rank_vector_only_keys:
  "fst ` set (rank_vector_only sha w ranks vo m) = fst ` set m \<union>
     {ComputeDocID sha (vr_Bucket vr) (vr_ObjectKey vr) ''vector'' | vr k. (k, vr) \<in> set vo \<and> k \<in> fst ` set ranks}"
  "distinct (map fst m) \<Longrightarrow> distinct (map fst (rank_vector_only sha w ranks vo m))"
  by (induction sha w ranks vo m rule: rank_vector_only.induct) (auto simp: opt_update_keys)

lemma vector_results_ok:
  "(\<And>k vr. (k, vr) \<in> set m \<Longrightarrow> k = vr_key vr) \<Longrightarrow> (k, vr) \<in> set (vector_results vrs m) \<Longrightarrow> k = vr_key vr"
  "distinct (map fst m) \<Longrightarrow> distinct (map fst (vector_results vrs m))"
proof -
  show "(\<And>k vr. (k, vr) \<in> set m \<Longrightarrow> k = vr_key vr) \<Longrightarrow> (k, vr) \<in> set (vector_results vrs m) \<Longrightarrow> k = vr_key vr"
  proof (induction vrs m rule: vector_results.induct)
    case (2 x vrs m)
    have "k' = vr_key vr'" if "(k', vr') \<in> set (AList.update (vr_key x) x m)" for k' vr'
      using that 2(2) update_mem by fastforce
    then show ?case using 2(1,3) by simp
  qed simp
qed (induction vrs m rule: vector_results.induct, auto)

lemma vector_results_keys: "fst ` set (vector_results vrs m) = fst ` set m \<union> vr_key ` set vrs"
  by (induction vrs m rule: vector_results.induct) (auto simp: dom_update)


definition found_keys :: "'db InvertedIndex \<Rightarrow> SearchResult list \<Rightarrow> string set" where
  "found_keys idx rs = {info_map_key info | info r. r \<in> set rs \<and> GetDocInfo idx (sr_DocID r) = Some info}"

lemma drop_found_mem: "(k, vr) \<in> set (drop_found idx rs m) \<longleftrightarrow> (k, vr) \<in> set m \<and> k \<notin> found_keys idx rs"
  by (induction idx rs m rule: drop_found.induct) (auto simp: found_keys_def AList.delete_eq split: option.splits)

definition synthetic :: "(string \<Rightarrow> string) \<Rightarrow> VectorSearchResult \<Rightarrow> 64 word" where
  "synthetic sha vr = ComputeDocID sha (vr_Bucket vr) (vr_ObjectKey vr) ''vector''"

text \<open>What a hybrid search ranks: the documents found by the text, the indexed documents among the
  vector results, and the vector results that the text did not find.\<close>

definition candidates :: "(string \<Rightarrow> string) \<Rightarrow> 'db InvertedIndex \<Rightarrow> SearchResult list \<Rightarrow> VectorSearchResult list \<Rightarrow> 64 word set" where
  "candidates sha idx found vrs = sr_DocID ` set found \<union>
     {d. \<exists>info. (d, info) \<in> set (ix_docs idx) \<and> info_map_key info \<in> vr_key ` set vrs} \<union>
     {synthetic sha vr | vr. (vr_key vr, vr) \<in> set (vector_results vrs []) \<and> vr_key vr \<notin> found_keys idx found}"

definition hybrid_env_ok :: "hybrid_env \<Rightarrow> bool" where
  "hybrid_env_ok E \<longleftrightarrow> slice_sort (he_scores E) \<and> slice_sort (he_results E) \<and> slice_sort (he_fused E) \<and> (\<forall>xs. set (he_only E xs) = set xs)"

lemma candidates_cong: "set found = set found' \<Longrightarrow> candidates sha idx found vrs = candidates sha idx found' vrs"
  by (simp add: candidates_def found_keys_def)

lemma fuse_keys:
  assumes "hybrid_env_ok E"
  shows "fst ` set (fuse E idx w found vrs) = candidates (he_sha256 E) idx found vrs" "distinct (map fst (fuse E idx w found vrs))"
proof -
  let ?vo = "drop_found idx found (vector_results vrs [])"
  have k: "(k, vr) \<in> set ?vo \<longleftrightarrow> k = vr_key vr \<and> (vr_key vr, vr) \<in> set (vector_results vrs []) \<and> vr_key vr \<notin> found_keys idx found" for k vr
    using vector_results_ok(1) [of "[]" k vr vrs] by (auto simp: drop_found_mem)
  have m: "k \<in> vr_key ` set vrs" if "(k, vr) \<in> set (vector_results vrs [])" for k vr
    using that vector_results_keys [of vrs "[]"] by force
  have "{ComputeDocID (he_sha256 E) (vr_Bucket vr) (vr_ObjectKey vr) ''vector'' | vr k. (k, vr) \<in> set ?vo \<and> k \<in> vr_key ` set vrs} =
      {synthetic (he_sha256 E) vr | vr. (vr_key vr, vr) \<in> set (vector_results vrs []) \<and> vr_key vr \<notin> found_keys idx found}"
    using k m by (auto simp: synthetic_def)
  then show "fst ` set (fuse E idx w found vrs) = candidates (he_sha256 E) idx found vrs"
    using assms by (simp add: fuse_def Let_def candidates_def rank_vector_only_keys(1) rank_vector_keys(1) rank_bm25_keys(1) vector_ranks_keys
        hybrid_env_ok_def Un_assoc)
  show "distinct (map fst (fuse E idx w found vrs))"
    by (simp add: fuse_def Let_def rank_vector_only_keys(2) rank_vector_keys(2) rank_bm25_keys(2))
qed

lemma hybrid_result_sel [simp]: "hr_DocID (hybrid_result sha idx vrs r) = fst r" "hr_Score (hybrid_result sha idx vrs r) = snd r"
  by (simp_all add: hybrid_result_def split: option.splits)

section \<open>Properties\<close>

text \<open>
  Hybrid search returns the best \<open>topK\<close> of the candidates: the documents the text search found, the
  indexed documents that are among the vector results, and the vector results the text search did not
  find; each once, in descending order of their fused scores, as many as there are up to \<open>topK\<close>.
\<close>

theorem hybrid_top_k:
  assumes E: "hybrid_env_ok E" and k: "0 \<le> topK"
    and found: "Index_Search (he_scores E) (he_nonfinite E) (he_log E) (he_unicode E) idx query (topK * 2) = Inr found"
    and C: "C = candidates (he_sha256 E) idx found vrs"
  shows "\<exists>rs. Hybrid_Search E idx query topK weights vrs = Inr rs \<and> distinct (map hr_DocID rs) \<and> hr_DocID ` set rs \<subseteq> C \<and>
    length rs = min (nat topK) (card C) \<and> sorted_wrt (\<lambda>a b. hr_Score a \<ge> hr_Score b) rs"
proof -
  let ?found = "he_results E (\<lambda>a b. higher (he_nonfinite E) (sr_Score a) (sr_Score b)) found" and ?sort = "he_fused E (\<lambda>a b. snd a > snd b)"
  define xs where "xs = fuse E idx (effective_weights weights) ?found vrs"
  define ys where "ys = take (nat topK) (?sort xs)"
  have A: "slice_sort (he_results E)" "slice_sort (he_fused E)" using E by (simp_all add: hybrid_env_ok_def)
  have "set ?found = set found" using A(1) by (metis slice_sort_def set_mset_mset)
  then have keys: "fst ` set xs = C" unfolding xs_def fuse_keys(1) [OF E] C by (rule candidates_cong)
  have d: "distinct (map fst xs)" unfolding xs_def by (rule fuse_keys(2) [OF E])
  have m: "mset (?sort xs) = mset xs" using A(2) by (simp add: slice_sort_def)
  have so: "sorted_wrt (\<lambda>a b. snd a \<ge> snd b) (?sort xs)" by (rule slice_sort_desc [OF A(2)]) simp
  have s: "set (?sort xs) = set xs" "length (?sort xs) = length xs" using m by (metis mset_eq_setD, metis mset_eq_length)
  have "length xs = card C" using d keys by (metis distinct_card length_map list.set_map)
  then have l: "length ys = min (nat topK) (card C)" unfolding ys_def using s(2) by simp
  have "distinct (map fst (?sort xs))" using d m by (metis mset_eq_imp_distinct_iff mset_map)
  then have "distinct (map fst ys)" unfolding ys_def by (simp add: distinct_take take_map [symmetric])
  moreover have "fst ` set ys \<subseteq> C" using set_take_subset [of "nat topK" "?sort xs"] keys s(1) unfolding ys_def by blast
  moreover have "sorted_wrt (\<lambda>a b. snd a \<ge> snd b) ys" unfolding ys_def by (rule sorted_wrt_take [OF so])
  moreover have "Hybrid_Search E idx query topK weights vrs = Inr (map (hybrid_result (he_sha256 E) idx vrs) ys)"
    using found by (simp add: Hybrid_Search_def Let_def limit_take [OF k] ys_def xs_def)
  ultimately show ?thesis
    using l by (intro exI [of _ "map (hybrid_result (he_sha256 E) idx vrs) ys"]) (simp add: comp_def sorted_wrt_map image_image)
qed

definition mem_env :: hybrid_env where
  "mem_env = \<lparr>he_scores = sort_less, he_results = sort_less, he_only = id, he_fused = sort_less, he_nonfinite = (\<lambda>_ _. False), he_log = (\<lambda>_. Some 1),
     he_unicode = no_unicode, he_sha256 = id\<rparr>"

lemma mem_env_ok [simp]: "hybrid_env_ok mem_env"
  by (simp add: hybrid_env_ok_def mem_env_def)

theorem hybrid_top_k_witness:
  "\<exists>rs. Hybrid_Search mem_env mem_index '''' 3 DefaultHybridWeights [\<lparr>vr_Bucket = ''docs'', vr_ObjectKey = ''a'', vr_Score = 1\<rparr>] = Inr rs \<and>
     length rs = 1"
proof -
  let ?v = "\<lparr>vr_Bucket = ''docs'', vr_ObjectKey = ''a'', vr_Score = 1\<rparr>"
  have f: "Index_Search (he_scores mem_env) (he_nonfinite mem_env) (he_log mem_env) (he_unicode mem_env) mem_index '''' (3 * 2) = Inr []"
    by (simp add: Index_Search_def mem_index_def Tokenize_def runes_def runes_of.simps)
  have "candidates (he_sha256 mem_env) mem_index [] [?v] = {synthetic (he_sha256 mem_env) ?v}"
    by (auto simp: candidates_def mem_index_def found_keys_def)
  then show ?thesis using hybrid_top_k [OF mem_env_ok _ f refl, of DefaultHybridWeights "[?v]"] by auto
qed


text \<open>An indexed object that only the vector search finds is returned twice, under its own number and under a synthetic one.\<close>

lemma hybrid_duplicates:
  assumes "(d, info) \<in> set (ix_docs idx)" "vr \<in> set vrs" "(vr_key vr, vr) \<in> set (vector_results vrs [])" "info_map_key info = vr_key vr"
    and "vr_key vr \<notin> found_keys idx found"
  shows "{d, synthetic sha vr} \<subseteq> candidates sha idx found vrs"
  using assms by (auto simp: candidates_def)

lemma best_pos_found:
  assumes "\<And>t. t \<in> set qts \<Longrightarrow> tk_Term t \<noteq> []" "\<And>b. best = Some b \<Longrightarrow> b < length l"
  shows "best_pos l qts best = Some p \<Longrightarrow> p < length l"
  using assms
proof (induction l qts best rule: best_pos.induct)
  case (2 l qt qts best)
  have i: "i < length l" if "Index l (tk_Term qt) = Some i" for i
    using Index_Some_bound [OF that] 2(3) [of qt] by (cases "tk_Term qt") auto
  show ?case using 2(2,3,4) i by (intro 2(1)) (auto split: option.splits if_splits)
qed auto

text \<open>
  A snippet of an ASCII text for a tokenized query is a piece of the text of at most \<open>snippetLen\<close> bytes, with an
  ellipsis where the text goes on; when a query term occurs in the text in lower case, the piece
  covers the position of the first one.
\<close>

theorem snippet_covers_match:
  assumes ascii: "is_ascii content" and n: "0 < snippetLen" and q: "qts = Tokenize U query"
  shows "\<exists>a s c. content = a @ s @ c \<and> length s \<le> nat snippetLen \<and>
    GenerateSnippet uni content qts snippetLen = Inr ((if a = [] then [] else ''...'') @ s @ (if c = [] then [] else ''...'')) \<and>
    (\<forall>p. best_pos (map lower_char content) qts None = Some p \<longrightarrow> length a \<le> p \<and> p < length a + length s)"
proof (cases "best_pos (map lower_char content) qts None")
  case None
  then show ?thesis
    using n ascii by (intro exI [of _ "[]"] exI [of _ "take (nat snippetLen) content"] exI [of _ "drop (nat snippetLen) content"])
      (auto simp: GenerateSnippet_def ToLower_def Let_def)
next
  case (Some p)
  define a where "a = p - nat snippetLen div 2"
  define e where "e = (if a + nat snippetLen > length content then length content else a + nat snippetLen)"
  have p: "p < length content" using best_pos_found [OF _ _ Some] token_nonempty q by fastforce
  have "nat snippetLen div 2 < nat snippetLen" using n by simp
  then have h: "p < a + nat snippetLen" unfolding a_def by linarith
  have a: "a \<le> p" by (simp add: a_def)
  have e: "a \<le> e" "p < e" "e \<le> length content" "e - a \<le> nat snippetLen" using p h a by (auto simp: e_def)
  have c: "content = take a content @ take (e - a) (drop a content) @ drop e content"
    using e(1) by (metis append_take_drop_id drop_drop le_add_diff_inverse2)
  have n': "(if snippetLen \<le> 0 then 100 else snippetLen) = snippetLen" and l: "ToLower uni content = map lower_char content" and ae: "\<not> a > e"
    using n ascii e(1) by (simp_all add: ToLower_def)
  have g: "GenerateSnippet uni content qts snippetLen = Inr ((if a > 0 then ''...'' else []) @ take (e - a) (drop a content) @
      (if e < length content then ''...'' else []))"
    by (simp only: GenerateSnippet_def Let_def l Some option.case n' a_def [symmetric] e_def [symmetric] ae if_False)
  have "length (take a content) = a" "length (take (e - a) (drop a content)) = e - a" using a e p by simp_all
  moreover have "(take a content = []) = (\<not> a > 0)" "(drop e content = []) = (\<not> e < length content)" using p by auto
  ultimately show ?thesis
    using c g e a Some by (intro exI [of _ "take a content"] exI [of _ "take (e - a) (drop a content)"] exI [of _ "drop e content"]) simp
qed

theorem snippet_covers_match_witness:
  "\<exists>a s c. ''the cipher lake'' = a @ s @ c \<and> length s \<le> 6 \<and>
     GenerateSnippet id ''the cipher lake'' (Tokenize no_unicode ''lake'') 6 =
       Inr ((if a = [] then [] else ''...'') @ s @ (if c = [] then [] else ''...''))"
proof -
  have "is_ascii ''the cipher lake''" by (simp add: is_ascii_def)
  from snippet_covers_match [OF this, of 6 "Tokenize no_unicode ''lake''" no_unicode "''lake''" id] obtain a s c where
    "''the cipher lake'' = a @ s @ c \<and> length s \<le> 6 \<and> GenerateSnippet id ''the cipher lake'' (Tokenize no_unicode ''lake'') 6 =
       Inr ((if a = [] then [] else ''...'') @ s @ (if c = [] then [] else ''...''))" by auto
  then show ?thesis by blast
qed

text \<open>
  Highlighting the terms of a tokenized query in an ASCII text ends, does not panic, and only inserts: the text
  is a subsequence of the result.
\<close>

theorem HighlightTerms_returns:
  assumes "is_ascii content"
  shows "\<exists>out. HighlightTerms uni content (Tokenize U query) = Some (Inr out) \<and> subseq content out"
  using HighlightTerms_ok [OF assms, of "Tokenize U query" uni] token_nonempty by blast

theorem HighlightTerms_returns_witness:
  "\<exists>out. HighlightTerms id ''the cipher lake'' (Tokenize no_unicode ''lakes'') = Some (Inr out) \<and> subseq ''the cipher lake'' out"
  by (rule HighlightTerms_returns) (simp add: is_ascii_def)

text \<open>A term \<open>em\<close> is highlighted inside the tags that an earlier term left.\<close>

lemma highlight_in_tags:
  "HighlightTerms id ''a lake'' [\<lparr>tk_Term = ''lake'', tk_Position = 0\<rparr>, \<lparr>tk_Term = ''em'', tk_Position = 1\<rparr>] =
   Some (Inr ''a <<em>em</em>>lake</<em>em</em>>'')"
  by (simp add: highlight_loop.simps ToLower_def is_ascii_def lower_char_def HasPrefix_def)

end
