(* ===== verification/Event_Delivery.thy ===== *)
theory Event_Delivery
  imports Prelude
begin

text \<open>
  Event notifications, first part: rules (\<^verbatim>\<open>internal/events/rule.go\<close>), webhooks (\<^verbatim>\<open>webhook.go\<close>), counters
  (\<^verbatim>\<open>metrics.go\<close>) and the dead letter queue (\<^verbatim>\<open>deadletter.go\<close>). Parsing a URL, resolving a host name,
  the HTTP client, HMAC and the JSON text of an event are fields of the argument \<open>W\<close>; fresh
  identifiers and clock readings are arguments of the operations that draw them.
\<close>

section \<open>Events and rules\<close>

record Event =
  ev_EventID :: string
  ev_EventType :: string
  ev_Bucket :: string
  ev_Key :: string
  ev_VersionID :: string
  ev_ETag :: string
  ev_Size :: int
  ev_Timestamp :: gotime
  ev_RequesterARN :: string
  ev_SourceIP :: string

record SigningConfig =
  sc_Algorithm :: string
  sc_Secret :: string

record DestinationConfig =
  dc_Type :: string
  dc_URL :: string
  dc_Signing :: "SigningConfig option"

record NotificationRule =
  nr_ID :: string
  nr_Events :: "string list"
  nr_Prefix :: string
  nr_Suffix :: string
  nr_Destination :: DestinationConfig

definition matchEventTypePattern :: "string \<Rightarrow> string \<Rightarrow> bool" where
  "matchEventTypePattern pattern eventType =
     (if pattern = eventType then True
      else if HasSuffix pattern '':*'' then HasPrefix eventType (take (length pattern - 1) pattern)
      else False)"

definition matchEventType :: "NotificationRule \<Rightarrow> string \<Rightarrow> bool" where
  "matchEventType r eventType = list_ex (\<lambda>pattern. matchEventTypePattern pattern eventType) (nr_Events r)"

definition Rule_Matches :: "NotificationRule \<Rightarrow> Event \<Rightarrow> bool" where
  "Rule_Matches r event =
     (if \<not> matchEventType r (ev_EventType event) then False
      else if nr_Prefix r \<noteq> '''' \<and> \<not> HasPrefix (ev_Key event) (nr_Prefix r) then False
      else if nr_Suffix r \<noteq> '''' \<and> \<not> HasSuffix (ev_Key event) (nr_Suffix r) then False
      else True)"

section \<open>Webhooks\<close>

text \<open>An address as \<^verbatim>\<open>net.IP\<close>: four or sixteen bytes.\<close>

definition To4 :: "byte list \<Rightarrow> byte list option" where
  "To4 ip = (if length ip = 4 then Some ip
     else if length ip = 16 \<and> take 12 ip = replicate 10 0 @ [0xFF, 0xFF] then Some (drop 12 ip) else None)"

definition IsLoopback :: "byte list \<Rightarrow> bool" where
  "IsLoopback ip = (case To4 ip of Some ip4 \<Rightarrow> ip4 ! 0 = 127 | None \<Rightarrow> ip = replicate 15 0 @ [1])"

definition IsLinkLocalUnicast :: "byte list \<Rightarrow> bool" where
  "IsLinkLocalUnicast ip = (case To4 ip of
     Some ip4 \<Rightarrow> ip4 ! 0 = 169 \<and> ip4 ! 1 = 254
   | None \<Rightarrow> length ip = 16 \<and> ip ! 0 = 0xFE \<and> unat (ip ! 1) div 64 = 2)"

definition IsLinkLocalMulticast :: "byte list \<Rightarrow> bool" where
  "IsLinkLocalMulticast ip = (case To4 ip of
     Some ip4 \<Rightarrow> ip4 ! 0 = 224 \<and> ip4 ! 1 = 0 \<and> ip4 ! 2 = 0
   | None \<Rightarrow> length ip = 16 \<and> ip ! 0 = 0xFF \<and> unat (ip ! 1) mod 16 = 2)"

definition IsPrivate :: "byte list \<Rightarrow> bool" where
  "IsPrivate ip = (case To4 ip of
     Some ip4 \<Rightarrow> ip4 ! 0 = 10 \<or> (ip4 ! 0 = 172 \<and> unat (ip4 ! 1) div 16 = 1) \<or> (ip4 ! 0 = 192 \<and> ip4 ! 1 = 168)
   | None \<Rightarrow> length ip = 16 \<and> unat (ip ! 0) div 2 = 0x7E)"

definition IsUnspecified :: "byte list \<Rightarrow> bool" where
  "IsUnspecified ip \<longleftrightarrow> To4 ip = Some [0, 0, 0, 0] \<or> ip = replicate 16 0"

definition isPrivateIP :: "byte list \<Rightarrow> bool" where
  "isPrivateIP ip =
     (if IsLoopback ip then True
      else if IsLinkLocalUnicast ip \<or> IsLinkLocalMulticast ip then True
      else if IsPrivate ip then True
      else if IsUnspecified ip then True
      else False)"

record parsed_url =
  pu_Scheme :: string
  pu_Hostname :: string

record web =
  web_Parse :: "string \<Rightarrow> string + parsed_url"
  web_LookupIP :: "string \<Rightarrow> string + byte list list"
  web_IPString :: "byte list \<Rightarrow> string"
  web_JSON :: "Event \<Rightarrow> byte list"
  web_HMAC :: "byte list \<Rightarrow> string \<Rightarrow> byte list"
  web_NewRequest :: "string \<Rightarrow> string option"
  web_Do :: "string \<Rightarrow> byte list \<Rightarrow> (string \<times> string) list \<Rightarrow> string + int"

definition validateWebhookURL :: "web \<Rightarrow> string \<Rightarrow> unit result" where
  "validateWebhookURL W rawURL =
     (if rawURL = '''' then Inl (Err ''URL is empty'')
      else (case web_Parse W rawURL of
              Inl e \<Rightarrow> Inl (Err (''invalid URL: '' @ e))
            | Inr parsed \<Rightarrow>
                if pu_Scheme parsed \<noteq> ''http'' \<and> pu_Scheme parsed \<noteq> ''https''
                then Inl (Err (''invalid scheme '' @ pu_Scheme parsed @ '': only http and https are allowed''))
                else if pu_Hostname parsed = '''' then Inl (Err ''URL has no host'')
                else (case web_LookupIP W (pu_Hostname parsed) of
                        Inl e \<Rightarrow> Inl (Err (''failed to resolve hostname '' @ pu_Hostname parsed @ '': '' @ e))
                      | Inr ips \<Rightarrow>
                          (case find isPrivateIP ips of
                             Some ip \<Rightarrow> Inl (Err (''webhook URL resolves to private/internal IP '' @ web_IPString W ip @ '' (SSRF protection)''))
                           | None \<Rightarrow> Inr ()))))"

record DeliveryResult =
  dr_DeliveryID :: string
  dr_StatusCode :: int
  dr_Retryable :: bool
  dr_Success :: bool
  dr_Error :: "go_err option"

definition signPayload :: "web \<Rightarrow> byte list \<Rightarrow> string \<Rightarrow> string" where
  "signPayload W payload secret = EncodeToString (web_HMAC W payload secret)"

definition VerifySignature :: "web \<Rightarrow> byte list \<Rightarrow> string \<Rightarrow> string \<Rightarrow> bool" where
  "VerifySignature W payload secret signature \<longleftrightarrow> signPayload W payload secret = signature"

definition failed_delivery :: "string \<Rightarrow> bool \<Rightarrow> go_err \<Rightarrow> DeliveryResult" where
  "failed_delivery deliveryID retryable e =
     \<lparr>dr_DeliveryID = deliveryID, dr_StatusCode = 0, dr_Retryable = retryable, dr_Success = False, dr_Error = Some e\<rparr>"

definition request_headers :: "web \<Rightarrow> string \<Rightarrow> Event \<Rightarrow> DestinationConfig \<Rightarrow> (string \<times> string) list" where
  "request_headers W deliveryID event dest =
     [(''Content-Type'', ''application/json''), (''X-CipherLake-Delivery'', deliveryID), (''X-CipherLake-Event-Type'', ev_EventType event)] @
     (case dc_Signing dest of
        Some s \<Rightarrow> if sc_Secret s \<noteq> '''' then [(''X-CipherLake-Signature'', signPayload W (web_JSON W event) (sc_Secret s))] else []
      | None \<Rightarrow> [])"

definition Webhook_Send :: "web \<Rightarrow> bool \<Rightarrow> string \<Rightarrow> Event \<Rightarrow> DestinationConfig \<Rightarrow> DeliveryResult" where
  "Webhook_Send W ssrfBypass deliveryID event dest =
     (case (if ssrfBypass then Inr () else validateWebhookURL W (dc_URL dest)) of
        Inl e \<Rightarrow> failed_delivery deliveryID False (wrap_err ''webhook URL validation failed'' e)
      | Inr _ \<Rightarrow>
          if \<not> json_time (ev_Timestamp event) then failed_delivery deliveryID False (wrap_err ''failed to marshal event'' json_time_error)
          else (case web_NewRequest W (dc_URL dest) of
                  Some e \<Rightarrow> failed_delivery deliveryID False (Err (''failed to create request: '' @ e))
                | None \<Rightarrow>
                    (case web_Do W (dc_URL dest) (web_JSON W event) (request_headers W deliveryID event dest) of
                       Inl e \<Rightarrow> failed_delivery deliveryID True (Err (''request failed: '' @ e))
                     | Inr status \<Rightarrow>
                         let success = 200 \<le> status \<and> status < 300
                         in \<lparr>dr_DeliveryID = deliveryID, dr_StatusCode = status,
                             dr_Retryable = (\<not> success \<and> (status \<ge> 500 \<or> status = 429)), dr_Success = success, dr_Error = None\<rparr>)))"

section \<open>Counters\<close>

record Metrics =
  mx_DeadLetterTotal :: int
  mx_EventDeliveryFailedTotal :: int
  mx_EventDeliverySuccessTotal :: int
  mx_EventDeliveryRetryTotal :: int
  mx_EventDroppedTotal :: int

definition NewMetrics :: Metrics where
  "NewMetrics = \<lparr>mx_DeadLetterTotal = 0, mx_EventDeliveryFailedTotal = 0, mx_EventDeliverySuccessTotal = 0, mx_EventDeliveryRetryTotal = 0,
     mx_EventDroppedTotal = 0\<rparr>"

definition IncDeadLetter :: "Metrics \<Rightarrow> Metrics" where
  "IncDeadLetter m = m\<lparr>mx_DeadLetterTotal := mx_DeadLetterTotal m + 1\<rparr>"

definition IncDeliveryFailed :: "Metrics \<Rightarrow> Metrics" where
  "IncDeliveryFailed m = m\<lparr>mx_EventDeliveryFailedTotal := mx_EventDeliveryFailedTotal m + 1\<rparr>"

definition IncDeliverySuccess :: "Metrics \<Rightarrow> Metrics" where
  "IncDeliverySuccess m = m\<lparr>mx_EventDeliverySuccessTotal := mx_EventDeliverySuccessTotal m + 1\<rparr>"

definition IncDeliveryRetry :: "Metrics \<Rightarrow> Metrics" where
  "IncDeliveryRetry m = m\<lparr>mx_EventDeliveryRetryTotal := mx_EventDeliveryRetryTotal m + 1\<rparr>"

section \<open>The dead letter queue\<close>

record DeadLetterEntry =
  dl_ID :: string
  dl_Event :: Event
  dl_Rule :: NotificationRule
  dl_Attempts :: int
  dl_LastAttempt :: gotime
  dl_LastError :: string
  dl_CreatedAt :: gotime

text \<open>The files of the directory are a list; whether writing one succeeds is an argument.\<close>

record DeadLetterQueue =
  dq_maxRetries :: int
  dq_retryBaseMS :: int
  dq_metrics :: Metrics
  dq_retryCh :: "DeadLetterEntry list"
  dq_inHand :: "DeadLetterEntry option"
  dq_files :: "DeadLetterEntry list"
  dq_stopped :: bool

definition NewDeadLetterQueue :: "int \<Rightarrow> int \<Rightarrow> Metrics \<Rightarrow> DeadLetterQueue" where
  "NewDeadLetterQueue maxRetries retryBaseMS metrics =
     \<lparr>dq_maxRetries = (if maxRetries \<le> 0 then 3 else maxRetries), dq_retryBaseMS = (if retryBaseMS \<le> 0 then 1000 else retryBaseMS),
      dq_metrics = metrics, dq_retryCh = [], dq_inHand = None, dq_files = [], dq_stopped = False\<rparr>"

record draw =
  dw_uuid :: string
  dw_now :: gotime
  dw_created :: gotime
  dw_disk :: bool

text \<open>
  Making the directory, encoding the entry and writing the file are one outcome, \<open>dw_disk\<close>, since the code logs their errors alike and goes on; the
  name of the file is taken to be new.
\<close>

definition writeToDisk :: "draw \<Rightarrow> DeadLetterEntry \<Rightarrow> DeadLetterQueue \<Rightarrow> DeadLetterQueue" where
  "writeToDisk w entry q = (if dw_disk w then q\<lparr>dq_files := dq_files q @ [entry]\<rparr> else q)"

definition retryCap :: nat where "retryCap = 1000"

definition DLQ_Enqueue :: "draw \<Rightarrow> DeadLetterQueue \<Rightarrow> Event \<Rightarrow> NotificationRule \<Rightarrow> int \<Rightarrow> string \<Rightarrow> DeadLetterQueue" where
  "DLQ_Enqueue w q event rule attempts lastError =
     (let entry = \<lparr>dl_ID = dw_uuid w, dl_Event = event, dl_Rule = rule, dl_Attempts = attempts, dl_LastAttempt = dw_now w,
                   dl_LastError = lastError, dl_CreatedAt = dw_created w\<rparr>;
          dead = (\<lambda>q. let q1 = writeToDisk w entry q in q1\<lparr>dq_metrics := IncDeadLetter (dq_metrics q1)\<rparr>)
      in if attempts < dq_maxRetries q
         then (if length (dq_retryCh q) < retryCap then q\<lparr>dq_retryCh := dq_retryCh q @ [entry]\<rparr> else dead q)
         else dead q)"

text \<open>The wait before a retry, in nanoseconds; doubling wraps around.\<close>

fun doubled :: "nat \<Rightarrow> int \<Rightarrow> int" where
  "doubled 0 d = d"
| "doubled (Suc n) d = doubled n (int64 (d * 2))"

definition retry_backoff :: "DeadLetterQueue \<Rightarrow> DeadLetterEntry \<Rightarrow> int" where
  "retry_backoff q entry =
     (let backoff = doubled (nat (dl_Attempts entry)) (int64 (dq_retryBaseMS q * 1000000))
      in if backoff > 16000000000 then 16000000000 else backoff)"

definition retry_error :: "DeliveryResult \<Rightarrow> string" where
  "retry_error result =
     (let errMsg = (case dr_Error result of Some e \<Rightarrow> err_text e | None \<Rightarrow> ''delivery failed'')
      in if dr_StatusCode result > 0 then ''HTTP '' @ itoa (nat (dr_StatusCode result)) @ '': '' @ errMsg else errMsg)"

text \<open>
  A round of the retry loop: an entry is received, and once the timer has fired it is sent again.
  Between the two the entry is in neither the channel nor a file.
\<close>

definition retry_take :: "DeadLetterQueue \<Rightarrow> DeadLetterQueue" where
  "retry_take q =
     (case (dq_inHand q, dq_retryCh q) of
        (None, entry # rest) \<Rightarrow> q\<lparr>dq_inHand := Some entry, dq_retryCh := rest\<rparr>
      | _ \<Rightarrow> q)"

definition retry_send :: "draw \<Rightarrow> (Event \<Rightarrow> DestinationConfig \<Rightarrow> DeliveryResult) \<Rightarrow> DeadLetterQueue \<Rightarrow> DeadLetterQueue" where
  "retry_send w send q =
     (case dq_inHand q of
        None \<Rightarrow> q
      | Some entry \<Rightarrow>
          let q1 = q\<lparr>dq_inHand := None\<rparr>; result = send (dl_Event entry) (nr_Destination (dl_Rule entry))
          in if dr_Success result then q1\<lparr>dq_metrics := IncDeliverySuccess (dq_metrics q1)\<rparr>
             else DLQ_Enqueue w (q1\<lparr>dq_metrics := IncDeliveryRetry (dq_metrics q1)\<rparr>) (dl_Event entry) (dl_Rule entry)
                    (dl_Attempts entry + 1) (retry_error result))"

definition retry_round :: "(Event \<Rightarrow> DestinationConfig \<Rightarrow> DeliveryResult) \<Rightarrow> draw \<Rightarrow> DeadLetterQueue \<Rightarrow> DeadLetterQueue" where
  "retry_round send w q = retry_send w send (retry_take q)"

section \<open>Addresses that are refused\<close>

text \<open>The networks \<^verbatim>\<open>isPrivateIP\<close> stands for: an address and the number of leading bits.\<close>

fun ipv4 :: "byte list \<Rightarrow> nat" where
  "ipv4 [a, b, c, d] = unat a * 2 ^ 24 + unat b * 2 ^ 16 + unat c * 2 ^ 8 + unat d"
| "ipv4 _ = 0"

definition internal_networks :: "(byte list \<times> nat) list" where
  "internal_networks = [([10, 0, 0, 0], 8), ([127, 0, 0, 0], 8), ([169, 254, 0, 0], 16), ([172, 16, 0, 0], 12), ([192, 168, 0, 0], 16),
     ([224, 0, 0, 0], 24), ([0, 0, 0, 0], 32)]"

definition in_network :: "byte list \<Rightarrow> byte list \<times> nat \<Rightarrow> bool" where
  "in_network ip net \<longleftrightarrow> ipv4 ip div 2 ^ (32 - snd net) = ipv4 (fst net) div 2 ^ (32 - snd net)"

lemma byte_eq_nat: "(x :: byte) = y \<longleftrightarrow> unat x = unat y"
  by (simp add: word_unat_eq_iff)

lemma ipv4_div:
  fixes a b c d :: nat
  assumes "b < 256" "c < 256" "d < 256"
  shows "(a * 16777216 + b * 65536 + c * 256 + d) div 16777216 = a"
    "(a * 16777216 + b * 65536 + c * 256 + d) div 65536 = a * 256 + b"
    "(a * 16777216 + b * 65536 + c * 256 + d) div 1048576 = a * 16 + b div 16"
    "(a * 16777216 + b * 65536 + c * 256 + d) div 256 = a * 65536 + b * 256 + c"
  using assms by auto

lemma ipv4_digits:
  fixes a b c r :: nat
  shows "b < 256 \<Longrightarrow> a * 256 + b = r \<longleftrightarrow> a = r div 256 \<and> b = r mod 256"
    and "b < 256 \<Longrightarrow> a * 16 + b div 16 = r \<longleftrightarrow> a = r div 16 \<and> b div 16 = r mod 16"
  by auto

lemma ipv4_digits3:
  fixes a b c r :: nat
  assumes "b < 256" "c < 256"
  shows "a * 65536 + b * 256 + c = r \<longleftrightarrow> a = r div 256 div 256 \<and> b = r div 256 mod 256 \<and> c = r mod 256"
proof -
  have "a * 65536 + b * 256 + c = (a * 256 + b) * 256 + c" by simp
  then show ?thesis using ipv4_digits(1) [OF assms(2), of "a * 256 + b" r] ipv4_digits(1) [OF assms(1), of a "r div 256"] by (simp add: mult.commute [of a])
qed

lemma byte_less: "unat (x :: byte) < 256"
  using unsigned_less [of x] by simp

lemma isPrivateIP_networks:
  assumes "To4 ip = Some [a, b, c, d]"
  shows "isPrivateIP ip \<longleftrightarrow> list_ex (in_network [a, b, c, d]) internal_networks"
proof -
  have bd: "unat a < 256" "unat b < 256" "unat c < 256" "unat d < 256" by (rule byte_less)+
  have "To4 (replicate 16 0) = None" by code_simp
  then have ne: "ip \<noteq> replicate 16 0" using assms by auto
  show ?thesis
    using bd ne
    by (simp add: isPrivateIP_def IsLoopback_def IsLinkLocalUnicast_def IsLinkLocalMulticast_def IsPrivate_def IsUnspecified_def assms
        internal_networks_def in_network_def ipv4_div byte_eq_nat ipv4_digits ipv4_digits3)
qed

lemma validateWebhookURL_client [simp]: "validateWebhookURL (W\<lparr>web_Do := client\<rparr>) u = validateWebhookURL W u"
  by (cases W) (simp only: validateWebhookURL_def web.simps)

text \<open>
  C30. Webhooks are refused when their name resolves to an internal address. When the host name of a destination resolves to
  a list with an IPv4 address of a loopback, private, link-local or unspecified network, the
  delivery ends with a result that is neither successful nor retryable, and no request is made:
  the result is the same for every HTTP client.
\<close>

theorem webhook_never_internal:
  assumes "web_Parse W (dc_URL dest) = Inr parsed" "web_LookupIP W (pu_Hostname parsed) = Inr ips"
    and "ip \<in> set ips" "To4 ip = Some [a, b, c, d]" "list_ex (in_network [a, b, c, d]) internal_networks"
  shows "\<exists>e. \<forall>client. Webhook_Send (W\<lparr>web_Do := client\<rparr>) False deliveryID event dest = failed_delivery deliveryID False e"
proof -
  have "find isPrivateIP ips \<noteq> None" using assms(3-5) by (auto simp: find_None_iff isPrivateIP_networks)
  then obtain e where e: "validateWebhookURL W (dc_URL dest) = Inl e"
    using assms(1,2) by (cases "validateWebhookURL W (dc_URL dest)") (auto simp: validateWebhookURL_def split: if_splits)
  then show ?thesis by (auto simp: Webhook_Send_def)
qed

definition demo_web :: web where
  "demo_web = \<lparr>web_Parse = (\<lambda>_. Inr \<lparr>pu_Scheme = ''http'', pu_Hostname = ''meta''\<rparr>),
     web_LookupIP = (\<lambda>_. Inr [[8, 8, 8, 8], replicate 10 0 @ [255, 255, 172, 31, 0, 9]]), web_IPString = (\<lambda>_. ''''),
     web_JSON = (\<lambda>_. []), web_HMAC = (\<lambda>_ _. []), web_NewRequest = (\<lambda>_. None), web_Do = (\<lambda>_ _ _. Inr 200)\<rparr>"

definition demo_event :: Event where
  "demo_event = \<lparr>ev_EventID = ''e'', ev_EventType = ''s3:ObjectCreated:Put'', ev_Bucket = ''b'', ev_Key = ''k'', ev_VersionID = '''', ev_ETag = '''',
     ev_Size = 1, ev_Timestamp = 5, ev_RequesterARN = '''', ev_SourceIP = ''''\<rparr>"

definition demo_rule :: NotificationRule where
  "demo_rule = \<lparr>nr_ID = ''r'', nr_Events = [''s3:ObjectCreated:*''], nr_Prefix = '''', nr_Suffix = '''',
     nr_Destination = \<lparr>dc_Type = ''webhook'', dc_URL = ''http://meta/'', dc_Signing = None\<rparr>\<rparr>"

theorem webhook_never_internal_witness:
  "\<exists>e. \<forall>client. Webhook_Send (demo_web\<lparr>web_Do := client\<rparr>) False ''d'' demo_event (nr_Destination demo_rule) = failed_delivery ''d'' False e"
  by (rule webhook_never_internal [where ip = "replicate 10 0 @ [255, 255, 172, 31, 0, 9]" and ips = "[[8, 8, 8, 8], replicate 10 0 @ [255, 255, 172, 31, 0, 9]]"
        and a = 172 and b = 31 and c = 0 and d = 9 and parsed = "\<lparr>pu_Scheme = ''http'', pu_Hostname = ''meta''\<rparr>"])
    (simp_all add: demo_web_def To4_def in_network_def internal_networks_def)

section \<open>Giving up\<close>

text \<open>
  C31. A destination that never answers is given up. An entry that is alone in the retry channel
  with \<open>a\<close> attempts, when every further delivery fails and files can be written, is sent
  \<open>maxRetries - a\<close> more times; the channel is then empty, the last state of the entry is a file
  with \<open>maxRetries\<close> attempts, and the counters have moved by that many retries and one dead letter.
\<close>

theorem dlq_gives_up:
  assumes "dq_retryCh q = [entry]" "dq_inHand q = None" "dl_Attempts entry < dq_maxRetries q"
    and "\<And>e r. \<not> dr_Success (send e r)" "list_all dw_disk ws" "int (length ws) = dq_maxRetries q - dl_Attempts entry"
  shows "\<exists>dead. fold (retry_round send) ws q =
      q\<lparr>dq_retryCh := [], dq_inHand := None, dq_files := dq_files q @ [dead],
        dq_metrics := (dq_metrics q)\<lparr>mx_EventDeliveryRetryTotal := mx_EventDeliveryRetryTotal (dq_metrics q) + int (length ws),
                                    mx_DeadLetterTotal := mx_DeadLetterTotal (dq_metrics q) + 1\<rparr>\<rparr> \<and>
      dl_Event dead = dl_Event entry \<and> dl_Rule dead = dl_Rule entry \<and> dl_Attempts dead = dq_maxRetries q"
  using assms
proof (induction ws arbitrary: q entry)
  case (Cons w ws)
  show ?case
  proof (cases "dl_Attempts entry + 1 < dq_maxRetries q")
    case True
    define entry' where "entry' = \<lparr>dl_ID = dw_uuid w, dl_Event = dl_Event entry, dl_Rule = dl_Rule entry, dl_Attempts = dl_Attempts entry + 1,
      dl_LastAttempt = dw_now w, dl_LastError = retry_error (send (dl_Event entry) (nr_Destination (dl_Rule entry))), dl_CreatedAt = dw_created w\<rparr>"
    define q' where "q' = q\<lparr>dq_retryCh := [entry'], dq_inHand := None, dq_metrics := IncDeliveryRetry (dq_metrics q)\<rparr>"
    have "retry_round send w q = q'"
      using Cons.prems True
      by (simp add: retry_round_def retry_take_def retry_send_def DLQ_Enqueue_def Let_def q'_def entry'_def retryCap_def)
    moreover have "\<exists>dead. fold (retry_round send) ws q' =
        q'\<lparr>dq_retryCh := [], dq_inHand := None, dq_files := dq_files q' @ [dead],
          dq_metrics := (dq_metrics q')\<lparr>mx_EventDeliveryRetryTotal := mx_EventDeliveryRetryTotal (dq_metrics q') + int (length ws),
                                    mx_DeadLetterTotal := mx_DeadLetterTotal (dq_metrics q') + 1\<rparr>\<rparr> \<and>
        dl_Event dead = dl_Event entry' \<and> dl_Rule dead = dl_Rule entry' \<and> dl_Attempts dead = dq_maxRetries q'"
      using Cons.prems True by (intro Cons.IH) (auto simp: q'_def entry'_def)
    ultimately show ?thesis by (auto simp: q'_def entry'_def IncDeliveryRetry_def algebra_simps)
  next
    case False
    then have "int (length ws) = 0" "dl_Attempts entry + 1 = dq_maxRetries q" using Cons.prems(3,6) unfolding list.size by linarith+
    then show ?thesis
      using Cons.prems
      by (auto simp: retry_round_def retry_take_def retry_send_def DLQ_Enqueue_def writeToDisk_def IncDeliveryRetry_def IncDeadLetter_def Let_def)
  qed
qed simp

definition demo_draw :: draw where
  "demo_draw = \<lparr>dw_uuid = ''0123456789'', dw_now = 7, dw_created = 8, dw_disk = True\<rparr>"

definition demo_entry :: DeadLetterEntry where
  "demo_entry = \<lparr>dl_ID = ''0123456789'', dl_Event = demo_event, dl_Rule = demo_rule, dl_Attempts = 1, dl_LastAttempt = 6,
     dl_LastError = '''', dl_CreatedAt = 6\<rparr>"

theorem dlq_gives_up_witness:
  "\<exists>dead. fold (retry_round (\<lambda>e r. failed_delivery ''d'' True (Err ''down''))) [demo_draw, demo_draw]
        ((NewDeadLetterQueue 0 0 NewMetrics)\<lparr>dq_retryCh := [demo_entry]\<rparr>) =
      (NewDeadLetterQueue 0 0 NewMetrics)\<lparr>dq_files := [dead], dq_metrics := NewMetrics\<lparr>mx_EventDeliveryRetryTotal := 2, mx_DeadLetterTotal := 1\<rparr>\<rparr> \<and>
      dl_Attempts dead = 3"
  using dlq_gives_up [of "(NewDeadLetterQueue 0 0 NewMetrics)\<lparr>dq_retryCh := [demo_entry]\<rparr>" demo_entry "\<lambda>e r. failed_delivery ''d'' True (Err ''down'')"
      "[demo_draw, demo_draw]"]
  by (auto simp: NewDeadLetterQueue_def NewMetrics_def demo_entry_def demo_draw_def failed_delivery_def)

end
