(* ===== verification/Event_Bus.thy ===== *)
theory Event_Bus
  imports Event_Delivery "HOL-Library.Multiset" "HOL-Library.Sublist"
begin

text \<open>
  Event notifications, second part: the bus of \<^verbatim>\<open>internal/events/bus.go\<close> as a transition system. Its
  goroutines are the publishers, the dispatch loop, the workers and the retry loop; a step is one
  operation of one of them on a channel or on the shared state, and steps interleave freely. A
  label says what a step did, so a run has a trace.

  The dispatch loop that waits for room in a worker's channel is \<open>eb_pending\<close>; a publisher between
  \<^verbatim>\<open>drainWg.Add\<close> and the end of its \<^verbatim>\<open>select\<close> is in \<open>eb_waiting\<close>; a worker within \<^verbatim>\<open>deliver\<close> has the rules it
  has still to serve in \<open>wk_current\<close>. Callbacks are numbered. A worker that is stopped before the bus was started counts as
  having exited; a later \<^verbatim>\<open>Start\<close> of the code would still run its loop.
\<close>

section \<open>State\<close>

record eventDelivery =
  ed_event :: Event
  ed_rules :: "NotificationRule list"

record eventWorker =
  wk_ch :: "eventDelivery list"
  wk_current :: "eventDelivery option"
  wk_stop :: bool
  wk_exited :: bool

datatype dispatcher = NotStarted | Running | Draining | Exited

record EventBus =
  eb_subscriptions :: "(string \<times> NotificationRule list) list"
  eb_callbacks :: "(string \<times> nat) list"
  eb_workers :: "eventWorker list"
  eb_numWorkers :: nat
  eb_dlq :: DeadLetterQueue
  eb_eventCh :: "Event list"
  eb_stop :: bool
  eb_drainWg :: int
  eb_dispatcher :: dispatcher
  eb_pending :: "(nat \<times> eventDelivery) option"
  eb_waiting :: "Event list"
  eb_drainWaited :: bool

definition workerCap :: nat where "workerCap = 256"
definition eventCap :: nat where "eventCap = 4096"

definition newEventWorker :: eventWorker where
  "newEventWorker = \<lparr>wk_ch = [], wk_current = None, wk_stop = False, wk_exited = False\<rparr>"

definition NewEventBus :: "int \<Rightarrow> int \<Rightarrow> int \<Rightarrow> EventBus" where
  "NewEventBus numWorkers maxRetries retryBaseMS =
     (let n = nat (if numWorkers \<le> 0 then 16 else numWorkers)
      in \<lparr>eb_subscriptions = [], eb_callbacks = [], eb_workers = replicate n newEventWorker, eb_numWorkers = n,
          eb_dlq = NewDeadLetterQueue maxRetries retryBaseMS NewMetrics, eb_eventCh = [], eb_stop = False, eb_drainWg = 0,
          eb_dispatcher = NotStarted, eb_pending = None, eb_waiting = [], eb_drainWaited = False\<rparr>)"

section \<open>Operations\<close>

definition sub_rules :: "(string \<times> NotificationRule list) list \<Rightarrow> string \<Rightarrow> NotificationRule list" where
  "sub_rules m bucket = (case map_of m bucket of None \<Rightarrow> [] | Some rs \<Rightarrow> rs)"

fun sub_update :: "string \<Rightarrow> NotificationRule list \<Rightarrow> (string \<times> NotificationRule list) list \<Rightarrow> (string \<times> NotificationRule list) list" where
  "sub_update b rs [] = [(b, rs)]"
| "sub_update b rs ((b', rs') # m) = (if b' = b then (b, rs) # m else (b', rs') # sub_update b rs m)"

definition Subscribe :: "string \<Rightarrow> NotificationRule \<Rightarrow> EventBus \<Rightarrow> EventBus" where
  "Subscribe bucket rule b =
     b\<lparr>eb_subscriptions := sub_update bucket (sub_rules (eb_subscriptions b) bucket @ [rule]) (eb_subscriptions b)\<rparr>"

definition Unsubscribe :: "string \<Rightarrow> string \<Rightarrow> EventBus \<Rightarrow> EventBus" where
  "Unsubscribe bucket ruleID b =
     (case map_of (eb_subscriptions b) bucket of
        None \<Rightarrow> b
      | Some rs \<Rightarrow> b\<lparr>eb_subscriptions := sub_update bucket (filter (\<lambda>r. nr_ID r \<noteq> ruleID) rs) (eb_subscriptions b)\<rparr>)"

definition SubscribeCallback :: "string \<Rightarrow> nat \<Rightarrow> EventBus \<Rightarrow> EventBus" where
  "SubscribeCallback bucket fn b = b\<lparr>eb_callbacks := eb_callbacks b @ [(bucket, fn)]\<rparr>"

definition prepare_event :: "string \<Rightarrow> gotime \<Rightarrow> Event \<Rightarrow> Event" where
  "prepare_event uuid now event =
     (let e = (if ev_EventID event = '''' then event\<lparr>ev_EventID := uuid\<rparr> else event)
      in if IsZero (ev_Timestamp e) then e\<lparr>ev_Timestamp := now\<rparr> else e)"

text \<open>\<^verbatim>\<open>Publish\<close> up to its \<^verbatim>\<open>select\<close>, and the two ways the select ends.\<close>

definition publish_begin :: "string \<Rightarrow> gotime \<Rightarrow> Event \<Rightarrow> EventBus \<Rightarrow> EventBus" where
  "publish_begin uuid now event b = b\<lparr>eb_drainWg := eb_drainWg b + 1, eb_waiting := eb_waiting b @ [prepare_event uuid now event]\<rparr>"

definition publish_send :: "Event \<Rightarrow> EventBus \<Rightarrow> EventBus" where
  "publish_send e b = b\<lparr>eb_waiting := remove1 e (eb_waiting b), eb_eventCh := eb_eventCh b @ [e]\<rparr>"

definition publish_abandon :: "Event \<Rightarrow> EventBus \<Rightarrow> EventBus" where
  "publish_abandon e b = b\<lparr>eb_waiting := remove1 e (eb_waiting b), eb_drainWg := eb_drainWg b - 1\<rparr>"

text \<open>FNV-1a with 32 bits.\<close>

definition fnv1a :: "string \<Rightarrow> 32 word" where
  "fnv1a key = foldl (\<lambda>h c. xor h (of_nat (of_char c)) * 16777619) 2166136261 key"

definition keyToWorker :: "EventBus \<Rightarrow> string \<Rightarrow> nat" where
  "keyToWorker b key = unat (fnv1a key) mod eb_numWorkers b"

text \<open>The range over the map of subscriptions visits them in the order \<open>m\<close>.\<close>

fun getMatchingRules :: "(string \<times> NotificationRule list) list \<Rightarrow> Event \<Rightarrow> NotificationRule list" where
  "getMatchingRules [] event = []"
| "getMatchingRules ((bucket, subs) # m) event =
     (if bucket \<noteq> ''*'' \<and> bucket \<noteq> ev_Bucket event then getMatchingRules m event
      else filter (\<lambda>r. Rule_Matches r event) subs @ getMatchingRules m event)"

definition invokeCallbacks :: "EventBus \<Rightarrow> Event \<Rightarrow> nat list" where
  "invokeCallbacks b event = map snd (filter (\<lambda>(bucket, fn). bucket = ''*'' \<or> bucket = ev_Bucket event) (eb_callbacks b))"

text \<open>\<^verbatim>\<open>dispatch\<close> up to the send on the worker's channel.\<close>

definition dispatch :: "(string \<times> NotificationRule list) list \<Rightarrow> Event \<Rightarrow> EventBus \<Rightarrow> EventBus" where
  "dispatch m event b =
     (let rules = getMatchingRules m event
      in if rules = [] then b\<lparr>eb_drainWg := eb_drainWg b - 1\<rparr>
         else b\<lparr>eb_pending := Some (keyToWorker b (ev_Key event), \<lparr>ed_event = event, ed_rules = rules\<rparr>)\<rparr>)"

definition on_worker :: "nat \<Rightarrow> (eventWorker \<Rightarrow> eventWorker) \<Rightarrow> EventBus \<Rightarrow> EventBus" where
  "on_worker w f b = b\<lparr>eb_workers := (eb_workers b)[w := f (eb_workers b ! w)]\<rparr>"

definition worker_enqueue :: "nat \<Rightarrow> eventDelivery \<Rightarrow> EventBus \<Rightarrow> EventBus" where
  "worker_enqueue w d b = (on_worker w (\<lambda>x. x\<lparr>wk_ch := wk_ch x @ [d]\<rparr>) b)\<lparr>eb_pending := None\<rparr>"

definition worker_take :: "nat \<Rightarrow> EventBus \<Rightarrow> EventBus" where
  "worker_take w = on_worker w (\<lambda>x. x\<lparr>wk_ch := tl (wk_ch x), wk_current := Some (hd (wk_ch x))\<rparr>)"

definition deliver_error :: "DeliveryResult \<Rightarrow> string" where
  "deliver_error result = (case dr_Error result of Some e \<Rightarrow> err_text e | None \<Rightarrow> '''')"

text \<open>One rule of a delivery, with the result of the sender.\<close>

definition deliver_rule :: "draw \<Rightarrow> DeliveryResult \<Rightarrow> Event \<Rightarrow> NotificationRule \<Rightarrow> DeadLetterQueue \<Rightarrow> DeadLetterQueue" where
  "deliver_rule dw result event rule q =
     (if dc_Type (nr_Destination rule) = ''webhook'' then
        (if dr_Success result then q\<lparr>dq_metrics := IncDeliverySuccess (dq_metrics q)\<rparr>
         else DLQ_Enqueue dw (q\<lparr>dq_metrics := IncDeliveryFailed (dq_metrics q)\<rparr>) event rule 1 (deliver_error result))
      else q\<lparr>dq_metrics := IncDeliveryFailed (dq_metrics q)\<rparr>)"

definition worker_deliver :: "nat \<Rightarrow> draw \<Rightarrow> DeliveryResult \<Rightarrow> Event \<Rightarrow> NotificationRule \<Rightarrow> NotificationRule list \<Rightarrow> EventBus \<Rightarrow> EventBus" where
  "worker_deliver w dw result event rule rest b =
     (on_worker w (\<lambda>x. x\<lparr>wk_current := Some \<lparr>ed_event = event, ed_rules = rest\<rparr>\<rparr>) b)\<lparr>eb_dlq := deliver_rule dw result event rule (eb_dlq b)\<rparr>"

definition worker_done :: "nat \<Rightarrow> EventBus \<Rightarrow> EventBus" where
  "worker_done w b = (on_worker w (\<lambda>x. x\<lparr>wk_current := None\<rparr>) b)\<lparr>eb_drainWg := eb_drainWg b - 1\<rparr>"

section \<open>Steps\<close>

datatype label = LPublish Event | LAccept Event | LAbandon Event | LDispatch Event "NotificationRule list" "nat list"
  | LEnqueue nat eventDelivery | LTake nat eventDelivery | LDeliver nat Event NotificationRule DeliveryResult | LDone nat
  | LRetry | LConfigure | LStart | LStop | LDrain | LDispatcherExit | LDrainWait bool | LStopWorker nat | LWorkerExit nat | LStopDLQ

inductive bus_step :: "EventBus \<Rightarrow> label \<Rightarrow> EventBus \<Rightarrow> bool" where
  subscribe: "bus_step b LConfigure (Subscribe bucket rule b)"
| unsubscribe: "bus_step b LConfigure (Unsubscribe bucket ruleID b)"
| callback: "bus_step b LConfigure (SubscribeCallback bucket fn b)"
| start: "eb_dispatcher b = NotStarted \<Longrightarrow> bus_step b LStart (b\<lparr>eb_dispatcher := Running\<rparr>)"
| publish: "bus_step b (LPublish (prepare_event uuid now event)) (publish_begin uuid now event b)"
| accept: "e \<in> set (eb_waiting b) \<Longrightarrow> length (eb_eventCh b) < eventCap \<Longrightarrow> bus_step b (LAccept e) (publish_send e b)"
| abandon: "e \<in> set (eb_waiting b) \<Longrightarrow> bus_step b (LAbandon e) (publish_abandon e b)"
| dispatch: "eb_dispatcher b \<in> {Running, Draining} \<Longrightarrow> eb_pending b = None \<Longrightarrow> eb_eventCh b = e # es \<Longrightarrow>
    mset m = mset (eb_subscriptions b) \<Longrightarrow>
    bus_step b (LDispatch e (getMatchingRules m e) (invokeCallbacks b e)) (dispatch m e (b\<lparr>eb_eventCh := es\<rparr>))"
| enqueue: "eb_pending b = Some (w, d) \<Longrightarrow> length (wk_ch (eb_workers b ! w)) < workerCap \<Longrightarrow>
    bus_step b (LEnqueue w d) (worker_enqueue w d b)"
| take: "w < length (eb_workers b) \<Longrightarrow> eb_dispatcher b \<noteq> NotStarted \<Longrightarrow> \<not> wk_exited (eb_workers b ! w) \<Longrightarrow>
    wk_current (eb_workers b ! w) = None \<Longrightarrow> wk_ch (eb_workers b ! w) = d # ds \<Longrightarrow> bus_step b (LTake w d) (worker_take w b)"
| deliver: "w < length (eb_workers b) \<Longrightarrow> wk_current (eb_workers b ! w) = Some d \<Longrightarrow> ed_rules d = rule # rest \<Longrightarrow>
    bus_step b (LDeliver w (ed_event d) rule result) (worker_deliver w dw result (ed_event d) rule rest b)"
| finish: "w < length (eb_workers b) \<Longrightarrow> wk_current (eb_workers b ! w) = Some d \<Longrightarrow> ed_rules d = [] \<Longrightarrow>
    bus_step b (LDone w) (worker_done w b)"
| retry_take: "eb_dispatcher b \<noteq> NotStarted \<Longrightarrow> \<not> dq_stopped (eb_dlq b) \<Longrightarrow> bus_step b LRetry (b\<lparr>eb_dlq := retry_take (eb_dlq b)\<rparr>)"
| retry_send: "\<not> dq_stopped (eb_dlq b) \<Longrightarrow> bus_step b LRetry (b\<lparr>eb_dlq := retry_send dw send (eb_dlq b)\<rparr>)"
| stop: "bus_step b LStop (b\<lparr>eb_stop := True\<rparr>)"
| drain: "eb_stop b \<Longrightarrow> eb_dispatcher b = Running \<Longrightarrow> eb_pending b = None \<Longrightarrow> bus_step b LDrain (b\<lparr>eb_dispatcher := Draining\<rparr>)"
| dispatcher_exit: "eb_dispatcher b = Draining \<Longrightarrow> eb_pending b = None \<Longrightarrow> eb_eventCh b = [] \<Longrightarrow>
    bus_step b LDispatcherExit (b\<lparr>eb_dispatcher := Exited\<rparr>)"
| drain_wait: "eb_stop b \<Longrightarrow> eb_dispatcher b \<in> {NotStarted, Exited} \<Longrightarrow> (drained \<longrightarrow> eb_drainWg b = 0) \<Longrightarrow>
    bus_step b (LDrainWait drained) (b\<lparr>eb_drainWaited := True\<rparr>)"
| stop_worker: "eb_drainWaited b \<Longrightarrow> w < length (eb_workers b) \<Longrightarrow> list_all wk_exited (take w (eb_workers b)) \<Longrightarrow>
    bus_step b (LStopWorker w) (on_worker w (\<lambda>x. x\<lparr>wk_stop := True\<rparr>) b)"
| worker_exit: "w < length (eb_workers b) \<Longrightarrow> wk_stop (eb_workers b ! w) \<Longrightarrow> wk_current (eb_workers b ! w) = None \<Longrightarrow>
    bus_step b (LWorkerExit w) (on_worker w (\<lambda>x. x\<lparr>wk_exited := True\<rparr>) b)"
| stop_dlq: "eb_drainWaited b \<Longrightarrow> list_all wk_exited (eb_workers b) \<Longrightarrow> bus_step b LStopDLQ (b\<lparr>eb_dlq := (eb_dlq b)\<lparr>dq_stopped := True\<rparr>\<rparr>)"

inductive bus_run :: "EventBus \<Rightarrow> label list \<Rightarrow> EventBus \<Rightarrow> bool" for b0 where
  empty: "bus_run b0 [] b0"
| more: "bus_run b0 tr b \<Longrightarrow> bus_step b l b' \<Longrightarrow> bus_run b0 (tr @ [l]) b'"


section \<open>The count of events in flight\<close>

definition load :: "eventWorker \<Rightarrow> int" where
  "load x = int (length (wk_ch x)) + (if wk_current x = None then 0 else 1)"

definition in_flight :: "EventBus \<Rightarrow> int" where
  "in_flight b = int (length (eb_waiting b)) + int (length (eb_eventCh b)) + (if eb_pending b = None then 0 else 1) +
     sum_list (map load (eb_workers b))"

definition bus_ok :: "EventBus \<Rightarrow> bool" where
  "bus_ok b \<longleftrightarrow> 0 < eb_numWorkers b \<and> length (eb_workers b) = eb_numWorkers b \<and> eb_drainWg b = in_flight b \<and>
     (\<forall>w d. eb_pending b = Some (w, d) \<longrightarrow> w = keyToWorker b (ev_Key (ed_event d)))"

lemma keyToWorker_less: "0 < eb_numWorkers b \<Longrightarrow> keyToWorker b key < eb_numWorkers b"
  by (simp add: keyToWorker_def)

lemma keyToWorker_cong [simp]:
  "keyToWorker (b\<lparr>eb_eventCh := x1\<rparr>) = keyToWorker b" "keyToWorker (on_worker w f b) = keyToWorker b"
  "keyToWorker (b\<lparr>eb_pending := x2\<rparr>) = keyToWorker b" "keyToWorker (b\<lparr>eb_drainWg := x3\<rparr>) = keyToWorker b"
  "keyToWorker (b\<lparr>eb_dlq := x4\<rparr>) = keyToWorker b" "keyToWorker (b\<lparr>eb_subscriptions := x5\<rparr>) = keyToWorker b"
  by (simp_all add: keyToWorker_def on_worker_def fun_eq_iff)

lemma sum_load_update:
  "w < length ws \<Longrightarrow> sum_list (map load (ws[w := x])) = sum_list (map load ws) - load (ws ! w) + load x"
  by (induction ws arbitrary: w) (auto split: nat.splits)

lemma length_remove1_mem: "e \<in> set xs \<Longrightarrow> int (length (remove1 e xs)) = int (length xs) - 1"
  by (induction xs) auto

lemmas bus_op_defs = Subscribe_def Unsubscribe_def SubscribeCallback_def publish_begin_def publish_send_def publish_abandon_def dispatch_def
  worker_enqueue_def worker_take_def worker_deliver_def worker_done_def on_worker_def

lemma bus_ok_step:
  assumes "bus_step b l b'" "bus_ok b"
  shows "bus_ok b'"
  using assms
proof (induction rule: bus_step.induct)
  case (unsubscribe b bucket ruleID)
  then show ?case by (auto simp: bus_ok_def in_flight_def keyToWorker_def Unsubscribe_def split: option.splits)
next
  case (enqueue b w d)
  then have "w < length (eb_workers b)" using keyToWorker_less by (auto simp: bus_ok_def)
  then show ?case using enqueue by (auto simp: bus_ok_def in_flight_def keyToWorker_def worker_enqueue_def on_worker_def sum_load_update load_def)
next
  case (dispatch b e es m)
  then show ?case by (auto simp: bus_ok_def in_flight_def keyToWorker_def dispatch_def Let_def)
qed (auto simp: bus_ok_def in_flight_def keyToWorker_def bus_op_defs sum_load_update load_def length_remove1_mem)

lemma bus_ok_run: "bus_run b0 tr b \<Longrightarrow> bus_ok b0 \<Longrightarrow> bus_ok b"
  by (induction rule: bus_run.induct) (auto intro: bus_ok_step)

lemma bus_ok_New: "bus_ok (NewEventBus n r m)"
  by (auto simp: bus_ok_def NewEventBus_def in_flight_def newEventWorker_def load_def Let_def sum_list_replicate)

section \<open>What a trace says\<close>

definition accepted :: "label list \<Rightarrow> Event list" where
  "accepted tr = concat (map (\<lambda>l. case l of LAccept e \<Rightarrow> [e] | _ \<Rightarrow> []) tr)"

definition dispatched :: "label list \<Rightarrow> Event list" where
  "dispatched tr = concat (map (\<lambda>l. case l of LDispatch e _ _ \<Rightarrow> [e] | _ \<Rightarrow> []) tr)"

definition routed :: "label list \<Rightarrow> eventDelivery list" where
  "routed tr = concat (map (\<lambda>l. case l of LDispatch e rs _ \<Rightarrow> if rs = [] then [] else [\<lparr>ed_event = e, ed_rules = rs\<rparr>] | _ \<Rightarrow> []) tr)"

definition taken :: "nat \<Rightarrow> label list \<Rightarrow> eventDelivery list" where
  "taken w tr = concat (map (\<lambda>l. case l of LTake w' d \<Rightarrow> if w' = w then [d] else [] | _ \<Rightarrow> []) tr)"

definition delivered :: "nat \<Rightarrow> label list \<Rightarrow> (Event \<times> NotificationRule) list" where
  "delivered w tr = concat (map (\<lambda>l. case l of LDeliver w' e r _ \<Rightarrow> if w' = w then [(e, r)] else [] | _ \<Rightarrow> []) tr)"

lemmas trace_defs = accepted_def dispatched_def routed_def taken_def delivered_def

definition tries :: "eventDelivery \<Rightarrow> (Event \<times> NotificationRule) list" where
  "tries d = map (Pair (ed_event d)) (ed_rules d)"

definition pending_for :: "nat \<Rightarrow> EventBus \<Rightarrow> eventDelivery list" where
  "pending_for w b = (case eb_pending b of Some (w', d) \<Rightarrow> if w' = w then [d] else [] | None \<Rightarrow> [])"

definition current_tries :: "nat \<Rightarrow> EventBus \<Rightarrow> (Event \<times> NotificationRule) list" where
  "current_tries w b = (case wk_current (eb_workers b ! w) of Some d \<Rightarrow> tries d | None \<Rightarrow> [])"

text \<open>The channels hold what the trace has not yet passed on.\<close>

definition worker_trace :: "label list \<Rightarrow> EventBus \<Rightarrow> nat \<Rightarrow> bool" where
  "worker_trace tr b w \<longleftrightarrow>
     filter (\<lambda>d. keyToWorker b (ev_Key (ed_event d)) = w) (routed tr) = taken w tr @ wk_ch (eb_workers b ! w) @ pending_for w b \<and>
     concat (map tries (taken w tr)) = delivered w tr @ current_tries w b"

lemma trace_snoc [simp]:
  "accepted (tr @ [l]) = accepted tr @ accepted [l]" "dispatched (tr @ [l]) = dispatched tr @ dispatched [l]"
  "routed (tr @ [l]) = routed tr @ routed [l]" "taken w (tr @ [l]) = taken w tr @ taken w [l]" "delivered w (tr @ [l]) = delivered w tr @ delivered w [l]"
  by (simp_all add: trace_defs)

lemma queue_step: "bus_step b l b' \<Longrightarrow> accepted tr = dispatched tr @ eb_eventCh b \<Longrightarrow> accepted (tr @ [l]) = dispatched (tr @ [l]) @ eb_eventCh b'"
  unfolding trace_snoc
  by (induction rule: bus_step.induct) (auto simp: bus_op_defs accepted_def dispatched_def Let_def split: option.splits)


lemma worker_trace_step:
  assumes "bus_step b l b'" "bus_ok b" "worker_trace tr b w" "w < length (eb_workers b)"
  shows "worker_trace (tr @ [l]) b' w"
  using assms
proof (induction rule: bus_step.induct)
  case (unsubscribe b bucket ruleID)
  then show ?case by (auto simp: worker_trace_def trace_defs Unsubscribe_def pending_for_def current_tries_def keyToWorker_def split: option.splits)
next
  case (dispatch b e es m)
  then show ?case
    by (auto simp: worker_trace_def trace_defs dispatch_def Let_def pending_for_def current_tries_def keyToWorker_def)
next
  case (enqueue b w' d)
  then have "w' < length (eb_workers b)" using keyToWorker_less by (auto simp: bus_ok_def)
  then show ?case using enqueue
    by (auto simp: worker_trace_def trace_defs worker_enqueue_def on_worker_def pending_for_def current_tries_def keyToWorker_def nth_list_update)
next
  case (take w' b d ds)
  then show ?case
    by (auto simp: worker_trace_def trace_defs worker_take_def on_worker_def pending_for_def current_tries_def keyToWorker_def nth_list_update)
next
  case (deliver w' b d rule rest result dw)
  then show ?case
    by (auto simp: worker_trace_def trace_defs worker_deliver_def on_worker_def pending_for_def current_tries_def keyToWorker_def nth_list_update tries_def)
next
  case (finish w' b d)
  then show ?case
    by (auto simp: worker_trace_def trace_defs worker_done_def on_worker_def pending_for_def current_tries_def keyToWorker_def nth_list_update tries_def)
qed (auto simp: worker_trace_def trace_defs bus_op_defs pending_for_def current_tries_def keyToWorker_def nth_list_update)

lemma workers_step: "bus_step b l b' \<Longrightarrow> length (eb_workers b') = length (eb_workers b) \<and> eb_numWorkers b' = eb_numWorkers b"
  by (induction rule: bus_step.induct) (auto simp: bus_op_defs Let_def split: option.splits)

lemma run_trace:
  assumes "bus_run (NewEventBus n r m) tr b"
  shows "bus_ok b \<and> accepted tr = dispatched tr @ eb_eventCh b \<and> (\<forall>w < eb_numWorkers b. worker_trace tr b w)"
  using assms
proof (induction rule: bus_run.induct)
  case empty
  show ?case using bus_ok_New [of n r m]
    by (auto simp: trace_defs worker_trace_def NewEventBus_def Let_def newEventWorker_def pending_for_def current_tries_def)
next
  case (more tr b l b')
  then show ?case
    using bus_ok_step [OF more(2)] queue_step [OF more(2)] worker_trace_step [OF more(2)] workers_step [OF more(2)] by (auto simp: bus_ok_def)
qed


section \<open>Properties\<close>

lemma sum_load_nonneg: "0 \<le> sum_list (map load ws)"
  by (induction ws) (auto simp: load_def)

lemma sum_load_zero: "sum_list (map load ws) = 0 \<Longrightarrow> x \<in> set ws \<Longrightarrow> wk_ch x = [] \<and> wk_current x = None"
proof (induction ws)
  case (Cons y ws)
  have "0 \<le> load y" by (simp add: load_def)
  then have "load y = 0" "sum_list (map load ws) = 0" using Cons.prems(1) sum_load_nonneg [of ws] by simp_all
  then show ?case using Cons by (auto simp: load_def split: if_splits)
qed simp

lemma in_flight_nonneg: "0 \<le> in_flight b"
  using sum_load_nonneg [of "eb_workers b"] by (simp add: in_flight_def)

lemma in_flight_zero:
  assumes "in_flight b = 0"
  shows "eb_waiting b = [] \<and> eb_eventCh b = [] \<and> eb_pending b = None \<and> sum_list (map load (eb_workers b)) = 0"
proof -
  have "0 \<le> (if eb_pending b = None then 0 else (1 :: int))" by simp
  then have "int (length (eb_waiting b)) = 0" "int (length (eb_eventCh b)) = 0" "(if eb_pending b = None then 0 else (1 :: int)) = 0"
    "sum_list (map load (eb_workers b)) = 0"
    using assms sum_load_nonneg [of "eb_workers b"] unfolding in_flight_def by linarith+
  then show ?thesis by (simp split: if_splits)
qed

text \<open>
  C21. The drain counter of the bus is exact. In every run, \<^verbatim>\<open>drainWg\<close> is the number of events that
  are with a publisher, in the event channel, with the dispatch loop, in a worker's channel or in
  delivery; it is never negative (which would panic), and when it is 0, the moment at which \<^verbatim>\<open>Stop\<close> goes
  on without a timeout, every channel is empty and every worker is idle.
\<close>

theorem drain_counts_in_flight:
  assumes "bus_run (NewEventBus n r m) tr b"
  shows "eb_drainWg b = in_flight b \<and> 0 \<le> eb_drainWg b \<and>
    (eb_drainWg b = 0 \<longrightarrow> eb_waiting b = [] \<and> eb_eventCh b = [] \<and> eb_pending b = None \<and>
       list_all (\<lambda>x. wk_ch x = [] \<and> wk_current x = None) (eb_workers b))"
proof -
  have "eb_drainWg b = in_flight b" using run_trace [OF assms] by (simp add: bus_ok_def)
  then show ?thesis
    using in_flight_nonneg [of b] in_flight_zero [of b] sum_load_zero [of "eb_workers b"] by (auto simp: list_all_iff)
qed

lemma late_run:
  assumes "prepare_event i t e = e" "eb_dispatcher b0 = NotStarted" "eb_eventCh b0 = []" "eb_waiting b0 = []" "eb_pending b0 = None"
  shows "bus_run b0 [LStart, LStop, LDrain, LDispatcherExit, LPublish e, LAccept e]
      (b0\<lparr>eb_stop := True, eb_dispatcher := Exited, eb_drainWg := eb_drainWg b0 + 1, eb_waiting := [], eb_eventCh := [e]\<rparr>)"
proof -
  have "bus_run b0 ([] @ [LStart]) (b0\<lparr>eb_dispatcher := Running\<rparr>)"
    using assms by (intro bus_run.more [OF bus_run.empty] bus_step.start)
  from bus_run.more [OF this bus_step.stop]
  have "bus_run b0 [LStart, LStop] (b0\<lparr>eb_dispatcher := Running, eb_stop := True\<rparr>)" by simp
  from bus_run.more [OF this bus_step.drain]
  have "bus_run b0 [LStart, LStop, LDrain] (b0\<lparr>eb_stop := True, eb_dispatcher := Draining\<rparr>)" using assms by simp
  from bus_run.more [OF this bus_step.dispatcher_exit]
  have "bus_run b0 [LStart, LStop, LDrain, LDispatcherExit] (b0\<lparr>eb_stop := True, eb_dispatcher := Exited\<rparr>)" using assms by simp
  from bus_run.more [OF this bus_step.publish [where uuid = i and now = t and event = e]]
  have "bus_run b0 [LStart, LStop, LDrain, LDispatcherExit, LPublish e]
      (b0\<lparr>eb_stop := True, eb_dispatcher := Exited, eb_drainWg := eb_drainWg b0 + 1, eb_waiting := [e]\<rparr>)"
    using assms by (simp add: publish_begin_def)
  from bus_run.more [OF this bus_step.accept [where e = e]]
  show ?thesis using assms by (simp add: publish_send_def eventCap_def)
qed

lemma exited_step:
  "bus_step b l b' \<Longrightarrow> eb_dispatcher b = Exited \<Longrightarrow> eb_dispatcher b' = Exited \<and> dispatched [l] = [] \<and> prefix (eb_eventCh b) (eb_eventCh b')"
  by (induction rule: bus_step.induct) (auto simp: bus_op_defs dispatched_def Let_def split: option.splits)

lemma exited_run:
  "bus_run b tr b' \<Longrightarrow> eb_dispatcher b = Exited \<Longrightarrow> eb_dispatcher b' = Exited \<and> dispatched tr = [] \<and> prefix (eb_eventCh b) (eb_eventCh b')"
proof (induction rule: bus_run.induct)
  case empty
  then show ?case by (simp add: dispatched_def)
next
  case (more tr b1 l b')
  then show ?case using exited_step [OF more(2)] by (auto intro: prefix_order.trans)
qed

text \<open>
  C35. An event can be accepted and then lost. A publisher that reaches its \<^verbatim>\<open>select\<close> after the dispatch loop has
  drained the channel may still send, because a select with several ready cases picks any of them: a bus that
  was started and stopped then holds the event in its channel, no later run ever
  dispatches it, and the drain counter stays positive, so that \<^verbatim>\<open>Stop\<close> waits for its whole timeout.
\<close>

theorem late_publish_lost:
  assumes "ev_EventID e \<noteq> ''''" "\<not> IsZero (ev_Timestamp e)"
  shows "\<exists>tr b. bus_run (NewEventBus n r m) tr b \<and> accepted tr = [e] \<and> dispatched tr = [] \<and>
    (\<forall>tr' b'. bus_run b tr' b' \<longrightarrow> e \<in> set (eb_eventCh b') \<and> dispatched tr' = [] \<and> 0 < eb_drainWg b')"
proof -
  let ?start = "NewEventBus n r m"
  let ?b = "?start\<lparr>eb_stop := True, eb_dispatcher := Exited, eb_drainWg := eb_drainWg ?start + 1, eb_waiting := [], eb_eventCh := [e]\<rparr>"
  let ?tr = "[LStart, LStop, LDrain, LDispatcherExit, LPublish e, LAccept e]"
  have run: "bus_run ?start ?tr ?b"
    by (rule late_run) (use assms in \<open>simp_all add: NewEventBus_def Let_def prepare_event_def\<close>)
  have "e \<in> set (eb_eventCh b') \<and> dispatched tr' = [] \<and> 0 < eb_drainWg b'" if "bus_run ?b tr' b'" for tr' b'
  proof -
    have q: "dispatched tr' = []" "prefix [e] (eb_eventCh b')" using exited_run [OF that] by simp_all
    have "bus_ok b'" using bus_ok_run [OF that] bus_ok_run [OF run bus_ok_New] by simp
    then have "eb_drainWg b' \<noteq> 0" "0 \<le> eb_drainWg b'" using in_flight_zero [of b'] in_flight_nonneg [of b'] q(2) by (auto simp: bus_ok_def)
    then show ?thesis using q by (auto simp: prefix_def)
  qed
  then show ?thesis using run by (intro exI [of _ ?tr] exI [of _ ?b]) (simp add: accepted_def dispatched_def)
qed


lemma routed_dispatched: "subseq (map ed_event (routed tr)) (dispatched tr)"
  by (induction tr) (auto simp: routed_def dispatched_def split: label.splits)

lemma filter_key_worker:
  assumes "filter (\<lambda>d. keyToWorker b (ev_Key (ed_event d)) = w) ds = xs"
  shows "filter (\<lambda>d. ev_Key (ed_event d) = k) xs =
    (if keyToWorker b k = w then filter (\<lambda>d. ev_Key (ed_event d) = k) ds else [])"
  unfolding assms [symmetric] by (auto intro: filter_cong simp: filter_empty_conv)

text \<open>
  C22. Events for one key are delivered in order and once by the workers (the retry queue apart). In every run, the deliveries with key \<open>k\<close> that
  the worker of \<open>k\<close> has taken are, in order and without a gap, the first of those the
  dispatcher has routed; no other worker takes one; the routed events are a subsequence of those
  the bus has accepted; and a worker has tried the rules of the deliveries it took one after another, each exactly once.
\<close>

theorem same_key_in_order:
  assumes "bus_run (NewEventBus n r m) tr b" "w < eb_numWorkers b"
  shows "prefix (filter (\<lambda>d. ev_Key (ed_event d) = k) (taken (keyToWorker b k) tr)) (filter (\<lambda>d. ev_Key (ed_event d) = k) (routed tr)) \<and>
    (w = keyToWorker b k \<or> filter (\<lambda>d. ev_Key (ed_event d) = k) (taken w tr) = []) \<and>
    subseq (map ed_event (routed tr)) (accepted tr) \<and>
    prefix (delivered w tr) (concat (map tries (taken w tr)))"
proof -
  have ok: "0 < eb_numWorkers b" and q: "accepted tr = dispatched tr @ eb_eventCh b"
    and wt: "\<And>w. w < eb_numWorkers b \<Longrightarrow> worker_trace tr b w"
    using run_trace [OF assms(1)] by (auto simp: bus_ok_def)
  have f: "filter (\<lambda>d. ev_Key (ed_event d) = k) (taken v tr @ wk_ch (eb_workers b ! v) @ pending_for v b) =
      (if keyToWorker b k = v then filter (\<lambda>d. ev_Key (ed_event d) = k) (routed tr) else [])" if "v < eb_numWorkers b" for v
    by (rule filter_key_worker) (use wt [OF that] in \<open>simp add: worker_trace_def\<close>)
  have "subseq (map ed_event (routed tr)) (accepted tr)"
    unfolding q by (intro list_emb_append2 subseq_rev_drop_many routed_dispatched)
  moreover have "prefix (delivered w tr) (concat (map tries (taken w tr)))"
    using wt [OF assms(2)] by (simp add: worker_trace_def)
  moreover have "w = keyToWorker b k \<or> filter (\<lambda>d. ev_Key (ed_event d) = k) (taken w tr) = []"
    using f [OF assms(2)] by (auto split: if_splits)
  moreover have "prefix (filter (\<lambda>d. ev_Key (ed_event d) = k) (taken (keyToWorker b k) tr)) (filter (\<lambda>d. ev_Key (ed_event d) = k) (routed tr))"
    using f [OF keyToWorker_less [OF ok, of k]] by (simp only: if_True simp_thms filter_append) (metis prefixI)
  ultimately show ?thesis by blast
qed

section \<open>A run\<close>

definition demo_start :: EventBus where
  "demo_start = (Subscribe ''b'' demo_rule (NewEventBus 2 3 1000))\<lparr>eb_dispatcher := Running\<rparr>"

definition demo_published :: EventBus where
  "demo_published = publish_send demo_event (publish_begin '''' 0 demo_event demo_start)"

definition demo_delivery :: eventDelivery where
  "demo_delivery = \<lparr>ed_event = demo_event, ed_rules = [demo_rule]\<rparr>"

definition demo_taken :: EventBus where
  "demo_taken = worker_take 0 (worker_enqueue 0 demo_delivery (dispatch (eb_subscriptions demo_published) demo_event
     (demo_published\<lparr>eb_eventCh := []\<rparr>)))"

definition demo_trace :: "label list" where
  "demo_trace = [LConfigure, LStart, LPublish demo_event, LAccept demo_event, LDispatch demo_event [demo_rule] [], LEnqueue 0 demo_delivery,
     LTake 0 demo_delivery]"

lemma demo_worker: "keyToWorker b ''k'' = 0" if "eb_numWorkers b = 2"
  using that by (simp add: keyToWorker_def fnv1a_def)


lemma demo_bucket: "ev_Bucket demo_event = ''b''"
  by (simp add: demo_event_def)

lemma demo_matches: "Rule_Matches demo_rule demo_event"
  by (simp add: Rule_Matches_def matchEventType_def matchEventTypePattern_def demo_rule_def demo_event_def HasSuffix_def HasPrefix_def)

lemma demo_start_run: "bus_run (NewEventBus 2 3 1000) [LConfigure, LStart] demo_start"
proof -
  have "bus_run (NewEventBus 2 3 1000) ([] @ [LConfigure]) (Subscribe ''b'' demo_rule (NewEventBus 2 3 1000))"
    by (intro bus_run.more [OF bus_run.empty] bus_step.subscribe)
  from bus_run.more [OF this bus_step.start] show ?thesis by (simp add: demo_start_def Subscribe_def NewEventBus_def Let_def)
qed

lemma demo_published_run: "bus_run (NewEventBus 2 3 1000) [LConfigure, LStart, LPublish demo_event, LAccept demo_event] demo_published"
proof -
  have pe: "prepare_event '''' 0 demo_event = demo_event" by (simp add: prepare_event_def demo_event_def IsZero_def)
  from bus_run.more [OF demo_start_run bus_step.publish [where uuid = "''''" and now = 0 and event = demo_event]]
  have "bus_run (NewEventBus 2 3 1000) [LConfigure, LStart, LPublish demo_event] (publish_begin '''' 0 demo_event demo_start)" by (simp add: pe)
  from bus_run.more [OF this bus_step.accept [where e = demo_event]]
  show ?thesis by (simp add: demo_published_def demo_start_def publish_begin_def pe Subscribe_def NewEventBus_def Let_def eventCap_def)
qed

lemma demo_published_fields:
  "eb_eventCh demo_published = [demo_event]" "eb_dispatcher demo_published = Running" "eb_pending demo_published = None"
  "eb_subscriptions demo_published = [(''b'', [demo_rule])]" "eb_callbacks demo_published = []"
  "eb_workers demo_published = [newEventWorker, newEventWorker]" "eb_numWorkers demo_published = 2" "eb_drainWg demo_published = 1"
  by (simp_all add: demo_published_def demo_start_def NewEventBus_def Let_def Subscribe_def sub_rules_def publish_send_def publish_begin_def
      eval_nat_numeral)

lemma demo_taken_run: "bus_run (NewEventBus 2 3 1000) demo_trace demo_taken"
proof -
  let ?d = "dispatch (eb_subscriptions demo_published) demo_event (demo_published\<lparr>eb_eventCh := []\<rparr>)"
  have k: "keyToWorker (demo_published\<lparr>eb_eventCh := []\<rparr>) (ev_Key demo_event) = 0" by (simp add: demo_event_def demo_worker demo_published_fields)
  have pend: "eb_pending ?d = Some (0, demo_delivery)" "eb_workers ?d = [newEventWorker, newEventWorker]" "eb_dispatcher ?d = Running"
    using k demo_matches demo_bucket by (simp_all add: dispatch_def demo_published_fields Let_def demo_delivery_def)
  have "bus_run (NewEventBus 2 3 1000) ([LConfigure, LStart, LPublish demo_event, LAccept demo_event] @ [LDispatch demo_event [demo_rule] []]) ?d"
    using bus_step.dispatch [of demo_published demo_event "[]" "eb_subscriptions demo_published"]
    by (intro bus_run.more [OF demo_published_run]) (simp add: demo_published_fields demo_matches demo_bucket invokeCallbacks_def)
  from bus_run.more [OF this bus_step.enqueue [OF pend(1)]]
  have "bus_run (NewEventBus 2 3 1000) [LConfigure, LStart, LPublish demo_event, LAccept demo_event, LDispatch demo_event [demo_rule] [],
      LEnqueue 0 demo_delivery] (worker_enqueue 0 demo_delivery ?d)"
    by (simp add: pend newEventWorker_def workerCap_def)
  from bus_run.more [OF this bus_step.take [of 0 _ demo_delivery "[]"]]
  show ?thesis by (simp add: demo_trace_def demo_taken_def worker_enqueue_def on_worker_def pend newEventWorker_def)
qed

theorem drain_counts_in_flight_witness: "eb_drainWg demo_taken = 1 \<and> in_flight demo_taken = 1"
  using drain_counts_in_flight [OF demo_taken_run]
  by (simp add: demo_taken_def worker_take_def worker_enqueue_def on_worker_def dispatch_def Let_def demo_published_fields demo_matches demo_bucket)

theorem same_key_in_order_witness:
  "prefix (filter (\<lambda>d. ev_Key (ed_event d) = ''k'') (taken 0 demo_trace)) (filter (\<lambda>d. ev_Key (ed_event d) = ''k'') (routed demo_trace)) \<and>
   taken 0 demo_trace = [demo_delivery]"
proof -
  have n: "eb_numWorkers demo_taken = 2"
    by (simp add: demo_taken_def worker_take_def worker_enqueue_def on_worker_def dispatch_def Let_def demo_published_fields)
  show ?thesis
    using same_key_in_order [OF demo_taken_run, of 1 "''k''"] n by (simp add: demo_worker [OF n]) (simp add: taken_def demo_trace_def)
qed

theorem late_publish_lost_witness:
  "\<exists>tr b. bus_run (NewEventBus 4 3 1000) tr b \<and> accepted tr = [demo_event] \<and> demo_event \<in> set (eb_eventCh b)"
proof -
  obtain tr b where tb: "bus_run (NewEventBus 4 3 1000) tr b" "accepted tr = [demo_event]"
    "\<And>tr' b'. bus_run b tr' b' \<Longrightarrow> demo_event \<in> set (eb_eventCh b')"
    using late_publish_lost [of demo_event 4 3 1000] by (auto simp: demo_event_def IsZero_def)
  then show ?thesis using bus_run.empty by blast
qed

end
