(* ===== verification/Storage_Backend.thy ===== *)
theory Storage_Backend
  imports Prelude "HOL-Library.AList"
begin

text \<open>
  Object storage, first part: the file back end of \<^verbatim>\<open>internal/storage/store.go\<close>, on a model of what
  the packages \<^verbatim>\<open>os\<close> and \<^verbatim>\<open>path/filepath\<close> do with a file system.

  A path is the list of its components below the root of the file system. Every call of the back end takes a value \<open>w\<close>
  for what the operating system does in it: which of its system calls fail, and the
  random part of a temporary name. A reader is the bytes it delivers and the error it
  ends with, if any. The text of an error of the operating system is that of its number.

  \<open>backend_ops\<close> is the interface \<^verbatim>\<open>BackendStorage\<close>; the locale \<open>blob_backend\<close> is its contract.
\<close>

section \<open>Paths\<close>

fun clean :: "string list \<Rightarrow> string list \<Rightarrow> string list" where
  "clean acc [] = rev acc"
| "clean acc (c # cs) =
     (if c = '''' \<or> c = ''.'' then clean acc cs
      else if c = ''..'' then clean (tl acc) cs
      else clean (c # acc) cs)"

definition Join :: "string list \<Rightarrow> string \<Rightarrow> string list" where
  "Join rootDir path = clean [] (rootDir @ Split1 path CHR ''/'')"

definition path_Dir :: "string list \<Rightarrow> string list" where
  "path_Dir p = butlast p"

definition path_Base :: "string list \<Rightarrow> string" where
  "path_Base p = (if p = [] then ''/'' else last p)"

fun join_path :: "string list \<Rightarrow> string" where
  "join_path [] = ''.''"
| "join_path [c] = c"
| "join_path (c # cs) = c @ ''/'' @ join_path cs"

fun path_Rel :: "string list \<Rightarrow> string list \<Rightarrow> string list" where
  "path_Rel [] targ = targ"
| "path_Rel base [] = replicate (length base) ''..''"
| "path_Rel (b # base) (t # targ) =
     (if b = t then path_Rel base targ else replicate (Suc (length base)) ''..'' @ t # targ)"

section \<open>The file system\<close>

datatype errno = ENOENT | ENOTDIR | EISDIR | ENOTEMPTY | EEXIST | EINVAL | EIO

fun errno_text :: "errno \<Rightarrow> string" where
  "errno_text ENOENT = ''no such file or directory''"
| "errno_text ENOTDIR = ''not a directory''"
| "errno_text EISDIR = ''is a directory''"
| "errno_text ENOTEMPTY = ''directory not empty''"
| "errno_text EEXIST = ''file exists''"
| "errno_text EINVAL = ''invalid argument''"
| "errno_text EIO = ''input/output error''"

datatype node = Dir | File "byte list"

type_synonym fs = "(string list \<times> node) list"

datatype io_step = SMkdir | STemp | SWrite | SSync | SClose | SRename | SCleanup | SOpen | SStat | SRemove | SWalk

record os_world =
  ow_fails :: "io_step \<Rightarrow> bool"
  ow_random :: string
  ow_dirSize :: int

type_synonym reader = "byte list \<times> go_err option"

definition ReadAll :: "reader \<Rightarrow> byte list result" where
  "ReadAll r = (case snd r of None \<Rightarrow> Inr (fst r) | Some e \<Rightarrow> Inl e)"

definition is_file :: "node option \<Rightarrow> bool" where
  "is_file n \<longleftrightarrow> (case n of Some (File _) \<Rightarrow> True | _ \<Rightarrow> False)"

definition fs_stat :: "fs \<Rightarrow> string list \<Rightarrow> errno + node" where
  "fs_stat fs p =
     (case map_of fs p of
        Some n \<Rightarrow> Inr n
      | None \<Rightarrow> Inl (if list_ex (\<lambda>q. is_file (map_of fs q)) (prefixes p) then ENOTDIR else ENOENT))"

definition MkdirAll :: "os_world \<Rightarrow> string list \<Rightarrow> fs \<Rightarrow> errno + fs" where
  "MkdirAll w p fs =
     (if ow_fails w SMkdir then Inl EIO
      else if list_ex (\<lambda>q. is_file (map_of fs q)) (prefixes p) then Inl ENOTDIR
      else Inr (foldr (\<lambda>q fs. if map_of fs q = None then AList.update q Dir fs else fs) (prefixes p) fs))"

text \<open>\<^verbatim>\<open>os.CreateTemp\<close>: the random part replaces the last star of the pattern, or is appended.\<close>

definition temp_name :: "string \<Rightarrow> string \<Rightarrow> string" where
  "temp_name pattern random =
     (if CHR ''*'' \<in> set pattern
      then rev (tl (dropWhile (\<lambda>c. c \<noteq> CHR ''*'') (rev pattern))) @ random @ rev (takeWhile (\<lambda>c. c \<noteq> CHR ''*'') (rev pattern))
      else pattern @ random)"

definition CreateTemp :: "os_world \<Rightarrow> string list \<Rightarrow> string \<Rightarrow> fs \<Rightarrow> errno + string list \<times> fs" where
  "CreateTemp w dir pattern fs =
     (let tmp = dir @ [temp_name pattern (ow_random w)]
      in if ow_fails w STemp then Inl EIO
         else if CHR ''/'' \<in> set pattern then Inl EINVAL
         else (case fs_stat fs dir of
                 Inl e \<Rightarrow> Inl e
               | Inr (File _) \<Rightarrow> Inl ENOTDIR
               | Inr Dir \<Rightarrow> if map_of fs tmp \<noteq> None then Inl EEXIST else Inr (tmp, AList.update tmp (File []) fs)))"

definition fs_remove :: "string list \<Rightarrow> fs \<Rightarrow> errno + fs" where
  "fs_remove p fs =
     (case fs_stat fs p of
        Inl e \<Rightarrow> Inl e
      | Inr (File _) \<Rightarrow> Inr (AList.delete p fs)
      | Inr Dir \<Rightarrow> if list_ex (\<lambda>(q, _). strict_prefix p q) fs then Inl ENOTEMPTY else Inr (AList.delete p fs))"

definition fs_rename :: "string list \<Rightarrow> string list \<Rightarrow> fs \<Rightarrow> errno + fs" where
  "fs_rename old new fs =
     (case fs_stat fs old of
        Inl e \<Rightarrow> Inl e
      | Inr n \<Rightarrow>
          if map_of fs new = Some Dir then Inl EEXIST
          else (case fs_stat fs (path_Dir new) of
                  Inl e \<Rightarrow> Inl e
                | Inr (File _) \<Rightarrow> Inl ENOTDIR
                | Inr Dir \<Rightarrow>
                    (case n of
                       File d \<Rightarrow> Inr (AList.update new (File d) (AList.delete old fs))
                     | Dir \<Rightarrow>
                         if is_file (map_of fs new) then Inl ENOTDIR
                         else if prefix old new then Inl EINVAL
                         else Inr (map (\<lambda>(q, m). (if prefix old q then new @ drop (length old) q else q, m)) fs))))"

section \<open>The back end\<close>

record FileBackend =
  fb_rootDir :: "string list"
  fb_fs :: fs

definition os_error :: "string \<Rightarrow> errno \<Rightarrow> go_err" where
  "os_error m e = wrap_err m (Err (errno_text e))"

definition ErrObjectNotFound :: go_err where "ErrObjectNotFound = Err ''object not found''"

definition cleanup :: "os_world \<Rightarrow> string list \<Rightarrow> fs \<Rightarrow> fs" where
  "cleanup w tmp fs = (if ow_fails w SCleanup then fs else AList.delete tmp fs)"

definition io_Copy :: "os_world \<Rightarrow> reader \<Rightarrow> go_err option" where
  "io_Copy w data = (case snd data of Some e \<Rightarrow> Some e | None \<Rightarrow> if ow_fails w SWrite then Some (Err (errno_text EIO)) else None)"

definition fmt_size :: "int \<Rightarrow> string" where
  "fmt_size n = (if n < 0 then ''-'' @ itoa (nat (- n)) else itoa (nat n))"

definition FileBackend_Put :: "os_world \<Rightarrow> string \<Rightarrow> reader \<Rightarrow> int \<Rightarrow> FileBackend \<Rightarrow> FileBackend \<times> unit result" where
  "FileBackend_Put w path data sz f =
     (let fullPath = Join (fb_rootDir f) path
      in case MkdirAll w (path_Dir fullPath) (fb_fs f) of
           Inl e \<Rightarrow> (f, Inl (os_error ''failed to create directory'' e))
         | Inr fs1 \<Rightarrow>
             (case CreateTemp w (path_Dir fullPath) (''.tmp-'' @ path_Base fullPath) fs1 of
                Inl e \<Rightarrow> (f\<lparr>fb_fs := fs1\<rparr>, Inl (os_error ''failed to create temp file'' e))
              | Inr (tmpPath, fs2) \<Rightarrow>
                  let fs3 = AList.update tmpPath (File (fst data)) fs2;
                      written = int (length (fst data));
                      fail = (\<lambda>e. (f\<lparr>fb_fs := cleanup w tmpPath fs3\<rparr>, Inl e))
                  in case io_Copy w data of
                       Some e \<Rightarrow> fail (wrap_err ''failed to write file'' e)
                     | None \<Rightarrow>
                         if sz > 0 \<and> written \<noteq> sz
                         then fail (Err (''incomplete write: expected '' @ fmt_size sz @ '', got '' @ fmt_size written))
                         else if ow_fails w SSync then fail (os_error ''failed to sync file'' EIO)
                         else if ow_fails w SClose then fail (os_error ''failed to close temp file'' EIO)
                         else (case (if ow_fails w SRename then Inl EIO else fs_rename tmpPath fullPath fs3) of
                                 Inl e \<Rightarrow> fail (os_error ''failed to rename temp file'' e)
                               | Inr fs4 \<Rightarrow> (f\<lparr>fb_fs := fs4\<rparr>, Inr ()))))"

text \<open>Opening a directory succeeds; reading it does not.\<close>

fun node_reader :: "node \<Rightarrow> reader" where
  "node_reader (File d) = (d, None)"
| "node_reader Dir = ([], Some (Err (errno_text EISDIR)))"

definition open_file :: "os_world \<Rightarrow> string list \<Rightarrow> fs \<Rightarrow> errno + node" where
  "open_file w p fs = (if ow_fails w SOpen then Inl EIO else fs_stat fs p)"

definition not_found :: "string \<Rightarrow> errno \<Rightarrow> go_err" where
  "not_found m e = (if e = ENOENT then ErrObjectNotFound else os_error m e)"

definition FileBackend_Get :: "os_world \<Rightarrow> string \<Rightarrow> FileBackend \<Rightarrow> reader result" where
  "FileBackend_Get w path f =
     (case open_file w (Join (fb_rootDir f) path) (fb_fs f) of
        Inl e \<Rightarrow> Inl (not_found ''failed to open file'' e)
      | Inr n \<Rightarrow> Inr (node_reader n))"

definition FileBackend_Delete :: "os_world \<Rightarrow> string \<Rightarrow> FileBackend \<Rightarrow> FileBackend \<times> unit result" where
  "FileBackend_Delete w path f =
     (case (if ow_fails w SRemove then Inl EIO else fs_remove (Join (fb_rootDir f) path) (fb_fs f)) of
        Inl e \<Rightarrow> (f, if e = ENOENT then Inr () else Inl (os_error ''failed to delete file'' e))
      | Inr fs' \<Rightarrow> (f\<lparr>fb_fs := fs'\<rparr>, Inr ()))"

definition stat_file :: "os_world \<Rightarrow> string list \<Rightarrow> fs \<Rightarrow> errno + node" where
  "stat_file w p fs = (if ow_fails w SStat then Inl EIO else fs_stat fs p)"

definition FileBackend_Exists :: "os_world \<Rightarrow> string \<Rightarrow> FileBackend \<Rightarrow> bool result" where
  "FileBackend_Exists w path f =
     (case stat_file w (Join (fb_rootDir f) path) (fb_fs f) of
        Inl e \<Rightarrow> if e = ENOENT then Inr False else Inl (os_error ''failed to stat file'' e)
      | Inr _ \<Rightarrow> Inr True)"

definition FileBackend_Size :: "os_world \<Rightarrow> string \<Rightarrow> FileBackend \<Rightarrow> int result" where
  "FileBackend_Size w path f =
     (case stat_file w (Join (fb_rootDir f) path) (fb_fs f) of
        Inl e \<Rightarrow> Inl (not_found ''failed to stat file'' e)
      | Inr (File d) \<Rightarrow> Inr (int (length d))
      | Inr Dir \<Rightarrow> Inr (ow_dirSize w))"

text \<open>\<^verbatim>\<open>filepath.Walk\<close> visits the names of a directory in lexical order, depth first.\<close>

definition Walk :: "string list \<Rightarrow> fs \<Rightarrow> string list list" where
  "Walk p fs = filter (\<lambda>q. prefix p q \<and> is_file (map_of fs q)) (sort (remdups (map fst fs)))"

definition FileBackend_List :: "os_world \<Rightarrow> string \<Rightarrow> FileBackend \<Rightarrow> string list result" where
  "FileBackend_List w pre f =
     (let searchPath = Join (fb_rootDir f) pre
      in case stat_file w searchPath (fb_fs f) of
           Inl e \<Rightarrow> if e = ENOENT then Inr [] else Inl (os_error ''failed to stat list prefix'' e)
         | Inr _ \<Rightarrow>
             if ow_fails w SWalk then Inl (os_error ''failed to list files'' EIO)
             else Inr (map (\<lambda>q. join_path (path_Rel (fb_rootDir f) q)) (Walk searchPath (fb_fs f))))"

fun hex_nat :: "nat \<Rightarrow> string" where
  "hex_nat n = (if n < 16 then [hex_digit n] else hex_nat (n div 16) @ [hex_digit (n mod 16)])"

declare hex_nat.simps [simp del]

definition size_etag :: "nat \<Rightarrow> string" where
  "size_etag n = [CHR 0x22] @ hex_nat n @ [CHR 0x22]"

definition FileBackend_PutReader :: "os_world \<Rightarrow> string \<Rightarrow> reader \<Rightarrow> FileBackend \<Rightarrow> FileBackend \<times> string result" where
  "FileBackend_PutReader w path data f =
     (let fullPath = Join (fb_rootDir f) path
      in case MkdirAll w (path_Dir fullPath) (fb_fs f) of
           Inl e \<Rightarrow> (f, Inl (os_error ''failed to create directory'' e))
         | Inr fs1 \<Rightarrow>
             (case CreateTemp w (path_Dir fullPath) (''.tmp-'' @ path_Base fullPath) fs1 of
                Inl e \<Rightarrow> (f\<lparr>fb_fs := fs1\<rparr>, Inl (os_error ''failed to create temp file'' e))
              | Inr (tmpPath, fs2) \<Rightarrow>
                  let fs3 = AList.update tmpPath (File (fst data)) fs2;
                      fail = (\<lambda>e. (f\<lparr>fb_fs := cleanup w tmpPath fs3\<rparr>, Inl e))
                  in case io_Copy w data of
                       Some e \<Rightarrow> fail (wrap_err ''failed to write temp file'' e)
                     | None \<Rightarrow>
                         if ow_fails w SSync then fail (os_error ''failed to sync temp file'' EIO)
                         else (case (if ow_fails w SRename then Inl EIO else fs_rename tmpPath fullPath fs3) of
                                 Inl e \<Rightarrow> fail (os_error ''failed to rename temp file'' e)
                               | Inr fs4 \<Rightarrow> (f\<lparr>fb_fs := fs4\<rparr>, Inr (size_etag (length (fst data)))))))"

definition FileBackend_GetRange :: "os_world \<Rightarrow> string \<Rightarrow> int \<Rightarrow> int \<Rightarrow> FileBackend \<Rightarrow> reader result" where
  "FileBackend_GetRange w path offset len f =
     (case open_file w (Join (fb_rootDir f) path) (fb_fs f) of
        Inl e \<Rightarrow> Inl (not_found ''failed to open file'' e)
      | Inr n \<Rightarrow>
          if offset < 0 then Inl (os_error ''failed to seek file'' EINVAL)
          else (case n of
                  File d \<Rightarrow> Inr (take (nat len) (drop (nat offset) d), None)
                | Dir \<Rightarrow> Inr (if len \<le> 0 then ([], None) else node_reader Dir)))"

definition FileBackend_AtomicRename :: "os_world \<Rightarrow> string \<Rightarrow> string \<Rightarrow> FileBackend \<Rightarrow> FileBackend \<times> unit result" where
  "FileBackend_AtomicRename w oldPath newPath f =
     (let old = Join (fb_rootDir f) oldPath; new = Join (fb_rootDir f) newPath
      in case MkdirAll w (path_Dir new) (fb_fs f) of
           Inl e \<Rightarrow> (f, Inl (os_error ''failed to create target directory'' e))
         | Inr fs1 \<Rightarrow>
             (case (if ow_fails w SRename then Inl EIO else fs_rename old new fs1) of
                Inl e \<Rightarrow> (f\<lparr>fb_fs := fs1\<rparr>, Inl (os_error ''failed to rename file'' e))
              | Inr fs2 \<Rightarrow> (f\<lparr>fb_fs := fs2\<rparr>, Inr ())))"

section \<open>The interface\<close>

record ('w, 's) backend_ops =
  be_Put :: "'w \<Rightarrow> string \<Rightarrow> reader \<Rightarrow> int \<Rightarrow> 's \<Rightarrow> 's \<times> unit result"
  be_Get :: "'w \<Rightarrow> string \<Rightarrow> 's \<Rightarrow> reader result"
  be_Delete :: "'w \<Rightarrow> string \<Rightarrow> 's \<Rightarrow> 's \<times> unit result"
  be_Exists :: "'w \<Rightarrow> string \<Rightarrow> 's \<Rightarrow> bool result"
  be_Size :: "'w \<Rightarrow> string \<Rightarrow> 's \<Rightarrow> int result"
  be_List :: "'w \<Rightarrow> string \<Rightarrow> 's \<Rightarrow> string list result"
  be_AtomicRename :: "'w \<Rightarrow> string \<Rightarrow> string \<Rightarrow> 's \<Rightarrow> 's \<times> unit result"

definition file_ops :: "(os_world, FileBackend) backend_ops" where
  "file_ops = \<lparr>be_Put = FileBackend_Put, be_Get = FileBackend_Get, be_Delete = FileBackend_Delete, be_Exists = FileBackend_Exists,
     be_Size = FileBackend_Size, be_List = FileBackend_List, be_AtomicRename = FileBackend_AtomicRename\<rparr>"


lemma file_ops_simps [simp]:
  "be_Put file_ops = FileBackend_Put" "be_Get file_ops = FileBackend_Get" "be_Delete file_ops = FileBackend_Delete"
  "be_Exists file_ops = FileBackend_Exists" "be_Size file_ops = FileBackend_Size" "be_List file_ops = FileBackend_List"
  "be_AtomicRename file_ops = FileBackend_AtomicRename"
  by (simp_all add: file_ops_def)

section \<open>Files\<close>

definition file_at :: "fs \<Rightarrow> string list \<Rightarrow> byte list option" where
  "file_at fs p = (case map_of fs p of Some (File d) \<Rightarrow> Some d | _ \<Rightarrow> None)"

lemma file_at_update [simp]: "file_at (AList.update k (File d) fs) = (file_at fs)(k \<mapsto> d)"
  by (auto simp: file_at_def update_conv' fun_eq_iff)

lemma file_at_delete [simp]: "file_at (AList.delete k fs) = (file_at fs)(k := None)"
  by (auto simp: file_at_def AList.delete_conv' fun_eq_iff)

lemma file_at_mkdir_one: "file_at (if map_of fs q = None then AList.update q Dir fs else fs) = file_at fs"
  by (auto simp: file_at_def update_conv' fun_eq_iff)

lemma file_at_MkdirAll: "MkdirAll w p fs = Inr fs' \<Longrightarrow> file_at fs' = file_at fs"
proof -
  have "file_at (foldr (\<lambda>q fs. if map_of fs q = None then AList.update q Dir fs else fs) qs fs) = file_at fs" for qs
    by (induction qs) (simp_all only: foldr.simps o_apply id_apply file_at_mkdir_one)
  then show "MkdirAll w p fs = Inr fs' \<Longrightarrow> file_at fs' = file_at fs" by (auto simp: MkdirAll_def split: if_splits)
qed

lemma temp_name_prefix: "HasPrefix (temp_name (''.tmp-'' @ b) random) ''.tmp-''"
proof (cases "CHR ''*'' \<in> set b")
  case True
  then obtain ys zs where b: "b = ys @ CHR ''*'' # zs" "CHR ''*'' \<notin> set zs" by (metis split_list_last)
  have z: "list_all (\<lambda>c. c \<noteq> CHR ''*'') (rev zs)" using b(2) by (auto simp: list_all_iff)
  have "dropWhile (\<lambda>c. c \<noteq> CHR ''*'') (rev zs @ CHR ''*'' # xs) = CHR ''*'' # xs" for xs
    using z by (induction "rev zs" arbitrary: zs) (auto simp: dropWhile_append list_all_iff)
  then show ?thesis using b by (simp add: temp_name_def HasPrefix_def)
next
  case False
  then show ?thesis by (simp add: temp_name_def HasPrefix_def)
qed

lemma CreateTemp_ok:
  assumes "CreateTemp w dir (''.tmp-'' @ b) fs = Inr (tmp, fs')"
  shows "file_at fs' = (file_at fs)(tmp \<mapsto> [])" "map_of fs tmp = None" "\<exists>t. tmp = dir @ [t] \<and> HasPrefix t ''.tmp-''"
  using assms temp_name_prefix by (auto simp: CreateTemp_def Let_def split: if_splits sum.splits node.splits)

lemma file_at_None: "map_of fs p = None \<Longrightarrow> file_at fs p = None"
  by (simp add: file_at_def)

lemma rename_file:
  "fs_rename old new fs = Inr fs' \<Longrightarrow> file_at fs old = Some d \<Longrightarrow> file_at fs' = (file_at fs)(old := None, new \<mapsto> d)"
  by (auto simp: fs_rename_def fs_stat_def file_at_def [of fs old] split: option.splits node.splits if_splits sum.splits)

text \<open>What a write leaves behind: the new file, or at most a temporary one.\<close>

definition temp_of :: "string list \<Rightarrow> string list \<Rightarrow> bool" where
  "temp_of p tmp \<longleftrightarrow> (\<exists>t. tmp = path_Dir p @ [t] \<and> HasPrefix t ''.tmp-'')"

lemma cleanup_files:
  assumes "CreateTemp w dir (''.tmp-'' @ b) fs = Inr (tmp, fs')"
  shows "file_at (cleanup w tmp (AList.update tmp (File d) fs')) \<in> {file_at fs, (file_at fs)(tmp \<mapsto> d)}"
  using CreateTemp_ok(1,2) [OF assms] by (auto simp: cleanup_def file_at_None fun_eq_iff)

lemma FileBackend_Put_ok:
  assumes "FileBackend_Put w path data sz f = (f', Inr u)"
  shows "snd data = None" "0 < sz \<Longrightarrow> int (length (fst data)) = sz" "fb_rootDir f' = fb_rootDir f"
    "file_at (fb_fs f') = (file_at (fb_fs f))(Join (fb_rootDir f) path \<mapsto> fst data)"
proof -
  let ?full = "Join (fb_rootDir f) path"
  obtain fs1 tmp fs2 where m: "MkdirAll w (path_Dir ?full) (fb_fs f) = Inr fs1"
    and t: "CreateTemp w (path_Dir ?full) (''.tmp-'' @ path_Base ?full) fs1 = Inr (tmp, fs2)"
    using assms by (auto simp: FileBackend_Put_def Let_def split: sum.splits)
  let ?fs3 = "AList.update tmp (File (fst data)) fs2"
  obtain fs4 where r: "fs_rename tmp ?full ?fs3 = Inr fs4" and f': "f' = f\<lparr>fb_fs := fs4\<rparr>"
    and d: "snd data = None" "0 < sz \<Longrightarrow> int (length (fst data)) = sz"
    using assms m t by (auto simp: FileBackend_Put_def io_Copy_def Let_def split: sum.splits option.splits if_splits)
  show "snd data = None" "0 < sz \<Longrightarrow> int (length (fst data)) = sz" "fb_rootDir f' = fb_rootDir f" using d f' by simp_all
  have "file_at fs4 = (file_at (fb_fs f))(?full \<mapsto> fst data)"
    using rename_file [OF r, of "fst data"] CreateTemp_ok(1,2) [OF t] file_at_MkdirAll [OF m] file_at_None [of fs1 tmp]
    by (auto simp: fun_eq_iff)
  then show "file_at (fb_fs f') = (file_at (fb_fs f))(?full \<mapsto> fst data)" using f' by simp
qed

lemma FileBackend_Put_error:
  assumes "FileBackend_Put w path data sz f = (f', Inl e)"
  shows "fb_rootDir f' = fb_rootDir f \<and> (file_at (fb_fs f') = file_at (fb_fs f) \<or>
    (\<exists>tmp. temp_of (Join (fb_rootDir f) path) tmp \<and> file_at (fb_fs f) tmp = None \<and> file_at (fb_fs f') = (file_at (fb_fs f))(tmp \<mapsto> fst data)))"
proof -
  let ?full = "Join (fb_rootDir f) path"
  show ?thesis
  proof (cases "MkdirAll w (path_Dir ?full) (fb_fs f)")
    case (Inl e')
    then show ?thesis using assms by (auto simp: FileBackend_Put_def Let_def)
  next
    case m: (Inr fs1)
    show ?thesis
    proof (cases "CreateTemp w (path_Dir ?full) (''.tmp-'' @ path_Base ?full) fs1")
      case (Inl e')
      then show ?thesis using assms m file_at_MkdirAll [OF m] by (auto simp: FileBackend_Put_def Let_def)
    next
      case (Inr r)
      then obtain tmp fs2 where t: "CreateTemp w (path_Dir ?full) (''.tmp-'' @ path_Base ?full) fs1 = Inr (tmp, fs2)" by (cases r) auto
      have "f' = f\<lparr>fb_fs := cleanup w tmp (AList.update tmp (File (fst data)) fs2)\<rparr>"
        using assms m t by (auto simp: FileBackend_Put_def Let_def split: sum.splits option.splits if_splits)
      then show ?thesis
        using cleanup_files [OF t, of "fst data"] CreateTemp_ok [OF t] file_at_MkdirAll [OF m] file_at_None [of fs1 tmp] by (auto simp: temp_of_def)
    qed
  qed
qed


section \<open>The contract\<close>

text \<open>
  Paths of objects: no empty component, no \<^verbatim>\<open>.\<close> and no \<^verbatim>\<open>..\<close>, and a last component that is not a temporary name.
  Different paths of this form name different files.
\<close>

definition plain_component :: "string \<Rightarrow> bool" where
  "plain_component c \<longleftrightarrow> c \<noteq> '''' \<and> c \<noteq> ''.'' \<and> c \<noteq> ''..''"

definition good_path :: "string \<Rightarrow> bool" where
  "good_path p \<longleftrightarrow> list_all plain_component (Split1 p CHR ''/'') \<and> \<not> HasPrefix (last (Split1 p CHR ''/'')) ''.tmp-''"

lemma clean_append: "list_all plain_component ys \<Longrightarrow> clean acc (xs @ ys) = clean acc xs @ ys"
proof (induction acc xs rule: clean.induct)
  case (1 acc)
  then show ?case by (induction ys arbitrary: acc) (simp_all add: plain_component_def)
qed simp_all

lemma Join_good: "good_path p \<Longrightarrow> Join rootDir p = clean [] rootDir @ Split1 p CHR ''/''"
  by (simp add: Join_def good_path_def clean_append)

lemma Split1_inj: "Split1 p c = Split1 q c \<Longrightarrow> p = q"
proof (induction p arbitrary: q)
  case Nil
  then show ?case by (cases q) (auto simp: Split1_nonempty [symmetric] split: if_splits list.splits)
next
  case (Cons x p)
  then show ?case by (cases q) (auto split: if_splits list.splits)
qed

lemma Join_good_inj: "good_path p \<Longrightarrow> good_path q \<Longrightarrow> Join rootDir p = Join rootDir q \<longleftrightarrow> p = q"
  using Split1_inj by (auto simp: Join_good)

lemma good_not_temp: "good_path q \<Longrightarrow> \<not> temp_of full (Join rootDir q)"
  by (auto simp: temp_of_def Join_good good_path_def append_eq_append_conv2 append_eq_Cons_conv dest: arg_cong [where f = last])

locale blob_backend =
  fixes B :: "('w, 's) backend_ops" and contents :: "'s \<Rightarrow> string \<Rightarrow> byte list option"
  assumes put_ok: "be_Put B w p r n s = (s', Inr u) \<Longrightarrow> good_path p \<Longrightarrow> snd r = None \<and> (0 < n \<longrightarrow> int (length (fst r)) = n) \<and>
      contents s' p = Some (fst r) \<and> (\<forall>q. good_path q \<longrightarrow> q \<noteq> p \<longrightarrow> contents s' q = contents s q)"
    and put_error: "be_Put B w p r n s = (s', Inl e) \<Longrightarrow> good_path p \<Longrightarrow> good_path q \<Longrightarrow> contents s' q = contents s q"
    and get_ok: "be_Get B w p s = Inr (d, None) \<Longrightarrow> good_path p \<Longrightarrow> contents s p = Some d"
    and get_whole: "be_Get B w p s = Inr r \<Longrightarrow> contents s p = Some d \<Longrightarrow> good_path p \<Longrightarrow> r = (d, None)"
    and delete_ok: "be_Delete B w p s = (s', Inr u) \<Longrightarrow> good_path p \<Longrightarrow>
      contents s' p = None \<and> (\<forall>q. good_path q \<longrightarrow> q \<noteq> p \<longrightarrow> contents s' q = contents s q)"
    and delete_error: "be_Delete B w p s = (s', Inl e) \<Longrightarrow> s' = s"
    and exists_file: "be_Exists B w p s = Inr b \<Longrightarrow> contents s p = Some d \<Longrightarrow> good_path p \<Longrightarrow> b"
    and size_file: "be_Size B w p s = Inr n \<Longrightarrow> contents s p = Some d \<Longrightarrow> good_path p \<Longrightarrow> n = int (length d)"
    and rename_ok: "be_AtomicRename B w p p' s = (s', Inr u) \<Longrightarrow> contents s p = Some d \<Longrightarrow> good_path p \<Longrightarrow> good_path p' \<Longrightarrow>
      contents s' p' = Some d \<and> (p' \<noteq> p \<longrightarrow> contents s' p = None) \<and> (\<forall>q. good_path q \<longrightarrow> q \<noteq> p \<longrightarrow> q \<noteq> p' \<longrightarrow> contents s' q = contents s q)"

definition file_contents :: "FileBackend \<Rightarrow> string \<Rightarrow> byte list option" where
  "file_contents f p = file_at (fb_fs f) (Join (fb_rootDir f) p)"

lemma fs_stat_file: "fs_stat fs p = Inr (File d) \<longleftrightarrow> file_at fs p = Some d"
  by (auto simp: fs_stat_def file_at_def split: option.splits node.splits)

lemma fs_stat_other: "fs_stat fs p = Inr Dir \<or> isl (fs_stat fs p) \<Longrightarrow> file_at fs p = None"
  by (auto simp: fs_stat_def file_at_def split: option.splits)

lemma FileBackend_Delete_ok:
  assumes "FileBackend_Delete w path f = (f', Inr u)"
  shows "fb_rootDir f' = fb_rootDir f" "file_at (fb_fs f') = (file_at (fb_fs f))(Join (fb_rootDir f) path := None)"
  using assms fs_stat_other [of "fb_fs f" "Join (fb_rootDir f) path"]
  by (auto simp: FileBackend_Delete_def fs_remove_def fun_eq_iff split: sum.splits if_splits node.splits)

lemma FileBackend_AtomicRename_ok:
  assumes "FileBackend_AtomicRename w old new f = (f', Inr u)" "file_contents f old = Some d"
  shows "fb_rootDir f' = fb_rootDir f"
    "file_at (fb_fs f') = (file_at (fb_fs f))(Join (fb_rootDir f) old := None, Join (fb_rootDir f) new \<mapsto> d)"
  using assms rename_file [of "Join (fb_rootDir f) old" "Join (fb_rootDir f) new"] file_at_MkdirAll
  by (auto simp: FileBackend_AtomicRename_def file_contents_def Let_def split: sum.splits if_splits)

interpretation file_backend: blob_backend file_ops file_contents
proof (unfold_locales, unfold file_ops_simps, goal_cases)
  case (1 w p r n s s' u)
  then show ?case using FileBackend_Put_ok [OF 1(1)] by (auto simp: file_contents_def Join_good_inj)
next
  case (2 w p r n s s' e q)
  then show ?case using FileBackend_Put_error [OF 2(1)] good_not_temp [OF 2(3)] by (auto simp: file_contents_def)
next
  case (3 w p s d)
  then show ?case by (auto simp: FileBackend_Get_def open_file_def file_contents_def fs_stat_file [symmetric] split: sum.splits if_splits elim!: node_reader.elims)
next
  case (4 w p s r d)
  then show ?case by (auto simp: FileBackend_Get_def open_file_def file_contents_def fs_stat_file [symmetric] split: sum.splits if_splits)
next
  case (5 w p s s' u)
  then show ?case using FileBackend_Delete_ok [OF 5(1)] by (auto simp: file_contents_def Join_good_inj)
next
  case (6 w p s s' e)
  then show ?case by (auto simp: FileBackend_Delete_def split: sum.splits if_splits)
next
  case (7 w p s b d)
  then show ?case by (auto simp: FileBackend_Exists_def stat_file_def file_contents_def fs_stat_file [symmetric] split: sum.splits if_splits)
next
  case (8 w p s n d)
  then show ?case by (auto simp: FileBackend_Size_def stat_file_def file_contents_def fs_stat_file [symmetric] split: sum.splits if_splits node.splits)
next
  case (9 w p p' s s' u d)
  then show ?case using FileBackend_AtomicRename_ok [OF 9(1,2)] by (auto simp: file_contents_def Join_good_inj)
qed


section \<open>Properties\<close>

text \<open>
  C19. Writing a file is atomic, for every key. Whichever system calls fail, and however the reader ends: after success the file that the key names has the
  new contents, complete and of the announced size, and no other file has changed; after an error no file has changed, except that
  one new file with a temporary name may have been left beside it. Keys that name the same file (with empty, \<^verbatim>\<open>.\<close> or \<^verbatim>\<open>..\<close> components) share it.
\<close>

theorem file_put_atomic:
  assumes "FileBackend_Put w p data sz f = (f', r)"
  shows "(r = Inr () \<longrightarrow> file_at (fb_fs f') = (file_at (fb_fs f))(Join (fb_rootDir f) p \<mapsto> fst data) \<and>
      snd data = None \<and> (sz \<le> 0 \<or> int (length (fst data)) = sz)) \<and>
    (r \<noteq> Inr () \<longrightarrow> file_at (fb_fs f') = file_at (fb_fs f) \<or>
      (\<exists>tmp d. temp_of (Join (fb_rootDir f) p) tmp \<and> file_at (fb_fs f) tmp = None \<and> file_at (fb_fs f') = (file_at (fb_fs f))(tmp \<mapsto> d)))"
proof (cases r)
  case (Inl e)
  then show ?thesis using FileBackend_Put_error [of w p data sz f f' e] assms by auto
next
  case (Inr u)
  then have "FileBackend_Put w p data sz f = (f', Inr u)" using assms by simp
  note e = FileBackend_Put_ok [OF this]
  have "sz \<le> 0 \<or> int (length (fst data)) = sz" using e(2) by linarith
  with Inr e(1,4) show ?thesis by simp
qed

definition demo_os :: "io_step list \<Rightarrow> os_world" where
  "demo_os fails = \<lparr>ow_fails = (\<lambda>x. x \<in> set fails), ow_random = ''7'', ow_dirSize = 4096\<rparr>"

definition demo_files :: FileBackend where
  "demo_files = \<lparr>fb_rootDir = [''data''], fb_fs = [([], Dir), ([''data''], Dir), ([''data'', ''b''], Dir), ([''data'', ''b'', ''k''], File [1, 2])]\<rparr>"

lemmas demo_fs_defs = demo_files_def demo_os_def FileBackend_Put_def Join_def path_Dir_def path_Base_def MkdirAll_def CreateTemp_def
  fs_stat_def is_file_def temp_name_def io_Copy_def fs_rename_def cleanup_def os_error_def Let_def

theorem file_put_atomic_witness:
  "file_contents (fst (FileBackend_Put (demo_os []) ''b/k'' ([3, 4, 5], None) 3 demo_files)) ''b/k'' = Some [3, 4, 5] \<and>
   file_contents (fst (FileBackend_Put (demo_os [SRename, SCleanup]) ''b/k'' ([3, 4, 5], None) 3 demo_files)) ''b/k'' = Some [1, 2]"
proof -
  let ?ok = "FileBackend_Put (demo_os []) ''b/k'' ([3, 4, 5], None) 3 demo_files"
  let ?bad = "FileBackend_Put (demo_os [SRename, SCleanup]) ''b/k'' ([3, 4, 5], None) 3 demo_files"
  have r: "snd ?ok = Inr ()" "snd ?bad \<noteq> Inr ()" "fb_rootDir (fst ?ok) = [''data'']" "fb_rootDir (fst ?bad) = [''data'']" "fb_rootDir demo_files = [''data'']"
    by (simp_all add: demo_fs_defs)
  have j: "Join [''data''] ''b/k'' = [''data'', ''b'', ''k'']" by (simp add: Join_def)
  have "\<not> temp_of [''data'', ''b'', ''k''] [''data'', ''b'', ''k'']" by (simp add: temp_of_def path_Dir_def HasPrefix_def)
  moreover have "file_at (fb_fs demo_files) [''data'', ''b'', ''k''] = Some [1, 2]" by (simp add: file_at_def demo_files_def)
  ultimately show ?thesis
    using file_put_atomic [OF prod.collapse [symmetric], of "demo_os []" "''b/k''" "([3, 4, 5], None)" 3 demo_files]
      file_put_atomic [OF prod.collapse [symmetric], of "demo_os [SRename, SCleanup]" "''b/k''" "([3, 4, 5], None)" 3 demo_files] r
    by (auto simp: file_contents_def j)
qed

text \<open>Keys that differ only in empty or \<^verbatim>\<open>.\<close> components are one file: a write to one replaces the other.\<close>

lemma keys_share_file:
  assumes "FileBackend_Put w ''b/x//y'' data sz f = (f', Inr ())"
  shows "file_contents f' ''b/x/y'' = Some (fst data)"
proof -
  have "Join d ''b/x//y'' = Join d ''b/x/y''" for d
  proof -
    have "clean acc (xs @ [''b'', ''x'', '''', ''y'']) = clean acc (xs @ [''b'', ''x'', ''y''])" for acc xs
      by (induction acc xs rule: clean.induct) simp_all
    then show ?thesis by (simp add: Join_def)
  qed
  then show ?thesis using FileBackend_Put_ok(3,4) [OF assms] by (simp add: file_contents_def)
qed


section \<open>When a write succeeds\<close>

lemma map_of_MkdirAll:
  assumes "MkdirAll w p fs = Inr fs'"
  shows "map_of fs' q = (if prefix q p \<and> map_of fs q = None then Some Dir else map_of fs q)"
proof -
  let ?step = "\<lambda>q fs. if map_of fs q = None then AList.update q Dir fs else fs"
  have "map_of (foldr ?step qs fs) q = (if q \<in> set qs \<and> map_of fs q = None then Some Dir else map_of fs q)" for qs
  proof (induction qs)
    case (Cons a qs)
    then show ?case by (cases "map_of fs q"; cases "a = q"; cases "q \<in> set qs") (simp_all add: update_conv')
  qed simp
  moreover have "fs' = foldr ?step (prefixes p) fs" using assms by (auto simp: MkdirAll_def split: if_splits)
  ultimately show ?thesis by simp
qed

lemma FileBackend_Put_succeeds:
  assumes ok: "\<And>x. \<not> ow_fails w x" and full: "Join (fb_rootDir f) path = dir @ [base]" "CHR ''/'' \<notin> set base"
    and dirs: "\<not> list_ex (\<lambda>q. is_file (map_of (fb_fs f) q)) (prefixes dir)"
    and new: "map_of (fb_fs f) (dir @ [temp_name (''.tmp-'' @ base) (ow_random w)]) = None" "map_of (fb_fs f) (dir @ [base]) \<noteq> Some Dir"
    and data: "snd data = None" "sz \<le> 0 \<or> int (length (fst data)) = sz"
  shows "snd (FileBackend_Put w path data sz f) = Inr ()"
proof -
  let ?tmp = "dir @ [temp_name (''.tmp-'' @ base) (ow_random w)]"
  obtain fs1 where m: "MkdirAll w dir (fb_fs f) = Inr fs1" using ok dirs by (simp add: MkdirAll_def)
  have m1: "map_of fs1 dir = Some Dir"
  proof -
    have "\<not> is_file (map_of (fb_fs f) dir)" using dirs by (auto simp: list_ex_iff)
    then show ?thesis using map_of_MkdirAll [OF m, of dir] by (auto simp: is_file_def split: option.splits node.splits)
  qed
  have long: "\<not> prefix (dir @ [x]) dir" for x by (auto simp: prefix_def)
  have m2: "map_of fs1 (dir @ [x]) = map_of (fb_fs f) (dir @ [x])" for x using map_of_MkdirAll [OF m] long by simp
  have t: "CreateTemp w dir (''.tmp-'' @ base) fs1 = Inr (?tmp, AList.update ?tmp (File []) fs1)"
    using ok full(2) m1 new(1) m2 by (simp add: CreateTemp_def Let_def fs_stat_def)
  let ?fs3 = "AList.update ?tmp (File (fst data)) (AList.update ?tmp (File []) fs1)"
  have "map_of ?fs3 ?tmp = Some (File (fst data))" "map_of ?fs3 dir = Some Dir" using m1 by (simp_all add: update_conv')
  moreover have "map_of ?fs3 (dir @ [base]) \<noteq> Some Dir" using new(2) m2 by (auto simp: update_conv')
  ultimately have "\<exists>fs4. fs_rename ?tmp (dir @ [base]) ?fs3 = Inr fs4" by (auto simp: fs_rename_def fs_stat_def path_Dir_def)
  then show ?thesis
    using ok full m t data by (auto simp: FileBackend_Put_def path_Dir_def path_Base_def io_Copy_def Let_def)
qed

lemma FileBackend_Put_fails: "ow_fails w SRename \<Longrightarrow> isl (snd (FileBackend_Put w path data sz f))"
  by (auto simp: FileBackend_Put_def Let_def split: sum.splits option.splits)

lemma FileBackend_Get_succeeds:
  "\<not> ow_fails w SOpen \<Longrightarrow> file_contents f path = Some d \<Longrightarrow> FileBackend_Get w path f = Inr (d, None)"
  by (simp add: FileBackend_Get_def open_file_def file_contents_def fs_stat_file [symmetric])

end
