(* ===== verification/Erasure.thy ===== *)
theory Erasure
  imports Storage_Backend
begin

text \<open>
  Object storage, second part: the erasure-coded back end of \<^verbatim>\<open>internal/storage/erasure.go\<close>, over any
  back end of the interface \<open>backend_ops\<close>. The Reed-Solomon code (\<^verbatim>\<open>klauspost/reedsolomon\<close>, not part of the
  repository) is the argument \<open>RS\<close>; \<open>rs_ok\<close> is what its documentation promises.

  The goroutines of an operation touch one back end each, so their effects do not depend on their order; \<open>arrival\<close>
  is the error that reaches the channel first.
\<close>

section \<open>The code\<close>

record rs_code =
  rs_Split :: "byte list \<Rightarrow> string + byte list list"
  rs_Encode :: "byte list list \<Rightarrow> string + byte list list"
  rs_Reconstruct :: "byte list option list \<Rightarrow> string + byte list list"
  rs_Verify :: "byte list list \<Rightarrow> bool \<times> string"
  rs_Join :: "byte list list \<Rightarrow> nat \<Rightarrow> string + byte list"

definition equal_shards :: "nat \<Rightarrow> byte list list \<Rightarrow> bool" where
  "equal_shards n sh \<longleftrightarrow> length sh = n \<and> (\<exists>l > 0. list_all (\<lambda>x. length x = l) sh)"

definition codeword :: "rs_code \<Rightarrow> nat \<Rightarrow> byte list list \<Rightarrow> bool" where
  "codeword RS n c \<longleftrightarrow> (\<exists>sh. equal_shards n sh \<and> rs_Encode RS sh = Inr c)"

definition partial_word :: "byte list list \<Rightarrow> byte list option list \<Rightarrow> bool" where
  "partial_word c known \<longleftrightarrow> list_all2 (\<lambda>x y. y = None \<or> y = Some x) c known"

definition present :: "'a option list \<Rightarrow> nat" where
  "present known = length (filter (\<lambda>x. x \<noteq> None) known)"

definition rs_ok :: "rs_code \<Rightarrow> nat \<Rightarrow> nat \<Rightarrow> bool" where
  "rs_ok RS k m \<longleftrightarrow> 0 < k \<and>
     (\<forall>data. data \<noteq> [] \<longrightarrow> (\<exists>sh. rs_Split RS data = Inr sh \<and> equal_shards (k + m) sh \<and> prefix data (concat (take k sh)))) \<and>
     (\<forall>sh. equal_shards (k + m) sh \<longrightarrow> (\<exists>c. rs_Encode RS sh = Inr c \<and> equal_shards (k + m) c \<and> take k c = take k sh)) \<and>
     (\<forall>sh. fst (rs_Verify RS sh) \<longleftrightarrow> codeword RS (k + m) sh) \<and>
     (\<forall>c known. codeword RS (k + m) c \<longrightarrow> partial_word c known \<longrightarrow> k \<le> present known \<longrightarrow> rs_Reconstruct RS known = Inr c) \<and>
     (\<forall>sh n. codeword RS (k + m) sh \<longrightarrow> n \<le> length (concat (take k sh)) \<longrightarrow> rs_Join RS sh n = Inr (take n (concat (take k sh))))"

section \<open>The back end\<close>

record 's ErasureCodedBackend =
  ec_enc :: rs_code
  ec_dataShards :: nat
  ec_parityShards :: nat
  ec_backends :: "'s list"
  ec_shardMapping :: "string \<Rightarrow> nat \<Rightarrow> string"

definition DefaultShardMapping :: "string \<Rightarrow> nat \<Rightarrow> string" where
  "DefaultShardMapping path shardIdx = path @ ''.shard.'' @ itoa shardIdx"

record 's ErasureConfig =
  cf_DataShards :: int
  cf_ParityShards :: int
  cf_Backends :: "'s list"
  cf_ShardMapping :: "(string \<Rightarrow> nat \<Rightarrow> string) option"

definition NewErasureCodedBackend :: "(int \<Rightarrow> int \<Rightarrow> string + rs_code) \<Rightarrow> 's ErasureConfig \<Rightarrow> 's ErasureCodedBackend result" where
  "NewErasureCodedBackend rs_New cfg =
     (let k = (if cf_DataShards cfg \<le> 0 then 4 else cf_DataShards cfg);
          m = (if cf_ParityShards cfg \<le> 0 then 2 else cf_ParityShards cfg)
      in if int (length (cf_Backends cfg)) < k + m
         then Inl (Err (''erasure coding requires at least '' @ fmt_size (k + m) @ '' backends, got '' @ itoa (length (cf_Backends cfg))))
         else (case rs_New k m of
                 Inl e \<Rightarrow> Inl (Err (''failed to create Reed-Solomon encoder: '' @ e))
               | Inr enc \<Rightarrow>
                   Inr \<lparr>ec_enc = enc, ec_dataShards = nat k, ec_parityShards = nat m, ec_backends = cf_Backends cfg,
                        ec_shardMapping = (case cf_ShardMapping cfg of None \<Rightarrow> DefaultShardMapping | Some f \<Rightarrow> f)\<rparr>))"

definition totalShards :: "'s ErasureCodedBackend \<Rightarrow> nat" where
  "totalShards e = ec_dataShards e + ec_parityShards e"

text \<open>The loops run over the shards that have a back end.\<close>

definition used_backends :: "'s ErasureCodedBackend \<Rightarrow> nat" where
  "used_backends e = min (totalShards e) (length (ec_backends e))"

definition PutUint64 :: "nat \<Rightarrow> byte list" where
  "PutUint64 n = map (\<lambda>i. of_nat (n div 256 ^ (7 - i))) [0..<8]"

definition Uint64 :: "byte list \<Rightarrow> nat" where
  "Uint64 bs = foldl (\<lambda>v b. v * 256 + unat b) 0 bs"

definition splitAndEncode :: "rs_code \<Rightarrow> byte list \<Rightarrow> byte list list result" where
  "splitAndEncode RS data =
     (case rs_Split RS data of
        Inl e \<Rightarrow> Inl (Err (''failed to split data into shards: '' @ e))
      | Inr shards \<Rightarrow>
          (case rs_Encode RS shards of
             Inl e \<Rightarrow> Inl (Err (''failed to compute parity shards: '' @ e))
           | Inr c \<Rightarrow> Inr c))"

text \<open>Running one operation per back end: the new back ends and the errors.\<close>

definition each_backend :: "(nat \<Rightarrow> 's \<Rightarrow> 's \<times> unit result) \<Rightarrow> 's ErasureCodedBackend \<Rightarrow> 's ErasureCodedBackend \<times> (nat \<times> go_err) list" where
  "each_backend op e =
     (let n = used_backends e; out = map (\<lambda>i. op i (ec_backends e ! i)) [0..<n]
      in (e\<lparr>ec_backends := map fst out @ drop n (ec_backends e)\<rparr>,
          concat (map (\<lambda>i. case snd (out ! i) of Inl x \<Rightarrow> [(i, x)] | Inr _ \<Rightarrow> []) [0..<n])))"

definition too_many :: "string \<Rightarrow> string \<Rightarrow> ((nat \<times> go_err) list \<Rightarrow> nat \<times> go_err) \<Rightarrow> (nat \<times> go_err) list \<Rightarrow> go_err" where
  "too_many what each arrival errs =
     (case arrival errs of (i, x) \<Rightarrow> Err (what @ '' ('' @ itoa (length errs) @ ''): '' @ each @ itoa i @ '': '' @ err_text x))"

type_synonym arrivals = "(nat \<times> go_err) list \<Rightarrow> nat \<times> go_err"

definition putShards :: "('w, 's) backend_ops \<Rightarrow> arrivals \<Rightarrow> (nat \<Rightarrow> 'w) \<Rightarrow> string \<Rightarrow> byte list \<Rightarrow> 's ErasureCodedBackend \<Rightarrow>
    's ErasureCodedBackend \<times> unit result" where
  "putShards B arrival ws path data e =
     (case splitAndEncode (ec_enc e) (PutUint64 (length data) @ data) of
        Inl x \<Rightarrow> (e, Inl x)
      | Inr shards \<Rightarrow>
          if length shards < used_backends e then (e, Inl (Panic ''index out of range''))
          else (case each_backend (\<lambda>i. be_Put B (ws i) (ec_shardMapping e path i) (shards ! i, None) (int (length (shards ! i)))) e of
                  (e', errs) \<Rightarrow>
                    (e', if length errs > ec_parityShards e
                         then Inl (too_many ''too many shard write failures'' ''failed to put shard '' arrival errs) else Inr ())))"

definition EC_Put :: "('w, 's) backend_ops \<Rightarrow> arrivals \<Rightarrow> (nat \<Rightarrow> 'w) \<Rightarrow> string \<Rightarrow> reader \<Rightarrow> int \<Rightarrow> 's ErasureCodedBackend \<Rightarrow>
    's ErasureCodedBackend \<times> unit result" where
  "EC_Put B arrival ws path data sz e =
     (case ReadAll data of
        Inl x \<Rightarrow> (e, Inl (wrap_err ''failed to read data for erasure encoding'' x))
      | Inr allData \<Rightarrow> putShards B arrival ws path allData e)"

definition EC_PutReader :: "('w, 's) backend_ops \<Rightarrow> arrivals \<Rightarrow> (nat \<Rightarrow> 'w) \<Rightarrow> string \<Rightarrow> reader \<Rightarrow> 's ErasureCodedBackend \<Rightarrow>
    's ErasureCodedBackend \<times> string result" where
  "EC_PutReader B arrival ws path data e =
     (case ReadAll data of
        Inl x \<Rightarrow> (e, Inl (wrap_err ''failed to read data for erasure encoding'' x))
      | Inr allData \<Rightarrow>
          (case putShards B arrival ws path allData e of
             (e', Inl x) \<Rightarrow> (e', Inl x)
           | (e', Inr _) \<Rightarrow> (e', Inr (size_etag (length allData)))))"

definition read_shard :: "('w, 's) backend_ops \<Rightarrow> (nat \<Rightarrow> 'w) \<Rightarrow> string \<Rightarrow> 's ErasureCodedBackend \<Rightarrow> nat \<Rightarrow> byte list option" where
  "read_shard B ws path e i =
     (if length (ec_backends e) \<le> i then None
      else (case be_Get B (ws i) (ec_shardMapping e path i) (ec_backends e ! i) of
              Inl _ \<Rightarrow> None
            | Inr r \<Rightarrow> (case ReadAll r of Inl _ \<Rightarrow> None | Inr d \<Rightarrow> Some d)))"

text \<open>The original data behind its length.\<close>

definition trim_padding :: "byte list \<Rightarrow> byte list result" where
  "trim_padding joined =
     (if length joined < 8 then Inl (Err ''erasure-coded data too short to contain length prefix'')
      else let originalLen = Uint64 (take 8 joined)
           in if originalLen > length joined - 8
              then Inl (Err (''erasure-coded data length prefix '' @ itoa originalLen @ '' exceeds available data '' @ itoa (length joined - 8)))
              else Inr (take originalLen (drop 8 joined)))"

definition getShards :: "('w, 's) backend_ops \<Rightarrow> (nat \<Rightarrow> 'w) \<Rightarrow> string \<Rightarrow> 's ErasureCodedBackend \<Rightarrow> byte list result" where
  "getShards B ws path e =
     (let shards = map (read_shard B ws path e) [0..<totalShards e]; available = present shards
      in if available < ec_dataShards e
         then Inl (Err (''not enough shards available ('' @ itoa available @ ''/'' @ itoa (ec_dataShards e) @ '') to reconstruct object''))
         else (case (if available < totalShards e then rs_Reconstruct (ec_enc e) shards else Inr (map the shards)) of
                 Inl x \<Rightarrow> Inl (Err (''failed to reconstruct erasure-coded data: '' @ x))
               | Inr full \<Rightarrow>
                   (case rs_Verify (ec_enc e) full of
                      (False, x) \<Rightarrow> Inl (Err (''erasure-coded data verification failed: '' @ x))
                    | (True, _) \<Rightarrow>
                        if full = [] then Inl (Panic ''index out of range'')
                        else (case rs_Join (ec_enc e) full (length (full ! 0) * ec_dataShards e) of
                                Inl x \<Rightarrow> Inl (Err (''failed to join erasure shards: '' @ x))
                              | Inr joined \<Rightarrow> trim_padding joined))))"

definition EC_Get :: "('w, 's) backend_ops \<Rightarrow> (nat \<Rightarrow> 'w) \<Rightarrow> string \<Rightarrow> 's ErasureCodedBackend \<Rightarrow> reader result" where
  "EC_Get B ws path e = (case getShards B ws path e of Inl x \<Rightarrow> Inl x | Inr data \<Rightarrow> Inr (data, None))"

definition EC_Delete :: "('w, 's) backend_ops \<Rightarrow> arrivals \<Rightarrow> (nat \<Rightarrow> 'w) \<Rightarrow> string \<Rightarrow> 's ErasureCodedBackend \<Rightarrow> 's ErasureCodedBackend \<times> unit result" where
  "EC_Delete B arrival ws path e =
     (case each_backend (\<lambda>i. be_Delete B (ws i) (ec_shardMapping e path i)) e of
        (e', errs) \<Rightarrow>
          (e', if length errs > ec_parityShards e
               then Inl (too_many ''too many shard delete failures'' ''failed to delete shard '' arrival errs) else Inr ()))"

definition EC_Exists :: "('w, 's) backend_ops \<Rightarrow> (nat \<Rightarrow> 'w) \<Rightarrow> string \<Rightarrow> 's ErasureCodedBackend \<Rightarrow> bool result" where
  "EC_Exists B ws path e =
     (let available = length (filter (\<lambda>i. be_Exists B (ws i) (ec_shardMapping e path i) (ec_backends e ! i) = Inr True) [0..<used_backends e])
      in Inr (ec_dataShards e \<le> available))"

definition EC_Size :: "('w, 's) backend_ops \<Rightarrow> 'w \<Rightarrow> string \<Rightarrow> 's ErasureCodedBackend \<Rightarrow> int result" where
  "EC_Size B w path e =
     (if ec_backends e = [] then Inl ErrObjectNotFound
      else (case be_Size B w (ec_shardMapping e path 0) (ec_backends e ! 0) of
              Inl x \<Rightarrow> Inl x
            | Inr shardSize \<Rightarrow> Inr (shardSize * int (ec_dataShards e))))"

text \<open>The scan from the right for a dot that begins the suffix.\<close>

fun strip_loop :: "string \<Rightarrow> nat \<Rightarrow> string" where
  "strip_loop shardPath 0 = shardPath"
| "strip_loop shardPath (Suc i) =
     (let suffix = drop i shardPath
      in if shardPath ! i = CHR ''.'' \<and> length suffix > 7 \<and> take 7 suffix = ''.shard.'' then take i shardPath
         else strip_loop shardPath i)"

definition stripShardSuffix :: "string \<Rightarrow> string" where
  "stripShardSuffix shardPath = strip_loop shardPath (length shardPath)"

fun distinct_bases :: "string list \<Rightarrow> string list \<Rightarrow> string list" where
  "distinct_bases seen [] = []"
| "distinct_bases seen (key # keys) =
     (let basePath = stripShardSuffix key
      in if basePath \<notin> set seen \<and> basePath \<noteq> '''' then basePath # distinct_bases (basePath # seen) keys
         else distinct_bases seen keys)"

definition EC_List :: "('w, 's) backend_ops \<Rightarrow> 'w \<Rightarrow> string \<Rightarrow> 's ErasureCodedBackend \<Rightarrow> string list result" where
  "EC_List B w pre e =
     (if ec_backends e = [] then Inr []
      else (case be_List B w pre (ec_backends e ! 0) of
              Inl x \<Rightarrow> Inl x
            | Inr keys \<Rightarrow> Inr (distinct_bases [] keys)))"

definition EC_GetRange :: "('w, 's) backend_ops \<Rightarrow> (nat \<Rightarrow> 'w) \<Rightarrow> string \<Rightarrow> int \<Rightarrow> int \<Rightarrow> 's ErasureCodedBackend \<Rightarrow> reader result" where
  "EC_GetRange B ws path offset len e =
     (case getShards B ws path e of
        Inl x \<Rightarrow> Inl x
      | Inr data \<Rightarrow>
          if offset > int (length data) then Inl (Err ''offset beyond object size'')
          else let end0 = int64 (offset + len);
                   end1 = (if end0 > int (length data) then int (length data) else end0)
               in if offset < 0 \<or> end1 < offset then Inl (Panic ''slice bounds out of range'')
                  else Inr (take (nat (end1 - offset)) (drop (nat offset) data), None))"

definition EC_AtomicRename :: "('w, 's) backend_ops \<Rightarrow> arrivals \<Rightarrow> (nat \<Rightarrow> 'w) \<Rightarrow> string \<Rightarrow> string \<Rightarrow> 's ErasureCodedBackend \<Rightarrow>
    's ErasureCodedBackend \<times> unit result" where
  "EC_AtomicRename B arrival ws oldPath newPath e =
     (case each_backend (\<lambda>i. be_AtomicRename B (ws i) (ec_shardMapping e oldPath i) (ec_shardMapping e newPath i)) e of
        (e', errs) \<Rightarrow>
          (e', if length errs > ec_parityShards e
               then Inl (too_many ''too many shard rename failures'' ''failed to rename shard '' arrival errs) else Inr ()))"

section \<open>The length prefix\<close>

lemma length_PutUint64 [simp]: "length (PutUint64 n) = 8"
  by (simp add: PutUint64_def)

lemma foldl_digits:
  "foldl (\<lambda>v b. v * 256 + unat b) a (map (\<lambda>i. of_nat (n div 256 ^ (j - Suc i)) :: byte) [0..<j]) = a * 256 ^ j + n mod 256 ^ j"
proof (induction j arbitrary: a)
  case (Suc j)
  have b: "unat (of_nat x :: byte) = x mod 256" for x by (simp add: unat_of_nat)
  have m: "n mod 256 ^ Suc j = (n div 256 ^ j) mod 256 * 256 ^ j + n mod 256 ^ j" by (metis mod_mult2_eq mult.commute power_Suc)
  have "[0..<Suc j] = 0 # map Suc [0..<j]" by (simp add: upt_conv_Cons map_Suc_upt)
  then show ?case using Suc.IH [of "a * 256 + (n div 256 ^ j) mod 256"] m by (simp add: b o_def algebra_simps)
qed simp

lemma Uint64_PutUint64: "n < 2 ^ 64 \<Longrightarrow> Uint64 (PutUint64 n) = n"
  using foldl_digits [of 0 n 8] by (simp add: PutUint64_def Uint64_def)

lemma trim_padding_prefix:
  assumes "prefix (PutUint64 (length data) @ data) joined" "length data < 2 ^ 64"
  shows "trim_padding joined = Inr data"
  using assms by (auto simp: prefix_def trim_padding_def Let_def Uint64_PutUint64)


section \<open>Encoding and decoding\<close>

lemma rs_okD:
  assumes "rs_ok RS k m"
  shows "0 < k" "data \<noteq> [] \<Longrightarrow> \<exists>sh. rs_Split RS data = Inr sh \<and> equal_shards (k + m) sh \<and> prefix data (concat (take k sh))"
    "equal_shards (k + m) sh \<Longrightarrow> \<exists>c. rs_Encode RS sh = Inr c \<and> equal_shards (k + m) c \<and> take k c = take k sh"
    "fst (rs_Verify RS sh) \<longleftrightarrow> codeword RS (k + m) sh"
    "codeword RS (k + m) c \<Longrightarrow> partial_word c known \<Longrightarrow> k \<le> present known \<Longrightarrow> rs_Reconstruct RS known = Inr c"
    "codeword RS (k + m) c \<Longrightarrow> n \<le> length (concat (take k c)) \<Longrightarrow> rs_Join RS c n = Inr (take n (concat (take k c)))"
  using assms unfolding rs_ok_def by blast+

lemma codeword_equal: "rs_ok RS k m \<Longrightarrow> codeword RS (k + m) c \<Longrightarrow> equal_shards (k + m) c"
  using rs_okD(3) by (fastforce simp: codeword_def)

lemma splitAndEncode_codeword:
  assumes "rs_ok RS k m" "data \<noteq> []"
  obtains c where "splitAndEncode RS data = Inr c" "codeword RS (k + m) c" "prefix data (concat (take k c))"
proof -
  obtain sh where sh: "rs_Split RS data = Inr sh" "equal_shards (k + m) sh" "prefix data (concat (take k sh))"
    using rs_okD(2) [OF assms] by blast
  obtain c where c: "rs_Encode RS sh = Inr c" "take k c = take k sh" using rs_okD(3) [OF assms(1) sh(2)] by blast
  then show ?thesis using sh that [of c] by (auto simp: splitAndEncode_def codeword_def)
qed

lemma length_concat_equal: "list_all (\<lambda>x. length x = l) sh \<Longrightarrow> length (concat sh) = length sh * l"
  by (induction sh) auto

lemma equal_shards_head:
  assumes "equal_shards (k + m) c" "0 < k"
  shows "length (concat (take k c)) = length (c ! 0) * k" "c \<noteq> []"
proof -
  obtain l where l: "length c = k + m" "list_all (\<lambda>x. length x = l) c" using assms(1) by (auto simp: equal_shards_def)
  then have "list_all (\<lambda>x. length x = l) (take k c)" by (auto simp: list_all_iff dest: in_set_takeD)
  moreover have "length (c ! 0) = l" using l assms(2) by (auto simp: list_all_length)
  ultimately show "length (concat (take k c)) = length (c ! 0) * k" "c \<noteq> []"
    using l assms(2) length_concat_equal [of l "take k c"] by auto
qed

lemma partial_word_all: "partial_word c known \<Longrightarrow> present known = length known \<Longrightarrow> map the known = c"
  unfolding partial_word_def
proof (induction rule: list_all2_induct)
  case (Cons x xs y ys)
  have "y \<noteq> None"
  proof
    assume "y = None"
    then have "length (filter (\<lambda>x. x \<noteq> None) ys) = Suc (length ys)" using Cons.prems by (simp add: present_def)
    then show False by (metis Suc_n_not_le_n length_filter_le)
  qed
  then show ?case using Cons by (auto simp: present_def)
qed simp

lemma getShards_codeword:
  assumes rs: "rs_ok (ec_enc e) (ec_dataShards e) (ec_parityShards e)" and c: "codeword (ec_enc e) (totalShards e) c"
    and known: "partial_word c (map (read_shard B ws path e) [0..<totalShards e])"
    and enough: "ec_dataShards e \<le> present (map (read_shard B ws path e) [0..<totalShards e])"
    and data: "prefix (PutUint64 (length data) @ data) (concat (take (ec_dataShards e) c))" "length data < 2 ^ 64"
  shows "getShards B ws path e = Inr data"
proof -
  let ?k = "ec_dataShards e" and ?known = "map (read_shard B ws path e) [0..<totalShards e]"
  have c': "codeword (ec_enc e) (?k + ec_parityShards e) c" using c by (simp add: totalShards_def)
  have full: "(if present ?known < totalShards e then rs_Reconstruct (ec_enc e) ?known else Inr (map the ?known)) = Inr c"
  proof (cases "present ?known < totalShards e")
    case True
    then show ?thesis using rs_okD(5) [OF rs c' known enough] by simp
  next
    case False
    moreover have "present ?known \<le> totalShards e" using length_filter_le [of "\<lambda>x. x \<noteq> None" ?known] by (simp add: present_def)
    ultimately show ?thesis using partial_word_all [OF known] by simp
  qed
  obtain x where v: "rs_Verify (ec_enc e) c = (True, x)" using rs_okD(4) [OF rs] c' by (metis prod.collapse)
  note h = equal_shards_head [OF codeword_equal [OF rs c'] rs_okD(1) [OF rs]]
  have "rs_Join (ec_enc e) c (length (c ! 0) * ?k) = Inr (concat (take ?k c))"
    using rs_okD(6) [OF rs c', of "length (c ! 0) * ?k"] h by simp
  then show ?thesis
    using trim_padding_prefix [OF data] full enough h(2) by (simp add: getShards_def Let_def v del: map_map)
qed

section \<open>One operation per back end\<close>

lemma each_backend_fields:
  assumes "each_backend op e = (e', errs)"
  shows "ec_enc e' = ec_enc e" "ec_dataShards e' = ec_dataShards e" "ec_parityShards e' = ec_parityShards e"
    "ec_shardMapping e' = ec_shardMapping e" "totalShards e' = totalShards e" "length (ec_backends e') = length (ec_backends e)"
  using assms by (auto simp: each_backend_def Let_def totalShards_def used_backends_def)

lemma each_backend_nth:
  assumes "each_backend op e = (e', errs)" "i < used_backends e"
  shows "ec_backends e' ! i = fst (op i (ec_backends e ! i))"
  using assms by (auto simp: each_backend_def Let_def nth_append)

lemma each_backend_errors:
  "snd (each_backend op e) = concat (map (\<lambda>i. case snd (op i (ec_backends e ! i)) of Inl x \<Rightarrow> [(i, x)] | Inr _ \<Rightarrow> []) [0..<used_backends e])"
  by (auto simp: each_backend_def Let_def intro!: arg_cong [where f = concat])

lemma present_map: "present (map f [0..<n]) = card {i. i < n \<and> f i \<noteq> None}"
proof -
  have "{i. i < n \<and> f i \<noteq> None} = set (filter (\<lambda>i. f i \<noteq> None) [0..<n])" by auto
  then have "card {i. i < n \<and> f i \<noteq> None} = length (filter (\<lambda>i. f i \<noteq> None) [0..<n])"
    using distinct_card [of "filter (\<lambda>i. f i \<noteq> None) [0..<n]"] by simp
  then show ?thesis by (simp add: present_def filter_map o_def)
qed

lemma concat_errors: "length (concat (map (\<lambda>i. case g i of Inl x \<Rightarrow> [(i, x)] | Inr _ \<Rightarrow> []) xs)) = length (filter (\<lambda>i. isl (g i)) xs)"
  by (induction xs) (auto split: sum.splits)


section \<open>Over any back end\<close>

context blob_backend
begin

lemma read_shard_contents:
  assumes "good_path (ec_shardMapping e path i)" "read_shard B ws path e i = Some d"
  shows "contents (ec_backends e ! i) (ec_shardMapping e path i) = Some d"
  using assms get_ok by (auto simp: read_shard_def ReadAll_def split: if_splits sum.splits option.splits)

lemma shard_read:
  assumes "good_path (ec_shardMapping e path i)" "i < length (ec_backends e)"
    and "contents (ec_backends e ! i) (ec_shardMapping e path i) = Some d" "be_Get B (ws i) (ec_shardMapping e path i) (ec_backends e ! i) = Inr r"
  shows "read_shard B ws path e i = Some d"
  using assms get_whole [OF assms(4,3,1)] by (simp add: read_shard_def ReadAll_def)

text \<open>What a write leaves in the back ends: a shard of the new codeword where the write succeeded, the old one elsewhere.\<close>

lemma putShards_contents:
  assumes "putShards B arrival ws path data e = (e', r)" "splitAndEncode (ec_enc e) (PutUint64 (length data) @ data) = Inr c"
    and "length c = totalShards e" "totalShards e \<le> length (ec_backends e)" "i < totalShards e" "good_path (ec_shardMapping e path i)"
  shows "contents (ec_backends e' ! i) (ec_shardMapping e path i) =
    (if isl (snd (be_Put B (ws i) (ec_shardMapping e path i) (c ! i, None) (int (length (c ! i))) (ec_backends e ! i)))
     then contents (ec_backends e ! i) (ec_shardMapping e path i) else Some (c ! i))"
proof -
  let ?op = "\<lambda>i. be_Put B (ws i) (ec_shardMapping e path i) (c ! i, None) (int (length (c ! i)))"
  have n: "used_backends e = totalShards e" using assms(4) by (simp add: used_backends_def)
  obtain errs where eb: "each_backend ?op e = (e', errs)"
    using assms(1,2,3) n by (auto simp: putShards_def split: prod.splits)
  have "ec_backends e' ! i = fst (?op i (ec_backends e ! i))" using each_backend_nth [OF eb, of i] assms(5) n by simp
  moreover obtain s' r' where o: "?op i (ec_backends e ! i) = (s', r')" by (cases "?op i (ec_backends e ! i)")
  ultimately show ?thesis
    using put_ok [of _ _ _ _ _ s', OF _ assms(6)] put_error [of _ _ _ _ _ s', OF _ assms(6) assms(6)] by (cases r') auto
qed

lemma putShards_fields:
  "putShards B arrival ws path data e = (e', r) \<Longrightarrow> ec_enc e' = ec_enc e \<and> ec_dataShards e' = ec_dataShards e \<and>
     ec_parityShards e' = ec_parityShards e \<and> ec_shardMapping e' = ec_shardMapping e \<and> totalShards e' = totalShards e \<and>
     length (ec_backends e') = length (ec_backends e)"
  using each_backend_fields by (fastforce simp: putShards_def split: sum.splits if_splits prod.splits)

lemma erasure_survives:
  assumes rs: "rs_ok (ec_enc e) (ec_dataShards e) (ec_parityShards e)" and n: "totalShards e \<le> length (ec_backends e)"
    and good: "\<And>i. good_path (ec_shardMapping e path i)"
    and fresh: "\<And>i. i < totalShards e \<Longrightarrow> contents (ec_backends e ! i) (ec_shardMapping e path i) = None"
    and put: "putShards B arrival ws path data e = (e', Inr u)" and len: "length data < 2 ^ 64"
    and lost: "card {i. i < totalShards e \<and> (contents (ec_backends e' ! i) (ec_shardMapping e path i) = None \<or>
        isl (be_Get B (ws' i) (ec_shardMapping e path i) (ec_backends e' ! i)))} \<le> ec_parityShards e"
  shows "getShards B ws' path e' = Inr data"
proof -
  have ne: "PutUint64 (length data) @ data \<noteq> []" using length_PutUint64 [of "length data"] by (metis append_is_Nil_conv list.size(3) zero_neq_numeral)
  obtain c where c: "splitAndEncode (ec_enc e) (PutUint64 (length data) @ data) = Inr c" "codeword (ec_enc e) (totalShards e) c"
    "prefix (PutUint64 (length data) @ data) (concat (take (ec_dataShards e) c))"
    using splitAndEncode_codeword [OF rs ne] by (metis totalShards_def)
  have lc: "length c = totalShards e" using codeword_equal [OF rs] c(2) by (simp add: totalShards_def equal_shards_def)
  note f = putShards_fields [OF put] and w = putShards_contents [OF put c(1) lc n _ good]
  let ?rd = "read_shard B ws' path e'"
  have "?rd i = None \<or> ?rd i = Some (c ! i)" if i: "i < totalShards e" for i
  proof (cases "?rd i")
    case (Some d)
    then have "contents (ec_backends e' ! i) (ec_shardMapping e path i) = Some d" using read_shard_contents [of e' path i ws'] good f by simp
    then show ?thesis using w [OF i] fresh [OF i] Some by (simp split: if_splits)
  qed simp
  then have known: "partial_word c (map ?rd [0..<totalShards e'])" using f lc by (simp add: partial_word_def list_all2_conv_all_nth)
  let ?lost = "{i. i < totalShards e \<and> (contents (ec_backends e' ! i) (ec_shardMapping e path i) = None \<or>
      isl (be_Get B (ws' i) (ec_shardMapping e path i) (ec_backends e' ! i)))}"
  have "{..<totalShards e} - ?lost \<subseteq> {i. i < totalShards e' \<and> ?rd i \<noteq> None}"
  proof
    fix i assume "i \<in> {..<totalShards e} - ?lost"
    then obtain d r where "i < totalShards e" "contents (ec_backends e' ! i) (ec_shardMapping e path i) = Some d"
      "be_Get B (ws' i) (ec_shardMapping e path i) (ec_backends e' ! i) = Inr r"
      by (cases "be_Get B (ws' i) (ec_shardMapping e path i) (ec_backends e' ! i)") auto
    then show "i \<in> {i. i < totalShards e' \<and> ?rd i \<noteq> None}" using shard_read [of e' path i d ws' r] f n good by simp
  qed
  then have "card ({..<totalShards e} - ?lost) \<le> present (map ?rd [0..<totalShards e'])"
    unfolding present_map by (intro card_mono) auto
  moreover have "card ({..<totalShards e} - ?lost) = totalShards e - card ?lost" by (subst card_Diff_subset) auto
  ultimately have "ec_dataShards e' \<le> present (map ?rd [0..<totalShards e'])" using lost f by (simp add: totalShards_def)
  then show ?thesis using getShards_codeword [OF _ _ known _ _ len] rs c f by simp
qed

end


lemma one_shard_changed:
  assumes rs: "rs_ok RS k m" and m: "0 < m" and c: "codeword RS (k + m) c" and j: "j < k + m" and x: "x \<noteq> c ! j"
  shows "\<not> codeword RS (k + m) (c[j := x])"
proof
  assume c': "codeword RS (k + m) (c[j := x])"
  let ?known = "(map Some c)[j := None]"
  have lc: "length c = k + m" using codeword_equal [OF rs c] by (simp add: equal_shards_def)
  have "present ?known = card ({..<k + m} - {j})"
  proof -
    have "?known = map (\<lambda>i. if i = j then None else Some (c ! i)) [0..<k + m]" using lc by (auto intro!: nth_equalityI simp: nth_list_update)
    then have "present ?known = card {i. i < k + m \<and> (if i = j then None else Some (c ! i)) \<noteq> None}" by (simp only: present_map)
    moreover have "{i. i < k + m \<and> (if i = j then None else Some (c ! i)) \<noteq> None} = {..<k + m} - {j}" by auto
    ultimately show ?thesis by simp
  qed
  then have p: "k \<le> present ?known" using m j by simp
  have "partial_word c ?known" "partial_word (c[j := x]) ?known"
    using lc j by (auto simp: partial_word_def list_all2_conv_all_nth nth_list_update)
  then have "c[j := x] = c" using rs_okD(5) [OF rs c _ p] rs_okD(5) [OF rs c' _ p] by simp
  then show False using x j lc by (metis nth_list_update_eq)
qed

context blob_backend
begin

lemma stale_shard_unreadable:
  assumes rs: "rs_ok (ec_enc e) (ec_dataShards e) (ec_parityShards e)" and m: "0 < ec_parityShards e" and n: "totalShards e \<le> length (ec_backends e)"
    and good: "\<And>i. good_path (ec_shardMapping e path i)"
    and c: "splitAndEncode (ec_enc e) (PutUint64 (length data) @ data) = Inr c" and j: "j < totalShards e"
    and fails: "\<And>i. i < totalShards e \<Longrightarrow>
      isl (snd (be_Put B (ws i) (ec_shardMapping e path i) (c ! i, None) (int (length (c ! i))) (ec_backends e ! i))) \<longleftrightarrow> i = j"
    and old: "contents (ec_backends e ! j) (ec_shardMapping e path j) = Some old" "old \<noteq> c ! j"
    and put: "putShards B arrival ws path data e = (e', r)"
    and reads: "\<And>i. i < totalShards e \<Longrightarrow> \<not> isl (be_Get B (ws' i) (ec_shardMapping e path i) (ec_backends e' ! i))"
  shows "r = Inr () \<and> (\<exists>x. getShards B ws' path e' = Inl (Err x))"
proof
  have ne: "PutUint64 (length data) @ data \<noteq> []" using length_PutUint64 [of "length data"] by (metis append_is_Nil_conv list.size(3) zero_neq_numeral)
  obtain c1 where "splitAndEncode (ec_enc e) (PutUint64 (length data) @ data) = Inr c1" "codeword (ec_enc e) (ec_dataShards e + ec_parityShards e) c1"
    using splitAndEncode_codeword [OF rs ne] by metis
  then have cw: "codeword (ec_enc e) (ec_dataShards e + ec_parityShards e) c" using c by simp
  have lc: "length c = totalShards e" using codeword_equal [OF rs cw] by (simp add: totalShards_def equal_shards_def)
  have used: "used_backends e = totalShards e" using n by (simp add: used_backends_def)
  let ?op = "\<lambda>i. be_Put B (ws i) (ec_shardMapping e path i) (c ! i, None) (int (length (c ! i)))"
  let ?bad = "\<lambda>i. isl (snd (?op i (ec_backends e ! i)))"
  have "filter ?bad [0..<totalShards e] = filter (\<lambda>i. i = j) [0..<totalShards e]" using fails by (intro filter_cong) auto
  moreover have "length (filter (\<lambda>i. i = j) [0..<totalShards e]) = 1"
  proof -
    have "set (filter (\<lambda>i. i = j) [0..<totalShards e]) = {j}" using j by auto
    then show ?thesis using distinct_card [of "filter (\<lambda>i. i = j) [0..<totalShards e]"] by simp
  qed
  ultimately have one: "length (filter ?bad [0..<totalShards e]) = 1" by simp
  show "r = Inr ()"
  proof -
    have "length (snd (each_backend ?op e)) = 1"
      using one unfolding each_backend_errors used concat_errors .
    then show ?thesis using put c m lc used by (auto simp: putShards_def split: prod.splits if_splits)
  qed
  note f = putShards_fields [OF put] and w = putShards_contents [OF put c lc n _ good]
  have "read_shard B ws' path e' i = Some (c[j := old] ! i)" if i: "i < totalShards e" for i
  proof -
    have "contents (ec_backends e' ! i) (ec_shardMapping e path i) = Some (c[j := old] ! i)"
      using w [OF i] fails [OF i] old lc i by (cases "i = j") simp_all
    then show ?thesis
      using shard_read [of e' path i _ ws'] reads [OF i] f n i good by (cases "be_Get B (ws' i) (ec_shardMapping e path i) (ec_backends e' ! i)") auto
  qed
  then have s: "map (read_shard B ws' path e') [0..<totalShards e'] = map Some (c[j := old])"
    using f lc by (auto intro!: nth_equalityI)
  have "\<not> fst (rs_Verify (ec_enc e) (c[j := old]))"
    using one_shard_changed [OF rs m cw _ old(2)] j rs_okD(4) [OF rs] by (simp add: totalShards_def)
  then obtain x where v: "rs_Verify (ec_enc e) (c[j := old]) = (False, x)" by (cases "rs_Verify (ec_enc e) (c[j := old])") auto
  have "present (map Some (c[j := old])) = totalShards e" using lc by (simp add: present_def)
  then show "\<exists>x. getShards B ws' path e' = Inl (Err x)"
    using f v unfolding getShards_def s by (simp add: Let_def totalShards_def map_idI)
qed

end

section \<open>Names of shards\<close>

lemma strip_loop_skip:
  assumes "CHR ''.'' \<notin> set (drop i s)" "i \<le> n" "n \<le> length s"
  shows "strip_loop s n = strip_loop s i"
  using assms(2,3)
proof (induction n)
  case (Suc n)
  show ?case
  proof (cases "i = Suc n")
    case False
    then have "drop i s ! (n - i) = s ! n" "n - i < length (drop i s)" using Suc.prems by simp_all
    then have "s ! n \<noteq> CHR ''.''" using assms(1) by (metis nth_mem)
    then show ?thesis using Suc False by simp
  qed simp
qed simp

lemma itoa_no_dot: "CHR ''.'' \<notin> set (itoa n)"
  using itoa_digits [of n] by (auto simp: list_all_iff is_digit_def)

text \<open>The name of an object is recovered from the name of each of its shards.\<close>

lemma stripShardSuffix_default: "stripShardSuffix (DefaultShardMapping path i) = path"
proof -
  let ?s = "path @ ''.shard.'' @ itoa i"
  let ?n = "length path"
  have "strip_loop ?s (length ?s) = strip_loop ?s (?n + 7)"
    by (rule strip_loop_skip) (simp_all add: itoa_no_dot)
  also have "\<dots> = path"
  proof -
    have "take n (itoa i) \<noteq> ''shard.''" for n
      using itoa_no_dot [of i] in_set_takeD [of "CHR ''.''" n "itoa i"] by force
    then show ?thesis using itoa_nonempty [of i] by (simp add: eval_nat_numeral nth_append Let_def)
  qed
  finally show ?thesis by (simp add: stripShardSuffix_def DefaultShardMapping_def)
qed


lemma plain_shard_name: "plain_component c \<Longrightarrow> plain_component (c @ ''.shard.'' @ x)"
  by (auto simp: plain_component_def append_eq_Cons_conv)

lemma temp_shard_name:
  assumes "c \<noteq> ''''" "\<not> HasPrefix c ''.tmp-''"
  shows "\<not> HasPrefix (c @ ''.shard.'' @ x) ''.tmp-''"
proof (cases "length c < 5")
  case True
  show ?thesis
  proof
    assume "HasPrefix (c @ ''.shard.'' @ x) ''.tmp-''"
    then have "take 5 (c @ ''.shard.'' @ x) ! length c = ''.tmp-'' ! length c" by (simp add: HasPrefix_def numeral_eq_Suc)
    then have "''.tmp-'' ! length c = CHR ''.''" using True by (simp add: nth_append)
    moreover have "length c \<in> {1, 2, 3, 4}" using True assms(1) by (auto simp: less_Suc_eq eval_nat_numeral)
    ultimately show False by auto
  qed
next
  case False
  then show ?thesis using assms(2) by (simp add: HasPrefix_def)
qed

lemma Split1_snoc_plain: "CHR ''/'' \<notin> set x \<Longrightarrow> Split1 (p @ x) CHR ''/'' = butlast (Split1 p CHR ''/'') @ [last (Split1 p CHR ''/'') @ x]"
proof (induction p)
  case (Cons a p)
  then show ?case using Split1_nonempty [of p "CHR ''/''"] by (auto split: list.splits simp: Cons_eq_append_conv)
qed simp

lemma itoa_no_slash: "CHR ''/'' \<notin> set (itoa n)"
  using itoa_digits [of n] by (auto simp: list_all_iff is_digit_def)

lemma good_path_shard:
  assumes "good_path path"
  shows "good_path (DefaultShardMapping path i)"
proof -
  let ?cs = "Split1 path CHR ''/''"
  have cs: "?cs = butlast ?cs @ [last ?cs]" using Split1_nonempty [of path "CHR ''/''"] by simp
  have p: "list_all plain_component (butlast ?cs)" "plain_component (last ?cs)" "\<not> HasPrefix (last ?cs) ''.tmp-''"
    using assms cs list_all_append [of plain_component "butlast ?cs" "[last ?cs]"] by (simp_all add: good_path_def)
  have s: "Split1 (DefaultShardMapping path i) CHR ''/'' = butlast ?cs @ [last ?cs @ ''.shard.'' @ itoa i]"
    unfolding DefaultShardMapping_def by (rule Split1_snoc_plain) (simp add: itoa_no_slash)
  show ?thesis
    using p temp_shard_name [of "last ?cs" "itoa i"] plain_shard_name [OF p(2), of "itoa i"] unfolding good_path_def s
    by (simp add: plain_component_def)
qed

section \<open>Properties\<close>

text \<open>
  C18. Erasure-coded objects survive the loss of as many shards as there is parity. With a code as
  documented and file back ends, a new object that was stored with success is read back exactly, as
  long as the back ends that failed to take their shard and those that fail to give it back are together no more than the parity shards.
\<close>

theorem erasure_tolerates_failures:
  assumes "rs_ok (ec_enc e) (ec_dataShards e) (ec_parityShards e)" "totalShards e \<le> length (ec_backends e)"
    and "ec_shardMapping e = DefaultShardMapping" "good_path path"
    and "\<And>i. i < totalShards e \<Longrightarrow> file_contents (ec_backends e ! i) (DefaultShardMapping path i) = None"
    and "EC_Put file_ops arrival ws path (data, None) sz e = (e', Inr ())" "length data < 2 ^ 64"
    and "card {i. i < totalShards e \<and> (file_contents (ec_backends e' ! i) (DefaultShardMapping path i) = None \<or>
        isl (FileBackend_Get (ws' i) (DefaultShardMapping path i) (ec_backends e' ! i)))} \<le> ec_parityShards e"
  shows "EC_Get file_ops ws' path e' = Inr (data, None)"
proof -
  have "putShards file_ops arrival ws path data e = (e', Inr ())" using assms(6) by (simp add: EC_Put_def ReadAll_def)
  from file_backend.erasure_survives [OF assms(1,2) _ _ this assms(7), of ws'] assms(3,5,8) good_path_shard [OF assms(4)]
  have "getShards file_ops ws' path e' = Inr data" by simp
  then show ?thesis by (simp add: EC_Get_def)
qed

text \<open>
  An overwrite within the tolerance can make an object unreadable. When exactly one back end fails to
  take its shard of the new version, the write succeeds; the old shard stays in place, and when all back ends answer, the read verifies a
  mixture of both versions and fails, although only one shard is wrong.
\<close>

theorem stale_shard_breaks_read:
  assumes "rs_ok (ec_enc e) (ec_dataShards e) (ec_parityShards e)" "0 < ec_parityShards e" "totalShards e \<le> length (ec_backends e)"
    and "ec_shardMapping e = DefaultShardMapping" "good_path path"
    and "splitAndEncode (ec_enc e) (PutUint64 (length data) @ data) = Inr shards" "j < totalShards e"
    and "\<And>i. i < totalShards e \<Longrightarrow>
      isl (snd (FileBackend_Put (ws i) (DefaultShardMapping path i) (shards ! i, None) (int (length (shards ! i))) (ec_backends e ! i))) \<longleftrightarrow> i = j"
    and "file_contents (ec_backends e ! j) (DefaultShardMapping path j) = Some old" "old \<noteq> shards ! j"
    and "EC_Put file_ops arrival ws path (data, None) sz e = (e', r)"
    and "\<And>i. i < totalShards e \<Longrightarrow> \<not> isl (FileBackend_Get (ws' i) (DefaultShardMapping path i) (ec_backends e' ! i))"
  shows "r = Inr () \<and> (\<exists>x. EC_Get file_ops ws' path e' = Inl (Err x))"
proof -
  have "putShards file_ops arrival ws path data e = (e', r)" using assms(11) by (simp add: EC_Put_def ReadAll_def)
  from file_backend.stale_shard_unreadable [OF assms(1,2,3) _ assms(6,7) _ _ assms(10) this, of ws'] assms(4,8,9,12) good_path_shard [OF assms(5)]
  have "r = Inr () \<and> (\<exists>x. getShards file_ops ws' path e' = Inl (Err x))" by simp
  then show ?thesis by (auto simp: EC_Get_def)
qed


section \<open>A store with three copies\<close>

text \<open>The code with one data shard and two parity shards that repeats the data.\<close>

definition three_copies :: rs_code where
  "three_copies = \<lparr>rs_Split = (\<lambda>d. Inr [d, replicate (length d) 0, replicate (length d) 0]), rs_Encode = (\<lambda>sh. Inr (replicate 3 (hd sh))),
     rs_Reconstruct = (\<lambda>known. case filter (\<lambda>x. x \<noteq> None) known of [] \<Rightarrow> Inl ''too few shards given'' | x # _ \<Rightarrow> Inr (replicate 3 (the x))),
     rs_Verify = (\<lambda>sh. (sh = replicate 3 (hd sh) \<and> hd sh \<noteq> [], ''<nil>'')), rs_Join = (\<lambda>sh n. Inr (take n (hd sh)))\<rparr>"

lemma copies_codeword: "codeword three_copies 3 c \<longleftrightarrow> (\<exists>d. d \<noteq> [] \<and> c = replicate 3 d)"
proof
  assume "codeword three_copies 3 c"
  then obtain sh where "equal_shards 3 sh" "c = replicate 3 (hd sh)" by (auto simp: codeword_def three_copies_def)
  then show "\<exists>d. d \<noteq> [] \<and> c = replicate 3 d" by (cases sh) (auto simp: equal_shards_def)
next
  assume "\<exists>d. d \<noteq> [] \<and> c = replicate 3 d"
  then obtain d where "d \<noteq> []" "c = replicate 3 d" by blast
  then show "codeword three_copies 3 c"
    unfolding codeword_def
    by (intro exI [of _ "replicate 3 d"]) (auto simp: three_copies_def equal_shards_def list_all_iff intro!: exI [of _ "length d"])
qed

lemma copies_reconstruct:
  assumes "partial_word (replicate n d) known" "1 \<le> present known"
  shows "\<exists>ys. filter (\<lambda>x. x \<noteq> None) known = Some d # ys"
proof -
  have "set known \<subseteq> {None, Some d}" using assms(1) by (fastforce simp: partial_word_def list_all2_conv_all_nth in_set_conv_nth)
  moreover obtain y ys where y: "filter (\<lambda>x. x \<noteq> None) known = y # ys" using assms(2) by (cases "filter (\<lambda>x. x \<noteq> None) known") (auto simp: present_def)
  moreover have "y \<in> set known" "y \<noteq> None" using filter_eq_ConsD [OF y] by auto
  ultimately show ?thesis by auto
qed

lemma three_copies_ok: "rs_ok three_copies 1 2"
proof -
  have split: "\<exists>sh. rs_Split three_copies data = Inr sh \<and> equal_shards 3 sh \<and> prefix data (concat (take 1 sh))" if "data \<noteq> []" for data
    using that by (auto simp: three_copies_def equal_shards_def)
  have enc: "\<exists>c. rs_Encode three_copies sh = Inr c \<and> equal_shards 3 c \<and> take 1 c = take 1 sh" if "equal_shards 3 sh" for sh
    using that by (cases sh) (auto simp: three_copies_def equal_shards_def eval_nat_numeral)
  have ver: "fst (rs_Verify three_copies sh) \<longleftrightarrow> codeword three_copies 3 sh" for sh
    by (auto simp: copies_codeword) (auto simp: three_copies_def)
  have rec: "rs_Reconstruct three_copies known = Inr c" if "codeword three_copies 3 c" "partial_word c known" "1 \<le> present known" for c known
    using that copies_reconstruct [of 3 _ known] by (auto simp: copies_codeword) (fastforce simp: three_copies_def)
  have jn: "rs_Join three_copies c n = Inr (take n (concat (take 1 c)))" if "codeword three_copies 3 c" for c n
  proof -
    from that obtain d where "c = replicate 3 d" unfolding copies_codeword by blast
    then show ?thesis by (simp add: three_copies_def eval_nat_numeral)
  qed
  have three: "1 + 2 = (3 :: nat)" by simp
  show ?thesis unfolding rs_ok_def three using split enc ver rec jn by blast
qed

definition demo_shard_files :: FileBackend where
  "demo_shard_files = \<lparr>fb_rootDir = [''data''],
     fb_fs = [([], Dir), ([''data''], Dir), ([''data'', ''b''], Dir), ([''data'', ''b'', ''k.shard.1''], File [1, 2])]\<rparr>"

definition demo_shards :: "FileBackend ErasureCodedBackend" where
  "demo_shards = \<lparr>ec_enc = three_copies, ec_dataShards = 1, ec_parityShards = 2, ec_backends = replicate 3 demo_shard_files,
     ec_shardMapping = DefaultShardMapping\<rparr>"

definition demo_word :: "byte list" where
  "demo_word = [0, 0, 0, 0, 0, 0, 0, 2, 9, 8]"

text \<open>The second back end cannot rename; when reading, the third one cannot open.\<close>

definition demo_writing :: "nat \<Rightarrow> os_world" where
  "demo_writing i = demo_os (if i = 1 then [SRename] else [])"

definition demo_reading :: "nat \<Rightarrow> os_world" where
  "demo_reading i = demo_os (if i = 2 then [SOpen] else [])"

lemma demo_encode: "splitAndEncode three_copies (PutUint64 (Suc (Suc 0)) @ [9, 8]) = Inr (replicate 3 demo_word)"
  by (simp add: splitAndEncode_def three_copies_def PutUint64_def demo_word_def upt_conv_Cons)

lemma demo_good: "good_path ''b/n''" "good_path ''b/k''"
  by (simp_all add: good_path_def plain_component_def HasPrefix_def)

lemma demo_shard_names:
  "DefaultShardMapping p 0 = p @ ''.shard.0''" "DefaultShardMapping p 1 = p @ ''.shard.1''" "DefaultShardMapping p 2 = p @ ''.shard.2''"
proof -
  have "itoa 0 = ''0''" "itoa 1 = ''1''" "itoa 2 = ''2''" by code_simp+
  then show "DefaultShardMapping p 0 = p @ ''.shard.0''" "DefaultShardMapping p 1 = p @ ''.shard.1''" "DefaultShardMapping p 2 = p @ ''.shard.2''"
    by (simp_all add: DefaultShardMapping_def)
qed

lemma demo_puts:
  assumes "i < 3" "path \<in> {''b/n'', ''b/k''}"
  shows "isl (snd (FileBackend_Put (demo_writing i) (DefaultShardMapping path i) (demo_word, None) 10 demo_shard_files)) \<longleftrightarrow> i = 1"
proof (cases "i = 1")
  case True
  then show ?thesis using FileBackend_Put_fails [of "demo_writing i"] by (simp add: demo_writing_def demo_os_def)
next
  case False
  have "i = 0 \<or> i = 2" using assms(1) False by auto
  then obtain base where b: "Join [''data''] (DefaultShardMapping path i) = [''data'', ''b''] @ [base]" "base \<in> {''n.shard.0'', ''n.shard.2'', ''k.shard.0'', ''k.shard.2''}"
    using assms(2) by (auto simp: demo_shard_names Join_def)
  have "snd (FileBackend_Put (demo_writing i) (DefaultShardMapping path i) (demo_word, None) 10 demo_shard_files) = Inr ()"
    by (rule FileBackend_Put_succeeds [where dir = "[''data'', ''b'']" and base = base])
      (use b False in \<open>auto simp: demo_writing_def demo_os_def demo_shard_files_def is_file_def temp_name_def demo_word_def\<close>)
  then show ?thesis using False by simp
qed

lemma demo_total: "totalShards demo_shards = 3" "used_backends demo_shards = 3"
  by (simp_all add: totalShards_def used_backends_def demo_shards_def)

lemma demo_backend: "i < 3 \<Longrightarrow> ec_backends demo_shards ! i = demo_shard_files"
  by (simp add: demo_shards_def)

lemma demo_fields: "ec_enc demo_shards = three_copies" "ec_dataShards demo_shards = 1" "ec_parityShards demo_shards = 2"
  "ec_shardMapping demo_shards = DefaultShardMapping" "length (ec_backends demo_shards) = 3"
  by (simp_all add: demo_shards_def)

lemma demo_word_length [simp]: "length demo_word = 10"
  by (simp add: demo_word_def)

lemma demo_word_nth [simp]: "i < 3 \<Longrightarrow> replicate 3 demo_word ! i = demo_word"
  by simp

definition demo_put :: "string \<Rightarrow> FileBackend ErasureCodedBackend \<times> unit result" where
  "demo_put path = EC_Put file_ops hd demo_writing path ([9, 8], None) 2 demo_shards"

lemma demo_put_shards: "demo_put path = putShards file_ops hd demo_writing path [9, 8] demo_shards"
  by (simp add: demo_put_def EC_Put_def ReadAll_def)

lemma demo_put_contents:
  assumes "i < 3" "path \<in> {''b/n'', ''b/k''}"
  shows "file_contents (ec_backends (fst (demo_put path)) ! i) (DefaultShardMapping path i) =
    (if i = 1 then file_contents demo_shard_files (DefaultShardMapping path i) else Some demo_word)"
  using file_backend.putShards_contents [of hd demo_writing path "[9, 8]" demo_shards "fst (demo_put path)" "snd (demo_put path)" "replicate 3 demo_word" i]
    demo_puts [OF assms] demo_encode assms demo_good good_path_shard [of path i]
  by (auto simp: demo_put_shards [symmetric] demo_fields demo_total demo_backend)

lemma demo_put_ok:
  assumes "path \<in> {''b/n'', ''b/k''}"
  shows "snd (demo_put path) = Inr ()"
proof -
  let ?op = "\<lambda>i. FileBackend_Put (demo_writing i) (DefaultShardMapping path i) (replicate 3 demo_word ! i, None) (int (length (replicate 3 demo_word ! i)))"
  have "length (snd (each_backend ?op demo_shards)) = length (filter (\<lambda>i. isl (snd (?op i (ec_backends demo_shards ! i)))) [0..<3])"
    unfolding each_backend_errors demo_total concat_errors ..
  also have "filter (\<lambda>i. isl (snd (?op i (ec_backends demo_shards ! i)))) [0..<3] = filter (\<lambda>i. i = 1) [0..<3]"
    using demo_puts [OF _ assms] by (intro filter_cong) (auto simp: demo_backend)
  also have "length \<dots> = 1" by (simp add: upt_conv_Cons)
  finally show ?thesis
    using demo_encode by (auto simp: demo_put_shards putShards_def demo_fields demo_total split: prod.splits)
qed

theorem erasure_tolerates_failures_witness: "EC_Get file_ops demo_reading ''b/n'' (fst (demo_put ''b/n'')) = Inr ([9, 8], None)"
proof (rule erasure_tolerates_failures [where e = demo_shards and arrival = hd and ws = demo_writing and sz = 2])
  show "rs_ok (ec_enc demo_shards) (ec_dataShards demo_shards) (ec_parityShards demo_shards)" using three_copies_ok by (simp add: demo_fields)
  show "EC_Put file_ops hd demo_writing ''b/n'' ([9, 8], None) 2 demo_shards = (fst (demo_put ''b/n''), Inr ())"
    using demo_put_ok [of "''b/n''"] by (simp add: demo_put_def prod_eq_iff)
  show "file_contents (ec_backends demo_shards ! i) (DefaultShardMapping ''b/n'' i) = None" if "i < totalShards demo_shards" for i
  proof -
    have "i = 0 \<or> i = 1 \<or> i = 2" using that unfolding demo_total by auto
    then have "file_contents demo_shard_files (DefaultShardMapping ''b/n'' i) = None"
      by (elim disjE) (simp_all only: demo_shard_names, simp_all add: file_contents_def demo_shard_files_def file_at_def Join_def)
    then show ?thesis using that by (simp add: demo_total demo_backend)
  qed
  let ?lost = "{i. i < totalShards demo_shards \<and> (file_contents (ec_backends (fst (demo_put ''b/n'')) ! i) (DefaultShardMapping ''b/n'' i) = None \<or>
      isl (FileBackend_Get (demo_reading i) (DefaultShardMapping ''b/n'' i) (ec_backends (fst (demo_put ''b/n'')) ! i)))}"
  have "?lost \<subseteq> {1, 2}"
  proof
    fix i assume "i \<in> ?lost"
    then show "i \<in> {1, 2}"
      using demo_put_contents [of i "''b/n''"] FileBackend_Get_succeeds [of "demo_reading i" "ec_backends (fst (demo_put ''b/n'')) ! i"]
      by (cases "i = 0") (auto simp: demo_total demo_reading_def demo_os_def)
  qed
  then show "card ?lost \<le> ec_parityShards demo_shards" using card_mono [of "{1, 2}" ?lost] by (simp add: demo_fields)
qed (simp_all add: demo_total demo_fields demo_good)

theorem stale_shard_breaks_read_witness:
  "snd (demo_put ''b/k'') = Inr () \<and> (\<exists>x. EC_Get file_ops (\<lambda>i. demo_os []) ''b/k'' (fst (demo_put ''b/k'')) = Inl (Err x))"
proof (rule stale_shard_breaks_read [where e = demo_shards and arrival = hd and ws = demo_writing and sz = 2 and data = "[9, 8]" and j = 1
      and old = "[1, 2]" and shards = "replicate 3 demo_word"])
  have old: "file_contents demo_shard_files (DefaultShardMapping ''b/k'' 1) = Some [1, 2]"
    unfolding demo_shard_names by (simp add: file_contents_def demo_shard_files_def file_at_def Join_def)
  then show "file_contents (ec_backends demo_shards ! 1) (DefaultShardMapping ''b/k'' 1) = Some [1, 2]" by (simp add: demo_backend)
  show "rs_ok (ec_enc demo_shards) (ec_dataShards demo_shards) (ec_parityShards demo_shards)" using three_copies_ok by (simp add: demo_fields)
  show "EC_Put file_ops hd demo_writing ''b/k'' ([9, 8], None) 2 demo_shards = (fst (demo_put ''b/k''), snd (demo_put ''b/k''))" by (simp add: demo_put_def)
  show "isl (snd (FileBackend_Put (demo_writing i) (DefaultShardMapping ''b/k'' i) (replicate 3 demo_word ! i, None)
      (int (length (replicate 3 demo_word ! i))) (ec_backends demo_shards ! i))) \<longleftrightarrow> i = 1" if "i < totalShards demo_shards" for i
    using that demo_puts [of i "''b/k''"] unfolding demo_total by (simp add: demo_backend)
  show "\<not> isl (FileBackend_Get (demo_os []) (DefaultShardMapping ''b/k'' i) (ec_backends (fst (demo_put ''b/k'')) ! i))" if "i < totalShards demo_shards" for i
    using that demo_put_contents [of i "''b/k''"] old FileBackend_Get_succeeds [of "demo_os []" "ec_backends (fst (demo_put ''b/k'')) ! i"]
    by (cases "i = 1") (auto simp: demo_total demo_os_def)
qed (use demo_encode in \<open>simp_all add: demo_total demo_fields demo_good demo_word_def\<close>)

end
