(* ===== verification/Tiered_Store.thy ===== *)
theory Tiered_Store
  imports Storage_Backend Meta_Properties
begin

text \<open>
  Object storage, third part: the tiered store of \<^verbatim>\<open>internal/storage/store.go\<close>, over any back end of the interface
  \<open>backend_ops\<close> and the metadata store of \<open>Meta_Store\<close>. A back end is a value \<open>'s\<close>; tiers have separate back ends.
  The locks of objects are in \<open>Object_Lock\<close>.
\<close>

section \<open>State and operations\<close>

definition TierHot :: int where "TierHot = 0"
definition TierWarm :: int where "TierWarm = 1"
definition TierCold :: int where "TierCold = 2"
definition TierArchive :: int where "TierArchive = 3"

record ('s, 'db) TieredObjectStore =
  ts_tiers :: "int \<rightharpoonup> 's"
  ts_currentSize :: "int \<Rightarrow> int"
  ts_maxSize :: "int \<Rightarrow> int"
  ts_metadata :: "'db MetaStore option"

definition NewTieredObjectStore :: "'db MetaStore option \<Rightarrow> ('s, 'db) TieredObjectStore" where
  "NewTieredObjectStore meta = \<lparr>ts_tiers = (\<lambda>_. None), ts_currentSize = (\<lambda>_. 0), ts_maxSize = (\<lambda>_. 0), ts_metadata = meta\<rparr>"

definition RegisterTier :: "int \<Rightarrow> 's \<Rightarrow> int \<Rightarrow> ('s, 'db) TieredObjectStore \<Rightarrow> ('s, 'db) TieredObjectStore" where
  "RegisterTier tier backend maxSize s = s\<lparr>ts_tiers := (ts_tiers s)(tier \<mapsto> backend), ts_maxSize := (ts_maxSize s)(tier := maxSize)\<rparr>"

definition ErrTierNotAvailable :: go_err where "ErrTierNotAvailable = Err ''storage tier not available''"

definition makePath :: "string \<Rightarrow> string \<Rightarrow> string" where
  "makePath bucket key = bucket @ ''/'' @ key"

definition set_tier :: "int \<Rightarrow> 's \<Rightarrow> ('s, 'db) TieredObjectStore \<Rightarrow> ('s, 'db) TieredObjectStore" where
  "set_tier tier b s = s\<lparr>ts_tiers := (ts_tiers s)(tier \<mapsto> b)\<rparr>"

definition add_size :: "int \<Rightarrow> int \<Rightarrow> ('s, 'db) TieredObjectStore \<Rightarrow> ('s, 'db) TieredObjectStore" where
  "add_size tier n s = s\<lparr>ts_currentSize := (ts_currentSize s)(tier := int64 (ts_currentSize s tier + n))\<rparr>"

definition TS_Put :: "('w, 's) backend_ops \<Rightarrow> 'w \<Rightarrow> string \<Rightarrow> string \<Rightarrow> reader \<Rightarrow> int \<Rightarrow> int \<Rightarrow> ('s, 'db) TieredObjectStore \<Rightarrow>
    ('s, 'db) TieredObjectStore \<times> unit result" where
  "TS_Put B w bucket key data sz tier s =
     (case ts_tiers s tier of
        None \<Rightarrow> (s, Inl ErrTierNotAvailable)
      | Some backend \<Rightarrow>
          (case be_Put B w (makePath bucket key) data sz backend of
             (b', Inl e) \<Rightarrow> (set_tier tier b' s, Inl (wrap_err ''failed to put object'' e))
           | (b', Inr _) \<Rightarrow> (add_size tier sz (set_tier tier b' s), Inr ())))"

definition TS_Get :: "('w, 's) backend_ops \<Rightarrow> 'w \<Rightarrow> string \<Rightarrow> string \<Rightarrow> int \<Rightarrow> ('s, 'db) TieredObjectStore \<Rightarrow> reader result" where
  "TS_Get B w bucket key tier s =
     (case ts_tiers s tier of
        None \<Rightarrow> Inl ErrTierNotAvailable
      | Some backend \<Rightarrow>
          (case be_Get B w (makePath bucket key) backend of
             Inl e \<Rightarrow> Inl (wrap_err ''failed to get object'' e)
           | Inr r \<Rightarrow> Inr r))"

definition TS_Delete :: "('w, 's) backend_ops \<Rightarrow> 'w \<Rightarrow> 'w \<Rightarrow> string \<Rightarrow> string \<Rightarrow> int \<Rightarrow> ('s, 'db) TieredObjectStore \<Rightarrow>
    ('s, 'db) TieredObjectStore \<times> unit result" where
  "TS_Delete B w1 w2 bucket key tier s =
     (case ts_tiers s tier of
        None \<Rightarrow> (s, Inl ErrTierNotAvailable)
      | Some backend \<Rightarrow>
          let sz = (case be_Size B w1 (makePath bucket key) backend of Inl _ \<Rightarrow> 0 | Inr n \<Rightarrow> n)
          in case be_Delete B w2 (makePath bucket key) backend of
               (b', Inl e) \<Rightarrow> (set_tier tier b' s, Inl (wrap_err ''failed to delete object'' e))
             | (b', Inr _) \<Rightarrow> (add_size tier (- sz) (set_tier tier b' s), Inr ()))"

record CommonMetadata =
  cm_Key :: string
  cm_Bucket :: string
  cm_Size :: int
  cm_ContentType :: string
  cm_ContentEncoding :: string
  cm_ETag :: string
  cm_UserMetadata :: "string \<rightharpoonup> string"
  cm_StorageTier :: int
  cm_CreatedAt :: gotime
  cm_ModifiedAt :: gotime
  cm_AccessCount :: int
  cm_LastAccessedAt :: gotime
  cm_Encrypted :: bool
  cm_Vectorized :: bool
  cm_VersionID :: string

definition metadataToCommon :: "ObjectMetadata \<Rightarrow> CommonMetadata" where
  "metadataToCommon m =
     \<lparr>cm_Key = om_Key m, cm_Bucket = om_Bucket m, cm_Size = om_Size m, cm_ContentType = om_ContentType m,
      cm_ContentEncoding = om_ContentEncoding m, cm_ETag = om_ETag m, cm_UserMetadata = om_UserMetadata m, cm_StorageTier = om_StorageTier m,
      cm_CreatedAt = om_CreatedAt m, cm_ModifiedAt = om_ModifiedAt m, cm_AccessCount = om_AccessCount m, cm_LastAccessedAt = om_LastAccessedAt m,
      cm_Encrypted = om_Encrypted m, cm_Vectorized = om_Vectorized m, cm_VersionID = om_VersionID m\<rparr>"

definition TS_Head :: "('db, 'tx, meta_doc) bolt_db \<Rightarrow> string \<Rightarrow> string \<Rightarrow> ('s, 'db) TieredObjectStore \<Rightarrow> CommonMetadata result" where
  "TS_Head D bucket key s =
     (case ts_metadata s of
        None \<Rightarrow> Inl ErrObjectNotFound
      | Some md \<Rightarrow>
          (case GetObject D md bucket key of
             Inl _ \<Rightarrow> Inl ErrObjectNotFound
           | Inr m \<Rightarrow> Inr (metadataToCommon m)))"

text \<open>What the surroundings do during a migration: the three calls of the back ends, closing the reader, and the metadata store's log, identifiers and clock.\<close>

record 'w migration =
  mg_get :: 'w
  mg_put :: 'w
  mg_close :: "go_err option"
  mg_delete :: 'w
  mg_io :: wal_io
  mg_uuid :: string
  mg_clock :: "nat \<Rightarrow> gotime"

definition TS_Migrate :: "('w, 's) backend_ops \<Rightarrow> ('db, 'tx, meta_doc) bolt_db \<Rightarrow> (meta_doc \<Rightarrow> byte list) \<Rightarrow> 'w migration \<Rightarrow> string \<Rightarrow> string \<Rightarrow>
    int \<Rightarrow> int \<Rightarrow> ('s, 'db) TieredObjectStore \<Rightarrow> ('s, 'db) TieredObjectStore \<times> unit result" where
  "TS_Migrate B D J mg bucket key fromTier toTier s =
     (case ts_metadata s of
        None \<Rightarrow> (s, Inl ErrObjectNotFound)
      | Some md \<Rightarrow>
          (case GetObject D md bucket key of
             Inl _ \<Rightarrow> (s, Inl ErrObjectNotFound)
           | Inr meta \<Rightarrow>
               if om_StorageTier meta \<noteq> fromTier then (s, Inl (Err ''object is not in source tier''))
               else (case (ts_tiers s fromTier, ts_tiers s toTier) of
                       (Some src, Some dst) \<Rightarrow>
                         (case be_Get B (mg_get mg) (makePath bucket key) src of
                            Inl e \<Rightarrow> (s, Inl (wrap_err ''failed to read from source'' e))
                          | Inr rd \<Rightarrow>
                              (case be_Put B (mg_put mg) (makePath bucket key) rd (om_Size meta) dst of
                                 (dst', Inl e) \<Rightarrow> (set_tier toTier dst' s, Inl (wrap_err ''failed to write to destination'' e))
                               | (dst', Inr _) \<Rightarrow>
                                   let s1 = set_tier toTier dst' s
                                   in case mg_close mg of
                                        Some e \<Rightarrow> (s1, Inl (wrap_err ''failed to close source after migration'' e))
                                      | None \<Rightarrow>
                                          (case be_Delete B (mg_delete mg) (makePath bucket key) (the (ts_tiers s1 fromTier)) of
                                             (src', Inl e) \<Rightarrow> (set_tier fromTier src' s1, Inl (wrap_err ''failed to delete source after migration'' e))
                                           | (src', Inr _) \<Rightarrow>
                                               let s2 = add_size toTier (om_Size meta) (add_size fromTier (- om_Size meta) (set_tier fromTier src' s1))
                                               in case PutObject D J (mg_io mg) (mg_uuid mg) (mg_clock mg) md bucket key (meta\<lparr>om_StorageTier := toTier\<rparr>) of
                                                    (md', _, Inl e) \<Rightarrow>
                                                      (s2\<lparr>ts_metadata := Some md'\<rparr>, Inl (wrap_err ''failed to update metadata after migration'' e))
                                                  | (md', _, Inr _) \<Rightarrow> (s2\<lparr>ts_metadata := Some md'\<rparr>, Inr ()))))
                     | _ \<Rightarrow> (s, Inl ErrTierNotAvailable))))"

definition GetTierSize :: "int \<Rightarrow> ('s, 'db) TieredObjectStore \<Rightarrow> int" where
  "GetTierSize tier s = ts_currentSize s tier"

lemma set_tier_simps [simp]:
  "ts_tiers (set_tier t b s) = (ts_tiers s)(t \<mapsto> b)" "ts_metadata (set_tier t b s) = ts_metadata s"
  "ts_currentSize (set_tier t b s) = ts_currentSize s"
  "ts_tiers (add_size t n s) = ts_tiers s" "ts_metadata (add_size t n s) = ts_metadata s"
  by (simp_all add: set_tier_def add_size_def)

text \<open>The contents of an object in a tier, given the contents of a back end.\<close>

definition held :: "('s \<Rightarrow> string \<Rightarrow> byte list option) \<Rightarrow> ('s, 'db) TieredObjectStore \<Rightarrow> int \<Rightarrow> string \<Rightarrow> string \<Rightarrow> byte list option" where
  "held C s tier bucket key = (case ts_tiers s tier of None \<Rightarrow> None | Some b \<Rightarrow> C b (makePath bucket key))"

text \<open>Writing the tier back to the metadata: it is the new one, or the record is as before.\<close>

lemma PutObject_retier:
  assumes D: "bolt_db_ok D" and get: "GetObject D md bucket key = Inr meta"
    and po: "PutObject D J io uuid clk md bucket key (meta\<lparr>om_StorageTier := tier\<rparr>) = (md', m', r)"
  shows "if r = Inr () then \<exists>meta'. GetObject D md' bucket key = Inr meta' \<and> om_StorageTier meta' = tier \<and> om_Size meta' = om_Size meta
    else GetObject D md' bucket key = Inr meta"
proof (cases r)
  case (Inl e)
  then show ?thesis using PutObject_error [OF po [unfolded Inl]] get by (simp add: GetObject_def)
next
  case (Inr u)
  then have "PutObject D J io uuid clk md bucket key (meta\<lparr>om_StorageTier := tier\<rparr>) = (md', m', Inr ())" using po by simp
  note p = PutObject_ok(1,2) [OF D this]
  have "GetObject D md' bucket key = Inr m'" using p(2) by (simp add: GetObject_get [OF D])
  moreover have "om_StorageTier m' = tier" "om_Size m' = om_Size meta" using p(1) by (simp_all add: stamp_version_def Let_def)
  ultimately show ?thesis using Inr by auto
qed

section \<open>Over any back end\<close>

context blob_backend
begin

lemma migrate_moved:
  assumes md: "ts_metadata s = Some md" "GetObject D md bucket key = Inr meta" "om_StorageTier meta = fromTier"
    and ne: "fromTier \<noteq> toTier" and good: "good_path (makePath bucket key)"
    and tiers: "ts_tiers s fromTier = Some src" "ts_tiers s toTier = Some dst" and d: "contents src (makePath bucket key) = Some d"
    and get: "be_Get B (mg_get mg) (makePath bucket key) src = Inr rd"
    and put: "be_Put B (mg_put mg) (makePath bucket key) rd (om_Size meta) dst = (dst', Inr u)" and close: "mg_close mg = None"
    and del: "be_Delete B (mg_delete mg) (makePath bucket key) src = (src', Inr v)"
    and po: "PutObject D J (mg_io mg) (mg_uuid mg) (mg_clock mg) md bucket key (meta\<lparr>om_StorageTier := toTier\<rparr>) = (md', m', mr)"
    and mig: "TS_Migrate B D J mg bucket key fromTier toTier s = (s', r)"
  shows "held contents s' toTier bucket key = Some d" "held contents s' fromTier bucket key = None" "ts_metadata s' = Some md'" "r = Inr () \<longleftrightarrow> mr = Inr ()"
proof -
  have "contents dst' (makePath bucket key) = Some d" "contents src' (makePath bucket key) = None"
    using put_ok [OF put good] get_whole [OF get d good] delete_ok [OF del good] by simp_all
  then show "held contents s' toTier bucket key = Some d" "held contents s' fromTier bucket key = None" "ts_metadata s' = Some md'" "r = Inr () \<longleftrightarrow> mr = Inr ()"
    using mig md tiers get put close ne del po by (auto simp: TS_Migrate_def held_def Let_def split: sum.splits)
qed

lemma migrate_cases:
  assumes D: "bolt_db_ok D" and md: "ts_metadata s = Some md" "GetObject D md bucket key = Inr meta" "om_StorageTier meta = fromTier"
    and ne: "fromTier \<noteq> toTier" and good: "good_path (makePath bucket key)" and d: "held contents s fromTier bucket key = Some d"
    and mig: "TS_Migrate B D J mg bucket key fromTier toTier s = (s', r)"
  shows "\<exists>md'. ts_metadata s' = Some md' \<and>
    (if r = Inr () then held contents s' toTier bucket key = Some d \<and> held contents s' fromTier bucket key = None \<and>
       (\<exists>meta'. GetObject D md' bucket key = Inr meta' \<and> om_StorageTier meta' = toTier \<and> om_Size meta' = om_Size meta)
     else GetObject D md' bucket key = Inr meta \<and>
       (held contents s' fromTier bucket key = Some d \<or>
        held contents s' toTier bucket key = Some d \<and>
        (\<exists>m' e. PutObject D J (mg_io mg) (mg_uuid mg) (mg_clock mg) md bucket key (meta\<lparr>om_StorageTier := toTier\<rparr>) = (md', m', Inl e))))"
proof -
  let ?p = "makePath bucket key"
  obtain src where src: "ts_tiers s fromTier = Some src" "contents src ?p = Some d" using d by (auto simp: held_def split: option.splits)
  show ?thesis
  proof (cases "\<exists>dst rd dst' src'. ts_tiers s toTier = Some dst \<and> be_Get B (mg_get mg) ?p src = Inr rd \<and>
      be_Put B (mg_put mg) ?p rd (om_Size meta) dst = (dst', Inr ()) \<and> mg_close mg = None \<and> be_Delete B (mg_delete mg) ?p src = (src', Inr ())")
    case True
    then obtain dst rd dst' src' where ok: "ts_tiers s toTier = Some dst" "be_Get B (mg_get mg) ?p src = Inr rd"
      "be_Put B (mg_put mg) ?p rd (om_Size meta) dst = (dst', Inr ())" "mg_close mg = None" "be_Delete B (mg_delete mg) ?p src = (src', Inr ())" by blast
    obtain md' m' mr where po: "PutObject D J (mg_io mg) (mg_uuid mg) (mg_clock mg) md bucket key (meta\<lparr>om_StorageTier := toTier\<rparr>) = (md', m', mr)"
      by (metis prod_cases3)
    note m = migrate_moved [OF md ne good src(1) ok(1) src(2) ok(2,3,4,5) po mig]
    show ?thesis using PutObject_retier [OF D md(2) po] m po by (cases mr) auto
  next
    case False
    then have "held contents s' fromTier bucket key = Some d \<and> r \<noteq> Inr () \<and> ts_metadata s' = Some md"
      using mig md src ne delete_error [of "mg_delete mg" ?p src]
      by (auto simp: TS_Migrate_def held_def Let_def split: option.splits sum.splits prod.splits)
    then show ?thesis using md by auto
  qed
qed

text \<open>A size that is not the number of stored bytes stops a migration before anything changes.\<close>

lemma migrate_size_refused:
  assumes md: "ts_metadata s = Some md" "GetObject D md bucket key = Inr meta" and good: "good_path (makePath bucket key)"
    and d: "held contents s fromTier bucket key = Some d" "0 < om_Size meta" "om_Size meta \<noteq> int (length d)"
    and mig: "TS_Migrate B D J mg bucket key fromTier toTier s = (s', r)"
  shows "r \<noteq> Inr () \<and> held contents s' fromTier bucket key = Some d \<and> ts_metadata s' = Some md"
proof -
  let ?p = "makePath bucket key"
  obtain src where src: "ts_tiers s fromTier = Some src" "contents src ?p = Some d" using d by (auto simp: held_def split: option.splits)
  have "isl (snd (be_Put B w ?p (d, None) (om_Size meta) dst))" for w dst
    using put_ok [of w ?p "(d, None)" "om_Size meta" dst] good d(2,3) by (cases "be_Put B w ?p (d, None) (om_Size meta) dst"; cases "snd (be_Put B w ?p (d, None) (om_Size meta) dst)") fastforce+
  moreover have "contents (fst (be_Put B w ?p rd n dst)) ?p = contents dst ?p" if "isl (snd (be_Put B w ?p rd n dst))" for w rd n dst
    using put_error [of w ?p rd n dst _ _ ?p] good that by (cases "be_Put B w ?p rd n dst"; cases "snd (be_Put B w ?p rd n dst)") auto
  ultimately show ?thesis
    using mig md src get_whole [OF _ src(2) good]
    by (auto simp: TS_Migrate_def held_def Let_def split: if_splits option.splits sum.splits prod.splits) (metis isl_def sum.disc(2) fst_conv snd_conv)+
qed

end


lemma migrate_same_tier_deletes:
  assumes "good_path (makePath bucket key)" "TS_Migrate file_ops D J mg bucket key tier tier s = (s', Inr ())"
  shows "held file_contents s' tier bucket key = None"
  using assms(2) file_backend.delete_ok [OF _ assms(1)]
  by (auto simp: TS_Migrate_def held_def Let_def split: option.splits sum.splits prod.splits if_splits)

section \<open>Properties\<close>

text \<open>
  C17. A migration from one tier to a different one keeps the object. For an object that the metadata place in the source tier and whose path has no empty,
  \<^verbatim>\<open>.\<close> or \<^verbatim>\<open>..\<close> component and no temporary name, whatever
  system calls and database operations fail: after success its bytes are in the target tier and no longer in the source, and the metadata
  name the target; after an error the metadata are as before and the bytes are in the source tier, unless
  it was the update of the metadata that failed, in which case they are in the target.
\<close>

theorem migrate_keeps_object:
  assumes "bolt_db_ok D" "ts_metadata s = Some md" "GetObject D md bucket key = Inr meta" "om_StorageTier meta = fromTier"
    and "fromTier \<noteq> toTier" "good_path (makePath bucket key)" "held file_contents s fromTier bucket key = Some d"
    and "TS_Migrate file_ops D J mg bucket key fromTier toTier s = (s', r)"
  shows "\<exists>md'. ts_metadata s' = Some md' \<and>
    (if r = Inr () then held file_contents s' toTier bucket key = Some d \<and> held file_contents s' fromTier bucket key = None \<and>
       (\<exists>meta'. GetObject D md' bucket key = Inr meta' \<and> om_StorageTier meta' = toTier \<and> om_Size meta' = om_Size meta)
     else GetObject D md' bucket key = Inr meta \<and>
       (held file_contents s' fromTier bucket key = Some d \<or>
        held file_contents s' toTier bucket key = Some d \<and>
        (\<exists>m' e. PutObject D J (mg_io mg) (mg_uuid mg) (mg_clock mg) md bucket key (meta\<lparr>om_StorageTier := toTier\<rparr>) = (md', m', Inl e))))"
  using assms by (rule file_backend.migrate_cases)

text \<open>
  A failed update of the metadata strands the object. When the bytes have been moved and the metadata store then refuses the record (because
  the bucket is over its quota, say), the metadata still name the source tier, where the object no longer is.
\<close>

theorem migrate_failure_strands:
  assumes "bolt_db_ok D" "ts_metadata s = Some md" "GetObject D md bucket key = Inr meta" "om_StorageTier meta = fromTier"
    and "fromTier \<noteq> toTier" "good_path (makePath bucket key)" "ts_tiers s fromTier = Some src" "ts_tiers s toTier = Some dst"
    and "file_contents src (makePath bucket key) = Some d" "FileBackend_Get (mg_get mg) (makePath bucket key) src = Inr rd"
    and "FileBackend_Put (mg_put mg) (makePath bucket key) rd (om_Size meta) dst = (dst', Inr ())" "mg_close mg = None"
    and "FileBackend_Delete (mg_delete mg) (makePath bucket key) src = (src', Inr ())"
    and "PutObject D J (mg_io mg) (mg_uuid mg) (mg_clock mg) md bucket key (meta\<lparr>om_StorageTier := toTier\<rparr>) = (md', m', Inl e)"
    and "TS_Migrate file_ops D J mg bucket key fromTier toTier s = (s', r)"
  shows "r \<noteq> Inr () \<and> ts_metadata s' = Some md' \<and> GetObject D md' bucket key = Inr meta \<and>
    held file_contents s' (om_StorageTier meta) bucket key = None \<and> held file_contents s' toTier bucket key = Some d"
  using file_backend.migrate_moved [of s md D bucket key meta fromTier toTier src dst d mg rd dst' "()" src' "()" J md' m' "Inl e" s' r]
    PutObject_retier [OF assms(1,3,14)] assms by simp

text \<open>
  An object of such a path whose recorded size is positive and not the number of its stored bytes is not migrated: the call ends with an
  error and leaves the object and the metadata as they are.
\<close>

theorem migrate_wrong_size_refused:
  assumes "ts_metadata s = Some md" "GetObject D md bucket key = Inr meta" "good_path (makePath bucket key)"
    and "held file_contents s fromTier bucket key = Some d" "0 < om_Size meta" "om_Size meta \<noteq> int (length d)"
    and "TS_Migrate file_ops D J mg bucket key fromTier toTier s = (s', r)"
  shows "r \<noteq> Inr () \<and> held file_contents s' fromTier bucket key = Some d \<and> ts_metadata s' = Some md"
  using assms by (rule file_backend.migrate_size_refused)

section \<open>A store with two tiers\<close>

definition demo_tier :: "string \<Rightarrow> fs \<Rightarrow> FileBackend" where
  "demo_tier name files = \<lparr>fb_rootDir = [name], fb_fs = [([], Dir), ([name], Dir)] @ files\<rparr>"

definition demo_hot :: "byte list \<Rightarrow> FileBackend" where
  "demo_hot d = demo_tier ''hot'' [([''hot'', ''docs''], Dir), ([''hot'', ''docs'', ''ab''], File d)]"

definition demo_store :: "byte list \<Rightarrow> 'db MetaStore \<Rightarrow> (FileBackend, 'db) TieredObjectStore" where
  "demo_store d md = RegisterTier TierWarm (demo_tier ''warm'' []) 0 (RegisterTier TierHot (demo_hot d) 0 (NewTieredObjectStore (Some md)))"

definition demo_migration :: "io_step list \<Rightarrow> os_world migration" where
  "demo_migration fails = \<lparr>mg_get = demo_os [], mg_put = demo_os [], mg_close = None, mg_delete = demo_os fails,
     mg_io = WalOk, mg_uuid = ''v2'', mg_clock = (\<lambda>_. 9)\<rparr>"

lemma demo_path: "good_path (makePath ''docs'' ''ab'')" "makePath ''docs'' ''ab'' = ''docs/ab''"
  by (simp_all add: makePath_def good_path_def plain_component_def HasPrefix_def)

lemma demo_tiers: "ts_tiers (demo_store d md) TierHot = Some (demo_hot d)" "ts_tiers (demo_store d md) TierWarm = Some (demo_tier ''warm'' [])"
  "ts_metadata (demo_store d md) = Some md"
  by (simp_all add: demo_store_def RegisterTier_def NewTieredObjectStore_def TierHot_def TierWarm_def)

lemma demo_held: "file_contents (demo_hot d) ''docs/ab'' = Some d" "held file_contents (demo_store d md) TierHot ''docs'' ''ab'' = Some d"
  by (simp_all add: held_def demo_tiers demo_path file_contents_def demo_hot_def demo_tier_def Join_def file_at_def)

lemma demo_get: "FileBackend_Get (demo_os []) ''docs/ab'' (demo_hot d) = Inr (d, None)"
  by (rule FileBackend_Get_succeeds) (simp_all add: demo_held demo_os_def)

lemma demo_put_warm: "snd (FileBackend_Put (demo_os []) ''docs/ab'' (d, None) (int (length d)) (demo_tier ''warm'' [])) = Inr ()"
  by (rule FileBackend_Put_succeeds [where dir = "[''warm'', ''docs'']" and base = "''ab''"])
    (auto simp: demo_os_def demo_tier_def Join_def is_file_def temp_name_def)

lemma demo_delete: "snd (FileBackend_Delete (demo_os []) ''docs/ab'' (demo_hot d)) = Inr ()"
  by (simp add: FileBackend_Delete_def demo_os_def demo_hot_def demo_tier_def Join_def fs_remove_def fs_stat_def)

lemma photo_hot: "om_StorageTier stored_photo = TierHot" "om_Size stored_photo = 5" "TierHot \<noteq> TierWarm"
  by (simp_all add: stored_photo_def photo_def zero_object_def TierHot_def TierWarm_def)

theorem migrate_keeps_object_witness:
  "\<exists>r s'. TS_Migrate file_ops mem_db (\<lambda>_. []) (demo_migration [SRemove]) ''docs'' ''ab'' TierHot TierWarm (demo_store [1, 2, 3, 4, 5] photo_meta) = (s', r) \<and>
     (held file_contents s' TierHot ''docs'' ''ab'' = Some [1, 2, 3, 4, 5] \<or> held file_contents s' TierWarm ''docs'' ''ab'' = Some [1, 2, 3, 4, 5])"
proof -
  obtain s' r where m: "TS_Migrate file_ops mem_db (\<lambda>_. []) (demo_migration [SRemove]) ''docs'' ''ab'' TierHot TierWarm (demo_store [1, 2, 3, 4, 5] photo_meta) = (s', r)"
    by fastforce
  show ?thesis
    using migrate_keeps_object [OF mem_db_ok demo_tiers(3) photo_get photo_hot(1) photo_hot(3) demo_path(1) demo_held(2) m] m by (auto split: if_splits)
qed

theorem migrate_wrong_size_refused_witness:
  "snd (TS_Migrate file_ops mem_db (\<lambda>_. []) (demo_migration []) ''docs'' ''ab'' TierHot TierWarm (demo_store (replicate 33 7) photo_meta)) \<noteq> Inr ()"
  using migrate_wrong_size_refused [OF demo_tiers(3) photo_get demo_path(1) demo_held(2) _ _ prod.collapse [symmetric], of "replicate 33 7" "\<lambda>_. []" "demo_migration []" TierWarm]
  by (simp add: photo_hot)

text \<open>The same metadata after the quota of the bucket was lowered below what it holds.\<close>

definition tight_bucket :: BucketInfo where
  "tight_bucket = photo_bucket\<lparr>bi_Quota := Some \<lparr>qc_MaxObjects = 0, qc_MaxSizeBytes = 3, qc_WarnThreshold = Some 0\<rparr>\<rparr>"

definition tight_meta :: "meta_doc mem_db MetaStore" where
  "tight_meta = photo_meta\<lparr>md_db := (\<lambda>_. [])(bktBuckets := [(''docs'', MBucket tight_bucket)], bktObjects := [(''docs/ab'', MObject stored_photo)])\<rparr>"


definition warm_photo :: ObjectMetadata where
  "warm_photo = stored_photo\<lparr>om_StorageTier := TierWarm, om_ModifiedAt := 9\<rparr>"

lemma tight_get: "GetObject mem_db tight_meta ''docs'' ''ab'' = Inr stored_photo" "GetBucket mem_db tight_meta ''docs'' = Inr tight_bucket"
  by (simp_all add: GetObject_get GetBucket_get tight_meta_def objectKey_def slash_def)

lemma tight_record: "put_record mem_db tight_meta ''docs'' ''ab'' warm_photo tight_bucket = tight_bucket"
  by (simp add: put_record_def put_info_def tight_meta_def objectKey_def slash_def stored_size_def warm_photo_def tight_bucket_def photo_bucket_def
      Let_def int64_small)

lemma tight_refuses:
  "\<exists>md'. PutObject mem_db (\<lambda>_. []) WalOk ''v2'' (\<lambda>_. 9) tight_meta ''docs'' ''ab'' (stored_photo\<lparr>om_StorageTier := TierWarm\<rparr>) =
     (md', warm_photo, Inl ErrQuotaExceeded)"
proof -
  have "warm_photo = (stamp_version ''v2'' (\<lambda>_. 9) (stored_photo\<lparr>om_StorageTier := TierWarm\<rparr>))\<lparr>om_IsLatest := True\<rparr>"
    by (simp add: warm_photo_def stamp_version_def stored_photo_def photo_def zero_object_def IsZero_def Let_def)
  moreover have "marshal_object warm_photo = Inr (MObject warm_photo)"
    by (simp add: marshal_object_def warm_photo_def stored_photo_def photo_def zero_object_def json_time_def json_opt_time_def)
  moreover have "marshal_bucket tight_bucket = Inr (MBucket tight_bucket)" "over_quota tight_bucket"
    by (simp_all add: marshal_bucket_def tight_bucket_def photo_bucket_def quota_bucket_def zero_bucket_def json_time_def over_quota_def)
  ultimately show ?thesis
    using PutObject_runs [OF mem_db_ok mem_db_no_errors, of "''docs''" "''ab''" warm_photo "''v2''" "\<lambda>_. 9" "stored_photo\<lparr>om_StorageTier := TierWarm\<rparr>"
        "MObject warm_photo" tight_meta tight_bucket "MBucket tight_bucket" "\<lambda>_. []"] tight_get tight_record
    by (simp add: valid_key_def MaxKeySize_def objectKey_def slash_def)
qed

theorem migrate_failure_strands_witness:
  "\<exists>s' r. TS_Migrate file_ops mem_db (\<lambda>_. []) (demo_migration []) ''docs'' ''ab'' TierHot TierWarm (demo_store [1, 2, 3, 4, 5] tight_meta) = (s', r) \<and>
     r \<noteq> Inr () \<and> held file_contents s' TierHot ''docs'' ''ab'' = None"
proof -
  obtain md' where po: "PutObject mem_db (\<lambda>_. []) WalOk ''v2'' (\<lambda>_. 9) tight_meta ''docs'' ''ab'' (stored_photo\<lparr>om_StorageTier := TierWarm\<rparr>) =
     (md', warm_photo, Inl ErrQuotaExceeded)" using tight_refuses by blast
  obtain s' r where m: "TS_Migrate file_ops mem_db (\<lambda>_. []) (demo_migration []) ''docs'' ''ab'' TierHot TierWarm (demo_store [1, 2, 3, 4, 5] tight_meta) = (s', r)"
    by fastforce
  let ?d = "[1, 2, 3, 4, 5] :: byte list"
  let ?put = "FileBackend_Put (demo_os []) ''docs/ab'' (?d, None) 5 (demo_tier ''warm'' [])" and ?del = "FileBackend_Delete (demo_os []) ''docs/ab'' (demo_hot ?d)"
  have "?put = (fst ?put, Inr ())" "?del = (fst ?del, Inr ())" using demo_put_warm [of ?d] demo_delete [of ?d] by (simp_all add: prod_eq_iff)
  then show ?thesis
    using migrate_failure_strands [OF mem_db_ok demo_tiers(3) tight_get(1) photo_hot(1,3) demo_path(1) demo_tiers(1,2), where d = ?d
        and mg = "demo_migration []" and rd = "(?d, None)" and dst' = "fst ?put" and src' = "fst ?del" and J = "\<lambda>_. []" and md' = md' and m' = warm_photo
        and e = ErrQuotaExceeded and s' = s' and r = r] m po demo_get demo_held(1)
    by (simp add: demo_path photo_hot demo_migration_def)
qed

end
