(* ===== verification/Tiering.thy ===== *)
theory Tiering
  imports Tiered_Store Float64
begin

text \<open>
  Tiering, \<^verbatim>\<open>internal/tiering/manager.go\<close>: access histories, the score of an object, decisions and migrations, over the tiered store.
  Scores are \<^verbatim>\<open>float64\<close> values, computed as written, without fusing a product and a sum. \<^verbatim>\<open>math.Exp\<close> and \<^verbatim>\<open>math.Log\<close> are the argument \<open>X\<close>;
  clock readings are arguments, and so are the orders in which Go visits a map, sorts
  equal elements and serves the migrations.
\<close>

section \<open>Durations\<close>

text \<open>Division and remainder of durations truncate.\<close>

definition quot_int :: "int \<Rightarrow> int \<Rightarrow> int" where
  "quot_int a b = (if a < 0 then - ((- a) div b) else a div b)"

definition float_units :: "int \<Rightarrow> int \<Rightarrow> rat" where
  "float_units u d = fl (fl (of_int (quot_int d u)) + fl (fl (of_int (d - quot_int d u * u)) / of_int u))"

definition Seconds :: "int \<Rightarrow> rat" where "Seconds d = float_units 1000000000 d"
definition Hours :: "int \<Rightarrow> rat" where "Hours d = float_units 3600000000000 d"

section \<open>The score\<close>

record math =
  mt_Exp :: "rat \<Rightarrow> rat"
  mt_Log :: "rat \<Rightarrow> rat"

record AccessHistory =
  ah_ObjectKey :: string
  ah_Bucket :: string
  ah_AccessTimes :: "gotime list"
  ah_AccessTypes :: "string list"
  ah_UserIDs :: "string list"
  ah_LastAccess :: gotime
  ah_TotalAccesses :: int
  ah_PriorityWeight :: int
  ah_FixedTier :: bool

definition decayHalfLife :: int where "decayHalfLife = 7 * 24 * 3600000000000"

record FeatureWeights =
  fw_access_frequency :: rat
  fw_recent_access :: rat
  fw_content_type :: rat
  fw_size :: rat
  fw_priority :: rat

definition featureWeights :: FeatureWeights where
  "featureWeights = \<lparr>fw_access_frequency = fl (4 / 10), fw_recent_access = fl (3 / 10), fw_content_type = fl (1 / 10), fw_size = - fl (1 / 10),
     fw_priority = fl (1 / 10)\<rparr>"

fun decayed_sum :: "math \<Rightarrow> rat \<Rightarrow> gotime \<Rightarrow> gotime list \<Rightarrow> rat \<Rightarrow> rat" where
  "decayed_sum X decayFactor now [] score = score"
| "decayed_sum X decayFactor now (t # ts) score =
     decayed_sum X decayFactor now ts (fl (score + mt_Exp X (fl (- decayFactor * Seconds (time_Sub now t)))))"

definition calculateFrequencyScore :: "math \<Rightarrow> gotime \<Rightarrow> AccessHistory \<Rightarrow> rat" where
  "calculateFrequencyScore X now history =
     (if ah_AccessTimes history = [] then 0
      else let decayFactor = fl (mt_Log X 2 / Seconds decayHalfLife)
           in min 100 (fl (decayed_sum X decayFactor now (ah_AccessTimes history) 0 / 10)))"

definition calculateRecentScore :: "AccessHistory \<Rightarrow> gotime \<Rightarrow> rat" where
  "calculateRecentScore history now =
     (if IsZero (ah_LastAccess history) then 0
      else let hoursSinceAccess = Hours (time_Sub now (ah_LastAccess history))
           in if hoursSinceAccess < 1 then 100
              else if hoursSinceAccess < 24 then 80
              else if hoursSinceAccess < 168 then 50
              else if hoursSinceAccess < 720 then 20
              else 0)"

definition calculateContentScore :: "CommonMetadata \<Rightarrow> rat" where
  "calculateContentScore m =
     (if cm_ContentType m = '''' then 50
      else if length (cm_ContentType m) \<ge> 5 \<and> take 5 (cm_ContentType m) = ''image'' then 80
      else if length (cm_ContentType m) \<ge> 5 \<and> take 5 (cm_ContentType m) = ''video'' then 60
      else if length (cm_ContentType m) \<ge> 4 \<and> take 4 (cm_ContentType m) = ''text'' then 70
      else 50)"

definition calculateSizeScore :: "CommonMetadata \<Rightarrow> rat" where
  "calculateSizeScore m =
     (if cm_Size m < 1024 * 1024 then 80
      else if cm_Size m < 100 * 1024 * 1024 then 60
      else if cm_Size m < 1024 * 1024 * 1024 then 40
      else 20)"

definition calculatePriorityScore :: "AccessHistory \<Rightarrow> rat" where
  "calculatePriorityScore history = fl (of_int (ah_PriorityWeight history))"

definition CalculateHotnessScore :: "math \<Rightarrow> gotime \<Rightarrow> gotime \<Rightarrow> AccessHistory \<Rightarrow> CommonMetadata \<Rightarrow> rat" where
  "CalculateHotnessScore X now now' history m =
     (let w = featureWeights;
          totalScore =
            fl (fl (fl (fl (fl (calculateFrequencyScore X now' history * fw_access_frequency w) +
                            fl (calculateRecentScore history now * fw_recent_access w)) +
                        fl (calculateContentScore m * fw_content_type w)) +
                    fl (calculateSizeScore m * fw_size w)) +
                fl (calculatePriorityScore history * fw_priority w))
      in max 0 (min 100 totalScore))"

definition scoreToTier :: "rat \<Rightarrow> int" where
  "scoreToTier score = (if score > 80 then TierHot else if score > 60 then TierWarm else if score > 20 then TierCold else TierArchive)"

section \<open>The manager\<close>

record TieringConfig =
  tc_Enabled :: bool
  tc_HotMaxSize :: int
  tc_WarmMaxSize :: int
  tc_ColdMaxSize :: int
  tc_MigrationWorkers :: int
  tc_CheckInterval :: int

record HotspotDetection =
  hs_Prefix :: string
  hs_Bucket :: string
  hs_AccessCount :: int
  hs_BaselineAccess :: int
  hs_DetectedAt :: gotime
  hs_IsHotspot :: bool

record ('s, 'db) TieringManager =
  tm_store :: "('s, 'db) TieredObjectStore"
  tm_accessHistories :: "string \<rightharpoonup> AccessHistory"
  tm_hotspots :: "string \<rightharpoonup> HotspotDetection"
  tm_config :: TieringConfig
  tm_migrating :: "string set"

definition NewTieringManager :: "('s, 'db) TieredObjectStore \<Rightarrow> TieringConfig option \<Rightarrow> ('s, 'db) TieringManager" where
  "NewTieringManager store config =
     \<lparr>tm_store = store, tm_accessHistories = (\<lambda>_. None), tm_hotspots = (\<lambda>_. None),
      tm_config = (case config of
         Some c \<Rightarrow> c
       | None \<Rightarrow> \<lparr>tc_Enabled = True, tc_HotMaxSize = 32 * 2 ^ 30, tc_WarmMaxSize = 0, tc_ColdMaxSize = 0, tc_MigrationWorkers = 10,
           tc_CheckInterval = 6 * 3600000000000\<rparr>),
      tm_migrating = {}\<rparr>"

definition empty_history :: "string \<Rightarrow> string \<Rightarrow> AccessHistory" where
  "empty_history bucket key = \<lparr>ah_ObjectKey = key, ah_Bucket = bucket, ah_AccessTimes = [], ah_AccessTypes = [], ah_UserIDs = [], ah_LastAccess = 0,
     ah_TotalAccesses = 0, ah_PriorityWeight = 0, ah_FixedTier = False\<rparr>"

definition last_thousand :: "'a list \<Rightarrow> 'a list" where
  "last_thousand xs = drop (length xs - 1000) xs"

definition add_access :: "gotime \<Rightarrow> string \<Rightarrow> string \<Rightarrow> AccessHistory \<Rightarrow> AccessHistory" where
  "add_access now accessType userID h =
     (let h1 = h\<lparr>ah_AccessTimes := ah_AccessTimes h @ [now], ah_AccessTypes := ah_AccessTypes h @ [accessType], ah_UserIDs := ah_UserIDs h @ [userID],
                 ah_LastAccess := now, ah_TotalAccesses := ah_TotalAccesses h + 1\<rparr>
      in if length (ah_AccessTimes h1) > 1000
         then h1\<lparr>ah_AccessTimes := last_thousand (ah_AccessTimes h1), ah_AccessTypes := last_thousand (ah_AccessTypes h1),
                 ah_UserIDs := last_thousand (ah_UserIDs h1)\<rparr>
         else h1)"

definition updateHotspotDetection :: "gotime \<Rightarrow> string \<Rightarrow> string \<Rightarrow> ('s, 'db) TieringManager \<Rightarrow> ('s, 'db) TieringManager" where
  "updateHotspotDetection now bucket pre m =
     (let hotspotKey = bucket @ ''/'' @ pre;
          hotspot = (case tm_hotspots m hotspotKey of
             Some h \<Rightarrow> h
           | None \<Rightarrow> \<lparr>hs_Prefix = pre, hs_Bucket = bucket, hs_AccessCount = 0, hs_BaselineAccess = 1, hs_DetectedAt = now, hs_IsHotspot = False\<rparr>);
          hotspot1 = hotspot\<lparr>hs_AccessCount := hs_AccessCount hotspot + 1\<rparr>;
          windowStart = now - 600000000000;
          recentAccesses = (case tm_accessHistories m hotspotKey of
             None \<Rightarrow> 0
           | Some history \<Rightarrow> int (length (filter (\<lambda>t. t > windowStart) (ah_AccessTimes history))));
          hotspot2 = (if recentAccesses > hs_BaselineAccess hotspot1 * 5 \<and> recentAccesses > 10
                      then hotspot1\<lparr>hs_IsHotspot := True, hs_DetectedAt := now\<rparr> else hotspot1)
      in m\<lparr>tm_hotspots := (tm_hotspots m)(hotspotKey \<mapsto> hotspot2)\<rparr>)"

definition history_at :: "string \<Rightarrow> string \<Rightarrow> ('s, 'db) TieringManager \<Rightarrow> AccessHistory" where
  "history_at bucket key m =
     (case tm_accessHistories m (bucket @ ''/'' @ key) of Some h \<Rightarrow> h | None \<Rightarrow> empty_history bucket key)"

definition RecordAccess :: "gotime \<Rightarrow> gotime \<Rightarrow> string \<Rightarrow> string \<Rightarrow> string \<Rightarrow> string \<Rightarrow> ('s, 'db) TieringManager \<Rightarrow> ('s, 'db) TieringManager" where
  "RecordAccess now now' bucket key accessType userID m =
     updateHotspotDetection now' bucket key
       (m\<lparr>tm_accessHistories := (tm_accessHistories m)(bucket @ ''/'' @ key \<mapsto> add_access now accessType userID (history_at bucket key m))\<rparr>)"

record TierDecision =
  td_ObjectKey :: string
  td_Bucket :: string
  td_CurrentTier :: int
  td_TargetTier :: int
  td_HotnessScore :: rat
  td_Reason :: string
  td_MigratedAt :: gotime

definition tier_String :: "int \<Rightarrow> string" where
  "tier_String t = (if t = TierHot then ''HOT'' else if t = TierWarm then ''WARM'' else if t = TierCold then ''COLD'' else if t = TierArchive then ''ARCHIVE'' else ''UNKNOWN'')"

text \<open>\<^verbatim>\<open>%.2f\<close> of a number that is not negative.\<close>

definition fmt_f2 :: "rat \<Rightarrow> string" where
  "fmt_f2 x = (let n = nat (round_even (x * 100)) in itoa (n div 100) @ ''.'' @ itoa (n mod 100 div 10) @ itoa (n mod 10))"

text \<open>What the range over the histories finds, in the order \<open>keys\<close> of the map.\<close>

definition tracked_objects :: "('db, 'tx, meta_doc) bolt_db \<Rightarrow> string list \<Rightarrow> ('s, 'db) TieringManager \<Rightarrow> CommonMetadata list" where
  "tracked_objects D keys m =
     concat (map (\<lambda>k. case tm_accessHistories m k of
        None \<Rightarrow> []
      | Some h \<Rightarrow> (case TS_Head D (ah_Bucket h) (ah_ObjectKey h) (tm_store m) of Inl _ \<Rightarrow> [] | Inr meta \<Rightarrow> [meta])) keys)"

definition decide :: "math \<Rightarrow> gotime \<Rightarrow> gotime \<Rightarrow> gotime \<Rightarrow> ('s, 'db) TieringManager \<Rightarrow> CommonMetadata \<Rightarrow> TierDecision list" where
  "decide X now now' stamp m obj =
     (let history = history_at (cm_Bucket obj) (cm_Key obj) m
      in if ah_FixedTier history then []
         else let score = CalculateHotnessScore X now now' history obj; targetTier = scoreToTier score
              in if targetTier \<noteq> cm_StorageTier obj
                 then [\<lparr>td_ObjectKey = cm_Key obj, td_Bucket = cm_Bucket obj, td_CurrentTier = cm_StorageTier obj, td_TargetTier = targetTier,
                        td_HotnessScore = score,
                        td_Reason = ''score '' @ fmt_f2 score @ '' warrants migration from '' @ tier_String (cm_StorageTier obj) @ '' to '' @ tier_String targetTier,
                        td_MigratedAt = stamp\<rparr>]
                 else [])"

definition RunTieringDecision :: "('db, 'tx, meta_doc) bolt_db \<Rightarrow> math \<Rightarrow> string list \<Rightarrow> (CommonMetadata list \<Rightarrow> CommonMetadata list) \<Rightarrow>
    (CommonMetadata \<Rightarrow> gotime \<times> gotime \<times> gotime) \<Rightarrow> ('s, 'db) TieringManager \<Rightarrow> TierDecision list" where
  "RunTieringDecision D X keys sort_desc clk m =
     concat (map (\<lambda>obj. case clk obj of (now, now', stamp) \<Rightarrow> decide X now now' stamp m obj) (sort_desc (tracked_objects D keys m)))"

text \<open>The decisions that are not already being carried out; the later one of two for one object is skipped.\<close>

definition decision_key :: "TierDecision \<Rightarrow> string" where
  "decision_key d = td_Bucket d @ ''/'' @ td_ObjectKey d"

fun claim_migrations :: "TierDecision list \<Rightarrow> string set \<Rightarrow> TierDecision list \<times> string set" where
  "claim_migrations [] migrating = ([], migrating)"
| "claim_migrations (d # ds) migrating =
     (if decision_key d \<in> migrating then claim_migrations ds migrating
      else case claim_migrations ds (insert (decision_key d) migrating) of (claimed, migrating') \<Rightarrow> (d # claimed, migrating'))"

definition run_migration :: "('w, 's) backend_ops \<Rightarrow> ('db, 'tx, meta_doc) bolt_db \<Rightarrow> (meta_doc \<Rightarrow> byte list) \<Rightarrow> (TierDecision \<Rightarrow> 'w migration) \<Rightarrow>
    TierDecision \<Rightarrow> ('s, 'db) TieringManager \<times> go_err list \<Rightarrow> ('s, 'db) TieringManager \<times> go_err list" where
  "run_migration B D J mg d x =
     (case x of (m, errs) \<Rightarrow>
        (case TS_Migrate B D J (mg d) (td_Bucket d) (td_ObjectKey d) (td_CurrentTier d) (td_TargetTier d) (tm_store m) of
           (s', r) \<Rightarrow> (m\<lparr>tm_store := s', tm_migrating := tm_migrating m - {decision_key d}\<rparr>,
                       errs @ (case r of Inl e \<Rightarrow> [e] | Inr _ \<Rightarrow> []))))"

definition migration_errors :: "go_err list \<Rightarrow> string" where
  "migration_errors errs = ''migration errors: ['' @ concat (map (\<lambda>e. err_text e @ '' '') (butlast errs)) @ (if errs = [] then '''' else err_text (last errs)) @ '']''"

definition ExecuteMigrations :: "('w, 's) backend_ops \<Rightarrow> ('db, 'tx, meta_doc) bolt_db \<Rightarrow> (meta_doc \<Rightarrow> byte list) \<Rightarrow> (TierDecision \<Rightarrow> 'w migration) \<Rightarrow>
    (TierDecision list \<Rightarrow> TierDecision list) \<Rightarrow> TierDecision list \<Rightarrow> ('s, 'db) TieringManager \<Rightarrow> ('s, 'db) TieringManager \<times> unit result" where
  "ExecuteMigrations B D J mg served decisions m =
     (if decisions = [] then (m, Inr ())
      else case claim_migrations decisions (tm_migrating m) of
             (claimed, migrating) \<Rightarrow>
               (case fold (run_migration B D J mg) (served claimed) (m\<lparr>tm_migrating := migrating\<rparr>, []) of
                  (m', errs) \<Rightarrow> (m', if errs \<noteq> [] then Inl (Err (migration_errors errs)) else Inr ())))"

definition SetFixedTier :: "('w, 's) backend_ops \<Rightarrow> ('db, 'tx, meta_doc) bolt_db \<Rightarrow> (meta_doc \<Rightarrow> byte list) \<Rightarrow> 'w migration \<Rightarrow> string \<Rightarrow> string \<Rightarrow> bool \<Rightarrow> int option \<Rightarrow>
    ('s, 'db) TieringManager \<Rightarrow> ('s, 'db) TieringManager \<times> unit result" where
  "SetFixedTier B D J mg bucket key fixed tier m =
     (let m1 = m\<lparr>tm_accessHistories := (tm_accessHistories m)(bucket @ ''/'' @ key \<mapsto> (history_at bucket key m)\<lparr>ah_FixedTier := fixed\<rparr>)\<rparr>
      in case (if fixed then tier else None) of
           None \<Rightarrow> (m1, Inr ())
         | Some t \<Rightarrow>
             (case TS_Head D bucket key (tm_store m1) of
                Inl e \<Rightarrow> (m1, Inl e)
              | Inr meta \<Rightarrow>
                  if cm_StorageTier meta \<noteq> t
                  then (case TS_Migrate B D J mg bucket key (cm_StorageTier meta) t (tm_store m1) of (s', r) \<Rightarrow> (m1\<lparr>tm_store := s'\<rparr>, r))
                  else (m1, Inr ())))"

definition GetAccessHistory :: "string \<Rightarrow> string \<Rightarrow> ('s, 'db) TieringManager \<Rightarrow> AccessHistory option" where
  "GetAccessHistory bucket key m = tm_accessHistories m (bucket @ ''/'' @ key)"

text \<open>The range over the map of hotspots visits it in the order \<open>keys\<close>.\<close>

definition GetHotspots :: "string list \<Rightarrow> ('s, 'db) TieringManager \<Rightarrow> HotspotDetection list" where
  "GetHotspots keys m = filter hs_IsHotspot (concat (map (\<lambda>k. case tm_hotspots m k of None \<Rightarrow> [] | Some h \<Rightarrow> [h]) keys))"

definition GetHotspotPrefetchCandidates :: "string list \<Rightarrow> ('s, 'db) TieringManager \<Rightarrow> string list" where
  "GetHotspotPrefetchCandidates keys m = map (\<lambda>h. hs_Bucket h @ ''/'' @ hs_Prefix h) (GetHotspots keys m)"

section \<open>The score never reaches the hot tier\<close>

lemma weight_bounds:
  "fw_access_frequency featureWeights \<le> 41 / 100" "fw_access_frequency featureWeights \<ge> 0"
  "fw_recent_access featureWeights \<le> 31 / 100" "fw_recent_access featureWeights \<ge> 0"
  "fw_content_type featureWeights \<le> 9 / 80" "fw_content_type featureWeights \<ge> 0" "fw_size featureWeights \<le> - 1 / 20"
  using fl_le [of "4 / 10"] fl_le [of "3 / 10"] fl_le [of "1 / 10"] fl_ge [of "1 / 10"] fl_nonneg [of "4 / 10"] fl_nonneg [of "3 / 10"] fl_nonneg [of "1 / 10"]
  by (simp_all add: featureWeights_def eps_def)

lemma fl_le_int: "x \<le> of_int n \<Longrightarrow> \<bar>n\<bar> \<le> 2 ^ 53 \<Longrightarrow> fl x \<le> of_int n"
  using fl_mono [of x "of_int n"] by (simp add: fl_of_int)

lemma frequency_bound: "calculateFrequencyScore X now h \<le> 100"
  by (simp add: calculateFrequencyScore_def Let_def)

lemma recent_bound: "0 \<le> calculateRecentScore h now \<and> calculateRecentScore h now \<le> 100"
  by (simp add: calculateRecentScore_def Let_def)

lemma content_bound: "0 \<le> calculateContentScore m \<and> calculateContentScore m \<le> 80"
  by (simp add: calculateContentScore_def)

lemma size_bound: "20 \<le> calculateSizeScore m"
  by (simp add: calculateSizeScore_def)

lemma scaled_bound: "x \<le> a \<Longrightarrow> 0 \<le> a \<Longrightarrow> 0 \<le> w \<Longrightarrow> w \<le> b \<Longrightarrow> a * b \<le> c \<Longrightarrow> x * w \<le> (c :: rat)"
  by (meson mult_mono' mult_right_mono mult_left_mono order_trans)

lemma weighted_bounds:
  "fl (calculateFrequencyScore X now h * fw_access_frequency featureWeights) \<le> of_int 41"
  "fl (calculateRecentScore h now * fw_recent_access featureWeights) \<le> of_int 31"
  "fl (calculateContentScore m * fw_content_type featureWeights) \<le> of_int 9"
  "fl (calculateSizeScore m * fw_size featureWeights) \<le> of_int (- 1)"
proof -
  show "fl (calculateFrequencyScore X now h * fw_access_frequency featureWeights) \<le> of_int 41"
    by (rule fl_le_int, rule scaled_bound [OF frequency_bound _ weight_bounds(2,1)]) simp_all
  show "fl (calculateRecentScore h now * fw_recent_access featureWeights) \<le> of_int 31"
    by (rule fl_le_int, rule scaled_bound [OF conjunct2 [OF recent_bound] _ weight_bounds(4,3)]) simp_all
  show "fl (calculateContentScore m * fw_content_type featureWeights) \<le> of_int 9"
    by (rule fl_le_int, rule scaled_bound [OF conjunct2 [OF content_bound] _ weight_bounds(6,5)]) simp_all
  have "calculateSizeScore m * fw_size featureWeights \<le> 20 * fw_size featureWeights"
    using size_bound [of m] weight_bounds(7) by (intro mult_right_mono_neg) auto
  also have "\<dots> \<le> of_int (- 1)" using weight_bounds(7) by simp
  finally show "fl (calculateSizeScore m * fw_size featureWeights) \<le> of_int (- 1)" by (rule fl_le_int) simp
qed

lemma fl_add_le_int: "x \<le> of_int a \<Longrightarrow> y \<le> of_int b \<Longrightarrow> c = a + b \<Longrightarrow> \<bar>c\<bar> \<le> 2 ^ 53 \<Longrightarrow> fl (x + y) \<le> of_int c"
  by (rule fl_le_int) auto

text \<open>
  The score of an object is between 0 and 80 as long as its history has no priority, whatever its accesses, its type and its size, and
  whatever the exponential and the logarithm return.
\<close>

theorem score_bounds:
  assumes "ah_PriorityWeight history = 0"
  shows "0 \<le> CalculateHotnessScore X now now' history m \<and> CalculateHotnessScore X now now' history m \<le> 80"
proof -
  let ?w = featureWeights
  let ?s2 = "fl (fl (calculateFrequencyScore X now' history * fw_access_frequency ?w) + fl (calculateRecentScore history now * fw_recent_access ?w))"
  let ?s3 = "fl (?s2 + fl (calculateContentScore m * fw_content_type ?w))"
  let ?s4 = "fl (?s3 + fl (calculateSizeScore m * fw_size ?w))"
  have "?s2 \<le> of_int 72" by (rule fl_add_le_int [OF weighted_bounds(1,2)]) simp_all
  then have "?s3 \<le> of_int 81" by (rule fl_add_le_int [OF _ weighted_bounds(3)]) simp_all
  then have "?s4 \<le> of_int 80" by (rule fl_add_le_int [OF _ weighted_bounds(4)]) simp_all
  then have "fl (?s4 + fl (calculatePriorityScore history * fw_priority ?w)) \<le> of_int 80"
    using assms by (simp add: calculatePriorityScore_def)
  then show ?thesis by (simp add: CalculateHotnessScore_def Let_def)
qed

section \<open>What the manager keeps\<close>

definition history_wf :: "AccessHistory \<Rightarrow> bool" where
  "history_wf h \<longleftrightarrow> length (ah_AccessTimes h) \<le> 1000 \<and> length (ah_AccessTypes h) = length (ah_AccessTimes h) \<and>
     length (ah_UserIDs h) = length (ah_AccessTimes h) \<and> int (length (ah_AccessTimes h)) \<le> ah_TotalAccesses h \<and> ah_PriorityWeight h = 0 \<and>
     (if ah_AccessTimes h = [] then ah_LastAccess h = 0 else ah_LastAccess h = last (ah_AccessTimes h))"

definition tiering_ok :: "('s, 'db) TieringManager \<Rightarrow> bool" where
  "tiering_ok m \<longleftrightarrow> (\<forall>k h. tm_accessHistories m k = Some h \<longrightarrow> history_wf h \<and> k = ah_Bucket h @ ''/'' @ ah_ObjectKey h)"

inductive tiering_step :: "('w, 's) backend_ops \<Rightarrow> ('db, 'tx, meta_doc) bolt_db \<Rightarrow> (meta_doc \<Rightarrow> byte list) \<Rightarrow> ('s, 'db) TieringManager \<Rightarrow> ('s, 'db) TieringManager \<Rightarrow> bool"
  for B D J where
  step_record: "tiering_step B D J m (RecordAccess now now' bucket key accessType userID m)"
| step_migrate: "tiering_step B D J m (fst (ExecuteMigrations B D J mgs served decisions m))"
| step_fix: "tiering_step B D J m (fst (SetFixedTier B D J mg bucket key fixed tier m))"

lemma last_thousand_wf [simp]: "length (last_thousand xs) = min 1000 (length xs)" "last_thousand xs = [] \<longleftrightarrow> xs = []"
  "xs \<noteq> [] \<Longrightarrow> last (last_thousand xs) = last xs"
proof -
  show l: "length (last_thousand xs) = min 1000 (length xs)" by (simp add: last_thousand_def)
  show "last_thousand xs = [] \<longleftrightarrow> xs = []" by (cases xs) (auto simp: last_thousand_def)
  show "xs \<noteq> [] \<Longrightarrow> last (last_thousand xs) = last xs" by (simp add: last_thousand_def last_drop)
qed

lemma empty_history_wf [simp]: "history_wf (empty_history b k)" "ah_Bucket (empty_history b k) = b" "ah_ObjectKey (empty_history b k) = k"
  by (simp_all add: history_wf_def empty_history_def)

lemma add_access_wf: "history_wf h \<Longrightarrow> history_wf (add_access now t u h) \<and> ah_Bucket (add_access now t u h) = ah_Bucket h \<and> ah_ObjectKey (add_access now t u h) = ah_ObjectKey h"
  by (auto simp: history_wf_def add_access_def Let_def)

lemma history_at_wf: "tiering_ok m \<Longrightarrow> history_wf (history_at b k m)"
  by (auto simp: history_at_def tiering_ok_def split: option.split)

lemma history_at_key: "tiering_ok m \<Longrightarrow> ah_Bucket (history_at b k m) @ ''/'' @ ah_ObjectKey (history_at b k m) = b @ ''/'' @ k"
  by (auto simp: history_at_def tiering_ok_def split: option.split)

lemma run_migration_histories: "tm_accessHistories (fst (run_migration B D J mgs d x)) = tm_accessHistories (fst x)"
  by (auto simp: run_migration_def split: prod.splits)

lemma run_migrations_histories: "tm_accessHistories (fst (fold (run_migration B D J mgs) ds x)) = tm_accessHistories (fst x)"
  by (induction ds arbitrary: x) (simp_all add: run_migration_histories)

lemma execute_histories: "tm_accessHistories (fst (ExecuteMigrations B D J mgs served ds m)) = tm_accessHistories m"
  using run_migrations_histories [of B D J mgs "served (fst (claim_migrations ds (tm_migrating m)))" "(m\<lparr>tm_migrating := snd (claim_migrations ds (tm_migrating m))\<rparr>, [])"]
  by (auto simp: ExecuteMigrations_def split: prod.splits)

lemma set_fixed_histories: "tm_accessHistories (fst (SetFixedTier B D J mg b k fixed tier m)) =
    (tm_accessHistories m)(b @ ''/'' @ k \<mapsto> (history_at b k m)\<lparr>ah_FixedTier := fixed\<rparr>)"
  by (simp add: SetFixedTier_def Let_def split: option.split sum.split prod.split)

lemma record_histories: "tm_accessHistories (RecordAccess now now' b k t u m) = (tm_accessHistories m)(b @ ''/'' @ k \<mapsto> add_access now t u (history_at b k m))"
  by (simp add: RecordAccess_def updateHotspotDetection_def Let_def)

lemma NewTieringManager_ok: "tiering_ok (NewTieringManager s c)"
  by (simp add: tiering_ok_def NewTieringManager_def)

lemma tiering_ok_upd: "tiering_ok m \<Longrightarrow> history_wf h \<Longrightarrow> tm_accessHistories m' = (tm_accessHistories m)(k \<mapsto> h) \<Longrightarrow> k = ah_Bucket h @ ''/'' @ ah_ObjectKey h \<Longrightarrow> tiering_ok m'"
  by (simp add: tiering_ok_def)

lemma tiering_step_ok: "tiering_step B D J m m' \<Longrightarrow> tiering_ok m \<Longrightarrow> tiering_ok m'"
proof (induction rule: tiering_step.induct)
  case (step_record m now now' bucket key accessType userID)
  then show ?case
    using add_access_wf [OF history_at_wf [OF step_record], where now = now and t = accessType and u = userID] history_at_key [OF step_record]
    by (intro tiering_ok_upd [OF step_record _ record_histories]) auto
next
  case (step_migrate m mgs served decisions)
  then show ?case by (simp add: tiering_ok_def execute_histories)
next
  case (step_fix m mg bucket key fixed tier)
  have "history_wf ((history_at bucket key m)\<lparr>ah_FixedTier := fixed\<rparr>)" using history_at_wf [OF step_fix, of bucket key] by (simp add: history_wf_def)
  then show ?case using history_at_key [OF step_fix] by (intro tiering_ok_upd [OF step_fix _ set_fixed_histories]) auto
qed

lemma tiering_reach_ok: "(tiering_step B D J)\<^sup>*\<^sup>* m m' \<Longrightarrow> tiering_ok m \<Longrightarrow> tiering_ok m'"
  by (induction rule: rtranclp_induct) (auto intro: tiering_step_ok)

section \<open>Decisions and migrations\<close>

lemma tier_order [simp]: "TierHot \<noteq> TierWarm" "TierHot \<noteq> TierCold" "TierHot \<noteq> TierArchive"
  by (simp_all add: TierHot_def TierWarm_def TierCold_def TierArchive_def)

lemma low_score_not_hot: "s \<le> 80 \<Longrightarrow> scoreToTier s \<noteq> TierHot"
  using tier_order [symmetric] by (simp add: scoreToTier_def)

lemma decide_sound: "d \<in> set (decide X now now' stamp m obj) \<Longrightarrow>
    td_Bucket d = cm_Bucket obj \<and> td_ObjectKey d = cm_Key obj \<and> td_CurrentTier d = cm_StorageTier obj \<and> td_TargetTier d \<noteq> cm_StorageTier obj \<and>
    td_TargetTier d = scoreToTier (CalculateHotnessScore X now now' (history_at (cm_Bucket obj) (cm_Key obj) m) obj) \<and>
    \<not> ah_FixedTier (history_at (cm_Bucket obj) (cm_Key obj) m)"
  by (auto simp: decide_def Let_def split: if_splits)

lemma decide_demotes:
  "tiering_ok m \<Longrightarrow> cm_StorageTier obj = TierHot \<Longrightarrow> \<not> ah_FixedTier (history_at (cm_Bucket obj) (cm_Key obj) m) \<Longrightarrow>
     \<exists>d. d \<in> set (decide X now now' stamp m obj) \<and> td_Bucket d = cm_Bucket obj \<and> td_ObjectKey d = cm_Key obj"
  using low_score_not_hot [OF conjunct2 [OF score_bounds], of "history_at (cm_Bucket obj) (cm_Key obj) m" X now now' obj]
    history_at_wf [of m "cm_Bucket obj" "cm_Key obj"]
  by (simp add: decide_def Let_def history_wf_def)

lemma run_decisions: "(\<And>xs. set (srt xs) = set xs) \<Longrightarrow>
    set (RunTieringDecision D X keys srt clk m) =
    (\<Union>obj \<in> set (tracked_objects D keys m). set (decide X (fst (clk obj)) (fst (snd (clk obj))) (snd (snd (clk obj))) m obj))"
  by (simp add: RunTieringDecision_def case_prod_beta)

text \<open>
  C37. The tiering never chooses the hot tier. In every state the manager reaches from its constructor, a decision moves an object whose tier is not fixed
  from the tier its metadata name to another one, never to the hot tier; and every tracked object that is in the hot tier, where uploads are stored,
  and whose tier is not fixed is demoted, however often it is read.
\<close>

theorem tiering_never_hot:
  assumes "(tiering_step B D J)\<^sup>*\<^sup>* (NewTieringManager s c) m" and "\<And>xs. set (srt xs) = set xs"
  shows "(\<forall>d \<in> set (RunTieringDecision D X keys srt clk m).
            td_TargetTier d \<noteq> TierHot \<and> td_TargetTier d \<noteq> td_CurrentTier d \<and> \<not> ah_FixedTier (history_at (td_Bucket d) (td_ObjectKey d) m) \<and>
            (\<exists>obj \<in> set (tracked_objects D keys m). cm_Bucket obj = td_Bucket d \<and> cm_Key obj = td_ObjectKey d \<and> cm_StorageTier obj = td_CurrentTier d)) \<and>
         (\<forall>obj \<in> set (tracked_objects D keys m).
            cm_StorageTier obj = TierHot \<longrightarrow> \<not> ah_FixedTier (history_at (cm_Bucket obj) (cm_Key obj) m) \<longrightarrow>
            (\<exists>d \<in> set (RunTieringDecision D X keys srt clk m). td_Bucket d = cm_Bucket obj \<and> td_ObjectKey d = cm_Key obj))"
proof -
  have ok: "tiering_ok m" by (rule tiering_reach_ok [OF assms(1) NewTieringManager_ok])
  have hot: "scoreToTier (CalculateHotnessScore X now now' (history_at b k m) obj) \<noteq> TierHot" for now now' b k obj
    using history_at_wf [OF ok, of b k] by (intro low_score_not_hot conjunct2 [OF score_bounds]) (simp add: history_wf_def)
  show ?thesis
    unfolding run_decisions [OF assms(2)]
  proof (intro conjI ballI impI)
    fix d assume "d \<in> (\<Union>obj \<in> set (tracked_objects D keys m). set (decide X (fst (clk obj)) (fst (snd (clk obj))) (snd (snd (clk obj))) m obj))"
    then obtain obj where o: "obj \<in> set (tracked_objects D keys m)"
      and d: "d \<in> set (decide X (fst (clk obj)) (fst (snd (clk obj))) (snd (snd (clk obj))) m obj)" by blast
    note d = decide_sound [OF d]
    show "td_TargetTier d \<noteq> TierHot" "td_TargetTier d \<noteq> td_CurrentTier d" "\<not> ah_FixedTier (history_at (td_Bucket d) (td_ObjectKey d) m)" using d hot by simp_all
    show "\<exists>obj \<in> set (tracked_objects D keys m). cm_Bucket obj = td_Bucket d \<and> cm_Key obj = td_ObjectKey d \<and> cm_StorageTier obj = td_CurrentTier d"
      using d o by auto
  next
    fix obj assume o: "obj \<in> set (tracked_objects D keys m)" "cm_StorageTier obj = TierHot" "\<not> ah_FixedTier (history_at (cm_Bucket obj) (cm_Key obj) m)"
    show "\<exists>d \<in> \<Union>obj \<in> set (tracked_objects D keys m). set (decide X (fst (clk obj)) (fst (snd (clk obj))) (snd (snd (clk obj))) m obj).
        td_Bucket d = cm_Bucket obj \<and> td_ObjectKey d = cm_Key obj"
      using decide_demotes [OF ok o(2,3), of X "fst (clk obj)" "fst (snd (clk obj))" "snd (snd (clk obj))"] o(1) unfolding Bex_def UN_iff by blast
  qed
qed

lemma claim_correct:
  "claim_migrations ds mig = (claimed, mig') \<Longrightarrow> distinct (map decision_key claimed) \<and> set claimed \<subseteq> set ds \<and>
     decision_key ` set claimed = decision_key ` set ds - mig \<and> mig' = mig \<union> decision_key ` set ds"
proof (induction ds mig arbitrary: claimed mig' rule: claim_migrations.induct)
  case (2 d ds mig)
  show ?case
  proof (cases "decision_key d \<in> mig")
    case True
    then show ?thesis using "2.IH"(1) [OF True] "2.prems" by auto
  next
    case False
    obtain c where c: "claim_migrations ds (insert (decision_key d) mig) = (c, mig')" "claimed = d # c"
      using "2.prems" False by (auto split: prod.splits)
    then show ?thesis using "2.IH"(2) [OF False c(1)] False by auto
  qed
qed simp

lemma run_migrations_flight: "tm_migrating (fst (fold (run_migration B D J mgs) ds x)) = tm_migrating (fst x) - decision_key ` set ds"
  by (induction ds arbitrary: x) (auto simp: run_migration_def split: prod.splits)

text \<open>
  A batch of migrations carries out every decision for an object that is not already being migrated, one decision for each object,
  and leaves the set of objects under migration as it found it, whether the migrations succeed or fail.
\<close>

theorem migrations_settle:
  assumes "\<And>xs. set (served xs) = set xs" and "claim_migrations ds (tm_migrating m) = (claimed, migrating)"
    and "ExecuteMigrations B D J mgs served ds m = (m', r)"
  shows "tm_migrating m' = tm_migrating m \<and> distinct (map decision_key claimed) \<and> set claimed \<subseteq> set ds \<and>
    decision_key ` set claimed = decision_key ` set ds - tm_migrating m"
proof (cases "ds = []")
  case False
  have "tm_migrating m' = migrating - decision_key ` set claimed"
    using assms(3) False run_migrations_flight [of B D J mgs "served claimed" "(m\<lparr>tm_migrating := migrating\<rparr>, [])"]
    by (auto simp: ExecuteMigrations_def assms(1,2) split: prod.splits)
  then show ?thesis using claim_correct [OF assms(2)] by auto
qed (use assms in \<open>auto simp: ExecuteMigrations_def\<close>)

section \<open>Witnesses\<close>

definition demo_math :: math where "demo_math = \<lparr>mt_Exp = (\<lambda>_. 1), mt_Log = (\<lambda>_. 1)\<rparr>"

definition demo_manager :: "(FileBackend, meta_doc mem_db) TieringManager" where
  "demo_manager = RecordAccess 5 6 ''docs'' ''ab'' ''GET'' ''alice'' (NewTieringManager (demo_store [1, 2, 3, 4, 5] photo_meta) None)"

lemma demo_tracked: "tracked_objects mem_db [''docs/ab''] demo_manager = [metadataToCommon stored_photo]"
proof -
  have "tm_store demo_manager = demo_store [1, 2, 3, 4, 5] photo_meta"
    by (simp add: demo_manager_def RecordAccess_def updateHotspotDetection_def NewTieringManager_def Let_def)
  moreover have "tm_accessHistories demo_manager ''docs/ab'' = Some (add_access 5 ''GET'' ''alice'' (empty_history ''docs'' ''ab''))"
    by (simp add: demo_manager_def record_histories history_at_def NewTieringManager_def)
  ultimately show ?thesis
    using add_access_wf [of "empty_history ''docs'' ''ab''" 5 "''GET''" "''alice''"] by (simp add: tracked_objects_def TS_Head_def demo_tiers photo_get)
qed

lemma demo_photo: "cm_StorageTier (metadataToCommon stored_photo) = TierHot"
  "\<not> ah_FixedTier (history_at (cm_Bucket (metadataToCommon stored_photo)) (cm_Key (metadataToCommon stored_photo)) demo_manager)"
  by (simp_all add: metadataToCommon_def photo_hot demo_manager_def history_at_def record_histories NewTieringManager_def add_access_def empty_history_def Let_def)

theorem score_bounds_witness: "0 \<le> CalculateHotnessScore demo_math 9 9 (empty_history ''docs'' ''ab'') (metadataToCommon stored_photo) \<and>
    CalculateHotnessScore demo_math 9 9 (empty_history ''docs'' ''ab'') (metadataToCommon stored_photo) \<le> 80"
  by (rule score_bounds) (simp add: empty_history_def)

theorem tiering_never_hot_witness:
  "\<exists>d. d \<in> set (RunTieringDecision mem_db demo_math [''docs/ab''] (\<lambda>xs. xs) (\<lambda>_. (7, 7, 8)) demo_manager) \<and> td_TargetTier d \<noteq> TierHot"
proof -
  have "(tiering_step file_ops mem_db (\<lambda>_. []))\<^sup>*\<^sup>* (NewTieringManager (demo_store [1, 2, 3, 4, 5] photo_meta) None) demo_manager"
    unfolding demo_manager_def by (rule r_into_rtranclp, rule step_record)
  note r = tiering_never_hot [OF this, of "\<lambda>xs. xs" demo_math "[''docs/ab'']" "\<lambda>_. (7, 7, 8)"]
  then show ?thesis using demo_photo unfolding demo_tracked by auto
qed

definition demo_decision :: TierDecision where
  "demo_decision = \<lparr>td_ObjectKey = ''ab'', td_Bucket = ''docs'', td_CurrentTier = TierHot, td_TargetTier = TierWarm, td_HotnessScore = 61, td_Reason = '''', td_MigratedAt = 8\<rparr>"

theorem migrations_settle_witness:
  "\<exists>m' r. ExecuteMigrations file_ops mem_db (\<lambda>_. []) (\<lambda>_. demo_migration [SRemove]) (\<lambda>ds. ds) [demo_decision, demo_decision] demo_manager = (m', r) \<and>
     tm_migrating m' = {}"
proof -
  obtain m' r where e: "ExecuteMigrations file_ops mem_db (\<lambda>_. []) (\<lambda>_. demo_migration [SRemove]) (\<lambda>ds. ds) [demo_decision, demo_decision] demo_manager = (m', r)"
    by fastforce
  have "claim_migrations [demo_decision, demo_decision] (tm_migrating demo_manager) = ([demo_decision], {''docs/ab''})" "tm_migrating demo_manager = {}"
    by (simp_all add: demo_manager_def RecordAccess_def updateHotspotDetection_def NewTieringManager_def Let_def demo_decision_def decision_key_def)
  then show ?thesis using migrations_settle [OF _ _ e] e by simp
qed

end
