(* ===== verification/Object_Lock.thy ===== *)
theory Object_Lock
  imports Prelude
begin

text \<open>
  Object storage, fourth part: the per-object locks of \<^verbatim>\<open>internal/storage/store.go\<close> (\<^verbatim>\<open>lockObject\<close>, \<^verbatim>\<open>unlockObject\<close>), for one
  object, as interleaved atomic steps of any number of goroutines. Locks are numbered in the order in which they
  are created; \<open>lk_map\<close> is the entry of the object in the map of locks.
\<close>

datatype pc = Idle | Loaded nat | Counted nat | Critical nat | Unlocking nat | Released nat

record locks =
  lk_map :: "nat option"
  lk_next :: nat
  lk_refs :: "nat \<Rightarrow> int"
  lk_locked :: "nat \<Rightarrow> bool"
  lk_pc :: "nat \<Rightarrow> pc"
  lk_fatal :: bool

definition no_locks :: locks where
  "no_locks = \<lparr>lk_map = None, lk_next = 0, lk_refs = (\<lambda>_. 0), lk_locked = (\<lambda>_. False), lk_pc = (\<lambda>_. Idle), lk_fatal = False\<rparr>"

abbreviation go_to :: "nat \<Rightarrow> pc \<Rightarrow> locks \<Rightarrow> locks" where
  "go_to t p s \<equiv> s\<lparr>lk_pc := (lk_pc s)(t := p)\<rparr>"

text \<open>\<^verbatim>\<open>LoadOrStore\<close>, \<^verbatim>\<open>refs++\<close>, and taking the mutex.\<close>

definition lock_load :: "nat \<Rightarrow> locks \<Rightarrow> locks" where
  "lock_load t s =
     (case lk_map s of
        Some l \<Rightarrow> go_to t (Loaded l) s
      | None \<Rightarrow> go_to t (Loaded (lk_next s)) (s\<lparr>lk_map := Some (lk_next s), lk_next := Suc (lk_next s)\<rparr>))"

definition lock_count :: "nat \<Rightarrow> nat \<Rightarrow> locks \<Rightarrow> locks" where
  "lock_count t l s = go_to t (Counted l) (s\<lparr>lk_refs := (lk_refs s)(l := lk_refs s l + 1)\<rparr>)"

definition lock_acquire :: "nat \<Rightarrow> nat \<Rightarrow> locks \<Rightarrow> locks" where
  "lock_acquire t l s = go_to t (Critical l) (s\<lparr>lk_locked := (lk_locked s)(l := True)\<rparr>)"

text \<open>\<^verbatim>\<open>Load\<close>, releasing the mutex that was found, and \<^verbatim>\<open>refs--\<close>. Releasing a mutex that is not held ends the process.\<close>

definition unlock_load :: "nat \<Rightarrow> locks \<Rightarrow> locks" where
  "unlock_load t s = (case lk_map s of None \<Rightarrow> go_to t Idle s | Some l \<Rightarrow> go_to t (Unlocking l) s)"

definition unlock_mutex :: "nat \<Rightarrow> nat \<Rightarrow> locks \<Rightarrow> locks" where
  "unlock_mutex t l s =
     (if lk_locked s l then go_to t (Released l) (s\<lparr>lk_locked := (lk_locked s)(l := False)\<rparr>) else s\<lparr>lk_fatal := True\<rparr>)"

definition unlock_count :: "nat \<Rightarrow> nat \<Rightarrow> locks \<Rightarrow> locks" where
  "unlock_count t l s =
     (let s1 = go_to t Idle (s\<lparr>lk_refs := (lk_refs s)(l := lk_refs s l - 1)\<rparr>)
      in if lk_refs s1 l = 0 then s1\<lparr>lk_map := None\<rparr> else s1)"

lemmas lock_defs = lock_load_def lock_count_def lock_acquire_def unlock_load_def unlock_mutex_def unlock_count_def

datatype lock_label = Load nat | Count nat | Acquire nat | UnLoad nat | UnMutex nat | UnCount nat

inductive lock_step :: "locks \<Rightarrow> lock_label \<Rightarrow> locks \<Rightarrow> bool" where
  load: "\<not> lk_fatal s \<Longrightarrow> lk_pc s t = Idle \<Longrightarrow> lock_step s (Load t) (lock_load t s)"
| count: "\<not> lk_fatal s \<Longrightarrow> lk_pc s t = Loaded l \<Longrightarrow> lock_step s (Count t) (lock_count t l s)"
| acquire: "\<not> lk_fatal s \<Longrightarrow> lk_pc s t = Counted l \<Longrightarrow> \<not> lk_locked s l \<Longrightarrow> lock_step s (Acquire t) (lock_acquire t l s)"
| unload: "\<not> lk_fatal s \<Longrightarrow> lk_pc s t = Critical l \<Longrightarrow> lock_step s (UnLoad t) (unlock_load t s)"
| unmutex: "\<not> lk_fatal s \<Longrightarrow> lk_pc s t = Unlocking l \<Longrightarrow> lock_step s (UnMutex t) (unlock_mutex t l s)"
| uncount: "\<not> lk_fatal s \<Longrightarrow> lk_pc s t = Released l \<Longrightarrow> lock_step s (UnCount t) (unlock_count t l s)"

inductive lock_run :: "locks \<Rightarrow> lock_label list \<Rightarrow> locks \<Rightarrow> bool" where
  empty: "lock_run s [] s"
| more: "lock_step s a s' \<Longrightarrow> lock_run s' tr s'' \<Longrightarrow> lock_run s (a # tr) s''"

section \<open>Executing a trace\<close>

fun lock_exec1 :: "lock_label \<Rightarrow> locks \<Rightarrow> locks option" where
  "lock_exec1 (Load t) s = (if lk_pc s t = Idle then Some (lock_load t s) else None)"
| "lock_exec1 (Count t) s = (case lk_pc s t of Loaded l \<Rightarrow> Some (lock_count t l s) | _ \<Rightarrow> None)"
| "lock_exec1 (Acquire t) s = (case lk_pc s t of Counted l \<Rightarrow> if lk_locked s l then None else Some (lock_acquire t l s) | _ \<Rightarrow> None)"
| "lock_exec1 (UnLoad t) s = (case lk_pc s t of Critical l \<Rightarrow> Some (unlock_load t s) | _ \<Rightarrow> None)"
| "lock_exec1 (UnMutex t) s = (case lk_pc s t of Unlocking l \<Rightarrow> Some (unlock_mutex t l s) | _ \<Rightarrow> None)"
| "lock_exec1 (UnCount t) s = (case lk_pc s t of Released l \<Rightarrow> Some (unlock_count t l s) | _ \<Rightarrow> None)"

fun lock_exec :: "lock_label list \<Rightarrow> locks \<Rightarrow> locks option" where
  "lock_exec [] s = Some s"
| "lock_exec (a # tr) s = (if lk_fatal s then None else case lock_exec1 a s of None \<Rightarrow> None | Some s' \<Rightarrow> lock_exec tr s')"

lemma lock_exec1_step: "lock_exec1 a s = Some s' \<Longrightarrow> \<not> lk_fatal s \<Longrightarrow> lock_step s a s'"
  by (cases a) (auto intro: lock_step.intros split: if_splits pc.splits)

lemma lock_exec_run: "lock_exec tr s = Some s' \<Longrightarrow> lock_run s tr s'"
  by (induction tr arbitrary: s) (auto intro: lock_run.intros lock_exec1_step split: if_splits option.splits)

section \<open>When no goroutine is between the lookup and the count\<close>

text \<open>
  A run is calm if no count is given back while another goroutine has looked the lock up and not yet counted itself.
\<close>

definition calm :: "locks \<Rightarrow> lock_label \<Rightarrow> bool" where
  "calm s a \<longleftrightarrow> (case a of UnCount _ \<Rightarrow> \<forall>t l. lk_pc s t \<noteq> Loaded l | _ \<Rightarrow> True)"

inductive calm_run :: "locks \<Rightarrow> lock_label list \<Rightarrow> locks \<Rightarrow> bool" where
  empty: "calm_run s [] s"
| more: "lock_step s a s' \<Longrightarrow> calm s a \<Longrightarrow> calm_run s' tr s'' \<Longrightarrow> calm_run s (a # tr) s''"

fun lock_of :: "pc \<Rightarrow> nat option" where
  "lock_of Idle = None"
| "lock_of (Loaded l) = Some l"
| "lock_of (Counted l) = Some l"
| "lock_of (Critical l) = Some l"
| "lock_of (Unlocking l) = Some l"
| "lock_of (Released l) = Some l"

fun counts :: "pc \<Rightarrow> bool" where
  "counts Idle = False" | "counts (Loaded l) = False" | "counts (Counted l) = True" | "counts (Critical l) = True"
| "counts (Unlocking l) = True" | "counts (Released l) = True"

fun holds_mutex :: "pc \<Rightarrow> bool" where
  "holds_mutex (Critical l) = True" | "holds_mutex (Unlocking l) = True" | "holds_mutex _ = False"

definition lock_inv :: "locks \<Rightarrow> bool" where
  "lock_inv s \<longleftrightarrow> \<not> lk_fatal s \<and> (\<forall>t. lk_pc s t = Idle \<or> lock_of (lk_pc s t) = lk_map s) \<and>
     finite {t. lk_pc s t \<noteq> Idle} \<and> (\<forall>l. lk_refs s l = (if lk_map s = Some l then int (card {t. counts (lk_pc s t)}) else 0)) \<and>
     (\<forall>l. lk_locked s l \<longleftrightarrow> lk_map s = Some l \<and> (\<exists>t. holds_mutex (lk_pc s t))) \<and>
     (\<forall>t t'. holds_mutex (lk_pc s t) \<longrightarrow> holds_mutex (lk_pc s t') \<longrightarrow> t = t') \<and> (\<forall>l. lk_map s = Some l \<longrightarrow> l < lk_next s)"

lemma lock_inv_none: "lock_inv no_locks"
  by (simp add: lock_inv_def no_locks_def)


lemma card_counts:
  assumes "finite {u. pc u \<noteq> Idle}"
  shows "int (card {u. counts ((pc(t := p)) u)}) =
    int (card {u. counts (pc u)}) + (if counts p then 1 else 0) - (if counts (pc t) then 1 else 0)"
proof -
  have "{u. counts (pc u)} \<subseteq> {u. pc u \<noteq> Idle}" by auto
  then have fin: "finite {u. counts (pc u)}" using assms finite_subset by blast
  have a: "{u. counts ((pc(t := p)) u)} = (if counts p then insert t ({u. counts (pc u)} - {t}) else {u. counts (pc u)} - {t})" by auto
  have b: "int (card ({u. counts (pc u)} - {t})) = int (card {u. counts (pc u)}) - (if counts (pc t) then 1 else 0)"
    using fin card.remove [OF fin, of t] by auto
  have c: "card (insert t ({u. counts (pc u)} - {t})) = Suc (card ({u. counts (pc u)} - {t}))" using fin by (intro card_insert_disjoint) auto
  show ?thesis unfolding a using b c by (cases "counts p") (simp_all only: if_True if_False of_nat_Suc)
qed

lemma finite_busy: "finite {u. pc u \<noteq> Idle} \<Longrightarrow> finite {u. (pc(t := p)) u \<noteq> Idle}"
  by (rule finite_subset [of _ "insert t {u. pc u \<noteq> Idle}"]) auto

lemma lock_invD:
  assumes "lock_inv s"
  shows "\<not> lk_fatal s" "lk_pc s t \<noteq> Idle \<Longrightarrow> lock_of (lk_pc s t) = lk_map s" "finite {t. lk_pc s t \<noteq> Idle}"
    "lk_map s = Some l \<Longrightarrow> lk_refs s l = int (card {t. counts (lk_pc s t)})" "lk_map s \<noteq> Some l \<Longrightarrow> lk_refs s l = 0"
    "lk_locked s l \<longleftrightarrow> lk_map s = Some l \<and> (\<exists>t. holds_mutex (lk_pc s t))"
    "holds_mutex (lk_pc s t) \<Longrightarrow> holds_mutex (lk_pc s t') \<Longrightarrow> t = t'" "lk_map s = Some l \<Longrightarrow> l < lk_next s"
  using assms unfolding lock_inv_def by (auto split: if_splits)

text \<open>A goroutine that goes on to \<open>p\<close>, with the counts and mutexes adjusted, keeps the invariant.\<close>

lemma lock_inv_move:
  assumes inv: "lock_inv s" and l: "lk_map s = Some l" "p = Idle \<or> lock_of p = Some l" and t: "lk_pc s t = Idle \<or> lock_of (lk_pc s t) = Some l"
    and refs: "refs = (lk_refs s)(l := lk_refs s l + (if counts p then 1 else 0) - (if counts (lk_pc s t) then 1 else 0))"
    and mutex: "locked = (lk_locked s)(l := (if holds_mutex p then True else if holds_mutex (lk_pc s t) then False else lk_locked s l))"
    and free: "holds_mutex p \<Longrightarrow> \<not> holds_mutex (lk_pc s t) \<Longrightarrow> \<not> lk_locked s l"
  shows "lock_inv (s\<lparr>lk_refs := refs, lk_locked := locked, lk_pc := (lk_pc s)(t := p)\<rparr>)"
proof -
  note d = lock_invD [OF inv]
  define pc' where "pc' = (lk_pc s)(t := p)"
  have c: "int (card {u. counts (pc' u)}) = lk_refs s l + (if counts p then 1 else 0) - (if counts (lk_pc s t) then 1 else 0)"
    using card_counts [OF d(3), of t p] d(4) [OF l(1)] by (simp only: pc'_def)
  have h: "holds_mutex (pc' u) \<Longrightarrow> holds_mutex (pc' u') \<Longrightarrow> u = u'" for u u'
    using d(6) [of l] d(7) l(1) free by (auto simp: pc'_def split: if_splits)
  have ex: "(\<exists>u. holds_mutex (pc' u)) \<longleftrightarrow> holds_mutex p \<or> \<not> holds_mutex (lk_pc s t) \<and> (\<exists>u. holds_mutex (lk_pc s u))"
    unfolding pc'_def using d(7) [of t] by (metis fun_upd_apply)
  have m: "locked l' \<longleftrightarrow> lk_map s = Some l' \<and> (\<exists>u. holds_mutex (pc' u))" for l'
    unfolding ex using d(6) [of l'] l(1) mutex by (auto split: if_splits)
  have o: "pc' u = Idle \<or> lock_of (pc' u) = lk_map s" for u using d(2) [of u] l by (auto simp: pc'_def)
  have r: "refs l' = (if lk_map s = Some l' then int (card {u. counts (pc' u)}) else 0)" for l'
    unfolding c using d(5) [of l'] l refs by auto
  have "finite {u. pc' u \<noteq> Idle}" using finite_busy [OF d(3)] by (simp only: pc'_def)
  then have "lock_inv (s\<lparr>lk_refs := refs, lk_locked := locked, lk_pc := pc'\<rparr>)"
    unfolding lock_inv_def using d(1,8) h m o r by simp
  then show ?thesis by (simp only: pc'_def)
qed

lemma lock_inv_step:
  assumes "lock_step s a s'" "lock_inv s" "calm s a"
  shows "lock_inv s'"
  using assms
proof (induction rule: lock_step.induct)
  case (load s t)
  note d = lock_invD [OF load(3)]
  show ?case
  proof (cases "lk_map s")
    case None
    then have idle: "lk_pc s u = Idle" for u using d(2) [of u] by (cases "lk_pc s u") auto
    show ?thesis using d(1,5,6) None load(2) idle by (auto simp: lock_inv_def lock_load_def)
  next
    case (Some l)
    then show ?thesis
      using lock_inv_move [OF load(3) Some, of "Loaded l" t "lk_refs s" "lk_locked s"] load(2) by (auto simp: lock_load_def)
  qed
next
  case (count s t l)
  have m: "lk_map s = Some l" using lock_invD(2) [OF count(3), of t] count(2) by simp
  show ?case
    using lock_inv_move [OF count(3) m, of "Counted l" t "(lk_refs s)(l := lk_refs s l + 1)" "lk_locked s"] count(2) by (auto simp: lock_count_def)
next
  case (acquire s t l)
  have m: "lk_map s = Some l" using lock_invD(2) [OF acquire(4), of t] acquire(2) by simp
  show ?case
    using lock_inv_move [OF acquire(4) m, of "Critical l" t "lk_refs s" "(lk_locked s)(l := True)"] acquire(2,3) by (auto simp: lock_acquire_def)
next
  case (unload s t l)
  have m: "lk_map s = Some l" using lock_invD(2) [OF unload(3), of t] unload(2) by simp
  have "lk_locked s l" using lock_invD(6) [OF unload(3), of l] m unload(2) holds_mutex.simps(1) by metis
  then have "(lk_locked s)(l := True) = lk_locked s" by (simp add: fun_upd_idem)
  then show ?case
    using lock_inv_move [OF unload(3) m, of "Unlocking l" t "lk_refs s" "lk_locked s"] unload(2) m by (auto simp: unlock_load_def)
next
  case (unmutex s t l)
  have m: "lk_map s = Some l" using lock_invD(2) [OF unmutex(3), of t] unmutex(2) by simp
  have "lk_locked s l" using lock_invD(6) [OF unmutex(3), of l] m unmutex(2) holds_mutex.simps(2) by metis
  then show ?case
    using lock_inv_move [OF unmutex(3) m, of "Released l" t "lk_refs s" "(lk_locked s)(l := False)"] unmutex(2) by (auto simp: unlock_mutex_def)
next
  case (uncount s t l)
  note d = lock_invD [OF uncount(3)]
  have m: "lk_map s = Some l" using d(2) [of t] uncount(2) by simp
  let ?s = "s\<lparr>lk_refs := (lk_refs s)(l := lk_refs s l - 1), lk_locked := lk_locked s, lk_pc := (lk_pc s)(t := Idle)\<rparr>"
  have i: "lock_inv ?s"
    using lock_inv_move [OF uncount(3) m, of Idle t "(lk_refs s)(l := lk_refs s l - 1)" "lk_locked s"] uncount(2) by auto
  note d' = lock_invD [OF i]
  show ?case
  proof (cases "lk_refs s l - 1 = 0")
    case True
    have "lk_pc ?s u = Idle" for u
    proof -
      have "finite {u. counts (lk_pc ?s u)}" by (rule finite_subset [OF _ d'(3)]) auto
      then have "\<not> counts (lk_pc ?s u)" using d'(4) [of l] m True by auto
      moreover have "lk_pc ?s u \<noteq> Loaded l'" for l' using uncount(4) by (auto simp: calm_def)
      ultimately show ?thesis by (cases "lk_pc ?s u") auto
    qed
    then show ?thesis using i True m by (auto simp: lock_inv_def unlock_count_def Let_def split: if_splits)
  next
    case False
    then show ?thesis using i by (simp add: unlock_count_def Let_def)
  qed
qed

lemma lock_inv_run: "calm_run s tr s' \<Longrightarrow> lock_inv s \<Longrightarrow> lock_inv s'"
  by (induction rule: calm_run.induct) (auto intro: lock_inv_step)

section \<open>Properties\<close>

text \<open>
  C20. Object locks exclude in calm runs. In every state of a run in which no goroutine gives its count back while another one is between
  looking the lock up and counting itself, at most one goroutine is between \<^verbatim>\<open>lockObject\<close> and \<^verbatim>\<open>unlockObject\<close>, and no release of
  a mutex that was not held has ended the process.
\<close>

theorem calm_locks_exclude:
  assumes "calm_run no_locks tr s"
  shows "\<not> lk_fatal s \<and> (\<forall>t t' l l'. lk_pc s t = Critical l \<longrightarrow> lk_pc s t' = Critical l' \<longrightarrow> t = t')"
proof -
  note inv = lock_invD(1,7) [OF lock_inv_run [OF assms lock_inv_none]]
  have "t = t'" if "lk_pc s t = Critical l" "lk_pc s t' = Critical l'" for t t' l l'
    using inv(2) [of t t'] that by simp
  with inv(1) show ?thesis by blast
qed

definition race_trace :: "lock_label list" where
  "race_trace = [Load 0, Count 0, Acquire 0, Load 1, UnLoad 0, UnMutex 0, UnCount 0, Count 1, Acquire 1, Load 2, Count 2, Acquire 2]"

text \<open>
  Object locks do not exclude in general. There is an interleaving of three goroutines after which two of them are
  in the critical section of one object, because a goroutine that has looked the lock up but not yet counted itself does not keep
  it in the map, and it goes on to an interleaving in which the process dies of the release of a mutex that is not held.
\<close>

theorem object_locks_race:
  "\<exists>s s' l l'. lock_run no_locks race_trace s \<and> lk_pc s 1 = Critical l \<and> lk_pc s 2 = Critical l' \<and>
     lock_run s [UnLoad 1, UnLoad 2, UnMutex 1, UnMutex 2] s' \<and> lk_fatal s'"
proof -
  obtain s where s: "lock_exec race_trace no_locks = Some s" "lk_pc s 1 = Critical 0" "lk_pc s 2 = Critical 1" "lk_map s = Some 1"
    "lk_locked s 1" "\<not> lk_fatal s"
    by (simp add: race_trace_def no_locks_def lock_defs Let_def)
  obtain s' where "lock_exec [UnLoad 1, UnLoad 2, UnMutex 1, UnMutex 2] s = Some s'" "lk_fatal s'"
    using s by (simp add: lock_defs)
  then show ?thesis using s lock_exec_run by blast
qed

theorem calm_locks_exclude_witness:
  "\<exists>s. calm_run no_locks [Load 0, Load 1, Count 0, Count 1, Acquire 0, UnLoad 0, UnMutex 0, Acquire 1] s \<and>
     lk_pc s 1 = Critical 0 \<and> lk_pc s 0 = Released 0 \<and> \<not> lk_fatal s"
proof -
  let ?s1 = "lock_load 0 no_locks" let ?s2 = "lock_load 1 ?s1" let ?s3 = "lock_count 0 0 ?s2" let ?s4 = "lock_count 1 0 ?s3" let ?s5 = "lock_acquire 0 0 ?s4"
  let ?s6 = "unlock_load 0 ?s5" let ?s7 = "unlock_mutex 0 0 ?s6" let ?s8 = "lock_acquire 1 0 ?s7"
  note defs = no_locks_def lock_defs
  have steps: "lock_step no_locks (Load 0) ?s1" "lock_step ?s1 (Load 1) ?s2" "lock_step ?s2 (Count 0) ?s3" "lock_step ?s3 (Count 1) ?s4"
    "lock_step ?s4 (Acquire 0) ?s5" "lock_step ?s5 (UnLoad 0) ?s6" "lock_step ?s6 (UnMutex 0) ?s7" "lock_step ?s7 (Acquire 1) ?s8"
    by (rule lock_step.intros; simp add: defs)+
  have calm: "calm s (Load t)" "calm s (Count t)" "calm s (Acquire t)" "calm s (UnLoad t)" "calm s (UnMutex t)" for s t by (simp_all add: calm_def)
  have run: "calm_run no_locks [Load 0, Load 1, Count 0, Count 1, Acquire 0, UnLoad 0, UnMutex 0, Acquire 1] ?s8"
    by (intro calm_run.more [OF steps(1)] calm_run.more [OF steps(2)] calm_run.more [OF steps(3)] calm_run.more [OF steps(4)] calm_run.more [OF steps(5)]
        calm_run.more [OF steps(6)] calm_run.more [OF steps(7)] calm_run.more [OF steps(8)] calm_run.empty calm)
  moreover have "lk_pc ?s8 1 = Critical 0" "lk_pc ?s8 0 = Released 0" by (simp_all add: defs)
  ultimately show ?thesis using calm_locks_exclude [OF run] by blast
qed

end
