(* ===== verification/SigV4.thy ===== *)
theory SigV4
  imports Prelude "HOL-Library.Product_Lexorder" "HOL-Library.Multiset"
begin

text \<open>
  Signature version 4, \<^verbatim>\<open>internal/gateway/sigv4.go\<close>: the parts of a request that are signed, their canonical form and the
  verification of the \<^verbatim>\<open>Authorization\<close> header and of presigned URLs. The hash functions, the parsers of times and durations, and what Unicode
  counts as a space are fields of the argument \<open>G :: signing\<close>; clock readings are arguments.
\<close>

section \<open>Requests (net/http)\<close>

text \<open>
  A request as a handler sees it: the decoded path, the raw query, and the header lines under their canonical names. The \<^verbatim>\<open>Host\<close> line is not among
  the headers, as net/http moves it to a field of its own.
\<close>

record http_request =
  rq_Method :: string
  rq_Path :: string
  rq_RawQuery :: string
  rq_Header :: "string \<Rightarrow> string list"
  rq_Host :: string
  rq_RemoteAddr :: string

definition upper_char :: "char \<Rightarrow> char" where
  "upper_char c = (if 97 \<le> (of_char c :: nat) \<and> (of_char c :: nat) \<le> 122 then char_of ((of_char c :: nat) - 32) else c)"

definition is_letter :: "char \<Rightarrow> bool" where
  "is_letter c \<longleftrightarrow> (let n = (of_char c :: nat) in 65 \<le> n \<and> n \<le> 90 \<or> 97 \<le> n \<and> n \<le> 122)"

definition token_char :: "char \<Rightarrow> bool" where
  "token_char c \<longleftrightarrow> is_letter c \<or> is_digit c \<or> c \<in> set ''!#$%&*+-.^_`|~'' \<or> c = CHR 0x27"

fun title :: "bool \<Rightarrow> string \<Rightarrow> string" where
  "title up [] = []"
| "title up (c # cs) = (if up then upper_char c else lower_char c) # title (c = CHR ''-'') cs"

definition CanonicalMIMEHeaderKey :: "string \<Rightarrow> string" where
  "CanonicalMIMEHeaderKey s = (if list_all token_char s then title True s else s)"

definition Header_Values :: "http_request \<Rightarrow> string \<Rightarrow> string list" where
  "Header_Values r h = rq_Header r (CanonicalMIMEHeaderKey h)"

definition Header_Get :: "http_request \<Rightarrow> string \<Rightarrow> string" where
  "Header_Get r h = (case Header_Values r h of [] \<Rightarrow> '''' | v # _ \<Rightarrow> v)"

section \<open>Escaping (net/url)\<close>

definition unreserved :: "char \<Rightarrow> bool" where
  "unreserved c \<longleftrightarrow> is_letter c \<or> is_digit c \<or> c \<in> set ''-_.~''"

definition upper_hex :: "nat \<Rightarrow> char" where
  "upper_hex n = (if n < 10 then char_of (48 + n) else char_of (55 + n))"

definition percent :: "char \<Rightarrow> string" where
  "percent c = [CHR ''%'', upper_hex ((of_char c :: nat) div 16), upper_hex ((of_char c :: nat) mod 16)]"

definition query_char :: "char \<Rightarrow> string" where
  "query_char c = (if unreserved c then [c] else if c = CHR '' '' then ''+'' else percent c)"

definition path_char :: "char \<Rightarrow> string" where
  "path_char c = (if unreserved c \<or> c \<in> set ''$&+:=@'' then [c] else percent c)"

definition QueryEscape :: "string \<Rightarrow> string" where
  "QueryEscape s = concat (map query_char s)"

definition PathEscape :: "string \<Rightarrow> string" where
  "PathEscape s = concat (map path_char s)"

definition hex_value :: "char \<Rightarrow> nat option" where
  "hex_value c =
     (let n = (of_char c :: nat)
      in if 48 \<le> n \<and> n \<le> 57 then Some (n - 48)
         else if 97 \<le> n \<and> n \<le> 102 then Some (n - 87)
         else if 65 \<le> n \<and> n \<le> 70 then Some (n - 55)
         else None)"

fun url_unescape :: "bool \<Rightarrow> string \<Rightarrow> string option" where
  "url_unescape q [] = Some []"
| "url_unescape q (c # cs) =
     (if c = CHR ''%'' then
        (case cs of
           h # l # rest \<Rightarrow>
             (case (hex_value h, hex_value l) of
                (Some a, Some b) \<Rightarrow> map_option ((#) (char_of (a * 16 + b))) (url_unescape q rest)
              | _ \<Rightarrow> None)
         | _ \<Rightarrow> None)
      else map_option ((#) (if q \<and> c = CHR ''+'' then CHR '' '' else c)) (url_unescape q cs))"

definition QueryUnescape :: "string \<Rightarrow> string option" where "QueryUnescape = url_unescape True"
definition PathUnescape :: "string \<Rightarrow> string option" where "PathUnescape = url_unescape False"

text \<open>\<^verbatim>\<open>strings.Join\<close> and \<^verbatim>\<open>strings.Cut\<close>.\<close>

fun str_join :: "string \<Rightarrow> string list \<Rightarrow> string" where
  "str_join sep [] = ''''"
| "str_join sep [x] = x"
| "str_join sep (x # xs) = x @ sep @ str_join sep xs"

definition cut_eq :: "string \<Rightarrow> string \<times> string" where
  "cut_eq s = (case SplitN2 s (CHR ''='') of (k, v) \<Rightarrow> (k, case v of None \<Rightarrow> '''' | Some v \<Rightarrow> v))"

text \<open>\<^verbatim>\<open>URL.Query\<close>: the pairs of the raw query in their order, without those that cannot be decoded.\<close>

definition query_pair :: "string \<Rightarrow> (string \<times> string) list" where
  "query_pair p =
     (if CHR '';'' \<in> set p \<or> p = '''' then []
      else case cut_eq p of
             (k, v) \<Rightarrow> (case (QueryUnescape k, QueryUnescape v) of (Some k', Some v') \<Rightarrow> [(k', v')] | _ \<Rightarrow> []))"

definition URL_Query :: "http_request \<Rightarrow> (string \<times> string) list" where
  "URL_Query r = concat (map query_pair (Split1 (rq_RawQuery r) (CHR ''&'')))"

definition Query_Get :: "(string \<times> string) list \<Rightarrow> string \<Rightarrow> string" where
  "Query_Get q k = (case map_of q k of None \<Rightarrow> '''' | Some v \<Rightarrow> v)"

section \<open>The canonical request\<close>

record signing =
  sg_hmac :: "byte list \<Rightarrow> byte list \<Rightarrow> byte list"
  sg_sha256 :: "byte list \<Rightarrow> byte list"
  sg_TrimSpace :: "string \<Rightarrow> string"
  sg_Parse :: "string \<Rightarrow> string \<Rightarrow> (gotime \<times> string) option"
  sg_ParseDuration :: "string \<Rightarrow> int option"

text \<open>
  \<open>sg_Parse G layout\<close> is \<^verbatim>\<open>time.Parse\<close>, with the day of the result in its own zone as eight digits. \<open>sg_TrimSpace\<close> is \<^verbatim>\<open>strings.TrimSpace\<close> on
  strings that are not ASCII.
\<close>

definition is_space :: "char \<Rightarrow> bool" where
  "is_space c \<longleftrightarrow> c = CHR '' '' \<or> 9 \<le> (of_char c :: nat) \<and> (of_char c :: nat) \<le> 13"

definition TrimSpace :: "signing \<Rightarrow> string \<Rightarrow> string" where
  "TrimSpace G s = (if is_ascii s then rev (dropWhile is_space (rev (dropWhile is_space s))) else sg_TrimSpace G s)"

definition to_bytes :: "string \<Rightarrow> byte list" where
  "to_bytes s = map (\<lambda>c. word_of_nat (of_char c)) s"

definition hmacSHA256 :: "signing \<Rightarrow> byte list \<Rightarrow> byte list \<Rightarrow> byte list" where
  "hmacSHA256 G key data = sg_hmac G key data"

definition sha256Hash :: "signing \<Rightarrow> byte list \<Rightarrow> string" where
  "sha256Hash G data = EncodeToString (sg_sha256 G data)"

definition sha256HashStr :: "signing \<Rightarrow> byte list \<Rightarrow> string" where
  "sha256HashStr G data = sha256Hash G data"

record sigV4Params =
  sp_AccessKey :: string
  sp_Date :: string
  sp_Region :: string
  sp_Service :: string
  sp_SignedHeaders :: "string list"
  sp_Signature :: string

text \<open>\<^verbatim>\<open>strings.Split(s, ", ")\<close>.\<close>

fun split_comma :: "string \<Rightarrow> string list" where
  "split_comma [] = [[]]"
| "split_comma [x] = [[x]]"
| "split_comma (x # y # xs) =
     (if x = CHR '','' \<and> y = CHR '' '' then [] # split_comma xs
      else (case split_comma (y # xs) of [] \<Rightarrow> [[x]] | z # zs \<Rightarrow> (x # z) # zs))"

fun auth_fields :: "signing \<Rightarrow> string list \<Rightarrow> string \<times> string \<times> string \<Rightarrow> string \<times> string \<times> string" where
  "auth_fields G [] f = f"
| "auth_fields G (p # ps) (credential, signedHeaders, signature) =
     (let part = TrimSpace G p
      in auth_fields G ps
           (if HasPrefix part ''Credential='' then (TrimPrefix part ''Credential='', signedHeaders, signature)
            else if HasPrefix part ''SignedHeaders='' then (credential, TrimPrefix part ''SignedHeaders='', signature)
            else if HasPrefix part ''Signature='' then (credential, signedHeaders, TrimPrefix part ''Signature='')
            else (credential, signedHeaders, signature)))"

definition parseAuthorizationHeader :: "signing \<Rightarrow> string \<Rightarrow> sigV4Params result" where
  "parseAuthorizationHeader G auth =
     (if \<not> HasPrefix auth ''AWS4-HMAC-SHA256 '' then Inl (Err ''invalid AWS signature version'')
      else case auth_fields G (split_comma (TrimPrefix auth ''AWS4-HMAC-SHA256 '')) ('''', '''', '''') of
             (credential, signedHeaders, signature) \<Rightarrow>
               if credential = '''' \<or> signedHeaders = '''' \<or> signature = '''' then Inl (Err ''missing required fields in Authorization header'')
               else (case Split1 credential (CHR ''/'') of
                       [accessKey, date, region, service, terminator] \<Rightarrow>
                         if terminator \<noteq> ''aws4_request'' then Inl (Err (''invalid credential terminator: '' @ terminator))
                         else Inr \<lparr>sp_AccessKey = accessKey, sp_Date = date, sp_Region = region, sp_Service = service,
                                   sp_SignedHeaders = Split1 signedHeaders (CHR '';''), sp_Signature = signature\<rparr>
                     | _ \<Rightarrow> Inl (Err ''invalid credential format, expected accessKey/date/region/service/aws4_request'')))"

definition deriveSigningKey :: "signing \<Rightarrow> string \<Rightarrow> string \<Rightarrow> string \<Rightarrow> string \<Rightarrow> byte list" where
  "deriveSigningKey G secretKey date region service =
     (let kDate = hmacSHA256 G (to_bytes (''AWS4'' @ secretKey)) (to_bytes date);
          kRegion = hmacSHA256 G kDate (to_bytes region);
          kService = hmacSHA256 G kRegion (to_bytes service)
      in hmacSHA256 G kService (to_bytes ''aws4_request''))"

definition getCanonicalURI :: "string \<Rightarrow> string" where
  "getCanonicalURI path0 =
     (let path = (if path0 = '''' then ''/'' else path0);
          decoded = (case PathUnescape path of None \<Rightarrow> path | Some d \<Rightarrow> d);
          canonical = str_join ''/'' (map PathEscape (Split1 decoded (CHR ''/'')))
      in if HasPrefix canonical ''/'' then canonical else ''/'' @ canonical)"

definition or_raw :: "string option \<Rightarrow> string \<Rightarrow> string" where
  "or_raw d raw = (case d of None \<Rightarrow> raw | Some s \<Rightarrow> s)"

definition decoded_params :: "string \<Rightarrow> (string \<times> string) list" where
  "decoded_params rawQuery =
     map (\<lambda>p. case cut_eq p of (k, v) \<Rightarrow> (or_raw (QueryUnescape k) k, or_raw (QueryUnescape v) v)) (filter (\<lambda>p. p \<noteq> '''') (Split1 rawQuery (CHR ''&'')))"

definition encode_pair :: "string \<times> string \<Rightarrow> string" where
  "encode_pair kv = fst kv @ ''='' @ snd kv"

definition getCanonicalQueryString :: "string \<Rightarrow> string" where
  "getCanonicalQueryString rawQuery =
     (if rawQuery = '''' then ''''
      else let pairs = map (\<lambda>(k, v). (QueryEscape k, QueryEscape v)) (decoded_params rawQuery)
           in str_join ''&'' (map encode_pair (sort pairs)))"

definition newline :: string where "newline = [CHR 0x0A]"

definition canonical_header :: "signing \<Rightarrow> http_request \<Rightarrow> string \<Rightarrow> string" where
  "canonical_header G r h = h @ '':'' @ str_join '','' (map (TrimSpace G) (Header_Values r h)) @ newline"

definition buildCanonicalRequest :: "signing \<Rightarrow> string \<Rightarrow> string \<Rightarrow> string \<Rightarrow> string list \<Rightarrow> http_request \<Rightarrow> string \<Rightarrow> string" where
  "buildCanonicalRequest G m path queryString signedHeaders r payloadHash =
     str_join newline
       [m, getCanonicalURI path, getCanonicalQueryString queryString, concat (map (canonical_header G r) signedHeaders), str_join '';'' signedHeaders,
        payloadHash]"

definition buildStringToSign :: "signing \<Rightarrow> string \<Rightarrow> string \<Rightarrow> string \<Rightarrow> string \<Rightarrow> string \<Rightarrow> string" where
  "buildStringToSign G timestamp date region service canonicalRequest =
     (let scope = date @ ''/'' @ region @ ''/'' @ service @ ''/aws4_request''; canonicalHash = sha256Hash G (to_bytes canonicalRequest)
      in str_join newline [''AWS4-HMAC-SHA256'', timestamp, scope, canonicalHash])"

definition computeSignature :: "signing \<Rightarrow> byte list \<Rightarrow> string \<Rightarrow> string" where
  "computeSignature G signingKey stringToSign = EncodeToString (hmacSHA256 G signingKey (to_bytes stringToSign))"

definition getPayloadHash :: "signing \<Rightarrow> http_request \<Rightarrow> string" where
  "getPayloadHash G r =
     (let v = Header_Get r ''x-amz-content-sha256''
      in if v \<noteq> '''' then v
         else let w = Query_Get (URL_Query r) ''X-Amz-Content-SHA256''
              in if w \<noteq> '''' then w else sha256HashStr G [])"

section \<open>Verification\<close>

definition parse_timestamp :: "signing \<Rightarrow> string \<Rightarrow> (gotime \<times> string) option" where
  "parse_timestamp G timestamp =
     (case sg_Parse G ''20060102T150405Z'' timestamp of
        Some t \<Rightarrow> Some t
      | None \<Rightarrow> sg_Parse G ''2006-01-02T15:04:05Z07:00'' timestamp)"

definition fifteen_minutes :: int where "fifteen_minutes = 15 * 60 * 1000000000"

definition validateTimestamp :: "signing \<Rightarrow> gotime \<Rightarrow> string \<Rightarrow> string \<Rightarrow> unit result" where
  "validateTimestamp G now timestamp date =
     (case parse_timestamp G timestamp of
        None \<Rightarrow> Inl (Err (''invalid timestamp format: '' @ timestamp))
      | Some (t, dateFromTimestamp) \<Rightarrow>
          let diff = time_Sub now t
          in if diff < - fifteen_minutes \<or> diff > fifteen_minutes then Inl (Err ''request timestamp too far from current time'')
             else if dateFromTimestamp \<noteq> date then Inl (Err ''date in credential does not match timestamp date'')
             else Inr ())"

definition validatePresignedExpiry :: "signing \<Rightarrow> gotime \<Rightarrow> string \<Rightarrow> string \<Rightarrow> unit result" where
  "validatePresignedExpiry G now timestamp expiresStr =
     (case parse_timestamp G timestamp of
        None \<Rightarrow> Inl (Err (''invalid timestamp format: '' @ timestamp))
      | Some (t, _) \<Rightarrow>
          (case sg_ParseDuration G (expiresStr @ ''s'') of
             None \<Rightarrow> Inl (Err (''invalid X-Amz-Expires: '' @ expiresStr))
           | Some expires \<Rightarrow> if now > t + expires then Inl (Err ''presigned URL has expired'') else Inr ()))"

definition expected_signature :: "signing \<Rightarrow> string \<Rightarrow> string \<Rightarrow> string \<Rightarrow> string \<Rightarrow> string \<Rightarrow> string \<Rightarrow> string" where
  "expected_signature G secretKey timestamp date region service canonicalRequest =
     computeSignature G (deriveSigningKey G secretKey date region service) (buildStringToSign G timestamp date region service canonicalRequest)"

definition header_timestamp :: "http_request \<Rightarrow> string" where
  "header_timestamp r = (let t = Header_Get r ''x-amz-date'' in if t = '''' then Header_Get r ''Date'' else t)"

definition verifySigV4Header :: "signing \<Rightarrow> gotime \<Rightarrow> http_request \<Rightarrow> string \<Rightarrow> unit result" where
  "verifySigV4Header G now r secretKey =
     (case parseAuthorizationHeader G (Header_Get r ''Authorization'') of
        Inl e \<Rightarrow> Inl e
      | Inr params \<Rightarrow>
          let timestamp = header_timestamp r
          in if timestamp = '''' then Inl (Err ''missing x-amz-date or Date header'')
             else case validateTimestamp G now timestamp (sp_Date params) of
                    Inl e \<Rightarrow> Inl e
                  | Inr _ \<Rightarrow>
                      let canonicalRequest = buildCanonicalRequest G (rq_Method r) (rq_Path r) (rq_RawQuery r) (sp_SignedHeaders params) r (getPayloadHash G r);
                          computed = expected_signature G secretKey timestamp (sp_Date params) (sp_Region params) (sp_Service params) canonicalRequest
                      in if computed \<noteq> sp_Signature params then Inl (Err ''signature mismatch'') else Inr ())"

definition filterQueryParams :: "(string \<times> string) list \<Rightarrow> string set \<Rightarrow> string" where
  "filterQueryParams q excluded =
     str_join ''&'' (sort (map (\<lambda>(k, v). QueryEscape k @ ''='' @ QueryEscape v) (filter (\<lambda>(k, v). k \<notin> excluded) q)))"

definition verifySigV4PresignedURL :: "signing \<Rightarrow> gotime \<Rightarrow> gotime \<Rightarrow> http_request \<Rightarrow> string \<Rightarrow> unit result" where
  "verifySigV4PresignedURL G now now' r secretKey =
     (let q = URL_Query r; credential = Query_Get q ''X-Amz-Credential''
      in if credential = '''' then Inl (Err ''missing X-Amz-Credential in presigned URL'')
         else case Split1 credential (CHR ''/'') of
           [_, date, region, service, terminator] \<Rightarrow>
             if terminator \<noteq> ''aws4_request'' then Inl (Err (''invalid credential terminator: '' @ terminator))
             else let signedHeadersStr = Query_Get q ''X-Amz-SignedHeaders''; signature = Query_Get q ''X-Amz-Signature'';
                      timestamp = Query_Get q ''X-Amz-Date''; expiresStr = Query_Get q ''X-Amz-Expires''
                  in if signedHeadersStr = '''' then Inl (Err ''missing X-Amz-SignedHeaders in presigned URL'')
                     else if signature = '''' then Inl (Err ''missing X-Amz-Signature in presigned URL'')
                     else if timestamp = '''' then Inl (Err ''missing X-Amz-Date in presigned URL'')
                     else case (if expiresStr \<noteq> '''' then validatePresignedExpiry G now timestamp expiresStr else Inr ()) of
                            Inl e \<Rightarrow> Inl e
                          | Inr _ \<Rightarrow>
                              (case validateTimestamp G now' timestamp date of
                                 Inl e \<Rightarrow> Inl e
                               | Inr _ \<Rightarrow>
                                   let canonicalQueryString = getCanonicalQueryString (filterQueryParams q {''X-Amz-Signature''});
                                       canonicalRequest = buildCanonicalRequest G (rq_Method r) (rq_Path r) canonicalQueryString (Split1 signedHeadersStr (CHR '';'')) r
                                         (getPayloadHash G r);
                                       computed = expected_signature G secretKey timestamp date region service canonicalRequest
                                   in if computed \<noteq> signature then Inl (Err ''presigned URL signature mismatch'') else Inr ())
         | _ \<Rightarrow> Inl (Err ''invalid X-Amz-Credential format''))"

section \<open>Escaped text is decoded again\<close>

lemma char_of_div_mod: "char_of ((of_char c :: nat) div 16 * 16 + of_char c mod 16) = c"
  by simp

lemma of_upper_hex: "n < 16 \<Longrightarrow> of_char (upper_hex n) = (if n < 10 then 48 + n else 55 + n :: nat)"
  by (simp add: upper_hex_def of_char_of)

lemma hex_value_upper [simp]: "n < 16 \<Longrightarrow> hex_value (upper_hex n) = Some n"
  by (simp add: hex_value_def of_upper_hex Let_def)

lemma nibbles: "(of_char c :: nat) div 16 < 16" "(of_char c :: nat) mod 16 < 16"
proof -
  have "of_char c < (256 :: nat)" by simp
  then show "(of_char c :: nat) div 16 < 16" by linarith
qed simp

lemma unescape_percent: "url_unescape q (percent c @ s) = map_option ((#) c) (url_unescape q s)"
  by (simp add: percent_def nibbles)

lemma unreserved_plain: "unreserved c \<Longrightarrow> c \<noteq> CHR ''%'' \<and> c \<noteq> CHR ''+'' \<and> c \<noteq> CHR ''&'' \<and> c \<noteq> CHR ''='' \<and> c \<noteq> CHR 0x0A \<and> c \<noteq> CHR '';''"
  by (auto simp: unreserved_def is_letter_def is_digit_def Let_def)

lemma unescape_query_char: "url_unescape True (query_char c @ s) = map_option ((#) c) (url_unescape True s)"
  using unreserved_plain [of c] by (simp add: query_char_def unescape_percent)

lemma unescape_path_char: "url_unescape False (path_char c @ s) = map_option ((#) c) (url_unescape False s)"
  using unreserved_plain [of c] by (auto simp: path_char_def unescape_percent)

lemma QueryUnescape_QueryEscape [simp]: "QueryUnescape (QueryEscape s) = Some s"
  unfolding QueryUnescape_def QueryEscape_def by (induction s) (simp_all add: unescape_query_char)

lemma PathUnescape_PathEscape: "PathUnescape (PathEscape s) = Some s"
  unfolding PathUnescape_def PathEscape_def by (induction s) (simp_all add: unescape_path_char)

lemma upper_hex_plain: "n < 16 \<Longrightarrow> unreserved (upper_hex n)"
  by (auto simp: unreserved_def is_digit_def is_letter_def of_upper_hex Let_def)

lemma percent_set: "x \<in> set (percent c) \<Longrightarrow> x = CHR ''%'' \<or> unreserved x"
  using upper_hex_plain [OF nibbles(1), of c] upper_hex_plain [OF nibbles(2), of c] by (auto simp: percent_def)

lemma QueryEscape_set: "x \<in> set (QueryEscape s) \<Longrightarrow> x = CHR ''%'' \<or> x = CHR ''+'' \<or> unreserved x"
  using percent_set by (auto simp: QueryEscape_def query_char_def split: if_splits)

lemma PathEscape_set: "x \<in> set (PathEscape s) \<Longrightarrow> x = CHR ''%'' \<or> x \<in> set ''$&+:=@'' \<or> unreserved x"
  using percent_set by (fastforce simp: PathEscape_def path_char_def split: if_splits)

lemma QueryEscape_plain [simp]: "CHR ''&'' \<notin> set (QueryEscape s)" "CHR ''='' \<notin> set (QueryEscape s)" "CHR 0x0A \<notin> set (QueryEscape s)"
  using QueryEscape_set unreserved_plain by fastforce+

lemma PathEscape_plain [simp]: "CHR 0x0A \<notin> set (PathEscape s)"
  using PathEscape_set unreserved_plain by fastforce

section \<open>The canonical query\<close>

lemma str_join_Cons: "xs \<noteq> [] \<Longrightarrow> str_join sep (x # xs) = x @ sep @ str_join sep xs"
  by (cases xs) simp_all

lemma Split1_join: "xs \<noteq> [] \<Longrightarrow> \<forall>x \<in> set xs. c \<notin> set x \<Longrightarrow> Split1 (str_join [c] xs) c = xs"
  by (induction "[c]" xs rule: str_join.induct) (simp_all add: Split1_append)

lemma str_join_set: "c \<in> set (str_join sep xs) \<Longrightarrow> c \<in> set sep \<or> (\<exists>x \<in> set xs. c \<in> set x)"
  by (induction sep xs rule: str_join.induct) auto

lemma cut_encoded [simp]: "cut_eq (encode_pair (QueryEscape k, QueryEscape v)) = (QueryEscape k, QueryEscape v)"
  by (simp add: cut_eq_def encode_pair_def)

definition escape_pair :: "string \<times> string \<Rightarrow> string \<times> string" where
  "escape_pair kv = (QueryEscape (fst kv), QueryEscape (snd kv))"

definition encode_pairs :: "(string \<times> string) list \<Rightarrow> string" where
  "encode_pairs ps = str_join ''&'' (map (encode_pair \<circ> escape_pair) ps)"

lemma decoded_encode_pairs: "decoded_params (encode_pairs ps) = ps"
proof (cases "ps = []")
  case False
  then have "Split1 (encode_pairs ps) (CHR ''&'') = map (encode_pair \<circ> escape_pair) ps"
    unfolding encode_pairs_def by (intro Split1_join) (auto simp: encode_pair_def escape_pair_def)
  then show ?thesis
    by (simp add: decoded_params_def filter_map comp_def encode_pair_def [abs_def] escape_pair_def or_raw_def cut_eq_def split_def)
qed (simp add: encode_pairs_def decoded_params_def)

lemma unescape_escape_pair: "(the (QueryUnescape (fst (escape_pair p))), the (QueryUnescape (snd (escape_pair p)))) = p"
  by (simp add: escape_pair_def)

definition canonical_pairs :: "(string \<times> string) list \<Rightarrow> (string \<times> string) list" where
  "canonical_pairs ps = sort_key escape_pair ps"

lemma inj_escape_pair: "inj escape_pair"
  by (rule inj_on_inverseI [of _ "\<lambda>p. (the (QueryUnescape (fst p)), the (QueryUnescape (snd p)))"]) (rule unescape_escape_pair)

lemma sort_escaped: "sort (map escape_pair ps) = map escape_pair (canonical_pairs ps)"
  by (rule properties_for_sort) (simp_all add: canonical_pairs_def)

lemma canonical_query_pairs: "getCanonicalQueryString q = encode_pairs (canonical_pairs (decoded_params q))"
proof (cases "q = ''''")
  case False
  have "(\<lambda>(k, v). (QueryEscape k, QueryEscape v)) = escape_pair" by (rule ext) (simp add: escape_pair_def split_def)
  with False show ?thesis
    by (simp add: getCanonicalQueryString_def encode_pairs_def sort_escaped)
qed (simp add: getCanonicalQueryString_def encode_pairs_def canonical_pairs_def decoded_params_def)

lemma canonical_pairs_mset: "mset ps = mset qs \<Longrightarrow> canonical_pairs ps = canonical_pairs qs"
proof -
  assume "mset ps = mset qs"
  then have "sort (map escape_pair ps) = sort (map escape_pair qs)" by (intro properties_for_sort) simp_all
  then show ?thesis unfolding sort_escaped by (simp add: inj_map_eq_map [OF inj_escape_pair])
qed

text \<open>
  C15. The canonical query says exactly which parameters a query has: two raw queries have the same canonical form if and only if they decode to
  the same parameters, each as often, in whatever order and however they are escaped.
\<close>

theorem canonical_query_exact:
  "getCanonicalQueryString q1 = getCanonicalQueryString q2 \<longleftrightarrow> mset (decoded_params q1) = mset (decoded_params q2)"
proof
  assume "getCanonicalQueryString q1 = getCanonicalQueryString q2"
  then have "decoded_params (getCanonicalQueryString q1) = decoded_params (getCanonicalQueryString q2)" by simp
  then have "canonical_pairs (decoded_params q1) = canonical_pairs (decoded_params q2)" by (simp add: canonical_query_pairs decoded_encode_pairs)
  then have "mset (canonical_pairs (decoded_params q1)) = mset (canonical_pairs (decoded_params q2))" by simp
  then show "mset (decoded_params q1) = mset (decoded_params q2)" by (simp add: canonical_pairs_def)
next
  assume "mset (decoded_params q1) = mset (decoded_params q2)"
  then show "getCanonicalQueryString q1 = getCanonicalQueryString q2" unfolding canonical_query_pairs by (intro arg_cong [of _ _ encode_pairs] canonical_pairs_mset)
qed

section \<open>What a signature binds\<close>

lemma hex_digit_eq: "m < 16 \<Longrightarrow> n < 16 \<Longrightarrow> hex_digit m = hex_digit n \<longleftrightarrow> m = n"
proof -
  assume b: "m < 16" "n < 16"
  have h: "k < 16 \<Longrightarrow> of_char (hex_digit k) = (if k < 10 then 48 + k else 87 + k :: nat)" for k by (simp add: hex_digit_def of_char_of)
  have "hex_digit m = hex_digit n \<longleftrightarrow> of_char (hex_digit m) = (of_char (hex_digit n) :: nat)" by simp
  then show ?thesis using b unfolding h [OF b(1)] h [OF b(2)] by (auto split: if_splits)
qed

lemma EncodeToString_inj: "EncodeToString xs = EncodeToString ys \<longleftrightarrow> xs = ys"
proof (induction xs arbitrary: ys)
  case (Cons x xs)
  show ?case
  proof (cases ys)
    case (Cons y ys')
    have b: "unat x div 16 < 16" "unat y div 16 < 16" using unsigned_less [of x, where ?'a = nat] unsigned_less [of y, where ?'a = nat] by simp_all
    have "unat x = unat y" if "unat x div 16 = unat y div 16" "unat x mod 16 = unat y mod 16"
      using that by (metis div_mult_mod_eq)
    then have "x = y" if "unat x div 16 = unat y div 16" "unat x mod 16 = unat y mod 16" using that by (metis unsigned_word_eqI)
    then show ?thesis using Cons Cons.IH [of ys'] b by (auto simp: EncodeToString_def hex_digit_eq)
  qed (simp add: EncodeToString_def)
qed (auto simp: EncodeToString_def)

lemma to_bytes_inj: "to_bytes s = to_bytes t \<longleftrightarrow> s = t"
proof -
  have "inj (\<lambda>c. word_of_nat (of_char c) :: byte)"
  proof (rule injI)
    fix c d :: char assume e: "(word_of_nat (of_char c) :: byte) = word_of_nat (of_char d)"
    have "of_char c < (256 :: nat)" "of_char d < (256 :: nat)" by simp_all
    then have "unat (word_of_nat (of_char c) :: byte) = of_char c" "unat (word_of_nat (of_char d) :: byte) = of_char d"
      by (simp_all add: unat_of_nat take_bit_eq_mod)
    then show "c = d" using e by (metis of_char_eq_iff)
  qed
  then show ?thesis by (simp add: to_bytes_def inj_map_eq_map)
qed

lemma line_cancel: "x \<notin> set a \<Longrightarrow> x \<notin> set a' \<Longrightarrow> a @ x # b = a' @ x # b' \<longleftrightarrow> a = a' \<and> b = b'"
proof (induction a arbitrary: a')
  case Nil
  then show ?case by (cases a') auto
next
  case (Cons y a)
  then show ?case by (cases a') auto
qed

lemma lines_cancel:
  "\<forall>h \<in> set hs. x \<notin> set (f h) \<and> x \<notin> set (g h) \<Longrightarrow>
     concat (map (\<lambda>h. f h @ [x]) hs) @ b = concat (map (\<lambda>h. g h @ [x]) hs) @ b' \<longleftrightarrow> map f hs = map g hs \<and> b = b'"
  by (induction hs) (auto simp: line_cancel)

lemma canonical_URI_plain: "CHR 0x0A \<notin> set (getCanonicalURI p)"
proof -
  have "CHR 0x0A \<notin> set (str_join ''/'' (map PathEscape ps))" for ps using str_join_set [of "CHR 0x0A" "''/''" "map PathEscape ps"] by auto
  then show ?thesis by (auto simp: getCanonicalURI_def Let_def)
qed

lemma canonical_query_plain: "CHR 0x0A \<notin> set (getCanonicalQueryString q)"
  using str_join_set [of "CHR 0x0A" "''&''" "map (encode_pair \<circ> escape_pair) (canonical_pairs (decoded_params q))"]
  by (auto simp: canonical_query_pairs encode_pairs_def encode_pair_def escape_pair_def)

text \<open>The values of a signed header line, joined as they are signed. Lines of a request contain no line feed, and trimming adds nothing.\<close>

definition signed_value :: "signing \<Rightarrow> http_request \<Rightarrow> string \<Rightarrow> string" where
  "signed_value G r h = str_join '','' (map (TrimSpace G) (Header_Values r h))"

definition plain_request :: "http_request \<Rightarrow> bool" where
  "plain_request r \<longleftrightarrow> CHR 0x0A \<notin> set (rq_Method r) \<and> (\<forall>h. \<forall>v \<in> set (rq_Header r h). CHR 0x0A \<notin> set v)"

definition trims :: "signing \<Rightarrow> bool" where
  "trims G \<longleftrightarrow> (\<forall>s. set (sg_TrimSpace G s) \<subseteq> set s)"

lemma TrimSpace_set: "trims G \<Longrightarrow> set (TrimSpace G s) \<subseteq> set s"
  by (auto simp: trims_def TrimSpace_def dest!: set_dropWhileD)

lemma signed_value_plain: "trims G \<Longrightarrow> plain_request r \<Longrightarrow> CHR 0x0A \<notin> set (signed_value G r h)"
  using str_join_set [of "CHR 0x0A" "'',''" "map (TrimSpace G) (Header_Values r h)"] TrimSpace_set [of G]
  by (fastforce simp: signed_value_def plain_request_def Header_Values_def)

lemma canonical_header_line: "canonical_header G r h = (h @ '':'' @ signed_value G r h) @ [CHR 0x0A]"
  by (simp add: canonical_header_def signed_value_def newline_def)

lemma canonical_request_inj:
  assumes t: "trims G" and p: "plain_request r1" "plain_request r2" and hs: "\<forall>h \<in> set hs. CHR 0x0A \<notin> set h"
    and eq: "buildCanonicalRequest G (rq_Method r1) path1 q1 hs r1 hash1 = buildCanonicalRequest G (rq_Method r2) path2 q2 hs r2 hash2"
  shows "rq_Method r1 = rq_Method r2 \<and> getCanonicalURI path1 = getCanonicalURI path2 \<and> getCanonicalQueryString q1 = getCanonicalQueryString q2 \<and>
    (\<forall>h \<in> set hs. signed_value G r1 h = signed_value G r2 h) \<and> hash1 = hash2"
proof -
  have m: "CHR 0x0A \<notin> set (rq_Method r1)" "CHR 0x0A \<notin> set (rq_Method r2)" using p by (simp_all add: plain_request_def)
  note plain = m canonical_URI_plain canonical_query_plain
  let ?tail = "\<lambda>r hash. concat (map (\<lambda>h. (h @ '':'' @ signed_value G r h) @ [CHR 0x0A]) hs) @ CHR 0x0A # str_join '';'' hs @ CHR 0x0A # hash"
  have "rq_Method r1 = rq_Method r2 \<and> getCanonicalURI path1 = getCanonicalURI path2 \<and> getCanonicalQueryString q1 = getCanonicalQueryString q2 \<and> ?tail r1 hash1 = ?tail r2 hash2"
    using eq by (simp add: buildCanonicalRequest_def newline_def line_cancel plain canonical_header_line cong: map_cong)
  moreover have "\<forall>h \<in> set hs. CHR 0x0A \<notin> set (h @ '':'' @ signed_value G r1 h) \<and> CHR 0x0A \<notin> set (h @ '':'' @ signed_value G r2 h)"
    using hs signed_value_plain [OF t p(1)] signed_value_plain [OF t p(2)] by simp
  note lines_cancel [OF this]
  ultimately show ?thesis by simp
qed

text \<open>The two inputs on which a hash function would have to agree for the signature of one canonical request to fit another.\<close>

definition hash_collision :: "signing \<Rightarrow> string \<Rightarrow> string \<Rightarrow> sigV4Params \<Rightarrow> string \<Rightarrow> string \<Rightarrow> bool" where
  "hash_collision G k ts sp c1 c2 \<longleftrightarrow>
     c1 \<noteq> c2 \<and> sg_sha256 G (to_bytes c1) = sg_sha256 G (to_bytes c2) \<or>
     (let key = deriveSigningKey G k (sp_Date sp) (sp_Region sp) (sp_Service sp);
          s1 = buildStringToSign G ts (sp_Date sp) (sp_Region sp) (sp_Service sp) c1;
          s2 = buildStringToSign G ts (sp_Date sp) (sp_Region sp) (sp_Service sp) c2
      in s1 \<noteq> s2 \<and> sg_hmac G key (to_bytes s1) = sg_hmac G key (to_bytes s2))"

lemma string_to_sign_inj: "buildStringToSign G ts d r s c1 = buildStringToSign G ts d r s c2 \<longleftrightarrow> sg_sha256 G (to_bytes c1) = sg_sha256 G (to_bytes c2)"
  by (simp add: buildStringToSign_def sha256Hash_def EncodeToString_inj Let_def)

lemma same_signature:
  assumes "expected_signature G k ts (sp_Date sp) (sp_Region sp) (sp_Service sp) c1 = expected_signature G k ts (sp_Date sp) (sp_Region sp) (sp_Service sp) c2"
  shows "c1 = c2 \<or> hash_collision G k ts sp c1 c2"
  using assms
  by (auto simp: expected_signature_def computeSignature_def EncodeToString_inj hmacSHA256_def hash_collision_def Let_def string_to_sign_inj)

definition request_text :: "signing \<Rightarrow> http_request \<Rightarrow> sigV4Params \<Rightarrow> string" where
  "request_text G r sp = buildCanonicalRequest G (rq_Method r) (rq_Path r) (rq_RawQuery r) (sp_SignedHeaders sp) r (getPayloadHash G r)"

lemma verified:
  "verifySigV4Header G now r k = Inr () \<Longrightarrow> \<exists>sp t d. parseAuthorizationHeader G (Header_Get r ''Authorization'') = Inr sp \<and>
     parse_timestamp G (header_timestamp r) = Some (t, d) \<and> d = sp_Date sp \<and> - fifteen_minutes \<le> now - t \<and> now - t \<le> fifteen_minutes \<and>
     sp_Signature sp = expected_signature G k (header_timestamp r) (sp_Date sp) (sp_Region sp) (sp_Service sp) (request_text G r sp)"
  by (auto simp: verifySigV4Header_def validateTimestamp_def request_text_def Let_def time_Sub_def fifteen_minutes_def split: sum.splits if_splits option.splits)

lemma split_comma_set: "p \<in> set (split_comma s) \<Longrightarrow> set p \<subseteq> set s"
proof (induction s arbitrary: p rule: split_comma.induct)
  case (3 x y xs)
  then show ?case by (auto split: if_splits list.splits) blast+
qed auto

lemma Split1_set: "p \<in> set (Split1 s c) \<Longrightarrow> set p \<subseteq> set s"
proof (induction s arbitrary: p)
  case (Cons x s)
  then show ?case by (auto split: if_splits list.splits) blast+
qed simp

lemma TrimPrefix_set: "set (TrimPrefix s p) \<subseteq> set s"
  by (auto simp: TrimPrefix_def dest: in_set_dropD)

lemma auth_fields_set:
  "trims G \<Longrightarrow> set (fst (snd (auth_fields G ps f))) \<subseteq> set (fst (snd f)) \<union> (\<Union>p \<in> set ps. set p)"
proof (induction G ps f rule: auth_fields.induct)
  case (2 G p ps credential signedHeaders signature)
  have "set (TrimPrefix (TrimSpace G p) q) \<subseteq> set p" for q using TrimSpace_set [OF "2.prems", of p] TrimPrefix_set [of "TrimSpace G p" q] by blast
  then show ?case using "2.IH" [OF refl "2.prems"] by (auto simp: Let_def split: if_splits)
qed simp

lemma signed_headers_set:
  "trims G \<Longrightarrow> parseAuthorizationHeader G a = Inr sp \<Longrightarrow> h \<in> set (sp_SignedHeaders sp) \<Longrightarrow> set h \<subseteq> set a"
proof -
  assume t: "trims G" and p: "parseAuthorizationHeader G a = Inr sp" "h \<in> set (sp_SignedHeaders sp)"
  let ?ps = "split_comma (TrimPrefix a ''AWS4-HMAC-SHA256 '')"
  let ?l = "fst (snd (auth_fields G ?ps ('''', '''', '''')))"
  have "sp_SignedHeaders sp = Split1 ?l (CHR '';'')"
    using p(1) by (auto simp: parseAuthorizationHeader_def split: if_splits prod.splits list.splits)
  then have "set h \<subseteq> set ?l" using Split1_set p(2) by metis
  also have "\<dots> \<subseteq> (\<Union>p \<in> set ?ps. set p)" using auth_fields_set [OF t, of ?ps "('''', '''', '''')"] by simp
  also have "\<dots> \<subseteq> set a" using split_comma_set TrimPrefix_set by fastforce
  finally show ?thesis .
qed

text \<open>
  C6. A signature binds the request it was made for. When two requests with the same \<^verbatim>\<open>Authorization\<close> header and time stamp are both accepted, they agree on the method, the
  canonical path, the query parameters, the values of every signed header and the declared hash of the body,
  or one of the hash functions agrees on two different inputs; and each was accepted within a quarter of an hour of its time stamp.
\<close>

theorem signature_binds_request:
  assumes "trims G" "plain_request r1" "plain_request r2"
    and "verifySigV4Header G now1 r1 k = Inr ()" "verifySigV4Header G now2 r2 k = Inr ()"
    and "Header_Get r1 ''Authorization'' = Header_Get r2 ''Authorization''" "header_timestamp r1 = header_timestamp r2"
  shows "\<exists>sp t. parseAuthorizationHeader G (Header_Get r1 ''Authorization'') = Inr sp \<and> \<bar>now1 - t\<bar> \<le> fifteen_minutes \<and> \<bar>now2 - t\<bar> \<le> fifteen_minutes \<and>
    parse_timestamp G (header_timestamp r1) = Some (t, sp_Date sp) \<and>
    (rq_Method r1 = rq_Method r2 \<and> getCanonicalURI (rq_Path r1) = getCanonicalURI (rq_Path r2) \<and>
     mset (decoded_params (rq_RawQuery r1)) = mset (decoded_params (rq_RawQuery r2)) \<and>
     (\<forall>h \<in> set (sp_SignedHeaders sp). signed_value G r1 h = signed_value G r2 h) \<and> getPayloadHash G r1 = getPayloadHash G r2
     \<or> hash_collision G k (header_timestamp r1) sp (request_text G r1 sp) (request_text G r2 sp))"
proof -
  obtain sp t where a: "parseAuthorizationHeader G (Header_Get r1 ''Authorization'') = Inr sp" "parse_timestamp G (header_timestamp r1) = Some (t, sp_Date sp)"
      "\<bar>now1 - t\<bar> \<le> fifteen_minutes" "\<bar>now2 - t\<bar> \<le> fifteen_minutes"
    and s: "expected_signature G k (header_timestamp r1) (sp_Date sp) (sp_Region sp) (sp_Service sp) (request_text G r1 sp) =
      expected_signature G k (header_timestamp r1) (sp_Date sp) (sp_Region sp) (sp_Service sp) (request_text G r2 sp)"
    using verified [OF assms(4)] verified [OF assms(5)] assms(6,7) by (auto simp: abs_le_iff)
  have "\<forall>v \<in> set (rq_Header r1 h). CHR 0x0A \<notin> set v" for h using assms(2) by (simp add: plain_request_def)
  then have "CHR 0x0A \<notin> set (Header_Get r1 ''Authorization'')" by (cases "rq_Header r1 (CanonicalMIMEHeaderKey ''Authorization'')") (simp_all add: Header_Get_def Header_Values_def, metis list.set_intros(1))
  then have hs: "\<forall>h \<in> set (sp_SignedHeaders sp). CHR 0x0A \<notin> set h" using signed_headers_set [OF assms(1) a(1)] by blast
  show ?thesis
    using a same_signature [OF s] canonical_request_inj [OF assms(1-3) hs, of "rq_Path r1" "rq_RawQuery r1" "getPayloadHash G r1" "rq_Path r2" "rq_RawQuery r2" "getPayloadHash G r2"]
    unfolding request_text_def [symmetric] canonical_query_exact by blast
qed

text \<open>
  The path is decoded once too often. The path of a request is already decoded when it is put into canonical form, and it is decoded
  again there: whenever decoding a path gives another one, a signature for either is accepted for the other, although
  they name different objects.
\<close>

lemma unescape_plain: "CHR ''%'' \<notin> set s \<Longrightarrow> url_unescape False s = Some s"
  by (induction s) auto

theorem signed_path_ambiguous:
  assumes "PathUnescape p = Some d" "CHR ''%'' \<notin> set d"
  shows "verifySigV4Header G now (r\<lparr>rq_Path := p\<rparr>) k = verifySigV4Header G now (r\<lparr>rq_Path := d\<rparr>) k"
proof -
  have d: "PathUnescape d = Some d" using unescape_plain [OF assms(2)] by (simp add: PathUnescape_def)
  have "getCanonicalURI p = getCanonicalURI d"
  proof (cases "p = ''''")
    case False
    then have "d \<noteq> ''''" using assms(1) by (cases p) (auto simp: PathUnescape_def split: if_splits list.splits option.splits prod.splits)
    with False show ?thesis using assms(1) d by (simp add: getCanonicalURI_def Let_def)
  qed (use assms in \<open>simp add: PathUnescape_def\<close>)
  moreover have "canonical_header G (r\<lparr>rq_Path := x\<rparr>) = canonical_header G r" for x by (rule ext) (simp add: canonical_header_def Header_Values_def)
  ultimately have b: "buildCanonicalRequest G m p q hs (r\<lparr>rq_Path := p\<rparr>) pl = buildCanonicalRequest G m d q hs (r\<lparr>rq_Path := d\<rparr>) pl" for m q hs pl
    by (simp add: buildCanonicalRequest_def)
  have g: "Header_Get (r\<lparr>rq_Path := x\<rparr>) h = Header_Get r h" for x h by (simp add: Header_Get_def Header_Values_def)
  have h: "header_timestamp (r\<lparr>rq_Path := x\<rparr>) = header_timestamp r" "getPayloadHash G (r\<lparr>rq_Path := x\<rparr>) = getPayloadHash G r" for x
    by (simp_all add: header_timestamp_def getPayloadHash_def g URL_Query_def Let_def)
  show ?thesis unfolding verifySigV4Header_def g h by (simp add: b Let_def split: sum.split)
qed

section \<open>Witnesses\<close>

definition demo_signing :: signing where
  "demo_signing = \<lparr>sg_hmac = (\<lambda>_ _. [2]), sg_sha256 = (\<lambda>_. [1]), sg_TrimSpace = (\<lambda>s. s), sg_Parse = (\<lambda>_ _. Some (7, ''20240101'')), sg_ParseDuration = (\<lambda>_. None)\<rparr>"

definition demo_request :: "string \<Rightarrow> http_request" where
  "demo_request q = \<lparr>rq_Method = ''GET'', rq_Path = ''/docs/aA'', rq_RawQuery = q,
     rq_Header = (\<lambda>_. [])(''Authorization'' := [''AWS4-HMAC-SHA256 Credential=alice/20240101/us/s3/aws4_request, SignedHeaders=x-amz-date, Signature=02''],
       ''X-Amz-Date'' := [''20240101T000000Z'']), rq_Host = ''lake'', rq_RemoteAddr = ''''\<rparr>"

lemma demo_headers: "Header_Get (demo_request q) ''Authorization'' = ''AWS4-HMAC-SHA256 Credential=alice/20240101/us/s3/aws4_request, SignedHeaders=x-amz-date, Signature=02''"
    "header_timestamp (demo_request q) = ''20240101T000000Z''"
proof -
  have "CanonicalMIMEHeaderKey ''Authorization'' = ''Authorization''" "CanonicalMIMEHeaderKey ''x-amz-date'' = ''X-Amz-Date''" by code_simp+
  then show "Header_Get (demo_request q) ''Authorization'' = ''AWS4-HMAC-SHA256 Credential=alice/20240101/us/s3/aws4_request, SignedHeaders=x-amz-date, Signature=02''"
    "header_timestamp (demo_request q) = ''20240101T000000Z''"
    by (simp_all add: Header_Get_def Header_Values_def demo_request_def header_timestamp_def Let_def)
qed

lemma demo_parse: "parseAuthorizationHeader demo_signing ''AWS4-HMAC-SHA256 Credential=alice/20240101/us/s3/aws4_request, SignedHeaders=x-amz-date, Signature=02'' =
    Inr \<lparr>sp_AccessKey = ''alice'', sp_Date = ''20240101'', sp_Region = ''us'', sp_Service = ''s3'', sp_SignedHeaders = [''x-amz-date''], sp_Signature = ''02''\<rparr>"
  by code_simp

lemma demo_accepted: "verifySigV4Header demo_signing 7 (demo_request q) k = Inr ()"
proof -
  have "validateTimestamp demo_signing 7 ''20240101T000000Z'' ''20240101'' = Inr ()"
    by (simp add: validateTimestamp_def parse_timestamp_def demo_signing_def time_Sub_def fifteen_minutes_def Let_def)
  moreover have "EncodeToString [2] = ''02''" by code_simp
  then have "expected_signature demo_signing k ts d r s c = ''02''" for ts d r s c
    by (simp add: expected_signature_def computeSignature_def hmacSHA256_def demo_signing_def)
  ultimately show ?thesis by (simp add: verifySigV4Header_def demo_headers demo_parse Let_def)
qed

lemma demo_plain: "trims demo_signing" "CHR 0x0A \<notin> set q \<Longrightarrow> plain_request (demo_request q)"
  by (auto simp: trims_def demo_signing_def plain_request_def demo_request_def)

theorem signature_binds_request_witness:
  "\<exists>sp t. parseAuthorizationHeader demo_signing (Header_Get (demo_request ''a=1&b=2'') ''Authorization'') = Inr sp \<and> \<bar>7 - t\<bar> \<le> fifteen_minutes \<and>
     parse_timestamp demo_signing (header_timestamp (demo_request ''a=1&b=2'')) = Some (t, sp_Date sp)"
proof -
  have "plain_request (demo_request ''a=1&b=2'')" "plain_request (demo_request ''b=2&a=1'')" by (simp_all add: demo_plain)
  note signature_binds_request [OF demo_plain(1) this demo_accepted demo_accepted, of "''secret''"]
  then show ?thesis unfolding demo_headers by blast
qed

theorem signed_path_ambiguous_witness:
  "verifySigV4Header demo_signing 7 (demo_request ''a=1''\<lparr>rq_Path := ''/docs/a%41''\<rparr>) ''secret'' = Inr ()"
proof -
  have "(demo_request ''a=1'')\<lparr>rq_Path := ''/docs/aA''\<rparr> = demo_request ''a=1''" by (simp add: demo_request_def)
  moreover have "PathUnescape ''/docs/a%41'' = Some ''/docs/aA''" by code_simp
  ultimately show ?thesis using signed_path_ambiguous [of "''/docs/a%41''" "''/docs/aA''" demo_signing 7 "demo_request ''a=1''" "''secret''"] by (simp add: demo_accepted)
qed

end
