(* ===== verification/Gateway_Auth.thy ===== *)
theory Gateway_Auth
  imports SigV4 IAM_Conditions Plugin_Capability "HOL-Library.Countable"
begin

text \<open>
  Local users of the gateway, \<^verbatim>\<open>internal/gateway/auth.go\<close>: passwords, tokens and signatures, the lock-out after failed logins, the
  administration of users and its file, and the handlers of \<^verbatim>\<open>/admin/users\<close>.
  The libraries for password hashes and tokens are the argument \<open>L :: auth_lib\<close>; clock readings, random bytes, the environment and the order in which Go
  visits the map of users are arguments.
\<close>

section \<open>Data\<close>

record AuthConfig =
  ac_JWTSecret :: string
  ac_RequireAuth :: bool
  ac_AnonymousRead :: bool
  ac_TokenExpiry :: int
  ac_RefreshExpiry :: int

text \<open>A missing map of bucket permissions is \<^const>\<open>None\<close>.\<close>

record User =
  us_ID :: string
  us_Name :: string
  us_PasswordHash :: string
  us_SecretKey :: string
  us_Role :: string
  us_Permissions :: "string list"
  us_BucketPermissions :: "(string \<rightharpoonup> string list) option"

record Claims =
  cl_UserID :: string
  cl_Role :: string
  cl_Perms :: "string list"
  cl_ExpiresAt :: gotime
  cl_IssuedAt :: gotime
  cl_Issuer :: string

record failedLoginTracker =
  ft_count :: int
  ft_firstFail :: gotime
  ft_blockedUntil :: gotime

text \<open>\<open>au_file\<close> is what the file at \<open>au_userStorePath\<close> holds.\<close>

record AuthHandler =
  au_secretKey :: string
  au_users :: "string \<rightharpoonup> User"
  au_config :: AuthConfig
  au_failedLogins :: "string \<rightharpoonup> failedLoginTracker"
  au_userStorePath :: string
  au_file :: "(string \<rightharpoonup> User) option"

text \<open>
  bcrypt and the token library. \<open>al_hash L salt\<close> fails on long passwords. \<open>al_Parse L secret now token\<close> gives the claims of a valid token that is
  signed with an HMAC method.
\<close>

record auth_lib =
  al_hash :: "byte list \<Rightarrow> string \<Rightarrow> string + string"
  al_compare :: "string \<Rightarrow> string \<Rightarrow> bool"
  al_Parse :: "string \<Rightarrow> gotime \<Rightarrow> string \<Rightarrow> string + Claims"
  al_Sign :: "string \<Rightarrow> Claims \<Rightarrow> string + string"

definition anonymous_user :: "string list \<Rightarrow> User" where
  "anonymous_user perms = \<lparr>us_ID = ''anonymous'', us_Name = ''anonymous'', us_PasswordHash = '''', us_SecretKey = '''', us_Role = ''anonymous'',
     us_Permissions = perms, us_BucketPermissions = None\<rparr>"

section \<open>Start\<close>

definition loadUsers :: "AuthHandler \<Rightarrow> AuthHandler" where
  "loadUsers a =
     (if au_userStorePath a = '''' then a
      else case au_file a of
             None \<Rightarrow> a
           | Some stored \<Rightarrow>
               a\<lparr>au_users := (\<lambda>name.
                   case stored name of
                     None \<Rightarrow> au_users a name
                   | Some user \<Rightarrow>
                       if name = ''admin''
                       then map_option (\<lambda>admin. admin\<lparr>us_Permissions := us_Permissions user, us_Role := us_Role user,
                              us_PasswordHash := (if us_PasswordHash user \<noteq> '''' then us_PasswordHash user else us_PasswordHash admin)\<rparr>) (au_users a name)
                       else Some user)\<rparr>)"

definition default_config :: AuthConfig where
  "default_config = \<lparr>ac_JWTSecret = '''', ac_RequireAuth = False, ac_AnonymousRead = True, ac_TokenExpiry = 24 * 3600000000000, ac_RefreshExpiry = 7 * 24 * 3600000000000\<rparr>"

definition first_nonempty :: "string list \<Rightarrow> string" where
  "first_nonempty xs = (case filter (\<lambda>x. x \<noteq> '''') xs of [] \<Rightarrow> '''' | x # _ \<Rightarrow> x)"

text \<open>\<^verbatim>\<open>base64.StdEncoding.EncodeToString\<close>.\<close>

definition b64_char :: "nat \<Rightarrow> char" where
  "b64_char n = (if n < 26 then char_of (65 + n) else if n < 52 then char_of (71 + n) else if n < 62 then char_of (n - 4) else if n = 62 then CHR ''+'' else CHR ''/'')"

fun b64_encode :: "byte list \<Rightarrow> string" where
  "b64_encode [] = ''''"
| "b64_encode [x] = (let n = unat x * 65536 in [b64_char (n div 262144), b64_char (n div 4096 mod 64), CHR ''='', CHR ''=''])"
| "b64_encode [x, y] = (let n = unat x * 65536 + unat y * 256 in [b64_char (n div 262144), b64_char (n div 4096 mod 64), b64_char (n div 64 mod 64), CHR ''=''])"
| "b64_encode (x # y # z # bs) =
     (let n = unat x * 65536 + unat y * 256 + unat z
      in [b64_char (n div 262144), b64_char (n div 4096 mod 64), b64_char (n div 64 mod 64), b64_char (n mod 64)] @ b64_encode bs)"

definition fresh_handler ::
    "auth_lib \<Rightarrow> (string \<Rightarrow> string) \<Rightarrow> string \<Rightarrow> string \<Rightarrow> byte list \<Rightarrow> string \<Rightarrow> (string \<Rightarrow> (string \<rightharpoonup> User) option) \<Rightarrow> AuthConfig \<Rightarrow> AuthHandler" where
  "fresh_handler L env secretKey adminPassword salt path disk cfg =
     (let hashedPassword = (case al_hash L salt adminPassword of Inl _ \<Rightarrow> '''' | Inr h \<Rightarrow> h);
          admin = \<lparr>us_ID = ''user-001'', us_Name = ''admin'', us_PasswordHash = hashedPassword, us_SecretKey = env ''CIPHERLAKE_ADMIN_SECRET_KEY'',
            us_Role = ''admin'', us_Permissions = [''read'', ''write'', ''delete'', ''admin''], us_BucketPermissions = None\<rparr>
      in \<lparr>au_secretKey = secretKey, au_users = [''admin'' \<mapsto> admin], au_config = cfg, au_failedLogins = (\<lambda>_. None),
           au_userStorePath = path, au_file = disk path\<rparr>)"

text \<open>
  \<open>env\<close> is the environment, \<open>secretBytes\<close> and \<open>pwBytes\<close> what the random source gives, \<open>in_dir\<close> the join of a directory with \<^verbatim>\<open>users.json\<close>.
\<close>

definition NewAuthHandlerWithConfig ::
    "auth_lib \<Rightarrow> (string \<Rightarrow> string) \<Rightarrow> byte list option \<Rightarrow> byte list option \<Rightarrow> byte list \<Rightarrow> (string \<Rightarrow> string) \<Rightarrow> (string \<Rightarrow> (string \<rightharpoonup> User) option) \<Rightarrow>
     AuthConfig option \<Rightarrow> AuthHandler option" where
  "NewAuthHandlerWithConfig L env secretBytes pwBytes salt in_dir disk config =
     (let cfg = (case config of None \<Rightarrow> default_config | Some c \<Rightarrow> c);
          secret = first_nonempty [ac_JWTSecret cfg, env ''CIPHERLAKE_JWT_SECRET'', env ''JWT_SECRET''];
          password = env ''CIPHERLAKE_ADMIN_PASSWORD'';
          dataDir = first_nonempty [env ''CIPHERLAKE_DATA_DIR'', ''./data''];
          path = (if env ''CIPHERLAKE_USER_STORE'' \<noteq> '''' then env ''CIPHERLAKE_USER_STORE'' else in_dir dataDir)
      in case (if secret \<noteq> '''' then Some secret else map_option EncodeToString secretBytes) of
           None \<Rightarrow> None
         | Some secretKey \<Rightarrow>
             (case (if password \<noteq> '''' then Some password else map_option b64_encode pwBytes) of
                None \<Rightarrow> None
              | Some adminPassword \<Rightarrow>
                  Some (loadUsers (fresh_handler L env secretKey adminPassword salt path disk cfg))))"

section \<open>Failed logins\<close>

definition isBlocked :: "gotime \<Rightarrow> string \<Rightarrow> AuthHandler \<Rightarrow> bool" where
  "isBlocked now key a = (case au_failedLogins a key of None \<Rightarrow> False | Some tracker \<Rightarrow> now < ft_blockedUntil tracker)"

definition count_failure :: "gotime \<Rightarrow> gotime \<Rightarrow> gotime \<Rightarrow> failedLoginTracker \<Rightarrow> failedLoginTracker" where
  "count_failure now now' now'' tracker =
     (let t1 = (if time_Sub now (ft_firstFail tracker) > fifteen_minutes then tracker\<lparr>ft_count := 0, ft_firstFail := now'\<rparr> else tracker);
          t2 = t1\<lparr>ft_count := ft_count t1 + 1\<rparr>
      in if ft_count t2 \<ge> 5 then t2\<lparr>ft_blockedUntil := now'' + fifteen_minutes\<rparr> else t2)"

definition recordFailedLogin :: "gotime \<Rightarrow> gotime \<Rightarrow> gotime \<Rightarrow> string \<Rightarrow> AuthHandler \<Rightarrow> AuthHandler" where
  "recordFailedLogin now now' now'' key a =
     (let tracker = (case au_failedLogins a key of Some t \<Rightarrow> t | None \<Rightarrow> \<lparr>ft_count = 0, ft_firstFail = 0, ft_blockedUntil = 0\<rparr>)
      in a\<lparr>au_failedLogins := (au_failedLogins a)(key \<mapsto> count_failure now now' now'' tracker)\<rparr>)"

definition resetFailedLogins :: "string \<Rightarrow> AuthHandler \<Rightarrow> AuthHandler" where
  "resetFailedLogins key a = a\<lparr>au_failedLogins := (au_failedLogins a)(key := None)\<rparr>"

section \<open>Authentication\<close>

definition users_in :: "string list \<Rightarrow> AuthHandler \<Rightarrow> User list" where
  "users_in order a = List.map_filter (au_users a) order"

definition from_bytes :: "byte list \<Rightarrow> string" where
  "from_bytes bs = map (\<lambda>b. char_of (unat b)) bs"

definition validateBasicAuth :: "auth_lib \<Rightarrow> string list \<Rightarrow> (nat \<Rightarrow> gotime) \<Rightarrow> string \<Rightarrow> AuthHandler \<Rightarrow> AuthHandler \<times> User result" where
  "validateBasicAuth L order clk encoded a =
     (case StdEncoding_DecodeString encoded of
        None \<Rightarrow> (a, Inl (Err ''invalid basic auth encoding''))
      | Some decoded \<Rightarrow>
          (case SplitN2 (from_bytes decoded) (CHR '':'') of
             (_, None) \<Rightarrow> (a, Inl (Err ''invalid basic auth format''))
           | (accessKey, Some secretKey) \<Rightarrow>
               if isBlocked (clk 0) accessKey a then (a, Inl (Err ''account temporarily locked due to too many failed attempts''))
               else case find (\<lambda>user. us_Name user = accessKey \<and> al_compare L (us_PasswordHash user) secretKey) (users_in order a) of
                      Some user \<Rightarrow> (resetFailedLogins accessKey a, Inr user)
                    | None \<Rightarrow> (recordFailedLogin (clk 1) (clk 2) (clk 3) accessKey a, Inl (Err ''invalid credentials''))))"

definition validateJWT :: "auth_lib \<Rightarrow> gotime \<Rightarrow> string \<Rightarrow> AuthHandler \<Rightarrow> User result" where
  "validateJWT L now tokenString a =
     (case al_Parse L (au_secretKey a) now tokenString of
        Inl e \<Rightarrow> Inl (Err (''failed to parse JWT: '' @ e))
      | Inr claims \<Rightarrow> Inr \<lparr>us_ID = cl_UserID claims, us_Name = cl_UserID claims, us_PasswordHash = '''', us_SecretKey = '''', us_Role = cl_Role claims,
          us_Permissions = cl_Perms claims, us_BucketPermissions = None\<rparr>)"

definition extractAWSAccessKey :: "signing \<Rightarrow> string \<Rightarrow> string" where
  "extractAWSAccessKey G auth =
     (case Index auth ''Credential='' of
        None \<Rightarrow> ''''
      | Some idx \<Rightarrow>
          let credPart = drop (idx + 11) auth;
              credPart' = fst (SplitN2 credPart (CHR '',''))
          in TrimSpace G (hd (Split1 credPart' (CHR ''/''))))"

definition matched_user :: "string list \<Rightarrow> string \<Rightarrow> AuthHandler \<Rightarrow> User option" where
  "matched_user order accessKey a = find (\<lambda>user. us_Name user = accessKey) (users_in order a)"

definition validateAWSSignature :: "signing \<Rightarrow> string list \<Rightarrow> (nat \<Rightarrow> gotime) \<Rightarrow> http_request \<Rightarrow> AuthHandler \<Rightarrow> User result" where
  "validateAWSSignature G order clk r a =
     (let authorization = Header_Get r ''Authorization''
      in if authorization \<noteq> '''' then
           if \<not> HasPrefix authorization ''AWS4-HMAC-SHA256'' then Inl (Err ''invalid AWS signature version'')
           else let accessKey = extractAWSAccessKey G authorization
                in if accessKey = '''' then Inl (Err ''missing access key in AWS signature'')
                   else case matched_user order accessKey a of
                          None \<Rightarrow> Inl (Err ''invalid AWS credentials'')
                        | Some user \<Rightarrow>
                            if us_SecretKey user = '''' then Inl (Err ''user has no secret key configured for SigV4 signing'')
                            else case verifySigV4Header G (clk 0) r (us_SecretKey user) of
                                   Inl _ \<Rightarrow> Inl (Err ''AWS signature verification failed'')
                                 | Inr _ \<Rightarrow> Inr user
         else let credential = Query_Get (URL_Query r) ''X-Amz-Credential''; accessKey = hd (Split1 credential (CHR ''/''))
              in if credential = '''' \<or> accessKey = '''' then Inl (Err ''missing authorization header or presigned URL parameters'')
                 else case matched_user order accessKey a of
                        None \<Rightarrow> Inl (Err ''invalid AWS credentials'')
                      | Some user \<Rightarrow>
                          if us_SecretKey user = '''' then Inl (Err ''user has no secret key configured for SigV4 signing'')
                          else case verifySigV4PresignedURL G (clk 0) (clk 1) r (us_SecretKey user) of
                                 Inl _ \<Rightarrow> Inl (Err ''presigned URL signature verification failed'')
                               | Inr _ \<Rightarrow> Inr user)"

definition Authenticate :: "std \<Rightarrow> auth_lib \<Rightarrow> signing \<Rightarrow> string list \<Rightarrow> (nat \<Rightarrow> gotime) \<Rightarrow> http_request \<Rightarrow> AuthHandler \<Rightarrow> AuthHandler \<times> User result" where
  "Authenticate S L G order clk r a =
     (let authHeader = Header_Get r ''Authorization''
      in if authHeader = '''' then
           (a, if ac_RequireAuth (au_config a) then Inl (Err ''authentication required'') else Inr (anonymous_user [''read'', ''write'', ''delete'']))
         else case SplitN2 authHeader (CHR '' '') of
                (_, None) \<Rightarrow> (a, Inl (Err ''invalid authorization header format''))
              | (authType, Some value) \<Rightarrow>
                  if lower S authType = ''basic'' then validateBasicAuth L order clk value a
                  else if lower S authType = ''bearer'' then (a, validateJWT L (clk 0) value a)
                  else if lower S authType = ''aws4-hmac-sha256'' then (a, validateAWSSignature G order clk r a)
                  else (a, Inl (Err (''unsupported authorization type: '' @ authType))))"

definition GetUserID :: "std \<Rightarrow> auth_lib \<Rightarrow> signing \<Rightarrow> string list \<Rightarrow> (nat \<Rightarrow> gotime) \<Rightarrow> http_request \<Rightarrow> AuthHandler \<Rightarrow> AuthHandler \<times> string" where
  "GetUserID S L G order clk r a =
     (case Authenticate S L G order clk r a of (a', Inl _) \<Rightarrow> (a', ''anonymous'') | (a', Inr user) \<Rightarrow> (a', us_ID user))"

section \<open>Tokens\<close>

text \<open>\<^verbatim>\<open>jwt.NewNumericDate\<close> truncates to seconds.\<close>

definition NewNumericDate :: "gotime \<Rightarrow> gotime" where
  "NewNumericDate t = t - t mod 1000000000"

definition GenerateTokenWithExpiry :: "auth_lib \<Rightarrow> gotime \<Rightarrow> gotime \<Rightarrow> string \<Rightarrow> int \<Rightarrow> AuthHandler \<Rightarrow> string result" where
  "GenerateTokenWithExpiry L now now' userID expiry a =
     (let (role, perms) = (case au_users a userID of Some user \<Rightarrow> (us_Role user, us_Permissions user) | None \<Rightarrow> (''user'', [''read'', ''write'']))
      in case al_Sign L (au_secretKey a) \<lparr>cl_UserID = userID, cl_Role = role, cl_Perms = perms, cl_ExpiresAt = NewNumericDate (now + expiry),
                cl_IssuedAt = NewNumericDate now', cl_Issuer = ''cipherlake''\<rparr> of
           Inl e \<Rightarrow> Inl (Err e)
         | Inr token \<Rightarrow> Inr token)"

definition GenerateToken :: "auth_lib \<Rightarrow> gotime \<Rightarrow> gotime \<Rightarrow> string \<Rightarrow> AuthHandler \<Rightarrow> string result" where
  "GenerateToken L now now' userID a = GenerateTokenWithExpiry L now now' userID (ac_TokenExpiry (au_config a)) a"

definition GenerateRefreshToken :: "auth_lib \<Rightarrow> gotime \<Rightarrow> gotime \<Rightarrow> string \<Rightarrow> AuthHandler \<Rightarrow> string result" where
  "GenerateRefreshToken L now now' userID a = GenerateTokenWithExpiry L now now' userID (ac_RefreshExpiry (au_config a)) a"

definition RefreshToken :: "auth_lib \<Rightarrow> gotime \<Rightarrow> gotime \<Rightarrow> gotime \<Rightarrow> string \<Rightarrow> AuthHandler \<Rightarrow> string result" where
  "RefreshToken L now now' now'' refreshToken a =
     (case al_Parse L (au_secretKey a) now refreshToken of
        Inl e \<Rightarrow> Inl (Err (''invalid refresh token: '' @ e))
      | Inr claims \<Rightarrow> GenerateToken L now' now'' (cl_UserID claims) a)"

section \<open>Users\<close>

datatype save_io = SaveOk | MarshalFails string | MkdirFails string | WriteFails string | RenameFails string

definition saveUsersLocked :: "save_io \<Rightarrow> AuthHandler \<Rightarrow> AuthHandler \<times> unit result" where
  "saveUsersLocked io a =
     (if au_userStorePath a = '''' then (a, Inr ())
      else case io of
             SaveOk \<Rightarrow> (a\<lparr>au_file := Some (au_users a)\<rparr>, Inr ())
           | MarshalFails e \<Rightarrow> (a, Inl (Err (''failed to marshal users: '' @ e)))
           | MkdirFails e \<Rightarrow> (a, Inl (Err (''failed to create user store directory: '' @ e)))
           | WriteFails e \<Rightarrow> (a, Inl (Err (''failed to write user store: '' @ e)))
           | RenameFails e \<Rightarrow> (a, Inl (Err e)))"

text \<open>A failing random source ends the process.\<close>

definition generateSecretKey :: "byte list option \<Rightarrow> string result" where
  "generateSecretKey rnd = (case rnd of None \<Rightarrow> Inl (Panic ''crypto/rand.Read failed: unable to generate secret key'') | Some b \<Rightarrow> Inr (EncodeToString b))"

definition AddUser :: "auth_lib \<Rightarrow> save_io \<Rightarrow> byte list \<Rightarrow> byte list option \<Rightarrow> string \<Rightarrow> string \<Rightarrow> string \<Rightarrow> string \<Rightarrow> string \<Rightarrow> string list \<Rightarrow>
    (string \<rightharpoonup> string list) option \<Rightarrow> AuthHandler \<Rightarrow> AuthHandler \<times> unit result" where
  "AddUser L io salt rnd i name password secretKey role permissions bucketPermissions a =
     (case al_hash L salt password of
        Inl e \<Rightarrow> (a, Inl (Err (''failed to hash password: '' @ e)))
      | Inr hashedPassword \<Rightarrow>
          (case (if secretKey = '''' then generateSecretKey rnd else Inr secretKey) of
             Inl e \<Rightarrow> (a, Inl e)
           | Inr secretKey' \<Rightarrow>
               if au_users a name \<noteq> None then (a, Inl (Err (''user '' @ name @ '' already exists'')))
               else saveUsersLocked io (a\<lparr>au_users := (au_users a)(name \<mapsto> \<lparr>us_ID = i, us_Name = name, us_PasswordHash = hashedPassword, us_SecretKey = secretKey',
                      us_Role = role, us_Permissions = permissions, us_BucketPermissions = bucketPermissions\<rparr>)\<rparr>)))"

definition RemoveUser :: "save_io \<Rightarrow> string \<Rightarrow> AuthHandler \<Rightarrow> AuthHandler \<times> unit result" where
  "RemoveUser io name a =
     (if name = ''admin'' then (a, Inl (Err ''cannot remove admin user''))
      else if au_users a name = None then (a, Inl (Err (''user '' @ name @ '' not found'')))
      else saveUsersLocked io (a\<lparr>au_users := (au_users a)(name := None)\<rparr>))"

definition UpdateUser :: "save_io \<Rightarrow> string \<Rightarrow> string \<Rightarrow> string list option \<Rightarrow> (string \<rightharpoonup> string list) option \<Rightarrow> AuthHandler \<Rightarrow> AuthHandler \<times> unit result" where
  "UpdateUser io name role permissions bucketPermissions a =
     (case au_users a name of
        None \<Rightarrow> (a, Inl (Err (''user '' @ name @ '' not found'')))
      | Some user \<Rightarrow>
          let u1 = (if role \<noteq> '''' then user\<lparr>us_Role := role\<rparr> else user);
              u2 = (case permissions of Some p \<Rightarrow> u1\<lparr>us_Permissions := p\<rparr> | None \<Rightarrow> u1);
              u3 = (case bucketPermissions of Some p \<Rightarrow> u2\<lparr>us_BucketPermissions := Some p\<rparr> | None \<Rightarrow> u2)
          in saveUsersLocked io (a\<lparr>au_users := (au_users a)(name \<mapsto> u3)\<rparr>))"

definition ChangePassword :: "auth_lib \<Rightarrow> save_io \<Rightarrow> byte list \<Rightarrow> string \<Rightarrow> string \<Rightarrow> AuthHandler \<Rightarrow> AuthHandler \<times> unit result" where
  "ChangePassword L io salt name newPassword a =
     (case au_users a name of
        None \<Rightarrow> (a, Inl (Err (''user '' @ name @ '' not found'')))
      | Some user \<Rightarrow>
          (case al_hash L salt newPassword of
             Inl e \<Rightarrow> (a, Inl (Err (''failed to hash password: '' @ e)))
           | Inr hashedPassword \<Rightarrow> saveUsersLocked io (a\<lparr>au_users := (au_users a)(name \<mapsto> user\<lparr>us_PasswordHash := hashedPassword\<rparr>)\<rparr>)))"

definition public_user :: "User \<Rightarrow> User" where
  "public_user user = user\<lparr>us_PasswordHash := '''', us_SecretKey := ''''\<rparr>"

definition auth_ListUsers :: "string list \<Rightarrow> AuthHandler \<Rightarrow> User list" where
  "auth_ListUsers order a = map public_user (users_in order a)"

definition auth_GetUser :: "string \<Rightarrow> AuthHandler \<Rightarrow> User result" where
  "auth_GetUser name a = (case au_users a name of None \<Rightarrow> Inl (Err (''user '' @ name @ '' not found'')) | Some user \<Rightarrow> Inr (public_user user))"

definition SetRequireAuth :: "bool \<Rightarrow> AuthHandler \<Rightarrow> AuthHandler" where
  "SetRequireAuth require a = a\<lparr>au_config := (au_config a)\<lparr>ac_RequireAuth := require\<rparr>\<rparr>"

definition SetAnonymousRead :: "bool \<Rightarrow> AuthHandler \<Rightarrow> AuthHandler" where
  "SetAnonymousRead allow a = a\<lparr>au_config := (au_config a)\<lparr>ac_AnonymousRead := allow\<rparr>\<rparr>"

section \<open>The handlers of /admin/users\<close>

record CreateUserRequest =
  cu_ID :: string
  cu_Name :: string
  cu_Password :: string
  cu_SecretKey :: string
  cu_Role :: string
  cu_Permissions :: "string list option"
  cu_BucketPermissions :: "(string \<rightharpoonup> string list) option"

record UpdateUserRequest =
  uu_Role :: string
  uu_Permissions :: "string list option"
  uu_BucketPermissions :: "(string \<rightharpoonup> string list) option"

text \<open>
  What the surroundings give a handler: the readings of the clock, the order of the map of users, the salt and the random bytes, what becomes of the file, the
  number of nanoseconds for a new identifier, and what the body of the request decodes to.
\<close>

record admin_world =
  aw_clk :: "nat \<Rightarrow> gotime"
  aw_order :: "string list"
  aw_salt :: "byte list"
  aw_rnd :: "byte list option"
  aw_io :: save_io
  aw_nanos :: nat
  aw_create :: "CreateUserRequest option"
  aw_update :: "UpdateUserRequest option"
  aw_password :: "string option"

datatype reply_body = BText string | BUsers "User list" | BUser "User option" | BEmpty

type_synonym reply = "nat \<times> reply_body"

definition requireAdminAuth :: "std \<Rightarrow> auth_lib \<Rightarrow> signing \<Rightarrow> admin_world \<Rightarrow> http_request \<Rightarrow> AuthHandler \<Rightarrow> AuthHandler \<times> bool" where
  "requireAdminAuth S L G w r a =
     (case Authenticate S L G (aw_order w) (aw_clk w) r a of (a', res) \<Rightarrow> (a', case res of Inl _ \<Rightarrow> False | Inr user \<Rightarrow> us_Role user = ''admin''))"

definition unauthorized :: reply where "unauthorized = (401, BText ''Unauthorized: admin access required'')"
definition invalid_body :: reply where "invalid_body = (400, BText ''Invalid request body'')"
definition not_allowed :: reply where "not_allowed = (405, BText ''Method not allowed'')"

definition user_reply :: "nat \<Rightarrow> string \<Rightarrow> AuthHandler \<Rightarrow> reply" where
  "user_reply code name a = (code, BUser (case auth_GetUser name a of Inl _ \<Rightarrow> None | Inr u \<Rightarrow> Some u))"

text \<open>An error of the operation becomes a reply; a panic ends the handler.\<close>

definition reply_of :: "nat \<Rightarrow> (AuthHandler \<Rightarrow> reply) \<Rightarrow> AuthHandler \<times> unit result \<Rightarrow> AuthHandler \<times> reply result" where
  "reply_of code good x =
     (case x of
        (a, Inl (Panic m)) \<Rightarrow> (a, Inl (Panic m))
      | (a, Inl (Err m)) \<Rightarrow> (a, Inr (code, BText m))
      | (a, Inr _) \<Rightarrow> (a, Inr (good a)))"

definition create_user :: "auth_lib \<Rightarrow> admin_world \<Rightarrow> CreateUserRequest \<Rightarrow> AuthHandler \<Rightarrow> AuthHandler \<times> reply result" where
  "create_user L w req a =
     (if cu_Name req = '''' \<or> cu_Password req = '''' then (a, Inr (400, BText ''name and password are required''))
      else reply_of 409 (user_reply 201 (cu_Name req))
        (AddUser L (aw_io w) (aw_salt w) (aw_rnd w) (if cu_ID req = '''' then ''user-'' @ itoa (aw_nanos w) else cu_ID req) (cu_Name req) (cu_Password req) (cu_SecretKey req)
          (if cu_Role req = '''' then ''user'' else cu_Role req) (case cu_Permissions req of None \<Rightarrow> [''read'', ''write''] | Some p \<Rightarrow> p) (cu_BucketPermissions req) a))"

definition handleUsers :: "std \<Rightarrow> auth_lib \<Rightarrow> signing \<Rightarrow> admin_world \<Rightarrow> http_request \<Rightarrow> AuthHandler \<Rightarrow> AuthHandler \<times> reply result" where
  "handleUsers S L G w r a =
     (if rq_Method r = ''GET'' then
        (case requireAdminAuth S L G w r a of
           (a', False) \<Rightarrow> (a', Inr unauthorized)
         | (a', True) \<Rightarrow> (a', Inr (200, BUsers (auth_ListUsers (aw_order w) a'))))
      else if rq_Method r = ''POST'' then
        (case requireAdminAuth S L G w r a of
           (a', False) \<Rightarrow> (a', Inr unauthorized)
         | (a', True) \<Rightarrow> (case aw_create w of None \<Rightarrow> (a', Inr invalid_body) | Some req \<Rightarrow> create_user L w req a'))
      else (a, Inr not_allowed))"

definition change_password :: "auth_lib \<Rightarrow> admin_world \<Rightarrow> string \<Rightarrow> http_request \<Rightarrow> AuthHandler \<Rightarrow> AuthHandler \<times> reply result" where
  "change_password L w name r a =
     (if Query_Get (URL_Query r) ''action'' \<noteq> ''change-password'' then (a, Inr (400, BText ''Unknown action''))
      else case aw_password w of
             None \<Rightarrow> (a, Inr invalid_body)
           | Some password \<Rightarrow>
               if password = '''' then (a, Inr (400, BText ''password is required''))
               else reply_of 404 (\<lambda>_. (204, BEmpty)) (ChangePassword L (aw_io w) (aw_salt w) name password a))"

definition handleUserByName :: "std \<Rightarrow> auth_lib \<Rightarrow> signing \<Rightarrow> admin_world \<Rightarrow> http_request \<Rightarrow> AuthHandler \<Rightarrow> AuthHandler \<times> reply result" where
  "handleUserByName S L G w r a =
     (let name = TrimPrefix (rq_Path r) ''/admin/users/''
      in if name = '''' then (a, Inr (400, BText ''User name is required''))
         else if rq_Method r \<notin> {''GET'', ''PUT'', ''DELETE'', ''PATCH''} then (a, Inr not_allowed)
         else case requireAdminAuth S L G w r a of
           (a', False) \<Rightarrow> (a', Inr unauthorized)
         | (a', True) \<Rightarrow>
             if rq_Method r = ''GET'' then
               (a', Inr (case auth_GetUser name a' of Inl e \<Rightarrow> (404, BText (err_text e)) | Inr u \<Rightarrow> (200, BUser (Some u))))
             else if rq_Method r = ''PUT'' then
               (case aw_update w of
                  None \<Rightarrow> (a', Inr invalid_body)
                | Some req \<Rightarrow> reply_of 404 (user_reply 200 name) (UpdateUser (aw_io w) name (uu_Role req) (uu_Permissions req) (uu_BucketPermissions req) a'))
             else if rq_Method r = ''DELETE'' then reply_of 400 (\<lambda>_. (204, BEmpty)) (RemoveUser (aw_io w) name a')
             else change_password L w name r a')"

section \<open>Who changes the users\<close>

lemma validateBasicAuth_users: "au_users (fst (validateBasicAuth L order clk e a)) = au_users a"
    "au_file (fst (validateBasicAuth L order clk e a)) = au_file a" "au_config (fst (validateBasicAuth L order clk e a)) = au_config a"
  by (simp_all add: validateBasicAuth_def resetFailedLogins_def recordFailedLogin_def Let_def split: option.split prod.split)

lemma Authenticate_users: "au_users (fst (Authenticate S L G order clk r a)) = au_users a"
    "au_file (fst (Authenticate S L G order clk r a)) = au_file a" "au_config (fst (Authenticate S L G order clk r a)) = au_config a"
  by (simp_all add: Authenticate_def validateBasicAuth_users Let_def split: option.split prod.split)

lemma requireAdminAuth_users: "requireAdminAuth S L G w r a = (a', ok) \<Longrightarrow> au_users a' = au_users a \<and> au_file a' = au_file a"
  using Authenticate_users [of S L G "aw_order w" "aw_clk w" r a] by (auto simp: requireAdminAuth_def split: prod.splits)

lemma requireAdminAuth_admin: "requireAdminAuth S L G w r a = (a', True) \<Longrightarrow> \<exists>user. snd (Authenticate S L G (aw_order w) (aw_clk w) r a) = Inr user \<and> us_Role user = ''admin''"
  by (auto simp: requireAdminAuth_def split: prod.splits sum.splits)

text \<open>
  Only administrators change the users. When a request to \<^verbatim>\<open>/admin/users\<close> or below it changes the users in memory or in the file,
  the request was authenticated as a user whose role is \<^verbatim>\<open>admin\<close>.
\<close>

theorem user_changes_need_admin:
  assumes "handleUsers S L G w r a = (a', res) \<or> handleUserByName S L G w r a = (a', res)"
    and "au_users a' \<noteq> au_users a \<or> au_file a' \<noteq> au_file a"
  shows "\<exists>user. snd (Authenticate S L G (aw_order w) (aw_clk w) r a) = Inr user \<and> us_Role user = ''admin''"
proof (rule ccontr)
  assume n: "\<nexists>user. snd (Authenticate S L G (aw_order w) (aw_clk w) r a) = Inr user \<and> us_Role user = ''admin''"
  obtain b ok where b: "requireAdminAuth S L G w r a = (b, ok)" by fastforce
  then have "\<not> ok" using n requireAdminAuth_admin [of S L G w r a b] by (cases ok) auto
  with b assms requireAdminAuth_users [OF b] show False
    by (auto simp: handleUsers_def handleUserByName_def Let_def split: if_splits)
qed

section \<open>Guessing passwords\<close>

definition basic_user :: "string \<Rightarrow> (string \<times> string) option" where
  "basic_user encoded =
     (case StdEncoding_DecodeString encoded of
        None \<Rightarrow> None
      | Some d \<Rightarrow> (case SplitN2 (from_bytes d) (CHR '':'') of (_, None) \<Rightarrow> None | (k, Some p) \<Rightarrow> Some (k, p)))"

text \<open>The times at which a password for the user \<open>k\<close> was compared and found wrong, in a run of attempts one after another.\<close>

fun guesses :: "auth_lib \<Rightarrow> string list \<Rightarrow> string \<Rightarrow> AuthHandler \<Rightarrow> (gotime \<times> string) list \<Rightarrow> gotime list" where
  "guesses L order k a [] = []"
| "guesses L order k a ((t, e) # rs) =
     (case validateBasicAuth L order (\<lambda>_. t) e a of
        (a', r) \<Rightarrow> (if map_option fst (basic_user e) = Some k \<and> r = Inl (Err ''invalid credentials'') then [t] else []) @ guesses L order k a' rs)"

definition wrong_passwords :: "auth_lib \<Rightarrow> string list \<Rightarrow> string \<Rightarrow> AuthHandler \<Rightarrow> (gotime \<times> string) list \<Rightarrow> bool" where
  "wrong_passwords L order k a rs \<longleftrightarrow>
     (\<forall>(t, e) \<in> set rs. \<forall>p. basic_user e = Some (k, p) \<longrightarrow> (\<forall>u \<in> set (users_in order a). us_Name u = k \<longrightarrow> \<not> al_compare L (us_PasswordHash u) p))"

definition tracker_of :: "string \<Rightarrow> AuthHandler \<Rightarrow> failedLoginTracker" where
  "tracker_of k a = (case au_failedLogins a k of Some t \<Rightarrow> t | None \<Rightarrow> \<lparr>ft_count = 0, ft_firstFail = 0, ft_blockedUntil = 0\<rparr>)"

lemma other_user_step:
  "map_option fst (basic_user e) \<noteq> Some k \<Longrightarrow> validateBasicAuth L order clk e a = (a', r) \<Longrightarrow> tracker_of k a' = tracker_of k a"
  by (auto simp: validateBasicAuth_def basic_user_def tracker_of_def resetFailedLogins_def recordFailedLogin_def Let_def split: option.splits prod.splits if_splits)

lemma wrong_guess_step:
  assumes "basic_user e = Some (k, p)" "\<forall>u \<in> set (users_in order a). us_Name u = k \<longrightarrow> \<not> al_compare L (us_PasswordHash u) p" "t \<ge> 0"
  shows "validateBasicAuth L order (\<lambda>_. t) e a =
    (if t < ft_blockedUntil (tracker_of k a) then (a, Inl (Err ''account temporarily locked due to too many failed attempts''))
     else (a\<lparr>au_failedLogins := (au_failedLogins a)(k \<mapsto> count_failure t t t (tracker_of k a))\<rparr>, Inl (Err ''invalid credentials'')))"
proof -
  have "find (\<lambda>user. us_Name user = k \<and> al_compare L (us_PasswordHash user) p) (users_in order a) = None" using assms(2) by (auto simp: find_None_iff)
  moreover have "isBlocked t k a \<longleftrightarrow> t < ft_blockedUntil (tracker_of k a)" using assms(3) by (simp add: isBlocked_def tracker_of_def split: option.split)
  ultimately show ?thesis
    using assms(1) by (auto simp: validateBasicAuth_def basic_user_def recordFailedLogin_def tracker_of_def split: option.splits prod.splits)
qed

text \<open>
  What is known of the wrong guesses \<open>F\<close> so far, \<open>tr\<close> being the tracker: its first failure is one of them, at most as many as it counts came since then,
  at most three in the quarter of an hour before, and once five are counted all are a quarter of an hour before the end of the lock.
\<close>

definition among :: "gotime \<Rightarrow> gotime \<Rightarrow> gotime list \<Rightarrow> nat" where
  "among lo hi F = length (filter (\<lambda>f. lo \<le> f \<and> f < hi) F)"

definition guess_inv :: "failedLoginTracker \<Rightarrow> gotime list \<Rightarrow> bool" where
  "guess_inv tr F \<longleftrightarrow>
     (if F = [] then tr = \<lparr>ft_count = 0, ft_firstFail = 0, ft_blockedUntil = 0\<rparr>
      else ft_firstFail tr \<in> set F \<and> (\<forall>f \<in> set F. f \<le> ft_firstFail tr + fifteen_minutes) \<and>
        int (length (filter (\<lambda>f. ft_firstFail tr \<le> f) F)) \<le> ft_count tr \<and>
        among (ft_firstFail tr - fifteen_minutes + 1) (ft_firstFail tr) F \<le> 3 \<and>
        (ft_count tr \<ge> 5 \<longrightarrow> (\<forall>f \<in> set F. f + fifteen_minutes \<le> ft_blockedUntil tr)) \<and>
        (\<forall>w. among w (w + fifteen_minutes) F \<le> 8))"

lemma long_ago: "0 \<le> t \<Longrightarrow> 0 \<le> s \<Longrightarrow> time_Sub t s > fifteen_minutes \<longleftrightarrow> t - s > fifteen_minutes"
  by (auto simp: time_Sub_def fifteen_minutes_def)

lemma among_Cons: "among lo hi (t # F) = (if lo \<le> t \<and> t < hi then 1 else 0) + among lo hi F"
  by (simp add: among_def)

lemma among_none: "\<forall>f \<in> set F. f < lo \<Longrightarrow> among lo hi F = 0"
  by (auto simp: among_def filter_empty_conv)

lemma among_sub: "(\<And>f. f \<in> set F \<Longrightarrow> lo \<le> f \<Longrightarrow> f < hi \<Longrightarrow> lo' \<le> f \<and> f < hi') \<Longrightarrow> among lo hi F \<le> among lo' hi' F"
  unfolding among_def by (induction F) auto

lemma among_filter: "(\<And>f. f \<in> set F \<Longrightarrow> lo \<le> f \<Longrightarrow> f < hi \<Longrightarrow> P f) \<Longrightarrow> among lo hi F \<le> length (filter P F)"
  unfolding among_def by (induction F) auto

lemma among_split: "among lo hi F \<le> among lo m F + length (filter (\<lambda>f. m \<le> f) F)"
  unfolding among_def by (induction F) auto

lemma after_first: "(s :: int) \<in> set F \<Longrightarrow> length (filter (\<lambda>f. s < f) F) < length (filter (\<lambda>f. s \<le> f) F)"
proof (induction F)
  case (Cons x F)
  have "length (filter (\<lambda>f. s < f) F) \<le> length (filter (\<lambda>f. s \<le> f) F)" by (induction F) auto
  with Cons show ?case by auto
qed simp

text \<open>A guess in a new round, or in the round that is counted.\<close>

lemma guess_new_round:
  assumes "guess_inv tr F" "F \<noteq> []" "ft_blockedUntil tr \<le> t" "t - ft_firstFail tr > fifteen_minutes"
  shows "among (t - fifteen_minutes + 1) (t + 1) F \<le> 3"
proof (cases "ft_count tr \<ge> 5")
  case True
  then show ?thesis using assms by (subst among_none) (auto simp: guess_inv_def)
next
  case False
  have "among (t - fifteen_minutes + 1) (t + 1) F \<le> length (filter (\<lambda>f. ft_firstFail tr < f) F)" using assms(4) by (intro among_filter) auto
  also have "\<dots> \<le> 3" using False after_first [of "ft_firstFail tr" F] assms(1,2) by (auto simp: guess_inv_def)
  finally show ?thesis .
qed

lemma guess_same_round:
  assumes "guess_inv tr F" "F \<noteq> []" "ft_blockedUntil tr \<le> t" "t - ft_firstFail tr \<le> fifteen_minutes" "\<forall>f \<in> set F. f \<le> t"
  shows "among (t - fifteen_minutes + 1) (t + 1) F \<le> 7"
proof (cases "ft_count tr \<ge> 5")
  case True
  then show ?thesis using assms by (subst among_none) (auto simp: guess_inv_def)
next
  case False
  let ?s = "ft_firstFail tr"
  have "among (t - fifteen_minutes + 1) (t + 1) F \<le> among (t - fifteen_minutes + 1) ?s F + length (filter (\<lambda>f. ?s \<le> f) F)" by (rule among_split)
  moreover have "among (t - fifteen_minutes + 1) ?s F \<le> among (?s - fifteen_minutes + 1) ?s F" using assms(1,2,5) by (intro among_sub) (auto simp: guess_inv_def)
  moreover have "among (?s - fifteen_minutes + 1) ?s F \<le> 3" "length (filter (\<lambda>f. ?s \<le> f) F) \<le> 4" using False assms(1,2) by (auto simp: guess_inv_def)
  ultimately show ?thesis by linarith
qed

lemma window_after:
  assumes "among (t - fifteen_minutes + 1) (t + 1) F \<le> 7" "\<forall>f \<in> set F. f \<le> t" "\<forall>w. among w (w + fifteen_minutes) F \<le> 8"
  shows "among w (w + fifteen_minutes) (t # F) \<le> 8"
proof (cases "w \<le> t \<and> t < w + fifteen_minutes")
  case True
  then have "among w (w + fifteen_minutes) F \<le> among (t - fifteen_minutes + 1) (t + 1) F" using assms(2) by (intro among_sub) auto
  with True assms(1) show ?thesis by (simp add: among_Cons)
qed (use assms(3) in \<open>auto simp: among_Cons\<close>)

lemma guess_inv_step:
  assumes inv: "guess_inv tr F" and t: "ft_blockedUntil tr \<le> t" "\<forall>f \<in> set F. 0 \<le> f \<and> f \<le> t" "t > fifteen_minutes"
  shows "guess_inv (count_failure t t t tr) (t # F)"
proof (cases "F = []")
  case True
  then show ?thesis using inv t(3) long_ago [of t 0] by (auto simp: guess_inv_def count_failure_def among_def fifteen_minutes_def)
next
  case False
  have s: "0 \<le> ft_firstFail tr" "\<forall>f \<in> set F. f \<le> t" using inv False t(2) by (auto simp: guess_inv_def)
  note old = long_ago [of t "ft_firstFail tr"]
  have w: "\<forall>w. among w (w + fifteen_minutes) F \<le> 8" using inv False by (simp add: guess_inv_def)
  show ?thesis
  proof (cases "t - ft_firstFail tr > fifteen_minutes")
    case True
    have tr': "count_failure t t t tr = tr\<lparr>ft_count := 1, ft_firstFail := t\<rparr>" using True old s(1) t(3) by (simp add: count_failure_def fifteen_minutes_def)
    have three: "among (t - fifteen_minutes + 1) (t + 1) F \<le> 3" by (rule guess_new_round [OF inv False t(1) True])
    have "among (t - fifteen_minutes + 1) t F \<le> among (t - fifteen_minutes + 1) (t + 1) F" by (rule among_sub) auto
    moreover have "filter (\<lambda>f. t \<le> f) F = []" using inv False True by (auto simp: guess_inv_def filter_empty_conv)
    ultimately show ?thesis using three window_after [OF _ s(2) w] s(2) by (auto simp: tr' guess_inv_def among_Cons fifteen_minutes_def)
  next
    case same: False
    let ?tr = "count_failure t t t tr"
    have tr': "ft_firstFail ?tr = ft_firstFail tr" "ft_count ?tr = ft_count tr + 1" "ft_count tr + 1 \<ge> 5 \<Longrightarrow> ft_blockedUntil ?tr = t + fifteen_minutes"
      using same old s(1) t(3) by (simp_all add: count_failure_def fifteen_minutes_def Let_def)
    have seven: "among (t - fifteen_minutes + 1) (t + 1) F \<le> 7" using same by (intro guess_same_round [OF inv False t(1) _ s(2)]) simp
    have "ft_firstFail tr \<le> t" using inv False t(2) by (auto simp: guess_inv_def)
    then show ?thesis using window_after [OF seven s(2) w] inv False same s(2) by (auto simp: guess_inv_def tr' among_Cons)
  qed
qed

lemma guesses_bounded:
  assumes "guess_inv (tracker_of k a) F" "\<forall>f \<in> set F. 0 \<le> f" "sorted (map fst rs)" "\<forall>(t, e) \<in> set rs. t > fifteen_minutes \<and> (\<forall>f \<in> set F. f \<le> t)"
    and "wrong_passwords L order k a rs"
  shows "\<exists>tr. guess_inv tr (rev (guesses L order k a rs) @ F)"
  using assms
proof (induction rs arbitrary: a F)
  case (Cons x rs)
  obtain t e where x: "x = (t, e)" by fastforce
  obtain a' r where v: "validateBasicAuth L order (\<lambda>_. t) e a = (a', r)" by fastforce
  have t: "t > fifteen_minutes" "\<forall>f \<in> set F. f \<le> t" "sorted (map fst rs)" "\<forall>(t', e) \<in> set rs. t \<le> t'" using Cons.prems(3,4) by (auto simp: x)
  have "users_in order a' = users_in order a" using validateBasicAuth_users(1) [of L order "\<lambda>_. t" e a] v by (simp add: users_in_def)
  then have w: "wrong_passwords L order k a' rs" using Cons.prems(5) by (auto simp: wrong_passwords_def x)
  have later: "\<forall>(t', e) \<in> set rs. t' > fifteen_minutes \<and> (\<forall>f \<in> set (t # F). f \<le> t')" using t Cons.prems(4) by (fastforce simp: x)
  then have earlier: "\<forall>(t', e) \<in> set rs. t' > fifteen_minutes \<and> (\<forall>f \<in> set F. f \<le> t')" by fastforce
  show ?case
  proof (cases "map_option fst (basic_user e) = Some k")
    case True
    then obtain p where p: "basic_user e = Some (k, p)" by auto
    then have wrong: "\<forall>u \<in> set (users_in order a). us_Name u = k \<longrightarrow> \<not> al_compare L (us_PasswordHash u) p" using Cons.prems(5) by (auto simp: wrong_passwords_def x)
    have "t \<ge> 0" using t(1) by (simp add: fifteen_minutes_def)
    note g = wrong_guess_step [OF p wrong this]
    show ?thesis
    proof (cases "t < ft_blockedUntil (tracker_of k a)")
      case blocked: True
      with g v have "a' = a" "r \<noteq> Inl (Err ''invalid credentials'')" by auto
      then show ?thesis using Cons.IH [OF Cons.prems(1,2) t(3) earlier] w v by (simp add: x)
    next
      case False
      with g v have r: "r = Inl (Err ''invalid credentials'')" "tracker_of k a' = count_failure t t t (tracker_of k a)" by (auto simp: tracker_of_def)
      have "guess_inv (tracker_of k a') (t # F)" unfolding r(2) using False t(1,2) Cons.prems(2) by (intro guess_inv_step [OF Cons.prems(1)]) auto
      then show ?thesis using Cons.IH [of a' "t # F"] Cons.prems(2) t(1,3) later w v True r(1) by (simp add: x fifteen_minutes_def)
    qed
  next
    case False
    have "guess_inv (tracker_of k a') F" using other_user_step [OF False v] Cons.prems(1) by simp
    then show ?thesis using Cons.IH [OF _ Cons.prems(2) t(3) earlier w] v False by (auto simp: x)
  qed
qed auto

text \<open>
  C14. Guessing is slow. However many wrong passwords for a user are tried one after another, and whatever is tried for other users in between, within
  any quarter of an hour at most eight of them are compared with the stored hash; the rest are refused unseen.
\<close>

theorem password_guesses_bounded:
  assumes "au_failedLogins a k = None" "sorted (map fst rs)" "\<forall>(t, e) \<in> set rs. t > fifteen_minutes" "wrong_passwords L order k a rs"
  shows "length (filter (\<lambda>t. w \<le> t \<and> t < w + fifteen_minutes) (guesses L order k a rs)) \<le> 8"
proof -
  have "guess_inv (tracker_of k a) []" using assms(1) by (simp add: guess_inv_def tracker_of_def)
  then obtain tr where "guess_inv tr (rev (guesses L order k a rs) @ [])" using guesses_bounded [OF _ _ assms(2) _ assms(4)] assms(3) by fastforce
  then have "among w (w + fifteen_minutes) (rev (guesses L order k a rs)) \<le> 8" by (auto simp: guess_inv_def among_def split: if_splits)
  then show ?thesis by (simp add: among_def rev_filter [symmetric])
qed

section \<open>The users in memory and in the file\<close>

text \<open>Every user is stored under its name, and the administrator is among them.\<close>

definition users_ok :: "(string \<rightharpoonup> User) \<Rightarrow> bool" where
  "users_ok m \<longleftrightarrow> m ''admin'' \<noteq> None \<and> (\<forall>k u. m k = Some u \<longrightarrow> us_Name u = k)"

definition auth_ok :: "AuthHandler \<Rightarrow> bool" where
  "auth_ok a \<longleftrightarrow> users_ok (au_users a) \<and> (\<forall>m. au_file a = Some m \<longrightarrow> users_ok m)"

inductive auth_step :: "std \<Rightarrow> auth_lib \<Rightarrow> signing \<Rightarrow> AuthHandler \<Rightarrow> AuthHandler \<Rightarrow> bool" for S L G where
  step_login: "auth_step S L G a (fst (Authenticate S L G order clk r a))"
| step_users: "auth_step S L G a (fst (handleUsers S L G w r a))"
| step_user: "auth_step S L G a (fst (handleUserByName S L G w r a))"
| step_require: "auth_step S L G a (SetRequireAuth b a)"
| step_anonymous: "auth_step S L G a (SetAnonymousRead b a)"
| step_restart: "NewAuthHandlerWithConfig L env sb pb salt in_dir (\<lambda>_. au_file a) cfg = Some a' \<Longrightarrow> auth_step S L G a a'"

lemma save_ok: "auth_ok a \<Longrightarrow> auth_ok (fst (saveUsersLocked io a))"
  by (simp add: saveUsersLocked_def auth_ok_def split: save_io.split)

lemma auth_ok_upd: "auth_ok a \<Longrightarrow> us_Name u = name \<Longrightarrow> auth_ok (a\<lparr>au_users := (au_users a)(name \<mapsto> u)\<rparr>)"
  by (auto simp: auth_ok_def users_ok_def)

lemma user_operations_ok:
  assumes "auth_ok a"
  shows "auth_ok (fst (AddUser L io salt rnd i name pw sk role ps bps a))" "auth_ok (fst (RemoveUser io name a))" "auth_ok (fst (UpdateUser io name role' ps' bps a))"
    "auth_ok (fst (ChangePassword L io salt name pw a))"
proof -
  have n: "au_users a name = Some u \<Longrightarrow> us_Name u = name" for u using assms by (simp add: auth_ok_def users_ok_def)
  show "auth_ok (fst (AddUser L io salt rnd i name pw sk role ps bps a))"
    using assms by (auto simp: AddUser_def intro!: save_ok auth_ok_upd split: sum.split)
  have "auth_ok (a\<lparr>au_users := (au_users a)(name := None)\<rparr>)" if "name \<noteq> ''admin''" using assms that by (auto simp: auth_ok_def users_ok_def)
  then show "auth_ok (fst (RemoveUser io name a))" using assms by (auto simp: RemoveUser_def intro: save_ok)
  show "auth_ok (fst (UpdateUser io name role' ps' bps a))"
    using assms n by (auto simp: UpdateUser_def Let_def intro!: save_ok auth_ok_upd split: option.split)
  show "auth_ok (fst (ChangePassword L io salt name pw a))"
    using assms n by (auto simp: ChangePassword_def intro!: save_ok auth_ok_upd split: option.split sum.split)
qed

lemma reply_of_fst [simp]: "fst (reply_of code good x) = fst x"
  by (auto simp: reply_of_def split: prod.split sum.split go_err.split)

lemma requireAdminAuth_ok: "auth_ok a \<Longrightarrow> auth_ok (fst (requireAdminAuth S L G w r a))"
  using requireAdminAuth_users [of S L G w r a] by (cases "requireAdminAuth S L G w r a") (simp add: auth_ok_def)

lemma handlers_ok:
  assumes "auth_ok a"
  shows "auth_ok (fst (handleUsers S L G w r a))" "auth_ok (fst (handleUserByName S L G w r a))"
proof -
  obtain b ok where b: "requireAdminAuth S L G w r a = (b, ok)" by fastforce
  then have ok: "auth_ok b" using requireAdminAuth_ok [OF assms, of S L G w r] by simp
  show "auth_ok (fst (handleUsers S L G w r a))"
    using assms ok by (cases ok) (auto simp: handleUsers_def b create_user_def user_operations_ok split: option.split)
  show "auth_ok (fst (handleUserByName S L G w r a))"
    using assms ok by (cases ok) (auto simp: handleUserByName_def b change_password_def Let_def user_operations_ok split: option.split)
qed

lemma load_ok: "users_ok (au_users a) \<Longrightarrow> (\<forall>m. au_file a = Some m \<longrightarrow> users_ok m) \<Longrightarrow> auth_ok (loadUsers a)"
  by (auto simp: loadUsers_def auth_ok_def users_ok_def split: option.split)

lemma start_ok:
  assumes "NewAuthHandlerWithConfig L env sb pb salt in_dir disk cfg = Some a" "\<forall>p m. disk p = Some m \<longrightarrow> users_ok m"
  shows "auth_ok a"
proof -
  obtain sk pw path c where a: "a = loadUsers (fresh_handler L env sk pw salt path disk c)"
    using assms(1) by (auto simp: NewAuthHandlerWithConfig_def Let_def split: option.splits)
  show ?thesis unfolding a using assms(2) by (intro load_ok) (auto simp: fresh_handler_def users_ok_def Let_def)
qed

lemma auth_step_ok: "auth_step S L G a a' \<Longrightarrow> auth_ok a \<Longrightarrow> auth_ok a'"
proof (induction rule: auth_step.induct)
  case (step_login a order clk r)
  then show ?case using Authenticate_users [of S L G order clk r a] by (simp add: auth_ok_def)
next
  case (step_restart env sb pb salt in_dir a cfg a')
  then show ?case using start_ok [OF step_restart(1)] by (auto simp: auth_ok_def)
next
  case (step_require a b)
  then show ?case by (simp add: SetRequireAuth_def auth_ok_def)
next
  case (step_anonymous a b)
  then show ?case by (simp add: SetAnonymousRead_def auth_ok_def)
qed (rule handlers_ok, assumption)+

text \<open>
  The administrator is never lost. From a start with no file or with one that was saved before, through any logins, changes of users, failed writes
  and restarts, there is a user \<^verbatim>\<open>admin\<close> and every user is stored under its own name, so that at most one user answers to a name,
  whatever the order in which the map is visited.
\<close>

theorem admin_never_lost:
  assumes "NewAuthHandlerWithConfig L env sb pb salt in_dir (\<lambda>_. None) cfg = Some a" "(auth_step S L G)\<^sup>*\<^sup>* a a'"
  shows "au_users a' ''admin'' \<noteq> None \<and> (\<forall>m. au_file a' = Some m \<longrightarrow> m ''admin'' \<noteq> None) \<and>
    (\<forall>order key user. matched_user order key a' = Some user \<longrightarrow> au_users a' key = Some user)"
proof -
  have "auth_ok a" by (rule start_ok [OF assms(1)]) simp
  with assms(2) have ok: "auth_ok a'" by (induction rule: rtranclp_induct) (auto intro: auth_step_ok)
  have "au_users a' key = Some user" if "matched_user order key a' = Some user" for order key user
  proof -
    have "us_Name user = key" "user \<in> set (users_in order a')" using that by (auto simp: matched_user_def find_Some_iff in_set_conv_nth)
    then obtain k where "au_users a' k = Some user" by (auto simp: users_in_def map_filter_def)
    moreover from this have "us_Name user = k" using ok by (simp add: auth_ok_def users_ok_def)
    ultimately show ?thesis using \<open>us_Name user = key\<close> by simp
  qed
  then show ?thesis using ok by (auto simp: auth_ok_def users_ok_def)
qed

section \<open>Tokens\<close>

text \<open>
  What the token library documents: claims whose dates are whole seconds can be signed, and a signed token gives the claims back until it
  expires. Texts are taken to be valid UTF-8, which the encoding keeps.
\<close>

definition jwt_ok :: "auth_lib \<Rightarrow> bool" where
  "jwt_ok L \<longleftrightarrow>
     (\<forall>secret c. NewNumericDate (cl_ExpiresAt c) = cl_ExpiresAt c \<longrightarrow> NewNumericDate (cl_IssuedAt c) = cl_IssuedAt c \<longrightarrow>
        (\<exists>token. al_Sign L secret c = Inr token \<and>
        (\<forall>now. if now < cl_ExpiresAt c then al_Parse L secret now token = Inr c else \<exists>e. al_Parse L secret now token = Inl e)))"

lemma NewNumericDate_whole [simp]: "NewNumericDate (NewNumericDate t) = NewNumericDate t"
  by (simp add: NewNumericDate_def)

definition token_user :: "string \<Rightarrow> string \<Rightarrow> string list \<Rightarrow> User" where
  "token_user i role perms = \<lparr>us_ID = i, us_Name = i, us_PasswordHash = '''', us_SecretKey = '''', us_Role = role, us_Permissions = perms, us_BucketPermissions = None\<rparr>"

definition issued_as :: "string \<Rightarrow> AuthHandler \<Rightarrow> string \<times> string list" where
  "issued_as i a = (case au_users a i of Some user \<Rightarrow> (us_Role user, us_Permissions user) | None \<Rightarrow> (''user'', [''read'', ''write'']))"

lemma generated_token:
  assumes "jwt_ok L"
  shows "\<exists>token. GenerateTokenWithExpiry L now now' i d a = Inr token \<and>
    (\<forall>t. if t < NewNumericDate (now + d) then \<exists>c. al_Parse L (au_secretKey a) t token = Inr c \<and> cl_UserID c = i \<and> (cl_Role c, cl_Perms c) = issued_as i a
         else \<exists>e. al_Parse L (au_secretKey a) t token = Inl e)"
proof -
  let ?c = "\<lparr>cl_UserID = i, cl_Role = fst (issued_as i a), cl_Perms = snd (issued_as i a), cl_ExpiresAt = NewNumericDate (now + d),
     cl_IssuedAt = NewNumericDate now', cl_Issuer = ''cipherlake''\<rparr>"
  have "NewNumericDate (cl_ExpiresAt ?c) = cl_ExpiresAt ?c" "NewNumericDate (cl_IssuedAt ?c) = cl_IssuedAt ?c" by simp_all
  then obtain token where t: "al_Sign L (au_secretKey a) ?c = Inr token"
    and v: "\<forall>t. if t < cl_ExpiresAt ?c then al_Parse L (au_secretKey a) t token = Inr ?c else \<exists>e. al_Parse L (au_secretKey a) t token = Inl e"
    using assms unfolding jwt_ok_def by blast
  have "GenerateTokenWithExpiry L now now' i d a = Inr token" using t by (simp add: GenerateTokenWithExpiry_def issued_as_def split_def split: option.splits)
  then show ?thesis using v by (intro exI [of _ token]) auto
qed

lemma validate_parsed: "al_Parse L (au_secretKey a) t token = Inr c \<Longrightarrow> validateJWT L t token a = Inr (token_user (cl_UserID c) (cl_Role c) (cl_Perms c))"
  by (simp add: validateJWT_def token_user_def)

text \<open>
  C27. A token authenticates as the user it was issued for, with the role and the permissions that user had when it was issued, until it expires
  and not after, whatever happens to the user in between.
\<close>

theorem token_round_trip:
  assumes "jwt_ok L" "GenerateToken L now now' i a = Inr token" "au_secretKey a' = au_secretKey a"
  shows "if t < NewNumericDate (now + ac_TokenExpiry (au_config a))
    then validateJWT L t token a' = Inr (token_user i (fst (issued_as i a)) (snd (issued_as i a)))
    else \<exists>m. validateJWT L t token a' = Inl (Err m)"
proof -
  let ?E = "NewNumericDate (now + ac_TokenExpiry (au_config a))"
  have v: "\<forall>t. if t < ?E then \<exists>c. al_Parse L (au_secretKey a) t token = Inr c \<and> cl_UserID c = i \<and> (cl_Role c, cl_Perms c) = issued_as i a
      else \<exists>e. al_Parse L (au_secretKey a) t token = Inl e"
    using generated_token [OF assms(1), of now now' i "ac_TokenExpiry (au_config a)" a] assms(2) by (auto simp: GenerateToken_def)
  show ?thesis
  proof (cases "t < ?E")
    case True
    with v obtain c where "al_Parse L (au_secretKey a') t token = Inr c" "cl_UserID c = i" "(cl_Role c, cl_Perms c) = issued_as i a" using assms(3) by metis
    with True show ?thesis using validate_parsed [of L a' t token c] by (metis fst_conv snd_conv)
  next
    case False
    with v obtain e where "al_Parse L (au_secretKey a') t token = Inl e" using assms(3) by metis
    with False show ?thesis by (simp add: validateJWT_def)
  qed
qed

text \<open>A client that exchanges its token for a new one at each of the given times.\<close>

fun keep_refreshing :: "auth_lib \<Rightarrow> AuthHandler \<Rightarrow> string \<Rightarrow> gotime list \<Rightarrow> string result" where
  "keep_refreshing L a token [] = Inr token"
| "keep_refreshing L a token (t # ts) = (case RefreshToken L t t t token a of Inl e \<Rightarrow> Inl e | Inr token' \<Rightarrow> keep_refreshing L a token' ts)"

text \<open>
  C40. A removed user keeps access for as long as it likes. With a token that is valid when the user is removed, be it a refresh token or not, it obtains
  a token for reading and writing, and with that the next one, as long as it asks before the last one expires.
\<close>

theorem removed_user_keeps_access:
  assumes "jwt_ok L" "au_users a i = None" "al_Parse L (au_secretKey a) t token = Inr c" "cl_UserID c = i"
    and "successively (\<lambda>x y. y < NewNumericDate (x + ac_TokenExpiry (au_config a))) (t # ts)"
  shows "\<exists>token'. keep_refreshing L a token (t # ts) = Inr token' \<and>
    (\<forall>u. u < NewNumericDate (last (t # ts) + ac_TokenExpiry (au_config a)) \<longrightarrow> validateJWT L u token' a = Inr (token_user i ''user'' [''read'', ''write'']))"
  using assms(3-5)
proof (induction ts arbitrary: t token c)
  case Nil
  obtain token' where g: "GenerateTokenWithExpiry L t t i (ac_TokenExpiry (au_config a)) a = Inr token'"
    and v: "\<forall>u. if u < NewNumericDate (t + ac_TokenExpiry (au_config a)) then \<exists>c. al_Parse L (au_secretKey a) u token' = Inr c \<and> cl_UserID c = i \<and> (cl_Role c, cl_Perms c) = issued_as i a
         else \<exists>e. al_Parse L (au_secretKey a) u token' = Inl e"
    using generated_token [OF assms(1)] by blast
  have "validateJWT L u token' a = Inr (token_user i ''user'' [''read'', ''write''])" if "u < NewNumericDate (t + ac_TokenExpiry (au_config a))" for u
  proof -
    from v that obtain c where "al_Parse L (au_secretKey a) u token' = Inr c" "cl_UserID c = i" "(cl_Role c, cl_Perms c) = issued_as i a" by metis
    then show ?thesis using validate_parsed [of L a u token' c] assms(2) by (simp add: issued_as_def)
  qed
  then show ?case using Nil g by (simp add: RefreshToken_def GenerateToken_def)
next
  case (Cons t' ts)
  obtain token' where g: "GenerateTokenWithExpiry L t t i (ac_TokenExpiry (au_config a)) a = Inr token'"
    and v: "\<forall>u. if u < NewNumericDate (t + ac_TokenExpiry (au_config a)) then \<exists>c. al_Parse L (au_secretKey a) u token' = Inr c \<and> cl_UserID c = i \<and> (cl_Role c, cl_Perms c) = issued_as i a
         else \<exists>e. al_Parse L (au_secretKey a) u token' = Inl e"
    using generated_token [OF assms(1)] by blast
  have "t' < NewNumericDate (t + ac_TokenExpiry (au_config a))" using Cons.prems(3) by simp
  with v obtain c' where "al_Parse L (au_secretKey a) t' token' = Inr c'" "cl_UserID c' = i" by metis
  then show ?case using Cons.IH [of t' token' c'] Cons.prems g by (simp add: RefreshToken_def GenerateToken_def)
qed

section \<open>Witnesses\<close>

text \<open>A library whose hash of a password is the password and whose tokens are the numbers of their claims.\<close>

definition claims_number :: "Claims \<Rightarrow> nat" where
  "claims_number c = to_nat (cl_UserID c, cl_Role c, cl_Perms c, cl_ExpiresAt c, cl_IssuedAt c, cl_Issuer c)"

definition numbered_claims :: "nat \<Rightarrow> Claims" where
  "numbered_claims n = (case from_nat n of (u, r, p, e, i, s) \<Rightarrow> \<lparr>cl_UserID = u, cl_Role = r, cl_Perms = p, cl_ExpiresAt = e, cl_IssuedAt = i, cl_Issuer = s\<rparr>)"

definition demo_lib :: auth_lib where
  "demo_lib = \<lparr>al_hash = (\<lambda>_ p. Inr p), al_compare = (\<lambda>h p. h = p),
     al_Parse = (\<lambda>_ now tok. let c = numbered_claims (digits_value tok) in if now < cl_ExpiresAt c then Inr c else Inl ''token is expired''),
     al_Sign = (\<lambda>_ c. Inr (itoa (claims_number c)))\<rparr>"

lemma demo_lib_ok: "jwt_ok demo_lib"
  by (simp add: jwt_ok_def demo_lib_def numbered_claims_def claims_number_def Let_def)

definition demo_auth :: AuthHandler where
  "demo_auth = the (NewAuthHandlerWithConfig demo_lib (\<lambda>v. if v = ''CIPHERLAKE_ADMIN_PASSWORD'' then ''pw'' else '''') (Some [1]) None [] (\<lambda>d. d @ ''/users.json'') (\<lambda>_. None) None)"

lemma demo_auth_start: "NewAuthHandlerWithConfig demo_lib (\<lambda>v. if v = ''CIPHERLAKE_ADMIN_PASSWORD'' then ''pw'' else '''') (Some [1]) None [] (\<lambda>d. d @ ''/users.json'') (\<lambda>_. None) None = Some demo_auth"
  by (simp add: demo_auth_def NewAuthHandlerWithConfig_def Let_def)

lemma demo_auth_state: "au_users demo_auth name = (if name = ''admin'' then Some \<lparr>us_ID = ''user-001'', us_Name = ''admin'', us_PasswordHash = ''pw'', us_SecretKey = '''', us_Role = ''admin'',
    us_Permissions = [''read'', ''write'', ''delete'', ''admin''], us_BucketPermissions = None\<rparr> else None)"
  "au_failedLogins demo_auth = (\<lambda>_. None)" "au_config demo_auth = default_config"
  by (simp_all add: demo_auth_def NewAuthHandlerWithConfig_def fresh_handler_def demo_lib_def loadUsers_def first_nonempty_def Let_def)

text \<open>Nine tries with the password \<^verbatim>\<open>no\<close>, one every second.\<close>

definition demo_tries :: "(gotime \<times> string) list" where
  "demo_tries = map (\<lambda>i. (fifteen_minutes + 1000000000 * int i, ''YWRtaW46bm8='')) [1..<10]"

lemma demo_decode: "StdEncoding_DecodeString ''YWRtaW46bm8='' = Some [97, 100, 109, 105, 110, 58, 110, 111]"
    "StdEncoding_DecodeString ''YWRtaW46cHc='' = Some [97, 100, 109, 105, 110, 58, 112, 119]"
    "from_bytes [97, 100, 109, 105, 110, 58, 110, 111] = ''admin:no''" "from_bytes [97, 100, 109, 105, 110, 58, 112, 119] = ''admin:pw''"
  by (simp add: StdEncoding_DecodeString_def b64_value_def b64_bytes_def Let_def, simp add: StdEncoding_DecodeString_def b64_value_def b64_bytes_def Let_def, code_simp, code_simp)

lemma demo_basic: "basic_user ''YWRtaW46bm8='' = Some (''admin'', ''no'')"
  by (simp add: basic_user_def demo_decode)

theorem password_guesses_bounded_witness:
  "length (filter (\<lambda>t. fifteen_minutes \<le> t \<and> t < fifteen_minutes + fifteen_minutes) (guesses demo_lib [''admin''] ''admin'' demo_auth demo_tries)) \<le> 8"
proof (rule password_guesses_bounded)
  show "sorted (map fst demo_tries)" by (simp add: demo_tries_def upt_conv_Cons)
  show "wrong_passwords demo_lib [''admin''] ''admin'' demo_auth demo_tries"
    by (auto simp: wrong_passwords_def demo_tries_def demo_basic users_in_def map_filter_simps demo_auth_state demo_lib_def)
qed (auto simp: demo_auth_state demo_tries_def)

theorem admin_never_lost_witness:
  "au_users (SetRequireAuth True demo_auth) ''admin'' \<noteq> None"
proof -
  fix S L G
  have "(auth_step S demo_lib G)\<^sup>*\<^sup>* demo_auth (SetRequireAuth True demo_auth)" by (rule r_into_rtranclp, rule step_require)
  from admin_never_lost [OF demo_auth_start this] show ?thesis by simp
qed

theorem token_round_trip_witness:
  "\<exists>token. GenerateToken demo_lib 0 0 ''admin'' demo_auth = Inr token \<and>
     validateJWT demo_lib 5 token demo_auth = Inr (token_user ''admin'' ''admin'' [''read'', ''write'', ''delete'', ''admin''])"
proof -
  obtain token where t: "GenerateToken demo_lib 0 0 ''admin'' demo_auth = Inr token" using generated_token [OF demo_lib_ok] unfolding GenerateToken_def by blast
  have "(5 :: int) < NewNumericDate (0 + ac_TokenExpiry (au_config demo_auth))" by (simp add: demo_auth_state default_config_def NewNumericDate_def)
  then show ?thesis using token_round_trip [OF demo_lib_ok t refl, of 5] t by (simp add: issued_as_def demo_auth_state)
qed

theorem removed_user_keeps_access_witness:
  "\<exists>token token'. GenerateToken demo_lib 0 0 ''bob'' demo_auth = Inr token \<and> keep_refreshing demo_lib demo_auth token [70000000000000, 140000000000000] = Inr token' \<and>
     validateJWT demo_lib 200000000000000 token' demo_auth = Inr (token_user ''bob'' ''user'' [''read'', ''write''])"
proof -
  obtain token where t: "GenerateToken demo_lib 0 0 ''bob'' demo_auth = Inr token"
    and v: "\<forall>t. if t < NewNumericDate (0 + ac_TokenExpiry (au_config demo_auth)) then \<exists>c. al_Parse demo_lib (au_secretKey demo_auth) t token = Inr c \<and> cl_UserID c = ''bob'' \<and> (cl_Role c, cl_Perms c) = issued_as ''bob'' demo_auth
         else \<exists>e. al_Parse demo_lib (au_secretKey demo_auth) t token = Inl e"
    using generated_token [OF demo_lib_ok] unfolding GenerateToken_def by blast
  have e: "ac_TokenExpiry (au_config demo_auth) = 86400000000000" by (simp add: demo_auth_state default_config_def)
  obtain c where c: "al_Parse demo_lib (au_secretKey demo_auth) 70000000000000 token = Inr c" "cl_UserID c = ''bob''"
    using spec [OF v, of 70000000000000] by (auto simp: e NewNumericDate_def)
  have "au_users demo_auth ''bob'' = None" by (simp add: demo_auth_state)
  from removed_user_keeps_access [OF demo_lib_ok this c, of "[140000000000000]"] show ?thesis using t by (auto simp: e NewNumericDate_def)
qed

text \<open>A request of the administrator that adds a user.\<close>

definition demo_world :: admin_world where
  "demo_world = \<lparr>aw_clk = (\<lambda>_. 5), aw_order = [''admin''], aw_salt = [], aw_rnd = Some [7], aw_io = SaveOk, aw_nanos = 5,
     aw_create = Some \<lparr>cu_ID = '''', cu_Name = ''bob'', cu_Password = ''x'', cu_SecretKey = '''', cu_Role = '''', cu_Permissions = None, cu_BucketPermissions = None\<rparr>,
     aw_update = None, aw_password = None\<rparr>"

definition admin_post :: http_request where
  "admin_post = \<lparr>rq_Method = ''POST'', rq_Path = ''/admin/users'', rq_RawQuery = '''', rq_Header = (\<lambda>_. [])(''Authorization'' := [''Basic YWRtaW46cHc='']), rq_Host = '''',
     rq_RemoteAddr = ''''\<rparr>"


lemma demo_admin_login:
  "Authenticate ascii_std demo_lib demo_signing [''admin''] (\<lambda>_. 5) admin_post demo_auth = (resetFailedLogins ''admin'' demo_auth, Inr (the (au_users demo_auth ''admin'')))"
proof -
  have "Header_Get admin_post ''Authorization'' = ''Basic YWRtaW46cHc=''"
  proof -
    have "CanonicalMIMEHeaderKey ''Authorization'' = ''Authorization''" by code_simp
    then show ?thesis by (simp add: Header_Get_def Header_Values_def admin_post_def)
  qed
  moreover have "lower ascii_std ''Basic'' = ''basic''" by code_simp
  ultimately show ?thesis
    by (simp add: Authenticate_def validateBasicAuth_def demo_decode isBlocked_def demo_auth_state users_in_def map_filter_simps demo_lib_def)
qed

theorem user_changes_need_admin_witness:
  "\<exists>user. snd (Authenticate ascii_std demo_lib demo_signing (aw_order demo_world) (aw_clk demo_world) admin_post demo_auth) = Inr user \<and> us_Role user = ''admin''"
proof -
  obtain a' res where h: "handleUsers ascii_std demo_lib demo_signing demo_world admin_post demo_auth = (a', res)" by fastforce
  have r: "requireAdminAuth ascii_std demo_lib demo_signing demo_world admin_post demo_auth = (resetFailedLogins ''admin'' demo_auth, True)"
    by (simp add: requireAdminAuth_def demo_world_def demo_admin_login demo_auth_state)
  have m: "rq_Method admin_post = ''POST''" by (simp add: admin_post_def)
  obtain req where c: "aw_create demo_world = Some req" "cu_Name req = ''bob''" "cu_Password req = ''x''" "cu_SecretKey req = ''''"
    and w: "aw_rnd demo_world = Some [7]" by (simp add: demo_world_def)
  have "handleUsers ascii_std demo_lib demo_signing demo_world admin_post demo_auth = create_user demo_lib demo_world req (resetFailedLogins ''admin'' demo_auth)"
    by (simp add: handleUsers_def r m c)
  then have "au_users a' ''bob'' \<noteq> None"
    using h c w by (auto simp: create_user_def AddUser_def demo_lib_def generateSecretKey_def resetFailedLogins_def demo_auth_state reply_of_def saveUsersLocked_def
        split: if_splits save_io.splits prod.splits sum.splits go_err.splits)
  then have "au_users a' \<noteq> au_users demo_auth" using demo_auth_state(1) [of "''bob''"] by auto
  with h show ?thesis by (intro user_changes_need_admin [where a' = a' and res = res]) auto
qed

end
