(* ===== verification/Gateway_IAM.thy ===== *)
theory Gateway_IAM
  imports Gateway_Auth IAM_Service
begin

text \<open>
  Access to the gateway, \<^verbatim>\<open>iam_bridge.go\<close>, \<^verbatim>\<open>auth_provider.go\<close> and the check of permissions in \<^verbatim>\<open>auth.go\<close> and \<^verbatim>\<open>s3.go\<close> of \<^verbatim>\<open>internal/gateway\<close>, over the local users of \<open>Gateway_Auth\<close>
  and the service of \<open>IAM_Service\<close>, as it is in standalone mode. A check of permissions is \<^const>\<open>None\<close> when the evaluator does not return.
\<close>

section \<open>The bridge\<close>

text \<open>What the bridge reaches: the store of the IAM service, which its evaluator shares, and the master key. The local users are an argument of its operations.\<close>

record 'db IAMAuthBridge =
  br_store :: "'db IAMStore"
  br_masterKey :: MasterKey

text \<open>The libraries and surroundings of a request: those of the local users, the database and the cipher of the IAM service, and the readings of the clock.\<close>

record 'db gateway_env =
  ge_std :: std
  ge_lib :: auth_lib
  ge_signing :: signing
  ge_bolt :: "'db bolt"
  ge_aead :: aead
  ge_order :: "string list"
  ge_clk :: "nat \<Rightarrow> gotime"

abbreviation ge_lower :: "'db gateway_env \<Rightarrow> string \<Rightarrow> string" where
  "ge_lower E \<equiv> lower (ge_std E)"

abbreviation ge_verify :: "'db gateway_env \<Rightarrow> http_request \<Rightarrow> string \<Rightarrow> unit result" where
  "ge_verify E \<equiv> verifySigV4Header (ge_signing E) (ge_clk E 0)"

abbreviation ge_verify_url :: "'db gateway_env \<Rightarrow> http_request \<Rightarrow> string \<Rightarrow> unit result" where
  "ge_verify_url E \<equiv> verifySigV4PresignedURL (ge_signing E) (ge_clk E 0) (ge_clk E 1)"

abbreviation ge_temp :: "'db gateway_env \<Rightarrow> 'db IAMAuthBridge \<Rightarrow> string \<Rightarrow> TemporaryCredential result" where
  "ge_temp E b \<equiv> GetTempCredential (ge_bolt E) (ge_clk E 4) (br_store b)"

abbreviation ge_secret :: "'db gateway_env \<Rightarrow> 'db IAMAuthBridge \<Rightarrow> AccessKey \<Rightarrow> string result" where
  "ge_secret E b ak \<equiv> DecryptSecretKey (ge_aead E) (br_masterKey b) (ak_SecretKeyEnc ak)"

definition decodeBasicAuth :: "string \<Rightarrow> (string \<times> string) result" where
  "decodeBasicAuth encoded =
     (case StdEncoding_DecodeString encoded of
        None \<Rightarrow> Inl (Err ''invalid basic auth encoding'')
      | Some decoded \<Rightarrow>
          (case SplitN2 (from_bytes decoded) (CHR '':'') of
             (_, None) \<Rightarrow> Inl (Err ''invalid basic auth format'')
           | (username, Some password) \<Rightarrow> Inr (username, password)))"

definition iamUserToLegacy :: "IAMUser \<Rightarrow> User" where
  "iamUserToLegacy iamUser =
     \<lparr>us_ID = user_ID iamUser, us_Name = user_Name iamUser, us_PasswordHash = '''', us_SecretKey = '''',
      us_Role = (if user_Name iamUser = ''admin'' then ''admin'' else ''user''),
      us_Permissions = (if ''AdministratorAccess'' \<in> set (user_AttachedPolicies iamUser) then [''read'', ''write'', ''delete'', ''admin''] else [''read'', ''write'']),
      us_BucketPermissions = None\<rparr>"

definition sts_user :: "string \<Rightarrow> User" where
  "sts_user accessKey = \<lparr>us_ID = accessKey, us_Name = ''sts:'' @ accessKey, us_PasswordHash = '''', us_SecretKey = '''', us_Role = ''user'',
     us_Permissions = [''read'', ''write'', ''delete''], us_BucketPermissions = None\<rparr>"

type_synonym who = "User \<times> IAMUser option"

definition validateBasicAuthIAM :: "'db gateway_env \<Rightarrow> string \<Rightarrow> 'db IAMAuthBridge \<Rightarrow> AuthHandler \<Rightarrow> AuthHandler \<times> who result" where
  "validateBasicAuthIAM E encoded b a =
     (case decodeBasicAuth encoded of
        Inl e \<Rightarrow> (a, Inl e)
      | Inr (accessKey, secretKey) \<Rightarrow>
          if HasPrefix accessKey AccessKeyIDPrefix then
            (a, case GetUserByAccessKeyID (ge_bolt E) (br_store b) accessKey of
                  Inl (Panic m) \<Rightarrow> Inl (Panic m)
                | Inl (Err _) \<Rightarrow> Inl (Err ''invalid credentials'')
                | Inr (iamUser, ak) \<Rightarrow>
                    (case ge_secret E b ak of
                       Inl _ \<Rightarrow> Inl (Err ''invalid credentials'')
                     | Inr secret \<Rightarrow> if secretKey = secret then Inr (iamUserToLegacy iamUser, Some iamUser) else Inl (Err ''invalid credentials'')))
          else if HasPrefix accessKey ''ASIA'' then
            (a, case ge_temp E b accessKey of
                  Inl _ \<Rightarrow> Inl (Err ''invalid credentials'')
                | Inr cred \<Rightarrow> if secretKey = cred_SecretAccessKey cred then Inr (sts_user accessKey, None) else Inl (Err ''invalid credentials''))
          else case validateBasicAuth (ge_lib E) (ge_order E) (ge_clk E) encoded a of
                 (a', Inl e) \<Rightarrow> (a', Inl e)
               | (a', Inr user) \<Rightarrow> (a', Inr (user, None)))"

definition legacy_signature :: "'db gateway_env \<Rightarrow> http_request \<Rightarrow> AuthHandler \<Rightarrow> who result" where
  "legacy_signature E r a = (case validateAWSSignature (ge_signing E) (ge_order E) (ge_clk E) r a of Inl e \<Rightarrow> Inl e | Inr user \<Rightarrow> Inr (user, None))"

definition temp_signature :: "'db gateway_env \<Rightarrow> string \<Rightarrow> string \<Rightarrow> string \<Rightarrow> 'db IAMAuthBridge \<Rightarrow> (string \<Rightarrow> unit result) \<Rightarrow> who result" where
  "temp_signature E failed sessionToken accessKey b verify =
     (case ge_temp E b accessKey of
        Inl _ \<Rightarrow> Inl (Err ''invalid temporary credentials'')
      | Inr cred \<Rightarrow>
          if sessionToken \<noteq> cred_SessionToken cred then Inl (Err ''invalid session token'')
          else case verify (cred_SecretAccessKey cred) of
                 Inl _ \<Rightarrow> Inl (Err failed)
               | Inr _ \<Rightarrow> Inr (sts_user accessKey, None))"

text \<open>What both kinds of signature do with the key of an IAM user: \<^const>\<open>None\<close> where the lookup fails and the code goes on.\<close>

definition iam_signature :: "'db gateway_env \<Rightarrow> string \<Rightarrow> string \<Rightarrow> 'db IAMAuthBridge \<Rightarrow> (string \<Rightarrow> unit result) \<Rightarrow> who result option" where
  "iam_signature E failed accessKey b verify =
     (if HasPrefix accessKey AccessKeyIDPrefix then
        (case GetUserByAccessKeyID (ge_bolt E) (br_store b) accessKey of
           Inl (Panic m) \<Rightarrow> Some (Inl (Panic m))
         | Inl (Err _) \<Rightarrow> None
         | Inr (iamUser, ak) \<Rightarrow>
             Some (case ge_secret E b ak of
                     Inl _ \<Rightarrow> Inl (Err ''failed to decrypt secret key'')
                   | Inr secret \<Rightarrow> (case verify secret of Inl _ \<Rightarrow> Inl (Err failed) | Inr _ \<Rightarrow> Inr (iamUserToLegacy iamUser, Some iamUser))))
      else None)"

definition validatePresignedURLIAM :: "'db gateway_env \<Rightarrow> http_request \<Rightarrow> 'db IAMAuthBridge \<Rightarrow> AuthHandler \<Rightarrow> who result" where
  "validatePresignedURLIAM E r b a =
     (let credential = Query_Get (URL_Query r) ''X-Amz-Credential''; accessKey = hd (Split1 credential (CHR ''/''))
      in if credential = '''' then Inl (Err ''missing authorization header or presigned URL parameters'')
         else case iam_signature E ''presigned URL signature verification failed'' accessKey b (ge_verify_url E r) of
                Some res \<Rightarrow> res
              | None \<Rightarrow>
                  if HasPrefix accessKey ''ASIA''
                  then temp_signature E ''presigned URL signature verification failed'' (Query_Get (URL_Query r) ''X-Amz-Security-Token'') accessKey b (ge_verify_url E r)
                  else legacy_signature E r a)"

definition validateAWSSignatureIAM :: "'db gateway_env \<Rightarrow> http_request \<Rightarrow> 'db IAMAuthBridge \<Rightarrow> AuthHandler \<Rightarrow> who result" where
  "validateAWSSignatureIAM E r b a =
     (let authorization = Header_Get r ''Authorization''
      in if authorization = '''' then validatePresignedURLIAM E r b a
         else if \<not> HasPrefix authorization ''AWS4-HMAC-SHA256'' then Inl (Err ''invalid AWS signature version'')
         else let accessKey = extractAWSAccessKey (ge_signing E) authorization
              in if accessKey = '''' then Inl (Err ''missing access key in AWS signature'')
                 else case iam_signature E ''AWS signature verification failed'' accessKey b (ge_verify E r) of
                        Some res \<Rightarrow> res
                      | None \<Rightarrow>
                          if HasPrefix accessKey ''ASIA''
                          then let t = Header_Get r ''X-Amz-Security-Token'';
                                   sessionToken = (if t = '''' then Query_Get (URL_Query r) ''X-Amz-Security-Token'' else t)
                               in temp_signature E ''AWS signature verification failed'' sessionToken accessKey b (ge_verify E r)
                          else legacy_signature E r a)"

definition AuthenticateWithIAM :: "'db gateway_env \<Rightarrow> http_request \<Rightarrow> 'db IAMAuthBridge \<Rightarrow> AuthHandler \<Rightarrow> AuthHandler \<times> who result" where
  "AuthenticateWithIAM E r b a =
     (let authHeader = Header_Get r ''Authorization''
      in if authHeader = '''' then
           (a, if ac_RequireAuth (au_config a) then Inl (Err ''authentication required'') else Inr (anonymous_user [''read''], None))
         else case SplitN2 authHeader (CHR '' '') of
                (_, None) \<Rightarrow> (a, Inl (Err ''invalid authorization header format''))
              | (authType, Some value) \<Rightarrow>
                  if ge_lower E authType = ''basic'' then validateBasicAuthIAM E value b a
                  else if ge_lower E authType = ''bearer'' then
                    (a, case validateJWT (ge_lib E) (ge_clk E 0) value a of Inl e \<Rightarrow> Inl e | Inr user \<Rightarrow> Inr (user, None))
                  else if ge_lower E authType = ''aws4-hmac-sha256'' then (a, validateAWSSignatureIAM E r b a)
                  else (a, Inl (Err (''unsupported authorization type: '' @ authType))))"

text \<open>\<^verbatim>\<open>strings.LastIndex(s, ":")\<close>.\<close>

definition before_last_colon :: "string \<Rightarrow> string" where
  "before_last_colon s = (if CHR '':'' \<in> set s then rev (tl (dropWhile (\<lambda>c. c \<noteq> CHR '':'') (rev s))) else s)"

definition extractClientIP :: "signing \<Rightarrow> http_request \<Rightarrow> string" where
  "extractClientIP G r =
     (let xff = Header_Get r ''X-Forwarded-For''; xri = Header_Get r ''X-Real-IP''
      in if xff \<noteq> '''' then TrimSpace G (hd (Split1 xff (CHR '','')))
         else if xri \<noteq> '''' then xri
         else before_last_colon (rq_RemoteAddr r))"

definition resource_of :: "string \<Rightarrow> string \<Rightarrow> string" where
  "resource_of bucket key = (if key \<noteq> '''' then MakeObjectARN bucket key else MakeBucketARN bucket)"

definition gateway_context :: "'db gateway_env \<Rightarrow> string \<Rightarrow> (string \<rightharpoonup> string) option \<Rightarrow> string \<Rightarrow> string \<Rightarrow> string \<Rightarrow> http_request \<Rightarrow> EvalContext" where
  "gateway_context E caller conditions action bucket key r =
     \<lparr>ctx_Principal = caller, ctx_Action = action, ctx_Resource = resource_of bucket key, ctx_Conditions = conditions,
      ctx_SourceIP = extractClientIP (ge_signing E) r, ctx_Time = ge_clk E 5, ctx_UserAgent = '''', ctx_PrincipalType = '''',
      ctx_ResourceTags = None, ctx_PrincipalTags = None, ctx_RequestTags = None, ctx_S3Prefix = '''', ctx_S3ACL = ''''\<rparr>"

definition CheckIAMAccess :: "'db gateway_env \<Rightarrow> 'db IAMAuthBridge \<Rightarrow> IAMUser option \<Rightarrow> string \<Rightarrow> string \<Rightarrow> string \<Rightarrow> http_request \<Rightarrow> unit result option" where
  "CheckIAMAccess E b iamUser action bucket key r =
     (case iamUser of
        None \<Rightarrow> Some (Inr ())
      | Some u \<Rightarrow>
          if user_Name u = ''admin'' then Some (Inr ())
          else map_option (\<lambda>result. if res_Decision result = DecisionAllow then Inr ()
                 else Inl (Err (''access denied: '' @ action @ '' on '' @ resource_of bucket key @ '' (policy: '' @ res_MatchedBy result @ '')'')))
               (Evaluate (ge_std E) (ge_bolt E) (Some (br_store b)) (gateway_context E (MakeUserARN (user_Name u)) (Some (\<lambda>_. None)) action bucket key r)))"

definition CheckTempCredentialAccess :: "'db gateway_env \<Rightarrow> 'db IAMAuthBridge \<Rightarrow> string \<Rightarrow> string \<Rightarrow> string \<Rightarrow> string \<Rightarrow> http_request \<Rightarrow> unit result option" where
  "CheckTempCredentialAccess E b accessKeyID action bucket key r =
     (case ge_temp E b accessKeyID of
        Inl _ \<Rightarrow> Some (Inl (Err ''invalid temporary credentials''))
      | Inr _ \<Rightarrow>
          map_option (\<lambda>result. if res_Decision result = DecisionAllow then Inr () else Inl (Err (''access denied: '' @ action @ '' on '' @ resource_of bucket key)))
            (Evaluate (ge_std E) (ge_bolt E) (Some (br_store b)) (gateway_context E (''sts:'' @ accessKeyID) None action bucket key r)))"

definition GetIAMUser :: "'db gateway_env \<Rightarrow> string \<Rightarrow> 'db IAMAuthBridge \<Rightarrow> IAMUser result" where
  "GetIAMUser E name b = svc_GetUser (ge_bolt E) (br_store b) name"

section \<open>The provider\<close>

record Identity =
  id_ID :: string
  id_Name :: string
  id_Role :: string
  id_Permissions :: "string list"
  id_BucketPerms :: "(string \<rightharpoonup> string list) option"
  id_IsIAM :: bool
  id_IAMUserID :: string
  id_Source :: string

definition ActionRead :: string where "ActionRead = ''read''"
definition ActionWrite :: string where "ActionWrite = ''write''"
definition ActionDelete :: string where "ActionDelete = ''delete''"
definition ActionAdmin :: string where "ActionAdmin = ''admin''"

definition anonymousIdentity :: "bool \<Rightarrow> Identity" where
  "anonymousIdentity anonymousRead =
     \<lparr>id_ID = ''anonymous'', id_Name = ''anonymous'', id_Role = ''anonymous'',
      id_Permissions = (if anonymousRead then [ActionRead, ActionWrite, ActionDelete] else [ActionRead]),
      id_BucketPerms = None, id_IsIAM = False, id_IAMUserID = '''', id_Source = ''legacy''\<rparr>"

definition isIAMAccessKey :: "string \<Rightarrow> bool" where
  "isIAMAccessKey accessKey \<longleftrightarrow> HasPrefix accessKey AccessKeyIDPrefix \<or> HasPrefix accessKey ''ASIA''"

definition containsPrefix :: "string \<Rightarrow> string \<Rightarrow> bool" where
  "containsPrefix s p \<longleftrightarrow> (\<exists>i \<in> set [0..<length s + 1 - length p]. length p \<le> length s \<and> take (length p) (drop i s) = p)"

definition containsAKIAOrASIA :: "string \<Rightarrow> bool" where
  "containsAKIAOrASIA s \<longleftrightarrow> containsPrefix s ''AKIA'' \<or> containsPrefix s ''ASIA''"

definition looksLikeIAMRequest :: "'db gateway_env \<Rightarrow> http_request \<Rightarrow> bool" where
  "looksLikeIAMRequest E r =
     (let authHeader = Header_Get r ''Authorization''
      in if authHeader \<noteq> '''' then
           (case SplitN2 authHeader (CHR '' '') of
              (_, None) \<Rightarrow> False
            | (authType, Some value) \<Rightarrow>
                if ge_lower E authType = ''aws4-hmac-sha256'' then True
                else if ge_lower E authType = ''basic'' then (case decodeBasicAuth value of Inl _ \<Rightarrow> False | Inr (username, _) \<Rightarrow> isIAMAccessKey username)
                else containsAKIAOrASIA authHeader)
         else let credential = Query_Get (URL_Query r) ''X-Amz-Credential''
              in credential \<noteq> '''' \<and> isIAMAccessKey (fst (SplitN2 credential (CHR ''/''))))"

definition toAuthIdentity :: "User \<Rightarrow> IAMUser option \<Rightarrow> Identity" where
  "toAuthIdentity u iamUser =
     (let i = \<lparr>id_ID = us_ID u, id_Name = us_Name u, id_Role = us_Role u, id_Permissions = us_Permissions u, id_BucketPerms = us_BucketPermissions u,
               id_IsIAM = False, id_IAMUserID = '''', id_Source = ''legacy''\<rparr>
      in case iamUser of
           Some iu \<Rightarrow> i\<lparr>id_IsIAM := True, id_IAMUserID := user_ID iu, id_Source := ''iam''\<rparr>
         | None \<Rightarrow> if HasPrefix (us_Name u) ''sts:'' then i\<lparr>id_IsIAM := True, id_Source := ''sts''\<rparr> else i)"

text \<open>The local check may come second; it reads the clock anew.\<close>

definition provider_legacy :: "'db gateway_env \<Rightarrow> http_request \<Rightarrow> AuthHandler \<Rightarrow> AuthHandler \<times> Identity result" where
  "provider_legacy E r a =
     (case Authenticate (ge_std E) (ge_lib E) (ge_signing E) (ge_order E) (\<lambda>n. ge_clk E (n + 10)) r a of
        (a', Inl e) \<Rightarrow> (a', if ac_RequireAuth (au_config a) then Inl e else Inr (anonymousIdentity (ac_AnonymousRead (au_config a))))
      | (a', Inr user) \<Rightarrow> (a', Inr (toAuthIdentity user None)))"

definition provider_Authenticate :: "'db gateway_env \<Rightarrow> 'db IAMAuthBridge option \<Rightarrow> http_request \<Rightarrow> AuthHandler \<Rightarrow> AuthHandler \<times> Identity result" where
  "provider_Authenticate E bridge r a =
     (case bridge of
        None \<Rightarrow> provider_legacy E r a
      | Some b \<Rightarrow>
          if looksLikeIAMRequest E r then
            (case AuthenticateWithIAM E r b a of
               (a', Inr (legacyUser, iamUser)) \<Rightarrow> (a', Inr (toAuthIdentity legacyUser iamUser))
             | (a', Inl (Panic m)) \<Rightarrow> (a', Inl (Panic m))
             | (a', Inl (Err _)) \<Rightarrow> provider_legacy E r a')
          else provider_legacy E r a)"

definition mapActionToIAM :: "string \<Rightarrow> string" where
  "mapActionToIAM action =
     (if action = ActionRead then ''s3:GetObject'' else if action = ActionWrite then ''s3:PutObject'' else if action = ActionDelete then ''s3:DeleteObject''
      else if action = ActionAdmin then ''s3:*'' else action)"

definition bucket_perms :: "(string \<rightharpoonup> string list) \<Rightarrow> string \<Rightarrow> string list" where
  "bucket_perms m bucket = (case m bucket of Some bp \<Rightarrow> bp | None \<Rightarrow> (case m ''*'' of Some bp \<Rightarrow> bp | None \<Rightarrow> []))"

definition legacy_Check :: "Identity \<Rightarrow> string \<Rightarrow> string \<Rightarrow> unit result" where
  "legacy_Check identity action bucket =
     (let bucketPerms = (if bucket \<noteq> '''' then (case id_BucketPerms identity of None \<Rightarrow> [] | Some m \<Rightarrow> bucket_perms m bucket) else [])
      in if bucketPerms \<noteq> [] then
           (if action \<in> set bucketPerms \<or> ''*'' \<in> set bucketPerms then Inr ()
            else Inl (Err (''permission denied: requires '' @ action @ '' on bucket '' @ bucket)))
         else if action \<in> set (id_Permissions identity) \<or> ''admin'' \<in> set (id_Permissions identity) then Inr ()
         else Inl (Err (''permission denied: requires '' @ action)))"

definition provider_Check :: "'db gateway_env \<Rightarrow> 'db IAMAuthBridge option \<Rightarrow> Identity \<Rightarrow> string \<Rightarrow> string \<Rightarrow> string \<Rightarrow> http_request \<Rightarrow> unit result option" where
  "provider_Check E bridge identity action bucket key r =
     (if id_Role identity = ''admin'' then Some (Inr ())
      else case (if id_IsIAM identity then bridge else None) of
             None \<Rightarrow> Some (legacy_Check identity action bucket)
           | Some b \<Rightarrow>
               (case GetIAMUser E (id_Name identity) b of
                  Inr iamUser \<Rightarrow> CheckIAMAccess E b (Some iamUser) (mapActionToIAM action) bucket key r
                | Inl _ \<Rightarrow> Some (legacy_Check identity action bucket)))"

definition requireIdentity :: "'db gateway_env \<Rightarrow> 'db IAMAuthBridge option \<Rightarrow> http_request \<Rightarrow> string \<Rightarrow> string \<Rightarrow> string \<Rightarrow> AuthHandler \<Rightarrow> (AuthHandler \<times> Identity result) option" where
  "requireIdentity E bridge r action bucket key a =
     (case provider_Authenticate E bridge r a of
        (a', Inl e) \<Rightarrow> Some (a', Inl e)
      | (a', Inr identity) \<Rightarrow>
          map_option (\<lambda>res. (a', case res of Inl e \<Rightarrow> Inl e | Inr _ \<Rightarrow> Inr identity)) (provider_Check E bridge identity action bucket key r))"

definition getUserID :: "'db gateway_env \<Rightarrow> 'db IAMAuthBridge option \<Rightarrow> http_request \<Rightarrow> AuthHandler \<Rightarrow> AuthHandler \<times> string" where
  "getUserID E bridge r a = (case provider_Authenticate E bridge r a of (a', Inl _) \<Rightarrow> (a', ''anonymous'') | (a', Inr identity) \<Rightarrow> (a', id_ID identity))"

section \<open>The check of the local users\<close>

fun lacking :: "string list \<Rightarrow> (string \<Rightarrow> bool) \<Rightarrow> string option" where
  "lacking [] has = None"
| "lacking (p # ps) has = (if has p then lacking ps has else Some p)"

definition checkBucketPermission :: "User \<Rightarrow> string \<Rightarrow> string list \<Rightarrow> User result" where
  "checkBucketPermission user bucket required =
     (let perms = bucket_perms (case us_BucketPermissions user of Some m \<Rightarrow> m | None \<Rightarrow> (\<lambda>_. None)) bucket;
          general = (\<lambda>p. p \<in> set (us_Permissions user) \<or> ''admin'' \<in> set (us_Permissions user));
          special = (\<lambda>p. p \<in> set perms \<or> ''*'' \<in> set perms)
      in if perms = [] then
           (if us_Permissions user = [] \<or> lacking required general \<noteq> None then Inl (Err (''permission denied: no access to bucket '' @ bucket)) else Inr user)
         else case lacking required special of
                Some p \<Rightarrow> Inl (Err (''permission denied: requires '' @ p @ '' on bucket '' @ bucket))
              | None \<Rightarrow> Inr user)"

definition iam_action :: "string \<Rightarrow> string" where
  "iam_action perm = (if perm = ''read'' then ''s3:GetObject'' else if perm = ''write'' then ''s3:PutObject'' else if perm = ''delete'' then ''s3:DeleteObject''
     else if perm = ''admin'' then ''s3:*'' else ''s3:'' @ perm)"

text \<open>The loop over the required permissions asks the bridge about no user, and goes on whatever the answer is. It only matters whether it ends.\<close>

fun ask_bridge :: "'db gateway_env \<Rightarrow> 'db IAMAuthBridge \<Rightarrow> string \<Rightarrow> http_request \<Rightarrow> string list \<Rightarrow> unit option" where
  "ask_bridge E b bucket r [] = Some ()"
| "ask_bridge E b bucket r (p # ps) =
     (case CheckIAMAccess E b None (iam_action p) bucket '''' r of None \<Rightarrow> None | Some (Inl _) \<Rightarrow> ask_bridge E b bucket r ps | Some (Inr _) \<Rightarrow> ask_bridge E b bucket r ps)"

definition local_permissions :: "User \<Rightarrow> string \<Rightarrow> string list \<Rightarrow> User result" where
  "local_permissions user bucket required =
     (if bucket \<noteq> '''' \<and> us_BucketPermissions user \<noteq> None then checkBucketPermission user bucket required
      else case lacking required (\<lambda>p. p \<in> set (us_Permissions user) \<or> ''admin'' \<in> set (us_Permissions user)) of
             Some p \<Rightarrow> Inl (Err (''permission denied: requires '' @ p))
           | None \<Rightarrow> Inr user)"

definition RequireAuthForBucket :: "'db gateway_env \<Rightarrow> 'db IAMAuthBridge option \<Rightarrow> http_request \<Rightarrow> string \<Rightarrow> string list \<Rightarrow> AuthHandler \<Rightarrow> (AuthHandler \<times> User result) option" where
  "RequireAuthForBucket E bridge r bucket required a =
     (case Authenticate (ge_std E) (ge_lib E) (ge_signing E) (ge_order E) (ge_clk E) r a of
        (a', Inl e) \<Rightarrow>
          Some (a',
            if \<not> ac_RequireAuth (au_config a) then Inr (anonymous_user [''read'', ''write'', ''delete''])
            else if ac_AnonymousRead (au_config a) then
              (case lacking required (\<lambda>p. p = ''read'') of
                 Some p \<Rightarrow> Inl (Err (''permission denied: requires '' @ p))
               | None \<Rightarrow> Inr (anonymous_user [''read'']))
            else Inl e)
      | (a', Inr user) \<Rightarrow>
          if us_Role user = ''admin'' then Some (a', Inr user)
          else case (case bridge of None \<Rightarrow> Some () | Some b \<Rightarrow> ask_bridge E b bucket r required) of
                 None \<Rightarrow> None
               | Some _ \<Rightarrow> Some (a', local_permissions user bucket required))"

definition RequireAuth :: "'db gateway_env \<Rightarrow> 'db IAMAuthBridge option \<Rightarrow> http_request \<Rightarrow> string list \<Rightarrow> AuthHandler \<Rightarrow> (AuthHandler \<times> User result) option" where
  "RequireAuth E bridge r required a = RequireAuthForBucket E bridge r '''' required a"

section \<open>Who is let in\<close>



lemma decode_basic: "decodeBasicAuth e = Inr x \<longleftrightarrow> basic_user e = Some x"
  by (auto simp: decodeBasicAuth_def basic_user_def split: option.splits prod.splits)





















section \<open>What is not asked\<close>

lemma Evaluate_unknown:
  assumes "GetUser B st (ctx_Principal ctx) = Inl e"
  shows "Evaluate S B (Some st) ctx =
    (let rest = evaluate_policies S B st ctx None
     in if store_scp st = None then rest
        else case evaluateSCP S (Some st) ctx of
               None \<Rightarrow> None
             | Some scpResult \<Rightarrow>
                 if res_Decision scpResult = DecisionDeny then Some (scpResult\<lparr>res_PolicyType := ''scp''\<rparr>)
                 else if res_Decision scpResult \<noteq> DecisionAllow
                 then Some \<lparr>res_Decision = DecisionDeny, res_MatchedBy = '''', res_PolicyType = ''scp'', res_PolicyName = '''',
                        res_Details = ''Denied by Service Control Policy (no Allow statement matches)''\<rparr>
                 else rest)"
  using assms by (simp add: Evaluate_def)

lemma policies_unknown:
  "evaluate_policies S B st ctx None =
     (case find_in_docs S ctx EffectDeny (resource_policies B st (ctx_Resource ctx)) of
        None \<Rightarrow> None
      | Some (Some stmt) \<Rightarrow> Some \<lparr>res_Decision = DecisionDeny, res_MatchedBy = stmt_Sid stmt, res_PolicyType = ''identity'', res_PolicyName = '''',
          res_Details = ''Explicitly denied by statement '' @ quoted (stmt_Sid stmt)\<rparr>
      | Some None \<Rightarrow>
          (case find_in_docs S ctx EffectAllow (resource_policies B st (ctx_Resource ctx)) of
             None \<Rightarrow> None
           | Some (Some stmt) \<Rightarrow> Some \<lparr>res_Decision = DecisionAllow, res_MatchedBy = stmt_Sid stmt, res_PolicyType = ''resource'', res_PolicyName = '''',
               res_Details = ''Allowed by resource policy statement '' @ quoted (stmt_Sid stmt)\<rparr>
           | Some None \<Rightarrow> Some \<lparr>res_Decision = DecisionImplicitDeny, res_MatchedBy = '''', res_PolicyType = '''', res_PolicyName = '''',
               res_Details = ''No matching Allow statement found (implicit deny)''\<rparr>))"
  by (simp add: evaluate_policies_def identity_policies_def Let_def split: option.split)

lemma resource_of_bucket:
  assumes "CHR ''/'' \<notin> set bucket"
  shows "extractBucketFromResource (resource_of bucket key) = bucket"
proof -
  have "resource_of bucket key = S3PathToResource CHR ''/'' bucket key" by (simp add: resource_of_def S3PathToResource_def ToSlash_def)
  then show ?thesis using extractBucket_object [OF assms] by simp
qed

text \<open>
  C38. The gateway asks the evaluator under the resource name of the user, and the evaluator looks users up by their plain name. In a store where no user has that
  resource name for its name, what an IAM user other than \<^verbatim>\<open>admin\<close> may do in a bucket depends on the policy of that bucket and the service control policy
  alone: two stores that agree on these decide alike, whatever policies, groups and boundary the user has in either. Where the bucket has no policy, the
  user is never admitted. The name of the bucket has no slash.
\<close>

theorem user_policies_ignored:
  assumes "CHR ''/'' \<notin> set bucket"
    and "GetBucketPolicy (ge_bolt E) (br_store b1) bucket = GetBucketPolicy (ge_bolt E) (br_store b2) bucket" "store_scp (br_store b1) = store_scp (br_store b2)"
    and "GetUser (ge_bolt E) (br_store b1) (MakeUserARN name) = Inl e1" "GetUser (ge_bolt E) (br_store b2) (MakeUserARN name) = Inl e2"
    and "user_Name u1 = name" "user_Name u2 = name" "name \<noteq> ''admin''"
  shows "CheckIAMAccess E b1 (Some u1) action bucket key r = CheckIAMAccess E b2 (Some u2) action bucket key r \<and>
    (GetBucketPolicy (ge_bolt E) (br_store b1) bucket = Inl e \<longrightarrow> CheckIAMAccess E b1 (Some u1) action bucket key r \<noteq> Some (Inr ()))"
proof -
  let ?ctx = "gateway_context E (MakeUserARN name) (Some (\<lambda>_. None)) action bucket key r"
  have p: "ctx_Principal ?ctx = MakeUserARN name" by (simp add: gateway_context_def)
  have bkt: "extractBucketFromResource (ctx_Resource ?ctx) = bucket" using resource_of_bucket [OF assms(1)] by (simp add: gateway_context_def)
  note ev = Evaluate_unknown [of "ge_bolt E" "br_store b1" ?ctx, unfolded p, OF assms(4)] Evaluate_unknown [of "ge_bolt E" "br_store b2" ?ctx, unfolded p, OF assms(5)]
  have rp: "resource_policies (ge_bolt E) (br_store b1) (ctx_Resource ?ctx) = resource_policies (ge_bolt E) (br_store b2) (ctx_Resource ?ctx)"
    by (simp add: resource_policies_def bkt assms(2) Let_def)
  have scp: "evaluateSCP (ge_std E) (Some (br_store b1)) ?ctx = evaluateSCP (ge_std E) (Some (br_store b2)) ?ctx" by (simp add: evaluateSCP_def assms(3))
  have "Evaluate (ge_std E) (ge_bolt E) (Some (br_store b1)) ?ctx = Evaluate (ge_std E) (ge_bolt E) (Some (br_store b2)) ?ctx"
    unfolding ev policies_unknown rp scp assms(3) ..
  moreover have "res_Decision res \<noteq> DecisionAllow"
    if "GetBucketPolicy (ge_bolt E) (br_store b1) bucket = Inl e" "Evaluate (ge_std E) (ge_bolt E) (Some (br_store b1)) ?ctx = Some res" for res
  proof -
    have "resource_policies (ge_bolt E) (br_store b1) (ctx_Resource ?ctx) = []" using that(1) by (simp add: resource_policies_def bkt Let_def)
    then show ?thesis using that(2) unfolding ev(1) policies_unknown by (auto simp: Let_def split: if_splits option.splits)
  qed
  ultimately show ?thesis using assms(6-8) by (auto simp: CheckIAMAccess_def split: if_splits)
qed

lemma ASIA_not_AKIA: "HasPrefix k ''ASIA'' \<Longrightarrow> \<not> HasPrefix k AccessKeyIDPrefix"
  by (auto simp: HasPrefix_def AccessKeyIDPrefix_def)

text \<open>
  C39. Temporary credentials are not restricted by any policy. Whoever knows the key and the secret of a temporary credential that has not expired
  may read, write and delete in every bucket, without the session token, whatever the policies of the role, of the buckets and of the service say, unless a user is named \<^verbatim>\<open>sts:\<close> and the key.
\<close>

theorem temporary_credentials_unrestricted:
  assumes "SplitN2 (Header_Get r ''Authorization'') (CHR '' '') = (t, Some enc)" "ge_lower E t = ''basic''" "Header_Get r ''Authorization'' \<noteq> ''''"
    and "basic_user enc = Some (k, cred_SecretAccessKey cred)" "HasPrefix k ''ASIA''" "ge_temp E b k = Inr cred"
    and "GetIAMUser E (''sts:'' @ k) b = Inl e" "action \<in> {ActionRead, ActionWrite, ActionDelete}"
  shows "requireIdentity E (Some b) r action bucket key a = Some (a, Inr (toAuthIdentity (sts_user k) None))"
proof -
  have d: "decodeBasicAuth enc = Inr (k, cred_SecretAccessKey cred)" using assms(4) by (simp add: decode_basic)
  have "looksLikeIAMRequest E r" using assms(1-3,5) d by (simp add: looksLikeIAMRequest_def isIAMAccessKey_def Let_def)
  moreover have "AuthenticateWithIAM E r b a = (a, Inr (sts_user k, None))"
    using assms(1-3,5,6) d ASIA_not_AKIA [OF assms(5)] by (simp add: AuthenticateWithIAM_def validateBasicAuthIAM_def Let_def)
  ultimately have p: "provider_Authenticate E (Some b) r a = (a, Inr (toAuthIdentity (sts_user k) None))" by (simp add: provider_Authenticate_def)
  have i: "id_Role (toAuthIdentity (sts_user k) None) = ''user''" "id_IsIAM (toAuthIdentity (sts_user k) None)" "id_Name (toAuthIdentity (sts_user k) None) = ''sts:'' @ k"
    "id_BucketPerms (toAuthIdentity (sts_user k) None) = None" "id_Permissions (toAuthIdentity (sts_user k) None) = [''read'', ''write'', ''delete'']"
    by (simp_all add: toAuthIdentity_def sts_user_def HasPrefix_def Let_def)
  have "legacy_Check (toAuthIdentity (sts_user k) None) action bucket = Inr ()"
    using assms(8) by (auto simp: legacy_Check_def i ActionRead_def ActionWrite_def ActionDelete_def Let_def)
  then have "provider_Check E (Some b) (toAuthIdentity (sts_user k) None) action bucket key r = Some (Inr ())" using assms(7) by (simp add: provider_Check_def i)
  then show ?thesis by (simp add: requireIdentity_def p)
qed

text \<open>
  Presigned URLs are never checked. A request without an \<^verbatim>\<open>Authorization\<close> header is refused where authentication is required and served as the
  anonymous user where it is not, whatever signature its query carries.
\<close>

theorem presigned_never_checked:
  assumes "Header_Get r ''Authorization'' = ''''"
  shows "provider_Authenticate E bridge r a =
    (a, if ac_RequireAuth (au_config a) then Inl (Err ''authentication required'')
        else Inr (toAuthIdentity (anonymous_user (if bridge \<noteq> None \<and> looksLikeIAMRequest E r then [''read''] else [''read'', ''write'', ''delete''])) None))"
  using assms by (simp add: provider_Authenticate_def provider_legacy_def AuthenticateWithIAM_def Authenticate_def split: option.split)

text \<open>The check of the local users asks the bridge in vain.\<close>

lemma ask_bridge_some: "ask_bridge E b bucket r ps = Some ()"
  by (induction ps) (simp_all add: CheckIAMAccess_def)

theorem bridge_asked_in_vain: "RequireAuthForBucket E bridge r bucket required a = RequireAuthForBucket E None r bucket required a"
  by (simp add: RequireAuthForBucket_def ask_bridge_some split: option.split prod.split sum.split)

text \<open>Anonymous users may write and delete where anonymous reading is allowed, and only read where it is not.\<close>

theorem anonymous_inverted: "legacy_Check (anonymousIdentity allowed) ActionWrite bucket = Inr () \<longleftrightarrow> allowed"
  by (simp add: legacy_Check_def anonymousIdentity_def ActionRead_def ActionWrite_def ActionDelete_def)

section \<open>Witnesses\<close>

definition demo_env :: "mem_db gateway_env" where
  "demo_env = \<lparr>ge_std = ascii_std, ge_lib = demo_lib, ge_signing = demo_signing, ge_bolt = mem_bolt, ge_aead = clear_aead, ge_order = [''admin''], ge_clk = (\<lambda>_. 5)\<rparr>"

definition demo_cred :: TemporaryCredential where
  "demo_cred = \<lparr>cred_AccessKeyID = ''ASIA0'', cred_SecretAccessKey = ''s'', cred_SessionToken = ''tok'', cred_Expiration = 100\<rparr>"

definition sts_bridge :: "mem_db IAMAuthBridge" where
  "sts_bridge = \<lparr>br_store = \<lparr>store_db = [((bucketTempCreds, ''ASIA0''), DTempCred demo_cred)], store_scp = Some (doc_of ''scp'' [stmt_on_all ''no'' EffectDeny ''*''])\<rparr>,
     br_masterKey = zero_key\<rparr>"

definition sts_get :: http_request where
  "sts_get = admin_post\<lparr>rq_Method := ''DELETE'', rq_Header := (\<lambda>_. [])(''Authorization'' := [''Basic QVNJQTA6cw==''])\<rparr>"

lemma demo_authorization: "Header_Get sts_get ''Authorization'' = ''Basic QVNJQTA6cw==''" "Header_Get admin_post ''Authorization'' = ''Basic YWRtaW46cHc=''"
proof -
  have "CanonicalMIMEHeaderKey ''Authorization'' = ''Authorization''" by code_simp
  then show "Header_Get sts_get ''Authorization'' = ''Basic QVNJQTA6cw==''" "Header_Get admin_post ''Authorization'' = ''Basic YWRtaW46cHc=''"
    by (simp_all add: Header_Get_def Header_Values_def sts_get_def admin_post_def)
qed

lemma sts_decode: "StdEncoding_DecodeString ''QVNJQTA6cw=='' = Some [65, 83, 73, 65, 48, 58, 115]" "from_bytes [65, 83, 73, 65, 48, 58, 115] = ''ASIA0:s''"
  by (simp add: StdEncoding_DecodeString_def b64_value_def b64_bytes_def Let_def, code_simp)

lemma basic_lower: "ge_lower demo_env ''Basic'' = ''basic''"
  unfolding demo_env_def by simp code_simp

theorem temporary_credentials_unrestricted_witness:
  "requireIdentity demo_env (Some sts_bridge) sts_get ActionDelete ''docs'' ''ab'' demo_auth = Some (demo_auth, Inr (toAuthIdentity (sts_user ''ASIA0'') None))"
proof (rule temporary_credentials_unrestricted)
  show "SplitN2 (Header_Get sts_get ''Authorization'') (CHR '' '') = (''Basic'', Some ''QVNJQTA6cw=='')" by (simp add: demo_authorization)
  show "basic_user ''QVNJQTA6cw=='' = Some (''ASIA0'', cred_SecretAccessKey demo_cred)" by (simp add: basic_user_def sts_decode demo_cred_def)
  show "ge_temp demo_env sts_bridge ''ASIA0'' = Inr demo_cred"
    by (simp add: GetTempCredential_def store_get_def demo_env_def mem_bolt_def sts_bridge_def demo_cred_def)
  show "GetIAMUser demo_env (''sts:'' @ ''ASIA0'') sts_bridge = Inl (Err ''user sts:ASIA0 not found'')"
    by (simp add: GetIAMUser_def svc_GetUser_def GetUser_def store_get_def demo_env_def mem_bolt_def sts_bridge_def bucketTempCreds_def bucketUsers_def)
qed (simp_all add: basic_lower demo_authorization HasPrefix_def)

theorem presigned_never_checked_witness:
  "provider_Authenticate demo_env (Some sts_bridge) (sts_get\<lparr>rq_Header := (\<lambda>_. []), rq_RawQuery := ''X-Amz-Credential=ASIA0/x&X-Amz-Signature=00''\<rparr>) (SetRequireAuth True demo_auth) =
     (SetRequireAuth True demo_auth, Inl (Err ''authentication required''))"
  using presigned_never_checked [of "sts_get\<lparr>rq_Header := (\<lambda>_. []), rq_RawQuery := ''X-Amz-Credential=ASIA0/x&X-Amz-Signature=00''\<rparr>" demo_env "Some sts_bridge" "SetRequireAuth True demo_auth"]
  by (simp add: Header_Get_def Header_Values_def SetRequireAuth_def)

definition alice_bridge :: "mem_db IAMAuthBridge" where "alice_bridge = \<lparr>br_store = alice_store, br_masterKey = zero_key\<rparr>"
definition empty_bridge :: "mem_db IAMAuthBridge" where "empty_bridge = \<lparr>br_store = \<lparr>store_db = [], store_scp = None\<rparr>, br_masterKey = zero_key\<rparr>"

theorem user_policies_ignored_witness:
  "CheckIAMAccess demo_env alice_bridge (Some alice) ''s3:GetObject'' ''docs'' ''ab'' sts_get =
     CheckIAMAccess demo_env empty_bridge (Some alice) ''s3:GetObject'' ''docs'' ''ab'' sts_get \<and>
   CheckIAMAccess demo_env alice_bridge (Some alice) ''s3:GetObject'' ''docs'' ''ab'' sts_get \<noteq> Some (Inr ())"
proof -
  obtain e where bp: "GetBucketPolicy (ge_bolt demo_env) (br_store alice_bridge) ''docs'' = GetBucketPolicy (ge_bolt demo_env) (br_store empty_bridge) ''docs''"
    "GetBucketPolicy (ge_bolt demo_env) (br_store alice_bridge) ''docs'' = Inl e"
    by (simp add: GetBucketPolicy_def store_get_def demo_env_def mem_bolt_def alice_bridge_def empty_bridge_def alice_store_def bucketUsers_def bucketPolicies_def bucketBucketPolicy_def)
  have arn: "MakeUserARN ''alice'' \<noteq> ''alice''" by (simp add: MakeUserARN_def MakeARN_def ARNPrefix_def ServiceIAM_def)
  obtain e1 e2 where e: "GetUser (ge_bolt demo_env) (br_store alice_bridge) (MakeUserARN ''alice'') = Inl e1" "GetUser (ge_bolt demo_env) (br_store empty_bridge) (MakeUserARN ''alice'') = Inl e2"
    using arn by (simp add: GetUser_def store_get_def demo_env_def mem_bolt_def alice_bridge_def empty_bridge_def alice_store_def bucketPolicies_def bucketUsers_def)
  have "store_scp (br_store alice_bridge) = store_scp (br_store empty_bridge)" "user_Name alice = ''alice''" by (simp_all add: alice_bridge_def empty_bridge_def alice_store_def alice_def)
  from user_policies_ignored [OF _ bp(1) this(1) e this(2) this(2), where action = "''s3:GetObject''" and key = "''ab''" and r = sts_get and e = e] bp(2) show ?thesis by auto
qed



end
