(* ===== verification/KMS.thy ===== *)
theory KMS
  imports IAM_Crypto Storage_Backend
begin

text \<open>
  Key management, \<^verbatim>\<open>internal/kms\<close>: the interface \<^verbatim>\<open>KMSClient\<close> (\<open>kms_client\<close>), the local provider
  of \<^verbatim>\<open>local.go\<close>, which wraps data keys with an elliptic-curve key pair it keeps on disk, and
  the decorator of \<^verbatim>\<open>fallback.go\<close>, which remembers data keys for the time its provider is down.

  The curve, HKDF, AES-GCM and the encoding of keys are arguments (\<open>ecies_lib\<close>); what the
  operating system and the random source do in a call is a value of the call. Calls follow one another. \<open>kms_provider\<close>
  is the contract of the interface, met by the local provider and, over any provider that
  meets it, by the decorator.
\<close>

section \<open>The interface\<close>

record ('w, 's) kms_client =
  kc_GenerateDataKey :: "'w \<Rightarrow> string \<Rightarrow> int \<Rightarrow> 's \<Rightarrow> 's \<times> (byte list \<times> byte list) result"
  kc_DecryptDataKey :: "'w \<Rightarrow> string \<Rightarrow> byte list \<Rightarrow> 's \<Rightarrow> 's \<times> byte list result"
  kc_GetPublicKey :: "'w \<Rightarrow> string \<Rightarrow> 's \<Rightarrow> 's \<times> byte list result"
  kc_Close :: "'w \<Rightarrow> 's \<Rightarrow> 's \<times> unit result"

section \<open>The local provider\<close>

type_synonym point = "nat \<times> nat"

record PrivateKey =
  pk_D :: nat
  pk_PublicKey :: point

text \<open>
  What the provider uses of \<^verbatim>\<open>crypto/elliptic\<close>, \<^verbatim>\<open>crypto/x509\<close>, \<^verbatim>\<open>hkdf\<close> and \<^verbatim>\<open>crypto/cipher\<close>;
  \<open>el_N\<close> is the order of the base point.
\<close>

record ecies_lib =
  el_N :: nat
  el_ScalarBaseMult :: "nat \<Rightarrow> point"
  el_ScalarMult :: "point \<Rightarrow> byte list \<Rightarrow> point"
  el_Marshal :: "point \<Rightarrow> byte list"
  el_Unmarshal :: "byte list \<Rightarrow> point option"
  el_hkdf :: "byte list \<Rightarrow> byte list \<Rightarrow> byte list \<Rightarrow> byte list"
  el_aead :: aead
  el_ParseECPrivateKey :: "byte list \<Rightarrow> PrivateKey result"
  el_MarshalECPrivateKey :: "PrivateKey \<Rightarrow> byte list result"
  el_MarshalPKIXPublicKey :: "point \<Rightarrow> byte list result"

fun big_Bytes :: "nat \<Rightarrow> byte list" where
  "big_Bytes n = (if n = 0 then [] else big_Bytes (n div 256) @ [of_nat (n mod 256)])"

declare big_Bytes.simps [simp del]

text \<open>\<^verbatim>\<open>ecdsa.GenerateKey\<close>: a scalar from 1 to \<open>N - 1\<close> and its multiple of the base point.\<close>

definition ecdsa_GenerateKey :: "ecies_lib \<Rightarrow> nat result \<Rightarrow> PrivateKey result" where
  "ecdsa_GenerateKey L random =
     (case random of
        Inl e \<Rightarrow> Inl e
      | Inr r \<Rightarrow> let d = r mod (el_N L - 1) + 1 in Inr \<lparr>pk_D = d, pk_PublicKey = el_ScalarBaseMult L d\<rparr>)"

record LocalKMS =
  lk_privateKey :: "PrivateKey option"
  lk_publicKey :: "point option"
  lk_pubKeyBytes :: "byte list option"
  lk_keyPath :: string

datatype write_outcome = WOk | WOpenFails | WShort nat

text \<open>\<^verbatim>\<open>os.WriteFile\<close> truncates the file before it writes; a failed write leaves what got through.\<close>

definition WriteFile :: "write_outcome \<Rightarrow> string list \<Rightarrow> byte list \<Rightarrow> fs \<Rightarrow> fs \<times> errno option" where
  "WriteFile out p d fs =
     (if out = WOpenFails then (fs, Some EIO)
      else case fs_stat fs (path_Dir p) of
          Inl e \<Rightarrow> (fs, Some e)
        | Inr (File _) \<Rightarrow> (fs, Some ENOTDIR)
        | Inr Dir \<Rightarrow>
            if map_of fs p = Some Dir then (fs, Some EISDIR)
            else (case out of
                    WShort n \<Rightarrow> (AList.update p (File (take n d)) fs, Some EIO)
                  | _ \<Rightarrow> (AList.update p (File d) fs, None)))"

definition ReadFile :: "os_world \<Rightarrow> string list \<Rightarrow> fs \<Rightarrow> byte list result" where
  "ReadFile w p fs = (case open_file w p fs of Inl e \<Rightarrow> Inl (Err (errno_text e)) | Inr n \<Rightarrow> ReadAll (node_reader n))"

record local_world =
  lw_os :: os_world
  lw_writePriv :: write_outcome
  lw_writePub :: write_outcome
  lw_keygen :: "nat result"
  lw_dek :: "byte list result"
  lw_nonce :: "byte list result"

text \<open>\<^verbatim>\<open>io.ReadFull\<close> fills a buffer or fails.\<close>

definition ReadFull :: "byte list result \<Rightarrow> nat \<Rightarrow> byte list result" where
  "ReadFull random n = (case random of Inl e \<Rightarrow> Inl e | Inr bs \<Rightarrow> Inr (take n (bs @ replicate n 0)))"

lemma ReadFull_length: "ReadFull random n = Inr bs \<Longrightarrow> length bs = n"
  by (auto simp: ReadFull_def split: sum.splits)

definition filepath_Dir :: "string \<Rightarrow> string list" where
  "filepath_Dir p = clean [] (butlast (Split1 p CHR ''/''))"

definition key_file :: "string \<Rightarrow> string \<Rightarrow> string list" where
  "key_file keyPath ext = Join [] (keyPath @ ext)"

definition local_kms :: "PrivateKey \<Rightarrow> byte list \<Rightarrow> string \<Rightarrow> LocalKMS" where
  "local_kms k pub keyPath = \<lparr>lk_privateKey = Some k, lk_publicKey = Some (pk_PublicKey k), lk_pubKeyBytes = Some pub, lk_keyPath = keyPath\<rparr>"

text \<open>The key pair is made and saved when no private key could be read and parsed.\<close>

definition generate_and_save :: "ecies_lib \<Rightarrow> local_world \<Rightarrow> string \<Rightarrow> fs \<Rightarrow> fs \<times> LocalKMS result" where
  "generate_and_save L w keyPath fs =
     (case ecdsa_GenerateKey L (lw_keygen w) of
        Inl e \<Rightarrow> (fs, Inl (wrap_err ''kms/local: failed to generate key pair'' e))
      | Inr k \<Rightarrow>
          (case MkdirAll (lw_os w) (filepath_Dir keyPath) fs of
             Inl e \<Rightarrow> (fs, Inl (os_error ''kms/local: failed to create key directory'' e))
           | Inr fs1 \<Rightarrow>
               (case el_MarshalECPrivateKey L k of
                  Inl e \<Rightarrow> (fs1, Inl (wrap_err ''kms/local: failed to marshal private key'' e))
                | Inr privKeyBytes \<Rightarrow>
                    (case WriteFile (lw_writePriv w) (key_file keyPath ''.priv'') privKeyBytes fs1 of
                       (fs2, Some e) \<Rightarrow> (fs2, Inl (os_error ''kms/local: failed to save private key'' e))
                     | (fs2, None) \<Rightarrow>
                         (case el_MarshalPKIXPublicKey L (pk_PublicKey k) of
                            Inl e \<Rightarrow> (fs2, Inl (wrap_err ''kms/local: failed to marshal public key'' e))
                          | Inr pub \<Rightarrow>
                              (case WriteFile (lw_writePub w) (key_file keyPath ''.pub'') pub fs2 of
                                 (fs3, Some e) \<Rightarrow> (fs3, Inl (os_error ''kms/local: failed to save public key'' e))
                               | (fs3, None) \<Rightarrow> (fs3, Inr (local_kms k pub keyPath))))))))"

text \<open>The file is read; any failure to read or to parse it counts as no key.\<close>

definition load_private_key :: "ecies_lib \<Rightarrow> local_world \<Rightarrow> string \<Rightarrow> fs \<Rightarrow> PrivateKey option" where
  "load_private_key L w keyPath fs =
     (case ReadFile (lw_os w) (key_file keyPath ''.priv'') fs of
        Inl _ \<Rightarrow> None
      | Inr privData \<Rightarrow> (case el_ParseECPrivateKey L privData of Inl _ \<Rightarrow> None | Inr k \<Rightarrow> Some k))"

definition NewLocalKMS :: "ecies_lib \<Rightarrow> local_world \<Rightarrow> string \<Rightarrow> fs \<Rightarrow> fs \<times> LocalKMS result" where
  "NewLocalKMS L w cfgKeyPath fs =
     (let keyPath = (if cfgKeyPath = '''' then ''./data/keys/keygen'' else cfgKeyPath)
      in case load_private_key L w keyPath fs of
           None \<Rightarrow> generate_and_save L w keyPath fs
         | Some k \<Rightarrow>
             (case el_MarshalPKIXPublicKey L (pk_PublicKey k) of
                Inl e \<Rightarrow> (fs, Inl (wrap_err ''kms/local: failed to marshal public key'' e))
              | Inr pub \<Rightarrow> (fs, Inr (local_kms k pub keyPath))))"

definition hkdfDeriveLocal :: "ecies_lib \<Rightarrow> byte list \<Rightarrow> byte list \<Rightarrow> byte list \<Rightarrow> nat \<Rightarrow> byte list" where
  "hkdfDeriveLocal L secret salt info keyLen = take keyLen (el_hkdf L secret salt info @ replicate keyLen 0)"

definition shared_key :: "ecies_lib \<Rightarrow> point \<Rightarrow> nat \<Rightarrow> byte list \<Rightarrow> byte list" where
  "shared_key L P d ephemeralPubBytes =
     hkdfDeriveLocal L (big_Bytes (fst (el_ScalarMult L P (big_Bytes d)))) [] ephemeralPubBytes 32"

definition encryptWithECIES :: "ecies_lib \<Rightarrow> local_world \<Rightarrow> byte list \<Rightarrow> LocalKMS \<Rightarrow> byte list result" where
  "encryptWithECIES L w plaintext l =
     (case lk_publicKey l of
        None \<Rightarrow> Inl (Err ''public key not available'')
      | Some P \<Rightarrow>
          (case ecdsa_GenerateKey L (lw_keygen w) of
             Inl e \<Rightarrow> Inl (wrap_err ''failed to generate ephemeral key'' e)
           | Inr eph \<Rightarrow>
               let ephemeralPubBytes = el_Marshal L (pk_PublicKey eph);
                   symKey = shared_key L P (pk_D eph) ephemeralPubBytes
               in case aes_key_error symKey of
                    Some e \<Rightarrow> Inl (Err e)
                  | None \<Rightarrow>
                      (case ReadFull (lw_nonce w) 12 of
                         Inl e \<Rightarrow> Inl (wrap_err ''failed to generate nonce'' e)
                       | Inr nonce \<Rightarrow> Inr (ephemeralPubBytes @ nonce @ gcm_seal (el_aead L) symKey nonce plaintext))))"

definition ecies_open :: "ecies_lib \<Rightarrow> nat \<Rightarrow> byte list \<Rightarrow> byte list result" where
  "ecies_open L d encrypted =
     (if length encrypted < 65 then Inl (Err ''invalid encrypted data: too short'')
      else case el_Unmarshal L (take 65 encrypted) of
          None \<Rightarrow> Inl (Err ''failed to parse ephemeral public key'')
        | Some P \<Rightarrow>
            (let symKey = shared_key L P d (take 65 encrypted)
             in if length encrypted < 65 + 12 then Inl (Err ''invalid encrypted data: missing nonce'')
                else case aes_key_error symKey of
                    Some e \<Rightarrow> Inl (Err e)
                  | None \<Rightarrow>
                      (case gcm_open (el_aead L) symKey (take 12 (drop 65 encrypted)) (drop 77 encrypted) of
                         None \<Rightarrow> Inl (Err ''failed to decrypt: cipher: message authentication failed'')
                       | Some plaintext \<Rightarrow> Inr plaintext)))"

definition decryptWithECIES :: "ecies_lib \<Rightarrow> byte list \<Rightarrow> LocalKMS \<Rightarrow> byte list result" where
  "decryptWithECIES L encrypted l =
     (case lk_privateKey l of
        None \<Rightarrow> Inl (Err ''private key not available'')
      | Some k \<Rightarrow> ecies_open L (pk_D k) encrypted)"

definition LocalKMS_GenerateDataKey ::
    "ecies_lib \<Rightarrow> local_world \<Rightarrow> string \<Rightarrow> int \<Rightarrow> LocalKMS \<Rightarrow> LocalKMS \<times> (byte list \<times> byte list) result" where
  "LocalKMS_GenerateDataKey L w keyID len l =
     (case ReadFull (lw_dek w) (if len \<le> 0 then 32 else nat len) of
        Inl e \<Rightarrow> (l, Inl (wrap_err ''kms/local: failed to generate DEK'' e))
      | Inr dek \<Rightarrow>
          (case encryptWithECIES L w dek l of
             Inl e \<Rightarrow> (l, Inl (wrap_err ''kms/local: failed to encrypt DEK'' e))
           | Inr encrypted \<Rightarrow> (l, Inr (dek, encrypted))))"

definition LocalKMS_DecryptDataKey ::
    "ecies_lib \<Rightarrow> local_world \<Rightarrow> string \<Rightarrow> byte list \<Rightarrow> LocalKMS \<Rightarrow> LocalKMS \<times> byte list result" where
  "LocalKMS_DecryptDataKey L w keyID encrypted l =
     (l, case decryptWithECIES L encrypted l of
           Inl e \<Rightarrow> Inl (wrap_err ''kms/local: failed to decrypt DEK'' e)
         | Inr plaintext \<Rightarrow> Inr plaintext)"

definition LocalKMS_GetPublicKey :: "local_world \<Rightarrow> string \<Rightarrow> LocalKMS \<Rightarrow> LocalKMS \<times> byte list result" where
  "LocalKMS_GetPublicKey w keyID l =
     (l, case lk_pubKeyBytes l of None \<Rightarrow> Inl (Err ''kms/local: public key not available'') | Some pub \<Rightarrow> Inr pub)"

definition LocalKMS_Close :: "local_world \<Rightarrow> LocalKMS \<Rightarrow> LocalKMS \<times> unit result" where
  "LocalKMS_Close w l = (l\<lparr>lk_privateKey := None\<rparr>, Inr ())"

definition local_ops :: "ecies_lib \<Rightarrow> (local_world, LocalKMS) kms_client" where
  "local_ops L = \<lparr>kc_GenerateDataKey = LocalKMS_GenerateDataKey L, kc_DecryptDataKey = LocalKMS_DecryptDataKey L,
     kc_GetPublicKey = LocalKMS_GetPublicKey, kc_Close = LocalKMS_Close\<rparr>"

lemma local_ops_simps [simp]:
  "kc_GenerateDataKey (local_ops L) = LocalKMS_GenerateDataKey L"
  "kc_DecryptDataKey (local_ops L) = LocalKMS_DecryptDataKey L"
  "kc_GetPublicKey (local_ops L) = LocalKMS_GetPublicKey"
  "kc_Close (local_ops L) = LocalKMS_Close"
  by (simp_all add: local_ops_def)

section \<open>The decorator\<close>

record 's FallbackKMS =
  fk_primary :: 's
  fk_mode :: string
  fk_healthCheck :: int
  fk_available :: bool
  fk_cachedKeys :: "(byte list \<times> byte list) list"
  fk_cacheOrder :: "byte list list"
  fk_maxCache :: nat
  fk_lastFailure :: gotime
  fk_closeErr :: "unit result option"

record 'w fallback_world =
  fw_primary :: 'w
  fw_now :: gotime

definition NewFallbackKMS :: "'s option \<Rightarrow> string \<Rightarrow> int \<Rightarrow> 's FallbackKMS result" where
  "NewFallbackKMS primary mode interval =
     (case primary of
        None \<Rightarrow> Inl (Err ''kms/fallback: primary KMS client is required'')
      | Some s \<Rightarrow>
          Inr \<lparr>fk_primary = s, fk_mode = (if mode = '''' then ''reject_writes'' else mode),
               fk_healthCheck = (if interval \<le> 0 then 10 * 10 ^ 9 else interval), fk_available = True,
               fk_cachedKeys = [], fk_cacheOrder = [], fk_maxCache = 1000, fk_lastFailure = 0, fk_closeErr = None\<rparr>)"

definition markUnavailable :: "gotime \<Rightarrow> 's FallbackKMS \<Rightarrow> 's FallbackKMS" where
  "markUnavailable now f = (if fk_available f then f\<lparr>fk_available := False, fk_lastFailure := now\<rparr> else f)"

definition markAvailable :: "'s FallbackKMS \<Rightarrow> 's FallbackKMS" where
  "markAvailable f = (if \<not> fk_available f then f\<lparr>fk_available := True\<rparr> else f)"

fun evict_oldest :: "nat \<Rightarrow> (byte list \<times> byte list) list \<Rightarrow> byte list list \<Rightarrow> (byte list \<times> byte list) list \<times> byte list list" where
  "evict_oldest m c [] = (c, [])"
| "evict_oldest m c (oldest # order) =
     (if m \<le> length c then evict_oldest m (AList.delete oldest c) order else (c, oldest # order))"

definition cacheKey :: "byte list \<Rightarrow> byte list \<Rightarrow> 's FallbackKMS \<Rightarrow> 's FallbackKMS" where
  "cacheKey encrypted plaintext f =
     (if map_of (fk_cachedKeys f) encrypted \<noteq> None
      then f\<lparr>fk_cachedKeys := AList.update encrypted plaintext (fk_cachedKeys f)\<rparr>
      else let (c, order) = evict_oldest (fk_maxCache f) (fk_cachedKeys f) (fk_cacheOrder f)
           in f\<lparr>fk_cachedKeys := AList.update encrypted plaintext c, fk_cacheOrder := order @ [encrypted]\<rparr>)"

definition lookupCachedKey :: "byte list \<Rightarrow> 's FallbackKMS \<Rightarrow> byte list option" where
  "lookupCachedKey encrypted f = map_of (fk_cachedKeys f) encrypted"

definition mode_text :: "'s FallbackKMS \<Rightarrow> string" where
  "mode_text f = '' (mode: '' @ fk_mode f @ '')''"

definition FallbackKMS_GenerateDataKey ::
    "('w, 's) kms_client \<Rightarrow> 'w fallback_world \<Rightarrow> string \<Rightarrow> int \<Rightarrow> 's FallbackKMS \<Rightarrow> 's FallbackKMS \<times> (byte list \<times> byte list) result" where
  "FallbackKMS_GenerateDataKey K w keyID len f =
     (if \<not> fk_available f then (f, Inl (Err (''kms/fallback: KMS unavailable, cannot generate new data key'' @ mode_text f)))
      else case kc_GenerateDataKey K (fw_primary w) keyID len (fk_primary f) of
          (s, Inl e) \<Rightarrow> (markUnavailable (fw_now w) (f\<lparr>fk_primary := s\<rparr>), Inl (wrap_err ''kms/fallback: GenerateDataKey failed'' e))
        | (s, Inr (plaintext, encrypted)) \<Rightarrow> (cacheKey encrypted plaintext (f\<lparr>fk_primary := s\<rparr>), Inr (plaintext, encrypted)))"

definition FallbackKMS_DecryptDataKey ::
    "('w, 's) kms_client \<Rightarrow> 'w fallback_world \<Rightarrow> string \<Rightarrow> byte list \<Rightarrow> 's FallbackKMS \<Rightarrow> 's FallbackKMS \<times> byte list result" where
  "FallbackKMS_DecryptDataKey K w keyID encrypted f =
     (if fk_available f
      then (case kc_DecryptDataKey K (fw_primary w) keyID encrypted (fk_primary f) of
              (s, Inr plaintext) \<Rightarrow> (cacheKey encrypted plaintext (f\<lparr>fk_primary := s\<rparr>), Inr plaintext)
            | (s, Inl e) \<Rightarrow>
                let f' = markUnavailable (fw_now w) (f\<lparr>fk_primary := s\<rparr>)
                in (f', case lookupCachedKey encrypted f' of
                          Some cached \<Rightarrow> Inr cached
                        | None \<Rightarrow> Inl (wrap_err ''kms/fallback: DecryptDataKey failed and no cached key available'' e)))
      else (f, case lookupCachedKey encrypted f of
                 Some cached \<Rightarrow> Inr cached
               | None \<Rightarrow> Inl (Err (''kms/fallback: KMS unavailable and no cached key found'' @ mode_text f))))"

definition FallbackKMS_GetPublicKey ::
    "('w, 's) kms_client \<Rightarrow> 'w fallback_world \<Rightarrow> string \<Rightarrow> 's FallbackKMS \<Rightarrow> 's FallbackKMS \<times> byte list result" where
  "FallbackKMS_GetPublicKey K w keyID f =
     (if \<not> fk_available f then (f, Inl (Err (''kms/fallback: KMS unavailable, cannot get public key'' @ mode_text f)))
      else case kc_GetPublicKey K (fw_primary w) keyID (fk_primary f) of
          (s, Inl e) \<Rightarrow> (markUnavailable (fw_now w) (f\<lparr>fk_primary := s\<rparr>), Inl (wrap_err ''kms/fallback: GetPublicKey failed'' e))
        | (s, Inr pub) \<Rightarrow> (f\<lparr>fk_primary := s\<rparr>, Inr pub))"

definition FallbackKMS_Close :: "('w, 's) kms_client \<Rightarrow> 'w fallback_world \<Rightarrow> 's FallbackKMS \<Rightarrow> 's FallbackKMS \<times> unit result" where
  "FallbackKMS_Close K w f =
     (case fk_closeErr f of
        Some r \<Rightarrow> (f, r)
      | None \<Rightarrow>
          (case kc_Close K (fw_primary w) (fk_primary f) of
             (s, r) \<Rightarrow> (f\<lparr>fk_primary := s, fk_closeErr := Some r\<rparr>, r)))"

definition checkHealth :: "('w, 's) kms_client \<Rightarrow> 'w fallback_world \<Rightarrow> 's FallbackKMS \<Rightarrow> 's FallbackKMS" where
  "checkHealth K w f =
     (if fk_available f then f
      else case kc_GetPublicKey K (fw_primary w) '''' (fk_primary f) of
          (s, Inr _) \<Rightarrow> markAvailable (f\<lparr>fk_primary := s\<rparr>)
        | (s, Inl _) \<Rightarrow> f\<lparr>fk_primary := s\<rparr>)"

text \<open>The health check runs on its ticks until the decorator is closed.\<close>

definition health_tick :: "('w, 's) kms_client \<Rightarrow> 'w fallback_world \<Rightarrow> 's FallbackKMS \<Rightarrow> 's FallbackKMS" where
  "health_tick K w f = (if fk_closeErr f = None then checkHealth K w f else f)"

definition fallback_ops :: "('w, 's) kms_client \<Rightarrow> ('w fallback_world, 's FallbackKMS) kms_client" where
  "fallback_ops K = \<lparr>kc_GenerateDataKey = FallbackKMS_GenerateDataKey K, kc_DecryptDataKey = FallbackKMS_DecryptDataKey K,
     kc_GetPublicKey = FallbackKMS_GetPublicKey K, kc_Close = FallbackKMS_Close K\<rparr>"

datatype 'w kms_event =
    EGenerate "'w fallback_world" string int
  | EDecrypt "'w fallback_world" string "byte list"
  | EPublic "'w fallback_world" string
  | ETick "'w fallback_world"
  | EClose "'w fallback_world"

fun kms_step :: "('w, 's) kms_client \<Rightarrow> 's FallbackKMS \<Rightarrow> 'w kms_event \<Rightarrow> 's FallbackKMS" where
  "kms_step K f (EGenerate w k n) = fst (FallbackKMS_GenerateDataKey K w k n f)"
| "kms_step K f (EDecrypt w k e) = fst (FallbackKMS_DecryptDataKey K w k e f)"
| "kms_step K f (EPublic w k) = fst (FallbackKMS_GetPublicKey K w k f)"
| "kms_step K f (ETick w) = health_tick K w f"
| "kms_step K f (EClose w) = fst (FallbackKMS_Close K w f)"

abbreviation kms_run :: "('w, 's) kms_client \<Rightarrow> 's FallbackKMS \<Rightarrow> 'w kms_event list \<Rightarrow> 's FallbackKMS" where
  "kms_run K \<equiv> foldl (kms_step K)"


lemma fallback_ops_simps [simp]:
  "kc_GenerateDataKey (fallback_ops K) = FallbackKMS_GenerateDataKey K"
  "kc_DecryptDataKey (fallback_ops K) = FallbackKMS_DecryptDataKey K"
  "kc_GetPublicKey (fallback_ops K) = FallbackKMS_GetPublicKey K"
  "kc_Close (fallback_ops K) = FallbackKMS_Close K"
  by (simp_all add: fallback_ops_def)

section \<open>The cache of the decorator\<close>

text \<open>The order lists the cached keys once each, and there are never more than the limit.\<close>

definition cache_ok :: "'s FallbackKMS \<Rightarrow> bool" where
  "cache_ok f \<longleftrightarrow> distinct (map fst (fk_cachedKeys f)) \<and> distinct (fk_cacheOrder f) \<and>
     set (fk_cacheOrder f) = fst ` set (fk_cachedKeys f) \<and> length (fk_cachedKeys f) \<le> fk_maxCache f \<and> 0 < fk_maxCache f"

lemma cache_ok_length:
  assumes "distinct (map fst c)" "distinct order" "set order = fst ` set c"
  shows "length c = length order"
proof -
  have "length c = card (set (map fst c))" using distinct_card [OF assms(1)] by simp
  moreover have "card (set order) = length order" using distinct_card [OF assms(2)] .
  ultimately show ?thesis using assms(3) by simp
qed

lemma cached_delete [simp]: "fst ` set (AList.delete k c) = fst ` set c - {k}"
  by (induction c) auto

lemma length_delete:
  assumes "distinct (map fst c)" "k \<in> fst ` set c"
  shows "length (AList.delete k c) = length c - 1"
proof -
  have "distinct (map fst (AList.delete k c))" using assms(1) by (rule distinct_delete)
  from distinct_card [OF this] have "length (AList.delete k c) = card (fst ` set c - {k})" by simp
  also have "\<dots> = card (fst ` set c) - 1" using assms(2) by (rule card_Diff_singleton)
  also have "card (fst ` set c) = length c" using distinct_card [OF assms(1)] by simp
  finally show ?thesis .
qed

lemma update_new: "k \<notin> fst ` set c \<Longrightarrow> AList.update k v c = c @ [(k, v)]"
proof (induction c)
  case (Cons x c)
  then have "fst x \<noteq> k" "k \<notin> fst ` set c" by (simp_all add: not_sym)
  with Cons.IH show ?case by simp
qed simp

text \<open>A full cache gives up its oldest key, any other keeps all it has.\<close>

lemma evict_oldest_exact:
  assumes "distinct (map fst c)" "distinct order" "set order = fst ` set c" "length c \<le> m" "0 < m"
  shows "evict_oldest m c order = (if length c = m then (AList.delete (hd order) c, tl order) else (c, order))"
proof (cases order)
  case Nil
  with assms show ?thesis by simp
next
  case (Cons k ks)
  have "length (AList.delete k c) = length c - 1" using assms Cons by (intro length_delete) auto
  with assms(4,5) have "\<not> m \<le> length (AList.delete k c)" by linarith
  with assms(4) Cons show ?thesis by (cases ks) auto
qed

lemma cacheKey_known:
  "map_of (fk_cachedKeys f) e \<noteq> None \<Longrightarrow> cacheKey e p f = f\<lparr>fk_cachedKeys := AList.update e p (fk_cachedKeys f)\<rparr>"
  by (simp add: cacheKey_def)

lemma cacheKey_new:
  assumes "cache_ok f" "map_of (fk_cachedKeys f) e = None"
  shows "cacheKey e p f =
     (if length (fk_cachedKeys f) = fk_maxCache f
      then f\<lparr>fk_cachedKeys := AList.delete (hd (fk_cacheOrder f)) (fk_cachedKeys f) @ [(e, p)], fk_cacheOrder := tl (fk_cacheOrder f) @ [e]\<rparr>
      else f\<lparr>fk_cachedKeys := fk_cachedKeys f @ [(e, p)], fk_cacheOrder := fk_cacheOrder f @ [e]\<rparr>)"
proof -
  have "e \<notin> fst ` set (fk_cachedKeys f)" using assms(2) by (simp add: map_of_eq_None_iff)
  moreover have "evict_oldest (fk_maxCache f) (fk_cachedKeys f) (fk_cacheOrder f) =
      (if length (fk_cachedKeys f) = fk_maxCache f then (AList.delete (hd (fk_cacheOrder f)) (fk_cachedKeys f), tl (fk_cacheOrder f))
       else (fk_cachedKeys f, fk_cacheOrder f))"
    using assms(1) by (intro evict_oldest_exact) (auto simp: cache_ok_def)
  ultimately show ?thesis using assms(2) by (auto simp: cacheKey_def update_new)
qed

lemma cacheKey_fields [simp]:
  "fk_primary (cacheKey e p f) = fk_primary f" "fk_available (cacheKey e p f) = fk_available f"
  "fk_maxCache (cacheKey e p f) = fk_maxCache f" "fk_closeErr (cacheKey e p f) = fk_closeErr f"
  by (auto simp: cacheKey_def split: prod.splits)

lemma cacheKey_ok:
  assumes "cache_ok f"
  shows "cache_ok (cacheKey e p f)"
proof (cases "map_of (fk_cachedKeys f) e = None")
  case False
  then have e: "e \<in> fst ` set (fk_cachedKeys f)" by (simp add: map_of_eq_None_iff)
  let ?c = "AList.update e p (fk_cachedKeys f)"
  have d: "distinct (map fst ?c)" using assms by (simp add: cache_ok_def distinct_update)
  have k: "fst ` set ?c = fst ` set (fk_cachedKeys f)" using e by (simp add: dom_update [of e p] insert_absorb)
  have "length ?c = length (fk_cacheOrder f)"
    using assms d k by (intro cache_ok_length) (auto simp: cache_ok_def)
  moreover have "length (fk_cachedKeys f) = length (fk_cacheOrder f)"
    using assms by (intro cache_ok_length) (auto simp: cache_ok_def)
  ultimately show ?thesis using assms d k by (simp add: cacheKey_known [OF False] cache_ok_def)
next
  case True
  then have e: "e \<notin> fst ` set (fk_cachedKeys f)" by (simp add: map_of_eq_None_iff)
  have len: "length (fk_cachedKeys f) = length (fk_cacheOrder f)"
    using assms by (intro cache_ok_length) (auto simp: cache_ok_def)
  show ?thesis
  proof (cases "length (fk_cachedKeys f) = fk_maxCache f")
    case full: True
    then obtain k ks where o: "fk_cacheOrder f = k # ks"
      using assms len by (cases "fk_cacheOrder f") (auto simp: cache_ok_def)
    have "length (AList.delete k (fk_cachedKeys f)) = length (fk_cachedKeys f) - 1"
      using assms o by (intro length_delete) (auto simp: cache_ok_def)
    moreover have "set ks = fst ` set (fk_cachedKeys f) - {k}" using assms o by (auto simp: cache_ok_def)
    ultimately show ?thesis
      using assms full e o by (simp add: cacheKey_new [OF assms True] cache_ok_def distinct_delete)
  next
    case False
    then show ?thesis using assms e by (simp add: cacheKey_new [OF assms True] cache_ok_def)
  qed
qed

lemma markUnavailable_fields [simp]:
  "fk_primary (markUnavailable t f) = fk_primary f" "fk_cachedKeys (markUnavailable t f) = fk_cachedKeys f"
  "fk_cacheOrder (markUnavailable t f) = fk_cacheOrder f" "fk_maxCache (markUnavailable t f) = fk_maxCache f"
  "\<not> fk_available (markUnavailable t f)"
  by (auto simp: markUnavailable_def)

lemma markAvailable_fields [simp]:
  "fk_primary (markAvailable f) = fk_primary f" "fk_cachedKeys (markAvailable f) = fk_cachedKeys f"
  "fk_cacheOrder (markAvailable f) = fk_cacheOrder f" "fk_maxCache (markAvailable f) = fk_maxCache f"
  "fk_available (markAvailable f)"
  by (auto simp: markAvailable_def)

text \<open>An operation leaves the cache alone or adds one key to it.\<close>

definition cache_of :: "'s FallbackKMS \<Rightarrow> (byte list \<times> byte list) list \<times> byte list list \<times> nat" where
  "cache_of f = (fk_cachedKeys f, fk_cacheOrder f, fk_maxCache f)"

lemma cache_ok_of: "cache_of f = cache_of g \<Longrightarrow> cache_ok f \<longleftrightarrow> cache_ok g"
  by (auto simp: cache_of_def cache_ok_def)

lemma GenerateDataKey_cache:
  "cache_of (fst (FallbackKMS_GenerateDataKey K w k n f)) = cache_of f \<or>
   (\<exists>e p g. fst (FallbackKMS_GenerateDataKey K w k n f) = cacheKey e p g \<and> cache_of g = cache_of f)"
proof (cases "kc_GenerateDataKey K (fw_primary w) k n (fk_primary f)")
  case (Pair s r)
  show ?thesis
  proof (cases r)
    case (Inl e)
    with Pair show ?thesis by (simp add: FallbackKMS_GenerateDataKey_def cache_of_def)
  next
    case (Inr pe)
    have "cache_of (f\<lparr>fk_primary := s\<rparr>) = cache_of f" by (simp add: cache_of_def)
    moreover obtain p e where "pe = (p, e)" by fastforce
    ultimately show ?thesis using Pair Inr by (auto simp: FallbackKMS_GenerateDataKey_def)
  qed
qed

lemma DecryptDataKey_cache:
  "cache_of (fst (FallbackKMS_DecryptDataKey K w k e f)) = cache_of f \<or>
   (\<exists>p g. fst (FallbackKMS_DecryptDataKey K w k e f) = cacheKey e p g \<and> cache_of g = cache_of f)"
proof (cases "kc_DecryptDataKey K (fw_primary w) k e (fk_primary f)")
  case (Pair s r)
  show ?thesis
  proof (cases r)
    case (Inl e)
    with Pair show ?thesis by (simp add: FallbackKMS_DecryptDataKey_def cache_of_def Let_def)
  next
    case (Inr p)
    have "cache_of (f\<lparr>fk_primary := s\<rparr>) = cache_of f" by (simp add: cache_of_def)
    with Pair Inr show ?thesis by (auto simp: FallbackKMS_DecryptDataKey_def)
  qed
qed

lemma other_cache:
  "cache_of (fst (FallbackKMS_GetPublicKey K w k f)) = cache_of f" "cache_of (health_tick K w f) = cache_of f"
  "cache_of (fst (FallbackKMS_Close K w f)) = cache_of f"
  by (auto simp: FallbackKMS_GetPublicKey_def health_tick_def checkHealth_def FallbackKMS_Close_def cache_of_def
      split: sum.split prod.split option.split)

lemma kms_step_cache:
  "cache_of (kms_step K f ev) = cache_of f \<or> (\<exists>e p g. kms_step K f ev = cacheKey e p g \<and> cache_of g = cache_of f)"
proof (cases ev)
  case (EGenerate w k n)
  then show ?thesis using GenerateDataKey_cache [of K w k n f] by simp
next
  case (EDecrypt w k e)
  then show ?thesis using DecryptDataKey_cache [of K w k e f] by (simp, blast)
qed (simp_all add: other_cache)

lemma kms_step_ok:
  assumes "cache_ok f"
  shows "cache_ok (kms_step K f ev)"
proof (cases "cache_of (kms_step K f ev) = cache_of f")
  case True
  with assms show ?thesis using cache_ok_of by blast
next
  case False
  then obtain e p g where g: "kms_step K f ev = cacheKey e p g" "cache_of g = cache_of f"
    using kms_step_cache by blast
  then have "cache_ok g" using assms cache_ok_of by blast
  then show ?thesis unfolding g(1) by (rule cacheKey_ok)
qed

lemma kms_run_ok: "cache_ok f \<Longrightarrow> cache_ok (kms_run K f evs)"
  by (induction evs arbitrary: f) (simp_all add: kms_step_ok)

lemma NewFallbackKMS_ok:
  "NewFallbackKMS primary mode interval = Inr f \<Longrightarrow> cache_ok f \<and> fk_maxCache f = 1000 \<and> fk_cachedKeys f = [] \<and> primary = Some (fk_primary f)"
  by (auto simp: NewFallbackKMS_def cache_ok_def split: option.splits)

text \<open>A key stays in the cache as long as fewer newer keys came than the cache holds.\<close>

definition cached_within :: "nat \<Rightarrow> byte list \<Rightarrow> 's FallbackKMS \<Rightarrow> bool" where
  "cached_within n e f \<longleftrightarrow> (\<exists>older newer. fk_cacheOrder f = older @ e # newer \<and> length newer \<le> n)"

lemma cached_within_mono: "cached_within n e f \<Longrightarrow> n \<le> m \<Longrightarrow> cached_within m e f"
  by (auto simp: cached_within_def intro: le_trans)

lemma cacheKey_within:
  assumes "cache_ok f" "cached_within n e f" "Suc n < fk_maxCache f"
  shows "cached_within (Suc n) e (cacheKey e' p f)"
proof (cases "map_of (fk_cachedKeys f) e' = None")
  case False
  with assms(2) show ?thesis by (auto simp: cacheKey_known cached_within_def intro: le_SucI)
next
  case True
  obtain older newer where o: "fk_cacheOrder f = older @ e # newer" "length newer \<le> n"
    using assms(2) by (auto simp: cached_within_def)
  show ?thesis
  proof (cases "length (fk_cachedKeys f) = fk_maxCache f")
    case full: True
    have "length (fk_cachedKeys f) = length (fk_cacheOrder f)"
      using assms(1) by (intro cache_ok_length) (auto simp: cache_ok_def)
    with full o assms(3) obtain k ks where "older = k # ks" by (cases older) auto
    with o have "tl (fk_cacheOrder f) @ [e'] = ks @ e # (newer @ [e'])" "length (newer @ [e']) \<le> Suc n" by simp_all
    then have "\<exists>older newer. tl (fk_cacheOrder f) @ [e'] = older @ e # newer \<and> length newer \<le> Suc n" by blast
    then show ?thesis using full by (simp add: cacheKey_new [OF assms(1) True] cached_within_def)
  next
    case False
    from o have "fk_cacheOrder f @ [e'] = older @ e # (newer @ [e'])" "length (newer @ [e']) \<le> Suc n" by simp_all
    then have "\<exists>older newer. fk_cacheOrder f @ [e'] = older @ e # newer \<and> length newer \<le> Suc n" by blast
    then show ?thesis using False by (simp add: cacheKey_new [OF assms(1) True] cached_within_def)
  qed
qed

lemma cacheKey_maxCache: "fk_maxCache (kms_step K f ev) = fk_maxCache f"
  using kms_step_cache [of K f ev] by (auto simp: cache_of_def)

lemma kms_step_within:
  assumes "cache_ok f" "cached_within n e f" "Suc n < fk_maxCache f"
  shows "cached_within (Suc n) e (kms_step K f ev)"
proof (cases "cache_of (kms_step K f ev) = cache_of f")
  case True
  with assms(2) show ?thesis by (auto simp: cached_within_def cache_of_def intro: le_SucI)
next
  case False
  then obtain e' p g where g: "kms_step K f ev = cacheKey e' p g" "cache_of g = cache_of f"
    using kms_step_cache by blast
  then have "cache_ok g" "cached_within n e g" "fk_maxCache g = fk_maxCache f"
    using assms cache_ok_of [OF g(2)] by (auto simp: cached_within_def cache_of_def)
  then show ?thesis unfolding g(1) using assms(3) by (intro cacheKey_within) auto
qed

lemma kms_run_within:
  assumes "cache_ok f" "cached_within n e f" "n + length evs < fk_maxCache f"
  shows "cached_within (n + length evs) e (kms_run K f evs)"
  using assms
proof (induction evs arbitrary: n f)
  case (Cons ev evs)
  have "cached_within (Suc n + length evs) e (kms_run K (kms_step K f ev) evs)"
    using Cons.prems by (intro Cons.IH kms_step_ok kms_step_within) (auto simp: cacheKey_maxCache)
  then show ?case by simp
qed simp

lemma cached_lookup:
  assumes "cache_ok f" "cached_within n e f"
  obtains q where "lookupCachedKey e f = Some q"
proof -
  have "e \<in> fst ` set (fk_cachedKeys f)" using assms by (auto simp: cache_ok_def cached_within_def)
  then have "map_of (fk_cachedKeys f) e \<noteq> None" by (simp add: map_of_eq_None_iff)
  then show thesis using that by (auto simp: lookupCachedKey_def)
qed

lemma cacheKey_lookup:
  assumes "cache_ok f"
  shows "lookupCachedKey e (cacheKey e p f) = Some p"
proof (cases "map_of (fk_cachedKeys f) e = None")
  case True
  then have "e \<notin> fst ` set (fk_cachedKeys f)" by (simp add: map_of_eq_None_iff)
  then have "e \<notin> fst ` set (AList.delete k (fk_cachedKeys f))" for k by simp
  with \<open>e \<notin> fst ` set (fk_cachedKeys f)\<close> True show ?thesis
    by (simp add: cacheKey_new [OF assms True] lookupCachedKey_def map_add_def map_of_eq_None_iff [THEN iffD2])
qed (simp add: cacheKey_known lookupCachedKey_def update_conv')

lemma cacheKey_cached:
  assumes "cache_ok f" "map_of (fk_cachedKeys f) e = None"
  shows "cached_within 0 e (cacheKey e p f)"
  by (auto simp: cacheKey_new [OF assms] cached_within_def)

section \<open>The contract of the interface\<close>

text \<open>
  \<open>opens s e p\<close>: in state \<open>s\<close> of the provider \<open>e\<close> is an encryption of \<open>p\<close>. A generated key is
  one, a decryption that succeeds gives it back, and no operation changes what is one.
\<close>

locale kms_provider =
  fixes K :: "('w, 's) kms_client" and valid :: "'s \<Rightarrow> bool" and opens :: "'s \<Rightarrow> byte list \<Rightarrow> byte list \<Rightarrow> bool"
  assumes opens_unique: "opens s e p \<Longrightarrow> opens s e q \<Longrightarrow> p = q"
    and generated: "valid s \<Longrightarrow> kc_GenerateDataKey K w k n s = (s', Inr (p, e)) \<Longrightarrow> opens s' e p"
    and decrypted: "valid s \<Longrightarrow> kc_DecryptDataKey K w k e s = (s', Inr p) \<Longrightarrow> opens s' e p"
    and keeps_valid: "valid s \<Longrightarrow> valid (fst (kc_GenerateDataKey K w k n s))"
      "valid s \<Longrightarrow> valid (fst (kc_DecryptDataKey K w k e s))"
      "valid s \<Longrightarrow> valid (fst (kc_GetPublicKey K w k s))" "valid s \<Longrightarrow> valid (fst (kc_Close K w s))"
    and keeps_opens: "valid s \<Longrightarrow> opens (fst (kc_GenerateDataKey K w k n s)) = opens s"
      "valid s \<Longrightarrow> opens (fst (kc_DecryptDataKey K w k e s)) = opens s"
      "valid s \<Longrightarrow> opens (fst (kc_GetPublicKey K w k s)) = opens s" "valid s \<Longrightarrow> opens (fst (kc_Close K w s)) = opens s"
begin

text \<open>A key decrypts to what it was generated as.\<close>

lemma decrypts_as_generated:
  assumes "valid s" "kc_GenerateDataKey K w k n s = (s1, Inr (p, e))" "valid s2" "opens s2 = opens s1"
    and "kc_DecryptDataKey K w' k' e s2 = (s3, Inr q)"
  shows "q = p"
proof -
  have "opens s1 e p" using generated [OF assms(1,2)] .
  moreover have "opens s3 e q" using decrypted [OF assms(3,5)] .
  moreover have "opens s3 = opens s2" using keeps_opens(2) [OF assms(3), of w' k' e] assms(5) by simp
  ultimately show ?thesis using opens_unique assms(4) by simp
qed

end

section \<open>The decorator over a provider\<close>

lemma cacheKey_entries: "set (fk_cachedKeys (cacheKey e p f)) \<subseteq> insert (e, p) (set (fk_cachedKeys f))"
proof -
  have u: "set (AList.update e p c) \<subseteq> insert (e, p) (set c)" for c by (induction c) auto
  have d: "set (fst (evict_oldest m c order)) \<subseteq> set c" for m c order
    by (induction m c order rule: evict_oldest.induct) (auto simp: AList.delete_eq split: if_splits)
  let ?c = "fst (evict_oldest (fk_maxCache f) (fk_cachedKeys f) (fk_cacheOrder f))"
  have "fk_cachedKeys (cacheKey e p f) = AList.update e p (fk_cachedKeys f) \<or> fk_cachedKeys (cacheKey e p f) = AList.update e p ?c"
    by (simp add: cacheKey_def split: prod.split)
  moreover have "set (AList.update e p ?c) \<subseteq> insert (e, p) (set (fk_cachedKeys f))" using u [of ?c] d by blast
  ultimately show ?thesis using u [of "fk_cachedKeys f"] by auto
qed

definition fallback_valid :: "('s \<Rightarrow> bool) \<Rightarrow> ('s \<Rightarrow> byte list \<Rightarrow> byte list \<Rightarrow> bool) \<Rightarrow> 's FallbackKMS \<Rightarrow> bool" where
  "fallback_valid valid opens f \<longleftrightarrow>
     valid (fk_primary f) \<and> cache_ok f \<and> (\<forall>(e, p) \<in> set (fk_cachedKeys f). opens (fk_primary f) e p)"

lemma fallback_validI:
  assumes "fallback_valid valid opens f" "valid (fk_primary g)" "opens (fk_primary g) = opens (fk_primary f)" "cache_of g = cache_of f"
  shows "fallback_valid valid opens g"
  using assms cache_ok_of [OF assms(4)] by (auto simp: fallback_valid_def cache_of_def)

lemma fallback_valid_cacheKey:
  assumes "fallback_valid valid opens f" "opens (fk_primary f) e p"
  shows "fallback_valid valid opens (cacheKey e p f)"
  using assms cacheKey_ok [of f e p] cacheKey_entries [of e p f] by (fastforce simp: fallback_valid_def)

lemma lookup_opens:
  "fallback_valid valid opens f \<Longrightarrow> lookupCachedKey e f = Some p \<Longrightarrow> opens (fk_primary f) e p"
  by (auto simp: fallback_valid_def lookupCachedKey_def dest!: map_of_SomeD)

context kms_provider
begin

lemma fallback_generates:
  assumes "fallback_valid valid opens f" "FallbackKMS_GenerateDataKey K w k n f = (f', r)"
  shows "fallback_valid valid opens f'" "opens (fk_primary f') = opens (fk_primary f)" "r = Inr (p, e) \<Longrightarrow> opens (fk_primary f') e p"
proof -
  obtain s r0 where g: "kc_GenerateDataKey K (fw_primary w) k n (fk_primary f) = (s, r0)" by fastforce
  have v: "valid (fk_primary f)" using assms(1) by (simp add: fallback_valid_def)
  have s: "valid s" "opens s = opens (fk_primary f)" using keeps_valid(1) [OF v] keeps_opens(1) [OF v] g by (metis fst_conv)+
  have t: "fallback_valid valid opens (f\<lparr>fk_primary := s\<rparr>)" by (rule fallback_validI [OF assms(1)]) (simp_all add: s cache_of_def)
  have "fallback_valid valid opens f' \<and> opens (fk_primary f') = opens (fk_primary f) \<and> (r = Inr (p, e) \<longrightarrow> opens (fk_primary f') e p)"
  proof (cases "fk_available f")
    case False
    then show ?thesis using assms by (auto simp: FallbackKMS_GenerateDataKey_def)
  next
    case av: True
    show ?thesis
    proof (cases r0)
      case (Inl e')
      then have f': "f' = markUnavailable (fw_now w) (f\<lparr>fk_primary := s\<rparr>)" "isl r" using assms(2) av g by (auto simp: FallbackKMS_GenerateDataKey_def)
      then show ?thesis using s fallback_validI [OF t, of f'] by (auto simp: cache_of_def)
    next
      case (Inr pe)
      obtain p' e' where pe: "pe = (p', e')" by fastforce
      with Inr av g assms(2) have f': "f' = cacheKey e' p' (f\<lparr>fk_primary := s\<rparr>)" "r = Inr (p', e')" by (auto simp: FallbackKMS_GenerateDataKey_def)
      have o: "opens s e' p'" using generated [OF v] g Inr pe by blast
      then show ?thesis using f' s fallback_valid_cacheKey [OF t] by auto
    qed
  qed
  then show "fallback_valid valid opens f'" "opens (fk_primary f') = opens (fk_primary f)" "r = Inr (p, e) \<Longrightarrow> opens (fk_primary f') e p" by blast+
qed

lemma fallback_decrypts:
  assumes "fallback_valid valid opens f" "FallbackKMS_DecryptDataKey K w k e f = (f', r)"
  shows "fallback_valid valid opens f'" "opens (fk_primary f') = opens (fk_primary f)" "r = Inr p \<Longrightarrow> opens (fk_primary f') e p"
proof -
  obtain s r0 where g: "kc_DecryptDataKey K (fw_primary w) k e (fk_primary f) = (s, r0)" by fastforce
  have v: "valid (fk_primary f)" using assms(1) by (simp add: fallback_valid_def)
  have s: "valid s" "opens s = opens (fk_primary f)" using keeps_valid(2) [OF v] keeps_opens(2) [OF v] g by (metis fst_conv)+
  have t: "fallback_valid valid opens (f\<lparr>fk_primary := s\<rparr>)" by (rule fallback_validI [OF assms(1)]) (simp_all add: s cache_of_def)
  have "fallback_valid valid opens f' \<and> opens (fk_primary f') = opens (fk_primary f) \<and> (r = Inr p \<longrightarrow> opens (fk_primary f') e p)"
  proof (cases "fk_available f")
    case False
    then show ?thesis using assms lookup_opens [OF assms(1), of e] by (auto simp: FallbackKMS_DecryptDataKey_def split: option.splits)
  next
    case av: True
    show ?thesis
    proof (cases r0)
      case (Inl e')
      let ?g = "markUnavailable (fw_now w) (f\<lparr>fk_primary := s\<rparr>)"
      have f': "f' = ?g" "r = Inr p \<Longrightarrow> lookupCachedKey e ?g = Some p"
        using assms(2) av g Inl by (auto simp: FallbackKMS_DecryptDataKey_def Let_def split: option.splits)
      have "fallback_valid valid opens ?g" by (rule fallback_validI [OF t]) (simp_all add: s cache_of_def)
      then show ?thesis using f' s lookup_opens [of valid opens ?g e p] by auto
    next
      case (Inr p')
      with av g assms(2) have f': "f' = cacheKey e p' (f\<lparr>fk_primary := s\<rparr>)" "r = Inr p'" by (auto simp: FallbackKMS_DecryptDataKey_def)
      have "opens s e p'" using decrypted [OF v] g Inr by blast
      then show ?thesis using f' s fallback_valid_cacheKey [OF t] by auto
    qed
  qed
  then show "fallback_valid valid opens f'" "opens (fk_primary f') = opens (fk_primary f)" "r = Inr p \<Longrightarrow> opens (fk_primary f') e p" by blast+
qed

lemma fallback_others:
  assumes "fallback_valid valid opens f"
  shows "fallback_valid valid opens (fst (FallbackKMS_GetPublicKey K w k f))" "opens (fk_primary (fst (FallbackKMS_GetPublicKey K w k f))) = opens (fk_primary f)"
    "fallback_valid valid opens (health_tick K w f)" "opens (fk_primary (health_tick K w f)) = opens (fk_primary f)"
    "fallback_valid valid opens (fst (FallbackKMS_Close K w f))" "opens (fk_primary (fst (FallbackKMS_Close K w f))) = opens (fk_primary f)"
proof -
  have v: "valid (fk_primary f)" using assms by (simp add: fallback_valid_def)
  have g: "valid s \<and> opens s = opens (fk_primary f)" if "kc_GetPublicKey K w k (fk_primary f) = (s, r)" for w k s r
    using keeps_valid(3) [OF v, of w k] keeps_opens(3) [OF v, of w k] that by simp
  have c: "valid s \<and> opens s = opens (fk_primary f)" if "kc_Close K w (fk_primary f) = (s, r)" for w s r
    using keeps_valid(4) [OF v, of w] keeps_opens(4) [OF v, of w] that by simp
  have 1: "valid (fk_primary (fst (FallbackKMS_GetPublicKey K w k f))) \<and> opens (fk_primary (fst (FallbackKMS_GetPublicKey K w k f))) = opens (fk_primary f)"
    using v g by (auto simp: FallbackKMS_GetPublicKey_def split: prod.split sum.split)
  have 2: "valid (fk_primary (health_tick K w f)) \<and> opens (fk_primary (health_tick K w f)) = opens (fk_primary f)"
    using v g by (auto simp: health_tick_def checkHealth_def split: prod.split sum.split)
  have 3: "valid (fk_primary (fst (FallbackKMS_Close K w f))) \<and> opens (fk_primary (fst (FallbackKMS_Close K w f))) = opens (fk_primary f)"
    using v c by (auto simp: FallbackKMS_Close_def split: prod.split option.split)
  show "opens (fk_primary (fst (FallbackKMS_GetPublicKey K w k f))) = opens (fk_primary f)" "opens (fk_primary (health_tick K w f)) = opens (fk_primary f)"
    "opens (fk_primary (fst (FallbackKMS_Close K w f))) = opens (fk_primary f)" using 1 2 3 by blast+
  show "fallback_valid valid opens (fst (FallbackKMS_GetPublicKey K w k f))" "fallback_valid valid opens (health_tick K w f)"
    "fallback_valid valid opens (fst (FallbackKMS_Close K w f))"
    using 1 2 3 by (auto intro!: fallback_validI [OF assms] simp: other_cache)
qed

text \<open>Over a provider that meets the contract the decorator meets it.\<close>

lemma fallback_provider: "kms_provider (fallback_ops K) (fallback_valid valid opens) (\<lambda>f. opens (fk_primary f))"
proof (unfold_locales, unfold fallback_ops_simps, goal_cases)
  case (1 s e p q)
  then show ?case by (rule opens_unique)
next
  case (2 s w k n s' p e)
  from fallback_generates(3) [OF 2] show ?case by blast
next
  case (3 s w k e s' p)
  from fallback_decrypts(3) [OF 3] show ?case by blast
next
  case (4 s w k n)
  from fallback_generates(1) [OF 4 prod.collapse [symmetric]] show ?case .
next
  case (5 s w k e)
  from fallback_decrypts(1) [OF 5 prod.collapse [symmetric]] show ?case .
next
  case (6 s w k)
  from fallback_others(1) [OF 6] show ?case .
next
  case (7 s w)
  from fallback_others(5) [OF 7] show ?case .
next
  case (8 s w k n)
  from fallback_generates(2) [OF 8 prod.collapse [symmetric]] show ?case .
next
  case (9 s w k e)
  from fallback_decrypts(2) [OF 9 prod.collapse [symmetric]] show ?case .
next
  case (10 s w k)
  from fallback_others(2) [OF 10] show ?case .
next
  case (11 s w)
  from fallback_others(6) [OF 11] show ?case .
qed

lemma kms_step_valid:
  assumes "fallback_valid valid opens f"
  shows "fallback_valid valid opens (kms_step K f ev) \<and> opens (fk_primary (kms_step K f ev)) = opens (fk_primary f)"
  using fallback_generates(1,2) [OF assms prod.collapse [symmetric]] fallback_decrypts(1,2) [OF assms prod.collapse [symmetric]] fallback_others [OF assms]
  by (cases ev) simp_all

lemma kms_run_valid:
  "fallback_valid valid opens f \<Longrightarrow> fallback_valid valid opens (kms_run K f evs) \<and> opens (fk_primary (kms_run K f evs)) = opens (fk_primary f)"
  by (induction evs arbitrary: f) (simp_all add: kms_step_valid)

text \<open>
  A data key that was handed out is decrypted to itself, whatever happened since, and it is decrypted at all as long as fewer calls than
  the cache holds keys came in between, whether or not the provider answers.
\<close>

lemma generated_key_served:
  assumes f: "fallback_valid valid opens f" and g: "FallbackKMS_GenerateDataKey K w k n f = (f1, Inr (p, e))"
    and d: "FallbackKMS_DecryptDataKey K w' k' e (kms_run K f1 evs) = (f2, r)"
  shows "r = Inr q \<Longrightarrow> q = p" "lookupCachedKey e f = None \<Longrightarrow> length evs < fk_maxCache f \<Longrightarrow> r = Inr p"
proof -
  note f1 = fallback_generates [OF f g]
  have run: "fallback_valid valid opens (kms_run K f1 evs)" "opens (fk_primary (kms_run K f1 evs)) = opens (fk_primary f1)"
    using kms_run_valid [OF f1(1)] by blast+
  have same: "q = p" if "r = Inr q" for q
    using fallback_decrypts(2,3) [OF run(1) d] that f1(3) [OF refl] run(2) opens_unique by metis
  then show "r = Inr q \<Longrightarrow> q = p" .
  assume new: "lookupCachedKey e f = None" and len: "length evs < fk_maxCache f"
  obtain s where av: "fk_available f" and c: "f1 = cacheKey e p (f\<lparr>fk_primary := s\<rparr>)"
    using g by (auto simp: FallbackKMS_GenerateDataKey_def split: if_splits prod.splits sum.splits)
  have ok: "cache_ok (f\<lparr>fk_primary := s\<rparr>)" "cache_ok f1" using f f1(1) by (auto simp: fallback_valid_def cache_ok_def)
  have "cached_within 0 e f1" unfolding c using new by (intro cacheKey_cached ok(1)) (simp add: lookupCachedKey_def)
  then have "cached_within (length evs) e (kms_run K f1 evs)" using kms_run_within [OF ok(2), of 0 e evs] len c by simp
  moreover have "cache_ok (kms_run K f1 evs)" using kms_run_ok [OF ok(2)] .
  ultimately obtain q where "lookupCachedKey e (kms_run K f1 evs) = Some q" using cached_lookup by metis
  then have "\<not> isl r" using d by (auto simp: FallbackKMS_DecryptDataKey_def Let_def lookupCachedKey_def split: if_splits prod.splits sum.splits)
  then show "r = Inr p" using same by (cases r) auto
qed

end

section \<open>The local provider meets the contract\<close>

text \<open>What the libraries document: scalars commute (Diffie-Hellman), points of 65 bytes are read back, and what was sealed opens.\<close>

definition ecies_ok :: "ecies_lib \<Rightarrow> bool" where
  "ecies_ok L \<longleftrightarrow> 2 \<le> el_N L \<and> aead_ok (el_aead L) \<and>
     (\<forall>d d'. 0 < d \<longrightarrow> d < el_N L \<longrightarrow> 0 < d' \<longrightarrow> d' < el_N L \<longrightarrow>
        el_ScalarMult L (el_ScalarBaseMult L d) (big_Bytes d') = el_ScalarMult L (el_ScalarBaseMult L d') (big_Bytes d)) \<and>
     (\<forall>d. 0 < d \<longrightarrow> d < el_N L \<longrightarrow> length (el_Marshal L (el_ScalarBaseMult L d)) = 65 \<and>
        el_Unmarshal L (el_Marshal L (el_ScalarBaseMult L d)) = Some (el_ScalarBaseMult L d))"

definition key_pair :: "ecies_lib \<Rightarrow> PrivateKey \<Rightarrow> bool" where
  "key_pair L k \<longleftrightarrow> 0 < pk_D k \<and> pk_D k < el_N L \<and> pk_PublicKey k = el_ScalarBaseMult L (pk_D k)"

lemma GenerateKey_pair: "2 \<le> el_N L \<Longrightarrow> ecdsa_GenerateKey L random = Inr k \<Longrightarrow> key_pair L k"
proof -
  assume N: "2 \<le> el_N L" and g: "ecdsa_GenerateKey L random = Inr k"
  obtain r where k: "pk_D k = r mod (el_N L - 1) + 1" "pk_PublicKey k = el_ScalarBaseMult L (pk_D k)"
    using g by (auto simp: ecdsa_GenerateKey_def Let_def split: sum.splits)
  have "r mod (el_N L - 1) < el_N L - 1" using N by (intro mod_less_divisor) linarith
  then show "key_pair L k" using k by (simp add: key_pair_def)
qed

text \<open>A provider with the key pair \<open>k\<close>, whether or not it has been closed.\<close>

definition local_valid :: "ecies_lib \<Rightarrow> PrivateKey \<Rightarrow> LocalKMS \<Rightarrow> bool" where
  "local_valid L k l \<longleftrightarrow> ecies_ok L \<and> key_pair L k \<and> lk_publicKey l = Some (pk_PublicKey k) \<and> lk_privateKey l \<in> {None, Some k}"

definition local_opens :: "ecies_lib \<Rightarrow> PrivateKey \<Rightarrow> LocalKMS \<Rightarrow> byte list \<Rightarrow> byte list \<Rightarrow> bool" where
  "local_opens L k l e p \<longleftrightarrow> ecies_open L (pk_D k) e = Inr p"

lemma aes_key_32: "aes_key_error (shared_key L P d b) = None"
proof -
  have "length (shared_key L P d b) = 32" by (simp add: shared_key_def hkdfDeriveLocal_def min_def)
  then show ?thesis by (simp add: aes_key_error_def)
qed

lemma ecies_round_trip:
  assumes L: "ecies_ok L" and k: "key_pair L k" and P: "lk_publicKey l = Some (pk_PublicKey k)" and e: "encryptWithECIES L w p l = Inr e"
  shows "ecies_open L (pk_D k) e = Inr p"
proof -
  obtain eph nonce where g: "ecdsa_GenerateKey L (lw_keygen w) = Inr eph" and n: "ReadFull (lw_nonce w) 12 = Inr nonce"
    and e': "e = el_Marshal L (pk_PublicKey eph) @ nonce @ gcm_seal (el_aead L) (shared_key L (pk_PublicKey k) (pk_D eph) (el_Marshal L (pk_PublicKey eph))) nonce p"
    using e P aes_key_32 by (auto simp: encryptWithECIES_def Let_def split: sum.splits)
  have q: "key_pair L eph" using GenerateKey_pair [OF _ g] L by (simp add: ecies_ok_def)
  let ?m = "el_Marshal L (pk_PublicKey eph)"
  have m: "length ?m = 65" "el_Unmarshal L ?m = Some (pk_PublicKey eph)" using L q by (auto simp: ecies_ok_def key_pair_def)
  have s: "shared_key L (pk_PublicKey eph) (pk_D k) ?m = shared_key L (pk_PublicKey k) (pk_D eph) ?m"
    using L k q by (auto simp: ecies_ok_def key_pair_def shared_key_def)
  have "length nonce = 12" using n by (rule ReadFull_length)
  then have t: "take 65 e = ?m" "length e \<ge> 77" "take 12 (drop 65 e) = nonce"
    "drop 77 e = gcm_seal (el_aead L) (shared_key L (pk_PublicKey k) (pk_D eph) ?m) nonce p"
    using m(1) by (simp_all add: e')
  have "gcm_open (el_aead L) key nonce (gcm_seal (el_aead L) key nonce p) = Some p" for key using L by (simp add: ecies_ok_def aead_ok_def)
  then show ?thesis unfolding ecies_open_def t using t(2) m(2) by (simp add: Let_def aes_key_32 s)
qed

interpretation local_provider: kms_provider "local_ops L" "local_valid L k" "local_opens L k" for L k
proof (unfold_locales, unfold local_ops_simps, goal_cases)
  case (1 s e p q)
  then show ?case by (simp add: local_opens_def)
next
  case (2 s w k' n s' p e)
  then show ?case using ecies_round_trip [of L k s w p e]
    by (auto simp: LocalKMS_GenerateDataKey_def local_valid_def local_opens_def split: sum.splits)
next
  case (3 s w k' e s' p)
  then show ?case by (auto simp: LocalKMS_DecryptDataKey_def decryptWithECIES_def local_valid_def local_opens_def split: sum.splits option.splits)
qed (auto simp: LocalKMS_GenerateDataKey_def LocalKMS_DecryptDataKey_def LocalKMS_GetPublicKey_def LocalKMS_Close_def local_valid_def local_opens_def fun_eq_iff
    split: sum.splits)

interpretation local_fallback: kms_provider "fallback_ops (local_ops L)" "fallback_valid (local_valid L k) (local_opens L k)" "\<lambda>f. local_opens L k (fk_primary f)" for L k
  by (rule local_provider.fallback_provider)

lemma NewFallback_valid:
  assumes "NewFallbackKMS (Some l) mode interval = Inr f" "local_valid L k l"
  shows "fallback_valid (local_valid L k) (local_opens L k) f" "fk_maxCache f = 1000"
  using NewFallbackKMS_ok [OF assms(1)] assms(2) by (auto simp: fallback_valid_def)

lemma kms_run_maxCache: "fk_maxCache (kms_run K f evs) = fk_maxCache f"
  by (induction evs arbitrary: f) (simp_all add: cacheKey_maxCache)

section \<open>Properties\<close>

text \<open>
  C36. Data keys are never confused and outlive an outage. In the local key management behind its fallback, after any calls, health checks and
  close calls: a data key that was generated is only ever decrypted to itself. If its encrypted form was not in the cache before, it is
  decrypted without error as long as fewer than a thousand operations came after it, whatever the provider answers in them, even when it has
  been closed. Assumed of the libraries: Diffie-Hellman, the encoding of points and the cipher work as documented.
\<close>

theorem data_key_survives_outage:
  assumes "NewFallbackKMS (Some l) mode interval = Inr f0" "local_valid L key l"
    and "FallbackKMS_GenerateDataKey (local_ops L) w k n (kms_run (local_ops L) f0 before) = (f1, Inr (p, e))"
    and "FallbackKMS_DecryptDataKey (local_ops L) w' k' e (kms_run (local_ops L) f1 after) = (f2, r)"
  shows "(\<forall>q. r = Inr q \<longrightarrow> q = p) \<and>
    (lookupCachedKey e (kms_run (local_ops L) f0 before) = None \<longrightarrow> length after < 1000 \<longrightarrow> r = Inr p)"
proof -
  let ?f = "kms_run (local_ops L) f0 before"
  have v: "fallback_valid (local_valid L key) (local_opens L key) ?f"
    using local_provider.kms_run_valid [OF NewFallback_valid(1) [OF assms(1,2)]] by blast
  have m: "fk_maxCache ?f = 1000" using NewFallback_valid(2) [OF assms(1,2)] by (simp add: kms_run_maxCache)
  show ?thesis
  proof (intro conjI allI impI)
    fix q assume "r = Inr q"
    then show "q = p" by (rule local_provider.generated_key_served(1) [OF v assms(3,4)])
  next
    assume "lookupCachedKey e ?f = None" "length after < 1000"
    then show "r = Inr p" using local_provider.generated_key_served(2) [OF v assms(3,4)] unfolding m by blast
  qed
qed

definition toy_lib :: ecies_lib where
  "toy_lib = \<lparr>el_N = 2, el_ScalarBaseMult = (\<lambda>_. (0, 0)), el_ScalarMult = (\<lambda>_ _. (0, 0)), el_Marshal = (\<lambda>_. replicate 65 4),
     el_Unmarshal = (\<lambda>_. Some (0, 0)), el_hkdf = (\<lambda>_ _ _. []), el_aead = \<lparr>gcm_seal = (\<lambda>_ _ p. p), gcm_open = (\<lambda>_ _ c. Some c)\<rparr>,
     el_ParseECPrivateKey = (\<lambda>_. Inr \<lparr>pk_D = 1, pk_PublicKey = (0, 0)\<rparr>), el_MarshalECPrivateKey = (\<lambda>_. Inr [1]), el_MarshalPKIXPublicKey = (\<lambda>_. Inr [2])\<rparr>"

definition toy_key :: PrivateKey where
  "toy_key = \<lparr>pk_D = 1, pk_PublicKey = (0, 0)\<rparr>"

definition toy_world :: "local_world fallback_world" where
  "toy_world = \<lparr>fw_primary = \<lparr>lw_os = demo_os [], lw_writePriv = WOk, lw_writePub = WOk, lw_keygen = Inr 0, lw_dek = Inr [9], lw_nonce = Inr []\<rparr>, fw_now = 5\<rparr>"

definition toy_fallback :: "LocalKMS FallbackKMS" where
  "toy_fallback = projr (NewFallbackKMS (Some (local_kms toy_key [2] ''k'')) '''' 0)"

lemma toy_valid: "local_valid toy_lib toy_key (local_kms toy_key [2] ''k'')"
  by (auto simp: local_valid_def ecies_ok_def key_pair_def aead_ok_def toy_lib_def toy_key_def local_kms_def)

text \<open>The provider is closed between the two calls, so the key comes from the cache.\<close>

theorem data_key_survives_outage_witness:
  "\<exists>p e f1. FallbackKMS_GenerateDataKey (local_ops toy_lib) toy_world '''' 4 toy_fallback = (f1, Inr (p, e)) \<and>
     snd (FallbackKMS_DecryptDataKey (local_ops toy_lib) toy_world '''' e (kms_run (local_ops toy_lib) f1 [EClose toy_world])) = Inr p"
proof -
  have n: "NewFallbackKMS (Some (local_kms toy_key [2] ''k'')) '''' 0 = Inr toy_fallback" by (simp add: toy_fallback_def NewFallbackKMS_def)
  obtain f1 e where g: "FallbackKMS_GenerateDataKey (local_ops toy_lib) toy_world '''' 4 toy_fallback = (f1, Inr ([9, 0, 0, 0], e))"
    by (simp add: FallbackKMS_GenerateDataKey_def toy_fallback_def NewFallbackKMS_def LocalKMS_GenerateDataKey_def encryptWithECIES_def aes_key_32
        ecdsa_GenerateKey_def local_kms_def toy_world_def ReadFull_def numeral_eq_Suc Let_def)
  have c: "lookupCachedKey e toy_fallback = None" by (simp add: lookupCachedKey_def toy_fallback_def NewFallbackKMS_def)
  have "length [EClose toy_world] < 1000" by simp
  with data_key_survives_outage [where before = "[]" and after = "[EClose toy_world]" and w' = toy_world and k' = "[]", OF n toy_valid,
        unfolded foldl_Nil, OF g prod.collapse [symmetric], THEN conjunct2, THEN mp, OF c]
  have "snd (FallbackKMS_DecryptDataKey (local_ops toy_lib) toy_world [] e (kms_run (local_ops toy_lib) f1 [EClose toy_world])) = Inr [9, 0, 0, 0]"
    by (rule mp)
  with g show ?thesis by blast
qed

section \<open>Restarts and refusals\<close>

lemma Split1_snoc: "CHR ''/'' \<notin> set ext \<Longrightarrow> Split1 (p @ ext) CHR ''/'' = butlast (Split1 p CHR ''/'') @ [last (Split1 p CHR ''/'') @ ext]"
  by (induction p) (auto simp: Split1_notin split: list.splits)

lemma key_file_last:
  assumes "CHR ''/'' \<notin> set ext" "length ext > 2"
  shows "key_file p ext = clean [] (butlast (Split1 p CHR ''/'')) @ [last (Split1 p CHR ''/'') @ ext]"
proof -
  have "list_all plain_component [last (Split1 p CHR ''/'') @ ext]"
    using assms(2) by (auto simp: plain_component_def dest: arg_cong [where f = length])
  then show ?thesis using clean_append [of "[last (Split1 p CHR ''/'') @ ext]" "[]"] by (simp add: key_file_def Join_def Split1_snoc [OF assms(1)])
qed

lemma key_files_differ: "key_file p ''.priv'' \<noteq> key_file p ''.pub''"
  by (simp add: key_file_last)

lemma WriteFile_ok: "WriteFile out p d fs = (fs', None) \<Longrightarrow> file_at fs' = (file_at fs)(p \<mapsto> d) \<and> map_of fs' p = Some (File d)"
  by (auto simp: WriteFile_def update_conv' split: if_splits sum.splits node.splits write_outcome.splits)

text \<open>
  A provider that made its key pair finds it again: after a start that generated the keys, any later start that can read the file, and before
  which nothing else wrote it, has the same key pair and changes nothing.
\<close>

theorem restart_keeps_keys:
  assumes "generate_and_save L w path fs = (fs1, Inr l)" "path \<noteq> ''''"
    and "\<And>k b. el_MarshalECPrivateKey L k = Inr b \<Longrightarrow> el_ParseECPrivateKey L b = Inr k" "\<not> ow_fails (lw_os w') SOpen"
  shows "NewLocalKMS L w' path fs1 = (fs1, Inr l)"
proof -
  obtain k privKeyBytes pub fs2 fs3 where e: "el_MarshalECPrivateKey L k = Inr privKeyBytes" "el_MarshalPKIXPublicKey L (pk_PublicKey k) = Inr pub"
    and w: "WriteFile (lw_writePriv w) (key_file path ''.priv'') privKeyBytes fs2 = (fs3, None)" "WriteFile (lw_writePub w) (key_file path ''.pub'') pub fs3 = (fs1, None)"
    and l: "l = local_kms k pub path"
    using assms(1) by (auto simp: generate_and_save_def split: sum.splits prod.splits option.splits)
  have "file_at fs1 (key_file path ''.priv'') = Some privKeyBytes"
    using WriteFile_ok [OF w(1)] WriteFile_ok [OF w(2)] key_files_differ [of path] by simp
  then have "fs_stat fs1 (key_file path ''.priv'') = Inr (File privKeyBytes)" by (simp only: fs_stat_file)
  then have "load_private_key L w' path fs1 = Some k"
    using assms(3) [OF e(1)] assms(4) by (simp add: load_private_key_def ReadFile_def open_file_def ReadAll_def)
  then show ?thesis using e(2) l assms(2) by (simp add: NewLocalKMS_def)
qed

text \<open>
  A private key that cannot be read is replaced: when opening the file fails, for whatever reason, a start that succeeds has written another
  key over it, and data keys encrypted for the old one are lost.
\<close>

theorem unreadable_key_replaced:
  assumes "ow_fails (lw_os w) SOpen" "path \<noteq> ''''" "NewLocalKMS L w path fs = (fs1, Inr l)"
  shows "\<exists>k b. ecdsa_GenerateKey L (lw_keygen w) = Inr k \<and> el_MarshalECPrivateKey L k = Inr b \<and> lk_privateKey l = Some k \<and>
    file_at fs1 (key_file path ''.priv'') = Some b"
proof -
  have "load_private_key L w path fs = None" using assms(1) by (simp add: load_private_key_def ReadFile_def open_file_def)
  then have g: "generate_and_save L w path fs = (fs1, Inr l)" using assms(2,3) by (simp add: NewLocalKMS_def)
  obtain k b pub fs2 fs3 where e: "ecdsa_GenerateKey L (lw_keygen w) = Inr k" "el_MarshalECPrivateKey L k = Inr b"
    and w: "WriteFile (lw_writePriv w) (key_file path ''.priv'') b fs2 = (fs3, None)" "WriteFile (lw_writePub w) (key_file path ''.pub'') pub fs3 = (fs1, None)"
    and l: "l = local_kms k pub path"
    using g by (auto simp: generate_and_save_def split: sum.splits prod.splits option.splits)
  have "file_at fs1 (key_file path ''.priv'') = Some b"
    using WriteFile_ok [OF w(1)] WriteFile_ok [OF w(2)] key_files_differ [of path] by simp
  with e l show ?thesis by (auto simp: local_kms_def)
qed

text \<open>
  One encrypted key that the provider refuses, for example because it is too short, makes the fallback treat the provider as down: no data key can be
  generated until a health check succeeds.
\<close>

theorem bad_ciphertext_denies_keys:
  assumes "fk_available f" "length e < 65"
  shows "snd (FallbackKMS_GenerateDataKey (local_ops L) w' k' n (fst (FallbackKMS_DecryptDataKey (local_ops L) w k e f))) =
    Inl (Err (''kms/fallback: KMS unavailable, cannot generate new data key'' @ mode_text f))"
proof -
  obtain m where m: "LocalKMS_DecryptDataKey L (fw_primary w) k e (fk_primary f) = (fk_primary f, Inl m)"
    using assms(2) by (cases "lk_privateKey (fk_primary f)") (simp_all add: LocalKMS_DecryptDataKey_def decryptWithECIES_def ecies_open_def)
  let ?f = "fst (FallbackKMS_DecryptDataKey (local_ops L) w k e f)"
  have "\<not> fk_available ?f" "fk_mode ?f = fk_mode f" using m assms(1) by (simp_all add: FallbackKMS_DecryptDataKey_def Let_def markUnavailable_def)
  then show ?thesis by (simp add: FallbackKMS_GenerateDataKey_def mode_text_def)
qed

end
