(* ===== verification/Spec2Isabelle.thy ===== *)
theory Spec2Isabelle
  imports IAM_Invariant Object_Cache Task_Bolt Circuit_Breaker Meta_Properties Integrity Plugin_FSM Plugin_Topology FTS_Hybrid Event_Bus Erasure Tiering Object_Lock Gateway_IAM KMS
begin

text \<open>
  CipherLake is an S3-compatible object store written in Go. This development models the parts
  of it that decide and that remember: who may do what (\<^verbatim>\<open>src/internal/iam\<close>), how many requests are
  let through (\<^verbatim>\<open>src/internal/ratelimit\<close>), what is known of buckets and objects
  (\<^verbatim>\<open>src/internal/metadata\<close>) and how it is replicated (\<^verbatim>\<open>src/internal/raft\<close>), what is kept in
  memory (\<^verbatim>\<open>src/internal/cache\<close>), what is done later (\<^verbatim>\<open>src/internal/taskqueue\<close>), what plug-ins
  may do (\<^verbatim>\<open>src/internal/pluginloader\<close>) and how text is found (\<^verbatim>\<open>src/internal/fts\<close>). The gateway
  calls the evaluator and the limiters before it serves a request from the metadata store; the
  proxy sends the writes of the metadata store through the replicated log.

  \<^bold>\<open>Access management.\<close> \<open>IAM_Types\<close> holds the records, constants and resource names of
  \<^verbatim>\<open>types.go\<close>. \<open>IAM_Store\<close> is \<^verbatim>\<open>store.go\<close> and \<^verbatim>\<open>scp.go\<close>: the operations of \<^verbatim>\<open>IAMStore\<close> over a
  BoltDB database, which is the argument \<open>B :: 'db bolt\<close> with its documented behaviour as the
  hypotheses \<open>bolt_ok\<close> and \<open>no_write_errors\<close>; \<open>mem_bolt\<close> is a database that satisfies them. The
  locales \<open>keyed_bucket\<close> and \<open>listed_bucket\<close> state what the rest relies on and are interpreted
  on all the kinds of record. \<open>Glob\<close> is the wildcard matcher of \<^verbatim>\<open>policy.go\<close> with its
  equivalence to the meaning of patterns. \<open>IAM_Conditions\<close> is the condition engine (keys,
  \<^verbatim>\<open>${...}\<close> substitution, operators, CIDR blocks) and the tag helpers of \<^verbatim>\<open>abac.go\<close>;
  \<open>IAM_Policy\<close> is the evaluator, its locale \<open>deny_override\<close>, interpreted on all four evaluators,
  and the abstract decision \<open>authorize\<close> that \<open>Evaluate\<close> is proved to implement. \<open>IAM_Crypto\<close> is the
  master key of \<^verbatim>\<open>crypto.go\<close> over an AEAD argument. \<open>IAM_Service\<close> is \<^verbatim>\<open>service.go\<close> and
  \<^verbatim>\<open>boundary.go\<close>: one state transformer per operation, every error path a value.
  \<open>IAM_Invariant\<close> proves that every operation keeps the stored identities consistent, makes the
  service a transition system (\<open>iam_step\<close>, \<open>iam_reachable\<close>) and concludes for all reachable states.

  \<^bold>\<open>Metadata.\<close> \<open>Bolt\<close> is what the other users of BoltDB need of it: transactions that read what
  they wrote and leave the database alone when they fail, cursors in key order. It is the
  argument \<open>B :: ('db, 'tx, 'd) bolt_db\<close> with the hypotheses \<open>bolt_db_ok\<close> and \<open>bolt_no_errors\<close>, and
  \<open>mem_db\<close> satisfies them. \<open>Checksum\<close> computes CRC-32 and CRC-64 bit by bit. \<open>Meta_Store\<close> is
  \<^verbatim>\<open>store.go\<close>, one definition per operation and one per part of its transactions;
  \<open>Meta_Accounting\<close> and \<open>Meta_Properties\<close> count what the database holds and prove the counters,
  quotas, listings and deletions. \<open>Integrity\<close> is \<^verbatim>\<open>integrity.go\<close>: checking readers and writers and
  the scrubber. \<open>Raft_FSM\<close> is the state machine of \<^verbatim>\<open>internal/raft\<close>, proved to refine a machine on
  maps, with its snapshots, and the proxy in front of the store; the consensus library is an
  argument.

  \<^bold>\<open>Caches.\<close> \<open>Object_Cache\<close> is \<^verbatim>\<open>cache.go\<close>: the byte-bounded LRU cache with its map, its linked
  list and its heap of elements, the metadata cache and the query cache. The locale
  \<open>ttl_cache\<close> is the contract of all three; the object cache is moreover proved to refine a
  list specification, over whole runs.

  \<^bold>\<open>Task queue.\<close> \<open>Exchange_Sort\<close> is the sort the code writes out by hand, with a locale for its
  comparisons. \<open>Task_Queue\<close> is \<^verbatim>\<open>task.go\<close>, \<^verbatim>\<open>queue.go\<close> and the in-memory store of
  \<^verbatim>\<open>store.go\<close>, \<open>Task_Bolt\<close> is \<^verbatim>\<open>bolt_store.go\<close> and \<^verbatim>\<open>payloads.go\<close>. The locale \<open>task_store\<close> is what a
  worker relies on; it is interpreted on the in-memory store for every order in which Go may
  visit a map, and on the BoltDB store. The worker's rounds are \<open>processOne\<close> and \<open>process_rounds\<close>.

  \<^bold>\<open>Rate limits.\<close> \<open>Float64\<close> is round-to-nearest-even arithmetic with 53 bits on the rationals, for
  the range the limiters compute in (no overflow, no subnormal numbers). \<open>Rate_Limit\<close> and
  \<open>Circuit_Breaker\<close> are \<^verbatim>\<open>ratelimit.go\<close>: sliding windows, token buckets, bandwidth accounts, the
  multi-level limiter and its statistics, per-user limits, the circuit breaker as a state
  machine, and the concurrency limiter as interleaved atomic steps of its callers.

  \<^bold>\<open>Plug-ins.\<close> \<open>Plugin_Capability\<close> is \<^verbatim>\<open>capability.go\<close>, the table of tokens, and \<^verbatim>\<open>trust.go\<close>, the trust
  store, over arguments for Ed25519 and SHA-256; the history of a table decides what a token is
  good for. \<open>Plugin_Manifest\<close> is \<^verbatim>\<open>manifest.go\<close>, the declaration of a plug-in and its validation, \<open>Plugin_Topology\<close> the load order
  of \<^verbatim>\<open>topology.go\<close>, Kahn's algorithm. \<open>Plugin_FSM\<close> is \<^verbatim>\<open>fsm.go\<close>, the replicated state of the loader, with an
  argument for nested buckets and a specification on what the database shows.

  \<^bold>\<open>Full-text search.\<close> \<open>FTS_Tokenizer\<close> is \<^verbatim>\<open>tokenizer.go\<close>: UTF-8, words, stop words and the stemmer.
  \<open>FTS_Segment\<close> is \<^verbatim>\<open>segment.go\<close>: posting lists, the manager of the segments, merging and the
  compressed form; the locale \<open>posting_store\<close> is interpreted on a segment and on the manager.
  \<open>FTS_Index\<close> is \<^verbatim>\<open>index.go\<close>, \<^verbatim>\<open>bm25.go\<close> and \<^verbatim>\<open>compaction.go\<close>, with arguments for the logarithm and for the
  library sort, which is given the comparisons of the code; \<open>FTS_Hybrid\<close> is \<^verbatim>\<open>hybrid.go\<close>, where highlighting is a loop that need not end.

  \<^bold>\<open>Event notifications.\<close> \<open>Event_Delivery\<close> is \<^verbatim>\<open>rule.go\<close>, \<^verbatim>\<open>webhook.go\<close>, \<^verbatim>\<open>metrics.go\<close> and \<^verbatim>\<open>deadletter.go\<close> of \<^verbatim>\<open>internal/events\<close>;
  \<open>Event_Bus\<close> is \<^verbatim>\<open>bus.go\<close>, a labelled transition system whose steps are the channel operations of the publishers, the
  dispatch loop, the workers, the retry loop and \<^verbatim>\<open>Stop\<close>, in any interleaving; the trace of a run says what was
  accepted, routed, taken and delivered.

  \<^bold>\<open>Object storage.\<close> \<open>Storage_Backend\<close> is the file back end of \<^verbatim>\<open>storage/store.go\<close> on a model of the file system in which any
  system call may fail; the locale \<open>blob_backend\<close> is the contract of \<^verbatim>\<open>BackendStorage\<close>. \<open>Erasure\<close> is \<^verbatim>\<open>erasure.go\<close> over that contract, with
  an argument for the Reed-Solomon code. \<open>Tiered_Store\<close> is \<^verbatim>\<open>TieredObjectStore\<close>, which joins the back ends with \<open>Meta_Store\<close>, and \<open>Object_Lock\<close>
  its locks, as interleaved steps. \<open>Tiering\<close> is \<^verbatim>\<open>internal/tiering\<close>, with scores in \<^verbatim>\<open>float64\<close> arithmetic.

  \<^bold>\<open>Key management.\<close> \<open>KMS\<close> is \<^verbatim>\<open>kms.go\<close>, \<^verbatim>\<open>local.go\<close> and \<^verbatim>\<open>fallback.go\<close> of \<^verbatim>\<open>internal/kms\<close>: the locale \<open>kms_provider\<close> is the contract of \<^verbatim>\<open>KMSClient\<close>, met by the
  local provider and, over any provider that meets it, by the fallback. The cryptographic libraries are arguments.

  \<^bold>\<open>The gateway.\<close> \<open>SigV4\<close> is \<^verbatim>\<open>sigv4.go\<close>: what of a request is signed and how it is put into canonical form. \<open>Gateway_Auth\<close> is \<^verbatim>\<open>auth.go\<close>: the
  local users with their file, passwords, tokens and lock-out, and the handlers of \<^verbatim>\<open>/admin/users\<close>. \<open>Gateway_IAM\<close> is \<^verbatim>\<open>iam_bridge.go\<close> and \<^verbatim>\<open>auth_provider.go\<close>,
  which join them with \<open>IAM_Service\<close> and \<open>IAM_Policy\<close>, and \<^verbatim>\<open>requireIdentity\<close>, which every S3 handler calls first. bcrypt, the token library and the hash
  functions are arguments.

  \<^bold>\<open>Conventions.\<close> \<open>Prelude\<close> has the shared ground: results (\<open>Inl (Err m)\<close> an error, \<open>Inl (Panic m)\<close>
  a run-time panic), times as nanoseconds since year 1 with 0 the zero time, and Go's string
  functions on byte strings. Clock readings, random bytes and map orders are arguments, one for
  each place the code reads them. Durations, shifts and the counters of the metadata store wrap
  at 64 bits; counters and byte totals that cannot reach their limits are integers. Substitution is a
  \<^theory_text>\<open>partial_function (option)\<close>, because it need not end; so are the loop of the scrubber and the highlighter;
  \<open>Bandwidth_Wait\<close>, which polls until the limiter lets it through, runs on fuel, one unit per
  poll. All other loops are total functions.

  \<^bold>\<open>What is shown.\<close> The evaluator decides as specified (C1); wildcards
  (C10); reachable stores are consistent, 
  keys work as issued (C4, C26); the counters of a bucket follow its objects,
  quotas hold, listings show what there is (C2, C11, C33); the scrubber
  finds a changed byte (C24); replicas agree (C3); caches serve current values, as
  specified (C8); tasks are retried a bounded
  number of times (C16); limits hold over time (C12, C13); plug-ins do only what they were granted, at
  the tier their signature gives them (C28, C29), and are loaded after what they depend on (C25);
  the loader's replicated state follows its specification (C7); a search finds the best of the documents
  that contain a term of the query, whatever the segments went through, and its stored forms are read back
  (C9, C23, C32, C34); events of one key are
  delivered in order, what is in flight is counted, webhooks stay outside and retries end (C21, C22, C30, C31);
  files are replaced atomically, objects survive lost shards and interrupted migrations, locks exclude (C17 to C20);
  the gateway serves only users it has identified, a signature binds its request, tokens stand for the users they were issued to and passwords cannot be guessed fast
  (C5, C6, C14, C15, C27).
  Data keys are read back, also while their provider is down (C36).
  C35, C37 to C40 state where the code does something other than it means to.

  \<^bold>\<open>What is not modelled.\<close> JSON encoding (a stored value is the document it encodes), the
  background loops and locks of the queue, the scrubber and the limiters other than the
  concurrency limiter, \<^verbatim>\<open>CleanupExpiredTempCreds\<close> (it deletes while it iterates, which BoltDB
  leaves undefined), the HTTP layer of the admin interface, remote identity providers and the
  set-up of the consensus library. Of the plug-in loader, the WebAssembly runtime and the host
  functions; of the rest, the cloud back ends, the remote key management, replication, vector search and the request
  handlers of the gateway.
\<close>

section \<open>Access management over whole runs\<close>

text \<open>
  A permission boundary binds: in every state the service can reach, when the evaluator
  allows a request of a stored user with a permission boundary because of an identity policy,
  the boundary's policy is stored, one of its Allow statements matches the request and none of
  its Deny statements does. (An allow by the bucket policy is not under the boundary.)
\<close>

theorem permission_boundary_binds:
  assumes "iam_reachable B s" "bolt_ok B" "no_write_errors B"
    and "GetUser B s (ctx_Principal ctx) = Inr u" "user_PermissionBoundary u \<noteq> ''''"
    and "Evaluate S B (Some s) ctx = Some r" "res_Decision r = DecisionAllow" "res_PolicyType r = ''identity''"
  shows "\<exists>p. GetPolicy B s (user_PermissionBoundary u) = Inr p \<and>
    doc_has S ctx EffectAllow (policy_Document p) \<and> \<not> doc_has S ctx EffectDeny (policy_Document p)"
proof -
  have "user_refs (v_policies (view B s)) u"
    using stored_user_refs [OF iam_reachable_consistent [OF assms(1-3)] assms(4)] .
  with assms(5) obtain p where p: "GetPolicy B s (user_PermissionBoundary u) = Inr p"
    by (auto simp: user_refs_def)
  have "evaluate_policies S B s ctx (Some u) = Some r"
    using Evaluate_allow_parts [OF assms(6,7)] assms(4) by (metis option.inject stored_user_def sum.case(2))
  then obtain a where "boundary_verdict S B s ctx (Some u) a = Some r"
    using assms(7,8) by (auto simp: evaluate_policies_def Let_def split: option.splits prod.splits)
  with assms(5,7) p obtain b where "evaluateBoundary S ctx (policy_Document p) = Some b" "res_Decision b = DecisionAllow"
    by (auto simp: boundary_verdict_def split: option.splits if_splits)
  with boundary_ev.allowed_means_undenied [of "(S, policy_Document p)" ctx b] p
  show ?thesis by (auto simp: doc_has_def)
qed

text \<open>A user whose boundary is the policy that is also attached.\<close>

definition bounded_store :: "IAM_Store.mem_db IAMStore" where
  "bounded_store =
     (let s0 = \<lparr>store_db = [], store_scp = None\<rparr>;
          s1 = fst (CreateUser mem_bolt (\<lambda>_. 0) (\<lambda>_. []) s0 ''carol'' '''');
          s2 = fst (CreatePolicy mem_bolt (\<lambda>_. 0) s1 ''get'' '''' (doc_of ''get'' [stmt_on_all ''g'' EffectAllow ''s3:Get*'']));
          s3 = fst (SetPermissionBoundary mem_bolt s2 ''carol'' ''get'')
      in fst (AttachUserPolicy mem_bolt s3 ''carol'' ''get''))"

lemma bounded_store_reachable: "iam_reachable mem_bolt bounded_store"
  unfolding bounded_store_def Let_def
  by (rule reach_step [OF reach_step [OF reach_step [OF reach_step [OF reach_init step_create_user]
        step_create_policy] step_set_boundary] step_attach_user])
     (simp add: empty_store_def mem_bolt_def)

theorem permission_boundary_binds_witness:
  "\<exists>p. GetPolicy mem_bolt bounded_store ''get'' = Inr p \<and>
    doc_has ascii_std (bare_request ''carol'' ''s3:GetObject'' ''x'') EffectAllow (policy_Document p)"
proof -
  let ?ctx = "bare_request ''carol'' ''s3:GetObject'' ''x''"
  let ?ev = "Evaluate ascii_std mem_bolt (Some bounded_store) ?ctx"
  have "map_option (\<lambda>r. (res_Decision r, res_PolicyType r)) ?ev = Some (DecisionAllow, ''identity'')" by code_simp
  then obtain r where r: "?ev = Some r" "res_Decision r = DecisionAllow" "res_PolicyType r = ''identity''" by auto
  have "map_sum id user_PermissionBoundary (GetUser mem_bolt bounded_store (ctx_Principal ?ctx)) = Inr ''get''" by code_simp
  then obtain u where u: "GetUser mem_bolt bounded_store (ctx_Principal ?ctx) = Inr u" "user_PermissionBoundary u = ''get''"
    by (cases "GetUser mem_bolt bounded_store (ctx_Principal ?ctx)") auto
  from permission_boundary_binds [OF bounded_store_reachable mem_bolt_ok mem_bolt_no_write_errors u(1) _ r] u(2)
  show ?thesis by auto
qed

end
